(* ===== verification/Prelude.thy ===== *)
theory Prelude
  imports Main "HOL-Library.Char_ord" "HOL-Library.List_Lexorder"
begin

text \<open>
  What every component shares: the result type of a fallible operation and its sequencing,
  the named collections that carry the automation, list-backed tables with a key, and the
  Python string operations the program uses.

  A Python \<open>str\<close> is modelled by \<open>string\<close>, a list of \<open>char\<close>, read as a sequence of code
  points below 256.  A \<open>frozenset\<close> is kept as a list of its elements and only ever read
  through \<open>set\<close> or through \<open>sorted_unique\<close>, so neither order nor duplicates matter.
\<close>

named_theorems res_simps "sequencing of fallible operations"
named_theorems tbl_simps "lookup and update in list-backed tables"
named_theorems frame_simps "fields an operation leaves alone"

section \<open>Fallible results\<close>

text \<open>
  \<open>andThen m f\<close> runs \<open>f\<close> on the value of \<open>m\<close> and stops at the first error, as a raised
  exception does.
\<close>

definition andThen :: "'e + 'a \<Rightarrow> ('a \<Rightarrow> 'e + 'b) \<Rightarrow> 'e + 'b" where
  "andThen m f = (case m of Inl e \<Rightarrow> Inl e | Inr x \<Rightarrow> f x)"

definition require :: "bool \<Rightarrow> 'e \<Rightarrow> 'e + unit" where
  "require b e = (if b then Inr () else Inl e)"

lemma andThen_Inl [simp, res_simps]: "andThen (Inl e) f = Inl e"
  by (simp add: andThen_def)

lemma andThen_Inr [simp, res_simps]: "andThen (Inr x) f = f x"
  by (simp add: andThen_def)

lemma andThen_eq_Inr [res_simps]: "andThen m f = Inr y \<longleftrightarrow> (\<exists>x. m = Inr x \<and> f x = Inr y)"
  by (cases m) auto

lemma andThen_eq_Inl [res_simps]:
  "andThen m f = Inl e \<longleftrightarrow> m = Inl e \<or> (\<exists>x. m = Inr x \<and> f x = Inl e)"
  by (cases m) auto

lemma andThenE:
  assumes "andThen m f = Inr y"
  obtains x where "m = Inr x" and "f x = Inr y"
  using assms by (auto simp: res_simps)

lemma require_Inr [simp, res_simps]: "require b e = Inr u \<longleftrightarrow> b"
  by (simp add: require_def)

lemma require_Inl [simp, res_simps]: "require b e = Inl e' \<longleftrightarrow> \<not> b \<and> e' = e"
  by (auto simp: require_def)

lemma require_True [simp]: "require True e = Inr ()"
  by (simp add: require_def)

lemma require_False [simp]: "require False e = Inl e"
  by (simp add: require_def)

text \<open>A left fold that stops at the first error: a \<open>for\<close> loop whose body may raise.\<close>

fun foldRes :: "('s \<Rightarrow> 'x \<Rightarrow> 'e + 's) \<Rightarrow> 's \<Rightarrow> 'x list \<Rightarrow> 'e + 's" where
  "foldRes f s [] = Inr s"
| "foldRes f s (x # xs) = andThen (f s x) (\<lambda>s'. foldRes f s' xs)"

lemma foldRes_invariant:
  assumes "foldRes f s xs = Inr s'" and "P s"
    and "\<And>s x s'. x \<in> set xs \<Longrightarrow> P s \<Longrightarrow> f s x = Inr s' \<Longrightarrow> P s'"
  shows "P s'"
  using assms by (induction xs arbitrary: s) (auto simp: res_simps)

section \<open>Tables kept as lists of rows\<close>

text \<open>
  A database table is the list of its rows in insertion order.  \<open>find_row\<close> is a lookup by
  primary key, \<open>upd_rows\<close> an \<open>UPDATE ... WHERE\<close>, and \<open>count_rows\<close> a \<open>SELECT count\<close>.
\<close>

definition find_row :: "('r \<Rightarrow> 'k) \<Rightarrow> 'k \<Rightarrow> 'r list \<Rightarrow> 'r option" where
  "find_row key k rows = find (\<lambda>r. key r = k) rows"

definition upd_rows :: "('r \<Rightarrow> bool) \<Rightarrow> ('r \<Rightarrow> 'r) \<Rightarrow> 'r list \<Rightarrow> 'r list" where
  "upd_rows p f rows = map (\<lambda>r. if p r then f r else r) rows"

lemma find_row_Nil [simp, tbl_simps]: "find_row key k [] = None"
  by (simp add: find_row_def)

lemma find_row_Cons [simp, tbl_simps]:
  "find_row key k (r # rows) = (if key r = k then Some r else find_row key k rows)"
  by (simp add: find_row_def)

lemma find_row_SomeD: "find_row key k rows = Some r \<Longrightarrow> r \<in> set rows \<and> key r = k"
  by (induction rows) (auto split: if_splits)

lemma find_row_None: "find_row key k rows = None \<longleftrightarrow> k \<notin> key ` set rows"
  by (induction rows) auto

lemma find_row_append [tbl_simps]:
  "find_row key k (rows @ rows') =
     (case find_row key k rows of None \<Rightarrow> find_row key k rows' | Some r \<Rightarrow> Some r)"
  by (induction rows) auto

lemma find_row_distinct:
  "distinct (map key rows) \<Longrightarrow> r \<in> set rows \<Longrightarrow> find_row key (key r) rows = Some r"
  by (induction rows) force+

lemma upd_rows_Nil [simp, tbl_simps]: "upd_rows p f [] = []"
  by (simp add: upd_rows_def)

lemma upd_rows_Cons [simp, tbl_simps]:
  "upd_rows p f (r # rows) = (if p r then f r else r) # upd_rows p f rows"
  by (simp add: upd_rows_def)

lemma upd_rows_append [tbl_simps]: "upd_rows p f (xs @ ys) = upd_rows p f xs @ upd_rows p f ys"
  by (simp add: upd_rows_def)

lemma length_upd_rows [simp]: "length (upd_rows p f rows) = length rows"
  by (simp add: upd_rows_def)

lemma set_upd_rows: "set (upd_rows p f rows) = (\<lambda>r. if p r then f r else r) ` set rows"
  by (simp add: upd_rows_def)

lemma map_upd_rows_frame:
  "(\<And>r. p r \<Longrightarrow> g (f r) = g r) \<Longrightarrow> map g (upd_rows p f rows) = map g rows"
  by (induction rows) auto

lemma find_row_upd_rows [tbl_simps]:
  "(\<And>r. p r \<Longrightarrow> key (f r) = key r) \<Longrightarrow>
   find_row key k (upd_rows p f rows) =
     map_option (\<lambda>r. if p r then f r else r) (find_row key k rows)"
  by (induction rows) auto

lemma upd_rows_none: "(\<And>r. r \<in> set rows \<Longrightarrow> \<not> p r) \<Longrightarrow> upd_rows p f rows = rows"
  by (induction rows) auto

text \<open>
  The interface of a table with a primary key: a row is found under the key it was inserted
  with, an update is seen by the next lookup and by no other key.
\<close>

locale keyed_table =
  fixes rows :: "'s \<Rightarrow> 'r list"
    and put_rows :: "'r list \<Rightarrow> 's \<Rightarrow> 's"
    and key :: "'r \<Rightarrow> 'k"
  assumes rows_put: "rows (put_rows rs s) = rs"
begin

lemma lookup_insert:
  "find_row key (key r) (rows s) = None \<Longrightarrow>
   find_row key k (rows (put_rows (rows s @ [r]) s)) =
     (if k = key r then Some r else find_row key k (rows s))"
  by (auto simp: rows_put find_row_append split: option.splits)

lemma lookup_update:
  assumes "\<And>r. key (f r) = key r"
  shows "find_row key k (rows (put_rows (upd_rows (\<lambda>r. key r = k' \<and> p r) f (rows s)) s)) =
     (case find_row key k (rows s) of None \<Rightarrow> None
      | Some r \<Rightarrow> Some (if k = k' \<and> p r then f r else r))"
proof -
  have "find_row key k (rows s) = Some r \<Longrightarrow> key r = k" for r
    by (auto dest: find_row_SomeD)
  then show ?thesis
    using assms by (auto simp: rows_put find_row_upd_rows split: option.splits)
qed

lemma keys_update:
  "(\<And>r. key (f r) = key r) \<Longrightarrow>
   map key (rows (put_rows (upd_rows p f (rows s)) s)) = map key (rows s)"
  by (simp add: rows_put map_upd_rows_frame)

end

section \<open>Contracts of state-changing operations\<close>

text \<open>
  \<open>upholds ok evolves s m\<close>: from an acceptable state \<open>s\<close>, a run \<open>m\<close> that succeeds ends in an
  acceptable state that \<open>s\<close> may evolve into.  Every write of the store and every handler
  promises this; the locale proves once how the promise passes through sequencing, branching
  and loops.
\<close>

definition upholds ::
  "('s \<Rightarrow> bool) \<Rightarrow> ('s \<Rightarrow> 's \<Rightarrow> bool) \<Rightarrow> 's \<Rightarrow> 'e + 'a \<times> 's \<Rightarrow> bool" where
  "upholds ok evolves s m \<longleftrightarrow>
     (ok s \<longrightarrow> (\<forall>a s'. m = Inr (a, s') \<longrightarrow> ok s' \<and> evolves s s'))"

lemma upholdsD: "upholds ok evolves s m \<Longrightarrow> ok s \<Longrightarrow> m = Inr (a, s') \<Longrightarrow> ok s' \<and> evolves s s'"
  by (simp add: upholds_def)

lemma upholds_raise [simp]: "upholds ok evolves s (Inl e)"
  by (simp add: upholds_def)

locale evolving_state =
  fixes ok :: "'s \<Rightarrow> bool" and evolves :: "'s \<Rightarrow> 's \<Rightarrow> bool"
  assumes evolves_refl: "evolves s s"
    and evolves_trans: "evolves s t \<Longrightarrow> evolves t u \<Longrightarrow> evolves s u"
begin

lemma upholds_same [simp]: "upholds ok evolves s (Inr (a, s))"
  by (simp add: upholds_def evolves_refl)

lemma upholds_via:
  "(ok s \<Longrightarrow> ok t \<and> evolves s t) \<Longrightarrow> upholds ok evolves t m \<Longrightarrow> upholds ok evolves s m"
  unfolding upholds_def using evolves_trans by blast

lemma upholds_bind:
  assumes "upholds ok evolves s m"
    and "\<And>a t. m = Inr (a, t) \<Longrightarrow> upholds ok evolves t (k (a, t))"
  shows "upholds ok evolves s (andThen m k)"
  unfolding upholds_def
proof (intro impI allI)
  fix b u assume "ok s" "andThen m k = Inr (b, u)"
  then obtain a t where run: "m = Inr (a, t)" "k (a, t) = Inr (b, u)"
    by (auto simp: andThen_eq_Inr)
  from assms(1) \<open>ok s\<close> run(1) have "ok t" "evolves s t" by (auto dest: upholdsD)
  moreover from assms(2) [OF run(1)] \<open>ok t\<close> run(2) have "ok u" "evolves t u"
    by (auto dest: upholdsD)
  ultimately show "ok u \<and> evolves s u" using evolves_trans by blast
qed

lemma upholds_pure:
  "(\<And>a. m = Inr a \<Longrightarrow> upholds ok evolves s (k a)) \<Longrightarrow> upholds ok evolves s (andThen m k)"
  by (cases m) simp_all

lemma upholds_fold:
  assumes "\<And>a t x. upholds ok evolves t (f (a, t) x)"
  shows "upholds ok evolves s (foldRes f (a, s) xs)"
proof (induction xs arbitrary: a s)
  case (Cons x xs)
  show ?case
    unfolding foldRes.simps by (rule upholds_bind) (use assms Cons in auto)
qed simp

end

end
