(* ===== verification/Py_Strings.thy ===== *)
theory Py_Strings
  imports Prelude
begin

text \<open>
  The string operations of Python's standard library the program relies on, over code
  points below 256: \<open>str.lower\<close>, \<open>in\<close>, \<open>str.strip\<close>, \<open>str(int)\<close>, the repr of a float with
  at most three decimals, \<open>str(uuid.UUID)\<close>, and the two anchored regular expressions of
  \<open>models/tool_vocabulary.py\<close> as matchers.
\<close>

section \<open>Case, containment, trimming\<close>

text \<open>
  \<open>str.lower\<close> on Latin-1: A to Z, and the letters from 192 to 222 except the
  multiplication sign 215.
\<close>

definition lower_char :: "char \<Rightarrow> char" where
  "lower_char c = (let n = of_char c :: nat in
     if 65 \<le> n \<and> n \<le> 90 \<or> 192 \<le> n \<and> n \<le> 222 \<and> n \<noteq> 215 then char_of (n + 32) else c)"

definition lower :: "string \<Rightarrow> string" where
  "lower s = map lower_char s"

fun starts_with :: "string \<Rightarrow> string \<Rightarrow> bool" where
  "starts_with [] s = True"
| "starts_with (c # cs) [] = False"
| "starts_with (c # cs) (d # ds) = (c = d \<and> starts_with cs ds)"

text \<open>\<open>contains s p\<close> is Python's \<open>p in s\<close>.\<close>

fun contains :: "string \<Rightarrow> string \<Rightarrow> bool" where
  "contains [] p = (p = [])"
| "contains (c # cs) p = (starts_with p (c # cs) \<or> contains cs p)"

lemma starts_with_iff: "starts_with p s \<longleftrightarrow> (\<exists>t. s = p @ t)"
  by (induction p s rule: starts_with.induct) auto

lemma contains_iff: "contains s p \<longleftrightarrow> (\<exists>u t. s = u @ p @ t)"
proof (induction s)
  case Nil
  then show ?case by auto
next
  case (Cons c s)
  show ?case
  proof
    assume "contains (c # s) p"
    then consider "starts_with p (c # s)" | "contains s p" by auto
    then show "\<exists>u t. c # s = u @ p @ t"
    proof cases
      case 1
      then show ?thesis by (auto simp: starts_with_iff intro: exI [of _ "[]"])
    next
      case 2
      then obtain u t where "s = u @ p @ t" using Cons.IH by blast
      then have "c # s = (c # u) @ p @ t" by simp
      then show ?thesis by blast
    qed
  next
    assume "\<exists>u t. c # s = u @ p @ t"
    then obtain u t where eq: "c # s = u @ p @ t" by blast
    show "contains (c # s) p"
    proof (cases u)
      case Nil
      with eq have "starts_with p (c # s)" unfolding starts_with_iff by auto
      then show ?thesis by simp
    next
      case (Cons d u')
      with eq have "s = u' @ p @ t" by simp
      then have "contains s p" using Cons.IH by blast
      then show ?thesis by simp
    qed
  qed
qed

text \<open>Python's whitespace below 256, as \<open>str.strip\<close> uses it.\<close>

definition is_space :: "char \<Rightarrow> bool" where
  "is_space c = (let n = of_char c :: nat in
     9 \<le> n \<and> n \<le> 13 \<or> 28 \<le> n \<and> n \<le> 32 \<or> n = 133 \<or> n = 160)"

definition strip :: "string \<Rightarrow> string" where
  "strip s = rev (dropWhile is_space (rev (dropWhile is_space s)))"

text \<open>\<open>sorted\<close> of a set of strings.\<close>

definition sorted_unique :: "string list \<Rightarrow> string list" where
  "sorted_unique xs = sort (remdups xs)"

lemma set_sorted_unique [simp]: "set (sorted_unique xs) = set xs"
  by (simp add: sorted_unique_def)

lemma sorted_unique_cong: "set xs = set ys \<Longrightarrow> sorted_unique xs = sorted_unique ys"
  unfolding sorted_unique_def
  by (rule sorted_distinct_set_unique) simp_all

lemma sorted_unique_eq [simp]: "sorted_unique xs = sorted_unique ys \<longleftrightarrow> set xs = set ys"
  by (metis set_sorted_unique sorted_unique_cong)

section \<open>Numbers and identifiers as text\<close>

definition digit_char :: "nat \<Rightarrow> char" where
  "digit_char d = char_of (48 + d)"

fun show_nat :: "nat \<Rightarrow> string" where
  "show_nat n = (if n < 10 then [digit_char n] else show_nat (n div 10) @ [digit_char (n mod 10)])"

declare show_nat.simps [simp del]

definition show_int :: "int \<Rightarrow> string" where
  "show_int i = (if i < 0 then CHR ''-'' # show_nat (nat (- i)) else show_nat (nat i))"

text \<open>
  A float is kept as its value in thousandths; every duration the program declares has at
  most three decimals.  \<open>repr\<close> prints the shortest decimal, with at least one digit after
  the point.
\<close>

definition show_frac :: "nat \<Rightarrow> string" where
  "show_frac m =
     (if m mod 100 = 0 then [digit_char (m div 100)]
      else if m mod 10 = 0 then [digit_char (m div 100), digit_char (m div 10 mod 10)]
      else [digit_char (m div 100), digit_char (m div 10 mod 10), digit_char (m mod 10)])"

definition show_milli :: "int \<Rightarrow> string" where
  "show_milli i = (let n = nat \<bar>i\<bar> in
     (if i < 0 then ''-'' else []) @ show_nat (n div 1000) @ ''.'' @ show_frac (n mod 1000))"

text \<open>A UUID is its 128-bit value; \<open>str\<close> prints 32 hex digits in groups 8-4-4-4-12.\<close>

type_synonym uuid = nat

definition hex_digit :: "nat \<Rightarrow> char" where
  "hex_digit d = (if d < 10 then char_of (48 + d) else char_of (87 + d))"

fun hex_digits :: "nat \<Rightarrow> nat \<Rightarrow> string" where
  "hex_digits 0 n = []"
| "hex_digits (Suc k) n = hex_digits k (n div 16) @ [hex_digit (n mod 16)]"

definition uuid_text :: "uuid \<Rightarrow> string" where
  "uuid_text u = (let h = hex_digits 32 u in
     take 8 h @ ''-'' @ take 4 (drop 8 h) @ ''-'' @ take 4 (drop 12 h) @ ''-'' @
     take 4 (drop 16 h) @ ''-'' @ drop 20 h)"

section \<open>The two anchored patterns\<close>

definition is_lower_letter :: "char \<Rightarrow> bool" where
  "is_lower_letter c = (let n = of_char c :: nat in 97 \<le> n \<and> n \<le> 122)"

definition is_digit :: "char \<Rightarrow> bool" where
  "is_digit c = (let n = of_char c :: nat in 48 \<le> n \<and> n \<le> 57)"

text \<open>\<open>split_on c s\<close> is \<open>s.split(c)\<close> for a one-character separator.\<close>

fun split_on :: "char \<Rightarrow> string \<Rightarrow> string list" where
  "split_on c [] = [[]]"
| "split_on c (d # ds) =
     (if d = c then [] # split_on c ds
      else (case split_on c ds of [] \<Rightarrow> [[d]] | w # ws \<Rightarrow> (d # w) # ws))"

text \<open>
  \<open>$\<close> without \<open>re.MULTILINE\<close> matches at the end and also before one final newline.
\<close>

definition drop_final_newline :: "string \<Rightarrow> string" where
  "drop_final_newline s = (if s \<noteq> [] \<and> last s = CHR 0x0A then butlast s else s)"


section \<open>The renderings are unambiguous\<close>

definition is_num_char :: "char \<Rightarrow> bool" where
  "is_num_char c \<longleftrightarrow> is_digit c \<or> c = CHR ''-'' \<or> c = CHR ''.''"

definition stops :: "string \<Rightarrow> bool" where
  "stops r \<longleftrightarrow> r = [] \<or> \<not> is_num_char (hd r)"

lemma of_char_digit_char [simp]: "d < 10 \<Longrightarrow> (of_char (digit_char d) :: nat) = 48 + d"
  by (simp add: digit_char_def)

lemma is_digit_digit_char [simp]: "d < 10 \<Longrightarrow> is_digit (digit_char d)"
  by (simp add: is_digit_def)

lemma digit_char_inj: "d < 10 \<Longrightarrow> e < 10 \<Longrightarrow> digit_char d = digit_char e \<longleftrightarrow> d = e"
  by (metis add_left_cancel of_char_digit_char)

lemma show_nat_digits: "c \<in> set (show_nat n) \<Longrightarrow> is_digit c"
proof (induction n rule: show_nat.induct)
  case (1 n)
  show ?case
  proof (cases "n < 10")
    case True
    with "1.prems" show ?thesis by (simp add: show_nat.simps [of n])
  next
    case False
    with "1.prems" "1.IH" show ?thesis by (auto simp: show_nat.simps [of n])
  qed
qed

lemma show_nat_nonempty [simp]: "show_nat n \<noteq> []"
  by (simp add: show_nat.simps [of n])

definition read_nat :: "string \<Rightarrow> nat" where
  "read_nat s = foldl (\<lambda>a c. 10 * a + (of_char c - 48)) 0 s"

lemma read_show_nat: "read_nat (show_nat n) = n"
proof (induction n rule: show_nat.induct)
  case (1 n)
  show ?case
  proof (cases "n < 10")
    case True
    then show ?thesis by (simp add: show_nat.simps [of n] read_nat_def)
  next
    case False
    with 1 show ?thesis by (simp add: show_nat.simps [of n] read_nat_def)
  qed
qed

lemma show_nat_inject [simp]: "show_nat m = show_nat n \<longleftrightarrow> m = n"
  by (metis read_show_nat)

lemma not_digit_minus [simp]: "\<not> is_digit (CHR ''-'')" and not_digit_dot [simp]: "\<not> is_digit (CHR ''.'')"
  by (simp_all add: is_digit_def)

lemma show_nat_no_minus: "show_nat n \<noteq> CHR ''-'' # s"
  using show_nat_digits [of "CHR ''-''" n] by auto

lemma show_int_inject [simp]: "show_int i = show_int j \<longleftrightarrow> i = j"
  by (auto simp: show_int_def show_nat_no_minus show_nat_no_minus [symmetric])

lemma show_int_chars: "c \<in> set (show_int i) \<Longrightarrow> is_digit c \<or> c = CHR ''-''"
  by (auto simp: show_int_def dest: show_nat_digits split: if_splits)

definition read_frac :: "string \<Rightarrow> nat" where
  "read_frac s = read_nat (take 3 (s @ ''00''))"

lemma read_show_frac:
  assumes "m < 1000"
  shows "read_frac (show_frac m) = m"
proof -
  define h t u where "h = m div 100" and "t = m div 10 mod 10" and "u = m mod 10"
  have m: "m = 100 * h + 10 * t + u"
    using mod_mult2_eq [of m 10 10] mult_div_mod_eq [of 100 m] by (simp add: h_def t_def u_def)
  have d: "h < 10" "t < 10" "u < 10" using assms unfolding h_def t_def u_def by auto
  have "m mod 100 = 10 * t + u"
    using mod_mult2_eq [of m 10 10] by (simp add: t_def u_def)
  then have z: "m mod 100 = 0 \<longleftrightarrow> t = 0 \<and> u = 0" by simp
  have s: "show_frac m = (if t = 0 \<and> u = 0 then [digit_char h]
      else if u = 0 then [digit_char h, digit_char t]
      else [digit_char h, digit_char t, digit_char u])"
    unfolding show_frac_def z unfolding h_def t_def u_def by (rule refl)
  have "read_frac (show_frac m) = 100 * h + 10 * t + u"
    unfolding s using d by (auto simp: read_frac_def read_nat_def)
  then show ?thesis unfolding m .
qed

lemma show_frac_digits: "m < 1000 \<Longrightarrow> c \<in> set (show_frac m) \<Longrightarrow> is_digit c"
  by (auto simp: show_frac_def split: if_splits)

lemma show_frac_mod_digits: "c \<in> set (show_frac (n mod 1000)) \<Longrightarrow> is_digit c"
  by (rule show_frac_digits) simp_all

lemma hd_show_nat: "hd (show_nat n) \<noteq> CHR ''-''"
  using show_nat_digits [of "hd (show_nat n)" n] by auto

lemma hd_show_milli: "hd (show_milli i) = CHR ''-'' \<longleftrightarrow> i < 0"
  by (simp add: show_milli_def Let_def hd_show_nat)

lemma digits_dot_cancel:
  assumes "\<And>c. c \<in> set a \<Longrightarrow> is_digit c" and "\<And>c. c \<in> set b \<Longrightarrow> is_digit c"
    and "a @ CHR ''.'' # x = b @ CHR ''.'' # y"
  shows "a = b \<and> x = y"
proof -
  have "takeWhile is_digit (a @ CHR ''.'' # x) = a" "takeWhile is_digit (b @ CHR ''.'' # y) = b"
    using assms(1,2) by (simp_all add: takeWhile_append)
  with assms(3) show ?thesis by auto
qed

lemma show_milli_inject [simp]: "show_milli i = show_milli j \<longleftrightarrow> i = j"
proof
  assume eq: "show_milli i = show_milli j"
  have neg: "i < 0 \<longleftrightarrow> j < 0"
    using eq hd_show_milli by metis
  define m n where "m = nat \<bar>i\<bar>" and "n = nat \<bar>j\<bar>"
  have "show_nat (m div 1000) @ CHR ''.'' # show_frac (m mod 1000) =
        show_nat (n div 1000) @ CHR ''.'' # show_frac (n mod 1000)"
    using eq neg by (simp add: show_milli_def Let_def m_def n_def split: if_splits)
  then have e: "show_nat (m div 1000) = show_nat (n div 1000)"
    "show_frac (m mod 1000) = show_frac (n mod 1000)"
    using digits_dot_cancel show_nat_digits by metis+
  have "m mod 1000 = read_frac (show_frac (m mod 1000))" by (simp add: read_show_frac)
  also have "\<dots> = n mod 1000" unfolding e(2) by (simp add: read_show_frac)
  finally have "m mod 1000 = n mod 1000" .
  moreover have "m div 1000 = n div 1000" using e(1) by simp
  ultimately have "m = n" by (metis div_mult_mod_eq)
  with neg show "i = j" by (auto simp: m_def n_def)
qed simp

lemma show_milli_chars: "c \<in> set (show_milli i) \<Longrightarrow> is_num_char c"
  by (auto simp: show_milli_def Let_def is_num_char_def dest: show_nat_digits show_frac_mod_digits
      split: if_splits)

lemma show_milli_dot: "CHR ''.'' \<in> set (show_milli i)"
  by (simp add: show_milli_def Let_def)

lemma show_int_milli: "show_int i \<noteq> show_milli j"
  using show_milli_dot [of j] show_int_chars [of "CHR ''.''" i] by force

lemma num_cancel:
  assumes "\<And>c. c \<in> set a \<Longrightarrow> is_num_char c" and "\<And>c. c \<in> set b \<Longrightarrow> is_num_char c"
    and "a @ r = b @ s" and "stops r" and "stops s"
  shows "a = b \<and> r = s"
proof -
  have "takeWhile is_num_char r = []" "takeWhile is_num_char s = []"
    using assms(4,5) by (auto simp: stops_def takeWhile_eq_Nil_iff)
  then have "takeWhile is_num_char (a @ r) = a" "takeWhile is_num_char (b @ s) = b"
    using assms(1,2) by (simp_all add: takeWhile_append)
  with assms(3) show ?thesis by auto
qed



end
