(* ===== verification/Json.thy ===== *)
theory Json
  imports Py_Strings
begin

text \<open>
  JSON values as the program builds them, and \<open>canonical_json\<close> of \<open>tools/envelope.py\<close>: the
  one rendering that digests are taken over.  The lemmas show that the rendering determines
  the value up to the order of object keys, so a digest that never collides on two
  renderings distinguishes the two values.
\<close>

datatype json =
  JNull
| JBool bool
| JInt int
| JFloat int \<comment> \<open>in thousandths\<close>
| JStr string
| JArr "json list"
| JObj "(string \<times> json) list"

type_synonym jobj = "(string \<times> json) list"

text \<open>\<open>d.get(k)\<close> on a dictionary.\<close>

definition jget :: "jobj \<Rightarrow> string \<Rightarrow> json option" where
  "jget d k = map_of d k"

definition jstrs :: "string list \<Rightarrow> json" where
  "jstrs xs = JArr (map JStr xs)"

section \<open>Rendering\<close>

text \<open>\<open>sort_keys=True\<close>: keys are sorted at every level.\<close>

fun sort_keys :: "json \<Rightarrow> json" where
  "sort_keys (JArr xs) = JArr (map sort_keys xs)"
| "sort_keys (JObj kvs) = JObj (sort_key fst (map (\<lambda>kv. (fst kv, sort_keys (snd kv))) kvs))"
| "sort_keys v = v"

text \<open>
  The escapes of \<open>json.dumps(ensure_ascii=False)\<close>: the quote, the backslash and the control
  characters below 32, five of them with a short form.
\<close>

definition escape_char :: "char \<Rightarrow> string" where
  "escape_char c = (let n = of_char c :: nat in
     if n = 34 then [CHR 0x5C, CHR 0x22]
     else if n = 92 then [CHR 0x5C, CHR 0x5C]
     else if n = 10 then [CHR 0x5C, CHR ''n'']
     else if n = 13 then [CHR 0x5C, CHR ''r'']
     else if n = 9 then [CHR 0x5C, CHR ''t'']
     else if n = 12 then [CHR 0x5C, CHR ''f'']
     else if n = 8 then [CHR 0x5C, CHR ''b'']
     else if n < 32 then
       [CHR 0x5C, CHR ''u'', CHR ''0'', CHR ''0'', hex_digit (n div 16), hex_digit (n mod 16)]
     else [c])"

definition quote :: "string \<Rightarrow> string" where
  "quote s = CHR 0x22 # concat (map escape_char s) @ [CHR 0x22]"

fun dumps :: "json \<Rightarrow> string"
  and dumps_items :: "json list \<Rightarrow> string"
  and dumps_members :: "(string \<times> json) list \<Rightarrow> string" where
  "dumps JNull = ''null''"
| "dumps (JBool b) = (if b then ''true'' else ''false'')"
| "dumps (JInt i) = show_int i"
| "dumps (JFloat m) = show_milli m"
| "dumps (JStr s) = quote s"
| "dumps (JArr xs) = ''['' @ dumps_items xs @ '']''"
| "dumps (JObj kvs) = ''{'' @ dumps_members kvs @ ''}''"
| "dumps_items [] = []"
| "dumps_items (x # xs) = dumps x @ (if xs = [] then [] else '','' @ dumps_items xs)"
| "dumps_members [] = []"
| "dumps_members ((k, v) # kvs) =
     quote k @ '':'' @ dumps v @ (if kvs = [] then [] else '','' @ dumps_members kvs)"

definition canonical_json :: "json \<Rightarrow> string" where
  "canonical_json v = dumps (sort_keys v)"


section \<open>The rendering determines the value\<close>

lemma of_char_lt: "(of_char c :: nat) < 256"
  by (metis of_char_mod_256 mod_less_divisor zero_less_numeral)

lemma of_char_hex_digit:
  "d < 16 \<Longrightarrow> (of_char (hex_digit d) :: nat) = (if d < 10 then 48 + d else 87 + d)"
  by (simp add: hex_digit_def)

lemma hex_digit_inject: "d < 16 \<Longrightarrow> e < 16 \<Longrightarrow> hex_digit d = hex_digit e \<longleftrightarrow> d = e"
proof
  assume "d < 16" "e < 16" "hex_digit d = hex_digit e"
  then have "(if d < 10 then 48 + d else 87 + d) = (if e < 10 then 48 + e else 87 + e)"
    by (metis of_char_hex_digit)
  then show "d = e" by (simp split: if_splits)
qed simp

text \<open>The second character of an escape decides which escape it is.\<close>

lemma char_of_eq_of_char: "(of_char c :: nat) = n \<Longrightarrow> c = char_of n"
  by auto

lemma control_chars:
  "char_of (34::nat) = CHR 0x22" "char_of (92::nat) = CHR 0x5C" "char_of (10::nat) = CHR 0x0A"
  "char_of (13::nat) = CHR 0x0D" "char_of (9::nat) = CHR 0x09" "char_of (12::nat) = CHR 0x0C"
  "char_of (8::nat) = CHR 0x08"
  by code_simp+

lemma escape_char_cases:
  obtains (plain) "escape_char c = [c]" "c \<noteq> CHR 0x22" "c \<noteq> CHR 0x5C"
  | (short) x where "escape_char c = [CHR 0x5C, x]" "x \<noteq> CHR ''u''"
      "c = (if x = CHR ''n'' then CHR 0x0A else if x = CHR ''r'' then CHR 0x0D
            else if x = CHR ''t'' then CHR 0x09 else if x = CHR ''f'' then CHR 0x0C
            else if x = CHR ''b'' then CHR 0x08 else x)"
  | (long) "escape_char c = [CHR 0x5C, CHR ''u'', CHR ''0'', CHR ''0'',
      hex_digit (of_char c div 16), hex_digit (of_char c mod 16)]" "(of_char c :: nat) < 32"
proof -
  let ?n = "of_char c :: nat"
  consider "?n = 34" | "?n = 92" | "?n = 10" | "?n = 13" | "?n = 9" | "?n = 12" | "?n = 8"
    | "?n < 32" "?n \<notin> {10, 13, 9, 12, 8}" | "?n \<ge> 32" "?n \<noteq> 34" "?n \<noteq> 92"
    by force
  then show thesis
  proof cases
    case 8
    then show ?thesis by (intro long) (simp_all add: escape_char_def Let_def)
  next
    case 9
    then have "c \<noteq> CHR 0x22" "c \<noteq> CHR 0x5C" by auto
    with 9 show ?thesis by (intro plain) (simp_all add: escape_char_def Let_def)
  qed (rule short, simp add: escape_char_def Let_def, simp, drule char_of_eq_of_char, simp add: control_chars)+
qed

lemma escape_char_cancel:
  assumes "escape_char c @ x = escape_char d @ y"
  shows "c = d \<and> x = y"
proof (cases c rule: escape_char_cases)
  case plain
  with assms show ?thesis by (cases d rule: escape_char_cases) auto
next
  case (short v)
  with assms show ?thesis by (cases d rule: escape_char_cases) auto
next
  case long
  with assms show ?thesis
  proof (cases d rule: escape_char_cases)
    case long
    have "(of_char c :: nat) div 16 < 16" "(of_char d :: nat) div 16 < 16"
      using of_char_lt [of c] of_char_lt [of d] by (simp_all add: div_less_dividend less_mult_imp_div_less)
    then have "(of_char c :: nat) div 16 = of_char d div 16" "(of_char c :: nat) mod 16 = of_char d mod 16"
      using assms long \<open>escape_char c = _\<close> hex_digit_inject by auto
    then have "(of_char c :: nat) = of_char d" by (metis div_mult_mod_eq)
    with assms long \<open>escape_char c = _\<close> show ?thesis by simp
  qed auto
qed

lemma escape_char_hd: "\<exists>e es. escape_char c = e # es \<and> e \<noteq> CHR 0x22"
  by (cases c rule: escape_char_cases) auto

lemma escaped_cancel:
  "concat (map escape_char s) @ CHR 0x22 # x = concat (map escape_char t) @ CHR 0x22 # y \<Longrightarrow>
   s = t \<and> x = y"
proof (induction s arbitrary: t)
  case Nil
  show ?case
  proof (cases t)
    case t: Nil
    with Nil show ?thesis by simp
  next
    case t: (Cons d t')
    with Nil escape_char_hd [of d] show ?thesis by auto
  qed
next
  case (Cons c s)
  show ?case
  proof (cases t)
    case Nil
    with Cons.prems escape_char_hd [of c] show ?thesis by auto
  next
    case (Cons d t')
    with Cons.prems have "c = d \<and> concat (map escape_char s) @ CHR 0x22 # x =
        concat (map escape_char t') @ CHR 0x22 # y"
      by (intro escape_char_cancel) simp
    with Cons Cons.IH show ?thesis by blast
  qed
qed

lemma quote_cancel: "quote s @ x = quote t @ y \<longleftrightarrow> s = t \<and> x = y"
  using escaped_cancel [of s x t y] by (auto simp: quote_def)


lemma stops_simps [simp]:
  "stops []" "stops (CHR '','' # s)" "stops (CHR '']'' # s)" "stops (CHR ''}'' # s)"
  by (simp_all add: stops_def is_num_char_def is_digit_def)

text \<open>The first character of a rendering decides the constructor.\<close>

fun leads :: "json \<Rightarrow> char \<Rightarrow> bool" where
  "leads JNull c = (c = CHR ''n'')"
| "leads (JBool b) c = (c = (if b then CHR ''t'' else CHR ''f''))"
| "leads (JInt i) c = is_num_char c"
| "leads (JFloat i) c = is_num_char c"
| "leads (JStr s) c = (c = CHR 0x22)"
| "leads (JArr xs) c = (c = CHR ''['')"
| "leads (JObj xs) c = (c = CHR ''{'')"

lemma show_int_num: "c \<in> set (show_int i) \<Longrightarrow> is_num_char c"
  using show_int_chars by (auto simp: is_num_char_def)

lemma show_int_nonempty: "show_int i \<noteq> []" and show_milli_nonempty: "show_milli i \<noteq> []"
  by (simp_all add: show_int_def show_milli_def Let_def)

lemma show_int_first: "\<exists>c. (\<exists>cs. show_int i = c # cs) \<and> is_num_char c"
  using show_int_nonempty [of i] show_int_num [of "hd (show_int i)" i] by (cases "show_int i") auto

lemma show_milli_first: "\<exists>c. (\<exists>cs. show_milli i = c # cs) \<and> is_num_char c"
  using show_milli_nonempty [of i] show_milli_chars [of "hd (show_milli i)" i]
  by (cases "show_milli i") auto

lemma dumps_leads: "\<exists>c cs. dumps v = c # cs \<and> leads v c"
  by (cases v) (auto simp: quote_def show_int_first show_milli_first)

lemma not_num [simp]:
  "\<not> is_num_char (CHR ''n'')" "\<not> is_num_char (CHR ''t'')" "\<not> is_num_char (CHR ''f'')"
  "\<not> is_num_char (CHR 0x22)" "\<not> is_num_char (CHR ''['')" "\<not> is_num_char (CHR ''{'')"
  "\<not> is_num_char (CHR '']'')" "\<not> is_num_char (CHR ''}'')"
  by (simp_all add: is_num_char_def is_digit_def)

lemma leads_clash:
  assumes "dumps v @ r = dumps w @ s"
  shows "\<exists>c. leads v c \<and> leads w c"
  using assms dumps_leads [of v] dumps_leads [of w] by auto

lemma dumps_not_close: "dumps v @ r \<noteq> CHR '']'' # s"
  using dumps_leads [of v] by (cases v) auto

lemma dumps_not_close_sym: "CHR '']'' # s \<noteq> dumps v @ r"
  using dumps_not_close [of v r s] by metis

lemma dumps_cancel_aux:
  "dumps v @ r = dumps w @ s \<Longrightarrow> stops r \<Longrightarrow> stops s \<Longrightarrow> v = w \<and> r = s"
  "dumps_items xs @ CHR '']'' # r = dumps_items ys @ CHR '']'' # s \<Longrightarrow> xs = ys \<and> r = s"
  "dumps_members kvs @ CHR ''}'' # r = dumps_members lvs @ CHR ''}'' # s \<Longrightarrow> kvs = lvs \<and> r = s"
proof (induction v and xs and kvs arbitrary: w r s and ys r s and lvs r s
    rule: dumps_dumps_items_dumps_members.induct)
  case (2 b)
  with leads_clash [OF "2.prems"(1)] show ?case by (cases w) (auto split: if_splits)
next
  case (3 i)
  from leads_clash [OF "3.prems"(1)] show ?case
  proof (cases w)
    case (JInt j)
    with "3.prems" num_cancel [of "show_int i" "show_int j" r s] show_int_num show ?thesis by simp
  next
    case (JFloat j)
    with "3.prems" num_cancel [of "show_int i" "show_milli j" r s] show_int_num show_milli_chars
      show_int_milli show ?thesis by simp
  qed (auto split: if_splits)
next
  case (4 i)
  from leads_clash [OF "4.prems"(1)] show ?case
  proof (cases w)
    case (JFloat j)
    with "4.prems" num_cancel [of "show_milli i" "show_milli j" r s] show_milli_chars
    show ?thesis by simp
  next
    case (JInt j)
    with "4.prems" num_cancel [of "show_milli i" "show_int j" r s] show_int_num show_milli_chars
      show_int_milli [of j i] show ?thesis by simp
  qed (auto split: if_splits)
next
  case (6 xs)
  from leads_clash [OF "6.prems"(1)] show ?case
  proof (cases w)
    case (JArr zs)
    with "6.prems"(1) "6.IH" [of r zs s] show ?thesis by simp
  qed (auto split: if_splits)
next
  case (7 kvs)
  from leads_clash [OF "7.prems"(1)] show ?case
  proof (cases w)
    case (JObj zs)
    with "7.prems"(1) "7.IH" [of r zs s] show ?thesis by simp
  qed (auto split: if_splits)
next
  case 8
  show ?case
  proof (cases ys)
    case Nil
    with "8.prems" show ?thesis by simp
  next
    case (Cons y ys')
    with "8.prems" have "CHR '']'' # r = dumps y @ (if ys' = [] then [] else '','' @ dumps_items ys') @
        CHR '']'' # s" by simp
    with dumps_not_close_sym show ?thesis by blast
  qed
next
  case (9 x xs)
  show ?case
  proof (cases ys)
    case Nil
    with "9.prems" dumps_not_close show ?thesis by auto
  next
    case (Cons y ys')
    let ?rest = "\<lambda>zs t. (if zs = [] then [] else '','' @ dumps_items zs) @ CHR '']'' # t"
    from Cons "9.prems" have "dumps x @ ?rest xs r = dumps y @ ?rest ys' s" by simp
    moreover have "stops (?rest zs t)" for zs t by simp
    ultimately have eq: "x = y" "?rest xs r = ?rest ys' s" using "9.IH"(1) by blast+
    have "xs = ys' \<and> r = s"
    proof (cases "xs = [] \<or> ys' = []")
      case True
      with eq(2) show ?thesis by (simp split: if_splits)
    next
      case False
      with eq(2) have "dumps_items xs @ CHR '']'' # r = dumps_items ys' @ CHR '']'' # s" by simp
      with False "9.IH"(2) show ?thesis by blast
    qed
    with Cons eq(1) show ?thesis by simp
  qed
next
  case 10
  then show ?case by (cases lvs) (auto simp: quote_def)
next
  case (11 k v kvs)
  show ?case
  proof (cases lvs)
    case Nil
    with "11.prems" show ?thesis by (simp add: quote_def)
  next
    case (Cons lw lvs')
    obtain l w where lw: "lw = (l, w)" by (cases lw)
    let ?rest = "\<lambda>zs t. (if zs = [] then [] else '','' @ dumps_members zs) @ CHR ''}'' # t"
    from Cons lw "11.prems" have "quote k @ CHR '':'' # dumps v @ ?rest kvs r =
        quote l @ CHR '':'' # dumps w @ ?rest lvs' s" by simp
    then have kl: "k = l" and "dumps v @ ?rest kvs r = dumps w @ ?rest lvs' s"
      by (simp_all add: quote_cancel)
    moreover have "stops (?rest zs t)" for zs t by simp
    ultimately have eq: "v = w" "?rest kvs r = ?rest lvs' s" using "11.IH"(1) by blast+
    have "kvs = lvs' \<and> r = s"
    proof (cases "kvs = [] \<or> lvs' = []")
      case True
      with eq(2) show ?thesis by (simp split: if_splits)
    next
      case False
      with eq(2) have "dumps_members kvs @ CHR ''}'' # r = dumps_members lvs' @ CHR ''}'' # s" by simp
      with False "11.IH"(2) show ?thesis by blast
    qed
    with Cons lw kl eq(1) show ?thesis by simp
  qed
next
  case 1
  with leads_clash [OF "1.prems"(1)] show ?case by (cases w) (auto split: if_splits)
next
  case (5 t)
  with leads_clash [OF "5.prems"(1)] show ?case by (cases w) (auto simp: quote_cancel split: if_splits)
qed

lemma dumps_inject: "dumps v = dumps w \<longleftrightarrow> v = w"
  using dumps_cancel_aux(1) [of v "[]" w "[]"] by auto

lemma canonical_json_eq: "canonical_json v = canonical_json w \<longleftrightarrow> sort_keys v = sort_keys w"
  by (simp add: canonical_json_def dumps_inject)


text \<open>
  Python's equality of the values, dictionaries compared without regard to order.  On
  values whose dictionaries have distinct keys, as dictionaries do, two values are equal
  exactly when they have the same canonical rendering: neither the order in which a caller
  wrote the keys nor anything else outside the value reaches a digest.
\<close>

fun same_json :: "json \<Rightarrow> json \<Rightarrow> bool" where
  "same_json (JArr xs) (JArr ys) = list_all2 same_json xs ys"
| "same_json (JObj kvs) (JObj lvs) =
     (length kvs = length lvs \<and>
      (\<forall>kv \<in> set kvs. \<exists>lw \<in> set lvs. fst kv = fst lw \<and> same_json (snd kv) (snd lw)))"
| "same_json v w = (v = w)"

fun wf_json :: "json \<Rightarrow> bool" where
  "wf_json (JArr xs) = (\<forall>x \<in> set xs. wf_json x)"
| "wf_json (JObj kvs) = (distinct (map fst kvs) \<and> (\<forall>kv \<in> set kvs. wf_json (snd kv)))"
| "wf_json v = True"

lemma sort_key_distinct_iff:
  assumes "distinct (map f xs)" and "distinct (map f ys)"
  shows "sort_key f xs = sort_key f ys \<longleftrightarrow> set xs = set ys"
proof
  assume "set xs = set ys"
  moreover have "distinct (map f (sort_key f zs))" if "distinct (map f zs)" for zs
    using that by (simp add: distinct_map)
  ultimately show "sort_key f xs = sort_key f ys"
    using assms by (intro map_sorted_distinct_set_unique [where f = f]) (simp_all add: distinct_map)
qed (metis set_sort)

lemma set_eq_by_length:
  assumes "distinct xs" and "distinct ys"
  shows "set xs = set ys \<longleftrightarrow> length xs = length ys \<and> set xs \<subseteq> set ys"
  using assms by (metis List.finite_set card_subset_eq distinct_card order_refl)

lemma sort_keys_atoms:
  "sort_keys w = JNull \<longleftrightarrow> w = JNull" "sort_keys w = JBool b \<longleftrightarrow> w = JBool b"
  "sort_keys w = JInt i \<longleftrightarrow> w = JInt i" "sort_keys w = JFloat i \<longleftrightarrow> w = JFloat i"
  "sort_keys w = JStr s \<longleftrightarrow> w = JStr s"
  by (cases w; simp)+

lemma same_json_iff:
  "wf_json v \<Longrightarrow> wf_json w \<Longrightarrow> same_json v w \<longleftrightarrow> sort_keys v = sort_keys w"
proof (induction v w rule: same_json.induct)
  case (1 xs ys)
  then show ?case by (auto simp: list_all2_conv_all_nth list_eq_iff_nth_eq)
next
  case (2 kvs lvs)
  let ?g = "\<lambda>kv :: string \<times> json. (fst kv, sort_keys (snd kv))"
  have keys: "distinct (map fst (map ?g kvs))" "distinct (map fst (map ?g lvs))"
    using "2.prems" by (simp_all add: comp_def)
  have dist: "distinct (map ?g kvs)" "distinct (map ?g lvs)"
    using keys by (blast dest: distinct_map [THEN iffD1])+
  have "sort_keys (JObj kvs) = sort_keys (JObj lvs) \<longleftrightarrow> set (map ?g kvs) = set (map ?g lvs)"
    using keys by (simp only: sort_keys.simps json.inject sort_key_distinct_iff)
  also have "\<dots> \<longleftrightarrow> length kvs = length lvs \<and> set (map ?g kvs) \<subseteq> set (map ?g lvs)"
    using set_eq_by_length [OF dist] by (simp only: length_map)
  also have "\<dots> \<longleftrightarrow> same_json (JObj kvs) (JObj lvs)"
    using "2.IH" "2.prems" by (fastforce simp: subset_iff image_iff)
  finally show ?case by simp
qed (simp_all, (metis sort_keys_atoms)+)

lemma canonical_json_same:
  "wf_json v \<Longrightarrow> wf_json w \<Longrightarrow> canonical_json v = canonical_json w \<longleftrightarrow> same_json v w"
  by (simp add: canonical_json_eq same_json_iff)

text \<open>
  Two dictionaries written with the same literal keys have the same rendering exactly when
  they agree key by key.
\<close>

lemma same_keys_set_eq:
  assumes keys: "map fst xs = map fst ys" and dist: "distinct (map fst xs)"
    and set: "set xs = set ys"
  shows "xs = ys"
proof -
  have rebuild: "zs = map (\<lambda>k. (k, the (map_of zs k))) (map fst zs)"
    if "distinct (map fst zs)" for zs :: "('a \<times> 'b) list"
    using that by (auto simp: comp_def intro!: map_idI [symmetric])
  have "map_of xs = map_of ys"
    using dist keys set map_of_inject_set by metis
  then show ?thesis
    using rebuild [of xs] rebuild [of ys] dist keys by metis
qed

lemma sort_keys_fields:
  assumes "map fst kvs = map fst lvs" and "distinct (map fst kvs)"
  shows "sort_keys (JObj kvs) = sort_keys (JObj lvs) \<longleftrightarrow>
     map (\<lambda>kv. sort_keys (snd kv)) kvs = map (\<lambda>kv. sort_keys (snd kv)) lvs"
proof -
  let ?g = "\<lambda>kv :: string \<times> json. (fst kv, sort_keys (snd kv))"
  have keys: "map fst (map ?g kvs) = map fst (map ?g lvs)" "distinct (map fst (map ?g kvs))"
    using assms by (simp_all add: comp_def)
  have "set (map ?g kvs) = set (map ?g lvs) \<longleftrightarrow> map ?g kvs = map ?g lvs"
    using same_keys_set_eq [OF keys] by (rule iffI) simp_all
  moreover have "distinct (map fst (map ?g lvs))" using keys by (simp only:)
  ultimately have "sort_keys (JObj kvs) = sort_keys (JObj lvs) \<longleftrightarrow> map ?g kvs = map ?g lvs"
    using keys(2) by (simp only: sort_keys.simps json.inject sort_key_distinct_iff)
  also have "\<dots> \<longleftrightarrow> map (\<lambda>kv. sort_keys (snd kv)) kvs = map (\<lambda>kv. sort_keys (snd kv)) lvs"
    using assms(1)
  proof (induction kvs arbitrary: lvs)
    case (Cons kv kvs)
    then show ?case by (cases lvs) auto
  qed simp
  finally show ?thesis .
qed

lemma sort_keys_jstrs [simp]: "sort_keys (jstrs xs) = jstrs xs"
  by (simp add: jstrs_def)

lemma jstrs_inject [simp]: "jstrs xs = jstrs ys \<longleftrightarrow> xs = ys"
  by (simp add: jstrs_def inj_map_eq_map inj_def)

text \<open>
  A digest identifies a value up to a collision of the hash function.  \<open>collision\<close> says that
  two different texts are one.
\<close>

definition collision :: "(string \<Rightarrow> string) \<Rightarrow> string \<Rightarrow> string \<Rightarrow> bool" where
  "collision sha256 x y = (x \<noteq> y \<and> sha256 x = sha256 y)"

lemma digest_eq_iff: "sha256 x = sha256 y \<longleftrightarrow> x = y \<or> collision sha256 x y"
  by (auto simp: collision_def)

end
