(* ===== verification/Identity.thy ===== *)
theory Identity
  imports Json
begin

text \<open>
  \<open>auth/principal.py\<close> and \<open>models/provenance.py\<close>: who acts, and the permission classes of an
  action.  Enumerations carry their stored string through a \<open>*_value\<close> function.
\<close>

section \<open>Principals\<close>

datatype principal_type = HUMAN | SERVICE | AGENT | SYSTEM_ACTOR

datatype auth_method = API_KEY | OIDC | MTLS | SYSTEM_AUTH

datatype role = ADMIN | APPROVER | OPERATOR | VIEWER

fun principal_type_value :: "principal_type \<Rightarrow> string" where
  "principal_type_value HUMAN = ''human''"
| "principal_type_value SERVICE = ''service''"
| "principal_type_value AGENT = ''agent''"
| "principal_type_value SYSTEM_ACTOR = ''system''"

fun auth_method_value :: "auth_method \<Rightarrow> string" where
  "auth_method_value API_KEY = ''api_key''"
| "auth_method_value OIDC = ''oidc''"
| "auth_method_value MTLS = ''mtls''"
| "auth_method_value SYSTEM_AUTH = ''system''"

fun role_value :: "role \<Rightarrow> string" where
  "role_value ADMIN = ''admin''"
| "role_value APPROVER = ''approver''"
| "role_value OPERATOR = ''operator''"
| "role_value VIEWER = ''viewer''"

definition all_roles :: "role list" where
  "all_roles = [ADMIN, APPROVER, OPERATOR, VIEWER]"

text \<open>\<open>Role(name)\<close>: the member with that value, or a \<open>ValueError\<close>.\<close>

definition role_of :: "string \<Rightarrow> role option" where
  "role_of name = find (\<lambda>r. role_value r = name) all_roles"

lemma role_of_value [simp]: "role_of (role_value r) = Some r"
  by (cases r) (simp_all add: role_of_def all_roles_def)

lemma role_of_SomeD: "role_of n = Some r \<Longrightarrow> role_value r = n"
  by (auto simp: role_of_def find_Some_iff)

text \<open>
  The authenticated actor.  \<open>claims\<close> is quarantined for the authentication backend and
  \<open>authenticated_at\<close> is display data; neither is read by any code modelled here.
\<close>

record principal =
  p_subject :: string
  p_type :: principal_type
  p_issuer :: string
  p_auth_method :: auth_method
  p_display_name :: string
  p_roles :: "string list"

definition has_role :: "principal \<Rightarrow> string \<Rightarrow> bool" where
  "has_role p r = (r \<in> set (p_roles p))"

definition has_any_role :: "principal \<Rightarrow> string list \<Rightarrow> bool" where
  "has_any_role p rs = list_ex (has_role p) rs"

record audit_fields =
  af_subject :: string
  af_type :: string
  af_issuer :: string
  af_auth_method :: string

definition to_audit_fields :: "principal \<Rightarrow> audit_fields" where
  "to_audit_fields p = \<lparr>af_subject = p_subject p, af_type = principal_type_value (p_type p),
     af_issuer = p_issuer p, af_auth_method = auth_method_value (p_auth_method p)\<rparr>"

definition SYSTEM_PRINCIPAL :: principal where
  "SYSTEM_PRINCIPAL = \<lparr>p_subject = ''acop:system'', p_type = SYSTEM_ACTOR,
     p_issuer = ''acop:internal'', p_auth_method = SYSTEM_AUTH, p_display_name = ''ACOP System'',
     p_roles = [role_value OPERATOR]\<rparr>"

definition ANONYMOUS_PRINCIPAL :: principal where
  "ANONYMOUS_PRINCIPAL = \<lparr>p_subject = ''acop:anonymous'', p_type = SYSTEM_ACTOR,
     p_issuer = ''acop:internal'', p_auth_method = SYSTEM_AUTH, p_display_name = ''Anonymous'',
     p_roles = []\<rparr>"

section \<open>Permission classes\<close>

datatype permission_class =
  CLASS_0_INFORMATION | CLASS_1_READ_ONLY | CLASS_2_LOW_RISK_CHANGE | CLASS_3_HIGH_RISK_CHANGE
| PROHIBITED

fun permission_class_value :: "permission_class \<Rightarrow> string" where
  "permission_class_value CLASS_0_INFORMATION = ''CLASS_0_INFORMATION''"
| "permission_class_value CLASS_1_READ_ONLY = ''CLASS_1_READ_ONLY''"
| "permission_class_value CLASS_2_LOW_RISK_CHANGE = ''CLASS_2_LOW_RISK_CHANGE''"
| "permission_class_value CLASS_3_HIGH_RISK_CHANGE = ''CLASS_3_HIGH_RISK_CHANGE''"
| "permission_class_value PROHIBITED = ''PROHIBITED''"

definition APPROVAL_REQUIRED_CLASSES :: "permission_class list" where
  "APPROVAL_REQUIRED_CLASSES = [CLASS_2_LOW_RISK_CHANGE, CLASS_3_HIGH_RISK_CHANGE]"

text \<open>The classes whose tools change something outside the program.\<close>

definition change_class :: "permission_class \<Rightarrow> bool" where
  "change_class c = (c \<in> set APPROVAL_REQUIRED_CLASSES)"

lemma change_class_simps [simp]:
  "\<not> change_class CLASS_0_INFORMATION" "\<not> change_class CLASS_1_READ_ONLY"
  "change_class CLASS_2_LOW_RISK_CHANGE" "change_class CLASS_3_HIGH_RISK_CHANGE"
  "\<not> change_class PROHIBITED"
  by (simp_all add: change_class_def APPROVAL_REQUIRED_CLASSES_def)

end
