(* ===== verification/Redaction.thy ===== *)
theory Redaction
  imports Json
begin

text \<open>
  \<open>core/redaction.py\<close>: the one redaction routine that the log pipeline, the audit service,
  the event history and the output sanitizer share.  JSON has no tuples and no sets, so only
  the branches for dictionaries, lists and scalars of \<open>redact\<close> can be reached by the values
  modelled here.
\<close>

definition REDACTED :: string where
  "REDACTED = ''***REDACTED***''"

definition TRUNCATED :: string where
  "TRUNCATED = ''***TRUNCATED***''"

definition SENSITIVE_KEY_FRAGMENTS :: "string list" where
  "SENSITIVE_KEY_FRAGMENTS =
    [''password'', ''passwd'', ''secret'', ''token'', ''api_key'', ''apikey'', ''authorization'',
     ''auth_header'', ''credential'', ''private_key'', ''privatekey'', ''ssh_key'', ''community'',
     ''enable_secret'', ''session_key'', ''cookie'']"

definition MAX_DEPTH :: nat where
  "MAX_DEPTH = 12"

definition is_sensitive_key :: "string \<Rightarrow> bool" where
  "is_sensitive_key key = (let lowered = lower key in
     list_ex (\<lambda>fragment. contains lowered fragment) SENSITIVE_KEY_FRAGMENTS)"

text \<open>
  \<open>redact(value, _depth)\<close> counts the depth up to \<open>MAX_DEPTH\<close>; the model counts down from
  what is left, which is the same test.
\<close>

fun redact_at :: "nat \<Rightarrow> json \<Rightarrow> json" where
  "redact_at 0 v = JStr TRUNCATED"
| "redact_at (Suc d) (JObj kvs) =
     JObj (map (\<lambda>kv. (fst kv, if is_sensitive_key (fst kv) then JStr REDACTED
                               else redact_at d (snd kv))) kvs)"
| "redact_at (Suc d) (JArr xs) = JArr (map (redact_at d) xs)"
| "redact_at (Suc d) v = v"

definition redact :: "json \<Rightarrow> json" where
  "redact v = redact_at MAX_DEPTH v"

text \<open>A dictionary stays a dictionary.\<close>

definition redact_obj :: "jobj \<Rightarrow> jobj" where
  "redact_obj d = (case redact (JObj d) of JObj d' \<Rightarrow> d' | _ \<Rightarrow> [])"

lemma redact_JObj: "redact (JObj d) = JObj (redact_obj d)"
  by (simp add: redact_obj_def redact_def MAX_DEPTH_def numeral_eq_Suc)

text \<open>
  What redaction promises: no dictionary anywhere in the result holds anything but the
  marker under a sensitive key, and nothing is nested deeper than the limit.
\<close>

fun masked :: "json \<Rightarrow> bool" where
  "masked (JObj kvs) =
     (\<forall>kv \<in> set kvs. (is_sensitive_key (fst kv) \<longrightarrow> snd kv = JStr REDACTED) \<and> masked (snd kv))"
| "masked (JArr xs) = (\<forall>x \<in> set xs. masked x)"
| "masked v = True"

fun depth :: "json \<Rightarrow> nat" where
  "depth (JObj kvs) = Suc (Max (insert 0 (set (map (\<lambda>kv. depth (snd kv)) kvs))))"
| "depth (JArr xs) = Suc (Max (insert 0 (set (map depth xs))))"
| "depth v = 0"

lemma masked_redact_at: "masked (redact_at d v)"
  by (induction d v rule: redact_at.induct) auto

lemma depth_redact_at: "depth (redact_at d v) \<le> d"
  by (induction d v rule: redact_at.induct) (auto simp: image_iff)

lemma redact_at_idem: "redact_at d (redact_at d v) = redact_at d v"
  by (induction d v rule: redact_at.induct) (auto simp: TRUNCATED_def)

text \<open>A value with no sensitive key that is not nested too deeply is left as it is.\<close>

lemma redact_at_id: "masked v \<Longrightarrow> depth v < d \<Longrightarrow> redact_at d v = v"
proof (induction d v rule: redact_at.induct)
  case (2 d kvs)
  then have "depth (snd kv) < d" if "kv \<in> set kvs" for kv
    using that by (auto simp: image_iff)
  with 2 show ?case by (auto intro!: map_idI)
next
  case (3 d xs)
  then have "depth x < d" if "x \<in> set xs" for x
    using that by auto
  with 3 show ?case by (auto intro!: map_idI)
qed simp_all

lemma keys_redact_obj: "map fst (redact_obj d) = map fst d"
  by (simp add: redact_obj_def redact_def MAX_DEPTH_def numeral_eq_Suc comp_def)

text \<open>Claim-level statement of what the routine guarantees.\<close>

lemma redact_spec:
  "masked (redact v) \<and> depth (redact v) \<le> MAX_DEPTH \<and> redact (redact v) = redact v \<and>
   (masked v \<and> depth v < MAX_DEPTH \<longrightarrow> redact v = v)"
  by (simp add: redact_def masked_redact_at depth_redact_at redact_at_idem redact_at_id)

end
