(* ===== verification/Tool_Vocabulary.thy ===== *)
theory Tool_Vocabulary
  imports Identity Redaction
begin

text \<open>
  \<open>models/tool_vocabulary.py\<close>: the enumerations of the tool framework, the legal state
  transitions and the frozen registries that policy reads.
\<close>

section \<open>Enumerations\<close>

datatype tool_lifecycle = ACTIVE | DISABLED | RETIRED

datatype target_kind = TK_NONE | TK_ASSET | TK_EXTERNAL_REF

datatype invocation_state =
  REQUESTED | REJECTED | AUTHORIZED | AWAITING_APPROVAL | APPROVED | DENIED | READY | EXECUTING
| EXECUTED | VALIDATING | SUCCEEDED | VALIDATION_FAILED | FAILED | TIMED_OUT
| EXECUTION_INDETERMINATE | EXPIRED | CANCELLED | SUPERSEDED

datatype gate_decision = GATE_ALLOW | GATE_DENY

datatype approval_decision = DECIDED_APPROVED | DECIDED_DENIED

datatype disposition = CONFIRMED_SUCCEEDED | CONFIRMED_FAILED | UNKNOWN

datatype validation_outcome = CONFIRMED | NOT_CONFIRMED | INDETERMINATE

datatype adapter_outcome = AO_SUCCESS | AO_FAILURE | AO_TIMEOUT | AO_UNAVAILABLE

datatype idempotency_kind = NATURALLY_IDEMPOTENT | KEYED | NON_IDEMPOTENT

datatype tool_error_category =
  EC_AUTHENTICATION | EC_AUTHORIZATION | EC_POLICY_DENIED | EC_CAPABILITY_NOT_BOUND
| EC_APPROVAL_REQUIRED | EC_APPROVAL_DENIED | EC_APPROVAL_EXPIRED | EC_APPROVAL_INVALID_ENVELOPE
| EC_SELF_APPROVAL_FORBIDDEN | EC_INVALID_TARGET | EC_VALIDATION_ERROR | EC_IDEMPOTENCY_CONFLICT
| EC_TIMEOUT | EC_ADAPTER_UNAVAILABLE | EC_TARGET_UNAVAILABLE | EC_EXECUTION_FAILED
| EC_EXECUTION_INDETERMINATE | EC_VALIDATION_FAILED | EC_OUTPUT_CONTRACT_VIOLATION | EC_CANCELLED
| EC_INTERNAL_ERROR

datatype policy_reason =
  PR_ALLOWED | PR_CAPABILITY_NOT_BOUND | PR_TOOL_DISABLED | PR_TOOL_RETIRED
| PR_PROHIBITED_CAPABILITY | PR_SCHEMA_INVALID | PR_TARGET_INVALID | PR_TARGET_OUT_OF_SCOPE
| PR_TARGET_RETIRED | PR_ROLE_INSUFFICIENT | PR_ENVIRONMENT_RESTRICTED | PR_APPROVAL_MISSING
| PR_APPROVAL_EXPIRED | PR_APPROVAL_ENVELOPE_MISMATCH | PR_ENVELOPE_INTEGRITY_FAILED
| PR_INTERNAL_ERROR

section \<open>Stored values\<close>

fun tool_lifecycle_value :: "tool_lifecycle \<Rightarrow> string" where
  "tool_lifecycle_value ACTIVE = ''ACTIVE''"
| "tool_lifecycle_value DISABLED = ''DISABLED''"
| "tool_lifecycle_value RETIRED = ''RETIRED''"

fun target_kind_value :: "target_kind \<Rightarrow> string" where
  "target_kind_value TK_NONE = ''NONE''"
| "target_kind_value TK_ASSET = ''ASSET''"
| "target_kind_value TK_EXTERNAL_REF = ''EXTERNAL_REF''"

fun state_value :: "invocation_state \<Rightarrow> string" where
  "state_value REQUESTED = ''REQUESTED''"
| "state_value REJECTED = ''REJECTED''"
| "state_value AUTHORIZED = ''AUTHORIZED''"
| "state_value AWAITING_APPROVAL = ''AWAITING_APPROVAL''"
| "state_value APPROVED = ''APPROVED''"
| "state_value DENIED = ''DENIED''"
| "state_value READY = ''READY''"
| "state_value EXECUTING = ''EXECUTING''"
| "state_value EXECUTED = ''EXECUTED''"
| "state_value VALIDATING = ''VALIDATING''"
| "state_value SUCCEEDED = ''SUCCEEDED''"
| "state_value VALIDATION_FAILED = ''VALIDATION_FAILED''"
| "state_value FAILED = ''FAILED''"
| "state_value TIMED_OUT = ''TIMED_OUT''"
| "state_value EXECUTION_INDETERMINATE = ''EXECUTION_INDETERMINATE''"
| "state_value EXPIRED = ''EXPIRED''"
| "state_value CANCELLED = ''CANCELLED''"
| "state_value SUPERSEDED = ''SUPERSEDED''"

fun gate_decision_value :: "gate_decision \<Rightarrow> string" where
  "gate_decision_value GATE_ALLOW = ''ALLOW''"
| "gate_decision_value GATE_DENY = ''DENY''"

fun approval_decision_value :: "approval_decision \<Rightarrow> string" where
  "approval_decision_value DECIDED_APPROVED = ''APPROVED''"
| "approval_decision_value DECIDED_DENIED = ''DENIED''"

fun disposition_value :: "disposition \<Rightarrow> string" where
  "disposition_value CONFIRMED_SUCCEEDED = ''CONFIRMED_SUCCEEDED''"
| "disposition_value CONFIRMED_FAILED = ''CONFIRMED_FAILED''"
| "disposition_value UNKNOWN = ''UNKNOWN''"

fun validation_outcome_value :: "validation_outcome \<Rightarrow> string" where
  "validation_outcome_value CONFIRMED = ''CONFIRMED''"
| "validation_outcome_value NOT_CONFIRMED = ''NOT_CONFIRMED''"
| "validation_outcome_value INDETERMINATE = ''INDETERMINATE''"

fun idempotency_value :: "idempotency_kind \<Rightarrow> string" where
  "idempotency_value NATURALLY_IDEMPOTENT = ''NATURALLY_IDEMPOTENT''"
| "idempotency_value KEYED = ''KEYED''"
| "idempotency_value NON_IDEMPOTENT = ''NON_IDEMPOTENT''"

fun category_value :: "tool_error_category \<Rightarrow> string" where
  "category_value EC_AUTHENTICATION = ''AUTHENTICATION''"
| "category_value EC_AUTHORIZATION = ''AUTHORIZATION''"
| "category_value EC_POLICY_DENIED = ''POLICY_DENIED''"
| "category_value EC_CAPABILITY_NOT_BOUND = ''CAPABILITY_NOT_BOUND''"
| "category_value EC_APPROVAL_REQUIRED = ''APPROVAL_REQUIRED''"
| "category_value EC_APPROVAL_DENIED = ''APPROVAL_DENIED''"
| "category_value EC_APPROVAL_EXPIRED = ''APPROVAL_EXPIRED''"
| "category_value EC_APPROVAL_INVALID_ENVELOPE = ''APPROVAL_INVALID_ENVELOPE''"
| "category_value EC_SELF_APPROVAL_FORBIDDEN = ''SELF_APPROVAL_FORBIDDEN''"
| "category_value EC_INVALID_TARGET = ''INVALID_TARGET''"
| "category_value EC_VALIDATION_ERROR = ''VALIDATION_ERROR''"
| "category_value EC_IDEMPOTENCY_CONFLICT = ''IDEMPOTENCY_CONFLICT''"
| "category_value EC_TIMEOUT = ''TIMEOUT''"
| "category_value EC_ADAPTER_UNAVAILABLE = ''ADAPTER_UNAVAILABLE''"
| "category_value EC_TARGET_UNAVAILABLE = ''TARGET_UNAVAILABLE''"
| "category_value EC_EXECUTION_FAILED = ''EXECUTION_FAILED''"
| "category_value EC_EXECUTION_INDETERMINATE = ''EXECUTION_INDETERMINATE''"
| "category_value EC_VALIDATION_FAILED = ''VALIDATION_FAILED''"
| "category_value EC_OUTPUT_CONTRACT_VIOLATION = ''OUTPUT_CONTRACT_VIOLATION''"
| "category_value EC_CANCELLED = ''CANCELLED''"
| "category_value EC_INTERNAL_ERROR = ''INTERNAL_ERROR''"

fun reason_value :: "policy_reason \<Rightarrow> string" where
  "reason_value PR_ALLOWED = ''allowed''"
| "reason_value PR_CAPABILITY_NOT_BOUND = ''capability_not_bound''"
| "reason_value PR_TOOL_DISABLED = ''tool_disabled''"
| "reason_value PR_TOOL_RETIRED = ''tool_retired''"
| "reason_value PR_PROHIBITED_CAPABILITY = ''prohibited_capability''"
| "reason_value PR_SCHEMA_INVALID = ''schema_invalid''"
| "reason_value PR_TARGET_INVALID = ''target_invalid''"
| "reason_value PR_TARGET_OUT_OF_SCOPE = ''target_out_of_scope''"
| "reason_value PR_TARGET_RETIRED = ''target_retired''"
| "reason_value PR_ROLE_INSUFFICIENT = ''role_insufficient''"
| "reason_value PR_ENVIRONMENT_RESTRICTED = ''environment_restricted''"
| "reason_value PR_APPROVAL_MISSING = ''approval_missing''"
| "reason_value PR_APPROVAL_EXPIRED = ''approval_expired''"
| "reason_value PR_APPROVAL_ENVELOPE_MISMATCH = ''approval_envelope_mismatch''"
| "reason_value PR_ENVELOPE_INTEGRITY_FAILED = ''envelope_integrity_failed''"
| "reason_value PR_INTERNAL_ERROR = ''internal_error''"

text \<open>The stored value of a member determines the member.\<close>

lemma permission_class_value_inject [simp]:
  "permission_class_value c = permission_class_value c' \<longleftrightarrow> c = c'"
  by (cases c; cases c') simp_all

lemma target_kind_value_inject [simp]: "target_kind_value k = target_kind_value k' \<longleftrightarrow> k = k'"
  by (cases k; cases k') simp_all

lemma idempotency_value_inject [simp]: "idempotency_value i = idempotency_value i' \<longleftrightarrow> i = i'"
  by (cases i; cases i') simp_all

text \<open>A fixed phrase per error category; no adapter text is ever stored or returned.\<close>

fun ERROR_PHRASES :: "tool_error_category \<Rightarrow> string" where
  "ERROR_PHRASES EC_AUTHENTICATION = ''The caller could not be authenticated.''"
| "ERROR_PHRASES EC_AUTHORIZATION = ''The caller is not permitted to invoke this tool.''"
| "ERROR_PHRASES EC_POLICY_DENIED = ''Policy refused this invocation.''"
| "ERROR_PHRASES EC_CAPABILITY_NOT_BOUND =
     ''No executable capability is bound to this tool name and version.''"
| "ERROR_PHRASES EC_APPROVAL_REQUIRED = ''This invocation requires human approval.''"
| "ERROR_PHRASES EC_APPROVAL_DENIED = ''An approver denied this invocation.''"
| "ERROR_PHRASES EC_APPROVAL_EXPIRED = ''The approval for this invocation expired.''"
| "ERROR_PHRASES EC_APPROVAL_INVALID_ENVELOPE =
     ''The approval does not match this invocation's execution envelope.''"
| "ERROR_PHRASES EC_SELF_APPROVAL_FORBIDDEN =
     ''The requester may not approve their own invocation.''"
| "ERROR_PHRASES EC_INVALID_TARGET = ''The target is unknown or out of scope.''"
| "ERROR_PHRASES EC_VALIDATION_ERROR = ''The request does not satisfy the tool's schema.''"
| "ERROR_PHRASES EC_IDEMPOTENCY_CONFLICT =
     ''That idempotency key was already used for a different execution envelope.''"
| "ERROR_PHRASES EC_TIMEOUT = ''The tool exceeded its execution deadline.''"
| "ERROR_PHRASES EC_ADAPTER_UNAVAILABLE = ''The adapter could not be reached.''"
| "ERROR_PHRASES EC_TARGET_UNAVAILABLE = ''The target could not be reached.''"
| "ERROR_PHRASES EC_EXECUTION_FAILED = ''The tool reported a failure.''"
| "ERROR_PHRASES EC_EXECUTION_INDETERMINATE =
     ''Execution was interrupted and the outcome is unknown. A human must determine what happened.''"
| "ERROR_PHRASES EC_VALIDATION_FAILED =
     ''The tool executed but the intended change could not be confirmed.''"
| "ERROR_PHRASES EC_OUTPUT_CONTRACT_VIOLATION =
     ''The tool returned a result that does not match its declared output.''"
| "ERROR_PHRASES EC_CANCELLED = ''The invocation was cancelled.''"
| "ERROR_PHRASES EC_INTERNAL_ERROR = ''An internal error occurred.''"

section \<open>The state machine\<close>

definition all_states :: "invocation_state list" where
  "all_states =
    [REQUESTED, REJECTED, AUTHORIZED, AWAITING_APPROVAL, APPROVED, DENIED, READY, EXECUTING,
     EXECUTED, VALIDATING, SUCCEEDED, VALIDATION_FAILED, FAILED, TIMED_OUT,
     EXECUTION_INDETERMINATE, EXPIRED, CANCELLED, SUPERSEDED]"

definition TERMINAL_STATES :: "invocation_state list" where
  "TERMINAL_STATES =
    [REJECTED, DENIED, EXPIRED, CANCELLED, FAILED, TIMED_OUT, EXECUTION_INDETERMINATE, SUCCEEDED,
     VALIDATION_FAILED, SUPERSEDED]"

definition IN_FLIGHT_STATES :: "invocation_state list" where
  "IN_FLIGHT_STATES = [EXECUTING, VALIDATING]"

definition LEGAL_TRANSITIONS :: "(invocation_state \<times> invocation_state) list" where
  "LEGAL_TRANSITIONS =
    [(REQUESTED, REJECTED), (REQUESTED, AUTHORIZED),
     (AUTHORIZED, AWAITING_APPROVAL), (AUTHORIZED, READY),
     (AWAITING_APPROVAL, APPROVED), (AWAITING_APPROVAL, DENIED),
     (AWAITING_APPROVAL, EXPIRED), (AWAITING_APPROVAL, CANCELLED),
     (APPROVED, READY),
     (READY, EXECUTING), (READY, EXPIRED), (READY, CANCELLED),
     (EXECUTING, EXECUTED), (EXECUTING, EXPIRED), (EXECUTING, FAILED), (EXECUTING, TIMED_OUT),
     (EXECUTING, EXECUTION_INDETERMINATE),
     (EXECUTED, SUCCEEDED), (EXECUTED, VALIDATING),
     (VALIDATING, SUCCEEDED), (VALIDATING, VALIDATION_FAILED)]
    @ map (\<lambda>s. (s, SUPERSEDED)) (filter (\<lambda>s. s \<notin> set TERMINAL_STATES) all_states)"

definition is_legal_transition :: "invocation_state \<Rightarrow> invocation_state \<Rightarrow> bool" where
  "is_legal_transition source target = ((source, target) \<in> set LEGAL_TRANSITIONS)"

definition is_terminal_state :: "invocation_state \<Rightarrow> bool" where
  "is_terminal_state s = (s \<in> set TERMINAL_STATES)"

definition leased :: "invocation_state \<Rightarrow> bool" where
  "leased s = (s \<in> set IN_FLIGHT_STATES)"

lemma all_states_complete [simp]: "s \<in> set all_states"
  by (cases s) (simp_all add: all_states_def)

lemma leased_simps [simp]: "leased s \<longleftrightarrow> s = EXECUTING \<or> s = VALIDATING"
  by (auto simp: leased_def IN_FLIGHT_STATES_def)

text \<open>
  States are ordered as the source declares them.  Every legal transition goes up in that
  order, so no invocation can revisit a state; the ten terminal states are exactly those with
  no way out.
\<close>

fun state_index :: "invocation_state \<Rightarrow> nat" where
  "state_index REQUESTED = 0"
| "state_index REJECTED = 1"
| "state_index AUTHORIZED = 2"
| "state_index AWAITING_APPROVAL = 3"
| "state_index APPROVED = 4"
| "state_index DENIED = 5"
| "state_index READY = 6"
| "state_index EXECUTING = 7"
| "state_index EXECUTED = 8"
| "state_index VALIDATING = 9"
| "state_index SUCCEEDED = 10"
| "state_index VALIDATION_FAILED = 11"
| "state_index FAILED = 12"
| "state_index TIMED_OUT = 13"
| "state_index EXECUTION_INDETERMINATE = 14"
| "state_index EXPIRED = 15"
| "state_index CANCELLED = 16"
| "state_index SUPERSEDED = 17"

lemma state_index_inject [simp]: "state_index s = state_index t \<longleftrightarrow> s = t"
  by (cases s; cases t) simp_all

instantiation invocation_state :: linorder
begin

definition less_eq_invocation_state :: "invocation_state \<Rightarrow> invocation_state \<Rightarrow> bool" where
  "s \<le> t \<longleftrightarrow> state_index s \<le> state_index t"

definition less_invocation_state :: "invocation_state \<Rightarrow> invocation_state \<Rightarrow> bool" where
  "s < t \<longleftrightarrow> state_index s < state_index t"

instance
  by standard (auto simp: less_eq_invocation_state_def less_invocation_state_def)

end

lemma supersedable:
  "filter (\<lambda>s. s \<notin> set TERMINAL_STATES) all_states =
     [REQUESTED, AUTHORIZED, AWAITING_APPROVAL, APPROVED, READY, EXECUTING, EXECUTED, VALIDATING]"
  by code_simp

lemma legal_simps:
  "is_legal_transition s t \<longleftrightarrow>
     (case s of
       REQUESTED \<Rightarrow> t \<in> {REJECTED, AUTHORIZED, SUPERSEDED}
     | AUTHORIZED \<Rightarrow> t \<in> {AWAITING_APPROVAL, READY, SUPERSEDED}
     | AWAITING_APPROVAL \<Rightarrow> t \<in> {APPROVED, DENIED, EXPIRED, CANCELLED, SUPERSEDED}
     | APPROVED \<Rightarrow> t \<in> {READY, SUPERSEDED}
     | READY \<Rightarrow> t \<in> {EXECUTING, EXPIRED, CANCELLED, SUPERSEDED}
     | EXECUTING \<Rightarrow> t \<in> {EXECUTED, EXPIRED, FAILED, TIMED_OUT, EXECUTION_INDETERMINATE, SUPERSEDED}
     | EXECUTED \<Rightarrow> t \<in> {SUCCEEDED, VALIDATING, SUPERSEDED}
     | VALIDATING \<Rightarrow> t \<in> {SUCCEEDED, VALIDATION_FAILED, SUPERSEDED}
     | _ \<Rightarrow> False)"
  unfolding is_legal_transition_def LEGAL_TRANSITIONS_def supersedable by (cases s) auto

lemma legal_less: "is_legal_transition s t \<Longrightarrow> s < t"
  by (cases s) (auto simp: legal_simps less_invocation_state_def)

lemma legal_path_le: "is_legal_transition\<^sup>*\<^sup>* s t \<Longrightarrow> s \<le> t"
  by (induction rule: rtranclp_induct) (auto dest: legal_less)

lemma terminal_iff_stuck: "is_terminal_state s \<longleftrightarrow> (\<forall>t. \<not> is_legal_transition s t)"
proof
  assume "is_terminal_state s"
  then show "\<forall>t. \<not> is_legal_transition s t"
    by (cases s) (simp_all add: legal_simps is_terminal_state_def TERMINAL_STATES_def)
next
  assume "\<forall>t. \<not> is_legal_transition s t"
  then have "\<not> is_legal_transition s SUPERSEDED" by simp
  then show "is_terminal_state s"
    by (cases s) (simp_all add: legal_simps is_terminal_state_def TERMINAL_STATES_def)
qed

lemma legal_irrefl: "\<not> is_legal_transition s s"
  using legal_less [of s s] by auto

end
