(* ===== verification/Errors.thy ===== *)
theory Errors
  imports Tool_Vocabulary
begin

text \<open>
  \<open>tools/errors.py\<close> and the part of \<open>core/exceptions.py\<close> the modelled services raise: one
  constructor per exception class, its code, its HTTP status and the category that fixes the
  public phrase.  \<open>IntegrityError\<close> is the driver's, with the name of the violated constraint,
  \<open>LookupError\<close> is Python's own, \<open>UnhandledError\<close>
  is any exception the framework does not classify.
\<close>

datatype tool_error =
  ToolNotFoundError | ToolDisabledError | ProhibitedCapabilityError | ToolAuthorizationError
| ToolPolicyDeniedError | PolicyEngineFailureError | InvalidTargetError | ToolInputError
| IdempotencyConflictError | ApprovalRequiredError | DuplicateApprovalError | ApprovalDeniedError
| ApprovalExpiredError | ApprovalEnvelopeMismatchError | SelfApprovalForbiddenError
| ToolTimeoutError | AdapterUnavailableError | TargetUnavailableError | ToolExecutionError
| InvalidStateTransitionError | StaleTransitionError

datatype acop_error =
  ToolErr tool_error
| ConfigurationError
| AuthorizationError
| NotFoundError
| ValidationError
| InvocationStateConflictError
| ConflictError
| IdentityConflictError
| SecretRejectedError
| EmbeddingUnavailableError
| VocabularyError
| AuthenticationError
| IntegrityError string
| LookupError
| UnhandledError

fun error_category :: "tool_error \<Rightarrow> tool_error_category" where
  "error_category ToolNotFoundError = EC_CAPABILITY_NOT_BOUND"
| "error_category ToolDisabledError = EC_POLICY_DENIED"
| "error_category ProhibitedCapabilityError = EC_POLICY_DENIED"
| "error_category ToolAuthorizationError = EC_AUTHORIZATION"
| "error_category ToolPolicyDeniedError = EC_POLICY_DENIED"
| "error_category PolicyEngineFailureError = EC_INTERNAL_ERROR"
| "error_category InvalidTargetError = EC_INVALID_TARGET"
| "error_category ToolInputError = EC_VALIDATION_ERROR"
| "error_category IdempotencyConflictError = EC_IDEMPOTENCY_CONFLICT"
| "error_category ApprovalRequiredError = EC_APPROVAL_REQUIRED"
| "error_category DuplicateApprovalError = EC_APPROVAL_REQUIRED"
| "error_category ApprovalDeniedError = EC_APPROVAL_DENIED"
| "error_category ApprovalExpiredError = EC_APPROVAL_EXPIRED"
| "error_category ApprovalEnvelopeMismatchError = EC_APPROVAL_INVALID_ENVELOPE"
| "error_category SelfApprovalForbiddenError = EC_SELF_APPROVAL_FORBIDDEN"
| "error_category ToolTimeoutError = EC_TIMEOUT"
| "error_category AdapterUnavailableError = EC_ADAPTER_UNAVAILABLE"
| "error_category TargetUnavailableError = EC_TARGET_UNAVAILABLE"
| "error_category ToolExecutionError = EC_EXECUTION_FAILED"
| "error_category InvalidStateTransitionError = EC_INTERNAL_ERROR"
| "error_category StaleTransitionError = EC_INTERNAL_ERROR"

fun error_status :: "tool_error \<Rightarrow> nat" where
  "error_status ToolNotFoundError = 404"
| "error_status ToolDisabledError = 409"
| "error_status ProhibitedCapabilityError = 403"
| "error_status ToolAuthorizationError = 403"
| "error_status ToolPolicyDeniedError = 403"
| "error_status PolicyEngineFailureError = 403"
| "error_status InvalidTargetError = 422"
| "error_status ToolInputError = 422"
| "error_status IdempotencyConflictError = 409"
| "error_status ApprovalRequiredError = 409"
| "error_status DuplicateApprovalError = 409"
| "error_status ApprovalDeniedError = 403"
| "error_status ApprovalExpiredError = 409"
| "error_status ApprovalEnvelopeMismatchError = 409"
| "error_status SelfApprovalForbiddenError = 403"
| "error_status ToolTimeoutError = 504"
| "error_status AdapterUnavailableError = 503"
| "error_status TargetUnavailableError = 503"
| "error_status ToolExecutionError = 502"
| "error_status InvalidStateTransitionError = 500"
| "error_status StaleTransitionError = 500"

fun error_name :: "tool_error \<Rightarrow> string" where
  "error_name ToolNotFoundError = ''ToolNotFoundError''"
| "error_name ToolDisabledError = ''ToolDisabledError''"
| "error_name ProhibitedCapabilityError = ''ProhibitedCapabilityError''"
| "error_name ToolAuthorizationError = ''ToolAuthorizationError''"
| "error_name ToolPolicyDeniedError = ''ToolPolicyDeniedError''"
| "error_name PolicyEngineFailureError = ''PolicyEngineFailureError''"
| "error_name InvalidTargetError = ''InvalidTargetError''"
| "error_name ToolInputError = ''ToolInputError''"
| "error_name IdempotencyConflictError = ''IdempotencyConflictError''"
| "error_name ApprovalRequiredError = ''ApprovalRequiredError''"
| "error_name DuplicateApprovalError = ''DuplicateApprovalError''"
| "error_name ApprovalDeniedError = ''ApprovalDeniedError''"
| "error_name ApprovalExpiredError = ''ApprovalExpiredError''"
| "error_name ApprovalEnvelopeMismatchError = ''ApprovalEnvelopeMismatchError''"
| "error_name SelfApprovalForbiddenError = ''SelfApprovalForbiddenError''"
| "error_name ToolTimeoutError = ''ToolTimeoutError''"
| "error_name AdapterUnavailableError = ''AdapterUnavailableError''"
| "error_name TargetUnavailableError = ''TargetUnavailableError''"
| "error_name ToolExecutionError = ''ToolExecutionError''"
| "error_name InvalidStateTransitionError = ''InvalidStateTransitionError''"
| "error_name StaleTransitionError = ''StaleTransitionError''"

text \<open>The status a handler answers with; an untranslated exception is a 500.\<close>

fun http_status :: "acop_error \<Rightarrow> nat" where
  "http_status (ToolErr e) = error_status e"
| "http_status ConfigurationError = 500"
| "http_status AuthorizationError = 403"
| "http_status NotFoundError = 404"
| "http_status ValidationError = 422"
| "http_status InvocationStateConflictError = 409"
| "http_status ConflictError = 409"
| "http_status IdentityConflictError = 409"
| "http_status SecretRejectedError = 422"
| "http_status EmbeddingUnavailableError = 503"
| "http_status VocabularyError = 422"
| "http_status AuthenticationError = 401"
| "http_status (IntegrityError c) = 500"
| "http_status LookupError = 500"
| "http_status UnhandledError = 500"

text \<open>The first violated constraint of a list, in the order the table declares them.\<close>

definition first_violation :: "(string \<times> bool) list \<Rightarrow> string option" where
  "first_violation cs = map_option fst (find (\<lambda>c. \<not> snd c) cs)"

lemma first_violation_None: "first_violation cs = None \<longleftrightarrow> (\<forall>c \<in> set cs. snd c)"
  by (induction cs) (auto simp: first_violation_def)

definition enforce :: "(string \<times> bool) list \<Rightarrow> acop_error + unit" where
  "enforce cs = (case first_violation cs of None \<Rightarrow> Inr () | Some c \<Rightarrow> Inl (IntegrityError c))"

lemma enforce_Inr [res_simps]: "enforce cs = Inr u \<longleftrightarrow> (\<forall>c \<in> set cs. snd c)"
  by (auto simp: enforce_def first_violation_None [symmetric] split: option.splits)

lemma enforce_Inl: "enforce cs = Inl e \<Longrightarrow> \<exists>c. e = IntegrityError c"
  by (auto simp: enforce_def split: option.splits)

text \<open>
  \<open>services/tools/invocation.py\<close>, \<open>_REFUSAL_ERRORS\<close>: the error each policy reason surfaces as.
\<close>

fun REFUSAL_ERRORS :: "policy_reason \<Rightarrow> tool_error" where
  "REFUSAL_ERRORS PR_SCHEMA_INVALID = ToolInputError"
| "REFUSAL_ERRORS PR_TARGET_INVALID = InvalidTargetError"
| "REFUSAL_ERRORS PR_TARGET_OUT_OF_SCOPE = InvalidTargetError"
| "REFUSAL_ERRORS PR_TARGET_RETIRED = InvalidTargetError"
| "REFUSAL_ERRORS PR_TOOL_DISABLED = ToolDisabledError"
| "REFUSAL_ERRORS PR_TOOL_RETIRED = ToolDisabledError"
| "REFUSAL_ERRORS PR_ROLE_INSUFFICIENT = ToolAuthorizationError"
| "REFUSAL_ERRORS PR_CAPABILITY_NOT_BOUND = ToolNotFoundError"
| "REFUSAL_ERRORS PR_PROHIBITED_CAPABILITY = ProhibitedCapabilityError"
| "REFUSAL_ERRORS PR_INTERNAL_ERROR = PolicyEngineFailureError"
| "REFUSAL_ERRORS _ = ToolPolicyDeniedError"

end
