(* ===== verification/Roles.thy ===== *)
theory Roles
  imports Tool_Vocabulary
begin

text \<open>
  The second half of \<open>models/tool_vocabulary.py\<close>: the shapes of a tool's name and version, the
  frozen registries a declaration and an invocation are checked against, and the expansion of
  a principal's roles.
\<close>

section \<open>Tool identity\<close>

text \<open>
  \<open>^[a-z][a-z0-9_]*(\.[a-z][a-z0-9_]*){2,4}$\<close> and \<open>^\d+\.\d+$\<close>, both used with \<open>.match\<close>; a
  final \<open>$\<close> also matches before one trailing newline.
\<close>

definition is_segment_char :: "char \<Rightarrow> bool" where
  "is_segment_char c = (is_lower_letter c \<or> is_digit c \<or> c = CHR ''_'')"

fun is_segment :: "string \<Rightarrow> bool" where
  "is_segment [] = False"
| "is_segment (c # cs) = (is_lower_letter c \<and> list_all is_segment_char cs)"

definition TOOL_NAME_PATTERN :: "string \<Rightarrow> bool" where
  "TOOL_NAME_PATTERN s = (let segments = split_on (CHR ''.'') (drop_final_newline s) in
     3 \<le> length segments \<and> length segments \<le> 5 \<and> list_all is_segment segments)"

definition TOOL_VERSION_PATTERN :: "string \<Rightarrow> bool" where
  "TOOL_VERSION_PATTERN s = (let parts = split_on (CHR ''.'') (drop_final_newline s) in
     length parts = 2 \<and> list_all (\<lambda>p. p \<noteq> [] \<and> list_all is_digit p) parts)"

section \<open>Frozen registries\<close>

definition RETRYABLE_CATEGORIES :: "tool_error_category list" where
  "RETRYABLE_CATEGORIES = [EC_ADAPTER_UNAVAILABLE, EC_TARGET_UNAVAILABLE]"

definition PROHIBITED_CAPABILITIES :: "string list" where
  "PROHIBITED_CAPABILITIES =
    [''arbitrary.shell'', ''arbitrary.ssh'', ''arbitrary.cli'', ''arbitrary.powershell'',
     ''arbitrary.sql'', ''arbitrary.winrm'', ''storage.format'', ''vm.delete'',
     ''container.delete'', ''audit.disable'', ''logging.disable'', ''monitoring.disable'',
     ''authn.bypass'', ''authz.bypass'', ''firewall.unrestricted'', ''routing.unrestricted'',
     ''secrets.read'', ''secrets.export'', ''model.generated.command'']"

definition APPROVAL_AUTHORITY_ROLES :: "role list" where
  "APPROVAL_AUTHORITY_ROLES = [APPROVER, ADMIN]"

fun CLASS_MINIMUM_ROLES :: "permission_class \<Rightarrow> role list" where
  "CLASS_MINIMUM_ROLES CLASS_0_INFORMATION = [VIEWER]"
| "CLASS_MINIMUM_ROLES CLASS_1_READ_ONLY = [VIEWER]"
| "CLASS_MINIMUM_ROLES CLASS_2_LOW_RISK_CHANGE = [OPERATOR]"
| "CLASS_MINIMUM_ROLES CLASS_3_HIGH_RISK_CHANGE = [OPERATOR]"
| "CLASS_MINIMUM_ROLES PROHIBITED = [ADMIN]"

definition NETWORK_LOCATOR_FIELDS :: "string list" where
  "NETWORK_LOCATOR_FIELDS =
    [''host'', ''hostname'', ''ip'', ''ip_address'', ''address'', ''url'', ''uri'', ''endpoint'',
     ''dsn'', ''connection_string'', ''server'', ''target_host'']"

definition COMMAND_FIELDS :: "string list" where
  "COMMAND_FIELDS =
    [''command'', ''cmd'', ''commands'', ''script'', ''shell'', ''exec'', ''execute'', ''query'',
     ''sql'', ''statement'', ''payload'', ''raw'', ''body'', ''powershell'']"

definition SECRET_FIELD_FRAGMENTS :: "string list" where
  "SECRET_FIELD_FRAGMENTS = SENSITIVE_KEY_FRAGMENTS"

section \<open>Effective roles\<close>

fun ROLE_IMPLICATIONS :: "role \<Rightarrow> role list" where
  "ROLE_IMPLICATIONS ADMIN = [ADMIN, APPROVER, OPERATOR, VIEWER]"
| "ROLE_IMPLICATIONS APPROVER = [APPROVER, VIEWER]"
| "ROLE_IMPLICATIONS OPERATOR = [OPERATOR, VIEWER]"
| "ROLE_IMPLICATIONS VIEWER = [VIEWER]"

definition effective_roles :: "string list \<Rightarrow> role list" where
  "effective_roles roles =
     concat (map (\<lambda>name. case role_of name of None \<Rightarrow> [] | Some r \<Rightarrow> ROLE_IMPLICATIONS r) roles)"

lemma role_of_iff: "role_of n = Some r \<longleftrightarrow> n = role_value r"
  by (metis role_of_SomeD role_of_value)

lemma effective_roles_iff:
  "r \<in> set (effective_roles roles) \<longleftrightarrow>
     (\<exists>r'. role_value r' \<in> set roles \<and> r \<in> set (ROLE_IMPLICATIONS r'))"
proof -
  have "r \<in> set (case role_of n of None \<Rightarrow> [] | Some r \<Rightarrow> ROLE_IMPLICATIONS r) \<longleftrightarrow>
      (\<exists>r'. n = role_value r' \<and> r \<in> set (ROLE_IMPLICATIONS r'))" for n
    by (cases "role_of n") (auto simp: role_of_iff simp flip: role_of_iff)
  then show ?thesis
    unfolding effective_roles_def set_concat by auto
qed

lemma effective_roles_mono:
  assumes "set roles \<subseteq> set roles'"
  shows "set (effective_roles roles) \<subseteq> set (effective_roles roles')"
  unfolding subset_iff effective_roles_iff using assms by blast

text \<open>Approval authority and clearance are separate axes: only an approver or an admin holds the first.\<close>

lemma approver_authority:
  "APPROVER \<in> set (effective_roles roles) \<longleftrightarrow>
     role_value APPROVER \<in> set roles \<or> role_value ADMIN \<in> set roles"
proof -
  have "APPROVER \<in> set (ROLE_IMPLICATIONS r) \<longleftrightarrow> r = APPROVER \<or> r = ADMIN" for r
    by (cases r) auto
  then show ?thesis by (auto simp: effective_roles_iff simp del: role_value.simps)
qed

end
