(* ===== verification/Contract.thy ===== *)
theory Contract
  imports Roles
begin

text \<open>
  \<open>tools/contract.py\<close>: a tool's declaration, the dictionary its contract hash covers and the
  import-time rules.  The Pydantic models of a tool are not code of this repository: a
  \<open>tool_model\<close> is what the framework reads of one, its JSON schema, its field names and its
  \<open>model_validate\<close> followed by \<open>model_dump(mode="json")\<close>.  The hash function and the adapter
  registry are parameters of the operations that use them.  Durations are in thousandths of a
  second where the code has a float.
\<close>

section \<open>Declarations\<close>

datatype sensitivity = PUBLIC | INTERNAL | CONFIDENTIAL

fun sensitivity_value :: "sensitivity \<Rightarrow> string" where
  "sensitivity_value PUBLIC = ''PUBLIC''"
| "sensitivity_value INTERNAL = ''INTERNAL''"
| "sensitivity_value CONFIDENTIAL = ''CONFIDENTIAL''"

text \<open>\<open>Invalid\<close> is Pydantic's own \<open>ValidationError\<close>, \<open>Raised\<close> any other exception.\<close>

datatype model_result = Valid jobj | Invalid | Raised

record tool_model =
  model_schema :: jobj
  model_fields :: "string list"
  model_validate :: "jobj \<Rightarrow> model_result"

record retry_policy =
  max_attempts :: int
  backoff_milli :: int
  retry_on :: "tool_error_category list"

record approval_policy =
  approval_required :: bool
  min_approvals :: int
  approver_roles :: "string list"
  distinct_approvers_required :: bool
  ttl_seconds :: int
  allowed_environments :: "string list"
  self_approval_permitted :: bool

definition default_approval_policy :: approval_policy where
  "default_approval_policy = \<lparr>approval_required = False, min_approvals = 1,
     approver_roles = map role_value APPROVAL_AUTHORITY_ROLES,
     distinct_approvers_required = False, ttl_seconds = 3600, allowed_environments = [],
     self_approval_permitted = False\<rparr>"

definition default_retry_policy :: retry_policy where
  "default_retry_policy = \<lparr>max_attempts = 1, backoff_milli = 500, retry_on = RETRYABLE_CATEGORIES\<rparr>"

definition as_snapshot :: "approval_policy \<Rightarrow> jobj" where
  "as_snapshot p =
    [(''approval_required'', JBool (approval_required p)),
     (''min_approvals'', JInt (min_approvals p)),
     (''approver_roles'', jstrs (sorted_unique (approver_roles p))),
     (''distinct_approvers_required'', JBool (distinct_approvers_required p)),
     (''ttl_seconds'', JInt (ttl_seconds p)),
     (''allowed_environments'', jstrs (sorted_unique (allowed_environments p))),
     (''self_approval_permitted'', JBool (self_approval_permitted p))]"

record tool_definition =
  td_name :: string
  td_version :: string
  td_class :: permission_class
  td_description :: string
  td_input_model :: tool_model
  td_output_model :: tool_model
  td_adapter_id :: string
  td_required_roles :: "string list"
  td_target_type :: target_kind
  td_target_asset_types :: "string list"
  td_capability_tags :: "string list"
  td_prohibited :: bool
  td_approval_policy :: approval_policy
  td_validation_required :: bool
  td_validation_delay_milli :: int
  td_timeout_milli :: int
  td_idempotency :: idempotency_kind
  td_adapter_idempotent :: bool
  td_retry_policy :: retry_policy
  td_sensitivity :: sensitivity
  td_output_allow_list :: "string list"
  td_lifecycle_default :: tool_lifecycle
  td_allow_registration_for_testing :: bool

definition td_key :: "tool_definition \<Rightarrow> string \<times> string" where
  "td_key d = (td_name d, td_version d)"

definition qualified_name :: "tool_definition \<Rightarrow> string" where
  "qualified_name d = td_name d @ ''@'' @ td_version d"

definition effective_output_fields :: "tool_definition \<Rightarrow> string list" where
  "effective_output_fields d =
     (if td_output_allow_list d \<noteq> [] then td_output_allow_list d
      else model_fields (td_output_model d))"

definition contract_material :: "tool_definition \<Rightarrow> jobj" where
  "contract_material d =
    [(''tool_name'', JStr (td_name d)),
     (''tool_version'', JStr (td_version d)),
     (''permission_class'', JStr (permission_class_value (td_class d))),
     (''adapter_id'', JStr (td_adapter_id d)),
     (''required_roles'', jstrs (sorted_unique (td_required_roles d))),
     (''target_type'', JStr (target_kind_value (td_target_type d))),
     (''target_asset_types'', jstrs (sorted_unique (td_target_asset_types d))),
     (''capability_tags'', jstrs (sorted_unique (td_capability_tags d))),
     (''prohibited'', JBool (td_prohibited d)),
     (''approval_policy'', JObj (as_snapshot (td_approval_policy d))),
     (''validation_required'', JBool (td_validation_required d)),
     (''timeout_seconds'', JFloat (td_timeout_milli d)),
     (''idempotency'', JStr (idempotency_value (td_idempotency d))),
     (''adapter_idempotent'', JBool (td_adapter_idempotent d)),
     (''retry_max_attempts'', JInt (max_attempts (td_retry_policy d))),
     (''sensitivity'', JStr (sensitivity_value (td_sensitivity d))),
     (''input_schema'', JObj (model_schema (td_input_model d))),
     (''output_schema'', JObj (model_schema (td_output_model d)))]"

definition contract_hash :: "(string \<Rightarrow> string) \<Rightarrow> tool_definition \<Rightarrow> string" where
  "contract_hash sha256 d = sha256 (canonical_json (JObj (contract_material d)))"

definition execution_parameters :: "tool_definition \<Rightarrow> jobj" where
  "execution_parameters d =
    [(''timeout_seconds'', JFloat (td_timeout_milli d)),
     (''idempotency'', JStr (idempotency_value (td_idempotency d))),
     (''adapter_idempotent'', JBool (td_adapter_idempotent d)),
     (''max_attempts'', JInt (max_attempts (td_retry_policy d))),
     (''backoff_seconds'', JFloat (backoff_milli (td_retry_policy d))),
     (''retry_on'', jstrs (sorted_unique (map category_value (retry_on (td_retry_policy d))))),
     (''validation_required'', JBool (td_validation_required d)),
     (''validation_delay_seconds'', JFloat (td_validation_delay_milli d))]"

section \<open>Import-time validation\<close>

definition jobj_of :: "json option \<Rightarrow> jobj" where
  "jobj_of v = (case v of Some (JObj d) \<Rightarrow> d | _ \<Rightarrow> [])"

text \<open>The schema and its \<open>$defs\<close>, the blocks both walks visit.\<close>

definition schema_blocks :: "tool_model \<Rightarrow> jobj list" where
  "schema_blocks m = model_schema m #
     map (\<lambda>kv. jobj_of (Some (snd kv))) (jobj_of (jget (model_schema m) ''$defs''))"

definition schema_field_names :: "tool_model \<Rightarrow> string list" where
  "schema_field_names m =
     concat (map (\<lambda>block. map fst (jobj_of (jget block ''properties''))) (schema_blocks m))"

definition forbids_additional_properties :: "tool_model \<Rightarrow> bool" where
  "forbids_additional_properties m =
     list_all (\<lambda>block. jget block ''type'' = Some (JStr ''object'') \<longrightarrow>
                 jget block ''additionalProperties'' = Some (JBool False)) (schema_blocks m)"

text \<open>One constructor per \<open>raise\<close>; every message names the offending declaration.\<close>

datatype declaration_error =
  BadName | BadVersion
| ApprovalNotDeclared | ValidationNotDeclared | MissingMinimumRoles | TargetClassMismatch
| NoTargetAssetTypes
| NoApproverRoles | ApproverOutsideAuthority | TooFewApprovals | ApproversNotDistinct | BadTtl
| ProhibitedTag
| RetriesNonIdempotent | NoAttempts | RetryOnUnsupported | RetriesNonIdempotentAdapter
| SecretField | NetworkLocatorField | CommandField | AdditionalProperties
| AdapterNotRegistered

definition check_identity :: "tool_definition \<Rightarrow> declaration_error + unit" where
  "check_identity d =
     andThen (require (TOOL_NAME_PATTERN (td_name d)) BadName) (\<lambda>_.
     require (TOOL_VERSION_PATTERN (td_version d)) BadVersion)"

definition check_class_agreement :: "tool_definition \<Rightarrow> declaration_error + unit" where
  "check_class_agreement d =
    (let requires_approval = td_class d \<in> set APPROVAL_REQUIRED_CLASSES;
         minimum = CLASS_MINIMUM_ROLES (td_class d);
         missing = filter (\<lambda>r. r \<notin> set (td_required_roles d)) (map role_value minimum);
         is_class_zero = (td_class d = CLASS_0_INFORMATION);
         has_no_target = (td_target_type d = TK_NONE) in
     andThen (require (\<not> (requires_approval \<and> \<not> approval_required (td_approval_policy d)))
                ApprovalNotDeclared) (\<lambda>_.
     andThen (require (\<not> (requires_approval \<and> \<not> td_validation_required d))
                ValidationNotDeclared) (\<lambda>_.
     andThen (require (missing = []) MissingMinimumRoles) (\<lambda>_.
     andThen (require (is_class_zero = has_no_target) TargetClassMismatch) (\<lambda>_.
     require (\<not> (td_target_type d = TK_ASSET \<and> td_target_asset_types d = []))
       NoTargetAssetTypes)))))"

definition check_approval_policy :: "tool_definition \<Rightarrow> declaration_error + unit" where
  "check_approval_policy d =
    (let policy = td_approval_policy d;
         authority = map role_value APPROVAL_AUTHORITY_ROLES in
     if \<not> approval_required policy then Inr ()
     else
       andThen (require (approver_roles policy \<noteq> []) NoApproverRoles) (\<lambda>_.
       andThen (require (list_all (\<lambda>r. r \<in> set authority) (approver_roles policy))
                  ApproverOutsideAuthority) (\<lambda>_.
       andThen (require (1 \<le> min_approvals policy) TooFewApprovals) (\<lambda>_.
       andThen (require (\<not> (1 < min_approvals policy \<and> \<not> distinct_approvers_required policy))
                  ApproversNotDistinct) (\<lambda>_.
       require (0 < ttl_seconds policy) BadTtl)))))"

definition prohibited_overlap :: "tool_definition \<Rightarrow> string list" where
  "prohibited_overlap d = filter (\<lambda>t. t \<in> set PROHIBITED_CAPABILITIES) (td_capability_tags d)"

definition check_prohibition :: "tool_definition \<Rightarrow> declaration_error + unit" where
  "check_prohibition d =
     (if prohibited_overlap d = [] then Inr ()
      else if td_allow_registration_for_testing d then Inr ()
      else Inl ProhibitedTag)"

definition check_idempotency :: "tool_definition \<Rightarrow> declaration_error + unit" where
  "check_idempotency d =
    (let retry = td_retry_policy d in
     andThen (require (\<not> (td_idempotency d = NON_IDEMPOTENT \<and> max_attempts retry \<noteq> 1))
                RetriesNonIdempotent) (\<lambda>_.
     andThen (require (1 \<le> max_attempts retry) NoAttempts) (\<lambda>_.
     andThen (require (list_all (\<lambda>c. c \<in> set RETRYABLE_CATEGORIES) (retry_on retry))
                RetryOnUnsupported) (\<lambda>_.
     require (\<not> (1 < max_attempts retry \<and> \<not> td_adapter_idempotent d))
       RetriesNonIdempotentAdapter))))"

definition check_input_field :: "string \<Rightarrow> declaration_error + unit" where
  "check_input_field name =
    (let lowered = lower name in
     andThen (require (\<not> list_ex (\<lambda>fragment. contains lowered fragment) SECRET_FIELD_FRAGMENTS)
                SecretField) (\<lambda>_.
     andThen (require (lowered \<notin> set NETWORK_LOCATOR_FIELDS) NetworkLocatorField) (\<lambda>_.
     require (lowered \<notin> set COMMAND_FIELDS) CommandField)))"

definition check_input_schema :: "tool_definition \<Rightarrow> declaration_error + unit" where
  "check_input_schema d =
     andThen (foldRes (\<lambda>_. check_input_field) () (schema_field_names (td_input_model d))) (\<lambda>_.
     andThen (require (forbids_additional_properties (td_input_model d)) AdditionalProperties) (\<lambda>_.
     require (forbids_additional_properties (td_output_model d)) AdditionalProperties))"

text \<open>The adapters some module registers: \<open>resolve_adapter\<close> looks an id up among them.\<close>

definition check_adapter_binding :: "string list \<Rightarrow> tool_definition \<Rightarrow> declaration_error + unit" where
  "check_adapter_binding adapters d =
     require (td_adapter_id d \<in> set adapters) AdapterNotRegistered"

definition validate_declaration :: "string list \<Rightarrow> tool_definition \<Rightarrow> declaration_error + unit" where
  "validate_declaration adapters d =
     andThen (check_identity d) (\<lambda>_.
     andThen (check_class_agreement d) (\<lambda>_.
     andThen (check_approval_policy d) (\<lambda>_.
     andThen (check_prohibition d) (\<lambda>_.
     andThen (check_idempotency d) (\<lambda>_.
     andThen (check_input_schema d) (\<lambda>_.
     check_adapter_binding adapters d))))))"

section \<open>What a registered declaration guarantees\<close>

lemma foldRes_unit:
  "foldRes (\<lambda>_. f) () xs = Inr u \<longleftrightarrow> (\<forall>x \<in> set xs. f x = Inr ())"
  by (induction xs) (auto simp: res_simps)

lemmas check_defs =
  check_identity_def check_class_agreement_def check_approval_policy_def check_prohibition_def
  check_idempotency_def check_input_schema_def check_input_field_def check_adapter_binding_def

lemma validate_declaration_iff:
  "validate_declaration adapters d = Inr u \<longleftrightarrow>
     check_identity d = Inr () \<and> check_class_agreement d = Inr () \<and>
     check_approval_policy d = Inr () \<and> check_prohibition d = Inr () \<and>
     check_idempotency d = Inr () \<and> check_input_schema d = Inr () \<and>
     check_adapter_binding adapters d = Inr ()"
  by (simp add: validate_declaration_def andThen_eq_Inr)

lemma check_class_agreementD:
  assumes "check_class_agreement d = Inr u"
  shows "change_class (td_class d) \<Longrightarrow>
      approval_required (td_approval_policy d) \<and> td_validation_required d"
    and "r \<in> set (CLASS_MINIMUM_ROLES (td_class d)) \<Longrightarrow> role_value r \<in> set (td_required_roles d)"
    and "td_class d = CLASS_0_INFORMATION \<longleftrightarrow> td_target_type d = TK_NONE"
    and "td_target_type d = TK_ASSET \<Longrightarrow> td_target_asset_types d \<noteq> []"
  using assms
  by (auto simp: check_class_agreement_def Let_def andThen_eq_Inr change_class_def
      filter_empty_conv)

lemma check_approval_policyD:
  assumes "check_approval_policy d = Inr u" and "approval_required (td_approval_policy d)"
  shows "approver_roles (td_approval_policy d) \<noteq> []"
    and "set (approver_roles (td_approval_policy d)) \<subseteq> {role_value APPROVER, role_value ADMIN}"
    and "1 \<le> min_approvals (td_approval_policy d)"
    and "1 < min_approvals (td_approval_policy d) \<Longrightarrow>
         distinct_approvers_required (td_approval_policy d)"
    and "0 < ttl_seconds (td_approval_policy d)"
  using assms
  by (auto simp: check_approval_policy_def Let_def andThen_eq_Inr list_all_iff
      APPROVAL_AUTHORITY_ROLES_def)

lemma check_input_fieldD:
  "check_input_field f = Inr u \<longleftrightarrow>
     \<not> is_sensitive_key f \<and> lower f \<notin> set NETWORK_LOCATOR_FIELDS \<and> lower f \<notin> set COMMAND_FIELDS"
  by (simp add: check_input_field_def Let_def andThen_eq_Inr is_sensitive_key_def
      SECRET_FIELD_FRAGMENTS_def)

text \<open>
  A declaration of a change class that passes the import-time rules declares approval
  and validation, names approvers, all of them with approval authority, asks for at least one
  approval, for distinct approvers when it asks for more than one, gives approvals a finite
  life, requires the operator role and names a target.
\<close>

theorem validated_change_tool:
  assumes "validate_declaration adapters d = Inr ()" and "change_class (td_class d)"
  shows "approval_required (td_approval_policy d) \<and> td_validation_required d \<and>
     approver_roles (td_approval_policy d) \<noteq> [] \<and>
     set (approver_roles (td_approval_policy d)) \<subseteq> {role_value APPROVER, role_value ADMIN} \<and>
     1 \<le> min_approvals (td_approval_policy d) \<and>
     (distinct_approvers_required (td_approval_policy d) \<or>
      min_approvals (td_approval_policy d) = 1) \<and>
     0 < ttl_seconds (td_approval_policy d) \<and>
     role_value OPERATOR \<in> set (td_required_roles d) \<and> td_target_type d \<noteq> TK_NONE"
proof -
  have checks: "check_class_agreement d = Inr ()" "check_approval_policy d = Inr ()"
    using assms(1) by (simp_all add: validate_declaration_iff)
  note agreement = check_class_agreementD [OF checks(1)]
  have required: "approval_required (td_approval_policy d)" and "td_validation_required d"
    using agreement(1) assms(2) by simp_all
  note policy = check_approval_policyD [OF checks(2) required]
  have "role_value OPERATOR \<in> set (td_required_roles d)"
    using agreement(2) [of OPERATOR] assms(2) by (cases "td_class d") simp_all
  moreover have "td_target_type d \<noteq> TK_NONE"
    using agreement(3) assms(2) by (cases "td_class d") simp_all
  ultimately show ?thesis
    using required \<open>td_validation_required d\<close> policy by fastforce
qed

text \<open>
  No field of a registered tool's input schema, nested models included, names a secret, a
  network locator or a command; every object of the schema is closed; a prohibited tag needs
  the testing exemption; retries need an idempotent adapter, categories where it is known that
  nothing happened, and a tool that is not declared non-idempotent; and its adapter is bound.
\<close>

theorem validated_surface:
  assumes "validate_declaration adapters d = Inr ()"
  shows "(\<forall>f \<in> set (schema_field_names (td_input_model d)).
            \<not> is_sensitive_key f \<and> lower f \<notin> set NETWORK_LOCATOR_FIELDS \<and>
            lower f \<notin> set COMMAND_FIELDS) \<and>
     forbids_additional_properties (td_input_model d) \<and>
     forbids_additional_properties (td_output_model d) \<and>
     (set (td_capability_tags d) \<inter> set PROHIBITED_CAPABILITIES = {} \<or>
      td_allow_registration_for_testing d) \<and>
     1 \<le> max_attempts (td_retry_policy d) \<and>
     (max_attempts (td_retry_policy d) = 1 \<or>
      td_adapter_idempotent d \<and> td_idempotency d \<noteq> NON_IDEMPOTENT) \<and>
     set (retry_on (td_retry_policy d)) \<subseteq> set RETRYABLE_CATEGORIES \<and>
     td_adapter_id d \<in> set adapters"
proof -
  have checks: "check_prohibition d = Inr ()" "check_idempotency d = Inr ()"
    "check_input_schema d = Inr ()" "check_adapter_binding adapters d = Inr ()"
    using assms by (simp_all add: validate_declaration_iff)
  have "\<forall>f \<in> set (schema_field_names (td_input_model d)). check_input_field f = Inr ()"
    and closed: "forbids_additional_properties (td_input_model d)"
      "forbids_additional_properties (td_output_model d)"
    using checks(3) by (simp_all add: check_input_schema_def andThen_eq_Inr foldRes_unit)
  then have "\<forall>f \<in> set (schema_field_names (td_input_model d)). \<not> is_sensitive_key f \<and>
      lower f \<notin> set NETWORK_LOCATOR_FIELDS \<and> lower f \<notin> set COMMAND_FIELDS"
    by (simp add: check_input_fieldD)
  moreover have "set (td_capability_tags d) \<inter> set PROHIBITED_CAPABILITIES = {} \<or>
      td_allow_registration_for_testing d"
    using checks(1)
    by (auto simp: check_prohibition_def prohibited_overlap_def filter_empty_conv split: if_splits)
  ultimately show ?thesis
    using closed checks(2,4)
    by (auto simp: check_idempotency_def check_adapter_binding_def Let_def andThen_eq_Inr list_all_iff)
qed

section \<open>What the contract hash covers\<close>

definition same_policy :: "approval_policy \<Rightarrow> approval_policy \<Rightarrow> bool" where
  "same_policy p q \<longleftrightarrow>
     approval_required p = approval_required q \<and> min_approvals p = min_approvals q \<and>
     set (approver_roles p) = set (approver_roles q) \<and>
     distinct_approvers_required p = distinct_approvers_required q \<and>
     ttl_seconds p = ttl_seconds q \<and>
     set (allowed_environments p) = set (allowed_environments q) \<and>
     self_approval_permitted p = self_approval_permitted q"

definition same_contract :: "tool_definition \<Rightarrow> tool_definition \<Rightarrow> bool" where
  "same_contract d e \<longleftrightarrow>
     td_key d = td_key e \<and> td_class d = td_class e \<and> td_adapter_id d = td_adapter_id e \<and>
     set (td_required_roles d) = set (td_required_roles e) \<and>
     td_target_type d = td_target_type e \<and>
     set (td_target_asset_types d) = set (td_target_asset_types e) \<and>
     set (td_capability_tags d) = set (td_capability_tags e) \<and>
     td_prohibited d = td_prohibited e \<and>
     same_policy (td_approval_policy d) (td_approval_policy e) \<and>
     td_validation_required d = td_validation_required e \<and>
     td_timeout_milli d = td_timeout_milli e \<and> td_idempotency d = td_idempotency e \<and>
     td_adapter_idempotent d = td_adapter_idempotent e \<and>
     max_attempts (td_retry_policy d) = max_attempts (td_retry_policy e) \<and>
     td_sensitivity d = td_sensitivity e \<and>
     sort_keys (JObj (model_schema (td_input_model d))) =
       sort_keys (JObj (model_schema (td_input_model e))) \<and>
     sort_keys (JObj (model_schema (td_output_model d))) =
       sort_keys (JObj (model_schema (td_output_model e)))"

lemma sensitivity_value_inject [simp]: "sensitivity_value s = sensitivity_value t \<longleftrightarrow> s = t"
  by (cases s; cases t) simp_all

lemma sort_keys_as_snapshot:
  "sort_keys (JObj (as_snapshot p)) = sort_keys (JObj (as_snapshot q)) \<longleftrightarrow> same_policy p q"
proof -
  have "map fst (as_snapshot p) = map fst (as_snapshot q)" "distinct (map fst (as_snapshot p))"
    by (simp_all add: as_snapshot_def)
  from sort_keys_fields [OF this] show ?thesis
    by (simp add: as_snapshot_def same_policy_def)
qed

lemma sort_keys_contract_material:
  "sort_keys (JObj (contract_material d)) = sort_keys (JObj (contract_material e)) \<longleftrightarrow>
     same_contract d e"
proof -
  have "map fst (contract_material d) = map fst (contract_material e)"
    "distinct (map fst (contract_material d))"
    by (simp_all add: contract_material_def)
  from sort_keys_fields [OF this] show ?thesis
    by (simp add: contract_material_def same_contract_def td_key_def sort_keys_as_snapshot
        del: sort_keys.simps(2))
qed

text \<open>
  Two declarations have the same contract hash exactly when they agree on identity, class,
  adapter, roles, target scope, tags, approval and execution policy, sensitivity and both
  schemas, sets compared as sets and schemas without regard to key order; or when their two
  canonical texts are a collision of the hash function.
\<close>

theorem contract_hash_iff:
  "contract_hash sha256 d = contract_hash sha256 e \<longleftrightarrow>
     same_contract d e \<or>
     collision sha256 (canonical_json (JObj (contract_material d)))
       (canonical_json (JObj (contract_material e)))"
  unfolding contract_hash_def digest_eq_iff canonical_json_eq sort_keys_contract_material ..

end
