(* ===== verification/Store.thy ===== *)
theory Store
  imports Errors Contract
begin

text \<open>
  \<open>models/tool.py\<close> and the audit table: the rows of the tool framework, the constraints the
  database enforces on them, and the store a transaction works on.  Domains of enumerated
  columns are the datatypes, so the \<open>IN (...)\<close> constraints are typing; the others are written
  out.  Instants are integers in thousandths of a second.  Row ids come from one counter, so
  that \<open>uuid4\<close> never repeats.
\<close>

section \<open>Rows\<close>

record registration =
  reg_id :: uuid
  reg_name :: string
  reg_version :: string
  reg_contract_hash :: string
  reg_lifecycle :: tool_lifecycle
  reg_disabled_at :: "int option"
  reg_disabled_by :: "string option"
  reg_disabled_reason :: "string option"
  reg_retired_at :: "int option"
  reg_retired_reason :: "string option"

record asset =
  asset_id :: uuid
  asset_type :: string
  asset_lifecycle :: string
  asset_display_name :: string

record asset_identifier =
  ai_asset_id :: uuid
  ai_namespace :: string
  ai_value_normalized :: string
  ai_retired :: bool

text \<open>
  A \<open>tool_invocation\<close> row in two parts: the columns written once, when the row is inserted,
  and the columns an \<open>UPDATE\<close> assigns.
\<close>

record security_snapshot =
  s_request_id :: "string option"
  s_idempotency_key :: "string option"
  s_tool_name :: string
  s_tool_version :: string
  s_registration_id :: uuid
  s_permission_class :: permission_class
  s_approval_required :: bool
  s_min_approvals :: int
  s_distinct_approvers :: bool
  s_ttl_seconds :: int
  s_validation_required :: bool
  s_approval_policy :: jobj
  s_execution_parameters :: jobj
  s_contract_hash :: string
  s_envelope :: jobj
  s_envelope_digest :: string
  s_input_digest :: string
  s_input_canonical :: jobj
  s_principal :: audit_fields
  s_target_kind :: target_kind
  s_target_asset_id :: "uuid option"
  s_target_ref :: "jobj option"
  s_authorization_decision :: gate_decision
  s_authorization_reason :: policy_reason
  s_authorized_at :: int
  s_requested_at :: int

record progress =
  state :: invocation_state
  final_gate_decision :: "gate_decision option"
  final_gate_reason :: "string option"
  final_gate_at :: "int option"
  final_gate_event_id :: "uuid option"
  approvals_received :: int
  executor_lease_id :: "uuid option"
  lease_expires_at :: "int option"
  attempt_count :: nat
  deadline_at :: "int option"
  result_summary :: "jobj option"
  result_digest :: "string option"
  validation_outcome :: "validation_outcome option"
  validation_detail :: "jobj option"
  rollback_hint :: "jobj option"
  err_category :: "tool_error_category option"
  err_detail :: "string option"
  approved_at :: "int option"
  started_at :: "int option"
  finished_at :: "int option"
  validated_at :: "int option"

record invocation =
  inv_id :: uuid
  inv_snap :: security_snapshot
  inv_cols :: progress

abbreviation inv_state :: "invocation \<Rightarrow> invocation_state" where
  "inv_state r \<equiv> state (inv_cols r)"

record approval =
  app_id :: uuid
  app_invocation :: uuid
  app_decision :: approval_decision
  app_envelope_digest :: string
  app_requester :: string
  app_approver :: string
  app_approver_type :: string
  app_approver_issuer :: string
  app_approver_auth :: string
  app_self_approval :: bool
  app_justification :: string
  app_decided_at :: int
  app_expires_at :: int

record event =
  ev_id :: uuid
  ev_invocation :: uuid
  ev_sequence :: nat
  ev_from :: "invocation_state option"
  ev_to :: invocation_state
  ev_actor :: "string option"
  ev_reason :: string
  ev_detail :: jobj
  ev_at :: int

record reconciliation =
  rec_id :: uuid
  rec_invocation :: uuid
  rec_disposition :: disposition
  rec_justification :: string
  rec_evidence :: jobj
  rec_by :: audit_fields
  rec_at :: int

datatype audit_outcome = AUDIT_SUCCESS | AUDIT_FAILURE | AUDIT_DENIED | AUDIT_PENDING_APPROVAL

datatype audit_severity = AUDIT_INFO | AUDIT_NOTICE | AUDIT_WARNING | AUDIT_CRITICAL

text \<open>An audit row, less its prose message and its transport columns.\<close>

record audit_row =
  au_action :: string
  au_outcome :: audit_outcome
  au_severity :: audit_severity
  au_resource_id :: uuid
  au_class :: "permission_class option"
  au_context :: jobj
  au_principal :: audit_fields
  au_request_id :: "string option"

record store =
  registrations :: "registration list"
  assets :: "asset list"
  identifiers :: "asset_identifier list"
  invocations :: "invocation list"
  approvals :: "approval list"
  events :: "event list"
  reconciliations :: "reconciliation list"
  audits :: "audit_row list"
  denials :: "audit_row list"
  next_id :: uuid

section \<open>Constraints\<close>

definition registration_checks :: "registration \<Rightarrow> (string \<times> bool) list" where
  "registration_checks r =
    [(''disabled_state'', (reg_lifecycle r = DISABLED) = (reg_disabled_at r \<noteq> None)),
     (''retired_state'', (reg_lifecycle r = RETIRED) = (reg_retired_at r \<noteq> None)),
     (''disabled_attribution'', (reg_disabled_at r = None) = (reg_disabled_by r = None)),
     (''disabled_reason_present'', (reg_disabled_at r = None) = (reg_disabled_reason r = None))]"

definition snapshot_checks :: "security_snapshot \<Rightarrow> (string \<times> bool) list" where
  "snapshot_checks s =
    [(''target_asset'', (s_target_kind s = TK_ASSET) = (s_target_asset_id s \<noteq> None)),
     (''target_ref'', (s_target_kind s = TK_EXTERNAL_REF) = (s_target_ref s \<noteq> None)),
     (''min_approvals'', 1 \<le> s_min_approvals s),
     (''distinct_approvers'', s_min_approvals s = 1 \<or> s_distinct_approvers s),
     (''approval_ttl'', 0 < s_ttl_seconds s),
     (''change_requires_idempotency_key'', \<not> change_class (s_permission_class s) \<or>
        s_idempotency_key s \<noteq> None \<or> s_authorization_decision s = GATE_DENY),
     (''change_requires_approval'', \<not> change_class (s_permission_class s) \<or> s_approval_required s),
     (''change_requires_validation'',
        \<not> change_class (s_permission_class s) \<or> s_validation_required s)]"

definition progress_checks :: "security_snapshot \<Rightarrow> progress \<Rightarrow> (string \<times> bool) list" where
  "progress_checks s c =
    [(''final_gate_timing'', (final_gate_decision c = None) = (final_gate_at c = None)),
     (''final_gate_provenance'', (final_gate_decision c = None) = (final_gate_event_id c = None)),
     (''approvals_received'', 0 \<le> approvals_received c \<and> approvals_received c \<le> s_min_approvals s),
     (''lease_state'', leased (state c) = (executor_lease_id c \<noteq> None)),
     (''lease_expiry'', leased (state c) = (lease_expires_at c \<noteq> None))]"

definition invocation_fks :: "store \<Rightarrow> invocation \<Rightarrow> (string \<times> bool) list" where
  "invocation_fks st r =
    [(''fk_tool_invocation_tool_registration_id'',
        s_registration_id (inv_snap r) \<in> reg_id ` set (registrations st)),
     (''fk_tool_invocation_target_asset_id'',
        (case s_target_asset_id (inv_snap r) of None \<Rightarrow> True
         | Some a \<Rightarrow> a \<in> asset_id ` set (assets st))),
     (''fk_tool_invocation_final_gate_event_id'',
        (case final_gate_event_id (inv_cols r) of None \<Rightarrow> True
         | Some e \<Rightarrow> e \<in> ev_id ` set (events st)))]"

text \<open>The partial unique index on the idempotency key.\<close>

definition same_live_key :: "string \<Rightarrow> invocation \<Rightarrow> bool" where
  "same_live_key k r = (s_idempotency_key (inv_snap r) = Some k \<and> inv_state r \<noteq> SUPERSEDED)"

definition uq_tool_invocation_idem :: "store \<Rightarrow> invocation \<Rightarrow> bool" where
  "uq_tool_invocation_idem st r = (case s_idempotency_key (inv_snap r) of None \<Rightarrow> True
     | Some k \<Rightarrow> inv_state r = SUPERSEDED \<or>
         \<not> list_ex (\<lambda>r'. inv_id r' \<noteq> inv_id r \<and> same_live_key k r') (invocations st))"

definition invocation_checks :: "store \<Rightarrow> invocation \<Rightarrow> (string \<times> bool) list" where
  "invocation_checks st r =
     snapshot_checks (inv_snap r) @ progress_checks (inv_snap r) (inv_cols r) @
     [(''uq_tool_invocation_idem'', uq_tool_invocation_idem st r)] @ invocation_fks st r"

definition approval_checks :: "store \<Rightarrow> approval \<Rightarrow> (string \<times> bool) list" where
  "approval_checks st a =
    [(''justification'', strip (app_justification a) \<noteq> []),
     (''expiry_after_decision'', app_decided_at a < app_expires_at a),
     (''separation_of_duties'', app_approver a \<noteq> app_requester a \<or> app_self_approval a),
     (''uq_tool_approval_distinct'', app_decision a \<noteq> DECIDED_APPROVED \<or>
        \<not> list_ex (\<lambda>a'. app_invocation a' = app_invocation a \<and> app_approver a' = app_approver a \<and>
             app_decision a' = DECIDED_APPROVED) (approvals st)),
     (''fk_tool_approval_invocation_id'', app_invocation a \<in> inv_id ` set (invocations st))]"

definition event_checks :: "store \<Rightarrow> event \<Rightarrow> (string \<times> bool) list" where
  "event_checks st e =
    [(''sequence'', 1 \<le> ev_sequence e),
     (''uq_tool_invocation_event_sequence'',
        \<not> list_ex (\<lambda>e'. ev_invocation e' = ev_invocation e \<and> ev_sequence e' = ev_sequence e)
            (events st)),
     (''fk_tool_invocation_event_invocation_id'', ev_invocation e \<in> inv_id ` set (invocations st))]"

definition reconciliation_checks :: "store \<Rightarrow> reconciliation \<Rightarrow> (string \<times> bool) list" where
  "reconciliation_checks st r =
    [(''justification'', strip (rec_justification r) \<noteq> []),
     (''fk_tool_invocation_reconciliation_invocation_id'',
        rec_invocation r \<in> inv_id ` set (invocations st))]"

section \<open>Writes\<close>

type_synonym 'a run = "acop_error + 'a \<times> store"

definition get_invocation :: "uuid \<Rightarrow> store \<Rightarrow> invocation option" where
  "get_invocation i st = find_row inv_id i (invocations st)"

definition get_registration :: "uuid \<Rightarrow> store \<Rightarrow> registration option" where
  "get_registration i st = find_row reg_id i (registrations st)"

definition get_asset :: "uuid \<Rightarrow> store \<Rightarrow> asset option" where
  "get_asset i st = find_row asset_id i (assets st)"

text \<open>Every insert takes its row id from the counter.\<close>

definition insert_invocation :: "security_snapshot \<Rightarrow> progress \<Rightarrow> store \<Rightarrow> invocation run" where
  "insert_invocation snap cols st =
    (let r = \<lparr>inv_id = next_id st, inv_snap = snap, inv_cols = cols\<rparr> in
     andThen (enforce (invocation_checks st r)) (\<lambda>_.
     Inr (r, st\<lparr>invocations := invocations st @ [r], next_id := Suc (next_id st)\<rparr>)))"

text \<open>
  \<open>UPDATE tool_invocation SET ... WHERE id = :id AND ... RETURNING id\<close>: whether the row
  matched, and the store after it.
\<close>

definition update_invocation ::
  "uuid \<Rightarrow> (progress \<Rightarrow> bool) \<Rightarrow> (progress \<Rightarrow> progress) \<Rightarrow> store \<Rightarrow> bool run" where
  "update_invocation i p f st = (case get_invocation i st of
     None \<Rightarrow> Inr (False, st)
   | Some r \<Rightarrow>
       if p (inv_cols r) then
         andThen (enforce (invocation_checks st (r\<lparr>inv_cols := f (inv_cols r)\<rparr>))) (\<lambda>_.
         Inr (True, st\<lparr>invocations := upd_rows (\<lambda>r. inv_id r = i)
                         (\<lambda>r. r\<lparr>inv_cols := f (inv_cols r)\<rparr>) (invocations st)\<rparr>))
       else Inr (False, st))"

definition insert_approval :: "(uuid \<Rightarrow> approval) \<Rightarrow> store \<Rightarrow> approval run" where
  "insert_approval mk st = (let a = mk (next_id st) in
     andThen (enforce (approval_checks st a)) (\<lambda>_.
     Inr (a, st\<lparr>approvals := approvals st @ [a], next_id := Suc (next_id st)\<rparr>)))"

definition insert_event :: "(uuid \<Rightarrow> event) \<Rightarrow> store \<Rightarrow> event run" where
  "insert_event mk st = (let e = mk (next_id st) in
     andThen (enforce (event_checks st e)) (\<lambda>_.
     Inr (e, st\<lparr>events := events st @ [e], next_id := Suc (next_id st)\<rparr>)))"

definition insert_reconciliation :: "(uuid \<Rightarrow> reconciliation) \<Rightarrow> store \<Rightarrow> reconciliation run" where
  "insert_reconciliation mk st = (let r = mk (next_id st) in
     andThen (enforce (reconciliation_checks st r)) (\<lambda>_.
     Inr (r, st\<lparr>reconciliations := reconciliations st @ [r], next_id := Suc (next_id st)\<rparr>)))"

text \<open>
  \<open>AuditService.record\<close> joins the caller's transaction; \<open>record_denial\<close> commits on its own.
  Both redact the context they are given.
\<close>

definition audit_event ::
  "string \<Rightarrow> audit_outcome \<Rightarrow> audit_severity \<Rightarrow> invocation \<Rightarrow> jobj \<Rightarrow> principal \<Rightarrow> audit_row" where
  "audit_event action outcome severity r context p =
     \<lparr>au_action = action, au_outcome = outcome, au_severity = severity,
      au_resource_id = inv_id r, au_class = Some (s_permission_class (inv_snap r)),
      au_context = redact_obj context, au_principal = to_audit_fields p,
      au_request_id = s_request_id (inv_snap r)\<rparr>"

definition audit_record :: "audit_row \<Rightarrow> store \<Rightarrow> store" where
  "audit_record a st = st\<lparr>audits := audits st @ [a]\<rparr>"

definition record_denial :: "audit_row \<Rightarrow> store \<Rightarrow> store" where
  "record_denial a st = st\<lparr>denials := denials st @ [a]\<rparr>"

text \<open>\<open>Database.session()\<close>: commit on success, roll back on any exception.\<close>

definition session :: "'a run \<Rightarrow> store \<Rightarrow> (acop_error + 'a) \<times> store" where
  "session body st = (case body of Inl e \<Rightarrow> (Inl e, st) | Inr (a, st') \<Rightarrow> (Inr a, st'))"

end
