(* ===== verification/Envelope.thy ===== *)
theory Envelope
  imports Contract
begin

text \<open>
  \<open>tools/envelope.py\<close>: what an approval binds to.  \<open>canonical_json\<close> is in theory \<open>Json\<close>; the
  values hashed here are JSON already, so its fallback encoder is never reached.
\<close>

definition digest_of :: "(string \<Rightarrow> string) \<Rightarrow> json \<Rightarrow> string" where
  "digest_of sha256 v = sha256 (canonical_json v)"

definition build_target_block ::
  "target_kind \<Rightarrow> uuid option \<Rightarrow> jobj option \<Rightarrow> jobj" where
  "build_target_block kind asset_id target_ref =
    [(''kind'', JStr (target_kind_value kind)),
     (''asset_id'', (case asset_id of None \<Rightarrow> JNull | Some a \<Rightarrow> JStr (uuid_text a))),
     (''target_ref'', (case target_ref of Some (kv # kvs) \<Rightarrow> JObj (kv # kvs) | _ \<Rightarrow> JNull))]"

definition build_envelope ::
  "(string \<Rightarrow> string) \<Rightarrow> tool_definition \<Rightarrow> jobj \<Rightarrow> jobj \<Rightarrow> jobj" where
  "build_envelope sha256 d canonical_input target =
    [(''tool'', JObj [(''name'', JStr (td_name d)), (''version'', JStr (td_version d)),
        (''contract_hash'', JStr (contract_hash sha256 d))]),
     (''permission_class'', JStr (permission_class_value (td_class d))),
     (''target'', JObj target),
     (''input'', JObj canonical_input),
     (''execution'', JObj (execution_parameters d)),
     (''approval'', JObj (as_snapshot (td_approval_policy d)))]"

definition envelope_digest :: "(string \<Rightarrow> string) \<Rightarrow> jobj \<Rightarrow> string" where
  "envelope_digest sha256 envelope = digest_of sha256 (JObj envelope)"

definition input_digest :: "(string \<Rightarrow> string) \<Rightarrow> jobj \<Rightarrow> string" where
  "input_digest sha256 canonical_input = digest_of sha256 (JObj canonical_input)"

section \<open>What an envelope identifies\<close>

lemma sort_keys_JObj_eq: "sort_keys (JObj d) = sort_keys (JObj e) \<longleftrightarrow> canonical_json (JObj d) = canonical_json (JObj e)"
  by (simp add: canonical_json_eq)

lemma build_envelope_canonical:
  "canonical_json (JObj (build_envelope sha256 d i t)) =
     canonical_json (JObj (build_envelope sha256 e j u)) \<longleftrightarrow>
   td_key d = td_key e \<and> contract_hash sha256 d = contract_hash sha256 e \<and> td_class d = td_class e \<and>
   canonical_json (JObj t) = canonical_json (JObj u) \<and>
   canonical_json (JObj i) = canonical_json (JObj j) \<and>
   canonical_json (JObj (execution_parameters d)) = canonical_json (JObj (execution_parameters e)) \<and>
   same_policy (td_approval_policy d) (td_approval_policy e)"
proof -
  define tool where "tool d = [(''name'', JStr (td_name d)), (''version'', JStr (td_version d)),
        (''contract_hash'', JStr (contract_hash sha256 d))]" for d
  have tool: "sort_keys (JObj (tool d)) = sort_keys (JObj (tool e)) \<longleftrightarrow>
      td_key d = td_key e \<and> contract_hash sha256 d = contract_hash sha256 e"
    using sort_keys_fields [of "tool d" "tool e"] by (auto simp: tool_def td_key_def)
  have "map fst (build_envelope sha256 d i t) = map fst (build_envelope sha256 e j u)"
    "distinct (map fst (build_envelope sha256 d i t))"
    by (simp_all add: build_envelope_def)
  from sort_keys_fields [OF this] show ?thesis
    unfolding canonical_json_eq
    by (simp add: build_envelope_def sort_keys_as_snapshot tool [unfolded tool_def]
        del: sort_keys.simps(2))
qed

text \<open>
  Two invocations have the same envelope digest exactly when they name the same tool
  contract, class, target, input, execution parameters and approval policy, the JSON parts
  compared by canonical form; or when the two canonical texts collide.
\<close>

theorem envelope_digest_iff:
  "envelope_digest sha256 (build_envelope sha256 d i t) =
     envelope_digest sha256 (build_envelope sha256 e j u) \<longleftrightarrow>
   (td_key d = td_key e \<and> contract_hash sha256 d = contract_hash sha256 e \<and> td_class d = td_class e \<and>
    canonical_json (JObj t) = canonical_json (JObj u) \<and>
    canonical_json (JObj i) = canonical_json (JObj j) \<and>
    canonical_json (JObj (execution_parameters d)) = canonical_json (JObj (execution_parameters e)) \<and>
    same_policy (td_approval_policy d) (td_approval_policy e)) \<or>
   collision sha256 (canonical_json (JObj (build_envelope sha256 d i t)))
     (canonical_json (JObj (build_envelope sha256 e j u)))"
  unfolding envelope_digest_def digest_of_def digest_eq_iff build_envelope_canonical ..

end
