(* ===== verification/State.thy ===== *)
theory State
  imports Store Envelope
begin

text \<open>
  \<open>services/tools/state.py\<close>: events, and the moves of an invocation as compare-and-set
  statements.  A handler holds the copy of the row it read earlier; the store is the database
  at the moment of the write, and the two may differ.
\<close>

section \<open>The event history\<close>

definition events_of :: "uuid \<Rightarrow> store \<Rightarrow> event list" where
  "events_of i st = filter (\<lambda>e. ev_invocation e = i) (events st)"

definition next_sequence :: "uuid \<Rightarrow> store \<Rightarrow> nat" where
  "next_sequence i st = Suc (fold max (map ev_sequence (events_of i st)) 0)"

definition append_event ::
  "int \<Rightarrow> uuid \<Rightarrow> invocation_state option \<Rightarrow> invocation_state \<Rightarrow> string \<Rightarrow> string option \<Rightarrow> jobj \<Rightarrow>
   store \<Rightarrow> event run" where
  "append_event now i from to reason actor detail st =
     insert_event (\<lambda>new_id. \<lparr>ev_id = new_id, ev_invocation = i, ev_sequence = next_sequence i st,
       ev_from = from, ev_to = to, ev_actor = actor, ev_reason = reason,
       ev_detail = redact_obj detail, ev_at = now\<rparr>) st"

section \<open>Moves\<close>

text \<open>
  \<open>transition\<close> up to the point where it raises: the flag says whether the row matched, and the
  held copy comes back refreshed.  A lost move leaves only a no-op event, and that event is in
  the session's store for a caller that catches the error.
\<close>

definition transition_cas ::
  "int \<Rightarrow> invocation \<Rightarrow> invocation_state \<Rightarrow> string \<Rightarrow> string option \<Rightarrow> jobj \<Rightarrow> (progress \<Rightarrow> bool) \<Rightarrow>
   (progress \<Rightarrow> progress) \<Rightarrow> store \<Rightarrow> (bool \<times> invocation) run" where
  "transition_cas now held to reason actor detail expected columns st =
    (let source = inv_state held; i = inv_id held in
     if \<not> is_legal_transition source to then Inl (ToolErr InvalidStateTransitionError)
     else
       andThen (update_invocation i (\<lambda>c. state c = source \<and> expected c)
                  (\<lambda>c. columns (c\<lparr>state := to\<rparr>)) st) (\<lambda>(won, st1).
       case get_invocation i st1 of
         None \<Rightarrow> Inl LookupError
       | Some fresh \<Rightarrow>
           if \<not> won then
             andThen (append_event now i (Some (inv_state fresh)) (inv_state fresh) reason actor
                 [(''stale_transition'', JBool True),
                  (''expected_state'', JStr (state_value source)),
                  (''attempted_to_state'', JStr (state_value to))] st1) (\<lambda>(ev, st2).
             Inr ((False, fresh), st2))
           else
             andThen (append_event now i (Some source) to reason actor detail st1) (\<lambda>(ev, st2).
             Inr ((True, fresh), st2))))"

definition transition ::
  "int \<Rightarrow> invocation \<Rightarrow> invocation_state \<Rightarrow> string \<Rightarrow> string option \<Rightarrow> jobj \<Rightarrow> (progress \<Rightarrow> bool) \<Rightarrow>
   (progress \<Rightarrow> progress) \<Rightarrow> store \<Rightarrow> invocation run" where
  "transition now held to reason actor detail expected columns st =
     andThen (transition_cas now held to reason actor detail expected columns st)
       (\<lambda>((won, fresh), st'). if won then Inr (fresh, st') else Inl (ToolErr StaleTransitionError))"

definition anything :: "progress \<Rightarrow> bool" where
  "anything c = True"

text \<open>The \<open>.values(...)\<close> of the claiming \<open>UPDATE\<close>.\<close>

definition claim_columns :: "int \<Rightarrow> uuid \<Rightarrow> int \<Rightarrow> int \<Rightarrow> progress \<Rightarrow> progress" where
  "claim_columns now lease lease_until deadline c =
     c\<lparr>state := EXECUTING, executor_lease_id := Some lease,
       lease_expires_at := Some lease_until, deadline_at := Some deadline,
       started_at := Some now, attempt_count := Suc (attempt_count c)\<rparr>"

definition claim_for_execution ::
  "int \<Rightarrow> uuid \<Rightarrow> uuid \<Rightarrow> int \<Rightarrow> int \<Rightarrow> store \<Rightarrow> bool run" where
  "claim_for_execution now i lease lease_until deadline st =
     andThen (update_invocation i (\<lambda>c. state c = READY)
                (claim_columns now lease lease_until deadline) st) (\<lambda>(won, st1).
     if won then
       andThen (append_event now i (Some READY) EXECUTING (reason_value PR_ALLOWED) None
         [(''lease_id'', JStr (uuid_text lease))] st1) (\<lambda>(ev, st2). Inr (True, st2))
     else Inr (False, st1))"

definition record_final_gate_if_owned ::
  "int \<Rightarrow> uuid \<Rightarrow> uuid \<Rightarrow> gate_decision \<Rightarrow> string \<Rightarrow> uuid \<Rightarrow> store \<Rightarrow> bool run" where
  "record_final_gate_if_owned now i lease decision reason event_id st =
     update_invocation i
       (\<lambda>c. state c = EXECUTING \<and> executor_lease_id c = Some lease \<and>
            (case lease_expires_at c of None \<Rightarrow> False | Some t \<Rightarrow> now < t))
       (\<lambda>c. c\<lparr>final_gate_decision := Some decision, final_gate_reason := Some reason,
              final_gate_at := Some now, final_gate_event_id := Some event_id\<rparr>) st"

definition drop_lease :: "progress \<Rightarrow> progress" where
  "drop_lease c = c\<lparr>executor_lease_id := None, lease_expires_at := None\<rparr>"

definition release_lease_cas ::
  "int \<Rightarrow> invocation \<Rightarrow> invocation_state \<Rightarrow> string \<Rightarrow> jobj \<Rightarrow> (progress \<Rightarrow> bool) \<Rightarrow>
   (progress \<Rightarrow> progress) \<Rightarrow> store \<Rightarrow> (bool \<times> invocation) run" where
  "release_lease_cas now held to reason detail expected columns st =
     transition_cas now held to reason None detail expected (\<lambda>c. columns (drop_lease c)) st"

definition release_lease ::
  "int \<Rightarrow> invocation \<Rightarrow> invocation_state \<Rightarrow> string \<Rightarrow> jobj \<Rightarrow> (progress \<Rightarrow> bool) \<Rightarrow>
   (progress \<Rightarrow> progress) \<Rightarrow> store \<Rightarrow> invocation run" where
  "release_lease now held to reason detail expected columns st =
     transition now held to reason None detail expected (\<lambda>c. columns (drop_lease c)) st"

end
