(* ===== verification/Invariants.thy ===== *)
theory Invariants
  imports State
begin

text \<open>
  What every committed store satisfies, how a store may evolve, and the proof that each
  primitive write and each compare-and-set move of theory \<open>State\<close> keeps both.  The interface
  \<open>evolving_state\<close> of the prelude is interpreted here, and handlers are verified through it.
\<close>

section \<open>The history of an invocation\<close>

definition may_follow :: "invocation_state option \<Rightarrow> invocation_state \<Rightarrow> bool" where
  "may_follow cur t = (case cur of None \<Rightarrow> t = REQUESTED
     | Some s \<Rightarrow> t = s \<or> is_legal_transition s t)"

fun replay :: "invocation_state option \<Rightarrow> event list \<Rightarrow> invocation_state option option" where
  "replay cur [] = Some cur"
| "replay cur (e # es) =
     (if ev_from e = cur \<and> may_follow cur (ev_to e) then replay (Some (ev_to e)) es else None)"

lemma replay_append:
  "replay cur (es @ fs) = (case replay cur es of None \<Rightarrow> None | Some cur' \<Rightarrow> replay cur' fs)"
  by (induction es arbitrary: cur) auto

text \<open>
  The events of an invocation are numbered from one without a gap, and reading them in order
  follows the state machine from its creation to the state the row holds.
\<close>

definition history_ok :: "store \<Rightarrow> invocation \<Rightarrow> bool" where
  "history_ok st r \<longleftrightarrow>
     map ev_sequence (events_of (inv_id r) st) = [1..<Suc (length (events_of (inv_id r) st))] \<and>
     replay None (events_of (inv_id r) st) = Some (Some (inv_state r))"

text \<open>The frozen half of every invocation, by id.\<close>

definition snapshots :: "store \<Rightarrow> (uuid \<times> security_snapshot) list" where
  "snapshots st = map (\<lambda>r. (inv_id r, inv_snap r)) (invocations st)"

definition approval_ok :: "store \<Rightarrow> approval \<Rightarrow> bool" where
  "approval_ok st a \<longleftrightarrow> (\<exists>snap. (app_invocation a, snap) \<in> set (snapshots st) \<and>
     app_requester a = af_subject (s_principal snap) \<and>
     app_envelope_digest a = s_envelope_digest snap \<and>
     (app_approver a \<noteq> app_requester a \<or>
      jget (s_approval_policy snap) ''self_approval_permitted'' = Some (JBool True)))"

definition approved_by :: "approval \<Rightarrow> uuid \<times> string" where
  "approved_by a = (app_invocation a, app_approver a)"

definition approved_list :: "store \<Rightarrow> approval list" where
  "approved_list st = filter (\<lambda>a. app_decision a = DECIDED_APPROVED) (approvals st)"

text \<open>\<open>COUNT(DISTINCT approver_subject)\<close> over the approvals of an invocation.\<close>

definition approver_count :: "uuid \<Rightarrow> store \<Rightarrow> nat" where
  "approver_count i st = length (remdups (map app_approver
     (filter (\<lambda>a. app_invocation a = i \<and> app_decision a = DECIDED_APPROVED) (approvals st))))"

text \<open>
  The states an invocation reaches only through the approval branch's end, and those it
  reaches only after its adapter ran.
\<close>

definition past_gate :: "invocation_state \<Rightarrow> bool" where
  "past_gate s = (s \<in> {APPROVED, READY, EXECUTING, EXECUTED, VALIDATING, SUCCEEDED,
     VALIDATION_FAILED, FAILED, TIMED_OUT, EXECUTION_INDETERMINATE})"

definition past_execution :: "invocation_state \<Rightarrow> bool" where
  "past_execution s = (s \<in> {EXECUTED, VALIDATING, SUCCEEDED, VALIDATION_FAILED, FAILED, TIMED_OUT})"

definition entered :: "store \<Rightarrow> invocation \<Rightarrow> bool" where
  "entered st r \<longleftrightarrow>
     (past_gate (inv_state r) \<and> s_approval_required (inv_snap r) \<longrightarrow>
        s_min_approvals (inv_snap r) \<le> int (approver_count (inv_id r) st)) \<and>
     (past_execution (inv_state r) \<longrightarrow> final_gate_decision (inv_cols r) = Some GATE_ALLOW)"

definition store_ok :: "store \<Rightarrow> bool" where
  "store_ok st \<longleftrightarrow>
     distinct (map inv_id (invocations st)) \<and>
     (\<forall>r \<in> set (invocations st). inv_id r < next_id st \<and> history_ok st r \<and> entered st r \<and>
        (\<forall>c \<in> set (invocation_checks st r). snd c)) \<and>
     (\<forall>e \<in> set (events st). ev_invocation e \<in> inv_id ` set (invocations st)) \<and>
     (\<forall>a \<in> set (approvals st). approval_ok st a) \<and>
     distinct (map approved_by (approved_list st))"

section \<open>Evolution\<close>

definition row_evolves :: "invocation \<Rightarrow> invocation \<Rightarrow> bool" where
  "row_evolves r r' \<longleftrightarrow> inv_id r' = inv_id r \<and> inv_snap r' = inv_snap r \<and>
     is_legal_transition\<^sup>*\<^sup>* (inv_state r) (inv_state r')"

definition evolves :: "store \<Rightarrow> store \<Rightarrow> bool" where
  "evolves st st' \<longleftrightarrow>
     (\<forall>i r. get_invocation i st = Some r \<longrightarrow>
        (\<exists>r'. get_invocation i st' = Some r' \<and> row_evolves r r')) \<and>
     (\<exists>es. events st' = events st @ es) \<and>
     (\<exists>as. approvals st' = approvals st @ as) \<and>
     (\<exists>rs. reconciliations st' = reconciliations st @ rs) \<and>
     (\<exists>as. audits st' = audits st @ as) \<and>
     registrations st' = registrations st \<and> assets st' = assets st \<and>
     identifiers st' = identifiers st \<and> (\<exists>ds. denials st' = denials st @ ds) \<and>
     next_id st \<le> next_id st'"

lemma row_evolves_refl [simp]: "row_evolves r r"
  by (simp add: row_evolves_def)

lemma row_evolves_trans: "row_evolves r s \<Longrightarrow> row_evolves s t \<Longrightarrow> row_evolves r t"
  by (auto simp: row_evolves_def)

lemma evolves_refl [simp]: "evolves st st"
  by (simp add: evolves_def)

lemma evolves_trans:
  assumes "evolves st st'" and "evolves st' st''"
  shows "evolves st st''"
proof -
  have "\<exists>r''. get_invocation i st'' = Some r'' \<and> row_evolves r r''"
    if "get_invocation i st = Some r" for i r
    using assms that unfolding evolves_def by (meson row_evolves_trans)
  then show ?thesis
    using assms unfolding evolves_def by (auto intro: le_trans)
qed

interpretation tool_store: evolving_state store_ok evolves
  by unfold_locales (simp, rule evolves_trans)

text \<open>The tables of the store are keyed tables.\<close>

interpretation invocation_table:
  keyed_table invocations "\<lambda>rs st. st\<lparr>invocations := rs\<rparr>" inv_id
  by unfold_locales simp

interpretation registration_table:
  keyed_table registrations "\<lambda>rs st. st\<lparr>registrations := rs\<rparr>" reg_id
  by unfold_locales simp

section \<open>The two writes a move consists of\<close>

definition upd_cols :: "uuid \<Rightarrow> (progress \<Rightarrow> progress) \<Rightarrow> store \<Rightarrow> store" where
  "upd_cols i f st = st\<lparr>invocations := upd_rows (\<lambda>r. inv_id r = i)
     (\<lambda>r. r\<lparr>inv_cols := f (inv_cols r)\<rparr>) (invocations st)\<rparr>"

definition add_event :: "event \<Rightarrow> store \<Rightarrow> store" where
  "add_event e st = st\<lparr>events := events st @ [e], next_id := Suc (next_id st)\<rparr>"

lemma upd_cols_frame [simp]:
  "events (upd_cols i f st) = events st" "approvals (upd_cols i f st) = approvals st"
  "reconciliations (upd_cols i f st) = reconciliations st" "audits (upd_cols i f st) = audits st"
  "registrations (upd_cols i f st) = registrations st" "assets (upd_cols i f st) = assets st"
  "identifiers (upd_cols i f st) = identifiers st" "denials (upd_cols i f st) = denials st"
  "next_id (upd_cols i f st) = next_id st"
  by (simp_all add: upd_cols_def)

lemma add_event_frame [simp]:
  "events (add_event e st) = events st @ [e]" "approvals (add_event e st) = approvals st"
  "reconciliations (add_event e st) = reconciliations st" "audits (add_event e st) = audits st"
  "registrations (add_event e st) = registrations st" "assets (add_event e st) = assets st"
  "identifiers (add_event e st) = identifiers st" "denials (add_event e st) = denials st"
  "invocations (add_event e st) = invocations st" "next_id (add_event e st) = Suc (next_id st)"
  by (simp_all add: add_event_def)

lemma get_upd_cols:
  "get_invocation j (upd_cols i f st) =
     (if j = i then map_option (\<lambda>r. r\<lparr>inv_cols := f (inv_cols r)\<rparr>) (get_invocation i st)
      else get_invocation j st)"
  using invocation_table.lookup_update [of "\<lambda>r. r\<lparr>inv_cols := f (inv_cols r)\<rparr>" j i "\<lambda>_. True" st]
  by (auto simp: get_invocation_def upd_cols_def split: option.splits)

lemma get_add_event [simp]: "get_invocation j (add_event e st) = get_invocation j st"
  by (simp add: get_invocation_def)

lemma events_of_upd_cols [simp]: "events_of j (upd_cols i f st) = events_of j st"
  by (simp add: events_of_def)

lemma events_of_add_event [simp]:
  "events_of j (add_event e st) = events_of j st @ (if ev_invocation e = j then [e] else [])"
  by (simp add: events_of_def)

lemma upd_cols_ids [simp]:
  "map inv_id (invocations (upd_cols i f st)) = map inv_id (invocations st)"
  by (simp add: upd_cols_def map_upd_rows_frame)

lemma upd_cols_id_set [simp]:
  "inv_id ` set (invocations (upd_cols i f st)) = inv_id ` set (invocations st)"
  by (metis set_map upd_cols_ids)

lemma set_upd_cols:
  "set (invocations (upd_cols i f st)) =
     (\<lambda>r. if inv_id r = i then r\<lparr>inv_cols := f (inv_cols r)\<rparr> else r) ` set (invocations st)"
  by (simp add: upd_cols_def set_upd_rows)

lemma get_invocationD: "get_invocation i st = Some r \<Longrightarrow> r \<in> set (invocations st) \<and> inv_id r = i"
  unfolding get_invocation_def by (rule find_row_SomeD)

lemma get_invocation_row:
  assumes "store_ok st" and "r \<in> set (invocations st)"
  shows "get_invocation (inv_id r) st = Some r"
proof -
  have "distinct (map inv_id (invocations st))" using assms(1) unfolding store_ok_def by (rule conjunct1)
  from find_row_distinct [OF this assms(2)] show ?thesis unfolding get_invocation_def .
qed

lemma update_invocation_cases:
  assumes "update_invocation i p f st = Inr (won, st')"
  obtains (won) r where "won" "get_invocation i st = Some r" "p (inv_cols r)"
      "\<forall>c \<in> set (invocation_checks st (r\<lparr>inv_cols := f (inv_cols r)\<rparr>)). snd c"
      "st' = upd_cols i f st"
  | (lost) "\<not> won" "st' = st" "\<And>r. get_invocation i st = Some r \<Longrightarrow> \<not> p (inv_cols r)"
proof (cases "get_invocation i st")
  case None
  with assms that(2) show ?thesis by (simp add: update_invocation_def)
next
  case (Some r)
  show ?thesis
  proof (cases "p (inv_cols r)")
    case True
    with Some assms obtain u where
      "enforce (invocation_checks st (r\<lparr>inv_cols := f (inv_cols r)\<rparr>)) = Inr u"
      and "won" "st' = upd_cols i f st"
      by (auto simp add: update_invocation_def upd_cols_def andThen_eq_Inr)
    with True Some that(1) show ?thesis by (simp only: enforce_Inr simp_thms)
  next
    case False
    with Some assms that(2) show ?thesis by (simp add: update_invocation_def)
  qed
qed

lemma fold_max_upt: "fold max [1..<Suc n] 0 = n"
  by (induction n) auto

lemma next_sequence_length:
  "history_ok st r \<Longrightarrow> next_sequence (inv_id r) st = Suc (length (events_of (inv_id r) st))"
  unfolding next_sequence_def history_ok_def by (simp only: fold_max_upt)

text \<open>Checks of a row depend on the rest of the store only through what they refer to.\<close>

lemma invocation_checks_mono:
  assumes "\<forall>c \<in> set (invocation_checks st r). snd c"
    and "registrations st' = registrations st" "assets st' = assets st"
    and "set (events st) \<subseteq> set (events st')"
    and "uq_tool_invocation_idem st' r"
  shows "\<forall>c \<in> set (invocation_checks st' r). snd c"
proof -
  have "ev_id ` set (events st) \<subseteq> ev_id ` set (events st')" using assms(4) by blast
  then have "\<forall>c \<in> set (invocation_fks st' r). snd c"
    if "\<forall>c \<in> set (invocation_fks st r). snd c"
    using that assms(2,3)
    by (cases "s_target_asset_id (inv_snap r)"; cases "final_gate_event_id (inv_cols r)")
      (auto simp only: invocation_fks_def list.set ball_simps insert_iff empty_iff snd_conv
        option.case simp_thms)
  moreover have "\<forall>c \<in> set (invocation_fks st r). snd c"
    using assms(1) unfolding invocation_checks_def set_append ball_Un by (elim conjE)
  ultimately have "\<forall>c \<in> set (invocation_fks st' r). snd c" .
  with assms(1,5) show ?thesis
    unfolding invocation_checks_def set_append ball_Un by (elim conjE, intro conjI) auto
qed

section \<open>Moves keep the invariant\<close>

lemma history_move:
  assumes "history_ok st r" and "inv_id r' = inv_id r" and "inv_state r' = ev_to e"
    and "ev_invocation e = inv_id r" and "ev_sequence e = next_sequence (inv_id r) st"
    and "ev_from e = Some (inv_state r)" and "may_follow (Some (inv_state r)) (ev_to e)"
  shows "history_ok (add_event e (upd_cols i f st)) r'"
proof -
  have "ev_sequence e = Suc (length (events_of (inv_id r) st))"
    using assms(1,5) by (simp add: next_sequence_length)
  moreover have "[1..<Suc (Suc n)] = [1..<Suc n] @ [Suc n]" for n by simp
  ultimately show ?thesis
    using assms unfolding history_ok_def by (simp add: replay_append del: upt_Suc)
qed

lemma history_frame:
  "history_ok st r \<Longrightarrow> ev_invocation e \<noteq> inv_id r \<Longrightarrow> history_ok (add_event e (upd_cols i f st)) r"
  by (simp add: history_ok_def)

lemma history_same:
  "history_ok st r \<Longrightarrow> inv_id r' = inv_id r \<Longrightarrow> inv_state r' = inv_state r \<Longrightarrow>
   history_ok (upd_cols i f st) r'"
  by (simp add: history_ok_def)

text \<open>
  Writing a row whose own checks hold cannot break the idempotency index for another row.
\<close>

lemma idem_upd_cols:
  assumes dist: "distinct (map inv_id (invocations st))"
    and r: "r \<in> set (invocations st)" "inv_id r = i"
    and new: "uq_tool_invocation_idem st (r\<lparr>inv_cols := f (inv_cols r)\<rparr>)"
    and q: "q \<in> set (invocations st)" "uq_tool_invocation_idem st q"
    and st': "invocations st' = invocations (upd_cols i f st)"
  shows "uq_tool_invocation_idem st' (if inv_id q = i then q\<lparr>inv_cols := f (inv_cols q)\<rparr> else q)"
proof -
  let ?up = "\<lambda>q. if inv_id q = i then q\<lparr>inv_cols := f (inv_cols q)\<rparr> else q"
  have same: "q = r" if "q \<in> set (invocations st)" "inv_id q = i" for q
    using that r dist by (metis find_row_distinct option.inject)
  have id_up: "inv_id (?up p) = inv_id p" and key_up: "inv_snap (?up p) = inv_snap p" for p :: invocation
    by simp_all
  show ?thesis
  proof (cases "s_idempotency_key (inv_snap q)")
    case (Some k)
    have "inv_state (?up q) = SUPERSEDED"
      if p: "p \<in> set (invocations st)" "inv_id p \<noteq> inv_id q" "same_live_key k (?up p)" for p
    proof (cases "inv_id q = i")
      case True
      with same q have "q = r" by blast
      moreover have "same_live_key k p" using p True by simp
      ultimately show ?thesis
        using new p Some True r by (auto simp: uq_tool_invocation_idem_def list_ex_iff)
    next
      case False
      show ?thesis
      proof (cases "inv_id p = i")
        case True
        with same p have "p = r" by blast
        with p True False have "s_idempotency_key (inv_snap r) = Some k"
          "inv_state (?up r) \<noteq> SUPERSEDED" by (auto simp: same_live_key_def)
        with new q(1) False r Some have "\<not> same_live_key k q"
          by (auto simp: uq_tool_invocation_idem_def list_ex_iff)
        with Some False show ?thesis by (simp add: same_live_key_def)
      next
        case other: False
        with p q Some have "inv_state q = SUPERSEDED"
          by (auto simp: uq_tool_invocation_idem_def list_ex_iff)
        with False show ?thesis by simp
      qed
    qed
    then show ?thesis
      using Some unfolding uq_tool_invocation_idem_def id_up key_up st' list_ex_iff set_upd_cols
      by fastforce
  qed (simp add: uq_tool_invocation_idem_def)
qed

lemma store_okD:
  assumes "store_ok st"
  shows "distinct (map inv_id (invocations st))"
    and "r \<in> set (invocations st) \<Longrightarrow> inv_id r < next_id st"
    and "r \<in> set (invocations st) \<Longrightarrow> history_ok st r"
    and "r \<in> set (invocations st) \<Longrightarrow> c \<in> set (invocation_checks st r) \<Longrightarrow> snd c"
    and "e \<in> set (events st) \<Longrightarrow> ev_invocation e \<in> inv_id ` set (invocations st)"
    and "a \<in> set (approvals st) \<Longrightarrow> approval_ok st a"
    and "distinct (map approved_by (approved_list st))"
    and "r \<in> set (invocations st) \<Longrightarrow> entered st r"
  using assms unfolding store_ok_def by blast+

lemma approver_count_cong [simp]:
  "approver_count i (upd_cols j f st) = approver_count i st"
  "approver_count i (add_event e st) = approver_count i st"
  by (simp_all add: approver_count_def)

lemma entered_cong [simp]:
  "entered (upd_cols j f st) r = entered st r" "entered (add_event e st) r = entered st r"
  by (simp_all add: entered_def)

lemma idem_of_checks:
  "\<forall>c \<in> set (invocation_checks st r). snd c \<Longrightarrow> uq_tool_invocation_idem st r"
  by (simp add: invocation_checks_def)

lemma idem_cong: "invocations st = invocations st' \<Longrightarrow>
   uq_tool_invocation_idem st r = uq_tool_invocation_idem st' r"
  by (cases "s_idempotency_key (inv_snap r)") (simp_all add: uq_tool_invocation_idem_def)

lemma invocation_checks_cong:
  assumes "invocations st' = invocations st" "registrations st' = registrations st"
    "assets st' = assets st" "events st' = events st"
  shows "invocation_checks st' r = invocation_checks st r"
  using assms idem_cong [OF assms(1)]
  by (cases "s_target_asset_id (inv_snap r)"; cases "final_gate_event_id (inv_cols r)")
    (simp_all add: invocation_checks_def invocation_fks_def)

lemma snapshots_upd_cols [simp]: "snapshots (upd_cols i f st) = snapshots st"
  by (simp add: snapshots_def upd_cols_def map_upd_rows_frame)

lemma snapshots_add_event [simp]: "snapshots (add_event e st) = snapshots st"
  by (simp add: snapshots_def)

lemma approval_ok_cong: "snapshots st' = snapshots st \<Longrightarrow> approval_ok st' a = approval_ok st a"
  by (simp add: approval_ok_def)

text \<open>After an update, a row is the rewritten one or an old row with another id.\<close>

lemma upd_cols_rows:
  assumes "store_ok st" and "get_invocation i st = Some r"
    and "q' \<in> set (invocations (upd_cols i f st))"
  obtains (hit) "q' = r\<lparr>inv_cols := f (inv_cols r)\<rparr>" | (miss) "q' \<in> set (invocations st)" "inv_id q' \<noteq> i"
proof -
  from assms(3) obtain q where q: "q \<in> set (invocations st)"
    and q': "q' = (if inv_id q = i then q\<lparr>inv_cols := f (inv_cols q)\<rparr> else q)"
    unfolding set_upd_cols by blast
  show ?thesis
  proof (cases "inv_id q = i")
    case True
    with get_invocation_row [OF assms(1) q] assms(2) have "q = r" by simp
    with q' True hit show ?thesis by simp
  next
    case False
    with q q' miss show ?thesis by simp
  qed
qed

lemma upd_cols_checks:
  assumes ok: "store_ok st" and r: "get_invocation i st = Some r"
    and checks: "\<forall>c \<in> set (invocation_checks st (r\<lparr>inv_cols := f (inv_cols r)\<rparr>)). snd c"
    and st': "invocations st' = invocations (upd_cols i f st)" "registrations st' = registrations st"
      "assets st' = assets st" "set (events st) \<subseteq> set (events st')"
    and q': "q' \<in> set (invocations st')"
  shows "\<forall>c \<in> set (invocation_checks st' q'). snd c"
proof -
  have r': "r \<in> set (invocations st)" "inv_id r = i" using get_invocationD [OF r] by blast+
  have idem: "uq_tool_invocation_idem st'
      (if inv_id q = i then q\<lparr>inv_cols := f (inv_cols q)\<rparr> else q)"
    if q: "q \<in> set (invocations st)" for q
  proof (rule idem_upd_cols [OF store_okD(1) [OF ok] r' idem_of_checks [OF checks] q _ st'(1)])
    show "uq_tool_invocation_idem st q" using store_okD(4) [OF ok q] by (blast intro: idem_of_checks)
  qed
  from ok r q' [unfolded st'(1)] show ?thesis
  proof (cases rule: upd_cols_rows)
    case hit
    show ?thesis
      unfolding hit using idem [OF r'(1)] r'(2)
      by (intro invocation_checks_mono [OF checks st'(2,3,4)]) simp
  next
    case miss
    have "\<forall>c \<in> set (invocation_checks st q'). snd c" using store_okD(4) [OF ok miss(1)] by blast
    then show ?thesis
      using idem [OF miss(1)] miss(2)
      by (intro invocation_checks_mono [OF _ st'(2,3,4)]) simp_all
  qed
qed

text \<open>
  The shape of every committed move: the row's columns are replaced by ones that pass the
  checks, and the event that says so is appended.
\<close>

lemma move_ok:
  assumes ok: "store_ok st" and r: "get_invocation i st = Some r"
    and checks: "\<forall>c \<in> set (invocation_checks st (r\<lparr>inv_cols := f (inv_cols r)\<rparr>)). snd c"
    and e: "ev_invocation e = i" "ev_sequence e = next_sequence i st"
      "ev_from e = Some (inv_state r)" "ev_to e = state (f (inv_cols r))"
    and legal: "may_follow (Some (inv_state r)) (ev_to e)"
    and entry: "entered st (r\<lparr>inv_cols := f (inv_cols r)\<rparr>)"
  shows "store_ok (add_event e (upd_cols i f st))"
proof -
  let ?st' = "add_event e (upd_cols i f st)"
  have r': "r \<in> set (invocations st)" "inv_id r = i" using get_invocationD [OF r] by blast+
  have "inv_id q' < next_id ?st' \<and> history_ok ?st' q' \<and> entered ?st' q'"
    if "q' \<in> set (invocations (upd_cols i f st))" for q'
    using ok r that
  proof (cases rule: upd_cols_rows)
    case hit
    with store_okD(2,3) [OF ok r'(1)] e legal entry r'(2) show ?thesis
      by (auto intro: history_move less_SucI)
  next
    case miss
    with store_okD(2,3,8) [OF ok miss(1)] e(1) show ?thesis by (auto intro: history_frame less_SucI)
  qed
  moreover have "\<forall>c \<in> set (invocation_checks ?st' q'). snd c" if "q' \<in> set (invocations ?st')" for q'
    using that by (intro upd_cols_checks [where f = f, OF ok r checks]) (simp_all add: subset_insertI)
  moreover have "approval_ok ?st' a" if "a \<in> set (approvals st)" for a
    using store_okD(6) [OF ok that] approval_ok_cong [of ?st' st a] by simp
  moreover have "ev_invocation x \<in> inv_id ` set (invocations st)" if "x \<in> set (events ?st')" for x
    using that store_okD(5) [OF ok, of x] e(1) imageI [OF r'(1), of inv_id] r'(2) by auto
  ultimately show ?thesis
    using store_okD(1,7) [OF ok]
    unfolding store_ok_def approved_list_def add_event_frame upd_cols_frame upd_cols_ids upd_cols_id_set
    by blast
qed

lemma move_evolves:
  assumes r: "get_invocation i st = Some r"
    and legal: "may_follow (Some (inv_state r)) (state (f (inv_cols r)))"
  shows "evolves st (add_event e (upd_cols i f st))"
proof -
  have "is_legal_transition\<^sup>*\<^sup>* (inv_state r) (state (f (inv_cols r)))"
    using legal by (auto simp: may_follow_def)
  then have "\<exists>q'. get_invocation j (upd_cols i f st) = Some q' \<and> row_evolves q q'"
    if "get_invocation j st = Some q" for j q
    using that r by (cases "j = i") (auto simp: get_upd_cols row_evolves_def)
  then show ?thesis by (simp add: evolves_def)
qed

text \<open>A write that does not move the row needs no event.\<close>

lemma upd_same_ok:
  assumes ok: "store_ok st" and r: "get_invocation i st = Some r"
    and checks: "\<forall>c \<in> set (invocation_checks st (r\<lparr>inv_cols := f (inv_cols r)\<rparr>)). snd c"
    and same: "state (f (inv_cols r)) = inv_state r"
    and entry: "entered st (r\<lparr>inv_cols := f (inv_cols r)\<rparr>)"
  shows "store_ok (upd_cols i f st) \<and> evolves st (upd_cols i f st)"
proof
  let ?st' = "upd_cols i f st"
  have r': "r \<in> set (invocations st)" "inv_id r = i" using get_invocationD [OF r] by blast+
  have "inv_id q' < next_id ?st' \<and> history_ok ?st' q' \<and> entered ?st' q'"
    if "q' \<in> set (invocations ?st')" for q'
    using ok r that
  proof (cases rule: upd_cols_rows)
    case hit
    with store_okD(2,3) [OF ok r'(1)] same entry show ?thesis by (auto intro: history_same)
  next
    case miss
    with store_okD(2,3,8) [OF ok miss(1)] show ?thesis by (auto intro: history_same)
  qed
  moreover have "\<forall>c \<in> set (invocation_checks ?st' q'). snd c" if "q' \<in> set (invocations ?st')" for q'
    using that by (intro upd_cols_checks [where f = f, OF ok r checks]) simp_all
  moreover have "approval_ok ?st' a" if "a \<in> set (approvals st)" for a
    using store_okD(6) [OF ok that] approval_ok_cong [of ?st' st a] by simp
  ultimately show "store_ok ?st'"
    using store_okD(1,5,7) [OF ok]
    unfolding store_ok_def approved_list_def upd_cols_frame upd_cols_ids upd_cols_id_set by blast
  have "\<exists>q'. get_invocation j ?st' = Some q' \<and> row_evolves q q'"
    if "get_invocation j st = Some q" for j q
    using that r same by (cases "j = i") (auto simp: get_upd_cols row_evolves_def)
  then show "evolves st ?st'" by (simp add: evolves_def)
qed

section \<open>The operations of theory \<open>State\<close>\<close>

lemma append_event_shape:
  assumes "append_event now i from to reason actor detail st = Inr (e, st')"
  shows "st' = add_event e st \<and> ev_invocation e = i \<and> ev_sequence e = next_sequence i st \<and>
    ev_from e = from \<and> ev_to e = to \<and> ev_id e = next_id st \<and> ev_at e = now \<and>
    ev_reason e = reason \<and> ev_actor e = actor \<and> ev_detail e = redact_obj detail"
  using assms
  by (auto simp: append_event_def insert_event_def Let_def andThen_eq_Inr add_event_def)

lemma upd_cols_id: "upd_cols i (\<lambda>c. c) st = st"
  by (simp add: upd_cols_def upd_rows_def)

text \<open>Evaluating something and noting it moves nothing.\<close>

lemma note_upholds:
  assumes "get_invocation i st = Some r"
  shows "upholds store_ok evolves st
     (append_event now i (Some (inv_state r)) (inv_state r) reason actor detail st)"
  unfolding upholds_def
proof (intro impI allI)
  fix e st' assume ok: "store_ok st"
    and run: "append_event now i (Some (inv_state r)) (inv_state r) reason actor detail st = Inr (e, st')"
  note e = append_event_shape [OF run]
  have r: "r \<in> set (invocations st)" using get_invocationD [OF assms] by simp
  have same: "r\<lparr>inv_cols := inv_cols r\<rparr> = r" by simp
  have "\<forall>c \<in> set (invocation_checks st (r\<lparr>inv_cols := inv_cols r\<rparr>)). snd c"
    unfolding same using store_okD(4) [OF ok r] by blast
  from move_ok [where f = "\<lambda>c. c", OF ok assms this] move_evolves [where f = "\<lambda>c. c", OF assms] e
    store_okD(8) [OF ok r]
  show "store_ok st' \<and> evolves st st'" by (simp add: upd_cols_id may_follow_def)
qed

text \<open>What a transition does, won or lost.\<close>

lemma transition_cas_cases:
  assumes "transition_cas now held to reason actor detail expected columns st = Inr ((won, fresh), st')"
    and keep: "\<And>c. state (columns c) = state c"
  obtains (won) r e where "won" "get_invocation (inv_id held) st = Some r"
      "inv_state r = inv_state held" "expected (inv_cols r)" "is_legal_transition (inv_state r) to"
      "\<forall>c \<in> set (invocation_checks st fresh). snd c"
      "fresh = r\<lparr>inv_cols := columns ((inv_cols r)\<lparr>state := to\<rparr>)\<rparr>"
      "st' = add_event e (upd_cols (inv_id held) (\<lambda>c. columns (c\<lparr>state := to\<rparr>)) st)"
      "ev_invocation e = inv_id held" "ev_sequence e = next_sequence (inv_id held) st"
      "ev_from e = Some (inv_state r)" "ev_to e = to"
  | (lost) e where "\<not> won" "get_invocation (inv_id held) st = Some fresh"
      "\<not> (inv_state fresh = inv_state held \<and> expected (inv_cols fresh))"
      "st' = add_event e st" "ev_invocation e = inv_id held"
      "ev_sequence e = next_sequence (inv_id held) st" "ev_from e = Some (inv_state fresh)"
      "ev_to e = inv_state fresh"
proof -
  let ?p = "\<lambda>c. state c = inv_state held \<and> expected c"
  let ?f = "\<lambda>c. columns (c\<lparr>state := to\<rparr>)"
  from assms(1) obtain w st1 where legal: "is_legal_transition (inv_state held) to"
    and upd: "update_invocation (inv_id held) ?p ?f st = Inr (w, st1)"
    and rest: "(case get_invocation (inv_id held) st1 of None \<Rightarrow> Inl LookupError
       | Some fresh \<Rightarrow>
           if \<not> w then
             andThen (append_event now (inv_id held) (Some (inv_state fresh)) (inv_state fresh) reason actor
                 [(''stale_transition'', JBool True),
                  (''expected_state'', JStr (state_value (inv_state held))),
                  (''attempted_to_state'', JStr (state_value to))] st1) (\<lambda>(ev, st2).
             Inr ((False, fresh), st2))
           else
             andThen (append_event now (inv_id held) (Some (inv_state held)) to reason actor detail st1)
               (\<lambda>(ev, st2). Inr ((True, fresh), st2))) = Inr ((won, fresh), st')"
    by (auto simp: transition_cas_def Let_def andThen_eq_Inr simp del: state_value.simps split: if_splits)
  from upd show ?thesis
  proof (cases rule: update_invocation_cases)
    case (won r)
    then have fresh: "get_invocation (inv_id held) st1 = Some (r\<lparr>inv_cols := ?f (inv_cols r)\<rparr>)"
      by (simp add: get_upd_cols)
    with rest won(1) obtain e where e:
      "append_event now (inv_id held) (Some (inv_state held)) to reason actor detail st1 = Inr (e, st')"
      and res: "fresh = r\<lparr>inv_cols := ?f (inv_cols r)\<rparr>" "won"
      by (auto simp: andThen_eq_Inr)
    show ?thesis
      using won res legal append_event_shape [OF e] 
      by (intro that(1) [of r e]) (auto simp: next_sequence_def)
  next
    case lost
    with rest obtain q e where q: "get_invocation (inv_id held) st = Some q" "fresh = q" "\<not> won"
      and e: "append_event now (inv_id held) (Some (inv_state q)) (inv_state q) reason actor
         [(''stale_transition'', JBool True),
          (''expected_state'', JStr (state_value (inv_state held))),
          (''attempted_to_state'', JStr (state_value to))] st = Inr (e, st')"
      by (auto simp: andThen_eq_Inr simp del: state_value.simps split: option.splits)
    with lost(3) append_event_shape [OF e] show ?thesis
      by (intro that(2) [of e]) auto
  qed
qed

text \<open>Assignments to columns other than the state and the final gate's decision.\<close>

definition keeps_state :: "(progress \<Rightarrow> progress) \<Rightarrow> bool" where
  "keeps_state columns \<longleftrightarrow>
     (\<forall>c. state (columns c) = state c \<and> final_gate_decision (columns c) = final_gate_decision c)"

lemma keeps_stateD: "keeps_state columns \<Longrightarrow> state (columns c) = state c"
  by (simp add: keeps_state_def)

text \<open>
  Some states have an entry condition: \<open>APPROVED\<close> and, straight from \<open>AUTHORIZED\<close>, \<open>READY\<close>
  need the approvals; \<open>EXECUTED\<close>, \<open>FAILED\<close> and \<open>TIMED_OUT\<close>, which say what came of a run of the
  adapter, need the final gate's allowance.  Every other move is free.
\<close>

definition entry_condition :: "store \<Rightarrow> invocation_state \<Rightarrow> invocation_state \<Rightarrow> uuid \<Rightarrow> bool" where
  "entry_condition st source to i \<longleftrightarrow> (\<forall>r. get_invocation i st = Some r \<longrightarrow>
     (to = APPROVED \<or> to = READY \<and> source = AUTHORIZED \<longrightarrow> s_approval_required (inv_snap r) \<longrightarrow>
        s_min_approvals (inv_snap r) \<le> int (approver_count i st)) \<and>
     (to \<in> {EXECUTED, FAILED, TIMED_OUT} \<longrightarrow> final_gate_decision (inv_cols r) = Some GATE_ALLOW))"

lemma entry_condition_free [simp]:
  "to \<notin> {APPROVED, READY, EXECUTED, FAILED, TIMED_OUT} \<Longrightarrow> entry_condition st source to i"
  "entry_condition st APPROVED READY i"
  by (simp_all add: entry_condition_def)

lemma entered_move:
  assumes "entered st r" and "get_invocation i st = Some r" and "is_legal_transition (inv_state r) to"
    and "entry_condition st (inv_state r) to i" and "keeps_state columns"
  shows "entered st (r\<lparr>inv_cols := columns ((inv_cols r)\<lparr>state := to\<rparr>)\<rparr>)"
proof -
  have "inv_id r = i" using get_invocationD [OF assms(2)] by simp
  moreover have "past_gate to \<Longrightarrow> past_gate (inv_state r) \<or> to = APPROVED \<or> to = READY \<and> inv_state r = AUTHORIZED"
    using assms(3) by (cases "inv_state r") (auto simp: legal_simps past_gate_def)
  moreover have "past_execution to \<Longrightarrow> past_execution (inv_state r) \<or> to \<in> {EXECUTED, FAILED, TIMED_OUT}"
    using assms(3) by (cases "inv_state r") (auto simp: legal_simps past_execution_def)
  ultimately show ?thesis
    using assms(1,2,4,5) unfolding entered_def entry_condition_def keeps_state_def by auto
qed

lemma keeps_state_drop_lease [simp]: "keeps_state columns \<Longrightarrow> keeps_state (\<lambda>c. columns (drop_lease c))"
  by (simp add: keeps_state_def drop_lease_def)

named_theorems upholds_intros "what each operation of the store promises"

lemma transition_cas_upholds [upholds_intros]:
  assumes "keeps_state columns" and "entry_condition st (inv_state held) to (inv_id held)"
  shows "upholds store_ok evolves st
    (transition_cas now held to reason actor detail expected columns st)"
  unfolding upholds_def
proof (intro impI allI)
  fix a st' assume ok: "store_ok st"
    and "transition_cas now held to reason actor detail expected columns st = Inr (a, st')"
  then have run: "transition_cas now held to reason actor detail expected columns st =
      Inr ((fst a, snd a), st')" by simp
  from run keeps_stateD [OF assms(1)] show "store_ok st' \<and> evolves st st'"
  proof (cases rule: transition_cas_cases)
    case (won r e)
    let ?f = "\<lambda>c. columns (c\<lparr>state := to\<rparr>)"
    have legal: "may_follow (Some (inv_state r)) (state (?f (inv_cols r)))"
      using won(5) keeps_stateD [OF assms(1)] by (simp add: may_follow_def)
    have "r \<in> set (invocations st)" using get_invocationD [OF won(2)] by simp
    from entered_move [OF store_okD(8) [OF ok this] won(2,5) _ assms(1)] assms(2) won(3)
    have entry: "entered st (r\<lparr>inv_cols := ?f (inv_cols r)\<rparr>)" by simp
    from move_ok [where f = ?f, OF ok won(2) won(6) [unfolded won(7)], of e] won(8-12) legal entry
      move_evolves [where f = ?f, OF won(2) legal, of e] keeps_stateD [OF assms(1)]
    show ?thesis by simp
  next
    case (lost e)
    have r: "snd a \<in> set (invocations st)" using get_invocationD [OF lost(2)] by simp
    have same: "(snd a)\<lparr>inv_cols := inv_cols (snd a)\<rparr> = snd a" by simp
    have "\<forall>c \<in> set (invocation_checks st ((snd a)\<lparr>inv_cols := inv_cols (snd a)\<rparr>)). snd c"
      unfolding same using store_okD(4) [OF ok r] by blast
    from move_ok [where f = "\<lambda>c. c", OF ok lost(2) this, of e]
      move_evolves [where f = "\<lambda>c. c", OF lost(2), of e] lost(4-8) store_okD(8) [OF ok r]
    show ?thesis by (simp add: upd_cols_id may_follow_def)
  qed
qed

lemma transition_upholds [upholds_intros]:
  assumes "keeps_state columns" and "entry_condition st (inv_state held) to (inv_id held)"
  shows "upholds store_ok evolves st
    (transition now held to reason actor detail expected columns st)"
  unfolding transition_def
  by (rule tool_store.upholds_bind [OF transition_cas_upholds [OF assms]])
    (auto split: prod.split)

lemma release_lease_upholds [upholds_intros]:
  "keeps_state columns \<Longrightarrow> entry_condition st (inv_state held) to (inv_id held) \<Longrightarrow>
   upholds store_ok evolves st (release_lease now held to reason detail expected columns st)"
  "keeps_state columns \<Longrightarrow> entry_condition st (inv_state held) to (inv_id held) \<Longrightarrow>
   upholds store_ok evolves st (release_lease_cas now held to reason detail expected columns st)"
  unfolding release_lease_def release_lease_cas_def by (intro upholds_intros; simp)+

lemma record_final_gate_upholds [upholds_intros]:
  "upholds store_ok evolves st (record_final_gate_if_owned now i lease decision reason ev st)"
  unfolding upholds_def
proof (intro impI allI)
  fix won st' assume ok: "store_ok st"
    and run: "record_final_gate_if_owned now i lease decision reason ev st = Inr (won, st')"
  from run show "store_ok st' \<and> evolves st st'"
    unfolding record_final_gate_if_owned_def
  proof (cases rule: update_invocation_cases)
    case (won r)
    have "r \<in> set (invocations st)" using get_invocationD [OF won(2)] by simp
    from store_okD(8) [OF ok this] won(3)
    have "entered st (r\<lparr>inv_cols := (inv_cols r)\<lparr>final_gate_decision := Some decision,
        final_gate_reason := Some reason, final_gate_at := Some now, final_gate_event_id := Some ev\<rparr>\<rparr>)"
      by (simp add: entered_def past_execution_def)
    then show ?thesis unfolding won(5) by (intro upd_same_ok [OF ok won(2)]) (rule won(4), simp)
  next
    case lost
    with ok show ?thesis by simp
  qed
qed

lemma claim_cases:
  assumes "claim_for_execution now i lease lease_until deadline st = Inr (won, st')"
  obtains (won) r e where "won" "get_invocation i st = Some r" "inv_state r = READY"
      "\<forall>c \<in> set (invocation_checks st
         (r\<lparr>inv_cols := claim_columns now lease lease_until deadline (inv_cols r)\<rparr>)). snd c"
      "st' = add_event e (upd_cols i (claim_columns now lease lease_until deadline) st)"
      "ev_invocation e = i" "ev_sequence e = next_sequence i st" "ev_from e = Some READY"
      "ev_to e = EXECUTING"
  | (lost) "\<not> won" "st' = st" "\<And>r. get_invocation i st = Some r \<Longrightarrow> inv_state r \<noteq> READY"
proof -
  let ?f = "claim_columns now lease lease_until deadline"
  from assms obtain w st1 where upd: "update_invocation i (\<lambda>c. state c = READY) ?f st = Inr (w, st1)"
    and rest: "(if w then andThen (append_event now i (Some READY) EXECUTING (reason_value PR_ALLOWED)
        None [(''lease_id'', JStr (uuid_text lease))] st1) (\<lambda>(ev, st2). Inr (True, st2))
      else Inr (False, st1)) = Inr (won, st')"
    by (auto simp: claim_for_execution_def andThen_eq_Inr simp del: reason_value.simps)
  from upd show ?thesis
  proof (cases rule: update_invocation_cases)
    case (won r)
    with rest obtain e where e: "append_event now i (Some READY) EXECUTING (reason_value PR_ALLOWED)
        None [(''lease_id'', JStr (uuid_text lease))] st1 = Inr (e, st')" and "won"
      by (auto simp: andThen_eq_Inr simp del: reason_value.simps)
    with won append_event_shape [OF e] show ?thesis
      by (intro that(1) [of r e]) (simp_all add: next_sequence_def)
  next
    case lost
    with rest that(2) show ?thesis by simp
  qed
qed

lemma claim_upholds [upholds_intros]:
  "upholds store_ok evolves st (claim_for_execution now i lease lease_until deadline st)"
  unfolding upholds_def
proof (intro impI allI)
  fix won st' assume ok: "store_ok st"
    and run: "claim_for_execution now i lease lease_until deadline st = Inr (won, st')"
  from run show "store_ok st' \<and> evolves st st'"
  proof (cases rule: claim_cases)
    case (won r e)
    let ?f = "claim_columns now lease lease_until deadline"
    have to: "state (?f c) = EXECUTING" for c by (simp add: claim_columns_def)
    have legal: "may_follow (Some (inv_state r)) (state (?f (inv_cols r)))"
      using won(3) to by (simp add: may_follow_def legal_simps)
    have "r \<in> set (invocations st)" using get_invocationD [OF won(2)] by simp
    from store_okD(8) [OF ok this] won(3)
    have entry: "entered st (r\<lparr>inv_cols := ?f (inv_cols r)\<rparr>)"
      by (simp add: entered_def past_execution_def past_gate_def to)
    from move_ok [where f = ?f, OF ok won(2) won(4), of e] won(3,6-9) legal to entry
      move_evolves [where f = ?f, OF won(2) legal, of e]
    show ?thesis unfolding won(5) by simp
  next
    case lost
    with ok show ?thesis by simp
  qed
qed

section \<open>When a move succeeds\<close>

lemma fold_max_ge: "(x :: nat) \<in> set xs \<or> x = a \<Longrightarrow> x \<le> fold max xs a"
  using Max.set_eq_fold [of a xs] Max_ge [of "set (a # xs)" x] by auto

lemma next_sequence_fresh: "e \<in> set (events st) \<Longrightarrow> ev_invocation e = i \<Longrightarrow> ev_sequence e < next_sequence i st"
  unfolding next_sequence_def events_of_def
  by (auto simp: less_Suc_eq_le intro!: fold_max_ge)

lemma append_event_runs:
  assumes "get_invocation i st = Some r"
  shows "\<exists>e. append_event now i from to reason actor detail st = Inr (e, add_event e st)"
proof -
  let ?e = "\<lparr>ev_id = next_id st, ev_invocation = i, ev_sequence = next_sequence i st,
    ev_from = from, ev_to = to, ev_actor = actor, ev_reason = reason,
    ev_detail = redact_obj detail, ev_at = now\<rparr>"
  have "i \<in> inv_id ` set (invocations st)" using get_invocationD [OF assms] by blast
  moreover have "\<not> list_ex (\<lambda>e'. ev_invocation e' = i \<and> ev_sequence e' = next_sequence i st) (events st)"
    unfolding list_ex_iff using next_sequence_fresh by (metis less_irrefl)
  moreover have "1 \<le> next_sequence i st" by (simp add: next_sequence_def)
  ultimately have "enforce (event_checks st ?e) = Inr ()"
    unfolding enforce_Inr by (simp add: event_checks_def)
  then show ?thesis
    unfolding append_event_def insert_event_def Let_def by (simp add: add_event_def)
qed

lemma update_invocation_runs:
  assumes "get_invocation i st = Some r" and "p (inv_cols r)"
    and "\<forall>c \<in> set (invocation_checks st (r\<lparr>inv_cols := f (inv_cols r)\<rparr>)). snd c"
  shows "update_invocation i p f st = Inr (True, upd_cols i f st)"
proof -
  have "enforce (invocation_checks st (r\<lparr>inv_cols := f (inv_cols r)\<rparr>)) = Inr ()"
    using assms(3) unfolding enforce_Inr .
  with assms(1,2) show ?thesis by (simp add: update_invocation_def upd_cols_def)
qed

lemma transition_runs:
  assumes r: "get_invocation (inv_id held) st = Some r" "inv_state r = inv_state held"
      "expected (inv_cols r)"
    and legal: "is_legal_transition (inv_state held) to"
    and checks: "\<forall>c \<in> set (invocation_checks st
        (r\<lparr>inv_cols := columns ((inv_cols r)\<lparr>state := to\<rparr>)\<rparr>)). snd c"
  shows "\<exists>e. transition now held to reason actor detail expected columns st =
     Inr (r\<lparr>inv_cols := columns ((inv_cols r)\<lparr>state := to\<rparr>)\<rparr>,
          add_event e (upd_cols (inv_id held) (\<lambda>c. columns (c\<lparr>state := to\<rparr>)) st))"
proof -
  let ?f = "\<lambda>c. columns (c\<lparr>state := to\<rparr>)"
  let ?st1 = "upd_cols (inv_id held) ?f st"
  have upd: "update_invocation (inv_id held) (\<lambda>c. state c = inv_state held \<and> expected c) ?f st =
      Inr (True, ?st1)"
    using r checks by (intro update_invocation_runs) simp_all
  have get: "get_invocation (inv_id held) ?st1 = Some (r\<lparr>inv_cols := ?f (inv_cols r)\<rparr>)"
    using r(1) by (simp add: get_upd_cols)
  from append_event_runs [OF get] obtain e where
    "append_event now (inv_id held) (Some (inv_state held)) to reason actor detail ?st1 =
       Inr (e, add_event e ?st1)" by blast
  then have "transition now held to reason actor detail expected columns st =
      Inr (r\<lparr>inv_cols := ?f (inv_cols r)\<rparr>, add_event e ?st1)"
    using legal upd get by (simp add: transition_def transition_cas_def)
  then show ?thesis by blast
qed

text \<open>Between two states that hold no lease, the constraints carry over.\<close>

lemma checks_unleased:
  assumes "\<forall>c \<in> set (invocation_checks st r). snd c"
    and "\<not> leased (inv_state r)" "\<not> leased to" "inv_state r \<noteq> SUPERSEDED"
  shows "\<forall>c \<in> set (invocation_checks st (r\<lparr>inv_cols := (inv_cols r)\<lparr>state := to\<rparr>\<rparr>)). snd c"
proof -
  have "uq_tool_invocation_idem st (r\<lparr>inv_cols := (inv_cols r)\<lparr>state := to\<rparr>\<rparr>)"
    using idem_of_checks [OF assms(1)] assms(4)
    by (cases "s_idempotency_key (inv_snap r)") (auto simp: uq_tool_invocation_idem_def)
  moreover have "invocation_fks st (r\<lparr>inv_cols := (inv_cols r)\<lparr>state := to\<rparr>\<rparr>) = invocation_fks st r"
    by (simp add: invocation_fks_def)
  moreover have "\<forall>c \<in> set (progress_checks (inv_snap r) ((inv_cols r)\<lparr>state := to\<rparr>)). snd c"
    using assms unfolding invocation_checks_def set_append ball_Un
    by (auto simp add: progress_checks_def simp del: leased_simps)
  ultimately show ?thesis
    using assms(1) unfolding invocation_checks_def set_append ball_Un by simp
qed

section \<open>Consequences\<close>

lemma terminal_path: "is_legal_transition\<^sup>*\<^sup>* s t \<Longrightarrow> is_terminal_state s \<Longrightarrow> t = s"
  by (induction rule: rtranclp_induct) (auto simp: terminal_iff_stuck)

lemma get_other_rows:
  "get_invocation j (add_event e (upd_cols i f st)) = get_invocation j st" if "j \<noteq> i"
  using that by (simp add: get_upd_cols)

text \<open>
  A transition is a compare-and-set.  It succeeds exactly when the row still has the state
  the caller read and meets the caller's further condition; then that row alone changes, in its
  mutable columns alone, and one event records the move.  Otherwise no row changes at all and
  the one event appended is a no-op that says what the row holds.
\<close>

theorem transition_compare_and_set:
  assumes "store_ok st" and "keeps_state columns"
    and "entry_condition st (inv_state held) to (inv_id held)"
    and "transition_cas now held to reason actor detail expected columns st = Inr ((won, fresh), st')"
  shows "\<exists>r e. get_invocation (inv_id held) st = Some r \<and>
     is_legal_transition (inv_state held) to \<and>
     (won \<longleftrightarrow> inv_state r = inv_state held \<and> expected (inv_cols r)) \<and>
     get_invocation (inv_id held) st' = Some fresh \<and>
     fresh = (if won then r\<lparr>inv_cols := columns ((inv_cols r)\<lparr>state := to\<rparr>)\<rparr> else r) \<and>
     (\<forall>j. j = inv_id held \<or> get_invocation j st' = get_invocation j st) \<and>
     events st' = events st @ [e] \<and> ev_invocation e = inv_id held \<and>
     ev_from e = Some (inv_state r) \<and> ev_to e = inv_state fresh \<and> store_ok st'"
proof -
  have ok': "store_ok st'"
    using transition_cas_upholds [OF assms(2,3)] assms(1,4) by (blast dest: upholdsD)
  have legal: "is_legal_transition (inv_state held) to"
    using assms(4) by (auto simp: transition_cas_def Let_def split: if_splits)
  from assms(4) keeps_stateD [OF assms(2)] show ?thesis
  proof (cases rule: transition_cas_cases)
    case (won r e)
    then show ?thesis
      using ok' legal keeps_stateD [OF assms(2)] get_other_rows
      by (intro exI [of _ r] exI [of _ e]) (auto simp: get_upd_cols)
  next
    case (lost e)
    then show ?thesis
      using ok' legal by (intro exI [of _ fresh] exI [of _ e]) auto
  qed
qed

text \<open>
  A claim is won at most once in the life of an invocation: once a worker has moved the row
  from \<open>READY\<close> to \<open>EXECUTING\<close>, whatever the store goes through afterwards, no later claim of
  the same invocation succeeds.
\<close>

theorem claimed_at_most_once:
  assumes "store_ok st"
    and "claim_for_execution now i lease until deadline st = Inr (True, st1)"
    and "store_ok st2" and "evolves st1 st2"
    and "claim_for_execution now' i lease' until' deadline' st2 = Inr (won, st3)"
  shows "\<not> won \<and> st3 = st2"
  using assms(5)
proof (cases rule: claim_cases)
  case (won r2 e2)
  from assms(2) obtain r1 where r1: "get_invocation i st1 = Some r1" "inv_state r1 = EXECUTING"
  proof (cases rule: claim_cases)
    case (won r e)
    then show thesis using that by (simp add: get_upd_cols claim_columns_def)
  qed simp
  with assms(4) obtain r2' where "get_invocation i st2 = Some r2'" "row_evolves r1 r2'"
    unfolding evolves_def by blast
  with won(2) r1 have "is_legal_transition\<^sup>*\<^sup>* EXECUTING (inv_state r2)"
    by (simp add: row_evolves_def)
  with won(3) legal_path_le have "EXECUTING \<le> READY" by fastforce
  then have False by (simp add: less_eq_invocation_state_def)
  then show ?thesis ..
qed simp

text \<open>
  However a store evolves, no invocation's security snapshot changes, its state moves only
  along the state machine, an invocation in a terminal state keeps it, and no event, approval
  or determination is ever altered or removed.
\<close>

theorem evolution_is_append_only:
  assumes "evolves st st'" and "get_invocation i st = Some r"
  shows "\<exists>r'. get_invocation i st' = Some r' \<and> inv_snap r' = inv_snap r \<and>
     is_legal_transition\<^sup>*\<^sup>* (inv_state r) (inv_state r') \<and>
     (inv_state r' = inv_state r \<or> \<not> is_terminal_state (inv_state r)) \<and>
     events st = take (length (events st)) (events st') \<and>
     approvals st = take (length (approvals st)) (approvals st') \<and>
     reconciliations st = take (length (reconciliations st)) (reconciliations st')"
proof -
  from assms obtain r' where "get_invocation i st' = Some r'" "row_evolves r r'"
    unfolding evolves_def by blast
  moreover from this have "inv_state r' = inv_state r \<or> \<not> is_terminal_state (inv_state r)"
    using terminal_path by (auto simp: row_evolves_def)
  moreover from assms(1) have "events st = take (length (events st)) (events st')"
    "approvals st = take (length (approvals st)) (approvals st')"
    "reconciliations st = take (length (reconciliations st)) (reconciliations st')"
    unfolding evolves_def by auto
  ultimately show ?thesis unfolding row_evolves_def by blast
qed

text \<open>
  In every acceptable store the events of an invocation are numbered one to their count,
  and reading them in that order replays legal moves from its creation to the state the row
  holds now.
\<close>

theorem history_replays:
  assumes "store_ok st" and "r \<in> set (invocations st)"
  shows "map ev_sequence (events_of (inv_id r) st) = [1..<Suc (length (events_of (inv_id r) st))] \<and>
     replay None (events_of (inv_id r) st) = Some (Some (inv_state r)) \<and>
     next_sequence (inv_id r) st = Suc (length (events_of (inv_id r) st))"
  using store_okD(3) [OF assms] next_sequence_length unfolding history_ok_def by blast

end
