(* ===== verification/Policy.thy ===== *)
theory Policy
  imports Contract
begin

text \<open>
  \<open>tools/policy.py\<close>: the eight gates.  The engine holds no state; it reads the code declaration,
  the lifecycle, the raw input, the facts about the target and the environment, all of them in
  the context.  An exception inside a gate, which only a tool's own input model can raise, is
  the \<open>Inl\<close> branch and becomes a denial.
\<close>

section \<open>Context and decision\<close>

record target_facts =
  tf_kind :: target_kind
  tf_exists :: bool
  tf_asset_id :: "uuid option"
  tf_asset_type :: string
  tf_lifecycle_state :: string
  tf_display_name :: string
  tf_external_ref :: jobj

record policy_context =
  pc_principal :: principal
  pc_definition :: "tool_definition option"
  pc_lifecycle :: tool_lifecycle
  pc_raw_input :: jobj
  pc_target :: target_facts
  pc_environment :: string
  pc_request_time :: int

record policy_decision =
  pd_allowed :: bool
  pd_reason :: policy_reason
  pd_class :: permission_class
  pd_approval_policy :: approval_policy
  pd_validation_required :: bool
  pd_required_roles :: "string list"
  pd_execution_parameters :: jobj
  pd_prohibited :: bool
  pd_contract_hash :: string
  pd_evaluated_at :: int
  pd_canonical_input :: jobj

definition pd_decision :: "policy_decision \<Rightarrow> gate_decision" where
  "pd_decision d = (if pd_allowed d then GATE_ALLOW else GATE_DENY)"

section \<open>The gates\<close>

definition is_prohibited :: "tool_definition \<Rightarrow> bool" where
  "is_prohibited d = (td_prohibited d \<or> prohibited_overlap d \<noteq> [])"

definition deny :: "(string \<Rightarrow> string) \<Rightarrow> policy_context \<Rightarrow> policy_reason \<Rightarrow> policy_decision" where
  "deny sha256 c reason = (case pc_definition c of
     None \<Rightarrow> \<lparr>pd_allowed = False, pd_reason = reason, pd_class = PROHIBITED,
       pd_approval_policy = default_approval_policy, pd_validation_required = True,
       pd_required_roles = [], pd_execution_parameters = [], pd_prohibited = True,
       pd_contract_hash = [], pd_evaluated_at = pc_request_time c, pd_canonical_input = []\<rparr>
   | Some d \<Rightarrow> \<lparr>pd_allowed = False, pd_reason = reason, pd_class = td_class d,
       pd_approval_policy = td_approval_policy d,
       pd_validation_required = td_validation_required d,
       pd_required_roles = td_required_roles d,
       pd_execution_parameters = execution_parameters d, pd_prohibited = is_prohibited d,
       pd_contract_hash = contract_hash sha256 d, pd_evaluated_at = pc_request_time c,
       pd_canonical_input = []\<rparr>)"

text \<open>\<open>None\<close> is the schema refusal; the outer \<open>Inl\<close> is any other exception of the model.\<close>

definition validate_input :: "tool_model \<Rightarrow> jobj \<Rightarrow> unit + jobj option" where
  "validate_input m raw = (case model_validate m raw of
     Valid canonical \<Rightarrow> Inr (Some canonical) | Invalid \<Rightarrow> Inr None | Raised \<Rightarrow> Inl ())"

definition check_target :: "tool_definition \<Rightarrow> target_facts \<Rightarrow> policy_reason option" where
  "check_target d t =
     (if tf_kind t \<noteq> td_target_type d then Some PR_TARGET_INVALID
      else if td_target_type d = TK_NONE then None
      else if td_target_type d = TK_EXTERNAL_REF then
        (if tf_external_ref t \<noteq> [] then None else Some PR_TARGET_INVALID)
      else if \<not> tf_exists t \<or> tf_asset_id t = None then Some PR_TARGET_INVALID
      else if tf_lifecycle_state t \<noteq> [] \<and> tf_lifecycle_state t \<noteq> ''ACTIVE''
        then Some PR_TARGET_RETIRED
      else if tf_asset_type t \<notin> set (td_target_asset_types d) then Some PR_TARGET_OUT_OF_SCOPE
      else None)"

definition gates_one_to_four ::
  "(string \<Rightarrow> string) \<Rightarrow> policy_context \<Rightarrow> unit + policy_decision option \<times> jobj" where
  "gates_one_to_four sha256 c = (case pc_definition c of
     None \<Rightarrow> Inr (Some (deny sha256 c PR_CAPABILITY_NOT_BOUND), [])
   | Some d \<Rightarrow>
       if pc_lifecycle c = RETIRED then Inr (Some (deny sha256 c PR_TOOL_RETIRED), [])
       else if pc_lifecycle c = DISABLED then Inr (Some (deny sha256 c PR_TOOL_DISABLED), [])
       else if is_prohibited d then Inr (Some (deny sha256 c PR_PROHIBITED_CAPABILITY), [])
       else andThen (validate_input (td_input_model d) (pc_raw_input c)) (\<lambda>canonical.
         case canonical of
           None \<Rightarrow> Inr (Some (deny sha256 c PR_SCHEMA_INVALID), [])
         | Some canonical \<Rightarrow> Inr (None, canonical)))"

definition holds_required_roles :: "principal \<Rightarrow> tool_definition \<Rightarrow> bool" where
  "holds_required_roles p d =
     (let held = map role_value (effective_roles (p_roles p)) in
      list_all (\<lambda>r. r \<in> set held) (td_required_roles d))"

definition environment_allowed :: "string \<Rightarrow> tool_definition \<Rightarrow> bool" where
  "environment_allowed env d =
     (let allowed_envs = allowed_environments (td_approval_policy d) in
      allowed_envs = [] \<or> env \<in> set allowed_envs)"

definition evaluate_gates ::
  "(string \<Rightarrow> string) \<Rightarrow> policy_context \<Rightarrow> unit + policy_decision" where
  "evaluate_gates sha256 c =
     andThen (gates_one_to_four sha256 c) (\<lambda>(denial, canonical).
       case (denial, pc_definition c) of
         (Some dn, _) \<Rightarrow> Inr dn
       | (None, None) \<Rightarrow> Inr (deny sha256 c PR_CAPABILITY_NOT_BOUND)
       | (None, Some d) \<Rightarrow>
           (case check_target d (pc_target c) of
              Some reason \<Rightarrow> Inr (deny sha256 c reason)
            | None \<Rightarrow>
                if \<not> holds_required_roles (pc_principal c) d
                then Inr (deny sha256 c PR_ROLE_INSUFFICIENT)
                else if \<not> environment_allowed (pc_environment c) d
                then Inr (deny sha256 c PR_ENVIRONMENT_RESTRICTED)
                else Inr \<lparr>pd_allowed = True, pd_reason = PR_ALLOWED, pd_class = td_class d,
                  pd_approval_policy = td_approval_policy d,
                  pd_validation_required = td_validation_required d,
                  pd_required_roles = td_required_roles d,
                  pd_execution_parameters = execution_parameters d, pd_prohibited = False,
                  pd_contract_hash = contract_hash sha256 d,
                  pd_evaluated_at = pc_request_time c, pd_canonical_input = canonical\<rparr>))"

definition evaluate :: "(string \<Rightarrow> string) \<Rightarrow> policy_context \<Rightarrow> policy_decision" where
  "evaluate sha256 c = (case evaluate_gates sha256 c of
     Inr d \<Rightarrow> d | Inl _ \<Rightarrow> deny sha256 c PR_INTERNAL_ERROR)"

definition evaluate_prerequisites ::
  "(string \<Rightarrow> string) \<Rightarrow> policy_context \<Rightarrow> policy_decision option" where
  "evaluate_prerequisites sha256 c = (case gates_one_to_four sha256 c of
     Inr r \<Rightarrow> fst r | Inl _ \<Rightarrow> Some (deny sha256 c PR_INTERNAL_ERROR))"

section \<open>Facts\<close>

lemma deny_simps [simp]:
  "\<not> pd_allowed (deny sha256 c r)" "pd_reason (deny sha256 c r) = r"
  "pd_canonical_input (deny sha256 c r) = []"
  by (simp_all add: deny_def split: option.splits)

text \<open>All eight gates, as one condition on the context.\<close>

definition gates_pass :: "policy_context \<Rightarrow> tool_definition \<Rightarrow> jobj \<Rightarrow> bool" where
  "gates_pass c d canonical \<longleftrightarrow>
     pc_definition c = Some d \<and> pc_lifecycle c = ACTIVE \<and> \<not> is_prohibited d \<and>
     model_validate (td_input_model d) (pc_raw_input c) = Valid canonical \<and>
     check_target d (pc_target c) = None \<and> holds_required_roles (pc_principal c) d \<and>
     environment_allowed (pc_environment c) d"

lemma lifecycle_active: "l = ACTIVE \<longleftrightarrow> l \<noteq> RETIRED \<and> l \<noteq> DISABLED"
  by (cases l) simp_all

lemmas gate_defs = evaluate_def evaluate_gates_def gates_one_to_four_def validate_input_def

lemma evaluate_pass:
  "gates_pass c d canonical \<Longrightarrow>
   evaluate sha256 c = \<lparr>pd_allowed = True, pd_reason = PR_ALLOWED, pd_class = td_class d,
     pd_approval_policy = td_approval_policy d,
     pd_validation_required = td_validation_required d, pd_required_roles = td_required_roles d,
     pd_execution_parameters = execution_parameters d, pd_prohibited = False,
     pd_contract_hash = contract_hash sha256 d, pd_evaluated_at = pc_request_time c,
     pd_canonical_input = canonical\<rparr>"
  by (simp add: gates_pass_def gate_defs)

lemma check_target_reason: "check_target d t = Some r \<Longrightarrow> r \<noteq> PR_ALLOWED"
  by (auto simp: check_target_def split: if_splits)

lemma evaluate_block:
  assumes "\<nexists>d canonical. gates_pass c d canonical"
  shows "\<exists>r. r \<noteq> PR_ALLOWED \<and> evaluate sha256 c = deny sha256 c r"
proof (cases "pc_definition c")
  case None
  then show ?thesis by (simp add: gate_defs) blast
next
  case def: (Some d)
  show ?thesis
  proof (cases "is_prohibited d \<or> pc_lifecycle c \<noteq> ACTIVE")
    case True
    with def show ?thesis
      by (cases "pc_lifecycle c") (simp_all add: gate_defs, blast+)
  next
    case unblocked: False
    show ?thesis
    proof (cases "model_validate (td_input_model d) (pc_raw_input c)")
      case valid: (Valid canonical)
      show ?thesis
      proof (cases "check_target d (pc_target c)")
        case None
        with assms unblocked def valid have
          "\<not> holds_required_roles (pc_principal c) d \<or> \<not> environment_allowed (pc_environment c) d"
          by (auto simp: gates_pass_def)
        with unblocked def valid None show ?thesis by (simp add: gate_defs) blast
      next
        case (Some reason)
        with unblocked def valid check_target_reason [OF Some] show ?thesis
          by (simp add: gate_defs) blast
      qed
    qed (use unblocked def in \<open>simp_all add: gate_defs, blast+\<close>)
  qed
qed

text \<open>
  C39. The engine allows exactly when every gate passes, and then its decision is the code
  declaration's own policy over the validated input; anything else, an exception included, is
  a denial that carries no input.
\<close>

theorem evaluate_allows_iff:
  "(pd_allowed (evaluate sha256 c) \<longleftrightarrow> (\<exists>d canonical. gates_pass c d canonical)) \<and>
   (\<forall>d canonical. gates_pass c d canonical \<longrightarrow>
      pd_reason (evaluate sha256 c) = PR_ALLOWED \<and>
      pd_class (evaluate sha256 c) = td_class d \<and>
      pd_approval_policy (evaluate sha256 c) = td_approval_policy d \<and>
      pd_validation_required (evaluate sha256 c) = td_validation_required d \<and>
      pd_canonical_input (evaluate sha256 c) = canonical \<and>
      pd_contract_hash (evaluate sha256 c) = contract_hash sha256 d) \<and>
   (pd_allowed (evaluate sha256 c) \<or>
    pd_reason (evaluate sha256 c) \<noteq> PR_ALLOWED \<and> pd_canonical_input (evaluate sha256 c) = [])"
proof (cases "\<exists>d canonical. gates_pass c d canonical")
  case True
  then have "pd_allowed (evaluate sha256 c)" by (auto simp: evaluate_pass)
  with True show ?thesis by (simp add: evaluate_pass)
next
  case False
  with evaluate_block obtain r
    where "r \<noteq> PR_ALLOWED" "evaluate sha256 c = deny sha256 c r" by blast
  with False show ?thesis by simp
qed

text \<open>
  A prohibited tool is refused with the same decision whoever asks, with whatever input,
  target and environment: the refusal is not an oracle for the role that would have worked.
\<close>

theorem prohibition_is_no_oracle:
  assumes "pc_definition c = Some d" and "pc_lifecycle c = ACTIVE" and "is_prohibited d"
  shows "evaluate sha256 (c\<lparr>pc_principal := p, pc_raw_input := raw, pc_target := t,
             pc_environment := env\<rparr>) = evaluate sha256 c \<and>
         pd_reason (evaluate sha256 c) = PR_PROHIBITED_CAPABILITY \<and>
         \<not> pd_allowed (evaluate sha256 c)"
  using assms by (simp add: gate_defs) (simp add: deny_def)

text \<open>
  The prerequisite check reads neither target, principal nor environment, and when it
  denies, the full evaluation returns that same denial: a malformed request is refused before
  any target is looked up.
\<close>

theorem prerequisites_before_target:
  "evaluate_prerequisites sha256 (c\<lparr>pc_principal := p, pc_target := t, pc_environment := env\<rparr>) =
     evaluate_prerequisites sha256 c \<and>
   (evaluate_prerequisites sha256 c = None \<or>
    evaluate_prerequisites sha256 c = Some (evaluate sha256 c))"
proof -
  have deny: "deny sha256 (c\<lparr>pc_principal := p, pc_target := t, pc_environment := env\<rparr>) =
      deny sha256 c"
    by (simp add: deny_def fun_eq_iff split: option.split)
  moreover have "gates_one_to_four sha256 (c\<lparr>pc_principal := p, pc_target := t, pc_environment := env\<rparr>) =
      gates_one_to_four sha256 c"
    by (cases "pc_definition c") (simp_all add: gates_one_to_four_def deny)
  moreover have "evaluate_prerequisites sha256 c = None \<or>
      evaluate_prerequisites sha256 c = Some (evaluate sha256 c)"
    by (cases "gates_one_to_four sha256 c")
      (auto simp: evaluate_prerequisites_def evaluate_def evaluate_gates_def split: option.splits)
  ultimately show ?thesis
    by (cases "gates_one_to_four sha256 c") (simp_all add: evaluate_prerequisites_def)
qed

end
