(* ===== verification/Invocation.thy ===== *)
theory Invocation
  imports Invariants Policy
begin

text \<open>
  \<open>services/tools/invocation.py\<close>: the creation of an invocation, from the policy gates to
  \<open>READY\<close>, \<open>AWAITING_APPROVAL\<close> or \<open>REJECTED\<close>.  The code registry is the list of its
  declarations; the hash function and the instant are parameters.
\<close>

section \<open>Requests and lookups\<close>

record request =
  rq_tool_name :: string
  rq_tool_version :: string
  rq_arguments :: jobj
  rq_target_asset_id :: "uuid option"
  rq_target_ref :: "jobj option"
  rq_idempotency_key :: "string option"
  rq_request_id :: "string option"

definition get_definition :: "tool_definition list \<Rightarrow> string \<Rightarrow> string \<Rightarrow> tool_definition option" where
  "get_definition registry name version = find (\<lambda>d. td_key d = (name, version)) registry"

definition registration_of :: "string \<Rightarrow> string \<Rightarrow> store \<Rightarrow> registration option" where
  "registration_of name version st =
     find (\<lambda>r. reg_name r = name \<and> reg_version r = version) (registrations st)"

text \<open>A dictionary that is absent or empty is falsy.\<close>

definition given :: "jobj option \<Rightarrow> jobj option" where
  "given d = (case d of Some (kv # kvs) \<Rightarrow> Some (kv # kvs) | _ \<Rightarrow> None)"

definition requested_kind :: "request \<Rightarrow> target_kind" where
  "requested_kind rq = (if rq_target_asset_id rq \<noteq> None then TK_ASSET
     else if given (rq_target_ref rq) \<noteq> None then TK_EXTERNAL_REF else TK_NONE)"

definition no_target :: "target_kind \<Rightarrow> bool \<Rightarrow> target_facts" where
  "no_target kind exists = \<lparr>tf_kind = kind, tf_exists = exists, tf_asset_id = None,
     tf_asset_type = [], tf_lifecycle_state = [], tf_display_name = [], tf_external_ref = []\<rparr>"

definition resolve_target :: "store \<Rightarrow> request \<Rightarrow> target_facts" where
  "resolve_target st rq = (case rq_target_asset_id rq of
     Some i \<Rightarrow> (case get_asset i st of
         None \<Rightarrow> no_target TK_ASSET False
       | Some a \<Rightarrow> \<lparr>tf_kind = TK_ASSET, tf_exists = True, tf_asset_id = Some (asset_id a),
           tf_asset_type = asset_type a, tf_lifecycle_state = asset_lifecycle a,
           tf_display_name = asset_display_name a, tf_external_ref = []\<rparr>)
   | None \<Rightarrow> (case given (rq_target_ref rq) of
         Some ref \<Rightarrow> (no_target TK_EXTERNAL_REF True)\<lparr>tf_external_ref := ref\<rparr>
       | None \<Rightarrow> no_target TK_NONE True))"

section \<open>Rows\<close>

definition initial_progress :: progress where
  "initial_progress = \<lparr>state = REQUESTED, final_gate_decision = None, final_gate_reason = None,
     final_gate_at = None, final_gate_event_id = None, approvals_received = 0,
     executor_lease_id = None, lease_expires_at = None, attempt_count = 0, deadline_at = None,
     result_summary = None, result_digest = None, validation_outcome = None,
     validation_detail = None, rollback_hint = None, err_category = None, err_detail = None,
     approved_at = None, started_at = None, finished_at = None, validated_at = None\<rparr>"

definition accepted_snapshot ::
  "(string \<Rightarrow> string) \<Rightarrow> int \<Rightarrow> request \<Rightarrow> principal \<Rightarrow> registration \<Rightarrow> policy_decision \<Rightarrow>
   target_facts \<Rightarrow> jobj \<Rightarrow> string \<Rightarrow> security_snapshot" where
  "accepted_snapshot sha256 now rq p reg dec target envelope digest =
    (let policy = pd_approval_policy dec in
     \<lparr>s_request_id = rq_request_id rq, s_idempotency_key = rq_idempotency_key rq,
      s_tool_name = rq_tool_name rq, s_tool_version = rq_tool_version rq,
      s_registration_id = reg_id reg, s_permission_class = pd_class dec,
      s_approval_required = approval_required policy, s_min_approvals = min_approvals policy,
      s_distinct_approvers = distinct_approvers_required policy,
      s_ttl_seconds = ttl_seconds policy, s_validation_required = pd_validation_required dec,
      s_approval_policy = as_snapshot policy,
      s_execution_parameters = pd_execution_parameters dec,
      s_contract_hash = pd_contract_hash dec, s_envelope = envelope, s_envelope_digest = digest,
      s_input_digest = input_digest sha256 (pd_canonical_input dec),
      s_input_canonical = pd_canonical_input dec, s_principal = to_audit_fields p,
      s_target_kind = tf_kind target, s_target_asset_id = tf_asset_id target,
      s_target_ref = given (rq_target_ref rq), s_authorization_decision = GATE_ALLOW,
      s_authorization_reason = pd_reason dec, s_authorized_at = pd_evaluated_at dec,
      s_requested_at = now\<rparr>)"

definition zeros :: string where
  "zeros = replicate 64 (CHR ''0'')"

definition refused_snapshot ::
  "int \<Rightarrow> request \<Rightarrow> principal \<Rightarrow> registration \<Rightarrow> policy_decision \<Rightarrow> security_snapshot" where
  "refused_snapshot now rq p reg dec =
    (let policy = pd_approval_policy dec in
     \<lparr>s_request_id = rq_request_id rq, s_idempotency_key = None,
      s_tool_name = rq_tool_name rq, s_tool_version = rq_tool_version rq,
      s_registration_id = reg_id reg, s_permission_class = pd_class dec,
      s_approval_required = approval_required policy, s_min_approvals = min_approvals policy,
      s_distinct_approvers = distinct_approvers_required policy,
      s_ttl_seconds = ttl_seconds policy, s_validation_required = pd_validation_required dec,
      s_approval_policy = as_snapshot policy,
      s_execution_parameters = pd_execution_parameters dec,
      s_contract_hash = pd_contract_hash dec,
      s_envelope = [(''refused'', JBool True), (''reason'', JStr (reason_value (pd_reason dec)))],
      s_envelope_digest = zeros, s_input_digest = zeros, s_input_canonical = [],
      s_principal = to_audit_fields p, s_target_kind = requested_kind rq,
      s_target_asset_id = (if requested_kind rq = TK_ASSET then rq_target_asset_id rq else None),
      s_target_ref = given (rq_target_ref rq), s_authorization_decision = GATE_DENY,
      s_authorization_reason = pd_reason dec, s_authorized_at = pd_evaluated_at dec,
      s_requested_at = now\<rparr>)"

text \<open>Insert a row in \<open>REQUESTED\<close> and its creation event.\<close>

definition insert_requested ::
  "int \<Rightarrow> security_snapshot \<Rightarrow> policy_reason \<Rightarrow> principal \<Rightarrow> jobj \<Rightarrow> store \<Rightarrow> invocation run" where
  "insert_requested now snap reason p detail st =
     andThen (insert_invocation snap initial_progress st) (\<lambda>(r, st1).
     andThen (append_event now (inv_id r) None REQUESTED (reason_value reason)
       (Some (p_subject p)) detail st1) (\<lambda>(e, st2). Inr (r, st2)))"

section \<open>Operations\<close>

text \<open>\<open>_existing_for_key\<close>: nothing, the invocation the key already means, or a conflict.\<close>

definition existing_for_key ::
  "request \<Rightarrow> string \<Rightarrow> store \<Rightarrow> acop_error + invocation option" where
  "existing_for_key rq digest st = (case rq_idempotency_key rq of
     None \<Rightarrow> Inr None
   | Some [] \<Rightarrow> Inr None
   | Some (c # cs) \<Rightarrow> (case find (same_live_key (c # cs)) (invocations st) of
         None \<Rightarrow> Inr None
       | Some existing \<Rightarrow>
           if s_envelope_digest (inv_snap existing) \<noteq> digest
           then Inl (ToolErr IdempotencyConflictError) else Inr (Some existing)))"

definition persist ::
  "(string \<Rightarrow> string) \<Rightarrow> int \<Rightarrow> request \<Rightarrow> principal \<Rightarrow> registration \<Rightarrow> policy_decision \<Rightarrow>
   target_facts \<Rightarrow> jobj \<Rightarrow> string \<Rightarrow> store \<Rightarrow> invocation run" where
  "persist sha256 now rq p reg dec target envelope digest st =
     insert_requested now (accepted_snapshot sha256 now rq p reg dec target envelope digest)
       PR_ALLOWED p [(''envelope_digest'', JStr digest)] st"

definition advance ::
  "int \<Rightarrow> invocation \<Rightarrow> principal \<Rightarrow> policy_decision \<Rightarrow> store \<Rightarrow> invocation run" where
  "advance now r p dec st =
     andThen (transition now r AUTHORIZED (reason_value (pd_reason dec)) (Some (p_subject p)) []
                anything (\<lambda>c. c) st) (\<lambda>(r1, st1).
     if approval_required (pd_approval_policy dec)
     then transition now r1 AWAITING_APPROVAL (reason_value PR_APPROVAL_MISSING)
            (Some (p_subject p)) [(''min_approvals'', JInt (s_min_approvals (inv_snap r1)))]
            anything (\<lambda>c. c) st1
     else transition now r1 READY (reason_value PR_ALLOWED) (Some (p_subject p)) []
            anything (\<lambda>c. c) st1)"

definition audit_created :: "invocation \<Rightarrow> principal \<Rightarrow> policy_decision \<Rightarrow> store \<Rightarrow> store" where
  "audit_created r p dec st = audit_record (audit_event ''tool.invoke''
     (if s_approval_required (inv_snap r) then AUDIT_PENDING_APPROVAL else AUDIT_SUCCESS)
     (if pd_class dec \<in> set APPROVAL_REQUIRED_CLASSES then AUDIT_NOTICE else AUDIT_INFO) r
     [(''state'', JStr (state_value (inv_state r))),
      (''envelope_digest'', JStr (s_envelope_digest (inv_snap r))),
      (''target_kind'', JStr (target_kind_value (s_target_kind (inv_snap r))))] p) st"

definition audit_denied :: "invocation \<Rightarrow> principal \<Rightarrow> policy_decision \<Rightarrow> store \<Rightarrow> store" where
  "audit_denied r p dec st = (let engine_failed = (pd_reason dec = PR_INTERNAL_ERROR) in
     audit_record (audit_event (if engine_failed then ''tool.policy_failure'' else ''tool.invoke'')
       AUDIT_DENIED
       (if engine_failed \<or> pd_reason dec = PR_PROHIBITED_CAPABILITY
        then AUDIT_CRITICAL else AUDIT_WARNING) r
       [(''reason'', JStr (reason_value (pd_reason dec)))] p) st)"

definition accept ::
  "(string \<Rightarrow> string) \<Rightarrow> int \<Rightarrow> request \<Rightarrow> principal \<Rightarrow> registration \<Rightarrow> policy_decision \<Rightarrow>
   policy_context \<Rightarrow> store \<Rightarrow> invocation run" where
  "accept sha256 now rq p reg dec c st = (case pc_definition c of
     None \<Rightarrow> Inl (ToolErr ToolNotFoundError)
   | Some d \<Rightarrow>
      (let envelope = build_envelope sha256 d (pd_canonical_input dec)
             (build_target_block (tf_kind (pc_target c)) (tf_asset_id (pc_target c))
               (rq_target_ref rq));
           digest = envelope_digest sha256 envelope in
       andThen (existing_for_key rq digest st) (\<lambda>replay.
       case replay of
         Some existing \<Rightarrow> Inr (existing, st)
       | None \<Rightarrow>
           andThen (persist sha256 now rq p reg dec (pc_target c) envelope digest st) (\<lambda>(r, st1).
           andThen (advance now r p dec st1) (\<lambda>(r2, st2).
           Inr (r2, audit_created r2 p dec st2))))))"

definition reject ::
  "int \<Rightarrow> request \<Rightarrow> principal \<Rightarrow> registration \<Rightarrow> policy_decision \<Rightarrow> store \<Rightarrow>
   (invocation \<times> tool_error) run" where
  "reject now rq p reg dec st =
     andThen (insert_requested now (refused_snapshot now rq p reg dec) (pd_reason dec) p [] st)
       (\<lambda>(r, st1).
     andThen (transition now r REJECTED (reason_value (pd_reason dec)) (Some (p_subject p)) []
       anything (\<lambda>c. c) st1) (\<lambda>(r2, st2).
     Inr ((r2, REFUSAL_ERRORS (pd_reason dec)), audit_denied r2 p dec st2)))"

definition request_context ::
  "tool_definition list \<Rightarrow> string \<Rightarrow> int \<Rightarrow> request \<Rightarrow> principal \<Rightarrow> registration \<Rightarrow> target_facts \<Rightarrow>
   policy_context" where
  "request_context registry env now rq p reg target =
     \<lparr>pc_principal = p,
      pc_definition = get_definition registry (rq_tool_name rq) (rq_tool_version rq),
      pc_lifecycle = reg_lifecycle reg, pc_raw_input = rq_arguments rq, pc_target = target,
      pc_environment = env, pc_request_time = now\<rparr>"

text \<open>The decision: the prerequisites over no target, and only then the target's facts.\<close>

definition decide_request ::
  "(string \<Rightarrow> string) \<Rightarrow> tool_definition list \<Rightarrow> string \<Rightarrow> int \<Rightarrow> request \<Rightarrow> principal \<Rightarrow>
   registration \<Rightarrow> store \<Rightarrow> policy_decision \<times> policy_context" where
  "decide_request sha256 registry env now rq p reg st =
    (let c0 = request_context registry env now rq p reg (no_target (requested_kind rq) False) in
     case evaluate_prerequisites sha256 c0 of
       Some denial \<Rightarrow> (denial, c0)
     | None \<Rightarrow>
         let c = request_context registry env now rq p reg (resolve_target st rq) in
         (evaluate sha256 c, c))"

definition create_body ::
  "(string \<Rightarrow> string) \<Rightarrow> tool_definition list \<Rightarrow> string \<Rightarrow> int \<Rightarrow> request \<Rightarrow> principal \<Rightarrow> store \<Rightarrow>
   (invocation \<times> tool_error option) run" where
  "create_body sha256 registry env now rq p st =
    (case registration_of (rq_tool_name rq) (rq_tool_version rq) st of
       None \<Rightarrow> Inl (ToolErr ToolNotFoundError)
     | Some reg \<Rightarrow>
        (case decide_request sha256 registry env now rq p reg st of (dec, c) \<Rightarrow>
         if \<not> pd_allowed dec then
           andThen (reject now rq p reg dec st) (\<lambda>((r, refusal), st1). Inr ((r, Some refusal), st1))
         else
           andThen (accept sha256 now rq p reg dec c st) (\<lambda>(r, st1). Inr ((r, None), st1))))"

text \<open>\<open>create\<close>: the session commits, and a refusal is raised only after it has.\<close>

definition create ::
  "(string \<Rightarrow> string) \<Rightarrow> tool_definition list \<Rightarrow> string \<Rightarrow> int \<Rightarrow> request \<Rightarrow> principal \<Rightarrow> store \<Rightarrow>
   (acop_error + invocation) \<times> store" where
  "create sha256 registry env now rq p st =
    (case session (create_body sha256 registry env now rq p st) st of
       (Inl e, st') \<Rightarrow> (Inl e, st')
     | (Inr (r, refusal), st') \<Rightarrow>
         (case refusal of Some e \<Rightarrow> (Inl (ToolErr e), st') | None \<Rightarrow> (Inr r, st')))"

definition is_terminal :: "invocation \<Rightarrow> bool" where
  "is_terminal r = (inv_state r \<in> set TERMINAL_STATES)"

section \<open>Insertion keeps the invariant\<close>

definition new_row :: "security_snapshot \<Rightarrow> store \<Rightarrow> invocation" where
  "new_row snap st = \<lparr>inv_id = next_id st, inv_snap = snap, inv_cols = initial_progress\<rparr>"

definition add_row :: "invocation \<Rightarrow> store \<Rightarrow> store" where
  "add_row r st = st\<lparr>invocations := invocations st @ [r], next_id := Suc (next_id st)\<rparr>"

lemma initial_state [simp]: "state initial_progress = REQUESTED"
  by (simp add: initial_progress_def)

lemma new_row_simps [simp]:
  "inv_id (new_row snap st) = next_id st" "inv_snap (new_row snap st) = snap"
  "inv_cols (new_row snap st) = initial_progress"
  by (simp_all add: new_row_def)

lemma add_row_frame [simp]:
  "events (add_row r st) = events st" "approvals (add_row r st) = approvals st"
  "reconciliations (add_row r st) = reconciliations st" "audits (add_row r st) = audits st"
  "registrations (add_row r st) = registrations st" "assets (add_row r st) = assets st"
  "identifiers (add_row r st) = identifiers st" "denials (add_row r st) = denials st"
  "invocations (add_row r st) = invocations st @ [r]" "next_id (add_row r st) = Suc (next_id st)"
  "events_of i (add_row r st) = events_of i st"
  "approver_count i (add_row r st) = approver_count i st"
  by (simp_all add: add_row_def events_of_def approver_count_def)

lemma insert_invocation_shape:
  "insert_invocation snap initial_progress st = Inr (r, st') \<longleftrightarrow>
     r = new_row snap st \<and> st' = add_row r st \<and> (\<forall>c \<in> set (invocation_checks st r). snd c)"
  unfolding insert_invocation_def new_row_def [symmetric] Let_def andThen_eq_Inr enforce_Inr
  by (auto simp: add_row_def)

lemma insert_requested_shape:
  assumes "insert_requested now snap reason p detail st = Inr (r, st')"
  shows "r = new_row snap st \<and> (\<forall>c \<in> set (invocation_checks st r). snd c) \<and>
    (\<exists>e. st' = add_event e (add_row r st) \<and> ev_invocation e = inv_id r \<and>
       ev_sequence e = next_sequence (inv_id r) st \<and> ev_from e = None \<and> ev_to e = REQUESTED)"
proof -
  from assms obtain st1 e where ins: "insert_invocation snap initial_progress st = Inr (r, st1)"
    and ev: "append_event now (inv_id r) None REQUESTED (reason_value reason) (Some (p_subject p))
      detail st1 = Inr (e, st')"
    by (auto simp: insert_requested_def andThen_eq_Inr simp del: reason_value.simps)
  from ins have "r = new_row snap st" "st1 = add_row r st" "\<forall>c \<in> set (invocation_checks st r). snd c"
    by (simp_all add: insert_invocation_shape)
  with append_event_shape [OF ev] show ?thesis by (auto simp: next_sequence_def)
qed

lemma fresh_id:
  assumes "store_ok st"
  shows "next_id st \<notin> inv_id ` set (invocations st)" and "events_of (next_id st) st = []"
proof -
  show fresh: "next_id st \<notin> inv_id ` set (invocations st)"
    using store_okD(2) [OF assms] by fastforce
  then show "events_of (next_id st) st = []"
    unfolding events_of_def filter_empty_conv using store_okD(5) [OF assms] by metis
qed

text \<open>An inserted row whose own checks hold cannot break the idempotency index for an old row.\<close>

lemma idem_add_row:
  assumes "uq_tool_invocation_idem st r" and "uq_tool_invocation_idem st q"
    and "inv_state r \<noteq> SUPERSEDED" and "q \<in> set (invocations st)" and "inv_id q \<noteq> inv_id r"
  shows "uq_tool_invocation_idem (add_row r st) q"
proof (cases "s_idempotency_key (inv_snap q)")
  case (Some k)
  have "\<not> same_live_key k r" if "inv_state q \<noteq> SUPERSEDED"
    using assms Some that
    by (auto simp: same_live_key_def uq_tool_invocation_idem_def list_ex_iff)
  with assms(2) Some show ?thesis
    by (auto simp: uq_tool_invocation_idem_def list_ex_iff)
qed (simp add: uq_tool_invocation_idem_def)

lemma insert_requested_upholds [upholds_intros]:
  "upholds store_ok evolves st (insert_requested now snap reason p detail st)"
  unfolding upholds_def
proof (intro impI allI)
  fix r st' assume ok: "store_ok st"
    and run: "insert_requested now snap reason p detail st = Inr (r, st')"
  from insert_requested_shape [OF run] obtain e where r: "r = new_row snap st"
    and checks: "\<forall>c \<in> set (invocation_checks st r). snd c"
    and st': "st' = add_event e (add_row r st)" and e: "ev_invocation e = next_id st"
      "ev_sequence e = next_sequence (next_id st) st" "ev_from e = None" "ev_to e = REQUESTED"
    by auto
  note fresh = fresh_id [OF ok]
  have mono: "\<forall>c \<in> set (invocation_checks st' q). snd c"
    if "\<forall>c \<in> set (invocation_checks st q). snd c" "uq_tool_invocation_idem (add_row r st) q" for q
    using that by (intro invocation_checks_mono [OF that(1)])
      (auto simp: st' idem_cong [of "add_event e (add_row r st)" "add_row r st"])
  have entered: "entered st' q = entered st q" for q
    by (simp add: st' entered_def)
  have "inv_id q < next_id st' \<and> history_ok st' q \<and> entered st' q \<and>
      (\<forall>c \<in> set (invocation_checks st' q). snd c)"
    if q: "q \<in> set (invocations st')" for q
  proof (cases "q = r")
    case True
    have "uq_tool_invocation_idem (add_row r st) r"
      using idem_of_checks [OF checks]
      by (cases "s_idempotency_key (inv_snap r)") (auto simp: uq_tool_invocation_idem_def)
    moreover have "history_ok st' r"
      using fresh(2) e by (simp add: r st' history_ok_def next_sequence_def may_follow_def)
    ultimately show ?thesis
      using mono [OF checks] True unfolding entered
      by (simp add: r st' entered_def past_gate_def past_execution_def)
  next
    case False
    with q have old: "q \<in> set (invocations st)" by (simp add: st')
    have id: "inv_id q \<noteq> inv_id r" using imageI [OF old, of inv_id] fresh(1) by (auto simp: r)
    have qs: "\<forall>c \<in> set (invocation_checks st q). snd c" using store_okD(4) [OF ok old] by blast
    have "uq_tool_invocation_idem (add_row r st) q"
      using idem_add_row [OF idem_of_checks [OF checks] idem_of_checks [OF qs] _ old id] by (simp add: r)
    moreover have "history_ok st' q"
      using store_okD(3) [OF ok old] id e(1) by (simp add: r st' history_ok_def)
    ultimately show ?thesis
      using mono [OF qs] store_okD(2,8) [OF ok old] unfolding entered by (simp add: st')
  qed
  moreover have "approval_ok st' a" if "a \<in> set (approvals st)" for a
    using store_okD(6) [OF ok that] by (auto simp: approval_ok_def snapshots_def st')
  moreover have "ev_invocation x \<in> inv_id ` set (invocations st')" if "x \<in> set (events st')" for x
    using that store_okD(5) [OF ok, of x] e(1) by (auto simp: st' r)
  ultimately have "store_ok st'"
    using store_okD(1,7) [OF ok] fresh(1)
    unfolding store_ok_def by (auto simp: st' r approved_list_def)
  moreover have "get_invocation i st' = Some q" if "get_invocation i st = Some q" for i q
    using that by (simp add: get_invocation_def st' find_row_append)
  then have "evolves st st'"
    unfolding evolves_def by (auto simp: st' intro: exI [of _ "[e]"])
  ultimately show "store_ok st' \<and> evolves st st'" ..
qed

section \<open>Creation keeps the invariant\<close>

lemma keeps_state_id [simp]: "keeps_state (\<lambda>c. c)"
  by (simp add: keeps_state_def)

lemma audit_record_ok: "store_ok st \<Longrightarrow> store_ok (audit_record a st) \<and> evolves st (audit_record a st)"
proof -
  have get: "get_invocation i (audit_record a st) = get_invocation i st" for i
    by (simp add: get_invocation_def audit_record_def)
  have "history_ok (audit_record a st) r = history_ok st r" for r
    by (simp add: history_ok_def events_of_def audit_record_def)
  moreover have "invocation_checks (audit_record a st) r = invocation_checks st r" for r
    by (rule invocation_checks_cong) (simp_all add: audit_record_def)
  moreover have "approval_ok (audit_record a st) x = approval_ok st x" for x
    by (simp add: approval_ok_def snapshots_def audit_record_def)
  moreover have "entered (audit_record a st) r = entered st r" for r
    by (simp add: entered_def approver_count_def audit_record_def)
  moreover have "evolves st (audit_record a st)"
    unfolding evolves_def get by (simp add: audit_record_def)
  ultimately show "store_ok st \<Longrightarrow> store_ok (audit_record a st) \<and> evolves st (audit_record a st)"
    unfolding store_ok_def by (simp add: audit_record_def approved_list_def)
qed

lemma audited_upholds [upholds_intros]: "upholds store_ok evolves st (Inr (x, audit_record a st))"
  using audit_record_ok by (simp add: upholds_def)

lemma transition_fresh:
  assumes "transition now held to reason actor detail expected columns st = Inr (fresh, st')"
    and "keeps_state columns" and "get_invocation (inv_id held) st = Some r"
  shows "get_invocation (inv_id held) st' = Some fresh \<and> inv_id fresh = inv_id held \<and>
    inv_snap fresh = inv_snap r \<and> inv_state fresh = to"
proof -
  from assms(1) have "transition_cas now held to reason actor detail expected columns st =
      Inr ((True, fresh), st')"
    by (auto simp: transition_def andThen_eq_Inr split: if_splits)
  from this keeps_stateD [OF assms(2)] show ?thesis
  proof (cases rule: transition_cas_cases)
    case (won q e)
    with assms(3) get_invocationD [OF won(2)] show ?thesis
      by (simp add: get_upd_cols keeps_stateD [OF assms(2)])
  qed simp
qed

lemma advance_upholds [upholds_intros]:
  assumes "get_invocation (inv_id r) st = Some r"
    and "s_approval_required (inv_snap r) = approval_required (pd_approval_policy dec)"
  shows "upholds store_ok evolves st (advance now r p dec st)"
  unfolding advance_def
proof (rule tool_store.upholds_bind, goal_cases)
  case 1
  show ?case by (intro upholds_intros) simp_all
next
  case (2 r1 st1)
  from transition_fresh [OF 2 keeps_state_id assms(1)]
  have "entry_condition st1 AUTHORIZED READY (inv_id r1)" and "inv_state r1 = AUTHORIZED"
    if "\<not> approval_required (pd_approval_policy dec)"
    using that assms(2) by (simp_all add: entry_condition_def)
  then show ?case by (auto intro!: upholds_intros)
qed

lemma persist_upholds [upholds_intros]:
  "upholds store_ok evolves st (persist sha256 now rq p reg dec target envelope digest st)"
  unfolding persist_def by (rule upholds_intros)

lemma persist_row:
  assumes "store_ok st"
    and "persist sha256 now rq p reg dec target envelope digest st = Inr (r, st1)"
  shows "get_invocation (inv_id r) st1 = Some r \<and>
    s_approval_required (inv_snap r) = approval_required (pd_approval_policy dec)"
proof -
  note shape = insert_requested_shape [OF assms(2) [unfolded persist_def]]
  then have "r \<in> set (invocations st1)" by auto
  moreover have "store_ok st1" using upholdsD [OF persist_upholds assms] by simp
  ultimately have "get_invocation (inv_id r) st1 = Some r" by (simp only: get_invocation_row)
  then show ?thesis
    using shape by (simp add: accepted_snapshot_def Let_def)
qed

lemma created_upholds:
  "upholds store_ok evolves st
    (andThen (persist sha256 now rq p reg dec target envelope digest st) (\<lambda>(r, st1).
     andThen (advance now r p dec st1) (\<lambda>(r2, st2). Inr (r2, audit_created r2 p dec st2))))"
proof (cases "store_ok st")
  case True
  show ?thesis
  proof (rule tool_store.upholds_bind [OF persist_upholds])
    fix r st1 assume "persist sha256 now rq p reg dec target envelope digest st = Inr (r, st1)"
    from persist_row [OF True this] show "upholds store_ok evolves st1
      ((\<lambda>(r, st1). andThen (advance now r p dec st1)
          (\<lambda>(r2, st2). Inr (r2, audit_created r2 p dec st2))) (r, st1))"
      unfolding audit_created_def
      by (auto intro!: tool_store.upholds_bind upholds_intros)
  qed
qed (simp add: upholds_def)

lemma accept_upholds [upholds_intros]:
  "upholds store_ok evolves st (accept sha256 now rq p reg dec c st)"
proof (cases "pc_definition c")
  case None
  then show ?thesis by (simp add: accept_def)
next
  case (Some d)
  show ?thesis
    unfolding accept_def Some option.case Let_def
    by (rule tool_store.upholds_pure) (auto split: option.split intro: created_upholds)
qed

lemma reject_upholds [upholds_intros]: "upholds store_ok evolves st (reject now rq p reg dec st)"
  unfolding reject_def audit_denied_def Let_def
  by (auto intro!: tool_store.upholds_bind upholds_intros)

lemma create_body_upholds: "upholds store_ok evolves st (create_body sha256 registry env now rq p st)"
  unfolding create_body_def
  by (auto split: option.split prod.split intro!: tool_store.upholds_bind upholds_intros)

lemma session_upholds:
  assumes "upholds store_ok evolves st body" and "store_ok st" and "session body st = (res, st')"
  shows "store_ok st' \<and> evolves st st'"
  using assms by (auto simp: session_def dest: upholdsD split: sum.splits)

lemma create_session:
  "snd (create sha256 registry env now rq p st) =
     snd (session (create_body sha256 registry env now rq p st) st)"
  by (auto simp: create_def split: prod.split sum.split option.split)

text \<open>
  Whatever is requested, by whom and at what moment, creating an invocation takes an
  acceptable store to an acceptable store that it may evolve into, whether the request is
  accepted, replayed, refused or fails.
\<close>

theorem create_keeps_store:
  assumes "store_ok st"
  shows "store_ok (snd (create sha256 registry env now rq p st)) \<and>
         evolves st (snd (create sha256 registry env now rq p st))"
  unfolding create_session
  using session_upholds [OF create_body_upholds assms] by (metis prod.collapse)

end
