(* ===== verification/Approval.thy ===== *)
theory Approval
  imports Invocation
begin

text \<open>
  \<open>services/tools/approval.py\<close>: recording one approver's decision, counting distinct
  approvers, and the final gate's reading of the approvals.  The row a decision was read from
  may be older than the store it is written to.
\<close>

record settings =
  set_environment :: string
  set_allow_self_approval :: bool
  set_lease_milli :: int

section \<open>Checks, against the invocation's own snapshot\<close>

definition check_state :: "invocation \<Rightarrow> tool_error + unit" where
  "check_state r = require (inv_state r = AWAITING_APPROVAL) ToolPolicyDeniedError"

definition check_envelope :: "invocation \<Rightarrow> string \<Rightarrow> tool_error + unit" where
  "check_envelope r stated =
     require (stated = s_envelope_digest (inv_snap r)) ApprovalEnvelopeMismatchError"

text \<open>The strings of a JSON array; anything else contributes none.\<close>

definition json_strings :: "json option \<Rightarrow> string list" where
  "json_strings v = (case v of
     Some (JArr xs) \<Rightarrow> concat (map (\<lambda>x. case x of JStr s \<Rightarrow> [s] | _ \<Rightarrow> []) xs) | _ \<Rightarrow> [])"

definition check_authority :: "invocation \<Rightarrow> principal \<Rightarrow> tool_error + unit" where
  "check_authority r p =
    (let allowed = json_strings (jget (s_approval_policy (inv_snap r)) ''approver_roles'');
         held = map role_value (effective_roles (p_roles p)) in
     require (list_ex (\<lambda>role. role \<in> set held) allowed) ToolAuthorizationError)"

definition self_approval_permitted_by :: "invocation \<Rightarrow> bool" where
  "self_approval_permitted_by r =
     (jget (s_approval_policy (inv_snap r)) ''self_approval_permitted'' = Some (JBool True))"

definition derive_self_approval :: "settings \<Rightarrow> invocation \<Rightarrow> principal \<Rightarrow> tool_error + bool" where
  "derive_self_approval cfg r p =
    (if p_subject p \<noteq> af_subject (s_principal (inv_snap r)) then Inr False
     else andThen (require (set_allow_self_approval cfg \<and> self_approval_permitted_by r)
                     SelfApprovalForbiddenError) (\<lambda>_. Inr True))"

definition check_decision ::
  "settings \<Rightarrow> invocation \<Rightarrow> principal \<Rightarrow> string \<Rightarrow> tool_error + bool" where
  "check_decision cfg r p stated =
     andThen (check_state r) (\<lambda>_.
     andThen (check_envelope r stated) (\<lambda>_.
     andThen (check_authority r p) (\<lambda>_.
     derive_self_approval cfg r p)))"

section \<open>Recording a decision\<close>

definition new_approval ::
  "int \<Rightarrow> invocation \<Rightarrow> principal \<Rightarrow> approval_decision \<Rightarrow> string \<Rightarrow> bool \<Rightarrow> uuid \<Rightarrow> approval" where
  "new_approval now r p decision justification self_approval new_id =
     \<lparr>app_id = new_id, app_invocation = inv_id r, app_decision = decision,
      app_envelope_digest = s_envelope_digest (inv_snap r),
      app_requester = af_subject (s_principal (inv_snap r)), app_approver = p_subject p,
      app_approver_type = principal_type_value (p_type p), app_approver_issuer = p_issuer p,
      app_approver_auth = auth_method_value (p_auth_method p), app_self_approval = self_approval,
      app_justification = justification, app_decided_at = now,
      app_expires_at = now + 1000 * s_ttl_seconds (inv_snap r)\<rparr>"

text \<open>The distinct-approver index is the one violation that gets an answer of its own.\<close>

definition insert_decision ::
  "int \<Rightarrow> invocation \<Rightarrow> principal \<Rightarrow> approval_decision \<Rightarrow> string \<Rightarrow> bool \<Rightarrow> store \<Rightarrow> approval run" where
  "insert_decision now r p decision justification self_approval st =
    (case insert_approval (new_approval now r p decision justification self_approval) st of
       Inl (IntegrityError c) \<Rightarrow>
         if c = ''uq_tool_approval_distinct'' then Inl (ToolErr DuplicateApprovalError)
         else Inl (IntegrityError c)
     | Inl e \<Rightarrow> Inl e
     | Inr x \<Rightarrow> Inr x)"

definition count_and_advance :: "int \<Rightarrow> invocation \<Rightarrow> principal \<Rightarrow> store \<Rightarrow> invocation run" where
  "count_and_advance now r p st =
    (let approved = int (approver_count (inv_id r) st);
         received = min approved (s_min_approvals (inv_snap r)) in
     andThen (update_invocation (inv_id r) anything (\<lambda>c. c\<lparr>approvals_received := received\<rparr>) st)
       (\<lambda>(hit, st1).
     let r1 = r\<lparr>inv_cols := (inv_cols r)\<lparr>approvals_received := received\<rparr>\<rparr> in
     if approved < s_min_approvals (inv_snap r) then Inr (r1, st1)
     else
       andThen (transition now r1 APPROVED (reason_value PR_ALLOWED) (Some (p_subject p))
                  [(''approvals'', JInt approved)] anything (\<lambda>c. c\<lparr>approved_at := Some now\<rparr>) st1)
         (\<lambda>(r2, st2).
       transition now r2 READY (reason_value PR_ALLOWED) (Some (p_subject p)) [] anything
         (\<lambda>c. c) st2)))"

definition audit_decision :: "invocation \<Rightarrow> principal \<Rightarrow> approval \<Rightarrow> store \<Rightarrow> store" where
  "audit_decision r p a st = audit_record (audit_event ''tool.approve''
     (if app_decision a = DECIDED_APPROVED then AUDIT_SUCCESS else AUDIT_DENIED)
     (if app_self_approval a then AUDIT_CRITICAL else AUDIT_NOTICE) r
     [(''decision'', JStr (approval_decision_value (app_decision a))),
      (''self_approval'', JBool (app_self_approval a)),
      (''approved_envelope_digest'', JStr (app_envelope_digest a)),
      (''state'', JStr (state_value (inv_state r)))] p) st"

definition record_decision ::
  "int \<Rightarrow> invocation \<Rightarrow> principal \<Rightarrow> approval_decision \<Rightarrow> string \<Rightarrow> bool \<Rightarrow> store \<Rightarrow> approval run" where
  "record_decision now r p decision justification self_approval st =
     andThen (insert_decision now r p decision justification self_approval st) (\<lambda>(a, st1).
     andThen (if decision = DECIDED_DENIED
              then transition now r DENIED (reason_value PR_APPROVAL_MISSING) (Some (p_subject p))
                     [(''decision'', JStr (approval_decision_value decision))] anything (\<lambda>c. c) st1
              else count_and_advance now r p st1) (\<lambda>(r2, st2).
     Inr (a, audit_decision r2 p a st2)))"

definition audit_refused :: "invocation \<Rightarrow> principal \<Rightarrow> tool_error \<Rightarrow> store \<Rightarrow> store" where
  "audit_refused r p e st = record_denial (audit_event ''tool.approve'' AUDIT_DENIED
     (if e = SelfApprovalForbiddenError then AUDIT_CRITICAL else AUDIT_WARNING) r
     [(''error'', JStr (error_name e)), (''state'', JStr (state_value (inv_state r)))] p) st"

text \<open>
  \<open>decide\<close> on the row \<open>r\<close> that was read: a refusal is recorded on its own connection and raised,
  anything else is one session.
\<close>

definition decide_on ::
  "settings \<Rightarrow> int \<Rightarrow> invocation \<Rightarrow> principal \<Rightarrow> approval_decision \<Rightarrow> string \<Rightarrow> string \<Rightarrow> store \<Rightarrow>
   (acop_error + approval) \<times> store" where
  "decide_on cfg now r p decision justification stated st =
    (case check_decision cfg r p stated of
       Inl e \<Rightarrow> (Inl (ToolErr e), audit_refused r p e st)
     | Inr self_approval \<Rightarrow>
         session (record_decision now r p decision justification self_approval st) st)"

definition decide ::
  "settings \<Rightarrow> int \<Rightarrow> uuid \<Rightarrow> principal \<Rightarrow> approval_decision \<Rightarrow> string \<Rightarrow> string \<Rightarrow> store \<Rightarrow>
   (acop_error + approval) \<times> store" where
  "decide cfg now i p decision justification stated st = (case get_invocation i st of
     None \<Rightarrow> (Inl (ToolErr ToolNotFoundError), st)
   | Some r \<Rightarrow> decide_on cfg now r p decision justification stated st)"

section \<open>The final gate's view\<close>

definition approved_rows :: "uuid \<Rightarrow> store \<Rightarrow> approval list" where
  "approved_rows i st =
     filter (\<lambda>a. app_invocation a = i \<and> app_decision a = DECIDED_APPROVED) (approvals st)"

definition approval_failure :: "invocation \<Rightarrow> approval list \<Rightarrow> int \<Rightarrow> policy_reason option" where
  "approval_failure r rows moment =
    (let live = filter (\<lambda>a. moment < app_expires_at a) rows in
     if \<not> s_approval_required (inv_snap r) then None
     else if rows = [] then Some PR_APPROVAL_MISSING
     else if list_ex (\<lambda>a. app_envelope_digest a \<noteq> s_envelope_digest (inv_snap r)) rows
       then Some PR_APPROVAL_ENVELOPE_MISMATCH
     else if length live < length rows then Some PR_APPROVAL_EXPIRED
     else if int (length (remdups (map app_approver live))) < s_min_approvals (inv_snap r)
       then Some PR_APPROVAL_MISSING
     else None)"

section \<open>Approvals keep the invariant\<close>

definition add_approval :: "approval \<Rightarrow> store \<Rightarrow> store" where
  "add_approval a st = st\<lparr>approvals := approvals st @ [a], next_id := Suc (next_id st)\<rparr>"

lemma add_approval_frame [simp]:
  "events (add_approval a st) = events st" "invocations (add_approval a st) = invocations st"
  "reconciliations (add_approval a st) = reconciliations st" "audits (add_approval a st) = audits st"
  "registrations (add_approval a st) = registrations st" "assets (add_approval a st) = assets st"
  "identifiers (add_approval a st) = identifiers st" "denials (add_approval a st) = denials st"
  "approvals (add_approval a st) = approvals st @ [a]"
  "next_id (add_approval a st) = Suc (next_id st)"
  "events_of i (add_approval a st) = events_of i st"
  "get_invocation i (add_approval a st) = get_invocation i st"
  "snapshots (add_approval a st) = snapshots st"
  by (simp_all add: add_approval_def events_of_def get_invocation_def snapshots_def)

lemma approver_count_add: "approver_count i st \<le> approver_count i (add_approval a st)"
  by (simp add: approver_count_def length_remdups_card_conv card_insert_le)

lemma entered_add_approval: "entered st r \<Longrightarrow> entered (add_approval a st) r"
  using approver_count_add [of "inv_id r" st a] by (auto simp: entered_def)

lemma invocation_checks_add_approval:
  "invocation_checks (add_approval a st) r = invocation_checks st r"
  by (rule invocation_checks_cong) simp_all

lemma insert_approval_ok:
  assumes ok: "store_ok st" and q: "get_invocation (app_invocation a) st = Some q"
    and snap: "app_requester a = af_subject (s_principal (inv_snap q))"
      "app_envelope_digest a = s_envelope_digest (inv_snap q)"
      "app_self_approval a \<Longrightarrow>
         jget (s_approval_policy (inv_snap q)) ''self_approval_permitted'' = Some (JBool True)"
    and checks: "\<forall>c \<in> set (approval_checks st a). snd c"
  shows "store_ok (add_approval a st) \<and> evolves st (add_approval a st)"
proof
  have mem: "q \<in> set (invocations st)" "inv_id q = app_invocation a"
    using get_invocationD [OF q] by blast+
  have separate: "app_approver a \<noteq> app_requester a \<or> app_self_approval a"
    and unique: "app_decision a \<noteq> DECIDED_APPROVED \<or> \<not> list_ex (\<lambda>a'. app_invocation a' = app_invocation a \<and>
        app_approver a' = app_approver a \<and> app_decision a' = DECIDED_APPROVED) (approvals st)"
    using checks by (auto simp: approval_checks_def)
  have "(app_invocation a, inv_snap q) \<in> set (snapshots st)"
    using mem by (force simp: snapshots_def)
  then have "approval_ok st a"
    using snap separate unfolding approval_ok_def by blast
  then have "approval_ok (add_approval a st) x" if "x \<in> set (approvals (add_approval a st))" for x
    using that store_okD(6) [OF ok, of x] by (auto simp: approval_ok_cong [of "add_approval a st" st])
  moreover have "distinct (map approved_by (approved_list (add_approval a st)))"
    using store_okD(7) [OF ok] unique
    by (auto simp: approved_list_def approved_by_def list_ex_iff)
  moreover have "inv_id r < next_id (add_approval a st) \<and> history_ok (add_approval a st) r \<and>
      entered (add_approval a st) r \<and> (\<forall>c \<in> set (invocation_checks (add_approval a st) r). snd c)"
    if "r \<in> set (invocations st)" for r
    using store_okD(2,3,8) [OF ok that] store_okD(4) [OF ok that]
    by (simp add: invocation_checks_add_approval entered_add_approval history_ok_def)
  ultimately show "store_ok (add_approval a st)"
    using store_okD(1,5) [OF ok] unfolding store_ok_def add_approval_frame by blast
  show "evolves st (add_approval a st)" by (simp add: evolves_def)
qed

definition faithful_copy :: "invocation \<Rightarrow> store \<Rightarrow> bool" where
  "faithful_copy r st \<longleftrightarrow> (\<exists>q. get_invocation (inv_id r) st = Some q \<and> inv_snap q = inv_snap r)"

lemma faithful_copy_evolves: "faithful_copy r st \<Longrightarrow> evolves st st' \<Longrightarrow> faithful_copy r st'"
  unfolding faithful_copy_def evolves_def row_evolves_def by metis

lemma insert_decision_shape:
  assumes "insert_decision now r p decision justification self_approval st = Inr (a, st')"
  shows "a = new_approval now r p decision justification self_approval (next_id st) \<and>
    st' = add_approval a st \<and> (\<forall>c \<in> set (approval_checks st a). snd c)"
proof -
  have "insert_approval (new_approval now r p decision justification self_approval) st = Inr (a, st')"
    using assms by (auto simp: insert_decision_def split: sum.splits acop_error.splits if_splits)
  then have "a = new_approval now r p decision justification self_approval (next_id st)"
    and "st' = add_approval a st" and "\<exists>u. enforce (approval_checks st a) = Inr u"
    by (auto simp: insert_approval_def Let_def andThen_eq_Inr add_approval_def)
  then show ?thesis unfolding enforce_Inr by blast
qed

lemma insert_decision_upholds:
  assumes "faithful_copy r st" and "self_approval \<Longrightarrow> self_approval_permitted_by r"
  shows "upholds store_ok evolves st (insert_decision now r p decision justification self_approval st)"
  unfolding upholds_def
proof (intro impI allI)
  fix a st' assume ok: "store_ok st"
    and "insert_decision now r p decision justification self_approval st = Inr (a, st')"
  note shape = insert_decision_shape [OF this(2)]
  from assms(1) obtain q where "get_invocation (inv_id r) st = Some q" "inv_snap q = inv_snap r"
    unfolding faithful_copy_def by blast
  then have "store_ok (add_approval a st) \<and> evolves st (add_approval a st)"
    using ok shape assms(2)
    by (intro insert_approval_ok [of st a q])
      (auto simp: new_approval_def self_approval_permitted_by_def)
  with shape show "store_ok st' \<and> evolves st st'" by simp
qed

lemma entered_columns:
  assumes "entered st r" and "state (f (inv_cols r)) = inv_state r"
    and "final_gate_decision (f (inv_cols r)) = final_gate_decision (inv_cols r)"
  shows "entered st (r\<lparr>inv_cols := f (inv_cols r)\<rparr>)"
  using assms by (simp add: entered_def)

lemma update_columns_upholds:
  assumes "\<And>c. state (f c) = state c" and "\<And>c. final_gate_decision (f c) = final_gate_decision c"
  shows "upholds store_ok evolves st (update_invocation i p f st)"
  unfolding upholds_def
proof (intro impI allI)
  fix hit st' assume ok: "store_ok st" and run: "update_invocation i p f st = Inr (hit, st')"
  from run show "store_ok st' \<and> evolves st st'"
  proof (cases rule: update_invocation_cases)
    case (won r)
    have "r \<in> set (invocations st)" using get_invocationD [OF won(2)] by simp
    from entered_columns [OF store_okD(8) [OF ok this]] assms
    have "entered st (r\<lparr>inv_cols := f (inv_cols r)\<rparr>)" by blast
    then show ?thesis
      unfolding won(5) by (intro upd_same_ok [OF ok won(2)]) (rule won(4), simp add: assms(1))
  next
    case lost
    with ok show ?thesis by simp
  qed
qed

lemma faithful_copyD:
  assumes "faithful_copy r st"
  obtains q where "get_invocation (inv_id r) st = Some q" and "inv_snap q = inv_snap r"
  using assms unfolding faithful_copy_def by blast

lemma update_invocation_approvals:
  "update_invocation i p f st = Inr (hit, st') \<Longrightarrow> approvals st' = approvals st"
  by (erule update_invocation_cases) simp_all

lemma transition_state:
  assumes "transition now held to reason actor detail expected columns st = Inr (fresh, st')"
    and "keeps_state columns"
  shows "inv_state fresh = to \<and> inv_id fresh = inv_id held"
proof -
  from assms(1) have "transition_cas now held to reason actor detail expected columns st =
      Inr ((True, fresh), st')"
    by (auto simp: transition_def andThen_eq_Inr split: if_splits)
  from this keeps_stateD [OF assms(2)] show ?thesis
  proof (cases rule: transition_cas_cases)
    case (won q e)
    with get_invocationD [OF won(2)] show ?thesis by (simp add: keeps_stateD [OF assms(2)])
  qed simp
qed

lemma count_and_advance_upholds:
  assumes "faithful_copy r st"
  shows "upholds store_ok evolves st (count_and_advance now r p st)"
proof (cases "store_ok st")
  case True
  let ?received = "min (int (approver_count (inv_id r) st)) (s_min_approvals (inv_snap r))"
  let ?f = "\<lambda>c. c\<lparr>approvals_received := ?received\<rparr>"
  have up: "upholds store_ok evolves st (update_invocation (inv_id r) anything ?f st)"
    by (rule update_columns_upholds) simp_all
  show ?thesis
    unfolding count_and_advance_def Let_def
  proof (rule tool_store.upholds_bind [OF up], goal_cases)
    case (1 hit st1)
    have copy: "faithful_copy r st1"
      using faithful_copy_evolves [OF assms] upholdsD [OF up True 1] by blast
    have same: "approver_count (inv_id r) st1 = approver_count (inv_id r) st"
      using update_invocation_approvals [OF 1] by (simp add: approver_count_def)
    show ?case
    proof (cases "int (approver_count (inv_id r) st) < s_min_approvals (inv_snap r)")
      case True
      then show ?thesis by simp
    next
      case False
      then have "entry_condition st1 s APPROVED (inv_id r)" for s
        using copy same unfolding entry_condition_def faithful_copy_def by auto
      moreover have "keeps_state (\<lambda>c. c\<lparr>approved_at := Some now\<rparr>)" by (simp add: keeps_state_def)
      ultimately show ?thesis
        using False
        by (auto intro!: tool_store.upholds_bind upholds_intros
            simp: transition_state)
    qed
  qed
qed (simp add: upholds_def)

lemma record_decision_upholds:
  assumes "faithful_copy r st" and "self_approval \<Longrightarrow> self_approval_permitted_by r"
  shows "upholds store_ok evolves st (record_decision now r p decision justification self_approval st)"
proof (cases "store_ok st")
  case True
  have up: "upholds store_ok evolves st
      (insert_decision now r p decision justification self_approval st)"
    by (rule insert_decision_upholds) (use assms in auto)
  show ?thesis
    unfolding record_decision_def
  proof (rule tool_store.upholds_bind [OF up], goal_cases)
    case (1 a st1)
    have "faithful_copy r st1"
      using faithful_copy_evolves [OF assms(1)] upholdsD [OF up True 1] by blast
    then show ?case
      unfolding audit_decision_def
      by (auto intro!: tool_store.upholds_bind upholds_intros count_and_advance_upholds)
  qed
qed (simp add: upholds_def)

lemma check_decision_Inr:
  "check_decision cfg r p stated = Inr self_approval \<longleftrightarrow>
     inv_state r = AWAITING_APPROVAL \<and> stated = s_envelope_digest (inv_snap r) \<and>
     check_authority r p = Inr () \<and> derive_self_approval cfg r p = Inr self_approval"
  by (auto simp: check_decision_def check_state_def check_envelope_def andThen_eq_Inr)

lemma derive_self_approval_Inr:
  "derive_self_approval cfg r p = Inr b \<longleftrightarrow>
     b = (p_subject p = af_subject (s_principal (inv_snap r))) \<and>
     (b \<longrightarrow> set_allow_self_approval cfg \<and> self_approval_permitted_by r)"
  by (auto simp: derive_self_approval_def andThen_eq_Inr)

lemma record_denial_ok: "store_ok st \<Longrightarrow> store_ok (record_denial a st) \<and> evolves st (record_denial a st)"
proof -
  have get: "get_invocation i (record_denial a st) = get_invocation i st" for i
    by (simp add: get_invocation_def record_denial_def)
  have "history_ok (record_denial a st) r = history_ok st r" for r
    by (simp add: history_ok_def events_of_def record_denial_def)
  moreover have "invocation_checks (record_denial a st) r = invocation_checks st r" for r
    by (rule invocation_checks_cong) (simp_all add: record_denial_def)
  moreover have "approval_ok (record_denial a st) x = approval_ok st x" for x
    by (simp add: approval_ok_def snapshots_def record_denial_def)
  moreover have "entered (record_denial a st) r = entered st r" for r
    by (simp add: entered_def approver_count_def record_denial_def)
  moreover have "evolves st (record_denial a st)"
    unfolding evolves_def get by (simp add: record_denial_def)
  ultimately show "store_ok st \<Longrightarrow> store_ok (record_denial a st) \<and> evolves st (record_denial a st)"
    unfolding store_ok_def by (simp add: record_denial_def approved_list_def)
qed

lemma decide_on_ok:
  assumes "store_ok st" and "faithful_copy r st"
    and "decide_on cfg now r p decision justification stated st = (res, st')"
  shows "store_ok st' \<and> evolves st st'"
proof (cases "check_decision cfg r p stated")
  case (Inl e)
  with assms(1,3) record_denial_ok show ?thesis by (auto simp: decide_on_def audit_refused_def)
next
  case (Inr b)
  then have "b \<Longrightarrow> self_approval_permitted_by r"
    by (simp add: check_decision_Inr derive_self_approval_Inr)
  from session_upholds [OF record_decision_upholds [OF assms(2) this] assms(1)] assms(3) Inr
  show ?thesis by (simp add: decide_on_def)
qed

text \<open>
  Deciding keeps the store acceptable and only lets it evolve, even when the row the
  decision was checked against is an outdated copy of the one that is stored.
\<close>

theorem decide_keeps_store:
  assumes "store_ok st" and "faithful_copy r st"
  shows "store_ok (snd (decide_on cfg now r p decision justification stated st)) \<and>
         evolves st (snd (decide_on cfg now r p decision justification stated st))"
  using decide_on_ok [OF assms] by (metis prod.collapse)

text \<open>
  In every acceptable store an approval is bound to the digest of the invocation it names,
  was given by somebody other than the requester unless the invocation's own policy permits
  self-approval, and no person has approved the same invocation twice.
\<close>

theorem approvals_are_sound:
  assumes "store_ok st" and "a \<in> set (approvals st)"
  shows "(\<exists>r \<in> set (invocations st). inv_id r = app_invocation a \<and>
       app_envelope_digest a = s_envelope_digest (inv_snap r) \<and>
       app_requester a = af_subject (s_principal (inv_snap r)) \<and>
       (app_approver a \<noteq> af_subject (s_principal (inv_snap r)) \<or> self_approval_permitted_by r)) \<and>
     (app_decision a \<noteq> DECIDED_APPROVED \<or>
      length (filter (\<lambda>b. app_decision b = DECIDED_APPROVED \<and> approved_by b = approved_by a)
        (approvals st)) = 1)"
proof
  show "\<exists>r \<in> set (invocations st). inv_id r = app_invocation a \<and>
       app_envelope_digest a = s_envelope_digest (inv_snap r) \<and>
       app_requester a = af_subject (s_principal (inv_snap r)) \<and>
       (app_approver a \<noteq> af_subject (s_principal (inv_snap r)) \<or> self_approval_permitted_by r)"
    using store_okD(6) [OF assms]
    unfolding approval_ok_def snapshots_def self_approval_permitted_by_def by fastforce
  have once: "length (filter (\<lambda>b. f b = f x) xs) = 1" if "distinct (map f xs)" "x \<in> set xs"
    for f :: "approval \<Rightarrow> uuid \<times> string" and x xs
    using that by (induction xs) (auto simp: filter_empty_conv image_iff)
  show "app_decision a \<noteq> DECIDED_APPROVED \<or>
      length (filter (\<lambda>b. app_decision b = DECIDED_APPROVED \<and> approved_by b = approved_by a)
        (approvals st)) = 1"
    using once [OF store_okD(7) [OF assms(1)], of a] assms(2)
    by (auto simp: approved_list_def conj_commute)
qed

section \<open>What an approval does\<close>

text \<open>With the distinct-approver index, counting approvers is counting approvals.\<close>

lemma approver_count_rows:
  assumes "store_ok st"
  shows "approver_count i st = length (approved_rows i st)"
proof -
  have "distinct (map approved_by (filter (\<lambda>a. app_invocation a = i) (approved_list st)))"
    using store_okD(7) [OF assms] by (simp add: distinct_map inj_on_def)
  moreover have "filter (\<lambda>a. app_invocation a = i) (approved_list st) = approved_rows i st"
    by (simp add: approved_list_def approved_rows_def conj_commute)
  ultimately have "distinct (map approved_by (approved_rows i st))" by simp
  then have "distinct (map app_approver (approved_rows i st))"
    by (auto simp: distinct_map inj_on_def approved_by_def approved_rows_def)
  then show ?thesis
    by (simp add: approver_count_def approved_rows_def distinct_remdups_id)
qed

lemma approved_rows_add:
  "approved_rows i (add_approval a st) = approved_rows i st @
     (if app_invocation a = i \<and> app_decision a = DECIDED_APPROVED then [a] else [])"
  by (simp add: approved_rows_def)

lemma approver_count_insert:
  assumes "store_ok st" and "store_ok (add_approval a st)"
    and "app_invocation a = i" and "app_decision a = DECIDED_APPROVED"
  shows "approver_count i (add_approval a st) = Suc (approver_count i st)"
  using assms by (simp add: approver_count_rows approved_rows_add)

lemma transition_approvals:
  assumes "transition now held to reason actor detail expected columns st = Inr (fresh, st')"
    and "keeps_state columns"
  shows "approvals st' = approvals st"
proof -
  from assms(1) have "transition_cas now held to reason actor detail expected columns st =
      Inr ((True, fresh), st')"
    by (auto simp: transition_def andThen_eq_Inr split: if_splits)
  from this keeps_stateD [OF assms(2)] show ?thesis by (cases rule: transition_cas_cases) simp_all
qed

lemma count_and_advance_result:
  assumes run: "count_and_advance now r p st = Inr (fresh, st')"
    and get: "get_invocation (inv_id r) st = Some r" and "inv_state r = AWAITING_APPROVAL"
  shows "\<exists>r'. get_invocation (inv_id r) st' = Some r' \<and> approvals st' = approvals st \<and>
    inv_state r' = (if s_min_approvals (inv_snap r) \<le> int (approver_count (inv_id r) st)
                    then READY else AWAITING_APPROVAL)"
proof -
  define received where "received = min (int (approver_count (inv_id r) st)) (s_min_approvals (inv_snap r))"
  let ?f = "\<lambda>c. c\<lparr>approvals_received := received\<rparr>"
  define r1 where "r1 = r\<lparr>inv_cols := ?f (inv_cols r)\<rparr>"
  from run obtain hit st1 where upd: "update_invocation (inv_id r) anything ?f st = Inr (hit, st1)"
    and rest: "(if int (approver_count (inv_id r) st) < s_min_approvals (inv_snap r) then Inr (r1, st1)
      else andThen (transition now r1 APPROVED (reason_value PR_ALLOWED) (Some (p_subject p))
             [(''approvals'', JInt (int (approver_count (inv_id r) st)))] anything
             (\<lambda>c. c\<lparr>approved_at := Some now\<rparr>) st1) (\<lambda>(r2, st2).
           transition now r2 READY (reason_value PR_ALLOWED) (Some (p_subject p)) [] anything
             (\<lambda>c. c) st2)) = Inr (fresh, st')"
    unfolding count_and_advance_def Let_def received_def [symmetric] r1_def [symmetric]
    by (auto simp: andThen_eq_Inr simp del: reason_value.simps)
  have st1: "st1 = upd_cols (inv_id r) ?f st"
    using upd get by (cases rule: update_invocation_cases) (auto simp: anything_def)
  then have get1: "get_invocation (inv_id r) st1 = Some r1"
    using get by (simp add: get_upd_cols r1_def)
  have id1: "inv_id r1 = inv_id r" by (simp add: r1_def)
  show ?thesis
  proof (cases "int (approver_count (inv_id r) st) < s_min_approvals (inv_snap r)")
    case True
    with rest have "st' = st1" by simp
    with True get1 assms(3) show ?thesis by (auto simp: r1_def st1)
  next
    case False
    with rest obtain r2 st2 where
      t1: "transition now r1 APPROVED (reason_value PR_ALLOWED) (Some (p_subject p))
        [(''approvals'', JInt (int (approver_count (inv_id r) st)))] anything
        (\<lambda>c. c\<lparr>approved_at := Some now\<rparr>) st1 = Inr (r2, st2)"
      and t2: "transition now r2 READY (reason_value PR_ALLOWED) (Some (p_subject p)) [] anything
        (\<lambda>c. c) st2 = Inr (fresh, st')"
      by (auto simp: andThen_eq_Inr simp del: reason_value.simps)
    have keep: "keeps_state (\<lambda>c. c\<lparr>approved_at := Some now\<rparr>)" by (simp add: keeps_state_def)
    from transition_fresh [OF t1 keep] get1 id1
    have r2: "get_invocation (inv_id r) st2 = Some r2" "inv_id r2 = inv_id r" by auto
    from transition_fresh [OF t2 keeps_state_id] r2
    have "get_invocation (inv_id r) st' = Some fresh" "inv_state fresh = READY" by auto
    moreover have "approvals st' = approvals st"
      using transition_approvals [OF t1 keep] transition_approvals [OF t2 keeps_state_id] st1 by simp
    ultimately show ?thesis using False by simp
  qed
qed

text \<open>
  An approval is recorded only on an invocation that is awaiting one, against the digest
  the approver stated, by somebody with authority under the invocation's own policy who is not
  its requester unless settings and policy both permit it.  It adds exactly one distinct
  approver, and it moves the invocation to \<open>READY\<close> exactly when that meets the threshold.
\<close>

theorem approval_advances_at_threshold:
  assumes "store_ok st" and "get_invocation i st = Some r"
    and "decide cfg now i p DECIDED_APPROVED justification stated st = (Inr a, st')"
  shows "inv_state r = AWAITING_APPROVAL \<and> stated = s_envelope_digest (inv_snap r) \<and>
     check_authority r p = Inr () \<and>
     (p_subject p \<noteq> af_subject (s_principal (inv_snap r)) \<or>
      set_allow_self_approval cfg \<and> self_approval_permitted_by r) \<and>
     approvals st' = approvals st @ [a] \<and> app_approver a = p_subject p \<and>
     approver_count i st' = Suc (approver_count i st) \<and>
     (\<exists>r'. get_invocation i st' = Some r' \<and>
        inv_state r' = (if s_min_approvals (inv_snap r) \<le> int (Suc (approver_count i st))
                        then READY else AWAITING_APPROVAL))"
proof -
  have id: "inv_id r = i" using get_invocationD [OF assms(2)] by simp
  have copy: "faithful_copy r st" unfolding faithful_copy_def using assms(2) id by blast
  from assms(2,3) obtain b where check: "check_decision cfg r p stated = Inr b"
    and run: "record_decision now r p DECIDED_APPROVED justification b st = Inr (a, st')"
    by (auto simp: decide_def decide_on_def session_def split: sum.splits)
  note chk = check [unfolded check_decision_Inr derive_self_approval_Inr]
  from run obtain st1 fresh st2 where
    ins: "insert_decision now r p DECIDED_APPROVED justification b st = Inr (a, st1)"
    and adv: "count_and_advance now r p st1 = Inr (fresh, st2)"
    and st': "st' = audit_decision fresh p a st2"
    by (auto simp: record_decision_def andThen_eq_Inr)
  note shape = insert_decision_shape [OF ins]
  have perm: "b \<Longrightarrow> self_approval_permitted_by r" using chk by blast
  have "upholds store_ok evolves st (insert_decision now r p DECIDED_APPROVED justification b st)"
    by (rule insert_decision_upholds [OF copy]) (rule perm)
  from upholdsD [OF this assms(1) ins] have ok1: "store_ok st1" by simp
  have a: "app_invocation a = i" "app_decision a = DECIDED_APPROVED" "app_approver a = p_subject p"
    using shape id by (simp_all add: new_approval_def)
  have count: "approver_count i st1 = Suc (approver_count i st)"
    using approver_count_insert [OF assms(1) _ a(1,2)] ok1 shape by simp
  have get1: "get_invocation (inv_id r) st1 = Some r" using assms(2) shape id by simp
  from count_and_advance_result [OF adv get1] chk obtain r' where
    r': "get_invocation i st2 = Some r'" "approvals st2 = approvals st1"
      "inv_state r' = (if s_min_approvals (inv_snap r) \<le> int (approver_count i st1)
                       then READY else AWAITING_APPROVAL)"
    using id by auto
  moreover have "approvals st' = approvals st2" "get_invocation j st' = get_invocation j st2" for j
    by (simp_all add: st' audit_decision_def audit_record_def get_invocation_def)
  moreover have "approver_count i st' = approver_count i st1"
    using r'(2) by (simp add: approver_count_def st' audit_decision_def audit_record_def)
  ultimately show ?thesis
    using chk count shape a(3) by auto
qed

end
