(* ===== verification/Sanitize.thy ===== *)
theory Sanitize
  imports Envelope
begin

text \<open>
  \<open>services/tools/sanitize.py\<close>: the one way an adapter's report becomes storable.  The log
  lines about dropped and suspicious fields are left out.
\<close>

definition sanitize_output ::
  "(string \<Rightarrow> string) \<Rightarrow> tool_definition \<Rightarrow> jobj \<Rightarrow> jobj \<times> string" where
  "sanitize_output sha256 d payload =
    (let permitted = sorted_unique (effective_output_fields d);
         clean = concat (map (\<lambda>name. case jget payload name of
                   None \<Rightarrow> [] | Some v \<Rightarrow> [(name, v)]) permitted);
         redacted = redact_obj clean in
     (redacted, digest_of sha256 (JObj redacted)))"

lemma redact_at_obj_members:
  "redact_obj kvs = map (\<lambda>kv. (fst kv, if is_sensitive_key (fst kv) then JStr REDACTED
     else redact_at (MAX_DEPTH - 1) (snd kv))) kvs"
  by (simp add: redact_obj_def redact_def MAX_DEPTH_def numeral_eq_Suc)

lemma clean_members:
  "(k, v) \<in> set (concat (map (\<lambda>name. case jget payload name of None \<Rightarrow> [] | Some v \<Rightarrow> [(name, v)]) names))
   \<longleftrightarrow> k \<in> set names \<and> jget payload k = Some v"
  by (auto split: option.splits)

text \<open>
  What is stored of an adapter's report holds no field outside the tool's allow-list and
  only fields the adapter reported, in one canonical order, and its digest is the digest of
  exactly what is stored; under a sensitive name it holds nothing but the redaction marker.
\<close>

theorem sanitized_output_allow_listed:
  "(\<forall>(k, v) \<in> set (fst (sanitize_output sha256 d payload)).
      k \<in> set (effective_output_fields d) \<and>
      (\<exists>w. jget payload k = Some w \<and>
         v = (if is_sensitive_key k then JStr REDACTED else redact_at (MAX_DEPTH - 1) w))) \<and>
   masked (JObj (fst (sanitize_output sha256 d payload))) \<and>
   snd (sanitize_output sha256 d payload) =
     digest_of sha256 (JObj (fst (sanitize_output sha256 d payload)))"
proof -
  define names where "names = sorted_unique (effective_output_fields d)"
  define clean where "clean = concat (map (\<lambda>name. case jget payload name of
      None \<Rightarrow> [] | Some v \<Rightarrow> [(name, v)]) names)"
  have out: "fst (sanitize_output sha256 d payload) = redact_obj clean"
    "snd (sanitize_output sha256 d payload) = digest_of sha256 (JObj (redact_obj clean))"
    by (simp_all add: sanitize_output_def Let_def clean_def names_def)
  have members: "(k, w) \<in> set clean \<longleftrightarrow> k \<in> set (effective_output_fields d) \<and> jget payload k = Some w"
    for k w
    unfolding clean_def clean_members by (simp add: names_def)
  have "masked (redact (JObj clean))" unfolding redact_def by (rule masked_redact_at)
  then have "masked (JObj (redact_obj clean))" by (simp add: redact_JObj)
  moreover have "k \<in> set (effective_output_fields d) \<and> (\<exists>w. jget payload k = Some w \<and>
      v = (if is_sensitive_key k then JStr REDACTED else redact_at (MAX_DEPTH - 1) w))"
    if "(k, v) \<in> set (redact_obj clean)" for k v
    using that members unfolding redact_at_obj_members by auto
  ultimately show ?thesis unfolding out by blast
qed

end
