(* ===== verification/Dispatcher.thy ===== *)
theory Dispatcher
  imports Approval Sanitize
begin

text \<open>
  \<open>services/tools/dispatcher.py\<close> and the request types of \<open>tools/adapters/base.py\<close>: claim,
  final gate, adapter, validation.  Adapters are parameters, a function of the request and of
  the number of the call.  Every call is logged in the result, so that what an adapter was
  asked to do stays visible when the transaction that asked is rolled back.

  \<open>record_final_gate_if_owned\<close> is an \<open>UPDATE\<close>, so from there on the row is locked until the
  transaction ends, and one store stands for the database; before it, the row a worker read
  may be outdated.
\<close>

section \<open>Adapters\<close>

record resolved_target =
  rt_kind :: target_kind
  rt_asset_id :: "uuid option"
  rt_display_name :: string
  rt_asset_type :: string
  rt_identifiers :: "string \<rightharpoonup> string"
  rt_external_ref :: jobj

record adapter_request =
  ar_invocation_id :: uuid
  ar_tool_name :: string
  ar_tool_version :: string
  ar_target :: resolved_target
  ar_payload :: jobj
  ar_timeout_milli :: int
  ar_attempt :: nat

text \<open>
  What the dispatcher sees of one awaited call: a result with outcome, payload and rollback
  hint, the deadline elapsing, a classified error, or any other exception.
\<close>

datatype adapter_reply =
  Returned adapter_outcome jobj jobj
| TimedOut
| RaisedTool tool_error
| RaisedOther

record adapter =
  ad_execute :: "nat \<Rightarrow> adapter_request \<Rightarrow> adapter_reply"
  ad_validate :: "adapter_request \<Rightarrow> adapter_reply"

datatype adapter_call = Executed adapter_request | Observed adapter_request

text \<open>A run together with the adapter calls it made.\<close>

type_synonym 'a worked = "adapter_call list \<times> 'a run"

definition thenWork :: "'a worked \<Rightarrow> ('a \<times> store \<Rightarrow> 'b worked) \<Rightarrow> 'b worked" where
  "thenWork w k = (case snd w of
     Inl e \<Rightarrow> (fst w, Inl e)
   | Inr x \<Rightarrow> (fst w @ fst (k x), snd (k x)))"

definition quietly :: "'a run \<Rightarrow> 'a worked" where
  "quietly m = ([], m)"

section \<open>The final gate\<close>

definition final_gate ::
  "(string \<Rightarrow> string) \<Rightarrow> tool_definition list \<Rightarrow> int \<Rightarrow> invocation \<Rightarrow> store \<Rightarrow>
   policy_reason + tool_definition" where
  "final_gate sha256 registry now r st =
    (let snap = inv_snap r in
     case get_definition registry (s_tool_name snap) (s_tool_version snap) of
       None \<Rightarrow> Inl PR_CAPABILITY_NOT_BOUND
     | Some d \<Rightarrow> (case get_registration (s_registration_id snap) st of
         None \<Rightarrow> Inl PR_CAPABILITY_NOT_BOUND
       | Some reg \<Rightarrow>
           if reg_lifecycle reg = RETIRED then Inl PR_TOOL_RETIRED
           else if reg_lifecycle reg = DISABLED then Inl PR_TOOL_DISABLED
           else if is_prohibited d then Inl PR_PROHIBITED_CAPABILITY
           else if envelope_digest sha256 (build_envelope sha256 d (s_input_canonical snap)
               (build_target_block (s_target_kind snap) (s_target_asset_id snap)
                 (s_target_ref snap))) \<noteq> s_envelope_digest snap
             then Inl PR_ENVELOPE_INTEGRITY_FAILED
           else if s_approval_required snap then
             (case approval_failure r (approved_rows (inv_id r) st) now of
                Some failure \<Rightarrow> Inl failure | None \<Rightarrow> Inr d)
           else Inr d))"

definition gate_reason :: "policy_reason + tool_definition \<Rightarrow> policy_reason" where
  "gate_reason gate = (case gate of Inl reason \<Rightarrow> reason | Inr d \<Rightarrow> PR_ALLOWED)"

definition gate_decision :: "policy_reason + tool_definition \<Rightarrow> gate_decision" where
  "gate_decision gate = (case gate of Inl reason \<Rightarrow> GATE_DENY | Inr d \<Rightarrow> GATE_ALLOW)"

text \<open>
  The evaluation is appended first; the decision is then written under the lease, and the
  write is the assertion of ownership.
\<close>

definition open_gate ::
  "int \<Rightarrow> uuid \<Rightarrow> invocation \<Rightarrow> policy_reason + tool_definition \<Rightarrow> store \<Rightarrow>
   (bool \<times> invocation) run" where
  "open_gate now lease held gate st =
    (let i = inv_id held; reason = reason_value (gate_reason gate) in
     andThen (append_event now i (Some (inv_state held)) (inv_state held) reason None
       [(''gate'', JStr ''final''), (''decision'', JStr (gate_decision_value (gate_decision gate))),
        (''reason'', JStr reason), (''lease_id'', JStr (uuid_text lease))] st) (\<lambda>(ev, st1).
     andThen (record_final_gate_if_owned now i lease (gate_decision gate) reason (ev_id ev) st1)
       (\<lambda>(owned, st2).
     case get_invocation i st2 of
       None \<Rightarrow> Inl UnhandledError
     | Some fresh \<Rightarrow> Inr ((owned, fresh), st2))))"

definition jopt :: "('a \<Rightarrow> string) \<Rightarrow> 'a option \<Rightarrow> json" where
  "jopt f v = (case v of None \<Rightarrow> JNull | Some x \<Rightarrow> JStr (f x))"

definition abandon_lost_lease :: "uuid \<Rightarrow> invocation \<Rightarrow> store \<Rightarrow> invocation_state run" where
  "abandon_lost_lease lease r st = Inr (inv_state r, audit_record
     (audit_event ''tool.execute'' AUDIT_FAILURE AUDIT_WARNING r
       [(''state'', JStr (state_value (inv_state r))), (''held_lease_id'', JStr (uuid_text lease)),
        (''current_lease_id'', jopt uuid_text (executor_lease_id (inv_cols r)))]
       SYSTEM_PRINCIPAL) st)"

definition audit_outcome :: "invocation \<Rightarrow> audit_outcome \<Rightarrow> store \<Rightarrow> store" where
  "audit_outcome r outcome st = audit_record
     (audit_event ''tool.execute'' outcome
       (if outcome \<noteq> AUDIT_SUCCESS then AUDIT_WARNING else AUDIT_INFO) r
       [(''state'', JStr (state_value (inv_state r))),
        (''final_gate_decision'', jopt gate_decision_value (final_gate_decision (inv_cols r))),
        (''final_gate_reason'', jopt id (final_gate_reason (inv_cols r))),
        (''error_category'', jopt category_value (err_category (inv_cols r))),
        (''validation_outcome'', jopt validation_outcome_value (validation_outcome (inv_cols r)))]
       SYSTEM_PRINCIPAL) st"

section \<open>Execution\<close>

definition resolved_target_of :: "invocation \<Rightarrow> store \<Rightarrow> acop_error + resolved_target" where
  "resolved_target_of r st =
    (let snap = inv_snap r; kind = s_target_kind snap in
     case s_target_asset_id snap of
       Some a \<Rightarrow>
         if kind \<noteq> TK_ASSET then Inr \<lparr>rt_kind = kind, rt_asset_id = None, rt_display_name = [],
             rt_asset_type = [], rt_identifiers = (\<lambda>_. None),
             rt_external_ref = (case s_target_ref snap of None \<Rightarrow> [] | Some ref \<Rightarrow> ref)\<rparr>
         else (case get_asset a st of
           None \<Rightarrow> Inl (ToolErr TargetUnavailableError)
         | Some x \<Rightarrow> Inr \<lparr>rt_kind = kind, rt_asset_id = Some (asset_id x),
             rt_display_name = asset_display_name x, rt_asset_type = asset_type x,
             rt_identifiers = map_of (rev (map (\<lambda>ai. (ai_namespace ai, ai_value_normalized ai))
               (filter (\<lambda>ai. ai_asset_id ai = asset_id x \<and> \<not> ai_retired ai) (identifiers st)))),
             rt_external_ref = []\<rparr>)
     | None \<Rightarrow> Inr \<lparr>rt_kind = kind, rt_asset_id = None, rt_display_name = [],
         rt_asset_type = [], rt_identifiers = (\<lambda>_. None),
         rt_external_ref = (case s_target_ref snap of None \<Rightarrow> [] | Some ref \<Rightarrow> ref)\<rparr>)"

definition make_request ::
  "tool_definition \<Rightarrow> invocation \<Rightarrow> store \<Rightarrow> acop_error + adapter_request" where
  "make_request d r st = andThen (resolved_target_of r st) (\<lambda>target.
     Inr \<lparr>ar_invocation_id = inv_id r, ar_tool_name = s_tool_name (inv_snap r),
       ar_tool_version = s_tool_version (inv_snap r), ar_target = target,
       ar_payload = s_input_canonical (inv_snap r), ar_timeout_milli = td_timeout_milli d,
       ar_attempt = attempt_count (inv_cols r)\<rparr>)"

datatype attempt_result =
  Reported adapter_outcome jobj jobj
| AttemptTimedOut
| AttemptFailed tool_error_category

text \<open>
  The attempt loop, by the attempts that are left: what it ends with and how many calls it
  made.  A timeout ends it at once.
\<close>

fun run_attempts ::
  "tool_definition \<Rightarrow> (nat \<Rightarrow> adapter_reply) \<Rightarrow> tool_error_category \<Rightarrow> nat \<Rightarrow> nat \<Rightarrow>
   attempt_result \<times> nat" where
  "run_attempts d reply latest attempt 0 = (AttemptFailed latest, 0)"
| "run_attempts d reply latest attempt (Suc left) = (case reply attempt of
     TimedOut \<Rightarrow> (AttemptTimedOut, 1)
   | RaisedTool e \<Rightarrow>
       if 0 < left \<and> td_adapter_idempotent d \<and>
          error_category e \<in> set (retry_on (td_retry_policy d))
       then (case run_attempts d reply (error_category e) (Suc attempt) left of
               (res, calls) \<Rightarrow> (res, Suc calls))
       else (AttemptFailed (error_category e), 1)
   | RaisedOther \<Rightarrow> (AttemptFailed EC_INTERNAL_ERROR, 1)
   | Returned outcome payload hint \<Rightarrow> (Reported outcome payload hint, 1))"

definition close_with ::
  "invocation_state \<Rightarrow> tool_error_category \<Rightarrow> string \<Rightarrow> int \<Rightarrow> invocation \<Rightarrow> store \<Rightarrow>
   invocation run" where
  "close_with to category reason done_at r st =
     release_lease done_at r to reason [] anything
       (\<lambda>c. c\<lparr>finished_at := Some done_at, err_category := Some category,
              err_detail := Some (ERROR_PHRASES category)\<rparr>) st"

definition outcome_category :: "adapter_outcome \<Rightarrow> tool_error_category" where
  "outcome_category outcome = (if outcome = AO_TIMEOUT then EC_TIMEOUT
     else if outcome = AO_UNAVAILABLE then EC_ADAPTER_UNAVAILABLE else EC_EXECUTION_FAILED)"

definition declared_output :: "tool_definition \<Rightarrow> jobj \<Rightarrow> acop_error + jobj option" where
  "declared_output d payload = (case model_validate (td_output_model d) payload of
     Valid report \<Rightarrow> Inr (Some report) | Invalid \<Rightarrow> Inr None | Raised \<Rightarrow> Inl UnhandledError)"

definition record_adapter_result ::
  "(string \<Rightarrow> string) \<Rightarrow> int \<Rightarrow> tool_definition \<Rightarrow> invocation \<Rightarrow> adapter_outcome \<Rightarrow> jobj \<Rightarrow> jobj \<Rightarrow>
   store \<Rightarrow> invocation run" where
  "record_adapter_result sha256 done_at d r outcome payload hint st =
    (if outcome \<noteq> AO_SUCCESS then
       close_with FAILED (outcome_category outcome) (category_value (outcome_category outcome))
         done_at r st
     else andThen (declared_output d payload) (\<lambda>declared. case declared of
       None \<Rightarrow> close_with FAILED EC_OUTPUT_CONTRACT_VIOLATION
         (category_value EC_OUTPUT_CONTRACT_VIOLATION) done_at r st
     | Some report \<Rightarrow>
         (case sanitize_output sha256 d report of (summary, digest) \<Rightarrow>
          release_lease done_at r EXECUTED (reason_value PR_ALLOWED) [] anything
            (\<lambda>c. c\<lparr>result_summary := Some summary, result_digest := Some digest,
                   rollback_hint := given (Some hint)\<rparr>) st)))"

definition execute ::
  "(string \<Rightarrow> string) \<Rightarrow> (string \<Rightarrow> adapter option) \<Rightarrow> int \<Rightarrow> tool_definition \<Rightarrow> invocation \<Rightarrow> store \<Rightarrow>
   invocation worked" where
  "execute sha256 resolve_adapter done_at d r st = (case resolve_adapter (td_adapter_id d) of
     None \<Rightarrow> quietly (close_with FAILED EC_CAPABILITY_NOT_BOUND
               (reason_value PR_CAPABILITY_NOT_BOUND) done_at r st)
   | Some adapter \<Rightarrow> (case make_request d r st of
       Inl e \<Rightarrow> quietly (Inl e)
     | Inr rq \<Rightarrow>
       (case run_attempts d (\<lambda>n. ad_execute adapter n rq) EC_INTERNAL_ERROR 1
               (nat (max_attempts (td_retry_policy d))) of (res, calls) \<Rightarrow>
        (replicate calls (Executed rq),
         case res of
           Reported outcome payload hint \<Rightarrow>
             record_adapter_result sha256 done_at d r outcome payload hint st
         | AttemptTimedOut \<Rightarrow>
             close_with TIMED_OUT EC_TIMEOUT (category_value EC_TIMEOUT) done_at r st
         | AttemptFailed category \<Rightarrow>
             close_with FAILED category (category_value category) done_at r st))))"

section \<open>Validation\<close>

definition observe :: "adapter_reply \<Rightarrow> validation_outcome \<times> jobj" where
  "observe reply = (case reply of
     Returned outcome payload hint \<Rightarrow>
       (if outcome = AO_SUCCESS then CONFIRMED else NOT_CONFIRMED, payload)
   | _ \<Rightarrow> (INDETERMINATE, []))"

definition record_validation ::
  "int \<Rightarrow> validation_outcome \<Rightarrow> jobj \<Rightarrow> invocation \<Rightarrow> store \<Rightarrow> invocation run" where
  "record_validation done_at outcome detail r st =
    (if outcome = CONFIRMED then
       release_lease done_at r SUCCEEDED (reason_value PR_ALLOWED) [] anything
         (\<lambda>c. c\<lparr>validation_outcome := Some outcome, validation_detail := Some detail,
                validated_at := Some done_at, finished_at := Some done_at\<rparr>) st
     else
       release_lease done_at r VALIDATION_FAILED (category_value EC_VALIDATION_FAILED) [] anything
         (\<lambda>c. c\<lparr>validation_outcome := Some outcome, validation_detail := Some detail,
                validated_at := Some done_at, finished_at := Some done_at,
                err_category := Some EC_VALIDATION_FAILED,
                err_detail := Some (ERROR_PHRASES EC_VALIDATION_FAILED)\<rparr>) st)"

definition after_execution ::
  "(string \<Rightarrow> adapter option) \<Rightarrow> settings \<Rightarrow> int \<Rightarrow> uuid \<Rightarrow> tool_definition \<Rightarrow> invocation \<Rightarrow> store \<Rightarrow>
   invocation worked" where
  "after_execution resolve_adapter cfg done_at lease d r st =
    (if \<not> s_validation_required (inv_snap r) then
       quietly (transition done_at r SUCCEEDED (reason_value PR_ALLOWED) None [] anything
         (\<lambda>c. c\<lparr>finished_at := Some done_at\<rparr>) st)
     else
       thenWork (quietly (transition done_at r VALIDATING (reason_value PR_ALLOWED) None [] anything
         (\<lambda>c. c\<lparr>executor_lease_id := Some lease,
                lease_expires_at := Some (done_at + set_lease_milli cfg)\<rparr>) st)) (\<lambda>(r1, st1).
       case resolve_adapter (td_adapter_id d) of
         None \<Rightarrow> quietly (record_validation done_at INDETERMINATE [] r1 st1)
       | Some adapter \<Rightarrow> (case make_request d r1 st1 of
           Inl e \<Rightarrow> quietly (Inl e)
         | Inr rq \<Rightarrow> (case observe (ad_validate adapter rq) of (outcome, detail) \<Rightarrow>
             ([Observed rq], record_validation done_at outcome detail r1 st1)))))"

section \<open>The worker\<close>

text \<open>
  \<open>_run_claimed\<close> with the row \<open>held\<close> it read; \<open>now\<close> is the instant of the gate and \<open>done_at\<close> the
  instant after the adapter.
\<close>

definition dispatch ::
  "(string \<Rightarrow> string) \<Rightarrow> (string \<Rightarrow> adapter option) \<Rightarrow> settings \<Rightarrow> int \<Rightarrow> uuid \<Rightarrow> tool_definition \<Rightarrow>
   invocation \<Rightarrow> store \<Rightarrow> invocation_state worked" where
  "dispatch sha256 resolve_adapter cfg done_at lease d r st =
     thenWork (execute sha256 resolve_adapter done_at d r st) (\<lambda>(r1, st1).
     thenWork (if inv_state r1 = EXECUTED
               then after_execution resolve_adapter cfg done_at lease d r1 st1
               else quietly (Inr (r1, st1))) (\<lambda>(r2, st2).
     quietly (Inr (inv_state r2, audit_outcome r2
       (if inv_state r2 = SUCCEEDED then AUDIT_SUCCESS else AUDIT_FAILURE) st2))))"

definition run_claimed_on ::
  "(string \<Rightarrow> string) \<Rightarrow> tool_definition list \<Rightarrow> (string \<Rightarrow> adapter option) \<Rightarrow> settings \<Rightarrow> int \<Rightarrow> int \<Rightarrow>
   uuid \<Rightarrow> uuid \<Rightarrow> invocation \<Rightarrow> store \<Rightarrow> invocation_state worked" where
  "run_claimed_on sha256 registry resolve_adapter cfg now done_at lease validation_lease held st =
    (let gate = final_gate sha256 registry now held st in
     thenWork (quietly (open_gate now lease held gate st)) (\<lambda>((owned, r), st1).
     if \<not> owned then quietly (abandon_lost_lease lease r st1)
     else case gate of
       Inl reason \<Rightarrow> quietly (
         andThen (release_lease now r EXPIRED (reason_value reason) [(''gate'', JStr ''final'')]
           anything (\<lambda>c. c\<lparr>finished_at := Some now, err_category := Some EC_POLICY_DENIED,
             err_detail := Some (ERROR_PHRASES EC_POLICY_DENIED)\<rparr>) st1) (\<lambda>(r1, st2).
         Inr (EXPIRED, audit_outcome r1 AUDIT_DENIED st2)))
     | Inr d \<Rightarrow> dispatch sha256 resolve_adapter cfg done_at validation_lease d r st1))"

definition run_claimed ::
  "(string \<Rightarrow> string) \<Rightarrow> tool_definition list \<Rightarrow> (string \<Rightarrow> adapter option) \<Rightarrow> settings \<Rightarrow> int \<Rightarrow> int \<Rightarrow>
   uuid \<Rightarrow> uuid \<Rightarrow> uuid \<Rightarrow> store \<Rightarrow> adapter_call list \<times> (acop_error + invocation_state) \<times> store" where
  "run_claimed sha256 registry resolve_adapter cfg now done_at lease validation_lease i st =
    (case get_invocation i st of
       None \<Rightarrow> ([], Inl LookupError, st)
     | Some held \<Rightarrow>
        (case run_claimed_on sha256 registry resolve_adapter cfg now done_at lease validation_lease
                held st of (calls, run) \<Rightarrow> (calls, session run st)))"

text \<open>
  The claiming transaction.  \<open>Inl\<close> is the state to answer with when the claim is not won.
  \<open>lease\<close> stands for the fresh \<open>uuid4\<close>.
\<close>

definition timeout_of :: "invocation \<Rightarrow> int" where
  "timeout_of r = (case jget (s_execution_parameters (inv_snap r)) ''timeout_seconds'' of
     Some (JFloat milli) \<Rightarrow> milli | Some (JInt s) \<Rightarrow> 1000 * s | _ \<Rightarrow> 30000)"

definition claim_on :: "settings \<Rightarrow> int \<Rightarrow> uuid \<Rightarrow> invocation \<Rightarrow> store \<Rightarrow> (invocation_state + unit) run" where
  "claim_on cfg now lease held st =
    (if inv_state held \<noteq> READY then Inr (Inl (inv_state held), st)
     else andThen (claim_for_execution now (inv_id held) lease (now + set_lease_milli cfg)
            (now + timeout_of held) st) (\<lambda>(won, st1).
          if won then Inr (Inr (), st1)
          else (case get_invocation (inv_id held) st1 of
            None \<Rightarrow> Inl UnhandledError | Some fresh \<Rightarrow> Inr (Inl (inv_state fresh), st1))))"

definition claim :: "settings \<Rightarrow> int \<Rightarrow> uuid \<Rightarrow> uuid \<Rightarrow> store \<Rightarrow> (invocation_state + unit) run" where
  "claim cfg now lease i st = (case get_invocation i st of
     None \<Rightarrow> Inl LookupError | Some held \<Rightarrow> claim_on cfg now lease held st)"

definition execute_once ::
  "(string \<Rightarrow> string) \<Rightarrow> tool_definition list \<Rightarrow> (string \<Rightarrow> adapter option) \<Rightarrow> settings \<Rightarrow> int \<Rightarrow> int \<Rightarrow>
   int \<Rightarrow> uuid \<Rightarrow> uuid \<Rightarrow> uuid \<Rightarrow> store \<Rightarrow> adapter_call list \<times> (acop_error + invocation_state) \<times> store" where
  "execute_once sha256 registry resolve_adapter cfg now gate_at done_at lease validation_lease i st =
    (case session (claim cfg now lease i st) st of
       (Inl e, st1) \<Rightarrow> ([], Inl e, st1)
     | (Inr (Inl current), st1) \<Rightarrow> ([], Inr current, st1)
     | (Inr (Inr claimed), st1) \<Rightarrow>
         run_claimed sha256 registry resolve_adapter cfg gate_at done_at lease validation_lease i st1)"

text \<open>
  \<open>run_inline\<close>: the budget may elapse while the claim is being made, or later; \<open>asyncio.wait_for\<close>
  then cancels the work, which rolls its open transaction back, and the current state is read.
\<close>

datatype inline_budget = Enough | ElapsedClaiming | ElapsedRunning

definition read_state :: "uuid \<Rightarrow> store \<Rightarrow> acop_error + invocation_state" where
  "read_state i st = (case get_invocation i st of
     None \<Rightarrow> Inl (ToolErr ToolTimeoutError) | Some r \<Rightarrow> Inr (inv_state r))"

definition run_inline ::
  "(string \<Rightarrow> string) \<Rightarrow> tool_definition list \<Rightarrow> (string \<Rightarrow> adapter option) \<Rightarrow> settings \<Rightarrow> int \<Rightarrow> int \<Rightarrow>
   int \<Rightarrow> uuid \<Rightarrow> uuid \<Rightarrow> inline_budget \<Rightarrow> uuid \<Rightarrow> store \<Rightarrow> (acop_error + invocation_state) \<times> store" where
  "run_inline sha256 registry resolve_adapter cfg now gate_at done_at lease validation_lease budget
       i st =
    (case budget of
       Enough \<Rightarrow> snd (execute_once sha256 registry resolve_adapter cfg now gate_at done_at lease
                        validation_lease i st)
     | ElapsedClaiming \<Rightarrow> (read_state i st, st)
     | ElapsedRunning \<Rightarrow>
        (case session (claim cfg now lease i st) st of
           (Inr (Inr claimed), st1) \<Rightarrow> (read_state i st1, st1)
         | (Inr (Inl current), st1) \<Rightarrow> (Inr current, st1)
         | (Inl e, st1) \<Rightarrow> (Inl e, st1)))"

section \<open>What the dispatcher's steps promise\<close>

lemma snd_thenWork [simp]: "snd (thenWork w k) = andThen (snd w) (\<lambda>x. snd (k x))"
  by (simp add: thenWork_def andThen_def split: sum.splits)

lemma fst_thenWork: "fst (thenWork w k) = fst w @ (case snd w of Inl e \<Rightarrow> [] | Inr x \<Rightarrow> fst (k x))"
  by (simp add: thenWork_def split: sum.splits)

lemma thenWork_callE:
  assumes "call \<in> set (fst (thenWork w k))"
  obtains (first) "call \<in> set (fst w)"
  | (second) a t where "snd w = Inr (a, t)" "call \<in> set (fst (k (a, t)))"
  using assms by (auto simp: fst_thenWork split: sum.splits) metis+

lemma quietly_simps [simp]: "fst (quietly m) = []" "snd (quietly m) = m"
  by (simp_all add: quietly_def)

definition owns_lease :: "uuid \<Rightarrow> int \<Rightarrow> progress \<Rightarrow> bool" where
  "owns_lease lease now c \<longleftrightarrow> state c = EXECUTING \<and> executor_lease_id c = Some lease \<and>
     (case lease_expires_at c of None \<Rightarrow> False | Some t \<Rightarrow> now < t)"

definition gate_columns ::
  "int \<Rightarrow> policy_reason + tool_definition \<Rightarrow> uuid \<Rightarrow> progress \<Rightarrow> progress" where
  "gate_columns now gate ev c = c\<lparr>final_gate_decision := Some (gate_decision gate),
     final_gate_reason := Some (reason_value (gate_reason gate)), final_gate_at := Some now,
     final_gate_event_id := Some ev\<rparr>"

lemma gate_columns_simps [simp]:
  "state (gate_columns now gate ev c) = state c"
  "final_gate_decision (gate_columns now gate ev c) = Some (gate_decision gate)"
  "executor_lease_id (gate_columns now gate ev c) = executor_lease_id c"
  "attempt_count (gate_columns now gate ev c) = attempt_count c"
  by (simp_all add: gate_columns_def)

lemma open_gate_cases:
  assumes "open_gate now lease held gate st = Inr ((owned, r), st')"
  obtains (owned) row e where "owned" "get_invocation (inv_id held) st = Some row"
      "owns_lease lease now (inv_cols row)"
      "r = row\<lparr>inv_cols := gate_columns now gate (ev_id e) (inv_cols row)\<rparr>"
      "st' = upd_cols (inv_id held) (gate_columns now gate (ev_id e)) (add_event e st)"
  | (lost) e where "\<not> owned" "get_invocation (inv_id held) st = Some r"
      "\<not> owns_lease lease now (inv_cols r)" "st' = add_event e st"
proof -
  let ?i = "inv_id held"
  from assms obtain e st1 st2 where
    ev: "append_event now ?i (Some (inv_state held)) (inv_state held) (reason_value (gate_reason gate))
      None [(''gate'', JStr ''final''), (''decision'', JStr (gate_decision_value (gate_decision gate))),
        (''reason'', JStr (reason_value (gate_reason gate))), (''lease_id'', JStr (uuid_text lease))]
      st = Inr (e, st1)"
    and gate: "record_final_gate_if_owned now ?i lease (gate_decision gate)
      (reason_value (gate_reason gate)) (ev_id e) st1 = Inr (owned, st2)"
    and fresh: "(case get_invocation ?i st2 of None \<Rightarrow> Inl UnhandledError
      | Some fresh \<Rightarrow> Inr ((owned, fresh), st2)) = Inr ((owned, r), st')"
    by (auto simp: open_gate_def Let_def andThen_eq_Inr split: option.splits)
  from fresh have r: "get_invocation ?i st2 = Some r" "st' = st2" by (auto split: option.splits)
  have st1: "st1 = add_event e st" using append_event_shape [OF ev] by simp
  from gate show ?thesis
    unfolding record_final_gate_if_owned_def owns_lease_def [symmetric] gate_columns_def [symmetric]
  proof (cases rule: update_invocation_cases)
    case (won row)
    with r st1 show ?thesis by (intro that(1) [of row e]) (simp_all add: get_upd_cols)
  next
    case lost
    then have "get_invocation ?i st = Some r" using r st1 by simp
    with lost r st1 that(2) [of e] show ?thesis by simp
  qed
qed

lemma open_gate_upholds:
  assumes "get_invocation (inv_id held) st = Some row" and "inv_state row = inv_state held"
  shows "upholds store_ok evolves st (open_gate now lease held gate st)"
  unfolding open_gate_def Let_def
proof (rule tool_store.upholds_bind, goal_cases)
  case 1
  from note_upholds [OF assms(1)] show ?case unfolding assms(2) .
next
  case (2 e st1)
  show ?case
    by (auto intro!: tool_store.upholds_bind record_final_gate_upholds split: option.splits)
qed

text \<open>The row is the stored one and the final gate allowed it: the outcome of its run may be recorded.\<close>

definition gated :: "invocation \<Rightarrow> store \<Rightarrow> bool" where
  "gated r st \<longleftrightarrow> get_invocation (inv_id r) st = Some r \<and>
     final_gate_decision (inv_cols r) = Some GATE_ALLOW"

lemma gated_entry: "gated r st \<Longrightarrow> to \<notin> {APPROVED, READY} \<Longrightarrow> entry_condition st (inv_state r) to (inv_id r)"
  by (simp add: entry_condition_def gated_def)

lemma close_with_upholds [upholds_intros]:
  "gated r st \<Longrightarrow> to \<notin> {APPROVED, READY} \<Longrightarrow>
   upholds store_ok evolves st (close_with to category reason done_at r st)"
  unfolding close_with_def by (rule release_lease_upholds) (simp_all add: keeps_state_def gated_entry)

lemma record_adapter_result_upholds [upholds_intros]:
  assumes "gated r st"
  shows "upholds store_ok evolves st
    (record_adapter_result sha256 done_at d r outcome payload hint st)"
proof -
  have "entry_condition st (inv_state r) EXECUTED (inv_id r)"
    using assms by (simp add: gated_entry)
  with assms show ?thesis
    unfolding record_adapter_result_def
    by (auto intro!: tool_store.upholds_pure upholds_intros
        simp: keeps_state_def split: option.splits prod.splits)
qed

lemma execute_upholds:
  "gated r st \<Longrightarrow> upholds store_ok evolves st (snd (execute sha256 resolve_adapter done_at d r st))"
  unfolding execute_def
  by (auto intro!: upholds_intros split: option.splits sum.splits prod.splits attempt_result.splits)

lemma record_validation_upholds [upholds_intros]:
  "upholds store_ok evolves st (record_validation done_at outcome detail r st)"
  unfolding record_validation_def
  by (auto intro!: release_lease_upholds simp: keeps_state_def)

lemma after_execution_upholds:
  "upholds store_ok evolves st (snd (after_execution resolve_adapter cfg done_at lease d r st))"
  unfolding after_execution_def
  by (auto intro!: tool_store.upholds_bind upholds_intros
      simp: keeps_state_def split: option.splits sum.splits prod.splits)

lemma dispatch_upholds:
  "gated r st \<Longrightarrow>
   upholds store_ok evolves st (snd (dispatch sha256 resolve_adapter cfg done_at lease d r st))"
  unfolding dispatch_def audit_outcome_def
  by (auto intro!: tool_store.upholds_bind execute_upholds after_execution_upholds upholds_intros)

lemma run_claimed_upholds:
  assumes "get_invocation (inv_id held) st = Some held"
  shows "upholds store_ok evolves st (snd (run_claimed_on sha256 registry resolve_adapter cfg now
    done_at lease validation_lease held st))"
proof -
  define gate where "gate = final_gate sha256 registry now held st"
  have "gated r st1" if "open_gate now lease held gate st = Inr ((True, r), st1)" "gate = Inr d"
    for r st1 d
    using that(1)
  proof (cases rule: open_gate_cases)
    case (owned row e)
    moreover have "inv_id row = inv_id held" using get_invocationD [OF owned(2)] by simp
    ultimately show ?thesis
      using that(2) by (simp add: gated_def get_upd_cols gate_decision_def)
  qed simp
  moreover have "upholds store_ok evolves st (open_gate now lease held gate st)"
    by (rule open_gate_upholds [OF assms]) simp
  ultimately show ?thesis
    unfolding run_claimed_on_def Let_def gate_def [symmetric] snd_thenWork
    by (auto intro!: tool_store.upholds_bind [of st] dispatch_upholds tool_store.upholds_bind
        release_lease_upholds upholds_intros
        simp: abandon_lost_lease_def audit_outcome_def keeps_state_def split: sum.splits)
qed

lemma claim_step_upholds: "upholds store_ok evolves st (claim cfg now lease i st)"
  unfolding claim_def claim_on_def
  by (auto intro!: tool_store.upholds_bind claim_upholds split: option.splits)

lemma run_claimed_ok:
  assumes "store_ok st" and "run_claimed sha256 registry resolve_adapter cfg now done_at lease
      validation_lease i st = (calls, res, st')"
  shows "store_ok st' \<and> evolves st st'"
proof (cases "get_invocation i st")
  case None
  with assms show ?thesis by (simp add: run_claimed_def)
next
  case (Some held)
  then have "inv_id held = i" using get_invocationD by blast
  with Some have "get_invocation (inv_id held) st = Some held" by simp
  note up = run_claimed_upholds [OF this]
  have "session (snd (run_claimed_on sha256 registry resolve_adapter cfg now done_at lease
      validation_lease held st)) st = (res, st')"
    using assms(2) Some by (auto simp: run_claimed_def split: prod.splits)
  from session_upholds [OF up assms(1) this] show ?thesis .
qed

lemma execute_once_ok:
  assumes "store_ok st" and "execute_once sha256 registry resolve_adapter cfg now gate_at done_at
      lease validation_lease i st = (calls, res, st')"
  shows "store_ok st' \<and> evolves st st'"
proof -
  obtain r1 st1 where claimed: "session (claim cfg now lease i st) st = (r1, st1)" by fastforce
  from session_upholds [OF claim_step_upholds assms(1) claimed] have "store_ok st1" "evolves st st1"
    by auto
  moreover have "store_ok st' \<and> evolves st1 st'"
  proof (cases "r1 = Inr (Inr ())")
    case True
    with assms(2) have "run_claimed sha256 registry resolve_adapter cfg gate_at done_at lease
        validation_lease i st1 = (calls, res, st')" by (simp add: execute_once_def claimed)
    from run_claimed_ok [OF \<open>store_ok st1\<close> this] show ?thesis .
  next
    case False
    with assms(2) have "st' = st1"
      by (simp add: execute_once_def claimed split: sum.splits)
    with \<open>store_ok st1\<close> show ?thesis by simp
  qed
  ultimately show ?thesis using evolves_trans by blast
qed

section \<open>The gate's verdict\<close>

lemma length_filter_lt: "length (filter p xs) < length xs \<longleftrightarrow> \<not> list_all p xs"
  by (induction xs) (auto simp: less_Suc_eq_le)

lemma approval_failure_None:
  "approval_failure r rows now = None \<longleftrightarrow>
     (if s_approval_required (inv_snap r)
      then rows \<noteq> [] \<and>
        list_all (\<lambda>a. app_envelope_digest a = s_envelope_digest (inv_snap r) \<and>
                      now < app_expires_at a) rows \<and>
        s_min_approvals (inv_snap r) \<le> int (length (remdups (map app_approver rows)))
      else True)"
proof -
  let ?live = "filter (\<lambda>a. now < app_expires_at a) rows"
  have "?live = rows" if "list_all (\<lambda>a. now < app_expires_at a) rows"
    using that by (simp add: list_all_iff)
  then show ?thesis
    unfolding approval_failure_def Let_def length_filter_lt by (auto simp: list_all_iff list_ex_iff)
qed

text \<open>
  The final gate allows an execution exactly when the tool is still declared under that
  name and version and still active, is not prohibited, the envelope recomputed from the
  stored request and the current declaration has the stored digest, and, where the snapshot
  requires approval, every approval given is live and bound to that digest and enough distinct
  people gave one.
\<close>

theorem final_gate_allows_iff:
  "final_gate sha256 registry now r st = Inr d \<longleftrightarrow>
     get_definition registry (s_tool_name (inv_snap r)) (s_tool_version (inv_snap r)) = Some d \<and>
     (\<exists>reg. get_registration (s_registration_id (inv_snap r)) st = Some reg \<and>
        reg_lifecycle reg = ACTIVE) \<and>
     \<not> is_prohibited d \<and>
     envelope_digest sha256 (build_envelope sha256 d (s_input_canonical (inv_snap r))
       (build_target_block (s_target_kind (inv_snap r)) (s_target_asset_id (inv_snap r))
         (s_target_ref (inv_snap r)))) = s_envelope_digest (inv_snap r) \<and>
     (if s_approval_required (inv_snap r)
      then approved_rows (inv_id r) st \<noteq> [] \<and>
        list_all (\<lambda>a. app_envelope_digest a = s_envelope_digest (inv_snap r) \<and>
                      now < app_expires_at a) (approved_rows (inv_id r) st) \<and>
        s_min_approvals (inv_snap r)
          \<le> int (length (remdups (map app_approver (approved_rows (inv_id r) st))))
      else True)"
proof -
  have lifecycle: "l \<noteq> RETIRED \<and> l \<noteq> DISABLED \<longleftrightarrow> l = ACTIVE" for l by (cases l) simp_all
  show ?thesis
  proof (cases "get_definition registry (s_tool_name (inv_snap r)) (s_tool_version (inv_snap r))")
    case None
    then show ?thesis by (simp add: final_gate_def)
  next
    case (Some e)
    show ?thesis
    proof (cases "get_registration (s_registration_id (inv_snap r)) st")
      case None
      with Some show ?thesis by (simp add: final_gate_def)
    next
      case reg: (Some reg)
      define failure where "failure = approval_failure r (approved_rows (inv_id r) st) now"
      show ?thesis
        using lifecycle [of "reg_lifecycle reg"]
          approval_failure_None [of r "approved_rows (inv_id r) st" now, folded failure_def]
        unfolding final_gate_def Let_def Some reg option.case failure_def [symmetric]
        by (cases failure) auto
    qed
  qed
qed

section \<open>What a move leaves behind\<close>

definition moved :: "invocation \<Rightarrow> invocation_state \<Rightarrow> invocation \<Rightarrow> store \<Rightarrow> bool" where
  "moved r to r' st' \<longleftrightarrow> get_invocation (inv_id r) st' = Some r' \<and> inv_id r' = inv_id r \<and>
     inv_snap r' = inv_snap r \<and> inv_state r' = to"

lemma transition_moved:
  assumes "transition now r to reason actor detail expected columns st = Inr (r', st')"
    and "keeps_state columns" and "get_invocation (inv_id r) st = Some r"
  shows "moved r to r' st' \<and> inv_cols r' = columns ((inv_cols r)\<lparr>state := to\<rparr>)"
proof -
  from assms(1) have cas: "transition_cas now r to reason actor detail expected columns st =
      Inr ((True, r'), st')"
    by (auto simp: transition_def andThen_eq_Inr split: if_splits)
  have "r' = r\<lparr>inv_cols := columns ((inv_cols r)\<lparr>state := to\<rparr>)\<rparr>"
    using cas keeps_stateD [OF assms(2)]
    by (cases rule: transition_cas_cases) (use assms(3) in auto)
  with transition_fresh [OF assms] show ?thesis by (simp add: moved_def)
qed

lemma release_moved:
  assumes "release_lease now r to reason detail expected columns st = Inr (r', st')"
    and "keeps_state columns" and "get_invocation (inv_id r) st = Some r"
  shows "moved r to r' st' \<and> inv_cols r' = columns (drop_lease ((inv_cols r)\<lparr>state := to\<rparr>))"
  using assms(1,3) unfolding release_lease_def
  by (intro transition_moved) (simp_all add: assms(2))

lemma close_moved:
  assumes "close_with to category reason done_at r st = Inr (r', st')"
    and "get_invocation (inv_id r) st = Some r"
  shows "moved r to r' st'"
  using assms(1) unfolding close_with_def
  by (rule release_moved [THEN conjunct1, OF _ _ assms(2)]) (simp add: keeps_state_def)

lemma record_adapter_result_moved:
  assumes "record_adapter_result sha256 done_at d r outcome payload hint st = Inr (r', st')"
    and "get_invocation (inv_id r) st = Some r"
  shows "moved r FAILED r' st' \<or>
    moved r EXECUTED r' st' \<and> outcome = AO_SUCCESS \<and>
      (\<exists>report. model_validate (td_output_model d) payload = Valid report \<and>
         result_summary (inv_cols r') = Some (fst (sanitize_output sha256 d report)) \<and>
         result_digest (inv_cols r') = Some (snd (sanitize_output sha256 d report)))"
proof (cases "outcome = AO_SUCCESS")
  case False
  with assms close_moved show ?thesis by (auto simp: record_adapter_result_def)
next
  case True
  show ?thesis
  proof (cases "model_validate (td_output_model d) payload")
    case (Valid report)
    obtain summary digest where out: "sanitize_output sha256 d report = (summary, digest)"
      by fastforce
    from assms(1) True Valid have
      "release_lease done_at r EXECUTED (reason_value PR_ALLOWED) [] anything
        (\<lambda>c. c\<lparr>result_summary := Some summary, result_digest := Some digest,
               rollback_hint := given (Some hint)\<rparr>) st = Inr (r', st')"
      by (simp add: record_adapter_result_def declared_output_def out)
    from release_moved [OF this _ assms(2)] True Valid out show ?thesis
      by (simp add: keeps_state_def)
  next
    case Invalid
    with assms close_moved True show ?thesis
      by (auto simp: record_adapter_result_def declared_output_def)
  next
    case Raised
    with assms(1) True show ?thesis by (simp add: record_adapter_result_def declared_output_def)
  qed
qed

text \<open>A reply after which the loop may call the adapter again.\<close>

definition retryable :: "tool_definition \<Rightarrow> adapter_reply \<Rightarrow> bool" where
  "retryable d reply = (case reply of
     RaisedTool e \<Rightarrow> td_adapter_idempotent d \<and> error_category e \<in> set (retry_on (td_retry_policy d))
   | _ \<Rightarrow> False)"

lemma run_attempts_Suc:
  "run_attempts d reply latest attempt (Suc left) =
     (if 0 < left \<and> retryable d (reply attempt)
      then apsnd Suc (run_attempts d reply (case reply attempt of RaisedTool e \<Rightarrow> error_category e
             | _ \<Rightarrow> latest) (Suc attempt) left)
      else (case reply attempt of
          TimedOut \<Rightarrow> AttemptTimedOut | RaisedTool e \<Rightarrow> AttemptFailed (error_category e)
        | RaisedOther \<Rightarrow> AttemptFailed EC_INTERNAL_ERROR
        | Returned outcome payload hint \<Rightarrow> Reported outcome payload hint, 1))"
  by (auto simp: retryable_def apsnd_def map_prod_def split: adapter_reply.splits prod.splits)

text \<open>
  The adapter is called at most as often as the retry policy allows, and again only after a
  classified failure the policy lists, of an adapter declared idempotent.  A deadline that
  elapses, an unclassified exception and a result each end the loop, and what the loop ends
  with is what the last call gave.
\<close>

theorem attempts_are_bounded:
  assumes "run_attempts d reply latest attempt left = (res, calls)"
  shows "calls \<le> left \<and> (calls = 0 \<longleftrightarrow> left = 0) \<and>
     list_all (\<lambda>k. retryable d (reply (attempt + k))) [0..<calls - 1] \<and>
     (res = AttemptTimedOut \<longleftrightarrow> 0 < calls \<and> reply (attempt + calls - 1) = TimedOut) \<and>
     (\<forall>outcome payload hint. res = Reported outcome payload hint \<longleftrightarrow>
        0 < calls \<and> reply (attempt + calls - 1) = Returned outcome payload hint)"
  using assms
proof (induction left arbitrary: latest attempt calls)
  case (Suc left)
  show ?case
  proof (cases "0 < left \<and> retryable d (reply attempt)")
    case True
    with Suc.prems obtain calls' where calls: "calls = Suc calls'"
      and rest: "run_attempts d reply (case reply attempt of RaisedTool e \<Rightarrow> error_category e
             | _ \<Rightarrow> latest) (Suc attempt) left = (res, calls')"
      by (auto simp: run_attempts_Suc apsnd_def map_prod_def simp del: run_attempts.simps
          split: prod.splits)
    note ih = Suc.IH [OF rest]
    with True obtain c where c: "calls' = Suc c" by (cases calls') auto
    have "list_all (\<lambda>k. retryable d (reply (attempt + k))) (0 # map Suc [0..<c])"
      using True ih c by (simp add: list.pred_map comp_def)
    moreover have "[0..<calls - 1] = 0 # map Suc [0..<c]"
      using calls c by (simp add: upt_conv_Cons map_Suc_upt del: upt_Suc)
    ultimately show ?thesis using ih calls c by simp
  next
    case False
    with Suc.prems have "calls = 1"
      and "res = (case reply attempt of
          TimedOut \<Rightarrow> AttemptTimedOut | RaisedTool e \<Rightarrow> AttemptFailed (error_category e)
        | RaisedOther \<Rightarrow> AttemptFailed EC_INTERNAL_ERROR
        | Returned outcome payload hint \<Rightarrow> Reported outcome payload hint)"
      by (auto simp: run_attempts_Suc simp del: run_attempts.simps)
    then show ?thesis by (cases "reply attempt") auto
  qed
qed auto

lemma attempts_reported:
  "run_attempts d reply latest attempt left = (Reported outcome payload hint, calls) \<Longrightarrow>
   \<exists>n. reply n = Returned outcome payload hint"
proof (induction left arbitrary: latest attempt calls)
  case (Suc left)
  then show ?case
    by (cases "reply attempt") (auto split: if_splits prod.splits)
qed simp

lemma execute_moved:
  assumes "execute sha256 resolve_adapter done_at d r st = (calls, Inr (r', st'))"
    and "get_invocation (inv_id r) st = Some r"
  shows "moved r FAILED r' st' \<or> moved r TIMED_OUT r' st' \<or>
    moved r EXECUTED r' st' \<and> (\<exists>adapter rq n payload hint report.
      resolve_adapter (td_adapter_id d) = Some adapter \<and> make_request d r st = Inr rq \<and>
      ad_execute adapter n rq = Returned AO_SUCCESS payload hint \<and>
      model_validate (td_output_model d) payload = Valid report \<and>
      result_summary (inv_cols r') = Some (fst (sanitize_output sha256 d report)) \<and>
      result_digest (inv_cols r') = Some (snd (sanitize_output sha256 d report)))"
proof (cases "resolve_adapter (td_adapter_id d)")
  case None
  with assms close_moved show ?thesis by (auto simp: execute_def quietly_def)
next
  case adapter: (Some adapter)
  show ?thesis
  proof (cases "make_request d r st")
    case (Inl e)
    with assms(1) adapter show ?thesis by (simp add: execute_def quietly_def)
  next
    case rq: (Inr rq)
    define reply where "reply = (\<lambda>n. ad_execute adapter n rq)"
    obtain res n where run: "run_attempts d reply EC_INTERNAL_ERROR 1
        (nat (max_attempts (td_retry_policy d))) = (res, n)" by fastforce
    from assms(1) have m: "(case res of
           Reported outcome payload hint \<Rightarrow>
             record_adapter_result sha256 done_at d r outcome payload hint st
         | AttemptTimedOut \<Rightarrow>
             close_with TIMED_OUT EC_TIMEOUT (category_value EC_TIMEOUT) done_at r st
         | AttemptFailed category \<Rightarrow>
             close_with FAILED category (category_value category) done_at r st) = Inr (r', st')"
      unfolding execute_def adapter option.case rq sum.case run [unfolded reply_def] prod.case
      by (rule Pair_inject)
    show ?thesis
    proof (cases res)
      case (Reported outcome payload hint)
      with run have "run_attempts d reply EC_INTERNAL_ERROR 1 (nat (max_attempts (td_retry_policy d)))
          = (Reported outcome payload hint, n)" by simp
      note reported = attempts_reported [OF this]
      from Reported m have "record_adapter_result sha256 done_at d r outcome payload hint st = Inr (r', st')"
        by simp
      from record_adapter_result_moved [OF this assms(2)] reported show ?thesis
        using adapter rq unfolding reply_def by blast
    qed (use m close_moved assms(2) in auto)
  qed
qed

lemma moved_trans: "moved r s r1 st1 \<Longrightarrow> moved r1 t r2 st2 \<Longrightarrow> moved r t r2 st2"
  by (simp add: moved_def)

lemma movedD: "moved r to r' st' \<Longrightarrow> get_invocation (inv_id r') st' = Some r'"
  by (simp add: moved_def)

definition same_result :: "invocation \<Rightarrow> invocation \<Rightarrow> bool" where
  "same_result r r' \<longleftrightarrow> result_summary (inv_cols r') = result_summary (inv_cols r) \<and>
     result_digest (inv_cols r') = result_digest (inv_cols r)"

lemma record_validation_moved:
  assumes "record_validation done_at outcome detail r st = Inr (r', st')"
    and "get_invocation (inv_id r) st = Some r"
  shows "moved r (if outcome = CONFIRMED then SUCCEEDED else VALIDATION_FAILED) r' st' \<and>
    validation_outcome (inv_cols r') = Some outcome \<and>
    validation_detail (inv_cols r') = Some detail \<and> same_result r r'"
  using assms(1) unfolding record_validation_def
  by (auto dest!: release_moved [OF _ _ assms(2)] simp: keeps_state_def same_result_def drop_lease_def
      split: if_splits)

lemma after_execution_moved:
  assumes "after_execution resolve_adapter cfg done_at lease d r st = (calls, Inr (r', st'))"
    and "get_invocation (inv_id r) st = Some r"
  shows "same_result r r' \<and>
    (if s_validation_required (inv_snap r)
     then \<exists>outcome detail. moved r (if outcome = CONFIRMED then SUCCEEDED else VALIDATION_FAILED) r' st' \<and>
       validation_outcome (inv_cols r') = Some outcome \<and>
       validation_detail (inv_cols r') = Some detail \<and>
       (outcome = CONFIRMED \<or> detail \<noteq> [] \<longrightarrow> (\<exists>adapter rq reply hint.
          resolve_adapter (td_adapter_id d) = Some adapter \<and> calls = [Observed rq] \<and>
          ad_validate adapter rq = Returned reply detail hint \<and>
          (outcome = CONFIRMED \<longleftrightarrow> reply = AO_SUCCESS)))
     else moved r SUCCEEDED r' st' \<and> calls = [])"
proof (cases "s_validation_required (inv_snap r)")
  case False
  with assms(1) have "calls = []" and "transition done_at r SUCCEEDED (reason_value PR_ALLOWED) None []
      anything (\<lambda>c. c\<lparr>finished_at := Some done_at\<rparr>) st = Inr (r', st')"
    by (simp_all add: after_execution_def quietly_def)
  from this(1) transition_moved [OF this(2) _ assms(2)] False show ?thesis
    by (simp add: keeps_state_def same_result_def)
next
  case True
  from assms(1) True obtain r1 st1 where
    t: "transition done_at r VALIDATING (reason_value PR_ALLOWED) None [] anything
         (\<lambda>c. c\<lparr>executor_lease_id := Some lease,
                lease_expires_at := Some (done_at + set_lease_milli cfg)\<rparr>) st = Inr (r1, st1)"
    by (auto simp: after_execution_def thenWork_def quietly_def split: sum.splits
        simp del: reason_value.simps)
  from transition_moved [OF t _ assms(2)] have
    m: "moved r VALIDATING r1 st1" "same_result r r1" "get_invocation (inv_id r1) st1 = Some r1"
    by (simp_all add: keeps_state_def same_result_def moved_def)
  define rest where "rest = (case resolve_adapter (td_adapter_id d) of
         None \<Rightarrow> quietly (record_validation done_at INDETERMINATE [] r1 st1)
       | Some adapter \<Rightarrow> (case make_request d r1 st1 of
           Inl e \<Rightarrow> quietly (Inl e)
         | Inr rq \<Rightarrow> (case observe (ad_validate adapter rq) of (outcome, detail) \<Rightarrow>
             ([Observed rq], record_validation done_at outcome detail r1 st1))))"
  have run: "rest = (calls, Inr (r', st'))"
    using assms(1) True t
    unfolding after_execution_def rest_def thenWork_def quietly_def
    by (simp del: reason_value.simps)
  show ?thesis
  proof (cases "resolve_adapter (td_adapter_id d)")
    case None
    with run have "record_validation done_at INDETERMINATE [] r1 st1 = Inr (r', st')"
      by (simp add: rest_def quietly_def)
    from record_validation_moved [OF this m(3)] m moved_trans [OF m(1)] True show ?thesis
      by (simp add: same_result_def)
  next
    case adapter: (Some adapter)
    with run obtain rq outcome detail where
      obs: "observe (ad_validate adapter rq) = (outcome, detail)" and "calls = [Observed rq]"
      and "record_validation done_at outcome detail r1 st1 = Inr (r', st')"
      by (auto simp: rest_def quietly_def split: sum.splits prod.splits)
    from this(1,2) record_validation_moved [OF this(3) m(3)] m moved_trans [OF m(1)] True adapter
    show ?thesis
      by (cases "ad_validate adapter rq")
        (auto simp: observe_def same_result_def split: if_splits)
  qed
qed

section \<open>Who may call an adapter, and with what\<close>

fun request_of :: "adapter_call \<Rightarrow> adapter_request" where
  "request_of (Executed rq) = rq"
| "request_of (Observed rq) = rq"

definition asks_for :: "tool_definition \<Rightarrow> invocation \<Rightarrow> adapter_request \<Rightarrow> bool" where
  "asks_for d r rq \<longleftrightarrow> ar_invocation_id rq = inv_id r \<and>
     ar_tool_name rq = s_tool_name (inv_snap r) \<and> ar_tool_version rq = s_tool_version (inv_snap r) \<and>
     ar_payload rq = s_input_canonical (inv_snap r) \<and> rt_kind (ar_target rq) = s_target_kind (inv_snap r) \<and>
     ar_timeout_milli rq = td_timeout_milli d"

lemma make_request_asks:
  assumes "make_request d r st = Inr rq" and "inv_id r = inv_id row" and "inv_snap r = inv_snap row"
  shows "asks_for d row rq"
proof -
  from assms(1) obtain target where t: "resolved_target_of r st = Inr target"
    and rq: "rq = \<lparr>ar_invocation_id = inv_id r, ar_tool_name = s_tool_name (inv_snap r),
       ar_tool_version = s_tool_version (inv_snap r), ar_target = target,
       ar_payload = s_input_canonical (inv_snap r), ar_timeout_milli = td_timeout_milli d,
       ar_attempt = attempt_count (inv_cols r)\<rparr>"
    by (auto simp: make_request_def andThen_eq_Inr)
  from t have "rt_kind target = s_target_kind (inv_snap r)"
    by (auto simp: resolved_target_of_def Let_def split: option.splits if_splits)
  with rq assms(2,3) show ?thesis by (simp add: asks_for_def)
qed

lemma execute_calls:
  "call \<in> set (fst (execute sha256 resolve_adapter done_at d r st)) \<Longrightarrow>
   make_request d r st = Inr (request_of call)"
  by (auto simp: execute_def quietly_def split: option.splits sum.splits prod.splits if_splits)

lemma after_execution_calls:
  assumes "call \<in> set (fst (after_execution resolve_adapter cfg done_at lease d r st))"
    and "get_invocation (inv_id r) st = Some r"
  shows "asks_for d r (request_of call)"
proof -
  from assms(1) obtain r1 st1 where
    t: "transition done_at r VALIDATING (reason_value PR_ALLOWED) None [] anything
         (\<lambda>c. c\<lparr>executor_lease_id := Some lease,
                lease_expires_at := Some (done_at + set_lease_milli cfg)\<rparr>) st = Inr (r1, st1)"
    and rq: "make_request d r1 st1 = Inr (request_of call)"
    by (auto simp: after_execution_def simp del: reason_value.simps elim!: thenWork_callE
        split: if_splits sum.splits option.splits prod.splits)
  from transition_moved [OF t _ assms(2)] have "inv_id r1 = inv_id r" "inv_snap r1 = inv_snap r"
    by (simp_all add: keeps_state_def moved_def)
  with make_request_asks [OF rq] show ?thesis by blast
qed

lemma dispatch_calls:
  assumes "call \<in> set (fst (dispatch sha256 resolve_adapter cfg done_at lease d r st))"
    and "get_invocation (inv_id r) st = Some r"
  shows "asks_for d r (request_of call)"
proof -
  consider "call \<in> set (fst (execute sha256 resolve_adapter done_at d r st))"
    | r1 st1 where "snd (execute sha256 resolve_adapter done_at d r st) = Inr (r1, st1)"
      "call \<in> set (fst (after_execution resolve_adapter cfg done_at lease d r1 st1))"
    using assms(1)
    unfolding dispatch_def by (auto elim!: thenWork_callE split: if_splits)
  then show ?thesis
  proof cases
    case 1
    from make_request_asks [OF execute_calls [OF 1]] show ?thesis by blast
  next
    case 2
    have "execute sha256 resolve_adapter done_at d r st =
        (fst (execute sha256 resolve_adapter done_at d r st), Inr (r1, st1))"
      using 2(1) by (metis prod.collapse)
    from execute_moved [OF this assms(2)] have "inv_id r1 = inv_id r" "inv_snap r1 = inv_snap r"
      "get_invocation (inv_id r1) st1 = Some r1"
      by (auto simp: moved_def)
    with after_execution_calls [OF 2(2)] show ?thesis by (simp add: asks_for_def)
  qed
qed

lemma final_gate_cong:
  assumes "inv_id r = inv_id r'" and "inv_snap r = inv_snap r'"
  shows "final_gate sha256 registry now r st = final_gate sha256 registry now r' st"
proof -
  have "approval_failure r rows now = approval_failure r' rows now" for rows
    unfolding approval_failure_def assms ..
  then show ?thesis unfolding final_gate_def assms by (simp only:)
qed

text \<open>
  C5. However outdated the row a worker read, an adapter is called only if at the moment the
  final gate's decision was written the stored invocation was executing under this worker's own
  lease, the lease had not run out, and the final gate allowed the execution; and then it is
  asked for exactly the tool, the input and the target kind frozen in the invocation.
\<close>

theorem adapter_called_only_when_entitled:
  assumes "run_claimed_on sha256 registry resolve_adapter cfg now done_at lease validation_lease
      held st = (calls, run)"
    and "call \<in> set calls" and "faithful_copy held st"
  shows "\<exists>d row. get_invocation (inv_id held) st = Some row \<and> inv_state row = EXECUTING \<and>
     executor_lease_id (inv_cols row) = Some lease \<and>
     (\<exists>t. lease_expires_at (inv_cols row) = Some t \<and> now < t) \<and>
     final_gate sha256 registry now row st = Inr d \<and> asks_for d row (request_of call)"
proof -
  define gate where "gate = final_gate sha256 registry now held st"
  have "call \<in> set (fst (run_claimed_on sha256 registry resolve_adapter cfg now done_at lease
      validation_lease held st))"
    using assms by simp
  then obtain owned r st1 where opened: "open_gate now lease held gate st = Inr ((owned, r), st1)"
    and called: "call \<in> set (fst (if \<not> owned then quietly (abandon_lost_lease lease r st1)
      else case gate of
        Inl reason \<Rightarrow> quietly (
          andThen (release_lease now r EXPIRED (reason_value reason) [(''gate'', JStr ''final'')]
            anything (\<lambda>c. c\<lparr>finished_at := Some now, err_category := Some EC_POLICY_DENIED,
              err_detail := Some (ERROR_PHRASES EC_POLICY_DENIED)\<rparr>) st1) (\<lambda>(r1, st2).
          Inr (EXPIRED, audit_outcome r1 AUDIT_DENIED st2)))
      | Inr d \<Rightarrow> dispatch sha256 resolve_adapter cfg done_at validation_lease d r st1))"
    unfolding run_claimed_on_def Let_def gate_def [symmetric] by (auto elim!: thenWork_callE)
  then obtain d where "owned" and d: "gate = Inr d"
    and dispatched: "call \<in> set (fst (dispatch sha256 resolve_adapter cfg done_at validation_lease d r st1))"
    by (cases gate) (auto split: if_splits)
  from opened show ?thesis
  proof (cases rule: open_gate_cases)
    case (owned row e)
    have "inv_id row = inv_id held" using get_invocationD [OF owned(2)] by simp
    then have "asks_for d r (request_of call)"
      using dispatch_calls [OF dispatched] owned by (simp add: get_upd_cols)
    moreover from assms(3) owned(2) have "inv_snap row = inv_snap held"
      by (auto elim: faithful_copyD)
    then have "final_gate sha256 registry now row st = Inr d"
      using final_gate_cong [OF \<open>inv_id row = inv_id held\<close>] d gate_def by simp
    moreover from owned(3) have "inv_state row = EXECUTING"
      "executor_lease_id (inv_cols row) = Some lease"
      "\<exists>t. lease_expires_at (inv_cols row) = Some t \<and> now < t"
      by (auto simp: owns_lease_def split: option.splits)
    moreover have "asks_for d row (request_of call)"
      using \<open>asks_for d r (request_of call)\<close> owned(4) by (simp add: asks_for_def)
    ultimately show ?thesis using owned(2) by blast
  next
    case lost
    with \<open>owned\<close> show ?thesis by simp
  qed
qed

text \<open>
  A worker whose lease is gone, because the row was reaped, finished, cancelled or claimed
  anew, calls no adapter and writes no invocation: it leaves the event of its evaluation and
  an audit record, and answers with the state the row has.
\<close>

theorem lost_lease_writes_nothing:
  assumes "get_invocation (inv_id held) st = Some row" and "\<not> owns_lease lease now (inv_cols row)"
    and "run_claimed_on sha256 registry resolve_adapter cfg now done_at lease validation_lease
      held st = (calls, run)"
  shows "calls = [] \<and> (\<exists>e a st'. run = Inr (inv_state row, st') \<and>
     st' = audit_record a (add_event e st) \<and> invocations st' = invocations st \<and>
     approvals st' = approvals st \<and> ev_invocation e = inv_id held)"
proof -
  define gate where "gate = final_gate sha256 registry now held st"
  let ?d = "[(''gate'', JStr ''final''), (''decision'', JStr (gate_decision_value (gate_decision gate))),
        (''reason'', JStr (reason_value (gate_reason gate))), (''lease_id'', JStr (uuid_text lease))]"
  from append_event_runs [OF assms(1)] obtain e where
    ev: "append_event now (inv_id held) (Some (inv_state held)) (inv_state held)
      (reason_value (gate_reason gate)) None ?d st = Inr (e, add_event e st)" by blast
  have "record_final_gate_if_owned now (inv_id held) lease (gate_decision gate)
      (reason_value (gate_reason gate)) (ev_id e) (add_event e st) = Inr (False, add_event e st)"
    unfolding record_final_gate_if_owned_def owns_lease_def [symmetric]
    using assms(1,2) by (simp add: update_invocation_def)
  with ev assms(1) have "open_gate now lease held gate st = Inr ((False, row), add_event e st)"
    by (simp add: open_gate_def Let_def)
  then have "run_claimed_on sha256 registry resolve_adapter cfg now done_at lease validation_lease
      held st = ([], abandon_lost_lease lease row (add_event e st))"
    by (simp add: run_claimed_on_def gate_def [symmetric] thenWork_def quietly_def)
  with assms(3) append_event_shape [OF ev] show ?thesis
    by (auto simp: abandon_lost_lease_def audit_record_def)
qed

section \<open>How an execution ends\<close>

text \<open>
  Executing an invocation keeps the store acceptable and only lets it evolve, whatever the
  adapters do and wherever the transaction fails.
\<close>

theorem execute_once_keeps_store:
  assumes "store_ok st"
  shows "store_ok (snd (snd (execute_once sha256 registry resolve_adapter cfg now gate_at done_at
           lease validation_lease i st))) \<and>
     evolves st (snd (snd (execute_once sha256 registry resolve_adapter cfg now gate_at done_at
           lease validation_lease i st)))"
  using execute_once_ok [OF assms] by (metis prod.collapse)

text \<open>The stored result is the sanitised, validated report of a call for this invocation.\<close>

definition result_reported ::
  "(string \<Rightarrow> string) \<Rightarrow> adapter \<Rightarrow> tool_definition \<Rightarrow> invocation \<Rightarrow> bool" where
  "result_reported sha256 adapter d r \<longleftrightarrow> (\<exists>rq n payload hint report. asks_for d r rq \<and>
     ad_execute adapter n rq = Returned AO_SUCCESS payload hint \<and>
     model_validate (td_output_model d) payload = Valid report \<and>
     result_summary (inv_cols r) = Some (fst (sanitize_output sha256 d report)) \<and>
     result_digest (inv_cols r) = Some (snd (sanitize_output sha256 d report)))"

text \<open>The stored detail is what a separate, successful observation of the target gave.\<close>

definition confirmed_by :: "adapter \<Rightarrow> adapter_call list \<Rightarrow> invocation \<Rightarrow> bool" where
  "confirmed_by adapter calls r \<longleftrightarrow> (\<exists>rq detail hint. Observed rq \<in> set calls \<and>
     ad_validate adapter rq = Returned AO_SUCCESS detail hint \<and>
     validation_detail (inv_cols r) = Some detail)"

definition well_ended ::
  "(string \<Rightarrow> string) \<Rightarrow> (string \<Rightarrow> adapter option) \<Rightarrow> tool_definition \<Rightarrow> adapter_call list \<Rightarrow>
   invocation \<Rightarrow> bool" where
  "well_ended sha256 resolve_adapter d calls r \<longleftrightarrow>
     (\<exists>adapter. resolve_adapter (td_adapter_id d) = Some adapter \<and>
        result_reported sha256 adapter d r \<and>
        (if s_validation_required (inv_snap r)
         then (inv_state r = SUCCEEDED \<longleftrightarrow> validation_outcome (inv_cols r) = Some CONFIRMED) \<and>
           (if inv_state r = SUCCEEDED then confirmed_by adapter calls r else True)
         else inv_state r = SUCCEEDED))"

lemma asks_for_cong: "inv_id r = inv_id r' \<Longrightarrow> inv_snap r = inv_snap r' \<Longrightarrow> asks_for d r rq = asks_for d r' rq"
  by (simp add: asks_for_def)

lemma dispatch_moved:
  assumes "dispatch sha256 resolve_adapter cfg done_at lease d r st = (calls, Inr (s, st'))"
    and "get_invocation (inv_id r) st = Some r"
  shows "\<exists>r'. get_invocation (inv_id r) st' = Some r' \<and> inv_snap r' = inv_snap r \<and> inv_state r' = s \<and>
    (s \<in> {FAILED, TIMED_OUT} \<or>
     s \<in> {SUCCEEDED, VALIDATION_FAILED} \<and> well_ended sha256 resolve_adapter d calls r')"
proof -
  obtain calls1 run1 where ex: "execute sha256 resolve_adapter done_at d r st = (calls1, run1)"
    by fastforce
  from assms(1) obtain r1 st1 where run1: "run1 = Inr (r1, st1)"
    by (cases run1) (auto simp: dispatch_def thenWork_def ex)
  note m = execute_moved [OF ex [unfolded run1] assms(2)]
  then have snap: "inv_snap r1 = inv_snap r" "inv_id r1 = inv_id r" and get1: "get_invocation (inv_id r1) st1 = Some r1"
    by (auto simp: moved_def)
  show ?thesis
  proof (cases "inv_state r1 = EXECUTED")
    case False
    with assms(1) have "s = inv_state r1" "st' = audit_outcome r1 AUDIT_FAILURE st1"
      using m by (auto simp: dispatch_def thenWork_def ex run1 quietly_def moved_def)
    with False m show ?thesis
      by (auto simp: moved_def audit_outcome_def audit_record_def get_invocation_def)
  next
    case True
    then obtain calls2 r2 st2 where
      after: "after_execution resolve_adapter cfg done_at lease d r1 st1 = (calls2, Inr (r2, st2))"
      and s: "s = inv_state r2" "calls = calls1 @ calls2"
        "st' = audit_outcome r2 (if inv_state r2 = SUCCEEDED then AUDIT_SUCCESS else AUDIT_FAILURE) st2"
      using assms(1)
      by (cases "after_execution resolve_adapter cfg done_at lease d r1 st1")
        (auto simp: dispatch_def thenWork_def ex run1 quietly_def split: sum.splits)
    have get': "get_invocation j st' = get_invocation j st2" for j
      by (simp add: s audit_outcome_def audit_record_def get_invocation_def)
    from m True obtain adapter rq n payload hint report where
      ran: "resolve_adapter (td_adapter_id d) = Some adapter" "make_request d r st = Inr rq"
        "ad_execute adapter n rq = Returned AO_SUCCESS payload hint"
        "model_validate (td_output_model d) payload = Valid report"
        "result_summary (inv_cols r1) = Some (fst (sanitize_output sha256 d report))"
        "result_digest (inv_cols r1) = Some (snd (sanitize_output sha256 d report))"
      by (auto simp: moved_def)
    note ended = after_execution_moved [OF after get1, unfolded snap]
    have asked: "asks_for d r rq" by (rule make_request_asks [OF ran(2)]) simp_all
    have "result_summary (inv_cols r2) = Some (fst (sanitize_output sha256 d report))"
      "result_digest (inv_cols r2) = Some (snd (sanitize_output sha256 d report))"
      using ran ended by (simp_all add: same_result_def)
    moreover have moved2: "inv_id r2 = inv_id r \<and> inv_snap r2 = inv_snap r \<and>
        get_invocation (inv_id r) st' = Some r2"
      using ended snap get' by (auto simp: moved_def split: if_splits)
    moreover from this asked have "asks_for d r2 rq" using asks_for_cong by blast
    ultimately have result: "result_reported sha256 adapter d r2"
      using ran(3,4) unfolding result_reported_def by blast
    have "s \<in> {SUCCEEDED, VALIDATION_FAILED} \<and> well_ended sha256 resolve_adapter d calls r2"
    proof (cases "s_validation_required (inv_snap r)")
      case False
      with ended have "moved r1 SUCCEEDED r2 st2" by simp
      with False result ran(1) s moved2 show ?thesis by (simp add: moved_def well_ended_def)
    next
      case True
      note validated = ended [THEN conjunct2, unfolded if_P [OF True]]
      then obtain outcome detail where
        mv: "moved r1 (if outcome = CONFIRMED then SUCCEEDED else VALIDATION_FAILED) r2 st2"
        and out: "validation_outcome (inv_cols r2) = Some outcome"
          "validation_detail (inv_cols r2) = Some detail"
        and obs: "outcome = CONFIRMED \<or> detail \<noteq> [] \<longrightarrow> (\<exists>adapter rq reply hint.
          resolve_adapter (td_adapter_id d) = Some adapter \<and> calls2 = [Observed rq] \<and>
          ad_validate adapter rq = Returned reply detail hint \<and>
          (outcome = CONFIRMED \<longleftrightarrow> reply = AO_SUCCESS))"
        by (elim exE conjE) (rule that)
      have st: "inv_state r2 = (if outcome = CONFIRMED then SUCCEEDED else VALIDATION_FAILED)"
        using mv by (simp add: moved_def)
      have "confirmed_by adapter calls r2" if "outcome = CONFIRMED"
        using that obs ran(1) s(2) out(2) by (auto simp: confirmed_by_def)
      then show ?thesis
        using st s(1) out(1) result ran(1) True moved2 by (auto simp: well_ended_def)
    qed
    with moved2 s(1) show ?thesis by blast
  qed
qed

lemma get_definition_key:
  "get_definition registry name version = Some d \<Longrightarrow> d \<in> set registry \<and> td_key d = (name, version)"
  unfolding get_definition_def by (metis (mono_tags, lifting) find_Some_iff nth_mem)

lemma run_claimed_called:
  assumes "run_claimed_on sha256 registry resolve_adapter cfg now done_at lease validation_lease
      held st = (calls, Inr (s, st'))"
    and "calls \<noteq> []"
  obtains d r st1 where "final_gate sha256 registry now held st = Inr d"
    "open_gate now lease held (Inr d) st = Inr ((True, r), st1)"
    "dispatch sha256 resolve_adapter cfg done_at validation_lease d r st1 = (calls, Inr (s, st'))"
proof -
  define gate where "gate = final_gate sha256 registry now held st"
  from assms obtain owned r st1 where o: "open_gate now lease held gate st = Inr ((owned, r), st1)"
    by (auto simp: run_claimed_on_def gate_def [symmetric] thenWork_def quietly_def split: sum.splits)
  have "owned"
    using assms o
    by (cases owned) (auto simp: run_claimed_on_def gate_def [symmetric] thenWork_def quietly_def)
  moreover obtain d where "gate = Inr d"
    using assms o calculation
    by (cases gate) (auto simp: run_claimed_on_def gate_def [symmetric] thenWork_def quietly_def)
  ultimately show ?thesis
    using assms(1) o
    by (intro that [of d r st1])
      (auto simp: run_claimed_on_def gate_def [symmetric] thenWork_def quietly_def)
qed

lemma terminal_unleased:
  assumes "store_ok st" and "get_invocation i st = Some r" and "\<not> leased (inv_state r)"
  shows "executor_lease_id (inv_cols r) = None \<and> lease_expires_at (inv_cols r) = None"
proof -
  have "r \<in> set (invocations st)" using get_invocationD [OF assms(2)] by simp
  from store_okD(4) [OF assms(1) this]
  have "\<forall>c \<in> set (progress_checks (inv_snap r) (inv_cols r)). snd c"
    unfolding invocation_checks_def set_append ball_Un by blast
  with assms(3) show ?thesis by (simp add: progress_checks_def del: leased_simps)
qed

text \<open>
  An execution that called an adapter and committed ends in one of four terminal states,
  which is the one it answers with, and holds no lease.  If the adapter is recorded to have
  acted, the stored result is the allow-listed, validated report of a successful call for this
  very invocation; and where the invocation requires validation it has succeeded exactly when
  its outcome is a confirmation, which only a separate observation of the target gives.
\<close>

theorem execution_ends_as_observed:
  assumes "store_ok st"
    and "execute_once sha256 registry resolve_adapter cfg now gate_at done_at lease validation_lease
      i st = (calls, Inr s, st')"
    and "calls \<noteq> []"
  shows "\<exists>r d. get_invocation i st' = Some r \<and> inv_state r = s \<and> is_terminal_state s \<and>
     executor_lease_id (inv_cols r) = None \<and> d \<in> set registry \<and>
     td_key d = (s_tool_name (inv_snap r), s_tool_version (inv_snap r)) \<and>
     (s \<in> {FAILED, TIMED_OUT} \<or>
      s \<in> {SUCCEEDED, VALIDATION_FAILED} \<and> well_ended sha256 resolve_adapter d calls r)"
proof -
  have ok': "store_ok st'" using execute_once_ok [OF assms(1,2)] by simp
  from assms(2,3) obtain u st1 where
    "run_claimed sha256 registry resolve_adapter cfg gate_at done_at lease validation_lease i st1 =
       (calls, Inr s, st')"
    by (auto simp: execute_once_def split: prod.splits sum.splits)
  with assms(3) obtain held where held: "get_invocation i st1 = Some held"
    and run: "run_claimed_on sha256 registry resolve_adapter cfg gate_at done_at lease
      validation_lease held st1 = (calls, Inr (s, st'))"
    by (auto simp: run_claimed_def session_def split: option.splits prod.splits sum.splits)
  from run_claimed_called [OF run assms(3)] obtain d r st2 where
    gate: "final_gate sha256 registry gate_at held st1 = Inr d"
    and opened: "open_gate gate_at lease held (Inr d) st1 = Inr ((True, r), st2)"
    and dispatched: "dispatch sha256 resolve_adapter cfg done_at validation_lease d r st2 =
      (calls, Inr (s, st'))" .
  from gate have d: "d \<in> set registry" "td_key d = (s_tool_name (inv_snap held), s_tool_version (inv_snap held))"
    using get_definition_key
    by (auto simp: final_gate_def Let_def split: option.splits if_splits)
  have id: "inv_id held = i" using get_invocationD [OF held] by simp
  from opened have "get_invocation (inv_id r) st2 = Some r \<and> inv_snap r = inv_snap held \<and> inv_id r = i"
  proof (cases rule: open_gate_cases)
    case (owned row e)
    moreover have "row = held" using owned(2) held id by simp
    ultimately show ?thesis using id by (simp add: get_upd_cols)
  qed simp
  with dispatch_moved [OF dispatched] d obtain r' where
    r': "get_invocation i st' = Some r'" "inv_snap r' = inv_snap held" "inv_state r' = s"
      "s \<in> {FAILED, TIMED_OUT} \<or>
       s \<in> {SUCCEEDED, VALIDATION_FAILED} \<and> well_ended sha256 resolve_adapter d calls r'"
    by auto
  then have "is_terminal_state s" "\<not> leased (inv_state r')"
    by (auto simp: is_terminal_state_def TERMINAL_STATES_def)
  with r' d terminal_unleased [OF ok' r'(1)] show ?thesis by (intro exI [of _ r'] exI [of _ d]) simp
qed

text \<open>
  When the budget of an inline run elapses after the claim, the work is cancelled and does
  not go on: the invocation is left \<open>EXECUTING\<close> under a lease nobody renews, the gate, the
  adapter and the outcome leave no trace, and the caller is told \<open>EXECUTING\<close>.
\<close>

theorem elapsed_inline_run_strands:
  assumes "get_invocation i st = Some r" and "inv_state r = READY"
    and "claim cfg now lease i st = Inr (Inr u, st1)"
    and "run_inline sha256 registry resolve_adapter cfg now gate_at done_at lease validation_lease
      ElapsedRunning i st = (res, st')"
  shows "res = Inr EXECUTING \<and> st' = st1 \<and>
     (\<exists>r'. get_invocation i st' = Some r' \<and> inv_state r' = EXECUTING \<and>
        executor_lease_id (inv_cols r') = Some lease \<and>
        lease_expires_at (inv_cols r') = Some (now + set_lease_milli cfg) \<and>
        final_gate_decision (inv_cols r') = final_gate_decision (inv_cols r) \<and>
        finished_at (inv_cols r') = finished_at (inv_cols r)) \<and>
     audits st' = audits st"
proof -
  have id: "inv_id r = i" using get_invocationD [OF assms(1)] by simp
  with assms(1-3) have c: "claim_for_execution now i lease (now + set_lease_milli cfg)
      (now + timeout_of r) st = Inr (True, st1)"
    by (auto simp: claim_def claim_on_def andThen_eq_Inr split: if_splits option.splits)
  then show ?thesis
  proof (cases rule: claim_cases)
    case (won q e)
    with assms show ?thesis
      by (auto simp: run_inline_def session_def read_state_def get_upd_cols claim_columns_def)
  qed simp
qed

end
