(* ===== verification/Reaper.thy ===== *)
theory Reaper
  imports Dispatcher
begin

text \<open>
  \<open>services/tools/reaper.py\<close>: closing invocations whose lease ran out and expiring approvals
  nobody used.  Candidates are read without a lock and may be outdated when they are written.
\<close>

section \<open>Instants as text\<close>

text \<open>
  \<open>datetime.isoformat()\<close> of an aware UTC instant, from thousandths of a second since 1970, by
  the proleptic Gregorian calendar.  A stored microsecond part below a thousandth is not
  modelled.
\<close>

definition civil :: "int \<Rightarrow> int \<times> int \<times> int" where
  "civil days =
    (let z = days + 719468; era = z div 146097; doe = z mod 146097;
         yoe = (doe - doe div 1460 + doe div 36524 - doe div 146096) div 365;
         doy = doe - (365 * yoe + yoe div 4 - yoe div 100);
         mp = (5 * doy + 2) div 153;
         month = (if mp < 10 then mp + 3 else mp - 9) in
     (yoe + era * 400 + (if month \<le> 2 then 1 else 0), month, doy - (153 * mp + 2) div 5 + 1))"

definition padded :: "nat \<Rightarrow> int \<Rightarrow> string" where
  "padded width n = (let s = show_int n in replicate (width - length s) (CHR ''0'') @ s)"

definition isoformat :: "int \<Rightarrow> string" where
  "isoformat milli =
    (case civil (milli div 86400000) of (y, m, d) \<Rightarrow>
     (let t = milli mod 86400000; ms = t mod 1000 in
      padded 4 y @ ''-'' @ padded 2 m @ ''-'' @ padded 2 d @ ''T'' @
      padded 2 (t div 3600000) @ '':'' @ padded 2 (t div 60000 mod 60) @ '':'' @
      padded 2 (t div 1000 mod 60) @
      (if ms = 0 then [] else ''.'' @ padded 6 (1000 * ms)) @ ''+00:00''))"

section \<open>The reaper\<close>

definition lapsed :: "int \<Rightarrow> invocation \<Rightarrow> bool" where
  "lapsed now r = (inv_state r \<in> {EXECUTING, VALIDATING} \<and>
     (case lease_expires_at (inv_cols r) of None \<Rightarrow> False | Some t \<Rightarrow> t < now))"

definition lease_end :: "invocation \<Rightarrow> int" where
  "lease_end r = (case lease_expires_at (inv_cols r) of None \<Rightarrow> 0 | Some t \<Rightarrow> t)"

definition expired_leases :: "int \<Rightarrow> nat \<Rightarrow> store \<Rightarrow> invocation list" where
  "expired_leases now limit st =
     take limit (sort_key lease_end (filter (lapsed now) (invocations st)))"

definition same_lease :: "invocation \<Rightarrow> progress \<Rightarrow> bool" where
  "same_lease r c = (executor_lease_id c = executor_lease_id (inv_cols r) \<and>
     lease_expires_at c = lease_expires_at (inv_cols r))"

definition reaped_state :: "invocation \<Rightarrow> invocation_state" where
  "reaped_state r = (if inv_state r = EXECUTING then EXECUTION_INDETERMINATE else VALIDATION_FAILED)"

definition reap_columns :: "int \<Rightarrow> invocation \<Rightarrow> progress \<Rightarrow> progress" where
  "reap_columns now r c =
    (if inv_state r = EXECUTING then
       c\<lparr>finished_at := Some now, err_category := Some EC_EXECUTION_INDETERMINATE,
         err_detail := Some (ERROR_PHRASES EC_EXECUTION_INDETERMINATE)\<rparr>
     else
       c\<lparr>validation_outcome := Some INDETERMINATE, validated_at := Some now,
         finished_at := Some now, err_category := Some EC_VALIDATION_FAILED,
         err_detail := Some (ERROR_PHRASES EC_VALIDATION_FAILED)\<rparr>)"

definition reap_release :: "int \<Rightarrow> invocation \<Rightarrow> store \<Rightarrow> (bool \<times> invocation) run" where
  "reap_release now r st =
     release_lease_cas now r (reaped_state r)
       (category_value (if inv_state r = EXECUTING then EC_EXECUTION_INDETERMINATE
                        else EC_VALIDATION_FAILED))
       (if inv_state r = EXECUTING
        then [(''lease_expired_at'', jopt isoformat (lease_expires_at (inv_cols r)))] else [])
       (same_lease r) (reap_columns now r) st"

definition stood_down :: "invocation \<Rightarrow> store \<Rightarrow> store" where
  "stood_down r st = audit_record (audit_event ''tool.reap'' AUDIT_SUCCESS AUDIT_NOTICE r
     [(''state'', JStr (state_value (inv_state r)))] SYSTEM_PRINCIPAL) st"

definition audit_reaped :: "audit_severity \<Rightarrow> invocation \<Rightarrow> store \<Rightarrow> store" where
  "audit_reaped severity r st = audit_record (audit_event ''tool.reap'' AUDIT_FAILURE severity r
     [(''state'', JStr (state_value (inv_state r)))] SYSTEM_PRINCIPAL) st"

text \<open>\<open>_reap_one\<close>: a lost race is caught, so what it appended stays in the session.\<close>

definition reap_one :: "int \<Rightarrow> invocation \<Rightarrow> store \<Rightarrow> bool run" where
  "reap_one now r st =
     andThen (reap_release now r st) (\<lambda>((won, fresh), st1).
     if won then Inr (True, audit_reaped (if inv_state r = EXECUTING then AUDIT_CRITICAL
                                          else AUDIT_WARNING) fresh st1)
     else Inr (False, stood_down fresh st1))"

text \<open>One turn of a sweep's loop, which counts the rows it closed.\<close>

definition counting ::
  "(invocation \<Rightarrow> store \<Rightarrow> bool run) \<Rightarrow> nat \<times> store \<Rightarrow> invocation \<Rightarrow> nat run" where
  "counting step = (\<lambda>(n, s) r.
     andThen (step r s) (\<lambda>(hit, s'). Inr (if hit then Suc n else n, s')))"

definition reap_rows :: "int \<Rightarrow> invocation list \<Rightarrow> store \<Rightarrow> nat run" where
  "reap_rows now rows st = foldRes (counting (reap_one now)) (0, st) rows"

definition reap_expired_leases :: "int \<Rightarrow> nat \<Rightarrow> store \<Rightarrow> (acop_error + nat) \<times> store" where
  "reap_expired_leases now limit st = session (reap_rows now (expired_leases now limit st) st) st"

section \<open>The sweeper\<close>

definition sweep_candidates :: "nat \<Rightarrow> store \<Rightarrow> invocation list" where
  "sweep_candidates limit st = take limit (sort_key (\<lambda>r. s_requested_at (inv_snap r))
     (filter (\<lambda>r. inv_state r \<in> {AWAITING_APPROVAL, READY} \<and> s_approval_required (inv_snap r))
       (invocations st)))"

definition window_end :: "invocation \<Rightarrow> int" where
  "window_end r = (case approved_at (inv_cols r) of
      None \<Rightarrow> s_requested_at (inv_snap r) | Some t \<Rightarrow> t) + 1000 * s_ttl_seconds (inv_snap r)"

definition expire_one :: "int \<Rightarrow> invocation \<Rightarrow> store \<Rightarrow> bool run" where
  "expire_one now r st =
    (if now < window_end r then Inr (False, st)
     else andThen (transition_cas now r EXPIRED (reason_value PR_APPROVAL_EXPIRED) None [] anything
            (\<lambda>c. c\<lparr>finished_at := Some now, err_category := Some EC_APPROVAL_EXPIRED,
                   err_detail := Some (ERROR_PHRASES EC_APPROVAL_EXPIRED)\<rparr>) st)
          (\<lambda>((won, fresh), st1).
          if won then Inr (True, audit_record (audit_event ''tool.expire'' AUDIT_FAILURE AUDIT_NOTICE
                 fresh [(''ttl_seconds'', JInt (s_ttl_seconds (inv_snap fresh)))] SYSTEM_PRINCIPAL) st1)
          else Inr (False, st1)))"

definition expire_rows :: "int \<Rightarrow> invocation list \<Rightarrow> store \<Rightarrow> nat run" where
  "expire_rows now rows st = foldRes (counting (expire_one now)) (0, st) rows"

definition expire_stale :: "int \<Rightarrow> nat \<Rightarrow> store \<Rightarrow> (acop_error + nat) \<times> store" where
  "expire_stale now limit st = session (expire_rows now (sweep_candidates limit st) st) st"

section \<open>Both keep the store\<close>

lemma keeps_reap_columns [simp]: "keeps_state (reap_columns now r)"
  by (simp add: keeps_state_def reap_columns_def)

lemma reap_one_upholds: "upholds store_ok evolves st (reap_one now r st)"
  unfolding reap_one_def reap_release_def audit_reaped_def stood_down_def
  by (auto intro!: tool_store.upholds_bind release_lease_upholds upholds_intros
      simp: reaped_state_def)

lemma expire_one_upholds: "upholds store_ok evolves st (expire_one now r st)"
  unfolding expire_one_def
  by (auto intro!: tool_store.upholds_bind transition_cas_upholds upholds_intros
      simp: keeps_state_def)

lemma reap_rows_upholds: "upholds store_ok evolves st (reap_rows now rows st)"
  unfolding reap_rows_def
  by (rule tool_store.upholds_fold)
    (auto intro!: tool_store.upholds_bind reap_one_upholds simp: counting_def)

lemma expire_rows_upholds: "upholds store_ok evolves st (expire_rows now rows st)"
  unfolding expire_rows_def
  by (rule tool_store.upholds_fold)
    (auto intro!: tool_store.upholds_bind expire_one_upholds simp: counting_def)

section \<open>What is reaped\<close>

lemma reap_one_cases:
  assumes "reap_one now r st = Inr (hit, st')"
  obtains (won) row e a where "hit" "get_invocation (inv_id r) st = Some row"
      "inv_state row = inv_state r" "same_lease r (inv_cols row)"
      "st' = audit_record a (add_event e (upd_cols (inv_id r)
         (\<lambda>c. reap_columns now r (drop_lease (c\<lparr>state := reaped_state r\<rparr>))) st))"
  | (lost) row e a where "\<not> hit" "get_invocation (inv_id r) st = Some row"
      "\<not> (inv_state row = inv_state r \<and> same_lease r (inv_cols row))"
      "st' = audit_record a (add_event e st)"
proof -
  from assms obtain fresh st1 where run: "reap_release now r st = Inr ((hit, fresh), st1)"
    and st': "st' = (if hit then audit_reaped (if inv_state r = EXECUTING then AUDIT_CRITICAL
                  else AUDIT_WARNING) fresh st1 else stood_down fresh st1)"
    by (auto simp: reap_one_def andThen_eq_Inr split: if_splits)
  have audited: "\<exists>a. st' = audit_record a st1"
    using st' by (auto simp: audit_reaped_def stood_down_def)
  have keep: "state (reap_columns now r (drop_lease c)) = state c" for c
    by (simp add: reap_columns_def drop_lease_def)
  from run [unfolded reap_release_def release_lease_cas_def] keep show ?thesis
  proof (cases rule: transition_cas_cases)
    case (won row e)
    with audited show ?thesis by (elim exE) (rule that(1), auto)
  next
    case (lost e)
    with audited show ?thesis by (elim exE) (rule that(2), auto)
  qed
qed

lemma audit_record_rows [simp]:
  "get_invocation j (audit_record a st) = get_invocation j st"
  "invocations (audit_record a st) = invocations st"
  by (simp_all add: audit_record_def get_invocation_def)

lemma add_event_rows [simp]: "invocations (add_event e st) = invocations st"
  by (simp add: add_event_def)

text \<open>
  The reaper closes a row only if it still holds the very lease the candidate query judged
  lapsed; an interrupted execution becomes \<open>EXECUTION_INDETERMINATE\<close> and an interrupted
  validation \<open>VALIDATION_FAILED\<close>, never a success or a plain failure, the lease is dropped, and
  no result is written.  A row that moved on is left exactly as it is.
\<close>

theorem reaper_closes_only_its_candidate:
  assumes "inv_state r \<in> {EXECUTING, VALIDATING}" and "reap_one now r st = Inr (hit, st')"
  shows "\<exists>row row'. get_invocation (inv_id r) st = Some row \<and>
     (hit \<longleftrightarrow> inv_state row = inv_state r \<and> same_lease r (inv_cols row)) \<and>
     get_invocation (inv_id r) st' = Some row' \<and> inv_snap row' = inv_snap row \<and>
     result_summary (inv_cols row') = result_summary (inv_cols row) \<and>
     (if hit then executor_lease_id (inv_cols row') = None \<and> lease_expires_at (inv_cols row') = None \<and>
        inv_state row' = (if inv_state r = EXECUTING then EXECUTION_INDETERMINATE
                          else VALIDATION_FAILED)
      else row' = row) \<and>
     (\<forall>j. j = inv_id r \<or> get_invocation j st' = get_invocation j st)"
  using assms(2)
proof (cases rule: reap_one_cases)
  case (won row e a)
  then show ?thesis
    using get_other_rows
    by (auto simp: get_upd_cols reap_columns_def drop_lease_def reaped_state_def)
next
  case (lost row e a)
  then show ?thesis by auto
qed

text \<open>What the columns of a reaped row must still satisfy.\<close>

lemma checks_reaped:
  assumes "\<forall>c \<in> set (invocation_checks st r). snd c" and "leased (inv_state r)"
  shows "\<forall>c \<in> set (invocation_checks st
    (r\<lparr>inv_cols := reap_columns now q (drop_lease ((inv_cols r)\<lparr>state := reaped_state q\<rparr>))\<rparr>)). snd c"
proof -
  let ?r = "r\<lparr>inv_cols := reap_columns now q (drop_lease ((inv_cols r)\<lparr>state := reaped_state q\<rparr>))\<rparr>"
  have st: "inv_state ?r = reaped_state q" "\<not> leased (reaped_state q)"
    by (simp_all add: reap_columns_def drop_lease_def reaped_state_def)
  have "uq_tool_invocation_idem st ?r"
    using idem_of_checks [OF assms(1)] assms(2)
    by (cases "s_idempotency_key (inv_snap r)") (auto simp: uq_tool_invocation_idem_def)
  moreover have "invocation_fks st ?r = invocation_fks st r"
    by (simp add: invocation_fks_def reap_columns_def drop_lease_def)
  moreover have "\<forall>c \<in> set (progress_checks (inv_snap r) (inv_cols r)). snd c"
    using assms(1) unfolding invocation_checks_def set_append ball_Un by blast
  then have "\<forall>c \<in> set (progress_checks (inv_snap r) (inv_cols ?r)). snd c"
    using st by (auto simp add: progress_checks_def reap_columns_def drop_lease_def
        simp del: leased_simps)
  ultimately show ?thesis
    using assms(1) unfolding invocation_checks_def set_append ball_Un by simp
qed

lemma lapsed_leased: "lapsed now r \<Longrightarrow> leased (inv_state r)"
  by (auto simp: lapsed_def)

lemma reap_one_runs:
  assumes "store_ok st" and "get_invocation (inv_id r) st = Some r" and "lapsed now r"
  shows "\<exists>e a. reap_one now r st = Inr (True, audit_record a (add_event e (upd_cols (inv_id r)
         (\<lambda>c. reap_columns now r (drop_lease (c\<lparr>state := reaped_state r\<rparr>))) st)))"
proof -
  let ?columns = "\<lambda>c. reap_columns now r (drop_lease c)"
  have "r \<in> set (invocations st)" using get_invocationD [OF assms(2)] by simp
  from store_okD(4) [OF assms(1) this] checks_reaped [OF _ lapsed_leased [OF assms(3)]]
  have checks: "\<forall>c \<in> set (invocation_checks st
      (r\<lparr>inv_cols := ?columns ((inv_cols r)\<lparr>state := reaped_state r\<rparr>)\<rparr>)). snd c"
    by blast
  have legal: "is_legal_transition (inv_state r) (reaped_state r)"
    using assms(3) by (auto simp: lapsed_def reaped_state_def legal_simps)
  define reason where "reason = category_value (if inv_state r = EXECUTING
    then EC_EXECUTION_INDETERMINATE else EC_VALIDATION_FAILED)"
  define detail where "detail = (if inv_state r = EXECUTING
        then [(''lease_expired_at'', jopt isoformat (lease_expires_at (inv_cols r)))] else [])"
  from transition_runs [OF assms(2) refl _ legal, of "same_lease r" ?columns now reason None detail]
    checks obtain e where
    "transition now r (reaped_state r) reason None detail (same_lease r) ?columns st =
       Inr (r\<lparr>inv_cols := ?columns ((inv_cols r)\<lparr>state := reaped_state r\<rparr>)\<rparr>,
          add_event e (upd_cols (inv_id r) (\<lambda>c. ?columns (c\<lparr>state := reaped_state r\<rparr>)) st))"
    by (auto simp: same_lease_def)
  then have "\<exists>fresh. reap_release now r st = Inr ((True, fresh),
      add_event e (upd_cols (inv_id r) (\<lambda>c. ?columns (c\<lparr>state := reaped_state r\<rparr>)) st))"
    unfolding reap_release_def release_lease_cas_def transition_def reason_def [symmetric]
      detail_def [symmetric]
    by (auto simp: andThen_eq_Inr split: if_splits)
  then obtain fresh where run: "reap_release now r st = Inr ((True, fresh),
      add_event e (upd_cols (inv_id r) (\<lambda>c. ?columns (c\<lparr>state := reaped_state r\<rparr>)) st))" ..
  show ?thesis
    unfolding reap_one_def audit_reaped_def run andThen_Inr prod.case if_True
    by (intro exI) (rule refl)
qed

lemma counting_Cons:
  "foldRes (counting step) (n, st) (r # rows) = andThen (step r st) (\<lambda>(hit, st1).
     foldRes (counting step) (if hit then Suc n else n, st1) rows)"
  by (cases "step r st") (auto simp: counting_def)

lemma reap_rows_frame:
  assumes "foldRes (counting (reap_one now)) (n, st) rows = Inr (m, st')"
    and "j \<notin> inv_id ` set rows"
  shows "get_invocation j st' = get_invocation j st"
  using assms
proof (induction rows arbitrary: n st)
  case (Cons r rows)
  from Cons.prems(1) obtain hit st1 where one: "reap_one now r st = Inr (hit, st1)"
    and rest: "foldRes (counting (reap_one now)) (if hit then Suc n else n, st1) rows = Inr (m, st')"
    unfolding counting_Cons andThen_eq_Inr by auto
  from one have "get_invocation j st1 = get_invocation j st"
    by (cases rule: reap_one_cases) (use Cons.prems(2) get_other_rows in auto)
  with Cons.IH [OF rest] Cons.prems(2) show ?case by simp
qed simp

text \<open>How the reaper leaves a row it closes: no result is written, and the lease is gone.\<close>

definition reaped :: "invocation \<Rightarrow> invocation \<Rightarrow> bool" where
  "reaped r r' \<longleftrightarrow> inv_id r' = inv_id r \<and> inv_snap r' = inv_snap r \<and>
     inv_state r' = (if inv_state r = EXECUTING then EXECUTION_INDETERMINATE else VALIDATION_FAILED) \<and>
     executor_lease_id (inv_cols r') = None \<and> lease_expires_at (inv_cols r') = None \<and>
     result_summary (inv_cols r') = result_summary (inv_cols r)"

lemma reap_rows_run:
  assumes "store_ok st" and "distinct (map inv_id rows)"
    and "\<And>r. r \<in> set rows \<Longrightarrow> get_invocation (inv_id r) st = Some r \<and> lapsed now r"
  shows "\<exists>st'. foldRes (counting (reap_one now)) (n, st) rows = Inr (n + length rows, st') \<and>
     (\<forall>r \<in> set rows. \<exists>r'. get_invocation (inv_id r) st' = Some r' \<and> reaped r r')"
  using assms
proof (induction rows arbitrary: n st)
  case (Cons r rows)
  have "get_invocation (inv_id r) st = Some r" "lapsed now r" using Cons.prems(3) by auto
  from reap_one_runs [OF Cons.prems(1) this] obtain e a where one: "reap_one now r st = Inr (True,
      audit_record a (add_event e (upd_cols (inv_id r)
         (\<lambda>c. reap_columns now r (drop_lease (c\<lparr>state := reaped_state r\<rparr>))) st)))"
    (is "_ = Inr (True, ?st1)") by blast
  have ok1: "store_ok ?st1" using reap_one_upholds Cons.prems(1) one by (blast dest: upholdsD)
  have "get_invocation (inv_id q) ?st1 = Some q \<and> lapsed now q" if "q \<in> set rows" for q
  proof -
    from that have "inv_id q \<in> inv_id ` set rows" by (rule imageI)
    with Cons.prems(2) have "inv_id q \<noteq> inv_id r" by auto
    then show ?thesis using that Cons.prems(3) get_other_rows by simp
  qed
  from Cons.IH [OF ok1 _ this, of "Suc n"] Cons.prems(2) obtain st' where
    rest: "foldRes (counting (reap_one now)) (Suc n, ?st1) rows = Inr (Suc n + length rows, st')"
    and closed: "\<forall>q \<in> set rows. \<exists>q'. get_invocation (inv_id q) st' = Some q' \<and> reaped q q'"
    by auto
  have "\<exists>r'. get_invocation (inv_id r) st' = Some r' \<and> reaped r r'"
    using reap_rows_frame [OF rest, of "inv_id r"] Cons.prems(2) \<open>get_invocation (inv_id r) st = Some r\<close>
    by (simp add: get_upd_cols reaped_def reap_columns_def drop_lease_def reaped_state_def)
  with one rest closed show ?case unfolding counting_Cons by simp
qed simp

text \<open>The candidates: the lapsed rows whose lease ended first, as many as the limit lets through.\<close>

lemma expired_leases_facts:
  assumes "store_ok st"
  shows "distinct (map inv_id (expired_leases now limit st))"
    and "length (expired_leases now limit st) = min limit (length (filter (lapsed now) (invocations st)))"
    and "r \<in> set (expired_leases now limit st) \<Longrightarrow> get_invocation (inv_id r) st = Some r \<and> lapsed now r"
    and "r \<in> set (expired_leases now limit st) \<Longrightarrow> q \<in> set (invocations st) \<Longrightarrow> lapsed now q \<Longrightarrow>
      q \<in> set (expired_leases now limit st) \<or> lease_end r \<le> lease_end q"
proof -
  let ?rows = "sort_key lease_end (filter (lapsed now) (invocations st))"
  have "distinct (map inv_id (filter (lapsed now) (invocations st)))"
    using store_okD(1) [OF assms] by (simp add: distinct_map_filter)
  then have "distinct (map inv_id ?rows)" by (simp add: distinct_map)
  then show "distinct (map inv_id (expired_leases now limit st))"
    by (simp add: expired_leases_def take_map [symmetric])
  show "length (expired_leases now limit st) = min limit (length (filter (lapsed now) (invocations st)))"
    by (simp add: expired_leases_def)
  show "get_invocation (inv_id r) st = Some r \<and> lapsed now r" if "r \<in> set (expired_leases now limit st)"
    using in_set_takeD [OF that [unfolded expired_leases_def]] get_invocation_row [OF assms] by simp
  show "q \<in> set (expired_leases now limit st) \<or> lease_end r \<le> lease_end q"
    if "r \<in> set (expired_leases now limit st)" "q \<in> set (invocations st)" "lapsed now q"
  proof -
    have "q \<in> set ?rows" using that(2,3) by simp
    then have "q \<in> set (take limit ?rows) \<or> q \<in> set (drop limit ?rows)"
      by (metis Un_iff append_take_drop_id set_append)
    moreover have "sorted (map lease_end (take limit ?rows @ drop limit ?rows))" by simp
    then have "\<forall>a \<in> set (take limit ?rows). \<forall>b \<in> set (drop limit ?rows). lease_end a \<le> lease_end b"
      unfolding map_append sorted_append by auto
    ultimately show ?thesis using that(1) by (auto simp: expired_leases_def)
  qed
qed

lemma reap_sweep_run:
  assumes "store_ok st"
  shows "\<exists>st'. reap_expired_leases now limit st = (Inr (length (expired_leases now limit st)), st') \<and>
     (\<forall>r \<in> set (expired_leases now limit st). \<exists>r'. get_invocation (inv_id r) st' = Some r' \<and> reaped r r') \<and>
     (\<forall>j. j \<notin> inv_id ` set (expired_leases now limit st) \<longrightarrow> get_invocation j st' = get_invocation j st)"
proof -
  note facts = expired_leases_facts [where now = now and limit = limit, OF assms]
  from reap_rows_run [OF assms facts(1) facts(3), of 0] obtain st' where
    run: "foldRes (counting (reap_one now)) (0, st) (expired_leases now limit st) =
      Inr (length (expired_leases now limit st), st')"
    and closed: "\<forall>r \<in> set (expired_leases now limit st). \<exists>r'. get_invocation (inv_id r) st' = Some r' \<and> reaped r r'"
    by auto
  have "reap_expired_leases now limit st = (Inr (length (expired_leases now limit st)), st')"
    unfolding reap_expired_leases_def reap_rows_def run by (simp add: session_def)
  with closed reap_rows_frame [OF run] show ?thesis by blast
qed

text \<open>
  C40. Whatever its limit and however many leases have run out, a sweep of the reaper succeeds and closes
  as many invocations as the limit allows: only such as were executing or validating under a lease
  that has run out, the leases that ended first before the others; an interrupted execution ends as
  indeterminate and an interrupted validation as failed, without lease and without a result of its
  own.  Every other invocation keeps every column.
\<close>

theorem reaper_sweep:
  assumes "store_ok st"
  shows "\<exists>closed st'. reap_expired_leases now limit st = (Inr (card closed), st') \<and>
     card closed = min limit (length (filter (lapsed now) (invocations st))) \<and>
     closed \<subseteq> inv_id ` set (invocations st) \<and>
     (\<forall>j r. get_invocation j st = Some r \<longrightarrow> (\<exists>r'. get_invocation j st' = Some r' \<and>
        (if j \<in> closed
         then reaped r r' \<and> inv_state r \<in> {EXECUTING, VALIDATING} \<and>
           (\<exists>t. lease_expires_at (inv_cols r) = Some t \<and> t < now) \<and>
           (\<forall>q \<in> set (invocations st). lapsed now q \<longrightarrow> inv_id q \<in> closed \<or> lease_end r \<le> lease_end q)
         else r' = r)))"
proof -
  let ?rows = "expired_leases now limit st" and ?closed = "inv_id ` set (expired_leases now limit st)"
  note facts = expired_leases_facts [where now = now and limit = limit, OF assms]
  obtain st' where run: "reap_expired_leases now limit st = (Inr (length ?rows), st')"
    and closed: "\<forall>r \<in> set ?rows. \<exists>r'. get_invocation (inv_id r) st' = Some r' \<and> reaped r r'"
    and frame: "\<forall>j. j \<notin> ?closed \<longrightarrow> get_invocation j st' = get_invocation j st"
    using reap_sweep_run [OF assms] by blast
  have card: "card ?closed = length ?rows"
    using distinct_card [OF facts(1)] by simp
  have "\<exists>r'. get_invocation j st' = Some r' \<and> (if j \<in> ?closed
         then reaped r r' \<and> inv_state r \<in> {EXECUTING, VALIDATING} \<and>
           (\<exists>t. lease_expires_at (inv_cols r) = Some t \<and> t < now) \<and>
           (\<forall>q \<in> set (invocations st). lapsed now q \<longrightarrow> inv_id q \<in> ?closed \<or> lease_end r \<le> lease_end q)
         else r' = r)"
    if got: "get_invocation j st = Some r" for j r
  proof (cases "j \<in> ?closed")
    case True
    with facts(3) got have r: "r \<in> set ?rows" "lapsed now r" "inv_id r = j" by force+
    then show ?thesis using closed True facts(4) [OF r(1)] by (fastforce simp: lapsed_def split: option.splits)
  qed (use frame got in auto)
  moreover have "?closed \<subseteq> inv_id ` set (invocations st)"
    using facts(3) get_invocationD by blast
  ultimately show ?thesis using run facts(2) card by (intro exI [of _ ?closed] exI [of _ st']) simp
qed

section \<open>What is swept\<close>

text \<open>
  The sweeper expires an invocation only if it has not moved since it was read and the
  window of its own snapshot, from its approval or else its request, is over; a row that moved
  in between, like one whose window is open, keeps every column.
\<close>

theorem sweeper_expires_only_stale:
  assumes "expire_one now r st = Inr (hit, st')"
  shows "(if hit then window_end r \<le> now \<and>
       (\<exists>row row'. get_invocation (inv_id r) st = Some row \<and> inv_state row = inv_state r \<and>
          get_invocation (inv_id r) st' = Some row' \<and> inv_state row' = EXPIRED \<and>
          inv_snap row' = inv_snap row \<and> err_category (inv_cols row') = Some EC_APPROVAL_EXPIRED)
      else invocations st' = invocations st) \<and>
     (\<forall>j. j = inv_id r \<or> get_invocation j st' = get_invocation j st)"
proof (cases "now < window_end r")
  case True
  with assms show ?thesis by (simp add: expire_one_def)
next
  case False
  let ?columns = "\<lambda>c. c\<lparr>finished_at := Some now, err_category := Some EC_APPROVAL_EXPIRED,
                   err_detail := Some (ERROR_PHRASES EC_APPROVAL_EXPIRED)\<rparr>"
  from assms False obtain fresh st1 where
    run: "transition_cas now r EXPIRED (reason_value PR_APPROVAL_EXPIRED) None [] anything ?columns st
      = Inr ((hit, fresh), st1)"
    and same: "invocations st' = invocations st1"
    by (auto simp: expire_one_def andThen_eq_Inr simp del: ERROR_PHRASES.simps reason_value.simps
        split: if_splits)
  then have rows: "invocations st' = invocations st1" "get_invocation j st' = get_invocation j st1" for j
    by (simp_all add: get_invocation_def)
  have "state (?columns c) = state c" for c by simp
  with run show ?thesis
  proof (cases rule: transition_cas_cases)
    case (won row e)
    then show ?thesis using False rows get_other_rows by (auto simp: get_upd_cols)
  next
    case (lost e)
    then show ?thesis using rows by auto
  qed
qed

text \<open>
  The limit is applied before the window is looked at: while the oldest \<open>limit\<close> candidates
  are all within their windows, a sweep expires nothing at all, however many later candidates
  are overdue.
\<close>

theorem sweeper_starves:
  assumes "list_all (\<lambda>r. now < window_end r) (sweep_candidates limit st)"
  shows "expire_stale now limit st = (Inr 0, st)"
proof -
  have "foldRes (counting (expire_one now)) (0, st) rows = Inr (0, st)"
    if "list_all (\<lambda>r. now < window_end r) rows" for rows
    using that
  proof (induction rows)
    case (Cons r rows)
    then have "expire_one now r st = Inr (False, st)" by (simp add: expire_one_def)
    with Cons show ?case unfolding counting_Cons by simp
  qed simp
  with assms show ?thesis by (simp add: expire_stale_def expire_rows_def session_def)
qed

end
