(* ===== verification/Reconciliation.thy ===== *)
theory Reconciliation
  imports Reaper
begin

text \<open>
  \<open>services/tools/reconciliation.py\<close>: a human's determination about an execution whose outcome
  is unknown.  It is appended beside the invocation and moves nothing.
\<close>

definition new_reconciliation ::
  "int \<Rightarrow> invocation \<Rightarrow> principal \<Rightarrow> disposition \<Rightarrow> string \<Rightarrow> jobj option \<Rightarrow> uuid \<Rightarrow> reconciliation" where
  "new_reconciliation now r p disp justification evidence new_id =
     \<lparr>rec_id = new_id, rec_invocation = inv_id r, rec_disposition = disp,
      rec_justification = justification,
      rec_evidence = redact_obj (case evidence of None \<Rightarrow> [] | Some e \<Rightarrow> e),
      rec_by = to_audit_fields p, rec_at = now\<rparr>"

definition audit_reconciled :: "invocation \<Rightarrow> principal \<Rightarrow> disposition \<Rightarrow> store \<Rightarrow> store" where
  "audit_reconciled r p disp st = audit_record
     (audit_event ''tool.reconcile'' AUDIT_SUCCESS AUDIT_NOTICE r
       [(''disposition'', JStr (disposition_value disp))] p) st"

definition reconcile_body ::
  "int \<Rightarrow> uuid \<Rightarrow> principal \<Rightarrow> disposition \<Rightarrow> string \<Rightarrow> jobj option \<Rightarrow> store \<Rightarrow> reconciliation run" where
  "reconcile_body now i p disp justification evidence st = (case get_invocation i st of
     None \<Rightarrow> Inl (ToolErr ToolNotFoundError)
   | Some r \<Rightarrow>
       if inv_state r \<noteq> EXECUTION_INDETERMINATE then Inl (ToolErr ToolPolicyDeniedError)
       else
         andThen (insert_reconciliation (new_reconciliation now r p disp justification evidence) st)
           (\<lambda>(row, st1).
         andThen (append_event now i (Some EXECUTION_INDETERMINATE) EXECUTION_INDETERMINATE
           (''reconciled:'' @ lower (disposition_value disp)) (Some (p_subject p))
           [(''reconciliation_id'', JStr (uuid_text (rec_id row)))] st1) (\<lambda>(e, st2).
         Inr (row, audit_reconciled r p disp st2))))"

definition reconcile ::
  "int \<Rightarrow> uuid \<Rightarrow> principal \<Rightarrow> disposition \<Rightarrow> string \<Rightarrow> jobj option \<Rightarrow> store \<Rightarrow>
   (acop_error + reconciliation) \<times> store" where
  "reconcile now i p disp justification evidence st =
     session (reconcile_body now i p disp justification evidence st) st"

definition history :: "uuid \<Rightarrow> store \<Rightarrow> reconciliation list" where
  "history i st = sort_key rec_at (filter (\<lambda>r. rec_invocation r = i) (reconciliations st))"

section \<open>What a determination changes\<close>

definition add_reconciliation :: "reconciliation \<Rightarrow> store \<Rightarrow> store" where
  "add_reconciliation r st =
     st\<lparr>reconciliations := reconciliations st @ [r], next_id := Suc (next_id st)\<rparr>"

lemma add_reconciliation_frame [simp]:
  "events (add_reconciliation a st) = events st"
  "invocations (add_reconciliation a st) = invocations st"
  "approvals (add_reconciliation a st) = approvals st"
  "audits (add_reconciliation a st) = audits st"
  "registrations (add_reconciliation a st) = registrations st"
  "assets (add_reconciliation a st) = assets st"
  "identifiers (add_reconciliation a st) = identifiers st"
  "denials (add_reconciliation a st) = denials st"
  "reconciliations (add_reconciliation a st) = reconciliations st @ [a]"
  "next_id (add_reconciliation a st) = Suc (next_id st)"
  "get_invocation i (add_reconciliation a st) = get_invocation i st"
  "events_of i (add_reconciliation a st) = events_of i st"
  "snapshots (add_reconciliation a st) = snapshots st"
  "approver_count i (add_reconciliation a st) = approver_count i st"
  by (simp_all add: add_reconciliation_def get_invocation_def events_of_def snapshots_def
      approver_count_def)

lemma add_reconciliation_ok:
  assumes "store_ok st"
  shows "store_ok (add_reconciliation a st) \<and> evolves st (add_reconciliation a st)"
proof
  have "history_ok (add_reconciliation a st) r = history_ok st r" for r
    by (simp add: history_ok_def)
  moreover have "entered (add_reconciliation a st) r = entered st r" for r
    by (simp add: entered_def)
  moreover have "invocation_checks (add_reconciliation a st) r = invocation_checks st r" for r
    by (rule invocation_checks_cong) simp_all
  moreover have "approval_ok (add_reconciliation a st) x = approval_ok st x" for x
    by (rule approval_ok_cong) simp
  ultimately show "store_ok (add_reconciliation a st)"
    using assms unfolding store_ok_def by (simp add: approved_list_def less_SucI)
  show "evolves st (add_reconciliation a st)" by (simp add: evolves_def)
qed

lemma insert_reconciliation_shape:
  assumes "insert_reconciliation mk st = Inr (a, st')"
  shows "a = mk (next_id st) \<and> st' = add_reconciliation a st \<and>
    (\<forall>c \<in> set (reconciliation_checks st a). snd c)"
  using assms unfolding insert_reconciliation_def Let_def andThen_eq_Inr enforce_Inr
  by (auto simp: add_reconciliation_def)

lemma reconcile_body_cases:
  assumes "reconcile_body now i p disp justification evidence st = Inr (row, st')"
  obtains r e a where "get_invocation i st = Some r" "inv_state r = EXECUTION_INDETERMINATE"
    "row = new_reconciliation now r p disp justification evidence (next_id st)"
    "strip justification \<noteq> []"
    "st' = audit_record a (add_event e (add_reconciliation row st))"
    "ev_invocation e = i" "ev_from e = Some EXECUTION_INDETERMINATE"
    "ev_to e = EXECUTION_INDETERMINATE" "ev_sequence e = next_sequence i st"
proof -
  from assms obtain r st1 e st2 where r: "get_invocation i st = Some r"
      "inv_state r = EXECUTION_INDETERMINATE"
    and ins: "insert_reconciliation (new_reconciliation now r p disp justification evidence) st =
      Inr (row, st1)"
    and ev: "append_event now i (Some EXECUTION_INDETERMINATE) EXECUTION_INDETERMINATE
      (''reconciled:'' @ lower (disposition_value disp)) (Some (p_subject p))
      [(''reconciliation_id'', JStr (uuid_text (rec_id row)))] st1 = Inr (e, st2)"
    and st': "st' = audit_reconciled r p disp st2"
    by (auto simp: reconcile_body_def andThen_eq_Inr split: option.splits if_splits)
  note shape = insert_reconciliation_shape [OF ins]
  then have "strip justification \<noteq> []"
    by (auto simp: reconciliation_checks_def new_reconciliation_def)
  with shape append_event_shape [OF ev] r st' show ?thesis
    by (intro that [of r _ e]) (auto simp: audit_reconciled_def next_sequence_def)
qed

lemma reconcile_body_upholds:
  "upholds store_ok evolves st (reconcile_body now i p disp justification evidence st)"
proof (cases "get_invocation i st")
  case None
  then show ?thesis by (simp add: reconcile_body_def)
next
  case (Some r)
  show ?thesis
  proof (cases "inv_state r = EXECUTION_INDETERMINATE")
    case True
    have "upholds store_ok evolves st1 (append_event now i (Some EXECUTION_INDETERMINATE)
        EXECUTION_INDETERMINATE reason actor detail st1)"
      if "get_invocation i st1 = Some r" for st1 reason actor detail
      using note_upholds [OF that] unfolding True .
    moreover have "upholds store_ok evolves st (insert_reconciliation mk st)" for mk
      unfolding upholds_def
      using add_reconciliation_ok insert_reconciliation_shape [of mk st] by blast
    moreover have "get_invocation i st1 = Some r"
      if "insert_reconciliation mk st = Inr (a, st1)" for mk a st1
      using insert_reconciliation_shape [OF that] Some by simp
    ultimately show ?thesis
      using Some True unfolding reconcile_body_def audit_reconciled_def
      by (auto intro!: tool_store.upholds_bind audited_upholds)
  qed (simp add: reconcile_body_def Some)
qed

text \<open>
  A determination is accepted only about an execution whose outcome is unknown and only with
  a justification, and it rewrites nothing: the invocation, in particular its state, stays as it
  is, one determination and one event are appended, and the store stays acceptable.
\<close>

theorem determination_changes_no_outcome:
  assumes "store_ok st"
    and "reconcile now i p disp justification evidence st = (Inr row, st')"
  shows "\<exists>r e. get_invocation i st = Some r \<and> inv_state r = EXECUTION_INDETERMINATE \<and>
     strip justification \<noteq> [] \<and> invocations st' = invocations st \<and>
     reconciliations st' = reconciliations st @ [row] \<and> rec_disposition row = disp \<and>
     rec_by row = to_audit_fields p \<and> masked (JObj (rec_evidence row)) \<and>
     events st' = events st @ [e] \<and> ev_from e = Some (ev_to e) \<and>
     approvals st' = approvals st \<and> store_ok st'"
proof -
  from assms(2) have run: "reconcile_body now i p disp justification evidence st = Inr (row, st')"
    by (auto simp: reconcile_def session_def split: sum.splits)
  have ok: "store_ok st'" using upholdsD [OF reconcile_body_upholds assms(1) run] by simp
  have "masked (redact (JObj kvs))" for kvs unfolding redact_def by (rule masked_redact_at)
  then have masked: "masked (JObj (redact_obj kvs))" for kvs by (simp add: redact_JObj)
  from run show ?thesis
  proof (cases rule: reconcile_body_cases)
    case (1 r e a)
    then show ?thesis
      using ok masked
      by (intro exI [of _ r] exI [of _ e])
        (auto simp: new_reconciliation_def audit_record_def split: option.splits)
  qed
qed

end
