(* ===== verification/Registry.thy ===== *)
theory Registry
  imports Reconciliation
begin

text \<open>
  \<open>tools/registry.py\<close> and the lifecycle half of \<open>api/routes/tools.py\<close>: the code registry, its
  one-way reconciliation into the registration table, which tools a caller is shown, and taking
  a version out of service.  \<open>CODE_REGISTRY\<close> is the list of its declarations in insertion
  order.
\<close>

section \<open>The code registry\<close>

text \<open>
  \<open>again\<close> says whether the declaration is the very object registered under that key, which
  Python decides by identity.
\<close>

definition register ::
  "string list \<Rightarrow> bool \<Rightarrow> tool_definition \<Rightarrow> tool_definition list \<Rightarrow>
   declaration_error option + tool_definition list" where
  "register adapter_ids again d registry = (case validate_declaration adapter_ids d of
     Inl e \<Rightarrow> Inl (Some e)
   | Inr u \<Rightarrow>
       if get_definition registry (td_name d) (td_version d) = None then Inr (registry @ [d])
       else if again then Inr registry else Inl None)"

definition all_definitions :: "tool_definition list \<Rightarrow> tool_definition list" where
  "all_definitions registry = sort_key (\<lambda>d. [td_name d, td_version d]) registry"

section \<open>Reconciliation\<close>

definition reg_key :: "registration \<Rightarrow> string \<times> string" where
  "reg_key r = (reg_name r, reg_version r)"

record reconcile_report =
  rp_registered :: "string list"
  rp_unchanged :: "string list"
  rp_retired :: "string list"
  rp_rehashed :: "string list"

definition empty_report :: reconcile_report where
  "empty_report = \<lparr>rp_registered = [], rp_unchanged = [], rp_retired = [], rp_rehashed = []\<rparr>"

definition new_registration :: "uuid \<Rightarrow> tool_definition \<Rightarrow> string \<Rightarrow> registration" where
  "new_registration i d digest =
     \<lparr>reg_id = i, reg_name = td_name d, reg_version = td_version d, reg_contract_hash = digest,
      reg_lifecycle = td_lifecycle_default d, reg_disabled_at = None, reg_disabled_by = None,
      reg_disabled_reason = None, reg_retired_at = None, reg_retired_reason = None\<rparr>"

text \<open>One turn of the loop over the declarations; \<open>olds\<close> are the rows read at the start.\<close>

definition reconcile_definition ::
  "(string \<Rightarrow> string) \<Rightarrow> bool \<Rightarrow> registration list \<Rightarrow> reconcile_report \<times> registration list \<times> uuid \<Rightarrow>
   tool_definition \<Rightarrow> acop_error + reconcile_report \<times> registration list \<times> uuid" where
  "reconcile_definition sha256 allow_rehash olds acc d =
    (case acc of (report, rows, n) \<Rightarrow>
     let digest = contract_hash sha256 d; name = qualified_name d in
     case find (\<lambda>r. reg_key r = td_key d) olds of
       None \<Rightarrow> Inr (report\<lparr>rp_registered := rp_registered report @ [name]\<rparr>,
                 rows @ [new_registration n d digest], Suc n)
     | Some row \<Rightarrow>
         if reg_contract_hash row = digest then
           Inr (report\<lparr>rp_unchanged := rp_unchanged report @ [name]\<rparr>, rows, n)
         else if \<not> allow_rehash then Inl ConfigurationError
         else Inr (report\<lparr>rp_rehashed := rp_rehashed report @ [name]\<rparr>,
                upd_rows (\<lambda>r. reg_id r = reg_id row) (\<lambda>r. r\<lparr>reg_contract_hash := digest\<rparr>) rows, n))"

definition retire_row :: "int \<Rightarrow> registration \<Rightarrow> registration" where
  "retire_row now r = r\<lparr>reg_lifecycle := RETIRED, reg_retired_at := Some now,
     reg_retired_reason := Some ''No code declaration for this tool version.''\<rparr>"

definition undeclared :: "tool_definition list \<Rightarrow> registration \<Rightarrow> bool" where
  "undeclared registry r = (reg_key r \<notin> td_key ` set registry)"

definition retires :: "tool_definition list \<Rightarrow> registration \<Rightarrow> bool" where
  "retires registry r = (undeclared registry r \<and> reg_lifecycle r \<noteq> RETIRED)"

definition registrations_checks :: "registration list \<Rightarrow> registration list \<Rightarrow> (string \<times> bool) list" where
  "registrations_checks olds rows =
     concat (map registration_checks (filter (\<lambda>r. r \<notin> set olds) rows)) @
     [(''uq_tool_registration_nv'', distinct (map reg_key rows))]"

definition reconcile_registry ::
  "(string \<Rightarrow> string) \<Rightarrow> bool \<Rightarrow> int \<Rightarrow> tool_definition list \<Rightarrow> store \<Rightarrow> reconcile_report run" where
  "reconcile_registry sha256 allow_rehash now registry st =
    (let olds = registrations st in
     andThen (foldRes (reconcile_definition sha256 allow_rehash olds)
        (empty_report, olds, next_id st) (all_definitions registry)) (\<lambda>(report, rows, n).
     let rows' = upd_rows (retires registry) (retire_row now) rows;
         retired = map (\<lambda>r. reg_name r @ ''@'' @ reg_version r) (filter (retires registry) olds) in
     andThen (enforce (registrations_checks olds rows')) (\<lambda>_.
     Inr (report\<lparr>rp_retired := retired\<rparr>, st\<lparr>registrations := rows', next_id := n\<rparr>))))"

section \<open>What a caller is shown\<close>

definition invocable_by :: "tool_definition \<Rightarrow> principal \<Rightarrow> bool" where
  "invocable_by d p = (\<not> td_prohibited d \<and>
     set (td_required_roles d) \<subseteq> role_value ` set (effective_roles (p_roles p)))"

definition active_row :: "store \<Rightarrow> tool_definition \<Rightarrow> bool" where
  "active_row st d = (case registration_of (td_name d) (td_version d) st of
     None \<Rightarrow> False | Some row \<Rightarrow> reg_lifecycle row = ACTIVE)"

definition list_tools :: "tool_definition list \<Rightarrow> principal \<Rightarrow> store \<Rightarrow> tool_definition list" where
  "list_tools registry p st =
     filter (\<lambda>d. active_row st d \<and> invocable_by d p) (all_definitions registry)"

text \<open>\<open>max(live, key=...)\<close> returns the first maximal element.\<close>

fun max_by :: "('a \<Rightarrow> 'k :: linorder) \<Rightarrow> 'a \<Rightarrow> 'a list \<Rightarrow> 'a" where
  "max_by key best [] = best"
| "max_by key best (x # xs) = max_by key (if key best < key x then x else best) xs"

definition get_tool ::
  "tool_definition list \<Rightarrow> string \<Rightarrow> principal \<Rightarrow> store \<Rightarrow> acop_error + tool_definition" where
  "get_tool registry name p st =
    (case filter (\<lambda>d. td_name d = name) (list_tools registry p st) of
       [] \<Rightarrow> Inl NotFoundError | d # ds \<Rightarrow> Inr (max_by td_version d ds))"

definition list_versions ::
  "tool_definition list \<Rightarrow> string \<Rightarrow> principal \<Rightarrow> store \<Rightarrow>
   acop_error + (tool_definition \<times> registration) list" where
  "list_versions registry name p st =
    (let out = concat (map (\<lambda>d. case registration_of (td_name d) (td_version d) st of
           None \<Rightarrow> []
         | Some row \<Rightarrow>
             if td_name d = name \<and> (has_role p (role_value ADMIN) \<or>
                  reg_lifecycle row = ACTIVE \<and> invocable_by d p) then [(d, row)] else [])
         (all_definitions registry)) in
     if out = [] then Inl NotFoundError else Inr out)"

section \<open>Taking a version out of service\<close>

definition lifecycle_target ::
  "tool_definition list \<Rightarrow> string \<Rightarrow> string \<Rightarrow> store \<Rightarrow> acop_error + registration \<times> tool_definition" where
  "lifecycle_target registry name version st =
    (case (registration_of name version st, get_definition registry name version) of
       (Some row, Some d) \<Rightarrow> Inr (row, d) | _ \<Rightarrow> Inl NotFoundError)"

text \<open>Assign to a registration row, flush, and audit.\<close>

definition audit_lifecycle ::
  "string \<Rightarrow> audit_severity \<Rightarrow> registration \<Rightarrow> tool_definition \<Rightarrow> string \<Rightarrow> principal \<Rightarrow> store \<Rightarrow> store" where
  "audit_lifecycle action severity row d reason p st = audit_record
     \<lparr>au_action = action, au_outcome = AUDIT_SUCCESS, au_severity = severity,
      au_resource_id = reg_id row, au_class = Some (td_class d),
      au_context = redact_obj [(''reason'', JStr reason)], au_principal = to_audit_fields p,
      au_request_id = None\<rparr> st"

definition update_registration ::
  "registration \<Rightarrow> (registration \<Rightarrow> registration) \<Rightarrow> store \<Rightarrow> registration run" where
  "update_registration row f st =
     andThen (enforce (registration_checks (f row))) (\<lambda>_.
     Inr (f row, st\<lparr>registrations := upd_rows (\<lambda>r. reg_id r = reg_id row) f (registrations st)\<rparr>))"

definition disable_tool ::
  "tool_definition list \<Rightarrow> int \<Rightarrow> string \<Rightarrow> string \<Rightarrow> string \<Rightarrow> principal \<Rightarrow> store \<Rightarrow> registration run" where
  "disable_tool registry now name version reason p st =
     andThen (lifecycle_target registry name version st) (\<lambda>(row, d).
     andThen (update_registration row (\<lambda>r. r\<lparr>reg_lifecycle := DISABLED, reg_disabled_at := Some now,
         reg_disabled_by := Some (p_subject p), reg_disabled_reason := Some reason\<rparr>) st) (\<lambda>(row', st1).
     Inr (row', audit_lifecycle ''tool.disable'' AUDIT_WARNING row' d reason p st1)))"

definition enable_tool ::
  "tool_definition list \<Rightarrow> string \<Rightarrow> string \<Rightarrow> string \<Rightarrow> principal \<Rightarrow> store \<Rightarrow> registration run" where
  "enable_tool registry name version reason p st =
     andThen (lifecycle_target registry name version st) (\<lambda>(row, d).
     if reg_lifecycle row = RETIRED then Inl NotFoundError
     else
       andThen (update_registration row (\<lambda>r. r\<lparr>reg_lifecycle := ACTIVE, reg_disabled_at := None,
           reg_disabled_by := None, reg_disabled_reason := None\<rparr>) st) (\<lambda>(row', st1).
       Inr (row', audit_lifecycle ''tool.enable'' AUDIT_NOTICE row' d reason p st1)))"

section \<open>Reconciliation goes one way\<close>

text \<open>What the registration table always satisfies.\<close>

definition registry_ok :: "store \<Rightarrow> bool" where
  "registry_ok st \<longleftrightarrow> distinct (map reg_id (registrations st)) \<and>
     distinct (map reg_key (registrations st)) \<and>
     (\<forall>r \<in> set (registrations st). reg_id r < next_id st \<and> (\<forall>c \<in> set (registration_checks r). snd c))"

lemma registry_okD:
  assumes "registry_ok st"
  shows "distinct (map reg_id (registrations st))" and "distinct (map reg_key (registrations st))"
    and "r \<in> set (registrations st) \<Longrightarrow> reg_id r < next_id st"
    and "r \<in> set (registrations st) \<Longrightarrow> c \<in> set (registration_checks r) \<Longrightarrow> snd c"
  using assms unfolding registry_ok_def by blast+

lemma find_key:
  "distinct (map f xs) \<Longrightarrow> x \<in> set xs \<Longrightarrow> find (\<lambda>y. f y = f x) xs = Some x"
  using find_row_distinct [of f xs x] by (simp add: find_row_def)

lemma set_all_definitions [simp]: "set (all_definitions registry) = set registry"
  by (simp add: all_definitions_def)

definition missing :: "registration list \<Rightarrow> tool_definition list \<Rightarrow> tool_definition list" where
  "missing olds ds = filter (\<lambda>d. find (\<lambda>r. reg_key r = td_key d) olds = None) ds"

lemma reconcile_definition_None:
  "find (\<lambda>r. reg_key r = td_key d) olds = None \<Longrightarrow>
   \<exists>report1. reconcile_definition sha256 allow_rehash olds (report, rows, n) d =
     Inr (report1, rows @ [new_registration n d (contract_hash sha256 d)], Suc n)"
  by (simp add: reconcile_definition_def Let_def)

lemma reconcile_definition_Some:
  "find (\<lambda>r. reg_key r = td_key d) olds = Some row \<Longrightarrow>
   reconcile_definition sha256 False olds (report, rows, n) d =
     (if reg_contract_hash row = contract_hash sha256 d
      then Inr (report\<lparr>rp_unchanged := rp_unchanged report @ [qualified_name d]\<rparr>, rows, n)
      else Inl ConfigurationError)"
  by (simp add: reconcile_definition_def Let_def)

lemma reconcile_definition_Inl:
  "reconcile_definition sha256 allow_rehash olds acc d = Inl e \<Longrightarrow> e = ConfigurationError"
  by (auto simp: reconcile_definition_def Let_def split: prod.splits option.splits if_splits)

lemma new_registration_simps [simp]:
  "reg_key (new_registration i d h) = td_key d" "reg_id (new_registration i d h) = i"
  "reg_contract_hash (new_registration i d h) = h"
  "reg_lifecycle (new_registration i d h) = td_lifecycle_default d"
  by (simp_all add: new_registration_def reg_key_def td_key_def)

text \<open>The loop without rehashing: every stored hash agrees, and what is missing is appended.\<close>

lemma reconcile_fold:
  assumes "foldRes (reconcile_definition sha256 False olds) (report, rows, n) ds = Inr (report', rows', n')"
  shows "\<exists>news. rows' = rows @ news \<and> n' = n + length news \<and>
     map reg_key news = map td_key (missing olds ds) \<and> map reg_id news = [n..<n + length news] \<and>
     (\<forall>r \<in> set news. \<exists>d \<in> set ds. r = new_registration (reg_id r) d (contract_hash sha256 d)) \<and>
     (\<forall>d \<in> set ds. \<forall>row. find (\<lambda>r. reg_key r = td_key d) olds = Some row \<longrightarrow>
        reg_contract_hash row = contract_hash sha256 d)"
  using assms
proof (induction ds arbitrary: report rows n)
  case Nil
  then show ?case by (simp add: missing_def)
next
  case (Cons d ds)
  show ?case
  proof (cases "find (\<lambda>r. reg_key r = td_key d) olds")
    case None
    let ?new = "new_registration n d (contract_hash sha256 d)"
    from reconcile_definition_None [OF None] obtain report1 where
      "reconcile_definition sha256 False olds (report, rows, n) d = Inr (report1, rows @ [?new], Suc n)"
      by blast
    with Cons.prems have
      "foldRes (reconcile_definition sha256 False olds) (report1, rows @ [?new], Suc n) ds =
        Inr (report', rows', n')"
      by simp
    from Cons.IH [OF this] obtain news where news: "rows' = (rows @ [?new]) @ news"
        "n' = Suc n + length news" "map reg_key news = map td_key (missing olds ds)"
        "map reg_id news = [Suc n..<Suc n + length news]"
      and rest: "\<forall>r \<in> set news. \<exists>d \<in> set ds. r = new_registration (reg_id r) d (contract_hash sha256 d)"
        "\<forall>d \<in> set ds. \<forall>row. find (\<lambda>r. reg_key r = td_key d) olds = Some row \<longrightarrow>
           reg_contract_hash row = contract_hash sha256 d"
      by auto
    have "[n..<n + length (?new # news)] = n # [Suc n..<Suc n + length news]"
      by (simp add: upt_conv_Cons del: upt_Suc)
    with news rest None show ?thesis
      by (intro exI [of _ "?new # news"]) (auto simp: missing_def simp del: upt_Suc)
  next
    case (Some row)
    with Cons.prems have hash: "reg_contract_hash row = contract_hash sha256 d"
      by (auto simp: reconcile_definition_Some split: if_splits)
    with Cons.prems Some obtain report1 where
      "foldRes (reconcile_definition sha256 False olds) (report1, rows, n) ds = Inr (report', rows', n')"
      by (auto simp: reconcile_definition_Some)
    from Cons.IH [OF this] hash Some show ?thesis by (auto simp: missing_def)
  qed
qed

lemma reconcile_fold_Inl:
  "foldRes (reconcile_definition sha256 allow_rehash olds) acc ds = Inl e \<Longrightarrow> e = ConfigurationError"
  by (induction ds arbitrary: acc) (auto simp: andThen_eq_Inl dest: reconcile_definition_Inl)

text \<open>
  A declaration whose contract changed under an unchanged version stops reconciliation, and
  with it the start of the process, before anything is written.
\<close>

theorem contract_drift_is_refused:
  assumes "registry_ok st" and "d \<in> set registry" and "row \<in> set (registrations st)"
    and "reg_key row = td_key d" and "reg_contract_hash row \<noteq> contract_hash sha256 d"
  shows "session (reconcile_registry sha256 False now registry st) st = (Inl ConfigurationError, st)"
proof -
  have found: "find (\<lambda>r. reg_key r = td_key d) (registrations st) = Some row"
    using find_key [OF registry_okD(2) [OF assms(1)] assms(3)] assms(4) by simp
  have "foldRes (reconcile_definition sha256 False (registrations st))
      (empty_report, registrations st, next_id st) (all_definitions registry) \<noteq> Inr (rep, rows, n)"
    for rep rows n
    using reconcile_fold found assms(2,5) by fastforce
  then obtain e where "foldRes (reconcile_definition sha256 False (registrations st))
      (empty_report, registrations st, next_id st) (all_definitions registry) = Inl e"
    by (cases "foldRes (reconcile_definition sha256 False (registrations st))
      (empty_report, registrations st, next_id st) (all_definitions registry)") auto
  with reconcile_fold_Inl [OF this] show ?thesis
    by (simp add: reconcile_registry_def session_def)
qed

lemma reconcile_registry_shape:
  assumes "reconcile_registry sha256 False now registry st = Inr (report, st')"
  obtains news n where "map reg_key news = map td_key (missing (registrations st) (all_definitions registry))"
    "map reg_id news = [next_id st..<next_id st + length news]" "n = next_id st + length news"
    "st' = st\<lparr>registrations := upd_rows (retires registry) (retire_row now) (registrations st) @ news,
              next_id := n\<rparr>"
    "\<forall>c \<in> set (registrations_checks (registrations st) (registrations st')). snd c"
    "\<forall>r \<in> set news. \<exists>d \<in> set registry. r = new_registration (reg_id r) d (contract_hash sha256 d)"
    "\<forall>d \<in> set registry. \<forall>row. find (\<lambda>r. reg_key r = td_key d) (registrations st) = Some row \<longrightarrow>
       reg_contract_hash row = contract_hash sha256 d"
proof -
  let ?olds = "registrations st"
  from assms obtain report1 rows n where
    fold: "foldRes (reconcile_definition sha256 False ?olds) (empty_report, ?olds, next_id st)
      (all_definitions registry) = Inr (report1, rows, n)"
    and checks: "\<forall>c \<in> set (registrations_checks ?olds (upd_rows (retires registry) (retire_row now) rows)). snd c"
    and st': "st' = st\<lparr>registrations := upd_rows (retires registry) (retire_row now) rows, next_id := n\<rparr>"
    by (auto simp: reconcile_registry_def Let_def andThen_eq_Inr enforce_Inr)
  from reconcile_fold [OF fold] obtain news where news: "rows = ?olds @ news"
      "n = next_id st + length news" "map reg_key news = map td_key (missing ?olds (all_definitions registry))"
      "map reg_id news = [next_id st..<next_id st + length news]"
      "\<forall>r \<in> set news. \<exists>d \<in> set registry. r = new_registration (reg_id r) d (contract_hash sha256 d)"
      "\<forall>d \<in> set registry. \<forall>row. find (\<lambda>r. reg_key r = td_key d) ?olds = Some row \<longrightarrow>
         reg_contract_hash row = contract_hash sha256 d"
    by auto
  have "\<not> retires registry r" if "r \<in> set news" for r
  proof -
    from that news(5) obtain d where d: "d \<in> set registry"
      and r: "r = new_registration (reg_id r) d (contract_hash sha256 d)" by blast
    from r have "reg_key r = td_key d" by (metis new_registration_simps(1))
    with d show ?thesis by (auto simp: retires_def undeclared_def)
  qed
  then have "upd_rows (retires registry) (retire_row now) rows =
      upd_rows (retires registry) (retire_row now) ?olds @ news"
    unfolding news(1) upd_rows_append using upd_rows_none by metis
  with checks st' news show ?thesis by (intro that [of news n]) simp_all
qed

lemma retire_row_simps [simp]:
  "reg_id (retire_row now r) = reg_id r" "reg_key (retire_row now r) = reg_key r"
  "reg_contract_hash (retire_row now r) = reg_contract_hash r"
  "reg_lifecycle (retire_row now r) = RETIRED"
  by (simp_all add: retire_row_def reg_key_def)

text \<open>
  Reconciliation writes code into the database and nothing the other way.  Every declaration
  ends with a row that holds its contract hash; every row without a declaration ends
  \<open>RETIRED\<close>; any other old row keeps its lifecycle and its hash; new rows are only those of
  declarations that had none; and no invocation, approval or event is touched.
\<close>

theorem reconciliation_is_one_way:
  assumes "registry_ok st"
    and "reconcile_registry sha256 False now registry st = Inr (report, st')"
  shows "\<exists>news. registrations st' =
       map (\<lambda>r. if undeclared registry r \<and> reg_lifecycle r \<noteq> RETIRED then retire_row now r else r)
         (registrations st) @ news \<and>
     map reg_key news = map td_key (missing (registrations st) (all_definitions registry)) \<and>
     (\<forall>d \<in> set registry. \<exists>r \<in> set (registrations st').
        reg_key r = td_key d \<and>
        (\<exists>d' \<in> set registry. td_key d' = td_key d \<and> reg_contract_hash r = contract_hash sha256 d')) \<and>
     (\<forall>r \<in> set (registrations st'). undeclared registry r \<longrightarrow> reg_lifecycle r = RETIRED) \<and>
     invocations st' = invocations st \<and> approvals st' = approvals st \<and> events st' = events st"
  using assms(2)
proof (cases rule: reconcile_registry_shape)
  case (1 news n)
  let ?old = "upd_rows (retires registry) (retire_row now) (registrations st)"
  have rows: "registrations st' = ?old @ news" using 1(4) by simp
  have declared: "\<exists>r \<in> set (registrations st'). reg_key r = td_key d \<and>
      (\<exists>d' \<in> set registry. td_key d' = td_key d \<and> reg_contract_hash r = contract_hash sha256 d')"
    if d: "d \<in> set registry" for d
  proof (cases "find (\<lambda>r. reg_key r = td_key d) (registrations st)")
    case None
    then have "td_key d \<in> td_key ` set (missing (registrations st) (all_definitions registry))"
      using d by (auto simp: missing_def)
    then have "td_key d \<in> set (map reg_key news)" unfolding 1(1) by simp
    then obtain r where r: "r \<in> set news" "reg_key r = td_key d" by auto
    with 1(6) obtain d' where d': "d' \<in> set registry"
      and shape: "r = new_registration (reg_id r) d' (contract_hash sha256 d')" by blast
    from shape have "reg_key r = td_key d'" "reg_contract_hash r = contract_hash sha256 d'"
      by (metis new_registration_simps(1), metis new_registration_simps(3))
    with r d' rows show ?thesis by auto
  next
    case (Some row)
    then have row: "row \<in> set (registrations st)" "reg_key row = td_key d"
      by (auto simp: find_Some_iff)
    then have "\<not> retires registry row" using d by (auto simp: retires_def undeclared_def)
    then have "row \<in> set ?old" using row by (force simp: set_upd_rows)
    with 1(7) d Some row rows show ?thesis by auto
  qed
  have "reg_lifecycle r = RETIRED" if r: "r \<in> set (registrations st')" "undeclared registry r" for r
  proof -
    have "r \<notin> set news"
      using 1(6) r(2) new_registration_simps(1) unfolding undeclared_def by (metis image_eqI)
    with r(1) rows obtain q where "q \<in> set (registrations st)"
      "r = (if retires registry q then retire_row now q else q)"
      by (auto simp: set_upd_rows)
    with r(2) show ?thesis by (auto simp: retires_def split: if_splits)
  qed
  with declared rows 1(1,4) show ?thesis
    unfolding retires_def [symmetric] upd_rows_def [symmetric] by (intro exI [of _ news]) auto
qed

lemma reconcile_registry_ok:
  assumes "registry_ok st" and "reconcile_registry sha256 False now registry st = Inr (report, st')"
  shows "registry_ok st'"
  using assms(2)
proof (cases rule: reconcile_registry_shape)
  case (1 news n)
  let ?old = "upd_rows (retires registry) (retire_row now) (registrations st)"
  have rows: "registrations st' = ?old @ news" "next_id st' = n" using 1(4) by simp_all
  have ids: "map reg_id ?old = map reg_id (registrations st)"
    by (rule map_upd_rows_frame) simp
  have old: "reg_id r < next_id st" if "r \<in> set ?old" for r
    using that registry_okD(3) [OF assms(1)] by (auto simp: set_upd_rows)
  have new: "next_id st \<le> reg_id r \<and> reg_id r < n" if "r \<in> set news" for r
  proof -
    from that have "reg_id r \<in> set (map reg_id news)" by simp
    then show ?thesis unfolding 1(2) 1(3) by simp
  qed
  have "map reg_id (registrations st') =
      map reg_id (registrations st) @ [next_id st..<next_id st + length news]"
    unfolding rows map_append ids 1(2) ..
  then have "distinct (map reg_id (registrations st'))"
    using registry_okD(1,3) [OF assms(1)] by (fastforce simp del: upt_Suc)
  moreover have "distinct (map reg_key (registrations st'))"
    using 1(5) by (simp add: registrations_checks_def)
  moreover have "\<forall>c \<in> set (registration_checks r). snd c" if r: "r \<in> set (registrations st')" for r
  proof (cases "r \<in> set (registrations st)")
    case True
    with registry_okD(4) [OF assms(1)] show ?thesis by blast
  next
    case False
    with r 1(5) show ?thesis by (auto simp: registrations_checks_def)
  qed
  moreover have "reg_id r < next_id st'" if "r \<in> set (registrations st')" for r
    using that rows old new 1(3) by (auto simp: trans_less_add1)
  ultimately show ?thesis unfolding registry_ok_def by blast
qed

text \<open>Rewriting registrations keeps every invocation acceptable as long as no id disappears.\<close>

lemma registrations_store_ok:
  assumes "store_ok st" and "reg_id ` set (registrations st) \<subseteq> reg_id ` set rows"
    and "next_id st \<le> n" and st': "st' = st\<lparr>registrations := rows, next_id := n\<rparr>"
  shows "store_ok st'"
proof -
  have "\<forall>c \<in> set (invocation_checks st' r). snd c" if "r \<in> set (invocations st)" for r
  proof -
    have old: "\<forall>c \<in> set (invocation_checks st r). snd c"
      using store_okD(4) [OF assms(1) that] by blast
    then have fks: "\<forall>c \<in> set (invocation_fks st r). snd c"
      unfolding invocation_checks_def set_append ball_Un by blast
    then have "\<forall>c \<in> set (invocation_fks st' r). snd c"
      using assms(2) st'
      by (cases "s_target_asset_id (inv_snap r)"; cases "final_gate_event_id (inv_cols r)")
        (auto simp add: invocation_fks_def)
    moreover have "uq_tool_invocation_idem st' r = uq_tool_invocation_idem st r"
      by (simp add: uq_tool_invocation_idem_def st' split: option.splits)
    ultimately show ?thesis
      using old unfolding invocation_checks_def set_append ball_Un by auto
  qed
  moreover have "history_ok st' r = history_ok st r" "entered st' r = entered st r" for r
    by (simp_all add: history_ok_def entered_def events_of_def approver_count_def st')
  moreover have "approval_ok st' a = approval_ok st a" for a
    by (rule approval_ok_cong) (simp add: snapshots_def st')
  ultimately show ?thesis
    using assms(1,3) unfolding store_ok_def by (auto simp: st' approved_list_def)
qed

lemma reconcile_store_ok:
  assumes "store_ok st" and "reconcile_registry sha256 False now registry st = Inr (report, st')"
  shows "store_ok st'"
  using assms(2)
proof (cases rule: reconcile_registry_shape)
  case (1 news n)
  have "reg_id ` set (upd_rows (retires registry) (retire_row now) (registrations st)) =
      reg_id ` set (registrations st)"
    unfolding set_upd_rows image_image by (rule image_cong) simp_all
  then show ?thesis
    using 1(3,4) by (intro registrations_store_ok [OF assms(1) _ _ 1(4)]) auto
qed

text \<open>
  Nothing brings a retired version back: reconciliation leaves its row exactly as it is even
  when the declaration is in the code again, and enabling it is refused as not found.
\<close>

theorem retired_is_final:
  assumes "registry_ok st" and "row \<in> set (registrations st)" and "reg_lifecycle row = RETIRED"
    and "reconcile_registry sha256 False now registry st = Inr (report, st')"
  shows "row \<in> set (registrations st') \<and>
     session (enable_tool registry' (reg_name row) (reg_version row) reason p st') st' =
       (Inl NotFoundError, st')"
proof
  have "row \<in> set (upd_rows (retires registry) (retire_row now) (registrations st))"
    using assms(2,3) by (force simp: set_upd_rows retires_def)
  with assms(4) show row: "row \<in> set (registrations st')"
    by (cases rule: reconcile_registry_shape) auto
  have "find (\<lambda>r. reg_key r = reg_key row) (registrations st') = Some row"
    by (rule find_key [OF registry_okD(2) [OF reconcile_registry_ok [OF assms(1,4)]] row])
  then have "registration_of (reg_name row) (reg_version row) st' = Some row"
    by (simp add: registration_of_def reg_key_def)
  then show "session (enable_tool registry' (reg_name row) (reg_version row) reason p st') st' =
      (Inl NotFoundError, st')"
    using assms(3)
    by (cases "get_definition registry' (reg_name row) (reg_version row)")
      (simp_all add: enable_tool_def lifecycle_target_def session_def)
qed

text \<open>
  A version that was disabled before its declaration was removed cannot be retired: the
  reconciliation sets \<open>RETIRED\<close> without clearing the columns of the disablement, the row
  violates its own constraint, and the start of the process fails with nothing written.
\<close>

theorem disabled_row_blocks_reconciliation:
  assumes "registry_ok st" and "row \<in> set (registrations st)" and "reg_lifecycle row = DISABLED"
    and "undeclared registry row"
  shows "\<exists>e. session (reconcile_registry sha256 False now registry st) st = (Inl e, st)"
proof (cases "reconcile_registry sha256 False now registry st")
  case (Inl e)
  then show ?thesis by (simp add: session_def)
next
  case (Inr out)
  then obtain report st' where "reconcile_registry sha256 False now registry st = Inr (report, st')"
    by (cases out) auto
  then show ?thesis
  proof (cases rule: reconcile_registry_shape)
    case (1 news n)
    have "retires registry row" using assms(3,4) by (simp add: retires_def)
    then have new: "retire_row now row \<in> set (registrations st')"
      using 1(4) assms(2) by (force simp: set_upd_rows)
    have "retire_row now row \<notin> set (registrations st)"
    proof
      assume "retire_row now row \<in> set (registrations st)"
      then have "retire_row now row = row"
        using registry_okD(1) [OF assms(1)] assms(2)
        by (metis find_key option.inject retire_row_simps(1))
      with assms(3) show False by (metis retire_row_simps(4) tool_lifecycle.distinct(5))
    qed
    with new 1(5) have "\<forall>c \<in> set (registration_checks (retire_row now row)). snd c"
      by (auto simp: registrations_checks_def)
    moreover have "\<forall>c \<in> set (registration_checks row). snd c"
      using registry_okD(4) [OF assms(1,2)] by blast
    ultimately show ?thesis using assms(3) by (simp add: registration_checks_def retire_row_def)
  qed
qed

section \<open>Taking a tool out of service\<close>

lemma update_registration_shape:
  "update_registration row f st = Inr (row', st') \<longleftrightarrow> row' = f row \<and>
     (\<forall>c \<in> set (registration_checks row'). snd c) \<and>
     st' = st\<lparr>registrations := upd_rows (\<lambda>r. reg_id r = reg_id row) f (registrations st)\<rparr>"
  unfolding update_registration_def andThen_eq_Inr enforce_Inr by auto

lemma disable_tool_shape:
  assumes "disable_tool registry now name version reason p st = Inr (row', st')"
  obtains row d f a where "registration_of name version st = Some row"
    "get_definition registry name version = Some d" "row' = f row" "reg_id row' = reg_id row"
    "reg_lifecycle row' = DISABLED" "\<And>r. reg_id (f r) = reg_id r \<and> reg_key (f r) = reg_key r"
    "\<forall>c \<in> set (registration_checks row'). snd c"
    "st' = audit_record a (st\<lparr>registrations :=
       upd_rows (\<lambda>r. reg_id r = reg_id row) f (registrations st)\<rparr>)"
proof -
  let ?f = "\<lambda>r. r\<lparr>reg_lifecycle := DISABLED, reg_disabled_at := Some now,
         reg_disabled_by := Some (p_subject p), reg_disabled_reason := Some reason\<rparr>"
  from assms obtain row d st1 where target: "lifecycle_target registry name version st = Inr (row, d)"
    and upd: "update_registration row ?f st = Inr (row', st1)"
    and st': "st' = audit_lifecycle ''tool.disable'' AUDIT_WARNING row' d reason p st1"
    by (auto simp: disable_tool_def andThen_eq_Inr)
  from target have "registration_of name version st = Some row"
    "get_definition registry name version = Some d"
    by (auto simp: lifecycle_target_def split: option.splits)
  with upd [unfolded update_registration_shape] st' show ?thesis
    by (intro that [of row d ?f]) (auto simp: reg_key_def audit_lifecycle_def)
qed

text \<open>
  Disabling a version acts on work that is queued already: once it is disabled the final gate
  refuses every invocation made under its registration, at any later instant, so none of them
  reaches an adapter.
\<close>

theorem disabling_stops_queued_work:
  assumes "registry_ok st"
    and "disable_tool registry now name version reason p st = Inr (row', st')"
    and "s_registration_id (inv_snap r) = reg_id row'"
  shows "final_gate sha256 registry' later r st' \<in>
     {Inl PR_CAPABILITY_NOT_BOUND, Inl PR_TOOL_DISABLED}"
  using assms(2)
proof (cases rule: disable_tool_shape)
  case (1 row d f a)
  have "row \<in> set (registrations st)"
    using 1(1) by (auto simp: registration_of_def find_Some_iff)
  then have "find_row reg_id (reg_id row) (registrations st) = Some row"
    using find_row_distinct [OF registry_okD(1) [OF assms(1)]] by blast
  then have "get_registration (s_registration_id (inv_snap r)) st' = Some row'"
    using assms(3) 1(3,4,6,8)
    by (simp add: get_registration_def audit_record_def find_row_upd_rows)
  then show ?thesis
    using 1(5) by (auto simp: final_gate_def Let_def split: option.splits)
qed

section \<open>What is listed\<close>

text \<open>
  A caller is shown a tool exactly when it is active, not flagged as prohibited, and the
  caller holds the roles that the policy engine's role gate asks for.
\<close>

theorem listed_iff_role_gate_passes:
  "d \<in> set (list_tools registry p st) \<longleftrightarrow>
     d \<in> set registry \<and> active_row st d \<and> \<not> td_prohibited d \<and> holds_required_roles p d"
  by (auto simp: list_tools_def invocable_by_def holds_required_roles_def list_all_iff)

end
