(* ===== verification/Catalog.thy ===== *)
theory Catalog
  imports Registry
begin

text \<open>
  \<open>tools/catalog/\<close>: the sixteen declarations.  The Pydantic models they name, with the schemas
  and validators generated from them, are parameters; everything the declarations themselves
  state is written out.
\<close>

section \<open>Models and defaults\<close>

record catalog_models =
  EmptyInput :: tool_model
  HealthSummaryOut :: tool_model
  EchoIn :: tool_model
  EchoOut :: tool_model
  DeviceStatusIn :: tool_model
  DeviceStatusOut :: tool_model
  ServiceRestartIn :: tool_model
  ServiceRestartOut :: tool_model
  RotateKeyIn :: tool_model
  RotateKeyOut :: tool_model
  ProhibitedIn :: tool_model
  NeverOut :: tool_model
  ClusterStatusOut :: tool_model
  NodeListOut :: tool_model
  NodeStatusOut :: tool_model
  NodeNetworkOut :: tool_model
  GuestListOut :: tool_model
  VmStatusOut :: tool_model
  VmConfigOut :: tool_model
  ContainerStatusOut :: tool_model
  ContainerConfigOut :: tool_model
  StorageListOut :: tool_model

text \<open>The required fields of \<open>ToolDefinition\<close>, and the dataclass's defaults for the others.\<close>

definition ToolDefinition ::
  "string \<Rightarrow> string \<Rightarrow> permission_class \<Rightarrow> string \<Rightarrow> tool_model \<Rightarrow> tool_model \<Rightarrow> string \<Rightarrow>
   string list \<Rightarrow> tool_definition" where
  "ToolDefinition name version cls description input output adapter roles =
     \<lparr>td_name = name, td_version = version, td_class = cls, td_description = description,
      td_input_model = input, td_output_model = output, td_adapter_id = adapter,
      td_required_roles = roles, td_target_type = TK_NONE, td_target_asset_types = [],
      td_capability_tags = [], td_prohibited = False,
      td_approval_policy = default_approval_policy, td_validation_required = False,
      td_validation_delay_milli = 0, td_timeout_milli = 30000,
      td_idempotency = NATURALLY_IDEMPOTENT, td_adapter_idempotent = True,
      td_retry_policy = default_retry_policy, td_sensitivity = INTERNAL,
      td_output_allow_list = [], td_lifecycle_default = ACTIVE,
      td_allow_registration_for_testing = False\<rparr>"

section \<open>The framework's own tools\<close>

definition SYSTEM_HEALTH :: "catalog_models \<Rightarrow> tool_definition" where
  "SYSTEM_HEALTH ms =
     (ToolDefinition ''acop.system.health'' ''1.0'' CLASS_0_INFORMATION
        ''Report ACOP's own health and the status of its dependencies.''
        (EmptyInput ms) (HealthSummaryOut ms) ''acop.local'' [role_value VIEWER])
     \<lparr>td_timeout_milli := 5000,
      td_retry_policy := default_retry_policy\<lparr>max_attempts := 2, backoff_milli := 500\<rparr>\<rparr>"

definition ECHO_METADATA :: "catalog_models \<Rightarrow> tool_definition" where
  "ECHO_METADATA ms =
     (ToolDefinition ''acop.test.echo_metadata'' ''1.0'' CLASS_0_INFORMATION
        ''Return the invocation's own metadata. Changes nothing.''
        (EchoIn ms) (EchoOut ms) ''acop.local'' [role_value VIEWER])
     \<lparr>td_timeout_milli := 2000, td_retry_policy := default_retry_policy\<lparr>max_attempts := 1\<rparr>\<rparr>"

definition DEVICE_STATUS :: "catalog_models \<Rightarrow> tool_definition" where
  "DEVICE_STATUS ms =
     (ToolDefinition ''test.device.status'' ''1.0'' CLASS_1_READ_ONLY
        ''Report an asset's reachability and, optionally, its known facts.''
        (DeviceStatusIn ms) (DeviceStatusOut ms) ''test.simulated'' [role_value VIEWER])
     \<lparr>td_target_type := TK_ASSET,
      td_target_asset_types := [''DEVICE'', ''HOST'', ''VM'', ''SERVICE''],
      td_timeout_milli := 10000,
      td_retry_policy := default_retry_policy\<lparr>max_attempts := 2,
        retry_on := [EC_ADAPTER_UNAVAILABLE, EC_TARGET_UNAVAILABLE]\<rparr>\<rparr>"

definition SERVICE_RESTART :: "catalog_models \<Rightarrow> tool_definition" where
  "SERVICE_RESTART ms =
     (ToolDefinition ''test.service.restart'' ''1.0'' CLASS_2_LOW_RISK_CHANGE
        ''Restart a simulated service. Requires approval and validation.''
        (ServiceRestartIn ms) (ServiceRestartOut ms) ''test.simulated'' [role_value OPERATOR])
     \<lparr>td_target_type := TK_ASSET, td_target_asset_types := [''SERVICE''],
      td_capability_tags := [''service.restart''],
      td_approval_policy := \<lparr>approval_required = True, min_approvals = 1,
        approver_roles = map role_value APPROVAL_AUTHORITY_ROLES,
        distinct_approvers_required = False, ttl_seconds = 3600, allowed_environments = [],
        self_approval_permitted = False\<rparr>,
      td_validation_required := True, td_validation_delay_milli := 50,
      td_timeout_milli := 30000, td_idempotency := KEYED,
      td_retry_policy := default_retry_policy\<lparr>max_attempts := 1\<rparr>\<rparr>"

definition ROTATE_KEY :: "catalog_models \<Rightarrow> tool_definition" where
  "ROTATE_KEY ms =
     (ToolDefinition ''test.security.rotate_key'' ''1.0'' CLASS_3_HIGH_RISK_CHANGE
        ''Rotate a simulated credential slot. Two distinct approvers required.''
        (RotateKeyIn ms) (RotateKeyOut ms) ''test.simulated'' [role_value OPERATOR])
     \<lparr>td_target_type := TK_ASSET, td_target_asset_types := [''DEVICE'', ''HOST''],
      td_capability_tags := [''credential.rotate''],
      td_approval_policy := \<lparr>approval_required = True, min_approvals = 2,
        approver_roles = map role_value APPROVAL_AUTHORITY_ROLES,
        distinct_approvers_required = True, ttl_seconds = 900, allowed_environments = [],
        self_approval_permitted = False\<rparr>,
      td_validation_required := True, td_validation_delay_milli := 0,
      td_timeout_milli := 20000, td_idempotency := KEYED, td_adapter_idempotent := False,
      td_retry_policy := default_retry_policy\<lparr>max_attempts := 1\<rparr>,
      td_sensitivity := CONFIDENTIAL,
      td_output_allow_list := [''asset_id'', ''key_slot'', ''key_identifier'', ''rotated_at'']\<rparr>"

definition PROHIBITED_SHELL_EXEC :: "catalog_models \<Rightarrow> tool_definition" where
  "PROHIBITED_SHELL_EXEC ms =
     (ToolDefinition ''test.prohibited.shell_exec'' ''1.0'' PROHIBITED
        ''Never executes. Exists to prove the prohibition mechanism.''
        (ProhibitedIn ms) (NeverOut ms) ''test.simulated'' [role_value ADMIN])
     \<lparr>td_target_type := TK_ASSET, td_target_asset_types := [''HOST''],
      td_capability_tags := [''arbitrary.shell''], td_prohibited := True,
      td_allow_registration_for_testing := True,
      td_approval_policy := default_approval_policy\<lparr>approval_required := True,
        min_approvals := 1, approver_roles := map role_value APPROVAL_AUTHORITY_ROLES,
        ttl_seconds := 300\<rparr>,
      td_validation_required := True, td_timeout_milli := 5000,
      td_idempotency := NON_IDEMPOTENT, td_adapter_idempotent := False,
      td_retry_policy := default_retry_policy\<lparr>max_attempts := 1\<rparr>,
      td_sensitivity := CONFIDENTIAL\<rparr>"

section \<open>The Proxmox reads\<close>

definition TIMEOUT_DIRECT :: int where "TIMEOUT_DIRECT = 20000"

definition TIMEOUT_RESOLVED :: int where "TIMEOUT_RESOLVED = 35000"

definition TIMEOUT_FANOUT :: int where "TIMEOUT_FANOUT = 90000"

definition read_only ::
  "catalog_models \<Rightarrow> string \<Rightarrow> string \<Rightarrow> tool_model \<Rightarrow> string list \<Rightarrow> string list \<Rightarrow> int \<Rightarrow>
   tool_definition" where
  "read_only ms name description output asset_types tags timeout =
     (ToolDefinition name ''1.0'' CLASS_1_READ_ONLY description (EmptyInput ms) output ''proxmox''
        [role_value VIEWER])
     \<lparr>td_target_type := TK_ASSET, td_target_asset_types := asset_types,
      td_capability_tags := tags, td_timeout_milli := timeout,
      td_retry_policy := default_retry_policy\<lparr>max_attempts := 2,
        retry_on := [EC_ADAPTER_UNAVAILABLE, EC_TARGET_UNAVAILABLE]\<rparr>\<rparr>"

definition PROXMOX_CLUSTER_STATUS :: "catalog_models \<Rightarrow> tool_definition" where
  "PROXMOX_CLUSTER_STATUS ms = read_only ms ''proxmox.cluster.status''
     ''Report the Proxmox instance's own cluster membership and quorum state, including whether it is a standalone node.''
     (ClusterStatusOut ms) [''CLUSTER''] [''proxmox.read'', ''cluster.status''] TIMEOUT_DIRECT"

definition PROXMOX_NODE_LIST :: "catalog_models \<Rightarrow> tool_definition" where
  "PROXMOX_NODE_LIST ms = read_only ms ''proxmox.node.list''
     ''List the nodes of a Proxmox instance with their coarse health.''
     (NodeListOut ms) [''CLUSTER''] [''proxmox.read'', ''node.inventory''] TIMEOUT_DIRECT"

definition PROXMOX_GUEST_LIST :: "catalog_models \<Rightarrow> tool_definition" where
  "PROXMOX_GUEST_LIST ms = read_only ms ''proxmox.guest.list''
     ''List every guest on a Proxmox instance, QEMU and LXC together, with the node each one is running on.''
     (GuestListOut ms) [''CLUSTER''] [''proxmox.read'', ''guest.inventory''] TIMEOUT_DIRECT"

definition PROXMOX_STORAGE_LIST :: "catalog_models \<Rightarrow> tool_definition" where
  "PROXMOX_STORAGE_LIST ms = read_only ms ''proxmox.storage.list''
     ''List storage as each online node sees it, carrying the source node so node-local and shared definitions stay distinguishable.''
     (StorageListOut ms) [''CLUSTER''] [''proxmox.read'', ''storage.inventory''] TIMEOUT_FANOUT"

definition PROXMOX_NODE_STATUS :: "catalog_models \<Rightarrow> tool_definition" where
  "PROXMOX_NODE_STATUS ms = read_only ms ''proxmox.node.status''
     ''Report one Proxmox node's resource usage and software versions.''
     (NodeStatusOut ms) [''HOST''] [''proxmox.read'', ''node.status''] TIMEOUT_RESOLVED"

definition PROXMOX_NODE_NETWORK :: "catalog_models \<Rightarrow> tool_definition" where
  "PROXMOX_NODE_NETWORK ms = read_only ms ''proxmox.node.network''
     ''Report one Proxmox node's network interfaces, bridges and addresses.''
     (NodeNetworkOut ms) [''HOST''] [''proxmox.read'', ''network.read''] TIMEOUT_RESOLVED"

definition PROXMOX_VM_STATUS :: "catalog_models \<Rightarrow> tool_definition" where
  "PROXMOX_VM_STATUS ms = read_only ms ''proxmox.vm.status''
     ''Report one QEMU guest's current run state and resource usage.''
     (VmStatusOut ms) [''VM''] [''proxmox.read'', ''vm.status''] TIMEOUT_RESOLVED"

definition PROXMOX_VM_CONFIG :: "catalog_models \<Rightarrow> tool_definition" where
  "PROXMOX_VM_CONFIG ms = read_only ms ''proxmox.vm.config''
     ''Report one QEMU guest's configuration, including its SMBIOS UUID, vmgenid and configuration digest where Proxmox provides them.''
     (VmConfigOut ms) [''VM''] [''proxmox.read'', ''vm.config.read''] TIMEOUT_RESOLVED"

definition PROXMOX_CONTAINER_STATUS :: "catalog_models \<Rightarrow> tool_definition" where
  "PROXMOX_CONTAINER_STATUS ms = read_only ms ''proxmox.container.status''
     ''Report one LXC container's current run state and resource usage.''
     (ContainerStatusOut ms) [''CONTAINER''] [''proxmox.read'', ''container.status''] TIMEOUT_RESOLVED"

definition PROXMOX_CONTAINER_CONFIG :: "catalog_models \<Rightarrow> tool_definition" where
  "PROXMOX_CONTAINER_CONFIG ms = read_only ms ''proxmox.container.config''
     ''Report one LXC container's configuration. LXC exposes no durable lifecycle identifier and ACOP does not invent one.''
     (ContainerConfigOut ms) [''CONTAINER''] [''proxmox.read'', ''container.config.read''] TIMEOUT_RESOLVED"

definition PROXMOX_TOOLS :: "catalog_models \<Rightarrow> tool_definition list" where
  "PROXMOX_TOOLS ms =
    [PROXMOX_CLUSTER_STATUS ms,
     PROXMOX_NODE_LIST ms,
     PROXMOX_NODE_STATUS ms,
     PROXMOX_NODE_NETWORK ms,
     PROXMOX_GUEST_LIST ms,
     PROXMOX_VM_STATUS ms,
     PROXMOX_VM_CONFIG ms,
     PROXMOX_CONTAINER_STATUS ms,
     PROXMOX_CONTAINER_CONFIG ms,
     PROXMOX_STORAGE_LIST ms]"

section \<open>The catalog\<close>

definition CATALOG :: "catalog_models \<Rightarrow> tool_definition list" where
  "CATALOG ms =
     [SYSTEM_HEALTH ms, ECHO_METADATA ms, DEVICE_STATUS ms, SERVICE_RESTART ms, ROTATE_KEY ms,
      PROHIBITED_SHELL_EXEC ms] @ PROXMOX_TOOLS ms"

text \<open>The ids \<open>tools/adapters/\<close> registers.\<close>

definition ADAPTER_IDS :: "string list" where
  "ADAPTER_IDS = [''acop.local'', ''test.simulated'', ''proxmox'']"

lemmas framework_tool_defs = SYSTEM_HEALTH_def ECHO_METADATA_def DEVICE_STATUS_def
  SERVICE_RESTART_def ROTATE_KEY_def PROHIBITED_SHELL_EXEC_def

lemmas proxmox_tool_defs = PROXMOX_CLUSTER_STATUS_def PROXMOX_NODE_LIST_def PROXMOX_NODE_STATUS_def PROXMOX_NODE_NETWORK_def PROXMOX_GUEST_LIST_def PROXMOX_VM_STATUS_def PROXMOX_VM_CONFIG_def PROXMOX_CONTAINER_STATUS_def PROXMOX_CONTAINER_CONFIG_def PROXMOX_STORAGE_LIST_def

section \<open>Facts\<close>

definition passes_but_schema :: "tool_definition \<Rightarrow> bool" where
  "passes_but_schema d \<longleftrightarrow>
     check_identity d = Inr () \<and> check_class_agreement d = Inr () \<and>
     check_approval_policy d = Inr () \<and> check_prohibition d = Inr () \<and>
     check_idempotency d = Inr () \<and> check_adapter_binding ADAPTER_IDS d = Inr ()"

lemma catalog_passes: "list_all passes_but_schema (CATALOG ms)"
  by code_simp

text \<open>
  Every declaration of the catalog passes all import-time rules, whatever its models, as soon as
  their schemas pass the schema rule; the versions declared are all different; only two of them
  may change anything; and the one prohibited capability is the one that is marked for testing.
\<close>

theorem catalog_is_well_declared:
  "list_all (\<lambda>d. validate_declaration ADAPTER_IDS d = check_input_schema d) (CATALOG ms) \<and>
   distinct (map td_key (CATALOG ms)) \<and>
   map td_name (filter (\<lambda>d. change_class (td_class d)) (CATALOG ms)) =
     [''test.service.restart'', ''test.security.rotate_key''] \<and>
   map td_name (filter is_prohibited (CATALOG ms)) = [''test.prohibited.shell_exec''] \<and>
   filter is_prohibited (CATALOG ms) = filter td_allow_registration_for_testing (CATALOG ms)"
proof -
  have "validate_declaration ADAPTER_IDS d = check_input_schema d" if "passes_but_schema d" for d
    using that by (cases "check_input_schema d") (simp_all add: passes_but_schema_def validate_declaration_def)
  then have "list_all (\<lambda>d. validate_declaration ADAPTER_IDS d = check_input_schema d) (CATALOG ms)"
    using catalog_passes by (auto simp: list_all_iff)
  moreover have "distinct (map td_key (CATALOG ms))" by code_simp
  moreover have "map td_name (filter (\<lambda>d. change_class (td_class d)) (CATALOG ms)) =
     [''test.service.restart'', ''test.security.rotate_key'']" by code_simp
  moreover have "map td_name (filter is_prohibited (CATALOG ms)) = [''test.prohibited.shell_exec'']"
    by code_simp
  moreover have "list_all (\<lambda>d. is_prohibited d = td_allow_registration_for_testing d) (CATALOG ms)"
    by code_simp
  then have "filter is_prohibited (CATALOG ms) = filter td_allow_registration_for_testing (CATALOG ms)"
    by (intro filter_cong) (auto simp: list_all_iff)
  ultimately show ?thesis by blast
qed

end
