(* ===== verification/Routes.thy ===== *)
theory Routes
  imports Catalog
begin

text \<open>
  \<open>api/routes/tool_invocations.py\<close>: the operations of the HTTP surface that decide something
  themselves, which are creating and cancelling.  \<open>TransactionalRoute\<close> commits a handler's
  session when it returns and rolls it back when it raises; the role guards of the dependencies
  and the response models are left out.
\<close>

definition INLINE_CLASSES :: "permission_class list" where
  "INLINE_CLASSES = [CLASS_0_INFORMATION, CLASS_1_READ_ONLY]"

section \<open>Creating\<close>

definition require_justification :: "invocation \<Rightarrow> string option \<Rightarrow> acop_error + unit" where
  "require_justification r justification =
    (if s_permission_class (inv_snap r) \<notin> set APPROVAL_REQUIRED_CLASSES then Inr ()
     else require (case justification of None \<Rightarrow> False | Some text \<Rightarrow> strip text \<noteq> [])
            ValidationError)"

definition load :: "uuid \<Rightarrow> store \<Rightarrow> acop_error + invocation" where
  "load i st = (case get_invocation i st of None \<Rightarrow> Inl NotFoundError | Some r \<Rightarrow> Inr r)"

definition response_status :: "invocation \<Rightarrow> nat" where
  "response_status r =
    (if inv_state r \<in> {AWAITING_APPROVAL, READY, EXECUTING, VALIDATING} then 202 else 200)"

text \<open>
  The service commits on its own; the justification is looked at afterwards.  \<open>run\<close> is the
  dispatcher's \<open>run_inline\<close> for the new invocation.
\<close>

definition create_invocation ::
  "(string \<Rightarrow> string) \<Rightarrow> tool_definition list \<Rightarrow> string \<Rightarrow> int \<Rightarrow>
   (uuid \<Rightarrow> store \<Rightarrow> (acop_error + invocation_state) \<times> store) \<Rightarrow> request \<Rightarrow> string option \<Rightarrow>
   principal \<Rightarrow> store \<Rightarrow> (acop_error + nat \<times> invocation) \<times> store" where
  "create_invocation sha256 registry env now run rq justification p st =
    (case create sha256 registry env now rq p st of
       (Inl e, st1) \<Rightarrow> (Inl e, st1)
     | (Inr r, st1) \<Rightarrow>
        (case require_justification r justification of
           Inl e \<Rightarrow> (Inl e, st1)
         | Inr u \<Rightarrow>
            (case (if s_permission_class (inv_snap r) \<in> set INLINE_CLASSES \<and> inv_state r = READY
                   then run (inv_id r) st1 else (Inr (inv_state r), st1)) of
               (Inl e, st2) \<Rightarrow> (Inl e, st2)
             | (Inr s, st2) \<Rightarrow>
                 (andThen (load (inv_id r) st2) (\<lambda>fresh. Inr (response_status fresh, fresh)), st2))))"

section \<open>Cancelling\<close>

definition check_cancel :: "principal \<Rightarrow> invocation \<Rightarrow> acop_error + unit" where
  "check_cancel p r =
     andThen (require (af_subject (s_principal (inv_snap r)) = p_subject p \<or>
                       has_role p (role_value ADMIN)) AuthorizationError) (\<lambda>_.
     require (inv_state r \<in> {AWAITING_APPROVAL, READY}) ValidationError)"

text \<open>A lost race is recorded on a connection of its own; the transaction is rolled back.\<close>

definition cancel_conflicted :: "invocation \<Rightarrow> principal \<Rightarrow> store \<Rightarrow> store" where
  "cancel_conflicted fresh p st = record_denial (audit_event ''tool.cancel'' AUDIT_FAILURE
     AUDIT_NOTICE fresh
     [(''observed_state'', JStr (state_value (inv_state fresh))),
      (''attempted_to_state'', JStr (state_value CANCELLED))] p) st"

definition cancel_on ::
  "int \<Rightarrow> string \<Rightarrow> principal \<Rightarrow> invocation \<Rightarrow> store \<Rightarrow> (acop_error + invocation) \<times> store" where
  "cancel_on now reason p held st =
    (case check_cancel p held of
       Inl e \<Rightarrow> (Inl e, st)
     | Inr u \<Rightarrow>
        (case transition_cas now held CANCELLED (reason_value PR_ALLOWED) (Some (p_subject p))
                [(''reason'', JStr reason)] anything (\<lambda>c. c) st of
           Inl e \<Rightarrow> (Inl e, st)
         | Inr ((won, fresh), st1) \<Rightarrow>
             if won then (Inr fresh, audit_record (audit_event ''tool.cancel'' AUDIT_SUCCESS
                            AUDIT_NOTICE fresh [(''reason'', JStr reason)] p) st1)
             else (Inl InvocationStateConflictError, cancel_conflicted fresh p st)))"

definition cancel ::
  "int \<Rightarrow> string \<Rightarrow> principal \<Rightarrow> uuid \<Rightarrow> store \<Rightarrow> (acop_error + invocation) \<times> store" where
  "cancel now reason p i st = (case load i st of
     Inl e \<Rightarrow> (Inl e, st) | Inr held \<Rightarrow> cancel_on now reason p held st)"

section \<open>What they do\<close>

lemma cancel_on_ok:
  assumes "store_ok st" and "cancel_on now reason p held st = (res, st')"
  shows "store_ok st' \<and> evolves st st'"
proof (cases "check_cancel p held")
  case (Inl e)
  with assms show ?thesis by (simp add: cancel_on_def)
next
  case (Inr u)
  define run where "run = transition_cas now held CANCELLED (reason_value PR_ALLOWED)
    (Some (p_subject p)) [(''reason'', JStr reason)] anything (\<lambda>c. c) st"
  have up: "upholds store_ok evolves st run"
    unfolding run_def by (rule transition_cas_upholds) simp_all
  show ?thesis
  proof (cases run)
    case (Inl e)
    with assms Inr show ?thesis by (simp add: cancel_on_def run_def)
  next
    case out: (Inr x)
    obtain won fresh st1 where x: "x = ((won, fresh), st1)" by (cases x) auto
    from upholdsD [OF up assms(1)] out x have "store_ok st1" "evolves st st1" by auto
    with assms Inr out [unfolded x run_def] show ?thesis
      using audit_record_ok [of st1] record_denial_ok [OF assms(1)] evolves_trans
      by (auto simp: cancel_on_def cancel_conflicted_def split: if_splits)
  qed
qed

lemma update_invocation_Inl: "update_invocation i q f st = Inl e \<Longrightarrow> \<exists>c. e = IntegrityError c"
  by (auto simp: update_invocation_def andThen_eq_Inl split: option.splits if_splits dest: enforce_Inl)

lemma append_event_Inl: "append_event now i from to reason actor detail st = Inl e \<Longrightarrow> \<exists>c. e = IntegrityError c"
  by (auto simp: append_event_def insert_event_def Let_def andThen_eq_Inl dest: enforce_Inl)

lemma transition_cas_Inl:
  assumes "transition_cas now held to reason actor detail expected columns st = Inl e"
  shows "e = ToolErr InvalidStateTransitionError \<or> e = LookupError \<or> (\<exists>c. e = IntegrityError c)"
  using assms unfolding transition_cas_def Let_def
  by (auto simp: andThen_eq_Inl split: if_splits option.splits
      dest!: update_invocation_Inl append_event_Inl)

text \<open>
  A cancellation takes effect only for the requester or an admin, and only on an invocation
  that was awaiting approval or ready when it was read and still is in that state when it is
  written.  If a worker or an approver got there first, no row, event or approval changes, the
  caller is answered with a conflict, and the attempt is on record.
\<close>

theorem cancellation_never_overwrites:
  assumes "get_invocation (inv_id held) st = Some row"
    and "cancel_on now reason p held st = (res, st')"
  shows "(case res of
       Inr fresh \<Rightarrow> inv_state row = inv_state held \<and> inv_state row \<in> {AWAITING_APPROVAL, READY} \<and>
         (af_subject (s_principal (inv_snap held)) = p_subject p \<or> has_role p (role_value ADMIN)) \<and>
         get_invocation (inv_id held) st' = Some fresh \<and> inv_state fresh = CANCELLED \<and>
         inv_snap fresh = inv_snap row
     | Inl e \<Rightarrow> invocations st' = invocations st \<and> events st' = events st \<and>
         approvals st' = approvals st \<and>
         (if e = InvocationStateConflictError then inv_state row \<noteq> inv_state held \<and>
            length (denials st') = Suc (length (denials st)) else True))"
proof (cases "check_cancel p held")
  case (Inl e)
  then have "e \<noteq> InvocationStateConflictError"
    by (auto simp: check_cancel_def andThen_eq_Inl)
  with assms Inl show ?thesis by (auto simp: cancel_on_def)
next
  case (Inr u)
  then have checked: "inv_state held \<in> {AWAITING_APPROVAL, READY}"
    "af_subject (s_principal (inv_snap held)) = p_subject p \<or> has_role p (role_value ADMIN)"
    by (auto simp: check_cancel_def andThen_eq_Inr)
  define run where "run = transition_cas now held CANCELLED (reason_value PR_ALLOWED)
    (Some (p_subject p)) [(''reason'', JStr reason)] anything (\<lambda>c. c) st"
  show ?thesis
  proof (cases run)
    case (Inl e)
    then have "e \<noteq> InvocationStateConflictError"
      using transition_cas_Inl unfolding run_def by blast
    with assms Inr Inl show ?thesis by (auto simp: cancel_on_def run_def)
  next
    case out: (Inr x)
    obtain won fresh st1 where x: "x = ((won, fresh), st1)" by (cases x) auto
    have keep: "state c = state c" for c by simp
    from out [unfolded x run_def] keep show ?thesis
    proof (cases rule: transition_cas_cases)
      case (won q e)
      with assms Inr out [unfolded x run_def] checked show ?thesis
        by (auto simp: cancel_on_def get_upd_cols)
    next
      case (lost e)
      with assms Inr out [unfolded x run_def] show ?thesis
        by (auto simp: cancel_on_def cancel_conflicted_def record_denial_def anything_def)
    qed
  qed
qed

text \<open>
  A change-class request without a justification is answered with a validation error after
  its invocation has been committed: the invocation stays in the store, awaiting approval.
\<close>

theorem unjustified_change_is_kept:
  assumes "create sha256 registry env now rq p st = (Inr r, st1)"
    and "change_class (s_permission_class (inv_snap r))"
    and "(case justification of None \<Rightarrow> True | Some text \<Rightarrow> strip text = [])"
  shows "create_invocation sha256 registry env now run rq justification p st =
    (Inl ValidationError, st1)"
  using assms
  by (auto simp: create_invocation_def require_justification_def change_class_def require_def
      split: option.splits)

end
