(* ===== verification/Lifecycle.thy ===== *)
theory Lifecycle
  imports Routes
begin

text \<open>
  The program as a whole: every operation of the preceding theories is a step of one transition
  system, taken in any order, with any code version, settings, adapters and clock.  A worker is
  two transactions, so other steps may come between its claim and its run, and it may die in
  between.  The inventory may rewrite its own tables but delete no asset an invocation
  refers to, which the foreign key forbids.
\<close>

section \<open>Interfaces\<close>

text \<open>A system with an invariant, and one whose steps also respect a preorder.\<close>

locale transition_system =
  fixes start :: "'s \<Rightarrow> bool" and step :: "'s \<Rightarrow> 's \<Rightarrow> bool" and inv :: "'s \<Rightarrow> bool"
  assumes start_inv: "start s \<Longrightarrow> inv s"
    and step_inv: "inv s \<Longrightarrow> step s t \<Longrightarrow> inv t"
begin

lemma path_inv: "step\<^sup>*\<^sup>* s t \<Longrightarrow> inv s \<Longrightarrow> inv t"
  by (induction rule: rtranclp_induct) (auto dest: step_inv)

lemma reachable_inv: "start s \<Longrightarrow> step\<^sup>*\<^sup>* s t \<Longrightarrow> inv t"
  using path_inv start_inv by blast

end

locale progressing_system = transition_system +
  fixes later :: "'s \<Rightarrow> 's \<Rightarrow> bool"
  assumes later_refl: "later s s"
    and later_trans: "later s t \<Longrightarrow> later t u \<Longrightarrow> later s u"
    and step_later: "inv s \<Longrightarrow> step s t \<Longrightarrow> later s t"
begin

lemma path_later: "step\<^sup>*\<^sup>* s t \<Longrightarrow> inv s \<Longrightarrow> later s t"
proof (induction rule: rtranclp_induct)
  case (step t u)
  then show ?case using path_inv step_later later_trans by blast
qed (rule later_refl)

end

section \<open>The world\<close>

text \<open>
  The database, the workers that won a claim and have not run yet, and the runs in which some
  adapter was called, each with the id of its invocation.
\<close>

record world =
  db :: store
  workers :: "(uuid \<times> uuid) list"
  runs :: "(uuid \<times> adapter_call list) list"

definition empty_store :: store where
  "empty_store = \<lparr>registrations = [], assets = [], identifiers = [], invocations = [],
     approvals = [], events = [], reconciliations = [], audits = [], denials = [], next_id = 0\<rparr>"

text \<open>The tool tables start empty; the assets are whatever the inventory holds.\<close>

definition starts :: "world \<Rightarrow> bool" where
  "starts w \<longleftrightarrow> workers w = [] \<and> runs w = [] \<and>
     (\<exists>as ids n. db w = empty_store\<lparr>assets := as, identifiers := ids, next_id := n\<rparr>)"

text \<open>What the claiming transaction leaves to do: a worker if the claim was won and committed.\<close>

definition claim_step :: "settings \<Rightarrow> int \<Rightarrow> uuid \<Rightarrow> uuid \<Rightarrow> world \<Rightarrow> world" where
  "claim_step cfg now lease i w = (case session (claim cfg now lease i (db w)) (db w) of
     (Inr (Inr u), st) \<Rightarrow> w\<lparr>db := st, workers := workers w @ [(i, lease)]\<rparr>
   | (res, st) \<Rightarrow> w\<lparr>db := st\<rparr>)"

definition run_step ::
  "(string \<Rightarrow> string) \<Rightarrow> tool_definition list \<Rightarrow> (string \<Rightarrow> adapter option) \<Rightarrow> settings \<Rightarrow> int \<Rightarrow> int \<Rightarrow>
   uuid \<Rightarrow> uuid \<times> uuid \<Rightarrow> world \<Rightarrow> world" where
  "run_step sha256 registry resolve_adapter cfg now done_at validation_lease worker w =
    (case run_claimed sha256 registry resolve_adapter cfg now done_at (snd worker) validation_lease
            (fst worker) (db w) of
       (calls, res, st) \<Rightarrow> w\<lparr>db := st, workers := remove1 worker (workers w),
          runs := runs w @ (if calls = [] then [] else [(fst worker, calls)])\<rparr>)"

definition with_db :: "world \<Rightarrow> 'a \<times> store \<Rightarrow> world" where
  "with_db w out = w\<lparr>db := snd out\<rparr>"

inductive acts :: "world \<Rightarrow> world \<Rightarrow> bool" where
  created: "acts w (with_db w (create sha256 registry env now rq p (db w)))"
| decided: "acts w (with_db w (decide cfg now i p decision justification stated (db w)))"
| claimed: "acts w (claim_step cfg now lease i w)"
| ran: "worker \<in> set (workers w) \<Longrightarrow>
    acts w (run_step sha256 registry resolve_adapter cfg now done_at validation_lease worker w)"
| died: "acts w (w\<lparr>workers := remove1 worker (workers w)\<rparr>)"
| reaped: "acts w (with_db w (reap_expired_leases now limit (db w)))"
| swept: "acts w (with_db w (expire_stale now limit (db w)))"
| cancelled: "acts w (with_db w (cancel now reason p i (db w)))"
| determined: "acts w (with_db w (reconcile now i p disp justification evidence (db w)))"
| started: "acts w (with_db w (session (reconcile_registry sha256 False now registry (db w)) (db w)))"
| disabled: "acts w (with_db w (session (disable_tool registry now name version reason p (db w)) (db w)))"
| enabled: "acts w (with_db w (session (enable_tool registry name version reason p (db w)) (db w)))"

| inventoried: "(\<And>r a. r \<in> set (invocations (db w)) \<Longrightarrow> s_target_asset_id (inv_snap r) = Some a \<Longrightarrow>
      a \<in> asset_id ` set as) \<Longrightarrow>
    acts w (w\<lparr>db := (db w)\<lparr>assets := as, identifiers := ids\<rparr>\<rparr>)"

inductive_cases actsE: "acts w w'"

section \<open>Every step keeps the store\<close>

text \<open>What no step of any kind undoes: evolution, without the tables other parts own.\<close>

definition keeps :: "store \<Rightarrow> store \<Rightarrow> bool" where
  "keeps st st' \<longleftrightarrow>
     (\<forall>i r. get_invocation i st = Some r \<longrightarrow>
        (\<exists>r'. get_invocation i st' = Some r' \<and> row_evolves r r')) \<and>
     (\<exists>es. events st' = events st @ es) \<and> (\<exists>as. approvals st' = approvals st @ as) \<and>
     (\<exists>rs. reconciliations st' = reconciliations st @ rs) \<and>
     (\<exists>as. audits st' = audits st @ as) \<and> (\<exists>ds. denials st' = denials st @ ds) \<and>
     reg_id ` set (registrations st) \<subseteq> reg_id ` set (registrations st')"

lemma keeps_refl: "keeps st st"
  by (simp add: keeps_def)

lemma keeps_trans: "keeps st st' \<Longrightarrow> keeps st' st'' \<Longrightarrow> keeps st st''"
proof -
  assume "keeps st st'" "keeps st' st''"
  moreover have "\<exists>r''. get_invocation i st'' = Some r'' \<and> row_evolves r r''"
    if "get_invocation i st = Some r" for i r
    using calculation that unfolding keeps_def by (meson row_evolves_trans)
  moreover have "reg_id ` set (registrations st) \<subseteq> reg_id ` set (registrations st'')"
    using calculation(1,2) unfolding keeps_def by (meson subset_trans)
  ultimately show ?thesis unfolding keeps_def by auto
qed

lemma evolves_keeps: "evolves st st' \<Longrightarrow> keeps st st'"
  unfolding evolves_def keeps_def by simp

definition sound :: "store \<Rightarrow> bool" where
  "sound st \<longleftrightarrow> store_ok st \<and> registry_ok st"

definition good_step :: "store \<Rightarrow> store \<Rightarrow> bool" where
  "good_step st st' \<longleftrightarrow> (sound st \<longrightarrow> sound st' \<and> keeps st st')"

lemma good_stepI: "(store_ok st \<Longrightarrow> store_ok st' \<and> evolves st st') \<Longrightarrow> good_step st st'"
proof -
  assume "store_ok st \<Longrightarrow> store_ok st' \<and> evolves st st'"
  moreover have "registry_ok st'" if "registry_ok st" "evolves st st'"
  proof -
    from that(2) have "registrations st' = registrations st" "next_id st \<le> next_id st'"
      by (simp_all add: evolves_def)
    with that(1) show ?thesis unfolding registry_ok_def by (auto intro: less_le_trans)
  qed
  ultimately show ?thesis unfolding good_step_def sound_def using evolves_keeps by blast
qed

lemma create_ok:
  "store_ok st \<Longrightarrow> store_ok (snd (create sha256 registry env now rq p st)) \<and>
     evolves st (snd (create sha256 registry env now rq p st))"
  unfolding create_session using session_upholds [OF create_body_upholds] by (metis prod.collapse)

lemma decide_ok:
  assumes "store_ok st"
  shows "store_ok (snd (decide cfg now i p decision justification stated st)) \<and>
    evolves st (snd (decide cfg now i p decision justification stated st))"
proof (cases "get_invocation i st")
  case None
  with assms show ?thesis by (simp add: decide_def)
next
  case (Some r)
  then have "faithful_copy r st"
    using get_invocationD [OF Some] by (simp add: faithful_copy_def)
  from decide_on_ok [OF assms this] Some show ?thesis
    by (simp add: decide_def) (metis prod.collapse)
qed

lemma session_good: "(\<And>a st'. m = Inr (a, st') \<Longrightarrow> good_step st st') \<Longrightarrow> good_step st (snd (session m st))"
  by (cases m) (auto simp: session_def good_step_def keeps_refl)

lemma upholds_good: "upholds store_ok evolves st m \<Longrightarrow> good_step st (snd (session m st))"
  by (rule session_good, rule good_stepI) (rule upholdsD)

text \<open>Steps on the registration table.\<close>

lemma reconcile_registry_good:
  assumes "reconcile_registry sha256 False now registry st = Inr (report, st')"
  shows "good_step st st'"
proof -
  have "keeps st st'"
    using assms
  proof (cases rule: reconcile_registry_shape)
    case (1 news n)
    have "reg_id ` set (registrations st) \<subseteq> reg_id ` set (registrations st')"
      using 1(4) image_eqI [OF _ imageI] by (auto simp: set_upd_rows image_image image_Un)
    with 1(4) show ?thesis by (simp add: keeps_def get_invocation_def)
  qed
  then show ?thesis
    using reconcile_store_ok [OF _ assms] reconcile_registry_ok [OF _ assms]
    by (simp add: good_step_def sound_def)
qed

lemma registration_update_good:
  assumes "\<And>r. reg_id (f r) = reg_id r \<and> reg_key (f r) = reg_key r"
    and "row \<in> set (registrations st)" and "\<forall>c \<in> set (registration_checks (f row)). snd c"
  shows "good_step st (audit_record a (st\<lparr>registrations :=
     upd_rows (\<lambda>r. reg_id r = reg_id row) f (registrations st)\<rparr>))"
    (is "good_step st (audit_record a ?st)")
  unfolding good_step_def
proof
  assume sound: "sound st"
  let ?rows = "upd_rows (\<lambda>r. reg_id r = reg_id row) f (registrations st)"
  have "map reg_id ?rows = map reg_id (registrations st)" "map reg_key ?rows = map reg_key (registrations st)"
    by (rule map_upd_rows_frame, simp add: assms(1))+
  moreover from this(1) have ids: "reg_id ` set ?rows = reg_id ` set (registrations st)"
    by (metis set_map)
  moreover have "reg_id r < next_id st \<and> (\<forall>c \<in> set (registration_checks r). snd c)"
    if r: "r \<in> set ?rows" for r
  proof -
    from r obtain q where q: "q \<in> set (registrations st)"
      "r = (if reg_id q = reg_id row then f q else q)"
      by (auto simp: set_upd_rows)
    have "reg_id q = reg_id row \<Longrightarrow> q = row"
      using q(1) assms(2) sound by (metis find_key option.inject registry_okD(1) sound_def)
    with q assms sound show ?thesis
      using registry_okD(3,4) [of st q] unfolding sound_def by (metis (full_types))
  qed
  ultimately have "registry_ok ?st"
    using sound by (simp add: registry_ok_def sound_def)
  moreover have "store_ok ?st"
    by (rule registrations_store_ok [of st ?rows "next_id st"])
      (use sound ids in \<open>auto simp: sound_def\<close>)
  moreover have "keeps st ?st" using ids by (simp add: keeps_def get_invocation_def)
  ultimately show "sound (audit_record a ?st) \<and> keeps st (audit_record a ?st)"
    using audit_record_ok [of ?st a] keeps_trans evolves_keeps
    by (auto simp: sound_def registry_ok_def audit_record_def)
qed

lemma lifecycle_target_row:
  "lifecycle_target registry name version st = Inr (row, d) \<Longrightarrow> row \<in> set (registrations st)"
  by (auto simp: lifecycle_target_def registration_of_def find_Some_iff split: option.splits)

lemma disable_tool_good:
  assumes "disable_tool registry now name version reason p st = Inr (row', st')"
  shows "good_step st st'"
  using assms
proof (cases rule: disable_tool_shape)
  case (1 row d f a)
  have "row \<in> set (registrations st)"
    using 1(1) by (auto simp: registration_of_def find_Some_iff)
  from registration_update_good [OF 1(6) this 1(7) [unfolded 1(3)]] show ?thesis unfolding 1(8) .
qed

lemma enable_tool_good:
  assumes "enable_tool registry name version reason p st = Inr (row', st')"
  shows "good_step st st'"
proof -
  let ?f = "\<lambda>r. r\<lparr>reg_lifecycle := ACTIVE, reg_disabled_at := None, reg_disabled_by := None,
    reg_disabled_reason := None\<rparr>"
  from assms obtain row d st1 where target: "lifecycle_target registry name version st = Inr (row, d)"
    and upd: "update_registration row ?f st = Inr (row', st1)"
    and st': "st' = audit_lifecycle ''tool.enable'' AUDIT_NOTICE row' d reason p st1"
    by (auto simp: enable_tool_def andThen_eq_Inr split: if_splits)
  have "reg_id (?f r) = reg_id r \<and> reg_key (?f r) = reg_key r" for r
    by (simp add: reg_key_def)
  from registration_update_good [OF this lifecycle_target_row [OF target]]
    upd [unfolded update_registration_shape] st' show ?thesis
    by (simp add: audit_lifecycle_def)
qed

lemma inventory_good:
  assumes "\<And>r a. r \<in> set (invocations st) \<Longrightarrow> s_target_asset_id (inv_snap r) = Some a \<Longrightarrow>
      a \<in> asset_id ` set as"
  shows "good_step st (st\<lparr>assets := as, identifiers := ids\<rparr>)" (is "good_step st ?st")
  unfolding good_step_def
proof
  assume sound: "sound st"
  then have ok: "store_ok st" by (simp add: sound_def)
  have "\<forall>c \<in> set (invocation_checks ?st r). snd c" if r: "r \<in> set (invocations st)" for r
  proof -
    have old: "\<forall>c \<in> set (invocation_checks st r). snd c" using store_okD(4) [OF ok r] by blast
    then have "\<forall>c \<in> set (invocation_fks st r). snd c"
      unfolding invocation_checks_def set_append ball_Un by blast
    then have "\<forall>c \<in> set (invocation_fks ?st r). snd c"
      using assms [OF r]
      by (cases "s_target_asset_id (inv_snap r)"; cases "final_gate_event_id (inv_cols r)")
        (auto simp add: invocation_fks_def)
    moreover have "uq_tool_invocation_idem ?st r = uq_tool_invocation_idem st r"
      by (simp add: uq_tool_invocation_idem_def split: option.splits)
    ultimately show ?thesis
      using old unfolding invocation_checks_def set_append ball_Un by auto
  qed
  moreover have "history_ok ?st r = history_ok st r" "entered ?st r = entered st r" for r
    by (simp_all add: history_ok_def entered_def events_of_def approver_count_def)
  moreover have "approval_ok ?st a = approval_ok st a" for a
    by (rule approval_ok_cong) (simp add: snapshots_def)
  ultimately have "store_ok ?st"
    using ok unfolding store_ok_def by (simp add: approved_list_def)
  then show "sound ?st \<and> keeps st ?st"
    using sound by (simp add: sound_def registry_ok_def keeps_def get_invocation_def row_evolves_def)
qed

lemma cancel_ok:
  assumes "store_ok st"
  shows "store_ok (snd (cancel now reason p i st)) \<and> evolves st (snd (cancel now reason p i st))"
  using assms cancel_on_ok [OF assms, of now reason p]
  by (auto simp: cancel_def split: sum.splits) (metis prod.collapse)+

lemma claim_step_db: "db (claim_step cfg now lease i w) = snd (session (claim cfg now lease i (db w)) (db w))"
  by (simp add: claim_step_def split: prod.splits sum.splits)

lemma run_step_db:
  "db (run_step sha256 registry resolve_adapter cfg now done_at validation_lease worker w) =
     snd (snd (run_claimed sha256 registry resolve_adapter cfg now done_at (snd worker) validation_lease
       (fst worker) (db w)))"
  by (simp add: run_step_def split: prod.splits)

lemma acts_good: "acts w w' \<Longrightarrow> good_step (db w) (db w')"
proof (induction rule: acts.induct)
  case (created w sha256 registry env now rq p)
  then show ?case by (simp add: with_db_def good_stepI create_ok)
next
  case (decided w cfg now i p decision justification stated)
  then show ?case by (simp add: with_db_def good_stepI decide_ok)
next
  case (claimed w cfg now lease i)
  show ?case unfolding claim_step_db by (rule upholds_good [OF claim_step_upholds])
next
  case (ran worker w sha256 registry resolve_adapter cfg now done_at validation_lease)
  show ?case
    unfolding run_step_db
    by (rule good_stepI, cases "run_claimed sha256 registry resolve_adapter cfg now done_at
        (snd worker) validation_lease (fst worker) (db w)") (auto dest: run_claimed_ok)
next
  case (died w worker)
  show ?case by (simp add: good_step_def keeps_refl)
next
  case (reaped w now limit)
  show ?case
    unfolding with_db_def reap_expired_leases_def by (simp add: upholds_good [OF reap_rows_upholds])
next
  case (swept w now limit)
  show ?case unfolding with_db_def expire_stale_def by (simp add: upholds_good [OF expire_rows_upholds])
next
  case (cancelled w now reason p i)
  then show ?case by (simp add: with_db_def good_stepI cancel_ok)
next
  case (determined w now i p disp justification evidence)
  show ?case
    unfolding with_db_def reconcile_def by (simp add: upholds_good [OF reconcile_body_upholds])
next
  case (started w sha256 now registry)
  show ?case by (simp add: with_db_def session_good reconcile_registry_good)
next
  case (disabled w registry now name version reason p)
  show ?case by (simp add: with_db_def session_good disable_tool_good)
next
  case (enabled w registry name version reason p)
  show ?case by (simp add: with_db_def session_good enable_tool_good)
next
  case (inventoried w as ids)
  from inventory_good [of "db w" as ids] inventoried show ?case by simp
qed

section \<open>The invariant of the world\<close>

text \<open>
  An invocation that has a worker, or in whose name an adapter was called, was claimed, so it has
  come at least as far as \<open>EXECUTING\<close>; and it was claimed once, so it occurs once.
\<close>

definition claims :: "world \<Rightarrow> uuid list" where
  "claims w = map fst (workers w) @ map fst (runs w)"

definition world_ok :: "world \<Rightarrow> bool" where
  "world_ok w \<longleftrightarrow> sound (db w) \<and> distinct (claims w) \<and>
     (\<forall>i \<in> set (claims w). \<exists>r. get_invocation i (db w) = Some r \<and> EXECUTING \<le> inv_state r)"

lemma keeps_claimed:
  assumes "keeps st st'" and "\<exists>r. get_invocation i st = Some r \<and> EXECUTING \<le> inv_state r"
  shows "\<exists>r. get_invocation i st' = Some r \<and> EXECUTING \<le> inv_state r"
  using assms unfolding keeps_def row_evolves_def by (meson legal_path_le order_trans)

lemma world_okI:
  assumes "world_ok w" and "good_step (db w) (db w')"
    and "distinct (claims w')" and "set (claims w') \<subseteq> set (claims w)"
  shows "world_ok w'"
  using assms keeps_claimed unfolding world_ok_def good_step_def by blast

lemma remove1_claims: "distinct (map fst ws) \<Longrightarrow> distinct (map fst (remove1 x ws)) \<and>
    fst ` set (remove1 x ws) \<subseteq> fst ` set ws \<and> (x \<in> set ws \<longrightarrow> fst x \<notin> fst ` set (remove1 x ws))"
  by (induction ws) (auto dest: notin_set_remove1 intro: rev_image_eqI)

lemma run_claims:
  assumes "world_ok w" and "worker \<in> set (workers w)"
  shows "distinct (claims (w\<lparr>db := st, workers := remove1 worker (workers w),
       runs := runs w @ (if calls = [] then [] else [(fst worker, calls)])\<rparr>))" (is "distinct (claims ?w)")
    and "set (claims (w\<lparr>db := st, workers := remove1 worker (workers w),
       runs := runs w @ (if calls = [] then [] else [(fst worker, calls)])\<rparr>)) \<subseteq> set (claims w)"
proof -
  have dis: "distinct (map fst (workers w))" "distinct (map fst (runs w))"
    "fst ` set (workers w) \<inter> fst ` set (runs w) = {}"
    using assms(1) by (auto simp: world_ok_def claims_def)
  note gone = remove1_claims [OF dis(1), of worker]
  have "fst ` set (remove1 worker (workers w)) \<inter> fst ` set (runs w) = {}"
    "fst worker \<notin> fst ` set (runs w)"
    using dis(3) gone assms(2) by blast+
  then show "distinct (claims ?w)"
    using dis gone assms(2) by (simp add: claims_def)
  show "set (claims ?w) \<subseteq> set (claims w)"
    using remove1_claims [OF dis(1), of worker] assms(2) by (auto simp: claims_def)
qed

lemma claim_wins:
  assumes "claim cfg now lease i st = Inr (Inr u, st')"
  shows "(\<exists>r. get_invocation i st = Some r \<and> inv_state r = READY) \<and>
     (\<exists>r. get_invocation i st' = Some r \<and> inv_state r = EXECUTING)"
proof -
  from assms obtain held where held: "get_invocation i st = Some held"
    and on: "claim_on cfg now lease held st = Inr (Inr u, st')"
    by (auto simp: claim_def split: option.splits)
  have "inv_id held = i" using get_invocationD [OF held] by simp
  with on have "claim_for_execution now i lease (now + set_lease_milli cfg) (now + timeout_of held) st =
      Inr (True, st')"
    by (auto simp: claim_on_def andThen_eq_Inr split: if_splits option.splits)
  then show ?thesis
    by (cases rule: claim_cases) (auto simp: get_upd_cols claim_columns_def)
qed

lemma claim_world_ok:
  assumes "world_ok w"
  shows "world_ok (claim_step cfg now lease i w)"
proof -
  let ?w = "claim_step cfg now lease i w"
  have good: "good_step (db w) (db ?w)" by (rule acts_good [OF claimed])
  show ?thesis
  proof (cases "\<exists>u st. claim cfg now lease i (db w) = Inr (Inr u, st)")
    case False
    then have "workers ?w = workers w" "runs ?w = runs w"
      by (auto simp: claim_step_def session_def split: sum.splits prod.splits)
    with assms world_okI [OF assms good] show ?thesis by (simp add: claims_def world_ok_def)
  next
    case True
    then obtain u st where won: "claim cfg now lease i (db w) = Inr (Inr u, st)" by blast
    then have w': "?w = w\<lparr>db := st, workers := workers w @ [(i, lease)]\<rparr>"
      by (simp add: claim_step_def session_def)
    from claim_wins [OF won] obtain r where r: "get_invocation i (db w) = Some r" "inv_state r = READY"
      and now_executing: "\<exists>r. get_invocation i (db ?w) = Some r \<and> EXECUTING \<le> inv_state r"
      unfolding w' by auto
    have "\<not> EXECUTING \<le> inv_state r" unfolding r(2) by (simp add: less_eq_invocation_state_def)
    then have new: "i \<notin> set (claims w)" using assms r(1) unfolding world_ok_def by auto
    have sound: "sound (db ?w)" "keeps (db w) (db ?w)"
      using good assms by (simp_all add: good_step_def world_ok_def)
    have ids: "set (claims ?w) = insert i (set (claims w))" by (auto simp: w' claims_def)
    have "distinct (claims ?w)"
      using assms new by (auto simp: world_ok_def claims_def w')
    moreover have "\<exists>r. get_invocation j (db ?w) = Some r \<and> EXECUTING \<le> inv_state r"
      if "j \<in> set (claims ?w)" for j
      using that keeps_claimed [OF sound(2), of j] assms now_executing unfolding ids world_ok_def by blast
    ultimately show ?thesis using sound(1) unfolding world_ok_def by blast
  qed
qed

lemma acts_world_ok:
  assumes "world_ok w" and "acts w w'"
  shows "world_ok w'"
proof -
  have good: "good_step (db w) (db w')" by (rule acts_good [OF assms(2)])
  have idle: "world_ok w'" if "claims w' = claims w"
    using world_okI [OF assms(1) good] assms(1) that by (simp add: world_ok_def)
  from assms(2) show ?thesis
  proof cases
    case (claimed cfg now lease i)
    with claim_world_ok [OF assms(1)] show ?thesis by simp
  next
    case (ran worker sha256 registry resolve_adapter cfg now done_at validation_lease)
    obtain calls res st where run: "run_claimed sha256 registry resolve_adapter cfg now done_at
        (snd worker) validation_lease (fst worker) (db w) = (calls, res, st)"
      by (cases "run_claimed sha256 registry resolve_adapter cfg now done_at
        (snd worker) validation_lease (fst worker) (db w)") auto
    show ?thesis
      by (rule world_okI [OF assms(1) good])
        (use run_claims [OF assms(1) ran(2)] in \<open>auto simp: ran(1) run_step_def run\<close>)
  next
    case (died worker)
    have "distinct (map fst (workers w))" using assms(1) by (simp add: world_ok_def claims_def)
    note gone = remove1_claims [OF this, of worker]
    show ?thesis
      by (rule world_okI [OF assms(1) good])
        (use gone assms(1) in \<open>auto simp: died claims_def world_ok_def\<close>)
  qed (rule idle, simp add: claims_def with_db_def)+
qed

definition later :: "world \<Rightarrow> world \<Rightarrow> bool" where
  "later w w' \<longleftrightarrow> keeps (db w) (db w')"

lemma starts_world_ok: "starts w \<Longrightarrow> world_ok w"
  by (auto simp: starts_def world_ok_def claims_def sound_def store_ok_def registry_ok_def
      approved_list_def empty_store_def)

interpretation lifecycle: progressing_system starts acts world_ok later
proof unfold_locales
  fix w w' w'' :: world
  show "starts w \<Longrightarrow> world_ok w" by (rule starts_world_ok)
  show "world_ok w \<Longrightarrow> acts w w' \<Longrightarrow> world_ok w'" by (rule acts_world_ok)
  show "later w w" by (simp add: later_def keeps_refl)
  show "later w w' \<Longrightarrow> later w' w'' \<Longrightarrow> later w w''" unfolding later_def by (rule keeps_trans)
  show "world_ok w \<Longrightarrow> acts w w' \<Longrightarrow> later w w'"
    using acts_good by (auto simp: later_def world_ok_def good_step_def)
qed

section \<open>What holds in every reachable world\<close>

text \<open>
  C1. In every world the program can reach, an invocation of a change class that got past the
  approval gate was approved by at least as many different people as its own policy asks for
  and at least by one, each approval names the digest of the envelope that was requested, and
  nobody approved their own request unless its policy permits that.
\<close>

theorem no_change_without_approval:
  assumes "starts w" and "acts\<^sup>*\<^sup>* w w'" and "r \<in> set (invocations (db w'))"
    and "change_class (s_permission_class (inv_snap r))" and "past_gate (inv_state r)"
  shows "\<exists>approvers. card approvers = approver_count (inv_id r) (db w') \<and>
     1 \<le> s_min_approvals (inv_snap r) \<and> s_min_approvals (inv_snap r) \<le> int (card approvers) \<and>
     (\<forall>who \<in> approvers. \<exists>a \<in> set (approvals (db w')). app_invocation a = inv_id r \<and>
        app_approver a = who \<and> app_decision a = DECIDED_APPROVED \<and>
        app_envelope_digest a = s_envelope_digest (inv_snap r) \<and>
        (who \<noteq> af_subject (s_principal (inv_snap r)) \<or> self_approval_permitted_by r))"
proof -
  have ok: "store_ok (db w')"
    using lifecycle.reachable_inv [OF assms(1,2)] by (simp add: world_ok_def sound_def)
  let ?given = "filter (\<lambda>a. app_invocation a = inv_id r \<and> app_decision a = DECIDED_APPROVED)
    (approvals (db w'))"
  have checks: "\<forall>c \<in> set (snapshot_checks (inv_snap r)). snd c"
    using store_okD(4) [OF ok assms(3)] unfolding invocation_checks_def set_append ball_Un by blast
  then have required: "s_approval_required (inv_snap r)" "1 \<le> s_min_approvals (inv_snap r)"
    using assms(4) by (simp_all add: snapshot_checks_def)
  have "s_min_approvals (inv_snap r) \<le> int (approver_count (inv_id r) (db w'))"
    using store_okD(8) [OF ok assms(3)] assms(5) required(1) by (simp add: entered_def)
  moreover have "approver_count (inv_id r) (db w') = card (set (map app_approver ?given))"
    by (simp add: approver_count_def length_remdups_card_conv)
  moreover have "app_envelope_digest a = s_envelope_digest (inv_snap r) \<and>
      (app_approver a \<noteq> af_subject (s_principal (inv_snap r)) \<or> self_approval_permitted_by r)"
    if a: "a \<in> set ?given" for a
  proof -
    from a store_okD(6) [OF ok, of a] obtain snap where
      snap: "(inv_id r, snap) \<in> set (snapshots (db w'))" "app_requester a = af_subject (s_principal snap)"
        "app_envelope_digest a = s_envelope_digest snap"
        "app_approver a \<noteq> app_requester a \<or>
         jget (s_approval_policy snap) ''self_approval_permitted'' = Some (JBool True)"
      by (auto simp: approval_ok_def)
    from snap(1) obtain q where "q \<in> set (invocations (db w'))" "inv_id q = inv_id r" "inv_snap q = snap"
      by (auto simp: snapshots_def)
    with get_invocation_row [OF ok] assms(3) have "inv_snap r = snap" by (metis option.inject)
    with snap show ?thesis by (simp add: self_approval_permitted_by_def)
  qed
  ultimately show ?thesis
    using required(2) by (intro exI [of _ "set (map app_approver ?given)"]) auto
qed

text \<open>
  C3. Whatever happens after any reachable moment, in whatever order, no invocation disappears or
  has its frozen half rewritten, its state only ever moves along the state machine, one that
  ended stays as it ended, and no event, approval, determination or audit row is ever altered
  or removed.
\<close>

theorem the_record_is_permanent:
  assumes "starts w0" and "acts\<^sup>*\<^sup>* w0 w" and "acts\<^sup>*\<^sup>* w w'" and "get_invocation i (db w) = Some r"
  shows "\<exists>r'. get_invocation i (db w') = Some r' \<and> inv_snap r' = inv_snap r \<and>
     is_legal_transition\<^sup>*\<^sup>* (inv_state r) (inv_state r') \<and>
     (inv_state r' = inv_state r \<or> \<not> is_terminal_state (inv_state r)) \<and>
     (\<exists>es. events (db w') = events (db w) @ es) \<and> (\<exists>as. approvals (db w') = approvals (db w) @ as) \<and>
     (\<exists>rs. reconciliations (db w') = reconciliations (db w) @ rs) \<and>
     (\<exists>as. audits (db w') = audits (db w) @ as) \<and> (\<exists>ds. denials (db w') = denials (db w) @ ds)"
proof -
  have "keeps (db w) (db w')"
    using lifecycle.path_later [OF assms(3) lifecycle.reachable_inv [OF assms(1,2)]]
    by (simp add: later_def)
  moreover from this assms(4) obtain r' where r': "get_invocation i (db w') = Some r'" "row_evolves r r'"
    unfolding keeps_def by blast
  moreover have "inv_state r' = inv_state r \<or> \<not> is_terminal_state (inv_state r)"
    using r'(2) terminal_iff_stuck unfolding row_evolves_def by (metis converse_rtranclpE)
  ultimately show ?thesis unfolding keeps_def row_evolves_def by blast
qed

text \<open>
  C2. However often an invocation is dispatched, by however many workers, and wherever they crash
  or are reaped, adapters are called for it in at most one run; and while one worker has it, no
  other one does.
\<close>

theorem executed_at_most_once:
  assumes "starts w" and "acts\<^sup>*\<^sup>* w w'"
  shows "distinct (map fst (workers w') @ map fst (runs w')) \<and>
     (\<forall>(i, calls) \<in> set (runs w'). \<exists>r. get_invocation i (db w') = Some r \<and> EXECUTING \<le> inv_state r)"
proof -
  have ok: "world_ok w'" by (rule lifecycle.reachable_inv [OF assms])
  have "i \<in> set (claims w')" if "(i, calls) \<in> set (runs w')" for i calls
    using that by (force simp: claims_def)
  with ok have "\<forall>(i, calls) \<in> set (runs w'). \<exists>r. get_invocation i (db w') = Some r \<and> EXECUTING \<le> inv_state r"
    unfolding world_ok_def by blast
  moreover have "distinct (map fst (workers w') @ map fst (runs w'))"
    using ok unfolding world_ok_def claims_def by blast
  ultimately show ?thesis by (rule conjI [rotated])
qed

text \<open>
  C4. In every reachable world the events of an invocation are numbered from one without a gap and
  replay to the state its row holds, a recorded outcome of an execution, be it success, failure or
  timeout, stands only under a final gate that allowed it, a lease is held exactly while the row is executing or validating, and no
  two live invocations share an idempotency key.
\<close>

theorem reachable_rows_are_sound:
  assumes "starts w" and "acts\<^sup>*\<^sup>* w w'" and "r \<in> set (invocations (db w'))"
  shows "map ev_sequence (events_of (inv_id r) (db w')) =
       [1..<Suc (length (events_of (inv_id r) (db w')))] \<and>
     replay None (events_of (inv_id r) (db w')) = Some (Some (inv_state r)) \<and>
     (if inv_state r \<in> {EXECUTED, VALIDATING, SUCCEEDED, VALIDATION_FAILED, FAILED, TIMED_OUT}
      then final_gate_decision (inv_cols r) = Some GATE_ALLOW else True) \<and>
     (leased (inv_state r) \<longleftrightarrow> executor_lease_id (inv_cols r) \<noteq> None) \<and>
     (leased (inv_state r) \<longleftrightarrow> lease_expires_at (inv_cols r) \<noteq> None) \<and>
     uq_tool_invocation_idem (db w') r"
proof -
  have ok: "store_ok (db w')"
    using lifecycle.reachable_inv [OF assms(1,2)] by (simp add: world_ok_def sound_def)
  have checks: "\<forall>c \<in> set (invocation_checks (db w') r). snd c" using store_okD(4) [OF ok assms(3)] by blast
  then have "\<forall>c \<in> set (progress_checks (inv_snap r) (inv_cols r)). snd c"
    unfolding invocation_checks_def set_append ball_Un by blast
  then have "(if past_execution (inv_state r) then final_gate_decision (inv_cols r) = Some GATE_ALLOW else True) \<and>
     (leased (inv_state r) \<longleftrightarrow> executor_lease_id (inv_cols r) \<noteq> None) \<and>
     (leased (inv_state r) \<longleftrightarrow> lease_expires_at (inv_cols r) \<noteq> None)"
    using store_okD(8) [OF ok assms(3)]
    by (auto simp add: entered_def progress_checks_def simp del: leased_simps not_None_eq)
  then show ?thesis
    using store_okD(3) [OF ok assms(3)] idem_of_checks [OF checks]
    unfolding history_ok_def past_execution_def by blast
qed

end
