(* ===== verification/Creation.thy ===== *)
theory Creation
  imports Invocation
begin

text \<open>
  What \<open>ToolInvocationService.create\<close> does on each of its branches: a recorded refusal, a
  fresh invocation, a replay and a conflict, and the requests whose record the database
  refuses.
\<close>

section \<open>The steps, run to their end\<close>

lemma get_add_row:
  "store_ok st \<Longrightarrow> get_invocation (next_id st) (add_row (new_row snap st) st) = Some (new_row snap st)"
  using fresh_id(1) [of st] by (simp add: get_invocation_def find_row_append find_row_None [symmetric])

lemma insert_requested_runs:
  assumes "store_ok st" and "\<forall>c \<in> set (invocation_checks st (new_row snap st)). snd c"
  shows "\<exists>e. insert_requested now snap reason p detail st =
     Inr (new_row snap st, add_event e (add_row (new_row snap st) st))"
proof -
  have ins: "insert_invocation snap initial_progress st = Inr (new_row snap st, add_row (new_row snap st) st)"
    using assms(2) by (simp add: insert_invocation_shape)
  from append_event_runs [OF get_add_row [OF assms(1)]] obtain e where
    "append_event now (next_id st) None REQUESTED (reason_value reason) (Some (p_subject p)) detail
       (add_row (new_row snap st) st) = Inr (e, add_event e (add_row (new_row snap st) st))" by blast
  with ins have "insert_requested now snap reason p detail st =
      Inr (new_row snap st, add_event e (add_row (new_row snap st) st))"
    by (simp add: insert_requested_def)
  then show ?thesis by blast
qed

lemma rows_upd_new:
  assumes "store_ok st"
  shows "upd_rows (\<lambda>r. inv_id r = next_id st) f (invocations st @ [r]) =
    invocations st @ [if inv_id r = next_id st then f r else r]"
proof -
  have "upd_rows (\<lambda>r. inv_id r = next_id st) f (invocations st) = invocations st"
    using fresh_id(1) [OF assms] by (intro upd_rows_none) (metis image_eqI)
  then show ?thesis by (simp add: upd_rows_append)
qed

lemma reject_runs:
  fixes now rq p reg dec st
  assumes ok: "store_ok st"
  defines "snap \<equiv> refused_snapshot now rq p reg dec"
  defines "r \<equiv> (new_row snap st)\<lparr>inv_cols := initial_progress\<lparr>state := REJECTED\<rparr>\<rparr>"
  assumes checks: "\<forall>c \<in> set (invocation_checks st (new_row snap st)). snd c"
  shows "\<exists>st'. reject now rq p reg dec st = Inr ((r, REFUSAL_ERRORS (pd_reason dec)), st') \<and>
     invocations st' = invocations st @ [r] \<and> (\<exists>a. audits st' = audits st @ [a]) \<and>
     (\<exists>e1 e2. events st' = events st @ [e1, e2])"
proof -
  from insert_requested_runs [OF ok checks] obtain e1 where ins:
    "insert_requested now snap (pd_reason dec) p [] st =
       Inr (new_row snap st, add_event e1 (add_row (new_row snap st) st))" by blast
  define st1 where "st1 = add_event e1 (add_row (new_row snap st) st)"
  from upholdsD [OF insert_requested_upholds ok ins] have ok1: "store_ok st1" by (simp add: st1_def)
  have get: "get_invocation (next_id st) st1 = Some (new_row snap st)"
    using get_add_row [OF ok] by (simp add: st1_def)
  have mem: "new_row snap st \<in> set (invocations st1)" by (simp add: st1_def)
  have "\<forall>c \<in> set (invocation_checks st1 (new_row snap st)). snd c"
    using store_okD(4) [OF ok1 mem] by blast
  from checks_unleased [OF this, of REJECTED]
  have "\<forall>c \<in> set (invocation_checks st1
      ((new_row snap st)\<lparr>inv_cols := (inv_cols (new_row snap st))\<lparr>state := REJECTED\<rparr>\<rparr>)). snd c"
    by simp
  from transition_runs [of "new_row snap st" st1 "new_row snap st" anything REJECTED "\<lambda>c. c" now
      "reason_value (pd_reason dec)" "Some (p_subject p)" "[]", OF _ refl _ _ this] get
  obtain e2 where "transition now (new_row snap st) REJECTED (reason_value (pd_reason dec))
      (Some (p_subject p)) [] anything (\<lambda>c. c) st1 =
      Inr (r, add_event e2 (upd_cols (next_id st) (\<lambda>c. c\<lparr>state := REJECTED\<rparr>) st1))"
    by (auto simp: anything_def legal_simps r_def)
  then have "reject now rq p reg dec st = Inr ((r, REFUSAL_ERRORS (pd_reason dec)),
      audit_denied r p dec (add_event e2 (upd_cols (next_id st) (\<lambda>c. c\<lparr>state := REJECTED\<rparr>) st1)))"
    using ins by (simp add: reject_def snap_def st1_def)
  moreover have "invocations (upd_cols (next_id st) (\<lambda>c. c\<lparr>state := REJECTED\<rparr>) st1) =
      invocations st @ [r]"
    using rows_upd_new [OF ok] by (simp add: upd_cols_def st1_def r_def)
  ultimately show ?thesis
    by (auto simp: audit_denied_def audit_record_def Let_def st1_def)
qed

section \<open>Refusals\<close>

text \<open>
  A refused request is recorded before the error is raised: one new row in \<open>REJECTED\<close>
  that holds no idempotency key, with the reason it was refused for, two events and one audit
  row; every earlier row stays as it was; and the error is the one the reason maps to.  The
  hypothesis is that the row satisfies the table's constraints.
\<close>

theorem refusal_is_recorded:
  assumes "store_ok st"
    and "registration_of (rq_tool_name rq) (rq_tool_version rq) st = Some reg"
    and "decide_request sha256 registry env now rq p reg st = (dec, c)" and "\<not> pd_allowed dec"
    and "\<forall>ck \<in> set (invocation_checks st (new_row (refused_snapshot now rq p reg dec) st)). snd ck"
  shows "\<exists>r st'. create sha256 registry env now rq p st =
       (Inl (ToolErr (REFUSAL_ERRORS (pd_reason dec))), st') \<and>
     invocations st' = invocations st @ [r] \<and> inv_state r = REJECTED \<and>
     s_idempotency_key (inv_snap r) = None \<and>
     s_authorization_decision (inv_snap r) = GATE_DENY \<and>
     s_authorization_reason (inv_snap r) = pd_reason dec \<and>
     (\<exists>e1 e2. events st' = events st @ [e1, e2]) \<and> (\<exists>a. audits st' = audits st @ [a])"
proof -
  from reject_runs [OF assms(1,5)] obtain st' where run: "reject now rq p reg dec st =
      Inr (((new_row (refused_snapshot now rq p reg dec) st)\<lparr>inv_cols :=
        initial_progress\<lparr>state := REJECTED\<rparr>\<rparr>, REFUSAL_ERRORS (pd_reason dec)), st')"
    and st': "invocations st' = invocations st @ [(new_row (refused_snapshot now rq p reg dec) st)
        \<lparr>inv_cols := initial_progress\<lparr>state := REJECTED\<rparr>\<rparr>]"
      "\<exists>a. audits st' = audits st @ [a]" "\<exists>e1 e2. events st' = events st @ [e1, e2]" by blast
  from run assms(2-4) have "create sha256 registry env now rq p st =
      (Inl (ToolErr (REFUSAL_ERRORS (pd_reason dec))), st')"
    by (simp add: create_def create_body_def session_def)
  with st' show ?thesis
    by (intro exI [of _ "(new_row (refused_snapshot now rq p reg dec) st)
        \<lparr>inv_cols := initial_progress\<lparr>state := REJECTED\<rparr>\<rparr>"] exI [of _ st'])
      (simp add: refused_snapshot_def Let_def)
qed

lemma insert_requested_fails:
  assumes "\<not> (\<forall>c \<in> set (invocation_checks st (new_row snap st)). snd c)"
  shows "\<exists>ck. insert_requested now snap reason p detail st = Inl (IntegrityError ck)"
proof -
  have "\<nexists>u. enforce (invocation_checks st (new_row snap st)) = Inr u"
    using assms unfolding enforce_Inr by simp
  then obtain e where e: "enforce (invocation_checks st (new_row snap st)) = Inl e"
    by (cases "enforce (invocation_checks st (new_row snap st))") auto
  with enforce_Inl [OF e] show ?thesis
    by (auto simp: insert_requested_def insert_invocation_def new_row_def)
qed

text \<open>
  A refused request that names an asset the inventory does not hold is not recorded: the
  refusal row carries the caller's asset id, its foreign key fails, the session rolls back and
  the caller sees an integrity error in place of the refusal.  This holds for every reason,
  an attempt at a prohibited capability included.
\<close>

theorem refusal_of_unknown_asset_is_lost:
  assumes "registration_of (rq_tool_name rq) (rq_tool_version rq) st = Some reg"
    and "decide_request sha256 registry env now rq p reg st = (dec, c)" and "\<not> pd_allowed dec"
    and "rq_target_asset_id rq = Some a" and "a \<notin> asset_id ` set (assets st)"
  shows "\<exists>ck. create sha256 registry env now rq p st = (Inl (IntegrityError ck), st)"
proof -
  let ?snap = "refused_snapshot now rq p reg dec"
  have target: "s_target_asset_id ?snap = Some a"
    using assms(4) by (simp add: refused_snapshot_def requested_kind_def Let_def)
  have "\<not> (\<forall>ck \<in> set (invocation_fks st (new_row ?snap st)). snd ck)"
    using assms(5) target by (simp add: invocation_fks_def)
  then have "\<not> (\<forall>ck \<in> set (invocation_checks st (new_row ?snap st)). snd ck)"
    unfolding invocation_checks_def by auto
  from insert_requested_fails [OF this] obtain ck where
    "insert_requested now ?snap (pd_reason dec) p [] st = Inl (IntegrityError ck)" by blast
  with assms(1-3) show ?thesis
    by (simp add: create_def create_body_def session_def reject_def)
qed

text \<open>
  A change-class request without an idempotency key passes every policy gate and is then
  refused by the database: nothing before the insert asks for the key the table requires.
\<close>

theorem change_without_key_fails:
  assumes "registration_of (rq_tool_name rq) (rq_tool_version rq) st = Some reg"
    and "decide_request sha256 registry env now rq p reg st = (dec, c)" and "pd_allowed dec"
    and "change_class (pd_class dec)" and "rq_idempotency_key rq = None"
    and "pc_definition c = Some d"
  shows "\<exists>ck. create sha256 registry env now rq p st = (Inl (IntegrityError ck), st)"
proof -
  have "\<not> (\<forall>ck \<in> set (snapshot_checks (accepted_snapshot sha256 now rq p reg dec t e dg)). snd ck)"
    for t e dg
    using assms(4,5) by (simp add: snapshot_checks_def accepted_snapshot_def Let_def)
  then have bad: "\<not> (\<forall>ck \<in> set (invocation_checks st
      (new_row (accepted_snapshot sha256 now rq p reg dec t e dg) st)). snd ck)" for t e dg
    unfolding invocation_checks_def set_append ball_Un new_row_simps by blast
  have fails: "\<exists>ck. persist sha256 now rq p reg dec t e dg st = Inl (IntegrityError ck)" for t e dg
    unfolding persist_def by (rule insert_requested_fails [OF bad])
  define envelope where "envelope = build_envelope sha256 d (pd_canonical_input dec)
    (build_target_block (tf_kind (pc_target c)) (tf_asset_id (pc_target c)) (rq_target_ref rq))"
  from fails obtain ck where "persist sha256 now rq p reg dec (pc_target c) envelope
      (envelope_digest sha256 envelope) st = Inl (IntegrityError ck)" by blast
  with assms(5,6) have "accept sha256 now rq p reg dec c st = Inl (IntegrityError ck)"
    by (simp add: accept_def existing_for_key_def Let_def envelope_def)
  with assms(1-3) show ?thesis
    by (simp add: create_def create_body_def session_def)
qed

section \<open>Acceptance\<close>

definition requested_state :: "approval_policy \<Rightarrow> invocation_state" where
  "requested_state policy = (if approval_required policy then AWAITING_APPROVAL else READY)"

lemma advance_runs:
  assumes ok: "store_ok st" and get: "get_invocation (inv_id r) st = Some r"
    and start: "inv_state r = REQUESTED"
  shows "\<exists>e1 e2 st1. advance now r p dec st =
     Inr (r\<lparr>inv_cols := (inv_cols r)\<lparr>state := requested_state (pd_approval_policy dec)\<rparr>\<rparr>,
          add_event e2 (upd_cols (inv_id r)
            (\<lambda>c. c\<lparr>state := requested_state (pd_approval_policy dec)\<rparr>) st1)) \<and>
     st1 = add_event e1 (upd_cols (inv_id r) (\<lambda>c. c\<lparr>state := AUTHORIZED\<rparr>) st)"
proof -
  let ?r1 = "r\<lparr>inv_cols := (inv_cols r)\<lparr>state := AUTHORIZED\<rparr>\<rparr>"
  let ?to = "requested_state (pd_approval_policy dec)"
  have mem: "r \<in> set (invocations st)" using get_invocationD [OF get] by simp
  have "\<forall>c \<in> set (invocation_checks st r). snd c" using store_okD(4) [OF ok mem] by blast
  from checks_unleased [OF this, of AUTHORIZED] start
  have c1: "\<forall>c \<in> set (invocation_checks st ?r1). snd c" by simp
  from transition_runs [of r st r anything AUTHORIZED "\<lambda>c. c" now "reason_value (pd_reason dec)"
      "Some (p_subject p)" "[]", OF get refl _ _ c1] start
  obtain e1 where t1: "transition now r AUTHORIZED (reason_value (pd_reason dec)) (Some (p_subject p))
      [] anything (\<lambda>c. c) st =
      Inr (?r1, add_event e1 (upd_cols (inv_id r) (\<lambda>c. c\<lparr>state := AUTHORIZED\<rparr>) st))"
    by (auto simp: anything_def legal_simps)
  define st1 where "st1 = add_event e1 (upd_cols (inv_id r) (\<lambda>c. c\<lparr>state := AUTHORIZED\<rparr>) st)"
  have ok1: "store_ok st1"
    using upholdsD [OF transition_upholds [OF keeps_state_id] ok t1] by (simp add: st1_def)
  have get1: "get_invocation (inv_id r) st1 = Some ?r1"
    using get by (simp add: st1_def get_upd_cols)
  have "\<forall>c \<in> set (invocation_checks st1 ?r1). snd c"
    using store_okD(4) [OF ok1] get_invocationD [OF get1] by blast
  from checks_unleased [OF this, of ?to]
  have c2: "\<forall>c \<in> set (invocation_checks st1 (?r1\<lparr>inv_cols := (inv_cols ?r1)\<lparr>state := ?to\<rparr>\<rparr>)). snd c"
    by (simp add: requested_state_def)
  have legal: "is_legal_transition (inv_state ?r1) ?to"
    by (simp add: legal_simps requested_state_def)
  have t2: "\<exists>e2. transition now ?r1 ?to reason (Some (p_subject p)) detail anything (\<lambda>c. c) st1 =
      Inr (r\<lparr>inv_cols := (inv_cols r)\<lparr>state := ?to\<rparr>\<rparr>,
           add_event e2 (upd_cols (inv_id r) (\<lambda>c. c\<lparr>state := ?to\<rparr>) st1))" for reason detail
    using transition_runs [of ?r1 st1 ?r1 anything ?to "\<lambda>c. c" now reason "Some (p_subject p)" detail,
        OF _ refl _ legal c2] get1
    by (simp add: anything_def)
  have "\<exists>e2. advance now r p dec st = Inr (r\<lparr>inv_cols := (inv_cols r)\<lparr>state := ?to\<rparr>\<rparr>,
      add_event e2 (upd_cols (inv_id r) (\<lambda>c. c\<lparr>state := ?to\<rparr>) st1))"
    using t1 t2 unfolding advance_def st1_def [symmetric]
    by (cases "approval_required (pd_approval_policy dec)") (simp_all add: requested_state_def)
  then show ?thesis using st1_def by blast
qed

lemma accept_runs:
  fixes sha256 now rq p reg dec c st d
  assumes ok: "store_ok st" and d: "pc_definition c = Some d"
  defines "envelope \<equiv> build_envelope sha256 d (pd_canonical_input dec)
    (build_target_block (tf_kind (pc_target c)) (tf_asset_id (pc_target c)) (rq_target_ref rq))"
  defines "snap \<equiv> accepted_snapshot sha256 now rq p reg dec (pc_target c) envelope
    (envelope_digest sha256 envelope)"
  defines "r \<equiv> (new_row snap st)\<lparr>inv_cols := initial_progress
    \<lparr>state := requested_state (pd_approval_policy dec)\<rparr>\<rparr>"
  assumes free: "existing_for_key rq (envelope_digest sha256 envelope) st = Inr None"
    and checks: "\<forall>ck \<in> set (invocation_checks st (new_row snap st)). snd ck"
  shows "\<exists>st'. accept sha256 now rq p reg dec c st = Inr (r, st') \<and>
     invocations st' = invocations st @ [r] \<and> (\<exists>a. audits st' = audits st @ [a])"
proof -
  from insert_requested_runs [OF ok checks] obtain e1 where ins:
    "insert_requested now snap PR_ALLOWED p
       [(''envelope_digest'', JStr (envelope_digest sha256 envelope))] st =
       Inr (new_row snap st, add_event e1 (add_row (new_row snap st) st))" by blast
  define st1 where "st1 = add_event e1 (add_row (new_row snap st) st)"
  from upholdsD [OF insert_requested_upholds ok ins] have ok1: "store_ok st1" by (simp add: st1_def)
  have get: "get_invocation (inv_id (new_row snap st)) st1 = Some (new_row snap st)"
    using get_add_row [OF ok] by (simp add: st1_def)
  from advance_runs [OF ok1 get, of now p dec] obtain e2 e3 st1' where
    adv: "advance now (new_row snap st) p dec st1 = Inr (r, add_event e3 (upd_cols (next_id st)
        (\<lambda>c. c\<lparr>state := requested_state (pd_approval_policy dec)\<rparr>) st1'))"
    and st1': "st1' = add_event e2 (upd_cols (next_id st) (\<lambda>c. c\<lparr>state := AUTHORIZED\<rparr>) st1)"
    by (auto simp: r_def)
  define st2 where "st2 = add_event e3 (upd_cols (next_id st)
    (\<lambda>c. c\<lparr>state := requested_state (pd_approval_policy dec)\<rparr>) st1')"
  have st2: "invocations st2 = invocations st @ [r]" "audits st2 = audits st"
    using rows_upd_new [OF ok]
    by (simp_all add: st2_def st1' st1_def r_def upd_cols_def add_event_def)
  note adv = adv [folded st2_def]
  have "accept sha256 now rq p reg dec c st = Inr (r, audit_created r p dec st2)"
    using free ins adv d
    by (simp add: accept_def Let_def envelope_def persist_def snap_def st1_def)
  with st2 show ?thesis by (auto simp: audit_created_def audit_record_def)
qed

lemma prerequisites_deny: "evaluate_prerequisites sha256 c = Some dn \<Longrightarrow> \<not> pd_allowed dn"
  unfolding evaluate_prerequisites_def gates_one_to_four_def validate_input_def
  by (auto simp: andThen_def split: option.splits if_splits sum.splits model_result.splits)

lemma decide_request_allowed:
  assumes "decide_request sha256 registry env now rq p reg st = (dec, c)" and "pd_allowed dec"
  obtains d canonical where "c = request_context registry env now rq p reg (resolve_target st rq)"
    and "dec = evaluate sha256 c" and "gates_pass c d canonical"
proof -
  have c: "c = request_context registry env now rq p reg (resolve_target st rq)"
    and dec: "dec = evaluate sha256 c"
    using assms prerequisites_deny by (auto simp: decide_request_def Let_def split: option.splits)
  moreover have "\<exists>d canonical. gates_pass c d canonical"
    using evaluate_block [of c sha256] assms(2) dec by (metis deny_simps(1))
  ultimately show thesis using that by blast
qed

text \<open>What the table asks of a policy, and what the gates leave to the caller.\<close>

definition storable_policy :: "approval_policy \<Rightarrow> bool" where
  "storable_policy p \<longleftrightarrow> 1 \<le> min_approvals p \<and>
     (min_approvals p = 1 \<or> distinct_approvers_required p) \<and> 0 < ttl_seconds p"

definition well_addressed :: "request \<Rightarrow> bool" where
  "well_addressed rq \<longleftrightarrow> rq_target_asset_id rq = None \<or> given (rq_target_ref rq) = None"

lemma resolve_target_checked:
  assumes "check_target d (resolve_target st rq) = None" and "well_addressed rq"
  shows "(tf_kind (resolve_target st rq) = TK_ASSET) = (tf_asset_id (resolve_target st rq) \<noteq> None)"
    and "(tf_kind (resolve_target st rq) = TK_EXTERNAL_REF) = (given (rq_target_ref rq) \<noteq> None)"
    and "tf_asset_id (resolve_target st rq) = Some a \<Longrightarrow> a \<in> asset_id ` set (assets st)"
proof -
  have asset: "get_asset i st = Some x \<Longrightarrow> asset_id x \<in> asset_id ` set (assets st)" for i x
    unfolding get_asset_def using find_row_SomeD by fastforce
  show "(tf_kind (resolve_target st rq) = TK_ASSET) = (tf_asset_id (resolve_target st rq) \<noteq> None)"
    using assms(1)
    by (auto simp: resolve_target_def no_target_def check_target_def split: option.splits if_splits)
  show "(tf_kind (resolve_target st rq) = TK_EXTERNAL_REF) = (given (rq_target_ref rq) \<noteq> None)"
    using assms(2)
    by (auto simp: resolve_target_def no_target_def well_addressed_def split: option.splits)
  show "tf_asset_id (resolve_target st rq) = Some a \<Longrightarrow> a \<in> asset_id ` set (assets st)"
    using asset by (auto simp: resolve_target_def no_target_def split: option.splits)
qed

lemma accepted_checks:
  assumes pass: "gates_pass c d canonical"
    and c: "c = request_context registry env now rq p reg (resolve_target st rq)"
    and reg: "reg \<in> set (registrations st)"
    and valid: "validate_declaration adapters d = Inr ()" "storable_policy (td_approval_policy d)"
    and addr: "well_addressed rq"
    and key: "change_class (td_class d) \<Longrightarrow> rq_idempotency_key rq \<noteq> None" "rq_idempotency_key rq \<noteq> Some []"
    and free: "existing_for_key rq digest st = Inr None"
  shows "\<forall>ck \<in> set (invocation_checks st (new_row
     (accepted_snapshot sha256 now rq p reg (evaluate sha256 c) (pc_target c) envelope digest) st)). snd ck"
proof -
  let ?snap = "accepted_snapshot sha256 now rq p reg (evaluate sha256 c) (pc_target c) envelope digest"
  have target: "check_target d (resolve_target st rq) = None" and tgt: "pc_target c = resolve_target st rq"
    using pass c by (simp_all add: gates_pass_def request_context_def)
  note t = resolve_target_checked [OF target addr]
  have change: "change_class (td_class d) \<Longrightarrow>
      approval_required (td_approval_policy d) \<and> td_validation_required d"
    using valid(1) by (auto simp: validate_declaration_iff dest: check_class_agreementD(1))
  have "\<forall>ck \<in> set (snapshot_checks ?snap). snd ck"
    using t(1,2) valid(2) key change
    by (simp add: snapshot_checks_def accepted_snapshot_def Let_def evaluate_pass [OF pass] tgt
        storable_policy_def)
  moreover have "\<forall>ck \<in> set (progress_checks ?snap initial_progress). snd ck"
    using valid(2)
    by (simp add: progress_checks_def initial_progress_def accepted_snapshot_def Let_def
        evaluate_pass [OF pass] storable_policy_def)
  moreover have "uq_tool_invocation_idem st (new_row ?snap st)"
  proof (cases "rq_idempotency_key rq")
    case (Some k)
    with key(2) free have "find (same_live_key k) (invocations st) = None"
      by (cases k) (auto simp: existing_for_key_def split: option.splits if_splits)
    with Some show ?thesis
      by (auto simp: uq_tool_invocation_idem_def accepted_snapshot_def Let_def list_ex_iff find_None_iff)
  qed (simp add: uq_tool_invocation_idem_def accepted_snapshot_def Let_def)
  moreover have "\<forall>ck \<in> set (invocation_fks st (new_row ?snap st)). snd ck"
    using t(3) reg
    by (auto simp: invocation_fks_def accepted_snapshot_def Let_def tgt initial_progress_def
        split: option.split)
  ultimately show ?thesis
    unfolding invocation_checks_def set_append ball_Un new_row_simps by simp
qed

lemma find_SomeD: "find P xs = Some x \<Longrightarrow> x \<in> set xs \<and> P x"
  unfolding find_Some_iff using nth_mem by blast

lemma registration_ofD: "registration_of n v st = Some reg \<Longrightarrow> reg \<in> set (registrations st)"
  unfolding registration_of_def find_Some_iff using nth_mem by blast

lemma create_accepts:
  assumes "registration_of (rq_tool_name rq) (rq_tool_version rq) st = Some reg"
    and "decide_request sha256 registry env now rq p reg st = (dec, c)" and "pd_allowed dec"
    and "accept sha256 now rq p reg dec c st = Inr (r, st')"
  shows "create sha256 registry env now rq p st = (Inr r, st')"
  using assms by (simp add: create_def create_body_def session_def)

text \<open>
  A request that every gate allows, on a declaration that passed the import rules, with a
  fresh key where the class needs one and with at most one kind of target, becomes one new
  invocation: in \<open>AWAITING_APPROVAL\<close> when the declaration requires approval and in \<open>READY\<close>
  otherwise, bound to the digest of the envelope of exactly this declaration, input and target.
  Nothing the gates allowed is refused by the database.
\<close>

theorem allowed_request_is_created:
  assumes "store_ok st"
    and "registration_of (rq_tool_name rq) (rq_tool_version rq) st = Some reg"
    and "decide_request sha256 registry env now rq p reg st = (dec, c)" and "pd_allowed dec"
    and "pc_definition c = Some d"
    and "validate_declaration adapters d = Inr ()" and "storable_policy (td_approval_policy d)"
    and "well_addressed rq"
    and "change_class (td_class d) \<Longrightarrow> rq_idempotency_key rq \<noteq> None" and "rq_idempotency_key rq \<noteq> Some []"
    and "digest = envelope_digest sha256 (build_envelope sha256 d (pd_canonical_input dec)
      (build_target_block (tf_kind (pc_target c)) (tf_asset_id (pc_target c)) (rq_target_ref rq)))"
    and "existing_for_key rq digest st = Inr None"
  shows "\<exists>r st'. create sha256 registry env now rq p st = (Inr r, st') \<and>
     invocations st' = invocations st @ [r] \<and> inv_state r = requested_state (td_approval_policy d) \<and>
     s_envelope_digest (inv_snap r) = digest \<and> s_permission_class (inv_snap r) = td_class d \<and>
     s_approval_required (inv_snap r) = approval_required (td_approval_policy d) \<and>
     s_min_approvals (inv_snap r) = min_approvals (td_approval_policy d) \<and>
     s_principal (inv_snap r) = to_audit_fields p"
proof -
  from decide_request_allowed [OF assms(3,4)] obtain d' canonical
    where c: "c = request_context registry env now rq p reg (resolve_target st rq)"
      and dec: "dec = evaluate sha256 c" and "gates_pass c d' canonical" by blast
  then have pass: "gates_pass c d canonical" using assms(5) by (simp add: gates_pass_def)
  note ev = evaluate_pass [OF pass, of sha256]
  have checks: "\<forall>ck \<in> set (invocation_checks st (new_row
      (accepted_snapshot sha256 now rq p reg dec (pc_target c) envelope digest) st)). snd ck" for envelope
    unfolding dec
    using accepted_checks [OF pass c registration_ofD [OF assms(2)] assms(6-10,12)] .
  from accept_runs [OF assms(1,5), of rq sha256 dec] checks assms(12)
  obtain st' where "accept sha256 now rq p reg dec c st = Inr ((new_row
      (accepted_snapshot sha256 now rq p reg dec (pc_target c) (build_envelope sha256 d
        (pd_canonical_input dec) (build_target_block (tf_kind (pc_target c)) (tf_asset_id (pc_target c))
        (rq_target_ref rq))) digest) st)\<lparr>inv_cols := initial_progress
      \<lparr>state := requested_state (pd_approval_policy dec)\<rparr>\<rparr>, st')"
    and "invocations st' = invocations st @ [(new_row
      (accepted_snapshot sha256 now rq p reg dec (pc_target c) (build_envelope sha256 d
        (pd_canonical_input dec) (build_target_block (tf_kind (pc_target c)) (tf_asset_id (pc_target c))
        (rq_target_ref rq))) digest) st)\<lparr>inv_cols := initial_progress
      \<lparr>state := requested_state (pd_approval_policy dec)\<rparr>\<rparr>]"
    unfolding assms(11) by blast
  with create_accepts [OF assms(2-4)] show ?thesis
    by (simp add: accepted_snapshot_def Let_def dec ev)
qed

text \<open>
  Retrying is safe.  When a request with a key has produced an invocation, sending it again
  later, whoever sends it, while the invocation is not superseded and the tool and target are
  as they were, returns that same invocation as it stands and writes nothing at all.
\<close>

theorem replay_returns_original:
  assumes "store_ok st2" and "r \<in> set (invocations st2)" and "inv_state r \<noteq> SUPERSEDED"
    and "s_idempotency_key (inv_snap r) = Some (k # ks)" and "rq_idempotency_key rq = Some (k # ks)"
    and "registration_of (rq_tool_name rq) (rq_tool_version rq) st2 = Some reg"
    and "decide_request sha256 registry env now rq p reg st2 = (dec, c)" and "pd_allowed dec"
    and "pc_definition c = Some d"
    and "s_envelope_digest (inv_snap r) = envelope_digest sha256 (build_envelope sha256 d
      (pd_canonical_input dec)
      (build_target_block (tf_kind (pc_target c)) (tf_asset_id (pc_target c)) (rq_target_ref rq)))"
  shows "create sha256 registry env now rq p st2 = (Inr r, st2)"
proof -
  have live: "same_live_key (k # ks) r" using assms(3,4) by (simp add: same_live_key_def)
  have "q = r" if "q \<in> set (invocations st2)" "same_live_key (k # ks) q" for q
  proof (rule ccontr)
    assume "q \<noteq> r"
    then have "inv_id q \<noteq> inv_id r"
      using get_invocation_row [OF assms(1)] that(1) assms(2) by (metis option.inject)
    moreover have "uq_tool_invocation_idem st2 r"
      using store_okD(4) [OF assms(1,2)] by (intro idem_of_checks) blast
    ultimately show False
      using assms(3,4) that by (auto simp: uq_tool_invocation_idem_def list_ex_iff)
  qed
  then have "find (same_live_key (k # ks)) (invocations st2) = Some r"
    using live assms(2) by (metis find_None_iff find_SomeD not_None_eq)
  with assms have "accept sha256 now rq p reg dec c st2 = Inr (r, st2)"
    by (simp add: accept_def existing_for_key_def Let_def)
  with create_accepts [OF assms(6-8)] show ?thesis .
qed

text \<open>
  The same key with a different envelope is refused, and nothing is written.
\<close>

theorem reused_key_conflicts:
  assumes "find (same_live_key (k # ks)) (invocations st) = Some r"
    and "rq_idempotency_key rq = Some (k # ks)"
    and "registration_of (rq_tool_name rq) (rq_tool_version rq) st = Some reg"
    and "decide_request sha256 registry env now rq p reg st = (dec, c)" and "pd_allowed dec"
    and "pc_definition c = Some d"
    and "s_envelope_digest (inv_snap r) \<noteq> envelope_digest sha256 (build_envelope sha256 d
      (pd_canonical_input dec)
      (build_target_block (tf_kind (pc_target c)) (tf_asset_id (pc_target c)) (rq_target_ref rq)))"
  shows "create sha256 registry env now rq p st = (Inl (ToolErr IdempotencyConflictError), st)"
proof -
  have "accept sha256 now rq p reg dec c st = Inl (ToolErr IdempotencyConflictError)"
    using assms by (simp add: accept_def existing_for_key_def Let_def)
  with assms(3-5) show ?thesis by (simp add: create_def create_body_def session_def)
qed

end
