(* ===== verification/Scenario.thy ===== *)
theory Scenario
  imports Lifecycle Creation
begin

text \<open>
  One concrete run, on which the properties are instantiated: Olga asks to restart the service
  \<open>web\<close>, Anna approves, a worker claims, runs and validates.  The hash function, the model
  validators and the adapter are concrete functions; every state of the run is computed by the
  operations of the preceding theories.
\<close>

section \<open>The parties\<close>

definition sha0 :: "string \<Rightarrow> string" where
  "sha0 text = zeros"

definition open_model :: tool_model where
  "open_model = \<lparr>model_schema = [(''type'', JStr ''object''), (''additionalProperties'', JBool False)],
     model_fields = [''asset_id'', ''restart_initiated''], model_validate = Valid\<rparr>"

definition models :: catalog_models where
  "models = \<lparr>EmptyInput = open_model, HealthSummaryOut = open_model, EchoIn = open_model,
     EchoOut = open_model, DeviceStatusIn = open_model, DeviceStatusOut = open_model,
     ServiceRestartIn = open_model, ServiceRestartOut = open_model, RotateKeyIn = open_model,
     RotateKeyOut = open_model, ProhibitedIn = open_model, NeverOut = open_model,
     ClusterStatusOut = open_model, NodeListOut = open_model, NodeStatusOut = open_model,
     NodeNetworkOut = open_model, GuestListOut = open_model, VmStatusOut = open_model,
     VmConfigOut = open_model, ContainerStatusOut = open_model, ContainerConfigOut = open_model,
     StorageListOut = open_model\<rparr>"

definition restart :: tool_definition where
  "restart = SERVICE_RESTART models"

lemma digests [simp]:
  "contract_hash sha0 d = zeros" "envelope_digest sha0 e = zeros" "input_digest sha0 i = zeros"
  "digest_of sha0 v = zeros"
  by (simp_all add: contract_hash_def envelope_digest_def input_digest_def digest_of_def sha0_def)

lemma restart_simps [simp]:
  "td_name restart = ''test.service.restart''" "td_version restart = ''1.0''"
  "td_key restart = (''test.service.restart'', ''1.0'')"
  "td_class restart = CLASS_2_LOW_RISK_CHANGE" "td_prohibited restart = False"
  "td_adapter_id restart = ''test.simulated''"
  "td_target_type restart = TK_ASSET" "td_target_asset_types restart = [''SERVICE'']"
  "td_required_roles restart = [''operator'']" "td_lifecycle_default restart = ACTIVE"
  "td_validation_required restart" "td_input_model restart = open_model"
  "td_output_model restart = open_model" "td_timeout_milli restart = 30000"
  "max_attempts (td_retry_policy restart) = 1" "td_output_allow_list restart = []"
  "approval_required (td_approval_policy restart)" "min_approvals (td_approval_policy restart) = 1"
  "\<not> distinct_approvers_required (td_approval_policy restart)"
  "ttl_seconds (td_approval_policy restart) = 3600"
  "allowed_environments (td_approval_policy restart) = []"
  "approver_roles (td_approval_policy restart) = [''approver'', ''admin'']"
  "\<not> self_approval_permitted (td_approval_policy restart)"
  "td_capability_tags restart = [''service.restart'']"
  by (simp_all add: restart_def SERVICE_RESTART_def ToolDefinition_def models_def td_key_def
      default_retry_policy_def APPROVAL_AUTHORITY_ROLES_def)

definition tools :: "tool_definition list" where
  "tools = [restart]"

definition web :: asset where
  "web = \<lparr>asset_id = 7, asset_type = ''SERVICE'', asset_lifecycle = ''ACTIVE'',
     asset_display_name = ''web''\<rparr>"

definition st0 :: store where
  "st0 = empty_store\<lparr>assets := [web], next_id := 100\<rparr>"

definition reg1 :: registration where
  "reg1 = \<lparr>reg_id = 100, reg_name = ''test.service.restart'', reg_version = ''1.0'',
     reg_contract_hash = zeros, reg_lifecycle = ACTIVE, reg_disabled_at = None,
     reg_disabled_by = None, reg_disabled_reason = None, reg_retired_at = None,
     reg_retired_reason = None\<rparr>"

definition st1 :: store where
  "st1 = st0\<lparr>registrations := [reg1], next_id := 101\<rparr>"

lemmas store_defs = st1_def st0_def empty_store_def web_def reg1_def

definition person :: "string \<Rightarrow> string list \<Rightarrow> principal" where
  "person subject roles = \<lparr>p_subject = subject, p_type = HUMAN, p_issuer = ''idp'',
     p_auth_method = OIDC, p_display_name = subject, p_roles = roles\<rparr>"

definition olga :: principal where "olga = person ''olga'' [''operator'']"
definition anna :: principal where "anna = person ''anna'' [''approver'']"

definition restart_request :: request where
  "restart_request = \<lparr>rq_tool_name = ''test.service.restart'', rq_tool_version = ''1.0'',
     rq_arguments = [(''graceful'', JBool True)], rq_target_asset_id = Some 7, rq_target_ref = None,
     rq_idempotency_key = Some ''k1'', rq_request_id = Some ''r1''\<rparr>"

lemma no_prohibited_tag [simp]: "\<not> is_prohibited restart"
  by (simp add: is_prohibited_def prohibited_overlap_def PROHIBITED_CAPABILITIES_def)

lemma open_model_simps [simp]: "model_validate open_model = Valid" "model_fields open_model = [''asset_id'', ''restart_initiated'']"
  by (simp_all add: open_model_def)

definition target :: target_facts where
  "target = resolve_target st1 restart_request"

definition ctx :: policy_context where
  "ctx = request_context tools ''test'' 1000 restart_request olga reg1 target"

lemma ctx_pass: "gates_pass ctx restart [(''graceful'', JBool True)]"
  by (simp add: gates_pass_def ctx_def request_context_def get_definition_def tools_def
      restart_request_def reg1_def target_def resolve_target_def st1_def st0_def empty_store_def
      get_asset_def web_def check_target_def holds_required_roles_def olga_def person_def
      effective_roles_def role_of_def all_roles_def environment_allowed_def)

lemma decision:
  assumes "assets st = [web]"
  shows "decide_request sha tools ''test'' 1000 restart_request olga reg1 st = (evaluate sha ctx, ctx)"
proof -
  have "gates_one_to_four sha (ctx\<lparr>pc_target := t\<rparr>) = Inr (None, [(''graceful'', JBool True)])" for t
    using ctx_pass by (simp add: gates_pass_def gates_one_to_four_def validate_input_def)
  from this [of "no_target (requested_kind restart_request) False"]
  have "evaluate_prerequisites sha (request_context tools ''test'' 1000 restart_request olga reg1
      (no_target (requested_kind restart_request) False)) = None"
    by (simp add: ctx_def request_context_def evaluate_prerequisites_def)
  moreover have "resolve_target st restart_request = target"
    using assms by (simp add: target_def resolve_target_def get_asset_def store_defs restart_request_def)
  ultimately show ?thesis by (simp add: decide_request_def ctx_def Let_def)
qed

definition target_block :: jobj where
  "target_block = build_target_block TK_ASSET (Some 7) None"

definition snap :: security_snapshot where
  "snap = \<lparr>s_request_id = Some ''r1'', s_idempotency_key = Some ''k1'',
     s_tool_name = ''test.service.restart'', s_tool_version = ''1.0'', s_registration_id = 100,
     s_permission_class = CLASS_2_LOW_RISK_CHANGE, s_approval_required = True, s_min_approvals = 1,
     s_distinct_approvers = False, s_ttl_seconds = 3600, s_validation_required = True,
     s_approval_policy = as_snapshot (td_approval_policy restart),
     s_execution_parameters = execution_parameters restart, s_contract_hash = zeros,
     s_envelope = build_envelope sha0 restart [(''graceful'', JBool True)] target_block,
     s_envelope_digest = zeros, s_input_digest = zeros,
     s_input_canonical = [(''graceful'', JBool True)], s_principal = to_audit_fields olga,
     s_target_kind = TK_ASSET, s_target_asset_id = Some 7, s_target_ref = None,
     s_authorization_decision = GATE_ALLOW, s_authorization_reason = PR_ALLOWED,
     s_authorized_at = 1000, s_requested_at = 1000\<rparr>"

lemma accepted: "accepted_snapshot sha0 1000 restart_request olga reg1 (evaluate sha0 ctx) target
   (build_envelope sha0 restart [(''graceful'', JBool True)] target_block) zeros = snap"
  unfolding evaluate_pass [OF ctx_pass]
  by (simp add: accepted_snapshot_def snap_def restart_request_def reg1_def target_def
      resolve_target_def st1_def st0_def get_asset_def web_def empty_store_def given_def ctx_def
      request_context_def Let_def)

definition at :: "progress \<Rightarrow> invocation" where
  "at cols = \<lparr>inv_id = 101, inv_snap = snap, inv_cols = cols\<rparr>"

lemma snap_simps [simp]:
  "s_idempotency_key snap = Some ''k1''" "s_registration_id snap = 100"
  "s_permission_class snap = CLASS_2_LOW_RISK_CHANGE" "s_approval_required snap"
  "s_min_approvals snap = 1" "\<not> s_distinct_approvers snap" "s_ttl_seconds snap = 3600"
  "s_validation_required snap" "s_envelope_digest snap = zeros"
  "s_approval_policy snap = as_snapshot (td_approval_policy restart)"
  "s_principal snap = to_audit_fields olga" "s_target_kind snap = TK_ASSET"
  "s_target_asset_id snap = Some 7" "s_target_ref snap = None"
  "s_authorization_decision snap = GATE_ALLOW" "s_requested_at snap = 1000"
  "s_tool_name snap = ''test.service.restart''" "s_tool_version snap = ''1.0''"
  "s_input_canonical snap = [(''graceful'', JBool True)]"
  by (simp_all add: snap_def)

definition event_now :: "int \<Rightarrow> uuid \<Rightarrow> invocation_state option \<Rightarrow> invocation_state \<Rightarrow> string \<Rightarrow>
    string option \<Rightarrow> jobj \<Rightarrow> store \<Rightarrow> event" where
  "event_now now i from to reason actor detail st = \<lparr>ev_id = next_id st, ev_invocation = i,
     ev_sequence = next_sequence i st, ev_from = from, ev_to = to, ev_actor = actor,
     ev_reason = reason, ev_detail = redact_obj detail, ev_at = now\<rparr>"

lemma append_event_eval:
  assumes "get_invocation i st = Some r"
  shows "append_event now i from to reason actor detail st =
    Inr (event_now now i from to reason actor detail st,
      add_event (event_now now i from to reason actor detail st) st)"
proof -
  from append_event_runs [OF assms] obtain e where
    run: "append_event now i from to reason actor detail st = Inr (e, add_event e st)" by blast
  from append_event_shape [OF run] have "e = event_now now i from to reason actor detail st"
    by (simp add: event_now_def)
  with run show ?thesis by simp
qed

lemma transition_eval:
  assumes "get_invocation (inv_id held) st = Some r" "inv_state r = inv_state held"
    and "expected (inv_cols r)" and "is_legal_transition (inv_state held) to"
    and "\<forall>c \<in> set (invocation_checks st (r\<lparr>inv_cols := columns ((inv_cols r)\<lparr>state := to\<rparr>)\<rparr>)). snd c"
    and "\<And>c. state (columns c) = state c"
  shows "transition_cas now held to reason actor detail expected columns st =
     Inr ((True, r\<lparr>inv_cols := columns ((inv_cols r)\<lparr>state := to\<rparr>)\<rparr>),
       add_event (event_now now (inv_id held) (Some (inv_state held)) to reason actor detail
           (upd_cols (inv_id held) (\<lambda>c. columns (c\<lparr>state := to\<rparr>)) st))
         (upd_cols (inv_id held) (\<lambda>c. columns (c\<lparr>state := to\<rparr>)) st))"
proof -
  have "update_invocation (inv_id held) (\<lambda>c. state c = inv_state held \<and> expected c)
      (\<lambda>c. columns (c\<lparr>state := to\<rparr>)) st = Inr (True, upd_cols (inv_id held) (\<lambda>c. columns (c\<lparr>state := to\<rparr>)) st)"
    by (rule update_invocation_runs [OF assms(1)]) (use assms in auto)
  then show ?thesis
    using assms(1,4,6) by (simp add: transition_cas_def Let_def get_upd_cols append_event_eval)
qed

definition holds :: "progress \<Rightarrow> approval list \<Rightarrow> store \<Rightarrow> bool" where
  "holds cols as st \<longleftrightarrow> store_ok st \<and> invocations st = [at cols] \<and> approvals st = as \<and>
     registrations st = [reg1] \<and> assets st = [web]"

lemma at_simps [simp]: "inv_id (at cols) = 101" "inv_snap (at cols) = snap" "inv_cols (at cols) = cols"
  "(at cols)\<lparr>inv_cols := cols'\<rparr> = at cols'"
  by (simp_all add: at_def)

lemma holds_get: "holds cols as st \<Longrightarrow> get_invocation 101 st = Some (at cols)"
  by (simp add: holds_def get_invocation_def)

lemma holds_checks:
  assumes "invocations st = [] \<or> (\<exists>cols. invocations st = [at cols])" "registrations st = [reg1]" "assets st = [web]"
    and "\<forall>c \<in> set (progress_checks snap cols). snd c"
    and "final_gate_event_id cols \<noteq> None \<Longrightarrow> the (final_gate_event_id cols) \<in> ev_id ` set (events st)"
  shows "\<forall>c \<in> set (invocation_checks st (at cols)). snd c"
proof -
  have "uq_tool_invocation_idem st (at cols)"
    using assms(1) by (auto simp: uq_tool_invocation_idem_def)
  moreover have "\<forall>c \<in> set (invocation_fks st (at cols)). snd c"
    using assms(2,3,5) by (auto simp: invocation_fks_def reg1_def web_def split: option.splits)
  moreover have "\<forall>c \<in> set (snapshot_checks snap). snd c" by (simp add: snapshot_checks_def)
  ultimately show ?thesis using assms(4) by (simp add: invocation_checks_def ball_Un)
qed

lemma holds_cas:
  assumes st: "holds cols as st" and "expected cols" "is_legal_transition (state cols) to" "keeps_state columns"
    and entry: "entry_condition st (state cols) to 101"
    and checks: "\<forall>c \<in> set (progress_checks snap (columns (cols\<lparr>state := to\<rparr>))). snd c"
    and gate: "final_gate_event_id (columns (cols\<lparr>state := to\<rparr>)) = final_gate_event_id cols"
  shows "\<exists>st'. transition_cas now (at cols) to reason actor detail expected columns st =
       Inr ((True, at (columns (cols\<lparr>state := to\<rparr>))), st') \<and>
     holds (columns (cols\<lparr>state := to\<rparr>)) as st' \<and> (\<exists>es. events st' = events st @ es)"
proof -
  have ok: "store_ok st" and inv: "invocations st = [at cols]" using st by (simp_all add: holds_def)
  have "\<forall>c \<in> set (invocation_checks st (at cols)). snd c" using store_okD(4) [OF ok, of "at cols"] inv by simp
  then have old: "final_gate_event_id cols \<noteq> None \<Longrightarrow> the (final_gate_event_id cols) \<in> ev_id ` set (events st)"
    by (auto simp: invocation_checks_def invocation_fks_def split: option.splits)
  have "\<forall>c \<in> set (invocation_checks st (at (columns (cols\<lparr>state := to\<rparr>)))). snd c"
    by (rule holds_checks) (use st inv checks old gate in \<open>auto simp: holds_def\<close>)
  then have run: "transition_cas now (at cols) to reason actor detail expected columns st =
     Inr ((True, at (columns (cols\<lparr>state := to\<rparr>))),
       add_event (event_now now 101 (Some (state cols)) to reason actor detail
           (upd_cols 101 (\<lambda>c. columns (c\<lparr>state := to\<rparr>)) st))
         (upd_cols 101 (\<lambda>c. columns (c\<lparr>state := to\<rparr>)) st))" (is "_ = Inr (_, ?st')")
    using transition_eval [of "at cols" st "at cols" expected to columns now reason actor detail]
      assms(2-4) holds_get [OF st] by (simp add: keeps_stateD)
  have "store_ok ?st'"
    using transition_cas_upholds [of columns st "at cols" to now reason actor detail expected] assms(4) entry ok run
    by (auto dest: upholdsD)
  moreover have "invocations ?st' = [at (columns (cols\<lparr>state := to\<rparr>))]"
    using inv by (simp add: add_event_def upd_cols_def)
  ultimately show ?thesis
    using run st by (auto simp: holds_def add_event_def)
qed

lemma holds_transition:
  assumes "holds cols as st" "is_legal_transition (state cols) to" "keeps_state columns"
    and "entry_condition st (state cols) to 101"
    and "\<forall>c \<in> set (progress_checks snap (columns (cols\<lparr>state := to\<rparr>))). snd c"
    and "final_gate_event_id (columns (cols\<lparr>state := to\<rparr>)) = final_gate_event_id cols"
  shows "\<exists>st'. transition now (at cols) to reason actor detail anything columns st =
       Inr (at (columns (cols\<lparr>state := to\<rparr>)), st') \<and> holds (columns (cols\<lparr>state := to\<rparr>)) as st'"
  using holds_cas [OF assms(1) _ assms(2-), of anything now reason actor detail]
  by (auto simp: transition_def anything_def)

lemma holds_audit: "holds cols as st \<Longrightarrow> holds cols as (audit_record a st)"
  using audit_record_ok [of st a] by (simp add: holds_def audit_record_def)

abbreviation in_state :: "invocation_state \<Rightarrow> progress" where
  "in_state s \<equiv> initial_progress\<lparr>state := s\<rparr>"

lemma initial_simps [simp]:
  "final_gate_event_id (initial_progress\<lparr>state := s\<rparr>) = None"
  "final_gate_event_id initial_progress = None"
  by (simp_all add: initial_progress_def)

lemma st1_ok: "store_ok st1"
  by (simp add: store_ok_def store_defs approved_list_def)

lemma persisted:
  "\<exists>st. persist sha0 1000 restart_request olga reg1 (evaluate sha0 ctx) target
     (build_envelope sha0 restart [(''graceful'', JBool True)] target_block) zeros st1 =
     Inr (at initial_progress, st) \<and> holds initial_progress [] st"
proof -
  have row: "new_row snap st1 = at initial_progress" by (simp add: new_row_def at_def store_defs)
  have "\<forall>c \<in> set (invocation_checks st1 (at initial_progress)). snd c"
    by (rule holds_checks)
      (auto simp: st1_def st0_def empty_store_def progress_checks_def initial_progress_def)
  from insert_requested_runs [OF st1_ok, of snap 1000 PR_ALLOWED olga, unfolded row, OF this] obtain e where
    run: "insert_requested 1000 snap PR_ALLOWED olga [(''envelope_digest'', JStr zeros)] st1 =
     Inr (at initial_progress, add_event e (add_row (at initial_progress) st1))" (is "_ = Inr (_, ?st)")
    by blast
  have "store_ok ?st" using insert_requested_upholds st1_ok run by (blast dest: upholdsD)
  then have "holds initial_progress [] ?st" by (simp add: holds_def add_event_def store_defs)
  with run show ?thesis by (simp add: persist_def accepted)
qed

lemma advanced:
  assumes "holds initial_progress [] st"
  shows "\<exists>st'. advance 1000 (at initial_progress) olga (evaluate sha0 ctx) st =
     Inr (at (in_state AWAITING_APPROVAL), st') \<and> holds (in_state AWAITING_APPROVAL) [] st'"
proof -
  obtain st1 where a: "transition 1000 (at initial_progress) AUTHORIZED (reason_value PR_ALLOWED)
      (Some (p_subject olga)) [] anything (\<lambda>c. c) st = Inr (at (in_state AUTHORIZED), st1)"
    and st1: "holds (in_state AUTHORIZED) [] st1"
    using holds_transition [OF assms, of AUTHORIZED "\<lambda>c. c" 1000 "reason_value PR_ALLOWED" "Some (p_subject olga)" "[]"]
    by (auto simp: legal_simps keeps_state_def progress_checks_def initial_progress_def simp del: reason_value.simps)
  obtain st2 where b: "transition 1000 (at (in_state AUTHORIZED)) AWAITING_APPROVAL (reason_value PR_APPROVAL_MISSING)
      (Some (p_subject olga)) [(''min_approvals'', JInt 1)] anything (\<lambda>c. c) st1 = Inr (at (in_state AWAITING_APPROVAL), st2)"
    and st2: "holds (in_state AWAITING_APPROVAL) [] st2"
    using holds_transition [OF st1, of AWAITING_APPROVAL "\<lambda>c. c" 1000 "reason_value PR_APPROVAL_MISSING" "Some (p_subject olga)" "[(''min_approvals'', JInt 1)]"]
    by (auto simp: legal_simps keeps_state_def progress_checks_def initial_progress_def simp del: reason_value.simps)
  from a b st2 show ?thesis
    by (simp add: advance_def evaluate_pass [OF ctx_pass] del: reason_value.simps)
qed

definition st2 :: store where
  "st2 = snd (create sha0 tools ''test'' 1000 restart_request olga st1)"

lemma created_st2:
  "create sha0 tools ''test'' 1000 restart_request olga st1 = (Inr (at (in_state AWAITING_APPROVAL)), st2) \<and>
   holds (in_state AWAITING_APPROVAL) [] st2"
proof -
  from persisted obtain s where p: "persist sha0 1000 restart_request olga reg1 (evaluate sha0 ctx) target
     (build_envelope sha0 restart [(''graceful'', JBool True)] target_block) zeros st1 =
     Inr (at initial_progress, s)" "holds initial_progress [] s" by blast
  from advanced [OF p(2)] obtain s' where a: "advance 1000 (at initial_progress) olga (evaluate sha0 ctx) s =
     Inr (at (in_state AWAITING_APPROVAL), s')" "holds (in_state AWAITING_APPROVAL) [] s'" by blast
  have reg: "registration_of (rq_tool_name restart_request) (rq_tool_version restart_request) st1 = Some reg1"
    by (simp add: registration_of_def restart_request_def store_defs)
  have free: "existing_for_key restart_request zeros st1 = Inr None"
    by (simp add: existing_for_key_def restart_request_def store_defs)
  have ctx: "pc_definition ctx = Some restart" "pc_target ctx = target" "tf_kind target = TK_ASSET"
    "tf_asset_id target = Some 7" "rq_target_ref restart_request = None"
    "pd_canonical_input (evaluate sha0 ctx) = [(''graceful'', JBool True)]"
    using ctx_pass evaluate_pass [OF ctx_pass, of sha0]
    by (auto simp: gates_pass_def ctx_def request_context_def target_def resolve_target_def
        restart_request_def get_asset_def store_defs)
  have a2: "accept sha0 1000 restart_request olga reg1 (evaluate sha0 ctx) ctx st1 = Inr (at (in_state AWAITING_APPROVAL),
      audit_created (at (in_state AWAITING_APPROVAL)) olga (evaluate sha0 ctx) s')"
    using p(1) a(1) free by (simp add: accept_def ctx Let_def target_block_def [symmetric])
  have "assets st1 = [web]" by (simp add: store_defs)
  from create_accepts [OF reg decision [OF this] _ a2]
  have "create sha0 tools ''test'' 1000 restart_request olga st1 = (Inr (at (in_state AWAITING_APPROVAL)),
      audit_created (at (in_state AWAITING_APPROVAL)) olga (evaluate sha0 ctx) s')"
    by (simp add: evaluate_pass [OF ctx_pass])
  then show ?thesis using holds_audit [OF a(2)] by (simp add: st2_def audit_created_def)
qed

definition cfg :: settings where
  "cfg = \<lparr>set_environment = ''test'', set_allow_self_approval = False, set_lease_milli = 60000\<rparr>"

definition yes :: "uuid \<Rightarrow> approval" where
  "yes = new_approval 2000 (at (in_state AWAITING_APPROVAL)) anna DECIDED_APPROVED ''ok'' False"

definition approved :: "invocation_state \<Rightarrow> progress" where
  "approved s = (in_state s)\<lparr>approvals_received := 1, approved_at := Some 2000\<rparr>"

definition st3 :: store where
  "st3 = snd (decide cfg 2000 101 anna DECIDED_APPROVED ''ok'' zeros st2)"

lemma anna_may: "check_decision cfg (at (in_state AWAITING_APPROVAL)) anna zeros = Inr False"
  by (simp add: check_decision_def check_state_def check_envelope_def check_authority_def
      initial_progress_def as_snapshot_def anna_def olga_def person_def effective_roles_def role_of_def
      all_roles_def json_strings_def sorted_unique_def derive_self_approval_def to_audit_fields_def jget_def jstrs_def)

lemma approved_simps [simp]:
  "state (approved s) = s" "final_gate_event_id (approved s) = None" "(approved s)\<lparr>state := t\<rparr> = approved t"
  "final_gate_decision (approved s) = None"
  by (simp_all add: approved_def initial_progress_def)

lemma approval_given:
  assumes st: "holds (in_state AWAITING_APPROVAL) [] st"
  shows "insert_decision 2000 (at (in_state AWAITING_APPROVAL)) anna DECIDED_APPROVED ''ok'' False st =
      Inr (yes (next_id st), add_approval (yes (next_id st)) st) \<and>
    holds (in_state AWAITING_APPROVAL) [yes (next_id st)] (add_approval (yes (next_id st)) st)"
proof -
  have inv: "invocations st = [at (in_state AWAITING_APPROVAL)]" "approvals st = []" "store_ok st"
    using st by (simp_all add: holds_def)
  have checks: "\<forall>c \<in> set (approval_checks st (yes (next_id st))). snd c"
    by (simp add: approval_checks_def yes_def new_approval_def strip_def is_space_def inv anna_def olga_def
        person_def to_audit_fields_def)
  have "store_ok (add_approval (yes (next_id st)) st)"
    using insert_approval_ok [OF inv(3) _ _ _ _ checks, of "at (in_state AWAITING_APPROVAL)"] holds_get [OF st]
    by (simp add: yes_def new_approval_def)
  moreover have "insert_approval yes st = Inr (yes (next_id st), add_approval (yes (next_id st)) st)"
    using checks by (simp add: insert_approval_def Let_def andThen_eq_Inr enforce_Inr add_approval_def)
  ultimately show ?thesis
    using st by (simp add: insert_decision_def yes_def holds_def)
qed

lemma threshold_met:
  assumes st: "holds (in_state AWAITING_APPROVAL) [yes i] st"
  shows "\<exists>st'. count_and_advance 2000 (at (in_state AWAITING_APPROVAL)) anna st = Inr (at (approved READY), st') \<and>
    holds (approved READY) [yes i] st'"
proof -
  have count: "approver_count 101 s = 1" if "approvals s = [yes i]" for s
    using that by (simp add: approver_count_def yes_def new_approval_def)
  let ?cols = "(in_state AWAITING_APPROVAL)\<lparr>approvals_received := 1\<rparr>"
  let ?s1 = "upd_cols 101 (\<lambda>c. c\<lparr>approvals_received := 1\<rparr>) st"
  have upd: "update_invocation 101 anything (\<lambda>c. c\<lparr>approvals_received := 1\<rparr>) st = Inr (True, ?s1)"
  proof (rule update_invocation_runs [OF holds_get [OF st]])
    show "\<forall>c \<in> set (invocation_checks st ((at (in_state AWAITING_APPROVAL))\<lparr>inv_cols :=
        (inv_cols (at (in_state AWAITING_APPROVAL)))\<lparr>approvals_received := 1\<rparr>\<rparr>)). snd c"
      unfolding at_simps
      by (rule holds_checks) (use st in \<open>auto simp: holds_def progress_checks_def initial_progress_def\<close>)
  qed (simp add: anything_def)
  have "store_ok ?s1"
    using update_columns_upholds [of "\<lambda>c. c\<lparr>approvals_received := 1\<rparr>" st 101 anything] st upd
    by (auto dest!: upholdsD simp: holds_def)
  then have s1: "holds ?cols [yes i] ?s1" using st by (simp add: holds_def upd_cols_def)
  have e: "entry_condition s x t 101" if "holds cols [yes i] s" "t \<notin> {EXECUTED, FAILED, TIMED_OUT}" for s cols x t
    using that count holds_get [OF that(1)] by (simp add: entry_condition_def holds_def)
  obtain s2 where a: "transition 2000 (at ?cols) APPROVED (reason_value PR_ALLOWED) (Some (p_subject anna))
      [(''approvals'', JInt 1)] anything (\<lambda>c. c\<lparr>approved_at := Some 2000\<rparr>) ?s1 = Inr (at (approved APPROVED), s2)"
    and s2: "holds (approved APPROVED) [yes i] s2"
    using holds_transition [OF s1, of APPROVED "\<lambda>c. c\<lparr>approved_at := Some 2000\<rparr>" 2000 "reason_value PR_ALLOWED"
        "Some (p_subject anna)" "[(''approvals'', JInt 1)]"] e [OF s1]
    by (auto simp: legal_simps keeps_state_def progress_checks_def initial_progress_def approved_def
        simp del: reason_value.simps)
  obtain s3 where b: "transition 2000 (at (approved APPROVED)) READY (reason_value PR_ALLOWED) (Some (p_subject anna))
      [] anything (\<lambda>c. c) s2 = Inr (at (approved READY), s3)"
    and s3: "holds (approved READY) [yes i] s3"
    using holds_transition [OF s2, of READY "\<lambda>c. c" 2000 "reason_value PR_ALLOWED"
        "Some (p_subject anna)" "[]"] e [OF s2]
    by (auto simp: legal_simps keeps_state_def progress_checks_def initial_progress_def approved_def
        simp del: reason_value.simps)
  from a b s3 upd count [of st] st show ?thesis
    by (simp add: count_and_advance_def Let_def holds_def del: reason_value.simps)
qed

lemma decided_st3:
  "decide cfg 2000 101 anna DECIDED_APPROVED ''ok'' zeros st2 = (Inr (yes (next_id st2)), st3) \<and>
   holds (approved READY) [yes (next_id st2)] st3"
proof -
  note st2 = created_st2 [THEN conjunct2]
  note given = approval_given [OF st2]
  from threshold_met [OF given [THEN conjunct2]] obtain s where
    run: "count_and_advance 2000 (at (in_state AWAITING_APPROVAL)) anna (add_approval (yes (next_id st2)) st2) =
      Inr (at (approved READY), s)" and s: "holds (approved READY) [yes (next_id st2)] s" by blast
  have "decide cfg 2000 101 anna DECIDED_APPROVED ''ok'' zeros st2 = (Inr (yes (next_id st2)),
      audit_decision (at (approved READY)) anna (yes (next_id st2)) s)"
    using holds_get [OF st2] anna_may given run
    by (simp add: decide_def decide_on_def session_def record_decision_def)
  then show ?thesis using holds_audit [OF s] by (simp add: st3_def audit_decision_def)
qed

definition st4 :: store where
  "st4 = snd (session (claim cfg 3000 900 101 st3) st3)"

definition working :: progress where
  "working = claim_columns 3000 900 63000 33000 (approved READY)"

lemma working_simps [simp]:
  "state working = EXECUTING" "final_gate_event_id working = None" "executor_lease_id working = Some 900"
  "lease_expires_at working = Some 63000" "approvals_received working = 1" "attempt_count working = 1"
  "final_gate_decision working = None" "final_gate_at working = None"
  by (simp_all add: working_def claim_columns_def approved_def initial_progress_def)

lemma timeout_snap [simp]: "timeout_of (at cols) = 30000"
  by (simp add: timeout_of_def snap_def execution_parameters_def jget_def)

lemma claimed_st4:
  "claim cfg 3000 900 101 st3 = Inr (Inr (), st4) \<and> holds working [yes (next_id st2)] st4"
proof -
  note st3 = decided_st3 [THEN conjunct2]
  let ?f = "claim_columns 3000 900 63000 33000"
  let ?e = "event_now 3000 101 (Some READY) EXECUTING (reason_value PR_ALLOWED) None
    [(''lease_id'', JStr (uuid_text 900))] (upd_cols 101 ?f st3)"
  have upd: "update_invocation 101 (\<lambda>c. state c = READY) ?f st3 = Inr (True, upd_cols 101 ?f st3)"
  proof (rule update_invocation_runs [OF holds_get [OF st3]])
    show "\<forall>c \<in> set (invocation_checks st3 ((at (approved READY))\<lparr>inv_cols :=
        ?f (inv_cols (at (approved READY)))\<rparr>)). snd c"
      unfolding at_simps working_def [symmetric]
      by (rule holds_checks) (use st3 in \<open>auto simp: holds_def progress_checks_def\<close>)
  qed simp
  have "get_invocation 101 (upd_cols 101 ?f st3) = Some (at working)"
    using holds_get [OF st3] by (simp add: get_upd_cols working_def)
  from append_event_eval [OF this] upd
  have "claim_for_execution 3000 101 900 63000 33000 st3 = Inr (True, add_event ?e (upd_cols 101 ?f st3))"
    by (simp add: claim_for_execution_def del: reason_value.simps)
  then have run: "claim cfg 3000 900 101 st3 = Inr (Inr (), add_event ?e (upd_cols 101 ?f st3))"
    using holds_get [OF st3] by (simp add: claim_def claim_on_def cfg_def del: reason_value.simps)
  then have st4: "st4 = add_event ?e (upd_cols 101 ?f st3)" by (simp add: st4_def session_def)
  have "store_ok st4"
    using claim_step_upholds [of st3] st3 run st4 by (auto dest!: upholdsD simp: holds_def)
  moreover have "invocations st4 = [at working]" "approvals st4 = [yes (next_id st2)]"
    "registrations st4 = [reg1]" "assets st4 = [web]"
    using st3 by (simp_all add: st4 holds_def upd_cols_def add_event_def working_def)
  ultimately show ?thesis using run st4 by (simp add: holds_def)
qed

definition robot :: adapter where
  "robot = \<lparr>ad_execute = (\<lambda>n rq. Returned AO_SUCCESS [(''asset_id'', JStr ''7'')] []),
     ad_validate = (\<lambda>rq. Returned AO_SUCCESS [(''state'', JStr ''up'')] [])\<rparr>"

definition adapters :: "string \<Rightarrow> adapter option" where
  "adapters name = (if name = ''test.simulated'' then Some robot else None)"

lemma gate_opens: "final_gate sha0 tools 4000 (at working) st4 = Inr restart"
proof -
  note st4 = claimed_st4 [THEN conjunct2]
  have "approved_rows 101 st4 = [yes (next_id st2)]"
    using st4 by (simp add: holds_def approved_rows_def yes_def new_approval_def)
  moreover have "get_registration 100 st4 = Some reg1" "reg_lifecycle reg1 = ACTIVE"
    using st4 by (simp_all add: holds_def get_registration_def reg1_def)
  ultimately show ?thesis
    by (simp add: final_gate_def get_definition_def tools_def Let_def
        approval_failure_def yes_def new_approval_def)
qed

definition gated_cols :: "uuid \<Rightarrow> progress" where
  "gated_cols e = gate_columns 4000 (Inr restart) e working"

lemma gate_opened:
  "\<exists>e st. open_gate 4000 900 (at working) (Inr restart) st4 = Inr ((True, at (gated_cols e)), st) \<and>
     holds (gated_cols e) [yes (next_id st2)] st"
proof -
  note st4 = claimed_st4 [THEN conjunct2]
  let ?e = "event_now 4000 101 (Some EXECUTING) EXECUTING (reason_value PR_ALLOWED) None
    [(''gate'', JStr ''final''), (''decision'', JStr (gate_decision_value GATE_ALLOW)),
     (''reason'', JStr (reason_value PR_ALLOWED)), (''lease_id'', JStr (uuid_text 900))] st4"
  let ?st = "add_event ?e st4"
  let ?cols = "gated_cols (ev_id ?e)"
  have get: "get_invocation 101 ?st = Some (at working)"
    using holds_get [OF st4] by (simp add: add_event_def get_invocation_def)
  have upd: "record_final_gate_if_owned 4000 101 900 GATE_ALLOW (reason_value PR_ALLOWED) (ev_id ?e) ?st =
      Inr (True, upd_cols 101 (gate_columns 4000 (Inr restart) (ev_id ?e)) ?st)"
    unfolding record_final_gate_if_owned_def
  proof (subst update_invocation_runs [OF get])
    show "\<forall>c \<in> set (invocation_checks ?st ((at working)\<lparr>inv_cols := (inv_cols (at working))
        \<lparr>final_gate_decision := Some GATE_ALLOW, final_gate_reason := Some (reason_value PR_ALLOWED),
         final_gate_at := Some 4000, final_gate_event_id := Some (ev_id ?e)\<rparr>\<rparr>)). snd c"
      unfolding at_simps
      by (rule holds_checks) (use st4 in \<open>auto simp: holds_def progress_checks_def add_event_def\<close>)
  qed (simp_all add: gate_columns_def [abs_def] gate_decision_def gate_reason_def)
  let ?st' = "upd_cols 101 (gate_columns 4000 (Inr restart) (ev_id ?e)) ?st"
  have "get_invocation 101 ?st' = Some (at ?cols)" using get by (simp add: get_upd_cols gated_cols_def)
  then have run: "open_gate 4000 900 (at working) (Inr restart) st4 = Inr ((True, at ?cols), ?st')"
    using append_event_eval [OF holds_get [OF st4]] upd
    by (simp add: open_gate_def gate_reason_def gate_decision_def Let_def del: reason_value.simps gate_decision_value.simps)
  have "store_ok ?st'"
    using open_gate_upholds [of "at working" st4 "at working" 4000 900 "Inr restart"] holds_get [OF st4] st4 run
    by (auto dest!: upholdsD simp: holds_def)
  then have "holds ?cols [yes (next_id st2)] ?st'"
    using st4 by (simp add: holds_def upd_cols_def add_event_def gated_cols_def)
  with run show ?thesis by blast
qed

lemma gated_simps [simp]:
  "state (gated_cols e) = EXECUTING" "final_gate_decision (gated_cols e) = Some GATE_ALLOW"
  "approvals_received (gated_cols e) = 1" "final_gate_event_id (gated_cols e) = Some e"
  "final_gate_at (gated_cols e) = Some 4000"
  by (simp_all add: gated_cols_def gate_decision_def) (simp_all add: gate_columns_def)

lemma target_resolved: "holds cols as st \<Longrightarrow> \<exists>rq. make_request restart (at cols') st = Inr rq"
  by (auto simp: make_request_def resolved_target_of_def Let_def get_asset_def holds_def web_def)

lemma worked:
  assumes st: "holds (gated_cols e) as st"
  shows "\<exists>calls cols st'. dispatch sha0 adapters cfg 4500 901 restart (at (gated_cols e)) st =
      (calls, Inr (SUCCEEDED, st')) \<and> calls \<noteq> [] \<and> holds cols as st' \<and> state cols = SUCCEEDED \<and>
      final_gate_decision cols = Some GATE_ALLOW"
proof -
  obtain rq where rq: "make_request restart (at (gated_cols e)) st = Inr rq" using target_resolved [OF st] by blast
  obtain summary digest where out: "sanitize_output sha0 restart [(''asset_id'', JStr ''7'')] = (summary, digest)"
    by fastforce
  define f :: "progress \<Rightarrow> progress" where "f = (\<lambda>c. c\<lparr>result_summary := Some summary, result_digest := Some digest,
     rollback_hint := given (Some [])\<rparr>)"
  define done1 where "done1 = f (drop_lease ((gated_cols e)\<lparr>state := EXECUTED\<rparr>))"
  obtain s1 where a: "release_lease 4500 (at (gated_cols e)) EXECUTED (reason_value PR_ALLOWED) [] anything f st =
      Inr (at done1, s1)" and s1: "holds done1 as s1"
    using holds_transition [OF st, of EXECUTED "\<lambda>c. f (drop_lease c)" 4500 "reason_value PR_ALLOWED" None "[]"] holds_get [OF st]
    by (auto simp: legal_simps keeps_state_def f_def drop_lease_def progress_checks_def entry_condition_def
        release_lease_def done1_def simp del: reason_value.simps)
  have "execute sha0 adapters 4500 restart (at (gated_cols e)) st = ([Executed rq], Inr (at done1, s1))"
    using rq a out
    by (simp add: execute_def adapters_def robot_def record_adapter_result_def declared_output_def f_def
        del: reason_value.simps)
  moreover
  let ?g = "\<lambda>c. c\<lparr>executor_lease_id := Some 901, lease_expires_at := Some (4500 + set_lease_milli cfg)\<rparr>"
  define verifying where "verifying = ?g (done1\<lparr>state := VALIDATING\<rparr>)"
  have d1: "state done1 = EXECUTED" "final_gate_decision done1 = Some GATE_ALLOW" "final_gate_at done1 = Some 4000"
    "final_gate_event_id done1 = Some e" "approvals_received done1 = 1"
    by (simp_all add: done1_def f_def drop_lease_def)
  obtain s2 where b: "transition 4500 (at done1) VALIDATING (reason_value PR_ALLOWED) None [] anything ?g s1 =
      Inr (at verifying, s2)" and s2: "holds verifying as s2"
    using holds_transition [OF s1, of VALIDATING ?g 4500 "reason_value PR_ALLOWED" None "[]"] d1
    by (auto simp: legal_simps keeps_state_def progress_checks_def verifying_def simp del: reason_value.simps)
  obtain rq2 where rq2: "make_request restart (at verifying) s2 = Inr rq2" using target_resolved [OF s2] by blast
  let ?h = "\<lambda>c. c\<lparr>validation_outcome := Some CONFIRMED, validation_detail := Some [(''state'', JStr ''up'')],
                validated_at := Some 4500, finished_at := Some 4500\<rparr>"
  let ?cols = "?h (drop_lease (verifying\<lparr>state := SUCCEEDED\<rparr>))"
  have c1: "state verifying = VALIDATING" "final_gate_decision verifying = Some GATE_ALLOW"
    "final_gate_at verifying = Some 4000" "final_gate_event_id verifying = Some e" "approvals_received verifying = 1"
    using d1 by (simp_all add: verifying_def)
  obtain s3 where c: "release_lease 4500 (at verifying) SUCCEEDED (reason_value PR_ALLOWED) [] anything ?h s2 =
      Inr (at ?cols, s3)" and s3: "holds ?cols as s3"
    using holds_transition [OF s2, of SUCCEEDED "\<lambda>c. ?h (drop_lease c)" 4500 "reason_value PR_ALLOWED" None "[]"] c1
    by (auto simp: legal_simps keeps_state_def drop_lease_def progress_checks_def release_lease_def
        simp del: reason_value.simps)
  have "after_execution adapters cfg 4500 901 restart (at done1) s1 = ([Observed rq2], Inr (at ?cols, s3))"
    using b rq2 c
    by (simp add: after_execution_def thenWork_def quietly_def adapters_def robot_def observe_def
        record_validation_def del: reason_value.simps)
  ultimately have run: "dispatch sha0 adapters cfg 4500 901 restart (at (gated_cols e)) st =
      ([Executed rq, Observed rq2], Inr (SUCCEEDED, audit_outcome (at ?cols) AUDIT_SUCCESS s3))"
    using d1 by (simp add: dispatch_def thenWork_def quietly_def drop_lease_def)
  have "holds ?cols as (audit_outcome (at ?cols) AUDIT_SUCCESS s3)"
    unfolding audit_outcome_def by (rule holds_audit [OF s3])
  moreover have "state ?cols = SUCCEEDED" "final_gate_decision ?cols = Some GATE_ALLOW"
    using c1 by (simp_all add: drop_lease_def)
  ultimately show ?thesis using run by blast
qed

definition st5 :: store where
  "st5 = snd (snd (run_claimed sha0 tools adapters cfg 4000 4500 900 901 101 st4))"

lemma ran_st5:
  "\<exists>calls cols. run_claimed sha0 tools adapters cfg 4000 4500 900 901 101 st4 = (calls, Inr SUCCEEDED, st5) \<and>
     calls \<noteq> [] \<and> holds cols [yes (next_id st2)] st5 \<and> state cols = SUCCEEDED \<and>
     final_gate_decision cols = Some GATE_ALLOW"
proof -
  note st4 = claimed_st4 [THEN conjunct2]
  from gate_opened obtain e st where opened: "open_gate 4000 900 (at working) (Inr restart) st4 =
      Inr ((True, at (gated_cols e)), st)" and st: "holds (gated_cols e) [yes (next_id st2)] st" by blast
  from worked [OF st] obtain calls cols st' where run: "dispatch sha0 adapters cfg 4500 901 restart
      (at (gated_cols e)) st = (calls, Inr (SUCCEEDED, st'))"
    and rest: "calls \<noteq> []" "holds cols [yes (next_id st2)] st'" "state cols = SUCCEEDED"
      "final_gate_decision cols = Some GATE_ALLOW" by blast
  from run have "run_claimed sha0 tools adapters cfg 4000 4500 900 901 101 st4 = (calls, Inr SUCCEEDED, st')"
    using holds_get [OF st4] opened
    by (simp add: run_claimed_def run_claimed_on_def gate_opens thenWork_def quietly_def session_def)
  with rest show ?thesis by (auto simp: st5_def)
qed

lemma olga_only [simp]: "\<not> self_approval_permitted_by (at cols)" "af_subject (to_audit_fields olga) = ''olga''"
  by (simp_all add: self_approval_permitted_by_def as_snapshot_def jget_def olga_def person_def
      to_audit_fields_def)

section \<open>The run as steps of the whole program\<close>

definition w0 :: world where "w0 = \<lparr>db = st0, workers = [], runs = []\<rparr>"
definition w1 :: world where "w1 = w0\<lparr>db := st1\<rparr>"
definition w2 :: world where "w2 = w0\<lparr>db := st2\<rparr>"
definition w3 :: world where "w3 = w0\<lparr>db := st3\<rparr>"
definition w4 :: world where "w4 = w0\<lparr>db := st4, workers := [(101, 900)]\<rparr>"

definition w5 :: world where
  "w5 = run_step sha0 tools adapters cfg 4000 4500 901 (101, 900) w4"

lemma w0_starts: "starts w0"
  by (auto simp: starts_def w0_def st0_def empty_store_def)

lemma registered_st1: "snd (session (reconcile_registry sha0 False 0 tools st0) st0) = st1"
  by (simp add: session_def reconcile_registry_def store_defs tools_def all_definitions_def
      reconcile_definition_def new_registration_def Let_def registrations_checks_def
      registration_checks_def enforce_def first_violation_def upd_rows_def retires_def
      undeclared_def reg_key_def)

lemma steps: "acts w0 w1" "acts w1 w2" "acts w2 w3" "acts w3 w4" "acts w4 w5"
proof -
  show "acts w0 w1"
    using started [of w0 sha0 0 tools] registered_st1 by (simp add: with_db_def w0_def w1_def)
  show "acts w1 w2"
    using created [of w1 sha0 tools "''test''" 1000 restart_request olga]
    by (simp add: with_db_def w0_def w1_def w2_def st2_def)
  show "acts w2 w3"
    using decided [of w2 cfg 2000 101 anna DECIDED_APPROVED "''ok''" zeros]
    by (simp add: with_db_def w0_def w2_def w3_def st3_def)
  show "acts w3 w4"
    using claimed [of w3 cfg 3000 900 101] claimed_st4
    by (simp add: claim_step_def session_def w0_def w3_def w4_def)
  show "acts w4 w5" unfolding w5_def by (rule ran) (simp add: w4_def)
qed

lemma paths: "acts\<^sup>*\<^sup>* w0 w2" "acts\<^sup>*\<^sup>* w0 w4" "acts\<^sup>*\<^sup>* w2 w5" "acts\<^sup>*\<^sup>* w0 w5"
  using steps by (meson rtranclp.rtrancl_into_rtrancl rtranclp.rtrancl_refl)+

lemma db_worlds [simp]: "db w2 = st2" "db w3 = st3" "db w4 = st4" "db w5 = st5"
  by (simp_all add: w2_def w3_def w4_def w0_def w5_def run_step_db st5_def)

lemma w5_runs: "\<exists>calls. calls \<noteq> [] \<and> runs w5 = [(101, calls)] \<and> workers w5 = []"
proof -
  from ran_st5 obtain calls where
    "run_claimed sha0 tools adapters cfg 4000 4500 900 901 101 st4 = (calls, Inr SUCCEEDED, st5)" "calls \<noteq> []"
    by blast
  then show ?thesis by (simp add: w5_def run_step_def w4_def w0_def)
qed

end
