(* ===== verification/Witnesses.thy ===== *)
theory Witnesses
  imports Scenario
begin

text \<open>
  Each property that has hypotheses, applied at a concrete input where they hold.  Most inputs
  are states of the run of theory \<open>Scenario\<close>.
\<close>

section \<open>The whole program\<close>

theorem no_change_without_approval_witness:
  "\<exists>approvers. card approvers = approver_count 101 st4 \<and> Suc 0 \<le> card approvers \<and>
     (\<forall>who \<in> approvers. \<exists>a \<in> set (approvals st4). app_invocation a = 101 \<and>
        app_approver a = who \<and> app_decision a = DECIDED_APPROVED \<and>
        app_envelope_digest a = zeros \<and> who \<noteq> ''olga'')"
proof -
  have "at working \<in> set (invocations (db w4))" using claimed_st4 by (simp add: holds_def)
  from no_change_without_approval [OF w0_starts paths(2) this] show ?thesis
    by (simp add: past_gate_def)
qed

theorem the_record_is_permanent_witness:
  "\<exists>r'. get_invocation 101 st5 = Some r' \<and> inv_snap r' = snap \<and>
     is_legal_transition\<^sup>*\<^sup>* AWAITING_APPROVAL (inv_state r') \<and>
     (\<exists>es. events st5 = events st2 @ es)"
  using the_record_is_permanent [OF w0_starts paths(1,3), of 101 "at (in_state AWAITING_APPROVAL)"]
    holds_get [OF created_st2 [THEN conjunct2]]
  by auto

theorem executed_at_most_once_witness:
  "runs w5 \<noteq> [] \<and> distinct (map fst (workers w5 @ []) @ map fst (runs w5)) \<and>
   (\<exists>r. get_invocation 101 st5 = Some r \<and> EXECUTING \<le> inv_state r)"
  using executed_at_most_once [OF w0_starts paths(4)] w5_runs by auto

theorem reachable_rows_are_sound_witness:
  "replay None (events_of 101 st4) = Some (Some EXECUTING) \<and> executor_lease_id working \<noteq> None"
proof -
  have "at working \<in> set (invocations (db w4))" using claimed_st4 by (simp add: holds_def)
  from reachable_rows_are_sound [OF w0_starts paths(2) this] show ?thesis by simp
qed

section \<open>Declarations and policy\<close>

lemma restart_validates: "validate_declaration ADAPTER_IDS restart = Inr ()"
proof -
  have "passes_but_schema restart" using catalog_passes [of models] by (simp add: CATALOG_def restart_def)
  moreover have "check_input_schema restart = Inr ()"
    by (simp add: check_input_schema_def open_model_def schema_field_names_def schema_blocks_def
        forbids_additional_properties_def jobj_of_def jget_def)
  ultimately show ?thesis by (simp add: passes_but_schema_def validate_declaration_iff)
qed

theorem validated_change_tool_witness:
  "td_validation_required restart \<and> approver_roles (td_approval_policy restart) \<noteq> [] \<and>
   1 \<le> min_approvals (td_approval_policy restart)"
  using validated_change_tool [OF restart_validates] by simp

theorem validated_surface_witness:
  "forbids_additional_properties (td_input_model restart) \<and>
   set (td_capability_tags restart) \<inter> set PROHIBITED_CAPABILITIES = {} \<or>
   td_allow_registration_for_testing restart"
  using validated_surface [OF restart_validates] by blast

theorem evaluate_allows_iff_witness:
  "gates_pass ctx restart [(''graceful'', JBool True)] \<and> pd_allowed (evaluate sha0 ctx) \<and>
   pd_class (evaluate sha0 ctx) = CLASS_2_LOW_RISK_CHANGE"
  using evaluate_allows_iff [of sha0 ctx] ctx_pass by auto

definition shell :: tool_definition where
  "shell = PROHIBITED_SHELL_EXEC models"

definition shell_ctx :: policy_context where
  "shell_ctx = ctx\<lparr>pc_definition := Some shell\<rparr>"

lemma shell_prohibited: "is_prohibited shell"
  by (simp add: shell_def PROHIBITED_SHELL_EXEC_def is_prohibited_def ToolDefinition_def)

theorem prohibition_is_no_oracle_witness:
  "evaluate sha0 (shell_ctx\<lparr>pc_principal := anna, pc_raw_input := [], pc_target := no_target TK_NONE True,
      pc_environment := ''production''\<rparr>) = evaluate sha0 shell_ctx \<and> \<not> pd_allowed (evaluate sha0 shell_ctx)"
  using prohibition_is_no_oracle [of shell_ctx shell sha0 "''production''" "no_target TK_NONE True" "[]" anna]
    shell_prohibited
  by (simp add: shell_ctx_def ctx_def request_context_def reg1_def)

theorem sanitized_output_allow_listed_witness:
  "fst ` set (fst (sanitize_output sha0 restart [(''asset_id'', JStr ''7''), (''note'', JStr ''x'')]))
     \<subseteq> {''asset_id'', ''restart_initiated''}"
  using sanitized_output_allow_listed [of sha0 restart "[(''asset_id'', JStr ''7''), (''note'', JStr ''x'')]"]
  by (auto simp: effective_output_fields_def)

section \<open>Creation\<close>

lemma st1_assets: "assets st1 = [web]"
  by (simp add: store_defs)

theorem allowed_request_is_created_witness:
  "\<exists>r st'. create sha0 tools ''test'' 1000 restart_request olga st1 = (Inr r, st') \<and>
     invocations st' = [r] \<and> inv_state r = AWAITING_APPROVAL \<and> s_envelope_digest (inv_snap r) = zeros"
proof -
  have "pc_definition ctx = Some restart" "registration_of (rq_tool_name restart_request)
      (rq_tool_version restart_request) st1 = Some reg1" "storable_policy (td_approval_policy restart)"
    "well_addressed restart_request" "rq_idempotency_key restart_request = Some ''k1''"
    "existing_for_key restart_request zeros st1 = Inr None" "pd_allowed (evaluate sha0 ctx)"
    using ctx_pass by (simp_all add: gates_pass_def registration_of_def restart_request_def store_defs
        storable_policy_def well_addressed_def given_def existing_for_key_def evaluate_pass [OF ctx_pass])
  then show ?thesis
    using allowed_request_is_created [OF st1_ok _ decision [OF st1_assets, of sha0] _ _ restart_validates, where digest = zeros]
    by (auto simp: requested_state_def st1_def st0_def empty_store_def)
qed

definition vic :: principal where "vic = person ''vic'' [''viewer'']"

definition refused_ctx :: policy_context where
  "refused_ctx = request_context tools ''test'' 1000 restart_request vic reg1 target"

lemma vic_refused:
  "decide_request sha0 tools ''test'' 1000 restart_request vic reg1 st1 =
     (deny sha0 refused_ctx PR_ROLE_INSUFFICIENT, refused_ctx)"
proof -
  have gates: "gates_one_to_four sha0 (refused_ctx\<lparr>pc_target := t\<rparr>) = Inr (None, [(''graceful'', JBool True)])" for t
    by (simp add: gates_one_to_four_def validate_input_def refused_ctx_def request_context_def
        get_definition_def tools_def restart_request_def reg1_def)
  have "refused_ctx\<lparr>pc_target := target\<rparr> = refused_ctx"
    by (simp add: refused_ctx_def request_context_def)
  with gates [of target] have "gates_one_to_four sha0 refused_ctx = Inr (None, [(''graceful'', JBool True)])" by simp
  moreover have "pc_definition refused_ctx = Some restart" "check_target restart (pc_target refused_ctx) = None"
    "\<not> holds_required_roles (pc_principal refused_ctx) restart"
    by (simp_all add: refused_ctx_def request_context_def get_definition_def tools_def restart_request_def
        reg1_def target_def resolve_target_def get_asset_def store_defs check_target_def holds_required_roles_def
        vic_def person_def effective_roles_def role_of_def all_roles_def)
  ultimately have "evaluate sha0 refused_ctx = deny sha0 refused_ctx PR_ROLE_INSUFFICIENT"
    by (simp add: evaluate_def evaluate_gates_def)
  with gates [of "no_target (requested_kind restart_request) False"] show ?thesis
    by (simp add: decide_request_def refused_ctx_def request_context_def target_def
        evaluate_prerequisites_def Let_def)
qed

lemma deny_restart:
  "deny sha0 refused_ctx PR_ROLE_INSUFFICIENT = \<lparr>pd_allowed = False, pd_reason = PR_ROLE_INSUFFICIENT,
     pd_class = td_class restart, pd_approval_policy = td_approval_policy restart,
     pd_validation_required = True, pd_required_roles = [''operator''],
     pd_execution_parameters = execution_parameters restart, pd_prohibited = False,
     pd_contract_hash = zeros, pd_evaluated_at = 1000, pd_canonical_input = []\<rparr>"
  by (simp add: deny_def refused_ctx_def request_context_def get_definition_def tools_def restart_request_def)

theorem refusal_is_recorded_witness:
  "\<exists>r st'. create sha0 tools ''test'' 1000 restart_request vic st1 =
       (Inl (ToolErr ToolAuthorizationError), st') \<and>
     invocations st' = [r] \<and> inv_state r = REJECTED \<and> s_idempotency_key (inv_snap r) = None"
proof -
  have reg: "registration_of (rq_tool_name restart_request) (rq_tool_version restart_request) st1 = Some reg1"
    by (simp add: registration_of_def restart_request_def store_defs)
  let ?snap = "refused_snapshot 1000 restart_request vic reg1 (deny sha0 refused_ctx PR_ROLE_INSUFFICIENT)"
  have "\<forall>ck \<in> set (invocation_checks st1 (new_row ?snap st1)). snd ck"
    unfolding deny_restart
    by (simp add: invocation_checks_def ball_Un snapshot_checks_def progress_checks_def
        uq_tool_invocation_idem_def invocation_fks_def refused_snapshot_def initial_progress_def
        restart_request_def requested_kind_def given_def store_defs Let_def)
  from refusal_is_recorded [OF st1_ok reg vic_refused _ this] show ?thesis
    by (auto simp: store_defs)
qed

theorem refusal_of_unknown_asset_is_lost_witness:
  "\<exists>ck. create sha0 tools ''test'' 1000 (restart_request\<lparr>rq_target_asset_id := Some 8\<rparr>) vic st1 =
     (Inl (IntegrityError ck), st1)"
proof -
  let ?rq = "restart_request\<lparr>rq_target_asset_id := Some 8\<rparr>"
  have reg: "registration_of (rq_tool_name ?rq) (rq_tool_version ?rq) st1 = Some reg1"
    by (simp add: registration_of_def restart_request_def store_defs)
  obtain dec c where dec: "decide_request sha0 tools ''test'' 1000 ?rq vic reg1 st1 = (dec, c)" by fastforce
  moreover have "\<not> pd_allowed dec"
  proof
    assume "pd_allowed dec"
    from decide_request_allowed [OF dec this] obtain d canonical where
      c: "c = request_context tools ''test'' 1000 ?rq vic reg1 (resolve_target st1 ?rq)"
      and "gates_pass c d canonical" .
    note pass = this(2) [unfolded c]
    have "get_asset 8 st1 = None" by (simp add: get_asset_def store_defs)
    then have "resolve_target st1 ?rq = no_target TK_ASSET False"
      by (simp add: resolve_target_def)
    moreover have "pc_definition (request_context tools ''test'' 1000 ?rq vic reg1 t) = Some restart" for t
      by (simp add: request_context_def get_definition_def tools_def restart_request_def)
    moreover have "pc_definition (request_context tools ''test'' 1000 ?rq vic reg1 (resolve_target st1 ?rq)) = Some d"
      "check_target d (pc_target (request_context tools ''test'' 1000 ?rq vic reg1 (resolve_target st1 ?rq))) = None"
      using pass unfolding gates_pass_def by blast+
    moreover have "pc_target (request_context tools ''test'' 1000 ?rq vic reg1 t) = t" for t
      by (simp add: request_context_def)
    ultimately have "check_target restart (no_target TK_ASSET False) = None" by simp
    then show False by (simp add: check_target_def no_target_def)
  qed
  ultimately show ?thesis
    using refusal_of_unknown_asset_is_lost [OF reg dec] by (simp add: store_defs)
qed

theorem change_without_key_fails_witness:
  "\<exists>ck. create sha0 tools ''test'' 1000 (restart_request\<lparr>rq_idempotency_key := None\<rparr>) olga st1 =
     (Inl (IntegrityError ck), st1)"
proof -
  let ?rq = "restart_request\<lparr>rq_idempotency_key := None\<rparr>"
  have reg: "registration_of (rq_tool_name ?rq) (rq_tool_version ?rq) st1 = Some reg1"
    by (simp add: registration_of_def restart_request_def store_defs)
  have eqs: "request_context tools e n ?rq p r t = request_context tools e n restart_request p r t"
    "resolve_target st1 ?rq = resolve_target st1 restart_request"
    "requested_kind ?rq = requested_kind restart_request" for e n p r t
    by (simp_all add: request_context_def resolve_target_def requested_kind_def restart_request_def)
  have "decide_request sha0 tools ''test'' 1000 ?rq olga reg1 st1 = (evaluate sha0 ctx, ctx)"
    using decision [OF st1_assets] unfolding decide_request_def eqs .
  from change_without_key_fails [OF reg this, of restart] show ?thesis
    using ctx_pass by (simp add: evaluate_pass [OF ctx_pass] gates_pass_def)
qed

theorem replay_returns_original_witness:
  "create sha0 tools ''test'' 1000 restart_request olga st2 = (Inr (at (in_state AWAITING_APPROVAL)), st2)"
proof -
  have st2: "store_ok st2" "at (in_state AWAITING_APPROVAL) \<in> set (invocations st2)"
    "registrations st2 = [reg1]" "assets st2 = [web]"
    using created_st2 by (simp_all add: holds_def)
  have "registration_of (rq_tool_name restart_request) (rq_tool_version restart_request) st2 = Some reg1"
    using st2(3) by (simp add: registration_of_def restart_request_def reg1_def)
  moreover have "pd_allowed (evaluate sha0 ctx)" "pc_definition ctx = Some restart"
    using ctx_pass by (simp_all add: evaluate_pass [OF ctx_pass] gates_pass_def)
  ultimately show ?thesis
    using replay_returns_original [OF st2(1,2) _ _ _ _ decision [OF st2(4), of sha0], of "CHR ''k''" "''1''" restart]
    by (simp add: restart_request_def)
qed

definition sha1 :: "string \<Rightarrow> string" where
  "sha1 text = ''x''"

theorem reused_key_conflicts_witness:
  "create sha1 tools ''test'' 1000 restart_request olga st2 = (Inl (ToolErr IdempotencyConflictError), st2)"
proof -
  have st2: "invocations st2 = [at (in_state AWAITING_APPROVAL)]" "registrations st2 = [reg1]" "assets st2 = [web]"
    using created_st2 by (simp_all add: holds_def)
  have "registration_of (rq_tool_name restart_request) (rq_tool_version restart_request) st2 = Some reg1"
    using st2(2) by (simp add: registration_of_def restart_request_def reg1_def)
  moreover have x: "zeros \<noteq> ''x''" by (rule notI, drule arg_cong [of _ _ length]) (simp add: zeros_def)
  moreover have "pd_allowed (evaluate sha1 ctx)" "pc_definition ctx = Some restart"
    using ctx_pass by (simp_all add: evaluate_pass [OF ctx_pass] gates_pass_def)
  moreover have "find (same_live_key ''k1'') (invocations st2) = Some (at (in_state AWAITING_APPROVAL))"
    using st2(1) by (simp add: same_live_key_def initial_progress_def)
  ultimately show ?thesis
    using reused_key_conflicts [of "CHR ''k''" "''1''" st2 "at (in_state AWAITING_APPROVAL)" restart_request reg1 sha1
        tools "''test''" 1000 olga "evaluate sha1 ctx" ctx restart] decision [OF st2(3), of sha1]
    by (simp add: restart_request_def envelope_digest_def digest_of_def sha1_def x)
qed

section \<open>Moves, approvals and claims\<close>

lemma oks: "store_ok st2" "store_ok st3" "store_ok st4" "store_ok st5"
  using created_st2 decided_st3 claimed_st4 ran_st5 by (auto simp: holds_def)

theorem transition_compare_and_set_witness:
  "\<exists>fresh st'. transition_cas 2500 (at (in_state AWAITING_APPROVAL)) CANCELLED ''x'' None [] anything (\<lambda>c. c) st2 =
       Inr ((True, fresh), st') \<and> get_invocation 101 st' = Some fresh \<and> inv_state fresh = CANCELLED"
proof -
  have "\<exists>st'. transition_cas 2500 (at (in_state AWAITING_APPROVAL)) CANCELLED ''x'' None [] anything (\<lambda>c. c) st2 =
      Inr ((True, at (in_state CANCELLED)), st')"
    using holds_cas [OF created_st2 [THEN conjunct2], of anything CANCELLED "\<lambda>c. c" 2500 "''x''" None "[]"]
    by (auto simp: anything_def legal_simps keeps_state_def progress_checks_def initial_progress_def)
  then obtain st' where run: "transition_cas 2500 (at (in_state AWAITING_APPROVAL)) CANCELLED ''x'' None []
      anything (\<lambda>c. c) st2 = Inr ((True, at (in_state CANCELLED)), st')" by blast
  from transition_compare_and_set [OF oks(1) _ _ run] run show ?thesis
    by (auto simp: keeps_state_def initial_progress_def)
qed

theorem claimed_at_most_once_witness:
  "\<exists>won st'. claim_for_execution 9000 101 950 99000 99000 st5 = Inr (won, st') \<and> \<not> won \<and> st' = st5"
proof -
  have "claim_for_execution 3000 101 900 63000 33000 st3 = Inr (True, st4)"
    using claimed_st4 holds_get [OF decided_st3 [THEN conjunct2]]
    by (auto simp: claim_def claim_on_def cfg_def andThen_eq_Inr split: if_splits option.splits)
  moreover obtain cols where st5: "holds cols [yes (next_id st2)] st5" "state cols = SUCCEEDED"
    using ran_st5 by blast
  moreover have "evolves st4 st5" using ran_st5 run_claimed_ok [OF oks(3)] by blast
  moreover obtain won st' where "claim_for_execution 9000 101 950 99000 99000 st5 = Inr (won, st')"
    using holds_get [OF st5(1)] st5(2) by (auto simp: claim_for_execution_def update_invocation_def)
  ultimately show ?thesis using claimed_at_most_once [OF oks(2) _ oks(4)] by metis
qed

theorem approvals_are_sound_witness:
  "app_envelope_digest (yes (next_id st2)) = zeros \<and> app_approver (yes (next_id st2)) \<noteq> ''olga''"
proof -
  have "yes (next_id st2) \<in> set (approvals st3)" "invocations st3 = [at (approved READY)]"
    using decided_st3 by (simp_all add: holds_def)
  with approvals_are_sound [OF oks(2) this(1)] show ?thesis by simp
qed

theorem approval_advances_at_threshold_witness:
  "approver_count 101 st3 = Suc (approver_count 101 st2) \<and>
   (\<exists>r'. get_invocation 101 st3 = Some r' \<and> inv_state r' = READY)"
  using approval_advances_at_threshold [OF oks(1) holds_get [OF created_st2 [THEN conjunct2]]
      decided_st3 [THEN conjunct1]] by simp

section \<open>Execution\<close>

lemma ran_on:
  "\<exists>calls st. run_claimed_on sha0 tools adapters cfg 4000 4500 900 901 (at working) st4 =
     (calls, Inr (SUCCEEDED, st)) \<and> calls \<noteq> []"
proof -
  from ran_st5 obtain calls where "run_claimed sha0 tools adapters cfg 4000 4500 900 901 101 st4 =
      (calls, Inr SUCCEEDED, st5)" "calls \<noteq> []" by blast
  with holds_get [OF claimed_st4 [THEN conjunct2]] show ?thesis
    by (auto simp: run_claimed_def session_def split: prod.splits sum.splits)
qed

theorem adapter_called_only_when_entitled_witness:
  "\<exists>call d. final_gate sha0 tools 4000 (at working) st4 = Inr d \<and> asks_for d (at working) (request_of call)"
proof -
  from ran_on obtain calls st where run: "run_claimed_on sha0 tools adapters cfg 4000 4500 900 901 (at working) st4 =
      (calls, Inr (SUCCEEDED, st))" and "calls \<noteq> []" by blast
  then obtain call where "call \<in> set calls" by (cases calls) auto
  moreover have "faithful_copy (at working) st4"
    using holds_get [OF claimed_st4 [THEN conjunct2]] by (simp add: faithful_copy_def)
  ultimately obtain d where "final_gate sha0 tools 4000 (at working) st4 = Inr d"
    "asks_for d (at working) (request_of call)"
    using adapter_called_only_when_entitled [OF run, of call] holds_get [OF claimed_st4 [THEN conjunct2]]
    by fastforce
  then show ?thesis by blast
qed

theorem lost_lease_writes_nothing_witness:
  "fst (run_claimed_on sha0 tools adapters cfg 4000 4500 999 901 (at working) st4) = []"
  using lost_lease_writes_nothing [of "at working" st4 "at working" 999 4000 sha0 tools adapters cfg 4500 901]
    holds_get [OF claimed_st4 [THEN conjunct2]]
  by (simp add: owns_lease_def) (metis prod.collapse)

theorem execution_ends_as_observed_witness:
  "\<exists>r. get_invocation 101 st5 = Some r \<and> inv_state r = SUCCEEDED \<and> executor_lease_id (inv_cols r) = None"
proof -
  from ran_st5 obtain calls where "run_claimed sha0 tools adapters cfg 4000 4500 900 901 101 st4 =
      (calls, Inr SUCCEEDED, st5)" and calls: "calls \<noteq> []" by blast
  then have "execute_once sha0 tools adapters cfg 3000 4000 4500 900 901 101 st3 = (calls, Inr SUCCEEDED, st5)"
    using claimed_st4 by (simp add: execute_once_def session_def)
  from execution_ends_as_observed [OF oks(2) this calls] show ?thesis by blast
qed

theorem elapsed_inline_run_strands_witness:
  "run_inline sha0 tools adapters cfg 3000 4000 4500 900 901 ElapsedRunning 101 st3 = (Inr EXECUTING, st4)"
  using elapsed_inline_run_strands [OF holds_get [OF decided_st3 [THEN conjunct2]] _ claimed_st4 [THEN conjunct1]]
  by (cases "run_inline sha0 tools adapters cfg 3000 4000 4500 900 901 ElapsedRunning 101 st3") auto

theorem attempts_are_bounded_witness:
  "snd (run_attempts restart (\<lambda>n. TimedOut) EC_INTERNAL_ERROR 1 3) \<le> 3 \<and>
   fst (run_attempts restart (\<lambda>n. TimedOut) EC_INTERNAL_ERROR 1 3) = AttemptTimedOut"
  using attempts_are_bounded [of restart "\<lambda>n. TimedOut" EC_INTERNAL_ERROR 1 3 AttemptTimedOut 1]
  by (simp add: numeral_3_eq_3)

section \<open>Recovery\<close>

lemma working_row: "state working = EXECUTING" "lease_expires_at working = Some 63000"
  by (simp_all add: working_def claim_columns_def)

lemma working_lapsed [simp]: "lapsed now (at working) \<longleftrightarrow> 63000 < now"
  by (simp add: lapsed_def working_row )

lemmas row4 = holds_get [OF claimed_st4 [THEN conjunct2]]
lemmas row2 = holds_get [OF created_st2 [THEN conjunct2]]

lemma reaped:
  "\<exists>st r. reap_one 70000 (at working) st4 = Inr (True, st) \<and> store_ok st \<and>
     get_invocation 101 st = Some r \<and> inv_state r = EXECUTION_INDETERMINATE"
proof -
  from reap_one_runs [OF oks(3), of "at working" 70000] row4 obtain e a where
    run: "reap_one 70000 (at working) st4 = Inr (True, audit_record a (add_event e (upd_cols 101
         (\<lambda>c. reap_columns 70000 (at working) (drop_lease (c\<lparr>state := reaped_state (at working)\<rparr>))) st4)))"
    (is "_ = Inr (_, ?st)") by auto
  have "store_ok ?st" using reap_one_upholds oks(3) run by (blast dest: upholdsD)
  with run row4 show ?thesis
    by (auto simp: get_upd_cols reap_columns_def drop_lease_def reaped_state_def working_row)
qed

theorem reaper_closes_only_its_candidate_witness:
  "\<exists>hit st'. reap_one 70000 (at working) st4 = Inr (hit, st') \<and> hit \<and>
     (\<exists>row'. get_invocation 101 st' = Some row' \<and> inv_state row' = EXECUTION_INDETERMINATE)"
proof -
  from reaped obtain st' where run: "reap_one 70000 (at working) st4 = Inr (True, st')" by blast
  with reaper_closes_only_its_candidate [OF _ run] show ?thesis
    by (auto simp: working_row)
qed

theorem reaper_sweep_witness:
  "\<exists>st'. reap_expired_leases 70000 50 st4 = (Inr 1, st') \<and>
     (\<exists>r'. get_invocation 101 st' = Some r' \<and> inv_state r' = EXECUTION_INDETERMINATE)"
proof -
  have rows: "invocations st4 = [at working]" and lapsed: "lapsed 70000 (at working)"
    using claimed_st4 by (simp_all add: holds_def)
  from reaper_sweep [OF oks(3), of 70000 50] obtain closed st' where
    run: "reap_expired_leases 70000 50 st4 = (Inr (card closed), st')" and
    one: "card closed = 1" "closed \<subseteq> {101}" and
    all: "\<forall>j r. get_invocation j st4 = Some r \<longrightarrow> (\<exists>r'. get_invocation j st' = Some r' \<and>
      (if j \<in> closed then reaped r r' \<and> inv_state r \<in> {EXECUTING, VALIDATING} \<and>
           (\<exists>t. lease_expires_at (inv_cols r) = Some t \<and> t < 70000) \<and>
           (\<forall>q \<in> set (invocations st4). lapsed 70000 q \<longrightarrow> inv_id q \<in> closed \<or> lease_end r \<le> lease_end q)
       else r' = r))"
    by (auto simp: rows lapsed)
  from one have "closed = {101}" by (cases "closed = {}") auto
  with all row4 obtain r' where "get_invocation 101 st' = Some r'" "reaped (at working) r'" by fastforce
  with run one show ?thesis by (auto simp: reaped_def working_row)
qed

theorem sweeper_expires_only_stale_witness:
  "\<exists>st' row'. expire_one 9000000 (at (in_state AWAITING_APPROVAL)) st2 = Inr (True, st') \<and>
     get_invocation 101 st' = Some row' \<and> inv_state row' = EXPIRED"
proof -
  have "\<exists>st'. expire_one 9000000 (at (in_state AWAITING_APPROVAL)) st2 = Inr (True, st')"
    using holds_cas [OF created_st2 [THEN conjunct2], of anything EXPIRED
      "\<lambda>c. c\<lparr>finished_at := Some 9000000, err_category := Some EC_APPROVAL_EXPIRED,
         err_detail := Some (ERROR_PHRASES EC_APPROVAL_EXPIRED)\<rparr>" 9000000
      "reason_value PR_APPROVAL_EXPIRED" None "[]"]
    by (auto simp: expire_one_def window_end_def anything_def legal_simps keeps_state_def
      progress_checks_def initial_progress_def simp del: ERROR_PHRASES.simps reason_value.simps)
  then obtain st' where run: "expire_one 9000000 (at (in_state AWAITING_APPROVAL)) st2 = Inr (True, st')" ..
  with sweeper_expires_only_stale [OF run] show ?thesis by auto
qed

theorem sweeper_starves_witness:
  "expire_stale 2000 50 st2 = (Inr 0, st2)"
proof -
  have "sweep_candidates 50 st2 = [at (in_state AWAITING_APPROVAL)]"
    using created_st2 by (simp add: sweep_candidates_def holds_def initial_progress_def)
  then show ?thesis
    by (intro sweeper_starves) (simp add: window_end_def initial_progress_def)
qed

theorem determination_changes_no_outcome_witness:
  "\<exists>st row st'. reconcile 80000 101 anna CONFIRMED_SUCCEEDED ''seen'' None st = (Inr row, st') \<and>
     invocations st' = invocations st \<and> reconciliations st' = reconciliations st @ [row] \<and> store_ok st'"
proof -
  from reaped obtain st r where ok: "store_ok st" and r: "get_invocation 101 st = Some r"
    "inv_state r = EXECUTION_INDETERMINATE" by blast
  have seen: "strip ''seen'' = ''seen''" by code_simp
  let ?mk = "new_reconciliation 80000 r anna CONFIRMED_SUCCEEDED ''seen'' None"
  let ?row = "?mk (next_id st)" and ?st = "add_reconciliation (?mk (next_id st)) st"
  have "r \<in> set (invocations st)" "inv_id r = 101" using get_invocationD [OF r(1)] by simp_all
  then have "insert_reconciliation ?mk st = Inr (?row, ?st)"
    by (auto simp: insert_reconciliation_def Let_def reconciliation_checks_def enforce_def first_violation_def
        seen new_reconciliation_def add_reconciliation_def)
  moreover have "get_invocation 101 ?st = Some r"
    using r(1) by (simp add: get_invocation_def add_reconciliation_def)
  note append_event_runs [OF this, of 80000 "Some EXECUTION_INDETERMINATE" EXECUTION_INDETERMINATE
      "''reconciled:'' @ lower (disposition_value CONFIRMED_SUCCEEDED)" "Some (p_subject anna)"
      "[(''reconciliation_id'', JStr (uuid_text (rec_id ?row)))]"]
  ultimately obtain row st' where run: "reconcile 80000 101 anna CONFIRMED_SUCCEEDED ''seen'' None st = (Inr row, st')"
    using r by (auto simp: reconcile_def reconcile_body_def session_def)
  from determination_changes_no_outcome [OF ok run] run show ?thesis by blast
qed

theorem cancellation_never_overwrites_witness:
  "\<exists>fresh st'. cancel_on 2500 ''no longer needed'' olga (at (in_state AWAITING_APPROVAL)) st2 = (Inr fresh, st') \<and>
     get_invocation 101 st' = Some fresh \<and> inv_state fresh = CANCELLED"
proof -
  from holds_cas [OF created_st2 [THEN conjunct2], of anything CANCELLED "\<lambda>c. c" 2500 "reason_value PR_ALLOWED"
      "Some ''olga''" "[(''reason'', JStr ''no longer needed'')]"]
  obtain st' where "cancel_on 2500 ''no longer needed'' olga (at (in_state AWAITING_APPROVAL)) st2 =
      (Inr (at (in_state CANCELLED)), st')"
    by (auto simp: anything_def legal_simps keeps_state_def progress_checks_def initial_progress_def
      cancel_on_def check_cancel_def olga_def person_def to_audit_fields_def simp del: reason_value.simps)
  with cancellation_never_overwrites [OF _ this] row2 show ?thesis by auto
qed

theorem unjustified_change_is_kept_witness:
  "create_invocation sha0 tools ''test'' 1000 (\<lambda>i st. (Inr EXECUTING, st)) restart_request None olga st1 =
     (Inl ValidationError, st2)"
  by (rule unjustified_change_is_kept [OF created_st2 [THEN conjunct1]]) (simp_all add: change_class_def APPROVAL_REQUIRED_CLASSES_def)

section \<open>The registry\<close>

lemma st1_registry: "registry_ok st1"
  by (simp add: registry_ok_def store_defs registration_checks_def)

definition off :: registration where
  "off = reg1\<lparr>reg_lifecycle := DISABLED, reg_disabled_at := Some 500, reg_disabled_by := Some ''anna'',
     reg_disabled_reason := Some ''incident''\<rparr>"

theorem disabling_stops_queued_work_witness:
  "\<exists>st'. disable_tool tools 500 ''test.service.restart'' ''1.0'' ''incident'' anna st1 = Inr (off, st') \<and>
     final_gate sha0 tools 4000 (at working) st' \<in> {Inl PR_CAPABILITY_NOT_BOUND, Inl PR_TOOL_DISABLED}"
proof -
  have "\<exists>st'. disable_tool tools 500 ''test.service.restart'' ''1.0'' ''incident'' anna st1 = Inr (off, st')"
    by (simp add: disable_tool_def lifecycle_target_def registration_of_def store_defs reg_key_def
       get_definition_def tools_def update_registration_def enforce_def first_violation_def
       registration_checks_def off_def anna_def person_def)
  then obtain st' where run: "disable_tool tools 500 ''test.service.restart'' ''1.0'' ''incident'' anna st1 = Inr (off, st')" ..
  with disabling_stops_queued_work [OF st1_registry run, of "at working"] show ?thesis
    by (auto simp: off_def reg1_def)
qed

theorem contract_drift_is_refused_witness:
  "session (reconcile_registry (\<lambda>text. replicate 64 CHR ''1'') False 900 tools st1) st1 = (Inl ConfigurationError, st1)"
  by (rule contract_drift_is_refused [OF st1_registry, of restart _ reg1])
    (simp_all add: tools_def store_defs reg_key_def contract_hash_def zeros_def numeral_nat)

theorem disabled_row_blocks_reconciliation_witness:
  "\<exists>e. session (reconcile_registry sha0 False 900 [] (st1\<lparr>registrations := [off]\<rparr>)) (st1\<lparr>registrations := [off]\<rparr>)
      = (Inl e, st1\<lparr>registrations := [off]\<rparr>)"
  by (rule disabled_row_blocks_reconciliation [of _ off])
    (simp_all add: registry_ok_def off_def store_defs registration_checks_def undeclared_def)

definition gone :: registration where
  "gone = retire_row 500 reg1"

lemma gone_registry: "registry_ok (st1\<lparr>registrations := [gone]\<rparr>)"
  by (simp add: registry_ok_def gone_def store_defs registration_checks_def retire_row_def)

lemma gone_reconciled: "\<exists>report. reconcile_registry sha0 False 900 tools (st1\<lparr>registrations := [gone]\<rparr>) =
    Inr (report, st1\<lparr>registrations := [gone]\<rparr>)"
  by (simp add: reconcile_registry_def store_defs tools_def all_definitions_def
      reconcile_definition_def new_registration_def Let_def registrations_checks_def gone_def retire_row_def
      registration_checks_def enforce_def first_violation_def upd_rows_def retires_def
      undeclared_def reg_key_def)

theorem reconciliation_is_one_way_witness:
  "\<exists>report st'. reconcile_registry sha0 False 900 [] st1 = Inr (report, st') \<and>
     (\<forall>r \<in> set (registrations st'). reg_lifecycle r = RETIRED)"
proof -
  have "\<exists>report st'. reconcile_registry sha0 False 900 [] st1 = Inr (report, st')"
    by (simp add: reconcile_registry_def store_defs all_definitions_def Let_def registrations_checks_def
      retire_row_def registration_checks_def enforce_def first_violation_def upd_rows_def retires_def
      undeclared_def reg_key_def)
  then obtain report st' where run: "reconcile_registry sha0 False 900 [] st1 = Inr (report, st')" by blast
  with reconciliation_is_one_way [OF st1_registry run] show ?thesis by (auto simp: undeclared_def)
qed

theorem retired_is_final_witness:
  "session (enable_tool tools ''test.service.restart'' ''1.0'' ''bring back'' anna (st1\<lparr>registrations := [gone]\<rparr>))
     (st1\<lparr>registrations := [gone]\<rparr>) = (Inl NotFoundError, st1\<lparr>registrations := [gone]\<rparr>)"
proof -
  from gone_reconciled obtain report where
    "reconcile_registry sha0 False 900 tools (st1\<lparr>registrations := [gone]\<rparr>) =
      Inr (report, st1\<lparr>registrations := [gone]\<rparr>)" ..
  from retired_is_final [OF gone_registry, of gone, OF _ _ this, of tools "''bring back''" anna] show ?thesis
    by (simp add: gone_def retire_row_def reg1_def)
qed

end
