(* ===== verification/Provenance.thy ===== *)
theory Provenance
  imports Errors
begin

text \<open>
  \<open>models/provenance.py\<close> and \<open>services/provenance.py\<close>: where a claim came from, how far it is
  trusted, and who may raise that trust.  The rules are shared by facts and relationships.
\<close>

section \<open>Vocabulary\<close>

datatype source_type =
  SRC_LIVE_DISCOVERY | SRC_CONFIG_FILE | SRC_PROMETHEUS | SRC_MANUAL_ENTRY | SRC_DOCUMENTATION
| SRC_AI_INFERENCE | SRC_IMPORT

datatype verification_status =
  VS_DISCOVERED | VS_OBSERVED | VS_VERIFIED | VS_APPROVED | VS_STALE | VS_CONFLICTING
| VS_UNVERIFIED

datatype statement_class = SC_FACT | SC_OBSERVATION | SC_INFERENCE | SC_RECOMMENDATION

datatype attestation_action = VERIFY | APPROVE | REVOKE

definition AUTHORITATIVE_STATUSES :: "verification_status list" where
  "AUTHORITATIVE_STATUSES = [VS_VERIFIED, VS_APPROVED]"

text \<open>\<open>models/vocabulary.py\<close>: what a source implies.\<close>

fun STATEMENT_CLASS_FOR_SOURCE :: "source_type \<Rightarrow> statement_class" where
  "STATEMENT_CLASS_FOR_SOURCE SRC_LIVE_DISCOVERY = SC_OBSERVATION"
| "STATEMENT_CLASS_FOR_SOURCE SRC_CONFIG_FILE = SC_OBSERVATION"
| "STATEMENT_CLASS_FOR_SOURCE SRC_PROMETHEUS = SC_OBSERVATION"
| "STATEMENT_CLASS_FOR_SOURCE SRC_MANUAL_ENTRY = SC_FACT"
| "STATEMENT_CLASS_FOR_SOURCE SRC_DOCUMENTATION = SC_FACT"
| "STATEMENT_CLASS_FOR_SOURCE SRC_IMPORT = SC_FACT"
| "STATEMENT_CLASS_FOR_SOURCE SRC_AI_INFERENCE = SC_INFERENCE"

fun VERIFICATION_STATUS_FOR_SOURCE :: "source_type \<Rightarrow> verification_status" where
  "VERIFICATION_STATUS_FOR_SOURCE SRC_LIVE_DISCOVERY = VS_DISCOVERED"
| "VERIFICATION_STATUS_FOR_SOURCE SRC_CONFIG_FILE = VS_DISCOVERED"
| "VERIFICATION_STATUS_FOR_SOURCE SRC_PROMETHEUS = VS_OBSERVED"
| "VERIFICATION_STATUS_FOR_SOURCE SRC_MANUAL_ENTRY = VS_UNVERIFIED"
| "VERIFICATION_STATUS_FOR_SOURCE SRC_DOCUMENTATION = VS_UNVERIFIED"
| "VERIFICATION_STATUS_FOR_SOURCE SRC_IMPORT = VS_UNVERIFIED"
| "VERIFICATION_STATUS_FOR_SOURCE SRC_AI_INFERENCE = VS_UNVERIFIED"

section \<open>The trust rules\<close>

definition statement_class_for :: "source_type \<Rightarrow> statement_class" where
  "statement_class_for s = STATEMENT_CLASS_FOR_SOURCE s"

definition default_status_for :: "source_type \<Rightarrow> verification_status" where
  "default_status_for s = VERIFICATION_STATUS_FOR_SOURCE s"

definition is_authoritative :: "verification_status \<Rightarrow> bool" where
  "is_authoritative v = (v \<in> set AUTHORITATIVE_STATUSES)"

definition may_become_authoritative :: "statement_class \<Rightarrow> source_type \<Rightarrow> bool" where
  "may_become_authoritative c s = (c \<noteq> SC_INFERENCE \<and> s \<noteq> SRC_AI_INFERENCE)"

definition guard_authoritative_transition ::
  "statement_class \<Rightarrow> source_type \<Rightarrow> verification_status \<Rightarrow> acop_error + unit" where
  "guard_authoritative_transition c s target =
     andThen (require (target \<in> set AUTHORITATIVE_STATUSES) ValidationError) (\<lambda>_.
     require (may_become_authoritative c s) ConflictError)"

section \<open>The columns of a claim\<close>

text \<open>
  \<open>models/provenance_mixin.py\<close>, the columns facts and relationships share, with the row id of
  \<open>UUIDPrimaryKeyMixin\<close>.  Instants are integers in thousandths of a second,
  confidence an integer in thousandths, the precision of its column.  \<open>valid_to = None\<close> means
  the claim is live.  \<open>created_at\<close>, which only the database writes, is left out.
\<close>

record claim =
  c_id :: uuid
  c_class :: statement_class
  c_source_type :: source_type
  c_source_id :: string
  c_confidence :: int
  c_status :: verification_status
  c_verified_by :: "string option"
  c_verified_at :: "int option"
  c_approved_by :: "string option"
  c_approved_at :: "int option"
  c_from :: int
  c_to :: "int option"
  c_first_seen :: int
  c_last_seen :: int

text \<open>The constraints both tables declare over these columns.\<close>

definition inference_not_authoritative :: "'a claim_scheme \<Rightarrow> bool" where
  "inference_not_authoritative c =
     (\<not> ((c_class c = SC_INFERENCE \<or> c_source_type c = SRC_AI_INFERENCE) \<and>
          c_status c \<in> {VS_VERIFIED, VS_APPROVED}))"

definition provenance_checks :: "'a claim_scheme \<Rightarrow> (string \<times> bool) list" where
  "provenance_checks c =
     [(''inference_not_authoritative'', inference_not_authoritative c),
      (''verified_attribution'', c_status c = VS_VERIFIED \<longrightarrow>
         c_verified_by c \<noteq> None \<and> c_verified_at c \<noteq> None),
      (''approved_attribution'', c_status c = VS_APPROVED \<longrightarrow>
         c_approved_by c \<noteq> None \<and> c_approved_at c \<noteq> None),
      (''interval'', case c_to c of None \<Rightarrow> True | Some t \<Rightarrow> c_from c \<le> t),
      (''confidence'', 0 \<le> c_confidence c \<and> c_confidence c \<le> 1000)]"

text \<open>
  \<open>attribution_for\<close>: the columns a trust transition assigns.  Revoking clears both
  attributions; the caller assigns the status afterwards.
\<close>

definition attribution_for ::
  "attestation_action \<Rightarrow> string \<Rightarrow> int \<Rightarrow> 'a claim_scheme \<Rightarrow> 'a claim_scheme" where
  "attribution_for action subject now c = (case action of
     VERIFY \<Rightarrow> c\<lparr>c_status := VS_VERIFIED, c_verified_by := Some subject, c_verified_at := Some now\<rparr>
   | APPROVE \<Rightarrow> c\<lparr>c_status := VS_APPROVED, c_approved_by := Some subject, c_approved_at := Some now\<rparr>
   | REVOKE \<Rightarrow> c\<lparr>c_verified_by := None, c_verified_at := None, c_approved_by := None,
       c_approved_at := None\<rparr>)"

lemma authoritative_simps [simp]:
  "is_authoritative VS_VERIFIED" "is_authoritative VS_APPROVED"
  "\<not> is_authoritative VS_DISCOVERED" "\<not> is_authoritative VS_OBSERVED"
  "\<not> is_authoritative VS_STALE" "\<not> is_authoritative VS_CONFLICTING"
  "\<not> is_authoritative VS_UNVERIFIED" "\<not> is_authoritative (default_status_for s)"
  by (cases s; simp add: is_authoritative_def AUTHORITATIVE_STATUSES_def default_status_for_def)+

lemma default_status [simp]: "default_status_for s \<notin> {VS_VERIFIED, VS_APPROVED, VS_STALE}"
  by (cases s) (simp_all add: default_status_for_def)

lemma is_authoritative_iff: "is_authoritative v \<longleftrightarrow> v = VS_VERIFIED \<or> v = VS_APPROVED"
  by (simp add: is_authoritative_def AUTHORITATIVE_STATUSES_def)

end
