(* ===== verification/Claims.thy ===== *)
theory Claims
  imports Provenance
begin

text \<open>
  The history of claims.  A claim holds over \<open>[valid_from, valid_to)\<close>; the exclusion constraint
  of a table forbids two claims of one lineage to hold at the same instant, so that each lineage
  has a value as a function of time, its \<^emph>\<open>timeline\<close>.  The locale states what closing a live
  claim and inserting a new one do to the timeline; the tables of facts and of relationships
  interpret it.
\<close>

section \<open>Intervals\<close>

definition live :: "'a claim_scheme \<Rightarrow> bool" where
  "live c = (c_to c = None)"

definition before_end :: "int \<Rightarrow> 'a claim_scheme \<Rightarrow> bool" where
  "before_end t c = (case c_to c of None \<Rightarrow> True | Some e \<Rightarrow> t < e)"

definition valid_at :: "int \<Rightarrow> 'a claim_scheme \<Rightarrow> bool" where
  "valid_at t c = (c_from c \<le> t \<and> before_end t c)"

text \<open>\<open>tstzrange(valid_from, valid_to) &&\<close>: half-open ranges, of which the empty ones meet none.\<close>

definition overlaps :: "'a claim_scheme \<Rightarrow> 'a claim_scheme \<Rightarrow> bool" where
  "overlaps a b = (before_end (c_from a) a \<and> before_end (c_from b) b \<and>
     before_end (c_from a) b \<and> before_end (c_from b) a)"

definition no_overlap :: "('a claim_scheme \<Rightarrow> 'k) \<Rightarrow> 'a claim_scheme list \<Rightarrow> bool" where
  "no_overlap key rows = list_all (\<lambda>a. list_all (\<lambda>b.
     c_id a = c_id b \<or> key a \<noteq> key b \<or> \<not> overlaps a b) rows) rows"

definition timeline ::
  "('a claim_scheme \<Rightarrow> 'k) \<Rightarrow> ('a claim_scheme \<Rightarrow> 'v) \<Rightarrow> 'a claim_scheme list \<Rightarrow> 'k \<Rightarrow> int \<Rightarrow> 'v option" where
  "timeline key val rows k t = map_option val (find (\<lambda>r. key r = k \<and> valid_at t r) rows)"

text \<open>The abstract operation on timelines: one lineage has a new value from an instant on.\<close>

definition assign_from :: "('k \<Rightarrow> int \<Rightarrow> 'v option) \<Rightarrow> 'k \<Rightarrow> int \<Rightarrow> 'v \<Rightarrow> 'k \<Rightarrow> int \<Rightarrow> 'v option" where
  "assign_from history key now v k t = (if k = key \<and> now \<le> t then Some v else history k t)"

text \<open>\<open>valid_to = now\<close> on one row, and on every row of a selection.\<close>

definition close_rows :: "('a claim_scheme \<Rightarrow> bool) \<Rightarrow> int \<Rightarrow> 'a claim_scheme list \<Rightarrow> 'a claim_scheme list" where
  "close_rows p now rows = upd_rows p (\<lambda>r. r\<lparr>c_to := Some now\<rparr>) rows"

lemma overlaps_iff: "overlaps a b \<longleftrightarrow> (\<exists>t. valid_at t a \<and> valid_at t b)"
proof
  assume "overlaps a b"
  then have "valid_at (max (c_from a) (c_from b)) a \<and> valid_at (max (c_from a) (c_from b)) b"
    by (auto simp: overlaps_def valid_at_def max_def)
  then show "\<exists>t. valid_at t a \<and> valid_at t b" ..
qed (auto simp: overlaps_def valid_at_def before_end_def split: option.splits)

lemma no_overlapD:
  assumes "no_overlap key rows" "a \<in> set rows" "b \<in> set rows" "key a = key b"
    and "valid_at t a" "valid_at t b"
  shows "c_id a = c_id b"
  using assms unfolding no_overlap_def list_all_iff overlaps_iff by blast

lemma no_overlapI:
  assumes "\<And>a b t. a \<in> set rows \<Longrightarrow> b \<in> set rows \<Longrightarrow> key a = key b \<Longrightarrow> valid_at t a \<Longrightarrow> valid_at t b \<Longrightarrow>
    c_id a = c_id b"
  shows "no_overlap key rows"
  using assms unfolding no_overlap_def list_all_iff overlaps_iff by blast

lemma find_unique:
  assumes "distinct (map c_id rows)" "no_overlap key rows"
    and "r \<in> set rows" "key r = k" "valid_at t r"
  shows "find (\<lambda>r. key r = k \<and> valid_at t r) rows = Some r"
proof -
  obtain q where q: "find (\<lambda>r. key r = k \<and> valid_at t r) rows = Some q"
    using assms(3-5) by (cases "find (\<lambda>r. key r = k \<and> valid_at t r) rows") (auto simp: find_None_iff)
  then have "q \<in> set rows" "key q = k" "valid_at t q" by (auto simp: find_Some_iff)
  with no_overlapD [OF assms(2,3), of q] assms have "c_id q = c_id r" by simp
  then show ?thesis using q \<open>q \<in> set rows\<close> assms(1,3) by (auto simp: distinct_map inj_on_def)
qed

lemma timeline_Some:
  assumes "distinct (map c_id rows)" "no_overlap key rows" "r \<in> set rows" "valid_at t r"
  shows "timeline key val rows (key r) t = Some (val r)"
  using find_unique [OF assms(1-3) refl assms(4)] by (simp add: timeline_def)

lemma timeline_None:
  "timeline key val rows k t = None \<longleftrightarrow> (\<forall>r \<in> set rows. key r = k \<longrightarrow> \<not> valid_at t r)"
  by (auto simp: timeline_def find_None_iff)

text \<open>The timeline reads the lineage, value and interval of the rows and nothing else.\<close>

lemma timeline_cong:
  assumes "map (\<lambda>r. (key r, val r, c_from r, c_to r)) rows' = map (\<lambda>r. (key r, val r, c_from r, c_to r)) rows"
  shows "timeline key val rows' = timeline key val rows"
proof -
  have "timeline key val rows' k t = timeline key val rows k t" for k t
    using assms
  proof (induction rows' arbitrary: rows)
    case (Cons r rs)
    then obtain q qs where "rows = q # qs" by (cases rows) auto
    with Cons show ?case by (auto simp: timeline_def valid_at_def before_end_def)
  qed (simp add: timeline_def)
  then show ?thesis by (simp add: fun_eq_iff)
qed

section \<open>Conditions between the rows of a table\<close>

lemma upd_row_set:
  assumes "distinct (map c_id rows)" and "r \<in> set rows"
  shows "set (upd_rows (\<lambda>g. c_id g = c_id r) f rows) = insert (f r) (set rows - {r})"
proof -
  have "c_id h = c_id r \<longleftrightarrow> h = r" if "h \<in> set rows" for h
    using assms that by (auto simp: distinct_map inj_on_def)
  then have "set (upd_rows (\<lambda>g. c_id g = c_id r) f rows) = (\<lambda>g. if g = r then f r else g) ` set rows"
    unfolding set_upd_rows by (intro image_cong) auto
  also have "\<dots> = insert (f r) (set rows - {r})" using assms(2) by auto
  finally show ?thesis .
qed

text \<open>
  A symmetric condition between distinct rows survives the update of one row, and the insertion
  of one, that satisfies it against the others.
\<close>

lemma pairwise_update:
  assumes "\<And>a b. C a b \<Longrightarrow> C b a" and "\<And>a b. c_id a = c_id b \<Longrightarrow> C a b"
    and "distinct (map c_id rows)" and "r \<in> set rows" and "c_id (f r) = c_id r"
    and "\<forall>a \<in> set rows. \<forall>b \<in> set rows. C a b" and "\<forall>a \<in> set rows. C a (f r)"
  shows "\<forall>a \<in> set (upd_rows (\<lambda>g. c_id g = c_id r) f rows).
     \<forall>b \<in> set (upd_rows (\<lambda>g. c_id g = c_id r) f rows). C a b"
proof -
  have "set (upd_rows (\<lambda>g. c_id g = c_id r) f rows) \<subseteq> insert (f r) (set rows)"
    unfolding upd_row_set [OF assms(3,4)] by blast
  moreover have "\<forall>a \<in> insert (f r) (set rows). \<forall>b \<in> insert (f r) (set rows). C a b"
    using assms(1,2,6,7) by blast
  ultimately show ?thesis by blast
qed

lemma pairwise_insert:
  assumes "\<And>a b. C a b \<Longrightarrow> C b a" and "\<And>a b. c_id a = c_id b \<Longrightarrow> C a b"
    and "\<forall>a \<in> set rows. \<forall>b \<in> set rows. C a b" and "\<forall>a \<in> set rows. C a r"
  shows "\<forall>a \<in> set (rows @ [r]). \<forall>b \<in> set (rows @ [r]). C a b"
  using assms by auto

section \<open>The lineage of a table\<close>

locale lineage =
  fixes key :: "'a claim_scheme \<Rightarrow> 'k" and val :: "'a claim_scheme \<Rightarrow> 'v"
  assumes key_close [simp]: "key (r\<lparr>c_to := t\<rparr>) = key r"
    and val_close [simp]: "val (r\<lparr>c_to := t\<rparr>) = val r"
begin

text \<open>Writes that touch neither interval, lineage nor value leave the timeline alone.\<close>

lemma timeline_touch:
  assumes "\<And>r. key (f r) = key r" "\<And>r. val (f r) = val r" "\<And>r. c_from (f r) = c_from r"
    and "\<And>r. c_to (f r) = c_to r"
  shows "timeline key val (upd_rows p f rows) = timeline key val rows"
proof -
  have "find (\<lambda>r. key r = k \<and> valid_at t r) (upd_rows p f rows) =
      map_option (\<lambda>r. if p r then f r else r) (find (\<lambda>r. key r = k \<and> valid_at t r) rows)" for k t
    using assms by (induction rows) (auto simp: valid_at_def before_end_def)
  then show ?thesis
    using assms(2) by (auto simp: timeline_def fun_eq_iff option.map_comp intro: option.map_cong0)
qed

lemma no_overlap_touch:
  assumes "no_overlap key rows" and "\<And>r. key (f r) = key r" "\<And>r. c_from (f r) = c_from r"
    and "\<And>r. c_to (f r) = c_to r" "\<And>r. c_id (f r) = c_id r"
  shows "no_overlap key (upd_rows p f rows)"
proof (rule no_overlapI)
  fix a b t
  assume a: "a \<in> set (upd_rows p f rows)" and b: "b \<in> set (upd_rows p f rows)"
    and k: "key a = key b" and at: "valid_at t a" "valid_at t b"
  from a obtain a' where a': "a' \<in> set rows" "a = (if p a' then f a' else a')"
    by (auto simp: set_upd_rows)
  from b obtain b' where b': "b' \<in> set rows" "b = (if p b' then f b' else b')"
    by (auto simp: set_upd_rows)
  have "valid_at t a'" "valid_at t b'" "key a' = key b'"
    using a'(2) b'(2) at k assms(2-4) by (simp_all add: valid_at_def before_end_def split: if_splits)
  then have "c_id a' = c_id b'" using no_overlapD [OF assms(1) a'(1) b'(1)] by blast
  then show "c_id a = c_id b" using a'(2) b'(2) assms(5) by simp
qed

text \<open>Closing live rows keeps intervals of a lineage apart.\<close>

lemma no_overlap_close:
  assumes "no_overlap key rows" and "\<forall>r \<in> set rows. p r \<longrightarrow> live r"
  shows "no_overlap key (close_rows p now rows)"
proof (rule no_overlapI)
  fix a b t
  assume a: "a \<in> set (close_rows p now rows)" and b: "b \<in> set (close_rows p now rows)"
    and k: "key a = key b" and at: "valid_at t a" "valid_at t b"
  from a obtain a' where a': "a' \<in> set rows" "a = (if p a' then a'\<lparr>c_to := Some now\<rparr> else a')"
    by (auto simp: close_rows_def set_upd_rows)
  from b obtain b' where b': "b' \<in> set rows" "b = (if p b' then b'\<lparr>c_to := Some now\<rparr> else b')"
    by (auto simp: close_rows_def set_upd_rows)
  have "valid_at t a'" "valid_at t b'"
    using a' b' at assms(2) by (auto 0 3 simp: valid_at_def before_end_def live_def split: if_splits)
  moreover have "key a' = key b'" using a' b' k by (auto split: if_splits)
  ultimately have "c_id a' = c_id b'" using no_overlapD [OF assms(1) a'(1) b'(1)] by blast
  then show "c_id a = c_id b" using a'(2) b'(2) by auto
qed

text \<open>Closing rows that are live cuts their lineages off at that instant.\<close>

lemma timeline_close:
  assumes dist: "distinct (map c_id rows)" and "no_overlap key rows"
    and live: "\<forall>r \<in> set rows. p r \<longrightarrow> live r"
  shows "timeline key val (close_rows p now rows) k t =
    (if now \<le> t \<and> (\<exists>r \<in> set rows. p r \<and> key r = k \<and> c_from r \<le> t) then None
     else timeline key val rows k t)" (is "_ = (if ?cut then _ else _)")
proof -
  let ?close = "\<lambda>r. if p r then r\<lparr>c_to := Some now\<rparr> else r"
  have rows: "set (close_rows p now rows) = ?close ` set rows"
    by (simp add: close_rows_def set_upd_rows)
  have dist': "distinct (map c_id (close_rows p now rows))"
    using dist by (simp add: close_rows_def map_upd_rows_frame)
  have at: "valid_at t (?close r) \<longleftrightarrow> (if p r then c_from r \<le> t \<and> t < now else valid_at t r)" for r
    by (simp add: valid_at_def before_end_def)
  have was: "p r \<Longrightarrow> c_from r \<le> t \<Longrightarrow> valid_at t r" if "r \<in> set rows" for r
    using live that by (simp add: valid_at_def before_end_def live_def)
  have key: "key (?close r) = key r" and val: "val (?close r) = val r" for r by simp_all
  show ?thesis
  proof (cases ?cut)
    case True
    then obtain q where q: "q \<in> set rows" "p q" "key q = k" "c_from q \<le> t" "now \<le> t" by blast
    have "\<not> valid_at t (?close r)" if r: "r \<in> set rows" "key r = k" for r
    proof
      assume "valid_at t (?close r)"
      with at q(5) have "\<not> p r" "valid_at t r" by (auto split: if_splits)
      moreover have "c_id r = c_id q"
        using no_overlapD [OF assms(2) r(1) q(1) _ \<open>valid_at t r\<close> was [OF q(1,2,4)]] r q by simp
      ultimately show False using dist r(1) q(1,2) by (auto simp: distinct_map inj_on_def)
    qed
    then have "timeline key val (close_rows p now rows) k t = None"
      unfolding timeline_None rows ball_simps using key by metis
    with True show ?thesis by simp
  next
    case False
    show ?thesis
    proof (cases "\<exists>r \<in> set rows. key r = k \<and> valid_at t r")
      case True
      then obtain r where r: "r \<in> set rows" "key r = k" "valid_at t r" by blast
      have "valid_at t (?close r)"
        unfolding at using r False by (auto simp: valid_at_def not_le)
      then have "timeline key val (close_rows p now rows) (key (?close r)) t = Some (val (?close r))"
        by (intro timeline_Some dist' no_overlap_close [OF assms(2) live]) (auto simp: rows r(1))
      moreover have "timeline key val rows (key r) t = Some (val r)"
        by (rule timeline_Some [OF dist assms(2) r(1,3)])
      ultimately show ?thesis using False r(2) by (auto simp only: key val if_False)
    next
      case none: False
      then have "timeline key val rows k t = None" by (auto simp: timeline_None)
      moreover have "timeline key val (close_rows p now rows) k t = None"
        unfolding timeline_None rows using none at was key by (auto simp: valid_at_def split: if_splits)
      ultimately show ?thesis by simp
    qed
  qed
qed

text \<open>A live row inserted without overlap gives its lineage its value from then on.\<close>

lemma timeline_insert:
  assumes "no_overlap key (rows @ [new])" and "live new" and "c_id new \<notin> c_id ` set rows"
  shows "timeline key val (rows @ [new]) k t =
    (if k = key new \<and> c_from new \<le> t then Some (val new) else timeline key val rows k t)"
proof -
  have "\<not> valid_at t r" if "r \<in> set rows" "key r = key new" "c_from new \<le> t" for r
  proof
    assume "valid_at t r"
    moreover have "valid_at t new" using assms(2) that(3) by (simp add: valid_at_def before_end_def live_def)
    ultimately have "c_id r = c_id new" using no_overlapD [OF assms(1), of r new t] that by simp
    with assms(3) that(1) show False by (metis imageI)
  qed
  then have "find (\<lambda>r. key r = k \<and> valid_at t r) (rows @ [new]) =
      (if k = key new \<and> c_from new \<le> t then Some new else find (\<lambda>r. key r = k \<and> valid_at t r) rows)"
    using assms(2)
    by (induction rows) (auto simp: valid_at_def before_end_def live_def)
  then show ?thesis by (simp add: timeline_def)
qed

end

end
