(* ===== verification/Cmdb_Vocabulary.thy ===== *)
theory Cmdb_Vocabulary
  imports Provenance
begin

text \<open>
  \<open>models/vocabulary.py\<close>: the asset, fact and relationship vocabulary of the CMDB, the
  normalisers of identifier namespaces, the endpoint rules of relationship types, and the
  predicates with a registered shape.
\<close>

section \<open>Enumerations\<close>

datatype asset_kind =
  DEVICE | CLUSTER | HOST | VM | CONTAINER | NETWORK_INTERFACE | SWITCH_PORT | VLAN | IP_ADDRESS
| MAC_ADDRESS | SERVICE_ASSET | STORAGE_DEVICE | GPU | APPLICATION | USER | LOCATION

datatype lifecycle_state = LC_PLANNED | LC_ACTIVE | LC_INACTIVE | LC_RETIRED | LC_MERGED

definition TERMINAL_LIFECYCLE_STATES :: "lifecycle_state list" where
  "TERMINAL_LIFECYCLE_STATES = [LC_RETIRED, LC_MERGED]"

datatype fact_kind = OBSERVED_STATE | DESIRED_STATE

fun fact_kind_value :: "fact_kind \<Rightarrow> string" where
  "fact_kind_value OBSERVED_STATE = ''OBSERVED_STATE''"
| "fact_kind_value DESIRED_STATE = ''DESIRED_STATE''"

datatype value_type = VT_TEXT | VT_NUMBER | VT_BOOL | VT_TIMESTAMP | VT_JSON | VT_ASSET_REF

datatype relationship_type =
  HAS_INTERFACE | CONNECTED_TO | MEMBER_OF | RUNS_ON | DEPENDS_ON | IP_ASSIGNED_TO | USES_STORAGE

definition all_relationship_types :: "relationship_type list" where
  "all_relationship_types = [HAS_INTERFACE, CONNECTED_TO, MEMBER_OF, RUNS_ON, DEPENDS_ON,
     IP_ASSIGNED_TO, USES_STORAGE]"

fun relationship_value :: "relationship_type \<Rightarrow> string" where
  "relationship_value HAS_INTERFACE = ''HAS_INTERFACE''"
| "relationship_value CONNECTED_TO = ''CONNECTED_TO''"
| "relationship_value MEMBER_OF = ''MEMBER_OF''"
| "relationship_value RUNS_ON = ''RUNS_ON''"
| "relationship_value DEPENDS_ON = ''DEPENDS_ON''"
| "relationship_value IP_ASSIGNED_TO = ''IP_ASSIGNED_TO''"
| "relationship_value USES_STORAGE = ''USES_STORAGE''"

section \<open>Names\<close>

definition is_name_char :: "char \<Rightarrow> bool" where
  "is_name_char c = (is_lower_letter c \<or> is_digit c \<or> c = CHR ''_'')"

text \<open>
  The two naming patterns, \<open>^[a-z0-9][a-z0-9_]*(\.[a-z0-9_]+)*$\<close> for predicates and
  \<open>^[a-z0-9]+(:[a-z0-9_-]+)*$\<close> for namespaces.  Their callers match a stripped string, so
  there is no final newline for \<open>$\<close> to skip.
\<close>

definition matches_predicate :: "string \<Rightarrow> bool" where
  "matches_predicate s = (list_all (\<lambda>w. w \<noteq> [] \<and> list_all is_name_char w) (split_on CHR ''.'' s) \<and>
     take 1 s \<noteq> ''_'')"

definition matches_namespace :: "string \<Rightarrow> bool" where
  "matches_namespace s = (case split_on CHR '':'' s of
     [] \<Rightarrow> False
   | w # ws \<Rightarrow> w \<noteq> [] \<and> list_all (\<lambda>c. is_lower_letter c \<or> is_digit c) w \<and>
       list_all (\<lambda>v. v \<noteq> [] \<and> list_all (\<lambda>c. is_name_char c \<or> c = CHR ''-'') v) ws)"

section \<open>Identifier namespaces\<close>

text \<open>
  \<open>str.upper\<close> on the code points whose upper case is below 256: 223 becomes two letters; 181 and
  255, whose upper case is not, are outside the model.
\<close>

definition upper_char :: "char \<Rightarrow> string" where
  "upper_char c = (let n = of_char c :: nat in
     if 97 \<le> n \<and> n \<le> 122 \<or> 224 \<le> n \<and> n \<le> 254 \<and> n \<noteq> 247 then [char_of (n - 32)]
     else if n = 223 then ''SS'' else [c])"

definition upper :: "string \<Rightarrow> string" where
  "upper s = concat (map upper_char s)"

definition rstrip_char :: "char \<Rightarrow> string \<Rightarrow> string" where
  "rstrip_char c s = rev (dropWhile (\<lambda>d. d = c) (rev s))"

datatype normaliser = NormLower | NormUpper | NormMac | NormDigits | NormHostname

definition normalise_lower :: "string \<Rightarrow> string" where
  "normalise_lower v = lower (strip v)"

definition normalise_upper :: "string \<Rightarrow> string" where
  "normalise_upper v = upper (strip v)"

definition normalise_mac :: "string \<Rightarrow> string" where
  "normalise_mac v = lower (filter (\<lambda>c. c \<notin> set '':.-'' \<and> \<not> is_space c) v)"

definition normalise_digits :: "string \<Rightarrow> string" where
  "normalise_digits v = filter is_digit v"

definition normalise_hostname :: "string \<Rightarrow> string" where
  "normalise_hostname v = lower (rstrip_char CHR ''.'' (strip v))"

fun NORMALISERS :: "normaliser \<Rightarrow> string \<Rightarrow> string" where
  "NORMALISERS NormLower = normalise_lower"
| "NORMALISERS NormUpper = normalise_upper"
| "NORMALISERS NormMac = normalise_mac"
| "NORMALISERS NormDigits = normalise_digits"
| "NORMALISERS NormHostname = normalise_hostname"

record namespace_spec =
  ns_name :: string
  ns_unique :: bool
  ns_normaliser :: normaliser

definition IDENTIFIER_NAMESPACES :: "namespace_spec list" where
  "IDENTIFIER_NAMESPACES =
    [\<lparr>ns_name = ''serial'', ns_unique = True, ns_normaliser = NormUpper\<rparr>,
     \<lparr>ns_name = ''smbios:uuid'', ns_unique = True, ns_normaliser = NormLower\<rparr>,
     \<lparr>ns_name = ''mac'', ns_unique = True, ns_normaliser = NormMac\<rparr>,
     \<lparr>ns_name = ''proxmox:instance'', ns_unique = True, ns_normaliser = NormLower\<rparr>,
     \<lparr>ns_name = ''proxmox:node'', ns_unique = True, ns_normaliser = NormLower\<rparr>,
     \<lparr>ns_name = ''proxmox:guest'', ns_unique = True, ns_normaliser = NormLower\<rparr>,
     \<lparr>ns_name = ''proxmox:storage'', ns_unique = True, ns_normaliser = NormLower\<rparr>,
     \<lparr>ns_name = ''proxmox:uuid'', ns_unique = True, ns_normaliser = NormLower\<rparr>,
     \<lparr>ns_name = ''docker:container-id'', ns_unique = True, ns_normaliser = NormLower\<rparr>,
     \<lparr>ns_name = ''hostname'', ns_unique = False, ns_normaliser = NormHostname\<rparr>,
     \<lparr>ns_name = ''fqdn'', ns_unique = False, ns_normaliser = NormHostname\<rparr>,
     \<lparr>ns_name = ''cisco:if-index'', ns_unique = False, ns_normaliser = NormDigits\<rparr>,
     \<lparr>ns_name = ''acop:legacy-id'', ns_unique = False, ns_normaliser = NormLower\<rparr>]"

section \<open>Relationship types\<close>

record edge_spec =
  es_symmetric :: bool
  es_inverse_label :: string
  es_sources :: "asset_kind list"
  es_targets :: "asset_kind list"

definition permits :: "edge_spec \<Rightarrow> asset_kind \<Rightarrow> asset_kind \<Rightarrow> bool" where
  "permits spec source target =
     ((es_sources spec = [] \<or> source \<in> set (es_sources spec)) \<and>
      (es_targets spec = [] \<or> target \<in> set (es_targets spec)))"

fun RELATIONSHIP_SPECS :: "relationship_type \<Rightarrow> edge_spec" where
  "RELATIONSHIP_SPECS HAS_INTERFACE = \<lparr>es_symmetric = False, es_inverse_label = ''INTERFACE_OF'',
     es_sources = [DEVICE, HOST, VM], es_targets = [NETWORK_INTERFACE]\<rparr>"
| "RELATIONSHIP_SPECS CONNECTED_TO = \<lparr>es_symmetric = True, es_inverse_label = ''CONNECTED_TO'',
     es_sources = [NETWORK_INTERFACE, SWITCH_PORT, DEVICE],
     es_targets = [NETWORK_INTERFACE, SWITCH_PORT, DEVICE]\<rparr>"
| "RELATIONSHIP_SPECS MEMBER_OF = \<lparr>es_symmetric = False, es_inverse_label = ''HAS_MEMBER'',
     es_sources = [SWITCH_PORT, HOST, VM], es_targets = [VLAN, DEVICE, CLUSTER]\<rparr>"
| "RELATIONSHIP_SPECS RUNS_ON = \<lparr>es_symmetric = False, es_inverse_label = ''HOSTS'',
     es_sources = [VM, CONTAINER, SERVICE_ASSET], es_targets = [HOST, VM, DEVICE]\<rparr>"
| "RELATIONSHIP_SPECS DEPENDS_ON = \<lparr>es_symmetric = False, es_inverse_label = ''REQUIRED_BY'',
     es_sources = [SERVICE_ASSET, APPLICATION], es_targets = [SERVICE_ASSET, APPLICATION]\<rparr>"
| "RELATIONSHIP_SPECS IP_ASSIGNED_TO = \<lparr>es_symmetric = False, es_inverse_label = ''HAS_IP'',
     es_sources = [IP_ADDRESS], es_targets = [NETWORK_INTERFACE]\<rparr>"
| "RELATIONSHIP_SPECS USES_STORAGE = \<lparr>es_symmetric = False, es_inverse_label = ''PROVIDES_STORAGE'',
     es_sources = [VM, HOST, SERVICE_ASSET], es_targets = [STORAGE_DEVICE]\<rparr>"

definition RESERVED_RELATIONSHIP_PREDICATES :: "string list" where
  "RESERVED_RELATIONSHIP_PREDICATES =
     map (\<lambda>r. lower (relationship_value r)) all_relationship_types"

section \<open>Known predicates\<close>

definition KNOWN_PREDICATES :: "(string \<times> value_type) list" where
  "KNOWN_PREDICATES =
    [(''network.hostname'', VT_TEXT), (''network.fqdn'', VT_TEXT),
     (''memory.total_bytes'', VT_NUMBER), (''cpu.cores'', VT_NUMBER),
     (''storage.total_bytes'', VT_NUMBER), (''power.poe_enabled'', VT_BOOL),
     (''interface.admin_up'', VT_BOOL), (''interface.oper_up'', VT_BOOL),
     (''interface.speed_mbps'', VT_NUMBER), (''vlan.access_id'', VT_NUMBER),
     (''os.name'', VT_TEXT), (''os.version'', VT_TEXT), (''config.hash'', VT_TEXT),
     (''lifecycle.last_boot_at'', VT_TIMESTAMP)]"

end
