(* ===== verification/Value_Screen.thy ===== *)
theory Value_Screen
  imports Redaction Errors
begin

text \<open>
  \<open>services/value_screen.py\<close>: what may be stored as a fact.  A predicate that names a secret is
  refused, an oversized value is refused, and a JSON value is stored redacted, with the names of
  the masked keys reported.
\<close>

definition MAX_TEXT_VALUE_LENGTH :: nat where
  "MAX_TEXT_VALUE_LENGTH = 64000"

definition MAX_JSON_VALUE_BYTES :: nat where
  "MAX_JSON_VALUE_BYTES = 64000"

definition SENSITIVE_PREDICATE_COMPONENTS :: "string list" where
  "SENSITIVE_PREDICATE_COMPONENTS =
    [''password'', ''passwd'', ''secret'', ''token'', ''api_key'', ''apikey'', ''authorization'',
     ''auth_header'', ''credential'', ''private_key'', ''privatekey'', ''community'',
     ''enable_secret'', ''session_key'', ''cookie'']"

definition SAFE_PREDICATES :: "string list" where
  "SAFE_PREDICATES = [''ssh_key.public'', ''cert.ssh_key_fingerprint'', ''community.edition'']"

definition predicate_names_secret :: "string \<Rightarrow> bool" where
  "predicate_names_secret predicate = (let lowered = lower predicate in
     if lowered \<in> set SAFE_PREDICATES then False
     else list_ex (\<lambda>component. component \<noteq> [] \<and> component \<in> set SENSITIVE_PREDICATE_COMPONENTS)
            (split_on CHR ''.'' lowered))"

text \<open>
  The length of \<open>json.dumps(value)\<close> in bytes.  Its output is ASCII: a character from 128 up is
  written as six characters, one below 32 or the two that need escaping as the escapes of theory
  \<open>Json\<close>, 127 as itself; separators carry a space.
\<close>

definition ascii_len :: "string \<Rightarrow> nat" where
  "ascii_len s = 2 + sum_list (map (\<lambda>c. if (of_char c :: nat) < 128 then length (escape_char c) else 6) s)"

fun dumped_len :: "json \<Rightarrow> nat" where
  "dumped_len (JStr s) = ascii_len s"
| "dumped_len (JArr xs) = 2 + sum_list (map dumped_len xs) + 2 * (length xs - 1)"
| "dumped_len (JObj kvs) = 2 + sum_list (map (\<lambda>kv. ascii_len (fst kv) + 2 + dumped_len (snd kv)) kvs)
     + 2 * (length kvs - 1)"
| "dumped_len v = length (dumps v)"

text \<open>\<open>_collect_redacted_keys(original, depth)\<close>, with the depth that is left.\<close>

fun collect_redacted_keys :: "nat \<Rightarrow> json \<Rightarrow> string list" where
  "collect_redacted_keys 0 v = []"
| "collect_redacted_keys (Suc d) (JObj kvs) = concat (map (\<lambda>kv.
     if is_sensitive_key (fst kv) then [fst kv] else collect_redacted_keys d (snd kv)) kvs)"
| "collect_redacted_keys (Suc d) (JArr xs) = concat (map (collect_redacted_keys d) xs)"
| "collect_redacted_keys (Suc d) v = []"

text \<open>The screened JSON value and the keys that were masked.\<close>

type_synonym screened = "jobj option \<times> string list"

definition screen :: "string \<Rightarrow> string option \<Rightarrow> jobj option \<Rightarrow> acop_error + screened" where
  "screen predicate value_text value_json =
     (if predicate_names_secret predicate then Inl SecretRejectedError
      else if (case value_text of None \<Rightarrow> False | Some t \<Rightarrow> MAX_TEXT_VALUE_LENGTH < length t)
      then Inl SecretRejectedError
      else (case value_json of
          None \<Rightarrow> Inr (None, [])
        | Some j \<Rightarrow>
            if MAX_JSON_VALUE_BYTES < dumped_len (JObj j) then Inl SecretRejectedError
            else Inr (Some (redact_obj j), sorted_unique (collect_redacted_keys 13 (JObj j)))))"

section \<open>What is stored\<close>

lemma screen_cases:
  assumes "screen predicate value_text value_json = Inr (clean, keys)"
  obtains "\<not> predicate_names_secret predicate" "clean = map_option redact_obj value_json"
    "\<And>t. value_text = Some t \<Longrightarrow> length t \<le> 64000"
  using assms
  by (auto simp: screen_def MAX_TEXT_VALUE_LENGTH_def split: if_splits option.splits)

lemma screen_masked:
  assumes "screen predicate value_text value_json = Inr (Some j, keys)"
  shows "masked (JObj j)"
proof -
  from assms obtain v where "j = redact_obj v"
    by (auto elim!: screen_cases simp: eq_commute [of "Some j"])
  then have "JObj j = redact (JObj v)" by (simp add: redact_JObj)
  then show ?thesis unfolding redact_def by (simp add: masked_redact_at)
qed

end
