(* ===== verification/Cmdb.thy ===== *)
theory Cmdb
  imports Claims Cmdb_Vocabulary Value_Screen
begin

text \<open>
  The tables of the CMDB: \<open>models/asset.py\<close>, \<open>models/fact.py\<close>, \<open>models/relationship.py\<close>, with
  their constraints as guards of the writes.  Row ids come from one counter, so that \<open>uuid4\<close>
  never repeats; enumerated columns are the datatypes.
\<close>

section \<open>Rows\<close>

record asset_row =
  ca_id :: uuid
  ca_type :: asset_kind
  ca_lifecycle :: lifecycle_state
  ca_display_name :: string
  ca_description :: "string option"
  ca_merged_into :: "uuid option"
  ca_created :: int
  ca_first_seen :: int
  ca_last_seen :: int
  ca_retired_at :: "int option"

record identifier_row =
  ci_id :: uuid
  ci_asset :: uuid
  ci_namespace :: string
  ci_raw :: string
  ci_normalized :: string
  ci_unique :: bool
  ci_source_type :: source_type
  ci_source_id :: string
  ci_confidence :: int
  ci_first_seen :: int
  ci_last_seen :: int
  ci_retired_at :: "int option"

text \<open>
  A \<open>NUMERIC\<close> value is a mantissa and a number of decimals.  The six value columns are kept
  apart as in the table; that exactly the one the type names is set is a constraint.
\<close>

type_synonym decimal = "int \<times> nat"

record value_columns =
  v_type :: value_type
  v_text :: "string option"
  v_number :: "decimal option"
  v_bool :: "bool option"
  v_timestamp :: "int option"
  v_json :: "jobj option"
  v_asset :: "uuid option"

record fact = claim +
  f_asset :: uuid
  f_predicate :: string
  f_kind :: fact_kind
  f_value :: value_columns
  f_unit :: "string option"
  f_supersedes :: "uuid option"
  f_derived_from :: "uuid option"

record attestation =
  at_id :: uuid
  at_fact :: uuid
  at_action :: attestation_action
  at_from :: verification_status
  at_to :: verification_status
  at_principal :: audit_fields
  at_reason :: "string option"
  at_request_id :: "string option"
  at_occurred :: int

record edge = claim +
  e_type :: relationship_type
  e_source :: uuid
  e_target :: uuid
  e_symmetric :: bool
  e_qualifier :: "string option"
  e_supersedes :: "uuid option"

record cmdb =
  asset_rows :: "asset_row list"
  identifier_rows :: "identifier_row list"
  fact_rows :: "fact list"
  attestation_rows :: "attestation list"
  edge_rows :: "edge list"
  fresh_id :: uuid

type_synonym 'a cmdb_run = "acop_error + 'a \<times> cmdb"

definition find_asset :: "uuid \<Rightarrow> cmdb \<Rightarrow> asset_row option" where
  "find_asset i db = find_row ca_id i (asset_rows db)"

section \<open>Constraints of \<open>asset\<close> and \<open>asset_identifier\<close>\<close>

definition asset_checks :: "asset_row \<Rightarrow> (string \<times> bool) list" where
  "asset_checks a =
     [(''merged_state'', (ca_lifecycle a = LC_MERGED) = (ca_merged_into a \<noteq> None)),
      (''retired_state'', (ca_lifecycle a = LC_RETIRED) = (ca_retired_at a \<noteq> None)),
      (''no_self_merge'', ca_merged_into a \<noteq> Some (ca_id a))]"

definition identifier_checks :: "cmdb \<Rightarrow> identifier_row \<Rightarrow> (string \<times> bool) list" where
  "identifier_checks db i =
     [(''namespace_format'', matches_namespace (ci_namespace i)),
      (''confidence'', 0 \<le> ci_confidence i \<and> ci_confidence i \<le> 1000),
      (''uq_asset_identifier_live_unique'', list_all (\<lambda>j. \<not> (ci_id j \<noteq> ci_id i \<and>
         ci_retired_at j = None \<and> ci_unique j \<and> ci_retired_at i = None \<and> ci_unique i \<and>
         ci_namespace j = ci_namespace i \<and> ci_normalized j = ci_normalized i)) (identifier_rows db)),
      (''uq_asset_identifier_asset_ns_value'', list_all (\<lambda>j. \<not> (ci_id j \<noteq> ci_id i \<and>
         ci_retired_at j = None \<and> ci_retired_at i = None \<and> ci_asset j = ci_asset i \<and>
         ci_namespace j = ci_namespace i \<and> ci_normalized j = ci_normalized i)) (identifier_rows db)),
      (''fk_asset_identifier_asset_id_asset'', find_asset (ci_asset i) db \<noteq> None)]"

section \<open>Constraints of \<open>asset_fact\<close>\<close>

definition set_columns :: "value_columns \<Rightarrow> value_type list" where
  "set_columns v =
     (if v_text v \<noteq> None then [VT_TEXT] else []) @ (if v_number v \<noteq> None then [VT_NUMBER] else []) @
     (if v_bool v \<noteq> None then [VT_BOOL] else []) @
     (if v_timestamp v \<noteq> None then [VT_TIMESTAMP] else []) @
     (if v_json v \<noteq> None then [VT_JSON] else []) @ (if v_asset v \<noteq> None then [VT_ASSET_REF] else [])"

type_synonym fact_key = "uuid \<times> string \<times> fact_kind \<times> string"

definition fact_key :: "fact \<Rightarrow> fact_key" where
  "fact_key f = (f_asset f, f_predicate f, f_kind f, c_source_id f)"

definition authority_key :: "fact \<Rightarrow> uuid \<times> string \<times> fact_kind" where
  "authority_key f = (f_asset f, f_predicate f, f_kind f)"

definition holds_authority :: "fact \<Rightarrow> bool" where
  "holds_authority f = (live f \<and> is_authoritative (c_status f))"

definition fact_row_checks :: "fact \<Rightarrow> (string \<times> bool) list" where
  "fact_row_checks f =
     [(''predicate_format'', matches_predicate (f_predicate f)),
      (''value_exclusive'', length (set_columns (f_value f)) = 1),
      (''value_type_matches'', v_type (f_value f) \<in> set (set_columns (f_value f)))]
     @ provenance_checks f @
     [(''desired_is_approved'', f_kind f = DESIRED_STATE \<longrightarrow> c_status f = VS_APPROVED)]"

text \<open>The exclusion constraint and the two partial unique indexes, against the other rows.\<close>

definition fact_table_checks :: "fact list \<Rightarrow> fact \<Rightarrow> (string \<times> bool) list" where
  "fact_table_checks rows f =
     [(''ex_asset_fact_no_overlap'', list_all (\<lambda>g. c_id g = c_id f \<or> fact_key g \<noteq> fact_key f \<or>
         \<not> overlaps g f) rows),
      (''uq_asset_fact_live_claim'', list_all (\<lambda>g. \<not> (c_id g \<noteq> c_id f \<and> live g \<and> live f \<and>
         fact_key g = fact_key f)) rows),
      (''uq_asset_fact_live_authority'', list_all (\<lambda>g. \<not> (c_id g \<noteq> c_id f \<and> holds_authority g \<and>
         holds_authority f \<and> authority_key g = authority_key f)) rows)]"

definition fact_fk_checks :: "cmdb \<Rightarrow> fact \<Rightarrow> (string \<times> bool) list" where
  "fact_fk_checks db f =
     [(''fk_asset_fact_asset_id_asset'', find_asset (f_asset f) db \<noteq> None),
      (''fk_asset_fact_value_asset_id_asset'', case v_asset (f_value f) of None \<Rightarrow> True
         | Some a \<Rightarrow> find_asset a db \<noteq> None),
      (''fk_asset_fact_supersedes_fact_id_asset_fact'', case f_supersedes f of None \<Rightarrow> True
         | Some i \<Rightarrow> find_row c_id i (fact_rows db) \<noteq> None),
      (''fk_asset_fact_derived_from_fact_id_asset_fact'', case f_derived_from f of None \<Rightarrow> True
         | Some i \<Rightarrow> find_row c_id i (fact_rows db) \<noteq> None)]"

definition fact_checks :: "cmdb \<Rightarrow> fact \<Rightarrow> (string \<times> bool) list" where
  "fact_checks db f = fact_row_checks f @ fact_table_checks (fact_rows db) f @ fact_fk_checks db f"

section \<open>Constraints of \<open>asset_relationship\<close>\<close>

definition qualifier_key :: "string option \<Rightarrow> string" where
  "qualifier_key q = (case q of None \<Rightarrow> [] | Some s \<Rightarrow> s)"

type_synonym edge_key = "uuid \<times> relationship_type \<times> uuid \<times> string \<times> string"

definition edge_key :: "edge \<Rightarrow> edge_key" where
  "edge_key e = (e_source e, e_type e, e_target e, qualifier_key (e_qualifier e), c_source_id e)"

definition edge_row_checks :: "edge \<Rightarrow> (string \<times> bool) list" where
  "edge_row_checks e =
     [(''no_self'', e_source e \<noteq> e_target e),
      (''symmetric_order'', e_symmetric e \<longrightarrow> e_source e < e_target e)] @ provenance_checks e"

definition edge_table_checks :: "edge list \<Rightarrow> edge \<Rightarrow> (string \<times> bool) list" where
  "edge_table_checks rows e =
     [(''ex_asset_relationship_no_overlap'', list_all (\<lambda>d. c_id d = c_id e \<or> edge_key d \<noteq> edge_key e \<or>
         \<not> overlaps d e) rows),
      (''uq_asset_relationship_live'', list_all (\<lambda>d. \<not> (c_id d \<noteq> c_id e \<and> live d \<and> live e \<and>
         edge_key d = edge_key e)) rows)]"

definition edge_fk_checks :: "cmdb \<Rightarrow> edge \<Rightarrow> (string \<times> bool) list" where
  "edge_fk_checks db e =
     [(''fk_asset_relationship_source_asset_id_asset'', find_asset (e_source e) db \<noteq> None),
      (''fk_asset_relationship_target_asset_id_asset'', find_asset (e_target e) db \<noteq> None),
      (''fk_asset_relationship_supersedes_rel_id_asset_relationship'', case e_supersedes e of
         None \<Rightarrow> True | Some i \<Rightarrow> find_row c_id i (edge_rows db) \<noteq> None)]"

definition edge_checks :: "cmdb \<Rightarrow> edge \<Rightarrow> (string \<times> bool) list" where
  "edge_checks db e = edge_row_checks e @ edge_table_checks (edge_rows db) e @ edge_fk_checks db e"

end
