(* ===== verification/Facts.thy ===== *)
theory Facts
  imports Cmdb Identity "HOL-Library.Product_Lexorder"
begin

text \<open>
  \<open>services/fact.py\<close> and the rules of \<open>schemas/fact.py\<close>: asserting a claim, declaring a desired
  state, verifying and revoking, and what the live claims of an asset amount to.
\<close>

section \<open>What a request may say\<close>

text \<open>
  A \<open>float\<close> as the code reads it: an integral one by its integer, any other by the decimal that
  \<open>str\<close> writes for it.
\<close>

datatype py_float = Whole int | Decimal int nat

record typed_value =
  tv_type :: value_type
  tv_text :: "string option"
  tv_number :: "py_float option"
  tv_bool :: "bool option"
  tv_timestamp :: "int option"
  tv_json :: "jobj option"
  tv_asset :: "uuid option"
  tv_unit :: "string option"

definition populated :: "typed_value \<Rightarrow> value_type list" where
  "populated v =
     (if tv_text v \<noteq> None then [VT_TEXT] else []) @ (if tv_number v \<noteq> None then [VT_NUMBER] else []) @
     (if tv_bool v \<noteq> None then [VT_BOOL] else []) @
     (if tv_timestamp v \<noteq> None then [VT_TIMESTAMP] else []) @
     (if tv_json v \<noteq> None then [VT_JSON] else []) @ (if tv_asset v \<noteq> None then [VT_ASSET_REF] else [])"

definition exactly_one_value :: "typed_value \<Rightarrow> bool" where
  "exactly_one_value v = (populated v = [tv_type v])"

record fact_assert =
  fa_value :: typed_value
  fa_predicate :: string
  fa_kind :: fact_kind
  fa_source_type :: source_type
  fa_source_id :: string
  fa_confidence :: int

record desired_create =
  dc_value :: typed_value
  dc_predicate :: string
  dc_reason :: "string option"

definition predicate_rules :: "string \<Rightarrow> string option" where
  "predicate_rules s = (let lowered = lower (strip s) in
     if \<not> matches_predicate lowered \<or> lowered \<in> set RESERVED_RELATIONSHIP_PREDICATES then None
     else Some lowered)"

definition known_predicate_shape :: "fact_assert \<Rightarrow> bool" where
  "known_predicate_shape p = (case map_of KNOWN_PREDICATES (fa_predicate p) of
     None \<Rightarrow> True | Some t \<Rightarrow> tv_type (fa_value p) = t)"

text \<open>The validators of \<open>FactAssert\<close> and \<open>DesiredFactCreate\<close>; \<open>None\<close> is a refused request.\<close>

definition validate_assert :: "fact_assert \<Rightarrow> fact_assert option" where
  "validate_assert p = (case predicate_rules (fa_predicate p) of
     None \<Rightarrow> None
   | Some name \<Rightarrow> (let q = p\<lparr>fa_predicate := name\<rparr> in
       if exactly_one_value (fa_value q) \<and> known_predicate_shape q \<and> fa_kind q \<noteq> DESIRED_STATE \<and>
          length (fa_predicate p) \<le> 128 \<and> 1 \<le> length (fa_source_id q) \<and>
          length (fa_source_id q) \<le> 255 \<and> 0 \<le> fa_confidence q \<and> fa_confidence q \<le> 1000
       then Some q else None))"

definition validate_desired :: "desired_create \<Rightarrow> desired_create option" where
  "validate_desired p = (case predicate_rules (dc_predicate p) of
     None \<Rightarrow> None
   | Some name \<Rightarrow>
       if exactly_one_value (dc_value p) \<and> length (dc_predicate p) \<le> 128 \<and>
          (case dc_reason p of None \<Rightarrow> True | Some r \<Rightarrow> length r \<le> 1024)
       then Some (p\<lparr>dc_predicate := name\<rparr>) else None)"

section \<open>Values\<close>

definition to_decimal :: "py_float \<Rightarrow> decimal" where
  "to_decimal x = (case x of Whole i \<Rightarrow> (i, 0) | Decimal m s \<Rightarrow> (m, s))"

definition decimal_eq :: "decimal \<Rightarrow> decimal \<Rightarrow> bool" where
  "decimal_eq a b = (fst a * 10 ^ snd b = fst b * 10 ^ snd a)"

definition no_columns :: "value_type \<Rightarrow> value_columns" where
  "no_columns t = \<lparr>v_type = t, v_text = None, v_number = None, v_bool = None, v_timestamp = None,
     v_json = None, v_asset = None\<rparr>"

definition value_columns_of :: "typed_value \<Rightarrow> jobj option \<Rightarrow> acop_error + value_columns" where
  "value_columns_of v screened = (let none = no_columns (tv_type v) in case tv_type v of
     VT_JSON \<Rightarrow> Inr (none\<lparr>v_json := screened\<rparr>)
   | VT_NUMBER \<Rightarrow> (case tv_number v of None \<Rightarrow> Inl ValidationError
       | Some raw \<Rightarrow> Inr (none\<lparr>v_number := Some (to_decimal raw)\<rparr>))
   | VT_TEXT \<Rightarrow> Inr (none\<lparr>v_text := tv_text v\<rparr>)
   | VT_BOOL \<Rightarrow> Inr (none\<lparr>v_bool := tv_bool v\<rparr>)
   | VT_TIMESTAMP \<Rightarrow> Inr (none\<lparr>v_timestamp := tv_timestamp v\<rparr>)
   | VT_ASSET_REF \<Rightarrow> Inr (none\<lparr>v_asset := tv_asset v\<rparr>))"

text \<open>
  \<open>==\<close> on dictionaries: a number equals a number of the same value, whatever its type, and the
  order of keys does not matter.
\<close>

fun numbers :: "json \<Rightarrow> json" where
  "numbers (JBool b) = JFloat (if b then 1000 else 0)"
| "numbers (JInt i) = JFloat (1000 * i)"
| "numbers (JArr xs) = JArr (map numbers xs)"
| "numbers (JObj kvs) = JObj (map (\<lambda>kv. (fst kv, numbers (snd kv))) kvs)"
| "numbers v = v"

definition py_eq :: "json \<Rightarrow> json \<Rightarrow> bool" where
  "py_eq v w = same_json (numbers v) (numbers w)"

definition opt_eq :: "('v \<Rightarrow> 'v \<Rightarrow> bool) \<Rightarrow> 'v option \<Rightarrow> 'v option \<Rightarrow> bool" where
  "opt_eq eq a b = (case (a, b) of (None, None) \<Rightarrow> True | (Some x, Some y) \<Rightarrow> eq x y | _ \<Rightarrow> False)"

definition values_equal :: "value_columns \<Rightarrow> value_columns \<Rightarrow> bool" where
  "values_equal old new = (v_type old = v_type new \<and> (case v_type old of
     VT_TEXT \<Rightarrow> v_text old = v_text new
   | VT_NUMBER \<Rightarrow> opt_eq decimal_eq (v_number old) (v_number new)
   | VT_BOOL \<Rightarrow> v_bool old = v_bool new
   | VT_TIMESTAMP \<Rightarrow> v_timestamp old = v_timestamp new
   | VT_JSON \<Rightarrow> opt_eq (\<lambda>a b. py_eq (JObj a) (JObj b)) (v_json old) (v_json new)
   | VT_ASSET_REF \<Rightarrow> v_asset old = v_asset new))"

section \<open>Writes\<close>

definition update_fact :: "(fact \<Rightarrow> fact) \<Rightarrow> fact \<Rightarrow> cmdb \<Rightarrow> fact cmdb_run" where
  "update_fact f r db = andThen (enforce (fact_checks db (f r))) (\<lambda>_.
     Inr (f r, db\<lparr>fact_rows := upd_rows (\<lambda>g. c_id g = c_id r) f (fact_rows db)\<rparr>))"

definition insert_fact :: "(uuid \<Rightarrow> fact) \<Rightarrow> cmdb \<Rightarrow> fact cmdb_run" where
  "insert_fact mk db = (let f = mk (fresh_id db) in
     andThen (enforce (fact_checks db f)) (\<lambda>_.
     Inr (f, db\<lparr>fact_rows := fact_rows db @ [f], fresh_id := Suc (fresh_id db)\<rparr>)))"

definition live_claim :: "uuid \<Rightarrow> string \<Rightarrow> fact_kind \<Rightarrow> string \<Rightarrow> cmdb \<Rightarrow> fact option" where
  "live_claim a p k s db = find (\<lambda>f. f_asset f = a \<and> f_predicate f = p \<and> f_kind f = k \<and>
     c_source_id f = s \<and> live f) (fact_rows db)"

definition record_attestation ::
  "int \<Rightarrow> fact \<Rightarrow> attestation_action \<Rightarrow> verification_status \<Rightarrow> verification_status \<Rightarrow> principal \<Rightarrow>
   string option \<Rightarrow> string option \<Rightarrow> cmdb \<Rightarrow> cmdb" where
  "record_attestation now f action from_status to_status p reason request_id db =
     db\<lparr>attestation_rows := attestation_rows db @
       [\<lparr>at_id = fresh_id db, at_fact = c_id f, at_action = action, at_from = from_status,
         at_to = to_status, at_principal = to_audit_fields p, at_reason = reason,
         at_request_id = request_id, at_occurred = now\<rparr>],
       fresh_id := Suc (fresh_id db)\<rparr>"

definition seen_now :: "uuid \<Rightarrow> int \<Rightarrow> cmdb \<Rightarrow> cmdb" where
  "seen_now i now db = db\<lparr>asset_rows := upd_rows (\<lambda>a. ca_id a = i) (\<lambda>a. a\<lparr>ca_last_seen := now\<rparr>)
     (asset_rows db)\<rparr>"

section \<open>Asserting\<close>

datatype assert_outcome = CREATED | SUPERSEDED | TOUCHED

text \<open>A new row as \<open>assert_fact\<close> fills it.\<close>

definition asserted_fact ::
  "int \<Rightarrow> uuid \<Rightarrow> fact_assert \<Rightarrow> value_columns \<Rightarrow> uuid option \<Rightarrow> uuid \<Rightarrow> fact" where
  "asserted_fact now asset p columns superseded new_id =
     \<lparr>c_id = new_id, c_class = statement_class_for (fa_source_type p),
      c_source_type = fa_source_type p, c_source_id = fa_source_id p,
      c_confidence = fa_confidence p, c_status = default_status_for (fa_source_type p),
      c_verified_by = None, c_verified_at = None, c_approved_by = None, c_approved_at = None,
      c_from = now, c_to = None, c_first_seen = now, c_last_seen = now,
      f_asset = asset, f_predicate = fa_predicate p, f_kind = fa_kind p, f_value = columns,
      f_unit = tv_unit (fa_value p), f_supersedes = superseded, f_derived_from = None\<rparr>"

definition touch :: "int \<Rightarrow> int \<Rightarrow> fact \<Rightarrow> fact" where
  "touch now confidence f = f\<lparr>c_last_seen := now, c_confidence := confidence\<rparr>"

definition close_claim :: "int \<Rightarrow> fact \<Rightarrow> fact" where
  "close_claim now f = f\<lparr>c_to := Some now\<rparr>"

type_synonym assert_result = "assert_outcome \<times> fact \<times> uuid option \<times> string list"

definition assert_fact :: "int \<Rightarrow> uuid \<Rightarrow> fact_assert \<Rightarrow> cmdb \<Rightarrow> assert_result cmdb_run" where
  "assert_fact now asset p db = (case find_asset asset db of
     None \<Rightarrow> Inl NotFoundError
   | Some a \<Rightarrow>
       andThen (screen (fa_predicate p) (tv_text (fa_value p)) (tv_json (fa_value p))) (\<lambda>(clean, keys).
       andThen (value_columns_of (fa_value p) clean) (\<lambda>columns.
       case live_claim asset (fa_predicate p) (fa_kind p) (fa_source_id p) db of
         None \<Rightarrow>
           andThen (insert_fact (asserted_fact now asset p columns None) db) (\<lambda>(f, db1).
           Inr ((CREATED, f, None, keys), seen_now asset now db1))
       | Some old \<Rightarrow>
           if values_equal (f_value old) columns then
             andThen (update_fact (touch now (fa_confidence p)) old db) (\<lambda>(f, db1).
             Inr ((TOUCHED, f, None, keys), db1))
           else
             andThen (update_fact (close_claim now) old db) (\<lambda>(closed, db1).
             andThen (insert_fact (asserted_fact now asset p columns (Some (c_id old))) db1) (\<lambda>(f, db2).
             Inr ((SUPERSEDED, f, Some (c_id old), keys), seen_now asset now db2))))))"

section \<open>Desired state\<close>

definition desired_fact ::
  "int \<Rightarrow> uuid \<Rightarrow> desired_create \<Rightarrow> string \<Rightarrow> value_columns \<Rightarrow> uuid option \<Rightarrow> uuid option \<Rightarrow> uuid \<Rightarrow> fact" where
  "desired_fact now asset p subject columns superseded derived new_id =
     \<lparr>c_id = new_id, c_class = SC_FACT, c_source_type = SRC_MANUAL_ENTRY, c_source_id = subject,
      c_confidence = 1000, c_status = VS_APPROVED, c_verified_by = None, c_verified_at = None,
      c_approved_by = Some subject, c_approved_at = Some now, c_from = now, c_to = None,
      c_first_seen = now, c_last_seen = now, f_asset = asset, f_predicate = dc_predicate p,
      f_kind = DESIRED_STATE, f_value = columns, f_unit = tv_unit (dc_value p),
      f_supersedes = superseded, f_derived_from = derived\<rparr>"

definition close_if_live :: "int \<Rightarrow> fact option \<Rightarrow> cmdb \<Rightarrow> uuid option cmdb_run" where
  "close_if_live now old db = (case old of
     None \<Rightarrow> Inr (None, db)
   | Some f \<Rightarrow> andThen (update_fact (close_claim now) f db) (\<lambda>(closed, db1). Inr (Some (c_id f), db1)))"

definition create_desired ::
  "int \<Rightarrow> uuid \<Rightarrow> desired_create \<Rightarrow> principal \<Rightarrow> uuid option \<Rightarrow> string option \<Rightarrow> cmdb \<Rightarrow> fact cmdb_run" where
  "create_desired now asset p who derived request_id db = (case find_asset asset db of
     None \<Rightarrow> Inl NotFoundError
   | Some a \<Rightarrow>
       andThen (screen (dc_predicate p) (tv_text (dc_value p)) (tv_json (dc_value p))) (\<lambda>(clean, keys).
       andThen (value_columns_of (dc_value p) clean) (\<lambda>columns.
       andThen (close_if_live now (live_claim asset (dc_predicate p) DESIRED_STATE (p_subject who) db) db)
         (\<lambda>(superseded, db1).
       andThen (insert_fact (desired_fact now asset p (p_subject who) columns superseded derived) db1)
         (\<lambda>(f, db2).
       Inr (f, record_attestation now f APPROVE VS_UNVERIFIED VS_APPROVED who (dc_reason p) request_id db2))))))"

section \<open>Trust\<close>

definition guard_single_authority :: "fact \<Rightarrow> cmdb \<Rightarrow> acop_error + unit" where
  "guard_single_authority f db = require
     (list_all (\<lambda>g. \<not> (authority_key g = authority_key f \<and> holds_authority g \<and> c_id g \<noteq> c_id f))
       (fact_rows db)) ConflictError"

definition target_status :: "attestation_action \<Rightarrow> verification_status" where
  "target_status action = (if action = VERIFY then VS_VERIFIED else VS_APPROVED)"

definition transition_target :: "attestation_action \<Rightarrow> fact \<Rightarrow> cmdb \<Rightarrow> acop_error + verification_status" where
  "transition_target action f db =
     (if action = REVOKE then
        andThen (require (is_authoritative (c_status f)) ConflictError) (\<lambda>_.
        Inr (default_status_for (c_source_type f)))
      else
        andThen (guard_authoritative_transition (c_class f) (c_source_type f) (target_status action)) (\<lambda>_.
        andThen (guard_single_authority f db) (\<lambda>_.
        Inr (target_status action))))"

definition retrust :: "attestation_action \<Rightarrow> string \<Rightarrow> int \<Rightarrow> verification_status \<Rightarrow> fact \<Rightarrow> fact" where
  "retrust action subject now to_status f = (attribution_for action subject now f)\<lparr>c_status := to_status\<rparr>"

definition fact_transition ::
  "int \<Rightarrow> uuid \<Rightarrow> attestation_action \<Rightarrow> principal \<Rightarrow> string option \<Rightarrow> string option \<Rightarrow> cmdb \<Rightarrow> fact cmdb_run" where
  "fact_transition now i action who reason request_id db = (case find_row c_id i (fact_rows db) of
     None \<Rightarrow> Inl NotFoundError
   | Some f \<Rightarrow>
       andThen (require (live f) ConflictError) (\<lambda>_.
       andThen (transition_target action f db) (\<lambda>to_status.
       andThen (update_fact (retrust action (p_subject who) now to_status) f db) (\<lambda>(g, db1).
       Inr (g, record_attestation now f action (c_status f) to_status who reason request_id db1)))))"

section \<open>Reading\<close>

definition live_facts :: "uuid \<Rightarrow> fact_kind option \<Rightarrow> string option \<Rightarrow> cmdb \<Rightarrow> fact list" where
  "live_facts asset kind predicate db = sort_key (\<lambda>f. (f_predicate f, c_source_id f))
     (filter (\<lambda>f. f_asset f = asset \<and> live f \<and> (case kind of None \<Rightarrow> True | Some k \<Rightarrow> f_kind f = k) \<and>
        (case predicate of None \<Rightarrow> True | Some p \<Rightarrow> p = [] \<or> f_predicate f = p)) (fact_rows db))"

definition fact_history :: "uuid \<Rightarrow> string \<Rightarrow> cmdb \<Rightarrow> fact list" where
  "fact_history asset predicate db = sort_key (\<lambda>f. - c_from f)
     (filter (\<lambda>f. f_asset f = asset \<and> f_predicate f = predicate) (fact_rows db))"

text \<open>
  \<open>str(value)\<close>: text is itself, a boolean and an identifier have their usual form, and
  \<open>str\<close> of a number, an instant or a dictionary is the argument \<open>py_str\<close>.
\<close>

definition summarise :: "(value_columns \<Rightarrow> string) \<Rightarrow> value_columns \<Rightarrow> string" where
  "summarise py_str v =
    (let text = (case v_type v of
         VT_TEXT \<Rightarrow> (case v_text v of None \<Rightarrow> [] | Some s \<Rightarrow> s)
       | VT_BOOL \<Rightarrow> (case v_bool v of None \<Rightarrow> [] | Some b \<Rightarrow> if b then ''True'' else ''False'')
       | VT_ASSET_REF \<Rightarrow> (case v_asset v of None \<Rightarrow> [] | Some a \<Rightarrow> uuid_text a)
       | _ \<Rightarrow> py_str v) in
     if length text \<le> 120 then text else take 117 text @ ''...'')"

datatype basis = AUTHORITATIVE_SINGLE | UNANIMOUS | UNRESOLVED

text \<open>\<open>EffectiveValue\<close>; the dissenting claims are given by their rows.\<close>

record effective_value =
  ev_basis :: basis
  ev_fact :: "fact option"
  ev_conflict :: bool
  ev_resolution_required :: bool
  ev_inference_only :: bool
  ev_dissenting :: "fact list"

definition distinct_summaries :: "(value_columns \<Rightarrow> string) \<Rightarrow> fact list \<Rightarrow> string list" where
  "distinct_summaries py_str fs = remdups (map (\<lambda>f. summarise py_str (f_value f)) fs)"

definition not_inference :: "fact list \<Rightarrow> fact list" where
  "not_inference fs = filter (\<lambda>f. c_class f \<noteq> SC_INFERENCE) fs"

definition resolve_claims :: "(value_columns \<Rightarrow> string) \<Rightarrow> fact list \<Rightarrow> effective_value" where
  "resolve_claims py_str fs =
    (let authoritative = filter (\<lambda>f. is_authoritative (c_status f)) fs;
         conflict = 1 < length (distinct_summaries py_str fs);
         non_inference = not_inference fs in
     if length authoritative = 1 then
       \<lparr>ev_basis = AUTHORITATIVE_SINGLE, ev_fact = Some (hd authoritative), ev_conflict = conflict,
        ev_resolution_required = False, ev_inference_only = False,
        ev_dissenting = filter (\<lambda>f. c_id f \<noteq> c_id (hd authoritative)) fs\<rparr>
     else if non_inference \<noteq> [] \<and> length (distinct_summaries py_str non_inference) = 1 then
       \<lparr>ev_basis = UNANIMOUS, ev_fact = Some (hd non_inference), ev_conflict = conflict,
        ev_resolution_required = False, ev_inference_only = False,
        ev_dissenting = filter (\<lambda>f. c_id f \<notin> c_id ` set non_inference) fs\<rparr>
     else
       \<lparr>ev_basis = UNRESOLVED, ev_fact = None, ev_conflict = conflict,
        ev_resolution_required = True, ev_inference_only = (non_inference = []), ev_dissenting = fs\<rparr>)"

definition effective ::
  "(value_columns \<Rightarrow> string) \<Rightarrow> uuid \<Rightarrow> string \<Rightarrow> fact_kind \<Rightarrow> cmdb \<Rightarrow> acop_error + effective_value" where
  "effective py_str asset predicate kind db =
    (let fs = live_facts asset (Some kind) (Some predicate) db in
     if fs = [] then Inl NotFoundError else Inr (resolve_claims py_str fs))"

text \<open>
  \<open>conflicts\<close>: the predicates of which two live claims render differently, sorted, with the
  number of renderings and the claims.
\<close>

definition conflicts ::
  "(value_columns \<Rightarrow> string) \<Rightarrow> uuid \<Rightarrow> cmdb \<Rightarrow> (string \<times> fact_kind \<times> nat \<times> fact list) list" where
  "conflicts py_str asset db =
    (let fs = live_facts asset None None db;
         groups = sort_key (\<lambda>(p, k). (p, fact_kind_value k))
           (remdups (map (\<lambda>f. (f_predicate f, f_kind f)) fs));
         members = (\<lambda>(p, k). filter (\<lambda>f. f_predicate f = p \<and> f_kind f = k) fs) in
     concat (map (\<lambda>g. if 1 < length (distinct_summaries py_str (members g))
        then [(fst g, snd g, length (distinct_summaries py_str (members g)), members g)] else []) groups))"

end
