(* ===== verification/Identity_Resolver.thy ===== *)
theory Identity_Resolver
  imports Facts
begin

text \<open>
  \<open>services/identity_resolver.py\<close>: the identifiers that correlate a source's view to an asset, and
  their resolution to exactly one asset.  The abstract state is the relation between assets and
  the identifiers they carry, functional on the namespaces declared unique.
\<close>

section \<open>Identifiers\<close>

record identifier_input =
  ii_namespace :: string
  ii_value :: string
  ii_source_type :: source_type
  ii_source_id :: string
  ii_confidence :: int

text \<open>The validators of \<open>schemas/asset.py\<close>: the namespace is stripped and lowered.\<close>

definition validate_identifier :: "identifier_input \<Rightarrow> identifier_input option" where
  "validate_identifier i = (let lowered = lower (strip (ii_namespace i)) in
     if length (ii_namespace i) \<le> 48 \<and> matches_namespace lowered \<and> 1 \<le> length (ii_value i) \<and>
        length (ii_value i) \<le> 255 \<and> length (ii_source_id i) \<le> 255 \<and> 0 \<le> ii_confidence i \<and>
        ii_confidence i \<le> 1000
     then Some (i\<lparr>ii_namespace := lowered\<rparr>) else None)"

record normalised_identifier =
  ni_namespace :: string
  ni_raw :: string
  ni_normalized :: string
  ni_unique :: bool
  ni_source_type :: source_type
  ni_source_id :: string
  ni_confidence :: int

definition namespace_spec_of :: "string \<Rightarrow> namespace_spec option" where
  "namespace_spec_of ns = find (\<lambda>s. ns_name s = ns) IDENTIFIER_NAMESPACES"

definition normalised_value :: "string \<Rightarrow> string \<Rightarrow> string" where
  "normalised_value ns v = (case namespace_spec_of ns of
     None \<Rightarrow> lower (strip v) | Some spec \<Rightarrow> NORMALISERS (ns_normaliser spec) v)"

definition namespace_unique :: "string \<Rightarrow> bool" where
  "namespace_unique ns = (case namespace_spec_of ns of None \<Rightarrow> False | Some spec \<Rightarrow> ns_unique spec)"

definition normalise_identifier :: "identifier_input \<Rightarrow> acop_error + normalised_identifier" where
  "normalise_identifier i = (let v = normalised_value (ii_namespace i) (ii_value i) in
     if v = [] then Inl VocabularyError
     else Inr \<lparr>ni_namespace = ii_namespace i, ni_raw = ii_value i, ni_normalized = v,
       ni_unique = namespace_unique (ii_namespace i), ni_source_type = ii_source_type i,
       ni_source_id = ii_source_id i, ni_confidence = ii_confidence i\<rparr>)"

fun normalise_all :: "identifier_input list \<Rightarrow> acop_error + normalised_identifier list" where
  "normalise_all [] = Inr []"
| "normalise_all (i # is) = andThen (normalise_identifier i) (\<lambda>n.
     andThen (normalise_all is) (\<lambda>ns. Inr (n # ns)))"

definition ci_live :: "identifier_row \<Rightarrow> bool" where
  "ci_live r = (ci_retired_at r = None)"

definition insert_identifier :: "(uuid \<Rightarrow> identifier_row) \<Rightarrow> cmdb \<Rightarrow> identifier_row cmdb_run" where
  "insert_identifier mk db = (let r = mk (fresh_id db) in
     andThen (enforce (identifier_checks db r)) (\<lambda>_.
     Inr (r, db\<lparr>identifier_rows := identifier_rows db @ [r], fresh_id := Suc (fresh_id db)\<rparr>)))"

text \<open>\<open>last_seen_at = now\<close>: no constraint of the table reads that column.\<close>

definition touch_identifier :: "int \<Rightarrow> identifier_row \<Rightarrow> cmdb \<Rightarrow> cmdb" where
  "touch_identifier now r db = db\<lparr>identifier_rows := upd_rows (\<lambda>g. ci_id g = ci_id r)
     (\<lambda>g. g\<lparr>ci_last_seen := now\<rparr>) (identifier_rows db)\<rparr>"

definition new_identifier :: "int \<Rightarrow> uuid \<Rightarrow> normalised_identifier \<Rightarrow> uuid \<Rightarrow> identifier_row" where
  "new_identifier now asset n new_id =
     \<lparr>ci_id = new_id, ci_asset = asset, ci_namespace = ni_namespace n, ci_raw = ni_raw n,
      ci_normalized = ni_normalized n, ci_unique = ni_unique n, ci_source_type = ni_source_type n,
      ci_source_id = ni_source_id n, ci_confidence = ni_confidence n, ci_first_seen = now,
      ci_last_seen = now, ci_retired_at = None\<rparr>"

section \<open>Resolution\<close>

definition same_identifier :: "normalised_identifier \<Rightarrow> identifier_row \<Rightarrow> bool" where
  "same_identifier n r = (ci_namespace r = ni_namespace n \<and> ci_normalized r = ni_normalized n)"

definition matching_rows :: "normalised_identifier list \<Rightarrow> cmdb \<Rightarrow> identifier_row list" where
  "matching_rows ns db = filter (\<lambda>r. ci_live r \<and> list_ex (\<lambda>n. ni_unique n \<and> same_identifier n r) ns)
     (identifier_rows db)"

text \<open>Each matching asset with the namespaces that matched it.\<close>

definition find_matches :: "normalised_identifier list \<Rightarrow> cmdb \<Rightarrow> (uuid \<times> string list) list" where
  "find_matches ns db = (let rows = matching_rows ns db in
     map (\<lambda>a. (a, map ci_namespace (filter (\<lambda>r. ci_asset r = a) rows))) (remdups (map ci_asset rows)))"

definition insert_asset :: "(uuid \<Rightarrow> asset_row) \<Rightarrow> cmdb \<Rightarrow> asset_row cmdb_run" where
  "insert_asset mk db = (let a = mk (fresh_id db) in
     andThen (enforce (asset_checks a)) (\<lambda>_.
     Inr (a, db\<lparr>asset_rows := asset_rows db @ [a], fresh_id := Suc (fresh_id db)\<rparr>)))"

definition new_asset :: "int \<Rightarrow> asset_kind \<Rightarrow> string \<Rightarrow> uuid \<Rightarrow> asset_row" where
  "new_asset now kind name new_id =
     \<lparr>ca_id = new_id, ca_type = kind, ca_lifecycle = LC_ACTIVE, ca_display_name = name,
      ca_description = None, ca_merged_into = None, ca_created = now, ca_first_seen = now,
      ca_last_seen = now, ca_retired_at = None\<rparr>"

text \<open>
  \<open>_attach_missing\<close>: the identifiers the asset carries are read once, before the loop; those
  presented again are touched, the others inserted.
\<close>

definition attach_one ::
  "int \<Rightarrow> uuid \<Rightarrow> identifier_row list \<Rightarrow> cmdb \<Rightarrow> normalised_identifier \<Rightarrow> acop_error + cmdb" where
  "attach_one now asset existing db n = (case find (same_identifier n) existing of
     Some r \<Rightarrow> Inr (touch_identifier now r db)
   | None \<Rightarrow> andThen (insert_identifier (new_identifier now asset n) db) (\<lambda>(r, db1). Inr db1))"

definition attach_missing ::
  "int \<Rightarrow> uuid \<Rightarrow> normalised_identifier list \<Rightarrow> cmdb \<Rightarrow> acop_error + cmdb" where
  "attach_missing now asset ns db = foldRes
     (attach_one now asset (filter (\<lambda>r. ci_asset r = asset \<and> ci_live r) (identifier_rows db))) db ns"

datatype resolution = MATCHED uuid "string list" | RESOLVED_NEW uuid

definition resolve ::
  "int \<Rightarrow> asset_kind \<Rightarrow> string \<Rightarrow> identifier_input list \<Rightarrow> bool \<Rightarrow> cmdb \<Rightarrow> resolution cmdb_run" where
  "resolve now kind name presented create_if_missing db =
     andThen (normalise_all presented) (\<lambda>ns.
     case find_matches ns db of
       [] \<Rightarrow>
         andThen (require create_if_missing IdentityConflictError) (\<lambda>_.
         andThen (insert_asset (new_asset now kind name) db) (\<lambda>(a, db1).
         andThen (attach_missing now (ca_id a) ns db1) (\<lambda>db2.
         Inr (RESOLVED_NEW (ca_id a), db2))))
     | [(asset, on)] \<Rightarrow> (case find_asset asset db of
           None \<Rightarrow> Inl IdentityConflictError
         | Some a \<Rightarrow> andThen (attach_missing now asset ns (seen_now asset now db)) (\<lambda>db1.
             Inr (MATCHED asset (sort on), db1)))
     | _ # _ # _ \<Rightarrow> Inl IdentityConflictError)"


section \<open>The relation between assets and identifiers\<close>

definition ikey :: "identifier_row \<Rightarrow> string \<times> string" where
  "ikey r = (ci_namespace r, ci_normalized r)"

definition nkey :: "normalised_identifier \<Rightarrow> string \<times> string" where
  "nkey n = (ni_namespace n, ni_normalized n)"

definition carries :: "cmdb \<Rightarrow> (uuid \<times> string \<times> string) set" where
  "carries db = set (map (\<lambda>r. (ci_asset r, ikey r)) (filter ci_live (identifier_rows db)))"

definition identifiers_agree :: "identifier_row \<Rightarrow> identifier_row \<Rightarrow> bool" where
  "identifiers_agree i j \<longleftrightarrow> ci_id i = ci_id j \<or> \<not> ci_live i \<or> \<not> ci_live j \<or> ikey i \<noteq> ikey j \<or>
     (\<not> (ci_unique i \<and> ci_unique j) \<and> ci_asset i \<noteq> ci_asset j)"

definition identifiers_ok :: "cmdb \<Rightarrow> bool" where
  "identifiers_ok db \<longleftrightarrow> distinct (map ca_id (asset_rows db)) \<and> distinct (map ci_id (identifier_rows db)) \<and>
     (\<forall>a \<in> set (asset_rows db). ca_id a < fresh_id db) \<and>
     (\<forall>r \<in> set (identifier_rows db). ci_id r < fresh_id db \<and>
        ci_unique r = namespace_unique (ci_namespace r) \<and> find_asset (ci_asset r) db \<noteq> None) \<and>
     (\<forall>i \<in> set (identifier_rows db). \<forall>j \<in> set (identifier_rows db). identifiers_agree i j)"

lemma identifiers_okD:
  assumes "identifiers_ok db"
  shows "distinct (map ca_id (asset_rows db))" and "distinct (map ci_id (identifier_rows db))"
    and "a \<in> set (asset_rows db) \<Longrightarrow> ca_id a < fresh_id db"
    and "r \<in> set (identifier_rows db) \<Longrightarrow> ci_id r < fresh_id db"
    and "r \<in> set (identifier_rows db) \<Longrightarrow> ci_unique r = namespace_unique (ci_namespace r)"
    and "r \<in> set (identifier_rows db) \<Longrightarrow> find_asset (ci_asset r) db \<noteq> None"
    and "i \<in> set (identifier_rows db) \<Longrightarrow> j \<in> set (identifier_rows db) \<Longrightarrow> identifiers_agree i j"
  using assms by (auto simp: identifiers_ok_def)

lemma identifiers_agree_sym: "identifiers_agree i j \<Longrightarrow> identifiers_agree j i"
  by (auto simp: identifiers_agree_def)

lemma carries_iff: "(a, k) \<in> carries db \<longleftrightarrow> (\<exists>r \<in> set (identifier_rows db). ci_live r \<and> ci_asset r = a \<and> ikey r = k)"
  by (auto simp: carries_def)

text \<open>An identifier in a unique namespace belongs to one asset.\<close>

lemma unique_identifier_owner:
  assumes ok: "identifiers_ok db" and "(a, k) \<in> carries db" "(b, k) \<in> carries db" and "namespace_unique (fst k)"
  shows "a = b"
proof -
  obtain r s where r: "r \<in> set (identifier_rows db)" "ci_live r" "ci_asset r = a" "ikey r = k"
    and s: "s \<in> set (identifier_rows db)" "ci_live s" "ci_asset s = b" "ikey s = k"
    using assms(2,3) by (auto simp: carries_iff)
  have "ci_unique r" "ci_unique s"
    using identifiers_okD(5) [OF ok] r s assms(4) by (auto simp: ikey_def)
  with identifiers_okD(7) [OF ok r(1) s(1)] r s have "ci_id r = ci_id s" by (simp add: identifiers_agree_def)
  with identifiers_okD(2) [OF ok] r(1) s(1) have "r = s" by (auto simp: distinct_map inj_on_def)
  with r s show ?thesis by simp
qed

lemma carrier_exists: "identifiers_ok db \<Longrightarrow> (a, k) \<in> carries db \<Longrightarrow> find_asset a db \<noteq> None"
  unfolding carries_iff using identifiers_okD(6) by blast

lemma touch_identifier_frame [simp]:
  "asset_rows (touch_identifier now r db) = asset_rows db" "fresh_id (touch_identifier now r db) = fresh_id db"
  "fact_rows (touch_identifier now r db) = fact_rows db" "edge_rows (touch_identifier now r db) = edge_rows db"
  "attestation_rows (touch_identifier now r db) = attestation_rows db"
  "find_asset i (touch_identifier now r db) = find_asset i db"
  "length (identifier_rows (touch_identifier now r db)) = length (identifier_rows db)"
  by (simp_all add: touch_identifier_def find_asset_def)

text \<open>What the relation depends on: the rows without the instant they were last seen.\<close>

definition core :: "identifier_row \<Rightarrow> identifier_row" where
  "core r = r\<lparr>ci_last_seen := 0\<rparr>"

lemma core_simps [simp]:
  "ci_id (core r) = ci_id r" "ci_live (core r) = ci_live r" "ci_asset (core r) = ci_asset r"
  "ikey (core r) = ikey r" "ci_unique (core r) = ci_unique r" "ci_namespace (core r) = ci_namespace r"
  "identifiers_agree (core i) (core j) = identifiers_agree i j"
  by (simp_all add: core_def ci_live_def ikey_def identifiers_agree_def)

lemma same_core_carries:
  assumes "map core (identifier_rows db') = map core (identifier_rows db)"
  shows "carries db' = carries db"
proof -
  have "carries d = set (map (\<lambda>r. (ci_asset r, ikey r)) (filter ci_live (map core (identifier_rows d))))" for d
    by (simp add: carries_def filter_map comp_def)
  then show ?thesis by (simp only: assms)
qed

lemma identifiers_ok_core:
  "identifiers_ok db \<longleftrightarrow> distinct (map ca_id (asset_rows db)) \<and> distinct (map ci_id (map core (identifier_rows db))) \<and>
     (\<forall>a \<in> set (asset_rows db). ca_id a < fresh_id db) \<and>
     (\<forall>r \<in> set (map core (identifier_rows db)). ci_id r < fresh_id db \<and>
        ci_unique r = namespace_unique (ci_namespace r) \<and> find_asset (ci_asset r) db \<noteq> None) \<and>
     (\<forall>i \<in> set (map core (identifier_rows db)). \<forall>j \<in> set (map core (identifier_rows db)). identifiers_agree i j)"
  by (simp add: identifiers_ok_def comp_def)

lemma core_touch [simp]: "map core (identifier_rows (touch_identifier now r db)) = map core (identifier_rows db)"
  by (simp add: touch_identifier_def upd_rows_def core_def)

lemma touch_identifier_carries [simp]: "carries (touch_identifier now r db) = carries db"
  by (rule same_core_carries) (rule core_touch)

lemma touch_identifier_ok: "identifiers_ok db \<Longrightarrow> identifiers_ok (touch_identifier now r db)"
  unfolding identifiers_ok_core touch_identifier_frame core_touch .

lemma identifiers_ok_cong:
  assumes "identifiers_ok db" and "identifier_rows db' = identifier_rows db"
    and "map ca_id (asset_rows db') = map ca_id (asset_rows db)" and "fresh_id db \<le> fresh_id db'"
  shows "identifiers_ok db'"
proof -
  have "find_asset i db' = None \<longleftrightarrow> find_asset i db = None" for i
    unfolding find_asset_def find_row_None by (metis assms(3) set_map)
  moreover have "\<forall>a \<in> set (asset_rows db'). ca_id a < fresh_id db"
    using assms(1,3) by (metis (mono_tags, lifting) identifiers_okD(3) imageE imageI list.set_map)
  ultimately show ?thesis
    using assms by (auto simp: identifiers_ok_def intro: less_le_trans)
qed

lemma insert_identifier_step:
  assumes ok: "identifiers_ok db" and unique: "ni_unique n = namespace_unique (ni_namespace n)"
    and run: "insert_identifier (new_identifier now a n) db = Inr (r, db')"
  shows "identifiers_ok db'" "carries db' = insert (a, nkey n) (carries db)" "(a, nkey n) \<notin> carries db"
    "asset_rows db' = asset_rows db" "fresh_id db < fresh_id db'" "fact_rows db' = fact_rows db"
    "edge_rows db' = edge_rows db" "attestation_rows db' = attestation_rows db" "r = new_identifier now a n (fresh_id db)"
    "identifier_rows db' = identifier_rows db @ [r]" "\<forall>b. namespace_unique (ni_namespace n) \<longrightarrow> (b, nkey n) \<notin> carries db"
proof -
  let ?r = "new_identifier now a n (fresh_id db)"
  have r: "r = ?r" and db': "db' = db\<lparr>identifier_rows := identifier_rows db @ [?r], fresh_id := Suc (fresh_id db)\<rparr>"
    and checks: "\<forall>c \<in> set (identifier_checks db ?r). snd c"
    using run by (auto simp: insert_identifier_def Let_def andThen_eq_Inr enforce_Inr)
  have fresh: "ci_id j \<noteq> fresh_id db" if "j \<in> set (identifier_rows db)" for j
    using identifiers_okD(4) [OF ok that] by simp
  have agree: "\<forall>j \<in> set (identifier_rows db). identifiers_agree j ?r" and asset: "find_asset a db \<noteq> None"
    using checks
    by (auto simp: identifier_checks_def list_all_iff identifiers_agree_def ikey_def ci_live_def new_identifier_def)
  show "r = ?r" "asset_rows db' = asset_rows db" "fresh_id db < fresh_id db'" "fact_rows db' = fact_rows db"
    "edge_rows db' = edge_rows db" "attestation_rows db' = attestation_rows db" "identifier_rows db' = identifier_rows db @ [r]"
    by (simp_all add: db' r)
  have key: "ikey ?r = nkey n" "ci_live ?r" "ci_asset ?r = a" "ci_unique ?r = ni_unique n" "ci_id ?r = fresh_id db"
    "ci_namespace ?r = ni_namespace n"
    by (simp_all add: ikey_def nkey_def new_identifier_def ci_live_def)
  show "carries db' = insert (a, nkey n) (carries db)" by (auto simp: carries_def db' key)
  show "(a, nkey n) \<notin> carries db" using agree fresh key by (auto simp: carries_iff identifiers_agree_def)
  show "\<forall>b. namespace_unique (ni_namespace n) \<longrightarrow> (b, nkey n) \<notin> carries db"
    using agree fresh key unique identifiers_okD(5) [OF ok]
    by (auto simp: carries_iff identifiers_agree_def) (simp add: ikey_def nkey_def)
  have "\<forall>i \<in> set (identifier_rows db'). \<forall>j \<in> set (identifier_rows db'). identifiers_agree i j"
    using agree identifiers_okD(7) [OF ok] identifiers_agree_sym by (auto simp: db' identifiers_agree_def)
  moreover have "find_asset i db' = find_asset i db" for i by (simp add: db' find_asset_def)
  ultimately show "identifiers_ok db'"
    using ok fresh asset unique key
    by (auto simp: identifiers_ok_def db' less_Suc_eq simp del: not_None_eq)
qed

section \<open>Attaching\<close>

text \<open>
  \<open>attached s k db db'\<close>: a write that only touches identifiers, after which the asset carries
  the identifiers \<open>k\<close> beside those carried before.
\<close>

definition attached :: "uuid \<Rightarrow> (string \<times> string) set \<Rightarrow> cmdb \<Rightarrow> cmdb \<Rightarrow> bool" where
  "attached a ks db db' \<longleftrightarrow> identifiers_ok db' \<and> carries db' = carries db \<union> {a} \<times> ks \<and>
     asset_rows db' = asset_rows db \<and> fact_rows db' = fact_rows db \<and> edge_rows db' = edge_rows db \<and>
     attestation_rows db' = attestation_rows db \<and> fresh_id db \<le> fresh_id db'"

lemma attach_one_step:
  assumes ok: "identifiers_ok db" and unique: "ni_unique n = namespace_unique (ni_namespace n)"
    and existing: "\<forall>r \<in> set existing. (a, ikey r) \<in> carries db"
    and run: "attach_one now a existing db n = Inr db'"
  shows "attached a {nkey n} db db'"
proof (cases "find (same_identifier n) existing")
  case None
  with run obtain r where "insert_identifier (new_identifier now a n) db = Inr (r, db')"
    by (auto simp: attach_one_def andThen_eq_Inr)
  from insert_identifier_step [OF ok unique this] show ?thesis by (auto simp: attached_def)
next
  case (Some r)
  then have "r \<in> set existing" "ikey r = nkey n"
    by (auto simp: find_Some_iff same_identifier_def ikey_def nkey_def)
  then have "(a, nkey n) \<in> carries db" using existing by metis
  then show ?thesis
    using run Some touch_identifier_ok [OF ok] by (auto simp: attach_one_def attached_def)
qed

lemma attach_all:
  assumes "identifiers_ok db" and "\<forall>n \<in> set ns. ni_unique n = namespace_unique (ni_namespace n)"
    and "\<forall>r \<in> set existing. (a, ikey r) \<in> carries db"
    and "foldRes (attach_one now a existing) db ns = Inr db'"
  shows "attached a (set (map nkey ns)) db db'"
  using assms
proof (induction ns arbitrary: db)
  case (Cons n ns)
  from Cons.prems(4) obtain db1 where one: "attach_one now a existing db n = Inr db1"
    and rest: "foldRes (attach_one now a existing) db1 ns = Inr db'"
    by (auto simp: andThen_eq_Inr)
  have first: "attached a {nkey n} db db1"
    by (rule attach_one_step [OF Cons.prems(1) _ Cons.prems(3) one]) (use Cons.prems(2) in simp)
  have "attached a (set (map nkey ns)) db1 db'"
    by (rule Cons.IH [OF _ _ _ rest]) (use first Cons.prems(2,3) in \<open>auto simp: attached_def\<close>)
  with first show ?case by (auto simp: attached_def)
qed (simp add: attached_def)

lemma attach_missing_attached:
  assumes "identifiers_ok db" and "\<forall>n \<in> set ns. ni_unique n = namespace_unique (ni_namespace n)"
    and "attach_missing now a ns db = Inr db'"
  shows "attached a (set (map nkey ns)) db db'"
  using assms(3) unfolding attach_missing_def
  by (rule attach_all [OF assms(1,2), rotated]) (auto simp: carries_iff)

lemma normalise_identifier_unique:
  "normalise_identifier i = Inr n \<Longrightarrow> ni_unique n = namespace_unique (ni_namespace n)"
  by (auto simp: normalise_identifier_def Let_def split: if_splits)

lemma normalise_all_unique:
  "normalise_all is = Inr ns \<Longrightarrow> \<forall>n \<in> set ns. ni_unique n = namespace_unique (ni_namespace n)"
  by (induction "is" arbitrary: ns) (auto simp: andThen_eq_Inr normalise_identifier_unique)

section \<open>Resolving\<close>

definition unique_keys :: "normalised_identifier list \<Rightarrow> (string \<times> string) set" where
  "unique_keys ns = set (map nkey (filter ni_unique ns))"

definition claimants :: "(string \<times> string) set \<Rightarrow> cmdb \<Rightarrow> uuid set" where
  "claimants ks db = {a. \<exists>k \<in> ks. (a, k) \<in> carries db}"

lemma matches_are_claimants: "fst ` set (find_matches ns db) = claimants (unique_keys ns) db"
  by (auto simp: find_matches_def Let_def matching_rows_def claimants_def unique_keys_def carries_iff
      image_iff list_ex_iff same_identifier_def ikey_def nkey_def) metis+

lemma matches_distinct: "distinct (map fst (find_matches ns db))"
  by (simp add: find_matches_def Let_def comp_def)

lemma no_match_iff: "find_matches ns db = [] \<longleftrightarrow> claimants (unique_keys ns) db = {}"
  unfolding matches_are_claimants [symmetric] by simp

lemma one_match_iff: "(\<exists>on. find_matches ns db = [(a, on)]) \<longleftrightarrow> claimants (unique_keys ns) db = {a}"
proof
  assume "claimants (unique_keys ns) db = {a}"
  then have "set (map fst (find_matches ns db)) = {a}" by (simp add: matches_are_claimants)
  moreover have "length (map fst (find_matches ns db)) = card (set (map fst (find_matches ns db)))"
    by (rule distinct_card [OF matches_distinct, symmetric])
  ultimately have "length (find_matches ns db) = 1" by simp
  then obtain m where "find_matches ns db = [m]" by (cases "find_matches ns db") auto
  with \<open>set (map fst (find_matches ns db)) = {a}\<close> show "\<exists>on. find_matches ns db = [(a, on)]"
    by (cases m) auto
qed (auto simp: matches_are_claimants [symmetric])

lemma resolve_cases:
  assumes "resolve now kind name presented create db = Inr (res, db')"
  obtains
    (matched) ns a on x where "normalise_all presented = Inr ns" "find_matches ns db = [(a, on)]"
      "find_asset a db = Some x" "attach_missing now a ns (seen_now a now db) = Inr db'" "res = MATCHED a (sort on)"
  | (new) ns a db1 where "normalise_all presented = Inr ns" "find_matches ns db = []" "create"
      "insert_asset (new_asset now kind name) db = Inr (a, db1)"
      "attach_missing now (ca_id a) ns db1 = Inr db'" "res = RESOLVED_NEW (ca_id a)"
proof -
  from assms obtain ns where ns: "normalise_all presented = Inr ns" by (auto simp: resolve_def andThen_eq_Inr)
  consider "find_matches ns db = []" | a on where "find_matches ns db = [(a, on)]"
    | p q rest where "find_matches ns db = p # q # rest"
    by (metis list.exhaust surj_pair)
  then show thesis
  proof cases
    case 1
    with assms ns show thesis by (auto simp: resolve_def andThen_eq_Inr intro: new)
  next
    case 2
    with assms ns show thesis
      by (auto simp: resolve_def andThen_eq_Inr split: option.splits intro: matched)
  next
    case 3
    with assms ns show thesis by (cases p) (auto simp: resolve_def)
  qed
qed

lemma seen_now_identifiers [simp]:
  "identifier_rows (seen_now a now db) = identifier_rows db" "carries (seen_now a now db) = carries db"
  "map ca_id (asset_rows (seen_now a now db)) = map ca_id (asset_rows db)"
  by (simp_all add: seen_now_def carries_def map_upd_rows_frame)

lemma insert_asset_step:
  assumes ok: "identifiers_ok db" and run: "insert_asset mk db = Inr (a, db')" and "ca_id a = fresh_id db"
  shows "identifiers_ok db'" "carries db' = carries db" "a = mk (fresh_id db)"
    "asset_rows db' = asset_rows db @ [a]" "fresh_id db' = Suc (fresh_id db)" "fact_rows db' = fact_rows db"
    "edge_rows db' = edge_rows db" "attestation_rows db' = attestation_rows db"
proof -
  have db': "db' = db\<lparr>asset_rows := asset_rows db @ [a], fresh_id := Suc (fresh_id db)\<rparr>" and a: "a = mk (fresh_id db)"
    using run by (auto simp: insert_asset_def Let_def andThen_eq_Inr)
  show "a = mk (fresh_id db)" "carries db' = carries db" "asset_rows db' = asset_rows db @ [a]"
    "fresh_id db' = Suc (fresh_id db)" "fact_rows db' = fact_rows db" "edge_rows db' = edge_rows db"
    "attestation_rows db' = attestation_rows db"
    by (simp_all add: db' carries_def a)
  have "ca_id b \<noteq> fresh_id db" if "b \<in> set (asset_rows db)" for b
    using identifiers_okD(3) [OF ok that] by simp
  moreover have "find_asset i db' \<noteq> None" if "find_asset i db \<noteq> None" for i
    using that by (auto simp: db' find_asset_def find_row_append)
  ultimately show "identifiers_ok db'"
    using ok assms(3) by (auto simp: identifiers_ok_def db' less_Suc_eq simp del: not_None_eq)
qed

definition resolved :: "resolution \<Rightarrow> uuid" where
  "resolved res = (case res of MATCHED a on \<Rightarrow> a | RESOLVED_NEW a \<Rightarrow> a)"

lemma resolve_contract:
  assumes ok: "identifiers_ok db" and run: "resolve now kind name presented create db = Inr (res, db')"
  shows "identifiers_ok db' \<and> (\<exists>ns. normalise_all presented = Inr ns \<and>
    carries db' = carries db \<union> {resolved res} \<times> set (map nkey ns) \<and>
    (case res of
       MATCHED a on \<Rightarrow> claimants (unique_keys ns) db = {a} \<and>
         map ca_id (asset_rows db') = map ca_id (asset_rows db)
     | RESOLVED_NEW a \<Rightarrow> claimants (unique_keys ns) db = {} \<and> create \<and>
         map ca_id (asset_rows db') = map ca_id (asset_rows db) @ [a]))"
  using run
proof (cases rule: resolve_cases)
  case (matched ns a on x)
  have "identifiers_ok (seen_now a now db)"
    by (rule identifiers_ok_cong [OF ok]) (simp_all, simp add: seen_now_def)
  from attach_missing_attached [OF this normalise_all_unique [OF matched(1)] matched(4)]
  show ?thesis
    using matched(1,2,5) one_match_iff [of ns db a] by (simp add: attached_def resolved_def)
next
  case (new ns a db1)
  have "ca_id a = fresh_id db"
    using new(4) by (auto simp: insert_asset_def Let_def andThen_eq_Inr new_asset_def)
  note step = insert_asset_step [OF ok new(4) this]
  from attach_missing_attached [OF step(1) normalise_all_unique [OF new(1)] new(5)]
  show ?thesis
    using new(1,2,3,6) step no_match_iff [of ns db] by (simp add: attached_def resolved_def)
qed

text \<open>
  C22. The contract of resolution.  The identifiers presented end up with the asset returned and no
  identifier is taken from another: in a unique namespace, every one presented was unclaimed or
  belonged to that asset already.  The asset is an existing one exactly if one claims such an
  identifier; otherwise it is one new row.
\<close>

theorem resolve_refines_identity:
  assumes ok: "identifiers_ok db" and run: "resolve now kind name presented create db = Inr (res, db')"
  shows "identifiers_ok db' \<and> (\<exists>ns. normalise_all presented = Inr ns \<and>
    carries db' = carries db \<union> {resolved res} \<times> set (map nkey ns) \<and>
    (case res of
       MATCHED a on \<Rightarrow> claimants (unique_keys ns) db = {a} \<and>
         map ca_id (asset_rows db') = map ca_id (asset_rows db)
     | RESOLVED_NEW a \<Rightarrow> claimants (unique_keys ns) db = {} \<and> create \<and>
         map ca_id (asset_rows db') = map ca_id (asset_rows db) @ [a]))"
  by (rule resolve_contract [OF assms])

text \<open>
  Identifiers that belong to two assets are refused, whatever else is presented.\<close>

theorem ambiguous_identity_is_refused:
  assumes "normalise_all presented = Inr ns" and "k \<in> unique_keys ns" "l \<in> unique_keys ns"
    and "(a, k) \<in> carries db" "(b, l) \<in> carries db" "a \<noteq> b"
  shows "resolve now kind name presented create db = Inl IdentityConflictError"
proof -
  have two: "{a, b} \<subseteq> claimants (unique_keys ns) db" using assms(2-5) by (auto simp: claimants_def)
  then have "find_matches ns db \<noteq> []" and "find_matches ns db \<noteq> [(c, on)]" for c on
    using assms(6) no_match_iff [of ns db] one_match_iff [of ns db c] by auto
  then obtain p q rest where "find_matches ns db = p # q # rest" by (metis list.exhaust surj_pair)
  then show ?thesis using assms(1) by (cases p) (simp add: resolve_def)
qed

lemma attach_missing_again:
  assumes "\<forall>n \<in> set ns. (a, nkey n) \<in> carries db"
  shows "\<exists>db'. attach_missing now a ns db = Inr db' \<and> carries db' = carries db \<and> asset_rows db' = asset_rows db \<and>
    length (identifier_rows db') = length (identifier_rows db)"
proof -
  have "\<exists>db'. foldRes (attach_one now a existing) db ns = Inr db' \<and> carries db' = carries db \<and>
      asset_rows db' = asset_rows db \<and> length (identifier_rows db') = length (identifier_rows db)"
    if "\<forall>n \<in> set ns. \<exists>r \<in> set existing. same_identifier n r" for existing
    using that
  proof (induction ns arbitrary: db)
    case (Cons n ns)
    then obtain r where "find (same_identifier n) existing = Some r"
      by (cases "find (same_identifier n) existing") (auto simp: find_None_iff)
    then have "attach_one now a existing db n = Inr (touch_identifier now r db)" by (simp add: attach_one_def)
    with Cons.IH [of "touch_identifier now r db"] Cons.prems show ?case by simp
  qed simp
  moreover have "\<exists>r \<in> set (filter (\<lambda>r. ci_asset r = a \<and> ci_live r) (identifier_rows db)). same_identifier n r"
    if "n \<in> set ns" for n
    using assms that by (force simp: carries_iff same_identifier_def ikey_def nkey_def)
  ultimately show ?thesis unfolding attach_missing_def by blast
qed

text \<open>
  A collector that reports the same identifiers again gets the same asset and adds nothing,
  provided one of them is in a unique namespace.
\<close>

theorem resolve_again_matches:
  assumes ok: "identifiers_ok db" and run: "resolve now kind name presented create db = Inr (res, db')"
    and "normalise_all presented = Inr ns" and "unique_keys ns \<noteq> {}"
  shows "\<exists>on db''. resolve later kind' name' presented create' db' = Inr (MATCHED (resolved res) on, db'') \<and>
    carries db'' = carries db' \<and> length (asset_rows db'') = length (asset_rows db') \<and>
    length (identifier_rows db'') = length (identifier_rows db')"
proof -
  let ?a = "resolved res"
  from resolve_contract [OF ok run] assms(3) have ok': "identifiers_ok db'"
    and carries: "carries db' = carries db \<union> {?a} \<times> set (map nkey ns)"
    and before: "claimants (unique_keys ns) db \<subseteq> {?a}"
    by (auto simp: resolved_def split: resolution.splits)
  have sub: "unique_keys ns \<subseteq> set (map nkey ns)" by (auto simp: unique_keys_def)
  then have "claimants (unique_keys ns) db' = {?a}"
    using carries before assms(4) by (auto simp: claimants_def)
  then obtain on where match: "find_matches ns db' = [(?a, on)]" using one_match_iff by blast
  obtain k where "(?a, k) \<in> carries db'" using sub assms(4) carries by blast
  then have "find_asset ?a db' \<noteq> None" by (rule carrier_exists [OF ok'])
  then obtain x where asset: "find_asset ?a db' = Some x" by blast
  have "\<forall>n \<in> set ns. (?a, nkey n) \<in> carries (seen_now ?a later db')" using carries by simp
  from attach_missing_again [OF this] obtain db'' where
    "attach_missing later ?a ns (seen_now ?a later db') = Inr db''" "carries db'' = carries db'"
    "asset_rows db'' = asset_rows (seen_now ?a later db')" "length (identifier_rows db'') = length (identifier_rows db')"
    by auto
  moreover have "length (asset_rows (seen_now ?a later db')) = length (asset_rows db')" by (simp add: seen_now_def)
  ultimately show ?thesis
    using assms(3) match asset by (intro exI [of _ "sort on"] exI [of _ db'']) (simp add: resolve_def)
qed

text \<open>
  Identifiers none of which is in a unique namespace match nothing: the same report twice makes
  two assets.
\<close>

theorem hints_alone_create_twice:
  assumes ok: "identifiers_ok db" and run: "resolve now kind name presented create db = Inr (res, db')"
    and "normalise_all presented = Inr ns" and "unique_keys ns = {}"
    and again: "resolve later kind name presented create db' = Inr (res', db'')"
  shows "\<exists>a b. res = RESOLVED_NEW a \<and> res' = RESOLVED_NEW b \<and> a \<noteq> b \<and> find_asset a db'' \<noteq> None \<and> find_asset b db'' \<noteq> None \<and>
    carries db'' = carries db \<union> {a, b} \<times> set (map nkey ns)"
proof -
  note first = resolve_contract [OF ok run]
  then have ok': "identifiers_ok db'" by blast
  have none: "claimants (unique_keys ns) d = {}" for d by (simp add: assms(4) claimants_def)
  from first assms(3) none obtain a where a: "res = RESOLVED_NEW a" "map ca_id (asset_rows db') = map ca_id (asset_rows db) @ [a]"
    "carries db' = carries db \<union> {a} \<times> set (map nkey ns)"
    by (cases res) (auto simp: resolved_def)
  from resolve_contract [OF ok' again] assms(3) none obtain b where b: "res' = RESOLVED_NEW b"
    "map ca_id (asset_rows db'') = map ca_id (asset_rows db') @ [b]"
    "carries db'' = carries db' \<union> {b} \<times> set (map nkey ns)" "identifiers_ok db''"
    by (cases res') (auto simp: resolved_def)
  have "distinct (map ca_id (asset_rows db) @ [a] @ [b])"
    using identifiers_okD(1) [OF b(4)] a(2) b(2) by simp
  then have "a \<noteq> b" by simp
  moreover have "{a, b} \<subseteq> ca_id ` set (asset_rows db'')"
    unfolding list.set_map [symmetric] b(2) a(2) by simp
  then have "find_asset a db'' \<noteq> None" "find_asset b db'' \<noteq> None"
    unfolding find_asset_def find_row_None by blast+
  moreover have "carries db'' = carries db \<union> {a, b} \<times> set (map nkey ns)" unfolding a(3) b(3) by blast
  ultimately show ?thesis using a(1) b(1) by blast
qed

end
