(* ===== verification/Fact_History.thy ===== *)
theory Fact_History
  imports Facts
begin

text \<open>
  What the fact service keeps.  The table invariant \<open>facts_ok\<close> holds after every operation; the
  table as a whole is one timeline per lineage, on which asserting a value is a single assignment
  from now on; authority always rests on an attestation.
\<close>

section \<open>The invariant\<close>

definition compatible :: "fact \<Rightarrow> fact \<Rightarrow> bool" where
  "compatible g f \<longleftrightarrow> c_id g = c_id f \<or>
     (fact_key g = fact_key f \<longrightarrow> \<not> overlaps g f \<and> \<not> (live g \<and> live f)) \<and>
     \<not> (holds_authority g \<and> holds_authority f \<and> authority_key g = authority_key f)"

definition fact_row_ok :: "fact \<Rightarrow> bool" where
  "fact_row_ok f \<longleftrightarrow> (\<forall>c \<in> set (fact_row_checks f). snd c) \<and>
     c_class f = statement_class_for (c_source_type f)"

definition facts_ok :: "cmdb \<Rightarrow> bool" where
  "facts_ok db \<longleftrightarrow> distinct (map c_id (fact_rows db)) \<and>
     (\<forall>f \<in> set (fact_rows db). c_id f < fresh_id db \<and> fact_row_ok f) \<and>
     (\<forall>g \<in> set (fact_rows db). \<forall>f \<in> set (fact_rows db). compatible g f)"

lemma compatible_sym: "compatible g f \<Longrightarrow> compatible f g"
  by (auto simp: compatible_def overlaps_def)

lemma compatible_same: "c_id g = c_id f \<Longrightarrow> compatible g f"
  by (simp add: compatible_def)

lemma fact_table_checks_iff:
  "(\<forall>c \<in> set (fact_table_checks rows f). snd c) \<longleftrightarrow> (\<forall>g \<in> set rows. compatible g f)"
  by (auto simp: fact_table_checks_def list_all_iff compatible_def)

lemma compatible_no_overlap:
  assumes "\<forall>a \<in> set rows. \<forall>b \<in> set rows. compatible a b"
  shows "no_overlap fact_key rows"
  unfolding no_overlap_def list_all_iff using assms unfolding compatible_def by blast

lemma facts_okD:
  assumes "facts_ok db"
  shows "distinct (map c_id (fact_rows db))"
    and "f \<in> set (fact_rows db) \<Longrightarrow> c_id f < fresh_id db"
    and "f \<in> set (fact_rows db) \<Longrightarrow> fact_row_ok f"
    and "g \<in> set (fact_rows db) \<Longrightarrow> f \<in> set (fact_rows db) \<Longrightarrow> compatible g f"
  using assms by (auto simp: facts_ok_def)

lemma facts_no_overlap:
  assumes "facts_ok db"
  shows "no_overlap fact_key (fact_rows db)"
  using facts_okD(4) [OF assms] by (intro compatible_no_overlap) blast

lemma fresh_fact:
  assumes "facts_ok db"
  shows "fresh_id db \<notin> c_id ` set (fact_rows db)"
  using facts_okD(2) [OF assms] by force

lemma update_fact_shape:
  assumes "update_fact f r db = Inr (g, db')"
  shows "g = f r" and "db' = db\<lparr>fact_rows := upd_rows (\<lambda>h. c_id h = c_id r) f (fact_rows db)\<rparr>"
    and "\<forall>c \<in> set (fact_row_checks (f r)). snd c" and "\<forall>h \<in> set (fact_rows db). compatible h (f r)"
  using assms fact_table_checks_iff
  by (auto simp: update_fact_def andThen_eq_Inr enforce_Inr fact_checks_def ball_Un)

lemma update_fact_runs:
  assumes "fact_row_ok (f r)" and "\<forall>h \<in> set (fact_rows db). compatible h (f r)"
    and "\<forall>c \<in> set (fact_fk_checks db (f r)). snd c"
  shows "update_fact f r db =
    Inr (f r, db\<lparr>fact_rows := upd_rows (\<lambda>h. c_id h = c_id r) f (fact_rows db)\<rparr>)"
proof -
  have "enforce (fact_checks db (f r)) = Inr ()"
    using assms fact_table_checks_iff by (auto simp: enforce_Inr fact_checks_def fact_row_ok_def ball_Un)
  then show ?thesis by (simp add: update_fact_def)
qed

lemma insert_fact_shape:
  assumes "insert_fact mk db = Inr (f, db')"
  shows "f = mk (fresh_id db)" and "db' = db\<lparr>fact_rows := fact_rows db @ [f], fresh_id := Suc (fresh_id db)\<rparr>"
    and "\<forall>c \<in> set (fact_row_checks f). snd c" and "\<forall>h \<in> set (fact_rows db). compatible h f"
  using assms fact_table_checks_iff
  by (auto simp: insert_fact_def Let_def andThen_eq_Inr enforce_Inr fact_checks_def ball_Un)

lemma update_fact_ok:
  assumes "facts_ok db" and "r \<in> set (fact_rows db)" and run: "update_fact f r db = Inr (g, db')"
    and "c_id (f r) = c_id r" and "c_class (f r) = c_class r" and "c_source_type (f r) = c_source_type r"
  shows "facts_ok db'"
proof -
  note shape = update_fact_shape [OF run] and ok = facts_okD [OF assms(1)]
  have ids: "c_id (if c_id h = c_id r then f h else h) = c_id h" if "h \<in> set (fact_rows db)" for h
    using that assms(2,4) ok(1) by (auto simp: distinct_map inj_on_def)
  have "map c_id (upd_rows (\<lambda>h. c_id h = c_id r) f (fact_rows db)) = map c_id (fact_rows db)"
    using ids by (simp add: upd_rows_def)
  moreover have "fact_row_ok (f r)"
    using shape(3) ok(3) [OF assms(2)] assms(5,6) by (simp add: fact_row_ok_def)
  moreover have "\<forall>a \<in> set (fact_rows db'). \<forall>b \<in> set (fact_rows db'). compatible a b"
    using pairwise_update [of compatible "fact_rows db" r f, OF compatible_sym compatible_same ok(1) assms(2,4)]
      ok(4) shape(2,4) by simp
  ultimately show ?thesis
    using ok(1-3) shape(2) assms(2,4) by (auto simp: facts_ok_def upd_row_set)
qed

lemma insert_fact_ok:
  assumes "facts_ok db" and run: "insert_fact mk db = Inr (f, db')"
    and "\<And>i. c_id (mk i) = i" and "\<And>i. c_class (mk i) = statement_class_for (c_source_type (mk i))"
  shows "facts_ok db'"
proof -
  note shape = insert_fact_shape [OF run] and ok = facts_okD [OF assms(1)]
  have "fact_row_ok f" using shape(1,3) assms(4) by (simp add: fact_row_ok_def)
  moreover have "c_id f = fresh_id db" using shape(1) assms(3) by simp
  moreover have "\<forall>a \<in> set (fact_rows db'). \<forall>b \<in> set (fact_rows db'). compatible a b"
    using pairwise_insert [of compatible "fact_rows db" f, OF compatible_sym compatible_same]
      ok(4) shape(2,4) by simp
  ultimately show ?thesis
    using ok(1-3) shape(2) fresh_fact [OF assms(1)] by (auto simp: facts_ok_def less_Suc_eq)
qed

lemma live_claim_SomeD:
  assumes "live_claim a p k s db = Some f"
  shows "f \<in> set (fact_rows db)" "live f" "fact_key f = (a, p, k, s)"
  using assms by (auto simp: live_claim_def find_Some_iff fact_key_def)

lemma live_claim_unique:
  assumes "facts_ok db" and "f \<in> set (fact_rows db)" and "live f"
  shows "live_claim (f_asset f) (f_predicate f) (f_kind f) (c_source_id f) db = Some f"
proof (cases "live_claim (f_asset f) (f_predicate f) (f_kind f) (c_source_id f) db")
  case None
  with assms show ?thesis by (auto simp: live_claim_def find_None_iff)
next
  case (Some g)
  note live_claim_SomeD [OF Some]
  moreover then have "compatible g f" using facts_okD(4) [OF assms(1)] assms(2) by blast
  ultimately have "c_id g = c_id f" using assms(3) by (auto simp: compatible_def fact_key_def)
  then have "g = f"
    using facts_okD(1) [OF assms(1)] \<open>g \<in> set (fact_rows db)\<close> assms(2) by (auto simp: distinct_map inj_on_def)
  with Some show ?thesis by simp
qed

section \<open>The timeline of facts\<close>

interpretation fact_lineage: lineage fact_key f_value
  by unfold_locales (simp_all add: fact_key_def)

definition fact_timeline :: "cmdb \<Rightarrow> fact_key \<Rightarrow> int \<Rightarrow> value_columns option" where
  "fact_timeline db = timeline fact_key f_value (fact_rows db)"

lemma timeline_inserted:
  assumes "facts_ok db" and run: "insert_fact mk db = Inr (f, db')"
    and "\<And>i. c_id (mk i) = i" and "\<And>i. live (mk i)"
  shows "fact_timeline db' = assign_from (fact_timeline db) (fact_key f) (c_from f) (f_value f)"
proof -
  note shape = insert_fact_shape [OF run] and ok = facts_okD [OF assms(1)]
  have "live f" "c_id f = fresh_id db" using shape(1) assms(3,4) by simp_all
  moreover then have "c_id f \<notin> c_id ` set (fact_rows db)" using ok(2) by force
  moreover have "no_overlap fact_key (fact_rows db @ [f])"
    using pairwise_insert [of compatible "fact_rows db" f, OF compatible_sym compatible_same]
      ok(4) shape(4) by (intro compatible_no_overlap) blast
  ultimately show ?thesis
    using fact_lineage.timeline_insert [of "fact_rows db" f]
    by (simp add: fact_timeline_def shape(2) fun_eq_iff assign_from_def)
qed

lemma timeline_closed:
  assumes "facts_ok db" and "r \<in> set (fact_rows db)" and "live r"
    and run: "update_fact (close_claim now) r db = Inr (g, db')"
  shows "fact_timeline db' k t =
    (if k = fact_key r \<and> now \<le> t then None else fact_timeline db k t)"
proof -
  note shape = update_fact_shape [OF run] and ok = facts_okD [OF assms(1)]
  have "c_from r \<le> now"
    using shape(3) by (simp add: close_claim_def fact_row_checks_def provenance_checks_def)
  have only: "p \<in> set (fact_rows db) \<Longrightarrow> c_id p = c_id r \<longleftrightarrow> p = r" for p
    using ok(1) assms(2) by (auto simp: distinct_map inj_on_def)
  have "\<forall>p \<in> set (fact_rows db). c_id p = c_id r \<longrightarrow> live p" using only assms(3) by blast
  moreover have "fact_rows db' = close_rows (\<lambda>h. c_id h = c_id r) now (fact_rows db)"
    by (simp add: shape(2) close_rows_def close_claim_def upd_rows_def)
  ultimately show ?thesis
    using fact_lineage.timeline_close [OF ok(1) facts_no_overlap [OF assms(1)], of "\<lambda>h. c_id h = c_id r" now k t]
      only assms(2) \<open>c_from r \<le> now\<close>
    by (auto simp: fact_timeline_def)
qed

lemma timeline_frame:
  assumes run: "update_fact f r db = Inr (g, db')"
    and "\<And>r. fact_key (f r) = fact_key r" "\<And>r. f_value (f r) = f_value r" "\<And>r. c_from (f r) = c_from r"
    and "\<And>r. c_to (f r) = c_to r"
  shows "fact_timeline db' = fact_timeline db"
  using fact_lineage.timeline_touch [of f] assms(2-) update_fact_shape(2) [OF run]
  by (simp add: fact_timeline_def)

section \<open>Replacing the live claim of a lineage\<close>

lemma facts_ok_cong: "fact_rows db' = fact_rows db \<Longrightarrow> fresh_id db \<le> fresh_id db' \<Longrightarrow> facts_ok db \<Longrightarrow> facts_ok db'"
  by (auto simp: facts_ok_def)

lemma fact_timeline_cong: "fact_rows db' = fact_rows db \<Longrightarrow> fact_timeline db' = fact_timeline db"
  by (simp add: fact_timeline_def)

lemma claim_writes [simp]:
  "c_id (touch now n f) = c_id f" "c_class (touch now n f) = c_class f"
  "c_source_type (touch now n f) = c_source_type f" "fact_key (touch now n f) = fact_key f"
  "f_value (touch now n f) = f_value f" "c_from (touch now n f) = c_from f" "c_to (touch now n f) = c_to f"
  "c_status (touch now n f) = c_status f" "f_unit (touch now n f) = f_unit f"
  "c_id (close_claim now f) = c_id f" "c_class (close_claim now f) = c_class f"
  "c_source_type (close_claim now f) = c_source_type f" "fact_key (close_claim now f) = fact_key f"
  "f_value (close_claim now f) = f_value f" "c_status (close_claim now f) = c_status f"
  by (simp_all add: touch_def close_claim_def fact_key_def)

lemma close_if_live_cases:
  assumes "close_if_live now old db = Inr (prior, db1)"
  obtains (none) "old = None" "prior = None" "db1 = db"
  | (closed) f g where "old = Some f" "prior = Some (c_id f)" "update_fact (close_claim now) f db = Inr (g, db1)"
  using assms by (cases old) (auto simp: close_if_live_def andThen_eq_Inr)

text \<open>Closing the live claim of a lineage, if there is one, and inserting its successor.\<close>

lemma replace_claim:
  assumes ok: "facts_ok db"
    and close: "close_if_live now (live_claim a p k s db) db = Inr (prior, db1)"
    and ins: "insert_fact mk db1 = Inr (f, db2)"
    and mk: "\<And>i. c_id (mk i) = i" "\<And>i. c_class (mk i) = statement_class_for (c_source_type (mk i))"
      "\<And>i. live (mk i)" "\<And>i. c_from (mk i) = now" "\<And>i. fact_key (mk i) = (a, p, k, s)"
  shows "facts_ok db2" and "fact_timeline db2 = assign_from (fact_timeline db) (a, p, k, s) now (f_value f)"
proof -
  have f: "f = mk (fresh_id db1)" by (rule insert_fact_shape(1) [OF ins])
  have "facts_ok db1 \<and> (\<forall>j t. fact_timeline db1 j t =
      (if now \<le> t \<and> j = (a, p, k, s) \<and> live_claim a p k s db \<noteq> None then None else fact_timeline db j t))"
    using close
  proof (cases rule: close_if_live_cases)
    case none
    with ok show ?thesis by simp
  next
    case (closed old g)
    note old = live_claim_SomeD [OF closed(1)]
    have "facts_ok db1" by (rule update_fact_ok [OF ok old(1) closed(3)]) simp_all
    with timeline_closed [OF ok old(1,2) closed(3)] closed(1) old(3) show ?thesis by auto
  qed
  then have ok1: "facts_ok db1" and cut: "fact_timeline db1 j t =
      (if now \<le> t \<and> j = (a, p, k, s) \<and> live_claim a p k s db \<noteq> None then None else fact_timeline db j t)" for j t
    by blast+
  show "facts_ok db2" by (rule insert_fact_ok [OF ok1 ins mk(1,2)])
  have "fact_timeline db2 = assign_from (fact_timeline db1) (fact_key f) (c_from f) (f_value f)"
    by (rule timeline_inserted [OF ok1 ins mk(1,3)])
  then show "fact_timeline db2 = assign_from (fact_timeline db) (a, p, k, s) now (f_value f)"
    by (auto simp: f mk assign_from_def fun_eq_iff cut)
qed

section \<open>Asserting\<close>

lemma seen_now_facts [simp]:
  "fact_rows (seen_now i now db) = fact_rows db" "attestation_rows (seen_now i now db) = attestation_rows db"
  "fresh_id (seen_now i now db) = fresh_id db" "edge_rows (seen_now i now db) = edge_rows db"
  by (simp_all add: seen_now_def)

lemma assert_fact_cases:
  assumes "assert_fact now asset p db = Inr ((oc, f, prior, keys), db')"
  obtains
    (created) clean columns db1 where
      "screen (fa_predicate p) (tv_text (fa_value p)) (tv_json (fa_value p)) = Inr (clean, keys)"
      "value_columns_of (fa_value p) clean = Inr columns"
      "live_claim asset (fa_predicate p) (fa_kind p) (fa_source_id p) db = None"
      "insert_fact (asserted_fact now asset p columns None) db = Inr (f, db1)"
      "db' = seen_now asset now db1" "oc = CREATED" "prior = None"
  | (touched) clean columns old where
      "screen (fa_predicate p) (tv_text (fa_value p)) (tv_json (fa_value p)) = Inr (clean, keys)"
      "value_columns_of (fa_value p) clean = Inr columns"
      "live_claim asset (fa_predicate p) (fa_kind p) (fa_source_id p) db = Some old"
      "values_equal (f_value old) columns"
      "update_fact (touch now (fa_confidence p)) old db = Inr (f, db')" "oc = TOUCHED" "prior = None"
  | (superseded) clean columns old closed db1 db2 where
      "screen (fa_predicate p) (tv_text (fa_value p)) (tv_json (fa_value p)) = Inr (clean, keys)"
      "value_columns_of (fa_value p) clean = Inr columns"
      "live_claim asset (fa_predicate p) (fa_kind p) (fa_source_id p) db = Some old"
      "\<not> values_equal (f_value old) columns"
      "update_fact (close_claim now) old db = Inr (closed, db1)"
      "insert_fact (asserted_fact now asset p columns (Some (c_id old))) db1 = Inr (f, db2)"
      "db' = seen_now asset now db2" "oc = SUPERSEDED" "prior = Some (c_id old)"
proof -
  from assms obtain clean ks columns where
    scr: "screen (fa_predicate p) (tv_text (fa_value p)) (tv_json (fa_value p)) = Inr (clean, ks)"
    and cols: "value_columns_of (fa_value p) clean = Inr columns"
    by (auto simp: assert_fact_def andThen_eq_Inr split: option.splits)
  show thesis
  proof (cases "live_claim asset (fa_predicate p) (fa_kind p) (fa_source_id p) db")
    case None
    with assms scr cols obtain db1 where
      "insert_fact (asserted_fact now asset p columns None) db = Inr (f, db1)"
      "db' = seen_now asset now db1" "oc = CREATED" "prior = None" "ks = keys"
      by (auto simp: assert_fact_def andThen_eq_Inr split: option.splits)
    with None scr cols show thesis by (intro created) auto
  next
    case (Some old)
    show thesis
    proof (cases "values_equal (f_value old) columns")
      case True
      with Some assms scr cols show thesis
        by (intro touched) (auto simp: assert_fact_def andThen_eq_Inr split: option.splits)
    next
      case False
      with Some assms scr cols obtain closed db1 db2 where
        "update_fact (close_claim now) old db = Inr (closed, db1)"
        "insert_fact (asserted_fact now asset p columns (Some (c_id old))) db1 = Inr (f, db2)"
        "db' = seen_now asset now db2" "oc = SUPERSEDED" "prior = Some (c_id old)" "ks = keys"
        by (auto simp: assert_fact_def andThen_eq_Inr split: option.splits)
      with Some False scr cols show thesis by (intro superseded) auto
    qed
  qed
qed

lemma asserted_fact_simps [simp]:
  "c_id (asserted_fact now a p v s i) = i"
  "c_class (asserted_fact now a p v s i) = statement_class_for (c_source_type (asserted_fact now a p v s i))"
  "live (asserted_fact now a p v s i)" "c_from (asserted_fact now a p v s i) = now"
  "f_value (asserted_fact now a p v s i) = v" "\<not> is_authoritative (c_status (asserted_fact now a p v s i))"
  "fact_key (asserted_fact now a p v s i) = (a, fa_predicate p, fa_kind p, fa_source_id p)"
  by (simp_all add: asserted_fact_def fact_key_def live_def)

lemma assert_replaces:
  assumes ok: "facts_ok db" and "assert_fact now asset p db = Inr ((oc, f, prior, keys), db')"
  shows "facts_ok db' \<and> fact_timeline db' =
    (if oc = TOUCHED then fact_timeline db
     else assign_from (fact_timeline db) (asset, fa_predicate p, fa_kind p, fa_source_id p) now (f_value f))"
  using assms(2)
proof (cases rule: assert_fact_cases)
  case (created clean columns db1)
  have "close_if_live now (live_claim asset (fa_predicate p) (fa_kind p) (fa_source_id p) db) db = Inr (None, db)"
    by (simp add: close_if_live_def created(3))
  note replace_claim [OF ok this created(4)]
  then have "facts_ok db1" "fact_timeline db1 =
      assign_from (fact_timeline db) (asset, fa_predicate p, fa_kind p, fa_source_id p) now (f_value f)"
    by simp_all
  then show ?thesis
    using facts_ok_cong [of db' db1] by (simp add: created(5,6) fact_timeline_def)
next
  case (touched clean columns old)
  have "facts_ok db'"
    by (rule update_fact_ok [OF ok live_claim_SomeD(1) [OF touched(3)] touched(5)]) simp_all
  moreover have "fact_timeline db' = fact_timeline db" by (rule timeline_frame [OF touched(5)]) simp_all
  ultimately show ?thesis by (simp add: touched(6))
next
  case (superseded clean columns old closed db1 db2)
  have "close_if_live now (live_claim asset (fa_predicate p) (fa_kind p) (fa_source_id p) db) db =
      Inr (Some (c_id old), db1)"
    by (simp add: close_if_live_def superseded(3,5))
  note replace_claim [OF ok this superseded(6)]
  then have "facts_ok db2" "fact_timeline db2 =
      assign_from (fact_timeline db) (asset, fa_predicate p, fa_kind p, fa_source_id p) now (f_value f)"
    by simp_all
  then show ?thesis
    using facts_ok_cong [of db' db2] by (simp add: superseded(7,8) fact_timeline_def)
qed

lemma assert_fact_ok:
  assumes "facts_ok db" and "assert_fact now asset p db = Inr ((oc, f, prior, keys), db')"
  shows "facts_ok db'"
  using assert_replaces [OF assms] ..

text \<open>\<open>values_equal\<close> is reflexive on what \<open>value_columns_of\<close> builds.\<close>

lemma same_json_refl: "same_json v v"
  by (induction v rule: json.induct) (auto simp: list_all2_same)

lemma values_equal_refl: "values_equal v v"
  by (auto simp: values_equal_def opt_eq_def decimal_eq_def py_eq_def same_json_refl
      split: value_type.splits option.splits)

text \<open>
  \<open>says v w clean\<close>: the stored value \<open>v\<close> says what a request with the value \<open>w\<close> asserts, whose JSON document,
  if it has one, is \<open>clean\<close> once secrets are screened out.  Numbers count by their value,
  \<open>m / 10 ^ s\<close>, and documents by Python's equality of dictionaries.
\<close>

definition says :: "value_columns \<Rightarrow> typed_value \<Rightarrow> jobj option \<Rightarrow> bool" where
  "says v w clean \<longleftrightarrow> v_type v = tv_type w \<and> (case tv_type w of
     VT_TEXT \<Rightarrow> v_text v = tv_text w
   | VT_NUMBER \<Rightarrow> (\<exists>m s. v_number v = Some (m, s) \<and>
       (\<exists>i. tv_number w = Some (Whole i) \<and> m = i * 10 ^ s \<or>
        (\<exists>n t. tv_number w = Some (Decimal n t) \<and> m * 10 ^ t = n * 10 ^ s)))
   | VT_BOOL \<Rightarrow> v_bool v = tv_bool w
   | VT_TIMESTAMP \<Rightarrow> v_timestamp v = tv_timestamp w
   | VT_JSON \<Rightarrow> v_json v = None \<and> clean = None \<or>
       (\<exists>a b. v_json v = Some a \<and> clean = Some b \<and> py_eq (JObj a) (JObj b))
   | VT_ASSET_REF \<Rightarrow> v_asset v = tv_asset w)"

lemma says_iff_equal:
  assumes "value_columns_of w clean = Inr columns"
  shows "says v w clean \<longleftrightarrow> values_equal v columns"
proof (cases "tv_type w")
  case VT_NUMBER
  with assms obtain x where "tv_number w = Some x" "columns = (no_columns VT_NUMBER)\<lparr>v_number := Some (to_decimal x)\<rparr>"
    by (auto simp: value_columns_of_def Let_def split: option.splits)
  with VT_NUMBER show ?thesis
    by (cases x; cases "v_number v")
      (auto simp: says_def values_equal_def no_columns_def opt_eq_def decimal_eq_def to_decimal_def)
qed (use assms in \<open>auto simp: value_columns_of_def says_def values_equal_def no_columns_def opt_eq_def Let_def
    split: option.splits\<close>)

text \<open>
  C21. The fact table refines a timeline per lineage.  Where the live claim of a lineage already says what is
  asserted, the assertion adds no row and changes no value at any instant; otherwise it is a single
  assignment from now on of a value that says it.  In particular what the table says about the past is
  never rewritten.
\<close>

theorem assert_refines_assignment:
  assumes "facts_ok db" and "assert_fact now asset p db = Inr ((oc, f, prior, keys), db')"
  shows "\<exists>clean. screen (fa_predicate p) (tv_text (fa_value p)) (tv_json (fa_value p)) = Inr (clean, keys) \<and>
    says (f_value f) (fa_value p) clean \<and>
    (if \<exists>g \<in> set (fact_rows db). live g \<and> says (f_value g) (fa_value p) clean \<and>
        (f_asset g, f_predicate g, f_kind g, c_source_id g) = (asset, fa_predicate p, fa_kind p, fa_source_id p)
     then oc = TOUCHED \<and> fact_timeline db' = fact_timeline db \<and> map c_id (fact_rows db') = map c_id (fact_rows db)
     else oc \<noteq> TOUCHED \<and> fact_timeline db' =
       assign_from (fact_timeline db) (asset, fa_predicate p, fa_kind p, fa_source_id p) now (f_value f))"
proof -
  let ?key = "(asset, fa_predicate p, fa_kind p, fa_source_id p)"
  let ?scr = "screen (fa_predicate p) (tv_text (fa_value p)) (tv_json (fa_value p))"
  let ?live = "live_claim asset (fa_predicate p) (fa_kind p) (fa_source_id p) db"
  note replaced = assert_replaces [OF assms, THEN conjunct2]
  have found: "?live = Some g" if "g \<in> set (fact_rows db)" "live g"
    "(f_asset g, f_predicate g, f_kind g, c_source_id g) = ?key" for g
    using live_claim_unique [OF assms(1) that(1,2)] that(3) by simp
  from assms(2) show ?thesis
  proof (cases rule: assert_fact_cases)
    case (created clean columns db1)
    have "f_value f = columns" using insert_fact_shape(1) [OF created(4)] by simp
    moreover have "\<not> (\<exists>g \<in> set (fact_rows db). live g \<and> says (f_value g) (fa_value p) clean \<and>
        (f_asset g, f_predicate g, f_kind g, c_source_id g) = ?key)"
      using found created(3) by fastforce
    ultimately show ?thesis
      using replaced created(1,6) says_iff_equal [OF created(2)] values_equal_refl by (intro exI [of _ clean]) auto
  next
    case (touched clean columns old)
    note old = live_claim_SomeD [OF touched(3)] and shape = update_fact_shape [OF touched(5)]
    have says: "says (f_value old) (fa_value p) clean" using says_iff_equal [OF touched(2)] touched(4) by simp
    have "map c_id (fact_rows db') = map c_id (fact_rows db)" unfolding shape(2) by (simp add: upd_rows_def)
    then show ?thesis
      using replaced touched(1,6) shape(1) says old by (intro exI [of _ clean]) (auto simp: fact_key_def)
  next
    case (superseded clean columns old closed db1 db2)
    have "f_value f = columns" using insert_fact_shape(1) [OF superseded(6)] by simp
    moreover have "\<not> says (f_value old) (fa_value p) clean"
      using says_iff_equal [OF superseded(2)] superseded(4) by simp
    then have "\<not> (\<exists>g \<in> set (fact_rows db). live g \<and> says (f_value g) (fa_value p) clean \<and>
        (f_asset g, f_predicate g, f_kind g, c_source_id g) = ?key)"
      using found superseded(3) by fastforce
    ultimately show ?thesis
      using replaced superseded(1,8) says_iff_equal [OF superseded(2)] values_equal_refl by (intro exI [of _ clean]) auto
  qed
qed

lemma find_asset_seen [simp]: "find_asset i (seen_now a now db) = None \<longleftrightarrow> find_asset i db = None"
  by (simp add: find_asset_def seen_now_def find_row_upd_rows)

lemma find_asset_writes [simp]:
  "find_asset i (db\<lparr>fact_rows := rows\<rparr>) = find_asset i db" "find_asset i (db\<lparr>fresh_id := n\<rparr>) = find_asset i db"
  by (simp_all add: find_asset_def)

lemma fact_fk_checks_mono:
  assumes "\<forall>c \<in> set (fact_fk_checks db f). snd c" and "set (map c_id (fact_rows db)) \<subseteq> set (map c_id (fact_rows db'))"
    and "\<And>i. find_asset i db' = None \<longleftrightarrow> find_asset i db = None"
  shows "\<forall>c \<in> set (fact_fk_checks db' f). snd c"
  using assms
  by (auto simp: fact_fk_checks_def find_row_None image_subset_iff simp del: not_None_eq split: option.splits)

lemma update_fact_fk: "update_fact g r db = Inr (f, db') \<Longrightarrow> \<forall>c \<in> set (fact_fk_checks db f). snd c"
  by (auto simp: update_fact_def andThen_eq_Inr enforce_Inr fact_checks_def ball_Un)

lemma insert_fact_fk: "insert_fact mk db = Inr (f, db') \<Longrightarrow> \<forall>c \<in> set (fact_fk_checks db f). snd c"
  by (auto simp: insert_fact_def Let_def andThen_eq_Inr enforce_Inr fact_checks_def ball_Un)

lemma assert_fact_asset: "assert_fact now asset p db = Inr out \<Longrightarrow> find_asset asset db \<noteq> None"
  by (auto simp: assert_fact_def split: option.splits)

text \<open>The row an assertion leaves behind.\<close>

lemma asserted_row:
  assumes ok: "facts_ok db" and run: "assert_fact now asset p db = Inr ((oc, f, prior, keys), db')"
  obtains clean columns where
    "screen (fa_predicate p) (tv_text (fa_value p)) (tv_json (fa_value p)) = Inr (clean, keys)"
    "value_columns_of (fa_value p) clean = Inr columns" "f \<in> set (fact_rows db')" "live f"
    "fact_key f = (asset, fa_predicate p, fa_kind p, fa_source_id p)" "values_equal (f_value f) columns"
    "c_confidence f = fa_confidence p" "\<forall>c \<in> set (fact_fk_checks db' f). snd c"
    "find_asset asset db' \<noteq> None"
  using run
proof (cases rule: assert_fact_cases)
  case (created clean columns db1)
  note shape = insert_fact_shape [OF created(4)]
  have "\<forall>c \<in> set (fact_fk_checks db' f). snd c"
    by (rule fact_fk_checks_mono [OF insert_fact_fk [OF created(4)]]) (auto simp: created(5) shape(2))
  with that [OF created(1,2)] shape assert_fact_asset [OF run] show ?thesis
    by (auto simp: created(5) values_equal_refl asserted_fact_def fact_key_def live_def)
next
  case (touched clean columns old)
  note shape = update_fact_shape [OF touched(5)] and old = live_claim_SomeD [OF touched(3)]
  have "map c_id (fact_rows db') = map c_id (fact_rows db)"
    unfolding shape(2) by (simp add: upd_rows_def)
  then have "\<forall>c \<in> set (fact_fk_checks db' f). snd c"
    by (intro fact_fk_checks_mono [OF update_fact_fk [OF touched(5)]]) (simp_all add: shape(2))
  moreover have "f \<in> set (fact_rows db')"
    using upd_row_set [OF facts_okD(1) [OF ok] old(1)] shape by simp
  ultimately show ?thesis
    using that [OF touched(1,2)] shape(1,2) old touched(4) assert_fact_asset [OF run]
    by (simp add: live_def) (simp add: touch_def)
next
  case (superseded clean columns old closed db1 db2)
  note shape = insert_fact_shape [OF superseded(6)] and first = update_fact_shape [OF superseded(5)]
  have "\<forall>c \<in> set (fact_fk_checks db' f). snd c"
    by (rule fact_fk_checks_mono [OF insert_fact_fk [OF superseded(6)]]) (auto simp: superseded(7) shape(2))
  with that [OF superseded(1,2)] shape assert_fact_asset [OF run] show ?thesis
    by (auto simp: superseded(7) first(2) values_equal_refl asserted_fact_def fact_key_def live_def)
qed

text \<open>
  Asserting the same claim again, at any later instant, succeeds, adds no row and changes no
  value: only \<open>last_seen_at\<close> moves.
\<close>

theorem assert_again_touches:
  assumes ok: "facts_ok db" and run: "assert_fact now asset p db = Inr ((oc, f, prior, keys), db')"
  shows "\<exists>db''. assert_fact later asset p db' =
      Inr ((TOUCHED, touch later (fa_confidence p) f, None, keys), db'') \<and>
    fact_timeline db'' = fact_timeline db' \<and> length (fact_rows db'') = length (fact_rows db')"
proof -
  note ok' = assert_fact_ok [OF ok run]
  from asserted_row [OF ok run] obtain clean columns where
    row: "screen (fa_predicate p) (tv_text (fa_value p)) (tv_json (fa_value p)) = Inr (clean, keys)"
    "value_columns_of (fa_value p) clean = Inr columns" "f \<in> set (fact_rows db')" "live f"
    "fact_key f = (asset, fa_predicate p, fa_kind p, fa_source_id p)" "values_equal (f_value f) columns"
    "c_confidence f = fa_confidence p" "\<forall>c \<in> set (fact_fk_checks db' f). snd c"
    "find_asset asset db' \<noteq> None" .
  have found: "live_claim asset (fa_predicate p) (fa_kind p) (fa_source_id p) db' = Some f"
    using live_claim_unique [OF ok' row(3,4)] row(5) by (simp add: fact_key_def)
  have same: "touch later (fa_confidence p) f = f\<lparr>c_last_seen := later\<rparr>"
    using row(7) by (simp add: touch_def)
  have "fact_row_ok (touch later (fa_confidence p) f)"
    using facts_okD(3) [OF ok' row(3)] unfolding same
    by (auto simp: fact_row_ok_def fact_row_checks_def provenance_checks_def inference_not_authoritative_def
        split: option.splits)
  moreover have "\<forall>h \<in> set (fact_rows db'). compatible h (touch later (fa_confidence p) f)"
    using facts_okD(4) [OF ok' _ row(3)] unfolding same
    by (auto simp: compatible_def overlaps_def before_end_def live_def holds_authority_def authority_key_def fact_key_def)
  moreover have "\<forall>c \<in> set (fact_fk_checks db' (touch later (fa_confidence p) f)). snd c"
    using row(8) unfolding same by (simp add: fact_fk_checks_def)
  ultimately have up: "update_fact (touch later (fa_confidence p)) f db' = Inr (touch later (fa_confidence p) f,
      db'\<lparr>fact_rows := upd_rows (\<lambda>h. c_id h = c_id f) (touch later (fa_confidence p)) (fact_rows db')\<rparr>)"
    (is "_ = Inr (_, ?db)") by (rule update_fact_runs)
  have "assert_fact later asset p db' = Inr ((TOUCHED, touch later (fa_confidence p) f, None, keys), ?db)"
    using row(1,2,6,9) found up by (auto simp: assert_fact_def)
  moreover have "fact_timeline ?db = fact_timeline db'" by (rule timeline_frame [OF up]) simp_all
  ultimately show ?thesis by auto
qed

end
