(* ===== verification/Fact_Trust.thy ===== *)
theory Fact_Trust
  imports Fact_History
begin

text \<open>
  Trust in facts: declared desired states, verification, approval and revocation, what authority
  rests on, and what the live claims of a predicate amount to.
\<close>

section \<open>Declaring a desired state\<close>

lemma create_desired_cases:
  assumes "create_desired now asset p who derived rid db = Inr (f, db')"
  obtains clean keys columns prior db1 db2 where
    "screen (dc_predicate p) (tv_text (dc_value p)) (tv_json (dc_value p)) = Inr (clean, keys)"
    "value_columns_of (dc_value p) clean = Inr columns"
    "close_if_live now (live_claim asset (dc_predicate p) DESIRED_STATE (p_subject who) db) db = Inr (prior, db1)"
    "insert_fact (desired_fact now asset p (p_subject who) columns prior derived) db1 = Inr (f, db2)"
    "db' = record_attestation now f APPROVE VS_UNVERIFIED VS_APPROVED who (dc_reason p) rid db2"
proof -
  from assms obtain clean keys columns prior db1 db2 where
    "screen (dc_predicate p) (tv_text (dc_value p)) (tv_json (dc_value p)) = Inr (clean, keys)"
    "value_columns_of (dc_value p) clean = Inr columns"
    "close_if_live now (live_claim asset (dc_predicate p) DESIRED_STATE (p_subject who) db) db = Inr (prior, db1)"
    "insert_fact (desired_fact now asset p (p_subject who) columns prior derived) db1 = Inr (f, db2)"
    "db' = record_attestation now f APPROVE VS_UNVERIFIED VS_APPROVED who (dc_reason p) rid db2"
    by (auto simp: create_desired_def andThen_eq_Inr split: option.splits)
  with that show thesis .
qed

lemma desired_fact_simps [simp]:
  "c_id (desired_fact now a p who v s d i) = i"
  "c_class (desired_fact now a p who v s d i) = statement_class_for (c_source_type (desired_fact now a p who v s d i))"
  "live (desired_fact now a p who v s d i)" "c_from (desired_fact now a p who v s d i) = now"
  "f_value (desired_fact now a p who v s d i) = v" "c_status (desired_fact now a p who v s d i) = VS_APPROVED"
  "c_approved_by (desired_fact now a p who v s d i) = Some who" "f_kind (desired_fact now a p who v s d i) = DESIRED_STATE"
  "fact_key (desired_fact now a p who v s d i) = (a, dc_predicate p, DESIRED_STATE, who)"
  "authority_key (desired_fact now a p who v s d i) = (a, dc_predicate p, DESIRED_STATE)"
  by (simp_all add: desired_fact_def fact_key_def authority_key_def live_def statement_class_for_def)

lemma record_attestation_simps [simp]:
  "fact_rows (record_attestation now f ac fr to who re rid db) = fact_rows db"
  "fresh_id (record_attestation now f ac fr to who re rid db) = Suc (fresh_id db)"
  "edge_rows (record_attestation now f ac fr to who re rid db) = edge_rows db"
  "asset_rows (record_attestation now f ac fr to who re rid db) = asset_rows db"
  by (simp_all add: record_attestation_def)

lemma create_desired_replaces:
  assumes ok: "facts_ok db" and run: "create_desired now asset p who derived rid db = Inr (f, db')"
  shows "facts_ok db' \<and> fact_timeline db' =
    assign_from (fact_timeline db) (asset, dc_predicate p, DESIRED_STATE, p_subject who) now (f_value f)"
  using run
proof (cases rule: create_desired_cases)
  case (1 clean keys columns prior db1 db2)
  note replace_claim [OF ok 1(3,4)]
  then have "facts_ok db2" "fact_timeline db2 =
      assign_from (fact_timeline db) (asset, dc_predicate p, DESIRED_STATE, p_subject who) now (f_value f)"
    by simp_all
  then show ?thesis
    using facts_ok_cong [of db' db2] by (simp_all add: 1(5) fact_timeline_def)
qed

section \<open>Transitions\<close>

lemma fact_transition_cases:
  assumes "fact_transition now i action who reason rid db = Inr (g, db')"
  obtains f to db1 where "find_row c_id i (fact_rows db) = Some f" "live f"
    "transition_target action f db = Inr to"
    "update_fact (retrust action (p_subject who) now to) f db = Inr (g, db1)"
    "db' = record_attestation now g action (c_status f) to who reason rid db1"
proof -
  from assms obtain f to db1 where "find_row c_id i (fact_rows db) = Some f" "live f"
    "transition_target action f db = Inr to"
    "update_fact (retrust action (p_subject who) now to) f db = Inr (g, db1)"
    "db' = record_attestation now f action (c_status f) to who reason rid db1" "c_id g = c_id f"
    by (auto simp: fact_transition_def andThen_eq_Inr update_fact_def retrust_def attribution_for_def
        split: option.splits attestation_action.splits)
  then show thesis using that by (simp add: record_attestation_def)
qed

lemma retrust_simps [simp]:
  "c_id (retrust ac who now to f) = c_id f" "c_class (retrust ac who now to f) = c_class f"
  "c_source_type (retrust ac who now to f) = c_source_type f" "fact_key (retrust ac who now to f) = fact_key f"
  "f_value (retrust ac who now to f) = f_value f" "c_from (retrust ac who now to f) = c_from f"
  "c_to (retrust ac who now to f) = c_to f" "c_status (retrust ac who now to f) = to"
  "f_kind (retrust ac who now to f) = f_kind f"
  by (auto simp: retrust_def attribution_for_def fact_key_def split: attestation_action.splits)

lemma transition_target_cases:
  assumes "transition_target action f db = Inr to"
  shows "(action = REVOKE \<and> is_authoritative (c_status f) \<and> to = default_status_for (c_source_type f)) \<or>
    (action \<noteq> REVOKE \<and> to = target_status action \<and> may_become_authoritative (c_class f) (c_source_type f))"
  using assms
  by (auto simp: transition_target_def andThen_eq_Inr guard_authoritative_transition_def split: if_splits)

lemma fact_transition_keeps:
  assumes ok: "facts_ok db" and run: "fact_transition now i action who reason rid db = Inr (g, db')"
  shows "facts_ok db' \<and> fact_timeline db' = fact_timeline db"
  using run
proof (cases rule: fact_transition_cases)
  case (1 f to db1)
  have "f \<in> set (fact_rows db)" using find_row_SomeD [OF 1(1)] by simp
  then have "facts_ok db1" by (rule update_fact_ok [OF ok _ 1(4)]) simp_all
  then have "facts_ok db'" by (rule facts_ok_cong [rotated 2]) (simp_all add: 1(5))
  moreover have "fact_timeline db1 = fact_timeline db" by (rule timeline_frame [OF 1(4)]) simp_all
  ultimately show ?thesis by (simp add: 1(5) fact_timeline_def)
qed

section \<open>What authority rests on\<close>

text \<open>An authoritative claim names its attestor, and the attestation is on record.\<close>

definition attests :: "fact \<Rightarrow> attestation \<Rightarrow> bool" where
  "attests f a \<longleftrightarrow> at_fact a = c_id f \<and> at_to a = c_status f \<and>
     (if c_status f = VS_VERIFIED
      then at_action a = VERIFY \<and> c_verified_by f = Some (af_subject (at_principal a))
      else at_action a = APPROVE \<and> c_approved_by f = Some (af_subject (at_principal a)))"

definition attested :: "cmdb \<Rightarrow> bool" where
  "attested db \<longleftrightarrow> (\<forall>f \<in> set (fact_rows db).
     is_authoritative (c_status f) \<longrightarrow> list_ex (attests f) (attestation_rows db))"

lemma attested_update:
  assumes "attested db" and "facts_ok db" and "r \<in> set (fact_rows db)"
    and run: "update_fact f r db = Inr (g, db1)" and "fact_rows db' = fact_rows db1"
    and more: "set (attestation_rows db) \<subseteq> set (attestation_rows db')"
    and new: "is_authoritative (c_status (f r)) \<longrightarrow> list_ex (attests (f r)) (attestation_rows db')"
  shows "attested db'"
proof -
  have "set (fact_rows db') \<subseteq> insert (f r) (set (fact_rows db))"
    using upd_row_set [OF facts_okD(1) [OF assms(2)] assms(3), of f] update_fact_shape(2) [OF run] assms(5)
    by auto
  with assms(1) more new show ?thesis unfolding attested_def list_ex_iff by blast
qed

lemma attested_insert:
  assumes "attested db" and run: "insert_fact mk db = Inr (f, db1)" and "fact_rows db' = fact_rows db1"
    and more: "set (attestation_rows db) \<subseteq> set (attestation_rows db')"
    and new: "is_authoritative (c_status f) \<longrightarrow> list_ex (attests f) (attestation_rows db')"
  shows "attested db'"
proof -
  have "set (fact_rows db') \<subseteq> insert f (set (fact_rows db))"
    using insert_fact_shape(2) [OF run] assms(3) by auto
  with assms(1) more new show ?thesis unfolding attested_def list_ex_iff by blast
qed

lemma update_fact_attestations: "update_fact f r db = Inr (g, db') \<Longrightarrow> attestation_rows db' = attestation_rows db"
  by (drule update_fact_shape(2)) simp

lemma insert_fact_attestations: "insert_fact mk db = Inr (g, db') \<Longrightarrow> attestation_rows db' = attestation_rows db"
  by (drule insert_fact_shape(2)) simp

lemma attests_close [simp]: "attests (close_claim now f) = attests f" and attests_touch [simp]: "attests (touch now n f) = attests f"
  by (auto simp: attests_def close_claim_def touch_def fun_eq_iff)

lemma attested_frame:
  assumes "facts_ok db" "attested db" and "r \<in> set (fact_rows db)" and "update_fact f r db = Inr (g, db')"
    and "c_status (f r) = c_status r" "attests (f r) = attests r"
  shows "attested db'"
  using attested_update [OF assms(2,1,3,4) refl] update_fact_attestations [OF assms(4)] assms(2,3,5,6)
  by (simp add: attested_def)

lemma close_if_live_attested:
  assumes "facts_ok db" "attested db" and "close_if_live now (live_claim a p k s db) db = Inr (prior, db1)"
  shows "attested db1 \<and> attestation_rows db1 = attestation_rows db"
  using assms(3)
proof (cases rule: close_if_live_cases)
  case (closed f g)
  then show ?thesis
    using attested_frame [OF assms(1,2) live_claim_SomeD(1) [OF closed(1)] closed(3)]
      update_fact_attestations [OF closed(3)] by simp
qed (use assms in simp)

lemma assert_fact_attested:
  assumes ok: "facts_ok db" "attested db" and run: "assert_fact now asset p db = Inr ((oc, f, prior, keys), db')"
  shows "attested db'"
  using run
proof (cases rule: assert_fact_cases)
  case (created clean columns db1)
  show ?thesis
    by (rule attested_insert [OF ok(2) created(4)])
      (use insert_fact_shape(1) [OF created(4)] insert_fact_attestations [OF created(4)] in \<open>auto simp: created(5)\<close>)
next
  case (touched clean columns old)
  show ?thesis
    by (rule attested_frame [OF ok live_claim_SomeD(1) [OF touched(3)] touched(5)]) simp_all
next
  case (superseded clean columns old closed db1 db2)
  have "attested db1"
    by (rule attested_frame [OF ok live_claim_SomeD(1) [OF superseded(3)] superseded(5)]) simp_all
  then show ?thesis
    by (rule attested_insert [OF _ superseded(6)])
      (use insert_fact_shape(1) [OF superseded(6)] insert_fact_attestations [OF superseded(6)] in
        \<open>auto simp: superseded(7)\<close>)
qed

lemma create_desired_attested:
  assumes ok: "facts_ok db" "attested db" and run: "create_desired now asset p who derived rid db = Inr (f, db')"
  shows "attested db'"
  using run
proof (cases rule: create_desired_cases)
  case (1 clean keys columns prior db1 db2)
  have "attested db1" using close_if_live_attested [OF ok 1(3)] ..
  then show ?thesis
    by (rule attested_insert [OF _ 1(4)])
      (use insert_fact_shape(1) [OF 1(4)] insert_fact_attestations [OF 1(4)] in
        \<open>auto simp: 1(5) record_attestation_def attests_def to_audit_fields_def\<close>)
qed

lemma fact_transition_attested:
  assumes ok: "facts_ok db" "attested db" and run: "fact_transition now i action who reason rid db = Inr (g, db')"
  shows "attested db'"
  using run
proof (cases rule: fact_transition_cases)
  case (1 f to db1)
  let ?f = "retrust action (p_subject who) now"
  have f: "f \<in> set (fact_rows db)" using find_row_SomeD [OF 1(1)] by simp
  have "list_ex (attests (?f to f)) (attestation_rows db')" if "is_authoritative (c_status (?f to f))"
  proof -
    have "action \<noteq> REVOKE \<and> to = target_status action"
      using transition_target_cases [OF 1(3)] that by auto
    then show ?thesis
      using update_fact_shape(1) [OF 1(4)]
      by (cases action)
        (auto simp: 1(5) record_attestation_def attests_def to_audit_fields_def retrust_def
          attribution_for_def target_status_def)
  qed
  with attested_update [OF ok(2,1) f 1(4), of db'] update_fact_attestations [OF 1(4)] show ?thesis
    by (simp add: 1(5)) (auto simp: record_attestation_def)
qed

section \<open>What the live claims amount to\<close>

lemma live_facts_set:
  assumes "predicate \<noteq> []"
  shows "set (live_facts asset (Some kind) (Some predicate) db) =
    {f \<in> set (fact_rows db). authority_key f = (asset, predicate, kind) \<and> live f}"
  using assms by (auto simp: live_facts_def authority_key_def)

lemma one_authority:
  assumes "facts_ok db" and "f \<in> set (fact_rows db)" "g \<in> set (fact_rows db)"
    and "authority_key f = authority_key g" "live f" "live g" "is_authoritative (c_status f)" "is_authoritative (c_status g)"
  shows "f = g"
proof -
  from facts_okD(4) [OF assms(1-3)] assms(4-8) have "c_id f = c_id g"
    by (auto simp: compatible_def holds_authority_def)
  with facts_okD(1) [OF assms(1)] assms(2,3) show ?thesis by (auto simp: distinct_map inj_on_def)
qed

lemma length_distinct_one:
  "length (remdups xs) = 1 \<longleftrightarrow> xs \<noteq> [] \<and> (\<forall>x \<in> set xs. x = hd xs)"
proof
  assume "length (remdups xs) = 1"
  then obtain y where "remdups xs = [y]" by (cases "remdups xs") auto
  then have "set xs = {y}" using set_remdups [of xs] by simp
  then show "xs \<noteq> [] \<and> (\<forall>x \<in> set xs. x = hd xs)" by (cases xs) auto
next
  assume "xs \<noteq> [] \<and> (\<forall>x \<in> set xs. x = hd xs)"
  then have "set xs = {hd xs}" by (cases xs) auto
  then show "length (remdups xs) = 1" by (simp add: length_remdups_card_conv)
qed

lemma singleton_list: "distinct xs \<Longrightarrow> set xs = {x} \<Longrightarrow> xs = [x]"
  by (cases xs; cases "tl xs") auto

lemma resolve_authoritative:
  assumes "a \<in> set fs" "is_authoritative (c_status a)"
    and only: "\<And>f. f \<in> set fs \<Longrightarrow> is_authoritative (c_status f) \<Longrightarrow> f = a" and dist: "distinct fs"
  shows "ev_basis (resolve_claims py_str fs) = AUTHORITATIVE_SINGLE" "ev_fact (resolve_claims py_str fs) = Some a"
proof -
  have "set (filter (\<lambda>f. is_authoritative (c_status f)) fs) = {a}"
    using assms(1,2) only unfolding set_filter by blast
  moreover have "distinct (filter (\<lambda>f. is_authoritative (c_status f)) fs)" using dist by simp
  ultimately have "filter (\<lambda>f. is_authoritative (c_status f)) fs = [a]"
    by (rule singleton_list [rotated])
  then show "ev_basis (resolve_claims py_str fs) = AUTHORITATIVE_SINGLE" "ev_fact (resolve_claims py_str fs) = Some a"
    by (simp_all add: resolve_claims_def Let_def)
qed

text \<open>
  C37. The current value of a predicate.  An authoritative live claim is the value, whatever the others
  say; without one, a value is reported only if every live claim that is not an inference renders
  the same, and then it is one of those; an AI inference is never the value.
\<close>

theorem effective_value_is_earned:
  assumes ok: "facts_ok db" and "predicate \<noteq> []" and run: "effective py_str asset predicate kind db = Inr ev"
  shows "\<exists>claims. set claims = {f \<in> set (fact_rows db). authority_key f = (asset, predicate, kind) \<and> live f} \<and>
    claims \<noteq> [] \<and>
    (case ev_basis ev of
       AUTHORITATIVE_SINGLE \<Rightarrow> \<exists>f \<in> set claims. ev_fact ev = Some f \<and> is_authoritative (c_status f) \<and>
         c_source_type f \<noteq> SRC_AI_INFERENCE
     | UNANIMOUS \<Rightarrow> (\<exists>f \<in> set claims. ev_fact ev = Some f \<and> c_source_type f \<noteq> SRC_AI_INFERENCE \<and>
         (\<forall>g \<in> set claims. \<not> is_authoritative (c_status g) \<and> (c_source_type g \<noteq> SRC_AI_INFERENCE \<longrightarrow>
            summarise py_str (f_value g) = summarise py_str (f_value f))))
     | UNRESOLVED \<Rightarrow> ev_fact ev = None \<and> (\<forall>g \<in> set claims. \<not> is_authoritative (c_status g)))"
proof -
  define fs where "fs = live_facts asset (Some kind) (Some predicate) db"
  have set: "set fs = {f \<in> set (fact_rows db). authority_key f = (asset, predicate, kind) \<and> live f}"
    unfolding fs_def by (rule live_facts_set [OF assms(2)])
  have fs: "fs \<noteq> []" and ev: "ev = resolve_claims py_str fs"
    using run by (auto simp: effective_def fs_def Let_def split: if_splits)
  have ai: "c_class f = SC_INFERENCE \<longleftrightarrow> c_source_type f = SRC_AI_INFERENCE"
    and not_ai: "is_authoritative (c_status f) \<Longrightarrow> c_source_type f \<noteq> SRC_AI_INFERENCE" if "f \<in> set fs" for f
  proof -
    have "fact_row_ok f" using facts_okD(3) [OF ok] that set by auto
    then show "c_class f = SC_INFERENCE \<longleftrightarrow> c_source_type f = SRC_AI_INFERENCE"
      "is_authoritative (c_status f) \<Longrightarrow> c_source_type f \<noteq> SRC_AI_INFERENCE"
      by (cases "c_source_type f"; auto simp: fact_row_ok_def statement_class_for_def fact_row_checks_def
          provenance_checks_def inference_not_authoritative_def is_authoritative_iff)+
  qed
  show ?thesis
  proof (cases "\<exists>a \<in> set fs. is_authoritative (c_status a)")
    case True
    then obtain a where a: "a \<in> set fs" "is_authoritative (c_status a)" by blast
    have "distinct fs"
      using facts_okD(1) [OF ok] by (simp add: fs_def live_facts_def distinct_map)
    moreover have "f = a" if "f \<in> set fs" "is_authoritative (c_status f)" for f
      using one_authority [OF ok, of f a] that a by (simp add: set)
    ultimately have "ev_basis ev = AUTHORITATIVE_SINGLE" "ev_fact ev = Some a"
      unfolding ev using resolve_authoritative [OF a] by blast+
    then have "ev_basis ev = AUTHORITATIVE_SINGLE" and "\<exists>f \<in> set fs. ev_fact ev = Some f \<and>
        is_authoritative (c_status f) \<and> c_source_type f \<noteq> SRC_AI_INFERENCE"
      using a not_ai by blast+
    then show ?thesis
      using set fs by (intro exI [of _ fs]) (simp only: basis.case simp_thms)
  next
    case False
    then have none: "filter (\<lambda>f. is_authoritative (c_status f)) fs = []" by (simp add: filter_empty_conv)
    show ?thesis
    proof (cases "not_inference fs \<noteq> [] \<and> length (distinct_summaries py_str (not_inference fs)) = 1")
      case True
      then have one: "\<forall>g \<in> set (not_inference fs).
          summarise py_str (f_value g) = summarise py_str (f_value (hd (not_inference fs)))"
        unfolding distinct_summaries_def length_distinct_one by (metis hd_map image_eqI list.set_map)
      have "hd (not_inference fs) \<in> set (not_inference fs)" using True by simp
      then have hd: "hd (not_inference fs) \<in> set fs" "c_class (hd (not_inference fs)) \<noteq> SC_INFERENCE"
        by (auto simp: not_inference_def)
      have "ev_basis ev = UNANIMOUS" "ev_fact ev = Some (hd (not_inference fs))"
        using True none by (simp_all add: ev resolve_claims_def Let_def)
      moreover have "g \<in> set (not_inference fs)" if "g \<in> set fs" "c_source_type g \<noteq> SRC_AI_INFERENCE" for g
        using that ai by (simp add: not_inference_def)
      ultimately have "ev_basis ev = UNANIMOUS" and "\<exists>f \<in> set fs. ev_fact ev = Some f \<and>
          c_source_type f \<noteq> SRC_AI_INFERENCE \<and>
          (\<forall>g \<in> set fs. \<not> is_authoritative (c_status g) \<and> (c_source_type g \<noteq> SRC_AI_INFERENCE \<longrightarrow>
             summarise py_str (f_value g) = summarise py_str (f_value f)))"
        using hd ai one False by blast+
      then show ?thesis
        using set fs by (intro exI [of _ fs]) (simp only: basis.case simp_thms)
    next
      case other: False
      then have "ev_basis ev = UNRESOLVED \<and> ev_fact ev = None"
        using none by (auto simp: ev resolve_claims_def Let_def)
      then show ?thesis
        using set fs False by (intro exI [of _ fs]) (auto simp only: basis.case)
    qed
  qed
qed

section \<open>Where the service and the table disagree\<close>

text \<open>
  A desired state cannot lose its standing: revoking it would make it unverified, which its
  table forbids, so the request ends in an integrity error after every check of the service.
\<close>

theorem desired_cannot_be_revoked:
  assumes ok: "facts_ok db" and f: "f \<in> set (fact_rows db)" "f_kind f = DESIRED_STATE" "live f"
  shows "fact_transition now (c_id f) REVOKE who reason rid db = Inl (IntegrityError ''desired_is_approved'')"
proof -
  have found: "find_row c_id (c_id f) (fact_rows db) = Some f"
    by (rule find_row_distinct [OF facts_okD(1) [OF ok] f(1)])
  have row: "fact_row_ok f" by (rule facts_okD(3) [OF ok f(1)])
  then have auth: "is_authoritative (c_status f)"
    using f(2) by (simp add: fact_row_ok_def fact_row_checks_def)
  let ?g = "retrust REVOKE (p_subject who) now (default_status_for (c_source_type f)) f"
  have "enforce (fact_checks db ?g) = Inl (IntegrityError ''desired_is_approved'')"
    using row f(2) default_status [of "c_source_type f"]
    by (auto simp: enforce_def first_violation_def fact_checks_def fact_row_checks_def provenance_checks_def
        fact_row_ok_def retrust_def attribution_for_def inference_not_authoritative_def
        split: option.splits)
  with found f(3) auth show ?thesis
    by (simp add: fact_transition_def transition_target_def update_fact_def)
qed

text \<open>
  While one operator's desired state for a predicate is live, another operator's declaration of it
  fails in the database: \<open>create_desired\<close> closes only the caller's own claim, and the index on live
  authority admits one.
\<close>

theorem second_desired_state_fails:
  assumes ok: "facts_ok db" and g: "g \<in> set (fact_rows db)" "live g" "f_kind g = DESIRED_STATE"
    and key: "f_asset g = asset" "f_predicate g = dc_predicate p" and other: "c_source_id g \<noteq> p_subject who"
  shows "\<exists>e. create_desired now asset p who derived rid db = Inl e"
proof (cases "create_desired now asset p who derived rid db")
  case (Inr out)
  then obtain f db' where run: "create_desired now asset p who derived rid db = Inr (f, db')" by (cases out) auto
  have row: "fact_row_ok g" by (rule facts_okD(3) [OF ok g(1)])
  then have auth: "c_status g = VS_APPROVED"
    using g(3) by (simp add: fact_row_ok_def fact_row_checks_def)
  from run show ?thesis
  proof (cases rule: create_desired_cases)
    case (1 clean keys columns prior db1 db2)
    have "g \<in> set (fact_rows db1)"
      using 1(3)
    proof (cases rule: close_if_live_cases)
      case (closed old h)
      then have "old \<noteq> g" "old \<in> set (fact_rows db)"
        using live_claim_SomeD [OF closed(1)] other by (auto simp: fact_key_def)
      then show ?thesis
        using upd_row_set [OF facts_okD(1) [OF ok]] g(1) update_fact_shape(2) [OF closed(3)] by auto
    qed (use g in simp)
    moreover have "f = desired_fact now asset p (p_subject who) columns prior derived (fresh_id db1)"
      by (rule insert_fact_shape(1) [OF 1(4)])
    moreover from 1(3) have "fresh_id db1 = fresh_id db"
      by (cases rule: close_if_live_cases) (auto dest: update_fact_shape(2))
    then have "c_id g < fresh_id db1" using facts_okD(2) [OF ok g(1)] by simp
    moreover have "\<forall>h \<in> set (fact_rows db1). compatible h f" by (rule insert_fact_shape(4) [OF 1(4)])
    ultimately have "compatible g (desired_fact now asset p (p_subject who) columns prior derived (fresh_id db1))"
      "c_id g \<noteq> fresh_id db1" by auto
    then show ?thesis
      using g key auth by (simp add: compatible_def holds_authority_def authority_key_def [of g])
  qed
qed simp

text \<open>
  Asserting the same value in another unit is taken for the same claim: the row keeps the unit it
  had, and the caller is told it was confirmed.
\<close>

theorem unit_change_is_lost:
  assumes "live_claim asset (fa_predicate p) (fa_kind p) (fa_source_id p) db = Some old"
    and "value_columns_of (fa_value p) clean = Inr columns" "values_equal (f_value old) columns"
    and "screen (fa_predicate p) (tv_text (fa_value p)) (tv_json (fa_value p)) = Inr (clean, keys)"
    and "assert_fact now asset p db = Inr ((oc, f, prior, ks), db')"
  shows "oc = TOUCHED \<and> c_id f = c_id old \<and> f_unit f = f_unit old"
  using assms(5)
proof (cases rule: assert_fact_cases)
  case (touched clean' columns' old')
  then show ?thesis using assms(1) update_fact_shape(1) [OF touched(5)] by simp
qed (use assms in auto)

text \<open>
  Two texts that differ only after their first 117 characters are reported as unanimous and
  without conflict: claims are compared by a rendering that is cut there.
\<close>

theorem long_texts_look_unanimous:
  assumes "v_type (f_value f) = VT_TEXT" "v_type (f_value g) = VT_TEXT"
    and "v_text (f_value f) = Some s" "v_text (f_value g) = Some t"
    and "120 < length s" "120 < length t" "take 117 s = take 117 t"
    and "c_class f = SC_OBSERVATION" "c_class g = SC_OBSERVATION"
    and "\<not> is_authoritative (c_status f)" "\<not> is_authoritative (c_status g)"
  shows "ev_basis (resolve_claims py_str [f, g]) = UNANIMOUS \<and> ev_fact (resolve_claims py_str [f, g]) = Some f \<and>
    \<not> ev_conflict (resolve_claims py_str [f, g])"
proof -
  have "summarise py_str (f_value f) = summarise py_str (f_value g)"
    using assms(1-7) by (simp add: summarise_def)
  then show ?thesis
    using assms(8-11) by (simp add: resolve_claims_def not_inference_def distinct_summaries_def)
qed

end
