(* ===== verification/Edges.thy ===== *)
theory Edges
  imports Cmdb "HOL-Library.Product_Lexorder"
begin

text \<open>
  \<open>services/relationship.py\<close>: edges between assets.  A symmetric edge is stored once, in the order
  of the ids; an edge's qualifier is its value over time.
\<close>

section \<open>Operations\<close>

record relationship_assert =
  ra_type :: relationship_type
  ra_source :: uuid
  ra_target :: uuid
  ra_qualifier :: "string option"
  ra_source_type :: source_type
  ra_source_id :: string
  ra_confidence :: int

datatype edge_outcome = EDGE_CREATED | EDGE_TOUCHED

definition require_asset :: "uuid \<Rightarrow> cmdb \<Rightarrow> acop_error + asset_row" where
  "require_asset i db = (case find_asset i db of None \<Rightarrow> Inl NotFoundError | Some a \<Rightarrow> Inr a)"

definition update_edge :: "(edge \<Rightarrow> edge) \<Rightarrow> edge \<Rightarrow> cmdb \<Rightarrow> edge cmdb_run" where
  "update_edge f r db = andThen (enforce (edge_checks db (f r))) (\<lambda>_.
     Inr (f r, db\<lparr>edge_rows := upd_rows (\<lambda>g. c_id g = c_id r) f (edge_rows db)\<rparr>))"

definition insert_edge :: "(uuid \<Rightarrow> edge) \<Rightarrow> cmdb \<Rightarrow> edge cmdb_run" where
  "insert_edge mk db = (let e = mk (fresh_id db) in
     andThen (enforce (edge_checks db e)) (\<lambda>_.
     Inr (e, db\<lparr>edge_rows := edge_rows db @ [e], fresh_id := Suc (fresh_id db)\<rparr>)))"

text \<open>The endpoints in the order they are stored in, and whether they were swapped.\<close>

definition canonical_ends :: "relationship_assert \<Rightarrow> uuid \<times> uuid \<times> bool" where
  "canonical_ends p =
     (if es_symmetric (RELATIONSHIP_SPECS (ra_type p)) \<and> ra_target p < ra_source p
      then (ra_target p, ra_source p, True) else (ra_source p, ra_target p, False))"

definition live_edge :: "uuid \<Rightarrow> uuid \<Rightarrow> relationship_type \<Rightarrow> string \<Rightarrow> cmdb \<Rightarrow> edge option" where
  "live_edge a b t s db = find (\<lambda>e. e_source e = a \<and> e_target e = b \<and> e_type e = t \<and>
     c_source_id e = s \<and> live e) (edge_rows db)"

definition asserted_edge ::
  "int \<Rightarrow> relationship_assert \<Rightarrow> uuid option \<Rightarrow> uuid \<Rightarrow> edge" where
  "asserted_edge now p superseded new_id = (case canonical_ends p of (a, b, swapped) \<Rightarrow>
     \<lparr>c_id = new_id, c_class = statement_class_for (ra_source_type p),
      c_source_type = ra_source_type p, c_source_id = ra_source_id p,
      c_confidence = ra_confidence p, c_status = default_status_for (ra_source_type p),
      c_verified_by = None, c_verified_at = None, c_approved_by = None, c_approved_at = None,
      c_from = now, c_to = None, c_first_seen = now, c_last_seen = now,
      e_type = ra_type p, e_source = a, e_target = b,
      e_symmetric = es_symmetric (RELATIONSHIP_SPECS (ra_type p)), e_qualifier = ra_qualifier p,
      e_supersedes = superseded\<rparr>)"

definition touch_edge :: "int \<Rightarrow> int \<Rightarrow> edge \<Rightarrow> edge" where
  "touch_edge now confidence e = e\<lparr>c_last_seen := now, c_confidence := confidence\<rparr>"

definition close_edge :: "int \<Rightarrow> edge \<Rightarrow> edge" where
  "close_edge now e = e\<lparr>c_to := Some now\<rparr>"

definition check_endpoints :: "relationship_assert \<Rightarrow> cmdb \<Rightarrow> acop_error + unit" where
  "check_endpoints p db =
     andThen (require (ra_source p \<noteq> ra_target p) VocabularyError) (\<lambda>_.
     andThen (require_asset (ra_source p) db) (\<lambda>source.
     andThen (require_asset (ra_target p) db) (\<lambda>target.
     require (permits (RELATIONSHIP_SPECS (ra_type p)) (ca_type source) (ca_type target))
       VocabularyError)))"

definition assert_relationship ::
  "int \<Rightarrow> relationship_assert \<Rightarrow> cmdb \<Rightarrow> (edge_outcome \<times> edge \<times> bool) cmdb_run" where
  "assert_relationship now p db = andThen (check_endpoints p db) (\<lambda>_.
     case canonical_ends p of (a, b, swapped) \<Rightarrow>
       (case live_edge a b (ra_type p) (ra_source_id p) db of
          None \<Rightarrow> andThen (insert_edge (asserted_edge now p None) db) (\<lambda>(e, db1).
            Inr ((EDGE_CREATED, e, swapped), db1))
        | Some old \<Rightarrow>
            if qualifier_key (e_qualifier old) = qualifier_key (ra_qualifier p) then
              andThen (update_edge (touch_edge now (ra_confidence p)) old db) (\<lambda>(e, db1).
              Inr ((EDGE_TOUCHED, e, swapped), db1))
            else
              andThen (update_edge (close_edge now) old db) (\<lambda>(closed, db1).
              andThen (insert_edge (asserted_edge now p (Some (c_id old))) db1) (\<lambda>(e, db2).
              Inr ((EDGE_CREATED, e, swapped), db2)))))"

definition retire_edge :: "int \<Rightarrow> uuid \<Rightarrow> cmdb \<Rightarrow> edge cmdb_run" where
  "retire_edge now i db = (case find_row c_id i (edge_rows db) of
     None \<Rightarrow> Inl NotFoundError
   | Some e \<Rightarrow> andThen (require (live e) ConflictError) (\<lambda>_. update_edge (close_edge now) e db))"

datatype direction = Out | In | Both

definition list_relationships ::
  "uuid option \<Rightarrow> relationship_type option \<Rightarrow> direction \<Rightarrow> bool \<Rightarrow> cmdb \<Rightarrow> edge list" where
  "list_relationships asset kind dir closed db = sort_key (\<lambda>e. relationship_value (e_type e))
     (filter (\<lambda>e. (closed \<or> live e) \<and> (case kind of None \<Rightarrow> True | Some t \<Rightarrow> e_type e = t) \<and>
        (case asset of None \<Rightarrow> True
         | Some a \<Rightarrow> (case dir of Out \<Rightarrow> e_source e = a | In \<Rightarrow> e_target e = a
              | Both \<Rightarrow> e_source e = a \<or> e_target e = a))) (edge_rows db))"

record neighbour =
  nb_edge :: uuid
  nb_label :: string
  nb_outbound :: bool
  nb_qualifier :: "string option"
  nb_asset :: asset_row
  nb_status :: verification_status
  nb_source_id :: string

definition neighbour_of :: "uuid \<Rightarrow> edge \<Rightarrow> asset_row \<Rightarrow> neighbour" where
  "neighbour_of asset e other =
    (let outbound = (e_source e = asset); spec = RELATIONSHIP_SPECS (e_type e) in
     \<lparr>nb_edge = c_id e,
      nb_label = (if outbound \<or> es_symmetric spec then relationship_value (e_type e)
                  else es_inverse_label spec),
      nb_outbound = outbound, nb_qualifier = e_qualifier e, nb_asset = other,
      nb_status = c_status e, nb_source_id = c_source_id e\<rparr>)"

definition other_end :: "uuid \<Rightarrow> edge \<Rightarrow> uuid" where
  "other_end asset e = (if e_source e = asset then e_target e else e_source e)"

definition neighbours :: "uuid \<Rightarrow> cmdb \<Rightarrow> acop_error + neighbour list" where
  "neighbours asset db = andThen (require_asset asset db) (\<lambda>_.
     Inr (sort_key (\<lambda>n. (nb_label n, ca_display_name (nb_asset n)))
       (concat (map (\<lambda>e. case find_asset (other_end asset e) db of
           None \<Rightarrow> [] | Some other \<Rightarrow> [neighbour_of asset e other])
         (list_relationships (Some asset) None Both False db)))))"

section \<open>The invariant\<close>

definition edges_compatible :: "edge \<Rightarrow> edge \<Rightarrow> bool" where
  "edges_compatible d e \<longleftrightarrow> c_id d = c_id e \<or>
     (edge_key d = edge_key e \<longrightarrow> \<not> overlaps d e \<and> \<not> (live d \<and> live e))"

text \<open>
  What the service adds to the constraints: one live edge per pair of endpoints, type and source,
  endpoints of permitted types' order, and symmetry as the registry has it.
\<close>

definition edge_line :: "edge \<Rightarrow> uuid \<times> uuid \<times> relationship_type \<times> string" where
  "edge_line e = (e_source e, e_target e, e_type e, c_source_id e)"

definition one_live_edge :: "edge \<Rightarrow> edge \<Rightarrow> bool" where
  "one_live_edge d e \<longleftrightarrow> c_id d = c_id e \<or> edge_line d \<noteq> edge_line e \<or> \<not> (live d \<and> live e)"

definition edge_row_ok :: "edge \<Rightarrow> bool" where
  "edge_row_ok e \<longleftrightarrow> (\<forall>c \<in> set (edge_row_checks e). snd c) \<and>
     e_symmetric e = es_symmetric (RELATIONSHIP_SPECS (e_type e)) \<and>
     c_class e = statement_class_for (c_source_type e) \<and> \<not> is_authoritative (c_status e)"

definition edges_ok :: "cmdb \<Rightarrow> bool" where
  "edges_ok db \<longleftrightarrow> distinct (map c_id (edge_rows db)) \<and>
     (\<forall>e \<in> set (edge_rows db). c_id e < fresh_id db \<and> edge_row_ok e) \<and>
     (\<forall>d \<in> set (edge_rows db). \<forall>e \<in> set (edge_rows db). edges_compatible d e \<and> one_live_edge d e)"

lemma edges_compatible_sym: "edges_compatible d e \<Longrightarrow> edges_compatible e d"
  by (auto simp: edges_compatible_def overlaps_def)

lemma one_live_edge_sym: "one_live_edge d e \<Longrightarrow> one_live_edge e d"
  by (auto simp: one_live_edge_def)

lemma edge_table_checks_iff:
  "(\<forall>c \<in> set (edge_table_checks rows e). snd c) \<longleftrightarrow> (\<forall>d \<in> set rows. edges_compatible d e)"
  by (auto simp: edge_table_checks_def list_all_iff edges_compatible_def)

lemma edges_okD:
  assumes "edges_ok db"
  shows "distinct (map c_id (edge_rows db))"
    and "e \<in> set (edge_rows db) \<Longrightarrow> c_id e < fresh_id db"
    and "e \<in> set (edge_rows db) \<Longrightarrow> edge_row_ok e"
    and "d \<in> set (edge_rows db) \<Longrightarrow> e \<in> set (edge_rows db) \<Longrightarrow> edges_compatible d e"
    and "d \<in> set (edge_rows db) \<Longrightarrow> e \<in> set (edge_rows db) \<Longrightarrow> one_live_edge d e"
  using assms by (auto simp: edges_ok_def)

lemma update_edge_shape:
  assumes "update_edge f r db = Inr (g, db')"
  shows "g = f r" and "db' = db\<lparr>edge_rows := upd_rows (\<lambda>h. c_id h = c_id r) f (edge_rows db)\<rparr>"
    and "\<forall>c \<in> set (edge_row_checks (f r)). snd c" and "\<forall>h \<in> set (edge_rows db). edges_compatible h (f r)"
  using assms edge_table_checks_iff
  by (auto simp: update_edge_def andThen_eq_Inr enforce_Inr edge_checks_def ball_Un)

lemma insert_edge_shape:
  assumes "insert_edge mk db = Inr (e, db')"
  shows "e = mk (fresh_id db)" and "db' = db\<lparr>edge_rows := edge_rows db @ [e], fresh_id := Suc (fresh_id db)\<rparr>"
    and "\<forall>c \<in> set (edge_row_checks e). snd c" and "\<forall>h \<in> set (edge_rows db). edges_compatible h e"
  using assms edge_table_checks_iff
  by (auto simp: insert_edge_def Let_def andThen_eq_Inr enforce_Inr edge_checks_def ball_Un)

lemma update_edge_ok:
  assumes ok: "edges_ok db" and r: "r \<in> set (edge_rows db)" and run: "update_edge f r db = Inr (g, db')"
    and frame: "c_id (f r) = c_id r" "c_class (f r) = c_class r" "c_source_type (f r) = c_source_type r"
      "c_status (f r) = c_status r" "edge_line (f r) = edge_line r" "e_symmetric (f r) = e_symmetric r"
    and "live (f r) \<Longrightarrow> live r"
  shows "edges_ok db'"
proof -
  note shape = update_edge_shape [OF run] and okD = edges_okD [OF ok]
  have type: "e_type (f r) = e_type r" using frame(5) by (simp add: edge_line_def)
  have "c_id (if c_id h = c_id r then f h else h) = c_id h" if "h \<in> set (edge_rows db)" for h
    using that r frame(1) okD(1) by (auto simp: distinct_map inj_on_def)
  then have "map c_id (upd_rows (\<lambda>h. c_id h = c_id r) f (edge_rows db)) = map c_id (edge_rows db)"
    by (simp add: upd_rows_def)
  moreover have "edge_row_ok (f r)"
    using shape(3) okD(3) [OF r] frame type by (simp add: edge_row_ok_def)
  moreover have "\<forall>a \<in> set (edge_rows db'). \<forall>b \<in> set (edge_rows db'). edges_compatible a b"
    using pairwise_update [of edges_compatible "edge_rows db" r f, OF edges_compatible_sym _ okD(1) r frame(1)]
      okD(4) shape(2,4) by (simp add: edges_compatible_def)
  moreover have "\<forall>h \<in> set (edge_rows db). one_live_edge h (f r)"
    using okD(5) [OF _ r] frame(1,5) assms(10) by (auto simp: one_live_edge_def)
  then have "\<forall>a \<in> set (edge_rows db'). \<forall>b \<in> set (edge_rows db'). one_live_edge a b"
    using pairwise_update [of one_live_edge "edge_rows db" r f, OF one_live_edge_sym _ okD(1) r frame(1)]
      okD(5) shape(2) by (simp add: one_live_edge_def)
  ultimately show ?thesis
    using okD(1-3) shape(2) r frame(1) by (auto simp: edges_ok_def upd_row_set)
qed

lemma insert_edge_ok:
  assumes ok: "edges_ok db" and run: "insert_edge mk db = Inr (e, db')"
    and "c_id e = fresh_id db" "c_class e = statement_class_for (c_source_type e)"
    and "e_symmetric e = es_symmetric (RELATIONSHIP_SPECS (e_type e))" "\<not> is_authoritative (c_status e)"
    and "\<forall>d \<in> set (edge_rows db). one_live_edge d e"
  shows "edges_ok db'"
proof -
  note shape = insert_edge_shape [OF run] and okD = edges_okD [OF ok]
  have "edge_row_ok e" using shape(3) assms(4-6) by (simp add: edge_row_ok_def)
  moreover have "fresh_id db \<notin> c_id ` set (edge_rows db)" using okD(2) by force
  moreover have "\<forall>a \<in> set (edge_rows db'). \<forall>b \<in> set (edge_rows db'). edges_compatible a b"
    using pairwise_insert [of edges_compatible "edge_rows db" e, OF edges_compatible_sym]
      okD(4) shape(2,4) by (simp add: edges_compatible_def)
  moreover have "\<forall>a \<in> set (edge_rows db'). \<forall>b \<in> set (edge_rows db'). one_live_edge a b"
    using pairwise_insert [of one_live_edge "edge_rows db" e, OF one_live_edge_sym]
      okD(5) shape(2) assms(7) by (simp add: one_live_edge_def)
  ultimately show ?thesis
    using okD(1-3) shape(2) assms(3) by (auto simp: edges_ok_def less_Suc_eq)
qed

section \<open>Asserting keeps it\<close>

lemma edge_writes [simp]:
  "c_id (touch_edge now n e) = c_id e" "c_class (touch_edge now n e) = c_class e"
  "c_source_type (touch_edge now n e) = c_source_type e" "c_status (touch_edge now n e) = c_status e"
  "edge_line (touch_edge now n e) = edge_line e" "e_symmetric (touch_edge now n e) = e_symmetric e"
  "live (touch_edge now n e) = live e" "e_qualifier (touch_edge now n e) = e_qualifier e"
  "c_id (close_edge now e) = c_id e" "c_class (close_edge now e) = c_class e"
  "c_source_type (close_edge now e) = c_source_type e" "c_status (close_edge now e) = c_status e"
  "edge_line (close_edge now e) = edge_line e" "e_symmetric (close_edge now e) = e_symmetric e"
  "\<not> live (close_edge now e)"
  by (simp_all add: touch_edge_def close_edge_def edge_line_def live_def)

lemma asserted_edge_simps [simp]:
  "c_id (asserted_edge now p s i) = i"
  "c_class (asserted_edge now p s i) = statement_class_for (ra_source_type p)"
  "c_source_type (asserted_edge now p s i) = ra_source_type p"
  "e_type (asserted_edge now p s i) = ra_type p" "e_qualifier (asserted_edge now p s i) = ra_qualifier p"
  "e_symmetric (asserted_edge now p s i) = es_symmetric (RELATIONSHIP_SPECS (ra_type p))"
  "\<not> is_authoritative (c_status (asserted_edge now p s i))" "live (asserted_edge now p s i)"
  "e_source (asserted_edge now p s i) = fst (canonical_ends p)"
  "e_target (asserted_edge now p s i) = fst (snd (canonical_ends p))"
  "c_source_id (asserted_edge now p s i) = ra_source_id p"
  by (simp_all add: asserted_edge_def live_def split: prod.splits)

lemma live_edge_SomeD:
  assumes "live_edge a b t s db = Some e"
  shows "e \<in> set (edge_rows db)" "live e" "edge_line e = (a, b, t, s)"
  using assms by (auto simp: live_edge_def find_Some_iff edge_line_def)

lemma live_edge_NoneD:
  assumes "live_edge a b t s db = None" and "d \<in> set (edge_rows db)"
  shows "edge_line d \<noteq> (a, b, t, s) \<or> \<not> live d"
  using assms by (auto simp: live_edge_def find_None_iff edge_line_def)

lemma live_edge_unique:
  assumes "edges_ok db" and "e \<in> set (edge_rows db)" "live e" "edge_line e = (a, b, t, s)"
  shows "live_edge a b t s db = Some e"
proof (cases "live_edge a b t s db")
  case None
  with live_edge_NoneD [OF None assms(2)] assms(3,4) show ?thesis by simp
next
  case (Some d)
  note d = live_edge_SomeD [OF Some]
  have "c_id d = c_id e" using edges_okD(5) [OF assms(1) d(1) assms(2)] d assms(3,4) by (simp add: one_live_edge_def)
  then show ?thesis
    using Some edges_okD(1) [OF assms(1)] d(1) assms(2) by (auto simp: distinct_map inj_on_def)
qed

lemma assert_relationship_cases:
  assumes "assert_relationship now p db = Inr ((oc, e, swapped), db')"
  obtains
    (created) "live_edge (fst (canonical_ends p)) (fst (snd (canonical_ends p))) (ra_type p) (ra_source_id p) db = None"
      "insert_edge (asserted_edge now p None) db = Inr (e, db')" "oc = EDGE_CREATED"
  | (touched) old where
      "live_edge (fst (canonical_ends p)) (fst (snd (canonical_ends p))) (ra_type p) (ra_source_id p) db = Some old"
      "qualifier_key (e_qualifier old) = qualifier_key (ra_qualifier p)"
      "update_edge (touch_edge now (ra_confidence p)) old db = Inr (e, db')" "oc = EDGE_TOUCHED"
  | (replaced) old closed db1 where
      "live_edge (fst (canonical_ends p)) (fst (snd (canonical_ends p))) (ra_type p) (ra_source_id p) db = Some old"
      "qualifier_key (e_qualifier old) \<noteq> qualifier_key (ra_qualifier p)"
      "update_edge (close_edge now) old db = Inr (closed, db1)"
      "insert_edge (asserted_edge now p (Some (c_id old))) db1 = Inr (e, db')" "oc = EDGE_CREATED"
proof -
  obtain a b sw where ends: "canonical_ends p = (a, b, sw)" by (cases "canonical_ends p") auto
  show thesis
  proof (cases "live_edge a b (ra_type p) (ra_source_id p) db")
    case None
    with assms ends show thesis
      by (intro created) (auto simp: assert_relationship_def andThen_eq_Inr)
  next
    case (Some old)
    show thesis
    proof (cases "qualifier_key (e_qualifier old) = qualifier_key (ra_qualifier p)")
      case True
      with assms ends Some show thesis
        by (intro touched [of old]) (auto simp: assert_relationship_def andThen_eq_Inr)
    next
      case False
      with assms ends Some obtain closed db1 where
        "update_edge (close_edge now) old db = Inr (closed, db1)"
        "insert_edge (asserted_edge now p (Some (c_id old))) db1 = Inr (e, db')" "oc = EDGE_CREATED"
        by (auto simp: assert_relationship_def andThen_eq_Inr)
      with False ends Some show thesis by (intro replaced [of old]) auto
    qed
  qed
qed

text \<open>The line of an assertion: the row it leaves live, and what that implies.\<close>

definition asserted_line :: "relationship_assert \<Rightarrow> uuid \<times> uuid \<times> relationship_type \<times> string" where
  "asserted_line p = (fst (canonical_ends p), fst (snd (canonical_ends p)), ra_type p, ra_source_id p)"

lemma line_asserted_edge [simp]: "edge_line (asserted_edge now p s i) = asserted_line p"
  by (simp add: edge_line_def asserted_line_def)

lemma assert_relationship_leaves:
  assumes ok: "edges_ok db" and run: "assert_relationship now p db = Inr ((oc, e, swapped), db')"
  shows "edges_ok db' \<and> e \<in> set (edge_rows db') \<and> live e \<and> edge_line e = asserted_line p \<and>
    qualifier_key (e_qualifier e) = qualifier_key (ra_qualifier p)"
  using run
proof (cases rule: assert_relationship_cases)
  case created
  note shape = insert_edge_shape [OF created(2)]
  have "\<forall>d \<in> set (edge_rows db). one_live_edge d e"
    using live_edge_NoneD [OF created(1)] by (auto simp: shape(1) one_live_edge_def asserted_line_def)
  then have "edges_ok db'"
    by (intro insert_edge_ok [OF ok created(2)]) (simp_all add: shape(1))
  then show ?thesis using shape by simp
next
  case (touched old)
  note shape = update_edge_shape [OF touched(3)] and old = live_edge_SomeD [OF touched(1)]
  have "edges_ok db'" by (rule update_edge_ok [OF ok old(1) touched(3)]) simp_all
  then show ?thesis
    using shape(1,2) old touched(2) upd_row_set [OF edges_okD(1) [OF ok] old(1)]
    by (simp add: asserted_line_def)
next
  case (replaced old closed db1)
  note first = update_edge_shape [OF replaced(3)] and shape = insert_edge_shape [OF replaced(4)]
    and old = live_edge_SomeD [OF replaced(1)]
  have ok1: "edges_ok db1" by (rule update_edge_ok [OF ok old(1) replaced(3)]) simp_all
  have "one_live_edge d e" if "d \<in> set (edge_rows db1)" for d
  proof -
    from that consider "d = close_edge now old" | "d \<in> set (edge_rows db)" "d \<noteq> old"
      using upd_row_set [OF edges_okD(1) [OF ok] old(1)] first(2) by auto
    then show ?thesis
    proof cases
      case 2
      then have "one_live_edge d old" "c_id d \<noteq> c_id old"
        using edges_okD(5,1) [OF ok] old(1) by (auto simp: distinct_map inj_on_def)
      then show ?thesis using old by (auto simp: shape(1) one_live_edge_def asserted_line_def)
    qed (simp add: one_live_edge_def)
  qed
  then have "edges_ok db'"
    by (intro insert_edge_ok [OF ok1 replaced(4)]) (simp_all add: shape(1))
  then show ?thesis using shape by simp
qed

lemma retire_edge_ok:
  assumes ok: "edges_ok db" and run: "retire_edge now i db = Inr (e, db')"
  shows "edges_ok db'"
proof -
  from run obtain r where r: "find_row c_id i (edge_rows db) = Some r" "update_edge (close_edge now) r db = Inr (e, db')"
    by (auto simp: retire_edge_def andThen_eq_Inr split: option.splits)
  have "r \<in> set (edge_rows db)" using find_row_SomeD [OF r(1)] by simp
  then show ?thesis by (rule update_edge_ok [OF ok _ r(2)]) simp_all
qed

section \<open>One link, one row\<close>

definition reversed :: "relationship_assert \<Rightarrow> relationship_assert" where
  "reversed p = p\<lparr>ra_source := ra_target p, ra_target := ra_source p\<rparr>"

text \<open>
  A symmetric link is one row however it is written: after it has been asserted from one end,
  asserting it from the other confirms the very same row, or fails; no second row appears.
\<close>

theorem symmetric_link_is_one_row:
  assumes ok: "edges_ok db" and sym: "es_symmetric (RELATIONSHIP_SPECS (ra_type p))"
    and run: "assert_relationship now p db = Inr ((oc, e, swapped), db')"
    and again: "assert_relationship later (reversed p) db' = Inr ((oc', e', swapped'), db'')"
  shows "oc' = EDGE_TOUCHED \<and> c_id e' = c_id e \<and> length (edge_rows db'') = length (edge_rows db') \<and>
    e_source e < e_target e \<and> swapped' = (\<not> swapped)"
proof -
  note leaves = assert_relationship_leaves [OF ok run]
  have ends: "ra_source p \<noteq> ra_target p"
    using run by (auto simp: assert_relationship_def check_endpoints_def andThen_eq_Inr)
  then have line: "asserted_line (reversed p) = asserted_line p"
    using sym by (auto simp: asserted_line_def reversed_def canonical_ends_def)
  have swapped: "swapped = snd (snd (canonical_ends p))" "swapped' = snd (snd (canonical_ends (reversed p)))"
    using run again by (auto simp: assert_relationship_def andThen_eq_Inr split: prod.splits option.splits if_splits)
  have "e_source e < e_target e"
    using leaves ends sym by (auto simp: edge_line_def asserted_line_def canonical_ends_def split: if_splits)
  moreover have found: "live_edge (fst (canonical_ends (reversed p))) (fst (snd (canonical_ends (reversed p))))
      (ra_type (reversed p)) (ra_source_id (reversed p)) db' = Some e"
    using live_edge_unique [of db' e] leaves line by (simp add: asserted_line_def)
  moreover have "ra_qualifier (reversed p) = ra_qualifier p" by (simp add: reversed_def)
  ultimately have lt: "e_source e < e_target e"
    and found: "live_edge (fst (canonical_ends (reversed p))) (fst (snd (canonical_ends (reversed p))))
      (ra_type (reversed p)) (ra_source_id (reversed p)) db' = Some e"
    and same: "qualifier_key (e_qualifier e) = qualifier_key (ra_qualifier (reversed p))"
    using leaves by simp_all
  from again have "oc' = EDGE_TOUCHED \<and> c_id e' = c_id e \<and> length (edge_rows db'') = length (edge_rows db')"
  proof (cases rule: assert_relationship_cases)
    case (touched old)
    then show ?thesis using found update_edge_shape(1,2) [OF touched(3)] by simp
  qed (use found same in simp_all)
  moreover have "swapped' = (\<not> swapped)"
    using swapped ends sym by (auto simp: reversed_def canonical_ends_def)
  ultimately show ?thesis using lt by blast
qed

lemma neighbours_member:
  assumes "e \<in> set (edge_rows db)" "live e" "e_source e = asset \<or> e_target e = asset"
    and "find_asset asset db = Some x" "find_asset (other_end asset e) db = Some y"
  shows "\<exists>ns. neighbours asset db = Inr ns \<and> neighbour_of asset e y \<in> set ns"
proof -
  have "e \<in> set (list_relationships (Some asset) None Both False db)"
    using assms(1-3) by (auto simp: list_relationships_def)
  then have "neighbour_of asset e y \<in> set (concat (map (\<lambda>e. case find_asset (other_end asset e) db of
      None \<Rightarrow> [] | Some other \<Rightarrow> [neighbour_of asset e other]) (list_relationships (Some asset) None Both False db)))"
    using assms(5) by force
  then show ?thesis using assms(4) by (simp add: neighbours_def require_asset_def del: set_concat)
qed

text \<open>
  A live edge shows in the neighbourhood of both its ends, under its own name from its source and
  under the inverse label of its type from its target.
\<close>

theorem edge_seen_from_both_ends:
  assumes "e \<in> set (edge_rows db)" and "live e" and "e_source e \<noteq> e_target e"
    and "find_asset (e_source e) db = Some a" and "find_asset (e_target e) db = Some b"
  shows "\<exists>ns ms n m. neighbours (e_source e) db = Inr ns \<and> neighbours (e_target e) db = Inr ms \<and>
     n \<in> set ns \<and> nb_edge n = c_id e \<and> nb_asset n = b \<and> nb_outbound n \<and>
     nb_label n = relationship_value (e_type e) \<and>
     m \<in> set ms \<and> nb_edge m = c_id e \<and> nb_asset m = a \<and> \<not> nb_outbound m \<and>
     nb_label m = (if es_symmetric (RELATIONSHIP_SPECS (e_type e)) then relationship_value (e_type e)
                   else es_inverse_label (RELATIONSHIP_SPECS (e_type e)))"
proof -
  obtain ns where ns: "neighbours (e_source e) db = Inr ns" "neighbour_of (e_source e) e b \<in> set ns"
    using neighbours_member [OF assms(1,2), of "e_source e" a b] assms(4,5) by (auto simp: other_end_def)
  obtain ms where ms: "neighbours (e_target e) db = Inr ms" "neighbour_of (e_target e) e a \<in> set ms"
    using neighbours_member [OF assms(1,2), of "e_target e" b a] assms(3-5) by (auto simp: other_end_def)
  show ?thesis
    by (rule exI [of _ ns], rule exI [of _ ms], rule exI [of _ "neighbour_of (e_source e) e b"],
        rule exI [of _ "neighbour_of (e_target e) e a"])
      (use ns ms assms(3) in \<open>simp add: neighbour_of_def Let_def\<close>)
qed

text \<open>
  A second link between the same two assets, on another port, replaces the first: the service looks
  for the live edge without its qualifier, although the index on live edges tells them apart by it.
\<close>

theorem parallel_link_closes_the_first:
  assumes ok: "edges_ok db" and old: "old \<in> set (edge_rows db)" "live old" "edge_line old = asserted_line p"
    and "qualifier_key (e_qualifier old) \<noteq> qualifier_key (ra_qualifier p)"
    and run: "assert_relationship now p db = Inr ((oc, e, swapped), db')"
  shows "close_edge now old \<in> set (edge_rows db') \<and> (\<forall>d \<in> set (edge_rows db'). c_id d = c_id old \<longrightarrow> \<not> live d)"
proof -
  have found: "live_edge (fst (canonical_ends p)) (fst (snd (canonical_ends p))) (ra_type p) (ra_source_id p) db = Some old"
    using live_edge_unique [OF ok old(1,2)] old(3) by (simp add: asserted_line_def)
  have okD: "distinct (map c_id (edge_rows db'))"
    using assert_relationship_leaves [OF ok run] edges_okD(1) by blast
  from run have "close_edge now old \<in> set (edge_rows db')"
  proof (cases rule: assert_relationship_cases)
    case (replaced old' closed db1)
    then show ?thesis
      using found upd_row_set [OF edges_okD(1) [OF ok] old(1)] update_edge_shape(2) [OF replaced(3)]
        insert_edge_shape(2) [OF replaced(4)] by simp
  qed (use found assms(5) in simp_all)
  moreover have "d = close_edge now old" if "d \<in> set (edge_rows db')" "c_id d = c_id old" for d
    using okD that calculation unfolding distinct_map inj_on_def by (metis edge_writes(9))
  ultimately show ?thesis using edge_writes(15) by metis
qed

end
