(* ===== verification/Assets.thy ===== *)
theory Assets
  imports Identity_Resolver Fact_Trust Edges
begin

text \<open>
  \<open>services/asset.py\<close> and the asset routes of \<open>api/routes/cmdb_assets.py\<close>: creation, update,
  retirement, identifiers, and the keyset-paginated listing.
\<close>

section \<open>The asset service\<close>

definition get_asset_row :: "uuid \<Rightarrow> cmdb \<Rightarrow> acop_error + asset_row" where
  "get_asset_row i db = (case find_asset i db of None \<Rightarrow> Inl NotFoundError | Some a \<Rightarrow> Inr a)"

definition update_asset_row :: "(asset_row \<Rightarrow> asset_row) \<Rightarrow> asset_row \<Rightarrow> cmdb \<Rightarrow> asset_row cmdb_run" where
  "update_asset_row f a db = andThen (enforce (asset_checks (f a))) (\<lambda>_.
     Inr (f a, db\<lparr>asset_rows := upd_rows (\<lambda>b. ca_id b = ca_id a) f (asset_rows db)\<rparr>))"

record asset_update =
  up_display_name :: "string option"
  up_description :: "string option"
  up_lifecycle :: "lifecycle_state option"

definition apply_update :: "asset_update \<Rightarrow> asset_row \<Rightarrow> asset_row" where
  "apply_update u a =
     (let a1 = (case up_display_name u of None \<Rightarrow> a | Some n \<Rightarrow> a\<lparr>ca_display_name := n\<rparr>);
          a2 = (case up_description u of None \<Rightarrow> a1 | Some d \<Rightarrow> a1\<lparr>ca_description := Some d\<rparr>) in
      case up_lifecycle u of None \<Rightarrow> a2 | Some l \<Rightarrow> a2\<lparr>ca_lifecycle := l\<rparr>)"

definition update_asset :: "uuid \<Rightarrow> asset_update \<Rightarrow> cmdb \<Rightarrow> asset_row cmdb_run" where
  "update_asset i u db = andThen (get_asset_row i db) (\<lambda>a.
     andThen (require (ca_lifecycle a \<notin> set TERMINAL_LIFECYCLE_STATES) ConflictError) (\<lambda>_.
     update_asset_row (apply_update u) a db))"

text \<open>
  \<open>create_asset\<close>: resolution first; the description is then written on whichever row was found.
  The \<open>lifecycle_state\<close> of the payload is not looked at.
\<close>

record asset_create =
  ac_type :: asset_kind
  ac_display_name :: string
  ac_description :: "string option"
  ac_lifecycle :: lifecycle_state
  ac_identifiers :: "identifier_input list"

definition validate_create :: "asset_create \<Rightarrow> bool" where
  "validate_create p = (1 \<le> length (ac_display_name p) \<and> length (ac_display_name p) \<le> 255 \<and>
     (case ac_description p of None \<Rightarrow> True | Some d \<Rightarrow> length d \<le> 2000) \<and>
     ac_lifecycle p \<notin> {LC_RETIRED, LC_MERGED})"

definition validate_update :: "asset_update \<Rightarrow> bool" where
  "validate_update u =
     ((case up_display_name u of None \<Rightarrow> True | Some n \<Rightarrow> 1 \<le> length n \<and> length n \<le> 255) \<and>
      (case up_description u of None \<Rightarrow> True | Some d \<Rightarrow> length d \<le> 2000) \<and>
      (case up_lifecycle u of None \<Rightarrow> True | Some l \<Rightarrow> l \<notin> {LC_RETIRED, LC_MERGED}))"

definition create_asset :: "int \<Rightarrow> asset_create \<Rightarrow> cmdb \<Rightarrow> (resolution \<times> asset_row) cmdb_run" where
  "create_asset now p db =
     andThen (resolve now (ac_type p) (ac_display_name p) (ac_identifiers p) True db) (\<lambda>(res, db1).
     andThen (get_asset_row (case res of MATCHED a on \<Rightarrow> a | RESOLVED_NEW a \<Rightarrow> a) db1) (\<lambda>a.
     case ac_description p of
       None \<Rightarrow> Inr ((res, a), db1)
     | Some d \<Rightarrow> andThen (update_asset_row (\<lambda>b. b\<lparr>ca_description := Some d\<rparr>) a db1) (\<lambda>(a', db2).
         Inr ((res, a'), db2))))"

definition retire_fact :: "int \<Rightarrow> fact \<Rightarrow> fact" where
  "retire_fact now f = (close_claim now f)\<lparr>c_status :=
     if is_authoritative (c_status f) then c_status f else VS_STALE\<rparr>"

definition facts_to_close :: "uuid \<Rightarrow> cmdb \<Rightarrow> fact list" where
  "facts_to_close i db = filter (\<lambda>f. f_asset f = i \<and> live f) (fact_rows db)"

definition edges_to_close :: "uuid \<Rightarrow> cmdb \<Rightarrow> edge list" where
  "edges_to_close i db = filter (\<lambda>e. (e_source e = i \<or> e_target e = i) \<and> live e) (edge_rows db)"

definition retire_asset :: "int \<Rightarrow> uuid \<Rightarrow> cmdb \<Rightarrow> (asset_row \<times> nat \<times> nat) cmdb_run" where
  "retire_asset now i db = andThen (get_asset_row i db) (\<lambda>a.
     andThen (require (ca_lifecycle a \<noteq> LC_RETIRED) ConflictError) (\<lambda>_.
     andThen (require (ca_lifecycle a \<noteq> LC_MERGED) ConflictError) (\<lambda>_.
     andThen (enforce (concat (map (\<lambda>f. fact_checks db (retire_fact now f)) (facts_to_close i db)))) (\<lambda>_.
     andThen (enforce (concat (map (\<lambda>e. edge_checks db (close_edge now e)) (edges_to_close i db)))) (\<lambda>_.
     andThen (update_asset_row (\<lambda>a. a\<lparr>ca_lifecycle := LC_RETIRED, ca_retired_at := Some now\<rparr>) a
       (db\<lparr>fact_rows := upd_rows (\<lambda>f. f_asset f = i \<and> live f) (retire_fact now) (fact_rows db),
           edge_rows := upd_rows (\<lambda>e. (e_source e = i \<or> e_target e = i) \<and> live e) (close_edge now)
             (edge_rows db)\<rparr>)) (\<lambda>(a', db').
     Inr ((a', length (facts_to_close i db), length (edges_to_close i db)), db')))))))"

definition attach_identifier :: "int \<Rightarrow> uuid \<Rightarrow> identifier_input \<Rightarrow> cmdb \<Rightarrow> identifier_row cmdb_run" where
  "attach_identifier now i payload db = andThen (get_asset_row i db) (\<lambda>a.
     andThen (normalise_identifier payload) (\<lambda>n.
     case find (\<lambda>r. ci_asset r = i \<and> same_identifier n r \<and> ci_live r) (identifier_rows db) of
       Some r \<Rightarrow> Inr (r\<lparr>ci_last_seen := now\<rparr>, touch_identifier now r db)
     | None \<Rightarrow>
         andThen (require (\<not> (ni_unique n \<and>
             list_ex (\<lambda>r. same_identifier n r \<and> ci_live r) (identifier_rows db))) ConflictError) (\<lambda>_.
         insert_identifier (new_identifier now i n) db)))"

text \<open>\<open>retired_at = now\<close>: a retired row takes part in no index, so no constraint can fail.\<close>

definition retire_identifier :: "int \<Rightarrow> uuid \<Rightarrow> cmdb \<Rightarrow> identifier_row cmdb_run" where
  "retire_identifier now i db = (case find_row ci_id i (identifier_rows db) of
     None \<Rightarrow> Inl NotFoundError
   | Some r \<Rightarrow> andThen (require (ci_live r) ConflictError) (\<lambda>_.
       Inr (r\<lparr>ci_retired_at := Some now\<rparr>, db\<lparr>identifier_rows := upd_rows (\<lambda>g. ci_id g = i)
         (\<lambda>g. g\<lparr>ci_retired_at := Some now\<rparr>) (identifier_rows db)\<rparr>)))"

section \<open>Listing\<close>

text \<open>
  PostgreSQL's \<open>LIKE\<close>: a percent sign stands for any characters, an underscore for one, and a
  backslash takes the next character as it is.
\<close>

function (sequential) like :: "string \<Rightarrow> string \<Rightarrow> bool" where
  "like [] s = (s = [])"
| "like (p # ps) [] = (p = CHR ''%'' \<and> like ps [])"
| "like (p # ps) (c # cs) =
     (if p = CHR ''%'' then like ps (c # cs) \<or> like (p # ps) cs
      else if p = CHR 0x5C then (case ps of [] \<Rightarrow> False | q # qs \<Rightarrow> q = c \<and> like qs cs)
      else (p = CHR ''_'' \<or> p = c) \<and> like ps cs)"
  by pat_completeness auto
termination by (relation "measure (\<lambda>(p, s). length p + length s)") auto

text \<open>
  The identifier filter: with one colon the text is split there, with more at the last one.  An
  input the schema refuses is an exception inside the handler.
\<close>

definition colons :: "string \<Rightarrow> nat" where
  "colons s = length (filter (\<lambda>c. c = CHR '':'') s)"

definition split_last :: "string \<Rightarrow> string \<times> string" where
  "split_last s = (rev (drop 1 (dropWhile (\<lambda>c. c \<noteq> CHR '':'') (rev s))),
     rev (takeWhile (\<lambda>c. c \<noteq> CHR '':'') (rev s)))"

definition identifier_filter :: "string \<Rightarrow> acop_error + string \<times> string" where
  "identifier_filter text =
     (if colons text = 0 then Inl ValidationError
      else (case split_last text of (ns, v) \<Rightarrow>
        (case validate_identifier \<lparr>ii_namespace = ns, ii_value = v, ii_source_type = SRC_MANUAL_ENTRY,
              ii_source_id = ''acop:api'', ii_confidence = 1000\<rparr> of
           None \<Rightarrow> Inl UnhandledError
         | Some i \<Rightarrow> andThen (normalise_identifier i) (\<lambda>n. Inr (ns, ni_normalized n)))))"

record asset_filter =
  fl_kind :: "asset_kind option"
  fl_lifecycle :: "lifecycle_state option"
  fl_query :: "string option"
  fl_identifier :: "(string \<times> string) option"

definition selected :: "asset_filter \<Rightarrow> cmdb \<Rightarrow> asset_row \<Rightarrow> bool" where
  "selected flt db a =
    ((case fl_kind flt of None \<Rightarrow> True | Some k \<Rightarrow> ca_type a = k) \<and>
     (case fl_lifecycle flt of None \<Rightarrow> True | Some l \<Rightarrow> ca_lifecycle a = l) \<and>
     (case fl_query flt of None \<Rightarrow> True | Some q \<Rightarrow> q = [] \<or> like (lower q @ ''%'') (lower (ca_display_name a))) \<and>
     (case fl_identifier flt of None \<Rightarrow> True
      | Some (ns, v) \<Rightarrow> list_ex (\<lambda>r. ci_asset r = ca_id a \<and> ci_namespace r = ns \<and>
          ci_normalized r = v \<and> ci_live r) (identifier_rows db)))"

text \<open>
  One page.  A cursor is the position of the last row shown; the code renders it in base64.
\<close>

definition position :: "asset_row \<Rightarrow> int \<times> uuid" where
  "position a = (ca_created a, ca_id a)"

definition MAX_PAGE_SIZE :: nat where "MAX_PAGE_SIZE = 200"

definition list_assets ::
  "asset_filter \<Rightarrow> nat \<Rightarrow> (int \<times> uuid) option \<Rightarrow> cmdb \<Rightarrow> asset_row list \<times> (int \<times> uuid) option" where
  "list_assets flt requested cursor db =
    (let limit = max 1 (min requested MAX_PAGE_SIZE);
         rows = take (Suc limit) (sort_key position (filter (\<lambda>a. selected flt db a \<and>
           (case cursor of None \<Rightarrow> True | Some after \<Rightarrow> after < position a)) (asset_rows db))) in
     if limit < length rows then (take limit rows, Some (position (rows ! (limit - 1))))
     else (rows, None))"

section \<open>Retirement\<close>

text \<open>A row cut short: the same claim over a part of its interval.\<close>

definition shrinks :: "'a claim_scheme \<Rightarrow> 'a claim_scheme \<Rightarrow> bool" where
  "shrinks g h \<longleftrightarrow> c_id h = c_id g \<and> (\<forall>t. valid_at t h \<longrightarrow> valid_at t g) \<and> (live h \<longrightarrow> h = g)"

lemma ball_upd_rows: "(\<forall>r \<in> set (upd_rows p f rows). P r) \<longleftrightarrow> (\<forall>r \<in> set rows. P (if p r then f r else r))"
  by (auto simp: set_upd_rows)

lemma shrinks_refl: "shrinks g g"
  by (simp add: shrinks_def)

lemma compatible_shrinks:
  assumes "compatible g h" "shrinks g g'" "shrinks h h'" "fact_key g' = fact_key g" "fact_key h' = fact_key h"
  shows "compatible g' h'"
  using assms unfolding compatible_def overlaps_iff shrinks_def holds_authority_def by metis

lemma edges_compatible_shrinks:
  assumes "edges_compatible g h" "shrinks g g'" "shrinks h h'" "edge_key g' = edge_key g" "edge_key h' = edge_key h"
  shows "edges_compatible g' h'"
  using assms unfolding edges_compatible_def overlaps_iff shrinks_def by metis

lemma one_live_edge_shrinks:
  "one_live_edge g h \<Longrightarrow> shrinks g g' \<Longrightarrow> shrinks h h' \<Longrightarrow> one_live_edge g' h'"
  unfolding one_live_edge_def shrinks_def by metis

lemma retire_fact_simps [simp]:
  "c_id (retire_fact now f) = c_id f" "c_class (retire_fact now f) = c_class f"
  "c_source_type (retire_fact now f) = c_source_type f" "fact_key (retire_fact now f) = fact_key f"
  "c_from (retire_fact now f) = c_from f" "c_to (retire_fact now f) = Some now" "f_value (retire_fact now f) = f_value f"
  "f_asset (retire_fact now f) = f_asset f" "\<not> live (retire_fact now f)"
  "is_authoritative (c_status (retire_fact now f)) = is_authoritative (c_status f)"
  by (simp_all add: retire_fact_def close_claim_def fact_key_def live_def)

lemma closing_shrinks:
  assumes "live g" "c_id h = c_id g" "c_from h = c_from g" "c_to h = Some now"
  shows "shrinks g h"
  using assms by (auto simp: shrinks_def valid_at_def before_end_def live_def)

lemma retire_fact_shrinks: "live f \<Longrightarrow> shrinks f (retire_fact now f)"
  by (rule closing_shrinks) simp_all

lemma close_edge_shrinks: "live e \<Longrightarrow> shrinks e (close_edge now e)"
  by (rule closing_shrinks) (simp_all add: close_edge_def)

lemma retire_asset_shape:
  assumes "retire_asset now i db = Inr ((a, m, n), db')"
  obtains b where "find_asset i db = Some b" "ca_lifecycle b \<notin> {LC_RETIRED, LC_MERGED}"
    "a = b\<lparr>ca_lifecycle := LC_RETIRED, ca_retired_at := Some now\<rparr>"
    "m = length (facts_to_close i db)" "n = length (edges_to_close i db)"
    "\<forall>f \<in> set (fact_rows db). f_asset f = i \<and> live f \<longrightarrow> (\<forall>c \<in> set (fact_row_checks (retire_fact now f)). snd c)"
    "\<forall>e \<in> set (edge_rows db). (e_source e = i \<or> e_target e = i) \<and> live e \<longrightarrow>
       (\<forall>c \<in> set (edge_row_checks (close_edge now e)). snd c)"
    "db' = db\<lparr>asset_rows := upd_rows (\<lambda>b. ca_id b = i)
         (\<lambda>a. a\<lparr>ca_lifecycle := LC_RETIRED, ca_retired_at := Some now\<rparr>) (asset_rows db),
       fact_rows := upd_rows (\<lambda>f. f_asset f = i \<and> live f) (retire_fact now) (fact_rows db),
       edge_rows := upd_rows (\<lambda>e. (e_source e = i \<or> e_target e = i) \<and> live e) (close_edge now) (edge_rows db)\<rparr>"
proof -
  from assms obtain b where b: "find_asset i db = Some b" "ca_lifecycle b \<notin> {LC_RETIRED, LC_MERGED}"
    and checks: "\<forall>f \<in> set (facts_to_close i db). \<forall>c \<in> set (fact_checks db (retire_fact now f)). snd c"
      "\<forall>e \<in> set (edges_to_close i db). \<forall>c \<in> set (edge_checks db (close_edge now e)). snd c"
    and rest: "a = b\<lparr>ca_lifecycle := LC_RETIRED, ca_retired_at := Some now\<rparr>"
      "m = length (facts_to_close i db)" "n = length (edges_to_close i db)"
      "db' = db\<lparr>asset_rows := upd_rows (\<lambda>c. ca_id c = ca_id b)
         (\<lambda>a. a\<lparr>ca_lifecycle := LC_RETIRED, ca_retired_at := Some now\<rparr>) (asset_rows db),
       fact_rows := upd_rows (\<lambda>f. f_asset f = i \<and> live f) (retire_fact now) (fact_rows db),
       edge_rows := upd_rows (\<lambda>e. (e_source e = i \<or> e_target e = i) \<and> live e) (close_edge now) (edge_rows db)\<rparr>"
    by (auto simp: retire_asset_def update_asset_row_def get_asset_row_def andThen_eq_Inr enforce_Inr
        require_Inr split: option.splits)
  have "ca_id b = i" using b(1) find_row_SomeD unfolding find_asset_def by metis
  with b checks rest show thesis
    by (intro that) (auto simp: facts_to_close_def edges_to_close_def fact_checks_def edge_checks_def)
qed

lemma retire_asset_facts_ok:
  assumes ok: "facts_ok db" and run: "retire_asset now i db = Inr (out, db')"
  shows "facts_ok db'"
proof -
  obtain a m n where "out = (a, m, n)" by (cases out) auto
  with run obtain checks: "\<forall>f \<in> set (fact_rows db). f_asset f = i \<and> live f \<longrightarrow>
      (\<forall>c \<in> set (fact_row_checks (retire_fact now f)). snd c)"
    and rows: "fact_rows db' = upd_rows (\<lambda>f. f_asset f = i \<and> live f) (retire_fact now) (fact_rows db)"
    "fresh_id db' = fresh_id db"
    by (auto elim!: retire_asset_shape)
  let ?cut = "\<lambda>f. if f_asset f = i \<and> live f then retire_fact now f else f"
  have frame: "shrinks f (?cut f)" "fact_key (?cut f) = fact_key f" "c_id (?cut f) = c_id f" for f
    by (simp_all add: shrinks_refl retire_fact_shrinks)
  have "fact_row_ok (?cut f)" if "f \<in> set (fact_rows db)" for f
    using facts_okD(3) [OF ok that] checks that by (auto simp: fact_row_ok_def)
  moreover have "compatible (?cut g) (?cut f)" if "g \<in> set (fact_rows db)" "f \<in> set (fact_rows db)" for g f
    by (rule compatible_shrinks [OF facts_okD(4) [OF ok that]]) (simp_all only: frame)
  moreover have "map c_id (fact_rows db') = map c_id (fact_rows db)"
    unfolding rows by (rule map_upd_rows_frame) simp
  ultimately show ?thesis
    using facts_okD(1,2) [OF ok] frame(3) unfolding facts_ok_def rows ball_upd_rows by metis
qed

lemma retire_asset_edges_ok:
  assumes ok: "edges_ok db" and run: "retire_asset now i db = Inr (out, db')"
  shows "edges_ok db'"
proof -
  obtain a m n where "out = (a, m, n)" by (cases out) auto
  with run obtain checks: "\<forall>e \<in> set (edge_rows db). (e_source e = i \<or> e_target e = i) \<and> live e \<longrightarrow>
      (\<forall>c \<in> set (edge_row_checks (close_edge now e)). snd c)"
    and rows: "edge_rows db' = upd_rows (\<lambda>e. (e_source e = i \<or> e_target e = i) \<and> live e) (close_edge now) (edge_rows db)"
    "fresh_id db' = fresh_id db"
    by (auto elim!: retire_asset_shape)
  let ?cut = "\<lambda>e. if (e_source e = i \<or> e_target e = i) \<and> live e then close_edge now e else e"
  have frame: "shrinks e (?cut e)" "edge_key (?cut e) = edge_key e" "c_id (?cut e) = c_id e" for e
    by (simp_all add: shrinks_refl close_edge_shrinks) (simp add: close_edge_def edge_key_def)
  have "edge_row_ok (?cut e)" if "e \<in> set (edge_rows db)" for e
  proof (cases "(e_source e = i \<or> e_target e = i) \<and> live e")
    case True
    then show ?thesis
      using edges_okD(3) [OF ok that] checks that by (auto simp: edge_row_ok_def close_edge_def)
  qed (use edges_okD(3) [OF ok that] in auto)
  moreover have "edges_compatible (?cut d) (?cut e) \<and> one_live_edge (?cut d) (?cut e)"
    if "d \<in> set (edge_rows db)" "e \<in> set (edge_rows db)" for d e
    using edges_compatible_shrinks [OF edges_okD(4) [OF ok that] frame(1) frame(1) frame(2) frame(2)]
      one_live_edge_shrinks [OF edges_okD(5) [OF ok that] frame(1) frame(1)] by blast
  moreover have "map c_id (edge_rows db') = map c_id (edge_rows db)"
    unfolding rows by (rule map_upd_rows_frame) simp
  moreover have "c_id (?cut e) < fresh_id db" if "e \<in> set (edge_rows db)" for e
    unfolding frame(3) by (rule edges_okD(2) [OF ok that])
  ultimately show ?thesis
    using edges_okD(1) [OF ok] unfolding edges_ok_def ball_upd_rows rows by (intro conjI ballI) simp_all
qed

lemma retire_asset_attested:
  assumes "attested db" and run: "retire_asset now i db = Inr (out, db')"
  shows "attested db'"
proof -
  obtain a m n where "out = (a, m, n)" by (cases out) auto
  with run have rows: "fact_rows db' = upd_rows (\<lambda>f. f_asset f = i \<and> live f) (retire_fact now) (fact_rows db)"
    "attestation_rows db' = attestation_rows db"
    by (auto elim!: retire_asset_shape)
  have "attests (retire_fact now f) = attests f" if "is_authoritative (c_status f)" for f
    using that by (auto simp: retire_fact_def attests_def close_claim_def fun_eq_iff)
  with assms(1) show ?thesis unfolding attested_def rows ball_upd_rows by auto
qed

lemma retire_asset_identifiers:
  assumes ok: "identifiers_ok db" and run: "retire_asset now i db = Inr (out, db')"
  shows "identifiers_ok db' \<and> carries db' = carries db"
proof -
  obtain a m n where "out = (a, m, n)" by (cases out) auto
  with run have "identifier_rows db' = identifier_rows db" "fresh_id db' = fresh_id db"
    "map ca_id (asset_rows db') = map ca_id (asset_rows db)"
    by (auto elim!: retire_asset_shape simp: map_upd_rows_frame)
  with identifiers_ok_cong [OF ok] show ?thesis by (simp add: carries_def)
qed

text \<open>
  Retiring an asset deletes nothing: every fact keeps its past, and its history ends at that
  instant; no live fact and no live edge of the asset is left, authority is not taken from any
  row, and what has not been vouched for is marked stale.
\<close>

theorem retirement_keeps_history:
  assumes ok: "facts_ok db" "edges_ok db" and run: "retire_asset now i db = Inr ((a, m, n), db')"
  shows "ca_id a = i \<and> ca_lifecycle a = LC_RETIRED \<and> find_asset i db' = Some a \<and>
    map c_id (fact_rows db') = map c_id (fact_rows db) \<and> map c_id (edge_rows db') = map c_id (edge_rows db) \<and>
    facts_to_close i db' = [] \<and> edges_to_close i db' = [] \<and>
    (\<forall>k t. fact_timeline db' k t =
       (if fst k = i \<and> now \<le> t \<and> (\<exists>f \<in> set (fact_rows db). live f \<and> fact_key f = k) then None
        else fact_timeline db k t))"
proof -
  from run obtain b where b: "find_asset i db = Some b" "a = b\<lparr>ca_lifecycle := LC_RETIRED, ca_retired_at := Some now\<rparr>"
    and checks: "\<forall>f \<in> set (fact_rows db). f_asset f = i \<and> live f \<longrightarrow>
      (\<forall>c \<in> set (fact_row_checks (retire_fact now f)). snd c)"
    and db': "db' = db\<lparr>asset_rows := upd_rows (\<lambda>b. ca_id b = i)
         (\<lambda>a. a\<lparr>ca_lifecycle := LC_RETIRED, ca_retired_at := Some now\<rparr>) (asset_rows db),
       fact_rows := upd_rows (\<lambda>f. f_asset f = i \<and> live f) (retire_fact now) (fact_rows db),
       edge_rows := upd_rows (\<lambda>e. (e_source e = i \<or> e_target e = i) \<and> live e) (close_edge now) (edge_rows db)\<rparr>"
    by (rule retire_asset_shape) blast
  let ?p = "\<lambda>f. f_asset f = i \<and> live f"
  have "ca_id b = i" using b(1) find_row_SomeD unfolding find_asset_def by metis
  moreover from this have "find_asset i db' = Some a"
    using b by (simp add: db' find_asset_def find_row_upd_rows)
  moreover have "map c_id (fact_rows db') = map c_id (fact_rows db)" "map c_id (edge_rows db') = map c_id (edge_rows db)"
    by (simp_all add: db' map_upd_rows_frame)
  moreover have "\<forall>f \<in> set (fact_rows db'). \<not> ?p f"
    by (simp add: db' ball_upd_rows)
  then have "facts_to_close i db' = []" by (simp add: facts_to_close_def filter_empty_conv)
  moreover have "\<forall>e \<in> set (edge_rows db'). \<not> ((e_source e = i \<or> e_target e = i) \<and> live e)"
    by (simp add: db' ball_upd_rows)
  then have "edges_to_close i db' = []" by (simp add: edges_to_close_def filter_empty_conv)
  moreover have "fact_timeline db' k t = (if fst k = i \<and> now \<le> t \<and>
      (\<exists>f \<in> set (fact_rows db). live f \<and> fact_key f = k) then None else fact_timeline db k t)" for k t
  proof -
    have cut: "timeline fact_key f_value (fact_rows db') = timeline fact_key f_value (close_rows ?p now (fact_rows db))"
      unfolding close_rows_def
      by (rule timeline_cong) (simp add: db' upd_rows_def)
    have "c_from f \<le> now" if "f \<in> set (fact_rows db)" "?p f" for f
      using checks that by (auto simp: fact_row_checks_def provenance_checks_def)
    then have "now \<le> t \<and> (\<exists>r \<in> set (fact_rows db). ?p r \<and> fact_key r = k \<and> c_from r \<le> t) \<longleftrightarrow>
        now \<le> t \<and> (\<exists>r \<in> set (fact_rows db). ?p r \<and> fact_key r = k)"
      by (meson order_trans)
    moreover have "\<dots> \<longleftrightarrow> fst k = i \<and> now \<le> t \<and> (\<exists>f \<in> set (fact_rows db). live f \<and> fact_key f = k)"
      by (auto simp: fact_key_def)
    ultimately have hit: "(now \<le> t \<and> (\<exists>r \<in> set (fact_rows db). ?p r \<and> fact_key r = k \<and> c_from r \<le> t)) =
        (fst k = i \<and> now \<le> t \<and> (\<exists>f \<in> set (fact_rows db). live f \<and> fact_key f = k))"
      by (rule trans)
    have "\<forall>r \<in> set (fact_rows db). ?p r \<longrightarrow> live r" by simp
    from fact_lineage.timeline_close [OF facts_okD(1) [OF ok(1)] facts_no_overlap [OF ok(1)] this, of now k t]
    show ?thesis unfolding fact_timeline_def cut hit .
  qed
  ultimately show ?thesis using b(2) by simp
qed

text \<open>
  Retirement frees no identifier: a source that still reports one is matched to the retired asset.
\<close>

theorem retired_asset_still_matches:
  assumes ok: "identifiers_ok db" and run: "retire_asset now i db = Inr (out, db1)"
    and "(i, k) \<in> carries db" and "normalise_identifier p = Inr n" "nkey n = k" "namespace_unique (fst k)"
  shows "\<exists>on db2. resolve later kind name [p] create db1 = Inr (MATCHED i on, db2) \<and>
    (\<forall>a. find_asset i db2 = Some a \<longrightarrow> ca_lifecycle a = LC_RETIRED)"
proof -
  note kept = retire_asset_identifiers [OF ok run]
  obtain a m c where out: "out = (a, m, c)" by (cases out) auto
  obtain b where b: "find_asset i db1 = Some b" "ca_lifecycle b = LC_RETIRED"
    using run unfolding out
  proof (rule retire_asset_shape)
    fix b' assume "find_asset i db = Some b'" "db1 = db\<lparr>asset_rows := upd_rows (\<lambda>b. ca_id b = i)
         (\<lambda>a. a\<lparr>ca_lifecycle := LC_RETIRED, ca_retired_at := Some now\<rparr>) (asset_rows db),
       fact_rows := upd_rows (\<lambda>f. f_asset f = i \<and> live f) (retire_fact now) (fact_rows db),
       edge_rows := upd_rows (\<lambda>e. (e_source e = i \<or> e_target e = i) \<and> live e) (close_edge now) (edge_rows db)\<rparr>"
    then have "find_asset i db1 = Some (b'\<lparr>ca_lifecycle := LC_RETIRED, ca_retired_at := Some now\<rparr>)"
      using find_row_SomeD [of ca_id i "asset_rows db" b'] by (simp add: find_asset_def find_row_upd_rows)
    then show thesis by (rule that) simp
  qed
  have ns: "normalise_all [p] = Inr [n]" using assms(4) by simp
  have "ni_unique n" using normalise_identifier_unique [OF assms(4)] assms(5,6) by (auto simp: nkey_def)
  then have keys: "unique_keys [n] = {k}" by (simp add: unique_keys_def assms(5))
  have "claimants (unique_keys [n]) db1 = {i}"
    using unique_identifier_owner [of db1 _ k i] kept assms(3,6) unfolding keys claimants_def by blast
  then obtain on where match: "find_matches [n] db1 = [(i, on)]" using one_match_iff by blast
  have "\<forall>n \<in> set [n]. (i, nkey n) \<in> carries (seen_now i later db1)" using kept assms(3,5) by simp
  from attach_missing_again [OF this] obtain db2 where
    db2: "attach_missing later i [n] (seen_now i later db1) = Inr db2" "asset_rows db2 = asset_rows (seen_now i later db1)"
    by blast
  have "resolve later kind name [p] create db1 = Inr (MATCHED i (sort on), db2)"
    using ns match b(1) db2(1) by (simp add: resolve_def del: normalise_all.simps)
  moreover have "ca_lifecycle a = LC_RETIRED" if "find_asset i db2 = Some a" for a
  proof -
    have "find_asset i db2 = map_option (\<lambda>a. if ca_id a = i then a\<lparr>ca_last_seen := later\<rparr> else a) (find_asset i db1)"
      unfolding find_asset_def db2(2) seen_now_def by (simp add: find_row_upd_rows)
    with that b show ?thesis by (auto split: if_splits)
  qed
  ultimately show ?thesis by blast
qed

section \<open>Identifiers by hand\<close>

lemma same_identifier_iff: "same_identifier n r \<longleftrightarrow> ikey r = nkey n"
  by (auto simp: same_identifier_def ikey_def nkey_def)

lemma insert_identifier_runs:
  assumes ok: "identifiers_ok db" and "find_asset i db \<noteq> None" and "matches_namespace (ni_namespace n)"
    and "0 \<le> ni_confidence n" "ni_confidence n \<le> 1000" and "(i, nkey n) \<notin> carries db"
    and "ni_unique n = namespace_unique (ni_namespace n)"
    and "\<And>b. namespace_unique (ni_namespace n) \<Longrightarrow> (b, nkey n) \<notin> carries db"
  shows "\<exists>r db'. insert_identifier (new_identifier now i n) db = Inr (r, db')"
proof -
  let ?r = "new_identifier now i n (fresh_id db)"
  have clash: "\<not> (ci_retired_at j = None \<and> ci_unique j \<and> ni_unique n \<and> ci_namespace j = ni_namespace n \<and>
      ci_normalized j = ni_normalized n)"
    and own: "\<not> (ci_retired_at j = None \<and> ci_asset j = i \<and> ci_namespace j = ni_namespace n \<and>
      ci_normalized j = ni_normalized n)" if "j \<in> set (identifier_rows db)" for j
    using assms(6,7,8) that by (auto simp: carries_iff ikey_def nkey_def ci_live_def)
  have "\<forall>c \<in> set (identifier_checks db ?r). snd c"
    using assms(2-5) clash own
    by (auto simp: identifier_checks_def new_identifier_def list_all_iff simp del: not_None_eq)
  then have "enforce (identifier_checks db ?r) = Inr ()" by (simp add: enforce_Inr)
  then show ?thesis by (simp add: insert_identifier_def Let_def)
qed

lemma attach_contract:
  assumes ok: "identifiers_ok db" and "find_asset i db \<noteq> None" and "normalise_identifier p = Inr n"
    and "matches_namespace (ii_namespace p)" and "0 \<le> ii_confidence p" "ii_confidence p \<le> 1000"
  shows "if namespace_unique (fst (nkey n)) \<and> (\<exists>b. b \<noteq> i \<and> (b, nkey n) \<in> carries db)
    then attach_identifier now i p db = Inl ConflictError
    else \<exists>r db'. attach_identifier now i p db = Inr (r, db') \<and> attached i {nkey n} db db' \<and>
      length (identifier_rows db') =
        length (identifier_rows db) + (if (i, nkey n) \<in> carries db then 0 else 1)"
proof -
  note unique = normalise_identifier_unique [OF assms(3)]
  have n: "ni_namespace n = ii_namespace p" "ni_confidence n = ii_confidence p"
    using assms(3) by (auto simp: normalise_identifier_def Let_def split: if_splits)
  have key: "fst (nkey n) = ni_namespace n" by (simp add: nkey_def)
  obtain a where a: "get_asset_row i db = Inr a" using assms(2) by (auto simp: get_asset_row_def)
  let ?own = "find (\<lambda>r. ci_asset r = i \<and> same_identifier n r \<and> ci_live r) (identifier_rows db)"
  let ?taken = "list_ex (\<lambda>r. same_identifier n r \<and> ci_live r) (identifier_rows db)"
  have run: "attach_identifier now i p db = (case ?own of
       Some r \<Rightarrow> Inr (r\<lparr>ci_last_seen := now\<rparr>, touch_identifier now r db)
     | None \<Rightarrow> andThen (require (\<not> (ni_unique n \<and> ?taken)) ConflictError)
         (\<lambda>_. insert_identifier (new_identifier now i n) db))"
    by (simp add: attach_identifier_def a assms(3))
  have taken: "?taken \<longleftrightarrow> (\<exists>b. (b, nkey n) \<in> carries db)"
    by (auto simp: list_ex_iff carries_iff same_identifier_iff)
  show ?thesis
  proof (cases ?own)
    case (Some r)
    then have mine: "(i, nkey n) \<in> carries db" by (auto simp: find_Some_iff carries_iff same_identifier_iff)
    then have "\<not> (namespace_unique (fst (nkey n)) \<and> (\<exists>b. b \<noteq> i \<and> (b, nkey n) \<in> carries db))"
      using unique_identifier_owner [OF ok] by blast
    moreover have "attached i {nkey n} db (touch_identifier now r db)"
      using touch_identifier_ok [OF ok] mine by (auto simp: attached_def)
    ultimately show ?thesis using run Some mine by simp
  next
    case None
    then have fresh: "(i, nkey n) \<notin> carries db" by (auto simp: find_None_iff carries_iff same_identifier_iff)
    show ?thesis
    proof (cases "ni_unique n \<and> ?taken")
      case True
      then have "namespace_unique (fst (nkey n)) \<and> (\<exists>b. b \<noteq> i \<and> (b, nkey n) \<in> carries db)"
        using unique taken key fresh by metis
      then show ?thesis using run None True by simp
    next
      case False
      then have free: "\<not> (namespace_unique (ni_namespace n) \<and> (\<exists>b. (b, nkey n) \<in> carries db))"
        using unique taken by simp
      then obtain r db' where ins: "insert_identifier (new_identifier now i n) db = Inr (r, db')"
        using insert_identifier_runs [OF ok assms(2) _ _ _ fresh unique, of now] n assms(4-6) by auto
      note step = insert_identifier_step [OF ok unique ins]
      have "attached i {nkey n} db db'" using step by (auto simp: attached_def)
      then show ?thesis using run None False free ins step(10) fresh key by auto
    qed
  qed
qed

text \<open>
  Attaching by hand never takes an identifier in a unique namespace from another asset; anything
  else is attached, once.
\<close>

theorem attach_identifier_decides:
  assumes ok: "identifiers_ok db" and "find_asset i db \<noteq> None" and "normalise_identifier p = Inr n"
    and "matches_namespace (ii_namespace p)" and "0 \<le> ii_confidence p" "ii_confidence p \<le> 1000"
  shows "if namespace_unique (fst (nkey n)) \<and> (\<exists>b. b \<noteq> i \<and> (b, nkey n) \<in> carries db)
    then attach_identifier now i p db = Inl ConflictError
    else \<exists>r db'. attach_identifier now i p db = Inr (r, db') \<and> attached i {nkey n} db db' \<and>
      length (identifier_rows db') =
        length (identifier_rows db) + (if (i, nkey n) \<in> carries db then 0 else 1)"
  by (rule attach_contract [OF assms])

lemma retire_identifier_step:
  assumes ok: "identifiers_ok db" and run: "retire_identifier now j db = Inr (r, db')"
  shows "identifiers_ok db' \<and> carries db' = carries db - {(ci_asset r, ikey r)} \<and> (ci_asset r, ikey r) \<in> carries db \<and>
    asset_rows db' = asset_rows db \<and> fact_rows db' = fact_rows db \<and> edge_rows db' = edge_rows db \<and>
    attestation_rows db' = attestation_rows db \<and> fresh_id db' = fresh_id db"
proof -
  from run obtain q where q: "find_row ci_id j (identifier_rows db) = Some q" "ci_live q"
    "r = q\<lparr>ci_retired_at := Some now\<rparr>" "db' = db\<lparr>identifier_rows := upd_rows (\<lambda>g. ci_id g = j)
       (\<lambda>g. g\<lparr>ci_retired_at := Some now\<rparr>) (identifier_rows db)\<rparr>"
    by (auto simp: retire_identifier_def andThen_eq_Inr split: option.splits)
  let ?cut = "\<lambda>g. if ci_id g = j then g\<lparr>ci_retired_at := Some now\<rparr> else g"
  have qin: "q \<in> set (identifier_rows db)" "ci_id q = j" using find_row_SomeD [OF q(1)] by auto
  have at: "ci_id g = j \<longleftrightarrow> g = q" if "g \<in> set (identifier_rows db)" for g
    using identifiers_okD(2) [OF ok] qin that by (auto simp: distinct_map inj_on_def)
  have same: "(ci_asset g, ikey g) = (ci_asset q, ikey q) \<Longrightarrow> ci_live g \<Longrightarrow> g = q" if "g \<in> set (identifier_rows db)" for g
    using identifiers_okD(7) [OF ok that qin(1)] at [OF that] qin q(2) by (auto simp: identifiers_agree_def)
  have key: "ci_asset r = ci_asset q" "ikey r = ikey q" by (simp_all add: q(3) ikey_def)
  have live: "ci_live (?cut g) \<longleftrightarrow> ci_live g \<and> ci_id g \<noteq> j" and frame: "ci_asset (?cut g) = ci_asset g" "ikey (?cut g) = ikey g"
    "ci_id (?cut g) = ci_id g" "ci_unique (?cut g) = ci_unique g" "ci_namespace (?cut g) = ci_namespace g" for g
    by (simp_all add: ci_live_def ikey_def)
  have left: "(a, k) \<in> carries db' \<longleftrightarrow>
      (\<exists>g \<in> set (identifier_rows db). ci_live g \<and> ci_id g \<noteq> j \<and> ci_asset g = a \<and> ikey g = k)" for a k
  proof -
    have "(\<forall>g \<in> set (identifier_rows db'). \<not> (ci_live g \<and> ci_asset g = a \<and> ikey g = k)) \<longleftrightarrow>
        (\<forall>g \<in> set (identifier_rows db). \<not> (ci_live (?cut g) \<and> ci_asset (?cut g) = a \<and> ikey (?cut g) = k))"
      using ball_upd_rows [of "\<lambda>g. ci_id g = j" "\<lambda>g. g\<lparr>ci_retired_at := Some now\<rparr>" "identifier_rows db"
        "\<lambda>g. \<not> (ci_live g \<and> ci_asset g = a \<and> ikey g = k)"]
      unfolding q(4) by simp
    then show ?thesis unfolding live frame carries_iff by blast
  qed
  have "(a, k) \<in> carries db' \<longleftrightarrow> (a, k) \<in> carries db \<and> (a, k) \<noteq> (ci_asset q, ikey q)" for a k
    unfolding left unfolding carries_iff using at same by metis
  then have "carries db' = carries db - {(ci_asset r, ikey r)}" unfolding key by auto
  moreover have "(ci_asset r, ikey r) \<in> carries db" using qin q(2) by (auto simp: carries_iff key)
  moreover have "identifiers_agree (?cut g) (?cut h)" if "g \<in> set (identifier_rows db)" "h \<in> set (identifier_rows db)" for g h
    using identifiers_okD(7) [OF ok that] unfolding identifiers_agree_def live frame by blast
  then have "\<forall>g \<in> set (identifier_rows db'). \<forall>h \<in> set (identifier_rows db'). identifiers_agree g h"
    by (simp add: q(4) ball_upd_rows)
  moreover have "\<forall>g \<in> set (identifier_rows db'). ci_id g < fresh_id db \<and>
      ci_unique g = namespace_unique (ci_namespace g) \<and> find_asset (ci_asset g) db \<noteq> None"
    using identifiers_okD(4-6) [OF ok] by (auto simp: q(4) ball_upd_rows)
  moreover have "map ci_id (identifier_rows db') = map ci_id (identifier_rows db)" by (simp add: q(4) map_upd_rows_frame)
  moreover have "find_asset a db' = find_asset a db" for a by (simp add: q(4) find_asset_def)
  ultimately show ?thesis
    using identifiers_okD(1-3) [OF ok] unfolding identifiers_ok_def by (simp add: q(4))
qed

text \<open>Retiring an identifier frees its value: another asset may carry it afterwards.\<close>

theorem retired_identifier_is_free:
  assumes ok: "identifiers_ok db" and run: "retire_identifier now j db = Inr (r, db1)"
    and "find_asset i db \<noteq> None" and "normalise_identifier p = Inr n" "nkey n = ikey r"
    and "matches_namespace (ii_namespace p)" "0 \<le> ii_confidence p" "ii_confidence p \<le> 1000"
    and "namespace_unique (ii_namespace p)"
  shows "\<exists>s db2. attach_identifier later i p db1 = Inr (s, db2) \<and> (i, ikey r) \<in> carries db2 \<and>
    (\<forall>b. (b, ikey r) \<in> carries db2 \<longrightarrow> b = i)"
proof -
  note step = retire_identifier_step [OF ok run]
  then have ok1: "identifiers_ok db1" and asset: "find_asset i db1 \<noteq> None" using assms(3) by (auto simp: find_asset_def)
  have ns: "fst (nkey n) = ii_namespace p"
    using assms(4) by (auto simp: normalise_identifier_def nkey_def Let_def split: if_splits)
  have none: "(b, ikey r) \<notin> carries db1" for b
    using step unique_identifier_owner [OF ok, of b "ikey r" "ci_asset r"] ns assms(5,9) by auto
  with attach_contract [OF ok1 asset assms(4,6,7,8), of later] assms(5) show ?thesis
    by (auto simp: attached_def)
qed

section \<open>Paging\<close>

definition in_view :: "asset_filter \<Rightarrow> (int \<times> uuid) option \<Rightarrow> cmdb \<Rightarrow> asset_row \<Rightarrow> bool" where
  "in_view flt cursor db a \<longleftrightarrow> selected flt db a \<and>
     (case cursor of None \<Rightarrow> True | Some after \<Rightarrow> after < position a)"

definition view :: "asset_filter \<Rightarrow> (int \<times> uuid) option \<Rightarrow> cmdb \<Rightarrow> asset_row list" where
  "view flt cursor db = sort_key position (filter (in_view flt cursor db) (asset_rows db))"

text \<open>A client that follows the cursors, over the databases it meets page after page.\<close>

fun crawl :: "asset_filter \<Rightarrow> nat \<Rightarrow> (int \<times> uuid) option \<Rightarrow> cmdb list \<Rightarrow> asset_row list option" where
  "crawl flt n cursor [] = None"
| "crawl flt n cursor (db # dbs) = (case list_assets flt n cursor db of
     (rows, None) \<Rightarrow> Some rows
   | (rows, Some after) \<Rightarrow> map_option (\<lambda>more. rows @ more) (crawl flt n (Some after) dbs))"

definition page_limit :: "nat \<Rightarrow> nat" where
  "page_limit n = max 1 (min n MAX_PAGE_SIZE)"

lemma page_limit_pos: "0 < page_limit n" by (simp add: page_limit_def)

lemma list_assets_view:
  "list_assets flt n cursor db =
    (if page_limit n < length (view flt cursor db)
     then (take (page_limit n) (view flt cursor db), Some (position (view flt cursor db ! (page_limit n - 1))))
     else (view flt cursor db, None))"
  unfolding list_assets_def Let_def page_limit_def [symmetric] in_view_def [symmetric] view_def [symmetric]
  using page_limit_pos [of n] by (auto simp: not_less)

lemma view_strict:
  assumes "distinct (map ca_id (asset_rows db))"
  shows "sorted_wrt (\<lambda>a b. position a < position b) (view flt cursor db)"
proof -
  have "inj_on position (set (asset_rows db))"
    using assms by (auto simp: inj_on_def distinct_map position_def)
  then have "distinct (map position (filter (in_view flt cursor db) (asset_rows db)))"
    using assms by (auto simp: distinct_map intro: distinct_filter inj_on_subset)
  then have "distinct (map position (view flt cursor db))"
    by (simp add: view_def distinct_map)
  moreover have "sorted (map position (view flt cursor db))" by (simp add: view_def)
  ultimately have "sorted_wrt (<) (map position (view flt cursor db))" by (simp add: strict_sorted_iff)
  then show ?thesis by (simp add: sorted_wrt_map)
qed

text \<open>A page that is cut off leaves exactly the rows behind its cursor.\<close>

lemma view_after:
  assumes "distinct (map ca_id (asset_rows db))" and "k < length (view flt cursor db)"
  shows "view flt (Some (position (view flt cursor db ! k))) db = drop (Suc k) (view flt cursor db)"
proof -
  let ?v = "view flt cursor db" let ?c = "position (view flt cursor db ! k)"
  have strict: "sorted_wrt (\<lambda>a b. position a < position b) ?v" by (rule view_strict [OF assms(1)])
  have "?v ! k \<in> set ?v" using assms(2) by simp
  then have "in_view flt cursor db (?v ! k)" by (simp add: view_def)
  then have "in_view flt (Some ?c) db a \<longleftrightarrow> ?c < position a \<and> in_view flt cursor db a" for a
    by (auto simp: in_view_def split: option.splits)
  then have "view flt (Some ?c) db = filter (\<lambda>a. ?c < position a) ?v"
    by (simp add: view_def filter_sort conj_commute cong: filter_cong)
  also have "filter (\<lambda>a. ?c < position a) ?v = filter (\<lambda>a. ?c < position a) (take (Suc k) ?v @ drop (Suc k) ?v)"
    by (simp only: append_take_drop_id)
  also have "\<dots> = drop (Suc k) ?v"
  proof -
    have "\<not> ?c < position a" if "a \<in> set (take (Suc k) ?v)" for a
    proof -
      from that obtain j where "j < length (take (Suc k) ?v)" "a = take (Suc k) ?v ! j"
        by (metis in_set_conv_nth)
      then have "j \<le> k" "a = ?v ! j" by simp_all
      then show ?thesis
        using sorted_wrt_nth_less [OF strict, of j k] assms(2) by (cases "j = k") auto
    qed
    moreover have "?c < position a" if "a \<in> set (drop (Suc k) ?v)" for a
    proof -
      from that obtain j where "j < length ?v - Suc k" "a = ?v ! (Suc k + j)"
        by (auto simp: in_set_conv_nth)
      then show ?thesis using sorted_wrt_nth_less [OF strict, of k "Suc k + j"] by simp
    qed
    ultimately show ?thesis unfolding filter_append by (simp add: filter_False filter_True)
  qed
  finally show ?thesis .
qed

text \<open>
  The listing of a database at rest: however small the page, the pages end, and together they are
  the selected rows, each once, by creation time.
\<close>

theorem paging_lists_everything:
  assumes "distinct (map ca_id (asset_rows db))" and "length (view flt cursor db) \<le> m"
  shows "crawl flt n cursor (replicate (Suc m) db) = Some (view flt cursor db)"
  using assms(2)
proof (induction m arbitrary: cursor)
  case 0
  then show ?case by (simp add: list_assets_view)
next
  case (Suc m)
  let ?v = "view flt cursor db" let ?l = "page_limit n"
  show ?case
  proof (cases "?l < length ?v")
    case True
    have rest: "view flt (Some (position (?v ! (?l - 1)))) db = drop ?l ?v"
      using view_after [OF assms(1), of "?l - 1" flt cursor] True page_limit_pos [of n] by simp
    then have "length (view flt (Some (position (?v ! (?l - 1)))) db) \<le> m"
      using Suc.prems page_limit_pos [of n] by simp
    from Suc.IH [OF this] show ?thesis
      using True rest by (simp add: list_assets_view)
  qed (simp add: list_assets_view)
qed

lemma only_row:
  assumes dist: "distinct (map ca_id (asset_rows db))" and x: "x \<in> set (asset_rows db)" and "distinct rows"
    and "set rows \<subseteq> set (asset_rows db)"
  shows "filter (\<lambda>a. ca_id a = ca_id x) rows = (if x \<in> set rows then [x] else [])"
proof -
  have "ca_id a = ca_id x \<longleftrightarrow> a = x" if "a \<in> set rows" for a
    using dist x assms(4) that by (auto simp: distinct_map inj_on_def)
  then have "filter (\<lambda>a. ca_id a = ca_id x) rows = filter (\<lambda>a. a = x) rows" by (simp cong: filter_cong)
  also have "\<dots> = (if x \<in> set rows then [x] else [])" using assms(3) by (induction rows) auto
  finally show ?thesis .
qed

lemma crawl_meets_once:
  assumes "\<forall>db \<in> set dbs. distinct (map ca_id (asset_rows db))"
    and "\<forall>db \<in> set dbs. \<exists>a \<in> set (asset_rows db). position a = p \<and> selected flt db a"
    and "crawl flt n cursor dbs = Some rows"
  shows "length (filter (\<lambda>a. ca_id a = snd p) rows) =
    (if (case cursor of None \<Rightarrow> True | Some after \<Rightarrow> after < p) then 1 else 0)"
  using assms
proof (induction dbs arbitrary: cursor rows)
  case (Cons db dbs)
  let ?v = "view flt cursor db" let ?l = "page_limit n" let ?here = "\<lambda>a. ca_id a = snd p"
  let ?ahead = "\<lambda>c. case c of None \<Rightarrow> True | Some after \<Rightarrow> after < p"
  have dist: "distinct (map ca_id (asset_rows db))" using Cons.prems(1) by simp
  obtain x where x: "x \<in> set (asset_rows db)" "position x = p" "selected flt db x" using Cons.prems(2) by auto
  have id: "snd p = ca_id x" using x(2) by (auto simp: position_def)
  have seen: "x \<in> set ?v \<longleftrightarrow> ?ahead cursor" using x by (simp add: view_def in_view_def split: option.splits)
  have strict: "sorted_wrt (\<lambda>a b. position a < position b) ?v" by (rule view_strict [OF dist])
  then have "sorted_wrt (<) (map position ?v)" by (simp add: sorted_wrt_map)
  then have distv: "distinct ?v" by (simp add: strict_sorted_iff distinct_map)
  have sub: "set ?v \<subseteq> set (asset_rows db)" by (auto simp: view_def)
  show ?case
  proof (cases "?l < length ?v")
    case False
    then have "rows = ?v" using Cons.prems(3) by (simp add: list_assets_view)
    then show ?thesis using only_row [OF dist x(1) distv sub] seen by (simp add: id)
  next
    case True
    let ?c = "position (?v ! (?l - 1))"
    obtain more where more: "crawl flt n (Some ?c) dbs = Some more" "rows = take ?l ?v @ more"
      using Cons.prems(3) True by (auto simp: list_assets_view)
    have "distinct (take ?l ?v)" "set (take ?l ?v) \<subseteq> set (asset_rows db)"
      using distv sub set_take_subset [of ?l ?v] by auto
    from only_row [OF dist x(1) this]
    have first: "length (filter ?here (take ?l ?v)) = (if x \<in> set (take ?l ?v) then 1 else 0)" by (simp add: id)
    have rest: "length (filter ?here more) = (if ?c < p then 1 else 0)"
      using Cons.IH [OF _ _ more(1)] Cons.prems(1,2) by simp
    have after: "view flt (Some ?c) db = drop ?l ?v"
      using view_after [OF dist, of "?l - 1" flt cursor] True page_limit_pos [of n] by simp
    then have behind: "x \<in> set (drop ?l ?v) \<longleftrightarrow> ?c < p"
      using x by (simp flip: after) (simp add: view_def in_view_def)
    have "set (take ?l ?v) \<inter> set (drop ?l ?v) = {}" by (rule set_take_disj_set_drop_if_distinct [OF distv]) simp
    moreover have "x \<in> set ?v \<longleftrightarrow> x \<in> set (take ?l ?v) \<or> x \<in> set (drop ?l ?v)"
      by (metis Un_iff append_take_drop_id set_append)
    ultimately show ?thesis using first rest behind seen by (auto simp: more(2))
  qed
qed simp

text \<open>
  Keyset paging under concurrent writes: an asset that is there, and selected, on every page of a
  crawl is listed exactly once, whatever else is inserted, changed or retired between the pages.
\<close>

theorem paging_meets_each_asset_once:
  assumes "\<forall>db \<in> set dbs. distinct (map ca_id (asset_rows db))"
    and "\<forall>db \<in> set dbs. \<exists>a \<in> set (asset_rows db). ca_id a = i \<and> ca_created a = t \<and> selected flt db a"
    and "crawl flt n None dbs = Some rows"
  shows "length (filter (\<lambda>a. ca_id a = i) rows) = 1"
proof -
  have "\<forall>db \<in> set dbs. \<exists>a \<in> set (asset_rows db). position a = (t, i) \<and> selected flt db a"
    using assms(2) by (fastforce simp: position_def)
  from crawl_meets_once [OF assms(1) this assms(3)] show ?thesis by simp
qed

end
