(* ===== verification/Cmdb_Life.thy ===== *)
theory Cmdb_Life
  imports Assets
begin

text \<open>
  What every operation of the CMDB does to the tables as a whole: the invariant \<open>tables_ok\<close>, the
  order \<open>cmdb_grows\<close> in which nothing is lost and no closed claim changes, and where the authority
  of a fact comes from.
\<close>

section \<open>Rows that are kept\<close>

text \<open>
  Every claim stays, with what identifies it; a claim that is closed stays as it is, to the last
  column.
\<close>

definition rows_kept ::
  "('a claim_scheme \<Rightarrow> 'i) \<Rightarrow> 'a claim_scheme list \<Rightarrow> 'a claim_scheme list \<Rightarrow> bool" where
  "rows_kept ident xs ys \<longleftrightarrow> (\<forall>f \<in> set xs. \<exists>g \<in> set ys. c_id g = c_id f \<and> ident g = ident f \<and>
     (\<not> live f \<longrightarrow> g = f))"

lemma rows_kept_refl [simp]: "rows_kept ident xs xs"
  by (auto simp: rows_kept_def)

lemma rows_kept_trans: "rows_kept ident xs ys \<Longrightarrow> rows_kept ident ys zs \<Longrightarrow> rows_kept ident xs zs"
  unfolding rows_kept_def by metis

lemma rows_kept_append [simp]: "rows_kept ident xs (xs @ ys)"
  by (auto simp: rows_kept_def)

lemma rows_kept_upd:
  assumes "\<And>r. r \<in> set xs \<Longrightarrow> p r \<Longrightarrow> live r \<and> c_id (h r) = c_id r \<and> ident (h r) = ident r"
  shows "rows_kept ident xs (upd_rows p h xs)"
  unfolding rows_kept_def
proof
  fix f assume f: "f \<in> set xs"
  let ?g = "if p f then h f else f"
  have "?g \<in> set (upd_rows p h xs)" using f by (auto simp: set_upd_rows)
  moreover have "c_id ?g = c_id f \<and> ident ?g = ident f \<and> (\<not> live f \<longrightarrow> ?g = f)" using assms [OF f] by simp
  ultimately show "\<exists>g \<in> set (upd_rows p h xs). c_id g = c_id f \<and> ident g = ident f \<and> (\<not> live f \<longrightarrow> g = f)"
    by blast
qed

definition fact_ident :: "fact \<Rightarrow> fact_key \<times> value_columns \<times> string option \<times> source_type \<times> int" where
  "fact_ident f = (fact_key f, f_value f, f_unit f, c_source_type f, c_from f)"

definition edge_ident :: "edge \<Rightarrow> edge_key \<times> source_type \<times> int" where
  "edge_ident e = (edge_key e, c_source_type e, c_from e)"

section \<open>The invariant and the order\<close>

definition tables_ok :: "cmdb \<Rightarrow> bool" where
  "tables_ok db \<longleftrightarrow> facts_ok db \<and> attested db \<and> edges_ok db \<and> identifiers_ok db"

definition cmdb_grows :: "cmdb \<Rightarrow> cmdb \<Rightarrow> bool" where
  "cmdb_grows db db' \<longleftrightarrow> rows_kept fact_ident (fact_rows db) (fact_rows db') \<and>
     rows_kept edge_ident (edge_rows db) (edge_rows db') \<and>
     (\<exists>more. attestation_rows db' = attestation_rows db @ more) \<and>
     (\<exists>more. map ca_id (asset_rows db') = map ca_id (asset_rows db) @ more) \<and> fresh_id db \<le> fresh_id db'"

interpretation cmdb_evolution: evolving_state tables_ok cmdb_grows
proof unfold_locales
  show "cmdb_grows s s" for s by (simp add: cmdb_grows_def)
next
  fix s t u assume "cmdb_grows s t" "cmdb_grows t u"
  then show "cmdb_grows s u"
    unfolding cmdb_grows_def by (auto intro: rows_kept_trans)
qed

text \<open>What an operation leaves alone.\<close>

definition same_facts :: "cmdb \<Rightarrow> cmdb \<Rightarrow> bool" where
  "same_facts db db' \<longleftrightarrow> fact_rows db' = fact_rows db \<and> attestation_rows db' = attestation_rows db \<and>
     fresh_id db \<le> fresh_id db'"

definition same_edges :: "cmdb \<Rightarrow> cmdb \<Rightarrow> bool" where
  "same_edges db db' \<longleftrightarrow> edge_rows db' = edge_rows db \<and> fresh_id db \<le> fresh_id db'"

definition same_registry :: "cmdb \<Rightarrow> cmdb \<Rightarrow> bool" where
  "same_registry db db' \<longleftrightarrow> identifier_rows db' = identifier_rows db \<and>
     map ca_id (asset_rows db') = map ca_id (asset_rows db) \<and> fresh_id db \<le> fresh_id db'"

lemma same_facts_ok: "same_facts db db' \<Longrightarrow> facts_ok db \<and> attested db \<Longrightarrow> facts_ok db' \<and> attested db'"
  by (auto simp: same_facts_def attested_def intro: facts_ok_cong)

lemma same_edges_ok: "same_edges db db' \<Longrightarrow> edges_ok db \<Longrightarrow> edges_ok db'"
  by (auto simp: same_edges_def edges_ok_def)

lemma same_registry_ok: "same_registry db db' \<Longrightarrow> identifiers_ok db \<Longrightarrow> identifiers_ok db'"
  by (auto simp: same_registry_def intro: identifiers_ok_cong)

section \<open>Where authority comes from\<close>

text \<open>
  Every authoritative fact of the new table had its standing already, attributed to the same
  people, or is the one row \<open>i\<close> that the operation vouched for.
\<close>

definition standing :: "fact \<Rightarrow> verification_status \<times> string option \<times> string option \<times> fact_kind" where
  "standing f = (c_status f, c_verified_by f, c_approved_by f, f_kind f)"

definition authority_from :: "uuid set \<Rightarrow> cmdb \<Rightarrow> cmdb \<Rightarrow> bool" where
  "authority_from new db db' \<longleftrightarrow> (\<forall>f \<in> set (fact_rows db'). is_authoritative (c_status f) \<longrightarrow>
     c_id f \<in> new \<or> (\<exists>g \<in> set (fact_rows db). c_id g = c_id f \<and> standing g = standing f))"

lemma authority_from_same: "fact_rows db' = fact_rows db \<Longrightarrow> authority_from new db db'"
  by (auto simp: authority_from_def)

lemma authority_from_trans:
  "authority_from new db db1 \<Longrightarrow> authority_from new db1 db2 \<Longrightarrow> authority_from new db db2"
  unfolding authority_from_def
proof (intro ballI impI)
  fix f
  assume 1: "\<forall>f \<in> set (fact_rows db1). is_authoritative (c_status f) \<longrightarrow>
      c_id f \<in> new \<or> (\<exists>g \<in> set (fact_rows db). c_id g = c_id f \<and> standing g = standing f)"
    and 2: "\<forall>f \<in> set (fact_rows db2). is_authoritative (c_status f) \<longrightarrow>
      c_id f \<in> new \<or> (\<exists>g \<in> set (fact_rows db1). c_id g = c_id f \<and> standing g = standing f)"
    and f: "f \<in> set (fact_rows db2)" "is_authoritative (c_status f)"
  show "c_id f \<in> new \<or> (\<exists>g \<in> set (fact_rows db). c_id g = c_id f \<and> standing g = standing f)"
  proof (cases "c_id f \<in> new")
    case False
    with 2 f obtain g where g: "g \<in> set (fact_rows db1)" "c_id g = c_id f" "standing g = standing f" by blast
    then have "is_authoritative (c_status g)" using f(2) by (simp add: standing_def)
    then have "c_id g \<in> new \<or> (\<exists>k \<in> set (fact_rows db). c_id k = c_id g \<and> standing k = standing g)"
      by (rule mp [OF bspec [OF 1 g(1)]])
    with False show ?thesis unfolding g(2,3) by blast
  qed simp
qed

lemma authority_from_upd:
  assumes "fact_rows db' = upd_rows p h (fact_rows db)"
    and "\<And>r. r \<in> set (fact_rows db) \<Longrightarrow> p r \<Longrightarrow> is_authoritative (c_status (h r)) \<Longrightarrow>
      c_id (h r) \<in> new \<or> c_id (h r) = c_id r \<and> standing (h r) = standing r"
  shows "authority_from new db db'"
  unfolding authority_from_def assms(1) ball_upd_rows using assms(2) by auto metis

lemma authority_from_insert:
  assumes "fact_rows db' = fact_rows db @ [f]" and "is_authoritative (c_status f) \<Longrightarrow> c_id f \<in> new"
  shows "authority_from new db db'"
  using assms by (auto simp: authority_from_def)

section \<open>The writes\<close>

lemma update_fact_kept:
  assumes ok: "facts_ok db" and r: "r \<in> set (fact_rows db)" "live r" and run: "update_fact h r db = Inr (g, db')"
    and "c_id (h r) = c_id r" "fact_ident (h r) = fact_ident r"
    and "is_authoritative (c_status (h r)) \<Longrightarrow> c_id r \<in> new \<or> standing (h r) = standing r"
  shows "rows_kept fact_ident (fact_rows db) (fact_rows db')" "authority_from new db db'"
    "attestation_rows db' = attestation_rows db" "same_edges db db'" "same_registry db db'"
proof -
  have db': "db' = db\<lparr>fact_rows := upd_rows (\<lambda>h. c_id h = c_id r) h (fact_rows db)\<rparr>"
    by (rule update_fact_shape(2) [OF run])
  have at: "q = r" if "q \<in> set (fact_rows db)" "c_id q = c_id r" for q
    using facts_okD(1) [OF ok] r(1) that by (auto simp: distinct_map inj_on_def)
  show "rows_kept fact_ident (fact_rows db) (fact_rows db')"
    using rows_kept_upd [of "fact_rows db" "\<lambda>q. c_id q = c_id r" h fact_ident] at assms(5,6) r(2) by (auto simp: db')
  show "authority_from new db db'"
  proof (rule authority_from_upd [of _ "\<lambda>q. c_id q = c_id r" h])
    show "fact_rows db' = upd_rows (\<lambda>q. c_id q = c_id r) h (fact_rows db)" by (simp add: db')
  next
    fix q assume "q \<in> set (fact_rows db)" "c_id q = c_id r" and auth: "is_authoritative (c_status (h q))"
    then have "q = r" by (intro at)
    with auth assms(5,7) show "c_id (h q) \<in> new \<or> c_id (h q) = c_id q \<and> standing (h q) = standing q" by simp
  qed
  show "attestation_rows db' = attestation_rows db" "same_edges db db'" "same_registry db db'"
    by (simp_all add: db' same_edges_def same_registry_def)
qed

lemma insert_fact_kept:
  assumes run: "insert_fact mk db = Inr (f, db')" and "is_authoritative (c_status f) \<Longrightarrow> c_id f \<in> new"
  shows "rows_kept fact_ident (fact_rows db) (fact_rows db')" "authority_from new db db'"
    "attestation_rows db' = attestation_rows db" "same_edges db db'" "same_registry db db'"
proof -
  have db': "db' = db\<lparr>fact_rows := fact_rows db @ [f], fresh_id := Suc (fresh_id db)\<rparr>"
    by (rule insert_fact_shape(2) [OF run])
  show "authority_from new db db'" by (rule authority_from_insert [of _ _ f]) (use assms(2) in \<open>simp_all add: db'\<close>)
qed (simp_all add: insert_fact_shape(2) [OF run] same_edges_def same_registry_def)

lemma claim_ident [simp]:
  "fact_ident (touch now n f) = fact_ident f" "standing (touch now n f) = standing f"
  "fact_ident (close_claim now f) = fact_ident f" "standing (close_claim now f) = standing f"
  "fact_ident (retrust ac who now to f) = fact_ident f" "fact_ident (retire_fact now f) = fact_ident f"
  by (auto simp: fact_ident_def standing_def touch_def close_claim_def retire_fact_def retrust_def
      attribution_for_def fact_key_def split: attestation_action.splits)

text \<open>A step of the fact service: what it keeps beside its own rows.\<close>

definition fact_step :: "uuid set \<Rightarrow> cmdb \<Rightarrow> cmdb \<Rightarrow> bool" where
  "fact_step new db db' \<longleftrightarrow> rows_kept fact_ident (fact_rows db) (fact_rows db') \<and> authority_from new db db' \<and>
     (\<exists>more. attestation_rows db' = attestation_rows db @ more) \<and> same_edges db db' \<and> same_registry db db'"

lemma fact_step_trans: "fact_step new db db1 \<Longrightarrow> fact_step new db1 db2 \<Longrightarrow> fact_step new db db2"
  unfolding fact_step_def same_edges_def same_registry_def
  by (auto intro: rows_kept_trans authority_from_trans)

lemma fact_step_update:
  assumes "facts_ok db" and "r \<in> set (fact_rows db)" "live r" and "update_fact h r db = Inr (g, db')"
    and "c_id (h r) = c_id r" "fact_ident (h r) = fact_ident r"
    and "is_authoritative (c_status (h r)) \<Longrightarrow> c_id r \<in> new \<or> standing (h r) = standing r"
  shows "fact_step new db db'"
  unfolding fact_step_def using update_fact_kept [OF assms(1-6), of new] assms(7) by auto

lemma fact_step_insert:
  assumes "insert_fact mk db = Inr (f, db')" and "is_authoritative (c_status f) \<Longrightarrow> c_id f \<in> new"
  shows "fact_step new db db'"
  unfolding fact_step_def using insert_fact_kept [OF assms(1), of new] assms(2) by auto

lemma fact_step_frame:
  assumes "fact_rows db' = fact_rows db" and "\<exists>more. attestation_rows db' = attestation_rows db @ more"
    and "same_edges db db'" "same_registry db db'"
  shows "fact_step new db db'"
  using assms by (simp add: fact_step_def authority_from_same)

lemma fact_step_seen: "fact_step new db (seen_now a now db)"
  by (rule fact_step_frame) (simp_all add: same_edges_def same_registry_def seen_now_def map_upd_rows_frame)

lemma fact_step_attest: "fact_step new db (record_attestation now f ac fr to who re rid db)"
  by (rule fact_step_frame) (simp_all add: same_edges_def same_registry_def record_attestation_def)

lemma fact_step_ok:
  assumes "tables_ok db" and "fact_step new db db'" and "facts_ok db'" "attested db'"
  shows "tables_ok db' \<and> cmdb_grows db db'"
  using assms same_edges_ok same_registry_ok
  by (auto simp: tables_ok_def cmdb_grows_def fact_step_def same_edges_def same_registry_def)

section \<open>The operations on facts\<close>

lemma assert_fact_step:
  assumes ok: "facts_ok db" and run: "assert_fact now asset p db = Inr ((oc, f, prior, keys), db')"
  shows "fact_step new db db'"
  using run
proof (cases rule: assert_fact_cases)
  case (created clean columns db1)
  have "fact_step new db db1"
    by (rule fact_step_insert [OF created(4)]) (simp add: insert_fact_shape(1) [OF created(4)])
  then show ?thesis unfolding created(5) using fact_step_seen by (rule fact_step_trans)
next
  case (touched clean columns old)
  show ?thesis
    by (rule fact_step_update [OF ok live_claim_SomeD(1,2) [OF touched(3)] touched(5)]) simp_all
next
  case (superseded clean columns old closed db1 db2)
  have "fact_step new db db1"
    by (rule fact_step_update [OF ok live_claim_SomeD(1,2) [OF superseded(3)] superseded(5)]) simp_all
  moreover have "fact_step new db1 db2"
    by (rule fact_step_insert [OF superseded(6)]) (simp add: insert_fact_shape(1) [OF superseded(6)])
  ultimately have "fact_step new db db2" by (rule fact_step_trans)
  then show ?thesis unfolding superseded(7) by (rule fact_step_trans [OF _ fact_step_seen])
qed

lemma create_desired_step:
  assumes ok: "facts_ok db" and run: "create_desired now asset p who derived rid db = Inr (f, db')"
  shows "fact_step {c_id f} db db' \<and> f \<in> set (fact_rows db') \<and>
    standing f = (VS_APPROVED, None, Some (p_subject who), DESIRED_STATE)"
  using run
proof (cases rule: create_desired_cases)
  case (1 clean keys columns prior db1 db2)
  have "fact_step {c_id f} db db1"
    using 1(3)
  proof (cases rule: close_if_live_cases)
    case none
    then show ?thesis by (simp add: fact_step_def authority_from_same same_edges_def same_registry_def)
  next
    case (closed old g)
    show ?thesis
      by (rule fact_step_update [OF ok live_claim_SomeD(1,2) [OF closed(1)] closed(3)]) simp_all
  qed
  moreover have "fact_step {c_id f} db1 db2" by (rule fact_step_insert [OF 1(4)]) simp
  ultimately have "fact_step {c_id f} db db2" by (rule fact_step_trans)
  then have "fact_step {c_id f} db db'" unfolding 1(5) by (rule fact_step_trans [OF _ fact_step_attest])
  moreover have "f \<in> set (fact_rows db')" using insert_fact_shape(2) [OF 1(4)] by (simp add: 1(5))
  moreover have "standing f = (VS_APPROVED, None, Some (p_subject who), DESIRED_STATE)"
    by (simp add: insert_fact_shape(1) [OF 1(4)] standing_def desired_fact_def)
  ultimately show ?thesis by blast
qed

lemma fact_transition_step:
  assumes ok: "facts_ok db" and run: "fact_transition now i action who reason rid db = Inr (g, db')"
  shows "fact_step {i} db db' \<and> c_id g = i \<and> g \<in> set (fact_rows db') \<and>
    (is_authoritative (c_status g) \<longrightarrow> action \<noteq> REVOKE \<and> c_status g = target_status action \<and>
      (if action = VERIFY then c_verified_by g else c_approved_by g) = Some (p_subject who))"
  using run
proof (cases rule: fact_transition_cases)
  case (1 f to db1)
  have f: "f \<in> set (fact_rows db)" "c_id f = i" using find_row_SomeD [OF 1(1)] by auto
  have g: "g = retrust action (p_subject who) now to f" by (rule update_fact_shape(1) [OF 1(4)])
  have "fact_step {i} db db1"
    by (rule fact_step_update [OF ok f(1) 1(2,4)]) (use f(2) in simp_all)
  then have "fact_step {i} db db'" unfolding 1(5) using fact_step_attest by (rule fact_step_trans)
  moreover have "g \<in> set (fact_rows db')"
    using update_fact_shape(2) [OF 1(4)] f(1) by (auto simp: 1(5) set_upd_rows g)
  moreover have "action \<noteq> REVOKE \<and> c_status g = target_status action \<and>
      (if action = VERIFY then c_verified_by g else c_approved_by g) = Some (p_subject who)"
    if "is_authoritative (c_status g)"
    using transition_target_cases [OF 1(3)] that
    by (cases action) (auto simp: g retrust_def attribution_for_def)
  ultimately show ?thesis using f(2) by (simp add: g)
qed

lemma retire_asset_step:
  assumes ok: "tables_ok db" and run: "retire_asset now i db = Inr (out, db')"
  shows "tables_ok db' \<and> cmdb_grows db db' \<and> authority_from {} db db'"
proof -
  obtain a m n where out: "out = (a, m, n)" by (cases out) auto
  from run out obtain
    fs: "fact_rows db' = upd_rows (\<lambda>f. f_asset f = i \<and> live f) (retire_fact now) (fact_rows db)"
    and es: "edge_rows db' = upd_rows (\<lambda>e. (e_source e = i \<or> e_target e = i) \<and> live e) (close_edge now) (edge_rows db)"
    and rest: "attestation_rows db' = attestation_rows db" "fresh_id db' = fresh_id db"
      "map ca_id (asset_rows db') = map ca_id (asset_rows db)"
    by (auto elim!: retire_asset_shape simp: map_upd_rows_frame)
  have "rows_kept fact_ident (fact_rows db) (fact_rows db')" unfolding fs by (rule rows_kept_upd) simp
  moreover have "rows_kept edge_ident (edge_rows db) (edge_rows db')"
    unfolding es by (rule rows_kept_upd) (simp add: close_edge_def edge_ident_def edge_key_def)
  moreover have "authority_from {} db db'"
    by (rule authority_from_upd [OF fs]) (auto simp: retire_fact_def standing_def close_claim_def split: if_splits)
  moreover have "tables_ok db'"
    using ok run retire_asset_facts_ok retire_asset_edges_ok retire_asset_attested retire_asset_identifiers
    unfolding tables_ok_def by blast
  ultimately show ?thesis using rest by (simp add: cmdb_grows_def)
qed

section \<open>The operations on edges\<close>

definition edge_step :: "cmdb \<Rightarrow> cmdb \<Rightarrow> bool" where
  "edge_step db db' \<longleftrightarrow> rows_kept edge_ident (edge_rows db) (edge_rows db') \<and> same_facts db db' \<and> same_registry db db'"

lemma edge_step_trans: "edge_step db db1 \<Longrightarrow> edge_step db1 db2 \<Longrightarrow> edge_step db db2"
  unfolding edge_step_def same_facts_def same_registry_def by (auto intro: rows_kept_trans)

lemma edge_step_update:
  assumes ok: "edges_ok db" and r: "r \<in> set (edge_rows db)" "live r" and run: "update_edge h r db = Inr (g, db')"
    and "c_id (h r) = c_id r" "edge_ident (h r) = edge_ident r"
  shows "edge_step db db'"
proof -
  have db': "db' = db\<lparr>edge_rows := upd_rows (\<lambda>h. c_id h = c_id r) h (edge_rows db)\<rparr>"
    by (rule update_edge_shape(2) [OF run])
  have at: "q = r" if "q \<in> set (edge_rows db)" "c_id q = c_id r" for q
    using edges_okD(1) [OF ok] r(1) that by (auto simp: distinct_map inj_on_def)
  have "rows_kept edge_ident (edge_rows db) (edge_rows db')"
    using rows_kept_upd [of "edge_rows db" "\<lambda>q. c_id q = c_id r" h edge_ident] at assms(5,6) r(2) by (auto simp: db')
  then show ?thesis by (simp add: edge_step_def db' same_facts_def same_registry_def)
qed

lemma edge_step_insert: "insert_edge mk db = Inr (e, db') \<Longrightarrow> edge_step db db'"
  using insert_edge_shape(2) [of mk db e db'] by (simp add: edge_step_def same_facts_def same_registry_def)

lemma edge_ident_writes [simp]:
  "edge_ident (touch_edge now n e) = edge_ident e" "edge_ident (close_edge now e) = edge_ident e"
  by (simp_all add: edge_ident_def edge_key_def touch_edge_def close_edge_def)

lemma assert_relationship_step:
  assumes ok: "edges_ok db" and run: "assert_relationship now p db = Inr ((oc, e, swapped), db')"
  shows "edge_step db db'"
  using run
proof (cases rule: assert_relationship_cases)
  case created
  show ?thesis by (rule edge_step_insert [OF created(2)])
next
  case (touched old)
  show ?thesis by (rule edge_step_update [OF ok live_edge_SomeD(1,2) [OF touched(1)] touched(3)]) simp_all
next
  case (replaced old closed db1)
  have "edge_step db db1"
    by (rule edge_step_update [OF ok live_edge_SomeD(1,2) [OF replaced(1)] replaced(3)]) simp_all
  then show ?thesis using edge_step_insert [OF replaced(4)] by (rule edge_step_trans)
qed

lemma retire_edge_step:
  assumes ok: "edges_ok db" and run: "retire_edge now i db = Inr (e, db')"
  shows "edge_step db db'"
proof -
  from run obtain r where r: "find_row c_id i (edge_rows db) = Some r" "live r" "update_edge (close_edge now) r db = Inr (e, db')"
    by (auto simp: retire_edge_def andThen_eq_Inr split: option.splits)
  have "r \<in> set (edge_rows db)" using find_row_SomeD [OF r(1)] by simp
  then show ?thesis by (rule edge_step_update [OF ok _ r(2,3)]) simp_all
qed

lemma edge_step_ok:
  assumes "tables_ok db" and "edge_step db db'" and "edges_ok db'"
  shows "tables_ok db' \<and> cmdb_grows db db' \<and> authority_from {} db db'"
  using assms same_facts_ok [of db db'] same_registry_ok [of db db']
  by (auto simp: tables_ok_def cmdb_grows_def edge_step_def authority_from_same same_facts_def same_registry_def)

section \<open>The operations on assets and identifiers\<close>

definition registry_step :: "cmdb \<Rightarrow> cmdb \<Rightarrow> bool" where
  "registry_step db db' \<longleftrightarrow> identifiers_ok db' \<and> same_facts db db' \<and> same_edges db db' \<and>
     (\<exists>more. map ca_id (asset_rows db') = map ca_id (asset_rows db) @ more)"

lemma registry_step_trans: "registry_step db db1 \<Longrightarrow> registry_step db1 db2 \<Longrightarrow> registry_step db db2"
  unfolding registry_step_def same_facts_def same_edges_def by auto

lemma registry_step_ok:
  assumes "tables_ok db" and "registry_step db db'"
  shows "tables_ok db' \<and> cmdb_grows db db' \<and> authority_from {} db db'"
  using assms same_facts_ok [of db db'] same_edges_ok [of db db']
  by (auto simp: tables_ok_def cmdb_grows_def registry_step_def authority_from_same same_facts_def same_edges_def)

lemma attached_step: "attached a ks db db' \<Longrightarrow> registry_step db db'"
  by (simp add: attached_def registry_step_def same_facts_def same_edges_def)

lemma resolve_step:
  assumes ok: "identifiers_ok db" and run: "resolve now kind name presented create db = Inr (res, db')"
  shows "registry_step db db'"
  using run
proof (cases rule: resolve_cases)
  case (matched ns a on x)
  have "identifiers_ok (seen_now a now db)"
    by (rule identifiers_ok_cong [OF ok]) simp_all
  note attach_missing_attached [OF this normalise_all_unique [OF matched(1)] matched(4)]
  then have "registry_step (seen_now a now db) db'" by (rule attached_step)
  moreover have "registry_step db (seen_now a now db)"
    using \<open>identifiers_ok (seen_now a now db)\<close>
    by (simp add: registry_step_def same_facts_def same_edges_def)
  ultimately show ?thesis by (rule registry_step_trans [rotated])
next
  case (new ns a db1)
  have "ca_id a = fresh_id db"
    using new(4) by (auto simp: insert_asset_def Let_def andThen_eq_Inr new_asset_def)
  note step = insert_asset_step [OF ok new(4) this]
  from attach_missing_attached [OF step(1) normalise_all_unique [OF new(1)] new(5)]
  have "registry_step db1 db'" by (rule attached_step)
  moreover have "registry_step db db1" using step by (simp add: registry_step_def same_facts_def same_edges_def)
  ultimately show ?thesis by (rule registry_step_trans [rotated])
qed

lemma update_asset_row_step:
  assumes ok: "identifiers_ok db" and run: "update_asset_row h a db = Inr (b, db')" and "\<And>c. ca_id (h c) = ca_id c"
  shows "registry_step db db'"
proof -
  have db': "db' = db\<lparr>asset_rows := upd_rows (\<lambda>b. ca_id b = ca_id a) h (asset_rows db)\<rparr>"
    using run by (auto simp: update_asset_row_def andThen_eq_Inr)
  then have "map ca_id (asset_rows db') = map ca_id (asset_rows db)" by (simp add: map_upd_rows_frame assms(3))
  then show ?thesis
    using identifiers_ok_cong [OF ok, of db'] by (simp add: registry_step_def db' same_facts_def same_edges_def)
qed

lemma create_asset_step:
  assumes ok: "identifiers_ok db" and run: "create_asset now p db = Inr ((res, a), db')"
  shows "registry_step db db'"
proof -
  from run obtain db1 where first: "resolve now (ac_type p) (ac_display_name p) (ac_identifiers p) True db = Inr (res, db1)"
    and rest: "db' = db1 \<or> (\<exists>d b. update_asset_row (\<lambda>b. b\<lparr>ca_description := Some d\<rparr>) b db1 = Inr (a, db'))"
    by (auto simp: create_asset_def andThen_eq_Inr split: option.splits)
  note step = resolve_step [OF ok first]
  from rest show ?thesis
  proof
    assume "\<exists>d b. update_asset_row (\<lambda>b. b\<lparr>ca_description := Some d\<rparr>) b db1 = Inr (a, db')"
    then obtain d b where "update_asset_row (\<lambda>b. b\<lparr>ca_description := Some d\<rparr>) b db1 = Inr (a, db')" by blast
    then have "registry_step db1 db'"
      by (rule update_asset_row_step [rotated]) (use step in \<open>simp_all add: registry_step_def\<close>)
    with step show ?thesis by (rule registry_step_trans)
  qed (use step in simp)
qed

lemma update_asset_step:
  assumes ok: "identifiers_ok db" and run: "update_asset i u db = Inr (a, db')"
  shows "registry_step db db'"
proof -
  from run obtain b where "update_asset_row (apply_update u) b db = Inr (a, db')"
    by (auto simp: update_asset_def andThen_eq_Inr)
  then show ?thesis
    by (rule update_asset_row_step [OF ok]) (simp add: apply_update_def Let_def split: option.splits)
qed

lemma attach_identifier_step:
  assumes ok: "identifiers_ok db" and run: "attach_identifier now i p db = Inr (r, db')"
  shows "registry_step db db'"
proof -
  from run obtain n where n: "normalise_identifier p = Inr n" and
    cases: "(\<exists>q. db' = touch_identifier now q db) \<or> insert_identifier (new_identifier now i n) db = Inr (r, db')"
    by (auto simp: attach_identifier_def andThen_eq_Inr split: option.splits)
  from cases show ?thesis
  proof
    assume "\<exists>q. db' = touch_identifier now q db"
    then show ?thesis
      using touch_identifier_ok [OF ok] by (auto simp: registry_step_def same_facts_def same_edges_def)
  next
    assume ins: "insert_identifier (new_identifier now i n) db = Inr (r, db')"
    show ?thesis
      using insert_identifier_step [OF ok normalise_identifier_unique [OF n] ins]
      by (simp add: registry_step_def same_facts_def same_edges_def)
  qed
qed

lemma retire_identifier_registry_step:
  assumes "identifiers_ok db" and "retire_identifier now j db = Inr (r, db')"
  shows "registry_step db db'"
  using retire_identifier_step [OF assms] by (simp add: registry_step_def same_facts_def same_edges_def)

end
