(* ===== verification/Cmdb_Links.thy ===== *)
theory Cmdb_Links
  imports Cmdb_Life
begin

text \<open>
  The constraints of the CMDB's tables that one row satisfies by itself or by the rows it refers to: the
  checks of \<open>asset\<close> and \<open>asset_identifier\<close>, and every foreign key.  They are stated here by themselves,
  and every operation keeps them.
\<close>

section \<open>Sound rows\<close>

definition asset_ids :: "cmdb \<Rightarrow> uuid set" where
  "asset_ids db = ca_id ` set (asset_rows db)"

definition fact_ids :: "cmdb \<Rightarrow> uuid set" where
  "fact_ids db = c_id ` set (fact_rows db)"

definition edge_ids :: "cmdb \<Rightarrow> uuid set" where
  "edge_ids db = c_id ` set (edge_rows db)"

definition asset_sound :: "uuid set \<Rightarrow> asset_row \<Rightarrow> bool" where
  "asset_sound assets a \<longleftrightarrow> (ca_lifecycle a = LC_MERGED \<longleftrightarrow> ca_merged_into a \<noteq> None) \<and>
     (ca_lifecycle a = LC_RETIRED \<longleftrightarrow> ca_retired_at a \<noteq> None) \<and>
     ca_merged_into a \<noteq> Some (ca_id a) \<and> set_option (ca_merged_into a) \<subseteq> assets"

definition identifier_sound :: "uuid set \<Rightarrow> identifier_row \<Rightarrow> bool" where
  "identifier_sound assets i \<longleftrightarrow> matches_namespace (ci_namespace i) \<and>
     0 \<le> ci_confidence i \<and> ci_confidence i \<le> 1000 \<and> ci_asset i \<in> assets"

definition fact_linked :: "uuid set \<Rightarrow> uuid set \<Rightarrow> fact \<Rightarrow> bool" where
  "fact_linked assets facts f \<longleftrightarrow> f_asset f \<in> assets \<and> set_option (v_asset (f_value f)) \<subseteq> assets \<and>
     set_option (f_supersedes f) \<union> set_option (f_derived_from f) \<subseteq> facts"

definition edge_linked :: "uuid set \<Rightarrow> uuid set \<Rightarrow> edge \<Rightarrow> bool" where
  "edge_linked assets edges e \<longleftrightarrow> e_source e \<in> assets \<and> e_target e \<in> assets \<and> set_option (e_supersedes e) \<subseteq> edges"

definition attestations_linked :: "cmdb \<Rightarrow> bool" where
  "attestations_linked db \<longleftrightarrow> distinct (map at_id (attestation_rows db)) \<and>
     (\<forall>t \<in> set (attestation_rows db). at_id t < fresh_id db \<and> at_fact t \<in> fact_ids db)"

definition links_ok :: "cmdb \<Rightarrow> bool" where
  "links_ok db \<longleftrightarrow> (\<forall>a \<in> set (asset_rows db). asset_sound (asset_ids db) a) \<and>
     (\<forall>i \<in> set (identifier_rows db). identifier_sound (asset_ids db) i) \<and>
     (\<forall>f \<in> set (fact_rows db). fact_linked (asset_ids db) (fact_ids db) f) \<and>
     (\<forall>e \<in> set (edge_rows db). edge_linked (asset_ids db) (edge_ids db) e) \<and> attestations_linked db"

section \<open>What keeps them\<close>

text \<open>The columns the conditions read.\<close>

definition asset_columns :: "asset_row \<Rightarrow> uuid \<times> lifecycle_state \<times> uuid option \<times> int option" where
  "asset_columns a = (ca_id a, ca_lifecycle a, ca_merged_into a, ca_retired_at a)"

definition identifier_columns :: "identifier_row \<Rightarrow> uuid \<times> string \<times> int" where
  "identifier_columns i = (ci_asset i, ci_namespace i, ci_confidence i)"

definition fact_columns :: "fact \<Rightarrow> uuid \<times> uuid option \<times> uuid option \<times> uuid option" where
  "fact_columns f = (f_asset f, v_asset (f_value f), f_supersedes f, f_derived_from f)"

definition edge_columns :: "edge \<Rightarrow> uuid \<times> uuid \<times> uuid option" where
  "edge_columns e = (e_source e, e_target e, e_supersedes e)"

text \<open>
  Every row of the new table has the columns of an old one or is sound as it is; no key is lost; and at
  most one attestation is added.
\<close>

definition relinks :: "cmdb \<Rightarrow> cmdb \<Rightarrow> bool" where
  "relinks db db' \<longleftrightarrow> asset_ids db \<subseteq> asset_ids db' \<and> fact_ids db \<subseteq> fact_ids db' \<and> edge_ids db \<subseteq> edge_ids db' \<and>
     fresh_id db \<le> fresh_id db' \<and>
     (\<forall>a \<in> set (asset_rows db'). asset_columns a \<in> asset_columns ` set (asset_rows db) \<or> asset_sound (asset_ids db') a) \<and>
     (\<forall>i \<in> set (identifier_rows db'). identifier_columns i \<in> identifier_columns ` set (identifier_rows db) \<or>
        identifier_sound (asset_ids db') i) \<and>
     (\<forall>f \<in> set (fact_rows db'). fact_columns f \<in> fact_columns ` set (fact_rows db) \<or>
        fact_linked (asset_ids db') (fact_ids db') f) \<and>
     (\<forall>e \<in> set (edge_rows db'). edge_columns e \<in> edge_columns ` set (edge_rows db) \<or>
        edge_linked (asset_ids db') (edge_ids db') e) \<and>
     (attestation_rows db' = attestation_rows db \<or> (\<exists>t. attestation_rows db' = attestation_rows db @ [t] \<and>
        at_id t = fresh_id db \<and> fresh_id db < fresh_id db' \<and> at_fact t \<in> fact_ids db'))"

lemma relinks_keeps:
  assumes step: "relinks db db'" and ok: "links_ok db"
  shows "links_ok db'"
proof -
  have "asset_sound (asset_ids db') a" if a: "a \<in> set (asset_rows db')" for a
  proof (cases "asset_columns a \<in> asset_columns ` set (asset_rows db)")
    case True
    then obtain b where "b \<in> set (asset_rows db)" "asset_columns b = asset_columns a" by auto
    then show ?thesis
      using ok step unfolding links_ok_def relinks_def asset_sound_def asset_columns_def prod.inject
      by (metis order_trans)
  qed (use step a in \<open>auto simp: relinks_def\<close>)
  moreover have "identifier_sound (asset_ids db') i" if i: "i \<in> set (identifier_rows db')" for i
  proof (cases "identifier_columns i \<in> identifier_columns ` set (identifier_rows db)")
    case True
    then obtain j where "j \<in> set (identifier_rows db)" "identifier_columns j = identifier_columns i" by auto
    then show ?thesis
      using ok step unfolding links_ok_def relinks_def identifier_sound_def identifier_columns_def prod.inject
      by (metis subsetD)
  qed (use step i in \<open>auto simp: relinks_def\<close>)
  moreover have "fact_linked (asset_ids db') (fact_ids db') f" if f: "f \<in> set (fact_rows db')" for f
  proof (cases "fact_columns f \<in> fact_columns ` set (fact_rows db)")
    case True
    then obtain g where "g \<in> set (fact_rows db)" "fact_columns g = fact_columns f" by auto
    moreover from this ok have "fact_linked (asset_ids db) (fact_ids db) g" by (auto simp: links_ok_def)
    ultimately show ?thesis
      using step unfolding relinks_def fact_linked_def fact_columns_def prod.inject by auto
  qed (use step f in \<open>auto simp: relinks_def\<close>)
  moreover have "edge_linked (asset_ids db') (edge_ids db') e" if e: "e \<in> set (edge_rows db')" for e
  proof (cases "edge_columns e \<in> edge_columns ` set (edge_rows db)")
    case True
    then obtain d where "d \<in> set (edge_rows db)" "edge_columns d = edge_columns e" by auto
    moreover from this ok have "edge_linked (asset_ids db) (edge_ids db) d" by (auto simp: links_ok_def)
    ultimately show ?thesis
      using step unfolding relinks_def edge_linked_def edge_columns_def prod.inject by auto
  qed (use step e in \<open>auto simp: relinks_def\<close>)
  moreover have "attestations_linked db'"
  proof -
    have old: "distinct (map at_id (attestation_rows db))"
      "\<forall>t \<in> set (attestation_rows db). at_id t < fresh_id db \<and> at_fact t \<in> fact_ids db"
      using ok by (auto simp: links_ok_def attestations_linked_def)
    have keep: "fact_ids db \<subseteq> fact_ids db'" "fresh_id db \<le> fresh_id db'" using step by (auto simp: relinks_def)
    from step consider "attestation_rows db' = attestation_rows db"
      | t where "attestation_rows db' = attestation_rows db @ [t]" "at_id t = fresh_id db" "fresh_id db < fresh_id db'"
          "at_fact t \<in> fact_ids db'" unfolding relinks_def by blast
    then show ?thesis
    proof cases
      case 1
      with old keep show ?thesis by (auto simp: attestations_linked_def intro: less_le_trans)
    next
      case 2
      with old keep show ?thesis by (auto simp: attestations_linked_def intro: less_trans)
    qed
  qed
  ultimately show ?thesis by (auto simp: links_ok_def)
qed

section \<open>The writes\<close>

definition keeps_links :: "cmdb \<Rightarrow> cmdb \<Rightarrow> bool" where
  "keeps_links db db' \<longleftrightarrow> (links_ok db \<longrightarrow> links_ok db')"

lemma keeps_links_refl [simp]: "keeps_links db db"
  by (simp add: keeps_links_def)

lemma keeps_links_trans: "keeps_links db db1 \<Longrightarrow> keeps_links db1 db2 \<Longrightarrow> keeps_links db db2"
  by (simp add: keeps_links_def)

lemma relinksD: "relinks db db' \<Longrightarrow> keeps_links db db'"
  using relinks_keeps by (simp add: keeps_links_def)

lemma image_upd_rows: "(\<And>r. k (h r) = k r) \<Longrightarrow> k ` set (upd_rows p h rows) = k ` set rows"
proof -
  assume "\<And>r. k (h r) = k r"
  then have "map k (upd_rows p h rows) = map k rows" by (rule map_upd_rows_frame)
  then show ?thesis by (metis set_map)
qed

lemma columns_upd_rows:
  "(\<And>r. k (h r) = k r) \<Longrightarrow> \<forall>r \<in> set (upd_rows p h rows). k r \<in> k ` set rows"
  by (auto simp: set_upd_rows)

lemma fact_fk_linked:
  "(\<forall>c \<in> set (fact_fk_checks db f). snd c) \<longleftrightarrow> fact_linked (asset_ids db) (fact_ids db) f"
  by (auto simp: fact_fk_checks_def fact_linked_def asset_ids_def fact_ids_def find_asset_def find_row_None
      split: option.splits)

lemma edge_fk_linked:
  "(\<forall>c \<in> set (edge_fk_checks db e). snd c) \<longleftrightarrow> edge_linked (asset_ids db) (edge_ids db) e"
  by (auto simp: edge_fk_checks_def edge_linked_def asset_ids_def edge_ids_def find_asset_def find_row_None
      split: option.splits)

lemma update_fact_links:
  assumes run: "update_fact h r db = Inr (g, db')"
    and "\<And>q. c_id (h q) = c_id q" "\<And>q. fact_columns (h q) = fact_columns q"
  shows "keeps_links db db'"
proof (rule relinksD)
  have "c_id ` set (upd_rows (\<lambda>q. c_id q = c_id r) h (fact_rows db)) = c_id ` set (fact_rows db)"
    by (rule image_upd_rows) (rule assms(2))
  with columns_upd_rows [of fact_columns h "\<lambda>q. c_id q = c_id r" "fact_rows db", OF assms(3)]
  show "relinks db db'"
    using update_fact_shape(2) [OF run] by (auto simp: relinks_def asset_ids_def fact_ids_def edge_ids_def)
qed

lemma insert_fact_links:
  assumes run: "insert_fact mk db = Inr (f, db')"
  shows "keeps_links db db'"
proof (rule relinksD)
  have "fact_linked (asset_ids db) (fact_ids db) f" using insert_fact_fk [OF run] fact_fk_linked by blast
  then have "fact_linked (asset_ids db) (insert (c_id f) (fact_ids db)) f" by (auto simp: fact_linked_def)
  then show "relinks db db'"
    using insert_fact_shape(2) [OF run] by (auto simp: relinks_def asset_ids_def fact_ids_def edge_ids_def)
qed

lemma attest_links:
  assumes "c_id f \<in> fact_ids db"
  shows "keeps_links db (record_attestation now f action from_status to_status who reason rid db)"
  by (rule relinksD)
    (use assms in \<open>auto simp: relinks_def record_attestation_def asset_ids_def fact_ids_def edge_ids_def\<close>)

lemma seen_now_links: "keeps_links db (seen_now i now db)"
proof (rule relinksD)
  let ?h = "\<lambda>a. a\<lparr>ca_last_seen := now\<rparr>"
  have "ca_id ` set (upd_rows (\<lambda>a. ca_id a = i) ?h (asset_rows db)) = ca_id ` set (asset_rows db)"
    by (rule image_upd_rows) simp
  moreover have "\<forall>a \<in> set (upd_rows (\<lambda>a. ca_id a = i) ?h (asset_rows db)). asset_columns a \<in> asset_columns ` set (asset_rows db)"
    by (rule columns_upd_rows) (simp add: asset_columns_def)
  ultimately show "relinks db (seen_now i now db)"
    by (auto simp: relinks_def seen_now_def asset_ids_def fact_ids_def edge_ids_def)
qed

lemma asset_sound_checks:
  "(\<forall>c \<in> set (asset_checks a). snd c) \<Longrightarrow> set_option (ca_merged_into a) \<subseteq> assets \<Longrightarrow> asset_sound assets a"
  by (auto simp: asset_checks_def asset_sound_def)

text \<open>A write to one asset, which never says what it was merged into.\<close>

lemma update_asset_row_links:
  assumes run: "update_asset_row h a db = Inr (b, db')" and a: "a \<in> set (asset_rows db)"
    and ok: "distinct (map ca_id (asset_rows db))"
    and keep: "\<And>q. ca_id (h q) = ca_id q" "\<And>q. ca_merged_into (h q) = ca_merged_into q"
  shows "keeps_links db db'"
  unfolding keeps_links_def
proof (intro impI relinks_keeps [of db db'])
  assume links: "links_ok db"
  have db': "db' = db\<lparr>asset_rows := upd_rows (\<lambda>b. ca_id b = ca_id a) h (asset_rows db)\<rparr>"
    and checks: "\<forall>c \<in> set (asset_checks (h a)). snd c"
    using run by (auto simp: update_asset_row_def andThen_eq_Inr enforce_Inr)
  have ids: "asset_ids db' = asset_ids db"
    unfolding asset_ids_def db' by (simp add: image_upd_rows keep)
  have "set_option (ca_merged_into a) \<subseteq> asset_ids db" using links a by (auto simp: links_ok_def asset_sound_def)
  with checks have "asset_sound (asset_ids db) (h a)" by (intro asset_sound_checks) (simp_all add: keep)
  moreover have "q = a" if "q \<in> set (asset_rows db)" "ca_id q = ca_id a" for q
    using ok a that by (auto simp: distinct_map inj_on_def)
  ultimately have "\<forall>q \<in> set (asset_rows db'). asset_columns q \<in> asset_columns ` set (asset_rows db) \<or> asset_sound (asset_ids db') q"
    unfolding ids by (auto simp: db' set_upd_rows)
  then show "relinks db db'" using ids by (auto simp: relinks_def db' fact_ids_def edge_ids_def)
qed

lemma insert_asset_links:
  assumes run: "insert_asset (new_asset now kind name) db = Inr (a, db')"
  shows "keeps_links db db'"
proof (rule relinksD)
  have "a = new_asset now kind name (fresh_id db)"
    "db' = db\<lparr>asset_rows := asset_rows db @ [a], fresh_id := Suc (fresh_id db)\<rparr>"
    "\<forall>c \<in> set (asset_checks a). snd c"
    using run by (auto simp: insert_asset_def Let_def andThen_eq_Inr enforce_Inr)
  moreover from this have "asset_sound (insert (ca_id a) (asset_ids db)) a"
    by (intro asset_sound_checks) (simp_all add: new_asset_def)
  ultimately show "relinks db db'" by (auto simp: relinks_def asset_ids_def fact_ids_def edge_ids_def)
qed

lemma identifier_rows_links:
  assumes "\<forall>i \<in> set rows. identifier_columns i \<in> identifier_columns ` set (identifier_rows db) \<or>
      identifier_sound (asset_ids db) i" and "fresh_id db \<le> n"
  shows "keeps_links db (db\<lparr>identifier_rows := rows, fresh_id := n\<rparr>)"
  by (rule relinksD) (use assms in \<open>auto simp: relinks_def asset_ids_def fact_ids_def edge_ids_def\<close>)

lemma insert_identifier_links:
  assumes run: "insert_identifier mk db = Inr (i, db')"
  shows "keeps_links db db'"
proof -
  have db': "db' = db\<lparr>identifier_rows := identifier_rows db @ [i], fresh_id := Suc (fresh_id db)\<rparr>"
    and "\<forall>c \<in> set (identifier_checks db i). snd c"
    using run by (auto simp: insert_identifier_def Let_def andThen_eq_Inr enforce_Inr)
  from this(2) have "identifier_sound (asset_ids db) i"
    by (auto simp: identifier_checks_def identifier_sound_def asset_ids_def find_asset_def find_row_None)
  then show ?thesis
    unfolding db' by (intro identifier_rows_links) auto
qed

lemma identifier_upd_links:
  assumes "\<And>q. identifier_columns (h q) = identifier_columns q"
  shows "keeps_links db (db\<lparr>identifier_rows := upd_rows p h (identifier_rows db)\<rparr>)"
proof -
  have "keeps_links db (db\<lparr>identifier_rows := upd_rows p h (identifier_rows db), fresh_id := fresh_id db\<rparr>)"
    by (rule identifier_rows_links) (use columns_upd_rows [of identifier_columns h, OF assms] in auto)
  then show ?thesis by simp
qed

lemma touch_identifier_links: "keeps_links db (touch_identifier now r db)"
  unfolding touch_identifier_def by (rule identifier_upd_links) (simp add: identifier_columns_def)

lemma update_edge_links:
  assumes run: "update_edge h r db = Inr (g, db')"
    and "\<And>q. c_id (h q) = c_id q" "\<And>q. edge_columns (h q) = edge_columns q"
  shows "keeps_links db db'"
proof (rule relinksD)
  have "c_id ` set (upd_rows (\<lambda>q. c_id q = c_id r) h (edge_rows db)) = c_id ` set (edge_rows db)"
    by (rule image_upd_rows) (rule assms(2))
  with columns_upd_rows [of edge_columns h "\<lambda>q. c_id q = c_id r" "edge_rows db", OF assms(3)]
  show "relinks db db'"
    using update_edge_shape(2) [OF run] by (auto simp: relinks_def asset_ids_def fact_ids_def edge_ids_def)
qed

lemma insert_edge_links:
  assumes run: "insert_edge mk db = Inr (e, db')"
  shows "keeps_links db db'"
proof (rule relinksD)
  have "\<forall>c \<in> set (edge_fk_checks db e). snd c"
    using run by (auto simp: insert_edge_def Let_def andThen_eq_Inr enforce_Inr edge_checks_def ball_Un)
  then have "edge_linked (asset_ids db) (edge_ids db) e" using edge_fk_linked by blast
  then have "edge_linked (asset_ids db) (insert (c_id e) (edge_ids db)) e" by (auto simp: edge_linked_def)
  then show "relinks db db'"
    using insert_edge_shape(2) [OF run] by (auto simp: relinks_def asset_ids_def fact_ids_def edge_ids_def)
qed

section \<open>The operations\<close>

lemma fact_columns_writes [simp]:
  "fact_columns (touch now n f) = fact_columns f" "fact_columns (close_claim now f) = fact_columns f"
  "fact_columns (retrust ac who now to f) = fact_columns f" "fact_columns (retire_fact now f) = fact_columns f"
  by (auto simp: fact_columns_def touch_def close_claim_def retrust_def attribution_for_def retire_fact_def
      split: attestation_action.splits)

lemma edge_columns_writes [simp]:
  "edge_columns (touch_edge now n e) = edge_columns e" "edge_columns (close_edge now e) = edge_columns e"
  by (simp_all add: edge_columns_def touch_edge_def close_edge_def)

lemma close_if_live_links: "close_if_live now old db = Inr (prior, db1) \<Longrightarrow> keeps_links db db1"
  by (auto elim!: close_if_live_cases intro: update_fact_links)

lemma assert_fact_links:
  assumes "assert_fact now asset p db = Inr ((oc, f, prior, keys), db')"
  shows "keeps_links db db'"
  using assms
proof (cases rule: assert_fact_cases)
  case (created clean columns db1)
  then show ?thesis by (auto intro: keeps_links_trans insert_fact_links seen_now_links)
next
  case (touched clean columns old)
  show ?thesis by (rule update_fact_links [OF touched(5)]) simp_all
next
  case (superseded clean columns old closed db1 db2)
  have "keeps_links db db1" by (rule update_fact_links [OF superseded(5)]) simp_all
  with insert_fact_links [OF superseded(6)] show ?thesis
    unfolding superseded(7) by (meson keeps_links_trans seen_now_links)
qed

lemma create_desired_links:
  assumes "create_desired now asset p who derived rid db = Inr (f, db')"
  shows "keeps_links db db'"
  using assms
proof (cases rule: create_desired_cases)
  case (1 clean keys columns prior db1 db2)
  have "c_id f \<in> fact_ids db2" using insert_fact_shape(2) [OF 1(4)] by (simp add: fact_ids_def)
  from attest_links [OF this] close_if_live_links [OF 1(3)] insert_fact_links [OF 1(4)] show ?thesis
    unfolding 1(5) by (meson keeps_links_trans)
qed

lemma fact_transition_links:
  assumes "fact_transition now i action who reason rid db = Inr (g, db')"
  shows "keeps_links db db'"
  using assms
proof (cases rule: fact_transition_cases)
  case (1 f to db1)
  have f: "f \<in> set (fact_rows db)" using find_row_SomeD [OF 1(1)] by simp
  have "keeps_links db db1" by (rule update_fact_links [OF 1(4)]) simp_all
  moreover have "fact_ids db1 = fact_ids db"
    unfolding fact_ids_def update_fact_shape(2) [OF 1(4)] by (simp add: image_upd_rows)
  then have "c_id g \<in> fact_ids db1"
    using update_fact_shape(1) [OF 1(4)] f by (simp add: fact_ids_def)
  ultimately show ?thesis unfolding 1(5) by (meson keeps_links_trans attest_links)
qed

lemma assert_relationship_links:
  assumes "assert_relationship now p db = Inr ((oc, e, swapped), db')"
  shows "keeps_links db db'"
  using assms
proof (cases rule: assert_relationship_cases)
  case created
  then show ?thesis by (intro insert_edge_links)
next
  case (touched old)
  show ?thesis by (rule update_edge_links [OF touched(3)]) simp_all
next
  case (replaced old closed db1)
  have "keeps_links db db1" by (rule update_edge_links [OF replaced(3)]) simp_all
  with insert_edge_links [OF replaced(4)] show ?thesis by (rule keeps_links_trans [rotated])
qed

lemma retire_edge_links:
  assumes "retire_edge now i db = Inr (e, db')"
  shows "keeps_links db db'"
proof -
  from assms obtain r where "update_edge (close_edge now) r db = Inr (e, db')"
    by (auto simp: retire_edge_def andThen_eq_Inr split: option.splits)
  then show ?thesis by (rule update_edge_links) simp_all
qed

lemma attach_missing_links: "attach_missing now a ns db = Inr db' \<Longrightarrow> keeps_links db db'"
proof -
  have one: "attach_one now a existing db n = Inr db' \<Longrightarrow> keeps_links db db'" for existing db db' n
    by (auto simp: attach_one_def andThen_eq_Inr touch_identifier_links intro: insert_identifier_links split: option.splits)
  have "foldRes (attach_one now a existing) db ns = Inr db' \<Longrightarrow> keeps_links db db'" for existing
    by (induction ns arbitrary: db) (auto simp: andThen_eq_Inr intro: keeps_links_trans one)
  then show "attach_missing now a ns db = Inr db' \<Longrightarrow> keeps_links db db'" by (simp add: attach_missing_def)
qed

lemma resolve_links:
  assumes "resolve now kind name presented create db = Inr (res, db')"
  shows "keeps_links db db'"
  using assms
proof (cases rule: resolve_cases)
  case (matched ns a on x)
  then show ?thesis by (meson attach_missing_links keeps_links_trans seen_now_links)
next
  case (new ns a db1)
  then show ?thesis by (meson attach_missing_links insert_asset_links keeps_links_trans)
qed

lemma get_asset_rowD: "get_asset_row i db = Inr a \<Longrightarrow> a \<in> set (asset_rows db) \<and> ca_id a = i"
  by (auto simp: get_asset_row_def find_asset_def dest!: find_row_SomeD split: option.splits)

lemma create_asset_links:
  assumes ok: "identifiers_ok db" and run: "create_asset now p db = Inr ((res, a), db')"
  shows "keeps_links db db'"
proof -
  from run obtain db1 b where first: "resolve now (ac_type p) (ac_display_name p) (ac_identifiers p) True db = Inr (res, db1)"
    and b: "b \<in> set (asset_rows db1)"
    and rest: "db' = db1 \<or> (\<exists>d. update_asset_row (\<lambda>b. b\<lparr>ca_description := Some d\<rparr>) b db1 = Inr (a, db'))"
    by (auto simp: create_asset_def andThen_eq_Inr dest!: get_asset_rowD split: option.splits)
  have "distinct (map ca_id (asset_rows db1))"
    using resolve_step [OF ok first] by (simp add: registry_step_def identifiers_ok_def)
  from rest update_asset_row_links [OF _ b this] have "keeps_links db1 db'" by (elim disjE exE) auto
  with resolve_links [OF first] show ?thesis by (rule keeps_links_trans)
qed

lemma update_asset_links:
  assumes ok: "identifiers_ok db" and run: "update_asset i u db = Inr (a, db')"
  shows "keeps_links db db'"
proof -
  from run obtain b where b: "b \<in> set (asset_rows db)" and up: "update_asset_row (apply_update u) b db = Inr (a, db')"
    by (auto simp: update_asset_def andThen_eq_Inr dest!: get_asset_rowD)
  from up b identifiers_okD(1) [OF ok] show ?thesis
    by (rule update_asset_row_links) (simp_all add: apply_update_def Let_def split: option.splits)
qed

lemma attach_identifier_links:
  assumes "attach_identifier now i p db = Inr (r, db')"
  shows "keeps_links db db'"
  using assms
  by (auto simp: attach_identifier_def andThen_eq_Inr touch_identifier_links intro: insert_identifier_links split: option.splits)

lemma retire_identifier_links:
  assumes "retire_identifier now i db = Inr (r, db')"
  shows "keeps_links db db'"
  using assms
  by (auto simp: retire_identifier_def andThen_eq_Inr identifier_columns_def intro!: identifier_upd_links split: option.splits)

lemma retire_asset_links:
  assumes ok: "identifiers_ok db" and run: "retire_asset now i db = Inr (out, db')"
  shows "keeps_links db db'"
proof -
  let ?retired = "\<lambda>a. a\<lparr>ca_lifecycle := LC_RETIRED, ca_retired_at := Some now\<rparr>"
  let ?db1 = "db\<lparr>fact_rows := upd_rows (\<lambda>f. f_asset f = i \<and> live f) (retire_fact now) (fact_rows db),
      edge_rows := upd_rows (\<lambda>e. (e_source e = i \<or> e_target e = i) \<and> live e) (close_edge now) (edge_rows db)\<rparr>"
  from run obtain a b where a: "a \<in> set (asset_rows db)" and up: "update_asset_row ?retired a ?db1 = Inr (b, db')"
    by (auto simp: retire_asset_def andThen_eq_Inr dest!: get_asset_rowD)
  have "c_id ` set (upd_rows p (retire_fact now) rows) = c_id ` set rows" for p rows
    by (rule image_upd_rows) simp
  moreover have "c_id ` set (upd_rows p (close_edge now) rows) = c_id ` set rows" for p rows
    by (rule image_upd_rows) simp
  moreover note columns_upd_rows [of fact_columns "retire_fact now"] columns_upd_rows [of edge_columns "close_edge now"]
  ultimately have "relinks db ?db1" by (simp add: relinks_def asset_ids_def fact_ids_def edge_ids_def)
  then have "keeps_links db ?db1" by (rule relinksD)
  moreover have "keeps_links ?db1 db'"
    by (rule update_asset_row_links [OF up]) (use a identifiers_okD(1) [OF ok] in simp_all)
  ultimately show ?thesis by (rule keeps_links_trans)
qed

section \<open>Every constraint of the tables\<close>

text \<open>
  The constraints of \<open>models/asset.py\<close>, \<open>models/fact.py\<close>, \<open>models/relationship.py\<close> and
  \<open>models/provenance_mixin.py\<close> over whole tables, each by what it says of the columns.
\<close>

fun has_value :: "value_columns \<Rightarrow> value_type \<Rightarrow> bool" where
  "has_value v VT_TEXT = (v_text v \<noteq> None)"
| "has_value v VT_NUMBER = (v_number v \<noteq> None)"
| "has_value v VT_BOOL = (v_bool v \<noteq> None)"
| "has_value v VT_TIMESTAMP = (v_timestamp v \<noteq> None)"
| "has_value v VT_JSON = (v_json v \<noteq> None)"
| "has_value v VT_ASSET_REF = (v_asset v \<noteq> None)"

definition claim_sound :: "'a claim_scheme \<Rightarrow> bool" where
  "claim_sound c \<longleftrightarrow>
     (c_class c = SC_INFERENCE \<or> c_source_type c = SRC_AI_INFERENCE \<longrightarrow> c_status c \<notin> {VS_VERIFIED, VS_APPROVED}) \<and>
     (c_status c = VS_VERIFIED \<longrightarrow> c_verified_by c \<noteq> None \<and> c_verified_at c \<noteq> None) \<and>
     (c_status c = VS_APPROVED \<longrightarrow> c_approved_by c \<noteq> None \<and> c_approved_at c \<noteq> None) \<and>
     (\<forall>t. c_to c = Some t \<longrightarrow> c_from c \<le> t) \<and> 0 \<le> c_confidence c \<and> c_confidence c \<le> 1000"

definition fact_sound :: "uuid set \<Rightarrow> uuid set \<Rightarrow> fact \<Rightarrow> bool" where
  "fact_sound assets facts f \<longleftrightarrow> matches_predicate (f_predicate f) \<and>
     (\<forall>t. has_value (f_value f) t \<longleftrightarrow> t = v_type (f_value f)) \<and>
     (f_kind f = DESIRED_STATE \<longrightarrow> c_status f = VS_APPROVED) \<and> claim_sound f \<and> fact_linked assets facts f"

definition edge_sound :: "uuid set \<Rightarrow> uuid set \<Rightarrow> edge \<Rightarrow> bool" where
  "edge_sound assets edges e \<longleftrightarrow> e_source e \<noteq> e_target e \<and> (e_symmetric e \<longrightarrow> e_source e < e_target e) \<and>
     claim_sound e \<and> edge_linked assets edges e"

text \<open>What two different rows of a table must not have in common.\<close>

definition identifiers_apart :: "identifier_row \<Rightarrow> identifier_row \<Rightarrow> bool" where
  "identifiers_apart i j \<longleftrightarrow> (ci_id i \<noteq> ci_id j \<and> ci_retired_at i = None \<and> ci_retired_at j = None \<and>
     ci_namespace i = ci_namespace j \<and> ci_normalized i = ci_normalized j \<longrightarrow>
     ci_asset i \<noteq> ci_asset j \<and> \<not> (ci_unique i \<and> ci_unique j))"

definition claims_apart :: "'a claim_scheme \<Rightarrow> 'a claim_scheme \<Rightarrow> bool" where
  "claims_apart f g \<longleftrightarrow> \<not> (\<exists>t. valid_at t f \<and> valid_at t g) \<and> \<not> (c_to f = None \<and> c_to g = None)"

definition facts_apart :: "fact \<Rightarrow> fact \<Rightarrow> bool" where
  "facts_apart f g \<longleftrightarrow> (c_id f \<noteq> c_id g \<and> f_asset f = f_asset g \<and> f_predicate f = f_predicate g \<and> f_kind f = f_kind g \<longrightarrow>
     (c_source_id f = c_source_id g \<longrightarrow> claims_apart f g) \<and>
     \<not> (c_to f = None \<and> c_to g = None \<and> {c_status f, c_status g} \<subseteq> {VS_VERIFIED, VS_APPROVED}))"

definition edges_apart :: "edge \<Rightarrow> edge \<Rightarrow> bool" where
  "edges_apart d e \<longleftrightarrow> (c_id d \<noteq> c_id e \<and> edge_key d = edge_key e \<longrightarrow> claims_apart d e)"

definition constraints_hold :: "cmdb \<Rightarrow> bool" where
  "constraints_hold db \<longleftrightarrow>
     distinct (map ca_id (asset_rows db)) \<and> (\<forall>a \<in> set (asset_rows db). asset_sound (asset_ids db) a) \<and>
     distinct (map ci_id (identifier_rows db)) \<and>
     (\<forall>i \<in> set (identifier_rows db). identifier_sound (asset_ids db) i \<and>
        (\<forall>j \<in> set (identifier_rows db). identifiers_apart i j)) \<and>
     distinct (map c_id (fact_rows db)) \<and>
     (\<forall>f \<in> set (fact_rows db). fact_sound (asset_ids db) (fact_ids db) f \<and>
        (\<forall>g \<in> set (fact_rows db). facts_apart f g)) \<and>
     distinct (map at_id (attestation_rows db)) \<and> (\<forall>t \<in> set (attestation_rows db). at_fact t \<in> fact_ids db) \<and>
     distinct (map c_id (edge_rows db)) \<and>
     (\<forall>e \<in> set (edge_rows db). edge_sound (asset_ids db) (edge_ids db) e \<and>
        (\<forall>d \<in> set (edge_rows db). edges_apart d e))"

text \<open>The whole invariant: the constraints, and what the services keep beyond them.\<close>

definition cmdb_ok :: "cmdb \<Rightarrow> bool" where
  "cmdb_ok db \<longleftrightarrow> tables_ok db \<and> links_ok db"

lemma has_value_set: "has_value v t \<longleftrightarrow> t \<in> set (set_columns v)"
  by (cases t) (auto simp: set_columns_def)

lemma one_value:
  assumes "length (set_columns v) = 1" "v_type v \<in> set (set_columns v)"
  shows "has_value v t \<longleftrightarrow> t = v_type v"
  using assms by (auto simp: has_value_set length_Suc_conv)

lemma claim_soundI: "(\<forall>c \<in> set (provenance_checks f). snd c) \<Longrightarrow> claim_sound f"
  by (auto simp: provenance_checks_def inference_not_authoritative_def claim_sound_def)

lemma cmdb_ok_constraints:
  assumes "cmdb_ok db"
  shows "constraints_hold db"
proof -
  from assms have ok: "facts_ok db" "edges_ok db" "identifiers_ok db" "links_ok db"
    by (simp_all add: cmdb_ok_def tables_ok_def)
  have "identifiers_apart i j" if "i \<in> set (identifier_rows db)" "j \<in> set (identifier_rows db)" for i j
    using identifiers_okD(7) [OF ok(3) that]
    by (auto simp: identifiers_agree_def identifiers_apart_def ikey_def ci_live_def)
  moreover have "fact_sound (asset_ids db) (fact_ids db) f" if f: "f \<in> set (fact_rows db)" for f
  proof -
    have checks: "\<forall>c \<in> set (fact_row_checks f). snd c" using facts_okD(3) [OF ok(1) f] by (simp add: fact_row_ok_def)
    then have "\<forall>c \<in> set (provenance_checks f). snd c" by (simp add: fact_row_checks_def ball_Un)
    with checks show ?thesis
      using ok(4) f one_value [of "f_value f"] claim_soundI [of f]
      by (auto simp: fact_sound_def fact_row_checks_def links_ok_def)
  qed
  moreover have "facts_apart f g" if "f \<in> set (fact_rows db)" "g \<in> set (fact_rows db)" for f g
    using facts_okD(4) [OF ok(1) that]
    by (auto simp: compatible_def facts_apart_def claims_apart_def fact_key_def authority_key_def overlaps_iff live_def
        holds_authority_def is_authoritative_iff)
  moreover have "edge_sound (asset_ids db) (edge_ids db) e" if e: "e \<in> set (edge_rows db)" for e
  proof -
    have checks: "\<forall>c \<in> set (edge_row_checks e). snd c" using ok(2) e by (simp add: edges_ok_def edge_row_ok_def)
    then have "\<forall>c \<in> set (provenance_checks e). snd c" by (simp add: edge_row_checks_def ball_Un)
    with checks show ?thesis
      using ok(4) e claim_soundI [of e] by (auto simp: edge_sound_def edge_row_checks_def links_ok_def)
  qed
  moreover have "edges_apart d e" if "d \<in> set (edge_rows db)" "e \<in> set (edge_rows db)" for d e
    using ok(2) that by (auto simp: edges_ok_def edges_compatible_def edges_apart_def claims_apart_def overlaps_iff live_def)
  ultimately show ?thesis
    using ok by (auto simp: constraints_hold_def links_ok_def attestations_linked_def facts_ok_def edges_ok_def identifiers_ok_def)
qed

end
