(* ===== verification/Authentication.thy ===== *)
theory Authentication
  imports Errors Identity
begin

text \<open>
  \<open>auth/backends/\<close>, \<open>auth/authenticator.py\<close>, the identity dependencies of \<open>api/deps.py\<close> and the
  validators of \<open>config/settings.py\<close>: from the headers of a request to a principal, and from a
  principal to the roles a route asks for.
\<close>

section \<open>Credentials\<close>

record credentials =
  cr_headers :: "(string \<times> string) list"
  cr_source_address :: "string option"
  cr_user_agent :: "string option"

text \<open>Header names are compared without regard to case; the first match counts.\<close>

definition header :: "credentials \<Rightarrow> string \<Rightarrow> string option" where
  "header c name = map_option snd (find (\<lambda>kv. lower (fst kv) = lower name) (cr_headers c))"

text \<open>
  \<open>_presented_credentials\<close>: the first address of \<open>X-Forwarded-For\<close> when there is one, otherwise
  the peer; at most 64 characters are kept.
\<close>

definition non_empty :: "string option \<Rightarrow> string option" where
  "non_empty s = (if s = Some [] then None else s)"

definition presented_credentials :: "(string \<times> string) list \<Rightarrow> string option \<Rightarrow> credentials" where
  "presented_credentials headers client_host =
     (let get = (\<lambda>name. map_option snd (find (\<lambda>kv. lower (fst kv) = name) headers));
          source = (case non_empty (get ''x-forwarded-for'') of
            None \<Rightarrow> client_host | Some f \<Rightarrow> Some (strip (hd (split_on (CHR '','') f)))) in
     \<lparr>cr_headers = headers, cr_source_address = map_option (take 64) (non_empty source),
      cr_user_agent = get ''user-agent''\<rparr>)"

section \<open>The API-key backend\<close>

record api_key_config =
  ak_subject :: string
  ak_secret :: string
  ak_display_name :: string
  ak_roles :: "string list"
  ak_principal_type :: principal_type

definition API_KEY_ISSUER :: string where "API_KEY_ISSUER = ''acop:api-key''"

text \<open>\<open>secrets.compare_digest\<close> on strings: a \<open>TypeError\<close> unless both are ASCII.\<close>

definition is_ascii :: "string \<Rightarrow> bool" where
  "is_ascii s = list_all (\<lambda>c. (of_char c :: nat) < 128) s"

definition compare_digest :: "string \<Rightarrow> string \<Rightarrow> acop_error + bool" where
  "compare_digest a b = (if is_ascii a \<and> is_ascii b then Inr (a = b) else Inl UnhandledError)"

definition presented_key :: "string \<Rightarrow> credentials \<Rightarrow> string option" where
  "presented_key header_name c = (case header c header_name of
     Some k \<Rightarrow> Some k
   | None \<Rightarrow> (case header c ''Authorization'' of
       None \<Rightarrow> None
     | Some a \<Rightarrow> if starts_with ''bearer '' (lower a) then Some (strip (drop 7 a)) else None))"

text \<open>Every configured key is compared; the last that matches counts.\<close>

definition match_key ::
  "string \<Rightarrow> api_key_config option \<Rightarrow> api_key_config \<Rightarrow> acop_error + api_key_config option" where
  "match_key presented matched candidate =
     andThen (compare_digest (ak_secret candidate) presented) (\<lambda>same.
     Inr (if same then Some candidate else matched))"

definition api_key_principal :: "api_key_config \<Rightarrow> principal" where
  "api_key_principal k = \<lparr>p_subject = ak_subject k, p_type = ak_principal_type k,
     p_issuer = API_KEY_ISSUER, p_auth_method = API_KEY,
     p_display_name = (if ak_display_name k = [] then ak_subject k else ak_display_name k),
     p_roles = ak_roles k\<rparr>"

type_synonym backend = "credentials \<Rightarrow> acop_error + principal option"

definition api_key_backend :: "api_key_config list \<Rightarrow> string \<Rightarrow> backend" where
  "api_key_backend keys header_name c = (case presented_key header_name c of
     None \<Rightarrow> Inr None
   | Some presented \<Rightarrow>
       if presented = [] then Inr None
       else andThen (foldRes (match_key presented) None keys) (\<lambda>matched.
         Inr (map_option api_key_principal matched)))"

section \<open>The authenticator\<close>

record authenticator =
  au_backends :: "backend list"
  au_enabled :: bool
  au_anonymous :: "principal option"

fun first_principal :: "backend list \<Rightarrow> credentials \<Rightarrow> acop_error + principal" where
  "first_principal [] c = Inl AuthenticationError"
| "first_principal (b # bs) c = andThen (b c) (\<lambda>found.
     case found of Some p \<Rightarrow> Inr p | None \<Rightarrow> first_principal bs c)"

definition authenticate :: "authenticator \<Rightarrow> credentials \<Rightarrow> acop_error + principal" where
  "authenticate au c =
     (if \<not> au_enabled au then
        (case au_anonymous au of None \<Rightarrow> Inl AuthenticationError | Some p \<Rightarrow> Inr p)
      else first_principal (au_backends au) c)"

text \<open>\<open>_build_authenticator\<close> of \<open>main.py\<close>.\<close>

definition build_authenticator :: "bool \<Rightarrow> api_key_config list \<Rightarrow> string \<Rightarrow> authenticator" where
  "build_authenticator enabled keys header_name =
     \<lparr>au_backends = [api_key_backend keys header_name], au_enabled = enabled,
      au_anonymous = Some ANONYMOUS_PRINCIPAL\<rparr>"

section \<open>Roles a route asks for\<close>

definition require_roles :: "role list \<Rightarrow> principal \<Rightarrow> acop_error + principal" where
  "require_roles roles p =
     (if roles \<noteq> [] \<and> \<not> has_any_role p (map role_value roles) then Inl AuthorizationError else Inr p)"

definition ViewerPrincipal :: "role list" where
  "ViewerPrincipal = [VIEWER, OPERATOR, APPROVER, ADMIN]"

definition OperatorPrincipal :: "role list" where "OperatorPrincipal = [OPERATOR, ADMIN]"

definition ApproverPrincipal :: "role list" where "ApproverPrincipal = [APPROVER, ADMIN]"

definition AdminPrincipal :: "role list" where "AdminPrincipal = [ADMIN]"

section \<open>What a deployment may be configured to\<close>

datatype environment = DEVELOPMENT | TEST_ENV | STAGING | PRODUCTION

definition deployed :: "environment \<Rightarrow> bool" where
  "deployed e = (e \<in> {STAGING, PRODUCTION})"

record deployment =
  dp_environment :: environment
  dp_debug :: bool
  dp_auth_enabled :: bool
  dp_api_keys :: "api_key_config list"
  dp_fingerprint_salt :: string
  dp_allow_self_approval :: bool
  dp_proxmox_enabled :: bool
  dp_instance_id :: string
  dp_base_url :: string
  dp_token_id :: string
  dp_token_secret :: string
  dp_verify_tls :: bool
  dp_timeout_ms :: int

text \<open>\<open>^[a-z0-9][a-z0-9-]{0,31}$\<close>, used with \<open>match\<close>.\<close>

definition is_slug_char :: "char \<Rightarrow> bool" where
  "is_slug_char c = (is_lower_letter c \<or> is_digit c)"

definition matches_instance_id :: "string \<Rightarrow> bool" where
  "matches_instance_id s = (case drop_final_newline s of
     [] \<Rightarrow> False
   | c # cs \<Rightarrow> is_slug_char c \<and> length cs \<le> 31 \<and> list_all (\<lambda>d. is_slug_char d \<or> d = CHR ''-'') cs)"

definition rstrip_slash :: "string \<Rightarrow> string" where
  "rstrip_slash s = rev (dropWhile (\<lambda>c. c = CHR ''/'') (rev s))"

text \<open>The validators in the order of the fields; each names its setting.\<close>

definition settings_checks :: "deployment \<Rightarrow> (string \<times> bool) list" where
  "settings_checks d =
     [(''debug'', \<not> (dp_debug d \<and> dp_environment d = PRODUCTION)),
      (''knowledge_fingerprint_salt'', \<not> (dp_fingerprint_salt d = [] \<and> deployed (dp_environment d))),
      (''tools_allow_self_approval'', \<not> (dp_allow_self_approval d \<and> deployed (dp_environment d))),
      (''proxmox_instance_id'', dp_proxmox_enabled d \<longrightarrow> matches_instance_id (dp_instance_id d)),
      (''proxmox_base_url'', dp_proxmox_enabled d \<longrightarrow>
         (rstrip_slash (dp_base_url d) \<noteq> [] \<and> starts_with ''https://'' (rstrip_slash (dp_base_url d)))),
      (''proxmox_token_id'', dp_proxmox_enabled d \<longrightarrow> strip (dp_token_id d) \<noteq> []),
      (''proxmox_token_secret'', dp_proxmox_enabled d \<longrightarrow> dp_token_secret d \<noteq> []),
      (''proxmox_verify_tls'', \<not> (\<not> dp_verify_tls d \<and> deployed (dp_environment d))),
      (''proxmox_timeout_seconds'', 0 < dp_timeout_ms d),
      (''api_keys'', \<not> (dp_auth_enabled d \<and> dp_api_keys d = [] \<and> deployed (dp_environment d)) \<and>
         distinct (map ak_subject (dp_api_keys d)))]"

definition settings_accepted :: "deployment \<Rightarrow> bool" where
  "settings_accepted d = list_all snd (settings_checks d)"

section \<open>Who gets in\<close>

lemma compare_digest_Inr: "compare_digest a b = Inr same \<longleftrightarrow> is_ascii a \<and> is_ascii b \<and> same = (a = b)"
  by (auto simp: compare_digest_def)

lemma match_key_Inr:
  "match_key s m k = Inr x \<longleftrightarrow> is_ascii (ak_secret k) \<and> is_ascii s \<and> x = (if ak_secret k = s then Some k else m)"
  by (auto simp: match_key_def andThen_eq_Inr compare_digest_Inr)

text \<open>The loop ends with the last key whose secret is the presented one.\<close>

lemma match_keys:
  assumes "foldRes (match_key presented) start keys = Inr matched"
  shows "matched = (case find (\<lambda>k. ak_secret k = presented) (rev keys) of None \<Rightarrow> start | Some k \<Rightarrow> Some k)"
  using assms
proof (induction keys arbitrary: start)
  case (Cons k keys)
  have find_snoc: "find P (xs @ [y]) = (case find P xs of None \<Rightarrow> if P y then Some y else None | Some z \<Rightarrow> Some z)"
    for P and xs :: "api_key_config list" and y by (induction xs) auto
  from Cons.prems obtain next_start where
    "foldRes (match_key presented) next_start keys = Inr matched"
    "next_start = (if ak_secret k = presented then Some k else start)"
    by (auto simp: andThen_eq_Inr match_key_Inr)
  from Cons.IH [OF this(1)] this(2) show ?case by (auto simp: find_snoc split: option.splits)
qed simp

lemma match_keys_runs:
  assumes "is_ascii presented" and "\<forall>k \<in> set keys. is_ascii (ak_secret k)"
  shows "\<exists>matched. foldRes (match_key presented) start keys = Inr matched"
  using assms(2) by (induction keys arbitrary: start) (auto simp: match_key_def compare_digest_def assms(1))

text \<open>
  With authentication on, a caller gets in exactly with the secret of a configured key, and acts
  under the subject and the roles configured with it.
\<close>

theorem admitted_with_a_configured_key:
  assumes ascii: "\<forall>k \<in> set keys. is_ascii (ak_secret k)"
    and "\<And>s. presented_key header_name c = Some s \<Longrightarrow> is_ascii s"
  shows "authenticate (build_authenticator True keys header_name) c =
    (case presented_key header_name c of
       None \<Rightarrow> Inl AuthenticationError
     | Some s \<Rightarrow> if s = [] then Inl AuthenticationError
         else (case find (\<lambda>k. ak_secret k = s) (rev keys) of
            None \<Rightarrow> Inl AuthenticationError
          | Some k \<Rightarrow> Inr (api_key_principal k)))"
proof (cases "presented_key header_name c")
  case (Some s)
  obtain matched where run: "foldRes (match_key s) None keys = Inr matched"
    using match_keys_runs [OF assms(2) [OF Some] ascii] by blast
  show ?thesis
    using Some run match_keys [OF run]
    by (auto simp: authenticate_def build_authenticator_def api_key_backend_def split: option.splits)
qed (simp add: authenticate_def build_authenticator_def api_key_backend_def)

text \<open>A key that is not ASCII is no refusal but an unhandled exception.\<close>

theorem non_ascii_key_crashes:
  assumes "keys \<noteq> []" and "presented_key header_name c = Some s" and "\<not> is_ascii s"
  shows "authenticate (build_authenticator True keys header_name) c = Inl UnhandledError"
proof -
  obtain k ks where "keys = k # ks" using assms(1) by (cases keys) auto
  moreover have "s \<noteq> []" using assms(3) by (auto simp: is_ascii_def)
  ultimately show ?thesis
    using assms(2,3)
    by (simp add: authenticate_def build_authenticator_def api_key_backend_def match_key_def compare_digest_def)
qed

text \<open>
  What start-up guarantees of a deployed environment: separation of duties, verified transport
  and a salt.  It does not guarantee that anyone has to authenticate.
\<close>

theorem deployed_settings_are_safe:
  assumes "settings_accepted d" and "deployed (dp_environment d)"
  shows "\<not> dp_allow_self_approval d \<and> dp_verify_tls d \<and> dp_fingerprint_salt d \<noteq> [] \<and>
    (dp_auth_enabled d \<longrightarrow> dp_api_keys d \<noteq> []) \<and> (dp_environment d = PRODUCTION \<longrightarrow> \<not> dp_debug d) \<and>
    (dp_proxmox_enabled d \<longrightarrow> (\<exists>rest. rstrip_slash (dp_base_url d) = ''https://'' @ rest) \<and> dp_token_secret d \<noteq> [])"
  using assms by (auto simp: settings_accepted_def settings_checks_def starts_with_iff)

text \<open>A production deployment without authentication passes every validator.\<close>

theorem production_may_run_open:
  "settings_accepted \<lparr>dp_environment = PRODUCTION, dp_debug = False, dp_auth_enabled = False,
     dp_api_keys = [], dp_fingerprint_salt = ''salt'', dp_allow_self_approval = False,
     dp_proxmox_enabled = False, dp_instance_id = [], dp_base_url = [], dp_token_id = [],
     dp_token_secret = [], dp_verify_tls = True, dp_timeout_ms = 15000\<rparr> \<and>
   authenticate (build_authenticator False [] name) c = Inr ANONYMOUS_PRINCIPAL"
  by (simp add: settings_accepted_def settings_checks_def authenticate_def build_authenticator_def)

text \<open>
  A deployment that runs open serves nobody a route that asks for a role: the anonymous caller
  holds none.
\<close>

theorem open_deployment_grants_no_role:
  assumes "authenticate (build_authenticator False keys name) c = Inr p" and "roles \<noteq> []"
  shows "require_roles roles p = Inl AuthorizationError"
  using assms
  by (auto simp: authenticate_def build_authenticator_def require_roles_def has_any_role_def has_role_def
      ANONYMOUS_PRINCIPAL_def list_ex_iff)

lemma require_roles_Inr:
  "require_roles roles p = Inr q \<longleftrightarrow> q = p \<and> (roles = [] \<or> (\<exists>r \<in> set roles. role_value r \<in> set (p_roles p)))"
  by (auto simp: require_roles_def has_any_role_def has_role_def list_ex_iff)

end
