(* ===== verification/Cmdb_Routes.thy ===== *)
theory Cmdb_Routes
  imports Cmdb_Links Authentication Store
begin

text \<open>
  The CMDB as it is served: \<open>api/routes/cmdb_assets.py\<close>, \<open>cmdb_facts.py\<close>,
  \<open>cmdb_relationships.py\<close> with the route wrapper of \<open>api/transaction.py\<close>.  A call is
  authenticated, its role and its payload are checked, the service runs and the audit record is
  written in one transaction; a refusal rolls everything back, and two kinds of refusal leave an
  audit record of their own.
\<close>

section \<open>Requests\<close>

datatype cmdb_request =
  CreateAsset asset_create
| ResolveAsset asset_kind string "identifier_input list" bool
| UpdateAsset uuid asset_update
| RetireAsset uuid
| AttachIdentifier uuid identifier_input
| RetireIdentifier uuid
| DeclareDesired uuid desired_create
| AssertFact uuid fact_assert
| VerifyFact uuid "string option"
| RevokeFact uuid "string option"
| AssertRelationship relationship_assert
| RetireRelationship uuid

text \<open>The identity alias in the signature of each route.\<close>

fun required_roles :: "cmdb_request \<Rightarrow> role list" where
  "required_roles (VerifyFact i r) = ApproverPrincipal"
| "required_roles (RevokeFact i r) = ApproverPrincipal"
| "required_roles _ = OperatorPrincipal"

definition short_reason :: "string option \<Rightarrow> bool" where
  "short_reason r = (case r of None \<Rightarrow> True | Some s \<Rightarrow> length s \<le> 1024)"

fun validate_all :: "identifier_input list \<Rightarrow> identifier_input list option" where
  "validate_all [] = Some []"
| "validate_all (i # is) = (case validate_identifier i of
     None \<Rightarrow> None
   | Some j \<Rightarrow> map_option (\<lambda>js. j # js) (validate_all is))"

definition validate_relationship :: "relationship_assert \<Rightarrow> bool" where
  "validate_relationship p =
     ((case ra_qualifier p of None \<Rightarrow> True | Some q \<Rightarrow> length q \<le> 128) \<and> 1 \<le> length (ra_source_id p) \<and>
      length (ra_source_id p) \<le> 255 \<and> 0 \<le> ra_confidence p \<and> ra_confidence p \<le> 1000)"

text \<open>The payload as the schemas of \<open>schemas/\<close> leave it, or \<open>None\<close> for a 422.\<close>

fun validate_request :: "cmdb_request \<Rightarrow> cmdb_request option" where
  "validate_request (CreateAsset p) =
     (if validate_create p then map_option (\<lambda>ids. CreateAsset (p\<lparr>ac_identifiers := ids\<rparr>)) (validate_all (ac_identifiers p))
      else None)"
| "validate_request (ResolveAsset k n ids c) =
     (if 1 \<le> length n \<and> length n \<le> 255 \<and> ids \<noteq> []
      then map_option (\<lambda>ids'. ResolveAsset k n ids' c) (validate_all ids) else None)"
| "validate_request (UpdateAsset i u) = (if validate_update u then Some (UpdateAsset i u) else None)"
| "validate_request (AttachIdentifier i p) = map_option (AttachIdentifier i) (validate_identifier p)"
| "validate_request (DeclareDesired i p) = map_option (DeclareDesired i) (validate_desired p)"
| "validate_request (AssertFact i p) = map_option (AssertFact i) (validate_assert p)"
| "validate_request (VerifyFact i r) = (if short_reason r then Some (VerifyFact i r) else None)"
| "validate_request (RevokeFact i r) = (if short_reason r then Some (RevokeFact i r) else None)"
| "validate_request (AssertRelationship p) =
     (if validate_relationship p then Some (AssertRelationship p) else None)"
| "validate_request r = Some r"

section \<open>The audit record of a call\<close>

record cmdb_event =
  ke_action :: string
  ke_outcome :: audit_outcome
  ke_severity :: audit_severity
  ke_resource_type :: string
  ke_resource_id :: "uuid option"
  ke_by :: audit_fields

definition success :: "string \<Rightarrow> audit_severity \<Rightarrow> string \<Rightarrow> uuid \<Rightarrow> principal \<Rightarrow> cmdb_event" where
  "success action severity kind i who =
     \<lparr>ke_action = action, ke_outcome = AUDIT_SUCCESS, ke_severity = severity, ke_resource_type = kind,
      ke_resource_id = Some i, ke_by = to_audit_fields who\<rparr>"

definition denial :: "string \<Rightarrow> string \<Rightarrow> principal \<Rightarrow> cmdb_event" where
  "denial action kind who =
     \<lparr>ke_action = action, ke_outcome = AUDIT_DENIED, ke_severity = AUDIT_WARNING, ke_resource_type = kind,
      ke_resource_id = None, ke_by = to_audit_fields who\<rparr>"

text \<open>The refusals that are recorded on their own connection.\<close>

fun denial_of :: "cmdb_request \<Rightarrow> acop_error \<Rightarrow> principal \<Rightarrow> cmdb_event option" where
  "denial_of (CreateAsset p) IdentityConflictError who = (if ac_identifiers p = [] then None
     else Some (denial ''cmdb.identity.conflict'' ''cmdb.asset'' who))"
| "denial_of (ResolveAsset k n ids c) IdentityConflictError who =
     Some (denial ''cmdb.identity.conflict'' ''cmdb.asset'' who)"
| "denial_of (AssertFact i p) SecretRejectedError who =
     Some (denial ''cmdb.fact.secret_rejected'' ''cmdb.fact'' who)"
| "denial_of r e who = None"

section \<open>Serving\<close>

fun asset_action :: "resolution \<Rightarrow> string" where
  "asset_action (MATCHED a on) = ''cmdb.asset.match''"
| "asset_action (RESOLVED_NEW a) = ''cmdb.asset.create''"

fun fact_action :: "assert_outcome \<Rightarrow> string" where
  "fact_action CREATED = ''cmdb.fact.assert''"
| "fact_action SUPERSEDED = ''cmdb.fact.supersede''"
| "fact_action TOUCHED = ''cmdb.fact.touch''"

text \<open>
  \<open>create_asset\<close> calls the row of a payload without identifiers created, whatever resolution
  says; with none, resolution can only have created it.
\<close>

fun perform :: "int \<Rightarrow> principal \<Rightarrow> string option \<Rightarrow> cmdb_request \<Rightarrow> cmdb \<Rightarrow> cmdb_event cmdb_run" where
  "perform now who rid (CreateAsset p) db = andThen (create_asset now p db) (\<lambda>((res, a), db').
     Inr (success (asset_action res) AUDIT_INFO ''cmdb.asset'' (ca_id a) who, db'))"
| "perform now who rid (ResolveAsset k n ids c) db = andThen (resolve now k n ids c db) (\<lambda>(res, db').
     Inr (success (asset_action res) AUDIT_INFO ''cmdb.asset'' (resolved res) who, db'))"
| "perform now who rid (UpdateAsset i u) db = andThen (update_asset i u db) (\<lambda>(a, db').
     Inr (success ''cmdb.asset.update'' AUDIT_INFO ''cmdb.asset'' (ca_id a) who, db'))"
| "perform now who rid (RetireAsset i) db = andThen (retire_asset now i db) (\<lambda>((a, m, n), db').
     Inr (success ''cmdb.asset.retire'' AUDIT_NOTICE ''cmdb.asset'' (ca_id a) who, db'))"
| "perform now who rid (AttachIdentifier i p) db = andThen (attach_identifier now i p db) (\<lambda>(r, db').
     Inr (success ''cmdb.identifier.attach'' AUDIT_INFO ''cmdb.identifier'' (ci_id r) who, db'))"
| "perform now who rid (RetireIdentifier i) db = andThen (retire_identifier now i db) (\<lambda>(r, db').
     Inr (success ''cmdb.identifier.retire'' AUDIT_INFO ''cmdb.identifier'' (ci_id r) who, db'))"
| "perform now who rid (DeclareDesired i p) db = andThen (create_desired now i p who None rid db) (\<lambda>(f, db').
     Inr (success ''cmdb.fact.approve'' AUDIT_NOTICE ''cmdb.fact'' (c_id f) who, db'))"
| "perform now who rid (AssertFact i p) db = andThen (assert_fact now i p db) (\<lambda>((oc, f, prior, keys), db').
     Inr (success (fact_action oc) AUDIT_INFO ''cmdb.fact'' (c_id f) who, db'))"
| "perform now who rid (VerifyFact i r) db = andThen (fact_transition now i VERIFY who r rid db) (\<lambda>(f, db').
     Inr (success ''cmdb.fact.verify'' AUDIT_NOTICE ''cmdb.fact'' (c_id f) who, db'))"
| "perform now who rid (RevokeFact i r) db = andThen (fact_transition now i REVOKE who r rid db) (\<lambda>(f, db').
     Inr (success ''cmdb.fact.revoke'' AUDIT_NOTICE ''cmdb.fact'' (c_id f) who, db'))"
| "perform now who rid (AssertRelationship p) db = andThen (assert_relationship now p db) (\<lambda>((oc, e, sw), db').
     Inr (success (if oc = EDGE_TOUCHED then ''cmdb.relationship.touch'' else ''cmdb.relationship.assert'')
       AUDIT_INFO ''cmdb.relationship'' (c_id e) who, db'))"
| "perform now who rid (RetireRelationship i) db = andThen (retire_edge now i db) (\<lambda>(e, db').
     Inr (success ''cmdb.relationship.retire'' AUDIT_NOTICE ''cmdb.relationship'' (c_id e) who, db'))"

record cmdb_world =
  cw_db :: cmdb
  cw_audit :: "cmdb_event list"

text \<open>
  \<open>_commit_after\<close>: the mutation and its audit record are committed together before the response
  exists; on an exception the session is rolled back, which leaves what \<open>record_denial\<close> wrote.
\<close>

definition commit_after :: "cmdb_event cmdb_run \<Rightarrow> (acop_error \<Rightarrow> cmdb_event option) \<Rightarrow> cmdb_world \<Rightarrow> cmdb_world" where
  "commit_after run denied w = (case run of
     Inr (event, db') \<Rightarrow> w\<lparr>cw_db := db', cw_audit := cw_audit w @ [event]\<rparr>
   | Inl e \<Rightarrow> (case denied e of None \<Rightarrow> w | Some event \<Rightarrow> w\<lparr>cw_audit := cw_audit w @ [event]\<rparr>))"

record call =
  k_now :: int
  k_credentials :: credentials
  k_request_id :: "string option"
  k_request :: cmdb_request

definition admitted :: "authenticator \<Rightarrow> call \<Rightarrow> acop_error + principal \<times> cmdb_request" where
  "admitted au k = andThen (authenticate au (k_credentials k)) (\<lambda>who.
     andThen (require_roles (required_roles (k_request k)) who) (\<lambda>who.
     case validate_request (k_request k) of None \<Rightarrow> Inl ValidationError | Some r \<Rightarrow> Inr (who, r)))"

definition serve :: "authenticator \<Rightarrow> cmdb_world \<Rightarrow> call \<Rightarrow> cmdb_world" where
  "serve au w k = (case admitted au k of
     Inl e \<Rightarrow> w
   | Inr (who, r) \<Rightarrow> commit_after (perform (k_now k) who (k_request_id k) r (cw_db w)) (\<lambda>e. denial_of r e who) w)"

definition empty_cmdb :: cmdb where
  "empty_cmdb = \<lparr>asset_rows = [], identifier_rows = [], fact_rows = [], attestation_rows = [],
     edge_rows = [], fresh_id = 0\<rparr>"

definition empty_world :: cmdb_world where
  "empty_world = \<lparr>cw_db = empty_cmdb, cw_audit = []\<rparr>"

definition serve_all :: "authenticator \<Rightarrow> call list \<Rightarrow> cmdb_world" where
  "serve_all au ks = foldl (serve au) empty_world ks"

section \<open>One call\<close>

text \<open>The call that gave a fact its authority.\<close>

definition vouches :: "cmdb_request \<Rightarrow> principal \<Rightarrow> fact \<Rightarrow> bool" where
  "vouches r who f \<longleftrightarrow>
     (c_status f = VS_VERIFIED \<and> (\<exists>reason. r = VerifyFact (c_id f) reason) \<and>
        c_verified_by f = Some (p_subject who)) \<or>
     (c_status f = VS_APPROVED \<and> f_kind f = DESIRED_STATE \<and> (\<exists>i p. r = DeclareDesired i p) \<and>
        c_approved_by f = Some (p_subject who))"

definition stands :: "cmdb_request \<Rightarrow> principal \<Rightarrow> cmdb \<Rightarrow> cmdb \<Rightarrow> bool" where
  "stands r who db db' \<longleftrightarrow> (\<forall>f \<in> set (fact_rows db'). is_authoritative (c_status f) \<longrightarrow>
     vouches r who f \<or> (\<exists>g \<in> set (fact_rows db). c_id g = c_id f \<and> standing g = standing f))"

lemma stands_none: "authority_from {} db db' \<Longrightarrow> stands r who db db'"
  by (auto simp: stands_def authority_from_def)

lemma stands_one:
  assumes "authority_from {i} db db'" and "facts_ok db'" and "g \<in> set (fact_rows db')" "c_id g = i"
    and "is_authoritative (c_status g) \<Longrightarrow> vouches r who g"
  shows "stands r who db db'"
  unfolding stands_def
proof (intro ballI impI)
  fix f assume f: "f \<in> set (fact_rows db')" "is_authoritative (c_status f)"
  show "vouches r who f \<or> (\<exists>g \<in> set (fact_rows db). c_id g = c_id f \<and> standing g = standing f)"
  proof (cases "c_id f = i")
    case True
    then have "f = g"
      using facts_okD(1) [OF assms(2)] f(1) assms(3,4) by (auto simp: distinct_map inj_on_def)
    then show ?thesis using assms(5) f(2) by simp
  qed (use assms(1) f in \<open>auto simp: authority_from_def\<close>)
qed

definition sound_step :: "cmdb_request \<Rightarrow> principal \<Rightarrow> cmdb \<Rightarrow> cmdb \<Rightarrow> bool" where
  "sound_step r who db db' \<longleftrightarrow> tables_ok db' \<and> cmdb_grows db db' \<and> stands r who db db'"

lemma sound_stepI: "tables_ok db' \<and> cmdb_grows db db' \<and> authority_from {} db db' \<Longrightarrow> sound_step r who db db'"
  by (simp add: sound_step_def stands_none)

lemma declare_sound:
  assumes ok: "tables_ok db" and run: "create_desired now i p who None rid db = Inr (f, db')"
  shows "sound_step (DeclareDesired j q) who db db'"
proof -
  from ok have facts: "facts_ok db" "attested db" by (simp_all add: tables_ok_def)
  note step = create_desired_step [OF facts(1) run]
  have ok': "facts_ok db'" using create_desired_replaces [OF facts(1) run] ..
  have "tables_ok db' \<and> cmdb_grows db db'"
    using fact_step_ok [OF ok _ ok' create_desired_attested [OF facts run]] step by blast
  moreover have "stands (DeclareDesired j q) who db db'"
    by (rule stands_one [OF _ ok', of "c_id f" _ f])
      (use step in \<open>auto simp: fact_step_def vouches_def standing_def\<close>)
  ultimately show ?thesis by (simp add: sound_step_def)
qed

lemma transition_sound:
  assumes ok: "tables_ok db" and run: "fact_transition now i action who reason rid db = Inr (f, db')"
    and "action = VERIFY \<and> r = VerifyFact i x \<or> action = REVOKE"
  shows "sound_step r who db db'"
proof -
  from ok have facts: "facts_ok db" "attested db" by (simp_all add: tables_ok_def)
  note step = fact_transition_step [OF facts(1) run]
  have ok': "facts_ok db'" using fact_transition_keeps [OF facts(1) run] ..
  have "tables_ok db' \<and> cmdb_grows db db'"
    using fact_step_ok [OF ok _ ok' fact_transition_attested [OF facts run]] step by blast
  moreover have "stands r who db db'"
    by (rule stands_one [OF _ ok', of i _ f])
      (use step assms(3) in \<open>auto simp: fact_step_def vouches_def target_status_def\<close>)
  ultimately show ?thesis by (simp add: sound_step_def)
qed

lemma perform_sound:
  assumes ok: "tables_ok db" and run: "perform now who rid r db = Inr (event, db')"
  shows "sound_step r who db db'"
proof -
  from ok have facts: "facts_ok db" "attested db" and edges: "edges_ok db" and idok: "identifiers_ok db"
    by (simp_all add: tables_ok_def)
  show ?thesis
  proof (cases r)
    case (CreateAsset p)
    with run obtain res a where "create_asset now p db = Inr ((res, a), db')" by (auto simp: andThen_eq_Inr)
    then show ?thesis by (intro sound_stepI registry_step_ok [OF ok] create_asset_step [OF idok])
  next
    case (ResolveAsset k n ids c)
    with run obtain res where "resolve now k n ids c db = Inr (res, db')" by (auto simp: andThen_eq_Inr)
    then show ?thesis by (intro sound_stepI registry_step_ok [OF ok] resolve_step [OF idok])
  next
    case (UpdateAsset i u)
    with run obtain a where "update_asset i u db = Inr (a, db')" by (auto simp: andThen_eq_Inr)
    then show ?thesis by (intro sound_stepI registry_step_ok [OF ok] update_asset_step [OF idok])
  next
    case (RetireAsset i)
    with run obtain out where "retire_asset now i db = Inr (out, db')" by (auto simp: andThen_eq_Inr)
    then show ?thesis by (intro sound_stepI retire_asset_step [OF ok])
  next
    case (AttachIdentifier i p)
    with run obtain q where "attach_identifier now i p db = Inr (q, db')" by (auto simp: andThen_eq_Inr)
    then show ?thesis by (intro sound_stepI registry_step_ok [OF ok] attach_identifier_step [OF idok])
  next
    case (RetireIdentifier i)
    with run obtain q where "retire_identifier now i db = Inr (q, db')" by (auto simp: andThen_eq_Inr)
    then show ?thesis by (intro sound_stepI registry_step_ok [OF ok] retire_identifier_registry_step [OF idok])
  next
    case (DeclareDesired i p)
    with run obtain f where "create_desired now i p who None rid db = Inr (f, db')" by (auto simp: andThen_eq_Inr)
    then show ?thesis unfolding DeclareDesired by (rule declare_sound [OF ok])
  next
    case (AssertFact i p)
    with run obtain oc f prior keys where out: "assert_fact now i p db = Inr ((oc, f, prior, keys), db')"
      by (auto simp: andThen_eq_Inr)
    have "tables_ok db' \<and> cmdb_grows db db'"
      by (rule fact_step_ok [OF ok assert_fact_step [OF facts(1) out] assert_fact_ok [OF facts(1) out]
          assert_fact_attested [OF facts out]])
    moreover have "authority_from {} db db'" using assert_fact_step [OF facts(1) out] by (auto simp: fact_step_def)
    ultimately show ?thesis by (intro sound_stepI) simp
  next
    case (VerifyFact i x)
    with run obtain f where "fact_transition now i VERIFY who x rid db = Inr (f, db')" by (auto simp: andThen_eq_Inr)
    then show ?thesis unfolding VerifyFact by (rule transition_sound [OF ok]) simp
  next
    case (RevokeFact i x)
    with run obtain f where "fact_transition now i REVOKE who x rid db = Inr (f, db')" by (auto simp: andThen_eq_Inr)
    then show ?thesis by (rule transition_sound [OF ok]) simp
  next
    case (AssertRelationship p)
    with run obtain oc e sw where out: "assert_relationship now p db = Inr ((oc, e, sw), db')"
      by (auto simp: andThen_eq_Inr)
    from assert_relationship_leaves [OF edges out] have "edges_ok db'" by blast
    then show ?thesis
      by (intro sound_stepI edge_step_ok [OF ok assert_relationship_step [OF edges out]])
  next
    case (RetireRelationship i)
    with run obtain e where out: "retire_edge now i db = Inr (e, db')" by (auto simp: andThen_eq_Inr)
    from retire_edge_ok [OF edges out] show ?thesis
      by (intro sound_stepI edge_step_ok [OF ok retire_edge_step [OF edges out]])
  qed
qed

section \<open>Served in any order\<close>

lemma serve_cases:
  obtains (refused) more where "serve au w k = w\<lparr>cw_audit := cw_audit w @ more\<rparr>" "\<forall>e \<in> set more. ke_outcome e = AUDIT_DENIED"
  | (served) who r event db' where "admitted au k = Inr (who, r)"
      "perform (k_now k) who (k_request_id k) r (cw_db w) = Inr (event, db')"
      "serve au w k = w\<lparr>cw_db := db', cw_audit := cw_audit w @ [event]\<rparr>"
proof (cases "admitted au k")
  case (Inl e)
  then show thesis by (intro refused [of "[]"]) (simp_all add: serve_def)
next
  case (Inr out)
  then obtain who r where adm: "admitted au k = Inr (who, r)" by (cases out) auto
  let ?run = "perform (k_now k) who (k_request_id k) r (cw_db w)"
  show thesis
  proof (cases ?run)
    case (Inl e)
    show thesis
    proof (cases "denial_of r e who")
      case None
      with adm Inl show thesis by (intro refused [of "[]"]) (simp_all add: serve_def commit_after_def)
    next
      case (Some ev)
      then have "ke_outcome ev = AUDIT_DENIED"
        by (cases "(r, e, who)" rule: denial_of.cases) (auto simp: denial_def split: if_splits)
      with Some adm Inl show thesis by (intro refused [of "[ev]"]) (simp_all add: serve_def commit_after_def)
    qed
  next
    case (Inr out)
    then show thesis
      using adm by (cases out) (auto simp: serve_def commit_after_def intro: served)
  qed
qed

lemma admitted_role:
  assumes "admitted au k = Inr (who, r)"
  shows "authenticate au (k_credentials k) = Inr who" "validate_request (k_request k) = Some r"
    "\<exists>role \<in> set (required_roles (k_request k)). role_value role \<in> set (p_roles who)"
proof -
  from assms show "authenticate au (k_credentials k) = Inr who" "validate_request (k_request k) = Some r"
    by (auto simp: admitted_def andThen_eq_Inr require_roles_Inr split: option.splits)
  from assms have "required_roles (k_request k) = [] \<or>
      (\<exists>role \<in> set (required_roles (k_request k)). role_value role \<in> set (p_roles who))"
    by (auto simp: admitted_def andThen_eq_Inr require_roles_Inr split: option.splits)
  then show "\<exists>role \<in> set (required_roles (k_request k)). role_value role \<in> set (p_roles who)"
    by (cases "k_request k") (auto simp: OperatorPrincipal_def ApproverPrincipal_def)
qed

lemma serve_sound:
  assumes "tables_ok (cw_db w)"
  shows "tables_ok (cw_db (serve au w k)) \<and> cmdb_grows (cw_db w) (cw_db (serve au w k))"
proof (cases rule: serve_cases [of au w k])
  case (served who r event db')
  then show ?thesis using perform_sound [OF assms served(2)] by (simp add: sound_step_def)
qed (use assms cmdb_evolution.evolves_refl in simp)

lemma serve_run_sound:
  "tables_ok (cw_db w) \<Longrightarrow> tables_ok (cw_db (foldl (serve au) w ks)) \<and> cmdb_grows (cw_db w) (cw_db (foldl (serve au) w ks))"
proof (induction ks arbitrary: w)
  case (Cons k ks)
  from serve_sound [OF Cons.prems, of au k] have ok: "tables_ok (cw_db (serve au w k))"
    and first: "cmdb_grows (cw_db w) (cw_db (serve au w k))" by blast+
  from Cons.IH [OF ok] cmdb_evolution.evolves_trans [OF first] show ?case by simp
qed (simp add: cmdb_evolution.evolves_refl)

lemma empty_tables_ok: "tables_ok (cw_db empty_world)"
  by (simp add: tables_ok_def empty_world_def empty_cmdb_def facts_ok_def attested_def edges_ok_def identifiers_ok_def)

lemma served_ok: "tables_ok (cw_db (serve_all au ks))"
  unfolding serve_all_def using serve_run_sound [OF empty_tables_ok] by blast

lemma perform_links:
  assumes ok: "identifiers_ok db" and run: "perform now who rid r db = Inr (event, db')"
  shows "keeps_links db db'"
  using run
  by (cases r) (auto simp: andThen_eq_Inr intro: create_asset_links [OF ok] resolve_links update_asset_links [OF ok]
      retire_asset_links [OF ok] attach_identifier_links retire_identifier_links create_desired_links assert_fact_links
      fact_transition_links assert_relationship_links retire_edge_links)

lemma serve_links:
  assumes "cmdb_ok (cw_db w)"
  shows "cmdb_ok (cw_db (serve au w k))"
proof (cases rule: serve_cases [of au w k])
  case (served who r event db')
  from assms have "identifiers_ok (cw_db w)" by (simp add: cmdb_ok_def tables_ok_def)
  from perform_links [OF this served(2)] serve_sound [of w au k] assms served show ?thesis
    by (simp add: cmdb_ok_def keeps_links_def)
qed (use assms in simp)

lemma served_cmdb_ok: "cmdb_ok (cw_db (serve_all au ks))"
proof -
  have "cmdb_ok (cw_db w) \<Longrightarrow> cmdb_ok (cw_db (foldl (serve au) w ks))" for w
    by (induction ks arbitrary: w) (simp_all add: serve_links)
  moreover have "cmdb_ok (cw_db empty_world)"
    using empty_tables_ok
    by (simp add: cmdb_ok_def links_ok_def attestations_linked_def empty_world_def empty_cmdb_def)
  ultimately show ?thesis unfolding serve_all_def by blast
qed

text \<open>
  C20. Whatever is asked of it, by whomever, in any order: the tables satisfy every constraint their models
  declare over the columns, each key, check, foreign key, unique index and exclusion; so claims of a lineage
  never overlap, one claim at most holds the authority over a predicate, a unique identifier has one
  owner and no row refers to one that is missing.  Beyond the constraints every authority has its
  attestation, every claim the class of its source, and an edge the symmetry of its type.
\<close>

theorem served_cmdb_is_sound:
  "constraints_hold (cw_db (serve_all au ks)) \<and> cmdb_ok (cw_db (serve_all au ks))"
  using served_cmdb_ok cmdb_ok_constraints by blast

text \<open>
  C19. History is append-only: no later calls remove an asset, a claim, an edge or an attestation, nor
  change the value, the unit, the source or the start of a claim; a closed claim keeps every
  column.
\<close>

theorem history_is_append_only: "cmdb_grows (cw_db (serve_all au ks)) (cw_db (serve_all au (ks @ later)))"
  using serve_run_sound [OF served_ok [of au ks, unfolded serve_all_def]]
  by (simp add: serve_all_def)

text \<open>The call of a run that gave a fact the authority it holds, and who made it.\<close>

definition vouched_in :: "authenticator \<Rightarrow> call list \<Rightarrow> fact \<Rightarrow> bool" where
  "vouched_in au ks f \<longleftrightarrow> (\<exists>k \<in> set ks. \<exists>who. authenticate au (k_credentials k) = Inr who \<and>
     (if c_status f = VS_VERIFIED
      then (\<exists>reason. k_request k = VerifyFact (c_id f) reason) \<and> c_verified_by f = Some (p_subject who) \<and>
        has_any_role who [role_value APPROVER, role_value ADMIN]
      else f_kind f = DESIRED_STATE \<and> (\<exists>i p. k_request k = DeclareDesired i p) \<and>
        c_approved_by f = Some (p_subject who) \<and> has_any_role who [role_value OPERATOR, role_value ADMIN]))"

lemma vouches_in:
  assumes "admitted au k = Inr (who, r)" and "vouches r who f" and "k \<in> set ks"
  shows "vouched_in au ks f"
proof -
  note adm = admitted_role [OF assms(1)]
  have "if c_status f = VS_VERIFIED
      then (\<exists>reason. k_request k = VerifyFact (c_id f) reason) \<and> c_verified_by f = Some (p_subject who) \<and>
        has_any_role who [role_value APPROVER, role_value ADMIN]
      else f_kind f = DESIRED_STATE \<and> (\<exists>i p. k_request k = DeclareDesired i p) \<and>
        c_approved_by f = Some (p_subject who) \<and> has_any_role who [role_value OPERATOR, role_value ADMIN]"
    using adm(2,3) assms(2)
    by (cases "k_request k")
      (auto simp: vouches_def has_any_role_def has_role_def list_ex_iff OperatorPrincipal_def ApproverPrincipal_def
        split: if_splits)
  then show ?thesis unfolding vouched_in_def using adm(1) assms(3) by blast
qed

lemma vouched_standing:
  assumes "vouched_in au ks g" and id: "c_id g = c_id f" and "standing g = standing f" and "set ks \<subseteq> set ks'"
  shows "vouched_in au ks' f"
proof -
  from assms(3) have "c_status g = c_status f" "c_verified_by g = c_verified_by f"
    "c_approved_by g = c_approved_by f" "f_kind g = f_kind f"
    by (simp_all add: standing_def)
  from assms(1) [unfolded vouched_in_def this id] assms(4) show ?thesis
    unfolding vouched_in_def by blast
qed

text \<open>
  C9. Trust comes from people with the role for it.  A verified fact was verified in a call of a
  caller that holds the approver or the administrator role, an approved one was declared as
  a desired state by an operator or an administrator, and the fact names that caller.
\<close>

theorem authority_is_vouched_for:
  assumes "f \<in> set (fact_rows (cw_db (serve_all au ks)))" and "is_authoritative (c_status f)"
  shows "vouched_in au ks f"
  using assms
proof (induction ks arbitrary: f rule: rev_induct)
  case Nil
  then show ?case by (simp add: serve_all_def empty_world_def empty_cmdb_def)
next
  case (snoc k ks)
  let ?w = "serve_all au ks"
  have run: "serve_all au (ks @ [k]) = serve au ?w k" by (simp add: serve_all_def)
  show ?case
  proof (cases rule: serve_cases [of au ?w k])
    case (refused more)
    then have "f \<in> set (fact_rows (cw_db ?w))" using snoc.prems(1) by (simp add: run)
    from snoc.IH [OF this snoc.prems(2)] show ?thesis by (rule vouched_standing) auto
  next
    case (served who r event db')
    have "stands r who (cw_db ?w) db'"
      using perform_sound [OF served_ok served(2)] by (simp add: sound_step_def)
    moreover have "f \<in> set (fact_rows db')" using snoc.prems(1) by (simp add: run served(3))
    ultimately consider "vouches r who f"
      | g where "g \<in> set (fact_rows (cw_db ?w))" "c_id g = c_id f" "standing g = standing f"
      using snoc.prems(2) unfolding stands_def by blast
    then show ?thesis
    proof cases
      case 1
      then show ?thesis by (rule vouches_in [OF served(1)]) simp
    next
      case 2
      then have "is_authoritative (c_status g)" using snoc.prems(2) by (simp add: standing_def)
      from snoc.IH [OF 2(1) this] show ?thesis using 2(2,3) by (rule vouched_standing) auto
    qed
  qed
qed

text \<open>
  C10. No change without a record: if a call changes the tables, its caller was authenticated and
  holds a role that may write, and one audit event of success under its name was committed with
  the change.
\<close>

theorem every_change_is_audited:
  assumes "cw_db (serve au w k) \<noteq> cw_db w"
  shows "\<exists>who event. authenticate au (k_credentials k) = Inr who \<and>
    has_any_role who [role_value OPERATOR, role_value APPROVER, role_value ADMIN] \<and>
    cw_audit (serve au w k) = cw_audit w @ [event] \<and> ke_outcome event = AUDIT_SUCCESS \<and>
    ke_by event = to_audit_fields who"
proof (cases rule: serve_cases [of au w k])
  case (refused more)
  with assms show ?thesis by simp
next
  case (served who r event db')
  note adm = admitted_role [OF served(1)]
  have "has_any_role who [role_value OPERATOR, role_value APPROVER, role_value ADMIN]"
    using adm(3) by (cases "k_request k")
      (auto simp: has_any_role_def has_role_def list_ex_iff OperatorPrincipal_def ApproverPrincipal_def)
  moreover have "ke_outcome event = AUDIT_SUCCESS \<and> ke_by event = to_audit_fields who"
    using served(2) by (cases r) (auto simp: andThen_eq_Inr success_def)
  ultimately show ?thesis using adm(1) served(3) by auto
qed

text \<open>
  A fact refused because it carries a secret changes nothing, and the attempt is on record; the
  same secret in a desired state is refused without any record.
\<close>

theorem rejected_secret_is_recorded:
  assumes "admitted au k = Inr (who, AssertFact i p)" and "find_asset i (cw_db w) \<noteq> None"
    and "screen (fa_predicate p) (tv_text (fa_value p)) (tv_json (fa_value p)) = Inl SecretRejectedError"
  shows "serve au w k = w\<lparr>cw_audit := cw_audit w @ [denial ''cmdb.fact.secret_rejected'' ''cmdb.fact'' who]\<rparr>"
  using assms by (auto simp: serve_def commit_after_def assert_fact_def)

theorem secret_in_desired_state_is_unrecorded:
  assumes "admitted au k = Inr (who, DeclareDesired i p)" and "find_asset i (cw_db w) \<noteq> None"
    and "screen (dc_predicate p) (tv_text (dc_value p)) (tv_json (dc_value p)) = Inl SecretRejectedError"
  shows "serve au w k = w"
  using assms by (auto simp: serve_def commit_after_def create_desired_def)

end
