(* ===== verification/Cmdb_Scenario.thy ===== *)
theory Cmdb_Scenario
  imports Cmdb_Routes
begin

text \<open>
  One deployment with an operator and an approver, and a sequence of calls they make: two assets
  with serial numbers, an observed version that is verified and then superseded, a symmetric link
  asserted from both ends, a desired state, a retirement.
\<close>

definition alice :: api_key_config where
  "alice = \<lparr>ak_subject = ''alice'', ak_secret = ''key-a'', ak_display_name = ''Alice'',
     ak_roles = [''operator''], ak_principal_type = HUMAN\<rparr>"

definition bob :: api_key_config where
  "bob = \<lparr>ak_subject = ''bob'', ak_secret = ''key-b'', ak_display_name = [],
     ak_roles = [''approver''], ak_principal_type = HUMAN\<rparr>"

definition site :: authenticator where
  "site = build_authenticator True [alice, bob] ''X-ACOP-API-Key''"

definition by_key :: "string \<Rightarrow> int \<Rightarrow> cmdb_request \<Rightarrow> call" where
  "by_key secret t r = \<lparr>k_now = t, k_credentials = \<lparr>cr_headers = [(''x-acop-api-key'', secret)],
     cr_source_address = None, cr_user_agent = None\<rparr>, k_request_id = None, k_request = r\<rparr>"

definition serial :: "string \<Rightarrow> identifier_input" where
  "serial v = \<lparr>ii_namespace = ''serial'', ii_value = v, ii_source_type = SRC_MANUAL_ENTRY,
     ii_source_id = ''acop:api'', ii_confidence = 1000\<rparr>"

definition named :: "string \<Rightarrow> identifier_input" where
  "named v = (serial v)\<lparr>ii_namespace := ''hostname''\<rparr>"

definition text_value :: "string \<Rightarrow> typed_value" where
  "text_value s = \<lparr>tv_type = VT_TEXT, tv_text = Some s, tv_number = None, tv_bool = None,
     tv_timestamp = None, tv_json = None, tv_asset = None, tv_unit = None\<rparr>"

definition observed :: "string \<Rightarrow> string \<Rightarrow> fact_assert" where
  "observed predicate v = \<lparr>fa_value = text_value v, fa_predicate = predicate, fa_kind = OBSERVED_STATE,
     fa_source_type = SRC_MANUAL_ENTRY, fa_source_id = ''scan'', fa_confidence = 900\<rparr>"

definition cable :: "uuid \<Rightarrow> uuid \<Rightarrow> string option \<Rightarrow> relationship_assert" where
  "cable a b q = \<lparr>ra_type = CONNECTED_TO, ra_source = a, ra_target = b, ra_qualifier = q,
     ra_source_type = SRC_MANUAL_ENTRY, ra_source_id = ''scan'', ra_confidence = 1000\<rparr>"

definition new_asset_call :: "asset_kind \<Rightarrow> string \<Rightarrow> string \<Rightarrow> cmdb_request" where
  "new_asset_call k n v = CreateAsset \<lparr>ac_type = k, ac_display_name = n, ac_description = None,
     ac_lifecycle = LC_ACTIVE, ac_identifiers = [serial v]\<rparr>"


definition c_web :: call where "c_web = by_key ''key-a'' 10 (new_asset_call DEVICE ''web'' ''SN-1'')"
definition c_core :: call where "c_core = by_key ''key-a'' 20 (new_asset_call DEVICE ''core'' ''SN-2'')"
definition c_note :: call where "c_note = by_key ''key-a'' 30 (AssertFact 0 (observed ''note'' ''one''))"
definition c_verify :: call where "c_verify = by_key ''key-b'' 40 (VerifyFact 4 None)"
definition c_note2 :: call where "c_note2 = by_key ''key-a'' 50 (AssertFact 0 (observed ''note'' ''two''))"

definition asset_web :: asset_row where "asset_web = new_asset 10 DEVICE ''web'' 0"
definition asset_core :: asset_row where "asset_core = new_asset 20 DEVICE ''core'' 2"

definition serial_row :: "int \<Rightarrow> uuid \<Rightarrow> uuid \<Rightarrow> string \<Rightarrow> identifier_row" where
  "serial_row t a i v = \<lparr>ci_id = i, ci_asset = a, ci_namespace = ''serial'', ci_raw = v,
     ci_normalized = v, ci_unique = True, ci_source_type = SRC_MANUAL_ENTRY, ci_source_id = ''acop:api'',
     ci_confidence = 1000, ci_first_seen = t, ci_last_seen = t, ci_retired_at = None\<rparr>"

definition text_columns :: "string \<Rightarrow> value_columns" where
  "text_columns s = (no_columns VT_TEXT)\<lparr>v_text := Some s\<rparr>"

definition by_alice :: "string \<Rightarrow> string \<Rightarrow> uuid \<Rightarrow> cmdb_event" where
  "by_alice action kind i = success action AUDIT_INFO kind i (api_key_principal alice)"

definition two_assets :: cmdb where
  "two_assets = \<lparr>asset_rows = [asset_web, asset_core],
     identifier_rows = [serial_row 10 0 1 ''SN-1'', serial_row 20 2 3 ''SN-2''], fact_rows = [],
     attestation_rows = [], edge_rows = [], fresh_id = 4\<rparr>"

lemma served_two: "serve_all site [c_web, c_core] = \<lparr>cw_db = two_assets,
   cw_audit = [by_alice ''cmdb.asset.create'' ''cmdb.asset'' 0, by_alice ''cmdb.asset.create'' ''cmdb.asset'' 2]\<rparr>"
  by code_simp

lemma admitted_note: "admitted site c_note = Inr (api_key_principal alice, AssertFact 0 (observed ''note'' ''one''))"
  by code_simp

lemma screen_note: "screen ''note'' (Some s) None = Inr (None, [])" if "length s \<le> 64000"
proof -
  have "\<not> predicate_names_secret ''note''" by code_simp
  then show ?thesis using that by (simp add: screen_def MAX_TEXT_VALUE_LENGTH_def)
qed

definition noted :: "int \<Rightarrow> string \<Rightarrow> uuid option \<Rightarrow> uuid \<Rightarrow> fact" where
  "noted t v prior i = asserted_fact t 0 (observed ''note'' v) (text_columns v) prior i"

lemma observed_simps [simp]:
  "fa_predicate (observed p v) = p" "fa_kind (observed p v) = OBSERVED_STATE" "fa_source_id (observed p v) = ''scan''"
  "fa_confidence (observed p v) = 900" "fa_value (observed p v) = text_value v" "tv_text (text_value v) = Some v"
  "tv_json (text_value v) = None" "value_columns_of (text_value v) None = Inr (text_columns v)"
  by (simp_all add: observed_def text_value_def value_columns_of_def text_columns_def)

definition with_note :: cmdb where
  "with_note = seen_now 0 30 (two_assets\<lparr>fact_rows := [noted 30 ''one'' None 4], fresh_id := 5\<rparr>)"

lemma asserted_note:
  "assert_fact 30 0 (observed ''note'' ''one'') two_assets = Inr ((CREATED, noted 30 ''one'' None 4, None, []), with_note)"
proof -
  have "find_asset 0 two_assets = Some asset_web" "live_claim 0 ''note'' OBSERVED_STATE ''scan'' two_assets = None"
    "insert_fact (asserted_fact 30 0 (observed ''note'' ''one'') (text_columns ''one'') None) two_assets =
      Inr (noted 30 ''one'' None 4, two_assets\<lparr>fact_rows := [noted 30 ''one'' None 4], fresh_id := 5\<rparr>)"
    by code_simp+
  then show ?thesis by (simp add: assert_fact_def screen_note with_note_def)
qed

definition verified_note :: fact where
  "verified_note = (noted 30 ''one'' None 4)\<lparr>c_status := VS_VERIFIED, c_verified_by := Some ''bob'', c_verified_at := Some 40\<rparr>"

definition with_verified :: cmdb where
  "with_verified = record_attestation 40 verified_note VERIFY VS_UNVERIFIED VS_VERIFIED (api_key_principal bob) None None
     (with_note\<lparr>fact_rows := [verified_note]\<rparr>)"

lemma admitted_verify: "admitted site c_verify = Inr (api_key_principal bob, VerifyFact 4 None)"
  by code_simp

lemma verified_in: "fact_transition 40 4 VERIFY (api_key_principal bob) None None with_note = Inr (verified_note, with_verified)"
  by code_simp

lemma served_note: "cw_db (serve_all site [c_web, c_core, c_note, c_verify]) = with_verified"
proof -
  have "serve_all site [c_web, c_core, c_note, c_verify] = serve site (serve site (serve_all site [c_web, c_core]) c_note) c_verify"
    by (simp add: serve_all_def)
  moreover have "cw_db (serve site (serve_all site [c_web, c_core]) c_note) = with_note"
    using asserted_note admitted_note
    by (simp add: serve_def served_two commit_after_def) (simp add: c_note_def by_key_def)
  ultimately show ?thesis
    using verified_in admitted_verify
    by (simp add: serve_def commit_after_def) (simp add: c_verify_def by_key_def)
qed

end
