(* ===== verification/Cmdb_Witnesses.thy ===== *)
theory Cmdb_Witnesses
  imports Cmdb_Scenario
begin

text \<open>The properties of the CMDB applied to the states of theory \<open>Cmdb_Scenario\<close>.\<close>

lemma two_ok: "tables_ok two_assets"
  using served_ok [of site "[c_web, c_core]"] by (simp add: served_two)

lemma verified_ok: "tables_ok with_verified"
  using served_ok [of site "[c_web, c_core, c_note, c_verify]"] by (simp add: served_note)

lemmas ok_parts = two_ok [unfolded tables_ok_def] verified_ok [unfolded tables_ok_def]

lemma verified_row: "verified_note \<in> set (fact_rows with_verified)" "live verified_note"
  "c_status verified_note = VS_VERIFIED" "c_id verified_note = 4"
  by (simp_all add: with_verified_def verified_note_def noted_def asserted_fact_def live_def)

theorem authority_is_vouched_for_witness:
  "vouched_in site [c_web, c_core, c_note, c_verify] verified_note"
  by (rule authority_is_vouched_for) (simp_all add: served_note verified_row is_authoritative_iff)

theorem every_change_is_audited_witness:
  "\<exists>who event. authenticate site (k_credentials c_web) = Inr who \<and>
    has_any_role who [role_value OPERATOR, role_value APPROVER, role_value ADMIN] \<and>
    cw_audit (serve site empty_world c_web) = cw_audit empty_world @ [event] \<and>
    ke_outcome event = AUDIT_SUCCESS \<and> ke_by event = to_audit_fields who"
proof -
  have "asset_rows (cw_db (serve site empty_world c_web)) \<noteq> asset_rows (cw_db empty_world)" by code_simp
  then have "cw_db (serve site empty_world c_web) \<noteq> cw_db empty_world" by metis
  then show ?thesis by (rule every_change_is_audited)
qed

theorem assert_refines_assignment_witness:
  "fact_timeline with_note = assign_from (fact_timeline two_assets) (0, ''note'', OBSERVED_STATE, ''scan'') 30
     (f_value (noted 30 ''one'' None 4))"
  using assert_refines_assignment [OF _ asserted_note] ok_parts by (auto split: if_splits)

theorem resolve_refines_identity_witness:
  "\<exists>on db'. resolve 50 HOST ''x'' [serial ''SN-1'', serial ''SN-9''] True two_assets = Inr (MATCHED 0 on, db') \<and>
     carries db' = carries two_assets \<union> {0} \<times> {(''serial'', ''SN-1''), (''serial'', ''SN-9'')} \<and>
     map ca_id (asset_rows db') = [0, 2]"
proof -
  have "case resolve 50 HOST ''x'' [serial ''SN-1'', serial ''SN-9''] True two_assets of
      Inr (MATCHED a on, db') \<Rightarrow> a = 0 | _ \<Rightarrow> False" by code_simp
  then obtain on db' where run: "resolve 50 HOST ''x'' [serial ''SN-1'', serial ''SN-9''] True two_assets = Inr (MATCHED 0 on, db')"
    by (auto split: sum.splits prod.splits resolution.splits)
  moreover have "map_sum id (map nkey) (normalise_all [serial ''SN-1'', serial ''SN-9'']) =
      Inr [(''serial'', ''SN-1''), (''serial'', ''SN-9'')]" by code_simp
  then obtain ns where "normalise_all [serial ''SN-1'', serial ''SN-9''] = Inr ns"
    "map nkey ns = [(''serial'', ''SN-1''), (''serial'', ''SN-9'')]"
    by (cases "normalise_all [serial ''SN-1'', serial ''SN-9'']") auto
  moreover have "map ca_id (asset_rows two_assets) = [0, 2]" by code_simp
  ultimately show ?thesis
    using resolve_refines_identity [OF _ run] ok_parts by (auto simp: resolved_def)
qed

theorem ambiguous_identity_is_refused_witness:
  "resolve 50 HOST ''x'' [serial ''SN-1'', named ''n'', serial ''SN-2''] True two_assets = Inl IdentityConflictError"
proof -
  have "case normalise_all [serial ''SN-1'', named ''n'', serial ''SN-2''] of Inl e \<Rightarrow> False
    | Inr ns \<Rightarrow> (''serial'', ''SN-1'') \<in> unique_keys ns \<and> (''serial'', ''SN-2'') \<in> unique_keys ns" by code_simp
  then obtain ns where "normalise_all [serial ''SN-1'', named ''n'', serial ''SN-2''] = Inr ns"
    "(''serial'', ''SN-1'') \<in> unique_keys ns" "(''serial'', ''SN-2'') \<in> unique_keys ns"
    by (auto split: sum.splits)
  moreover have "(0, ''serial'', ''SN-1'') \<in> carries two_assets" "(2, ''serial'', ''SN-2'') \<in> carries two_assets"
    by code_simp+
  ultimately show ?thesis by (rule ambiguous_identity_is_refused) simp
qed

theorem resolve_again_matches_witness:
  "\<exists>db' on db''. resolve 50 HOST ''x'' [serial ''SN-9'', named ''n''] True two_assets = Inr (RESOLVED_NEW 4, db') \<and>
     resolve 60 HOST ''x'' [serial ''SN-9'', named ''n''] True db' = Inr (MATCHED 4 on, db'') \<and>
     length (asset_rows db'') = length (asset_rows db')"
proof -
  have "case resolve 50 HOST ''x'' [serial ''SN-9'', named ''n''] True two_assets of
      Inr (RESOLVED_NEW a, db') \<Rightarrow> a = 4 | _ \<Rightarrow> False" by code_simp
  then obtain db' where run: "resolve 50 HOST ''x'' [serial ''SN-9'', named ''n''] True two_assets = Inr (RESOLVED_NEW 4, db')"
    by (auto split: sum.splits prod.splits resolution.splits)
  have "case normalise_all [serial ''SN-9'', named ''n''] of Inl e \<Rightarrow> False
    | Inr ns \<Rightarrow> (''serial'', ''SN-9'') \<in> unique_keys ns" by code_simp
  then obtain ns where "normalise_all [serial ''SN-9'', named ''n''] = Inr ns" "unique_keys ns \<noteq> {}"
    by (auto split: sum.splits)
  with resolve_again_matches [OF _ run this, of 60 HOST "''x''" True] ok_parts run show ?thesis
    by (auto simp: resolved_def)
qed

theorem attach_identifier_decides_witness:
  "attach_identifier 60 2 (serial ''SN-1'') two_assets = Inl ConflictError"
proof -
  have "case normalise_identifier (serial ''SN-1'') of Inl e \<Rightarrow> False
    | Inr n \<Rightarrow> nkey n = (''serial'', ''SN-1'')" by code_simp
  then obtain n where n: "normalise_identifier (serial ''SN-1'') = Inr n" "nkey n = (''serial'', ''SN-1'')"
    by (auto split: sum.splits)
  have "(0, ''serial'', ''SN-1'') \<in> carries two_assets" "namespace_unique ''serial''"
    "find_asset 2 two_assets = Some asset_core" "matches_namespace (ii_namespace (serial ''SN-1''))"
    "0 \<le> ii_confidence (serial ''SN-1'')" "ii_confidence (serial ''SN-1'') \<le> 1000"
    by code_simp+
  note facts = this
  have "\<exists>b. b \<noteq> 2 \<and> (b, nkey n) \<in> carries two_assets" using facts(1) n(2) by (intro exI [of _ 0]) simp
  then show ?thesis
    using attach_identifier_decides [OF _ _ n(1) facts(4-6), of two_assets 2 60] ok_parts facts(2,3) n(2) by simp
qed

theorem retirement_keeps_history_witness:
  "\<exists>a m n db'. retire_asset 60 0 with_verified = Inr ((a, m, n), db') \<and> ca_lifecycle a = LC_RETIRED \<and>
     facts_to_close 0 db' = [] \<and>
     fact_timeline db' (0, ''note'', OBSERVED_STATE, ''scan'') 59 =
       fact_timeline with_verified (0, ''note'', OBSERVED_STATE, ''scan'') 59 \<and>
     fact_timeline db' (0, ''note'', OBSERVED_STATE, ''scan'') 60 = None"
proof -
  have "case retire_asset 60 0 with_verified of Inr ((a, m, n), db') \<Rightarrow> m = 1 | _ \<Rightarrow> False" by code_simp
  then obtain a m n db' where run: "retire_asset 60 0 with_verified = Inr ((a, m, n), db')"
    by (auto split: sum.splits prod.splits)
  have "fact_key verified_note = (0, ''note'', OBSERVED_STATE, ''scan'')" by code_simp
  then have "\<exists>f \<in> set (fact_rows with_verified). live f \<and> fact_key f = (0, ''note'', OBSERVED_STATE, ''scan'')"
    using verified_row by blast
  then show ?thesis using retirement_keeps_history [OF _ _ run] ok_parts run by auto
qed

definition everything :: asset_filter where
  "everything = \<lparr>fl_kind = None, fl_lifecycle = None, fl_query = None, fl_identifier = None\<rparr>"

theorem paging_meets_each_asset_once_witness:
  "\<exists>rows. crawl everything 1 None [two_assets, with_verified] = Some rows \<and>
     length (filter (\<lambda>a. ca_id a = 2) rows) = 1"
proof -
  have two: "\<forall>db \<in> set [two_assets, with_verified]. distinct (map ca_id (asset_rows db))"
    "\<forall>db \<in> set [two_assets, with_verified]. \<exists>a \<in> set (asset_rows db).
       ca_id a = 2 \<and> ca_created a = 20 \<and> selected everything db a"
    by code_simp+
  have "crawl everything 1 None [two_assets, with_verified] \<noteq> None" by code_simp
  then obtain rows where "crawl everything 1 None [two_assets, with_verified] = Some rows" by blast
  with paging_meets_each_asset_once [OF two this] show ?thesis by blast
qed

theorem paging_lists_everything_witness:
  "crawl everything 1 None (replicate 3 two_assets) = Some (view everything None two_assets)"
proof -
  have "distinct (map ca_id (asset_rows two_assets))" "length (view everything None two_assets) \<le> 2"
    by code_simp+
  from paging_lists_everything [OF this, of 1] show ?thesis by (simp add: numeral_3_eq_3)
qed

theorem symmetric_link_is_one_row_witness:
  "\<exists>e db' e' db''. assert_relationship 70 (cable 2 0 None) two_assets = Inr ((EDGE_CREATED, e, True), db') \<and>
     assert_relationship 80 (reversed (cable 2 0 None)) db' = Inr ((EDGE_TOUCHED, e', False), db'') \<and>
     c_id e' = c_id e \<and> length (edge_rows db'') = length (edge_rows db')"
proof -
  have "case assert_relationship 70 (cable 2 0 None) two_assets of Inl x \<Rightarrow> False
    | Inr ((oc, e, sw), db') \<Rightarrow> oc = EDGE_CREATED \<and> sw" by code_simp
  then obtain e db' where run: "assert_relationship 70 (cable 2 0 None) two_assets = Inr ((EDGE_CREATED, e, True), db')"
    by (auto split: sum.splits prod.splits)
  have "case assert_relationship 70 (cable 2 0 None) two_assets of Inl x \<Rightarrow> False
    | Inr (out, db') \<Rightarrow> (case assert_relationship 80 (reversed (cable 2 0 None)) db' of Inl x \<Rightarrow> False | Inr out \<Rightarrow> True)"
    by code_simp
  then have "case assert_relationship 80 (reversed (cable 2 0 None)) db' of Inl x \<Rightarrow> False | Inr out \<Rightarrow> True"
    by (simp add: run)
  then obtain out where "assert_relationship 80 (reversed (cable 2 0 None)) db' = Inr out" by (auto split: sum.splits)
  then obtain oc' e' sw' db'' where
    "assert_relationship 80 (reversed (cable 2 0 None)) db' = Inr ((oc', e', sw'), db'')"
    by (metis prod.exhaust_sel)
  note run = run this
  have "es_symmetric (RELATIONSHIP_SPECS (ra_type (cable 2 0 None)))" by (simp add: cable_def)
  from symmetric_link_is_one_row [OF _ this run] ok_parts run show ?thesis by auto
qed

theorem effective_value_is_earned_witness:
  "\<exists>ev. effective (\<lambda>v. ''x'') 0 ''note'' OBSERVED_STATE with_verified = Inr ev \<and> ev_basis ev = AUTHORITATIVE_SINGLE \<and>
     (\<exists>f. ev_fact ev = Some f \<and> is_authoritative (c_status f))"
proof -
  have "case effective (\<lambda>v. ''x'') 0 ''note'' OBSERVED_STATE with_verified of Inl x \<Rightarrow> False
    | Inr ev \<Rightarrow> ev_basis ev = AUTHORITATIVE_SINGLE" by code_simp
  then obtain ev where run: "effective (\<lambda>v. ''x'') 0 ''note'' OBSERVED_STATE with_verified = Inr ev"
    and basis: "ev_basis ev = AUTHORITATIVE_SINGLE" by (auto split: sum.splits)
  from effective_value_is_earned [OF _ _ run] ok_parts basis have "\<exists>f. ev_fact ev = Some f \<and> is_authoritative (c_status f)"
    by auto
  with run basis show ?thesis by blast
qed

theorem admitted_with_a_configured_key_witness:
  "authenticate (build_authenticator True [alice, bob] ''X-ACOP-API-Key'') (k_credentials c_verify) =
     Inr (api_key_principal bob)"
proof -
  have key: "presented_key ''X-ACOP-API-Key'' (k_credentials c_verify) = Some ''key-b''" by code_simp
  have "\<forall>k \<in> set [alice, bob]. is_ascii (ak_secret k)" "is_ascii ''key-b''"
    "find (\<lambda>k. ak_secret k = ''key-b'') (rev [alice, bob]) = Some bob" by code_simp+
  with admitted_with_a_configured_key [of "[alice, bob]" "''X-ACOP-API-Key''" "k_credentials c_verify"] key
  show ?thesis by auto
qed

definition live_site :: deployment where
  "live_site = \<lparr>dp_environment = PRODUCTION, dp_debug = False, dp_auth_enabled = True,
     dp_api_keys = [alice, bob], dp_fingerprint_salt = ''salt'', dp_allow_self_approval = False,
     dp_proxmox_enabled = True, dp_instance_id = ''homelab'', dp_base_url = ''https://pve:8006/'', dp_token_id = ''t'',
     dp_token_secret = ''s'', dp_verify_tls = True, dp_timeout_ms = 15000\<rparr>"

theorem deployed_settings_are_safe_witness:
  "\<not> dp_allow_self_approval live_site \<and> dp_verify_tls live_site \<and> dp_fingerprint_salt live_site \<noteq> [] \<and>
     dp_api_keys live_site \<noteq> [] \<and> dp_token_secret live_site \<noteq> []"
proof -
  have "settings_accepted live_site" "deployed (dp_environment live_site)" by code_simp+
  from deployed_settings_are_safe [OF this] show ?thesis by (simp add: live_site_def)
qed

definition c_secret :: call where
  "c_secret = by_key ''key-a'' 90 (AssertFact 0 (observed ''a.password'' ''x''))"

theorem rejected_secret_is_recorded_witness:
  "serve site \<lparr>cw_db = two_assets, cw_audit = []\<rparr> c_secret =
     \<lparr>cw_db = two_assets, cw_audit = [denial ''cmdb.fact.secret_rejected'' ''cmdb.fact'' (api_key_principal alice)]\<rparr>"
proof -
  have "admitted site c_secret = Inr (api_key_principal alice, AssertFact 0 (observed ''a.password'' ''x''))"
    "find_asset 0 two_assets = Some asset_web" "predicate_names_secret ''a.password''" by code_simp+
  with rejected_secret_is_recorded [of site c_secret "api_key_principal alice" 0 "observed ''a.password'' ''x''"
      "\<lparr>cw_db = two_assets, cw_audit = []\<rparr>"]
  show ?thesis by (simp add: screen_def)
qed

text \<open>A desired state that alice declared.\<close>

definition wish :: desired_create where
  "wish = \<lparr>dc_value = text_value ''on'', dc_predicate = ''note'', dc_reason = None\<rparr>"

definition wished :: fact where
  "wished = desired_fact 50 0 wish ''alice'' (text_columns ''on'') None None 4"

definition with_wish :: cmdb where
  "with_wish = record_attestation 50 wished APPROVE VS_UNVERIFIED VS_APPROVED (api_key_principal alice) None None
     (two_assets\<lparr>fact_rows := [wished], fresh_id := 5\<rparr>)"

lemma wish_declared: "create_desired 50 0 wish (api_key_principal alice) None None two_assets = Inr (wished, with_wish)"
proof -
  have "find_asset 0 two_assets = Some asset_web" "live_claim 0 ''note'' DESIRED_STATE ''alice'' two_assets = None"
    "insert_fact (desired_fact 50 0 wish ''alice'' (text_columns ''on'') None None) two_assets =
      Inr (wished, two_assets\<lparr>fact_rows := [wished], fresh_id := 5\<rparr>)"
    "p_subject (api_key_principal alice) = ''alice''"
    by code_simp+
  then show ?thesis
    by (simp add: create_desired_def wish_def screen_note close_if_live_def with_wish_def text_value_def
        value_columns_of_def text_columns_def)
qed

lemma wish_ok: "facts_ok with_wish"
  using create_desired_replaces [OF _ wish_declared] ok_parts by blast

theorem desired_cannot_be_revoked_witness:
  "fact_transition 60 4 REVOKE (api_key_principal bob) None None with_wish = Inl (IntegrityError ''desired_is_approved'')"
proof -
  have "wished \<in> set (fact_rows with_wish)" "f_kind wished = DESIRED_STATE" "live wished" "c_id wished = 4"
    by (simp_all add: with_wish_def wished_def)
  then show ?thesis using desired_cannot_be_revoked [OF wish_ok, of wished 60 "api_key_principal bob" None None] by simp
qed

theorem second_desired_state_fails_witness:
  "\<exists>e. create_desired 60 0 wish (api_key_principal bob) None None with_wish = Inl e"
proof (rule second_desired_state_fails [OF wish_ok, of wished])
  show "wished \<in> set (fact_rows with_wish)" "live wished" "f_kind wished = DESIRED_STATE"
    by (simp_all add: with_wish_def wished_def)
  show "f_asset wished = 0" "f_predicate wished = dc_predicate wish" "c_source_id wished \<noteq> p_subject (api_key_principal bob)"
    by (simp_all add: wished_def desired_fact_def api_key_principal_def bob_def)
qed

end
