(* ===== verification/Regex.thy ===== *)
theory Regex
  imports Py_Strings
begin

text \<open>
  The part of Python's \<open>re\<close> the document screen uses, with its backtracking order: a pattern
  gives, for a text and a position, the positions where a match may end, the preferred
  one first.  Classes are predicates on characters; repetition is greedy and over one class, which is all
  the patterns need.
\<close>

section \<open>Patterns\<close>

datatype regex =
  Chars "char \<Rightarrow> bool"
| Many "char \<Rightarrow> bool" nat "nat option"
| Seq regex regex
| Alt regex regex
| Opt regex
| NotAhead regex
| WordBoundary
| LineStart
| Eps

text \<open>\<open>\w\<close> on code points below 256: the underscore and what \<open>str.isalnum\<close> accepts.\<close>

definition is_word :: "char \<Rightarrow> bool" where
  "is_word c = (let n = of_char c :: nat in
     48 \<le> n \<and> n \<le> 57 \<or> 65 \<le> n \<and> n \<le> 90 \<or> n = 95 \<or> 97 \<le> n \<and> n \<le> 122 \<or>
     n \<in> {170, 178, 179, 181, 185, 186, 188, 189, 190} \<or> 192 \<le> n \<and> n \<noteq> 215 \<and> n \<noteq> 247)"

definition word_at :: "string \<Rightarrow> nat \<Rightarrow> bool" where
  "word_at s i = (i < length s \<and> is_word (s ! i))"

fun ends :: "regex \<Rightarrow> string \<Rightarrow> nat \<Rightarrow> nat list" where
  "ends (Chars P) s i = (if i < length s \<and> P (s ! i) then [Suc i] else [])"
| "ends (Many P least most) s i =
     (let run = length (takeWhile P (drop i s)); k = (case most of None \<Rightarrow> run | Some m \<Rightarrow> min m run) in
      rev [i + least..<Suc (i + k)])"
| "ends (Seq a b) s i = concat (map (ends b s) (ends a s i))"
| "ends (Alt a b) s i = ends a s i @ ends b s i"
| "ends (Opt a) s i = ends a s i @ [i]"
| "ends (NotAhead a) s i = (if ends a s i = [] then [i] else [])"
| "ends WordBoundary s i = (if (0 < i \<and> word_at s (i - 1)) \<noteq> word_at s i then [i] else [])"
| "ends LineStart s i = (if i = 0 \<or> i \<le> length s \<and> s ! (i - 1) = CHR 0x0A then [i] else [])"
| "ends Eps s i = [i]"

definition match_at :: "regex \<Rightarrow> string \<Rightarrow> nat \<Rightarrow> nat option" where
  "match_at r s i = (case ends r s i of [] \<Rightarrow> None | j # js \<Rightarrow> Some j)"

text \<open>
  \<open>finditer\<close>: the leftmost matches that do not overlap.  Only matches that consume something are
  listed; no pattern of the program matches the empty text.
\<close>

function find_all :: "regex \<Rightarrow> string \<Rightarrow> nat \<Rightarrow> (nat \<times> nat) list" where
  "find_all r s i =
     (if length s \<le> i then []
      else (case match_at r s i of
          None \<Rightarrow> find_all r s (Suc i)
        | Some j \<Rightarrow> if i < j then (i, j) # find_all r s j else find_all r s (Suc i)))"
  by pat_completeness auto
termination by (relation "measure (\<lambda>(r, s, i). length s - i)") auto

declare find_all.simps [simp del]

definition finditer :: "regex \<Rightarrow> string \<Rightarrow> (nat \<times> nat) list" where
  "finditer r s = find_all r s 0"

section \<open>Notation of patterns\<close>

fun lit :: "string \<Rightarrow> regex" where
  "lit [] = Eps"
| "lit [c] = Chars (\<lambda>d. d = c)"
| "lit (c # cs) = Seq (Chars (\<lambda>d. d = c)) (lit cs)"

text \<open>A literal under \<open>re.IGNORECASE\<close>.\<close>

fun lit_ci :: "string \<Rightarrow> regex" where
  "lit_ci [] = Eps"
| "lit_ci [c] = Chars (\<lambda>d. lower_char d = lower_char c)"
| "lit_ci (c # cs) = Seq (Chars (\<lambda>d. lower_char d = lower_char c)) (lit_ci cs)"

fun in_order :: "regex list \<Rightarrow> regex" where
  "in_order [] = Eps"
| "in_order [r] = r"
| "in_order (r # rs) = Seq r (in_order rs)"

fun any_of :: "regex list \<Rightarrow> regex" where
  "any_of [] = NotAhead Eps"
| "any_of [r] = r"
| "any_of (r # rs) = Alt r (any_of rs)"

definition spaces :: regex where
  "spaces = Many is_space 0 None"

definition spaces1 :: regex where
  "spaces1 = Many is_space 1 None"

definition is_upper_letter :: "char \<Rightarrow> bool" where
  "is_upper_letter c = (let n = of_char c :: nat in 65 \<le> n \<and> n \<le> 90)"

definition is_alnum :: "char \<Rightarrow> bool" where
  "is_alnum c = (is_digit c \<or> is_upper_letter c \<or> is_lower_letter c)"

section \<open>Searching is complete\<close>

lemma run_bound: "i \<le> length s \<Longrightarrow> i + length (takeWhile P (drop i s)) \<le> length s"
  using length_takeWhile_le [of P "drop i s"] by simp

lemma in_guarded: "j \<in> set (if b then [i] else []) \<longleftrightarrow> b \<and> j = i"
  by auto

lemma ends_bounds: "i \<le> length s \<Longrightarrow> j \<in> set (ends r s i) \<Longrightarrow> i \<le> j \<and> j \<le> length s"
proof (induction r arbitrary: i j)
  case (Many P least most)
  from Many.prems(2) have "i \<le> j" "j \<le> i + length (takeWhile P (drop i s))"
    by (auto simp: Let_def split: option.splits)
  with run_bound [OF Many.prems(1), of P] show ?case by linarith
next
  case (Seq a b)
  from Seq.prems(2) obtain k where k: "k \<in> set (ends a s i)" "j \<in> set (ends b s k)" by auto
  from Seq.IH(1) [OF Seq.prems(1) k(1)] Seq.IH(2) [OF _ k(2)] show ?case by simp
next
  case (Alt a b)
  from Alt.prems(2) consider "j \<in> set (ends a s i)" | "j \<in> set (ends b s i)" by auto
  then show ?case by cases (fact Alt.IH(1) [OF Alt.prems(1)], fact Alt.IH(2) [OF Alt.prems(1)])
next
  case (Opt a)
  from Opt.prems(2) consider "j \<in> set (ends a s i)" | "j = i" by auto
  then show ?case
  proof cases
    case 1
    then show ?thesis by (rule Opt.IH [OF Opt.prems(1)])
  next
    case 2
    with Opt.prems(1) show ?thesis by simp
  qed
next
  case WordBoundary
  from this(2) have "j = i" unfolding ends.simps in_guarded by (rule conjunct2)
  with WordBoundary.prems(1) show ?case by (simp only: order_refl simp_thms)
next
  case LineStart
  from this(2) have "j = i" unfolding ends.simps in_guarded by (rule conjunct2)
  with LineStart.prems(1) show ?case by (simp only: order_refl simp_thms)
next
  case (NotAhead a)
  from NotAhead.prems(2) have "j = i" unfolding ends.simps in_guarded by (rule conjunct2)
  with NotAhead.prems(1) show ?case by (simp only: order_refl simp_thms)
next
  case (Chars P)
  then show ?case by (cases "i < length s \<and> P (s ! i)") simp_all
next
  case Eps
  then show ?case by simp
qed

lemma match_at_bounds: "i \<le> length s \<Longrightarrow> match_at r s i = Some j \<Longrightarrow> i \<le> j \<and> j \<le> length s"
  using ends_bounds [of i s j r] by (auto simp: match_at_def split: list.splits)

lemma find_all_sound:
  "(a, b) \<in> set (find_all r s i) \<Longrightarrow> i \<le> a \<and> a < b \<and> b \<le> length s \<and> match_at r s a = Some b"
proof (induction r s i rule: find_all.induct)
  case (1 r s i)
  then have less: "i < length s" by (auto simp: find_all.simps [of r s i] split: if_splits)
  show ?case
  proof (cases "match_at r s i")
    case None
    with 1 less show ?thesis by (fastforce simp: find_all.simps [of r s i])
  next
    case (Some j)
    with match_at_bounds [of i s r j] less have "i \<le> j" "j \<le> length s" by auto
    with 1 less Some show ?thesis
      by (fastforce simp: find_all.simps [of r s i] split: if_splits)
  qed
qed

text \<open>A position where the pattern matches is the start of a listed match or lies in one.\<close>

lemma find_all_complete:
  "match_at r s k = Some m \<Longrightarrow> k < m \<Longrightarrow> i \<le> k \<Longrightarrow> k < length s \<Longrightarrow> \<exists>(a, b) \<in> set (find_all r s i). a \<le> k \<and> k < b"
proof (induction r s i rule: find_all.induct)
  case (1 r s i)
  then have less: "i < length s" by simp
  show ?case
  proof (cases "match_at r s i")
    case None
    with 1(4,6) have "Suc i \<le> k" by (cases "i = k") auto
    with 1 less None show ?thesis by (simp add: find_all.simps [of r s i])
  next
    case (Some j)
    show ?thesis
    proof (cases "i < j \<and> k < j")
      case True
      with Some less "1.prems" show ?thesis by (auto simp: find_all.simps [of r s i])
    next
      case False
      show ?thesis
      proof (cases "i < j")
        case True
        with False 1(2) [OF _ Some True] less "1.prems" Some show ?thesis
          by (auto simp: find_all.simps [of r s i])
      next
        case not_less: False
        with Some "1.prems" have "i \<noteq> k" by auto
        with "1.prems" have "Suc i \<le> k" by simp
        with 1(3) [OF _ Some not_less] less "1.prems" Some not_less show ?thesis
          by (simp add: find_all.simps [of r s i])
      qed
    qed
  qed
qed

end
