(* ===== verification/Text_Spans.thy ===== *)
theory Text_Spans
  imports Py_Strings
begin

text \<open>
  Pieces of a text: Python slices, lines with their offsets, and what it means that a list of
  spans covers a stretch of a text up to white space.  The chunker of the knowledge service is
  a chain of stages over such lists; the locale \<open>covering_stage\<close> is what each stage promises.
\<close>

section \<open>Slices\<close>

text \<open>\<open>text[a:b]\<close> for indices that are not negative.\<close>

definition slice :: "string \<Rightarrow> nat \<Rightarrow> nat \<Rightarrow> string" where
  "slice text a b = take (b - a) (drop a text)"

lemma length_slice [simp]: "length (slice text a b) = min b (length text) - a"
  by (simp add: slice_def)

lemma nth_slice [simp]: "i < min b (length text) - a \<Longrightarrow> slice text a b ! i = text ! (a + i)"
  by (simp add: slice_def)

lemma slice_slice: "a + j \<le> b \<Longrightarrow> slice (slice text a b) i j = slice text (a + i) (a + j)"
  by (cases "i \<le> j") (simp_all add: slice_def take_drop add.commute min_def)

lemma slice_append: "a \<le> b \<Longrightarrow> b \<le> c \<Longrightarrow> slice text a b @ slice text b c = slice text a c"
proof -
  assume le: "a \<le> b" "b \<le> c"
  then have "slice text a c = take ((b - a) + (c - b)) (drop a text)" by (simp add: slice_def)
  also have "\<dots> = slice text a b @ slice text b c"
    using le by (simp only: take_add) (simp add: slice_def)
  finally show ?thesis by simp
qed

definition newline :: char where
  "newline = CHR 0x0A"

lemma newline_is_space [simp]: "is_space newline"
  by (simp add: newline_def is_space_def)

section \<open>White space\<close>

text \<open>\<open>blank s\<close> is Python's \<open>not s.strip()\<close>.\<close>

definition blank :: "string \<Rightarrow> bool" where
  "blank s = (strip s = [])"

lemma blank_iff: "blank s \<longleftrightarrow> list_all is_space s"
proof -
  have "dropWhile is_space (rev (dropWhile is_space s)) = [] \<longleftrightarrow> dropWhile is_space s = []"
    by (metis dropWhile_eq_Nil_conv empty_iff empty_set list.set_sel(1) rev.simps(1) set_rev
        dropWhile_eq_self_iff hd_dropWhile)
  then show ?thesis by (simp add: blank_def strip_def list_all_iff)
qed

lemma blank_nth: "blank s \<longleftrightarrow> (\<forall>i < length s. is_space (s ! i))"
  by (simp add: blank_iff list_all_length)

lemma blank_append [simp]: "blank (s @ t) \<longleftrightarrow> blank s \<and> blank t"
  by (simp add: blank_iff)

lemma blank_Nil [simp]: "blank []"
  by (simp add: blank_iff)

text \<open>The text between two positions holds nothing but white space.\<close>

definition gap :: "string \<Rightarrow> nat \<Rightarrow> nat \<Rightarrow> bool" where
  "gap text a b \<longleftrightarrow> (\<forall>i. a \<le> i \<longrightarrow> i < b \<longrightarrow> i < length text \<longrightarrow> is_space (text ! i))"

lemma gap_refl [simp]: "b \<le> a \<Longrightarrow> gap text a b"
  by (simp add: gap_def)

lemma gap_trans: "gap text a b \<Longrightarrow> gap text b c \<Longrightarrow> gap text a c"
  by (meson gap_def linorder_not_less)

lemma gap_mono: "gap text a b \<Longrightarrow> a \<le> c \<Longrightarrow> d \<le> b \<Longrightarrow> gap text c d"
  by (simp add: gap_def)

lemma gap_slice: "blank (slice text a b) \<longleftrightarrow> gap text a b"
proof
  assume all: "blank (slice text a b)"
  show "gap text a b"
    unfolding gap_def
  proof (intro allI impI)
    fix i assume "a \<le> i" "i < b" "i < length text"
    then have "slice text a b ! (i - a) = text ! i" "i - a < length (slice text a b)" by auto
    with all show "is_space (text ! i)" by (metis blank_nth)
  qed
qed (auto simp: blank_nth gap_def)

section \<open>Lines\<close>

text \<open>The lines of \<open>text[k:b]\<close>, the first of which starts at \<open>k\<close>.\<close>

fun lines_at :: "string \<Rightarrow> nat \<Rightarrow> string list \<Rightarrow> nat \<Rightarrow> bool" where
  "lines_at text k [] b = False"
| "lines_at text k [l] b = (k + length l = b \<and> slice text k b = l)"
| "lines_at text k (l # m # ls) b =
     (slice text k (k + length l) = l \<and> slice text (k + length l) (k + length l + 1) = [newline] \<and>
      lines_at text (k + length l + 1) (m # ls) b)"

lemma split_on_nonempty [simp]: "split_on c s \<noteq> []"
  by (induction s) (auto split: list.splits)

lemma split_on_Cons: "split_on c (d # s) =
    (if d = c then [] # split_on c s else (d # hd (split_on c s)) # tl (split_on c s))"
  by (simp split: list.splits)

lemma slice_step: "slice text k b = d # s \<Longrightarrow> k < b \<and> slice text k (k + 1) = [d] \<and> slice text (k + 1) b = s"
proof -
  assume eq: "slice text k b = d # s"
  then have "0 < length (slice text k b)" by simp
  then have "k < b" "k < length text" by simp_all
  then have "slice text k b = text ! k # slice text (k + 1) b"
    by (simp add: slice_def Cons_nth_drop_Suc [symmetric] take_Cons' Suc_diff_Suc)
  with eq \<open>k < b\<close> \<open>k < length text\<close> show ?thesis
    by (auto simp: slice_def Cons_nth_drop_Suc [symmetric])
qed

lemma lines_at_grow:
  assumes "lines_at text (k + 1) (l # ls) b" and "slice text k (k + 1) = [d]"
  shows "lines_at text k ((d # l) # ls) b"
proof -
  have grow: "slice text k (k + 1 + n) = d # slice text (k + 1) (k + 1 + n)" for n
    using slice_append [of k "k + 1" "k + 1 + n" "text"] assms(2) by simp
  show ?thesis
  proof (cases ls)
    case Nil
    with assms(1) grow [of "length l"] show ?thesis by auto
  next
    case (Cons m ms)
    with assms(1) grow [of "length l"] show ?thesis by auto
  qed
qed

lemma lines_at_split:
  assumes "a \<le> b" "b \<le> length text"
  shows "lines_at text a (split_on newline (slice text a b)) b"
  using assms
proof (induction "slice text a b" arbitrary: a)
  case Nil
  then show ?case by (auto simp: slice_def)
next
  case (Cons d s)
  note step = slice_step [OF Cons(2) [symmetric]]
  from step have split: "slice text a b = d # slice text (a + 1) b"
    using Cons(2) by simp
  have IH: "lines_at text (a + 1) (split_on newline (slice text (a + 1) b)) b"
    using Cons.hyps(1) [of "a + 1"] step Cons.prems by simp
  show ?case
  proof (cases "d = newline")
    case True
    obtain m ms where "split_on newline (slice text (a + 1) b) = m # ms"
      by (cases "split_on newline (slice text (a + 1) b)") auto
    with IH True step split show ?thesis by (auto simp: slice_def)
  next
    case False
    then have "split_on newline (slice text a b) = (d # hd (split_on newline (slice text (a + 1) b)))
        # tl (split_on newline (slice text (a + 1) b))"
      unfolding split by (simp add: split_on_Cons del: split_on.simps)
    moreover have "lines_at text a ((d # hd (split_on newline (slice text (a + 1) b)))
        # tl (split_on newline (slice text (a + 1) b))) b"
      by (rule lines_at_grow) (use IH step in auto)
    ultimately show ?thesis by simp
  qed
qed

lemma lines_at_Cons:
  assumes "lines_at text k (l # ls) b"
  obtains "ls = []" "k + length l = b" "slice text k b = l"
  | "ls \<noteq> []" "lines_at text (k + length l + 1) ls b" "gap text (k + length l) (k + length l + 1)"
    "slice text k (k + length l) = l"
proof (cases ls)
  case (Cons m ms)
  with assms have "blank (slice text (k + length l) (k + length l + 1))" by (simp add: blank_iff)
  then have "gap text (k + length l) (k + length l + 1)" by (simp only: gap_slice)
  with Cons assms that(2) show ?thesis by simp
qed (use assms that(1) in auto)

lemma lines_at_bound: "lines_at text k ls b \<Longrightarrow> k \<le> b"
  by (induction "text" k ls b rule: lines_at.induct) auto

section \<open>Spans that cover a text\<close>

text \<open>
  \<open>covers lap text F rows T\<close>: everything before \<open>F\<close> being covered, the rows, in this order, cover
  everything before \<open>T\<close> but white space.  A row may step back, by \<open>lap\<close> characters at
  most, and does not end before the rows in front of it.
\<close>

type_synonym span = "nat \<times> nat"

fun covers :: "nat \<Rightarrow> string \<Rightarrow> nat \<Rightarrow> span list \<Rightarrow> nat \<Rightarrow> bool" where
  "covers lap text F [] T = (gap text F T \<and> F \<le> T)"
| "covers lap text F ((s, e) # rows) T =
     (gap text F s \<and> F \<le> s + lap \<and> F \<le> e \<and> s < e \<and> covers lap text e rows T)"

lemma covers_none_lost:
  "covers lap text F rows T \<Longrightarrow> F \<le> i \<Longrightarrow> i < T \<Longrightarrow> i < length text \<Longrightarrow> \<not> is_space (text ! i) \<Longrightarrow>
   \<exists>(s, e) \<in> set rows. s \<le> i \<and> i < e"
proof (induction rows arbitrary: F)
  case Nil
  then show ?case by (auto simp: gap_def)
next
  case (Cons r rows)
  obtain s e where r: "r = (s, e)" by (cases r)
  show ?case
  proof (cases "i < e")
    case True
    have "s \<le> i"
    proof (rule ccontr)
      assume "\<not> s \<le> i"
      with Cons.prems r show False by (auto simp: gap_def)
    qed
    with True r show ?thesis by auto
  next
    case False
    with Cons r show ?thesis by fastforce
  qed
qed

lemma covers_shift:
  assumes "gap text F F'" and "F \<le> F'" "covers lap text F' rows T"
  shows "covers lap text F rows T"
proof (cases rows)
  case Nil
  with assms show ?thesis by (auto intro: gap_trans)
next
  case (Cons r rs)
  with assms show ?thesis by (cases r) (auto intro: gap_trans)
qed

lemma covers_mono: "covers lap text F rows T \<Longrightarrow> lap \<le> lap' \<Longrightarrow> covers lap' text F rows T"
  by (induction lap "text" F rows T rule: covers.induct) auto

lemma covers_append:
  "covers lap text F rows M \<Longrightarrow> covers lap text M rows' T \<Longrightarrow> covers lap text F (rows @ rows') T"
proof (induction rows arbitrary: F)
  case Nil
  then show ?case by (auto intro: covers_shift)
next
  case (Cons r rows)
  then show ?case by (cases r) auto
qed

lemma covers_le: "covers lap text F rows T \<Longrightarrow> F \<le> T"
proof (induction rows arbitrary: F)
  case (Cons r rows)
  then show ?case by (cases r) fastforce
qed simp

lemma covers_ends: "covers lap text F rows T \<Longrightarrow> (s, e) \<in> set rows \<Longrightarrow> s < e \<and> e \<le> T"
proof (induction rows arbitrary: F)
  case (Cons r rows)
  then show ?case using covers_le by (cases r) fastforce
qed simp

text \<open>A span whose end moves to the end of the next one makes the next one superfluous.\<close>

lemma covers_merge:
  "covers lap text F (xs @ (s, e) # (s', e') # rest) T \<Longrightarrow> covers lap text F (xs @ (s, e') # rest) T"
proof (induction xs arbitrary: F)
  case (Cons x xs)
  then show ?case by (cases x) simp
qed auto

lemma covers_drop_blank:
  assumes "covers lap text F rows T"
  shows "covers lap text F (filter (\<lambda>(s, e). \<not> blank (slice text s e)) rows) T"
  using assms
proof (induction rows arbitrary: F)
  case Nil
  then show ?case by simp
next
  case (Cons r rows)
  obtain s e where r: "r = (s, e)" by (cases r)
  with Cons have IH: "covers lap text e (filter (\<lambda>(s, e). \<not> blank (slice text s e)) rows) T" by simp
  show ?case
  proof (cases "blank (slice text s e)")
    case True
    then have "gap text F e" using Cons.prems r gap_slice gap_trans by fastforce
    with IH r True Cons.prems show ?thesis by (auto intro: covers_shift)
  next
    case False
    with IH r Cons.prems show ?thesis by simp
  qed
qed

text \<open>What a stage of the chunker promises, over rows that carry a span.\<close>

locale covering_stage =
  fixes stage :: "'r list \<Rightarrow> 'r list" and span_of :: "'r \<Rightarrow> span" and doc :: string and lap :: nat
  assumes keeps: "covers lap doc F (map span_of rows) T \<Longrightarrow>
    covers lap doc F (map span_of (stage rows)) T"
begin

lemma none_lost:
  assumes "covers lap doc 0 (map span_of rows) (length doc)" and "i < length doc" "\<not> is_space (doc ! i)"
  shows "\<exists>r \<in> set (stage rows). fst (span_of r) \<le> i \<and> i < snd (span_of r)"
  using covers_none_lost [OF keeps [OF assms(1)] _ assms(2,2,3)] by force

lemma not_all_lost:
  assumes "covers lap doc 0 (map span_of rows) (length doc)" and "\<not> blank doc"
  shows "stage rows \<noteq> []"
proof
  assume "stage rows = []"
  with none_lost [OF assms(1)] assms(2) show False by (auto simp: blank_nth)
qed

end

end
