(* ===== verification/Chunking.thy ===== *)
theory Chunking
  imports Text_Spans
begin

text \<open>
  \<open>services/knowledge/chunking.py\<close>: a normalised document is cut into sections at its Markdown
  headings, a section into paragraphs, paragraphs are packed up to a target size with an
  overlap, what is still too long is cut hard, what is too short joins the chunk in front of
  it, and every chunk cites the stretch of the text it holds.  Token counts are natural
  numbers; the loop that cuts is \<open>partial_function\<close>, as it does not end when the ceiling is zero.
\<close>

section \<open>Parameters and chunks\<close>

definition CHARS_PER_TOKEN :: nat where
  "CHARS_PER_TOKEN = 4"

record chunker_params =
  target_tokens :: nat
  overlap_tokens :: nat
  min_tokens :: nat
  max_tokens :: nat

definition DEFAULT_PARAMS :: chunker_params where
  "DEFAULT_PARAMS = \<lparr>target_tokens = 600, overlap_tokens = 80, min_tokens = 100, max_tokens = 1024\<rparr>"

type_synonym heading_path = "string list"

record chunk =
  ch_ordinal :: nat
  ch_content :: string
  ch_start :: nat
  ch_end :: nat
  ch_tokens :: nat
  ch_path :: heading_path

definition section_label :: "chunk \<Rightarrow> string option" where
  "section_label c = (if ch_path c = [] then None else Some (last (ch_path c)))"

definition estimate_tokens :: "string \<Rightarrow> nat" where
  "estimate_tokens s = max 1 ((length s + CHARS_PER_TOKEN - 1) div CHARS_PER_TOKEN)"

section \<open>Canonical text\<close>

text \<open>
  \<open>normalise\<close>.  The byte order mark is no character below 256 and Unicode's composition leaves
  those characters as they are.
\<close>

text \<open>Both replacements at once; the flag says that the character before was a carriage return.\<close>

fun unify_newlines :: "bool \<Rightarrow> string \<Rightarrow> string" where
  "unify_newlines after_cr [] = []"
| "unify_newlines after_cr (c # cs) =
     (if c = CHR 0x0D then newline # unify_newlines True cs
      else if c = newline \<and> after_cr then unify_newlines False cs
      else c # unify_newlines False cs)"

definition rstrip :: "string \<Rightarrow> string" where
  "rstrip s = rev (dropWhile is_space (rev s))"

definition strip_newlines :: "string \<Rightarrow> string" where
  "strip_newlines s = rev (dropWhile (\<lambda>c. c = newline) (rev (dropWhile (\<lambda>c. c = newline) s)))"

fun join_lines :: "string list \<Rightarrow> string" where
  "join_lines [] = []"
| "join_lines [l] = l"
| "join_lines (l # m # ls) = l @ newline # join_lines (m # ls)"

definition normalise_text :: "string \<Rightarrow> string" where
  "normalise_text raw = strip_newlines (join_lines (map rstrip (split_on newline (unify_newlines False raw))))"

section \<open>Sections\<close>

text \<open>\<open>^\s*(```|~~~)\<close> at the head of a line: the marker.\<close>

definition fence_marker :: "string \<Rightarrow> string option" where
  "fence_marker line = (let s = dropWhile is_space line in
     if starts_with ''```'' s then Some ''```'' else if starts_with ''~~~'' s then Some ''~~~'' else None)"

text \<open>The open fence after a line with a marker: \<open>Some m\<close> while inside a block opened by \<open>m\<close>.\<close>

definition fence_step :: "string \<Rightarrow> string option \<Rightarrow> string option" where
  "fence_step m open_fence = (case open_fence of
     None \<Rightarrow> Some m
   | Some n \<Rightarrow> if m = n then None else Some n)"

text \<open>
  \<open>^(#{1,6})\s+(.*?)\s*#*\s*$\<close> on a line: the depth and the title.  The lazy group takes the
  shortest title after which only white space, hashes and white space follow.
\<close>

definition closing :: "string \<Rightarrow> bool" where
  "closing s = (dropWhile is_space (dropWhile (\<lambda>c. c = CHR ''#'') (dropWhile is_space s)) = [])"

fun lazy_title :: "string \<Rightarrow> string" where
  "lazy_title [] = []"
| "lazy_title (c # cs) = (if closing (c # cs) then [] else c # lazy_title cs)"

definition heading :: "string \<Rightarrow> (nat \<times> string) option" where
  "heading line = (let hashes = takeWhile (\<lambda>c. c = CHR ''#'') line; rest = drop (length hashes) line in
     if 1 \<le> length hashes \<and> length hashes \<le> 6 \<and> rest \<noteq> [] \<and> is_space (hd rest)
     then Some (length hashes, strip (lazy_title (dropWhile is_space rest))) else None)"

definition set_heading :: "nat \<Rightarrow> string \<Rightarrow> heading_path \<Rightarrow> heading_path" where
  "set_heading depth title path = (let kept = take (depth - 1) path in
     kept @ replicate (depth - 1 - length kept) [] @ [title])"

type_synonym row = "heading_path \<times> span"

text \<open>The loop over the lines: \<open>n\<close> is the length of the text, \<open>k\<close> the offset of the line.\<close>

fun section_lines ::
  "nat \<Rightarrow> string list \<Rightarrow> nat \<Rightarrow> string option \<Rightarrow> heading_path \<Rightarrow> nat \<Rightarrow> row list" where
  "section_lines n [] k fence path start = (if start < n then [(path, start, n)] else [])"
| "section_lines n (l # ls) k fence path start = (let next = k + length l + 1 in
     case fence_marker l of
       Some m \<Rightarrow> section_lines n ls next (fence_step m fence) path start
     | None \<Rightarrow> (if fence \<noteq> None then section_lines n ls next fence path start
         else (case heading l of
             None \<Rightarrow> section_lines n ls next fence path start
           | Some (depth, title) \<Rightarrow>
               (if start < k then [(path, start, min k n)] else []) @
               section_lines n ls next fence (set_heading depth title path) k)))"

definition drop_blank :: "string \<Rightarrow> row list \<Rightarrow> row list" where
  "drop_blank doc rows = filter (\<lambda>r. \<not> blank (slice doc (fst (snd r)) (snd (snd r)))) rows"

definition sections :: "string \<Rightarrow> row list" where
  "sections doc = drop_blank doc (section_lines (length doc) (split_on newline doc) 0 None [] 0)"

section \<open>Paragraphs\<close>

fun paragraph_lines ::
  "nat \<Rightarrow> string list \<Rightarrow> nat \<Rightarrow> nat \<Rightarrow> string option \<Rightarrow> span list" where
  "paragraph_lines e [] cursor block fence = (if block < e then [(block, e)] else [])"
| "paragraph_lines e (l # ls) cursor block fence = (let next = cursor + length l + 1 in
     case fence_marker l of
       Some m \<Rightarrow> paragraph_lines e ls next block (fence_step m fence)
     | None \<Rightarrow> (if fence = None \<and> blank l \<and> block < cursor
         then (block, cursor) # paragraph_lines e ls next next fence
         else paragraph_lines e ls next block fence))"

definition paragraph_spans :: "string \<Rightarrow> nat \<Rightarrow> nat \<Rightarrow> span list" where
  "paragraph_spans doc a b = filter (\<lambda>(s, e). \<not> blank (slice doc s e))
     (paragraph_lines b (split_on newline (slice doc a b)) a a None)"

section \<open>Packing, cutting, merging\<close>

text \<open>The buffer \<open>(bs, be)\<close> and the paragraphs that follow it.\<close>

fun pack :: "nat \<Rightarrow> nat \<Rightarrow> nat \<Rightarrow> nat \<Rightarrow> span list \<Rightarrow> span list" where
  "pack target overlap bs be [] = [(bs, be)]"
| "pack target overlap bs be ((s, e) # ps) =
     (if e - bs \<le> target then pack target overlap bs e ps
      else (bs, be) # pack target overlap (min (max bs (be - overlap)) s) e ps)"

definition pack_section :: "nat \<Rightarrow> nat \<Rightarrow> string \<Rightarrow> row \<Rightarrow> row list" where
  "pack_section target overlap doc r = (case r of (path, a, b) \<Rightarrow>
     (case paragraph_spans doc a b of
        [] \<Rightarrow> []
      | (s, e) # ps \<Rightarrow> map (\<lambda>x. (path, x)) (pack target overlap s e ps)))"

definition packed :: "nat \<Rightarrow> nat \<Rightarrow> string \<Rightarrow> row list" where
  "packed target overlap doc = concat (map (pack_section target overlap doc) (sections doc))"

text \<open>\<open>None\<close>: the loop does not end.\<close>

partial_function (option) hard_split :: "nat \<Rightarrow> nat \<Rightarrow> nat \<Rightarrow> span list option" where
  "hard_split ceiling cursor e =
     (if ceiling < e - cursor
      then Option.bind (hard_split ceiling (cursor + ceiling) e) (\<lambda>rest. Some ((cursor, cursor + ceiling) # rest))
      else Some (if cursor < e then [(cursor, e)] else []))"

fun bounded :: "nat \<Rightarrow> row list \<Rightarrow> row list option" where
  "bounded ceiling [] = Some []"
| "bounded ceiling ((path, s, e) # rows) = Option.bind (hard_split ceiling s e) (\<lambda>pieces.
     Option.bind (bounded ceiling rows) (\<lambda>rest. Some (map (\<lambda>x. (path, x)) pieces @ rest)))"

text \<open>One turn of the merging loop; the last element is the chunk in front.\<close>

definition merge_step :: "nat \<Rightarrow> nat \<Rightarrow> row list \<Rightarrow> row \<Rightarrow> row list" where
  "merge_step least ceiling acc r = (case r of (path, s, e) \<Rightarrow>
     if acc \<noteq> [] \<and> e - s < least \<and> fst (last acc) = path \<and> e - fst (snd (last acc)) \<le> ceiling
     then butlast acc @ [(path, fst (snd (last acc)), e)] else acc @ [r])"

definition merged :: "nat \<Rightarrow> nat \<Rightarrow> row list \<Rightarrow> row list" where
  "merged least ceiling rows = foldl (merge_step least ceiling) [] rows"

declare hard_split.simps [code]

section \<open>Chunks\<close>

text \<open>\<open>str.index\<close>, \<open>None\<close> for its exception.\<close>

fun find_sub :: "string \<Rightarrow> string \<Rightarrow> nat option" where
  "find_sub s p = (if starts_with p s then Some 0
     else (case s of [] \<Rightarrow> None | c # cs \<Rightarrow> map_option Suc (find_sub cs p)))"

declare find_sub.simps [simp del]

definition cited_at :: "string \<Rightarrow> string \<Rightarrow> nat \<Rightarrow> nat \<Rightarrow> nat" where
  "cited_at doc content s e = (if contains (slice doc s e) content
     then (case find_sub (drop s doc) content of None \<Rightarrow> s | Some k \<Rightarrow> s + k) else s)"

fun emit :: "string \<Rightarrow> nat \<Rightarrow> row list \<Rightarrow> chunk list" where
  "emit doc n [] = []"
| "emit doc n ((path, s, e) # rows) = (let content = strip_newlines (slice doc s e) in
     if blank content then emit doc n rows
     else (let offset = cited_at doc content s e in
       \<lparr>ch_ordinal = n, ch_content = content, ch_start = offset, ch_end = offset + length content,
        ch_tokens = estimate_tokens content, ch_path = filter (\<lambda>p. p \<noteq> []) path\<rparr> # emit doc (Suc n) rows))"

text \<open>The single chunk of a text nothing was cut from.\<close>

definition whole_text :: "string \<Rightarrow> chunk list" where
  "whole_text doc = (let body = strip doc; offset = (case find_sub doc body of None \<Rightarrow> 0 | Some k \<Rightarrow> k) in
     [\<lparr>ch_ordinal = 0, ch_content = body, ch_start = offset, ch_end = offset + length body,
       ch_tokens = estimate_tokens body, ch_path = []\<rparr>])"

definition chunk_document :: "chunker_params \<Rightarrow> string \<Rightarrow> chunk list option" where
  "chunk_document p doc = (let ceiling = max_tokens p * CHARS_PER_TOKEN in
     Option.bind (bounded ceiling (packed (target_tokens p * CHARS_PER_TOKEN)
       (overlap_tokens p * CHARS_PER_TOKEN) doc)) (\<lambda>rows.
     let chunks = emit doc 0 (merged (min_tokens p * CHARS_PER_TOKEN) ceiling rows) in
     Some (if chunks = [] \<and> \<not> blank doc then whole_text doc else chunks)))"

end
