(* ===== verification/Knowledge_Store.thy ===== *)
theory Knowledge_Store
  imports Screening Chunking Identity
begin

text \<open>
  \<open>models/knowledge.py\<close>, \<open>models/embedding.py\<close> and the vocabularies of
  \<open>models/knowledge_vocabulary.py\<close>: sources, documents, their versions, the chunks of a version, the
  vectors of the chunks, and the record of submissions, findings and judgements.  Every
  constraint of a table is a guard of its writes.
\<close>

section \<open>Vocabularies\<close>

datatype trust_class =
  AUTHORITATIVE_POLICY | VENDOR | INTERNAL_VERIFIED | INTERNAL_DRAFT | EXTERNAL_UNVERIFIED | QUARANTINED

definition APPROVER_ONLY_TRUST :: "trust_class list" where
  "APPROVER_ONLY_TRUST = [AUTHORITATIVE_POLICY]"

datatype sensitivity = PUBLIC | INTERNAL | CONFIDENTIAL

datatype knowledge_lifecycle = KL_ACTIVE | KL_RETIRED

datatype ingest_outcome =
  IO_PENDING | IO_CREATED | IO_VERSIONED | IO_UNCHANGED | IO_UNCHANGED_TEXT | IO_REJECTED_INVALID
| IO_REJECTED_SECRET | IO_FAILED_EMBEDDING

definition CANONICAL_OUTCOMES :: "ingest_outcome list" where
  "CANONICAL_OUTCOMES = [IO_CREATED, IO_VERSIONED]"

datatype screening_outcome = SO_CLEAN | SO_FLAGGED

datatype disposition_kind = FALSE_POSITIVE | REMEDIATED_AT_SOURCE

definition UNBLOCKING_DISPOSITIONS :: "disposition_kind list" where
  "UNBLOCKING_DISPOSITIONS = [FALSE_POSITIVE]"

datatype truncation_policy = REJECT_OVERSIZE | TRUNCATE_TAIL

definition MAX_INDEXABLE_DIMENSIONS :: nat where
  "MAX_INDEXABLE_DIMENSIONS = 2000"

definition D768 :: nat where
  "D768 = 768"

definition SUPPORTED_MEDIA_TYPES :: "string list" where
  "SUPPORTED_MEDIA_TYPES = [''text/markdown'', ''text/plain'']"

text \<open>\<open>^[a-z][a-z0-9_]{2,47}$\<close>, used with \<open>match\<close>.\<close>

definition matches_space_key :: "string \<Rightarrow> bool" where
  "matches_space_key s = (case drop_final_newline s of
     [] \<Rightarrow> False
   | c # cs \<Rightarrow> is_lower_letter c \<and> 2 \<le> length cs \<and> length cs \<le> 47 \<and>
       list_all (\<lambda>d. is_lower_letter d \<or> is_digit d \<or> d = CHR ''_'') cs)"

section \<open>Rows\<close>

record source_row =
  ks_id :: uuid
  ks_kind :: string
  ks_title :: string
  ks_trust :: trust_class
  ks_sensitivity :: sensitivity
  ks_state :: knowledge_lifecycle
  ks_retired_at :: "int option"
  ks_retired_by :: "string option"

record document_row =
  kd_id :: uuid
  kd_source :: uuid
  kd_ref :: string
  kd_title :: string
  kd_media :: string
  kd_current :: "uuid option"
  kd_state :: knowledge_lifecycle
  kd_retired_at :: "int option"
  kd_retired_by :: "string option"

record version_row =
  kv_id :: uuid
  kv_document :: uuid
  kv_no :: nat
  kv_raw_hash :: string
  kv_text_hash :: string
  kv_bytes :: nat
  kv_chars :: nat
  kv_params :: chunker_params
  kv_modified :: "int option"
  kv_ingested_at :: int
  kv_ingested_by :: string
  kv_supersedes :: "uuid option"
  kv_superseded_at :: "int option"
  kv_screening :: screening_outcome
  kv_attempt :: uuid

text \<open>The only flag ingestion sets is \<open>INJECTION_SUSPECTED\<close>.\<close>

record chunk_row =
  kc_id :: uuid
  kc_version :: uuid
  kc_document :: uuid
  kc_source :: uuid
  kc_chunk :: chunk
  kc_content_hash :: string
  kc_label :: "string option"
  kc_injection :: bool

text \<open>A vector is a list of floats, of which only the number matters here.\<close>

type_synonym vector = "int list"

record vector_row =
  kx_id :: uuid
  kx_space :: uuid
  kx_chunk :: uuid
  kx_source :: uuid
  kx_document :: uuid
  kx_vector :: vector
  kx_current :: bool
  kx_retrievable :: bool
  kx_sensitivity :: sensitivity
  kx_tokens :: nat

record space_row =
  sp_id :: uuid
  sp_key :: string
  sp_provider :: string
  sp_model :: string
  sp_digest :: "string option"
  sp_dimensions :: nat
  sp_normalize :: bool
  sp_document_prefix :: string
  sp_query_prefix :: string
  sp_verified_at :: "int option"
  sp_verified_by :: "string option"
  sp_max_input :: nat
  sp_truncation :: truncation_policy
  sp_default :: bool

record attempt_row =
  ka_id :: uuid
  ka_source :: uuid
  ka_ref :: string
  ka_document :: "uuid option"
  ka_version :: "uuid option"
  ka_raw_hash :: string
  ka_text_hash :: "string option"
  ka_bytes :: nat
  ka_media :: string
  ka_outcome :: ingest_outcome
  ka_by :: audit_fields
  ka_request_id :: "string option"
  ka_chunks :: "nat option"
  ka_embedded :: "nat option"
  ka_blocking :: nat
  ka_error :: "string option"
  ka_started :: int
  ka_finished :: "int option"

record finding_row =
  kf_id :: uuid
  kf_attempt :: uuid
  kf_version :: "uuid option"
  kf_finding :: finding

record disposition_row =
  kp_id :: uuid
  kp_source :: uuid
  kp_ref :: string
  kp_raw_hash :: string
  kp_fingerprint :: string
  kp_detector :: string
  kp_kind :: disposition_kind
  kp_reason :: string
  kp_by :: string
  kp_attempt :: uuid
  kp_at :: int

record knowledge =
  kn_sources :: "source_row list"
  kn_documents :: "document_row list"
  kn_versions :: "version_row list"
  kn_chunks :: "chunk_row list"
  kn_vectors :: "vector_row list"
  kn_spaces :: "space_row list"
  kn_attempts :: "attempt_row list"
  kn_findings :: "finding_row list"
  kn_dispositions :: "disposition_row list"
  kn_next :: uuid

type_synonym 'a kn_run = "acop_error + 'a \<times> knowledge"

section \<open>Constraints\<close>

definition knows :: "('r \<Rightarrow> uuid) \<Rightarrow> 'r list \<Rightarrow> uuid option \<Rightarrow> bool" where
  "knows key rows i = (case i of None \<Rightarrow> True | Some j \<Rightarrow> find_row key j rows \<noteq> None)"

definition source_checks :: "source_row \<Rightarrow> (string \<times> bool) list" where
  "source_checks s = [(''retired_state'', (ks_state s = KL_RETIRED) = (ks_retired_at s \<noteq> None))]"

definition document_checks :: "knowledge \<Rightarrow> document_row \<Rightarrow> (string \<times> bool) list" where
  "document_checks kn d =
     [(''retired_state'', (kd_state d = KL_RETIRED) = (kd_retired_at d \<noteq> None)),
      (''uq_knowledge_document_source_ref'', list_all (\<lambda>e. \<not> (kd_id e \<noteq> kd_id d \<and> kd_state e = KL_ACTIVE \<and>
         kd_state d = KL_ACTIVE \<and> kd_source e = kd_source d \<and> kd_ref e = kd_ref d)) (kn_documents kn)),
      (''fk_knowledge_document_source_id_knowledge_source'', knows ks_id (kn_sources kn) (Some (kd_source d)))]"

definition version_checks :: "knowledge \<Rightarrow> version_row \<Rightarrow> (string \<times> bool) list" where
  "version_checks kn v =
     [(''uq_document_version_no'', list_all (\<lambda>w. \<not> (kv_id w \<noteq> kv_id v \<and> kv_document w = kv_document v \<and>
         kv_no w = kv_no v)) (kn_versions kn)),
      (''uq_document_raw_hash'', list_all (\<lambda>w. \<not> (kv_id w \<noteq> kv_id v \<and> kv_document w = kv_document v \<and>
         kv_raw_hash w = kv_raw_hash v)) (kn_versions kn)),
      (''version_no_positive'', 0 < kv_no v),
      (''supersession_matches_version_no'', (kv_supersedes v = None) = (kv_no v = 1)),
      (''fk_knowledge_document_version_document_id_knowledge_document'',
         knows kd_id (kn_documents kn) (Some (kv_document v))),
      (''fk_kdv_supersedes_version_id_kdv'', knows kv_id (kn_versions kn) (kv_supersedes v))]"

text \<open>\<open>section_label\<close> is a \<open>VARCHAR(255)\<close>.\<close>

definition chunk_checks :: "knowledge \<Rightarrow> chunk_row \<Rightarrow> (string \<times> bool) list" where
  "chunk_checks kn c =
     [(''section_label'', case kc_label c of None \<Rightarrow> True | Some l \<Rightarrow> length l \<le> 255),
      (''uq_chunk_version_ordinal'', list_all (\<lambda>b. \<not> (kc_id b \<noteq> kc_id c \<and> kc_version b = kc_version c \<and>
         ch_ordinal (kc_chunk b) = ch_ordinal (kc_chunk c))) (kn_chunks kn)),
      (''char_range'', ch_start (kc_chunk c) < ch_end (kc_chunk c)),
      (''content_not_empty'', 0 < length (ch_content (kc_chunk c))),
      (''fk_knowledge_chunk_version_id_knowledge_document_version'',
         knows kv_id (kn_versions kn) (Some (kc_version c))),
      (''fk_knowledge_chunk_document_id_knowledge_document'',
         knows kd_id (kn_documents kn) (Some (kc_document c))),
      (''fk_knowledge_chunk_source_id_knowledge_source'', knows ks_id (kn_sources kn) (Some (kc_source c)))]"

definition vector_checks :: "knowledge \<Rightarrow> vector_row \<Rightarrow> (string \<times> bool) list" where
  "vector_checks kn x =
     [(''vector_768'', length (kx_vector x) = D768),
      (''uq_ke_d768_current'', list_all (\<lambda>y. \<not> (kx_id y \<noteq> kx_id x \<and> kx_current y \<and> kx_current x \<and>
         kx_chunk y = kx_chunk x \<and> kx_space y = kx_space x)) (kn_vectors kn)),
      (''fk_knowledge_embedding_d768_embedding_space_id_embedding_space'',
         knows sp_id (kn_spaces kn) (Some (kx_space x))),
      (''fk_knowledge_embedding_d768_chunk_id_knowledge_chunk'',
         knows kc_id (kn_chunks kn) (Some (kx_chunk x)))]"

text \<open>
  The identity of a space.  A unique constraint does not compare rows with a \<open>NULL\<close> column, so
  it does not hold two spaces without a digest apart.
\<close>

definition same_space :: "space_row \<Rightarrow> space_row \<Rightarrow> bool" where
  "same_space a b = (sp_provider a = sp_provider b \<and> sp_model a = sp_model b \<and>
     sp_digest a = sp_digest b \<and> sp_digest a \<noteq> None \<and> sp_dimensions a = sp_dimensions b \<and>
     sp_normalize a = sp_normalize b \<and> sp_document_prefix a = sp_document_prefix b \<and>
     sp_query_prefix a = sp_query_prefix b \<and> sp_truncation a = sp_truncation b)"

definition space_checks :: "knowledge \<Rightarrow> space_row \<Rightarrow> (string \<times> bool) list" where
  "space_checks kn s =
     [(''uq_embedding_space_key'', list_all (\<lambda>t. \<not> (sp_id t \<noteq> sp_id s \<and> sp_key t = sp_key s)) (kn_spaces kn)),
      (''uq_embedding_space_identity'', list_all (\<lambda>t. \<not> (sp_id t \<noteq> sp_id s \<and> same_space t s)) (kn_spaces kn)),
      (''dimensions_indexable'', 1 \<le> sp_dimensions s \<and> sp_dimensions s \<le> MAX_INDEXABLE_DIMENSIONS),
      (''space_key_format'', matches_space_key (sp_key s)),
      (''uq_embedding_space_default'', list_all (\<lambda>t. \<not> (sp_id t \<noteq> sp_id s \<and> sp_default t \<and> sp_default s))
         (kn_spaces kn))]"

definition attempt_checks :: "knowledge \<Rightarrow> attempt_row \<Rightarrow> (string \<times> bool) list" where
  "attempt_checks kn a =
     [(''finished_matches_outcome'', (ka_outcome a \<noteq> IO_PENDING) = (ka_finished a \<noteq> None)),
      (''successful_has_version'', (ka_outcome a \<in> set CANONICAL_OUTCOMES) = (ka_version a \<noteq> None)),
      (''fk_knowledge_ingest_attempt_source_id_knowledge_source'',
         knows ks_id (kn_sources kn) (Some (ka_source a))),
      (''fk_knowledge_ingest_attempt_document_id_knowledge_document'',
         knows kd_id (kn_documents kn) (ka_document a)),
      (''fk_kia_version_id_kdv'', knows kv_id (kn_versions kn) (ka_version a))]"

definition finding_checks :: "knowledge \<Rightarrow> finding_row \<Rightarrow> (string \<times> bool) list" where
  "finding_checks kn f =
     [(''fk_knowledge_finding_attempt_id_knowledge_ingest_attempt'',
         knows ka_id (kn_attempts kn) (Some (kf_attempt f))),
      (''fk_knowledge_finding_version_id_knowledge_document_version'',
         knows kv_id (kn_versions kn) (kf_version f))]"

definition disposition_checks :: "knowledge \<Rightarrow> disposition_row \<Rightarrow> (string \<times> bool) list" where
  "disposition_checks kn p =
     [(''fk_knowledge_finding_disposition_source_id_knowledge_source'',
         knows ks_id (kn_sources kn) (Some (kp_source p))),
      (''fk_kfd_origin_attempt_id_kia'', knows ka_id (kn_attempts kn) (Some (kp_attempt p)))]"

section \<open>Writes\<close>

text \<open>One insert for every table: the row takes the next id, and its constraints hold.\<close>

definition add_source :: "(uuid \<Rightarrow> source_row) \<Rightarrow> knowledge \<Rightarrow> source_row kn_run" where
  "add_source mk kn = (let r = mk (kn_next kn) in andThen (enforce (source_checks r)) (\<lambda>_.
     Inr (r, kn\<lparr>kn_sources := kn_sources kn @ [r], kn_next := Suc (kn_next kn)\<rparr>)))"

definition add_document :: "(uuid \<Rightarrow> document_row) \<Rightarrow> knowledge \<Rightarrow> document_row kn_run" where
  "add_document mk kn = (let r = mk (kn_next kn) in andThen (enforce (document_checks kn r)) (\<lambda>_.
     Inr (r, kn\<lparr>kn_documents := kn_documents kn @ [r], kn_next := Suc (kn_next kn)\<rparr>)))"

definition add_version :: "(uuid \<Rightarrow> version_row) \<Rightarrow> knowledge \<Rightarrow> version_row kn_run" where
  "add_version mk kn = (let r = mk (kn_next kn) in andThen (enforce (version_checks kn r)) (\<lambda>_.
     Inr (r, kn\<lparr>kn_versions := kn_versions kn @ [r], kn_next := Suc (kn_next kn)\<rparr>)))"

definition add_chunk :: "(uuid \<Rightarrow> chunk_row) \<Rightarrow> knowledge \<Rightarrow> chunk_row kn_run" where
  "add_chunk mk kn = (let r = mk (kn_next kn) in andThen (enforce (chunk_checks kn r)) (\<lambda>_.
     Inr (r, kn\<lparr>kn_chunks := kn_chunks kn @ [r], kn_next := Suc (kn_next kn)\<rparr>)))"

definition add_vector :: "(uuid \<Rightarrow> vector_row) \<Rightarrow> knowledge \<Rightarrow> vector_row kn_run" where
  "add_vector mk kn = (let r = mk (kn_next kn) in andThen (enforce (vector_checks kn r)) (\<lambda>_.
     Inr (r, kn\<lparr>kn_vectors := kn_vectors kn @ [r], kn_next := Suc (kn_next kn)\<rparr>)))"

definition add_space :: "(uuid \<Rightarrow> space_row) \<Rightarrow> knowledge \<Rightarrow> space_row kn_run" where
  "add_space mk kn = (let r = mk (kn_next kn) in andThen (enforce (space_checks kn r)) (\<lambda>_.
     Inr (r, kn\<lparr>kn_spaces := kn_spaces kn @ [r], kn_next := Suc (kn_next kn)\<rparr>)))"

definition add_attempt :: "(uuid \<Rightarrow> attempt_row) \<Rightarrow> knowledge \<Rightarrow> attempt_row kn_run" where
  "add_attempt mk kn = (let r = mk (kn_next kn) in andThen (enforce (attempt_checks kn r)) (\<lambda>_.
     Inr (r, kn\<lparr>kn_attempts := kn_attempts kn @ [r], kn_next := Suc (kn_next kn)\<rparr>)))"

definition add_finding :: "(uuid \<Rightarrow> finding_row) \<Rightarrow> knowledge \<Rightarrow> finding_row kn_run" where
  "add_finding mk kn = (let r = mk (kn_next kn) in andThen (enforce (finding_checks kn r)) (\<lambda>_.
     Inr (r, kn\<lparr>kn_findings := kn_findings kn @ [r], kn_next := Suc (kn_next kn)\<rparr>)))"

definition add_disposition :: "(uuid \<Rightarrow> disposition_row) \<Rightarrow> knowledge \<Rightarrow> disposition_row kn_run" where
  "add_disposition mk kn = (let r = mk (kn_next kn) in andThen (enforce (disposition_checks kn r)) (\<lambda>_.
     Inr (r, kn\<lparr>kn_dispositions := kn_dispositions kn @ [r], kn_next := Suc (kn_next kn)\<rparr>)))"

lemmas add_defs = add_source_def add_document_def add_version_def add_chunk_def add_vector_def add_space_def
  add_attempt_def add_finding_def add_disposition_def

end
