(* ===== verification/Chunking_Facts.thy ===== *)
theory Chunking_Facts
  imports Chunking
begin

text \<open>
  The chunker is correct: it ends exactly when the ceiling is positive, its chunks cite the
  text they hold, stay under the ceiling and lose nothing but white space; canonical text is
  stable and does not depend on the newline convention.
\<close>

section \<open>Sections and paragraphs cover the text\<close>

lemma section_lines_covers:
  "lines_at doc k ls (length doc) \<Longrightarrow> start \<le> k \<Longrightarrow> F \<le> start \<Longrightarrow> gap doc F start \<Longrightarrow>
   covers 0 doc F (map snd (section_lines (length doc) ls k fence path start)) (length doc)"
proof (induction ls arbitrary: k fence path start F)
  case Nil
  then show ?case by simp
next
  case (Cons l ls)
  have le: "k \<le> length doc" using lines_at_bound [OF Cons.prems(1)] .
  from Cons.prems(1) show ?case
  proof (cases rule: lines_at_Cons)
    case 1
    have here: "gap doc F k" if "gap doc F k" for F using that .
    show ?thesis
      using Cons.prems(2-4) le 1
      by (auto simp: Let_def min_absorb1 split: option.splits intro: gap_mono)
  next
    case 2
    have IH: "covers 0 doc F' (map snd (section_lines (length doc) ls (k + length l + 1) fence' path' start'))
        (length doc)" if "start' \<le> k" "F' \<le> start'" "gap doc F' start'" for fence' path' start' F'
      using Cons.IH [OF 2(2) _ that(2,3)] that(1) by simp
    show ?thesis
      using IH Cons.prems(2-4) le
      by (auto simp: Let_def min_absorb1 split: option.splits)
  qed
qed

lemma sections_cover: "covers 0 doc 0 (map snd (sections doc)) (length doc)"
proof -
  have "lines_at doc 0 (split_on newline doc) (length doc)"
    using lines_at_split [of 0 "length doc" doc] by (simp add: slice_def)
  from covers_drop_blank [OF section_lines_covers [OF this, of 0 0 None "[]"]]
  show ?thesis
    unfolding sections_def drop_blank_def
    by (simp add: filter_map comp_def case_prod_unfold)
qed

lemma paragraph_lines_covers:
  "lines_at doc cursor ls e \<Longrightarrow> block \<le> cursor \<Longrightarrow> F \<le> block \<Longrightarrow> gap doc F block \<Longrightarrow>
   covers 0 doc F (paragraph_lines e ls cursor block fence) e"
proof (induction ls arbitrary: cursor fence block F)
  case Nil
  then show ?case by simp
next
  case (Cons l ls)
  have le: "cursor \<le> e" using lines_at_bound [OF Cons.prems(1)] .
  from Cons.prems(1) show ?case
  proof (cases rule: lines_at_Cons)
    case 1
    then have "blank l \<Longrightarrow> gap doc cursor e" by (simp add: gap_slice [symmetric])
    with Cons.prems(2-4) le 1 show ?thesis
      by (auto simp: Let_def split: option.splits intro: gap_mono)
  next
    case 2
    then have white: "blank l \<Longrightarrow> gap doc cursor (cursor + length l + 1)"
      by (metis gap_slice gap_trans)
    have IH: "covers 0 doc F' (paragraph_lines e ls (cursor + length l + 1) block' fence') e"
      if "block' \<le> cursor + length l + 1" "F' \<le> block'" "gap doc F' block'" for fence' block' F'
      using Cons.IH [OF 2(2) that] .
    show ?thesis
      using IH Cons.prems(2-4) white
      by (auto simp: Let_def split: option.splits)
  qed
qed

lemma paragraphs_cover:
  assumes "a \<le> b" "b \<le> length doc"
  shows "covers 0 doc a (paragraph_spans doc a b) b"
  unfolding paragraph_spans_def
  by (rule covers_drop_blank, rule paragraph_lines_covers [OF lines_at_split [OF assms]]) simp_all

section \<open>Packing, cutting and merging lose nothing\<close>

lemma pack_covers:
  "gap doc F bs \<Longrightarrow> F \<le> bs + lap \<Longrightarrow> F \<le> be \<Longrightarrow> bs < be \<Longrightarrow> covers 0 doc be ps T \<Longrightarrow>
   covers lap doc F (pack target lap bs be ps) T"
proof (induction ps arbitrary: F bs be)
  case (Cons r ps)
  obtain s e where r: "r = (s, e)" by (cases r)
  from Cons.prems(5) r have next_row: "gap doc be s" "be \<le> s" "be \<le> e" "s < e" "covers 0 doc e ps T" by auto
  show ?case
  proof (cases "e - bs \<le> target")
    case True
    then show ?thesis using Cons.IH [of F bs e] Cons.prems next_row r by simp
  next
    case False
    let ?start = "min (max bs (be - lap)) s"
    have "covers lap doc be (pack target lap ?start e ps) T"
      by (rule Cons.IH) (use next_row in \<open>auto intro: gap_mono\<close>)
    with Cons.prems False r show ?thesis by simp
  qed
qed simp

lemma pack_section_covers:
  assumes "a \<le> b" "b \<le> length doc"
  shows "covers lap doc a (map snd (pack_section target lap doc (path, a, b))) b"
  using paragraphs_cover [OF assms]
  by (auto simp: pack_section_def comp_def split: list.splits intro!: pack_covers)

lemma packed_rows_cover:
  "covers 0 doc F (map snd rows) T \<Longrightarrow> T \<le> length doc \<Longrightarrow>
   covers lap doc F (map snd (concat (map (pack_section target lap doc) rows))) T"
proof (induction rows arbitrary: F)
  case (Cons r rows)
  obtain path a b where r: "r = (path, a, b)" by (cases r)
  with Cons.prems have row: "gap doc F a" "F \<le> a" "a < b" "covers 0 doc b (map snd rows) T" by auto
  then have "b \<le> length doc" using covers_le Cons.prems(2) by fastforce
  with row have "covers lap doc F (map snd (pack_section target lap doc (path, a, b))) b"
    by (intro covers_shift [OF row(1,2)] pack_section_covers) simp_all
  with Cons.IH [OF row(4) Cons.prems(2)] r show ?case by (simp add: covers_append)
qed simp

lemma packed_cover: "covers lap doc 0 (map snd (packed target lap doc)) (length doc)"
  unfolding packed_def by (rule packed_rows_cover [OF sections_cover]) simp

lemma hard_split_ends: "0 < ceiling \<Longrightarrow> \<exists>pieces. hard_split ceiling s e = Some pieces"
proof (induction "e - s" arbitrary: s rule: less_induct)
  case less
  show ?case
  proof (cases "ceiling < e - s")
    case True
    with less.prems have "e - (s + ceiling) < e - s" by simp
    from less.hyps [OF this less.prems] True show ?thesis
      by (auto simp: hard_split.simps [of ceiling s e])
  qed (simp add: hard_split.simps [of ceiling s e])
qed

text \<open>With a ceiling of zero the loop over a span that is not empty runs for ever.\<close>

lemma hard_split_zero:
  assumes "s < e"
  shows "hard_split 0 s e = None"
proof (cases "hard_split 0 s e")
  case (Some pieces)
  have "hard_split 0 s e = Option.bind (hard_split 0 s e) (\<lambda>rest. Some ((s, s) # rest))"
    by (subst hard_split.simps) (use assms in simp)
  then show ?thesis unfolding Some by simp
qed

lemma hard_split_covers:
  assumes "hard_split ceiling s e = Some pieces" and "0 < ceiling" "lap \<le> ceiling"
    and "gap doc F s" "F \<le> s + lap" "F \<le> e" "s < e" and "covers lap doc e rest T"
  shows "covers lap doc F (pieces @ rest) T \<and> (\<forall>(a, b) \<in> set pieces. b - a \<le> ceiling)"
  using assms
proof (induction "e - s" arbitrary: F s pieces rule: less_induct)
  case less
  show ?case
  proof (cases "ceiling < e - s")
    case True
    with less.prems(1) obtain more_pieces where
      cut: "hard_split ceiling (s + ceiling) e = Some more_pieces" "pieces = (s, s + ceiling) # more_pieces"
      by (auto simp: hard_split.simps [of ceiling s e] split: bind_splits)
    have "covers lap doc (s + ceiling) (more_pieces @ rest) T \<and> (\<forall>(a, b) \<in> set more_pieces. b - a \<le> ceiling)"
      by (rule less.hyps [OF _ cut(1)]) (use True less.prems in auto)
    with cut less.prems show ?thesis by auto
  next
    case False
    with less.prems show ?thesis by (auto simp: hard_split.simps [of ceiling s e])
  qed
qed

lemma bounded_ends: "0 < ceiling \<Longrightarrow> \<exists>out. bounded ceiling rows = Some out"
proof (induction rows)
  case (Cons r rows)
  obtain path s e where r: "r = (path, s, e)" by (cases r)
  from hard_split_ends [OF Cons.prems, of s e] Cons show ?case by (auto simp: r)
qed simp

lemma bounded_covers:
  "bounded ceiling rows = Some out \<Longrightarrow> 0 < ceiling \<Longrightarrow> lap \<le> ceiling \<Longrightarrow> covers lap doc F (map snd rows) T \<Longrightarrow>
   covers lap doc F (map snd out) T \<and> (\<forall>(path, a, b) \<in> set out. b - a \<le> ceiling)"
proof (induction rows arbitrary: F out)
  case (Cons r rows)
  obtain path s e where r: "r = (path, s, e)" by (cases r)
  from Cons.prems(1) r obtain pieces rest where run: "hard_split ceiling s e = Some pieces"
    "bounded ceiling rows = Some rest" "out = map (\<lambda>x. (path, x)) pieces @ rest"
    by (auto split: bind_splits)
  from Cons.prems(4) r have row: "gap doc F s" "F \<le> s + lap" "F \<le> e" "s < e" "covers lap doc e (map snd rows) T"
    by auto
  from Cons.IH [OF run(2) Cons.prems(2,3) row(5)] have IH: "covers lap doc e (map snd rest) T"
    "\<forall>(path, a, b) \<in> set rest. b - a \<le> ceiling" by auto
  from hard_split_covers [OF run(1) Cons.prems(2,3) row(1-4) IH(1)] IH(2) run(3)
  show ?case by (auto simp: comp_def)
qed simp

lemma merge_step_covers:
  assumes "covers lap doc F (map snd acc @ map snd (r # rows)) T"
  shows "covers lap doc F (map snd (merge_step least ceiling acc r) @ map snd rows) T"
proof (cases "merge_step least ceiling acc r = acc @ [r]")
  case False
  obtain path s e where r: "r = (path, s, e)" by (cases r)
  from False r have acc: "acc \<noteq> []"
    and merged: "merge_step least ceiling acc r = butlast acc @ [(path, fst (snd (last acc)), e)]"
    by (auto simp: merge_step_def split: if_splits)
  from acc have "map snd acc = map snd (butlast acc) @ [(fst (snd (last acc)), snd (snd (last acc)))]"
    by (metis (no_types, lifting) append_butlast_last_id list.simps(8) list.simps(9) map_append prod.collapse)
  with assms r have "covers lap doc F (map snd (butlast acc) @ (fst (snd (last acc)), snd (snd (last acc))) #
      (s, e) # map snd rows) T" by simp
  from covers_merge [OF this] merged show ?thesis by simp
qed (use assms in simp)

lemma merged_covers:
  assumes "covers lap doc F (map snd rows) T"
  shows "covers lap doc F (map snd (merged least ceiling rows)) T"
proof -
  have "covers lap doc F (map snd acc @ map snd rows) T \<Longrightarrow>
      covers lap doc F (map snd (foldl (merge_step least ceiling) acc rows)) T" for acc
  proof (induction rows arbitrary: acc)
    case (Cons r rows)
    then show ?case using merge_step_covers [of lap doc F acc r rows T] by simp
  qed simp
  from this [of "[]"] assms show ?thesis by (simp add: merged_def)
qed

lemma merged_small:
  assumes "\<forall>(path, a, b) \<in> set rows. b - a \<le> ceiling"
  shows "\<forall>(path, a, b) \<in> set (merged least ceiling rows). b - a \<le> ceiling"
proof -
  have "\<forall>(path, a, b) \<in> set acc. b - a \<le> ceiling \<Longrightarrow> \<forall>(path, a, b) \<in> set rows. b - a \<le> ceiling \<Longrightarrow>
      \<forall>(path, a, b) \<in> set (foldl (merge_step least ceiling) acc rows). b - a \<le> ceiling" for acc
  proof (induction rows arbitrary: acc)
    case (Cons r rows)
    have "\<forall>(path, a, b) \<in> set (merge_step least ceiling acc r). b - a \<le> ceiling"
      using Cons.prems by (auto simp: merge_step_def split: prod.splits dest: in_set_butlastD)
    from Cons.IH [OF this] Cons.prems(2) show ?case by simp
  qed simp
  from this [of "[]"] assms show ?thesis by (simp add: merged_def)
qed

interpretation blank_rows: covering_stage "drop_blank doc" snd doc lap for doc lap
  by unfold_locales
    (use covers_drop_blank in \<open>fastforce simp: drop_blank_def filter_map comp_def case_prod_unfold\<close>)

interpretation joined_rows: covering_stage "merged least ceiling" snd doc lap for least ceiling doc lap
  by unfold_locales (rule merged_covers)

section \<open>A chunk cites what it holds\<close>

lemma strip_newlines_parts:
  obtains u v where "s = u @ strip_newlines s @ v" and "set u \<subseteq> {newline}" "set v \<subseteq> {newline}"
    and "strip_newlines s \<noteq> [] \<Longrightarrow> hd (strip_newlines s) \<noteq> newline"
proof -
  let ?P = "\<lambda>c. c = newline"
  let ?d = "dropWhile ?P s"
  have d: "?d = strip_newlines s @ rev (takeWhile ?P (rev ?d))"
    unfolding strip_newlines_def by (metis rev_append rev_rev_ident takeWhile_dropWhile_id)
  have "strip_newlines s \<noteq> [] \<Longrightarrow> hd (strip_newlines s) = hd ?d" by (subst d) simp
  moreover have "?d \<noteq> [] \<Longrightarrow> hd ?d \<noteq> newline" using hd_dropWhile [of ?P s] by auto
  moreover have "s = takeWhile ?P s @ strip_newlines s @ rev (takeWhile ?P (rev ?d))"
    using d by (metis takeWhile_dropWhile_id)
  moreover have "strip_newlines s \<noteq> [] \<Longrightarrow> ?d \<noteq> []" by (subst d) simp
  ultimately show thesis
    by (intro that [of "takeWhile ?P s" "rev (takeWhile ?P (rev ?d))"])
      (auto dest: set_takeWhileD)
qed

lemma newlines_blank: "set u \<subseteq> {newline} \<Longrightarrow> blank u"
  by (auto simp: blank_iff list_all_iff)

lemma find_sub_after:
  "set u \<subseteq> {newline} \<Longrightarrow> p \<noteq> [] \<Longrightarrow> hd p \<noteq> newline \<Longrightarrow> find_sub (u @ p @ r) p = Some (length u)"
proof (induction u)
  case Nil
  have "starts_with p (p @ r)" by (auto simp: starts_with_iff)
  then show ?case by (simp add: find_sub.simps [of "p @ r"])
next
  case (Cons c u)
  then have "\<not> starts_with p (newline # u @ p @ r)" "c = newline" by (cases p; auto)+
  with Cons show ?case by (simp add: find_sub.simps [of "newline # u @ p @ r"])
qed

lemma find_sub_sound: "find_sub s p = Some k \<Longrightarrow> slice s k (k + length p) = p"
proof (induction s arbitrary: k)
  case Nil
  then show ?case by (auto simp: find_sub.simps [of "[]"] starts_with_iff slice_def split: if_splits)
next
  case (Cons c s)
  show ?case
  proof (cases "starts_with p (c # s)")
    case True
    with Cons.prems show ?thesis
      by (auto simp: find_sub.simps [of "c # s"] starts_with_iff slice_def)
  next
    case False
    with Cons show ?thesis by (auto simp: find_sub.simps [of "c # s"] slice_def)
  qed
qed

lemma find_sub_complete: "\<exists>k. find_sub (u @ p @ v) p = Some k"
proof (induction u)
  case Nil
  have "starts_with p (p @ v)" by (auto simp: starts_with_iff)
  then show ?case by (simp add: find_sub.simps [of "p @ v"])
next
  case (Cons c u)
  then show ?case by (auto simp: find_sub.simps [of "c # u @ p @ v"])
qed

lemma strip_parts:
  obtains u v where "s = u @ strip s @ v" "blank u" "blank v"
proof -
  let ?d = "dropWhile is_space s"
  have "?d = strip s @ rev (takeWhile is_space (rev ?d))"
    unfolding strip_def by (metis rev_append rev_rev_ident takeWhile_dropWhile_id)
  then have "s = takeWhile is_space s @ strip s @ rev (takeWhile is_space (rev ?d))"
    by (metis takeWhile_dropWhile_id)
  with that [of "takeWhile is_space s" "rev (takeWhile is_space (rev ?d))"] show thesis
    by (auto simp: blank_iff list_all_iff dest: set_takeWhileD)
qed

definition cites :: "string \<Rightarrow> row \<Rightarrow> chunk \<Rightarrow> bool" where
  "cites doc r c \<longleftrightarrow> fst (snd r) \<le> ch_start c \<and> ch_end c \<le> snd (snd r) \<and> ch_end c \<le> length doc \<and>
     slice doc (ch_start c) (ch_end c) = ch_content c \<and> \<not> blank (ch_content c) \<and>
     gap doc (fst (snd r)) (ch_start c) \<and> gap doc (ch_end c) (snd (snd r)) \<and>
     ch_tokens c = estimate_tokens (ch_content c) \<and> ch_path c = filter (\<lambda>p. p \<noteq> []) (fst r)"

lemma emitted_cites:
  assumes "\<not> blank (strip_newlines (slice doc s e))"
  shows "cites doc (path, s, e) \<lparr>ch_ordinal = n, ch_content = strip_newlines (slice doc s e),
    ch_start = cited_at doc (strip_newlines (slice doc s e)) s e,
    ch_end = cited_at doc (strip_newlines (slice doc s e)) s e + length (strip_newlines (slice doc s e)),
    ch_tokens = estimate_tokens (strip_newlines (slice doc s e)), ch_path = filter (\<lambda>p. p \<noteq> []) path\<rparr>"
proof -
  define content where "content = strip_newlines (slice doc s e)"
  obtain u v where parts: "slice doc s e = u @ content @ v" "set u \<subseteq> {newline}" "set v \<subseteq> {newline}"
    "content \<noteq> [] \<Longrightarrow> hd content \<noteq> newline"
    using strip_newlines_parts [of "slice doc s e"] unfolding content_def by metis
  from assms have content: "content \<noteq> []" by (auto simp: content_def)
  have "drop s doc = u @ content @ (v @ drop (e - s) (drop s doc))"
    using parts(1) by (metis append.assoc append_take_drop_id slice_def)
  then have "find_sub (drop s doc) content = Some (length u)"
    using find_sub_after [OF parts(2) content parts(4) [OF content]] by simp
  moreover have "contains (slice doc s e) content" using parts(1) by (auto simp: contains_iff)
  ultimately have at: "cited_at doc content s e = s + length u" by (simp add: cited_at_def)
  have len: "length u + length content + length v = min e (length doc) - s"
    using arg_cong [OF parts(1), of length] by simp
  from content have "0 < length content" by simp
  with len have ends: "s + length u + length content \<le> e" "s + length u + length content \<le> length doc"
    "min e (length doc) = s + length u + length content + length v" by linarith+
  have whole: "slice (slice doc s e) i j = slice doc (s + i) (s + j)" if "s + j \<le> e" for i j
    using slice_slice [OF that] .
  have "slice doc (s + length u) (s + length u + length content) = content"
    using whole [of "length u + length content" "length u"] ends parts(1) by (simp add: slice_def)
  moreover have "slice doc s (s + length u) = u"
    using whole [of "length u" 0, unfolded parts(1)] ends by (simp add: slice_def)
  moreover have "slice doc (s + length u + length content) e = v"
    using whole [of "e - s" "length u + length content"] ends parts(1) by (simp add: slice_def add.assoc)
  ultimately show ?thesis
    using at ends assms newlines_blank parts(2,3)
    by (simp add: cites_def content_def [symmetric] gap_slice [symmetric])
qed

lemma emit_cites: "c \<in> set (emit doc n rows) \<Longrightarrow> \<exists>r \<in> set rows. cites doc r c"
proof (induction rows arbitrary: n)
  case (Cons r rows)
  obtain path s e where r: "r = (path, s, e)" by (cases r)
  with Cons emitted_cites [of doc s e path n] show ?case
    by (auto simp: Let_def split: if_splits)
qed simp

lemma blank_strip_newlines: "blank (strip_newlines s) \<longleftrightarrow> blank s"
proof -
  obtain u v where "s = u @ strip_newlines s @ v" "set u \<subseteq> {newline}" "set v \<subseteq> {newline}"
    using strip_newlines_parts by metis
  then show ?thesis using newlines_blank by (metis blank_append)
qed

lemma emit_complete:
  "(path, s, e) \<in> set rows \<Longrightarrow> \<not> blank (slice doc s e) \<Longrightarrow>
   \<exists>c \<in> set (emit doc n rows). cites doc (path, s, e) c"
proof (induction rows arbitrary: n)
  case (Cons r rows)
  show ?case
  proof (cases "r = (path, s, e)")
    case True
    with Cons.prems(2) emitted_cites [of doc s e path n] show ?thesis
      by (simp add: Let_def blank_strip_newlines)
  next
    case False
    with Cons have "\<exists>c \<in> set (emit doc m rows). cites doc (path, s, e) c" for m by auto
    then show ?thesis by (cases r) (auto simp: Let_def)
  qed
qed simp

lemma emit_ordinals: "map ch_ordinal (emit doc n rows) = [n..<n + length (emit doc n rows)]"
proof (induction rows arbitrary: n)
  case (Cons r rows)
  from Cons [of n] Cons [of "Suc n"] show ?case
    by (cases r) (simp add: Let_def upt_conv_Cons del: upt_Suc)
qed simp

section \<open>The chunker\<close>

lemma packed_blank: "blank doc \<Longrightarrow> packed target lap doc = []"
proof -
  assume "blank doc"
  then have "blank (slice doc s e)" for s e
    by (metis blank_append append_take_drop_id slice_def)
  then show ?thesis by (simp add: packed_def sections_def drop_blank_def)
qed

lemma packed_nonempty:
  assumes "\<not> blank doc"
  obtains path s e rows where "packed target lap doc = (path, s, e) # rows" "s < e"
proof -
  note covered = packed_cover [of lap doc target]
  from assms obtain i where "i < length doc" "\<not> is_space (doc ! i)" by (auto simp: blank_nth)
  with covers_none_lost [OF covered] have "packed target lap doc \<noteq> []" by fastforce
  with covers_ends [OF covered] that show thesis
    by (cases "packed target lap doc") (auto simp: image_iff)
qed

lemma chunk_run:
  assumes "chunk_document p doc = Some cs" and "0 < max_tokens p" "overlap_tokens p \<le> max_tokens p"
  obtains rows where "cs = emit doc 0 rows" "covers (overlap_tokens p * CHARS_PER_TOKEN) doc 0 (map snd rows) (length doc)"
    and "\<forall>(path, a, b) \<in> set rows. b - a \<le> max_tokens p * CHARS_PER_TOKEN"
proof -
  let ?lap = "overlap_tokens p * CHARS_PER_TOKEN" and ?ceiling = "max_tokens p * CHARS_PER_TOKEN"
  let ?merged = "merged (min_tokens p * CHARS_PER_TOKEN) ?ceiling"
  from assms(1) obtain out where run: "bounded ?ceiling (packed (target_tokens p * CHARS_PER_TOKEN) ?lap doc) = Some out"
    and cs: "cs = (if emit doc 0 (?merged out) = [] \<and> \<not> blank doc then whole_text doc else emit doc 0 (?merged out))"
    by (auto simp: chunk_document_def Let_def split: bind_splits)
  have ceiling: "0 < ?ceiling" "?lap \<le> ?ceiling" using assms(2,3) by (simp_all add: CHARS_PER_TOKEN_def)
  from bounded_covers [OF run ceiling packed_cover]
  have covered: "covers ?lap doc 0 (map snd out) (length doc)" and small: "\<forall>(path, a, b) \<in> set out. b - a \<le> ?ceiling"
    by auto
  have "\<not> (emit doc 0 (?merged out) = [] \<and> \<not> blank doc)"
  proof
    assume none: "emit doc 0 (?merged out) = [] \<and> \<not> blank doc"
    then obtain i where i: "i < length doc" "\<not> is_space (doc ! i)" by (auto simp: blank_nth)
    with joined_rows.none_lost [OF covered] obtain path s e where
      row: "(path, s, e) \<in> set (?merged out)" "s \<le> i" "i < e" by fastforce
    with i have "\<not> blank (slice doc s e)" by (auto simp: gap_slice gap_def)
    from emit_complete [OF row(1) this, of 0] none show False by simp
  qed
  with cs have "cs = emit doc 0 (?merged out)" by auto
  from that [OF this joined_rows.keeps [OF covered] merged_small [OF small]] show thesis .
qed

lemma chunking_ends:
  assumes "0 < max_tokens p"
  shows "\<exists>cs. chunk_document p doc = Some cs"
proof -
  have "0 < max_tokens p * CHARS_PER_TOKEN" using assms by (simp add: CHARS_PER_TOKEN_def)
  from bounded_ends [OF this] show ?thesis
    by (metis (no_types, lifting) bind.bind_lunit chunk_document_def)
qed

text \<open>
  C26. Chunking a text returns a list of chunks exactly when the ceiling is positive or there is
  nothing to cut; with a ceiling of zero the loop that cuts never ends.
\<close>

theorem chunking_ends_iff: "(\<exists>cs. chunk_document p doc = Some cs) \<longleftrightarrow> 0 < max_tokens p \<or> blank doc"
proof (cases "0 < max_tokens p")
  case True
  with chunking_ends [OF True] show ?thesis by simp
next
  case False
  show ?thesis
  proof (cases "blank doc")
    case True
    then show ?thesis by (simp add: chunk_document_def packed_blank Let_def)
  next
    case nonblank: False
    then obtain path s e rows where "packed (target_tokens p * CHARS_PER_TOKEN)
        (overlap_tokens p * CHARS_PER_TOKEN) doc = (path, s, e) # rows" "s < e"
      by (rule packed_nonempty)
    with False nonblank show ?thesis by (simp add: chunk_document_def Let_def hard_split_zero)
  qed
qed

text \<open>
  C24. A chunk cites the text it holds: reading the normalised document between the recorded offsets
  gives back its content, which is not blank, whatever the parameters; the chunks are numbered in
  order.
\<close>

theorem chunks_cite_the_text:
  assumes "chunk_document p doc = Some cs"
  shows "map ch_ordinal cs = [0..<length cs] \<and> (\<forall>c \<in> set cs. slice doc (ch_start c) (ch_end c) = ch_content c \<and>
    ch_end c = ch_start c + length (ch_content c) \<and> \<not> blank (ch_content c))"
proof -
  obtain rows where cs: "cs = emit doc 0 rows \<or> cs = whole_text doc \<and> \<not> blank doc"
    using assms by (auto simp: chunk_document_def Let_def split: bind_splits if_splits)
  then show ?thesis
  proof
    assume emitted: "cs = emit doc 0 rows"
    have "slice doc (ch_start c) (ch_end c) = ch_content c \<and> ch_end c = ch_start c + length (ch_content c) \<and>
        \<not> blank (ch_content c)" if "c \<in> set cs" for c
    proof -
      from emit_cites that emitted obtain r where c: "cites doc r c" by blast
      then have "length (ch_content c) = ch_end c - ch_start c" "ch_content c \<noteq> []"
        unfolding cites_def by (metis length_slice min_absorb1, auto)
      then have "ch_end c = ch_start c + length (ch_content c)"
        by (metis add_diff_inverse_nat diff_is_0_eq' length_0_conv nat_less_le not_less)
      with c show ?thesis by (simp add: cites_def)
    qed
    moreover have "map ch_ordinal cs = [0..<length cs]" using emit_ordinals [of doc 0 rows] emitted by simp
    ultimately show ?thesis by blast
  next
    assume whole: "cs = whole_text doc \<and> \<not> blank doc"
    obtain u v where parts: "doc = u @ strip doc @ v" "blank u" "blank v" by (rule strip_parts)
    then obtain k where "find_sub doc (strip doc) = Some k" using find_sub_complete by metis
    moreover from parts whole have "\<not> blank (strip doc)" by (metis blank_append)
    ultimately show ?thesis
      using whole find_sub_sound [of doc "strip doc" k] by (simp add: whole_text_def Let_def)
  qed
qed

text \<open>
  C25. No chunk is over the ceiling: its token estimate is at most \<open>max_tokens\<close>, for an overlap
  that is not larger than the ceiling, so nothing is left to be cut silently by the embedding provider.
\<close>

theorem chunks_fit:
  assumes "chunk_document p doc = Some cs" and "0 < max_tokens p" "overlap_tokens p \<le> max_tokens p"
    and "c \<in> set cs"
  shows "ch_tokens c = estimate_tokens (ch_content c) \<and> ch_tokens c \<le> max_tokens p"
proof -
  from chunk_run [OF assms(1-3)] obtain rows where rows: "cs = emit doc 0 rows"
    "\<forall>(path, a, b) \<in> set rows. b - a \<le> max_tokens p * CHARS_PER_TOKEN" by metis
  with emit_cites assms(4) obtain path a b where c: "cites doc (path, a, b) c" "(path, a, b) \<in> set rows"
    by (metis prod.collapse)
  from c(1) have "ch_content c = slice doc (ch_start c) (ch_end c)" "a \<le> ch_start c" "ch_end c \<le> b"
    by (simp_all add: cites_def)
  then have "length (ch_content c) \<le> b - a" by auto
  with rows(2) c(2) have "length (ch_content c) \<le> max_tokens p * CHARS_PER_TOKEN" by fastforce
  with c(1) assms(2) show ?thesis
    by (auto simp: cites_def estimate_tokens_def CHARS_PER_TOKEN_def)
qed

text \<open>
  C23. Nothing is lost: every character of the document that is not white space lies in a chunk.
\<close>

theorem chunks_cover_the_text:
  assumes "chunk_document p doc = Some cs" and "0 < max_tokens p" "overlap_tokens p \<le> max_tokens p"
    and "i < length doc" "\<not> is_space (doc ! i)"
  shows "\<exists>c \<in> set cs. ch_start c \<le> i \<and> i < ch_end c"
proof -
  from chunk_run [OF assms(1-3)] obtain rows where cs: "cs = emit doc 0 rows"
    and covered: "covers (overlap_tokens p * CHARS_PER_TOKEN) doc 0 (map snd rows) (length doc)" by metis
  from covers_none_lost [OF covered _ assms(4,4,5)] obtain path s e where
    row: "(path, s, e) \<in> set rows" "s \<le> i" "i < e" by fastforce
  with assms(4,5) have "\<not> blank (slice doc s e)" by (auto simp: gap_slice gap_def)
  from emit_complete [OF row(1) this] cs obtain c where c: "c \<in> set cs" "cites doc (path, s, e) c" by blast
  have "ch_start c \<le> i"
    using c(2) row(2) assms(4,5) by (auto simp: cites_def gap_def not_le [symmetric])
  moreover have "i < ch_end c"
    using c(2) row(3) assms(4,5) by (auto simp: cites_def gap_def not_less [symmetric])
  ultimately show ?thesis using c(1) by blast
qed

section \<open>Canonical text\<close>

lemma unify_newlines_no_cr [simp]: "CHR 0x0D \<notin> set (unify_newlines b s)"
  by (induction b s rule: unify_newlines.induct) (auto simp: newline_def)

lemma unify_newlines_id: "CHR 0x0D \<notin> set s \<Longrightarrow> unify_newlines False s = s"
  by (induction s) auto

lemma split_on_parts: "l \<in> set (split_on c s) \<Longrightarrow> set l \<subseteq> set s - {c}"
proof (induction s arbitrary: l)
  case (Cons d s)
  show ?case
  proof (cases "d = c")
    case True
    with Cons show ?thesis by auto
  next
    case False
    then have eq: "split_on c (d # s) = (d # hd (split_on c s)) # tl (split_on c s)"
      by (simp add: split_on_Cons del: split_on.simps)
    have "set (hd (split_on c s)) \<subseteq> set s - {c}" by (rule Cons.IH) simp
    moreover have "l \<in> set (tl (split_on c s)) \<Longrightarrow> set l \<subseteq> set s - {c}"
      by (rule Cons.IH) (rule list.set_sel(2) [OF split_on_nonempty])
    ultimately show ?thesis using Cons.prems False unfolding eq by auto
  qed
qed simp

lemma split_on_append:
  "split_on c (s @ c # t) = split_on c s @ split_on c t"
  by (induction s) (auto split: list.splits)

lemma split_on_none: "c \<notin> set s \<Longrightarrow> split_on c s = [s]"
  by (induction s) auto

lemma split_join: "ls \<noteq> [] \<Longrightarrow> \<forall>l \<in> set ls. newline \<notin> set l \<Longrightarrow> split_on newline (join_lines ls) = ls"
  by (induction ls rule: join_lines.induct) (simp_all add: split_on_none split_on_append)

lemma join_split: "join_lines (split_on newline s) = s"
proof (induction s)
  case (Cons c s)
  obtain l ls where "split_on newline s = l # ls" by (cases "split_on newline s") auto
  with Cons show ?case by (cases ls) auto
qed simp

lemma rstrip_rstrip [simp]: "rstrip (rstrip s) = rstrip s"
  by (simp add: rstrip_def dropWhile_idem)

lemma set_rstrip: "set (rstrip s) \<subseteq> set s"
  by (auto simp: rstrip_def dest: set_dropWhileD)

lemma split_on_strip_newlines:
  "set (split_on newline (strip_newlines s)) \<subseteq> set (split_on newline s)"
proof -
  obtain u v where parts: "s = u @ strip_newlines s @ v" "set u \<subseteq> {newline}" "set v \<subseteq> {newline}"
    using strip_newlines_parts by metis
  have "set (split_on newline t) \<subseteq> set (split_on newline (t @ v))" if "set v \<subseteq> {newline}" for t v
    using that by (cases v) (auto simp: split_on_append)
  moreover have "set (split_on newline t) \<subseteq> set (split_on newline (u @ t))" if "set u \<subseteq> {newline}" for t u
    using that by (induction u) auto
  ultimately show ?thesis using parts by (metis subset_trans)
qed

lemma strip_newlines_idem: "strip_newlines (strip_newlines s) = strip_newlines s"
proof -
  let ?P = "\<lambda>c. c = newline"
  let ?t = "strip_newlines s"
  obtain u v where "?t \<noteq> [] \<Longrightarrow> hd ?t \<noteq> newline" using strip_newlines_parts [of s] by metis
  then have "dropWhile ?P ?t = ?t" by (cases ?t) auto
  moreover have "rev (dropWhile ?P (rev ?t)) = ?t" by (simp add: strip_newlines_def dropWhile_idem)
  ultimately show ?thesis by (simp add: strip_newlines_def [of ?t])
qed

lemma normalise_text_lines:
  shows "\<forall>l \<in> set (split_on newline (normalise_text raw)). rstrip l = l" and "CHR 0x0D \<notin> set (normalise_text raw)"
proof -
  let ?ls = "map rstrip (split_on newline (unify_newlines False raw))"
  have lines: "\<forall>l \<in> set ?ls. set l \<subseteq> set (unify_newlines False raw) - {newline}"
    using split_on_parts set_rstrip by fastforce
  then have "split_on newline (join_lines ?ls) = ?ls" by (intro split_join) auto
  with split_on_strip_newlines [of "join_lines ?ls"]
  have sub: "set (split_on newline (normalise_text raw)) \<subseteq> set ?ls" by (simp add: normalise_text_def)
  then show "\<forall>l \<in> set (split_on newline (normalise_text raw)). rstrip l = l" by auto
  have "c \<in> set (join_lines ls) \<Longrightarrow> c \<noteq> newline \<Longrightarrow> \<exists>l \<in> set ls. c \<in> set l" for c ls
    by (induction ls rule: join_lines.induct) auto
  from this [of "CHR 0x0D" "split_on newline (normalise_text raw)"]
  have "CHR 0x0D \<in> set (normalise_text raw) \<Longrightarrow>
      \<exists>l \<in> set (split_on newline (normalise_text raw)). CHR 0x0D \<in> set l"
    unfolding join_split by (simp add: newline_def)
  with sub lines unify_newlines_no_cr [of False raw] show "CHR 0x0D \<notin> set (normalise_text raw)" by blast
qed

lemma normalise_text_idem: "normalise_text (normalise_text raw) = normalise_text raw"
proof -
  note lines = normalise_text_lines [of raw]
  from lines(1) have "map rstrip (split_on newline (normalise_text raw)) = split_on newline (normalise_text raw)"
    by (simp add: map_idI)
  with lines(2) have "normalise_text (normalise_text raw) = strip_newlines (normalise_text raw)"
    by (simp add: normalise_text_def [of "normalise_text raw"] unify_newlines_id join_split)
  then show ?thesis by (simp add: normalise_text_def [of raw] strip_newlines_idem)
qed

text \<open>
  What a document says, line by line, by definitions of their own: a carriage return, a line feed or the
  two together end a line, the white space at the end of a line does not count, and neither do empty
  lines before the first and after the last line with text.
\<close>

fun lines_of :: "string \<Rightarrow> string list" where
  "lines_of [] = [[]]"
| "lines_of (c # cs) =
    (if c = CHR 0x0D \<and> cs \<noteq> [] \<and> hd cs = CHR 0x0A then [] # lines_of (tl cs)
     else if c = CHR 0x0D \<or> c = CHR 0x0A then [] # lines_of cs
     else (c # hd (lines_of cs)) # tl (lines_of cs))"

definition bare :: "string \<Rightarrow> string" where
  "bare l = take (length l - length (takeWhile is_space (rev l))) l"

definition canonical_lines :: "string \<Rightarrow> string list" where
  "canonical_lines s = rev (dropWhile (\<lambda>l. l = []) (rev (dropWhile (\<lambda>l. l = []) (map bare (lines_of s)))))"

lemma bare_is_rstrip: "rstrip l = bare l"
proof -
  have "rev l = takeWhile is_space (rev l) @ dropWhile is_space (rev l)" by simp
  then have "l = rev (dropWhile is_space (rev l)) @ rev (takeWhile is_space (rev l))"
    by (metis rev_append rev_rev_ident)
  then have "bare l = rev (dropWhile is_space (rev l))"
    unfolding bare_def by (metis append_eq_conv_conj diff_add_inverse2 length_append length_rev)
  then show ?thesis by (simp add: rstrip_def)
qed

lemma lines_of_not_nil [simp]: "lines_of s \<noteq> []"
  by (induction s rule: lines_of.induct) auto

lemma lines_of_unify:
  "split_on newline (unify_newlines False s) = lines_of s"
  "split_on newline (unify_newlines True s) = (if s \<noteq> [] \<and> hd s = newline then lines_of (tl s) else lines_of s)"
proof (induction s)
  case (Cons c cs)
  { case 1 show ?case using Cons by (auto simp: newline_def split: list.splits) }
  { case 2 show ?case using Cons by (auto simp: newline_def split: list.splits) }
qed simp_all

lemma join_snoc: "join_lines (ls @ [l]) = (if ls = [] then l else join_lines ls @ newline # l)"
  by (induction ls rule: join_lines.induct) auto

lemma rev_join: "rev (join_lines ls) = join_lines (map rev (rev ls))"
proof (induction ls rule: join_lines.induct)
  case (3 l m ls)
  then show ?case using join_snoc [of "map rev (rev (m # ls))" "rev l"] by simp
qed simp_all

lemma drop_blank_front:
  "\<forall>l \<in> set ls. newline \<notin> set l \<Longrightarrow>
   dropWhile (\<lambda>c. c = newline) (join_lines ls) = join_lines (dropWhile (\<lambda>l. l = []) ls)"
proof (induction ls rule: join_lines.induct)
  case (2 l)
  then show ?case by (cases l) auto
next
  case (3 l m ls)
  then show ?case by (cases l) auto
qed simp

lemma drop_blank_ends:
  assumes "\<forall>l \<in> set ls. newline \<notin> set l"
  shows "strip_newlines (join_lines ls) =
    join_lines (rev (dropWhile (\<lambda>l. l = []) (rev (dropWhile (\<lambda>l. l = []) ls))))"
proof -
  let ?front = "dropWhile (\<lambda>l. l = []) ls"
  have "strip_newlines (join_lines ls) = rev (dropWhile (\<lambda>c. c = newline) (join_lines (map rev (rev ?front))))"
    by (simp add: strip_newlines_def drop_blank_front [OF assms] rev_join)
  also have "\<dots> = rev (join_lines (dropWhile (\<lambda>l. l = []) (map rev (rev ?front))))"
    using assms by (subst drop_blank_front) (auto dest: set_dropWhileD)
  finally show ?thesis by (simp add: rev_join dropWhile_map o_def rev_map)
qed

lemma canonical_lines_are_lines:
  "\<forall>l \<in> set (map bare (lines_of s)). newline \<notin> set l \<and> CHR 0x0D \<notin> set l \<and> bare l = l"
proof -
  have "l \<in> set (split_on newline (unify_newlines False s)) \<Longrightarrow> set l \<subseteq> set (unify_newlines False s) - {newline}" for l
    using split_on_parts by fastforce
  moreover have "CHR 0x0D \<notin> set (unify_newlines False s)" by (rule unify_newlines_no_cr)
  ultimately show ?thesis
    using set_rstrip by (fastforce simp: lines_of_unify(1) [symmetric] bare_is_rstrip [symmetric])
qed

text \<open>
  C27. The canonical form of a document is its lines joined by line feeds, whichever newlines the
  document was saved with, without the white space at the end of each and the empty lines at both
  ends; so two documents have the same canonical form, and hence the same text hash, exactly when they
  agree in those lines, and taking the canonical form again changes nothing.
\<close>

theorem normalise_text_is_canonical:
  "normalise_text raw = join_lines (canonical_lines raw) \<and>
   (normalise_text raw = normalise_text other \<longleftrightarrow> canonical_lines raw = canonical_lines other) \<and>
   normalise_text (normalise_text raw) = normalise_text raw"
proof -
  have joined: "normalise_text s = join_lines (canonical_lines s)" for s
  proof -
    have "map rstrip (split_on newline (unify_newlines False s)) = map bare (lines_of s)"
      by (simp add: lines_of_unify bare_is_rstrip)
    moreover have "\<forall>l \<in> set (map bare (lines_of s)). newline \<notin> set l"
      using canonical_lines_are_lines [of s] by blast
    ultimately show ?thesis
      unfolding normalise_text_def canonical_lines_def by (simp only: drop_blank_ends)
  qed
  have split: "split_on newline (normalise_text s) = (if canonical_lines s = [] then [[]] else canonical_lines s)" for s
  proof (cases "canonical_lines s = []")
    case False
    have "set (canonical_lines s) \<subseteq> set (map bare (lines_of s))"
      unfolding canonical_lines_def by (auto dest!: set_dropWhileD)
    then have "\<forall>l \<in> set (canonical_lines s). newline \<notin> set l"
      using canonical_lines_are_lines [of s] by blast
    from split_join [OF False this] False show ?thesis by (simp only: joined if_False)
  qed (simp add: joined)
  have blank: "canonical_lines s \<noteq> [[]]" for s
    unfolding canonical_lines_def
    by (metis (mono_tags, lifting) dropWhile_eq_Nil_conv hd_dropWhile list.sel(1) list.set_intros(1) list.simps(3)
        rev_singleton_conv set_dropWhileD)
  have "normalise_text raw = normalise_text other \<longleftrightarrow> canonical_lines raw = canonical_lines other"
    using split [of raw] split [of other] blank [of raw] blank [of other] joined [of raw] joined [of other] by metis
  moreover have "normalise_text (normalise_text raw) = normalise_text raw"
    by (rule normalise_text_idem)
  ultimately show ?thesis using joined [of raw] by blast
qed

end
