(* ===== verification/Ingest.thy ===== *)
theory Ingest
  imports Knowledge_Store Chunking_Facts
begin

text \<open>
  \<open>services/knowledge/ingest.py\<close>: the one write path into canonical knowledge.  The attempt is
  written first, in a transaction of its own; validation, the check whether anything changed and
  the screen come next; only a submission that passes the gate is cut, embedded and stored, in
  the transaction of the request.

  The result of \<open>ingest\<close> is what the caller sees together with what is committed in the end: after an
  exception the canonical rows are rolled back and the attempt stays.  Parameters: the digest, the keyed hash
  with its salt, and the embedding provider.
\<close>

section \<open>Requests and surroundings\<close>

datatype embed_reply = Vectors "vector list" | Unavailable | Broken

record ingest_env =
  en_sha256 :: "string \<Rightarrow> string"
  en_hmac :: "string \<Rightarrow> string \<Rightarrow> string"
  en_salt :: string
  en_embed :: "string list \<Rightarrow> string \<Rightarrow> embed_reply"

record ingest_request =
  iq_source :: uuid
  iq_ref :: string
  iq_title :: string
  iq_content :: string
  iq_media :: string
  iq_modified :: "int option"

record ingest_result =
  ir_attempt :: uuid
  ir_outcome :: ingest_outcome
  ir_document :: "uuid option"
  ir_version :: "uuid option"
  ir_no :: "nat option"
  ir_chunks :: nat
  ir_embedded :: nat
  ir_advisory :: nat

text \<open>\<open>len(s.encode("utf-8"))\<close> on code points below 256.\<close>

definition utf8_len :: "string \<Rightarrow> nat" where
  "utf8_len s = sum_list (map (\<lambda>c. if (of_char c :: nat) < 128 then 1 else 2) s)"

section \<open>The attempt\<close>

definition new_attempt ::
  "int \<Rightarrow> ingest_request \<Rightarrow> principal \<Rightarrow> string \<Rightarrow> string option \<Rightarrow> uuid \<Rightarrow> attempt_row" where
  "new_attempt now q who raw_hash rid new_id =
     \<lparr>ka_id = new_id, ka_source = iq_source q, ka_ref = iq_ref q, ka_document = None, ka_version = None,
      ka_raw_hash = raw_hash, ka_text_hash = None, ka_bytes = utf8_len (iq_content q), ka_media = iq_media q,
      ka_outcome = IO_PENDING, ka_by = to_audit_fields who, ka_request_id = rid, ka_chunks = None,
      ka_embedded = None, ka_blocking = 0, ka_error = None, ka_started = now, ka_finished = None\<rparr>"

definition open_attempt ::
  "int \<Rightarrow> ingest_request \<Rightarrow> principal \<Rightarrow> string \<Rightarrow> string option \<Rightarrow> knowledge \<Rightarrow> attempt_row kn_run" where
  "open_attempt now q who raw_hash rid kn = add_attempt (new_attempt now q who raw_hash rid) kn"

text \<open>The final state of an attempt, as \<open>_close_attempt\<close> assigns it.\<close>

record closing_values =
  cl_outcome :: ingest_outcome
  cl_document :: "uuid option"
  cl_version :: "uuid option"
  cl_text_hash :: "string option"
  cl_chunks :: "nat option"
  cl_embedded :: "nat option"
  cl_blocking :: nat
  cl_error :: "string option"

definition ends_as :: "ingest_outcome \<Rightarrow> closing_values" where
  "ends_as oc = \<lparr>cl_outcome = oc, cl_document = None, cl_version = None, cl_text_hash = None, cl_chunks = None,
     cl_embedded = None, cl_blocking = 0, cl_error = None\<rparr>"

definition closed_attempt :: "int \<Rightarrow> closing_values \<Rightarrow> attempt_row \<Rightarrow> attempt_row" where
  "closed_attempt now c a = a\<lparr>ka_outcome := cl_outcome c, ka_document := cl_document c,
     ka_version := cl_version c, ka_text_hash := cl_text_hash c, ka_chunks := cl_chunks c,
     ka_embedded := cl_embedded c, ka_blocking := cl_blocking c, ka_error := cl_error c,
     ka_finished := Some now\<rparr>"

definition finding_row_of :: "uuid \<Rightarrow> uuid option \<Rightarrow> finding \<Rightarrow> uuid \<Rightarrow> finding_row" where
  "finding_row_of attempt version f new_id =
     \<lparr>kf_id = new_id, kf_attempt = attempt, kf_version = version, kf_finding = f\<rparr>"

definition add_findings :: "uuid \<Rightarrow> uuid option \<Rightarrow> finding list \<Rightarrow> knowledge \<Rightarrow> acop_error + knowledge" where
  "add_findings attempt version fs kn =
     foldRes (\<lambda>k f. andThen (add_finding (finding_row_of attempt version f) k) (\<lambda>(r, k'). Inr k')) kn fs"

definition close_attempt ::
  "int \<Rightarrow> attempt_row \<Rightarrow> closing_values \<Rightarrow> finding list \<Rightarrow> knowledge \<Rightarrow> acop_error + knowledge" where
  "close_attempt now a c fs kn =
     andThen (enforce (attempt_checks kn (closed_attempt now c a))) (\<lambda>_.
     add_findings (ka_id a) (cl_version c) fs
       (kn\<lparr>kn_attempts := upd_rows (\<lambda>b. ka_id b = ka_id a) (closed_attempt now c) (kn_attempts kn)\<rparr>))"

section \<open>The gate\<close>

definition in_scope :: "uuid \<Rightarrow> string \<Rightarrow> string \<Rightarrow> disposition_row \<Rightarrow> bool" where
  "in_scope source ref raw_hash p = (kp_source p = source \<and> kp_ref p = ref \<and> kp_raw_hash p = raw_hash)"

text \<open>The judgement in force for a fingerprint: the latest one in scope.\<close>

definition judgement :: "disposition_row list \<Rightarrow> string \<Rightarrow> disposition_kind option" where
  "judgement rows fp = (case filter (\<lambda>p. kp_fingerprint p = fp) rows of
     [] \<Rightarrow> None | ps \<Rightarrow> Some (kp_kind (last ps)))"

definition scoped_dispositions :: "uuid \<Rightarrow> string \<Rightarrow> string \<Rightarrow> knowledge \<Rightarrow> disposition_row list" where
  "scoped_dispositions source ref raw_hash kn =
     sort_key kp_at (filter (in_scope source ref raw_hash) (kn_dispositions kn))"

definition is_cleared :: "uuid \<Rightarrow> string \<Rightarrow> string \<Rightarrow> knowledge \<Rightarrow> string \<Rightarrow> bool" where
  "is_cleared source ref raw_hash kn fp =
     (case judgement (scoped_dispositions source ref raw_hash kn) fp of
        None \<Rightarrow> False | Some d \<Rightarrow> d \<in> set UNBLOCKING_DISPOSITIONS)"

section \<open>Storing\<close>

definition find_document :: "ingest_request \<Rightarrow> knowledge \<Rightarrow> document_row option" where
  "find_document q kn = find (\<lambda>d. kd_source d = iq_source q \<and> kd_ref d = iq_ref q \<and> kd_state d = KL_ACTIVE)
     (kn_documents kn)"

definition current_version :: "document_row option \<Rightarrow> knowledge \<Rightarrow> version_row option" where
  "current_version d kn = (case d of None \<Rightarrow> None
   | Some r \<Rightarrow> (case kd_current r of None \<Rightarrow> None | Some v \<Rightarrow> find_row kv_id v (kn_versions kn)))"

definition new_document :: "ingest_request \<Rightarrow> uuid \<Rightarrow> document_row" where
  "new_document q new_id = \<lparr>kd_id = new_id, kd_source = iq_source q, kd_ref = iq_ref q, kd_title = iq_title q,
     kd_media = iq_media q, kd_current = None, kd_state = KL_ACTIVE, kd_retired_at = None, kd_retired_by = None\<rparr>"

definition new_version ::
  "int \<Rightarrow> ingest_request \<Rightarrow> principal \<Rightarrow> uuid \<Rightarrow> version_row option \<Rightarrow> string \<Rightarrow> string \<Rightarrow> nat \<Rightarrow> finding list \<Rightarrow>
   uuid \<Rightarrow> uuid \<Rightarrow> version_row" where
  "new_version now q who document current raw_hash text_hash chars flagged attempt new_id =
     \<lparr>kv_id = new_id, kv_document = document,
      kv_no = (case current of None \<Rightarrow> 1 | Some v \<Rightarrow> kv_no v + 1),
      kv_raw_hash = raw_hash, kv_text_hash = text_hash, kv_bytes = utf8_len (iq_content q), kv_chars = chars,
      kv_params = DEFAULT_PARAMS, kv_modified = iq_modified q, kv_ingested_at = now,
      kv_ingested_by = p_subject who, kv_supersedes = map_option kv_id current, kv_superseded_at = None,
      kv_screening = (if flagged = [] then SO_CLEAN else SO_FLAGGED), kv_attempt = attempt\<rparr>"

text \<open>\<open>_retire_embeddings_for_version\<close>, over the one dimension family there is.\<close>

definition chunks_of_version :: "uuid \<Rightarrow> knowledge \<Rightarrow> uuid list" where
  "chunks_of_version v kn = map kc_id (filter (\<lambda>c. kc_version c = v) (kn_chunks kn))"

definition retire_version_vectors :: "uuid \<Rightarrow> knowledge \<Rightarrow> knowledge" where
  "retire_version_vectors v kn = kn\<lparr>kn_vectors :=
     upd_rows (\<lambda>x. kx_chunk x \<in> set (chunks_of_version v kn)) (\<lambda>x. x\<lparr>kx_retrievable := False\<rparr>) (kn_vectors kn)\<rparr>"

definition supersede :: "int \<Rightarrow> version_row option \<Rightarrow> knowledge \<Rightarrow> knowledge" where
  "supersede now current kn = (case current of None \<Rightarrow> kn
   | Some v \<Rightarrow> retire_version_vectors (kv_id v) (kn\<lparr>kn_versions :=
       upd_rows (\<lambda>w. kv_id w = kv_id v) (\<lambda>w. w\<lparr>kv_superseded_at := Some now\<rparr>) (kn_versions kn)\<rparr>))"

definition point_document :: "uuid \<Rightarrow> uuid \<Rightarrow> string \<Rightarrow> knowledge \<Rightarrow> knowledge" where
  "point_document d v title kn = kn\<lparr>kn_documents :=
     upd_rows (\<lambda>r. kd_id r = d) (\<lambda>r. r\<lparr>kd_current := Some v, kd_title := title\<rparr>) (kn_documents kn)\<rparr>"

definition new_chunk ::
  "ingest_env \<Rightarrow> version_row \<Rightarrow> uuid \<Rightarrow> (nat \<times> nat) list \<Rightarrow> chunk \<Rightarrow> uuid \<Rightarrow> chunk_row" where
  "new_chunk en v source injections c new_id =
     \<lparr>kc_id = new_id, kc_version = kv_id v, kc_document = kv_document v, kc_source = source, kc_chunk = c,
      kc_content_hash = en_sha256 en (ch_content c), kc_label = section_label c,
      kc_injection = overlaps_range injections (ch_start c) (ch_end c)\<rparr>"

fun add_chunks ::
  "ingest_env \<Rightarrow> version_row \<Rightarrow> uuid \<Rightarrow> (nat \<times> nat) list \<Rightarrow> chunk list \<Rightarrow> knowledge \<Rightarrow> chunk_row list kn_run" where
  "add_chunks en v source injections [] kn = Inr ([], kn)"
| "add_chunks en v source injections (c # cs) kn =
     andThen (add_chunk (new_chunk en v source injections c) kn) (\<lambda>(r, kn1).
     andThen (add_chunks en v source injections cs kn1) (\<lambda>(rs, kn2). Inr (r # rs, kn2)))"

definition new_vector :: "source_row \<Rightarrow> space_row \<Rightarrow> chunk_row \<Rightarrow> vector \<Rightarrow> uuid \<Rightarrow> vector_row" where
  "new_vector s sp r x new_id =
     \<lparr>kx_id = new_id, kx_space = sp_id sp, kx_chunk = kc_id r, kx_source = ks_id s, kx_document = kc_document r,
      kx_vector = x, kx_current = True, kx_retrievable = True, kx_sensitivity = ks_sensitivity s,
      kx_tokens = ch_tokens (kc_chunk r)\<rparr>"

text \<open>\<open>zip(..., strict=True)\<close> raises when one list is shorter.\<close>

fun add_vectors ::
  "source_row \<Rightarrow> space_row \<Rightarrow> chunk_row list \<Rightarrow> vector list \<Rightarrow> knowledge \<Rightarrow> acop_error + knowledge" where
  "add_vectors s sp [] [] kn = Inr kn"
| "add_vectors s sp (r # rs) (x # xs) kn =
     andThen (add_vector (new_vector s sp r x) kn) (\<lambda>(y, kn1). add_vectors s sp rs xs kn1)"
| "add_vectors s sp _ _ kn = Inl UnhandledError"

definition persist ::
  "ingest_env \<Rightarrow> int \<Rightarrow> ingest_request \<Rightarrow> principal \<Rightarrow> attempt_row \<Rightarrow> source_row \<Rightarrow> document_row option \<Rightarrow>
   version_row option \<Rightarrow> string \<Rightarrow> string \<Rightarrow> string \<Rightarrow> chunk list \<Rightarrow> vector list \<Rightarrow> space_row \<Rightarrow> finding list \<Rightarrow>
   knowledge \<Rightarrow> (version_row \<times> chunk_row list) kn_run" where
  "persist en now q who a s document current normalised raw_hash text_hash chunks vectors sp flagged kn =
     andThen (case document of Some d \<Rightarrow> Inr (d, kn) | None \<Rightarrow> add_document (new_document q) kn) (\<lambda>(d, kn1).
     andThen (add_version (new_version now q who (kd_id d) current raw_hash text_hash (length normalised) flagged
       (ka_id a)) kn1) (\<lambda>(v, kn2).
     let kn3 = point_document (kd_id d) (kv_id v) (iq_title q) (supersede now current kn2) in
     andThen (add_chunks en v (ks_id s) (injection_ranges normalised) chunks kn3) (\<lambda>(rows, kn4).
     andThen (add_vectors s sp rows vectors kn4) (\<lambda>kn5.
     andThen (add_findings (ka_id a) (Some (kv_id v)) flagged kn5) (\<lambda>kn6.
     Inr ((v, rows), kn6))))))"

section \<open>Ingesting\<close>

definition prefix_tokens :: "space_row \<Rightarrow> nat" where
  "prefix_tokens sp = (if sp_document_prefix sp = [] then 0 else estimate_tokens (sp_document_prefix sp))"

text \<open>
  The refusal of an attempt: it is closed in its own transaction, and the error is raised; if
  closing fails, that failure is what is raised.
\<close>

definition refuse ::
  "int \<Rightarrow> attempt_row \<Rightarrow> closing_values \<Rightarrow> finding list \<Rightarrow> acop_error \<Rightarrow> knowledge \<Rightarrow>
   (acop_error + ingest_result) \<times> knowledge" where
  "refuse now a c fs e kn = (case close_attempt now a c fs kn of
     Inl e' \<Rightarrow> (Inl e', kn) | Inr kn' \<Rightarrow> (Inl e, kn'))"

definition unchanged ::
  "int \<Rightarrow> attempt_row \<Rightarrow> ingest_outcome \<Rightarrow> document_row option \<Rightarrow> version_row \<Rightarrow> string \<Rightarrow> knowledge \<Rightarrow>
   (acop_error + ingest_result) \<times> knowledge" where
  "unchanged now a oc document v text_hash kn =
     (case close_attempt now a ((ends_as oc)\<lparr>cl_document := map_option kd_id document,
         cl_text_hash := Some text_hash\<rparr>) [] kn of
       Inl e \<Rightarrow> (Inl e, kn)
     | Inr kn' \<Rightarrow> (Inr \<lparr>ir_attempt = ka_id a, ir_outcome = oc, ir_document = map_option kd_id document,
         ir_version = Some (kv_id v), ir_no = Some (kv_no v), ir_chunks = 0, ir_embedded = 0, ir_advisory = 0\<rparr>, kn'))"

definition oversize_finding :: "ingest_env \<Rightarrow> chunk \<Rightarrow> finding" where
  "oversize_finding en c = \<lparr>fi_type = OVERSIZE_INPUT, fi_severity = ADVISORY, fi_detector = ''chunk_size'',
     fi_version = DETECTOR_VERSION, fi_locator = ''chunk ordinal '' @ show_nat (ch_ordinal c),
     fi_fingerprint = en_hmac en (en_salt en) (''oversize:'' @ show_nat (ch_ordinal c))\<rparr>"

text \<open>What follows the gate: cut, check sizes, embed, store.\<close>

definition embed_and_store ::
  "ingest_env \<Rightarrow> int \<Rightarrow> ingest_request \<Rightarrow> principal \<Rightarrow> space_row \<Rightarrow> attempt_row \<Rightarrow> source_row \<Rightarrow>
   document_row option \<Rightarrow> version_row option \<Rightarrow> string \<Rightarrow> string \<Rightarrow> string \<Rightarrow> finding list \<Rightarrow> knowledge \<Rightarrow>
   (acop_error + ingest_result) \<times> knowledge" where
  "embed_and_store en now q who sp a s document current normalised raw_hash text_hash report kn =
     (case chunk_document DEFAULT_PARAMS normalised of
       None \<Rightarrow> (Inl UnhandledError, kn)
     | Some chunks \<Rightarrow>
       (let oversize = filter (\<lambda>c. sp_max_input sp < ch_tokens c + prefix_tokens sp) chunks in
        if oversize \<noteq> [] \<and> sp_truncation sp = REJECT_OVERSIZE
        then refuse now a ((ends_as IO_REJECTED_INVALID)\<lparr>cl_text_hash := Some text_hash,
            cl_chunks := Some (length chunks), cl_error := Some ''chunk_exceeds_model_input''\<rparr>)
          (report @ [oversize_finding en (hd oversize)]) ValidationError kn
        else (case en_embed en (map ch_content chunks) (sp_document_prefix sp) of
          Unavailable \<Rightarrow> refuse now a ((ends_as IO_FAILED_EMBEDDING)\<lparr>cl_text_hash := Some text_hash,
            cl_chunks := Some (length chunks), cl_error := Some ''embedding_unavailable''\<rparr>) report EmbeddingUnavailableError kn
        | Broken \<Rightarrow> (Inl UnhandledError, kn)
        | Vectors vectors \<Rightarrow>
            (case andThen (persist en now q who a s document current normalised raw_hash text_hash chunks vectors
                sp (advisory report) kn) (\<lambda>((v, rows), kn1).
              let oc = (if kv_no v = 1 then IO_CREATED else IO_VERSIONED) in
              andThen (close_attempt now a ((ends_as oc)\<lparr>cl_document := Some (kv_document v),
                  cl_version := Some (kv_id v), cl_text_hash := Some text_hash, cl_chunks := Some (length rows),
                  cl_embedded := Some (length vectors)\<rparr>) [] kn1) (\<lambda>kn2.
              Inr (\<lparr>ir_attempt = ka_id a, ir_outcome = oc, ir_document = Some (kv_document v),
                ir_version = Some (kv_id v), ir_no = Some (kv_no v), ir_chunks = length rows,
                ir_embedded = length vectors, ir_advisory = length (advisory report)\<rparr>, kn2))) of
              Inl e \<Rightarrow> (Inl e, kn)
            | Inr (r, kn') \<Rightarrow> (Inr r, kn')))))"

text \<open>The gate itself, and what stands before it.\<close>

definition gated ::
  "ingest_env \<Rightarrow> int \<Rightarrow> ingest_request \<Rightarrow> principal \<Rightarrow> space_row \<Rightarrow> attempt_row \<Rightarrow> source_row \<Rightarrow>
   document_row option \<Rightarrow> version_row option \<Rightarrow> string \<Rightarrow> string \<Rightarrow> string \<Rightarrow> knowledge \<Rightarrow>
   (acop_error + ingest_result) \<times> knowledge" where
  "gated en now q who sp a s document current normalised raw_hash text_hash kn =
     (let report = screen_document (en_hmac en) (en_salt en) normalised;
          unresolved = filter (\<lambda>f. \<not> is_cleared (iq_source q) (iq_ref q) raw_hash kn (fi_fingerprint f)) (blocking report) in
      if unresolved \<noteq> []
      then refuse now a ((ends_as IO_REJECTED_SECRET)\<lparr>cl_text_hash := Some text_hash,
          cl_blocking := length unresolved, cl_error := Some ''secret_rejected''\<rparr>) report SecretRejectedError kn
      else if sp_verified_at sp = None
      then refuse now a ((ends_as IO_REJECTED_INVALID)\<lparr>cl_text_hash := Some text_hash,
          cl_error := Some ''embedding_prefixes_unverified''\<rparr>) report ConflictError kn
      else embed_and_store en now q who sp a s document current normalised raw_hash text_hash report kn)"

definition ingest_into ::
  "ingest_env \<Rightarrow> int \<Rightarrow> ingest_request \<Rightarrow> principal \<Rightarrow> space_row \<Rightarrow> attempt_row \<Rightarrow> string \<Rightarrow> knowledge \<Rightarrow>
   (acop_error + ingest_result) \<times> knowledge" where
  "ingest_into en now q who sp a raw_hash kn =
     (let invalid = (\<lambda>code. (ends_as IO_REJECTED_INVALID)\<lparr>cl_error := Some code\<rparr>) in
      case find_row ks_id (iq_source q) (kn_sources kn) of
        None \<Rightarrow> refuse now a (invalid ''source_not_found'') [] NotFoundError kn
      | Some s \<Rightarrow>
        if ks_state s \<noteq> KL_ACTIVE then refuse now a (invalid ''source_retired'') [] ConflictError kn
        else if iq_media q \<notin> set SUPPORTED_MEDIA_TYPES
        then refuse now a (invalid ''unsupported_media_type'') [] ValidationError kn
        else if MAX_DOCUMENT_BYTES < utf8_len (iq_content q)
        then refuse now a (invalid ''document_too_large'') [] ValidationError kn
        else (let document = find_document q kn; current = current_version document kn;
                  normalised = normalise_text (iq_content q); text_hash = en_sha256 en normalised in
          case current of
            None \<Rightarrow> gated en now q who sp a s document None normalised raw_hash text_hash kn
          | Some v \<Rightarrow>
              if kv_raw_hash v = raw_hash then unchanged now a IO_UNCHANGED document v (kv_text_hash v) kn
              else if kv_text_hash v = text_hash then unchanged now a IO_UNCHANGED_TEXT document v text_hash kn
              else gated en now q who sp a s document (Some v) normalised raw_hash text_hash kn))"

definition ingest ::
  "ingest_env \<Rightarrow> int \<Rightarrow> ingest_request \<Rightarrow> principal \<Rightarrow> space_row \<Rightarrow> string option \<Rightarrow> knowledge \<Rightarrow>
   (acop_error + ingest_result) \<times> knowledge" where
  "ingest en now q who sp rid kn = (let raw_hash = en_sha256 en (iq_content q) in
     case open_attempt now q who raw_hash rid kn of
       Inl e \<Rightarrow> (Inl e, kn)
     | Inr (a, kn1) \<Rightarrow> ingest_into en now q who sp a raw_hash kn1)"

end
