(* ===== verification/Knowledge_Catalog.thy ===== *)
theory Knowledge_Catalog
  imports Ingest Authentication
begin

text \<open>
  \<open>services/knowledge/catalog.py\<close> and \<open>services/knowledge/spaces.py\<close>: the life of sources, documents
  and embedding spaces outside ingestion, and an approver's judgement about a finding.  There is one
  family of vector tables, for 768 dimensions; a dimension without a family raises \<open>KeyError\<close>.  Rows are kept in
  the order of their creation, so the descending order of a list is the reversed table.  Of the partition
  and the indexes a space gets in the database only the names are modelled; columns nothing reads (\<open>uri\<close>,
  \<open>origin\<close>, metadata) are left out.
\<close>

section \<open>Families of vectors\<close>

definition embedding_model_for :: "nat \<Rightarrow> acop_error + unit" where
  "embedding_model_for n = require (n = D768) LookupError"

text \<open>Every dimension of a registered space, each looked up before its rows are touched.\<close>

definition families :: "knowledge \<Rightarrow> acop_error + nat list" where
  "families kn = (let ds = remdups (map sp_dimensions (kn_spaces kn)) in
     andThen (foldRes (\<lambda>u d. embedding_model_for d) () ds) (\<lambda>_. Inr ds))"

text \<open>\<open>_retire_vectors\<close>, for the chunks that satisfy a predicate.\<close>

definition retire_vectors :: "(chunk_row \<Rightarrow> bool) \<Rightarrow> knowledge \<Rightarrow> nat kn_run" where
  "retire_vectors p kn = andThen (families kn) (\<lambda>ds.
     let hit = (\<lambda>x. ds \<noteq> [] \<and> kx_chunk x \<in> set (map kc_id (filter p (kn_chunks kn))) \<and> kx_retrievable x) in
     Inr (length (filter hit (kn_vectors kn)),
       kn\<lparr>kn_vectors := upd_rows hit (\<lambda>x. x\<lparr>kx_retrievable := False\<rparr>) (kn_vectors kn)\<rparr>))"

definition resync_source_sensitivity :: "uuid \<Rightarrow> knowledge \<Rightarrow> nat kn_run" where
  "resync_source_sensitivity i kn = (case find_row ks_id i (kn_sources kn) of
     None \<Rightarrow> Inl NotFoundError
   | Some s \<Rightarrow> andThen (families kn) (\<lambda>ds.
     let hit = (\<lambda>x. ds \<noteq> [] \<and> kx_chunk x \<in> set (map kc_id (filter (\<lambda>c. kc_source c = i) (kn_chunks kn))) \<and>
           kx_sensitivity x \<noteq> ks_sensitivity s) in
     Inr (length (filter hit (kn_vectors kn)),
       kn\<lparr>kn_vectors := upd_rows hit (\<lambda>x. x\<lparr>kx_sensitivity := ks_sensitivity s\<rparr>) (kn_vectors kn)\<rparr>)))"

section \<open>Sources\<close>

record source_registration =
  sr_kind :: string
  sr_title :: string
  sr_trust :: trust_class
  sr_sensitivity :: sensitivity

definition guard_trust :: "trust_class \<Rightarrow> principal \<Rightarrow> acop_error + unit" where
  "guard_trust t who = require (\<not> (t \<in> set APPROVER_ONLY_TRUST \<and>
     \<not> has_any_role who [role_value APPROVER, role_value ADMIN])) AuthorizationError"

definition create_source :: "source_registration \<Rightarrow> principal \<Rightarrow> knowledge \<Rightarrow> source_row kn_run" where
  "create_source r who kn = andThen (guard_trust (sr_trust r) who) (\<lambda>_.
     add_source (\<lambda>i. \<lparr>ks_id = i, ks_kind = sr_kind r, ks_title = sr_title r, ks_trust = sr_trust r,
       ks_sensitivity = sr_sensitivity r, ks_state = KL_ACTIVE, ks_retired_at = None, ks_retired_by = None\<rparr>) kn)"

definition get_source :: "uuid \<Rightarrow> knowledge \<Rightarrow> acop_error + source_row" where
  "get_source i kn = (case find_row ks_id i (kn_sources kn) of None \<Rightarrow> Inl NotFoundError | Some s \<Rightarrow> Inr s)"

definition page :: "nat \<Rightarrow> nat \<Rightarrow> 'r list \<Rightarrow> 'r list" where
  "page limit offset rows = take limit (drop offset rows)"

definition list_sources :: "string option \<Rightarrow> bool \<Rightarrow> nat \<Rightarrow> nat \<Rightarrow> knowledge \<Rightarrow> source_row list" where
  "list_sources kind retired limit offset kn = page limit offset (rev (filter (\<lambda>s.
     (case kind of None \<Rightarrow> True | Some k \<Rightarrow> k = [] \<or> ks_kind s = k) \<and> (retired \<or> ks_state s = KL_ACTIVE))
     (kn_sources kn)))"

definition put_source :: "source_row \<Rightarrow> knowledge \<Rightarrow> acop_error + knowledge" where
  "put_source s kn = andThen (enforce (source_checks s)) (\<lambda>_.
     Inr (kn\<lparr>kn_sources := upd_rows (\<lambda>r. ks_id r = ks_id s) (\<lambda>r. s) (kn_sources kn)\<rparr>))"

definition reclassify_source ::
  "uuid \<Rightarrow> principal \<Rightarrow> trust_class option \<Rightarrow> sensitivity option \<Rightarrow> knowledge \<Rightarrow> (source_row \<times> nat) kn_run" where
  "reclassify_source i who t c kn =
     andThen (require (\<not> (t = None \<and> c = None)) ValidationError) (\<lambda>_.
     andThen (get_source i kn) (\<lambda>s.
     andThen (case t of None \<Rightarrow> Inr s | Some t' \<Rightarrow>
       andThen (guard_trust t' who) (\<lambda>_. Inr (s\<lparr>ks_trust := t'\<rparr>))) (\<lambda>s1.
     if c \<noteq> None \<and> c \<noteq> Some (ks_sensitivity s)
     then (let s2 = s1\<lparr>ks_sensitivity := the c\<rparr> in
       andThen (put_source s2 kn) (\<lambda>kn1.
       andThen (resync_source_sensitivity i kn1) (\<lambda>(n, kn2). Inr ((s2, n), kn2))))
     else andThen (put_source s1 kn) (\<lambda>kn1. Inr ((s1, 0), kn1)))))"

definition retire_source :: "int \<Rightarrow> uuid \<Rightarrow> principal \<Rightarrow> knowledge \<Rightarrow> (source_row \<times> nat) kn_run" where
  "retire_source now i who kn =
     andThen (get_source i kn) (\<lambda>s.
     andThen (require (ks_state s \<noteq> KL_RETIRED) ConflictError) (\<lambda>_.
     let s1 = s\<lparr>ks_state := KL_RETIRED, ks_retired_at := Some now, ks_retired_by := Some (p_subject who)\<rparr> in
     andThen (put_source s1 kn) (\<lambda>kn1.
     andThen (retire_vectors (\<lambda>c. kc_source c = i) kn1) (\<lambda>(n, kn2). Inr ((s1, n), kn2)))))"

section \<open>Documents\<close>

definition get_document :: "uuid \<Rightarrow> knowledge \<Rightarrow> acop_error + document_row" where
  "get_document i kn = (case find_row kd_id i (kn_documents kn) of None \<Rightarrow> Inl NotFoundError | Some d \<Rightarrow> Inr d)"

definition list_documents :: "uuid option \<Rightarrow> bool \<Rightarrow> nat \<Rightarrow> nat \<Rightarrow> knowledge \<Rightarrow> document_row list" where
  "list_documents source retired limit offset kn = page limit offset (rev (filter (\<lambda>d.
     (case source of None \<Rightarrow> True | Some i \<Rightarrow> kd_source d = i) \<and> (retired \<or> kd_state d = KL_ACTIVE))
     (kn_documents kn)))"

definition list_versions :: "uuid \<Rightarrow> knowledge \<Rightarrow> acop_error + version_row list" where
  "list_versions i kn = andThen (get_document i kn) (\<lambda>_.
     Inr (rev (sort_key kv_no (filter (\<lambda>v. kv_document v = i) (kn_versions kn)))))"

definition list_chunks :: "uuid \<Rightarrow> knowledge \<Rightarrow> acop_error + chunk_row list" where
  "list_chunks i kn =
     (let rows = sort_key (\<lambda>c. ch_ordinal (kc_chunk c)) (filter (\<lambda>c. kc_version c = i) (kn_chunks kn)) in
      if rows = [] then Inl NotFoundError else Inr rows)"

definition put_document :: "document_row \<Rightarrow> knowledge \<Rightarrow> acop_error + knowledge" where
  "put_document d kn = andThen (enforce (document_checks kn d)) (\<lambda>_.
     Inr (kn\<lparr>kn_documents := upd_rows (\<lambda>r. kd_id r = kd_id d) (\<lambda>r. d) (kn_documents kn)\<rparr>))"

definition retire_document :: "int \<Rightarrow> uuid \<Rightarrow> principal \<Rightarrow> knowledge \<Rightarrow> (document_row \<times> nat) kn_run" where
  "retire_document now i who kn =
     andThen (get_document i kn) (\<lambda>d.
     andThen (require (kd_state d \<noteq> KL_RETIRED) ConflictError) (\<lambda>_.
     let d1 = d\<lparr>kd_state := KL_RETIRED, kd_retired_at := Some now, kd_retired_by := Some (p_subject who)\<rparr> in
     andThen (put_document d1 kn) (\<lambda>kn1.
     andThen (retire_vectors (\<lambda>c. kc_document c = i) kn1) (\<lambda>(n, kn2). Inr ((d1, n), kn2)))))"

section \<open>Attempts, findings, judgements\<close>

definition list_attempts ::
  "uuid option \<Rightarrow> string option \<Rightarrow> ingest_outcome option \<Rightarrow> nat \<Rightarrow> nat \<Rightarrow> knowledge \<Rightarrow> attempt_row list" where
  "list_attempts source ref oc limit offset kn = page limit offset (rev (sort_key ka_started (filter (\<lambda>a.
     (case source of None \<Rightarrow> True | Some i \<Rightarrow> ka_source a = i) \<and>
     (case ref of None \<Rightarrow> True | Some r \<Rightarrow> r = [] \<or> ka_ref a = r) \<and>
     (case oc of None \<Rightarrow> True | Some c \<Rightarrow> ka_outcome a = c)) (kn_attempts kn))))"

definition get_attempt :: "uuid \<Rightarrow> knowledge \<Rightarrow> acop_error + attempt_row \<times> finding_row list" where
  "get_attempt i kn = (case find_row ka_id i (kn_attempts kn) of
     None \<Rightarrow> Inl NotFoundError
   | Some a \<Rightarrow> Inr (a, filter (\<lambda>f. kf_attempt f = i) (kn_findings kn)))"

definition record_disposition ::
  "int \<Rightarrow> uuid \<Rightarrow> principal \<Rightarrow> disposition_kind \<Rightarrow> string \<Rightarrow> knowledge \<Rightarrow> disposition_row kn_run" where
  "record_disposition now i who k reason kn = (case find_row kf_id i (kn_findings kn) of
     None \<Rightarrow> Inl NotFoundError
   | Some f \<Rightarrow> (case find_row ka_id (kf_attempt f) (kn_attempts kn) of
       None \<Rightarrow> Inl NotFoundError
     | Some a \<Rightarrow> add_disposition (\<lambda>n. \<lparr>kp_id = n, kp_source = ka_source a, kp_ref = ka_ref a,
         kp_raw_hash = ka_raw_hash a, kp_fingerprint = fi_fingerprint (kf_finding f),
         kp_detector = fi_detector (kf_finding f), kp_kind = k, kp_reason = reason, kp_by = p_subject who,
         kp_attempt = ka_id a, kp_at = now\<rparr>) kn))"

section \<open>Embedding spaces\<close>

record space_registration =
  rg_key :: string
  rg_provider :: string
  rg_model :: string
  rg_digest :: "string option"
  rg_dimensions :: int
  rg_normalize :: bool
  rg_document_prefix :: string
  rg_query_prefix :: string
  rg_max_input :: nat
  rg_truncation :: truncation_policy
  rg_make_default :: bool

definition default_space :: "knowledge \<Rightarrow> acop_error + space_row" where
  "default_space kn = (case find sp_default (kn_spaces kn) of None \<Rightarrow> Inl NotFoundError | Some s \<Rightarrow> Inr s)"

definition get_space :: "uuid \<Rightarrow> knowledge \<Rightarrow> acop_error + space_row" where
  "get_space i kn = (case find_row sp_id i (kn_spaces kn) of None \<Rightarrow> Inl NotFoundError | Some s \<Rightarrow> Inr s)"

definition by_key :: "string \<Rightarrow> knowledge \<Rightarrow> space_row option" where
  "by_key k kn = find (\<lambda>s. sp_key s = k) (kn_spaces kn)"

text \<open>The names of the partition and of its two indexes; \<open>s[:n]\<close> is \<open>take n s\<close>.\<close>

definition parent_relation :: "nat \<Rightarrow> string" where
  "parent_relation n = ''knowledge_embedding_d'' @ show_nat n"

definition partition_relation :: "nat \<Rightarrow> string \<Rightarrow> acop_error + string" where
  "partition_relation n key = (if matches_space_key key then Inr (parent_relation n @ ''_'' @ key) else Inl UnhandledError)"

definition ann_index :: "string \<Rightarrow> string" where
  "ann_index name = ''ix_'' @ take 52 name @ ''_ann''"

definition eligible_index :: "string \<Rightarrow> string" where
  "eligible_index name = ''ix_'' @ take 47 name @ ''_eligible''"

text \<open>
  The statement clears the flag in the database behind the back of the loaded object, whose
  assignment then counts as a change only if the object was loaded without the flag.
\<close>

definition set_default :: "uuid \<Rightarrow> knowledge \<Rightarrow> space_row kn_run" where
  "set_default i kn = andThen (get_space i kn) (\<lambda>s.
     let cleared = upd_rows sp_default (\<lambda>t. t\<lparr>sp_default := False\<rparr>) (kn_spaces kn) in
     Inr (s\<lparr>sp_default := True\<rparr>,
       kn\<lparr>kn_spaces := (if sp_default s then cleared
          else upd_rows (\<lambda>t. sp_id t = i) (\<lambda>t. t\<lparr>sp_default := True\<rparr>) cleared)\<rparr>))"

definition new_space :: "space_registration \<Rightarrow> uuid \<Rightarrow> space_row" where
  "new_space r new_id = \<lparr>sp_id = new_id, sp_key = rg_key r, sp_provider = rg_provider r, sp_model = rg_model r,
     sp_digest = rg_digest r, sp_dimensions = nat (rg_dimensions r), sp_normalize = rg_normalize r,
     sp_document_prefix = rg_document_prefix r, sp_query_prefix = rg_query_prefix r, sp_verified_at = None,
     sp_verified_by = None, sp_max_input = rg_max_input r, sp_truncation = rg_truncation r, sp_default = False\<rparr>"

definition register_space :: "space_registration \<Rightarrow> knowledge \<Rightarrow> space_row kn_run" where
  "register_space r kn =
     andThen (require (matches_space_key (rg_key r)) ValidationError) (\<lambda>_.
     andThen (require (1 \<le> rg_dimensions r \<and> rg_dimensions r \<le> int MAX_INDEXABLE_DIMENSIONS) ValidationError) (\<lambda>_.
     andThen (embedding_model_for (nat (rg_dimensions r))) (\<lambda>_.
     andThen (require (by_key (rg_key r) kn = None) ConflictError) (\<lambda>_.
     andThen (partition_relation (nat (rg_dimensions r)) (rg_key r)) (\<lambda>_.
     andThen (add_space (new_space r) kn) (\<lambda>(s, kn1).
     if rg_make_default r then set_default (sp_id s) kn1 else Inr (s, kn1)))))))"

definition mark_prefixes_verified :: "int \<Rightarrow> uuid \<Rightarrow> string \<Rightarrow> knowledge \<Rightarrow> space_row kn_run" where
  "mark_prefixes_verified now i subject kn = andThen (get_space i kn) (\<lambda>s.
     let mark = (\<lambda>t. t\<lparr>sp_verified_at := Some now, sp_verified_by := Some subject\<rparr>) in
     Inr (mark s, kn\<lparr>kn_spaces := upd_rows (\<lambda>t. sp_id t = i) mark (kn_spaces kn)\<rparr>))"

end
