(* ===== verification/Ingest_Facts.thy ===== *)
theory Ingest_Facts
  imports Ingest
begin

text \<open>
  What the ingestion gate promises.  Every write of the service is characterised once by its
  effect on the tables; a submission is then a refusal, which leaves the canonical tables alone, or
  a stored version, whose rows are known.
\<close>

section \<open>Writes\<close>

named_theorems write_simps "what one insert does to the tables"

lemma knows_None [simp]: "knows key rows None"
  by (simp add: knows_def)

lemma write_effects [write_simps]:
  "add_document md kn = Inr (d, kn') \<longleftrightarrow> d = md (kn_next kn) \<and> (\<forall>c \<in> set (document_checks kn d). snd c) \<and>
     kn' = kn\<lparr>kn_documents := kn_documents kn @ [d], kn_next := Suc (kn_next kn)\<rparr>"
  "add_version mv kn = Inr (v, kn') \<longleftrightarrow> v = mv (kn_next kn) \<and> (\<forall>c \<in> set (version_checks kn v). snd c) \<and>
     kn' = kn\<lparr>kn_versions := kn_versions kn @ [v], kn_next := Suc (kn_next kn)\<rparr>"
  "add_chunk mc kn = Inr (c, kn') \<longleftrightarrow> c = mc (kn_next kn) \<and> (\<forall>b \<in> set (chunk_checks kn c). snd b) \<and>
     kn' = kn\<lparr>kn_chunks := kn_chunks kn @ [c], kn_next := Suc (kn_next kn)\<rparr>"
  "add_vector mx kn = Inr (x, kn') \<longleftrightarrow> x = mx (kn_next kn) \<and> (\<forall>c \<in> set (vector_checks kn x). snd c) \<and>
     kn' = kn\<lparr>kn_vectors := kn_vectors kn @ [x], kn_next := Suc (kn_next kn)\<rparr>"
  "add_attempt ma kn = Inr (a, kn') \<longleftrightarrow> a = ma (kn_next kn) \<and> (\<forall>c \<in> set (attempt_checks kn a). snd c) \<and>
     kn' = kn\<lparr>kn_attempts := kn_attempts kn @ [a], kn_next := Suc (kn_next kn)\<rparr>"
  "add_finding mf kn = Inr (f, kn') \<longleftrightarrow> f = mf (kn_next kn) \<and> (\<forall>c \<in> set (finding_checks kn f). snd c) \<and>
     kn' = kn\<lparr>kn_findings := kn_findings kn @ [f], kn_next := Suc (kn_next kn)\<rparr>"
  by (auto simp: add_defs Let_def res_simps)

lemma add_findings_run:
  assumes "add_findings a v fs kn = Inr kn'"
  shows "\<exists>rows n. kn' = kn\<lparr>kn_findings := kn_findings kn @ rows, kn_next := n\<rparr> \<and>
    map kf_finding rows = fs \<and> (\<forall>f \<in> set rows. kf_attempt f = a \<and> kf_version f = v \<and> kf_id f < n) \<and>
    kn_next kn \<le> n"
  using assms
proof (induction fs arbitrary: kn)
  case Nil
  then show ?case by (intro exI [of _ "[]"] exI [of _ "kn_next kn"]) (simp add: add_findings_def)
next
  case (Cons f fs)
  let ?r = "finding_row_of a v f (kn_next kn)"
  from Cons.prems have "add_findings a v fs
      (kn\<lparr>kn_findings := kn_findings kn @ [?r], kn_next := Suc (kn_next kn)\<rparr>) = Inr kn'"
    by (auto simp: add_findings_def res_simps write_simps)
  from Cons.IH [OF this] obtain rows n where
    "kn' = kn\<lparr>kn_findings := kn_findings kn @ ?r # rows, kn_next := n\<rparr>" "map kf_finding rows = fs"
    "\<forall>f \<in> set rows. kf_attempt f = a \<and> kf_version f = v \<and> kf_id f < n" "Suc (kn_next kn) \<le> n"
    by auto
  then show ?case
    by (intro exI [of _ "?r # rows"] exI [of _ n]) (simp add: finding_row_of_def)
qed

lemma add_findings_frame:
  assumes "add_findings a v fs kn = Inr kn'"
  shows "kn_sources kn' = kn_sources kn" "kn_documents kn' = kn_documents kn" "kn_versions kn' = kn_versions kn"
    "kn_chunks kn' = kn_chunks kn" "kn_vectors kn' = kn_vectors kn" "kn_spaces kn' = kn_spaces kn"
    "kn_attempts kn' = kn_attempts kn" "kn_dispositions kn' = kn_dispositions kn" "kn_next kn \<le> kn_next kn'"
  using add_findings_run [OF assms] by auto

lemma close_attempt_frame:
  assumes "close_attempt now a c fs kn = Inr kn'"
  shows "kn_sources kn' = kn_sources kn" "kn_documents kn' = kn_documents kn" "kn_versions kn' = kn_versions kn"
    "kn_chunks kn' = kn_chunks kn" "kn_vectors kn' = kn_vectors kn" "kn_spaces kn' = kn_spaces kn"
    "kn_dispositions kn' = kn_dispositions kn" "kn_next kn \<le> kn_next kn'"
    "kn_attempts kn' = upd_rows (\<lambda>b. ka_id b = ka_id a) (closed_attempt now c) (kn_attempts kn)"
    "\<exists>rows. kn_findings kn' = kn_findings kn @ rows \<and> map kf_finding rows = fs \<and>
       (\<forall>f \<in> set rows. kf_attempt f = ka_id a \<and> kf_id f < kn_next kn')"
proof -
  from assms have run: "add_findings (ka_id a) (cl_version c) fs
      (kn\<lparr>kn_attempts := upd_rows (\<lambda>b. ka_id b = ka_id a) (closed_attempt now c) (kn_attempts kn)\<rparr>) = Inr kn'"
    by (simp add: close_attempt_def res_simps)
  note frame = add_findings_frame [OF run]
  show "kn_sources kn' = kn_sources kn" "kn_documents kn' = kn_documents kn" "kn_versions kn' = kn_versions kn"
    "kn_chunks kn' = kn_chunks kn" "kn_vectors kn' = kn_vectors kn" "kn_spaces kn' = kn_spaces kn"
    "kn_dispositions kn' = kn_dispositions kn" "kn_next kn \<le> kn_next kn'"
    "kn_attempts kn' = upd_rows (\<lambda>b. ka_id b = ka_id a) (closed_attempt now c) (kn_attempts kn)"
    using frame by simp_all
  from add_findings_run [OF run] obtain rows n where
    "kn' = kn\<lparr>kn_attempts := upd_rows (\<lambda>b. ka_id b = ka_id a) (closed_attempt now c) (kn_attempts kn),
       kn_findings := kn_findings kn @ rows, kn_next := n\<rparr>" "map kf_finding rows = fs"
    "\<forall>f \<in> set rows. kf_attempt f = ka_id a \<and> kf_id f < n" by auto
  then show "\<exists>rows. kn_findings kn' = kn_findings kn @ rows \<and> map kf_finding rows = fs \<and>
       (\<forall>f \<in> set rows. kf_attempt f = ka_id a \<and> kf_id f < kn_next kn')" by auto
qed

lemma add_chunks_run:
  assumes "add_chunks en v src marks cs kn = Inr (rs, kn')"
  shows "kn' = kn\<lparr>kn_chunks := kn_chunks kn @ rs, kn_next := kn_next kn + length cs\<rparr> \<and>
    rs = map (\<lambda>(c, i). new_chunk en v src marks c i) (zip cs [kn_next kn..<kn_next kn + length cs])"
  using assms
proof (induction cs arbitrary: kn rs)
  case (Cons c cs)
  let ?r = "new_chunk en v src marks c (kn_next kn)"
  from Cons.prems obtain rs' where rs: "rs = ?r # rs'" and
    "add_chunks en v src marks cs (kn\<lparr>kn_chunks := kn_chunks kn @ [?r], kn_next := Suc (kn_next kn)\<rparr>) = Inr (rs', kn')"
    by (auto simp: res_simps write_simps)
  from Cons.IH [OF this(2)] rs show ?case by (simp add: upt_rec [of "kn_next kn"] del: upt_Suc)
qed simp

lemma add_vectors_run:
  assumes "add_vectors s sp rs xs kn = Inr kn'"
  shows "\<exists>vs. kn' = kn\<lparr>kn_vectors := kn_vectors kn @ vs, kn_next := kn_next kn + length rs\<rparr> \<and>
    length xs = length rs \<and> length vs = length rs \<and>
    (\<forall>i < length rs. vs ! i = new_vector s sp (rs ! i) (xs ! i) (kn_next kn + i) \<and> length (xs ! i) = D768)"
  using assms
proof (induction s sp rs xs kn rule: add_vectors.induct)
  case (2 s sp r rs x xs kn)
  let ?v = "new_vector s sp r x (kn_next kn)"
  let ?kn = "kn\<lparr>kn_vectors := kn_vectors kn @ [?v], kn_next := Suc (kn_next kn)\<rparr>"
  from "2.prems" have added: "add_vector (new_vector s sp r x) kn = Inr (?v, ?kn)" and
    rest: "add_vectors s sp rs xs ?kn = Inr kn'" and "length x = D768"
    by (auto simp: res_simps write_simps vector_checks_def new_vector_def)
  from "2.IH" [OF rest] obtain vs where vs:
    "kn' = kn\<lparr>kn_vectors := kn_vectors kn @ ?v # vs, kn_next := Suc (kn_next kn) + length rs\<rparr>"
    "length xs = length rs" "length vs = length rs"
    "\<forall>i < length rs. vs ! i = new_vector s sp (rs ! i) (xs ! i) (Suc (kn_next kn) + i) \<and> length (xs ! i) = D768"
    by auto
  then show ?case
    using \<open>length x = D768\<close>
    by (intro exI [of _ "?v # vs"]) (auto simp: nth_Cons less_Suc_eq_0_disj split: nat.splits)
qed auto

section \<open>Storing a version\<close>

definition superseded_versions :: "int \<Rightarrow> version_row option \<Rightarrow> version_row list \<Rightarrow> version_row list" where
  "superseded_versions now current rows = (case current of None \<Rightarrow> rows
   | Some v \<Rightarrow> upd_rows (\<lambda>w. kv_id w = kv_id v) (\<lambda>w. w\<lparr>kv_superseded_at := Some now\<rparr>) rows)"

definition retired_vectors :: "version_row option \<Rightarrow> knowledge \<Rightarrow> vector_row list" where
  "retired_vectors current kn = (case current of None \<Rightarrow> kn_vectors kn
   | Some v \<Rightarrow> upd_rows (\<lambda>x. kx_chunk x \<in> set (chunks_of_version (kv_id v) kn))
       (\<lambda>x. x\<lparr>kx_retrievable := False\<rparr>) (kn_vectors kn))"

lemma supersede_fields:
  "supersede now current kn = kn\<lparr>kn_versions := superseded_versions now current (kn_versions kn),
     kn_vectors := retired_vectors current kn\<rparr>"
  by (simp add: supersede_def superseded_versions_def retired_vectors_def retire_version_vectors_def
      chunks_of_version_def split: option.splits)

text \<open>Everything a successful \<open>persist\<close> did.\<close>

definition stored_as ::
  "ingest_env \<Rightarrow> int \<Rightarrow> ingest_request \<Rightarrow> document_row option \<Rightarrow> version_row option \<Rightarrow> string \<Rightarrow> chunk list \<Rightarrow>
   vector list \<Rightarrow> space_row \<Rightarrow> source_row \<Rightarrow> version_row \<Rightarrow> chunk_row list \<Rightarrow> knowledge \<Rightarrow> knowledge \<Rightarrow> bool" where
  "stored_as en now q document current normalised chunks vectors sp s v rows kn kn' \<longleftrightarrow>
     kn_sources kn' = kn_sources kn \<and> kn_spaces kn' = kn_spaces kn \<and> kn_attempts kn' = kn_attempts kn \<and>
     kn_dispositions kn' = kn_dispositions kn \<and> kn_next kn \<le> kn_next kn' \<and>
     kv_document v = (case document of None \<Rightarrow> kn_next kn | Some d \<Rightarrow> kd_id d) \<and>
     kn_documents kn' = upd_rows (\<lambda>r. kd_id r = kv_document v)
       (\<lambda>r. r\<lparr>kd_current := Some (kv_id v), kd_title := iq_title q\<rparr>)
       (kn_documents kn @ (case document of None \<Rightarrow> [new_document q (kn_next kn)] | Some d \<Rightarrow> [])) \<and>
     kn_versions kn' = superseded_versions now current (kn_versions kn @ [v]) \<and>
     kn_chunks kn' = kn_chunks kn @ rows \<and> map kc_chunk rows = chunks \<and>
     (\<forall>i < length rows. rows ! i = new_chunk en v (ks_id s) (injection_ranges normalised) (chunks ! i)
        (kc_id (rows ! i)) \<and> kc_id (rows ! i) = Suc (kv_id v) + i) \<and>
     (\<exists>vs. kn_vectors kn' = retired_vectors current kn @ vs \<and> length vs = length rows \<and> length vectors = length rows \<and>
        (\<forall>i < length rows. vs ! i = new_vector s sp (rows ! i) (vectors ! i) (kx_id (vs ! i)) \<and>
           kx_id (vs ! i) = Suc (kv_id v) + length rows + i \<and> length (vectors ! i) = D768)) \<and>
     Suc (kv_id v) + 2 * length rows \<le> kn_next kn' \<and> kn_next kn \<le> kv_id v \<and>
     (document = None \<longrightarrow> kv_id v = Suc (kn_next kn)) \<and> (document \<noteq> None \<longrightarrow> kv_id v = kn_next kn)"


lemma persist_run:
  assumes "persist en now q who a s document current normalised raw_hash text_hash chunks vectors sp flagged kn =
    Inr ((v, rows), kn')"
  shows "stored_as en now q document current normalised chunks vectors sp s v rows kn kn' \<and>
    v = new_version now q who (kv_document v) current raw_hash text_hash (length normalised) flagged (ka_id a) (kv_id v) \<and>
    (\<exists>fr. kn_findings kn' = kn_findings kn @ fr \<and> map kf_finding fr = flagged \<and>
       (\<forall>f \<in> set fr. kf_attempt f = ka_id a \<and> kf_version f = Some (kv_id v) \<and> kf_id f < kn_next kn'))"
proof -
  let ?did = "case document of None \<Rightarrow> kn_next kn | Some d \<Rightarrow> kd_id d"
  let ?n1 = "case document of None \<Rightarrow> Suc (kn_next kn) | Some d \<Rightarrow> kn_next kn"
  let ?docs = "kn_documents kn @ (case document of None \<Rightarrow> [new_document q (kn_next kn)] | Some d \<Rightarrow> [])"
  let ?kn1 = "kn\<lparr>kn_documents := ?docs, kn_next := ?n1\<rparr>"
  let ?v = "new_version now q who ?did current raw_hash text_hash (length normalised) flagged (ka_id a) ?n1"
  from assms obtain d kn1 kn2 kn4 kn5 where
    d: "(case document of Some d \<Rightarrow> Inr (d, kn) | None \<Rightarrow> add_document (new_document q) kn) = Inr (d, kn1)" and
    v: "add_version (new_version now q who (kd_id d) current raw_hash text_hash (length normalised) flagged (ka_id a)) kn1
      = Inr (v, kn2)" and
    rows: "add_chunks en v (ks_id s) (injection_ranges normalised) chunks
      (point_document (kd_id d) (kv_id v) (iq_title q) (supersede now current kn2)) = Inr (rows, kn4)" and
    vectors: "add_vectors s sp rows vectors kn4 = Inr kn5" and
    findings: "add_findings (ka_id a) (Some (kv_id v)) flagged kn5 = Inr kn'"
    by (auto simp: persist_def res_simps Let_def)
  from d have 1: "kd_id d = ?did" "kn1 = ?kn1"
    by (auto simp: write_simps new_document_def split: option.splits)
  have "v = ?v \<and> kn2 = kn1\<lparr>kn_versions := kn_versions kn1 @ [v], kn_next := Suc (kn_next kn1)\<rparr>"
    using v unfolding write_simps 1 by simp
  then have 2: "v = ?v" "kn2 = ?kn1\<lparr>kn_versions := kn_versions kn @ [v], kn_next := Suc ?n1\<rparr>"
    unfolding 1 by simp_all
  have ids: "kv_id v = ?n1" "kv_document v = ?did" using arg_cong [OF 2(1), of kv_id] arg_cong [OF 2(1), of kv_document]
    by (simp_all add: new_version_def)
  let ?kn2 = "?kn1\<lparr>kn_versions := kn_versions kn @ [v], kn_next := Suc ?n1\<rparr>"
  define kn3 where "kn3 = point_document ?did (kv_id v) (iq_title q) (supersede now current ?kn2)"
  from add_chunks_run [OF rows [unfolded 1(1) 2(2) kn3_def [symmetric]]]
  have 3: "kn4 = kn3\<lparr>kn_chunks := kn_chunks kn3 @ rows, kn_next := kn_next kn3 + length chunks\<rparr>"
    "rows = map (\<lambda>(c, i). new_chunk en v (ks_id s) (injection_ranges normalised) c i)
       (zip chunks [kn_next kn3..<kn_next kn3 + length chunks])"
    by simp_all
  have next3: "kn_next kn3 = Suc (kv_id v)" "kn_chunks kn3 = kn_chunks kn"
    by (simp_all add: kn3_def point_document_def supersede_fields ids)
  have len: "length rows = length chunks" using arg_cong [OF 3(2), of length] by simp
  have row: "rows ! i = new_chunk en v (ks_id s) (injection_ranges normalised) (chunks ! i) (Suc (kv_id v) + i)"
    if "i < length rows" for i
    using that len arg_cong [OF 3(2), of "\<lambda>rs. rs ! i"] by (simp add: next3 del: upt_Suc)
  have cut: "map kc_chunk rows = chunks"
    using len by (intro nth_equalityI) (simp_all add: row new_chunk_def)
  from add_vectors_run [OF vectors] obtain vs where 4:
    "kn5 = kn4\<lparr>kn_vectors := kn_vectors kn4 @ vs, kn_next := kn_next kn4 + length rows\<rparr>"
    "length vectors = length rows" "length vs = length rows"
    "\<forall>i < length rows. vs ! i = new_vector s sp (rows ! i) (vectors ! i) (kn_next kn4 + i) \<and>
       length (vectors ! i) = D768" by auto
  have next4: "kn_next kn4 = Suc (kv_id v) + length rows" using 3(1) next3 len by simp
  from add_findings_run [OF findings] obtain fr n where 5:
    "kn' = kn5\<lparr>kn_findings := kn_findings kn5 @ fr, kn_next := n\<rparr>" "map kf_finding fr = flagged"
    "\<forall>f \<in> set fr. kf_attempt f = ka_id a \<and> kf_version f = Some (kv_id v) \<and> kf_id f < n" "kn_next kn5 \<le> n"
    by auto
  have next5: "kn_next kn5 = Suc (kv_id v) + 2 * length rows" using 4(1) next4 by simp
  have vector_of: "vs ! i = new_vector s sp (rows ! i) (vectors ! i) (kx_id (vs ! i)) \<and>
      kx_id (vs ! i) = Suc (kv_id v) + length rows + i \<and> length (vectors ! i) = D768"
    if "i < length rows" for i using 4(4) that next4 by (simp add: new_vector_def)
  have row_of: "rows ! i = new_chunk en v (ks_id s) (injection_ranges normalised) (chunks ! i) (kc_id (rows ! i)) \<and>
      kc_id (rows ! i) = Suc (kv_id v) + i" if "i < length rows" for i
    using row [OF that] by (simp add: new_chunk_def)
  have fields: "kn_sources kn' = kn_sources kn" "kn_spaces kn' = kn_spaces kn" "kn_attempts kn' = kn_attempts kn"
    "kn_dispositions kn' = kn_dispositions kn"
    "kn_documents kn' = upd_rows (\<lambda>r. kd_id r = ?did) (\<lambda>r. r\<lparr>kd_current := Some (kv_id v), kd_title := iq_title q\<rparr>) ?docs"
    "kn_versions kn' = superseded_versions now current (kn_versions kn @ [v])"
    "kn_chunks kn' = kn_chunks kn @ rows" "kn_vectors kn' = retired_vectors current kn @ vs"
    "kn_findings kn' = kn_findings kn @ fr"
    using 5(1) 4(1) 3(1)
    by (simp_all add: kn3_def point_document_def supersede_fields retired_vectors_def chunks_of_version_def
        split: option.splits)
  have vec: "\<exists>vs. kn_vectors kn' = retired_vectors current kn @ vs \<and> length vs = length rows \<and>
      length vectors = length rows \<and>
      (\<forall>i < length rows. vs ! i = new_vector s sp (rows ! i) (vectors ! i) (kx_id (vs ! i)) \<and>
         kx_id (vs ! i) = Suc (kv_id v) + length rows + i \<and> length (vectors ! i) = D768)"
    using fields(8) 4(2,3) vector_of by blast
  have nexts: "Suc (kv_id v) + 2 * length rows \<le> kn_next kn'" "kn_next kn \<le> kv_id v" "kn_next kn \<le> kn_next kn'"
    "document = None \<longrightarrow> kv_id v = Suc (kn_next kn)" "document \<noteq> None \<longrightarrow> kv_id v = kn_next kn"
    using 5(1,4) next5 ids(1) by (auto split: option.splits)
  have "stored_as en now q document current normalised chunks vectors sp s v rows kn kn'"
    unfolding stored_as_def
    by (intro conjI fields(1-4,6,7) nexts vec cut ids(2) allI impI row_of [THEN conjunct1] row_of [THEN conjunct2])
      (simp_all add: fields(5) ids(2))
  moreover have "v = new_version now q who (kv_document v) current raw_hash text_hash (length normalised) flagged
      (ka_id a) (kv_id v)"
    unfolding ids by (rule 2(1))
  moreover have "\<forall>f \<in> set fr. kf_attempt f = ka_id a \<and> kf_version f = Some (kv_id v) \<and> kf_id f < kn_next kn'"
    using 5(1,3) by simp
  ultimately show ?thesis using fields(9) 5(2) by blast
qed


section \<open>Errors that are not a refusal\<close>

definition crash :: "acop_error \<Rightarrow> bool" where
  "crash e \<longleftrightarrow> e = UnhandledError \<or> (\<exists>c. e = IntegrityError c)"

lemma write_crashes:
  "add_document md kn = Inl e \<Longrightarrow> crash e" "add_version mv kn = Inl e \<Longrightarrow> crash e"
  "add_chunk mc kn = Inl e \<Longrightarrow> crash e" "add_vector mx kn = Inl e \<Longrightarrow> crash e"
  "add_attempt ma kn = Inl e \<Longrightarrow> crash e" "add_finding mf kn = Inl e \<Longrightarrow> crash e"
  by (auto simp: add_defs Let_def res_simps crash_def dest: enforce_Inl)

lemma add_findings_crashes: "add_findings a v fs kn = Inl e \<Longrightarrow> crash e"
  by (induction fs arbitrary: kn) (auto simp: add_findings_def res_simps dest: write_crashes)

lemma close_attempt_crashes: "close_attempt now a c fs kn = Inl e \<Longrightarrow> crash e"
  unfolding close_attempt_def andThen_eq_Inl
  by (auto simp: crash_def dest: enforce_Inl add_findings_crashes)

lemma add_chunks_crashes: "add_chunks en v src marks cs kn = Inl e \<Longrightarrow> crash e"
  by (induction cs arbitrary: kn) (auto simp: res_simps dest: write_crashes)

lemma add_vectors_crashes: "add_vectors s sp rs xs kn = Inl e \<Longrightarrow> crash e"
  by (induction s sp rs xs kn rule: add_vectors.induct) (auto simp: res_simps crash_def dest: write_crashes [unfolded crash_def])

lemmas crashes = write_crashes add_findings_crashes close_attempt_crashes add_chunks_crashes add_vectors_crashes

lemma persist_crashes:
  "persist en now q who a s document current normalised raw_hash text_hash chunks vectors sp flagged kn = Inl e \<Longrightarrow> crash e"
  by (auto simp: persist_def res_simps Let_def split: option.splits dest: crashes)

section \<open>Closing never fails\<close>

lemma add_findings_succeeds:
  "knows ka_id (kn_attempts kn) (Some a) \<Longrightarrow> knows kv_id (kn_versions kn) v \<Longrightarrow>
   \<exists>kn'. add_findings a v fs kn = Inr kn'"
proof (induction fs arbitrary: kn)
  case Nil
  then show ?case by (simp add: add_findings_def)
next
  case (Cons f fs)
  let ?kn = "kn\<lparr>kn_findings := kn_findings kn @ [finding_row_of a v f (kn_next kn)], kn_next := Suc (kn_next kn)\<rparr>"
  have "add_finding (finding_row_of a v f) kn = Inr (finding_row_of a v f (kn_next kn), ?kn)"
    using Cons.prems by (simp add: write_simps finding_checks_def finding_row_of_def)
  with Cons.IH [of ?kn] Cons.prems show ?case by (simp add: add_findings_def)
qed

text \<open>The refusals: what the attempt records, its error code, and the error that is raised.\<close>

definition refusal_answers :: "(ingest_outcome \<times> string \<times> acop_error) set" where
  "refusal_answers =
     {(IO_REJECTED_INVALID, ''source_not_found'', NotFoundError),
      (IO_REJECTED_INVALID, ''source_retired'', ConflictError),
      (IO_REJECTED_INVALID, ''unsupported_media_type'', ValidationError),
      (IO_REJECTED_INVALID, ''document_too_large'', ValidationError),
      (IO_REJECTED_SECRET, ''secret_rejected'', SecretRejectedError),
      (IO_REJECTED_INVALID, ''embedding_prefixes_unverified'', ConflictError),
      (IO_REJECTED_INVALID, ''chunk_exceeds_model_input'', ValidationError),
      (IO_FAILED_EMBEDDING, ''embedding_unavailable'', EmbeddingUnavailableError)}"

definition is_refusal :: "closing_values \<Rightarrow> acop_error \<Rightarrow> bool" where
  "is_refusal c e \<longleftrightarrow> cl_version c = None \<and> cl_document c = None \<and>
     (\<exists>code. cl_error c = Some code \<and> (cl_outcome c, code, e) \<in> refusal_answers) \<and>
     (cl_outcome c = IO_REJECTED_SECRET \<longrightarrow> 0 < cl_blocking c)"

lemmas refusals = is_refusal_def ends_as_def refusal_answers_def

lemma close_succeeds:
  assumes "knows ka_id (kn_attempts kn) (Some (ka_id a))" "knows ks_id (kn_sources kn) (Some (ka_source a))"
    and "cl_outcome c \<notin> {IO_PENDING, IO_CREATED, IO_VERSIONED}" "cl_version c = None"
    and "knows kd_id (kn_documents kn) (cl_document c)"
  shows "\<exists>kn'. close_attempt now a c fs kn = Inr kn'"
proof -
  let ?kn = "kn\<lparr>kn_attempts := upd_rows (\<lambda>b. ka_id b = ka_id a) (closed_attempt now c) (kn_attempts kn)\<rparr>"
  have "\<forall>x \<in> set (attempt_checks kn (closed_attempt now c a)). snd x"
    using assms(2-5) by (simp add: attempt_checks_def closed_attempt_def CANONICAL_OUTCOMES_def)
  moreover have "knows ka_id (kn_attempts ?kn) (Some (ka_id a))" "knows kv_id (kn_versions ?kn) (cl_version c)"
    using assms(1,4) by (simp_all add: knows_def find_row_upd_rows closed_attempt_def)
  ultimately show ?thesis
    using add_findings_succeeds [of ?kn "ka_id a" "cl_version c" fs] by (simp add: close_attempt_def res_simps)
qed


section \<open>How a submission ends\<close>

text \<open>The chunks were small enough, and the embedding provider did not say that it is unavailable.\<close>

definition accepted_by_provider :: "ingest_env \<Rightarrow> space_row \<Rightarrow> string \<Rightarrow> bool" where
  "accepted_by_provider en sp normalised \<longleftrightarrow> (\<exists>chunks. chunk_document DEFAULT_PARAMS normalised = Some chunks \<and>
     (sp_truncation sp = REJECT_OVERSIZE \<longrightarrow> (\<forall>c \<in> set chunks. ch_tokens c + prefix_tokens sp \<le> sp_max_input sp)) \<and>
     en_embed en (map ch_content chunks) (sp_document_prefix sp) \<noteq> Unavailable)"

lemma embed_and_store_cases:
  assumes "embed_and_store en now q who sp a s document current normalised raw_hash text_hash report kn = (res, kn')"
  obtains (refused) c fs e where "is_refusal c e" "refuse now a c fs e kn = (res, kn')"
  | (crashed) e where "res = Inl e" "crash e" "kn' = kn" "accepted_by_provider en sp normalised"
  | (stored) chunks vectors v rows kn1 oc where
      "chunk_document DEFAULT_PARAMS normalised = Some chunks"
      "persist en now q who a s document current normalised raw_hash text_hash chunks vectors sp (advisory report) kn =
         Inr ((v, rows), kn1)"
      "oc = (if kv_no v = 1 then IO_CREATED else IO_VERSIONED)"
      "close_attempt now a ((ends_as oc)\<lparr>cl_document := Some (kv_document v), cl_version := Some (kv_id v),
         cl_text_hash := Some text_hash, cl_chunks := Some (length rows), cl_embedded := Some (length vectors)\<rparr>) [] kn1
         = Inr kn'"
      "res = Inr \<lparr>ir_attempt = ka_id a, ir_outcome = oc, ir_document = Some (kv_document v),
         ir_version = Some (kv_id v), ir_no = Some (kv_no v), ir_chunks = length rows,
         ir_embedded = length vectors, ir_advisory = length (advisory report)\<rparr>"
proof (cases "chunk_document DEFAULT_PARAMS normalised")
  case None
  moreover have "0 < max_tokens DEFAULT_PARAMS" by (simp add: DEFAULT_PARAMS_def)
  ultimately show thesis using chunking_ends [of DEFAULT_PARAMS normalised] by simp
next
  case cut: (Some chunks)
  define oversize where "oversize = filter (\<lambda>c. sp_max_input sp < ch_tokens c + prefix_tokens sp) chunks"
  show thesis
  proof (cases "oversize \<noteq> [] \<and> sp_truncation sp = REJECT_OVERSIZE")
    case True
    with assms cut have "refuse now a ((ends_as IO_REJECTED_INVALID)\<lparr>cl_text_hash := Some text_hash,
            cl_chunks := Some (length chunks), cl_error := Some ''chunk_exceeds_model_input''\<rparr>)
          (report @ [oversize_finding en (hd oversize)]) ValidationError kn = (res, kn')"
      by (simp add: embed_and_store_def Let_def oversize_def)
    from refused [OF _ this] show thesis by (simp add: refusals)
  next
    case fits: False
    have accepted: "accepted_by_provider en sp normalised"
      if "en_embed en (map ch_content chunks) (sp_document_prefix sp) \<noteq> Unavailable"
      using that cut fits by (auto simp: accepted_by_provider_def oversize_def filter_empty_conv not_less)
    show thesis
    proof (cases "en_embed en (map ch_content chunks) (sp_document_prefix sp)")
      case Unavailable
      with assms cut fits have "refuse now a ((ends_as IO_FAILED_EMBEDDING)\<lparr>cl_text_hash := Some text_hash,
            cl_chunks := Some (length chunks), cl_error := Some ''embedding_unavailable''\<rparr>) report EmbeddingUnavailableError kn
          = (res, kn')"
        by (auto simp: embed_and_store_def Let_def oversize_def)
      from refused [OF _ this] show thesis by (simp add: refusals)
    next
      case Broken
      with assms cut fits show thesis
        by (intro crashed) (auto simp: embed_and_store_def Let_def oversize_def crash_def accepted)
    next
      case (Vectors vectors)
      let ?store = "persist en now q who a s document current normalised raw_hash text_hash chunks vectors sp
        (advisory report) kn"
      show thesis
      proof (cases ?store)
        case (Inl e)
        with assms cut fits Vectors show thesis
          by (intro crashed [of e]) (auto simp: embed_and_store_def Let_def oversize_def accepted dest: persist_crashes)
      next
        case (Inr out)
        obtain v rows kn1 where out: "out = ((v, rows), kn1)" by (metis prod.collapse)
        let ?c = "(ends_as (if kv_no v = 1 then IO_CREATED else IO_VERSIONED))\<lparr>cl_document := Some (kv_document v),
          cl_version := Some (kv_id v), cl_text_hash := Some text_hash, cl_chunks := Some (length rows),
          cl_embedded := Some (length vectors)\<rparr>"
        show thesis
        proof (cases "close_attempt now a ?c [] kn1")
          case (Inl e)
          with assms cut fits Vectors Inr out show thesis
            by (intro crashed [of e]) (auto simp: embed_and_store_def Let_def oversize_def accepted
                dest: close_attempt_crashes split: if_splits)
        next
          case closed: (Inr kn2)
          with assms cut fits Vectors Inr out show thesis
            by (intro stored [OF cut, of vectors v rows kn1])
              (auto simp: embed_and_store_def Let_def oversize_def split: if_splits)
        qed
      qed
    qed
  qed
qed


text \<open>What the gate has to see before anything is stored.\<close>

definition gate_open ::
  "ingest_env \<Rightarrow> ingest_request \<Rightarrow> space_row \<Rightarrow> knowledge \<Rightarrow> bool" where
  "gate_open en q sp kn \<longleftrightarrow> sp_verified_at sp \<noteq> None \<and>
     (\<forall>f \<in> set (screen_document (en_hmac en) (en_salt en) (normalise_text (iq_content q))).
        fi_severity f = BLOCKING \<longrightarrow>
          is_cleared (iq_source q) (iq_ref q) (en_sha256 en (iq_content q)) kn (fi_fingerprint f))"

definition submission_valid :: "ingest_request \<Rightarrow> knowledge \<Rightarrow> bool" where
  "submission_valid q kn \<longleftrightarrow>
     (\<exists>s. find_row ks_id (iq_source q) (kn_sources kn) = Some s \<and> ks_state s = KL_ACTIVE) \<and>
     iq_media q \<in> set SUPPORTED_MEDIA_TYPES \<and> utf8_len (iq_content q) \<le> MAX_DOCUMENT_BYTES"

text \<open>The run that stores a version, as one relation between the states before and after.\<close>

definition stores ::
  "ingest_env \<Rightarrow> int \<Rightarrow> ingest_request \<Rightarrow> principal \<Rightarrow> space_row \<Rightarrow> attempt_row \<Rightarrow> chunk list \<Rightarrow> version_row \<Rightarrow>
   ingest_result \<Rightarrow> knowledge \<Rightarrow> knowledge \<Rightarrow> bool" where
  "stores en now q who sp a chunks v r kn kn' \<longleftrightarrow>
     (\<exists>s document current vectors rows kn1.
        find_row ks_id (iq_source q) (kn_sources kn) = Some s \<and>
        document = find_document q kn \<and> current = current_version document kn \<and>
        chunk_document DEFAULT_PARAMS (normalise_text (iq_content q)) = Some chunks \<and>
        (\<forall>w. current = Some w \<longrightarrow> kv_raw_hash w \<noteq> en_sha256 en (iq_content q) \<and>
           kv_text_hash w \<noteq> en_sha256 en (normalise_text (iq_content q))) \<and>
        persist en now q who a s document current (normalise_text (iq_content q)) (en_sha256 en (iq_content q))
          (en_sha256 en (normalise_text (iq_content q))) chunks vectors sp
          (advisory (screen_document (en_hmac en) (en_salt en) (normalise_text (iq_content q)))) kn = Inr ((v, rows), kn1) \<and>
        close_attempt now a ((ends_as (ir_outcome r))\<lparr>cl_document := Some (kv_document v), cl_version := Some (kv_id v),
          cl_text_hash := Some (en_sha256 en (normalise_text (iq_content q))), cl_chunks := Some (length rows),
          cl_embedded := Some (length vectors)\<rparr>) [] kn1 = Inr kn' \<and>
        ir_attempt r = ka_id a \<and> ir_outcome r = (if kv_no v = 1 then IO_CREATED else IO_VERSIONED) \<and>
        ir_document r = Some (kv_document v) \<and> ir_version r = Some (kv_id v) \<and> ir_no r = Some (kv_no v) \<and>
        ir_chunks r = length rows \<and> ir_embedded r = length vectors)"

lemma gated_cases:
  assumes run: "gated en now q who sp a s document current (normalise_text (iq_content q)) (en_sha256 en (iq_content q))
      (en_sha256 en (normalise_text (iq_content q))) kn = (res, kn')"
    and here: "find_row ks_id (iq_source q) (kn_sources kn) = Some s" "document = find_document q kn"
      "current = current_version document kn"
      "\<forall>w. current = Some w \<longrightarrow> kv_raw_hash w \<noteq> en_sha256 en (iq_content q) \<and>
         kv_text_hash w \<noteq> en_sha256 en (normalise_text (iq_content q))"
  obtains (refused) c fs e where "is_refusal c e" "refuse now a c fs e kn = (res, kn')"
  | (crashed) e where "res = Inl e" "crash e" "kn' = kn" "gate_open en q sp kn"
      "accepted_by_provider en sp (normalise_text (iq_content q))"
  | (stored) r chunks v where "res = Inr r" "gate_open en q sp kn" "stores en now q who sp a chunks v r kn kn'"
proof -
  let ?report = "screen_document (en_hmac en) (en_salt en) (normalise_text (iq_content q))"
  let ?hash = "en_sha256 en (iq_content q)" and ?thash = "en_sha256 en (normalise_text (iq_content q))"
  define left where "left = filter (\<lambda>f. \<not> is_cleared (iq_source q) (iq_ref q) ?hash kn (fi_fingerprint f)) (blocking ?report)"
  note run' = run [unfolded gated_def Let_def, folded left_def]
  show thesis
  proof (cases "left = []")
    case False
    with run' refused [of "(ends_as IO_REJECTED_SECRET)\<lparr>cl_text_hash := Some ?thash, cl_blocking := length left,
        cl_error := Some ''secret_rejected''\<rparr>" SecretRejectedError ?report] show thesis
      by (simp add: refusals)
  next
    case clean: True
    show thesis
    proof (cases "sp_verified_at sp = None")
      case True
      with run' clean refused [of "(ends_as IO_REJECTED_INVALID)\<lparr>cl_text_hash := Some ?thash,
          cl_error := Some ''embedding_prefixes_unverified''\<rparr>" ConflictError ?report] show thesis
        by (simp add: refusals)
    next
      case False
      with clean have gate: "gate_open en q sp kn"
        by (auto simp: gate_open_def left_def blocking_def filter_empty_conv)
      from run' clean False have "embed_and_store en now q who sp a s document current (normalise_text (iq_content q))
          ?hash ?thash ?report kn = (res, kn')" by simp
      then show thesis
      proof (cases rule: embed_and_store_cases)
        case (refused c fs e)
        then show thesis by (rule that(1))
      next
        case (crashed e)
        with gate show thesis by (intro that(2))
      next
        case (stored chunks vectors v rows kn1 oc)
        have "stores en now q who sp a chunks v \<lparr>ir_attempt = ka_id a, ir_outcome = oc,
            ir_document = Some (kv_document v), ir_version = Some (kv_id v), ir_no = Some (kv_no v),
            ir_chunks = length rows, ir_embedded = length vectors, ir_advisory = length (advisory ?report)\<rparr> kn kn'"
          unfolding stores_def
          by (intro exI [of _ s] exI [of _ document] exI [of _ current] exI [of _ vectors] exI [of _ rows]
              exI [of _ kn1]) (use here stored in simp)
        with stored(5) gate show thesis by (rule that(3))
      qed
    qed
  qed
qed


text \<open>Nothing changed: the current version has the same bytes, or the same normalised text.\<close>

definition same_content :: "ingest_env \<Rightarrow> ingest_request \<Rightarrow> version_row \<Rightarrow> ingest_outcome \<Rightarrow> string \<Rightarrow> bool" where
  "same_content en q v oc text_hash \<longleftrightarrow>
     kv_raw_hash v = en_sha256 en (iq_content q) \<and> oc = IO_UNCHANGED \<and> text_hash = kv_text_hash v \<or>
     kv_raw_hash v \<noteq> en_sha256 en (iq_content q) \<and> kv_text_hash v = en_sha256 en (normalise_text (iq_content q)) \<and>
     oc = IO_UNCHANGED_TEXT \<and> text_hash = kv_text_hash v"

lemma same_content_ex:
  "(\<exists>oc th. same_content en q v oc th) \<longleftrightarrow> kv_raw_hash v = en_sha256 en (iq_content q) \<or>
     kv_text_hash v = en_sha256 en (normalise_text (iq_content q))"
  unfolding same_content_def by metis

text \<open>Every check was passed: only storing what the provider answered was left to do.\<close>

definition left_pending :: "ingest_env \<Rightarrow> ingest_request \<Rightarrow> space_row \<Rightarrow> knowledge \<Rightarrow> bool" where
  "left_pending en q sp kn \<longleftrightarrow> submission_valid q kn \<and> gate_open en q sp kn \<and>
     (\<forall>w. current_version (find_document q kn) kn = Some w \<longrightarrow>
        kv_raw_hash w \<noteq> en_sha256 en (iq_content q) \<and> kv_text_hash w \<noteq> en_sha256 en (normalise_text (iq_content q))) \<and>
     accepted_by_provider en sp (normalise_text (iq_content q))"

lemma ingest_into_cases:
  assumes "ingest_into en now q who sp a (en_sha256 en (iq_content q)) kn = (res, kn')"
  obtains (refused) c fs e where "is_refusal c e" "refuse now a c fs e kn = (res, kn')"
  | (unchanged) oc v text_hash where "submission_valid q kn" "current_version (find_document q kn) kn = Some v"
      "same_content en q v oc text_hash" "unchanged now a oc (find_document q kn) v text_hash kn = (res, kn')"
  | (crashed) e where "res = Inl e" "crash e" "kn' = kn" "left_pending en q sp kn"
  | (stored) r chunks v where "submission_valid q kn" "res = Inr r" "gate_open en q sp kn"
      "stores en now q who sp a chunks v r kn kn'"
proof -
  note run = assms [unfolded ingest_into_def Let_def]
  let ?hash = "en_sha256 en (iq_content q)" and ?thash = "en_sha256 en (normalise_text (iq_content q))"
  show thesis
  proof (cases "find_row ks_id (iq_source q) (kn_sources kn)")
    case None
    with run have "refuse now a ((ends_as IO_REJECTED_INVALID)\<lparr>cl_error := Some ''source_not_found''\<rparr>) [] NotFoundError kn
        = (res, kn')" by simp
    from refused [OF _ this] show thesis by (simp add: refusals)
  next
    case s: (Some s)
    show thesis
    proof (cases "submission_valid q kn")
      case False
      then consider "ks_state s \<noteq> KL_ACTIVE"
        | "ks_state s = KL_ACTIVE" "iq_media q \<notin> set SUPPORTED_MEDIA_TYPES"
        | "ks_state s = KL_ACTIVE" "iq_media q \<in> set SUPPORTED_MEDIA_TYPES" "MAX_DOCUMENT_BYTES < utf8_len (iq_content q)"
        unfolding submission_valid_def using s by (metis not_le)
      then show thesis
      proof cases
        case 1
        with run s have "refuse now a ((ends_as IO_REJECTED_INVALID)\<lparr>cl_error := Some ''source_retired''\<rparr>) []
            ConflictError kn = (res, kn')" by simp
        from refused [OF _ this] show thesis by (simp add: refusals)
      next
        case 2
        with run s have "refuse now a ((ends_as IO_REJECTED_INVALID)\<lparr>cl_error := Some ''unsupported_media_type''\<rparr>) []
            ValidationError kn = (res, kn')" by simp
        from refused [OF _ this] show thesis by (simp add: refusals)
      next
        case 3
        with run s have "refuse now a ((ends_as IO_REJECTED_INVALID)\<lparr>cl_error := Some ''document_too_large''\<rparr>) []
            ValidationError kn = (res, kn')" by simp
        from refused [OF _ this] show thesis by (simp add: refusals)
      qed
    next
      case valid: True
      with s have ok: "ks_state s = KL_ACTIVE" "iq_media q \<in> set SUPPORTED_MEDIA_TYPES"
        "\<not> MAX_DOCUMENT_BYTES < utf8_len (iq_content q)" by (auto simp: submission_valid_def)
      show thesis
      proof (cases "\<exists>v oc th. current_version (find_document q kn) kn = Some v \<and> same_content en q v oc th")
        case True
        then obtain v oc th where same: "current_version (find_document q kn) kn = Some v" "same_content en q v oc th"
          by blast
        with run s ok have "unchanged now a oc (find_document q kn) v th kn = (res, kn')"
          by (auto simp: same_content_def)
        with valid same show thesis by (rule unchanged)
      next
        case False
        then have new: "\<forall>w. current_version (find_document q kn) kn = Some w \<longrightarrow>
            kv_raw_hash w \<noteq> ?hash \<and> kv_text_hash w \<noteq> ?thash" using same_content_ex by metis
        with run s ok have "gated en now q who sp a s (find_document q kn) (current_version (find_document q kn) kn)
            (normalise_text (iq_content q)) ?hash ?thash kn = (res, kn')"
          by (auto split: option.splits)
        then show thesis
        proof (cases rule: gated_cases [OF _ s refl refl new, consumes 1, case_names refused crashed stored])
          case (refused c fs e)
          then show thesis by (rule that(1))
        next
          case (crashed e)
          with valid new show thesis by (intro that(3)) (simp_all add: left_pending_def)
        next
          case (stored r chunks v)
          with valid show thesis by (intro that(4))
        qed
      qed
    qed
  qed
qed

section \<open>What is committed\<close>

definition same_canonical :: "knowledge \<Rightarrow> knowledge \<Rightarrow> bool" where
  "same_canonical kn kn' \<longleftrightarrow> kn_sources kn' = kn_sources kn \<and> kn_documents kn' = kn_documents kn \<and>
     kn_versions kn' = kn_versions kn \<and> kn_chunks kn' = kn_chunks kn \<and> kn_vectors kn' = kn_vectors kn \<and>
     kn_spaces kn' = kn_spaces kn \<and> kn_dispositions kn' = kn_dispositions kn"

lemma same_canonical_refl [simp]: "same_canonical kn kn"
  by (simp add: same_canonical_def)

lemma same_canonical_attempts [simp]:
  "same_canonical kn (kn\<lparr>kn_attempts := x, kn_next := n\<rparr>)"
  "same_canonical (kn\<lparr>kn_attempts := x, kn_next := n\<rparr>) kn' \<longleftrightarrow> same_canonical kn kn'"
  by (auto simp: same_canonical_def)

lemma close_attempt_canonical: "close_attempt now a c fs kn = Inr kn' \<Longrightarrow> same_canonical kn kn'"
  by (simp add: same_canonical_def close_attempt_frame)

lemma refuse_run:
  assumes "refuse now a c fs e kn = (res, kn')" and "is_refusal c e"
    and "knows ka_id (kn_attempts kn) (Some (ka_id a))" "knows ks_id (kn_sources kn) (Some (ka_source a))"
  shows "res = Inl e \<and> close_attempt now a c fs kn = Inr kn'"
proof -
  from assms(2-4) have "\<exists>kn'. close_attempt now a c fs kn = Inr kn'"
    by (intro close_succeeds) (auto simp: is_refusal_def refusal_answers_def)
  with assms(1) show ?thesis by (auto simp: refuse_def)
qed

lemma find_document_known: "find_document q kn = Some d \<Longrightarrow> knows kd_id (kn_documents kn) (Some (kd_id d))"
  unfolding find_document_def knows_def find_Some_iff by (auto simp: find_row_None)

lemma unchanged_run:
  assumes "unchanged now a oc (find_document q kn) v text_hash kn = (res, kn')" and "same_content en q v oc text_hash"
    and "knows ka_id (kn_attempts kn) (Some (ka_id a))" "knows ks_id (kn_sources kn) (Some (ka_source a))"
  shows "res = Inr \<lparr>ir_attempt = ka_id a, ir_outcome = oc, ir_document = map_option kd_id (find_document q kn),
         ir_version = Some (kv_id v), ir_no = Some (kv_no v), ir_chunks = 0, ir_embedded = 0, ir_advisory = 0\<rparr> \<and>
    close_attempt now a ((ends_as oc)\<lparr>cl_document := map_option kd_id (find_document q kn),
         cl_text_hash := Some text_hash\<rparr>) [] kn = Inr kn'"
proof -
  have "\<exists>kn'. close_attempt now a ((ends_as oc)\<lparr>cl_document := map_option kd_id (find_document q kn),
         cl_text_hash := Some text_hash\<rparr>) [] kn = Inr kn'"
    by (rule close_succeeds [OF assms(3,4)])
      (use assms(2) find_document_known [of q kn] in \<open>auto simp: ends_as_def same_content_def split: option.splits
        simp: map_option_case\<close>)
  with assms(1) show ?thesis by (auto simp: unchanged_def)
qed


text \<open>Every row has an id that was handed out before.\<close>

definition numbered :: "knowledge \<Rightarrow> bool" where
  "numbered kn \<longleftrightarrow> list_all (\<lambda>i. i < kn_next kn)
     (map ks_id (kn_sources kn) @ map kd_id (kn_documents kn) @ map kv_id (kn_versions kn) @ map kc_id (kn_chunks kn) @
      map kx_id (kn_vectors kn) @ map sp_id (kn_spaces kn) @ map ka_id (kn_attempts kn) @ map kf_id (kn_findings kn) @
      map kp_id (kn_dispositions kn))"

lemma numberedD:
  assumes "numbered kn"
  shows "s \<in> set (kn_sources kn) \<Longrightarrow> ks_id s < kn_next kn" "d \<in> set (kn_documents kn) \<Longrightarrow> kd_id d < kn_next kn"
    "v \<in> set (kn_versions kn) \<Longrightarrow> kv_id v < kn_next kn" "c \<in> set (kn_chunks kn) \<Longrightarrow> kc_id c < kn_next kn"
    "x \<in> set (kn_vectors kn) \<Longrightarrow> kx_id x < kn_next kn" "a \<in> set (kn_attempts kn) \<Longrightarrow> ka_id a < kn_next kn"
  using assms by (auto simp: numbered_def list_all_iff)

definition opened :: "int \<Rightarrow> ingest_request \<Rightarrow> principal \<Rightarrow> string \<Rightarrow> string option \<Rightarrow> knowledge \<Rightarrow> attempt_row \<times> knowledge" where
  "opened now q who raw_hash rid kn = (let a = new_attempt now q who raw_hash rid (kn_next kn) in
     (a, kn\<lparr>kn_attempts := kn_attempts kn @ [a], kn_next := Suc (kn_next kn)\<rparr>))"

lemma open_attempt_run:
  assumes "opened now q who raw_hash rid kn = (a, kn0)"
  shows "open_attempt now q who raw_hash rid kn = andThen (enforce (attempt_checks kn a)) (\<lambda>_. Inr (a, kn0))"
proof -
  have a: "a = new_attempt now q who raw_hash rid (kn_next kn)"
    and kn0: "kn0 = kn\<lparr>kn_attempts := kn_attempts kn @ [a], kn_next := Suc (kn_next kn)\<rparr>"
    using assms by (auto simp: opened_def Let_def)
  show ?thesis by (simp add: open_attempt_def add_attempt_def Let_def a kn0)
qed

lemma opened_known:
  assumes "opened now q who raw_hash rid kn = (a, kn0)" and "find_row ks_id (iq_source q) (kn_sources kn) \<noteq> None"
  shows "enforce (attempt_checks kn a) = Inr ()" "knows ka_id (kn_attempts kn0) (Some (ka_id a))"
    "knows ks_id (kn_sources kn0) (Some (ka_source a))"
proof -
  have a: "a = new_attempt now q who raw_hash rid (kn_next kn)"
    and kn0: "kn0 = kn\<lparr>kn_attempts := kn_attempts kn @ [a], kn_next := Suc (kn_next kn)\<rparr>"
    using assms(1) by (auto simp: opened_def Let_def)
  have source: "knows ks_id (kn_sources kn) (Some (ka_source a))"
    using assms(2) by (simp add: knows_def a new_attempt_def)
  then show "knows ks_id (kn_sources kn0) (Some (ka_source a))" by (simp add: kn0)
  show "knows ka_id (kn_attempts kn0) (Some (ka_id a))" by (simp add: knows_def kn0 find_row_None)
  have "ka_outcome a = IO_PENDING" "ka_finished a = None" "ka_version a = None" "ka_document a = None"
    by (simp_all add: a new_attempt_def)
  with source show "enforce (attempt_checks kn a) = Inr ()"
    by (simp add: res_simps attempt_checks_def CANONICAL_OUTCOMES_def)
qed

lemma same_before_opening [simp]:
  "gate_open en q sp (kn\<lparr>kn_attempts := x, kn_next := n\<rparr>) = gate_open en q sp kn"
  "submission_valid q (kn\<lparr>kn_attempts := x, kn_next := n\<rparr>) = submission_valid q kn"
  "find_document q (kn\<lparr>kn_attempts := x, kn_next := n\<rparr>) = find_document q kn"
  "current_version d (kn\<lparr>kn_attempts := x, kn_next := n\<rparr>) = current_version d kn"
  by (simp_all add: gate_open_def submission_valid_def find_document_def current_version_def is_cleared_def
      scoped_dispositions_def split: option.splits)

lemma ingest_cases:
  assumes run: "ingest en now q who sp rid kn = (res, kn')"
    and opens: "opened now q who (en_sha256 en (iq_content q)) rid kn = (a, kn0)"
  obtains (unopened) e where "find_row ks_id (iq_source q) (kn_sources kn) = None" "res = Inl e" "crash e" "kn' = kn"
  | (refused) c fs e where "is_refusal c e" "res = Inl e" "close_attempt now a c fs kn0 = Inr kn'"
  | (unchanged) oc v c where "submission_valid q kn" "current_version (find_document q kn) kn = Some v"
      "same_content en q v oc (kv_text_hash v)" "c = (ends_as oc)\<lparr>cl_document := map_option kd_id (find_document q kn),
         cl_text_hash := Some (kv_text_hash v)\<rparr>"
      "res = Inr \<lparr>ir_attempt = ka_id a, ir_outcome = oc, ir_document = map_option kd_id (find_document q kn),
         ir_version = Some (kv_id v), ir_no = Some (kv_no v), ir_chunks = 0, ir_embedded = 0, ir_advisory = 0\<rparr>"
      "close_attempt now a c [] kn0 = Inr kn'"
  | (crashed) e where "res = Inl e" "crash e" "kn' = kn0" "left_pending en q sp kn"
  | (stored) r chunks v where "submission_valid q kn" "res = Inr r" "gate_open en q sp kn"
      "stores en now q who sp a chunks v r kn0 kn'"
proof -
  have a: "a = new_attempt now q who (en_sha256 en (iq_content q)) rid (kn_next kn)"
    and kn0: "kn0 = kn\<lparr>kn_attempts := kn_attempts kn @ [a], kn_next := Suc (kn_next kn)\<rparr>"
    using opens by (auto simp: opened_def Let_def)
  have checks: "(\<forall>x \<in> set (attempt_checks kn a). snd x) \<longleftrightarrow> find_row ks_id (iq_source q) (kn_sources kn) \<noteq> None"
    by (simp add: a attempt_checks_def new_attempt_def CANONICAL_OUTCOMES_def) (simp add: knows_def)
  note attempt = open_attempt_run [OF opens]
  show thesis
  proof (cases "find_row ks_id (iq_source q) (kn_sources kn) = None")
    case True
    with checks obtain e where "enforce (attempt_checks kn a) = Inl e"
      by (meson sum.exhaust enforce_Inr)
    with attempt run have "res = Inl e" "kn' = kn" by (simp_all add: ingest_def Let_def)
    moreover have "crash e" using enforce_Inl [OF \<open>enforce (attempt_checks kn a) = Inl e\<close>] by (simp add: crash_def)
    ultimately show thesis using True by (intro unopened)
  next
    case known: False
    note here = opened_known [OF opens known]
    from run attempt here(1) have into: "ingest_into en now q who sp a (en_sha256 en (iq_content q)) kn0 = (res, kn')"
      by (simp add: ingest_def Let_def)
    from into show thesis
    proof (cases rule: ingest_into_cases)
      case (refused c fs e)
      with refuse_run [OF refused(2,1) here(2,3)] show thesis by (intro that(2)) auto
    next
      case (unchanged oc v th)
      then have "th = kv_text_hash v" by (auto simp: same_content_def)
      with unchanged unchanged_run [OF unchanged(4,3) here(2,3)] show thesis
        by (intro that(3) [OF _ _ _ refl]) (auto simp: kn0)
    next
      case (crashed e)
      then show thesis by (intro that(4)) (auto simp: kn0 left_pending_def)
    next
      case (stored r chunks v)
      then show thesis by (intro that(5)) (auto simp: kn0)
    qed
  qed
qed


section \<open>The gate\<close>

lemma judgement_latest:
  assumes "sorted (map kp_at rows)" and "judgement rows fp = Some k"
  shows "\<exists>p \<in> set rows. kp_fingerprint p = fp \<and> kp_kind p = k \<and>
    (\<forall>p' \<in> set rows. kp_fingerprint p' = fp \<longrightarrow> kp_at p' \<le> kp_at p)"
proof -
  let ?ps = "filter (\<lambda>p. kp_fingerprint p = fp) rows"
  from assms(2) have some: "?ps \<noteq> []" and k: "kp_kind (last ?ps) = k"
    by (auto simp: judgement_def split: list.splits)
  have "sorted (map kp_at ?ps)" using assms(1) by (rule sorted_filter)
  then have "kp_at p' \<le> kp_at (last ?ps)" if "p' \<in> set ?ps" for p'
    using that some by (cases ?ps rule: rev_cases) (auto simp: sorted_append)
  moreover have "last ?ps \<in> set ?ps" using some by (rule last_in_set)
  ultimately show ?thesis using k by (intro bexI [of _ "last ?ps"]) auto
qed

lemma cleared_by:
  assumes "is_cleared source ref raw_hash kn fp"
  shows "\<exists>p \<in> set (kn_dispositions kn). in_scope source ref raw_hash p \<and> kp_fingerprint p = fp \<and>
    kp_kind p = FALSE_POSITIVE \<and>
    (\<forall>p' \<in> set (kn_dispositions kn). in_scope source ref raw_hash p' \<and> kp_fingerprint p' = fp \<longrightarrow> kp_at p' \<le> kp_at p)"
proof -
  from assms have "judgement (scoped_dispositions source ref raw_hash kn) fp = Some FALSE_POSITIVE"
    by (auto simp: is_cleared_def UNBLOCKING_DISPOSITIONS_def split: option.splits)
  from judgement_latest [OF _ this] show ?thesis by (auto simp: scoped_dispositions_def)
qed

lemma stores_outcome: "stores en now q who sp a chunks v r kn kn' \<Longrightarrow> ir_outcome r \<in> set CANONICAL_OUTCOMES"
  by (auto simp: stores_def CANONICAL_OUTCOMES_def split: if_splits)

lemma opened_canonical:
  "opened now q who raw_hash rid kn = (a, kn0) \<Longrightarrow> same_canonical kn kn0 \<and> (same_canonical kn0 kn' \<longleftrightarrow> same_canonical kn kn')"
  by (auto simp: opened_def Let_def)

text \<open>
  C15. The gate of ingestion.  If a submission changed anything canonical, then its source is active, its media
  type and size are accepted, the space is verified, and for every blocking finding of its normalised text an approver's
  latest judgement on exactly this source, target and content is that it is a false positive.
\<close>

theorem nothing_passes_the_gate:
  assumes "ingest en now q who sp rid kn = (res, kn')" and "\<not> same_canonical kn kn'"
  shows "submission_valid q kn \<and> sp_verified_at sp \<noteq> None \<and>
    (\<exists>r. res = Inr r \<and> ir_outcome r \<in> set CANONICAL_OUTCOMES) \<and>
    (\<forall>f \<in> set (blocking (screen_document (en_hmac en) (en_salt en) (normalise_text (iq_content q)))).
       \<exists>p \<in> set (kn_dispositions kn). in_scope (iq_source q) (iq_ref q) (en_sha256 en (iq_content q)) p \<and>
         kp_fingerprint p = fi_fingerprint f \<and> kp_kind p = FALSE_POSITIVE \<and>
         (\<forall>p' \<in> set (kn_dispositions kn). in_scope (iq_source q) (iq_ref q) (en_sha256 en (iq_content q)) p' \<and>
            kp_fingerprint p' = fi_fingerprint f \<longrightarrow> kp_at p' \<le> kp_at p))"
proof -
  obtain a kn0 where opens: "opened now q who (en_sha256 en (iq_content q)) rid kn = (a, kn0)" by fastforce
  note canonical = opened_canonical [OF opens]
  from assms(1) opens show ?thesis
  proof (cases rule: ingest_cases)
    case (stored r chunks v)
    have "blocking fs = filter (\<lambda>f. fi_severity f = BLOCKING) fs" for fs by (simp add: blocking_def)
    with stored show ?thesis
      by (auto simp: gate_open_def intro!: cleared_by stores_outcome)
  next
    case (refused c fs e)
    with canonical assms(2) show ?thesis by (meson close_attempt_canonical)
  next
    case (unchanged oc v c)
    with canonical assms(2) show ?thesis by (meson close_attempt_canonical)
  qed (use assms(2) canonical in auto)
qed


section \<open>The record of submissions\<close>

text \<open>
  What the attempt says of how the submission ended.  \<open>PENDING\<close> says that it passed every check and failed
  in storing, with an error nobody handles.
\<close>

definition tells :: "bool \<Rightarrow> attempt_row \<Rightarrow> acop_error + ingest_result \<Rightarrow> bool" where
  "tells checked a res \<longleftrightarrow> (case res of
     Inr r \<Rightarrow> ka_id a = ir_attempt r \<and> ka_outcome a = ir_outcome r \<and> ka_document a = ir_document r \<and>
       ka_error a = None \<and> ka_finished a \<noteq> None \<and>
       (ir_outcome r \<in> set CANONICAL_OUTCOMES \<and> ka_version a = ir_version r \<or>
        ir_outcome r \<in> {IO_UNCHANGED, IO_UNCHANGED_TEXT} \<and> ka_version a = None)
   | Inl e \<Rightarrow> ka_version a = None \<and>
       (if ka_outcome a = IO_PENDING
        then ka_finished a = None \<and> ka_error a = None \<and> checked \<and> (e = UnhandledError \<or> (\<exists>c. e = IntegrityError c))
        else ka_finished a \<noteq> None \<and> (\<exists>code. ka_error a = Some code \<and> (ka_outcome a, code, e) \<in> refusal_answers) \<and>
          (ka_outcome a = IO_REJECTED_SECRET \<longrightarrow> 0 < ka_blocking a)))"

lemma stores_run:
  assumes "stores en now q who sp a chunks v r kn kn'"
  obtains s rows vectors kn1 where "find_row ks_id (iq_source q) (kn_sources kn) = Some s"
    "stored_as en now q (find_document q kn) (current_version (find_document q kn) kn) (normalise_text (iq_content q))
       chunks vectors sp s v rows kn kn1"
    "v = new_version now q who (kv_document v) (current_version (find_document q kn) kn) (en_sha256 en (iq_content q))
       (en_sha256 en (normalise_text (iq_content q))) (length (normalise_text (iq_content q)))
       (advisory (screen_document (en_hmac en) (en_salt en) (normalise_text (iq_content q)))) (ka_id a) (kv_id v)"
    "close_attempt now a ((ends_as (ir_outcome r))\<lparr>cl_document := Some (kv_document v), cl_version := Some (kv_id v),
       cl_text_hash := Some (en_sha256 en (normalise_text (iq_content q))), cl_chunks := Some (length rows),
       cl_embedded := Some (length vectors)\<rparr>) [] kn1 = Inr kn'"
    "same_canonical kn1 kn'"
    "\<exists>fr. kn_findings kn1 = kn_findings kn @ fr \<and> (\<forall>f \<in> set fr. kf_id f < kn_next kn1)"
  using assms unfolding stores_def
  by (elim exE conjE) (meson persist_run close_attempt_canonical that)

lemma closed_last:
  assumes "numbered kn" and "opened now q who raw_hash rid kn = (a, kn0)"
    and "kn_attempts kn1 = kn_attempts kn0" and "close_attempt now a c fs kn1 = Inr kn'"
  shows "kn_attempts kn' = kn_attempts kn @ [closed_attempt now c a]"
proof -
  have rows: "kn_attempts kn0 = kn_attempts kn @ [a]" and a: "ka_id a = kn_next kn"
    using assms(2) by (auto simp: opened_def Let_def new_attempt_def)
  have "ka_id b \<noteq> ka_id a" if "b \<in> set (kn_attempts kn)" for b using numberedD(6) [OF assms(1) that] a by simp
  with rows show ?thesis by (simp add: close_attempt_frame(9) [OF assms(4)] assms(3) upd_rows_append upd_rows_none)
qed

text \<open>
  C34. Every submission to a known source leaves exactly one new attempt, committed whatever became of
  the submission, which names the request and tells how it ended: the outcome and the version of one
  that was answered, the reason of one that was refused, with an error code that goes with the error the
  caller gets, an unavailable embedding provider included.  The attempt is closed with it.  It stays
  \<open>PENDING\<close> only where the submission had passed every check, the gate and the provider's availability
  among them, and storing it failed with an error nobody handles.
\<close>

theorem every_submission_is_recorded:
  assumes "ingest en now q who sp rid kn = (res, kn')" and "numbered kn"
    and "find_row ks_id (iq_source q) (kn_sources kn) \<noteq> None"
  shows "\<exists>a. kn_attempts kn' = kn_attempts kn @ [a] \<and> ka_source a = iq_source q \<and> ka_ref a = iq_ref q \<and>
    ka_raw_hash a = en_sha256 en (iq_content q) \<and> ka_by a = to_audit_fields who \<and>
    tells (left_pending en q sp kn) a res"
proof -
  let ?pending = "left_pending en q sp kn"
  obtain a kn0 where opens: "opened now q who (en_sha256 en (iq_content q)) rid kn = (a, kn0)" by fastforce
  then have a: "a = new_attempt now q who (en_sha256 en (iq_content q)) rid (kn_next kn)"
    and rows: "kn_attempts kn0 = kn_attempts kn @ [a]" by (auto simp: opened_def Let_def)
  have names: "ka_source (closed_attempt now c a) = iq_source q \<and> ka_ref (closed_attempt now c a) = iq_ref q \<and>
      ka_raw_hash (closed_attempt now c a) = en_sha256 en (iq_content q) \<and>
      ka_by (closed_attempt now c a) = to_audit_fields who" for c
    by (simp add: a new_attempt_def closed_attempt_def)
  note last = closed_last [OF assms(2) opens]
  from assms(1) opens show ?thesis
  proof (cases rule: ingest_cases)
    case (unopened e)
    with assms(3) show ?thesis by simp
  next
    case (refused c fs e)
    then have "tells ?pending (closed_attempt now c a) res"
      by (auto simp: tells_def is_refusal_def closed_attempt_def refusal_answers_def)
    with last [OF refl refused(3)] names show ?thesis by blast
  next
    case (unchanged oc v c)
    then have "tells ?pending (closed_attempt now c a) res"
      by (auto simp: tells_def closed_attempt_def ends_as_def same_content_def)
    with last [OF refl unchanged(6)] names show ?thesis by blast
  next
    case (crashed e)
    then have "tells ?pending a res" by (simp add: tells_def a new_attempt_def crash_def)
    with crashed rows show ?thesis by (auto simp: a new_attempt_def)
  next
    case (stored r chunks v)
    from stored(4) obtain s rows vectors kn1 where "stored_as en now q (find_document q kn0)
        (current_version (find_document q kn0) kn0) (normalise_text (iq_content q)) chunks vectors sp s v rows kn0 kn1"
      and closed: "close_attempt now a ((ends_as (ir_outcome r))\<lparr>cl_document := Some (kv_document v),
        cl_version := Some (kv_id v), cl_text_hash := Some (en_sha256 en (normalise_text (iq_content q))),
        cl_chunks := Some (length rows), cl_embedded := Some (length vectors)\<rparr>) [] kn1 = Inr kn'"
      by (rule stores_run)
    then have same: "kn_attempts kn1 = kn_attempts kn0" by (simp add: stored_as_def)
    have "tells ?pending (closed_attempt now ((ends_as (ir_outcome r))\<lparr>cl_document := Some (kv_document v),
        cl_version := Some (kv_id v), cl_text_hash := Some (en_sha256 en (normalise_text (iq_content q))),
        cl_chunks := Some (length rows), cl_embedded := Some (length vectors)\<rparr>) a) res"
      using stored(2,4) stores_outcome [OF stored(4)]
      by (auto simp: tells_def closed_attempt_def ends_as_def stores_def)
    with last [OF same closed] names show ?thesis by blast
  qed
qed

end
