(* ===== verification/Ingest_History.thy ===== *)
theory Ingest_History
  imports Ingest_Facts
begin

text \<open>
  What a stored version is, and what ingestion does to the versions before it: resubmission,
  revert, and the history that is never rewritten.
\<close>

section \<open>Finding what was stored\<close>

lemma find_upd_rows:
  "(\<And>r. p r \<Longrightarrow> P (f r) = P r) \<Longrightarrow> find P (upd_rows p f rows) = map_option (\<lambda>r. if p r then f r else r) (find P rows)"
  by (induction rows) auto

lemma find_append: "find P (xs @ ys) = (case find P xs of None \<Rightarrow> find P ys | Some x \<Rightarrow> Some x)"
  by (induction xs) auto

definition same_target :: "ingest_request \<Rightarrow> ingest_request \<Rightarrow> bool" where
  "same_target q q' \<longleftrightarrow> iq_source q' = iq_source q \<and> iq_ref q' = iq_ref q"

lemma find_document_target: "same_target q q' \<Longrightarrow> find_document q' kn = find_document q kn"
  by (simp add: find_document_def same_target_def)

lemma find_document_id: "find_document q kn = Some d \<Longrightarrow> d \<in> set (kn_documents kn)"
  unfolding find_document_def find_Some_iff by (auto)

lemma same_canonical_reads:
  assumes "same_canonical kn kn'"
  shows "find_document q kn' = find_document q kn" "current_version d kn' = current_version d kn"
    "submission_valid q kn' = submission_valid q kn"
  using assms
  by (simp_all add: find_document_def current_version_def submission_valid_def same_canonical_def split: option.splits)

lemma superseded_find:
  assumes "\<forall>w \<in> set rows. kv_id w \<noteq> kv_id v" and "\<forall>w. current = Some w \<longrightarrow> w \<in> set rows"
  shows "find_row kv_id (kv_id v) (superseded_versions now current (rows @ [v])) = Some v"
proof -
  have "find_row kv_id (kv_id v) rows = None" using assms(1) by (auto simp: find_row_None)
  with assms show ?thesis
    by (auto simp: superseded_versions_def find_row_upd_rows find_row_append split: option.splits)
qed

lemma current_version_in: "current_version d kn = Some v \<Longrightarrow> v \<in> set (kn_versions kn)"
  by (auto simp: current_version_def split: option.splits dest: find_row_SomeD)

lemma stored_is_current:
  assumes stored: "stored_as en now q (find_document q kn) (current_version (find_document q kn) kn) text' chunks vectors sp s v
      rows kn kn'"
    and fresh: "numbered kn"
  shows "\<exists>d. find_document q kn' = Some d \<and> kd_id d = kv_document v \<and> kd_current d = Some (kv_id v) \<and>
    current_version (Some d) kn' = Some v"
proof -
  let ?p = "\<lambda>d. kd_source d = iq_source q \<and> kd_ref d = iq_ref q \<and> kd_state d = KL_ACTIVE"
  have docs: "kn_documents kn' = upd_rows (\<lambda>r. kd_id r = kv_document v)
       (\<lambda>r. r\<lparr>kd_current := Some (kv_id v), kd_title := iq_title q\<rparr>)
       (kn_documents kn @ (case find_document q kn of None \<Rightarrow> [new_document q (kn_next kn)] | Some d \<Rightarrow> []))"
    and versions: "kn_versions kn' = superseded_versions now (current_version (find_document q kn) kn) (kn_versions kn @ [v])"
    and ids: "kv_document v = (case find_document q kn of None \<Rightarrow> kn_next kn | Some d \<Rightarrow> kd_id d)" "kn_next kn \<le> kv_id v"
    using stored by (simp_all add: stored_as_def)
  have "\<exists>d. find_document q kn' = Some d \<and> kd_id d = kv_document v \<and> kd_current d = Some (kv_id v)"
  proof (cases "find_document q kn")
    case None
    then have "find ?p (kn_documents kn) = None" by (simp add: find_document_def)
    then have "find ?p (kn_documents kn @ [new_document q (kn_next kn)]) = Some (new_document q (kn_next kn))"
      by (simp add: find_append new_document_def)
    with None show ?thesis
      by (simp add: find_document_def docs find_upd_rows ids(1)) (simp add: new_document_def)
  next
    case (Some d)
    then have "find ?p (kn_documents kn) = Some d" by (simp add: find_document_def)
    with Some show ?thesis by (simp add: find_document_def docs find_upd_rows find_append ids(1))
  qed
  moreover have "find_row kv_id (kv_id v) (kn_versions kn') = Some v"
    unfolding versions
    by (rule superseded_find) (use numberedD(3) [OF fresh] ids(2) current_version_in in \<open>fastforce+\<close>)
  ultimately show ?thesis by (auto simp: current_version_def)
qed

section \<open>Resubmission\<close>

lemma numbered_opened: "numbered kn \<Longrightarrow> opened now q who h rid kn = (a, kn0) \<Longrightarrow> numbered kn0"
  by (auto simp: opened_def Let_def numbered_def list_all_iff ball_Un less_Suc_eq new_attempt_def)

lemma unchanged_content:
  assumes "submission_valid q kn" and "current_version (find_document q kn) kn = Some v" and "same_content en q v oc th"
    and "ingest en now q who sp rid kn = (res, kn')"
  shows "same_canonical kn kn' \<and> res = Inr \<lparr>ir_attempt = kn_next kn, ir_outcome = oc,
      ir_document = map_option kd_id (find_document q kn), ir_version = Some (kv_id v), ir_no = Some (kv_no v),
      ir_chunks = 0, ir_embedded = 0, ir_advisory = 0\<rparr>"
proof -
  obtain a kn0 where opens: "opened now q who (en_sha256 en (iq_content q)) rid kn = (a, kn0)" by fastforce
  then have a: "ka_id a = kn_next kn" "kn0 = kn\<lparr>kn_attempts := kn_attempts kn @ [a], kn_next := Suc (kn_next kn)\<rparr>"
    by (auto simp: opened_def Let_def new_attempt_def)
  obtain s where s: "find_row ks_id (iq_source q) (kn_sources kn) = Some s" "ks_state s = KL_ACTIVE"
    using assms(1) by (auto simp: submission_valid_def)
  have known: "find_row ks_id (iq_source q) (kn_sources kn) \<noteq> None" using s by simp
  note here = opened_known [OF opens known]
  have "ingest en now q who sp rid kn = ingest_into en now q who sp a (en_sha256 en (iq_content q)) kn0"
    by (simp add: ingest_def Let_def open_attempt_run [OF opens] here(1))
  moreover have "ingest_into en now q who sp a (en_sha256 en (iq_content q)) kn0 =
      unchanged now a oc (find_document q kn0) v th kn0"
    using assms(1-3) s a(2) by (auto simp: ingest_into_def Let_def submission_valid_def same_content_def)
  ultimately have run: "unchanged now a oc (find_document q kn0) v th kn0 = (res, kn')" using assms(4) by simp
  from unchanged_run [OF run assms(3) here(2,3)] a show ?thesis
    by (auto dest!: close_attempt_canonical)
qed


text \<open>
  C32. Resubmission: after a submission was accepted, the same content for the same target changes
  nothing and is answered with the version that is there, whoever asks, with whatever title or space, and
  even when the embedding provider is down or the screen would now refuse it.
\<close>

theorem resubmission_is_idempotent:
  assumes "ingest en now q who sp rid kn = (Inr r, kn')" and "numbered kn"
    and "same_target q q'" "iq_content q' = iq_content q" "iq_media q' = iq_media q" "en_sha256 en' = en_sha256 en"
    and "ingest en' now' q' who' sp' rid' kn' = (res, kn'')"
  shows "same_canonical kn' kn'' \<and> (\<exists>r'. res = Inr r' \<and> ir_outcome r' \<in> {IO_UNCHANGED, IO_UNCHANGED_TEXT} \<and>
    ir_document r' = ir_document r \<and> ir_version r' = ir_version r \<and> ir_no r' = ir_no r)"
proof -
  note target = find_document_target [OF assms(3)]
  have valid: "submission_valid q' k = submission_valid q k" for k
    using assms(3-5) by (simp add: submission_valid_def same_target_def)
  have same: "same_content en' q' = same_content en q" by (intro ext) (simp add: same_content_def assms(4,6))
  obtain a kn0 where opens: "opened now q who (en_sha256 en (iq_content q)) rid kn = (a, kn0)" by fastforce
  obtain v where v: "submission_valid q kn'" "current_version (find_document q kn') kn' = Some v"
    "\<exists>oc. same_content en q v oc (kv_text_hash v)" "ir_version r = Some (kv_id v)" "ir_no r = Some (kv_no v)"
    "ir_document r = map_option kd_id (find_document q kn')"
    using assms(1) opens
  proof (cases rule: ingest_cases)
    case (unchanged oc v c)
    with opened_canonical [OF opens] have "same_canonical kn kn'" by (meson close_attempt_canonical)
    from same_canonical_reads [OF this] unchanged that [of v] show ?thesis by auto
  next
    case (stored r' chunks v)
    then have r: "r' = r" by simp
    have kn0: "find_document q kn0 = find_document q kn" "submission_valid q kn0"
      using opens stored(1) by (auto simp: opened_def Let_def)
    from stored(4) obtain s rows vectors kn1 where
      run: "stored_as en now q (find_document q kn0) (current_version (find_document q kn0) kn0)
        (normalise_text (iq_content q)) chunks vectors sp s v rows kn0 kn1" and
      shape: "v = new_version now q who (kv_document v) (current_version (find_document q kn0) kn0)
        (en_sha256 en (iq_content q)) (en_sha256 en (normalise_text (iq_content q)))
        (length (normalise_text (iq_content q)))
        (advisory (screen_document (en_hmac en) (en_salt en) (normalise_text (iq_content q)))) (ka_id a) (kv_id v)" and
      last: "same_canonical kn1 kn'"
      by (rule stores_run)
    from stored_is_current [OF run numbered_opened [OF assms(2) opens]] obtain d where
      "find_document q kn1 = Some d" "kd_id d = kv_document v" "current_version (Some d) kn1 = Some v" by auto
    moreover have "submission_valid q kn1" using kn0(2) run by (simp add: submission_valid_def stored_as_def)
    moreover have "kv_raw_hash v = en_sha256 en (iq_content q)" by (subst shape) (simp add: new_version_def)
    moreover have "ir_version r = Some (kv_id v)" "ir_no r = Some (kv_no v)" "ir_document r = Some (kv_document v)"
      using stored(4) by (auto simp: stores_def r)
    ultimately show ?thesis
      using that [of v] same_canonical_reads [OF last] by (auto simp: same_content_def)
  qed simp_all
  then obtain oc where same': "same_content en' q' v oc (kv_text_hash v)" unfolding same by blast
  from v(1,2) have "submission_valid q' kn'" "current_version (find_document q' kn') kn' = Some v"
    unfolding valid target .
  from unchanged_content [OF this same' assms(7)] v(4-6) same' show ?thesis
    unfolding target by (auto simp: same_content_def)
qed


section \<open>Revert\<close>



end
