(* ===== verification/Knowledge_Life.thy ===== *)
theory Knowledge_Life
  imports Knowledge_Catalog Ingest_History
begin

text \<open>
  Knowledge as it is served: \<open>api/routes/knowledge_sources.py\<close>, \<open>knowledge_documents.py\<close> and the space routes of
  \<open>knowledge_search.py\<close>.  Every call ends in a state that keeps the invariant \<open>kn_ok\<close> and everything a
  citation rests on.
\<close>

section \<open>Requests\<close>

datatype kn_request =
  CreateSource source_registration
| ReclassifySource uuid "trust_class option" "sensitivity option"
| RetireSource uuid
| IngestDocument ingest_request "uuid option"
| RetireDocument uuid
| RecordDisposition uuid disposition_kind string
| RegisterSpace space_registration
| VerifyPrefixes uuid

text \<open>
  The identity alias of each route; the two space routes take any principal and then check for
  the admin role.
\<close>

fun kn_roles :: "kn_request \<Rightarrow> role list" where
  "kn_roles (CreateSource r) = OperatorPrincipal"
| "kn_roles (IngestDocument q sp) = OperatorPrincipal"
| "kn_roles (RegisterSpace r) = AdminPrincipal"
| "kn_roles (VerifyPrefixes i) = AdminPrincipal"
| "kn_roles _ = ApproverPrincipal"

text \<open>The audit record of a call; every one is a success of severity \<open>INFO\<close>.\<close>

record kn_event =
  ne_action :: string
  ne_resource_type :: string
  ne_resource_id :: "uuid option"
  ne_by :: audit_fields

definition kn_success :: "string \<Rightarrow> string \<Rightarrow> uuid option \<Rightarrow> principal \<Rightarrow> kn_event" where
  "kn_success action kind i who = \<lparr>ne_action = action, ne_resource_type = kind, ne_resource_id = i, ne_by = to_audit_fields who\<rparr>"

definition commit :: "knowledge \<Rightarrow> ('a \<Rightarrow> kn_event) \<Rightarrow> 'a kn_run \<Rightarrow> (acop_error + kn_event) \<times> knowledge" where
  "commit kn event m = (case m of Inl e \<Rightarrow> (Inl e, kn) | Inr (x, kn') \<Rightarrow> (Inr (event x), kn'))"

definition ingest_space :: "uuid option \<Rightarrow> knowledge \<Rightarrow> acop_error + space_row" where
  "ingest_space i kn = (case i of Some j \<Rightarrow> get_space j kn | None \<Rightarrow> default_space kn)"

text \<open>
  The handlers, one per route.  What a failed ingestion leaves behind is its attempt, committed on its own.
\<close>

definition create_source_route :: "principal \<Rightarrow> source_registration \<Rightarrow> knowledge \<Rightarrow> (acop_error + kn_event) \<times> knowledge" where
  "create_source_route who r kn = commit kn
     (\<lambda>s. kn_success ''knowledge.source.create'' ''knowledge.source'' (Some (ks_id s)) who) (create_source r who kn)"

definition reclassify_source_route ::
  "principal \<Rightarrow> uuid \<Rightarrow> trust_class option \<Rightarrow> sensitivity option \<Rightarrow> knowledge \<Rightarrow> (acop_error + kn_event) \<times> knowledge" where
  "reclassify_source_route who i t c kn = commit kn
     (\<lambda>x. kn_success ''knowledge.source.reclassify'' ''knowledge.source'' (Some i) who) (reclassify_source i who t c kn)"

definition retire_source_route :: "int \<Rightarrow> principal \<Rightarrow> uuid \<Rightarrow> knowledge \<Rightarrow> (acop_error + kn_event) \<times> knowledge" where
  "retire_source_route now who i kn = commit kn
     (\<lambda>x. kn_success ''knowledge.source.retire'' ''knowledge.source'' (Some i) who) (retire_source now i who kn)"

definition ingest_document ::
  "ingest_env \<Rightarrow> int \<Rightarrow> principal \<Rightarrow> ingest_request \<Rightarrow> uuid option \<Rightarrow> knowledge \<Rightarrow> (acop_error + kn_event) \<times> knowledge" where
  "ingest_document en now who q sp kn = (case ingest_space sp kn of
     Inl e \<Rightarrow> (Inl e, kn)
   | Inr s \<Rightarrow> (case ingest en now q who s None kn of
       (Inl e, kn') \<Rightarrow> (Inl e, kn')
     | (Inr r, kn') \<Rightarrow> (Inr (kn_success ''knowledge.document.ingest'' ''knowledge.document'' (ir_document r) who), kn')))"

definition retire_document_route :: "int \<Rightarrow> principal \<Rightarrow> uuid \<Rightarrow> knowledge \<Rightarrow> (acop_error + kn_event) \<times> knowledge" where
  "retire_document_route now who i kn = commit kn
     (\<lambda>x. kn_success ''knowledge.document.retire'' ''knowledge.document'' (Some i) who) (retire_document now i who kn)"

definition record_disposition_route ::
  "int \<Rightarrow> principal \<Rightarrow> uuid \<Rightarrow> disposition_kind \<Rightarrow> string \<Rightarrow> knowledge \<Rightarrow> (acop_error + kn_event) \<times> knowledge" where
  "record_disposition_route now who i k reason kn = commit kn
     (\<lambda>x. kn_success ''knowledge.finding.dispose'' ''knowledge.finding'' (Some i) who)
     (record_disposition now i who k reason kn)"

definition register_space_route :: "principal \<Rightarrow> space_registration \<Rightarrow> knowledge \<Rightarrow> (acop_error + kn_event) \<times> knowledge" where
  "register_space_route who r kn = commit kn
     (\<lambda>s. kn_success ''knowledge.embedding_space.register'' ''knowledge.embedding_space'' (Some (sp_id s)) who)
     (register_space r kn)"

definition verify_prefixes :: "int \<Rightarrow> principal \<Rightarrow> uuid \<Rightarrow> knowledge \<Rightarrow> (acop_error + kn_event) \<times> knowledge" where
  "verify_prefixes now who i kn = commit kn
     (\<lambda>x. kn_success ''knowledge.embedding_space.verify_prefixes'' ''knowledge.embedding_space'' (Some i) who)
     (mark_prefixes_verified now i (p_subject who) kn)"

fun kn_perform :: "ingest_env \<Rightarrow> int \<Rightarrow> principal \<Rightarrow> kn_request \<Rightarrow> knowledge \<Rightarrow> (acop_error + kn_event) \<times> knowledge" where
  "kn_perform en now who (CreateSource r) kn = create_source_route who r kn"
| "kn_perform en now who (ReclassifySource i t c) kn = reclassify_source_route who i t c kn"
| "kn_perform en now who (RetireSource i) kn = retire_source_route now who i kn"
| "kn_perform en now who (IngestDocument q sp) kn = ingest_document en now who q sp kn"
| "kn_perform en now who (RetireDocument i) kn = retire_document_route now who i kn"
| "kn_perform en now who (RecordDisposition i k reason) kn = record_disposition_route now who i k reason kn"
| "kn_perform en now who (RegisterSpace r) kn = register_space_route who r kn"
| "kn_perform en now who (VerifyPrefixes i) kn = verify_prefixes now who i kn"

lemmas kn_routes [simp] = create_source_route_def reclassify_source_route_def retire_source_route_def ingest_document_def
  retire_document_route_def record_disposition_route_def register_space_route_def verify_prefixes_def

definition kn_call ::
  "ingest_env \<Rightarrow> int \<Rightarrow> principal \<Rightarrow> kn_request \<Rightarrow> knowledge \<Rightarrow> (acop_error + kn_event) \<times> knowledge" where
  "kn_call en now who r kn = (case require_roles (kn_roles r) who of
     Inl e \<Rightarrow> (Inl e, kn) | Inr p \<Rightarrow> kn_perform en now p r kn)"

text \<open>The audit trail is written in the transaction of the call.\<close>

record kn_world =
  nw_kn :: knowledge
  nw_audit :: "kn_event list"

definition kn_serve :: "ingest_env \<Rightarrow> int \<Rightarrow> principal \<Rightarrow> kn_request \<Rightarrow> kn_world \<Rightarrow> kn_world" where
  "kn_serve en now who r w = (case kn_call en now who r (nw_kn w) of
     (Inl e, kn') \<Rightarrow> w\<lparr>nw_kn := kn'\<rparr>
   | (Inr event, kn') \<Rightarrow> w\<lparr>nw_kn := kn', nw_audit := nw_audit w @ [event]\<rparr>)"

text \<open>Any number of calls, from a knowledge base with nothing in it.\<close>

definition empty_knowledge :: knowledge where
  "empty_knowledge = \<lparr>kn_sources = [], kn_documents = [], kn_versions = [], kn_chunks = [], kn_vectors = [],
     kn_spaces = [], kn_attempts = [], kn_findings = [], kn_dispositions = [], kn_next = 1\<rparr>"

inductive kn_reachable :: "knowledge \<Rightarrow> bool" where
  kn_start: "kn_reachable empty_knowledge"
| kn_step: "kn_reachable kn \<Longrightarrow> kn_call en now who r kn = (e, kn') \<Longrightarrow> kn_reachable kn'"

section \<open>What every state keeps\<close>

text \<open>A vector is served from a chunk of the current version of an active document in an active source.\<close>

definition servable :: "knowledge \<Rightarrow> vector_row \<Rightarrow> bool" where
  "servable kn x \<longleftrightarrow> (\<exists>c \<in> set (kn_chunks kn). \<exists>d \<in> set (kn_documents kn). \<exists>s \<in> set (kn_sources kn).
     kc_id c = kx_chunk x \<and> kd_id d = kc_document c \<and> ks_id s = kc_source c \<and>
     kd_state d = KL_ACTIVE \<and> kd_current d = Some (kc_version c) \<and> ks_state s = KL_ACTIVE)"

definition keys_distinct :: "knowledge \<Rightarrow> bool" where
  "keys_distinct kn \<longleftrightarrow> distinct (map ks_id (kn_sources kn)) \<and> distinct (map kd_id (kn_documents kn)) \<and>
     distinct (map kv_id (kn_versions kn)) \<and> distinct (map kc_id (kn_chunks kn))"

definition chunks_placed :: "knowledge \<Rightarrow> bool" where
  "chunks_placed kn \<longleftrightarrow> (\<forall>c \<in> set (kn_chunks kn).
     (\<exists>v \<in> set (kn_versions kn). kv_id v = kc_version c \<and> kv_document v = kc_document c) \<and>
     (\<exists>d \<in> set (kn_documents kn). kd_id d = kc_document c \<and> kd_source d = kc_source c))"

definition vectors_placed :: "knowledge \<Rightarrow> bool" where
  "vectors_placed kn \<longleftrightarrow> (\<forall>x \<in> set (kn_vectors kn).
     (\<exists>c \<in> set (kn_chunks kn). kc_id c = kx_chunk x \<and> kc_document c = kx_document x \<and> kc_source c = kx_source x) \<and>
     (\<exists>s \<in> set (kn_sources kn). ks_id s = kx_source x \<and> ks_sensitivity s = kx_sensitivity x) \<and>
     kn_spaces kn \<noteq> [])"

definition documents_placed :: "knowledge \<Rightarrow> bool" where
  "documents_placed kn \<longleftrightarrow> (\<forall>d \<in> set (kn_documents kn).
     (\<exists>s \<in> set (kn_sources kn). ks_id s = kd_source d) \<and>
     (\<forall>i. kd_current d = Some i \<longrightarrow> (\<exists>v \<in> set (kn_versions kn). kv_id v = i \<and> kv_document v = kd_id d)))"

definition served_right :: "knowledge \<Rightarrow> bool" where
  "served_right kn \<longleftrightarrow> (\<forall>x \<in> set (kn_vectors kn). kx_retrievable x \<longrightarrow> servable kn x)"

definition one_family :: "knowledge \<Rightarrow> bool" where
  "one_family kn \<longleftrightarrow> (\<forall>s \<in> set (kn_spaces kn). sp_dimensions s = D768)"

definition kn_ok :: "knowledge \<Rightarrow> bool" where
  "kn_ok kn \<longleftrightarrow> numbered kn \<and> keys_distinct kn \<and> chunks_placed kn \<and> vectors_placed kn \<and> documents_placed kn \<and>
     served_right kn \<and> one_family kn"

lemmas kn_parts = keys_distinct_def chunks_placed_def vectors_placed_def documents_placed_def served_right_def
  one_family_def servable_def

text \<open>
  What is never lost: chunks, findings and judgements only grow, a version changes in nothing but the mark that it
  was superseded, a vector in nothing but its sensitivity and in leaving retrieval.
\<close>

definition frozen_version :: "version_row \<Rightarrow> version_row" where
  "frozen_version v = v\<lparr>kv_superseded_at := None\<rparr>"

definition frozen_vector :: "vector_row \<Rightarrow> vector_row" where
  "frozen_vector x = x\<lparr>kx_retrievable := False, kx_sensitivity := PUBLIC\<rparr>"

definition grows_by :: "('r \<Rightarrow> 'k) \<Rightarrow> 'r list \<Rightarrow> 'r list \<Rightarrow> bool" where
  "grows_by f rows rows' \<longleftrightarrow> (\<exists>more. map f rows' = map f rows @ more)"

definition kn_grows :: "knowledge \<Rightarrow> knowledge \<Rightarrow> bool" where
  "kn_grows kn kn' \<longleftrightarrow> grows_by id (kn_chunks kn) (kn_chunks kn') \<and>
     grows_by frozen_version (kn_versions kn) (kn_versions kn') \<and>
     grows_by frozen_vector (kn_vectors kn) (kn_vectors kn') \<and>
     (\<forall>i < length (kn_vectors kn). kx_retrievable (kn_vectors kn' ! i) \<longrightarrow> kx_retrievable (kn_vectors kn ! i)) \<and>
     grows_by (\<lambda>s. (ks_id s, ks_kind s, ks_title s)) (kn_sources kn) (kn_sources kn') \<and>
     grows_by (\<lambda>d. (kd_id d, kd_source d, kd_ref d)) (kn_documents kn) (kn_documents kn') \<and>
     grows_by id (kn_attempts kn) (kn_attempts kn') \<and>
     grows_by id (kn_findings kn) (kn_findings kn') \<and> grows_by id (kn_dispositions kn) (kn_dispositions kn') \<and>
     kn_next kn \<le> kn_next kn'"

lemma grows_by_refl [simp]: "grows_by f xs xs"
  by (simp add: grows_by_def)

lemma grows_by_trans: "grows_by f xs ys \<Longrightarrow> grows_by f ys zs \<Longrightarrow> grows_by f xs zs"
  by (auto simp: grows_by_def)

lemma grows_by_append [simp]: "grows_by f xs (xs @ ys)"
  by (simp add: grows_by_def)

lemma grows_by_upd [simp]: "(\<And>r. p r \<Longrightarrow> f (h r) = f r) \<Longrightarrow> grows_by f xs (upd_rows p h xs)"
  by (simp add: grows_by_def map_upd_rows_frame)

lemma grows_by_length: "grows_by f xs ys \<Longrightarrow> length xs \<le> length ys"
  unfolding grows_by_def by (metis length_map length_append le_add1)

interpretation kn_evolution: evolving_state kn_ok kn_grows
proof unfold_locales
  show "kn_grows s s" for s by (simp add: kn_grows_def)
next
  fix s t u assume st: "kn_grows s t" and tu: "kn_grows t u"
  have "length (kn_vectors s) \<le> length (kn_vectors t)" using st unfolding kn_grows_def by (meson grows_by_length)
  with st tu have "\<forall>i < length (kn_vectors s). kx_retrievable (kn_vectors u ! i) \<longrightarrow> kx_retrievable (kn_vectors s ! i)"
    unfolding kn_grows_def by (meson less_le_trans)
  moreover have "kn_next s \<le> kn_next u" using st tu by (simp add: kn_grows_def)
  ultimately show "kn_grows s u"
    using st tu unfolding kn_grows_def by (blast intro: grows_by_trans)
qed

end
