(* ===== verification/Knowledge_Invariants.thy ===== *)
theory Knowledge_Invariants
  imports Knowledge_Life
begin

text \<open>
  Every call keeps \<open>kn_ok\<close> and \<open>kn_grows\<close>: the operations of the catalogue and of the spaces first, then
  ingestion, then the theorems about reachable states.
\<close>

section \<open>Frames\<close>

lemma kn_ok_frame:
  assumes "kn_ok kn" and "same_canonical kn kn'" and "numbered kn'"
  shows "kn_ok kn'"
  using assms unfolding kn_ok_def kn_parts same_canonical_def by simp

lemma kn_grows_frame:
  assumes "same_canonical kn kn'" and "grows_by id (kn_attempts kn) (kn_attempts kn')"
    and "grows_by id (kn_findings kn) (kn_findings kn')" and "kn_next kn \<le> kn_next kn'"
  shows "kn_grows kn kn'"
  using assms by (simp add: kn_grows_def same_canonical_def)

lemma replaced:
  assumes "key s' = i"
  shows "map key (upd_rows (\<lambda>r. key r = i) (\<lambda>r. s') rows) = map key rows"
    and "find_row key i rows = Some s \<Longrightarrow> find_row key i (upd_rows (\<lambda>r. key r = i) (\<lambda>r. s') rows) = Some s'"
  using assms by (induction rows) auto

lemma distinct_row: "distinct (map key rows) \<Longrightarrow> r \<in> set rows \<Longrightarrow> r' \<in> set rows \<Longrightarrow> key r = key r' \<Longrightarrow> r = r'"
  by (metis find_row_distinct option.inject)

lemma key_of_filtered:
  assumes "distinct (map key rows)" and "r \<in> set rows"
  shows "key r \<in> set (map key (filter p rows)) \<longleftrightarrow> p r"
proof
  assume "key r \<in> set (map key (filter p rows))"
  then obtain r' where "r' \<in> set rows" "p r'" "key r' = key r" by auto
  with distinct_row [OF assms] show "p r" by metis
next
  assume "p r"
  with assms(2) show "key r \<in> set (map key (filter p rows))" by simp
qed

lemma numbered_iff: "numbered kn \<longleftrightarrow> (\<forall>s \<in> set (kn_sources kn). ks_id s < kn_next kn) \<and>
    (\<forall>d \<in> set (kn_documents kn). kd_id d < kn_next kn) \<and> (\<forall>v \<in> set (kn_versions kn). kv_id v < kn_next kn) \<and>
    (\<forall>c \<in> set (kn_chunks kn). kc_id c < kn_next kn) \<and> (\<forall>x \<in> set (kn_vectors kn). kx_id x < kn_next kn) \<and>
    (\<forall>s \<in> set (kn_spaces kn). sp_id s < kn_next kn) \<and> (\<forall>a \<in> set (kn_attempts kn). ka_id a < kn_next kn) \<and>
    (\<forall>f \<in> set (kn_findings kn). kf_id f < kn_next kn) \<and> (\<forall>p \<in> set (kn_dispositions kn). kp_id p < kn_next kn)"
  by (simp add: numbered_def list_all_iff ball_Un)

text \<open>Which vectors an update by chunk reaches.\<close>

lemma vector_of:
  assumes "kn_ok kn" and "x \<in> set (kn_vectors kn)"
  obtains c where "c \<in> set (kn_chunks kn)" "kc_id c = kx_chunk x" "kc_source c = kx_source x" "kc_document c = kx_document x"
    and "\<And>p. kx_chunk x \<in> set (map kc_id (filter p (kn_chunks kn))) \<longleftrightarrow> p c"
proof -
  from assms obtain c where c: "c \<in> set (kn_chunks kn)" "kc_id c = kx_chunk x" "kc_document c = kx_document x"
    "kc_source c = kx_source x" by (auto simp: kn_ok_def vectors_placed_def)
  have "distinct (map kc_id (kn_chunks kn))" using assms(1) by (simp add: kn_ok_def keys_distinct_def)
  note key_of_filtered [OF this c(1), unfolded c(2)]
  with c that show thesis by blast
qed

lemma families_run: "families kn = Inr ds \<Longrightarrow> ds = remdups (map sp_dimensions (kn_spaces kn))"
  by (auto simp: families_def Let_def res_simps)

lemma reaches_families:
  "kn_ok kn \<Longrightarrow> families kn = Inr ds \<Longrightarrow> x \<in> set (kn_vectors kn) \<Longrightarrow> ds \<noteq> []"
  by (auto dest!: families_run simp: kn_ok_def vectors_placed_def)

section \<open>Sources and documents\<close>

text \<open>One source and the vectors of its chunks change together.\<close>

lemma source_update:
  assumes ok: "kn_ok kn" and s: "find_row ks_id i (kn_sources kn) = Some s" and "ks_id s' = i"
    and same: "ks_kind s' = ks_kind s" "ks_title s' = ks_title s"
    and hit: "\<And>x. x \<in> set (kn_vectors kn) \<Longrightarrow> hit x \<Longrightarrow> kx_source x = i"
    and all: "\<And>x. x \<in> set (kn_vectors kn) \<Longrightarrow> kx_source x = i \<Longrightarrow>
      kx_sensitivity (if hit x then g x else x) = ks_sensitivity s' \<and>
      (ks_state s' = KL_ACTIVE \<and> ks_state s = KL_ACTIVE \<or> \<not> kx_retrievable (if hit x then g x else x))"
    and g: "\<And>x. frozen_vector (g x) = frozen_vector x" "\<And>x. kx_retrievable (g x) \<Longrightarrow> kx_retrievable x"
    and kn': "kn' = kn\<lparr>kn_sources := upd_rows (\<lambda>r. ks_id r = i) (\<lambda>r. s') (kn_sources kn),
      kn_vectors := upd_rows hit g (kn_vectors kn)\<rparr>"
  shows "kn_ok kn' \<and> kn_grows kn kn'"
proof -
  let ?u = "\<lambda>x. if hit x then g x else x" and ?v = "\<lambda>r. if ks_id r = i then s' else r"
  have fields: "kx_id (g x) = kx_id x" "kx_chunk (g x) = kx_chunk x" "kx_source (g x) = kx_source x"
    "kx_document (g x) = kx_document x" "kx_space (g x) = kx_space x" for x
    using arg_cong [OF g(1) [of x], of kx_id] arg_cong [OF g(1) [of x], of kx_chunk]
      arg_cong [OF g(1) [of x], of kx_source] arg_cong [OF g(1) [of x], of kx_document]
      arg_cong [OF g(1) [of x], of kx_space] by (simp_all add: frozen_vector_def)
  have s_in: "s \<in> set (kn_sources kn)" "ks_id s = i" using find_row_SomeD [OF s] by auto
  have only: "r = s" if "r \<in> set (kn_sources kn)" "ks_id r = i" for r
    using distinct_row [of ks_id "kn_sources kn" r s] ok that s_in by (simp add: kn_ok_def keys_distinct_def)
  have vectors: "set (kn_vectors kn') = ?u ` set (kn_vectors kn)" "set (kn_sources kn') = ?v ` set (kn_sources kn)"
    by (simp_all add: kn' set_upd_rows)
  have u: "kx_chunk (?u x) = kx_chunk x" "kx_source (?u x) = kx_source x" "kx_document (?u x) = kx_document x" for x
    by (simp_all add: fields)
  have ids: "map kx_id (kn_vectors kn') = map kx_id (kn_vectors kn)" "map ks_id (kn_sources kn') = map ks_id (kn_sources kn)"
    using assms(3) by (auto simp: kn' intro!: map_upd_rows_frame fields)
  have others: "kn_documents kn' = kn_documents kn" "kn_versions kn' = kn_versions kn" "kn_chunks kn' = kn_chunks kn"
    "kn_spaces kn' = kn_spaces kn" "kn_next kn' = kn_next kn" "kn_attempts kn' = kn_attempts kn"
    "kn_findings kn' = kn_findings kn" "kn_dispositions kn' = kn_dispositions kn" by (simp_all add: kn')
  have "numbered kn'" using ok by (simp add: kn_ok_def numbered_def ids others)
  moreover have "keys_distinct kn'" using ok by (simp add: kn_ok_def keys_distinct_def ids others)
  moreover have "chunks_placed kn'" using ok by (simp add: kn_ok_def chunks_placed_def others)
  moreover have "documents_placed kn'"
    unfolding documents_placed_def others vectors
  proof (intro ballI conjI)
    fix d assume d: "d \<in> set (kn_documents kn)"
    with ok obtain r where "r \<in> set (kn_sources kn)" "ks_id r = kd_source d"
      by (auto simp: kn_ok_def documents_placed_def)
    then show "\<exists>r \<in> ?v ` set (kn_sources kn). ks_id r = kd_source d" using assms(3) by (intro bexI [of _ "?v r"]) auto
    from ok d show "\<forall>i. kd_current d = Some i \<longrightarrow> (\<exists>v \<in> set (kn_versions kn). kv_id v = i \<and> kv_document v = kd_id d)"
      by (simp add: kn_ok_def documents_placed_def)
  qed
  moreover have "one_family kn'" using ok by (simp add: kn_ok_def one_family_def others)
  moreover have "vectors_placed kn'"
    unfolding vectors_placed_def vectors
  proof (intro ballI conjI)
    fix y assume "y \<in> ?u ` set (kn_vectors kn)"
    then obtain x where x: "x \<in> set (kn_vectors kn)" "y = ?u x" by blast
    from ok x(1) have placed: "\<exists>c \<in> set (kn_chunks kn). kc_id c = kx_chunk x \<and> kc_document c = kx_document x \<and>
        kc_source c = kx_source x" "\<exists>r \<in> set (kn_sources kn). ks_id r = kx_source x \<and> ks_sensitivity r = kx_sensitivity x"
      "kn_spaces kn \<noteq> []"
      by (auto simp: kn_ok_def vectors_placed_def)
    from placed(1) show "\<exists>c \<in> set (kn_chunks kn'). kc_id c = kx_chunk y \<and> kc_document c = kx_document y \<and>
        kc_source c = kx_source y" unfolding others x(2) u .
    show "kn_spaces kn' \<noteq> []" using placed(3) by (simp add: others)
    show "\<exists>r \<in> ?v ` set (kn_sources kn). ks_id r = kx_source y \<and> ks_sensitivity r = kx_sensitivity y"
    proof (cases "kx_source x = i")
      case True
      with all [OF x(1)] s_in assms(3) show ?thesis unfolding x(2) u by (intro bexI [of _ s'] image_eqI [of _ _ s]) auto
    next
      case False
      with hit x(1) have "y = x" using x(2) by auto
      with placed(2) False show ?thesis by fastforce
    qed
  qed
  moreover have "served_right kn'"
    unfolding served_right_def vectors
  proof (intro ballI impI)
    fix y assume "y \<in> ?u ` set (kn_vectors kn)" and on: "kx_retrievable y"
    then obtain x where x: "x \<in> set (kn_vectors kn)" "y = ?u x" by blast
    have "kx_retrievable x" using on g(2) x(2) by (auto split: if_splits)
    with ok x(1) obtain c d r where sv: "c \<in> set (kn_chunks kn)" "d \<in> set (kn_documents kn)" "r \<in> set (kn_sources kn)"
      "kc_id c = kx_chunk x" "kd_id d = kc_document c" "ks_id r = kc_source c" "kd_state d = KL_ACTIVE"
      "kd_current d = Some (kc_version c)" "ks_state r = KL_ACTIVE"
      by (auto simp: kn_ok_def served_right_def servable_def)
    have "ks_id (?v r) = kc_source c" using sv(6) assms(3) by simp
    moreover have "ks_state (?v r) = KL_ACTIVE"
    proof (cases "ks_id r = i")
      case True
      obtain c' where c': "c' \<in> set (kn_chunks kn)" "kc_id c' = kx_chunk x" "kc_source c' = kx_source x"
        using vector_of [OF ok x(1)] by blast
      have "c' = c" using distinct_row [of kc_id "kn_chunks kn" c' c] ok sv(1,4) c' by (simp add: kn_ok_def keys_distinct_def)
      with c' True sv(6) have "kx_source x = i" by simp
      from all [OF x(1) this] on x(2) True show ?thesis by auto
    qed (simp add: sv(9))
    ultimately show "servable kn' y"
      unfolding servable_def others vectors x(2) u using sv by blast
  qed
  ultimately have "kn_ok kn'" by (simp add: kn_ok_def)
  moreover have "kn_grows kn kn'"
    unfolding kn_grows_def others
  proof (intro conjI grows_by_refl le_refl allI impI)
    show "grows_by frozen_vector (kn_vectors kn) (kn_vectors kn')" by (simp add: kn' g(1))
    show "grows_by (\<lambda>s. (ks_id s, ks_kind s, ks_title s)) (kn_sources kn) (kn_sources kn')"
    proof -
      have "map (\<lambda>s. (ks_id s, ks_kind s, ks_title s)) (kn_sources kn') = map (\<lambda>s. (ks_id s, ks_kind s, ks_title s)) (kn_sources kn)"
        using only same assms(3) s_in(2) by (auto simp: kn' upd_rows_def)
      then show ?thesis by (simp add: grows_by_def)
    qed
    fix k assume "k < length (kn_vectors kn)" "kx_retrievable (kn_vectors kn' ! k)"
    then show "kx_retrievable (kn_vectors kn ! k)"
      by (auto simp: kn' upd_rows_def g(2) split: if_splits)
  qed
  ultimately show ?thesis ..
qed


lemma upholdsI: "(\<And>x kn'. kn_ok kn \<Longrightarrow> m = Inr (x, kn') \<Longrightarrow> kn_ok kn' \<and> kn_grows kn kn') \<Longrightarrow> upholds kn_ok kn_grows kn m"
  by (auto simp: upholds_def)

lemma upd_rows_cong: "(\<And>r. r \<in> set rows \<Longrightarrow> p r = q r) \<Longrightarrow> upd_rows p f rows = upd_rows q f rows"
  by (simp add: upd_rows_def)

text \<open>The vectors reached by the chunks that satisfy a predicate on what a vector copies from its chunk.\<close>

lemma reached:
  assumes "kn_ok kn" and "families (kn\<lparr>kn_sources := rows, kn_documents := docs\<rparr>) = Inr ds"
    and "\<And>c x. kc_source c = kx_source x \<Longrightarrow> kc_document c = kx_document x \<Longrightarrow> p c = q x"
  shows "upd_rows (\<lambda>x. ds \<noteq> [] \<and> kx_chunk x \<in> set (map kc_id (filter p (kn_chunks kn))) \<and> h x) f (kn_vectors kn) =
    upd_rows (\<lambda>x. q x \<and> h x) f (kn_vectors kn)"
proof (rule upd_rows_cong)
  fix x assume x: "x \<in> set (kn_vectors kn)"
  with assms(1,2) have "ds \<noteq> []" by (auto dest!: families_run simp: kn_ok_def vectors_placed_def)
  moreover obtain c where "kc_source c = kx_source x" "kc_document c = kx_document x"
    "kx_chunk x \<in> set (map kc_id (filter p (kn_chunks kn))) \<longleftrightarrow> p c"
    using vector_of [OF assms(1) x] by metis
  ultimately show "(ds \<noteq> [] \<and> kx_chunk x \<in> set (map kc_id (filter p (kn_chunks kn))) \<and> h x) = (q x \<and> h x)"
    using assms(3) by metis
qed

lemma source_sensitivity:
  assumes "kn_ok kn" and "find_row ks_id i (kn_sources kn) = Some s" and "x \<in> set (kn_vectors kn)" and "kx_source x = i"
  shows "kx_sensitivity x = ks_sensitivity s"
proof -
  from assms(1,3,4) obtain r where "r \<in> set (kn_sources kn)" "ks_id r = i" "ks_sensitivity r = kx_sensitivity x"
    by (auto simp: kn_ok_def vectors_placed_def)
  moreover from this have "r = s"
    using distinct_row [of ks_id "kn_sources kn" r s] find_row_SomeD [OF assms(2)] assms(1)
    by (simp add: kn_ok_def keys_distinct_def)
  ultimately show ?thesis by simp
qed

lemma source_state:
  assumes "kn_ok kn" and "find_row ks_id i (kn_sources kn) = Some s" and "x \<in> set (kn_vectors kn)" and "kx_source x = i"
  shows "kx_retrievable x \<Longrightarrow> ks_state s = KL_ACTIVE"
proof -
  assume "kx_retrievable x"
  with assms(1,3) obtain c r where sv: "c \<in> set (kn_chunks kn)" "r \<in> set (kn_sources kn)" "kc_id c = kx_chunk x"
    "ks_id r = kc_source c" "ks_state r = KL_ACTIVE"
    by (auto simp: kn_ok_def served_right_def servable_def)
  obtain c' where c': "c' \<in> set (kn_chunks kn)" "kc_id c' = kx_chunk x" "kc_source c' = kx_source x"
    using vector_of [OF assms(1,3)] by blast
  have "c' = c" using distinct_row [of kc_id "kn_chunks kn" c' c] assms(1) sv(1,3) c' by (simp add: kn_ok_def keys_distinct_def)
  then have "r = s"
    using distinct_row [of ks_id "kn_sources kn" r s] find_row_SomeD [OF assms(2)] assms(1,4) sv c'
    by (simp add: kn_ok_def keys_distinct_def)
  with sv(5) show ?thesis by simp
qed

lemma create_source_upholds: "upholds kn_ok kn_grows kn (create_source r who kn)"
proof (rule upholdsI)
  fix s kn' assume ok: "kn_ok kn" and run: "create_source r who kn = Inr (s, kn')"
  from run have s: "ks_id s = kn_next kn" "kn' = kn\<lparr>kn_sources := kn_sources kn @ [s], kn_next := Suc (kn_next kn)\<rparr>"
    by (auto simp: create_source_def add_source_def Let_def res_simps)
  have "\<forall>r \<in> set (kn_sources kn). ks_id r \<noteq> kn_next kn"
    using ok numberedD(1) by (fastforce simp: kn_ok_def)
  then have "keys_distinct kn'" using ok by (auto simp: kn_ok_def keys_distinct_def s)
  moreover have "numbered kn'" using ok by (auto simp: kn_ok_def numbered_def s list_all_iff ball_Un less_Suc_eq)
  ultimately have "kn_ok kn'" using ok by (fastforce simp: kn_ok_def kn_parts s(2))
  then show "kn_ok kn' \<and> kn_grows kn kn'" by (simp add: kn_grows_def s)
qed

lemma put_source_run: "put_source s kn = Inr kn' \<longleftrightarrow> (\<forall>c \<in> set (source_checks s). snd c) \<and>
    kn' = kn\<lparr>kn_sources := upd_rows (\<lambda>r. ks_id r = ks_id s) (\<lambda>r. s) (kn_sources kn)\<rparr>"
  by (auto simp: put_source_def res_simps)

lemma kn_same_vectors: "kn\<lparr>kn_sources := x, kn_vectors := upd_rows (\<lambda>x. False) id (kn_vectors kn)\<rparr> = kn\<lparr>kn_sources := x\<rparr>"
  by (simp add: upd_rows_none)

lemma retire_source_upholds: "upholds kn_ok kn_grows kn (retire_source now i who kn)"
proof (rule upholdsI)
  fix x kn' assume ok: "kn_ok kn" and run: "retire_source now i who kn = Inr (x, kn')"
  from run obtain s s' ds where s: "find_row ks_id i (kn_sources kn) = Some s" and
    s': "s' = s\<lparr>ks_state := KL_RETIRED, ks_retired_at := Some now, ks_retired_by := Some (p_subject who)\<rparr>" and
    ds: "families (kn\<lparr>kn_sources := upd_rows (\<lambda>r. ks_id r = ks_id s') (\<lambda>r. s') (kn_sources kn)\<rparr>) = Inr ds" and
    kn': "kn' = kn\<lparr>kn_sources := upd_rows (\<lambda>r. ks_id r = ks_id s') (\<lambda>r. s') (kn_sources kn),
      kn_vectors := upd_rows (\<lambda>x. ds \<noteq> [] \<and> kx_chunk x \<in> set (map kc_id (filter (\<lambda>c. kc_source c = i) (kn_chunks kn))) \<and>
        kx_retrievable x) (\<lambda>x. x\<lparr>kx_retrievable := False\<rparr>) (kn_vectors kn)\<rparr>"
    by (auto simp: retire_source_def get_source_def put_source_run retire_vectors_def res_simps Let_def split: option.splits)
  have id: "ks_id s' = i" using find_row_SomeD [OF s] by (simp add: s')
  have "families (kn\<lparr>kn_sources := upd_rows (\<lambda>r. ks_id r = ks_id s') (\<lambda>r. s') (kn_sources kn),
      kn_documents := kn_documents kn\<rparr>) = Inr ds" using ds by simp
  from reached [OF ok this, of "\<lambda>c. kc_source c = i" "\<lambda>x. kx_source x = i"]
  have kn'': "kn' = kn\<lparr>kn_sources := upd_rows (\<lambda>r. ks_id r = i) (\<lambda>r. s') (kn_sources kn),
      kn_vectors := upd_rows (\<lambda>x. kx_source x = i \<and> kx_retrievable x) (\<lambda>x. x\<lparr>kx_retrievable := False\<rparr>) (kn_vectors kn)\<rparr>"
    unfolding kn' id by simp
  have sens: "kx_sensitivity x = ks_sensitivity s'" if "x \<in> set (kn_vectors kn)" "kx_source x = i" for x
    using source_sensitivity [OF ok s that] by (simp add: s')
  show "kn_ok kn' \<and> kn_grows kn kn'"
    by (rule source_update [OF ok s id _ _ _ _ _ _ kn'']) (simp_all add: s' sens [unfolded s'] frozen_vector_def)
qed


lemma reclassify_source_upholds: "upholds kn_ok kn_grows kn (reclassify_source i who t c kn)"
proof (rule upholdsI)
  fix x kn' assume ok: "kn_ok kn" and run: "reclassify_source i who t c kn = Inr (x, kn')"
  from run obtain s s1 where s: "find_row ks_id i (kn_sources kn) = Some s" and
    s1: "(case t of None \<Rightarrow> Inr s | Some t' \<Rightarrow> andThen (guard_trust t' who) (\<lambda>_. Inr (s\<lparr>ks_trust := t'\<rparr>))) = Inr s1"
    by (auto simp: reclassify_source_def get_source_def res_simps split: option.splits)
  then have shape: "ks_kind s1 = ks_kind s" "ks_title s1 = ks_title s" "ks_id s1 = ks_id s" "ks_state s1 = ks_state s"
    "ks_sensitivity s1 = ks_sensitivity s" by (auto simp: res_simps split: option.splits)
  have id: "ks_id s = i" using find_row_SomeD [OF s] by simp
  show "kn_ok kn' \<and> kn_grows kn kn'"
  proof (cases "c \<noteq> None \<and> c \<noteq> Some (ks_sensitivity s)")
    case True
    define s2 where "s2 = s1\<lparr>ks_sensitivity := the c\<rparr>"
    let ?rows = "upd_rows (\<lambda>r. ks_id r = ks_id s2) (\<lambda>r. s2) (kn_sources kn)"
    have id2: "ks_id s2 = i" by (simp add: s2_def shape id)
    have found: "find_row ks_id i ?rows = Some s2" unfolding id2 by (rule replaced(2) [of ks_id, OF id2 s])
    from run s s1 True found obtain ds where ds: "families (kn\<lparr>kn_sources := ?rows\<rparr>) = Inr ds" and
      kn': "kn' = kn\<lparr>kn_sources := ?rows,
        kn_vectors := upd_rows (\<lambda>x. ds \<noteq> [] \<and> kx_chunk x \<in> set (map kc_id (filter (\<lambda>c. kc_source c = i) (kn_chunks kn))) \<and>
          kx_sensitivity x \<noteq> ks_sensitivity s2) (\<lambda>x. x\<lparr>kx_sensitivity := ks_sensitivity s2\<rparr>) (kn_vectors kn)\<rparr>"
      by (auto simp: reclassify_source_def get_source_def put_source_run resync_source_sensitivity_def res_simps
          Let_def s2_def [symmetric])
    have "families (kn\<lparr>kn_sources := ?rows, kn_documents := kn_documents kn\<rparr>) = Inr ds" using ds by simp
    from reached [OF ok this, of "\<lambda>c. kc_source c = i" "\<lambda>x. kx_source x = i"]
    have kn'': "kn' = kn\<lparr>kn_sources := upd_rows (\<lambda>r. ks_id r = i) (\<lambda>r. s2) (kn_sources kn),
        kn_vectors := upd_rows (\<lambda>x. kx_source x = i \<and> kx_sensitivity x \<noteq> ks_sensitivity s2)
          (\<lambda>x. x\<lparr>kx_sensitivity := ks_sensitivity s2\<rparr>) (kn_vectors kn)\<rparr>"
      unfolding kn' id2 by simp
    have unserved: "ks_state s = KL_ACTIVE \<or> \<not> kx_retrievable x" if "x \<in> set (kn_vectors kn)" "kx_source x = i" for x
      using source_state [OF ok s that] by blast
    show ?thesis
      by (rule source_update [OF ok s id2 _ _ _ _ _ _ kn''])
        (use unserved in \<open>auto simp: s2_def shape frozen_vector_def\<close>)
  next
    case False
    from run s s1 False have kn': "kn' = kn\<lparr>kn_sources := upd_rows (\<lambda>r. ks_id r = i) (\<lambda>r. s1) (kn_sources kn)\<rparr>"
      by (auto simp: reclassify_source_def get_source_def put_source_run res_simps shape(3) id)
    have unserved: "ks_state s = KL_ACTIVE \<or> \<not> kx_retrievable x" if "x \<in> set (kn_vectors kn)" "kx_source x = i" for x
      using source_state [OF ok s that] by blast
    show ?thesis
      by (rule source_update [where hit = "\<lambda>_. False" and g = id, OF ok s])
        (use unserved source_sensitivity [OF ok s] in \<open>auto simp: shape id kn' upd_rows_none\<close>)
  qed
qed

section \<open>Documents\<close>

lemma retire_document_upholds: "upholds kn_ok kn_grows kn (retire_document now i who kn)"
proof (rule upholdsI)
  fix x kn' assume ok: "kn_ok kn" and run: "retire_document now i who kn = Inr (x, kn')"
  from run obtain d d' ds where d: "find_row kd_id i (kn_documents kn) = Some d" and
    d': "d' = d\<lparr>kd_state := KL_RETIRED, kd_retired_at := Some now, kd_retired_by := Some (p_subject who)\<rparr>" and
    ds: "families (kn\<lparr>kn_documents := upd_rows (\<lambda>r. kd_id r = kd_id d') (\<lambda>r. d') (kn_documents kn)\<rparr>) = Inr ds" and
    kn': "kn' = kn\<lparr>kn_documents := upd_rows (\<lambda>r. kd_id r = kd_id d') (\<lambda>r. d') (kn_documents kn),
      kn_vectors := upd_rows (\<lambda>x. ds \<noteq> [] \<and> kx_chunk x \<in> set (map kc_id (filter (\<lambda>c. kc_document c = i) (kn_chunks kn))) \<and>
        kx_retrievable x) (\<lambda>x. x\<lparr>kx_retrievable := False\<rparr>) (kn_vectors kn)\<rparr>"
    by (auto simp: retire_document_def get_document_def put_document_def retire_vectors_def res_simps Let_def
        split: option.splits)
  have id: "kd_id d = i" "kd_id d' = i" and d_in: "d \<in> set (kn_documents kn)"
    using find_row_SomeD [OF d] by (simp_all add: d')
  have "families (kn\<lparr>kn_sources := kn_sources kn,
      kn_documents := upd_rows (\<lambda>r. kd_id r = kd_id d') (\<lambda>r. d') (kn_documents kn)\<rparr>) = Inr ds" using ds by simp
  from reached [OF ok this, of "\<lambda>c. kc_document c = i" "\<lambda>x. kx_document x = i"]
  have kn'': "kn' = kn\<lparr>kn_documents := upd_rows (\<lambda>r. kd_id r = i) (\<lambda>r. d') (kn_documents kn),
      kn_vectors := upd_rows (\<lambda>x. kx_document x = i \<and> kx_retrievable x) (\<lambda>x. x\<lparr>kx_retrievable := False\<rparr>) (kn_vectors kn)\<rparr>"
    unfolding kn' id by simp
  have only: "r = d" if "r \<in> set (kn_documents kn)" "kd_id r = i" for r
    using distinct_row [of kd_id "kn_documents kn" r d] ok that d_in id by (simp add: kn_ok_def keys_distinct_def)
  let ?v = "\<lambda>r. if kd_id r = i then d' else r"
  let ?u = "\<lambda>x. if kx_document x = i \<and> kx_retrievable x then x\<lparr>kx_retrievable := False\<rparr> else x"
  have v: "kd_id (?v r) = kd_id r" "r \<in> set (kn_documents kn) \<Longrightarrow> kd_source (?v r) = kd_source r \<and> kd_ref (?v r) = kd_ref r \<and>
      kd_current (?v r) = kd_current r" for r using only [of r] id by (auto simp: d')
  have sets: "set (kn_documents kn') = ?v ` set (kn_documents kn)" "set (kn_vectors kn') = ?u ` set (kn_vectors kn)"
    by (simp_all add: kn'' set_upd_rows)
  have ids: "map kd_id (kn_documents kn') = map kd_id (kn_documents kn)" "map kx_id (kn_vectors kn') = map kx_id (kn_vectors kn)"
    by (simp_all add: kn'' id replaced(1) map_upd_rows_frame)
  have others: "kn_sources kn' = kn_sources kn" "kn_versions kn' = kn_versions kn" "kn_chunks kn' = kn_chunks kn"
    "kn_spaces kn' = kn_spaces kn" "kn_next kn' = kn_next kn" "kn_attempts kn' = kn_attempts kn"
    "kn_findings kn' = kn_findings kn" "kn_dispositions kn' = kn_dispositions kn" by (simp_all add: kn'')
  have "numbered kn'" using ok by (simp add: kn_ok_def numbered_def ids others)
  moreover have "keys_distinct kn'" using ok by (simp add: kn_ok_def keys_distinct_def ids others)
  moreover have "one_family kn'" using ok by (simp add: kn_ok_def one_family_def others)
  moreover have "chunks_placed kn'"
    unfolding chunks_placed_def others sets
  proof (intro ballI conjI)
    fix c assume c: "c \<in> set (kn_chunks kn)"
    with ok show "\<exists>v \<in> set (kn_versions kn). kv_id v = kc_version c \<and> kv_document v = kc_document c"
      by (simp add: kn_ok_def chunks_placed_def)
    from ok c obtain r where r: "r \<in> set (kn_documents kn)" "kd_id r = kc_document c" "kd_source r = kc_source c"
      by (auto simp: kn_ok_def chunks_placed_def)
    have "kd_id (?v r) = kc_document c \<and> kd_source (?v r) = kc_source c"
      using v(1) [of r] v(2) [OF r(1)] r(2,3) by (simp only:)
    with r(1) show "\<exists>r \<in> ?v ` set (kn_documents kn). kd_id r = kc_document c \<and> kd_source r = kc_source c"
      by blast
  qed
  moreover have "documents_placed kn'"
    unfolding documents_placed_def others sets
  proof (intro ballI)
    fix r' assume "r' \<in> ?v ` set (kn_documents kn)"
    then obtain r where r: "r \<in> set (kn_documents kn)" "r' = ?v r" by blast
    from ok r(1) have "(\<exists>s \<in> set (kn_sources kn). ks_id s = kd_source r) \<and>
       (\<forall>i. kd_current r = Some i \<longrightarrow> (\<exists>v \<in> set (kn_versions kn). kv_id v = i \<and> kv_document v = kd_id r))"
      by (simp add: kn_ok_def documents_placed_def)
    then show "(\<exists>s \<in> set (kn_sources kn). ks_id s = kd_source r') \<and>
       (\<forall>i. kd_current r' = Some i \<longrightarrow> (\<exists>v \<in> set (kn_versions kn). kv_id v = i \<and> kv_document v = kd_id r'))"
      using v(1) [of r] v(2) [OF r(1)] unfolding r(2) by metis
  qed
  moreover have "vectors_placed kn'"
    using ok by (auto simp: kn_ok_def vectors_placed_def others sets)
  moreover have "served_right kn'"
    unfolding served_right_def sets
  proof (intro ballI impI)
    fix y assume "y \<in> ?u ` set (kn_vectors kn)" and on: "kx_retrievable y"
    then obtain x where x: "x \<in> set (kn_vectors kn)" "y = ?u x" by blast
    with on have "y = x" "kx_document x \<noteq> i" "kx_retrievable x" by (auto split: if_splits)
    with ok x obtain c r s where sv: "c \<in> set (kn_chunks kn)" "r \<in> set (kn_documents kn)" "s \<in> set (kn_sources kn)"
      "kc_id c = kx_chunk y" "kd_id r = kc_document c" "ks_id s = kc_source c" "kd_state r = KL_ACTIVE"
      "kd_current r = Some (kc_version c)" "ks_state s = KL_ACTIVE"
      by (auto simp: kn_ok_def served_right_def servable_def)
    obtain c' where c': "c' \<in> set (kn_chunks kn)" "kc_id c' = kx_chunk x" "kc_document c' = kx_document x"
      using vector_of [OF ok x(1)] by blast
    have "c' = c" using distinct_row [of kc_id "kn_chunks kn" c' c] ok sv(1,4) c' \<open>y = x\<close>
      by (simp add: kn_ok_def keys_distinct_def)
    with c' sv(5) \<open>kx_document x \<noteq> i\<close> have "kd_id r \<noteq> i" by simp
    then have "r \<in> set (kn_documents kn')" using sv(2) by (force simp: sets)
    then show "servable kn' y" unfolding servable_def others using sv by blast
  qed
  ultimately have "kn_ok kn'" by (simp add: kn_ok_def)
  moreover have "kn_grows kn kn'"
    unfolding kn_grows_def others
  proof (intro conjI grows_by_refl le_refl allI impI)
    show "grows_by frozen_vector (kn_vectors kn) (kn_vectors kn')" by (simp add: kn'' frozen_vector_def)
    have "map (\<lambda>d. (kd_id d, kd_source d, kd_ref d)) (kn_documents kn') = map (\<lambda>d. (kd_id d, kd_source d, kd_ref d)) (kn_documents kn)"
      using v by (auto simp: kn'' upd_rows_def id)
    then show "grows_by (\<lambda>d. (kd_id d, kd_source d, kd_ref d)) (kn_documents kn) (kn_documents kn')" by (simp add: grows_by_def)
    fix k assume "k < length (kn_vectors kn)" "kx_retrievable (kn_vectors kn' ! k)"
    then show "kx_retrievable (kn_vectors kn ! k)" by (auto simp: kn'' upd_rows_def split: if_splits)
  qed
  ultimately show "kn_ok kn' \<and> kn_grows kn kn'" ..
qed


section \<open>Judgements and spaces\<close>

lemma record_disposition_upholds: "upholds kn_ok kn_grows kn (record_disposition now i who k reason kn)"
proof (rule upholdsI)
  fix p kn' assume ok: "kn_ok kn" and run: "record_disposition now i who k reason kn = Inr (p, kn')"
  from run have p: "kp_id p = kn_next kn" "kn' = kn\<lparr>kn_dispositions := kn_dispositions kn @ [p], kn_next := Suc (kn_next kn)\<rparr>"
    by (auto simp: record_disposition_def add_disposition_def Let_def res_simps split: option.splits)
  have "numbered kn'" using ok by (auto simp: kn_ok_def numbered_def p list_all_iff ball_Un less_Suc_eq)
  with ok have "kn_ok kn'" by (simp add: kn_ok_def kn_parts p(2))
  then show "kn_ok kn' \<and> kn_grows kn kn'" by (simp add: kn_grows_def p)
qed

lemma spaces_update:
  assumes "kn_ok kn" and "map sp_id rows = map sp_id (kn_spaces kn)" and "\<forall>s \<in> set rows. sp_dimensions s = D768"
  shows "kn_ok (kn\<lparr>kn_spaces := rows\<rparr>) \<and> kn_grows kn (kn\<lparr>kn_spaces := rows\<rparr>)"
proof -
  have "rows \<noteq> [] \<longleftrightarrow> kn_spaces kn \<noteq> []" using assms(2) by auto
  then show ?thesis
    using assms by (simp add: kn_ok_def kn_parts numbered_def kn_grows_def)
qed

lemma set_default_upholds: "upholds kn_ok kn_grows kn (set_default i kn)"
proof (rule upholdsI)
  fix s kn' assume ok: "kn_ok kn" and run: "set_default i kn = Inr (s, kn')"
  from run obtain rows where kn': "kn' = kn\<lparr>kn_spaces := rows\<rparr>" and
    rows: "rows = upd_rows sp_default (\<lambda>t. t\<lparr>sp_default := False\<rparr>) (kn_spaces kn) \<or>
      rows = upd_rows (\<lambda>t. sp_id t = i) (\<lambda>t. t\<lparr>sp_default := True\<rparr>)
        (upd_rows sp_default (\<lambda>t. t\<lparr>sp_default := False\<rparr>) (kn_spaces kn))"
    by (auto simp: set_default_def get_space_def res_simps Let_def split: option.splits if_splits)
  have "map sp_id rows = map sp_id (kn_spaces kn)" using rows by (auto simp: map_upd_rows_frame)
  moreover have "\<forall>s \<in> set rows. sp_dimensions s = D768"
    using rows ok by (auto simp: kn_ok_def one_family_def set_upd_rows)
  ultimately show "kn_ok kn' \<and> kn_grows kn kn'" unfolding kn' by (rule spaces_update [OF ok])
qed

lemma mark_prefixes_verified_upholds: "upholds kn_ok kn_grows kn (mark_prefixes_verified now i subject kn)"
proof (rule upholdsI)
  fix s kn' assume ok: "kn_ok kn" and run: "mark_prefixes_verified now i subject kn = Inr (s, kn')"
  from run have kn': "kn' = kn\<lparr>kn_spaces := upd_rows (\<lambda>t. sp_id t = i)
      (\<lambda>t. t\<lparr>sp_verified_at := Some now, sp_verified_by := Some subject\<rparr>) (kn_spaces kn)\<rparr>"
    by (auto simp: mark_prefixes_verified_def res_simps Let_def)
  show "kn_ok kn' \<and> kn_grows kn kn'"
    unfolding kn' by (rule spaces_update [OF ok])
      (use ok in \<open>auto simp: map_upd_rows_frame kn_ok_def one_family_def set_upd_rows\<close>)
qed

lemma add_space_upholds:
  assumes "embedding_model_for (nat (rg_dimensions r)) = Inr u"
  shows "upholds kn_ok kn_grows kn (add_space (new_space r) kn)"
proof (rule upholdsI)
  fix s kn' assume ok: "kn_ok kn" and run: "add_space (new_space r) kn = Inr (s, kn')"
  from run have s: "sp_id s = kn_next kn" "sp_dimensions s = nat (rg_dimensions r)"
    "kn' = kn\<lparr>kn_spaces := kn_spaces kn @ [s], kn_next := Suc (kn_next kn)\<rparr>"
    by (auto simp: add_space_def new_space_def Let_def res_simps)
  have dims: "sp_dimensions s = D768" using assms s(2) by (simp add: embedding_model_for_def)
  have "numbered kn'" using ok by (auto simp: kn_ok_def numbered_def s list_all_iff ball_Un less_Suc_eq)
  with ok dims have "kn_ok kn'" by (auto simp: kn_ok_def kn_parts s(3))
  then show "kn_ok kn' \<and> kn_grows kn kn'" by (simp add: kn_grows_def s)
qed

lemma register_space_upholds: "upholds kn_ok kn_grows kn (register_space r kn)"
  unfolding register_space_def
  by (rule kn_evolution.upholds_pure, rule kn_evolution.upholds_pure, rule kn_evolution.upholds_pure,
      rule kn_evolution.upholds_pure, rule kn_evolution.upholds_pure, rule kn_evolution.upholds_bind,
      erule add_space_upholds, simp add: set_default_upholds)


section \<open>Ingestion\<close>

text \<open>A vector that is served at the target of a submission is served from the version that is current there.\<close>

lemma served_at_target:
  assumes ok: "kn_ok kn" and x: "x \<in> set (kn_vectors kn)" "kx_retrievable x"
    and c: "c \<in> set (kn_chunks kn)" "kc_id c = kx_chunk x" and d: "d \<in> set (kn_documents kn)" "kc_document c = kd_id d"
  shows "\<exists>w. current_version (Some d) kn = Some w \<and> kv_id w = kc_version c \<and> kx_chunk x \<in> set (chunks_of_version (kv_id w) kn)"
proof -
  from ok x obtain c' d' where sv: "c' \<in> set (kn_chunks kn)" "d' \<in> set (kn_documents kn)" "kc_id c' = kx_chunk x"
    "kd_id d' = kc_document c'" "kd_current d' = Some (kc_version c')"
    by (auto simp: kn_ok_def served_right_def servable_def)
  have keys: "distinct (map kc_id (kn_chunks kn))" "distinct (map kd_id (kn_documents kn))" "distinct (map kv_id (kn_versions kn))"
    using ok by (simp_all add: kn_ok_def keys_distinct_def)
  have "c' = c" using distinct_row [OF keys(1) sv(1) c(1)] sv(3) c(2) by simp
  then have "d' = d" using distinct_row [OF keys(2) sv(2) d(1)] sv(4) d(2) by simp
  from ok c(1) obtain w where w: "w \<in> set (kn_versions kn)" "kv_id w = kc_version c"
    by (auto simp: kn_ok_def chunks_placed_def)
  then have "find_row kv_id (kc_version c) (kn_versions kn) = Some w" using find_row_distinct [OF keys(3) w(1)] by simp
  then have "current_version (Some d) kn = Some w"
    using sv(5) \<open>c' = c\<close> \<open>d' = d\<close> by (simp add: current_version_def)
  moreover have "kx_chunk x \<in> set (chunks_of_version (kv_id w) kn)" 
    unfolding chunks_of_version_def using key_of_filtered [OF keys(1) c(1), unfolded c(2)] w(2) by simp
  ultimately show ?thesis using w(2) by blast
qed

lemma retired_vectors_sets: "set (retired_vectors current kn) = (\<lambda>x. if current \<noteq> None \<and>
    kx_chunk x \<in> set (chunks_of_version (kv_id (the current)) kn) then x\<lparr>kx_retrievable := False\<rparr> else x) ` set (kn_vectors kn)"
  by (cases current) (simp_all add: retired_vectors_def set_upd_rows)

lemma superseded_frozen: "map frozen_version (superseded_versions now current rows) = map frozen_version rows"
  by (auto simp: superseded_versions_def frozen_version_def map_upd_rows_frame split: option.splits)

lemma superseded_fields: "map (\<lambda>v. (kv_id v, kv_document v)) (superseded_versions now current rows) = map (\<lambda>v. (kv_id v, kv_document v)) rows"
  by (auto simp: superseded_versions_def map_upd_rows_frame split: option.splits)

lemma superseded_ids: "map kv_id (superseded_versions now current rows) = map kv_id rows"
  by (auto simp: superseded_versions_def map_upd_rows_frame split: option.splits)

lemma superseded_has:
  assumes "v \<in> set rows"
  shows "\<exists>w \<in> set (superseded_versions now current rows). kv_id w = kv_id v \<and> kv_document w = kv_document v"
proof -
  have "(kv_id v, kv_document v) \<in> set (map (\<lambda>v. (kv_id v, kv_document v)) (superseded_versions now current rows))"
    unfolding superseded_fields using assms by auto
  then show ?thesis by auto
qed


lemma stored_upholds:
  assumes ok: "kn_ok kn" and sp: "sp \<in> set (kn_spaces kn)"
    and s: "find_row ks_id (iq_source q) (kn_sources kn) = Some s" "ks_state s = KL_ACTIVE"
    and stored: "stored_as en now q (find_document q kn) (current_version (find_document q kn) kn) normalised chunks vectors sp s v
      rows kn kn'"
    and shape: "kv_superseded_at v = None"
    and findings: "kn_findings kn' = kn_findings kn @ fr" "\<forall>f \<in> set fr. kf_id f < kn_next kn'"
  shows "kn_ok kn' \<and> kn_grows kn kn'"
proof -
  let ?doc = "find_document q kn" and ?cur = "current_version (find_document q kn) kn"
  let ?did = "kv_document v"
  let ?docs = "kn_documents kn @ (case ?doc of None \<Rightarrow> [new_document q (kn_next kn)] | Some d \<Rightarrow> [])"
  let ?f = "\<lambda>r. if kd_id r = ?did then r\<lparr>kd_current := Some (kv_id v), kd_title := iq_title q\<rparr> else r"
  let ?u = "\<lambda>x. if ?cur \<noteq> None \<and> kx_chunk x \<in> set (chunks_of_version (kv_id (the ?cur)) kn)
    then x\<lparr>kx_retrievable := False\<rparr> else x"
  have docs: "kn_documents kn' = upd_rows (\<lambda>r. kd_id r = ?did)
       (\<lambda>r. r\<lparr>kd_current := Some (kv_id v), kd_title := iq_title q\<rparr>) ?docs"
    using stored unfolding stored_as_def by (elim conjE) assumption
  have same: "kn_sources kn' = kn_sources kn" "kn_spaces kn' = kn_spaces kn" "kn_attempts kn' = kn_attempts kn"
      "kn_dispositions kn' = kn_dispositions kn" "kn_next kn \<le> kn_next kn'"
    using stored unfolding stored_as_def by - (elim conjE, assumption)+
  have did: "?did = (case ?doc of None \<Rightarrow> kn_next kn | Some d \<Rightarrow> kd_id d)"
    using stored unfolding stored_as_def by (elim conjE) assumption
  have versions: "kn_versions kn' = superseded_versions now ?cur (kn_versions kn @ [v])"
    and chunks: "kn_chunks kn' = kn_chunks kn @ rows"
    using stored unfolding stored_as_def by - (elim conjE, assumption)+
  have row: "\<forall>i < length rows. rows ! i = new_chunk en v (ks_id s) (injection_ranges normalised) (chunks ! i) (kc_id (rows ! i)) \<and>
      kc_id (rows ! i) = Suc (kv_id v) + i"
    using stored unfolding stored_as_def by (elim conjE) assumption
  have ids: "Suc (kv_id v) + 2 * length rows \<le> kn_next kn'" "kn_next kn \<le> kv_id v"
      "?doc = None \<longrightarrow> kv_id v = Suc (kn_next kn)"
    using stored unfolding stored_as_def by - (elim conjE, assumption)+
  have "\<exists>vs. kn_vectors kn' = retired_vectors ?cur kn @ vs \<and> length vs = length rows \<and> length vectors = length rows \<and>
      (\<forall>i < length rows. vs ! i = new_vector s sp (rows ! i) (vectors ! i) (kx_id (vs ! i)) \<and>
        kx_id (vs ! i) = Suc (kv_id v) + length rows + i \<and> length (vectors ! i) = D768)"
    using stored unfolding stored_as_def by (elim conjE) assumption
  then obtain vs where
    vectors: "kn_vectors kn' = retired_vectors ?cur kn @ vs" "length vs = length rows" and
    vec: "\<forall>i < length rows. vs ! i = new_vector s sp (rows ! i) (vectors ! i) (kx_id (vs ! i)) \<and>
       kx_id (vs ! i) = Suc (kv_id v) + length rows + i \<and> length (vectors ! i) = D768"
    by blast
  have source: "s \<in> set (kn_sources kn)" "ks_id s = iq_source q" using find_row_SomeD [OF s(1)] by auto
  note num = numberedD [of kn] and numbered = ok [unfolded kn_ok_def, THEN conjunct1]
  have docset: "set (kn_documents kn') = ?f ` set ?docs" unfolding docs by (simp add: set_upd_rows)
  have f: "kd_id (?f r) = kd_id r" "kd_source (?f r) = kd_source r" "kd_ref (?f r) = kd_ref r" "kd_state (?f r) = kd_state r" for r
    by simp_all
  have vecset: "set (kn_vectors kn') = ?u ` set (kn_vectors kn) \<union> set vs"
    by (simp only: vectors(1) set_append retired_vectors_sets)
  have u: "kx_id (?u x) = kx_id x" "kx_chunk (?u x) = kx_chunk x" "kx_source (?u x) = kx_source x"
    "kx_document (?u x) = kx_document x" "kx_sensitivity (?u x) = kx_sensitivity x" for x by simp_all
  have newrow: "kc_version r = kv_id v \<and> kc_document r = ?did \<and> kc_source r = ks_id s \<and> kv_id v < kc_id r \<and>
      kc_id r < kn_next kn'" if "r \<in> set rows" for r
  proof -
    from that obtain i where i: "i < length rows" "r = rows ! i" by (auto simp: in_set_conv_nth)
    with row have r: "r = new_chunk en v (ks_id s) (injection_ranges normalised) (chunks ! i) (kc_id r)"
      "kc_id r = Suc (kv_id v) + i" by auto
    have "kc_version r = kv_id v" "kc_document r = ?did" "kc_source r = ks_id s"
      by (subst r(1), simp add: new_chunk_def)+
    moreover have "kv_id v < kc_id r" "kc_id r < kn_next kn'" using ids(1) i(1) r(2) by linarith+
    ultimately show ?thesis by blast
  qed
  have newvec: "\<exists>r \<in> set rows. kx_chunk y = kc_id r \<and> kx_source y = ks_id s \<and> kx_document y = ?did \<and>
      kx_sensitivity y = ks_sensitivity s \<and> kx_id y < kn_next kn'" if y: "y \<in> set vs" for y
  proof -
    from y vectors(2) obtain i where i: "i < length rows" "y = vs ! i" by (auto simp: in_set_conv_nth)
    with vec have y': "y = new_vector s sp (rows ! i) (vectors ! i) (kx_id y)" "kx_id y = Suc (kv_id v) + length rows + i"
      by auto
    have "rows ! i \<in> set rows" using i(1) by simp
    note r = newrow [OF this]
    have "kx_chunk y = kc_id (rows ! i)" "kx_source y = ks_id s" "kx_document y = kc_document (rows ! i)"
      "kx_sensitivity y = ks_sensitivity s" by (subst y'(1), simp add: new_vector_def)+
    moreover have "kx_id y < kn_next kn'" using ids(1) i(1) y'(2) by linarith
    ultimately show ?thesis using \<open>rows ! i \<in> set rows\<close> r by metis
  qed
  have doc_at: "\<exists>d \<in> set ?docs. kd_id d = ?did \<and> kd_source d = ks_id s \<and> kd_state d = KL_ACTIVE"
  proof (cases ?doc)
    case None
    then show ?thesis using did source(2) by (auto simp: new_document_def)
  next
    case (Some d)
    then have "d \<in> set (kn_documents kn)" "kd_source d = iq_source q" "kd_state d = KL_ACTIVE"
      unfolding find_document_def find_Some_iff by auto
    with Some did source(2) show ?thesis by auto
  qed
  then obtain d0 where d0: "d0 \<in> set (kn_documents kn')" "kd_id d0 = ?did" "kd_source d0 = ks_id s" "kd_state d0 = KL_ACTIVE"
    "kd_current d0 = Some (kv_id v)"
  proof -
    from doc_at obtain d where d: "d \<in> set ?docs" "kd_id d = ?did" "kd_source d = ks_id s" "kd_state d = KL_ACTIVE" by blast
    have "?f d \<in> set (kn_documents kn')" unfolding docset using d(1) by blast
    with d that [of "?f d"] show thesis by simp
  qed
  have v_in: "\<exists>w \<in> set (kn_versions kn'). kv_id w = kv_id v \<and> kv_document w = ?did"
    unfolding versions by (rule superseded_has) simp
  have docids: "map kd_id (kn_documents kn') = map kd_id ?docs"
    unfolding docs by (rule map_upd_rows_frame) simp
  have vids: "map kv_id (kn_versions kn') = map kv_id (kn_versions kn @ [v])"
    unfolding versions by (rule superseded_ids)
  have vv: "v' \<in> set (kn_versions kn) \<Longrightarrow> \<exists>w \<in> set (kn_versions kn'). kv_id w = kv_id v' \<and> kv_document w = kv_document v'" for v'
    unfolding versions by (rule superseded_has) simp
  have dd: "d \<in> set (kn_documents kn) \<Longrightarrow> ?f d \<in> set (kn_documents kn')" for d
    unfolding docset by simp
  have df: "\<exists>d' \<in> set (kn_documents kn'). kd_id d' = kd_id d \<and> kd_source d' = kd_source d" if "d \<in> set (kn_documents kn)" for d
    using dd [OF that] f [of d] by blast
  have numbered': "numbered kn'"
  proof -
    have "kd_id r < kn_next kn'" if "r \<in> set ?docs" for r
      using that numberedD(2) [OF numbered] ids same(5) by (fastforce simp: new_document_def split: option.splits)
    then have 1: "\<forall>i \<in> set (map kd_id (kn_documents kn')). i < kn_next kn'" unfolding docids by auto
    have 2: "\<forall>i \<in> set (map kv_id (kn_versions kn')). i < kn_next kn'"
      unfolding vids using numberedD(3) [OF numbered] ids(1) same(5) by fastforce
    have 3: "\<forall>c \<in> set (kn_chunks kn'). kc_id c < kn_next kn'"
      unfolding chunks using numberedD(4) [OF numbered] newrow same(5) by fastforce
    have 4: "\<forall>x \<in> set (kn_vectors kn'). kx_id x < kn_next kn'"
      unfolding vecset using numberedD(5) [OF numbered] newvec same(5) by fastforce
    have up: "i < kn_next kn \<Longrightarrow> i < kn_next kn'" for i using same(5) by simp
    note old = numbered [unfolded numbered_iff]
    show ?thesis
      unfolding numbered_iff
    proof (intro conjI)
      show "\<forall>d \<in> set (kn_documents kn'). kd_id d < kn_next kn'" "\<forall>v \<in> set (kn_versions kn'). kv_id v < kn_next kn'"
        using 1 2 by simp_all
      show "\<forall>f \<in> set (kn_findings kn'). kf_id f < kn_next kn'" using old findings up by auto
    qed (use 3 4 in \<open>simp_all add: same old up\<close>)
  qed
  have keys: "keys_distinct kn'"
  proof -
    have fresh: "kd_id d < kn_next kn" "kv_id w < kn_next kn" "kc_id c < kn_next kn"
      if "d \<in> set (kn_documents kn)" "w \<in> set (kn_versions kn)" "c \<in> set (kn_chunks kn)" for d w c
      using that numberedD [OF numbered] by blast+
    have 1: "distinct (map kd_id ?docs)"
      using ok numberedD(2) [OF numbered]
      by (fastforce simp: kn_ok_def keys_distinct_def new_document_def split: option.splits)
    have 2: "distinct (map kv_id (kn_versions kn @ [v]))"
      using ok numberedD(3) [OF numbered] ids(2) by (fastforce simp: kn_ok_def keys_distinct_def)
    have 3: "distinct (map kc_id rows)"
      unfolding distinct_conv_nth using row by simp
    have 4: "distinct (map kc_id (kn_chunks kn @ rows))"
      using ok 3 numberedD(4) [OF numbered] newrow ids(2) by (fastforce simp: kn_ok_def keys_distinct_def)
    show ?thesis
      using ok 1 2 4 by (simp add: kn_ok_def keys_distinct_def docids vids chunks same)
  qed
  have placed: "chunks_placed kn'"
    unfolding chunks_placed_def chunks
  proof
    fix c assume "c \<in> set (kn_chunks kn @ rows)"
    then consider "c \<in> set (kn_chunks kn)" | "c \<in> set rows" by auto
    then show "(\<exists>w \<in> set (kn_versions kn'). kv_id w = kc_version c \<and> kv_document w = kc_document c) \<and>
       (\<exists>d \<in> set (kn_documents kn'). kd_id d = kc_document c \<and> kd_source d = kc_source c)"
    proof cases
      case 1
      with ok obtain w d where "w \<in> set (kn_versions kn)" "kv_id w = kc_version c" "kv_document w = kc_document c"
        "d \<in> set (kn_documents kn)" "kd_id d = kc_document c" "kd_source d = kc_source c"
        by (auto simp: kn_ok_def chunks_placed_def)
      with vv [of w] df [of d] show ?thesis by simp
    next
      case 2
      with newrow v_in d0 show ?thesis by metis
    qed
  qed
  have docs_placed: "documents_placed kn'"
    unfolding documents_placed_def same
  proof
    fix d' assume "d' \<in> set (kn_documents kn')"
    then obtain d where d: "d \<in> set ?docs" "d' = ?f d" unfolding docset by blast
    have old: "(\<exists>s \<in> set (kn_sources kn). ks_id s = kd_source d) \<and>
        (\<forall>i. kd_current d = Some i \<longrightarrow> (\<exists>w \<in> set (kn_versions kn). kv_id w = i \<and> kv_document w = kd_id d))"
    proof (cases "d \<in> set (kn_documents kn)")
      case True
      with ok show ?thesis by (simp add: kn_ok_def documents_placed_def)
    next
      case False
      with d(1) have "d = new_document q (kn_next kn)" by (auto split: option.splits)
      with source show ?thesis by (auto simp: new_document_def)
    qed
    show "(\<exists>s \<in> set (kn_sources kn). ks_id s = kd_source d') \<and>
       (\<forall>i. kd_current d' = Some i \<longrightarrow> (\<exists>w \<in> set (kn_versions kn'). kv_id w = i \<and> kv_document w = kd_id d'))"
    proof (cases "kd_id d = ?did")
      case True
      with old v_in d(2) show ?thesis by simp
    next
      case False
      with d(2) have "d' = d" by simp
      have "\<exists>w \<in> set (kn_versions kn'). kv_id w = i \<and> kv_document w = kd_id d" if "kd_current d = Some i" for i
      proof -
        from old that obtain w where "w \<in> set (kn_versions kn)" "kv_id w = i" "kv_document w = kd_id d" by blast
        with vv [of w] show ?thesis by simp
      qed
      with old \<open>d' = d\<close> show ?thesis by simp
    qed
  qed
  have vec_placed: "vectors_placed kn'"
    unfolding vectors_placed_def vecset same chunks
  proof
    fix y assume "y \<in> ?u ` set (kn_vectors kn) \<union> set vs"
    then consider x where "x \<in> set (kn_vectors kn)" "y = ?u x" | "y \<in> set vs" by blast
    then show "(\<exists>c \<in> set (kn_chunks kn @ rows). kc_id c = kx_chunk y \<and> kc_document c = kx_document y \<and> kc_source c = kx_source y) \<and>
       (\<exists>s \<in> set (kn_sources kn). ks_id s = kx_source y \<and> ks_sensitivity s = kx_sensitivity y) \<and> kn_spaces kn \<noteq> []"
    proof cases
      case 1
      with ok have "(\<exists>c \<in> set (kn_chunks kn). kc_id c = kx_chunk x \<and> kc_document c = kx_document x \<and> kc_source c = kx_source x) \<and>
         (\<exists>s \<in> set (kn_sources kn). ks_id s = kx_source x \<and> ks_sensitivity s = kx_sensitivity x) \<and> kn_spaces kn \<noteq> []"
        by (simp add: kn_ok_def vectors_placed_def)
      then show ?thesis unfolding 1(2) u by auto
    next
      case 2
      with newvec obtain r where "r \<in> set rows" "kx_chunk y = kc_id r" "kx_source y = ks_id s" "kx_document y = ?did"
        "kx_sensitivity y = ks_sensitivity s" by blast
      with newrow source sp show ?thesis by fastforce
    qed
  qed
  have served: "served_right kn'"
    unfolding served_right_def vecset
  proof (intro ballI impI)
    fix y assume "y \<in> ?u ` set (kn_vectors kn) \<union> set vs" and on: "kx_retrievable y"
    then consider x where "x \<in> set (kn_vectors kn)" "y = ?u x" | "y \<in> set vs" by blast
    then show "servable kn' y"
    proof cases
      case 1
      with on have y: "y = x" "kx_retrievable x"
        and kept: "\<not> (?cur \<noteq> None \<and> kx_chunk x \<in> set (chunks_of_version (kv_id (the ?cur)) kn))"
        by (auto split: if_splits)
      with ok 1 obtain c d r where sv: "c \<in> set (kn_chunks kn)" "d \<in> set (kn_documents kn)" "r \<in> set (kn_sources kn)"
        "kc_id c = kx_chunk x" "kd_id d = kc_document c" "ks_id r = kc_source c" "kd_state d = KL_ACTIVE"
        "kd_current d = Some (kc_version c)" "ks_state r = KL_ACTIVE"
        by (auto simp: kn_ok_def served_right_def servable_def)
      have "kd_id d \<noteq> ?did"
      proof
        assume at: "kd_id d = ?did"
        show False
        proof (cases ?doc)
          case None
          with at did numberedD(2) [OF numbered sv(2)] show False by simp
        next
          case (Some d1)
          then have "kd_id d = kd_id d1" "d1 \<in> set (kn_documents kn)" using at did find_document_id by auto
          then have "d = d1" using distinct_row [of kd_id "kn_documents kn" d d1] ok sv(2) by (simp add: kn_ok_def keys_distinct_def)
          with served_at_target [OF ok 1(1) y(2) sv(1,4,2)] sv(5) Some kept show False by auto
        qed
      qed
      then have "d \<in> set (kn_documents kn')" using dd [OF sv(2)] by simp
      then show ?thesis unfolding servable_def chunks same y(1) using sv by auto
    next
      case 2
      with newvec obtain r where r: "r \<in> set rows" "kx_chunk y = kc_id r" by blast
      from newrow [OF r(1)] d0 source(1) s(2) r show ?thesis
        unfolding servable_def chunks same by (auto intro!: bexI [of _ r] bexI [of _ d0] bexI [of _ s])
    qed
  qed
  have family: "one_family kn'" using ok by (simp add: kn_ok_def one_family_def same)
  have "kn_grows kn kn'"
    unfolding kn_grows_def same
  proof (intro conjI grows_by_refl allI impI)
    show "grows_by id (kn_chunks kn) (kn_chunks kn')" by (simp add: chunks)
    show "grows_by frozen_version (kn_versions kn) (kn_versions kn')" by (simp add: grows_by_def versions superseded_frozen)
    have retired: "map frozen_vector (retired_vectors ?cur kn) = map frozen_vector (kn_vectors kn)"
      by (auto simp: retired_vectors_def frozen_vector_def map_upd_rows_frame split: option.splits)
    then show "grows_by frozen_vector (kn_vectors kn) (kn_vectors kn')" by (simp add: grows_by_def vectors)
    have "map (\<lambda>d. (kd_id d, kd_source d, kd_ref d)) (kn_documents kn') = map (\<lambda>d. (kd_id d, kd_source d, kd_ref d)) ?docs"
      unfolding docs by (rule map_upd_rows_frame) simp
    then show "grows_by (\<lambda>d. (kd_id d, kd_source d, kd_ref d)) (kn_documents kn) (kn_documents kn')" by (simp add: grows_by_def)
    show "grows_by id (kn_findings kn) (kn_findings kn')" by (simp add: findings)
    show "kn_next kn \<le> kn_next kn'" by (rule same(5))
    fix k assume k: "k < length (kn_vectors kn)" "kx_retrievable (kn_vectors kn' ! k)"
    have "length (retired_vectors ?cur kn) = length (kn_vectors kn)" using arg_cong [OF retired, of length] by simp
    with k have "kx_retrievable (retired_vectors ?cur kn ! k)" by (simp add: vectors(1) nth_append)
    with k(1) show "kx_retrievable (kn_vectors kn ! k)"
      by (auto simp: retired_vectors_def upd_rows_def split: option.splits if_splits)
  qed
  then show ?thesis
    using numbered' keys placed docs_placed vec_placed served family by (simp add: kn_ok_def)
qed


lemma opened_ok:
  assumes "kn_ok kn" and "opened now q who h rid kn = (a, kn0)"
  shows "kn_ok kn0" "kn_grows kn kn0"
proof -
  from assms(2) have kn0: "kn0 = kn\<lparr>kn_attempts := kn_attempts kn @ [a], kn_next := Suc (kn_next kn)\<rparr>"
    by (auto simp: opened_def Let_def)
  have "same_canonical kn kn0" by (simp add: kn0)
  then show "kn_ok kn0"
    by (rule kn_ok_frame [OF assms(1)]) (use assms numbered_opened in \<open>auto simp: kn_ok_def\<close>)
  show "kn_grows kn kn0" by (rule kn_grows_frame) (simp_all add: kn0)
qed

lemma closed_ok:
  assumes "kn_ok kn" and close: "close_attempt now a c fs kn = Inr kn'"
  shows "kn_ok kn'"
proof -
  note frame = close_attempt_frame [OF close]
  obtain fr where fr: "kn_findings kn' = kn_findings kn @ fr" "\<forall>f \<in> set fr. kf_id f < kn_next kn'" using frame(10) by blast
  have ids: "map ka_id (kn_attempts kn') = map ka_id (kn_attempts kn)"
    unfolding frame(9) by (rule map_upd_rows_frame) (simp add: closed_attempt_def)
  have up: "i < kn_next kn \<Longrightarrow> i < kn_next kn'" for i using frame(8) by simp
  have old: "numbered kn" using assms(1) by (simp add: kn_ok_def)
  then have "\<forall>i \<in> set (map ka_id (kn_attempts kn')). i < kn_next kn'" unfolding ids by (simp add: numbered_iff up)
  then have "numbered kn'"
    unfolding numbered_iff using fr old [unfolded numbered_iff] up by (auto simp: frame(1-7))
  then show ?thesis by (rule kn_ok_frame [OF assms(1) close_attempt_canonical [OF close]])
qed

lemma ingest_upholds:
  assumes ok: "kn_ok kn" and sp: "sp \<in> set (kn_spaces kn)" and run: "ingest en now q who sp rid kn = (res, kn')"
  shows "kn_ok kn' \<and> kn_grows kn kn'"
proof -
  obtain a kn0 where opens: "opened now q who (en_sha256 en (iq_content q)) rid kn = (a, kn0)" by fastforce
  note ok0 = opened_ok [OF ok opens]
  have numbered: "numbered kn" using ok by (simp add: kn_ok_def)
  have closing: "kn_ok k' \<and> kn_grows kn k'"
    if okk: "kn_ok k" and grows: "kn_grows kn k" and same: "kn_attempts k = kn_attempts kn0"
      and close: "close_attempt now a c fs k = Inr k'" for c fs k k'
  proof -
    note frame = close_attempt_frame [OF close]
    obtain fr where fr: "kn_findings k' = kn_findings k @ fr" using frame(10) by blast
    have "kn_attempts k' = kn_attempts kn @ [closed_attempt now c a]"
      by (rule closed_last [OF numbered opens same close])
    then have "kn_grows kn k'" using grows frame(8) by (auto simp: kn_grows_def frame(1-7) fr grows_by_def)
    with closed_ok [OF okk close] show ?thesis by simp
  qed
  from run opens show ?thesis
  proof (cases rule: ingest_cases)
    case (unopened e)
    with ok show ?thesis by (simp add: kn_evolution.evolves_refl)
  next
    case (refused c fs e)
    from closing [OF ok0 refl refused(3)] show ?thesis .
  next
    case (unchanged oc v c)
    from closing [OF ok0 refl unchanged(6)] show ?thesis .
  next
    case (crashed e)
    with ok0 show ?thesis by simp
  next
    case (stored r chunks v)
    have here: "submission_valid q kn0" "kn_spaces kn0 = kn_spaces kn"
      using stored(1) opens by (auto simp: opened_def Let_def)
    from stored(4) obtain s rows vectors kn1 where s: "find_row ks_id (iq_source q) (kn_sources kn0) = Some s"
      and run: "stored_as en now q (find_document q kn0) (current_version (find_document q kn0) kn0)
        (normalise_text (iq_content q)) chunks vectors sp s v rows kn0 kn1"
      and shape: "v = new_version now q who (kv_document v) (current_version (find_document q kn0) kn0)
        (en_sha256 en (iq_content q)) (en_sha256 en (normalise_text (iq_content q)))
        (length (normalise_text (iq_content q)))
        (advisory (screen_document (en_hmac en) (en_salt en) (normalise_text (iq_content q)))) (ka_id a) (kv_id v)"
      and close: "close_attempt now a ((ends_as (ir_outcome r))\<lparr>cl_document := Some (kv_document v),
        cl_version := Some (kv_id v), cl_text_hash := Some (en_sha256 en (normalise_text (iq_content q))),
        cl_chunks := Some (length rows), cl_embedded := Some (length vectors)\<rparr>) [] kn1 = Inr kn'"
      and found: "\<exists>fr. kn_findings kn1 = kn_findings kn0 @ fr \<and> (\<forall>f \<in> set fr. kf_id f < kn_next kn1)"
      by (rule stores_run)
    have active: "ks_state s = KL_ACTIVE" using here(1) s by (auto simp: submission_valid_def)
    have new: "kv_superseded_at v = None" by (subst shape) (simp add: new_version_def)
    from found obtain fr where "kn_findings kn1 = kn_findings kn0 @ fr" "\<forall>f \<in> set fr. kf_id f < kn_next kn1" by blast
    from stored_upholds [OF ok0(1) _ s active run new this] sp here(2)
    have "kn_ok kn1" "kn_grows kn0 kn1" by auto
    moreover have "kn_attempts kn1 = kn_attempts kn0" using run by (simp add: stored_as_def)
    ultimately show ?thesis using closing close ok0(2) kn_evolution.evolves_trans by blast
  qed
qed

section \<open>Reachable states\<close>

lemma commit_upholds: "upholds kn_ok kn_grows kn m \<Longrightarrow> kn_ok kn \<Longrightarrow> commit kn f m = (e, kn') \<Longrightarrow> kn_ok kn' \<and> kn_grows kn kn'"
  by (auto simp: commit_def kn_evolution.evolves_refl split: sum.splits prod.splits dest: upholdsD)

lemma ingest_space_in: "ingest_space i kn = Inr sp \<Longrightarrow> sp \<in> set (kn_spaces kn)"
  by (auto simp: ingest_space_def get_space_def default_space_def find_Some_iff split: option.splits
      dest!: find_row_SomeD)

lemma kn_perform_upholds: "kn_ok kn \<Longrightarrow> kn_perform en now who r kn = (e, kn') \<Longrightarrow> kn_ok kn' \<and> kn_grows kn kn'"
proof (cases r)
  case (IngestDocument q i)
  assume ok: "kn_ok kn" and run: "kn_perform en now who r kn = (e, kn')"
  show ?thesis
  proof (cases "ingest_space i kn")
    case (Inl e')
    with ok run IngestDocument show ?thesis by (simp add: kn_evolution.evolves_refl)
  next
    case (Inr sp)
    obtain res kn'' where sub: "ingest en now q who sp None kn = (res, kn'')" by fastforce
    then have "kn'' = kn'" using run IngestDocument Inr by (cases res) auto
    with ingest_upholds [OF ok ingest_space_in [OF Inr] sub] show ?thesis by simp
  qed
qed (auto dest: commit_upholds [OF create_source_upholds] commit_upholds [OF reclassify_source_upholds]
    commit_upholds [OF retire_source_upholds] commit_upholds [OF retire_document_upholds]
    commit_upholds [OF record_disposition_upholds] commit_upholds [OF register_space_upholds]
    commit_upholds [OF mark_prefixes_verified_upholds])

lemma kn_call_upholds: "kn_ok kn \<Longrightarrow> kn_call en now who r kn = (e, kn') \<Longrightarrow> kn_ok kn' \<and> kn_grows kn kn'"
  by (auto simp: kn_call_def kn_evolution.evolves_refl split: sum.splits dest: kn_perform_upholds)

lemma reachable_kn_ok: "kn_reachable kn \<Longrightarrow> kn_ok kn"
proof (induction rule: kn_reachable.induct)
  case kn_start
  show ?case by (simp add: kn_ok_def kn_parts numbered_iff empty_knowledge_def)
next
  case (kn_step kn en now who r e kn')
  then show ?case using kn_call_upholds by blast
qed

text \<open>
  C11. What retrieval may see.  In every reachable state a vector that is switched on belongs to a chunk of the
  current version of an active document in an active source, and every vector carries the sensitivity its source has now.
\<close>

theorem only_current_content_is_served:
  assumes "kn_reachable kn" and "x \<in> set (kn_vectors kn)"
  shows "(\<exists>s \<in> set (kn_sources kn). ks_id s = kx_source x \<and> ks_sensitivity s = kx_sensitivity x) \<and>
    (\<not> kx_retrievable x \<or> servable kn x)"
  using reachable_kn_ok [OF assms(1)] assms(2)
  by (auto simp: kn_ok_def vectors_placed_def served_right_def)

text \<open>
  C16. No call rewrites history: from a reachable state, whatever is called by whomever, every chunk, finding,
  attempt and judgement is still there, every version but for the mark that it was superseded, every vector but for
  its sensitivity, and no vector that had left retrieval comes back.
\<close>

theorem knowledge_is_never_rewritten:
  assumes "kn_reachable kn" and "kn_call en now who r kn = (e, kn')"
  shows "kn_grows kn kn'"
  using kn_call_upholds [OF reachable_kn_ok [OF assms(1)] assms(2)] by simp


section \<open>What a stored version holds\<close>

lemma stored_vectors:
  assumes ok: "kn_ok kn"
    and stored: "stored_as en now q (find_document q kn) (current_version (find_document q kn) kn) normalised chunks vectors sp s v
      rows kn kn'"
  shows "map kx_chunk (filter (\<lambda>x. kx_document x = kv_document v \<and> kx_retrievable x) (kn_vectors kn')) = map kc_id rows"
proof -
  let ?cur = "current_version (find_document q kn) kn"
  have row: "\<forall>i < length rows. rows ! i = new_chunk en v (ks_id s) (injection_ranges normalised) (chunks ! i) (kc_id (rows ! i)) \<and>
      kc_id (rows ! i) = Suc (kv_id v) + i"
    using stored unfolding stored_as_def by (elim conjE) assumption
  have did: "kv_document v = (case find_document q kn of None \<Rightarrow> kn_next kn | Some d \<Rightarrow> kd_id d)"
    using stored unfolding stored_as_def by (elim conjE) assumption
  have "\<exists>vs. kn_vectors kn' = retired_vectors ?cur kn @ vs \<and> length vs = length rows \<and> length vectors = length rows \<and>
      (\<forall>i < length rows. vs ! i = new_vector s sp (rows ! i) (vectors ! i) (kx_id (vs ! i)) \<and>
        kx_id (vs ! i) = Suc (kv_id v) + length rows + i \<and> length (vectors ! i) = D768)"
    using stored unfolding stored_as_def by (elim conjE) assumption
  then obtain vs where vs: "kn_vectors kn' = retired_vectors ?cur kn @ vs" "length vs = length rows" and
    vec: "\<forall>i < length rows. vs ! i = new_vector s sp (rows ! i) (vectors ! i) (kx_id (vs ! i))" by blast
  have new: "kx_chunk (vs ! i) = kc_id (rows ! i) \<and> kx_document (vs ! i) = kv_document v \<and> kx_retrievable (vs ! i)"
    if "i < length rows" for i
  proof -
    have "kc_document (rows ! i) = kv_document v" using row that by (metis (no_types) new_chunk_def chunk_row.select_convs(3))
    moreover have "vs ! i = new_vector s sp (rows ! i) (vectors ! i) (kx_id (vs ! i))" using vec that by blast
    ultimately show ?thesis by (metis new_vector_def vector_row.select_convs(3,5,8))
  qed
  then have "map kx_chunk vs = map kc_id rows" using vs(2) by (intro nth_equalityI) simp_all
  moreover have "filter (\<lambda>x. kx_document x = kv_document v \<and> kx_retrievable x) vs = vs"
    using new vs(2) by (auto simp: filter_id_conv in_set_conv_nth)
  moreover have "filter (\<lambda>x. kx_document x = kv_document v \<and> kx_retrievable x) (retired_vectors ?cur kn) = []"
    unfolding filter_empty_conv retired_vectors_sets
  proof (intro ballI notI)
    fix y assume "y \<in> (\<lambda>x. if ?cur \<noteq> None \<and> kx_chunk x \<in> set (chunks_of_version (kv_id (the ?cur)) kn)
        then x\<lparr>kx_retrievable := False\<rparr> else x) ` set (kn_vectors kn)"
      and on: "kx_document y = kv_document v \<and> kx_retrievable y"
    then have y: "y \<in> set (kn_vectors kn)" "\<not> (?cur \<noteq> None \<and> kx_chunk y \<in> set (chunks_of_version (kv_id (the ?cur)) kn))"
      by (auto split: if_splits)
    obtain c where c: "c \<in> set (kn_chunks kn)" "kc_id c = kx_chunk y" "kc_document c = kv_document v"
      using vector_of [OF ok y(1)] on by metis
    with ok obtain d where d: "d \<in> set (kn_documents kn)" "kd_id d = kv_document v"
      by (auto simp: kn_ok_def chunks_placed_def)
    show False
    proof (cases "find_document q kn")
      case None
      with did d numberedD(2) [of kn d] ok show False by (simp add: kn_ok_def)
    next
      case (Some d1)
      then have "d = d1" using distinct_row [of kd_id "kn_documents kn" d d1] ok d did find_document_id
        by (auto simp: kn_ok_def keys_distinct_def)
      moreover have "\<exists>w. current_version (Some d) kn = Some w \<and> kv_id w = kc_version c \<and>
          kx_chunk y \<in> set (chunks_of_version (kv_id w) kn)"
        by (rule served_at_target [OF ok y(1) _ c(1,2) d(1)]) (use on c d in simp_all)
      ultimately show False using Some y(2) by auto
    qed
  qed
  ultimately show ?thesis by (simp add: vs(1))
qed

text \<open>
  C17. What a stored version holds.  When a submission is accepted as new, the document at its target points to a version with the
  digests of the submitted bytes and of their normalised text, its chunks are that text cut by \<open>chunk_document\<close>, in
  order, and the vectors that are served for the document are exactly one for each of these chunks.
\<close>

theorem stored_version_holds_the_text:
  assumes "kn_reachable kn" and "ingest en now q who sp rid kn = (Inr r, kn')" and "ir_outcome r \<in> set CANONICAL_OUTCOMES"
  shows "\<exists>d v chunks. find_document q kn' = Some d \<and> current_version (Some d) kn' = Some v \<and> ir_version r = Some (kv_id v) \<and>
    kv_raw_hash v = en_sha256 en (iq_content q) \<and> kv_text_hash v = en_sha256 en (normalise_text (iq_content q)) \<and>
    chunk_document DEFAULT_PARAMS (normalise_text (iq_content q)) = Some chunks \<and>
    map kc_chunk (filter (\<lambda>c. kc_version c = kv_id v) (kn_chunks kn')) = chunks \<and>
    map kx_chunk (filter (\<lambda>x. kx_document x = kd_id d \<and> kx_retrievable x) (kn_vectors kn')) =
      map kc_id (filter (\<lambda>c. kc_version c = kv_id v) (kn_chunks kn'))"
proof -
  note ok = reachable_kn_ok [OF assms(1)]
  obtain a kn0 where opens: "opened now q who (en_sha256 en (iq_content q)) rid kn = (a, kn0)" by fastforce
  note ok0 = opened_ok(1) [OF ok opens]
  from assms(2) opens show ?thesis
  proof (cases rule: ingest_cases)
    case (unchanged oc v c)
    with assms(3) show ?thesis by (auto simp: same_content_def CANONICAL_OUTCOMES_def)
  next
    case (stored r' chunks v)
    then have r: "r' = r" by simp
    from stored(4) obtain s rows vectors kn1 where
      run: "stored_as en now q (find_document q kn0) (current_version (find_document q kn0) kn0)
        (normalise_text (iq_content q)) chunks vectors sp s v rows kn0 kn1" and
      shape: "v = new_version now q who (kv_document v) (current_version (find_document q kn0) kn0)
        (en_sha256 en (iq_content q)) (en_sha256 en (normalise_text (iq_content q)))
        (length (normalise_text (iq_content q)))
        (advisory (screen_document (en_hmac en) (en_salt en) (normalise_text (iq_content q)))) (ka_id a) (kv_id v)" and
      last: "same_canonical kn1 kn'"
      by (rule stores_run)
    have numbered: "numbered kn0" using ok0 by (simp add: kn_ok_def)
    from stored_is_current [OF run numbered] obtain d where d: "find_document q kn1 = Some d" "kd_id d = kv_document v"
      "current_version (Some d) kn1 = Some v" by auto
    have cut: "kn_chunks kn1 = kn_chunks kn0 @ rows" "map kc_chunk rows = chunks" "kn_next kn0 \<le> kv_id v"
      and row: "\<forall>i < length rows. rows ! i = new_chunk en v (ks_id s) (injection_ranges (normalise_text (iq_content q)))
        (chunks ! i) (kc_id (rows ! i)) \<and> kc_id (rows ! i) = Suc (kv_id v) + i"
      using run unfolding stored_as_def by - (elim conjE, assumption)+
    have "kc_version c \<noteq> kv_id v" if "c \<in> set (kn_chunks kn0)" for c
    proof -
      from ok0 that obtain w where "w \<in> set (kn_versions kn0)" "kv_id w = kc_version c"
        by (auto simp: kn_ok_def chunks_placed_def)
      with numberedD(3) [OF numbered] cut(3) show ?thesis by fastforce
    qed
    moreover have "kc_version c = kv_id v" if "c \<in> set rows" for c
      using that row by (metis in_set_conv_nth new_chunk_def chunk_row.select_convs(2))
    ultimately have mine: "filter (\<lambda>c. kc_version c = kv_id v) (kn_chunks kn1) = rows"
      by (simp add: cut(1) filter_id_conv filter_empty_conv)
    have hashes: "kv_raw_hash v = en_sha256 en (iq_content q)" "kv_text_hash v = en_sha256 en (normalise_text (iq_content q))"
      by (subst shape, simp add: new_version_def)+
    have "ir_version r = Some (kv_id v)" "chunk_document DEFAULT_PARAMS (normalise_text (iq_content q)) = Some chunks"
      using stored(4) by (auto simp: stores_def r)
    moreover have "kn_chunks kn' = kn_chunks kn1" "kn_vectors kn' = kn_vectors kn1" using last by (simp_all add: same_canonical_def)
    ultimately show ?thesis
      using d mine cut(2) hashes stored_vectors [OF ok0 run]
      by (intro exI [of _ d] exI [of _ v] exI [of _ chunks]) (simp add: same_canonical_reads [OF last])
  qed simp_all
qed


section \<open>Who decides\<close>

lemma ingest_leaves_judgements:
  assumes "ingest en now q who sp rid kn = (res, kn')"
  shows "kn_dispositions kn' = kn_dispositions kn \<and> kn_sources kn' = kn_sources kn"
proof -
  obtain a kn0 where opens: "opened now q who (en_sha256 en (iq_content q)) rid kn = (a, kn0)" by fastforce
  then have kn0: "kn_dispositions kn0 = kn_dispositions kn" "kn_sources kn0 = kn_sources kn" by (auto simp: opened_def Let_def)
  from assms opens show ?thesis
  proof (cases rule: ingest_cases)
    case (stored r chunks v)
    from stored(4) obtain s rows vectors kn1 where
      run: "stored_as en now q (find_document q kn0) (current_version (find_document q kn0) kn0)
        (normalise_text (iq_content q)) chunks vectors sp s v rows kn0 kn1" and last: "same_canonical kn1 kn'"
      by (rule stores_run)
    have "kn_sources kn1 = kn_sources kn0" "kn_dispositions kn1 = kn_dispositions kn0"
      using run unfolding stored_as_def by - (elim conjE, assumption)+
    with last kn0 show ?thesis by (simp add: same_canonical_def)
  qed (use kn0 in \<open>auto simp: close_attempt_frame\<close>)
qed

definition judged_or_trusted :: "knowledge \<Rightarrow> knowledge \<Rightarrow> bool" where
  "judged_or_trusted kn kn' \<longleftrightarrow> kn_dispositions kn' \<noteq> kn_dispositions kn \<or>
     (\<exists>s \<in> set (kn_sources kn'). ks_trust s = AUTHORITATIVE_POLICY \<and>
        (\<forall>r \<in> set (kn_sources kn). ks_id r = ks_id s \<longrightarrow> ks_trust r \<noteq> AUTHORITATIVE_POLICY))"

lemma commit_sources:
  assumes "commit kn f m = (e, kn')"
  shows "kn' = kn \<or> (\<exists>x. m = Inr (x, kn'))"
  using assms by (auto simp: commit_def split: sum.splits)

lemma register_space_leaves: "register_space r kn = Inr (s, kn') \<Longrightarrow> kn_dispositions kn' = kn_dispositions kn \<and> kn_sources kn' = kn_sources kn"
  by (auto simp: register_space_def set_default_def add_space_def res_simps Let_def split: if_splits)

text \<open>
  C35. Judgements about findings and the trust class of a policy come from an approver or an administrator: if a call
  changed the judgements, or made a source authoritative, then its caller has one of these roles.
\<close>

theorem judgement_and_policy_trust_are_approvals:
  assumes "kn_call en now who r kn = (e, kn')" and "judged_or_trusted kn kn'"
  shows "has_any_role who [role_value APPROVER, role_value ADMIN]"
proof (rule ccontr)
  assume none: "\<not> ?thesis"
  then have roles: "require_roles ApproverPrincipal who = Inl AuthorizationError" "require_roles AdminPrincipal who = Inl AuthorizationError"
    by (auto simp: require_roles_def ApproverPrincipal_def AdminPrincipal_def has_any_role_def)
  have same: "\<not> judged_or_trusted kn kn'" if "kn_dispositions kn' = kn_dispositions kn" "kn_sources kn' = kn_sources kn"
    using that by (auto simp: judged_or_trusted_def)
  show False
  proof (cases r)
    case (CreateSource reg)
    with assms(1) consider "kn' = kn" | s where "create_source reg who kn = Inr (s, kn')"
      by (auto simp: kn_call_def require_roles_def split: sum.splits if_splits dest!: commit_sources)
    then show False
    proof cases
      case 1
      with same assms(2) show False by simp
    next
      case 2
      then have "sr_trust reg \<noteq> AUTHORITATIVE_POLICY" "ks_trust s = sr_trust reg" "kn_sources kn' = kn_sources kn @ [s]"
        "kn_dispositions kn' = kn_dispositions kn"
        using none by (auto simp: create_source_def guard_trust_def APPROVER_ONLY_TRUST_def add_source_def Let_def res_simps)
      with assms(2) show False by (auto simp: judged_or_trusted_def)
    qed
  next
    case (IngestDocument q i)
    with assms(1) have "kn' = kn \<or> (\<exists>sp res. ingest en now q who sp None kn = (res, kn'))"
      by (auto simp: kn_call_def require_roles_def split: sum.splits if_splits prod.splits)
    with ingest_leaves_judgements same assms(2) show False by metis
  qed (use assms roles same in \<open>auto simp: kn_call_def\<close>)
qed


section \<open>The audit trail\<close>

lemma ingest_error_canonical:
  assumes "ingest en now q who sp rid kn = (Inl e, kn')"
  shows "same_canonical kn kn'"
proof -
  obtain a kn0 where opens: "opened now q who (en_sha256 en (iq_content q)) rid kn = (a, kn0)" by fastforce
  note canonical = opened_canonical [OF opens]
  from assms opens show ?thesis
  proof (cases rule: ingest_cases)
    case (refused c fs e)
    with canonical close_attempt_canonical [OF refused(3)] show ?thesis by simp
  qed (use canonical in auto)
qed

lemma kn_perform_error: "kn_perform en now who r kn = (Inl e, kn') \<Longrightarrow> same_canonical kn kn'"
  by (cases r) (auto simp: commit_def split: sum.splits prod.splits dest: ingest_error_canonical)

lemma kn_perform_event: "kn_perform en now who r kn = (Inr event, kn') \<Longrightarrow> ne_by event = to_audit_fields who"
  by (cases r) (auto simp: commit_def kn_success_def split: sum.splits prod.splits)

text \<open>
  C36. Every change of knowledge is audited: if a call changed anything but the log of attempts and findings, exactly one
  record was added to the audit trail with it, and it names the caller, who held a role the route asks for.
\<close>

theorem every_knowledge_change_is_audited:
  assumes "\<not> same_canonical (nw_kn w) (nw_kn (kn_serve en now who r w))"
  shows "has_any_role who (map role_value (kn_roles r)) \<and>
    (\<exists>event. nw_audit (kn_serve en now who r w) = nw_audit w @ [event] \<and> ne_by event = to_audit_fields who)"
proof -
  obtain res kn' where run: "kn_call en now who r (nw_kn w) = (res, kn')" by fastforce
  have roles: "has_any_role who (map role_value (kn_roles r))"
  proof (rule ccontr)
    assume "\<not> ?thesis"
    then have "require_roles (kn_roles r) who = Inl AuthorizationError"
      by (cases r) (simp_all add: require_roles_def OperatorPrincipal_def ApproverPrincipal_def AdminPrincipal_def)
    with assms show False by (simp add: kn_serve_def kn_call_def)
  qed
  then have "kn_perform en now who r (nw_kn w) = (res, kn')" using run by (simp add: kn_call_def require_roles_def)
  with assms run roles show ?thesis
    by (cases res) (auto simp: kn_serve_def dest: kn_perform_error kn_perform_event)
qed

end
