(* ===== verification/Knowledge_Scenario.thy ===== *)
theory Knowledge_Scenario
  imports Knowledge_Invariants
begin

text \<open>
  A concrete knowledge base: one source and one verified space, a document that is ingested, replaced, and
  submitted again.  The digest is the identity, which is one of the functions it may be.
\<close>

section \<open>Who and what\<close>

definition operator :: principal where
  "operator = \<lparr>p_subject = ''ops'', p_type = HUMAN, p_issuer = ''idp'', p_auth_method = API_KEY, p_display_name = ''ops'', p_roles = [''operator'']\<rparr>"

definition admin :: principal where
  "admin = operator\<lparr>p_roles := [''admin'']\<rparr>"

definition toy_env :: ingest_env where
  "toy_env = \<lparr>en_sha256 = (\<lambda>s. s), en_hmac = (\<lambda>k s. k @ s), en_salt = ''k'',
     en_embed = (\<lambda>texts prefix. Vectors (map (\<lambda>t. replicate 768 0) texts))\<rparr>"

definition runbook :: source_registration where
  "runbook = \<lparr>sr_kind = ''RUNBOOK'', sr_title = ''notes'', sr_trust = INTERNAL_DRAFT, sr_sensitivity = INTERNAL\<rparr>"

definition space :: space_registration where
  "space = \<lparr>rg_key = ''abc'', rg_provider = ''ollama'', rg_model = ''m'', rg_digest = None, rg_dimensions = 768,
     rg_normalize = True, rg_document_prefix = [], rg_query_prefix = [], rg_max_input = 2048,
     rg_truncation = REJECT_OVERSIZE, rg_make_default = True\<rparr>"

definition submits :: "string \<Rightarrow> ingest_request" where
  "submits s = \<lparr>iq_source = 1, iq_ref = ''doc'', iq_title = ''t'', iq_content = s, iq_media = ''text/plain'',
     iq_modified = None\<rparr>"

section \<open>Before any document\<close>

definition source_1 :: source_row where
  "source_1 = \<lparr>ks_id = 1, ks_kind = ''RUNBOOK'', ks_title = ''notes'', ks_trust = INTERNAL_DRAFT,
     ks_sensitivity = INTERNAL, ks_state = KL_ACTIVE, ks_retired_at = None, ks_retired_by = None\<rparr>"

definition space_2 :: space_row where
  "space_2 = (new_space space 2)\<lparr>sp_default := True, sp_verified_at := Some 30, sp_verified_by := Some ''ops''\<rparr>"

definition base :: knowledge where
  "base = empty_knowledge\<lparr>kn_sources := [source_1], kn_spaces := [space_2], kn_next := 3\<rparr>"

lemma step_source: "kn_call toy_env 10 operator (CreateSource runbook) empty_knowledge =
    (Inr (kn_success ''knowledge.source.create'' ''knowledge.source'' (Some 1) operator),
     empty_knowledge\<lparr>kn_sources := [source_1], kn_next := 2\<rparr>)"
  by (simp add: kn_call_def require_roles_def OperatorPrincipal_def has_any_role_def has_role_def operator_def
      create_source_def guard_trust_def APPROVER_ONLY_TRUST_def runbook_def add_source_def Let_def source_checks_def
      enforce_def first_violation_def commit_def empty_knowledge_def source_1_def)

lemma step_space: "kn_call toy_env 20 admin (RegisterSpace space) (empty_knowledge\<lparr>kn_sources := [source_1], kn_next := 2\<rparr>) =
    (Inr (kn_success ''knowledge.embedding_space.register'' ''knowledge.embedding_space'' (Some 2) admin),
     empty_knowledge\<lparr>kn_sources := [source_1], kn_spaces := [(new_space space 2)\<lparr>sp_default := True\<rparr>], kn_next := 3\<rparr>)"
proof -
  have key: "matches_space_key ''abc''" by code_simp
  show ?thesis
    by (simp add: kn_call_def require_roles_def AdminPrincipal_def has_any_role_def has_role_def operator_def admin_def
      register_space_def space_def new_space_def key MAX_INDEXABLE_DIMENSIONS_def embedding_model_for_def D768_def by_key_def
      partition_relation_def add_space_def Let_def space_checks_def enforce_def first_violation_def commit_def empty_knowledge_def
      set_default_def get_space_def)
qed

lemma step_verify: "kn_call toy_env 30 admin (VerifyPrefixes 2)
    (empty_knowledge\<lparr>kn_sources := [source_1], kn_spaces := [(new_space space 2)\<lparr>sp_default := True\<rparr>], kn_next := 3\<rparr>) =
    (Inr (kn_success ''knowledge.embedding_space.verify_prefixes'' ''knowledge.embedding_space'' (Some 2) admin), base)"
  by (simp add: kn_call_def require_roles_def AdminPrincipal_def has_any_role_def has_role_def operator_def admin_def
      mark_prefixes_verified_def get_space_def new_space_def commit_def empty_knowledge_def base_def space_2_def Let_def)

lemma base_reachable: "kn_reachable base"
  by (meson kn_start kn_step step_source step_space step_verify)


section \<open>A document\<close>

definition one_chunk :: "string \<Rightarrow> chunk" where
  "one_chunk s = \<lparr>ch_ordinal = 0, ch_content = s, ch_start = 0, ch_end = length s, ch_tokens = estimate_tokens s, ch_path = []\<rparr>"

lemma whole_document:
  assumes "sections s = [([], 0, length s)]" "paragraph_spans s 0 (length s) = [(0, length s)]" "length s = 3"
    and "emit s 0 [([], 0, length s)] = [one_chunk s]"
  shows "chunk_document DEFAULT_PARAMS s = Some [one_chunk s]"
proof -
  have "packed (target_tokens DEFAULT_PARAMS * CHARS_PER_TOKEN) (overlap_tokens DEFAULT_PARAMS * CHARS_PER_TOKEN) s =
      [([], 0, length s)]"
    by (simp add: packed_def assms(1,2) pack_section_def)
  moreover have "hard_split (max_tokens DEFAULT_PARAMS * CHARS_PER_TOKEN) 0 (length s) = Some [(0, length s)]"
    by (simp add: hard_split.simps DEFAULT_PARAMS_def CHARS_PER_TOKEN_def assms(3))
  ultimately show ?thesis using assms(4) by (simp add: chunk_document_def merged_def merge_step_def Let_def del: emit.simps)
qed

lemma cut_ab: "chunk_document DEFAULT_PARAMS ''a b'' = Some [one_chunk ''a b'']"
  by (rule whole_document) code_simp+

lemma cut_ac: "chunk_document DEFAULT_PARAMS ''a c'' = Some [one_chunk ''a c'']"
  by (rule whole_document) code_simp+

text \<open>A text shorter than every pattern has no finding.\<close>

fun shortest :: "regex \<Rightarrow> nat" where
  "shortest (Chars P) = 1"
| "shortest (Many P least most) = least"
| "shortest (Seq a b) = shortest a + shortest b"
| "shortest (Alt a b) = min (shortest a) (shortest b)"
| "shortest _ = 0"

lemma ends_shortest: "j \<in> set (ends r s i) \<Longrightarrow> i + shortest r \<le> j"
proof (induction r arbitrary: i j)
  case (Seq a b)
  then obtain k where "k \<in> set (ends a s i)" "j \<in> set (ends b s k)" by auto
  with Seq.IH show ?case by fastforce
next
  case (Alt a b)
  from Alt.prems Alt.IH [of j i] show ?case by (auto simp: min.coboundedI1 min.coboundedI2 elim: le_trans [rotated])
next
  case (Opt a)
  from Opt.prems Opt.IH [of j i] show ?case by auto
qed (auto simp: Let_def split: if_splits)

lemma short_no_match:
  assumes "length s < shortest r"
  shows "finditer r s = []"
proof (rule ccontr)
  assume "finditer r s \<noteq> []"
  then obtain a b where "(a, b) \<in> set (finditer r s)" by (cases "finditer r s") auto
  then have "b \<le> length s" "match_at r s a = Some b" using find_all_sound unfolding finditer_def by blast+
  then have "b \<in> set (ends r s a)" by (auto simp: match_at_def split: list.splits)
  with ends_shortest [of b r s a] assms \<open>b \<le> length s\<close> show False by simp
qed

lemma patterns_are_long: "list_all (\<lambda>d. 6 < shortest (dt_pattern d)) (SECRET_DETECTORS @ INJECTION_DETECTORS)"
  by (simp add: SECRET_DETECTORS_def INJECTION_DETECTORS_def secret_def injection_def spaces_def spaces1_def)

lemma clean:
  assumes "length s \<le> 6"
  shows "screen_document hmac salt s = []" "injection_ranges s = []"
proof -
  have "finditer (dt_pattern d) s = []" if "d \<in> set (SECRET_DETECTORS @ INJECTION_DETECTORS)" for d
    using patterns_are_long that assms unfolding list_all_iff by (fastforce intro: short_no_match)
  then have none: "concat (map (\<lambda>d. finditer (dt_pattern d) s) INJECTION_DETECTORS) = []"
    and "screen_document hmac salt s = []" by (auto simp: screen_document_def)
  then show "screen_document hmac salt s = []" by simp
  show "injection_ranges s = []" unfolding injection_ranges_def none by simp
qed

lemma plain: "normalise_text ''a b'' = ''a b''" "normalise_text ''a c'' = ''a c''"
  by code_simp+

definition attempt_at :: "int \<Rightarrow> uuid \<Rightarrow> string \<Rightarrow> ingest_outcome \<Rightarrow> uuid option \<Rightarrow> attempt_row" where
  "attempt_at now i s oc v = closed_attempt now ((ends_as oc)\<lparr>cl_document := Some 4, cl_version := v,
     cl_text_hash := Some s, cl_chunks := (if v = None then None else Some 1),
     cl_embedded := (if v = None then None else Some 1)\<rparr>)
     (new_attempt now (submits s) operator s None i)"

definition version_5 :: version_row where
  "version_5 = new_version 40 (submits ''a b'') operator 4 None ''a b'' ''a b'' 3 [] 3 5"

definition chunk_6 :: chunk_row where
  "chunk_6 = new_chunk toy_env version_5 1 [] (one_chunk ''a b'') 6"

definition vector_7 :: vector_row where
  "vector_7 = new_vector source_1 space_2 chunk_6 (replicate 768 0) 7"

definition document_4 :: "uuid \<Rightarrow> document_row" where
  "document_4 v = (new_document (submits ''a b'') 4)\<lparr>kd_current := Some v\<rparr>"

definition with_ab :: knowledge where
  "with_ab = base\<lparr>kn_documents := [document_4 5], kn_versions := [version_5], kn_chunks := [chunk_6],
     kn_vectors := [vector_7], kn_attempts := [attempt_at 40 3 ''a b'' IO_CREATED (Some 5)], kn_next := 8\<rparr>"

definition result_of :: "uuid \<Rightarrow> ingest_outcome \<Rightarrow> uuid \<Rightarrow> nat \<Rightarrow> nat \<Rightarrow> ingest_result" where
  "result_of a oc v n k = \<lparr>ir_attempt = a, ir_outcome = oc, ir_document = Some 4, ir_version = Some v, ir_no = Some n,
     ir_chunks = k, ir_embedded = k, ir_advisory = 0\<rparr>"

lemmas ingest_eval = ingest_def open_attempt_def ingest_into_def gated_def embed_and_store_def persist_def
  close_attempt_def closed_attempt_def ends_as_def add_findings_def refuse_def unchanged_def new_attempt_def new_document_def
  new_version_def new_chunk_def new_vector_def supersede_def retire_version_vectors_def chunks_of_version_def
  point_document_def find_document_def current_version_def add_attempt_def add_document_def add_version_def add_chunk_def
  add_vector_def enforce_def first_violation_def attempt_checks_def document_checks_def version_checks_def
  chunk_checks_def vector_checks_def knows_def Let_def blocking_def advisory_def submits_def toy_env_def
  CANONICAL_OUTCOMES_def SUPPORTED_MEDIA_TYPES_def MAX_DOCUMENT_BYTES_def utf8_len_def prefix_tokens_def D768_def
  one_chunk_def section_label_def estimate_tokens_def CHARS_PER_TOKEN_def overlaps_range_def

lemma first_ingest: "ingest toy_env 40 (submits ''a b'') operator space_2 None base =
    (Inr (result_of 3 IO_CREATED 5 1 1), with_ab)"
  by (simp add: ingest_eval base_def empty_knowledge_def with_ab_def result_of_def document_4_def version_5_def chunk_6_def
      vector_7_def attempt_at_def source_1_def space_2_def new_space_def space_def plain clean
      cut_ab [unfolded one_chunk_def estimate_tokens_def CHARS_PER_TOKEN_def])


section \<open>A second version\<close>

definition version_9 :: version_row where
  "version_9 = new_version 60 (submits ''a c'') operator 4 (Some version_5) ''a c'' ''a c'' 3 [] 8 9"

definition chunk_10 :: chunk_row where
  "chunk_10 = new_chunk toy_env version_9 1 [] (one_chunk ''a c'') 10"

definition vector_11 :: vector_row where
  "vector_11 = new_vector source_1 space_2 chunk_10 (replicate 768 0) 11"

definition with_ac :: knowledge where
  "with_ac = with_ab\<lparr>kn_documents := [document_4 9], kn_versions := [version_5\<lparr>kv_superseded_at := Some 60\<rparr>, version_9],
     kn_chunks := [chunk_6, chunk_10], kn_vectors := [vector_7\<lparr>kx_retrievable := False\<rparr>, vector_11],
     kn_attempts := [attempt_at 40 3 ''a b'' IO_CREATED (Some 5), attempt_at 60 8 ''a c'' IO_VERSIONED (Some 9)],
     kn_next := 12\<rparr>"

lemmas state_defs = base_def empty_knowledge_def with_ab_def with_ac_def result_of_def document_4_def version_5_def version_9_def
  chunk_6_def chunk_10_def vector_7_def vector_11_def attempt_at_def source_1_def space_2_def new_space_def space_def

lemma second_ingest: "ingest toy_env 60 (submits ''a c'') operator space_2 None with_ab =
    (Inr (result_of 8 IO_VERSIONED 9 2 1), with_ac)"
  by (simp add: ingest_eval state_defs plain clean cut_ac [unfolded one_chunk_def estimate_tokens_def CHARS_PER_TOKEN_def]
      del: set_map set_filter)

text \<open>The first content again: the constraint on the digests of a document refuses it.\<close>

lemma third_ingest: "fst (ingest toy_env 70 (submits ''a b'') operator space_2 None with_ac) =
    Inl (IntegrityError ''uq_document_raw_hash'')"
  by (simp add: ingest_eval state_defs plain clean cut_ab [unfolded one_chunk_def estimate_tokens_def CHARS_PER_TOKEN_def])

lemma step_ab: "kn_call toy_env 40 operator (IngestDocument (submits ''a b'') None) base =
    (Inr (kn_success ''knowledge.document.ingest'' ''knowledge.document'' (Some 4) operator), with_ab)"
proof -
  have "default_space base = Inr space_2" by (simp add: default_space_def base_def space_2_def)
  then show ?thesis
    by (simp add: kn_call_def require_roles_def OperatorPrincipal_def has_any_role_def has_role_def ingest_space_def first_ingest)
      (simp add: operator_def first_ingest [unfolded operator_def] result_of_def)
qed

lemma ab_reachable: "kn_reachable with_ab"
  using kn_step [OF base_reachable step_ab] .

end
