(* ===== verification/Mentions.thy ===== *)
theory Mentions
  imports Identity_Resolver Knowledge_Store
begin

text \<open>
  \<open>services/knowledge/mentions.py\<close>: names of assets in the text of chunks.  A scan records the strings of a
  chunk that are exactly an identifier of the CMDB; a person may associate a chunk with an asset.  The CMDB is only
  read.
\<close>

section \<open>Vocabulary and table\<close>

datatype mention_source = IDENTIFIER_MATCH | EXPLICIT

datatype mention_resolution = MR_RESOLVED | MR_AMBIGUOUS

definition MIN_MENTION_TOKEN_LENGTH :: nat where
  "MIN_MENTION_TOKEN_LENGTH = 3"

definition MAX_TOKENS_PER_CHUNK :: nat where
  "MAX_TOKENS_PER_CHUNK = 4000"

text \<open>
  A frozenset: its members here, while the order a process iterates them in is an argument of the operations.
\<close>

definition MENTIONABLE_NAMESPACES :: "string list" where
  "MENTIONABLE_NAMESPACES = [''serial'', ''smbios:uuid'', ''mac'', ''proxmox:uuid'', ''docker:container-id'',
     ''hostname'', ''fqdn'']"

record mention_row =
  km_id :: uuid
  km_chunk :: uuid
  km_asset :: "uuid option"
  km_text :: string
  km_source :: mention_source
  km_resolution :: mention_resolution
  km_candidates :: "uuid list"
  km_namespace :: "string option"
  km_by :: string
  km_created :: int

record mentions =
  mn_rows :: "mention_row list"
  mn_next :: uuid

definition mention_checks :: "knowledge \<Rightarrow> cmdb \<Rightarrow> mention_row \<Rightarrow> (string \<times> bool) list" where
  "mention_checks kn db m =
     [(''resolution_matches_asset'', (km_resolution m = MR_RESOLVED) = (km_asset m \<noteq> None)),
      (''ambiguous_has_candidates'', km_resolution m \<noteq> MR_AMBIGUOUS \<or> 1 < length (km_candidates m)),
      (''fk_knowledge_asset_mention_chunk_id_knowledge_chunk'', find_row kc_id (km_chunk m) (kn_chunks kn) \<noteq> None),
      (''fk_knowledge_asset_mention_asset_id_asset'', (case km_asset m of None \<Rightarrow> True
        | Some a \<Rightarrow> find_asset a db \<noteq> None))]"

section \<open>Candidates\<close>

definition mention_char :: "char \<Rightarrow> bool" where
  "mention_char c = (is_alnum c \<or> c \<in> set ''._:-/'')"

definition TOKEN :: regex where
  "TOKEN = Alt (in_order [Chars is_alnum, Many mention_char 1 (Some 126), Chars is_alnum]) (Many is_alnum 1 None)"

definition rstrip_trailing :: "string \<Rightarrow> string" where
  "rstrip_trailing s = rev (dropWhile (\<lambda>c. c \<in> set ''.,:;)/-'') (rev s))"

record mention_candidate =
  mc_namespace :: string
  mc_value :: string
  mc_surface :: string

definition candidate_key :: "mention_candidate \<Rightarrow> string \<times> string" where
  "candidate_key c = (mc_namespace c, mc_value c)"

text \<open>The body of the innermost loop; \<open>seen\<close> holds the keys of what was found.\<close>

definition try_namespace :: "string \<Rightarrow> mention_candidate list \<Rightarrow> string \<Rightarrow> mention_candidate list" where
  "try_namespace token found ns = (case namespace_spec_of ns of
     None \<Rightarrow> found
   | Some spec \<Rightarrow> (let v = NORMALISERS (ns_normaliser spec) token in
       if length v < MIN_MENTION_TOKEN_LENGTH \<or> (ns, v) \<in> candidate_key ` set found then found
       else found @ [\<lparr>mc_namespace = ns, mc_value = v, mc_surface = token\<rparr>]))"

definition mentionable :: "string \<Rightarrow> bool" where
  "mentionable token = (\<not> (length token < MIN_MENTION_TOKEN_LENGTH \<or> list_all is_digit token))"

definition try_token :: "string list \<Rightarrow> mention_candidate list \<Rightarrow> string \<Rightarrow> mention_candidate list" where
  "try_token nss found token = (if mentionable token then foldl (try_namespace token) found nss else found)"

definition stems :: "string \<Rightarrow> string list" where
  "stems surface = remdups [surface, rstrip_trailing surface]"

definition tokens :: "string \<Rightarrow> string list" where
  "tokens content = map (matched content) (take MAX_TOKENS_PER_CHUNK (finditer TOKEN content))"

definition candidates :: "string list \<Rightarrow> string \<Rightarrow> mention_candidate list" where
  "candidates nss content = foldl (try_token nss) [] (concat (map stems (tokens content)))"

section \<open>Scanning a version\<close>

definition assets_with :: "string \<Rightarrow> string \<Rightarrow> cmdb \<Rightarrow> uuid list" where
  "assets_with ns v db = sort (remdups (map ci_asset
     (filter (\<lambda>r. ci_live r \<and> ci_namespace r = ns \<and> ci_normalized r = v) (identifier_rows db))))"

definition match_candidates :: "mention_candidate list \<Rightarrow> cmdb \<Rightarrow> (mention_candidate \<times> uuid list) list" where
  "match_candidates found db = filter (\<lambda>m. snd m \<noteq> [])
     (map (\<lambda>c. (c, assets_with (mc_namespace c) (mc_value c) db)) found)"

type_synonym mention_key = "uuid \<times> string \<times> string option"

definition mention_key_of :: "mention_row \<Rightarrow> mention_key" where
  "mention_key_of m = (km_chunk m,
     (case namespace_spec_of (case km_namespace m of None \<Rightarrow> [] | Some n \<Rightarrow> n) of
        Some spec \<Rightarrow> NORMALISERS (ns_normaliser spec) (km_text m) | None \<Rightarrow> km_text m),
     km_namespace m)"

definition existing_keys :: "uuid list \<Rightarrow> mentions \<Rightarrow> mention_key list" where
  "existing_keys chunk_ids ms = map mention_key_of
     (filter (\<lambda>m. km_chunk m \<in> set chunk_ids \<and> km_source m = IDENTIFIER_MATCH) (mn_rows ms))"

record mention_report =
  mr_scanned :: nat
  mr_considered :: nat
  mr_created :: nat
  mr_ambiguous :: nat

record scan =
  sc_considered :: nat
  sc_created :: nat
  sc_ambiguous :: nat
  sc_existing :: "mention_key list"
  sc_rows :: "mention_row list"
  sc_next :: uuid

definition new_mention ::
  "int \<Rightarrow> principal \<Rightarrow> chunk_row \<Rightarrow> mention_candidate \<Rightarrow> uuid list \<Rightarrow> uuid \<Rightarrow> mention_row" where
  "new_mention now who ch c ids i =
     \<lparr>km_id = i, km_chunk = kc_id ch, km_asset = (if length ids = 1 then Some (hd ids) else None),
      km_text = take 255 (mc_surface c), km_source = IDENTIFIER_MATCH,
      km_resolution = (if length ids = 1 then MR_RESOLVED else MR_AMBIGUOUS), km_candidates = ids,
      km_namespace = Some (mc_namespace c), km_by = p_subject who, km_created = now\<rparr>"

definition record_match ::
  "int \<Rightarrow> principal \<Rightarrow> chunk_row \<Rightarrow> scan \<Rightarrow> mention_candidate \<times> uuid list \<Rightarrow> scan" where
  "record_match now who ch s m =
     (let c = fst m; ids = snd m; key = (kc_id ch, mc_value c, Some (mc_namespace c)) in
      if key \<in> set (sc_existing s) then s
      else s\<lparr>sc_existing := sc_existing s @ [key], sc_rows := sc_rows s @ [new_mention now who ch c ids (sc_next s)],
        sc_next := Suc (sc_next s), sc_created := Suc (sc_created s),
        sc_ambiguous := sc_ambiguous s + (if length ids = 1 then 0 else 1)\<rparr>)"

definition scan_chunk :: "string list \<Rightarrow> int \<Rightarrow> principal \<Rightarrow> cmdb \<Rightarrow> scan \<Rightarrow> chunk_row \<Rightarrow> scan" where
  "scan_chunk nss now who db s ch = (let found = candidates nss (ch_content (kc_chunk ch)) in
     foldl (record_match now who ch) (s\<lparr>sc_considered := sc_considered s + length found\<rparr>) (match_candidates found db))"

definition version_chunks :: "uuid \<Rightarrow> knowledge \<Rightarrow> chunk_row list" where
  "version_chunks v kn = sort_key (\<lambda>c. ch_ordinal (kc_chunk c)) (filter (\<lambda>c. kc_version c = v) (kn_chunks kn))"

definition insert_mention :: "knowledge \<Rightarrow> cmdb \<Rightarrow> mentions \<Rightarrow> mention_row \<Rightarrow> acop_error + mentions" where
  "insert_mention kn db ms m = andThen (enforce (mention_checks kn db m)) (\<lambda>_.
     Inr (ms\<lparr>mn_rows := mn_rows ms @ [m], mn_next := Suc (km_id m)\<rparr>))"

definition scan_version :: "string list \<Rightarrow> int \<Rightarrow> principal \<Rightarrow> cmdb \<Rightarrow> mentions \<Rightarrow> chunk_row list \<Rightarrow> scan" where
  "scan_version nss now who db ms chunks = foldl (scan_chunk nss now who db)
     \<lparr>sc_considered = 0, sc_created = 0, sc_ambiguous = 0, sc_existing = existing_keys (map kc_id chunks) ms,
      sc_rows = [], sc_next = mn_next ms\<rparr> chunks"

definition link_version ::
  "string list \<Rightarrow> int \<Rightarrow> uuid \<Rightarrow> principal \<Rightarrow> knowledge \<Rightarrow> cmdb \<Rightarrow> mentions \<Rightarrow> acop_error + mention_report \<times> mentions" where
  "link_version nss now v who kn db ms = (let chunks = version_chunks v kn in
     andThen (require (chunks \<noteq> []) NotFoundError) (\<lambda>_.
     let s = scan_version nss now who db ms chunks in
     andThen (foldRes (insert_mention kn db) ms (sc_rows s)) (\<lambda>ms'.
     Inr (\<lparr>mr_scanned = length chunks, mr_considered = sc_considered s, mr_created = sc_created s,
       mr_ambiguous = sc_ambiguous s\<rparr>, ms'))))"

section \<open>Explicit association, reading\<close>

definition or_else :: "string option \<Rightarrow> string \<Rightarrow> string" where
  "or_else t u = (case t of None \<Rightarrow> u | Some s \<Rightarrow> if s = [] then u else s)"

definition associate ::
  "int \<Rightarrow> uuid \<Rightarrow> uuid \<Rightarrow> principal \<Rightarrow> string option \<Rightarrow> knowledge \<Rightarrow> cmdb \<Rightarrow> mentions \<Rightarrow>
   acop_error + mention_row \<times> mentions" where
  "associate now ch a who mtext kn db ms = (case find_row kc_id ch (kn_chunks kn) of
     None \<Rightarrow> Inl NotFoundError
   | Some c \<Rightarrow> (case find_asset a db of
       None \<Rightarrow> Inl NotFoundError
     | Some r \<Rightarrow> andThen (require (ca_lifecycle r \<notin> set TERMINAL_LIFECYCLE_STATES) ValidationError) (\<lambda>_.
         let m = \<lparr>km_id = mn_next ms, km_chunk = ch, km_asset = Some a,
             km_text = take 255 (or_else mtext (or_else (kc_label c) ''explicit'')), km_source = EXPLICIT,
             km_resolution = MR_RESOLVED, km_candidates = [a], km_namespace = None, km_by = p_subject who,
             km_created = now\<rparr> in
         andThen (insert_mention kn db ms m) (\<lambda>ms'. Inr (m, ms')))))"

text \<open>A dictionary from chunk to its mentions, in the order of their first rows.\<close>

definition for_chunks :: "uuid list \<Rightarrow> mentions \<Rightarrow> (uuid \<times> mention_row list) list" where
  "for_chunks ids ms = (let rows = sort_key km_created (filter (\<lambda>m. km_chunk m \<in> set ids) (mn_rows ms)) in
     map (\<lambda>i. (i, filter (\<lambda>m. km_chunk m = i) rows)) (rev (remdups (rev (map km_chunk rows)))))"

section \<open>Tokens\<close>

lemma alnum_mention [simp]: "is_alnum c \<Longrightarrow> mention_char c"
  by (simp add: mention_char_def)

lemma run_chars:
  assumes "k < length (takeWhile P (drop i s))"
  shows "i + k < length s \<and> P (s ! (i + k))"
proof -
  have "k < length s - i" using assms length_takeWhile_le [of P "drop i s"] by simp
  moreover from this have "takeWhile P (drop i s) ! k = s ! (i + k)" using assms by (simp add: takeWhile_nth)
  moreover have "P (takeWhile P (drop i s) ! k)" using nth_mem [OF assms] by (rule set_takeWhileD [THEN conjunct2])
  ultimately show ?thesis by simp
qed

lemma in_Many:
  "j \<in> set (ends (Many P least most) s i) \<longleftrightarrow> i + least \<le> j \<and> j \<le> i + length (takeWhile P (drop i s)) \<and>
     (\<forall>m. most = Some m \<longrightarrow> j \<le> i + m)"
  unfolding ends.simps(2) Let_def by (cases most) (auto simp del: upt_Suc simp: less_Suc_eq_le)

lemma in_run:
  "j \<in> set (ends (in_order [Chars is_alnum, Many mention_char 1 (Some 126), Chars is_alnum]) s i) \<longleftrightarrow>
   i < length s \<and> is_alnum (s ! i) \<and> (\<exists>k \<in> set (ends (Many mention_char 1 (Some 126)) s (Suc i)).
     k < length s \<and> is_alnum (s ! k) \<and> j = Suc k)"
  by (auto simp del: ends.simps simp: ends.simps(1) ends.simps(3) split: if_splits)

text \<open>
  The first alternative takes between three and 128 characters and ends in a letter or digit; it fails
  only where at most two letters or digits stand together.
\<close>

lemma TOKEN_long:
  "j \<in> set (ends (in_order [Chars is_alnum, Many mention_char 1 (Some 126), Chars is_alnum]) s i) \<Longrightarrow>
   i < j \<and> j \<le> i + 128 \<and> is_alnum (s ! (j - 1))"
  unfolding in_run Bex_def in_Many by auto

lemma TOKEN_short:
  "j \<in> set (ends (Many is_alnum 1 None) s i) \<Longrightarrow>
   i < j \<and> j \<le> i + length (takeWhile is_alnum (drop i s)) \<and> is_alnum (s ! (j - 1))"
  unfolding in_Many using run_chars [of "j - 1 - i" is_alnum i s] by auto

lemma TOKEN_three:
  assumes "3 \<le> length (takeWhile is_alnum (drop i s))"
  shows "ends (in_order [Chars is_alnum, Many mention_char 1 (Some 126), Chars is_alnum]) s i \<noteq> []"
proof -
  have at: "i + k < length s \<and> is_alnum (s ! (i + k))" if "k < 3" for k
    using run_chars [of k is_alnum i s] assms that by simp
  have "0 < length (takeWhile mention_char (drop (Suc i) s))"
    using at [of 1] by (simp add: Cons_nth_drop_Suc [symmetric])
  then have "i + 2 \<in> set (ends (Many mention_char 1 (Some 126)) s (Suc i))" unfolding in_Many by (simp add: Suc_le_eq)
  with at [of 0] at [of 2] have "i + 3 \<in> set (ends (in_order [Chars is_alnum, Many mention_char 1 (Some 126), Chars is_alnum]) s i)"
    unfolding in_run by (intro conjI bexI [of _ "i + 2"]) simp_all
  then show ?thesis by (metis empty_iff list.set(1))
qed

lemma TOKEN_match:
  assumes "match_at TOKEN s i = Some j"
  shows "i < j \<and> j \<le> i + 128 \<and> is_alnum (s ! (j - 1))"
proof -
  let ?long = "ends (in_order [Chars is_alnum, Many mention_char 1 (Some 126), Chars is_alnum]) s i"
  let ?short = "ends (Many is_alnum 1 None) s i"
  from assms have j: "?long @ ?short \<noteq> []" "j = hd (?long @ ?short)"
    by (auto simp: match_at_def TOKEN_def simp del: in_order.simps split: list.splits)
  show ?thesis
  proof (cases "?long = []")
    case False
    with j have "j \<in> set ?long" by (metis hd_append2 list.set_sel(1))
    then show ?thesis by (rule TOKEN_long)
  next
    case True
    with j have "j \<in> set ?short" by (metis append_Nil list.set_sel(1))
    moreover from True have "\<not> 3 \<le> length (takeWhile is_alnum (drop i s))" using TOKEN_three by blast
    ultimately show ?thesis using TOKEN_short [of j s i] by linarith
  qed
qed

lemma finditer_TOKEN:
  assumes "(a, b) \<in> set (finditer TOKEN s)"
  shows "a < b \<and> b \<le> length s \<and> b \<le> a + 128 \<and> is_alnum (s ! (b - 1))"
  using find_all_sound [OF assms [unfolded finditer_def]] TOKEN_match [of s a b] by simp

lemma last_slice: "a < b \<Longrightarrow> b \<le> length s \<Longrightarrow> last (take (b - a) (drop a s)) = s ! (b - 1)"
  by (subst last_conv_nth) auto

text \<open>A token ends in a letter or digit, so there is nothing to strip from its end.\<close>

lemma tokens_end:
  assumes "t \<in> set (tokens content)"
  shows "t \<noteq> [] \<and> is_alnum (last t) \<and> length t \<le> 128 \<and> (\<exists>u w. content = u @ t @ w)"
proof -
  from assms obtain a b where ab: "(a, b) \<in> set (finditer TOKEN content)" and t: "t = matched content (a, b)"
    by (auto simp: tokens_def dest: in_set_takeD)
  note bounds = finditer_TOKEN [OF ab]
  have "content = take a content @ t @ drop b content"
    using bounds by (simp add: t matched_def) (metis append.assoc append_take_drop_id drop_drop le_add_diff_inverse2 less_imp_le)
  with bounds show ?thesis by (auto simp: t matched_def last_slice)
qed

lemma rstrip_trailing_id: "t \<noteq> [] \<Longrightarrow> is_alnum (last t) \<Longrightarrow> rstrip_trailing t = t"
  by (cases t rule: rev_cases) (auto simp: rstrip_trailing_def is_alnum_def is_digit_def is_upper_letter_def is_lower_letter_def)

lemma stems_tokens: "concat (map stems (tokens content)) = tokens content"
proof -
  have "stems t = [t]" if "t \<in> set (tokens content)" for t
    using tokens_end [OF that] by (simp add: stems_def rstrip_trailing_id)
  then have "map stems (tokens content) = map (\<lambda>t. [t]) (tokens content)" by (rule map_cong [OF refl])
  then show ?thesis by (simp only: concat_map_singleton list.map_ident)
qed

section \<open>What the candidates are\<close>

text \<open>A token spells a value of a namespace when the namespace's own normaliser makes that value of it.\<close>

definition spells :: "string \<Rightarrow> string \<Rightarrow> string \<Rightarrow> bool" where
  "spells ns token v \<longleftrightarrow> (\<exists>spec. namespace_spec_of ns = Some spec \<and> v = NORMALISERS (ns_normaliser spec) token \<and>
     MIN_MENTION_TOKEN_LENGTH \<le> length v)"

lemma try_namespace_keys:
  "candidate_key ` set (try_namespace t found ns) = candidate_key ` set found \<union> {(ns, v) | v. spells ns t v}"
  by (auto simp: try_namespace_def spells_def candidate_key_def Let_def split: option.splits)

lemma try_namespaces_keys:
  "candidate_key ` set (foldl (try_namespace t) found nss) =
   candidate_key ` set found \<union> {(ns, v). ns \<in> set nss \<and> spells ns t v}"
  by (induction nss arbitrary: found) (auto simp: try_namespace_keys)

lemma try_tokens_keys:
  "candidate_key ` set (foldl (try_token nss) found ts) =
   candidate_key ` set found \<union> {(ns, v). ns \<in> set nss \<and> (\<exists>t \<in> set ts. mentionable t \<and> spells ns t v)}"
  by (induction ts arbitrary: found) (auto simp: try_token_def try_namespaces_keys)

lemma candidate_keys:
  "candidate_key ` set (candidates nss content) =
   {(ns, v). ns \<in> set nss \<and> (\<exists>t \<in> set (tokens content). mentionable t \<and> spells ns t v)}"
  by (simp add: candidates_def stems_tokens try_tokens_keys)

definition honest :: "string list \<Rightarrow> string list \<Rightarrow> mention_candidate \<Rightarrow> bool" where
  "honest nss ts c \<longleftrightarrow> mc_namespace c \<in> set nss \<and> mc_surface c \<in> set ts \<and> spells (mc_namespace c) (mc_surface c) (mc_value c)"

lemma try_namespaces_honest:
  "list_all (honest nss ts) found \<Longrightarrow> t \<in> set ts \<Longrightarrow> set ms \<subseteq> set nss \<Longrightarrow>
   list_all (honest nss ts) (foldl (try_namespace t) found ms)"
  by (induction ms arbitrary: found) (auto simp: try_namespace_def honest_def spells_def Let_def split: option.splits)

lemma try_tokens_honest:
  "list_all (honest nss ts) found \<Longrightarrow> set us \<subseteq> set ts \<Longrightarrow> list_all (honest nss ts) (foldl (try_token nss) found us)"
  by (induction us arbitrary: found) (simp_all add: try_token_def try_namespaces_honest)

lemma candidates_honest: "c \<in> set (candidates nss content) \<Longrightarrow> honest nss (tokens content) c"
  using try_tokens_honest [of nss "tokens content" "[]" "tokens content"]
  by (simp add: candidates_def stems_tokens list_all_iff)

lemma set_assets_with: "set (assets_with ns v db) =
    {ci_asset r | r. r \<in> set (identifier_rows db) \<and> ci_live r \<and> ci_namespace r = ns \<and> ci_normalized r = v}"
  by (auto simp: assets_with_def)

lemma distinct_assets_with [simp]: "distinct (assets_with ns v db)"
  by (simp add: assets_with_def)

lemma in_match_candidates:
  "(c, ids) \<in> set (match_candidates found db) \<longleftrightarrow>
   c \<in> set found \<and> ids = assets_with (mc_namespace c) (mc_value c) db \<and> ids \<noteq> []"
  by (auto simp: match_candidates_def)

section \<open>What a scan records\<close>

definition exact_mention :: "string list \<Rightarrow> chunk_row list \<Rightarrow> cmdb \<Rightarrow> mention_row \<Rightarrow> bool" where
  "exact_mention nss chunks db m \<longleftrightarrow> (\<exists>ch \<in> set chunks. \<exists>ns v. km_chunk m = kc_id ch \<and> km_namespace m = Some ns \<and>
     ns \<in> set nss \<and> km_text m \<in> set (tokens (ch_content (kc_chunk ch))) \<and> spells ns (km_text m) v \<and>
     km_candidates m = assets_with ns v db \<and> km_candidates m \<noteq> [] \<and> km_source m = IDENTIFIER_MATCH \<and>
     km_asset m = (if length (km_candidates m) = 1 then Some (hd (km_candidates m)) else None) \<and>
     km_resolution m = (if length (km_candidates m) = 1 then MR_RESOLVED else MR_AMBIGUOUS))"

definition match_key :: "chunk_row \<Rightarrow> mention_candidate \<times> uuid list \<Rightarrow> mention_key" where
  "match_key ch m = (kc_id ch, mc_value (fst m), Some (mc_namespace (fst m)))"

definition chunk_matches :: "string list \<Rightarrow> cmdb \<Rightarrow> chunk_row \<Rightarrow> (mention_candidate \<times> uuid list) list" where
  "chunk_matches nss db ch = match_candidates (candidates nss (ch_content (kc_chunk ch))) db"

lemma new_mention_exact:
  assumes "ch \<in> set chunks" and "(c, ids) \<in> set (chunk_matches nss db ch)"
  shows "exact_mention nss chunks db (new_mention now who ch c ids i) \<and>
    mention_key_of (new_mention now who ch c ids i) = match_key ch (c, ids)"
proof -
  let ?ts = "tokens (ch_content (kc_chunk ch))"
  from assms(2) have c: "honest nss ?ts c" "ids = assets_with (mc_namespace c) (mc_value c) db" "ids \<noteq> []"
    by (auto simp: chunk_matches_def in_match_candidates candidates_honest)
  then have "length (mc_surface c) \<le> 128" using tokens_end [of "mc_surface c"] by (auto simp: honest_def)
  then have whole: "take 255 (mc_surface c) = mc_surface c" by simp
  with c assms(1) show ?thesis
    by (auto simp: exact_mention_def honest_def new_mention_def mention_key_of_def match_key_def spells_def)
qed

text \<open>The state of a scan: what it knows to be recorded, and what it is about to record.\<close>

definition scan_ok :: "string list \<Rightarrow> cmdb \<Rightarrow> chunk_row list \<Rightarrow> mention_key set \<Rightarrow> scan \<Rightarrow> bool" where
  "scan_ok nss db chunks before s \<longleftrightarrow>
     set (sc_existing s) = before \<union> mention_key_of ` set (sc_rows s) \<and>
     (\<forall>m \<in> set (sc_rows s). exact_mention nss chunks db m) \<and> sc_created s = length (sc_rows s) \<and>
     sc_ambiguous s = length (filter (\<lambda>m. km_resolution m = MR_AMBIGUOUS) (sc_rows s))"

lemma record_match_ok:
  assumes "scan_ok nss db chunks before s" and "ch \<in> set chunks" and "m \<in> set (chunk_matches nss db ch)"
  shows "scan_ok nss db chunks before (record_match now who ch s m) \<and>
    set (sc_existing (record_match now who ch s m)) = insert (match_key ch m) (set (sc_existing s))"
proof (cases m)
  case (Pair c ids)
  with new_mention_exact [OF assms(2), of c ids nss db now who "sc_next s"] assms show ?thesis
    by (auto simp: scan_ok_def record_match_def match_key_def Let_def) (simp_all add: new_mention_def)
qed

lemma record_matches_ok:
  "scan_ok nss db chunks before s \<Longrightarrow> ch \<in> set chunks \<Longrightarrow> set ms \<subseteq> set (chunk_matches nss db ch) \<Longrightarrow>
   scan_ok nss db chunks before (foldl (record_match now who ch) s ms) \<and>
   set (sc_existing (foldl (record_match now who ch) s ms)) = set (sc_existing s) \<union> match_key ch ` set ms"
proof (induction ms arbitrary: s)
  case (Cons m ms)
  from record_match_ok [OF Cons.prems(1,2), of m now who] Cons.prems(3)
  have step: "scan_ok nss db chunks before (record_match now who ch s m)"
    "set (sc_existing (record_match now who ch s m)) = insert (match_key ch m) (set (sc_existing s))" by simp_all
  from Cons.IH [OF step(1) Cons.prems(2)] Cons.prems(3) step(2) show ?case by auto
qed simp

lemma scan_chunk_ok:
  assumes "scan_ok nss db chunks before s" and "ch \<in> set chunks"
  shows "scan_ok nss db chunks before (scan_chunk nss now who db s ch) \<and>
    set (sc_existing (scan_chunk nss now who db s ch)) =
      set (sc_existing s) \<union> match_key ch ` set (chunk_matches nss db ch)"
proof -
  let ?s = "s\<lparr>sc_considered := sc_considered s + length (candidates nss (ch_content (kc_chunk ch)))\<rparr>"
  have "scan_ok nss db chunks before ?s" using assms(1) by (simp add: scan_ok_def)
  from record_matches_ok [OF this assms(2) order_refl] show ?thesis
    by (simp add: scan_chunk_def chunk_matches_def Let_def)
qed

lemma scan_chunks_ok:
  "scan_ok nss db chunks before s \<Longrightarrow> set cs \<subseteq> set chunks \<Longrightarrow>
   scan_ok nss db chunks before (foldl (scan_chunk nss now who db) s cs) \<and>
   set (sc_existing (foldl (scan_chunk nss now who db) s cs)) =
     set (sc_existing s) \<union> (\<Union>ch \<in> set cs. match_key ch ` set (chunk_matches nss db ch))"
proof (induction cs arbitrary: s)
  case (Cons ch cs)
  with scan_chunk_ok [OF Cons.prems(1), of ch now who] Cons.IH [of "scan_chunk nss now who db s ch"] show ?case by auto
qed simp

lemma scan_version_ok:
  fixes nss now who db ms chunks
  defines "s \<equiv> scan_version nss now who db ms chunks"
  shows "scan_ok nss db chunks (set (existing_keys (map kc_id chunks) ms)) s"
    and "set (sc_existing s) = set (existing_keys (map kc_id chunks) ms) \<union>
      (\<Union>ch \<in> set chunks. match_key ch ` set (chunk_matches nss db ch))"
proof -
  let ?ex = "existing_keys (map kc_id chunks) ms"
  let ?s = "\<lparr>sc_considered = 0, sc_created = 0, sc_ambiguous = 0, sc_existing = ?ex, sc_rows = [], sc_next = mn_next ms\<rparr>"
  have "scan_ok nss db chunks (set ?ex) ?s" by (simp add: scan_ok_def)
  note run = scan_chunks_ok [OF this order_refl, of now who]
  from run show "scan_ok nss db chunks (set ?ex) s" by (simp add: s_def scan_version_def)
  from run show "set (sc_existing s) = set ?ex \<union> (\<Union>ch \<in> set chunks. match_key ch ` set (chunk_matches nss db ch))"
    by (simp add: s_def scan_version_def)
qed

lemma insert_mentions:
  "foldRes (insert_mention kn db) ms rows = Inr ms' \<Longrightarrow> mn_rows ms' = mn_rows ms @ rows"
  by (induction rows arbitrary: ms) (auto simp: insert_mention_def res_simps)

lemma link_version_rows:
  assumes "link_version nss now v who kn db ms = Inr (rep, ms')"
  shows "mn_rows ms' = mn_rows ms @ sc_rows (scan_version nss now who db ms (version_chunks v kn))"
    and "mr_created rep = length (sc_rows (scan_version nss now who db ms (version_chunks v kn)))"
    and "mr_ambiguous rep = length (filter (\<lambda>m. km_resolution m = MR_AMBIGUOUS)
      (sc_rows (scan_version nss now who db ms (version_chunks v kn))))"
  using assms scan_version_ok(1) [of nss db "version_chunks v kn" ms now who]
  by (auto simp: link_version_def Let_def res_simps scan_ok_def dest: insert_mentions)

lemma set_version_chunks: "set (version_chunks v kn) = {c \<in> set (kn_chunks kn). kc_version c = v}"
  by (auto simp: version_chunks_def)

lemma spells_value: "spells ns t v \<longleftrightarrow> v = normalised_value ns t \<and> namespace_spec_of ns \<noteq> None \<and>
    MIN_MENTION_TOKEN_LENGTH \<le> length v"
  by (auto simp: spells_def normalised_value_def split: option.splits)

lemma in_existing_keys: "key \<in> set (existing_keys ids ms) \<longleftrightarrow> (\<exists>m \<in> set (mn_rows ms). km_chunk m \<in> set ids \<and>
    km_source m = IDENTIFIER_MATCH \<and> mention_key_of m = key)"
  by (auto simp: existing_keys_def)

lemma recorded_keys:
  assumes "link_version nss now v who kn db ms = Inr (rep, ms')"
  shows "set (existing_keys (map kc_id (version_chunks v kn)) ms') =
    set (existing_keys (map kc_id (version_chunks v kn)) ms) \<union>
    (\<Union>ch \<in> set (version_chunks v kn). match_key ch ` set (chunk_matches nss db ch))"
proof -
  let ?chunks = "version_chunks v kn"
  let ?s = "scan_version nss now who db ms ?chunks"
  note ok = scan_version_ok [where nss = nss and now = now and who = who and db = db and ms = ms and chunks = ?chunks]
  have "filter (\<lambda>m. km_chunk m \<in> set (map kc_id ?chunks) \<and> km_source m = IDENTIFIER_MATCH) (sc_rows ?s) = sc_rows ?s"
    using ok(1) by (intro filter_True) (auto simp: scan_ok_def exact_mention_def)
  then have "existing_keys (map kc_id ?chunks) ms' = existing_keys (map kc_id ?chunks) ms @ map mention_key_of (sc_rows ?s)"
    by (simp add: existing_keys_def link_version_rows(1) [OF assms])
  with ok show ?thesis by (simp add: scan_ok_def)
qed

text \<open>
  The scan looks at identifiers only, so it may name an asset that was retired or merged since, which \<open>associate\<close>
  refuses.
\<close>

lemma scan_ignores_lifecycle:
  "scan_version nss now who (db\<lparr>asset_rows := rows\<rparr>) ms chunks = scan_version nss now who db ms chunks"
proof -
  have "scan_chunk nss now who (db\<lparr>asset_rows := rows\<rparr>) = scan_chunk nss now who db"
    by (intro ext) (simp add: scan_chunk_def match_candidates_def assets_with_def)
  then show ?thesis by (simp add: scan_version_def)
qed

lemma associate_needs_live_asset:
  assumes "associate now ch a who mtext kn db ms = Inr (m, ms')"
  shows "\<exists>r. find_asset a db = Some r \<and> ca_lifecycle r \<notin> set TERMINAL_LIFECYCLE_STATES \<and>
    find_row kc_id ch (kn_chunks kn) \<noteq> None \<and> mn_rows ms' = mn_rows ms @ [m] \<and> km_asset m = Some a \<and>
    km_by m = p_subject who"
  using assms by (auto simp: associate_def insert_mention_def Let_def res_simps split: option.splits)

section \<open>Properties\<close>

text \<open>
  C29. A scan guesses nothing.  Every mention it adds stands word for word in a chunk of the version, in a namespace that
  may be mentioned; its candidates are exactly the assets that carry, under that namespace, a live identifier with
  the value the namespace's normaliser makes of it; it names an asset if and only if there is one candidate, and is
  ambiguous otherwise.  Earlier mentions stay.
\<close>

theorem mentions_are_exact:
  assumes "link_version nss now v who kn db ms = Inr (rep, ms')"
  shows "\<exists>new. mn_rows ms' = mn_rows ms @ new \<and> mr_created rep = length new \<and>
    (\<forall>m \<in> set new. \<exists>ch ns. ch \<in> set (kn_chunks kn) \<and> kc_version ch = v \<and> km_chunk m = kc_id ch \<and>
       km_namespace m = Some ns \<and> ns \<in> set nss \<and> (\<exists>u w. ch_content (kc_chunk ch) = u @ km_text m @ w) \<and>
       distinct (km_candidates m) \<and> km_candidates m \<noteq> [] \<and>
       set (km_candidates m) = {ci_asset r | r. r \<in> set (identifier_rows db) \<and> ci_live r \<and> ci_namespace r = ns \<and>
         ci_normalized r = normalised_value ns (km_text m)} \<and>
       (\<forall>a. km_asset m = Some a \<longleftrightarrow> km_candidates m = [a]) \<and>
       (km_resolution m = MR_AMBIGUOUS \<longleftrightarrow> 1 < length (km_candidates m)))"
proof (rule exI [of _ "sc_rows (scan_version nss now who db ms (version_chunks v kn))"], intro conjI ballI)
  show "mn_rows ms' = mn_rows ms @ sc_rows (scan_version nss now who db ms (version_chunks v kn))"
    "mr_created rep = length (sc_rows (scan_version nss now who db ms (version_chunks v kn)))"
    by (rule link_version_rows [OF assms])+
next
  fix m assume "m \<in> set (sc_rows (scan_version nss now who db ms (version_chunks v kn)))"
  with scan_version_ok(1) [of nss db "version_chunks v kn" ms now who]
  have "exact_mention nss (version_chunks v kn) db m" by (simp add: scan_ok_def)
  then obtain ch ns val where m: "ch \<in> set (version_chunks v kn)" "km_chunk m = kc_id ch" "km_namespace m = Some ns"
    "ns \<in> set nss" "km_text m \<in> set (tokens (ch_content (kc_chunk ch)))" "val = normalised_value ns (km_text m)"
    "km_candidates m = assets_with ns val db" "km_candidates m \<noteq> []"
    "km_asset m = (if length (km_candidates m) = 1 then Some (hd (km_candidates m)) else None)"
    "km_resolution m = (if length (km_candidates m) = 1 then MR_RESOLVED else MR_AMBIGUOUS)"
    by (auto simp: exact_mention_def spells_value)
  have asset: "km_asset m = Some a \<longleftrightarrow> km_candidates m = [a]" for a
    using m(8,9) by (cases "km_candidates m") auto
  have more_than_one: "km_resolution m = MR_AMBIGUOUS \<longleftrightarrow> 1 < length (km_candidates m)"
    using m(8,10) by (cases "km_candidates m") auto
  have set: "set (km_candidates m) = {ci_asset r | r. r \<in> set (identifier_rows db) \<and> ci_live r \<and> ci_namespace r = ns \<and>
      ci_normalized r = normalised_value ns (km_text m)}"
    using m(6,7) by (simp only: set_assets_with)
  show "\<exists>ch ns. ch \<in> set (kn_chunks kn) \<and> kc_version ch = v \<and> km_chunk m = kc_id ch \<and>
       km_namespace m = Some ns \<and> ns \<in> set nss \<and> (\<exists>u w. ch_content (kc_chunk ch) = u @ km_text m @ w) \<and>
       distinct (km_candidates m) \<and> km_candidates m \<noteq> [] \<and>
       set (km_candidates m) = {ci_asset r | r. r \<in> set (identifier_rows db) \<and> ci_live r \<and> ci_namespace r = ns \<and>
         ci_normalized r = normalised_value ns (km_text m)} \<and>
       (\<forall>a. km_asset m = Some a \<longleftrightarrow> km_candidates m = [a]) \<and>
       (km_resolution m = MR_AMBIGUOUS \<longleftrightarrow> 1 < length (km_candidates m))"
    using m(1-4,7,8) tokens_end [OF m(5)] set asset more_than_one
    by (intro exI [of _ ch] exI [of _ ns]) (simp add: set_version_chunks)
qed

lemma match_keys_order:
  assumes "set nss' = set nss"
  shows "match_key ch ` set (chunk_matches nss' db ch) = match_key ch ` set (chunk_matches nss db ch)"
proof -
  let ?found = "\<lambda>nss. candidates nss (ch_content (kc_chunk ch))"
  have "match_key ch ` set (chunk_matches nss db ch) = (\<lambda>(ns, v). (kc_id ch, v, Some ns)) `
      {(ns, v) \<in> candidate_key ` set (?found nss). assets_with ns v db \<noteq> []}" for nss
    by (force simp: match_key_def chunk_matches_def match_candidates_def candidate_key_def)
  with assms show ?thesis by (simp add: candidate_keys)
qed

lemma match_key_chunk: "key \<in> match_key ch ` ms \<Longrightarrow> fst key = kc_id ch"
  by (auto simp: match_key_def)

text \<open>
  Nothing that could be matched is passed over: after a scan every token of a chunk of the version, of the first
  4000 at most, that is long enough, not a number, and spells a live identifier of a mentionable namespace, is the text
  of a mention or spells the same identifier as one.
\<close>

theorem every_identifier_is_mentioned:
  assumes "link_version nss now v who kn db ms = Inr (rep, ms')"
    and "ch \<in> set (kn_chunks kn)" "kc_version ch = v" "t \<in> set (tokens (ch_content (kc_chunk ch)))" "mentionable t"
    and "ns \<in> set nss" "namespace_spec_of ns \<noteq> None" "MIN_MENTION_TOKEN_LENGTH \<le> length (normalised_value ns t)"
    and "r \<in> set (identifier_rows db)" "ci_live r" "ci_namespace r = ns" "ci_normalized r = normalised_value ns t"
  shows "\<exists>m \<in> set (mn_rows ms'). km_chunk m = kc_id ch \<and> km_namespace m = Some ns \<and> km_source m = IDENTIFIER_MATCH \<and>
    normalised_value ns (km_text m) = normalised_value ns t"
proof -
  let ?val = "normalised_value ns t"
  have "(ns, ?val) \<in> candidate_key ` set (candidates nss (ch_content (kc_chunk ch)))"
    using assms(4-8) by (auto simp: candidate_keys spells_value)
  then obtain c where "c \<in> set (candidates nss (ch_content (kc_chunk ch)))" "mc_namespace c = ns" "mc_value c = ?val"
    by (auto simp: candidate_key_def)
  moreover have "ci_asset r \<in> set (assets_with ns ?val db)" using assms(9-12) by (auto simp: set_assets_with)
  ultimately have "(kc_id ch, ?val, Some ns) \<in> match_key ch ` set (chunk_matches nss db ch)"
    by (intro image_eqI [of _ _ "(c, assets_with ns ?val db)"])
      (auto simp: match_key_def chunk_matches_def in_match_candidates)
  with assms(2,3) have "(kc_id ch, ?val, Some ns) \<in> set (existing_keys (map kc_id (version_chunks v kn)) ms')"
    unfolding recorded_keys [OF assms(1)] set_version_chunks by blast
  then obtain m where "m \<in> set (mn_rows ms')" "km_source m = IDENTIFIER_MATCH" "mention_key_of m = (kc_id ch, ?val, Some ns)"
    unfolding in_existing_keys by blast
  then show ?thesis using assms(7) by (auto simp: mention_key_of_def normalised_value_def split: option.splits)
qed

lemma record_matches_known:
  "match_key ch ` set ms \<subseteq> set (sc_existing s) \<Longrightarrow> foldl (record_match now who ch) s ms = s"
  by (induction ms) (auto simp: record_match_def match_key_def Let_def)

lemma scan_chunks_known:
  "(\<Union>ch \<in> set cs. match_key ch ` set (chunk_matches nss db ch)) \<subseteq> set (sc_existing s) \<Longrightarrow>
   sc_rows (foldl (scan_chunk nss now who db) s cs) = sc_rows s"
proof (induction cs arbitrary: s)
  case (Cons ch cs)
  then have "sc_rows (scan_chunk nss now who db s ch) = sc_rows s \<and>
      sc_existing (scan_chunk nss now who db s ch) = sc_existing s"
    by (subst (1 2) scan_chunk_def, unfold Let_def, subst (1 2) record_matches_known) (simp_all add: chunk_matches_def)
  with Cons show ?case by simp
qed simp

text \<open>
  C30. Scanning again adds nothing: a second scan of the same version, whoever runs it and whenever, and in whatever order its
  process iterates the frozenset of namespaces, succeeds, creates no mention and leaves the table as it was.
\<close>

theorem rescan_adds_nothing:
  assumes "link_version nss now v who kn db ms = Inr (rep, ms')" and "set nss' = set nss"
  shows "\<exists>rep'. link_version nss' now' v who' kn db ms' = Inr (rep', ms') \<and> mr_created rep' = 0 \<and> mr_ambiguous rep' = 0"
proof -
  let ?chunks = "version_chunks v kn"
  let ?s' = "scan_version nss' now' who' db ms' ?chunks"
  let ?matches = "\<Union>ch \<in> set ?chunks. match_key ch ` set (chunk_matches nss db ch)"
  have "?matches \<subseteq> set (existing_keys (map kc_id ?chunks) ms')"
    unfolding recorded_keys [OF assms(1)] by blast
  then have "sc_rows ?s' = []"
    unfolding scan_version_def using assms(2)
    by (subst scan_chunks_known) (auto simp: match_keys_order [OF assms(2)])
  moreover have "?chunks \<noteq> []" using assms(1) by (auto simp: link_version_def Let_def res_simps)
  ultimately show ?thesis using scan_version_ok(1) [of nss' db ?chunks ms' now' who']
    by (simp add: link_version_def Let_def scan_ok_def)
qed

end
