(* ===== verification/Mention_Routes.thy ===== *)
theory Mention_Routes
  imports Mentions Knowledge_Life
begin

text \<open>
  The mention routes of \<open>api/routes/knowledge_search.py\<close>: a scan and an explicit association by an operator, in one
  transaction with their audit record, and the list of a chunk's mentions.
\<close>

datatype mention_request =
  ScanMentions uuid
| AssociateMention uuid uuid "string option"

type_synonym mention_run = "acop_error + kn_event \<times> mentions"

definition scan_mentions :: "string list \<Rightarrow> int \<Rightarrow> principal \<Rightarrow> uuid \<Rightarrow> knowledge \<Rightarrow> cmdb \<Rightarrow> mentions \<Rightarrow> mention_run" where
  "scan_mentions nss now who v kn db ms = andThen (link_version nss now v who kn db ms) (\<lambda>(rep, ms').
     Inr (kn_success ''knowledge.mentions.scan'' ''knowledge.version'' (Some v) who, ms'))"

definition associate_mention ::
  "int \<Rightarrow> principal \<Rightarrow> uuid \<Rightarrow> uuid \<Rightarrow> string option \<Rightarrow> knowledge \<Rightarrow> cmdb \<Rightarrow> mentions \<Rightarrow> mention_run" where
  "associate_mention now who ch a mtext kn db ms = andThen (associate now ch a who mtext kn db ms) (\<lambda>(m, ms').
     Inr (kn_success ''knowledge.mentions.associate'' ''knowledge.chunk'' (Some ch) who, ms'))"

definition list_mentions :: "uuid \<Rightarrow> mentions \<Rightarrow> mention_row list" where
  "list_mentions ch ms = (case map_of (for_chunks [ch] ms) ch of None \<Rightarrow> [] | Some rows \<Rightarrow> rows)"

fun mention_perform ::
  "string list \<Rightarrow> int \<Rightarrow> principal \<Rightarrow> mention_request \<Rightarrow> knowledge \<Rightarrow> cmdb \<Rightarrow> mentions \<Rightarrow> mention_run" where
  "mention_perform nss now who (ScanMentions v) kn db ms = scan_mentions nss now who v kn db ms"
| "mention_perform nss now who (AssociateMention ch a mtext) kn db ms = associate_mention now who ch a mtext kn db ms"

record mention_world =
  mw_mentions :: mentions
  mw_audit :: "kn_event list"

definition mention_serve ::
  "string list \<Rightarrow> int \<Rightarrow> principal \<Rightarrow> mention_request \<Rightarrow> knowledge \<Rightarrow> cmdb \<Rightarrow> mention_world \<Rightarrow> mention_world" where
  "mention_serve nss now who r kn db w =
     (case andThen (require_roles OperatorPrincipal who) (\<lambda>who. mention_perform nss now who r kn db (mw_mentions w)) of
        Inl e \<Rightarrow> w
      | Inr (event, ms') \<Rightarrow> w\<lparr>mw_mentions := ms', mw_audit := mw_audit w @ [event]\<rparr>)"

lemma scanned_by:
  "list_all (\<lambda>m. km_by m = p_subject who) (sc_rows s) \<Longrightarrow>
   list_all (\<lambda>m. km_by m = p_subject who) (sc_rows (foldl (record_match now who ch) s ms))"
  by (induction ms arbitrary: s) (simp_all add: record_match_def new_mention_def Let_def)

lemma scan_by:
  "list_all (\<lambda>m. km_by m = p_subject who) (sc_rows s) \<Longrightarrow>
   list_all (\<lambda>m. km_by m = p_subject who) (sc_rows (foldl (scan_chunk nss now who db) s cs))"
  by (induction cs arbitrary: s) (simp_all add: scan_chunk_def scanned_by Let_def)

lemma link_version_by:
  assumes "link_version nss now v who kn db ms = Inr (rep, ms')"
  shows "\<exists>new. mn_rows ms' = mn_rows ms @ new \<and> (\<forall>m \<in> set new. km_by m = p_subject who)"
  using link_version_rows(1) [OF assms]
    scan_by [of who "\<lparr>sc_considered = 0, sc_created = 0, sc_ambiguous = 0,
      sc_existing = existing_keys (map kc_id (version_chunks v kn)) ms, sc_rows = [], sc_next = mn_next ms\<rparr>" nss now db "version_chunks v kn"]
  by (auto simp: scan_version_def list_all_iff)

text \<open>
  Every mention has someone who answers for it: whatever is requested by whomever, earlier mentions stay as they were;
  when one is added, the caller held the operator or the admin role, the new mentions carry the caller's subject, and
  the call left its audit record.
\<close>

theorem mentions_are_attributed:
  "\<exists>new. mn_rows (mw_mentions (mention_serve nss now who r kn db w)) = mn_rows (mw_mentions w) @ new \<and>
    (new = [] \<or> has_any_role who [role_value OPERATOR, role_value ADMIN] \<and>
       list_all (\<lambda>m. km_by m = p_subject who) new \<and>
       (\<exists>event. mw_audit (mention_serve nss now who r kn db w) = mw_audit w @ [event] \<and> ne_by event = to_audit_fields who))"
proof (cases "andThen (require_roles OperatorPrincipal who) (\<lambda>who. mention_perform nss now who r kn db (mw_mentions w))")
  case (Inl e)
  then show ?thesis by (simp add: mention_serve_def)
next
  case (Inr x)
  obtain event ms' where x: "x = (event, ms')" by (cases x)
  from Inr x have run: "has_any_role who [role_value OPERATOR, role_value ADMIN]"
      "mention_perform nss now who r kn db (mw_mentions w) = Inr (event, ms')"
    by (auto simp: require_roles_def OperatorPrincipal_def res_simps split: if_splits)
  have "ne_by event = to_audit_fields who \<and>
      (\<exists>new. mn_rows ms' = mn_rows (mw_mentions w) @ new \<and> list_all (\<lambda>m. km_by m = p_subject who) new)"
  proof (cases r)
    case (ScanMentions v)
    with run(2) obtain rep where "link_version nss now v who kn db (mw_mentions w) = Inr (rep, ms')"
        "event = kn_success ''knowledge.mentions.scan'' ''knowledge.version'' (Some v) who"
      by (auto simp: scan_mentions_def res_simps)
    with link_version_by [OF this(1)] show ?thesis by (auto simp: kn_success_def list_all_iff)
  next
    case (AssociateMention ch a mtext)
    with run(2) obtain m where "associate now ch a who mtext kn db (mw_mentions w) = Inr (m, ms')"
        "event = kn_success ''knowledge.mentions.associate'' ''knowledge.chunk'' (Some ch) who"
      by (auto simp: associate_mention_def res_simps)
    with associate_needs_live_asset [OF this(1)] show ?thesis by (auto simp: kn_success_def)
  qed
  with Inr x run(1) show ?thesis by (auto simp: mention_serve_def)
qed

end
