(* ===== verification/Retrieval.thy ===== *)
theory Retrieval
  imports Knowledge_Life Complex_Main "HOL-Library.Product_Lexorder"
begin

text \<open>
  \<open>services/knowledge/retrieval.py\<close>: the search over chunks.  The index proposes, the predicate of eligibility
  disposes, and an exhaustive ranking runs when the index missed something.  The three statements are selections over
  the tables of \<open>Knowledge_Store\<close>; what PostgreSQL decides is an argument: which vectors a walk of the index reaches,
  the distance of two vectors, the rank of a text for a query, whether the exact stage runs out of time.  Floats are
  rationals; latencies and the settings of the session are left out.
\<close>

section \<open>Vocabulary\<close>

datatype retrieval_method = RM_VECTOR | RM_VECTOR_EXACT | RM_LEXICAL | RM_HYBRID

datatype retrieval_strategy =
  RS_ANN | RS_ANN_COMPLETE | RS_EXACT_FALLBACK | RS_FALLBACK_SKIPPED | RS_FALLBACK_TIMEOUT | RS_NOT_RUN

datatype retrieval_mode = MODE_VECTOR | MODE_LEXICAL | MODE_HYBRID

definition NEVER_RETRIEVED_TRUST :: "trust_class list" where
  "NEVER_RETRIEVED_TRUST = [QUARANTINED]"

definition DEFAULT_ROLE_SENSITIVITY :: "string \<Rightarrow> sensitivity list" where
  "DEFAULT_ROLE_SENSITIVITY r =
     (if r = role_value VIEWER \<or> r = role_value OPERATOR \<or> r = role_value APPROVER then [PUBLIC, INTERNAL]
      else if r = role_value ADMIN then [PUBLIC, INTERNAL, CONFIDENTIAL] else [])"

definition DEFAULT_RRF_K :: nat where
  "DEFAULT_RRF_K = 60"

definition MAX_K :: nat where
  "MAX_K = 100"

section \<open>Policy, filters, configuration\<close>

record retrieval_policy =
  po_allowed :: "sensitivity list"
  po_excluded :: "trust_class list"

definition policy_for :: "principal \<Rightarrow> retrieval_policy" where
  "policy_for who = \<lparr>po_allowed = remdups (concat (map DEFAULT_ROLE_SENSITIVITY (p_roles who))),
     po_excluded = NEVER_RETRIEVED_TRUST\<rparr>"

record retrieval_filters =
  fl_sources :: "uuid list"
  fl_documents :: "uuid list"
  fl_kinds :: "string list"
  fl_trust :: "trust_class list"

text \<open>An empty list is sent as \<open>NULL\<close>, which a filter lets pass.\<close>

definition passes :: "'a list \<Rightarrow> 'a \<Rightarrow> bool" where
  "passes xs x = (xs = [] \<or> x \<in> set xs)"

record retrieval_config =
  gc_k :: nat
  gc_overfetch :: nat
  gc_cap :: nat
  gc_fallback :: bool
  gc_exact_max :: nat
  gc_lexical_limit :: nat
  gc_rrf :: nat

text \<open>\<open>__post_init__\<close>; a number below zero is the number zero here, which every check refuses alike.\<close>

definition post_init :: "retrieval_config \<Rightarrow> acop_error + retrieval_config" where
  "post_init g = andThen (require (1 \<le> gc_k g \<and> gc_k g \<le> MAX_K \<and> 1 \<le> gc_overfetch g \<and> 1 \<le> gc_exact_max g \<and>
     1 \<le> gc_lexical_limit g \<and> 1 \<le> gc_rrf g) ValidationError) (\<lambda>_. Inr g)"

definition candidate_limit :: "retrieval_config \<Rightarrow> nat" where
  "candidate_limit g = min (gc_k g * gc_overfetch g) (gc_cap g)"

text \<open>\<open>lexical_limit\<close> and \<open>rrf_k\<close> are not passed on, so they take their defaults.\<close>

definition with_k :: "retrieval_config \<Rightarrow> nat \<Rightarrow> acop_error + retrieval_config" where
  "with_k g k = post_init (g\<lparr>gc_k := k, gc_lexical_limit := 100, gc_rrf := DEFAULT_RRF_K\<rparr>)"

definition config_for :: "retrieval_config \<Rightarrow> nat option \<Rightarrow> acop_error + retrieval_config" where
  "config_for g k = (case k of None \<Rightarrow> Inr g | Some n \<Rightarrow> with_k g n)"

record search_env =
  se_reached :: "vector_row \<Rightarrow> bool"
  se_distance :: "vector \<Rightarrow> vector \<Rightarrow> rat"
  se_lexical :: "string \<Rightarrow> string \<Rightarrow> rat option"
  se_timeout :: bool
  se_embed :: "string \<Rightarrow> string \<Rightarrow> vector option"

section \<open>The statements\<close>

text \<open>A row of the join of a vector with its chunk, document and source, each by its primary key.\<close>

record hit =
  ht_vector :: vector_row
  ht_chunk :: chunk_row
  ht_document :: document_row
  ht_source :: source_row

definition joined :: "knowledge \<Rightarrow> vector_row \<Rightarrow> hit option" where
  "joined kn x = (case find_row kc_id (kx_chunk x) (kn_chunks kn) of None \<Rightarrow> None | Some c \<Rightarrow>
     (case find_row kd_id (kc_document c) (kn_documents kn) of None \<Rightarrow> None | Some d \<Rightarrow>
     (case find_row ks_id (kc_source c) (kn_sources kn) of None \<Rightarrow> None | Some s \<Rightarrow>
       Some \<lparr>ht_vector = x, ht_chunk = c, ht_document = d, ht_source = s\<rparr>)))"

definition eligible :: "retrieval_policy \<Rightarrow> retrieval_filters \<Rightarrow> hit \<Rightarrow> bool" where
  "eligible po fl h = (let c = ht_chunk h; d = ht_document h; s = ht_source h in
     ks_sensitivity s \<in> set (po_allowed po) \<and> ks_trust s \<notin> set (po_excluded po) \<and> ks_state s = KL_ACTIVE \<and>
     kd_state d = KL_ACTIVE \<and> kd_current d = Some (kc_version c) \<and> passes (fl_sources fl) (kc_source c) \<and>
     passes (fl_documents fl) (kc_document c) \<and> passes (fl_kinds fl) (ks_kind s) \<and> passes (fl_trust fl) (ks_trust s))"

definition vector_lifecycle :: "space_row \<Rightarrow> vector_row \<Rightarrow> bool" where
  "vector_lifecycle sp x = (kx_space x = sp_id sp \<and> kx_current x \<and> kx_retrievable x)"

definition vector_sensitivity :: "retrieval_policy \<Rightarrow> hit \<Rightarrow> bool" where
  "vector_sensitivity po h = (kx_sensitivity (ht_vector h) \<in> set (po_allowed po))"

definition distance_to :: "search_env \<Rightarrow> vector \<Rightarrow> vector_row \<Rightarrow> rat" where
  "distance_to en q x = se_distance en (kx_vector x) q"

definition by_distance :: "search_env \<Rightarrow> vector \<Rightarrow> hit \<Rightarrow> rat \<times> uuid" where
  "by_distance en q h = (distance_to en q (ht_vector h), kc_id (ht_chunk h))"

text \<open>The index walk sees only the columns of its own predicate.\<close>

definition ann_candidates :: "search_env \<Rightarrow> retrieval_config \<Rightarrow> space_row \<Rightarrow> vector \<Rightarrow> knowledge \<Rightarrow> vector_row list" where
  "ann_candidates en g sp q kn = take (candidate_limit g) (sort_key (distance_to en q)
     (filter (\<lambda>x. vector_lifecycle sp x \<and> se_reached en x) (kn_vectors kn)))"

definition ann_stage ::
  "search_env \<Rightarrow> retrieval_config \<Rightarrow> space_row \<Rightarrow> retrieval_policy \<Rightarrow> retrieval_filters \<Rightarrow> vector \<Rightarrow> knowledge \<Rightarrow> hit list" where
  "ann_stage en g sp po fl q kn = take (gc_k g) (sort_key (by_distance en q)
     (filter (eligible po fl) (List.map_filter (joined kn) (ann_candidates en g sp q kn))))"

definition eligible_hits :: "space_row \<Rightarrow> retrieval_policy \<Rightarrow> retrieval_filters \<Rightarrow> knowledge \<Rightarrow> hit list" where
  "eligible_hits sp po fl kn = filter (\<lambda>h. vector_sensitivity po h \<and> eligible po fl h)
     (List.map_filter (joined kn) (filter (vector_lifecycle sp) (kn_vectors kn)))"

definition eligible_population ::
  "retrieval_config \<Rightarrow> space_row \<Rightarrow> retrieval_policy \<Rightarrow> retrieval_filters \<Rightarrow> knowledge \<Rightarrow> nat \<times> bool" where
  "eligible_population g sp po fl kn = (let n = length (take (gc_exact_max g + 1) (eligible_hits sp po fl kn)) in
     (n, gc_exact_max g < n))"

text \<open>\<open>None\<close> when the statement is cancelled.\<close>

definition exact_stage ::
  "search_env \<Rightarrow> retrieval_config \<Rightarrow> space_row \<Rightarrow> retrieval_policy \<Rightarrow> retrieval_filters \<Rightarrow> vector \<Rightarrow> knowledge \<Rightarrow>
   hit list option" where
  "exact_stage en g sp po fl q kn = (if se_timeout en then None
     else Some (sort_key (by_distance en q) (take (gc_k g) (sort_key (\<lambda>h. distance_to en q (ht_vector h))
       (take (gc_exact_max g) (eligible_hits sp po fl kn))))))"

definition lexical_stage ::
  "search_env \<Rightarrow> retrieval_config \<Rightarrow> space_row \<Rightarrow> retrieval_policy \<Rightarrow> retrieval_filters \<Rightarrow> string \<Rightarrow> knowledge \<Rightarrow>
   (hit \<times> rat) list" where
  "lexical_stage en g sp po fl query kn = take (gc_lexical_limit g) (sort_key (\<lambda>(h, r). (- r, kc_id (ht_chunk h)))
     (List.map_filter (\<lambda>h. map_option (Pair h) (se_lexical en query (ch_content (kc_chunk (ht_chunk h)))))
       (eligible_hits sp po fl kn)))"

section \<open>Results\<close>

definition enumerated :: "(nat \<Rightarrow> 'a \<Rightarrow> 'b) \<Rightarrow> 'a list \<Rightarrow> 'b list" where
  "enumerated f xs = map (\<lambda>(i, x). f i x) (enumerate 0 xs)"

record retrieved =
  rt_chunk :: uuid
  rt_document :: uuid
  rt_source :: uuid
  rt_version :: uuid
  rt_ordinal :: nat
  rt_content :: string
  rt_path :: "string list"
  rt_label :: "string option"
  rt_injection :: bool
  rt_tokens :: nat
  rt_distance :: "rat option"
  rt_score :: rat
  rt_rank :: nat
  rt_method :: retrieval_method
  rt_sensitivity :: sensitivity
  rt_trust :: trust_class
  rt_kind :: string
  rt_source_title :: string
  rt_document_title :: string
  rt_ref :: string
  rt_space :: uuid
  rt_vector_rank :: "nat option"
  rt_lexical_rank :: "nat option"
  rt_lexical_score :: "rat option"
  rt_fused_score :: "rat option"

definition to_chunk ::
  "space_row \<Rightarrow> nat \<Rightarrow> retrieval_method \<Rightarrow> rat option \<Rightarrow> rat \<Rightarrow> nat option \<Rightarrow> nat option \<Rightarrow> rat option \<Rightarrow> hit \<Rightarrow> retrieved" where
  "to_chunk sp rank mth dst score vrank lrank lscore h = (let c = ht_chunk h; d = ht_document h; s = ht_source h in
     \<lparr>rt_chunk = kc_id c, rt_document = kc_document c, rt_source = kc_source c, rt_version = kc_version c,
      rt_ordinal = ch_ordinal (kc_chunk c), rt_content = ch_content (kc_chunk c), rt_path = ch_path (kc_chunk c),
      rt_label = kc_label c, rt_injection = kc_injection c, rt_tokens = ch_tokens (kc_chunk c), rt_distance = dst,
      rt_score = score, rt_rank = rank, rt_method = mth, rt_sensitivity = ks_sensitivity s, rt_trust = ks_trust s,
      rt_kind = ks_kind s, rt_source_title = ks_title s, rt_document_title = kd_title d, rt_ref = kd_ref d,
      rt_space = sp_id sp, rt_vector_rank = vrank, rt_lexical_rank = lrank, rt_lexical_score = lscore,
      rt_fused_score = None\<rparr>)"

text \<open>The call of \<open>_to_chunk\<close> in \<open>_finish\<close>, and the one for a row of the lexical stage.\<close>

definition vector_chunk :: "search_env \<Rightarrow> space_row \<Rightarrow> vector \<Rightarrow> retrieval_method \<Rightarrow> nat \<Rightarrow> hit \<Rightarrow> retrieved" where
  "vector_chunk en sp q mth i h = (let dst = distance_to en q (ht_vector h) in
     to_chunk sp (Suc i) mth (Some dst) (1 - dst) (Some (Suc i)) None None h)"

definition lexical_chunk :: "space_row \<Rightarrow> nat \<Rightarrow> hit \<times> rat \<Rightarrow> retrieved" where
  "lexical_chunk sp i hr = to_chunk sp (Suc i) RM_LEXICAL None (snd hr) None (Some (Suc i)) (Some (snd hr)) (fst hr)"

record diagnostics =
  dg_strategy :: retrieval_strategy
  dg_mode :: retrieval_mode
  dg_space :: uuid
  dg_requested :: nat
  dg_ann_limit :: nat
  dg_ann_returned :: nat
  dg_ann_eligible :: nat
  dg_population :: "nat option"
  dg_capped :: bool
  dg_exact_ranked :: "nat option"
  dg_returned :: nat
  dg_degraded :: bool
  dg_reason :: "string option"
  dg_lexical :: "nat option"
  dg_fused :: "nat option"
  dg_rrf :: "nat option"

definition empty_diagnostics :: "space_row \<Rightarrow> retrieval_config \<Rightarrow> retrieval_mode \<Rightarrow> diagnostics" where
  "empty_diagnostics sp g mode =
     \<lparr>dg_strategy = (if mode = MODE_LEXICAL then RS_NOT_RUN else RS_ANN_COMPLETE), dg_mode = mode, dg_space = sp_id sp,
      dg_requested = gc_k g, dg_ann_limit = candidate_limit g, dg_ann_returned = 0, dg_ann_eligible = 0,
      dg_population = Some 0, dg_capped = False, dg_exact_ranked = None, dg_returned = 0, dg_degraded = False,
      dg_reason = None, dg_lexical = None, dg_fused = None, dg_rrf = None\<rparr>"

type_synonym retrieval_result = "retrieved list \<times> diagnostics"

definition finish ::
  "search_env \<Rightarrow> space_row \<Rightarrow> retrieval_config \<Rightarrow> vector \<Rightarrow> retrieval_strategy \<Rightarrow> retrieval_method \<Rightarrow> nat \<Rightarrow> nat option \<Rightarrow>
   bool \<Rightarrow> nat option \<Rightarrow> string option \<Rightarrow> hit list \<Rightarrow> retrieval_result" where
  "finish en sp g q strategy mth ann population capped ranked reason rows =
     (enumerated (vector_chunk en sp q mth) rows,
      \<lparr>dg_strategy = strategy, dg_mode = MODE_VECTOR, dg_space = sp_id sp, dg_requested = gc_k g,
       dg_ann_limit = candidate_limit g, dg_ann_returned = ann, dg_ann_eligible = ann, dg_population = population,
       dg_capped = capped, dg_exact_ranked = ranked, dg_returned = length rows, dg_degraded = (reason \<noteq> None),
       dg_reason = reason, dg_lexical = None, dg_fused = None, dg_rrf = None\<rparr>)"

text \<open>\<open>_degraded\<close>: what the index found, labelled as incomplete.\<close>

definition degraded_result ::
  "search_env \<Rightarrow> space_row \<Rightarrow> retrieval_config \<Rightarrow> vector \<Rightarrow> retrieval_strategy \<Rightarrow> nat \<Rightarrow> bool \<Rightarrow> string \<Rightarrow> hit list \<Rightarrow>
   retrieval_result" where
  "degraded_result en sp g q strategy population capped reason ann =
     finish en sp g q strategy RM_VECTOR (length ann) (Some population) capped None (Some reason) ann"

section \<open>The dense leg\<close>

definition search_vector_with ::
  "search_env \<Rightarrow> retrieval_config \<Rightarrow> vector \<Rightarrow> retrieval_policy \<Rightarrow> space_row \<Rightarrow> retrieval_filters \<Rightarrow> knowledge \<Rightarrow>
   retrieval_result" where
  "search_vector_with en g q po sp fl kn =
     (if po_allowed po = [] then ([], empty_diagnostics sp g MODE_VECTOR)
      else (let ann = ann_stage en g sp po fl q kn; n = length ann in
        if gc_k g \<le> n then finish en sp g q RS_ANN RM_VECTOR n None False None None (take (gc_k g) ann)
        else (case eligible_population g sp po fl kn of (population, capped) \<Rightarrow>
          if population \<le> n then finish en sp g q RS_ANN_COMPLETE RM_VECTOR n (Some population) capped None None ann
          else if \<not> gc_fallback g
          then degraded_result en sp g q RS_FALLBACK_SKIPPED population capped ''exact_fallback_disabled'' ann
          else if capped
          then degraded_result en sp g q RS_FALLBACK_SKIPPED population capped
            ''eligible_population_exceeds_exact_max_rows'' ann
          else (case exact_stage en g sp po fl q kn of
            None \<Rightarrow> degraded_result en sp g q RS_FALLBACK_TIMEOUT population capped ''exact_fallback_timeout'' ann
          | Some rows \<Rightarrow> finish en sp g q RS_EXACT_FALLBACK RM_VECTOR_EXACT n (Some population) capped (Some population)
              None rows))))"

definition search_vector ::
  "search_env \<Rightarrow> retrieval_config \<Rightarrow> vector \<Rightarrow> principal \<Rightarrow> space_row \<Rightarrow> retrieval_filters \<Rightarrow> nat option \<Rightarrow> knowledge \<Rightarrow>
   acop_error + retrieval_result" where
  "search_vector en g q who sp fl k kn = andThen (config_for g k) (\<lambda>g'.
     Inr (search_vector_with en g' q (policy_for who) sp fl kn))"

text \<open>An embedder out of reach is its own error; a vector of the wrong dimension is one nobody handles.\<close>

definition embed_query :: "search_env \<Rightarrow> string \<Rightarrow> space_row \<Rightarrow> acop_error + vector" where
  "embed_query en query sp = andThen (require (sp_verified_at sp \<noteq> None) ConflictError) (\<lambda>_.
     case se_embed en query (sp_query_prefix sp) of
       None \<Rightarrow> Inl EmbeddingUnavailableError
     | Some q \<Rightarrow> andThen (require (length q = sp_dimensions sp) UnhandledError) (\<lambda>_. Inr q))"

definition has_text :: "string \<Rightarrow> acop_error + unit" where
  "has_text query = require (strip query \<noteq> []) ValidationError"

definition search_dense ::
  "search_env \<Rightarrow> retrieval_config \<Rightarrow> string \<Rightarrow> principal \<Rightarrow> space_row \<Rightarrow> retrieval_filters \<Rightarrow> nat option \<Rightarrow> knowledge \<Rightarrow>
   acop_error + retrieval_result" where
  "search_dense en g query who sp fl k kn = andThen (has_text query) (\<lambda>_.
     andThen (embed_query en query sp) (\<lambda>q. search_vector en g q who sp fl k kn))"

section \<open>The lexical leg\<close>

definition search_lexical ::
  "search_env \<Rightarrow> retrieval_config \<Rightarrow> string \<Rightarrow> principal \<Rightarrow> space_row \<Rightarrow> retrieval_filters \<Rightarrow> nat option \<Rightarrow> knowledge \<Rightarrow>
   acop_error + retrieval_result" where
  "search_lexical en g query who sp fl k kn = andThen (has_text query) (\<lambda>_.
     andThen (config_for g k) (\<lambda>g'. let po = policy_for who in
     if po_allowed po = [] then Inr ([], empty_diagnostics sp g' MODE_LEXICAL)
     else (let rows = lexical_stage en g' sp po fl query kn;
             results = enumerated (lexical_chunk sp) (take (gc_k g') rows) in
       Inr (results, \<lparr>dg_strategy = RS_NOT_RUN, dg_mode = MODE_LEXICAL, dg_space = sp_id sp, dg_requested = gc_k g',
         dg_ann_limit = 0, dg_ann_returned = 0, dg_ann_eligible = 0, dg_population = None, dg_capped = False,
         dg_exact_ranked = None, dg_returned = length results, dg_degraded = False, dg_reason = None,
         dg_lexical = Some (length rows), dg_fused = None, dg_rrf = None\<rparr>))))"

section \<open>Fusion\<close>

record contribution =
  cb_chunk :: uuid
  cb_score :: rat
  cb_dense :: "retrieved option"
  cb_lexical :: "retrieved option"

definition reciprocal :: "nat \<Rightarrow> retrieved \<Rightarrow> rat" where
  "reciprocal rrf r = 1 / (of_nat rrf + of_nat (rt_rank r))"

text \<open>\<open>setdefault\<close>, the addition to the score and the assignment of the leg; a dictionary keeps the order of insertion.\<close>

definition contribute :: "nat \<Rightarrow> bool \<Rightarrow> contribution list \<Rightarrow> retrieved \<Rightarrow> contribution list" where
  "contribute rrf dense cs r =
     (let cs' = (if find_row cb_chunk (rt_chunk r) cs = None
        then cs @ [\<lparr>cb_chunk = rt_chunk r, cb_score = 0, cb_dense = None, cb_lexical = None\<rparr>] else cs) in
      upd_rows (\<lambda>c. cb_chunk c = rt_chunk r) (\<lambda>c. let c' = c\<lparr>cb_score := cb_score c + reciprocal rrf r\<rparr> in
        if dense then c'\<lparr>cb_dense := Some r\<rparr> else c'\<lparr>cb_lexical := Some r\<rparr>) cs')"

definition contributions :: "nat \<Rightarrow> retrieved list \<Rightarrow> retrieved list \<Rightarrow> contribution list" where
  "contributions rrf dense lexical = foldl (contribute rrf False) (foldl (contribute rrf True) [] dense) lexical"

text \<open>The row of an entry; the dense one carries it, and one of the legs is there.\<close>

definition fused_row :: "contribution \<Rightarrow> retrieved option" where
  "fused_row c = map_option (\<lambda>base. base\<lparr>
       rt_method := (case (cb_dense c, cb_lexical c) of (Some d, Some l) \<Rightarrow> RM_HYBRID | (Some d, None) \<Rightarrow> rt_method d
         | _ \<Rightarrow> RM_LEXICAL),
       rt_score := cb_score c, rt_fused_score := Some (cb_score c), rt_vector_rank := map_option rt_rank (cb_dense c),
       rt_lexical_rank := map_option rt_rank (cb_lexical c),
       rt_lexical_score := Option.bind (cb_lexical c) rt_lexical_score, rt_rank := 0\<rparr>)
     (case cb_dense c of Some d \<Rightarrow> Some d | None \<Rightarrow> cb_lexical c)"

definition by_fused_score :: "retrieved \<Rightarrow> rat \<times> uuid" where
  "by_fused_score r = (- (case rt_fused_score r of None \<Rightarrow> 0 | Some x \<Rightarrow> x), rt_chunk r)"

definition fuse :: "nat \<Rightarrow> retrieved list \<Rightarrow> retrieved list \<Rightarrow> retrieved list" where
  "fuse rrf dense lexical = enumerated (\<lambda>i r. r\<lparr>rt_rank := Suc i\<rparr>)
     (sort_key by_fused_score (List.map_filter fused_row (contributions rrf dense lexical)))"

definition search_hybrid ::
  "search_env \<Rightarrow> retrieval_config \<Rightarrow> string \<Rightarrow> principal \<Rightarrow> space_row \<Rightarrow> retrieval_filters \<Rightarrow> nat option \<Rightarrow> knowledge \<Rightarrow>
   acop_error + retrieval_result" where
  "search_hybrid en g query who sp fl k kn = andThen (has_text query) (\<lambda>_.
     andThen (config_for g k) (\<lambda>g'. let po = policy_for who in
     if po_allowed po = [] then Inr ([], empty_diagnostics sp g' MODE_HYBRID)
     else andThen (search_dense en g query who sp fl k kn) (\<lambda>(dense, source).
       let rows = lexical_stage en g' sp po fl query kn;
           fused = fuse (gc_rrf g') dense (enumerated (lexical_chunk sp) (take (gc_k g') rows));
           results = take (gc_k g') fused in
       Inr (results, source\<lparr>dg_mode := MODE_HYBRID, dg_requested := gc_k g', dg_returned := length results,
         dg_lexical := Some (length rows), dg_fused := Some (length fused), dg_rrf := Some (gc_rrf g')\<rparr>))))"

definition retrieve ::
  "search_env \<Rightarrow> retrieval_config \<Rightarrow> string \<Rightarrow> principal \<Rightarrow> space_row \<Rightarrow> retrieval_mode \<Rightarrow> retrieval_filters \<Rightarrow>
   nat option \<Rightarrow> knowledge \<Rightarrow> acop_error + retrieval_result" where
  "retrieve en g query who sp mode fl k kn = andThen (has_text query) (\<lambda>_. case mode of
       MODE_VECTOR \<Rightarrow> search_dense en g query who sp fl k kn
     | MODE_LEXICAL \<Rightarrow> search_lexical en g query who sp fl k kn
     | MODE_HYBRID \<Rightarrow> search_hybrid en g query who sp fl k kn)"

end
