(* ===== verification/Retrieval_Facts.thy ===== *)
theory Retrieval_Facts
  imports Retrieval Knowledge_Invariants "HOL-Library.Multiset"
begin

text \<open>
  What a search may return, when it may call itself complete, and how the two legs are fused.
\<close>

section \<open>Lists\<close>

lemma length_enumerated [simp]: "length (enumerated f xs) = length xs"
  by (simp add: enumerated_def)

lemma nth_enumerated: "i < length xs \<Longrightarrow> enumerated f xs ! i = f i (xs ! i)"
  by (simp add: enumerated_def nth_enumerate_eq)

lemma in_enumerated: "y \<in> set (enumerated f xs) \<Longrightarrow> \<exists>i x. x \<in> set xs \<and> y = f i x"
  by (metis in_set_conv_nth length_enumerated nth_enumerated)

lemma map_enumerated: "(\<And>i x. g (f i x) = h x) \<Longrightarrow> map g (enumerated f xs) = map h xs"
  by (rule nth_equalityI) (simp_all add: nth_enumerated)

lemma in_map_filter: "y \<in> set (List.map_filter f xs) \<longleftrightarrow> (\<exists>x \<in> set xs. f x = Some y)"
  by (force simp: List.map_filter_def)

lemma mset_map_filter: "mset (List.map_filter f xs) = image_mset (the \<circ> f) {# x \<in># mset xs. f x \<noteq> None #}"
  by (simp add: List.map_filter_def flip: mset_filter)

lemma map_filter_mono: "mset xs \<subseteq># mset ys \<Longrightarrow> mset (List.map_filter f xs) \<subseteq># mset (List.map_filter f ys)"
  unfolding mset_map_filter by (intro image_mset_subseteq_mono multiset_filter_mono)

lemma mset_take_subset: "mset (take n xs) \<subseteq># mset xs"
  by (metis append_take_drop_id mset_append mset_subset_eq_add_left)

lemma take_sorted_least:
  assumes "sorted (map f xs)" and "x \<in> set (take k xs)" and "y \<in> set xs" "y \<notin> set (take k xs)"
  shows "f x \<le> f y"
proof -
  from assms(3,4) have "y \<in> set (drop k xs)" by (metis Un_iff append_take_drop_id set_append)
  moreover from assms(1) have "sorted (map f (take k xs) @ map f (drop k xs))"
    by (simp flip: map_append)
  ultimately show ?thesis using assms(2) by (simp add: sorted_append)
qed

section \<open>What is selected\<close>

lemma joinedD:
  assumes "joined kn x = Some h"
  shows "ht_vector h = x \<and> ht_chunk h \<in> set (kn_chunks kn) \<and> kc_id (ht_chunk h) = kx_chunk x \<and>
    ht_document h \<in> set (kn_documents kn) \<and> kd_id (ht_document h) = kc_document (ht_chunk h) \<and>
    ht_source h \<in> set (kn_sources kn) \<and> ks_id (ht_source h) = kc_source (ht_chunk h)"
  using assms by (auto simp: joined_def split: option.splits dest!: find_row_SomeD)

text \<open>A hit that a principal with this policy may be shown.\<close>

definition permitted :: "knowledge \<Rightarrow> space_row \<Rightarrow> retrieval_policy \<Rightarrow> retrieval_filters \<Rightarrow> hit \<Rightarrow> bool" where
  "permitted kn sp po fl h \<longleftrightarrow> eligible po fl h \<and>
     (\<exists>x \<in> set (kn_vectors kn). vector_lifecycle sp x \<and> joined kn x = Some h)"

lemma permittedI:
  "joined kn x = Some h \<Longrightarrow> x \<in> set (kn_vectors kn) \<Longrightarrow> vector_lifecycle sp x \<Longrightarrow> eligible po fl h \<Longrightarrow>
   permitted kn sp po fl h"
  unfolding permitted_def by blast

lemma ann_permitted:
  assumes "h \<in> set (ann_stage en g sp po fl q kn)"
  shows "permitted kn sp po fl h"
proof -
  from assms obtain x where "x \<in> set (ann_candidates en g sp q kn)" "joined kn x = Some h" "eligible po fl h"
    unfolding ann_stage_def by (force simp: in_map_filter dest: in_set_takeD)
  moreover from this have "x \<in> set (kn_vectors kn)" "vector_lifecycle sp x"
    by (auto simp: ann_candidates_def dest: in_set_takeD)
  ultimately show ?thesis by (intro permittedI)
qed

lemma eligible_permitted: "h \<in> set (eligible_hits sp po fl kn) \<Longrightarrow> permitted kn sp po fl h"
  by (auto simp: eligible_hits_def in_map_filter intro: permittedI)

lemma exact_permitted:
  assumes "exact_stage en g sp po fl q kn = Some rows" and "h \<in> set rows"
  shows "permitted kn sp po fl h"
proof -
  from assms have "h \<in> set (eligible_hits sp po fl kn)"
    by (auto simp: exact_stage_def split: if_splits dest!: in_set_takeD)
  then show ?thesis by (rule eligible_permitted)
qed

lemma lexical_permitted:
  assumes "hr \<in> set (lexical_stage en g sp po fl query kn)"
  shows "permitted kn sp po fl (fst hr)"
proof -
  from assms have "fst hr \<in> set (eligible_hits sp po fl kn)"
    by (auto simp: lexical_stage_def in_map_filter dest!: in_set_takeD)
  then show ?thesis by (rule eligible_permitted)
qed

text \<open>What of a result is copied from the tables; ranks, scores and the method are not.\<close>

definition shows_hit :: "space_row \<Rightarrow> hit \<Rightarrow> retrieved \<Rightarrow> bool" where
  "shows_hit sp h r \<longleftrightarrow> (let c = ht_chunk h; d = ht_document h; s = ht_source h in
     rt_chunk r = kc_id c \<and> rt_document r = kc_document c \<and> rt_source r = kc_source c \<and> rt_version r = kc_version c \<and>
     rt_ordinal r = ch_ordinal (kc_chunk c) \<and> rt_content r = ch_content (kc_chunk c) \<and> rt_path r = ch_path (kc_chunk c) \<and>
     rt_label r = kc_label c \<and> rt_injection r = kc_injection c \<and> rt_sensitivity r = ks_sensitivity s \<and>
     rt_trust r = ks_trust s \<and> rt_kind r = ks_kind s \<and> rt_source_title r = ks_title s \<and> rt_document_title r = kd_title d \<and>
     rt_ref r = kd_ref d \<and> rt_space r = sp_id sp)"

definition authorised :: "knowledge \<Rightarrow> space_row \<Rightarrow> retrieval_policy \<Rightarrow> retrieval_filters \<Rightarrow> retrieved \<Rightarrow> bool" where
  "authorised kn sp po fl r \<longleftrightarrow> (\<exists>h. permitted kn sp po fl h \<and> shows_hit sp h r)"

lemma to_chunk_authorised:
  assumes "permitted kn sp po fl h"
  shows "authorised kn sp po fl (to_chunk sp rank mth dst score vrank lrank lscore h)"
  unfolding authorised_def by (rule exI [of _ h]) (simp add: assms shows_hit_def to_chunk_def Let_def)

lemma finish_authorised:
  assumes "\<forall>h \<in> set rows. permitted kn sp po fl h" and "r \<in> set (fst (finish en sp g q st mth ann pop cap ranked reason rows))"
  shows "authorised kn sp po fl r"
  using assms by (auto simp: finish_def vector_chunk_def Let_def dest!: in_enumerated intro!: to_chunk_authorised)

lemma search_vector_authorised:
  assumes "r \<in> set (fst (search_vector_with en g q po sp fl kn))"
  shows "authorised kn sp po fl r"
proof (rule ccontr)
  assume none: "\<not> ?thesis"
  have ann: "\<forall>h \<in> set (ann_stage en g sp po fl q kn). permitted kn sp po fl h"
    "\<forall>h \<in> set (take (gc_k g) (ann_stage en g sp po fl q kn)). permitted kn sp po fl h"
    by (auto dest: in_set_takeD intro: ann_permitted)
  have exact: "\<forall>h \<in> set rows. permitted kn sp po fl h" if "exact_stage en g sp po fl q kn = Some rows" for rows
    using that by (blast intro: exact_permitted)
  show False
    using assms none finish_authorised [OF ann(1)] finish_authorised [OF ann(2)] finish_authorised [OF exact]
    by (auto simp: search_vector_with_def degraded_result_def Let_def split: if_splits prod.splits option.splits)
qed

lemma lexical_authorised:
  assumes "r \<in> set (enumerated (lexical_chunk sp) (take n (lexical_stage en g sp po fl query kn)))"
  shows "authorised kn sp po fl r"
  using assms by (auto simp: lexical_chunk_def dest!: in_enumerated in_set_takeD lexical_permitted intro!: to_chunk_authorised)

section \<open>Fusion\<close>

definition leg_sum :: "nat \<Rightarrow> retrieved list \<Rightarrow> uuid \<Rightarrow> rat" where
  "leg_sum rrf rs i = sum_list (map (reciprocal rrf) (filter (\<lambda>r. rt_chunk r = i) rs))"

text \<open>What the dictionary holds after some of either leg was added.\<close>

definition tallied_row :: "nat \<Rightarrow> retrieved list \<Rightarrow> retrieved list \<Rightarrow> contribution \<Rightarrow> bool" where
  "tallied_row rrf ds ls c \<longleftrightarrow> cb_score c = leg_sum rrf ds (cb_chunk c) + leg_sum rrf ls (cb_chunk c) \<and>
     (\<forall>d. cb_dense c = Some d \<longrightarrow> d \<in> set ds \<and> rt_chunk d = cb_chunk c) \<and>
     (\<forall>l. cb_lexical c = Some l \<longrightarrow> l \<in> set ls \<and> rt_chunk l = cb_chunk c)"

definition tallied :: "nat \<Rightarrow> retrieved list \<Rightarrow> retrieved list \<Rightarrow> contribution list \<Rightarrow> bool" where
  "tallied rrf ds ls cs \<longleftrightarrow> distinct (map cb_chunk cs) \<and> cb_chunk ` set cs = rt_chunk ` set ds \<union> rt_chunk ` set ls \<and>
     (\<forall>c \<in> set cs. tallied_row rrf ds ls c \<and> (cb_dense c \<noteq> None \<or> cb_lexical c \<noteq> None))"

lemma leg_sum_snoc: "leg_sum rrf (rs @ [r]) i = leg_sum rrf rs i + (if rt_chunk r = i then reciprocal rrf r else 0)"
  by (simp add: leg_sum_def)

lemma leg_sum_absent: "i \<notin> rt_chunk ` set rs \<Longrightarrow> leg_sum rrf rs i = 0"
  unfolding leg_sum_def by (subst filter_False) auto

lemma contribute_keys: "map cb_chunk (contribute rrf dense cs r) =
    (if rt_chunk r \<in> cb_chunk ` set cs then map cb_chunk cs else map cb_chunk cs @ [rt_chunk r])"
proof -
  have "map cb_chunk (upd_rows (\<lambda>c. cb_chunk c = rt_chunk r) (\<lambda>c. let c' = c\<lparr>cb_score := cb_score c + reciprocal rrf r\<rparr> in
      if dense then c'\<lparr>cb_dense := Some r\<rparr> else c'\<lparr>cb_lexical := Some r\<rparr>) xs) = map cb_chunk xs" for xs
    by (rule map_upd_rows_frame) (simp add: Let_def)
  then show ?thesis by (auto simp: contribute_def find_row_None Let_def)
qed

lemma contribute_row:
  assumes "c \<in> set (contribute rrf dense cs r)"
  shows "(cb_chunk c \<noteq> rt_chunk r \<and> c \<in> set cs) \<or> (cb_chunk c = rt_chunk r \<and>
    (\<exists>c0. (c0 \<in> set cs \<or> rt_chunk r \<notin> cb_chunk ` set cs \<and> c0 = \<lparr>cb_chunk = rt_chunk r, cb_score = 0, cb_dense = None, cb_lexical = None\<rparr>) \<and>
       cb_chunk c0 = rt_chunk r \<and> cb_score c = cb_score c0 + reciprocal rrf r \<and>
       cb_dense c = (if dense then Some r else cb_dense c0) \<and> cb_lexical c = (if dense then cb_lexical c0 else Some r)))"
  using assms by (auto simp: contribute_def set_upd_rows find_row_None Let_def split: if_splits)

lemma tallied_row_other:
  "tallied_row rrf ds ls c \<Longrightarrow> cb_chunk c \<noteq> rt_chunk r \<Longrightarrow>
   tallied_row rrf (if dense then ds @ [r] else ds) (if dense then ls else ls @ [r]) c"
  by (cases dense) (simp_all add: tallied_row_def leg_sum_snoc)

lemma tallied_row_hit:
  assumes "tallied_row rrf ds ls c0" and "cb_chunk c = rt_chunk r" "cb_chunk c0 = rt_chunk r"
    "cb_score c = cb_score c0 + reciprocal rrf r" "cb_dense c = (if dense then Some r else cb_dense c0)"
    "cb_lexical c = (if dense then cb_lexical c0 else Some r)"
  shows "tallied_row rrf (if dense then ds @ [r] else ds) (if dense then ls else ls @ [r]) c"
proof -
  from assms(1) have score: "cb_score c0 = leg_sum rrf ds (cb_chunk c0) + leg_sum rrf ls (cb_chunk c0)"
    and d: "\<And>d. cb_dense c0 = Some d \<Longrightarrow> d \<in> set ds \<and> rt_chunk d = cb_chunk c0"
    and l: "\<And>l. cb_lexical c0 = Some l \<Longrightarrow> l \<in> set ls \<and> rt_chunk l = cb_chunk c0"
    unfolding tallied_row_def by blast+
  from score assms(2-4) have "cb_score c = leg_sum rrf ds (rt_chunk r) + leg_sum rrf ls (rt_chunk r) + reciprocal rrf r"
    by simp
  with assms(2) have "cb_score c = leg_sum rrf (if dense then ds @ [r] else ds) (cb_chunk c) +
      leg_sum rrf (if dense then ls else ls @ [r]) (cb_chunk c)"
    by (simp add: leg_sum_snoc)
  moreover have "d \<in> set (if dense then ds @ [r] else ds) \<and> rt_chunk d = cb_chunk c" if "cb_dense c = Some d" for d
    using that d [of d] unfolding assms(2,5) assms(3) [symmetric] by (cases dense) (simp_all add: assms(3))
  moreover have "l \<in> set (if dense then ls else ls @ [r]) \<and> rt_chunk l = cb_chunk c" if "cb_lexical c = Some l" for l
    using that l [of l] unfolding assms(2,6) assms(3) [symmetric] by (cases dense) (simp_all add: assms(3))
  ultimately show ?thesis unfolding tallied_row_def by blast
qed

lemma contribute_tallied:
  assumes "tallied rrf ds ls cs"
  shows "tallied rrf (if dense then ds @ [r] else ds) (if dense then ls else ls @ [r]) (contribute rrf dense cs r)"
  unfolding tallied_def
proof (intro conjI ballI)
  let ?ds = "if dense then ds @ [r] else ds" and ?ls = "if dense then ls else ls @ [r]"
  show "distinct (map cb_chunk (contribute rrf dense cs r))"
    using assms by (auto simp: contribute_keys tallied_def)
  have "cb_chunk ` set (contribute rrf dense cs r) = insert (rt_chunk r) (cb_chunk ` set cs)"
    unfolding set_map [symmetric] contribute_keys by auto
  with assms show "cb_chunk ` set (contribute rrf dense cs r) = rt_chunk ` set ?ds \<union> rt_chunk ` set ?ls"
    by (auto simp: tallied_def)
  fix c assume "c \<in> set (contribute rrf dense cs r)"
  from contribute_row [OF this]
  have "tallied_row rrf ?ds ?ls c \<and> (cb_dense c \<noteq> None \<or> cb_lexical c \<noteq> None)"
  proof (elim disjE conjE exE)
    assume "cb_chunk c \<noteq> rt_chunk r" "c \<in> set cs"
    with assms show ?thesis by (simp add: tallied_def tallied_row_other)
  next
    fix c0 assume c0: "cb_chunk c = rt_chunk r" "cb_chunk c0 = rt_chunk r" "cb_score c = cb_score c0 + reciprocal rrf r"
      "cb_dense c = (if dense then Some r else cb_dense c0)" "cb_lexical c = (if dense then cb_lexical c0 else Some r)"
      "c0 \<in> set cs"
    with assms have "tallied_row rrf ds ls c0" by (simp add: tallied_def)
    from tallied_row_hit [OF this c0(1-5)] c0(4,5) show ?thesis by (cases dense) simp_all
  next
    fix c0 assume c0: "cb_chunk c = rt_chunk r" "cb_chunk c0 = rt_chunk r" "cb_score c = cb_score c0 + reciprocal rrf r"
      "cb_dense c = (if dense then Some r else cb_dense c0)" "cb_lexical c = (if dense then cb_lexical c0 else Some r)"
      and fresh: "rt_chunk r \<notin> cb_chunk ` set cs" "c0 = \<lparr>cb_chunk = rt_chunk r, cb_score = 0, cb_dense = None, cb_lexical = None\<rparr>"
    from fresh(1) assms have "leg_sum rrf ds (rt_chunk r) = 0" "leg_sum rrf ls (rt_chunk r) = 0"
      by (simp_all add: tallied_def leg_sum_absent)
    with fresh(2) have "tallied_row rrf ds ls c0" by (simp add: tallied_row_def)
    from tallied_row_hit [OF this c0(1-5)] c0(4,5) show ?thesis by (cases dense) simp_all
  qed
  then show "tallied_row rrf ?ds ?ls c" "cb_dense c \<noteq> None \<or> cb_lexical c \<noteq> None" by blast+
qed

lemma contributions_tallied: "tallied rrf dense lexical (contributions rrf dense lexical)"
proof -
  have dense: "tallied rrf (ds @ rs) [] (foldl (contribute rrf True) cs rs)" if "tallied rrf ds [] cs" for ds cs rs
    using that by (induction rs arbitrary: ds cs) (simp, use contribute_tallied [where dense = True] in fastforce)
  have lexical: "tallied rrf dense (ls @ rs) (foldl (contribute rrf False) cs rs)" if "tallied rrf dense ls cs" for ls cs rs
    using that by (induction rs arbitrary: ls cs) (simp, use contribute_tallied [where dense = False] in fastforce)
  have "tallied rrf [] [] []" by (simp add: tallied_def)
  from lexical [OF dense [OF this, of dense, simplified], of lexical] show ?thesis by (simp add: contributions_def)
qed

lemma fused_row_of:
  assumes "tallied_row rrf ds ls c" and "cb_dense c \<noteq> None \<or> cb_lexical c \<noteq> None"
  obtains r base where "fused_row c = Some r" "rt_chunk r = cb_chunk c" "rt_fused_score r = Some (cb_score c)"
    "base \<in> set ds \<union> set ls" "\<And>sp h. shows_hit sp h r = shows_hit sp h base"
proof -
  obtain base where base: "(case cb_dense c of Some d \<Rightarrow> Some d | None \<Rightarrow> cb_lexical c) = Some base"
      "base \<in> set ds \<union> set ls" "rt_chunk base = cb_chunk c"
    using assms by (cases "cb_dense c"; cases "cb_lexical c") (auto simp: tallied_row_def)
  show thesis
  proof (rule that [OF _ _ _ base(2), of "the (fused_row c)"])
    show "fused_row c = Some (the (fused_row c))" "rt_fused_score (the (fused_row c)) = Some (cb_score c)"
      by (simp_all add: fused_row_def base(1))
    show "rt_chunk (the (fused_row c)) = cb_chunk c"
      by (simp add: fused_row_def base(1) base(3) [symmetric])
    show "shows_hit sp h (the (fused_row c)) = shows_hit sp h base" for sp h
      by (simp add: fused_row_def base(1) shows_hit_def)
  qed
qed

lemma fused_rows:
  assumes "\<forall>c \<in> set cs. tallied_row rrf ds ls c \<and> (cb_dense c \<noteq> None \<or> cb_lexical c \<noteq> None)"
  shows "map (\<lambda>r. (rt_chunk r, rt_fused_score r)) (List.map_filter fused_row cs) = map (\<lambda>c. (cb_chunk c, Some (cb_score c))) cs"
  using assms
proof (induction cs)
  case (Cons c cs)
  then obtain r where "fused_row c = Some r" "rt_chunk r = cb_chunk c" "rt_fused_score r = Some (cb_score c)"
    using fused_row_of [of rrf ds ls c] by (metis list.set_intros(1))
  with Cons show ?case by (simp add: List.map_filter_simps)
qed (simp add: List.map_filter_simps)

lemma fused_members:
  assumes "r \<in> set (fuse rrf ds ls)"
  shows "\<exists>base \<in> set ds \<union> set ls. \<forall>sp h. shows_hit sp h r = shows_hit sp h base"
proof -
  from assms obtain i r0 where r: "r0 \<in> set (List.map_filter fused_row (contributions rrf ds ls))" "r = r0\<lparr>rt_rank := Suc i\<rparr>"
    by (auto simp: fuse_def dest!: in_enumerated)
  then obtain c where c: "c \<in> set (contributions rrf ds ls)" "fused_row c = Some r0" by (auto simp: in_map_filter)
  with contributions_tallied [of rrf ds ls] obtain base where "base \<in> set ds \<union> set ls"
      "\<And>sp h. shows_hit sp h r0 = shows_hit sp h base"
    using fused_row_of [of rrf ds ls c] unfolding tallied_def by (metis option.inject)
  moreover have "shows_hit sp h r = shows_hit sp h r0" for sp h by (simp add: r(2) shows_hit_def)
  ultimately show ?thesis by blast
qed

lemma hybrid_authorised:
  assumes "search_hybrid en g query who sp fl k kn = Inr (rs, dg)" and "r \<in> set rs"
  shows "authorised kn sp (policy_for who) fl r"
proof -
  have dense: "authorised kn sp (policy_for who) fl d"
    if "search_dense en g query who sp fl k kn = Inr (ds, dg0)" "d \<in> set ds" for ds dg0 d
    using that search_vector_authorised [of d en _ _ "policy_for who" sp fl kn]
    by (auto simp: search_dense_def search_vector_def res_simps)
      (metis fst_conv)
  from assms obtain g' ds dg0 where run: "search_dense en g query who sp fl k kn = Inr (ds, dg0)"
      "r \<in> set (fuse (gc_rrf g') ds (enumerated (lexical_chunk sp) (take (gc_k g') (lexical_stage en g' sp (policy_for who) fl query kn))))"
    by (auto simp: search_hybrid_def Let_def res_simps split: if_splits dest: in_set_takeD)
  from fused_members [OF run(2)] dense [OF run(1)] lexical_authorised [of _ sp "gc_k g'" en g' "policy_for who" fl query kn]
  show ?thesis unfolding authorised_def by blast
qed

lemma retrieve_authorised:
  assumes "retrieve en g query who sp mode fl k kn = Inr (rs, dg)" and "r \<in> set rs"
  shows "authorised kn sp (policy_for who) fl r"
proof (cases mode)
  case MODE_VECTOR
  with assms show ?thesis using search_vector_authorised [of r en _ _ "policy_for who" sp fl kn]
    by (auto simp: retrieve_def search_dense_def search_vector_def res_simps) (metis fst_conv)
next
  case MODE_LEXICAL
  with assms show ?thesis using lexical_authorised [of r sp _ en _ "policy_for who" fl query kn]
    by (auto simp: retrieve_def search_lexical_def Let_def res_simps split: if_splits)
next
  case MODE_HYBRID
  with assms show ?thesis using hybrid_authorised [of en g query who sp fl k kn rs dg r]
    by (auto simp: retrieve_def res_simps)
qed

section \<open>What the index may have missed\<close>

lemma joined_sensitivity:
  assumes "kn_ok kn" and "x \<in> set (kn_vectors kn)" "joined kn x = Some h"
  shows "ks_sensitivity (ht_source h) = kx_sensitivity (ht_vector h)"
proof -
  note h = joinedD [OF assms(3)]
  have "vectors_placed kn" "keys_distinct kn" using assms(1) by (simp_all add: kn_ok_def)
  with assms(2) obtain c s where cs: "c \<in> set (kn_chunks kn)" "kc_id c = kx_chunk x" "kc_source c = kx_source x"
      "s \<in> set (kn_sources kn)" "ks_id s = kx_source x" "ks_sensitivity s = kx_sensitivity x"
    unfolding vectors_placed_def by blast
  have unique: "distinct (map kc_id (kn_chunks kn))" "distinct (map ks_id (kn_sources kn))"
    using \<open>keys_distinct kn\<close> by (simp_all add: keys_distinct_def)
  have "ht_chunk h = c" using inj_onD [OF distinct_map [THEN iffD1, OF unique(1), THEN conjunct2], of "ht_chunk h" c] h cs by simp
  moreover from this have "ht_source h = s"
    using inj_onD [OF distinct_map [THEN iffD1, OF unique(2), THEN conjunct2], of "ht_source h" s] h cs by simp
  ultimately show ?thesis using h cs by simp
qed

lemma ann_subset:
  assumes "kn_ok kn"
  shows "mset (ann_stage en g sp po fl q kn) \<subseteq># mset (eligible_hits sp po fl kn)"
proof -
  let ?live = "filter (vector_lifecycle sp) (kn_vectors kn)"
  have "mset (ann_candidates en g sp q kn) \<subseteq># mset (filter (\<lambda>x. vector_lifecycle sp x \<and> se_reached en x) (kn_vectors kn))"
    unfolding ann_candidates_def by (rule subset_mset.order_trans [OF mset_take_subset]) simp
  also have "\<dots> \<subseteq># mset ?live"
    unfolding filter_filter [symmetric] mset_filter by (rule multiset_filter_subset)
  finally have "mset (List.map_filter (joined kn) (ann_candidates en g sp q kn)) \<subseteq># mset (List.map_filter (joined kn) ?live)"
    by (rule map_filter_mono)
  then have "mset (filter (eligible po fl) (List.map_filter (joined kn) (ann_candidates en g sp q kn)))
      \<subseteq># mset (filter (eligible po fl) (List.map_filter (joined kn) ?live))"
    by (simp add: multiset_filter_mono)
  also have "filter (eligible po fl) (List.map_filter (joined kn) ?live) = eligible_hits sp po fl kn"
    unfolding eligible_hits_def
    by (rule filter_cong [OF refl]) (auto simp: in_map_filter vector_sensitivity_def eligible_def Let_def
        dest: joined_sensitivity [OF assms])
  finally show ?thesis
    unfolding ann_stage_def by (intro subset_mset.order_trans [OF mset_take_subset]) simp
qed

lemma no_bands_no_hits: "po_allowed po = [] \<Longrightarrow> eligible_hits sp po fl kn = []"
  by (simp add: eligible_hits_def eligible_def Let_def)

lemma finish_parts:
  "map rt_chunk (fst (finish en sp g q st mth ann pop cap ranked reason rows)) = map (\<lambda>h. kc_id (ht_chunk h)) rows"
  "map rt_distance (fst (finish en sp g q st mth ann pop cap ranked reason rows)) =
     map (\<lambda>h. Some (distance_to en q (ht_vector h))) rows"
  "length (fst (finish en sp g q st mth ann pop cap ranked reason rows)) = length rows"
  "dg_degraded (snd (finish en sp g q st mth ann pop cap ranked reason rows)) = (reason \<noteq> None)"
  "dg_requested (snd (finish en sp g q st mth ann pop cap ranked reason rows)) = gc_k g"
  "dg_strategy (snd (finish en sp g q st mth ann pop cap ranked reason rows)) = st"
  by (simp_all add: finish_def map_enumerated vector_chunk_def to_chunk_def Let_def)

text \<open>
  One case for each way the dense leg can end, with the rows it returns.
\<close>

lemma search_vector_cases:
  fixes en g q po sp fl kn
  defines "ann \<equiv> ann_stage en g sp po fl q kn" and "E \<equiv> eligible_hits sp po fl kn"
  assumes "search_vector_with en g q po sp fl kn = (rs, dg)"
  obtains (none) "po_allowed po = []" "rs = []" "dg = empty_diagnostics sp g MODE_VECTOR"
  | (full) "gc_k g \<le> length ann" "(rs, dg) = finish en sp g q RS_ANN RM_VECTOR (length ann) None False None None (take (gc_k g) ann)"
  | (complete) n c where "length ann < gc_k g" "min (length E) (Suc (gc_exact_max g)) \<le> length ann"
      "(rs, dg) = finish en sp g q RS_ANN_COMPLETE RM_VECTOR (length ann) n c None None ann"
  | (degraded) st p c reason where "length ann < gc_k g" "length ann < min (length E) (Suc (gc_exact_max g))" "st \<noteq> RS_EXACT_FALLBACK"
      "(rs, dg) = finish en sp g q st RM_VECTOR (length ann) p c None (Some reason) ann"
  | (exact) rows p c ranked where "length ann < gc_k g" "length ann < length E" "length E \<le> gc_exact_max g"
      "exact_stage en g sp po fl q kn = Some rows"
      "(rs, dg) = finish en sp g q RS_EXACT_FALLBACK RM_VECTOR_EXACT (length ann) p c ranked None rows"
proof -
  let ?n = "min (length E) (Suc (gc_exact_max g))"
  have population: "eligible_population g sp po fl kn = (?n, gc_exact_max g < ?n)"
    by (simp add: eligible_population_def E_def min.commute)
  note run = assms(3) [unfolded search_vector_with_def Let_def population degraded_result_def prod.case, folded ann_def]
  consider "po_allowed po = []" | "po_allowed po \<noteq> []" "gc_k g \<le> length ann"
    | "po_allowed po \<noteq> []" "length ann < gc_k g" "?n \<le> length ann"
    | "po_allowed po \<noteq> []" "length ann < gc_k g" "length ann < ?n" by linarith
  then show thesis
  proof cases
    case 1
    with run show thesis by (intro none) simp_all
  next
    case 2
    with run show thesis by (intro full) simp_all
  next
    case 3
    with run show thesis by (intro complete [of "Some ?n" "gc_exact_max g < ?n"]) simp_all
  next
    case 4
    consider "\<not> gc_fallback g" | "gc_fallback g" "gc_exact_max g < ?n"
      | "gc_fallback g" "\<not> gc_exact_max g < ?n" "exact_stage en g sp po fl q kn = None"
      | rows where "gc_fallback g" "\<not> gc_exact_max g < ?n" "exact_stage en g sp po fl q kn = Some rows"
      by (cases "exact_stage en g sp po fl q kn") blast+
    then show thesis
    proof cases
      case 1
      with run 4 show thesis
        by (intro degraded [of RS_FALLBACK_SKIPPED "Some ?n" "gc_exact_max g < ?n" "''exact_fallback_disabled''"]) simp_all
    next
      case 2
      with run 4 show thesis
        by (intro degraded [of RS_FALLBACK_SKIPPED "Some ?n" "gc_exact_max g < ?n" "''eligible_population_exceeds_exact_max_rows''"])
          simp_all
    next
      case 3
      with run 4 show thesis
        by (intro degraded [of RS_FALLBACK_TIMEOUT "Some ?n" "gc_exact_max g < ?n" "''exact_fallback_timeout''"]) simp_all
    next
      case (4 rows)
      with run \<open>po_allowed po \<noteq> []\<close> \<open>length ann < gc_k g\<close> \<open>length ann < ?n\<close> show thesis
        by (intro exact [of rows "Some ?n" False "Some ?n"]) simp_all
    qed
  qed
qed

text \<open>What a principal's policy and a filter say of a result.\<close>

lemma authorised_rows:
  assumes "authorised kn sp (policy_for who) fl r"
  shows "\<exists>c d s. c \<in> set (kn_chunks kn) \<and> d \<in> set (kn_documents kn) \<and> s \<in> set (kn_sources kn) \<and>
    rt_chunk r = kc_id c \<and> rt_content r = ch_content (kc_chunk c) \<and> rt_version r = kc_version c \<and> kd_id d = kc_document c \<and> ks_id s = kc_source c \<and>
    kd_current d = Some (kc_version c) \<and> kd_state d = KL_ACTIVE \<and> ks_state s = KL_ACTIVE \<and> ks_trust s \<noteq> QUARANTINED \<and>
    (\<exists>role \<in> set (p_roles who). ks_sensitivity s \<in> set (DEFAULT_ROLE_SENSITIVITY role)) \<and>
    (ks_sensitivity s = CONFIDENTIAL \<longrightarrow> role_value ADMIN \<in> set (p_roles who)) \<and>
    rt_sensitivity r = ks_sensitivity s \<and> passes (fl_sources fl) (ks_id s) \<and> passes (fl_documents fl) (kd_id d) \<and>
    passes (fl_kinds fl) (ks_kind s) \<and> passes (fl_trust fl) (ks_trust s)"
proof -
  from assms obtain h x where h: "eligible (policy_for who) fl h" "joined kn x = Some h" "shows_hit sp h r"
    unfolding authorised_def permitted_def by blast
  note j = joinedD [OF h(2)]
  from h(1) obtain role where role: "role \<in> set (p_roles who)" "ks_sensitivity (ht_source h) \<in> set (DEFAULT_ROLE_SENSITIVITY role)"
    by (auto simp: eligible_def policy_for_def Let_def)
  then have "ks_sensitivity (ht_source h) = CONFIDENTIAL \<longrightarrow> role_value ADMIN \<in> set (p_roles who)"
    by (auto simp: DEFAULT_ROLE_SENSITIVITY_def split: if_splits)
  with h j role show ?thesis
    by (intro exI [of _ "ht_chunk h"] exI [of _ "ht_document h"] exI [of _ "ht_source h"])
      (auto simp: eligible_def policy_for_def NEVER_RETRIEVED_TRUST_def shows_hit_def Let_def)
qed

section \<open>Properties\<close>

text \<open>
  C12. Nothing is shown to a principal that its roles do not clear.  Whatever the index reaches, however texts rank and
  whatever filters are sent, every result of a search in any mode is the text of a stored chunk, of the current version
  of an active document in an active source, whose classification some role of the principal may read and whose trust
  is not quarantined; confidential text takes the admin role; and the filters hold of it.
\<close>

theorem nothing_uncleared_is_shown:
  assumes "retrieve en g query who sp mode fl k kn = Inr (rs, dg)" and "r \<in> set rs"
  shows "\<exists>c d s. c \<in> set (kn_chunks kn) \<and> d \<in> set (kn_documents kn) \<and> s \<in> set (kn_sources kn) \<and>
    rt_chunk r = kc_id c \<and> rt_content r = ch_content (kc_chunk c) \<and> kd_id d = kc_document c \<and> ks_id s = kc_source c \<and>
    kd_current d = Some (kc_version c) \<and> kd_state d = KL_ACTIVE \<and> ks_state s = KL_ACTIVE \<and> ks_trust s \<noteq> QUARANTINED \<and>
    (\<exists>role \<in> set (p_roles who). ks_sensitivity s \<in> set (DEFAULT_ROLE_SENSITIVITY role)) \<and>
    (ks_sensitivity s = CONFIDENTIAL \<longrightarrow> role_value ADMIN \<in> set (p_roles who)) \<and>
    rt_sensitivity r = ks_sensitivity s \<and> passes (fl_sources fl) (ks_id s) \<and> passes (fl_documents fl) (kd_id d) \<and>
    passes (fl_kinds fl) (ks_kind s) \<and> passes (fl_trust fl) (ks_trust s)"
  using authorised_rows [OF retrieve_authorised [OF assms]] by blast

text \<open>
  C13. An answer that is short says so.  From any reachable state and for any index, as long as the ceiling of the exact
  stage is not below what is asked for, a dense search returns at most \<open>k\<close> results, is marked as degraded if and only
  if it returns fewer than \<open>k\<close> although more are eligible, and when it is short without being degraded returns
  every eligible chunk.
\<close>

theorem short_answers_are_declared:
  assumes "kn_reachable kn" and "search_vector en g q who sp fl k kn = Inr (rs, dg)"
    and "dg_requested dg \<le> Suc (gc_exact_max g)"
  shows "length rs \<le> dg_requested dg \<and>
    (dg_degraded dg \<longleftrightarrow> length rs < min (dg_requested dg) (length (eligible_hits sp (policy_for who) fl kn))) \<and>
    (dg_degraded dg \<or> length rs = dg_requested dg \<or>
     mset (map rt_chunk rs) = mset (map (\<lambda>h. kc_id (ht_chunk h)) (eligible_hits sp (policy_for who) fl kn)))"
proof -
  let ?po = "policy_for who"
  let ?E = "eligible_hits sp ?po fl kn"
  from assms(2) obtain g' where g': "config_for g k = Inr g'" "search_vector_with en g' q ?po sp fl kn = (rs, dg)"
    by (auto simp: search_vector_def res_simps)
  have ceiling: "gc_exact_max g' = gc_exact_max g"
    using g'(1) by (auto simp: config_for_def with_k_def post_init_def res_simps split: option.splits)
  let ?ann = "ann_stage en g' sp ?po fl q kn"
  note sub = ann_subset [OF reachable_kn_ok [OF assms(1)], of en g' sp ?po fl q]
  have fewer: "length ?ann \<le> length ?E" using size_mset_mono [OF sub] by simp
  have limit: "length ?ann \<le> gc_k g'" by (simp add: ann_stage_def)
  from g'(2) show ?thesis
  proof (cases rule: search_vector_cases)
    case none
    then show ?thesis by (simp add: no_bands_no_hits empty_diagnostics_def)
  next
    case full
    from full(2) have "length rs = length (take (gc_k g') ?ann)" "\<not> dg_degraded dg" "dg_requested dg = gc_k g'"
      by (metis finish_parts fst_conv snd_conv)+
    with full(1) fewer show ?thesis by simp
  next
    case (complete n c)
    from complete(3) have parts: "map rt_chunk rs = map (\<lambda>h. kc_id (ht_chunk h)) ?ann" "length rs = length ?ann"
      "\<not> dg_degraded dg" "dg_requested dg = gc_k g'" by (metis finish_parts fst_conv snd_conv)+
    with complete(1,2) assms(3) ceiling fewer have "length ?E = length ?ann" by auto
    with sub have "mset ?ann = mset ?E" by (metis mset_subset_size nat_neq_iff size_mset subset_mset.le_neq_trans)
    then have "image_mset (\<lambda>h. kc_id (ht_chunk h)) (mset ?ann) = image_mset (\<lambda>h. kc_id (ht_chunk h)) (mset ?E)" by simp
    with parts \<open>length ?E = length ?ann\<close> limit show ?thesis by simp
  next
    case (degraded st p c reason)
    from degraded(4) have "length rs = length ?ann" "dg_degraded dg" "dg_requested dg = gc_k g'"
      by (metis finish_parts fst_conv snd_conv option.distinct(1))+
    with degraded(1,2) show ?thesis by auto
  next
    case (exact rows p c ranked)
    from exact(5) have parts: "map rt_chunk rs = map (\<lambda>h. kc_id (ht_chunk h)) rows" "length rs = length rows"
      "\<not> dg_degraded dg" "dg_requested dg = gc_k g'" by (metis finish_parts fst_conv snd_conv)+
    have rows: "mset rows = mset (take (gc_k g') (sort_key (\<lambda>h. distance_to en q (ht_vector h)) ?E))"
      using exact(3,4) by (auto simp: exact_stage_def split: if_splits)
    then have "length rows = min (gc_k g') (length ?E)" by (metis length_sort length_take size_mset min.commute)
    moreover have "mset (map rt_chunk rs) = mset (map (\<lambda>h. kc_id (ht_chunk h)) ?E)" if "length ?E \<le> gc_k g'"
      unfolding parts(1) mset_map rows using that by simp
    ultimately show ?thesis using parts(2-4) by (cases "length ?E \<le> gc_k g'") simp_all
  qed
qed

text \<open>
  C31. When the exhaustive ranking ran, its answer is the nearest there is: an eligible chunk that is not among the results
  is no nearer to the query than any result, and the results are listed nearest first.
\<close>

theorem exact_answers_are_nearest:
  assumes "search_vector en g q who sp fl k kn = Inr (rs, dg)" and "dg_strategy dg = RS_EXACT_FALLBACK"
  shows "sorted (map (\<lambda>r. the (rt_distance r)) rs) \<and> length rs \<le> dg_requested dg \<and>
    (\<forall>h \<in> set (eligible_hits sp (policy_for who) fl kn). kc_id (ht_chunk h) \<in> rt_chunk ` set rs \<or>
       (\<forall>r \<in> set rs. the (rt_distance r) \<le> distance_to en q (ht_vector h)))"
proof -
  let ?po = "policy_for who"
  let ?E = "eligible_hits sp ?po fl kn"
  let ?d = "\<lambda>h. distance_to en q (ht_vector h)"
  from assms(1) obtain g' where "search_vector_with en g' q ?po sp fl kn = (rs, dg)"
    by (auto simp: search_vector_def res_simps)
  then obtain rows p c ranked where exact: "length ?E \<le> gc_exact_max g'" "exact_stage en g' sp ?po fl q kn = Some rows"
      "(rs, dg) = finish en sp g' q RS_EXACT_FALLBACK RM_VECTOR_EXACT (length (ann_stage en g' sp ?po fl q kn)) p c ranked None rows"
    using assms(2)
    by (cases rule: search_vector_cases) (simp_all add: empty_diagnostics_def finish_def)
  from exact(3) have parts: "map rt_chunk rs = map (\<lambda>h. kc_id (ht_chunk h)) rows" "map rt_distance rs = map (\<lambda>h. Some (?d h)) rows"
    "dg_requested dg = gc_k g'" by (metis finish_parts fst_conv snd_conv)+
  have rows: "rows = sort_key (by_distance en q) (take (gc_k g') (sort_key ?d ?E))"
    using exact(1,2) by (auto simp: exact_stage_def split: if_splits)
  have near: "map (\<lambda>r. the (rt_distance r)) rs = map ?d rows"
    using arg_cong [OF parts(2), of "map the"] by (simp add: comp_def)
  have "sorted (map (by_distance en q) rows)" by (simp add: rows)
  then have "sorted (map ?d rows)"
    unfolding sorted_map by (rule sorted_wrt_mono_rel [rotated]) (auto simp: by_distance_def)
  moreover have "length rs \<le> gc_k g'" using arg_cong [OF parts(1), of length] by (simp add: rows)
  moreover have "kc_id (ht_chunk h) \<in> rt_chunk ` set rs \<or> (\<forall>r \<in> set rs. the (rt_distance r) \<le> ?d h)" if "h \<in> set ?E" for h
  proof (cases "h \<in> set (take (gc_k g') (sort_key ?d ?E))")
    case True
    then have "kc_id (ht_chunk h) \<in> set (map rt_chunk rs)" unfolding parts(1) by (simp add: rows)
    then show ?thesis by simp
  next
    case False
    have "the (rt_distance r) \<le> ?d h" if "r \<in> set rs" for r
    proof -
      from that have "the (rt_distance r) \<in> set (map ?d rows)" unfolding near [symmetric] by simp
      then obtain h' where "h' \<in> set (take (gc_k g') (sort_key ?d ?E))" "the (rt_distance r) = ?d h'" by (auto simp: rows)
      with take_sorted_least [of ?d "sort_key ?d ?E" h' "gc_k g'" h] False \<open>h \<in> set ?E\<close> show ?thesis by simp
    qed
    then show ?thesis by blast
  qed
  ultimately show ?thesis using near parts(3) by simp
qed

text \<open>
  Fusion ranks the union of both legs: a chunk comes once, its score is the sum of the reciprocals of its ranks in either
  leg, the order is by score and then by chunk, and the ranks count from one.
\<close>

theorem fusion_ranks_the_union:
  assumes "fuse rrf dense lexical = rs"
  shows "distinct (map rt_chunk rs) \<and> rt_chunk ` set rs = rt_chunk ` set dense \<union> rt_chunk ` set lexical \<and>
    map rt_rank rs = [1..<Suc (length rs)] \<and> sorted (map by_fused_score rs) \<and>
    (\<forall>r \<in> set rs. rt_fused_score r = Some (leg_sum rrf dense (rt_chunk r) + leg_sum rrf lexical (rt_chunk r)))"
proof -
  let ?cs = "contributions rrf dense lexical"
  let ?rows = "List.map_filter fused_row ?cs"
  let ?sorted = "sort_key by_fused_score ?rows"
  note tallied = contributions_tallied [of rrf dense lexical, unfolded tallied_def]
  from fused_rows [OF tallied [THEN conjunct2, THEN conjunct2]]
  have rows: "map (\<lambda>r. (rt_chunk r, rt_fused_score r)) ?rows = map (\<lambda>c. (cb_chunk c, Some (cb_score c))) ?cs" .
  have chunks: "map rt_chunk ?rows = map cb_chunk ?cs" using arg_cong [OF rows, of "map fst"] by (simp add: comp_def)
  have rs: "rs = enumerated (\<lambda>i r. r\<lparr>rt_rank := Suc i\<rparr>) ?sorted" using assms by (simp add: fuse_def)
  have same: "map (\<lambda>r. (rt_chunk r, rt_fused_score r)) rs = map (\<lambda>r. (rt_chunk r, rt_fused_score r)) ?sorted"
    "map rt_chunk rs = map rt_chunk ?sorted" "map by_fused_score rs = map by_fused_score ?sorted"
    unfolding rs by (simp_all add: map_enumerated by_fused_score_def)
  have "mset (map rt_chunk rs) = mset (map cb_chunk ?cs)" unfolding same(2) by (simp flip: chunks)
  then have keys: "distinct (map rt_chunk rs)" "set (map rt_chunk rs) = set (map cb_chunk ?cs)"
    using tallied by (metis mset_eq_imp_distinct_iff, metis mset_eq_setD)
  have "rt_fused_score r = Some (leg_sum rrf dense (rt_chunk r) + leg_sum rrf lexical (rt_chunk r))" if "r \<in> set rs" for r
  proof -
    from that have "(rt_chunk r, rt_fused_score r) \<in> set (map (\<lambda>r. (rt_chunk r, rt_fused_score r)) rs)" by simp
    then have "(rt_chunk r, rt_fused_score r) \<in> set (map (\<lambda>r. (rt_chunk r, rt_fused_score r)) ?rows)" unfolding same by simp
    then obtain c where "c \<in> set ?cs" "rt_chunk r = cb_chunk c" "rt_fused_score r = Some (cb_score c)" unfolding rows by auto
    with tallied show ?thesis by (simp add: tallied_row_def)
  qed
  moreover have "map rt_rank rs = [1..<Suc (length rs)]"
    unfolding rs by (rule nth_equalityI) (simp_all add: nth_enumerated del: upt_Suc)
  moreover have "sorted (map by_fused_score rs)" unfolding same(3) by simp
  ultimately show ?thesis using keys tallied by simp
qed

text \<open>The two ways a configured value is lost or the ceiling lets an answer pass as complete.\<close>

lemma tuning_is_lost: "with_k g k = Inr g' \<Longrightarrow> gc_lexical_limit g' = 100 \<and> gc_rrf g' = 60"
  by (auto simp: with_k_def post_init_def DEFAULT_RRF_K_def res_simps)

lemma low_ceiling_hides_rows:
  assumes "po_allowed po \<noteq> []" and "length (ann_stage en g sp po fl q kn) < gc_k g"
    and "gc_exact_max g < length (ann_stage en g sp po fl q kn)"
  shows "\<not> dg_degraded (snd (search_vector_with en g q po sp fl kn))"
  using assms by (simp add: search_vector_with_def eligible_population_def finish_def Let_def)

text \<open>A hybrid answer is as degraded as its dense leg.\<close>

lemma hybrid_inherits_degradation:
  assumes "search_hybrid en g query who sp fl k kn = Inr (rs, dg)" and "po_allowed (policy_for who) \<noteq> []"
  shows "\<exists>ds dg0. search_dense en g query who sp fl k kn = Inr (ds, dg0) \<and> dg_degraded dg = dg_degraded dg0 \<and>
    dg_reason dg = dg_reason dg0"
  using assms by (auto simp: search_hybrid_def Let_def res_simps)

end
