(* ===== verification/Mentions_Witnesses.thy ===== *)
theory Mentions_Witnesses
  imports Mentions Knowledge_Life
begin

text \<open>
  A chunk that names a machine by its hostname, scanned in a CMDB where one asset carries it.
\<close>

definition sample_asset :: asset_row where
  "sample_asset = \<lparr>ca_id = 7, ca_type = VM, ca_lifecycle = LC_ACTIVE, ca_display_name = ''switch'', ca_description = None,
     ca_merged_into = None, ca_created = 0, ca_first_seen = 0, ca_last_seen = 0, ca_retired_at = None\<rparr>"

definition sample_identifier :: identifier_row where
  "sample_identifier = \<lparr>ci_id = 8, ci_asset = 7, ci_namespace = ''hostname'', ci_raw = ''SW1'', ci_normalized = ''sw1'',
     ci_unique = False, ci_source_type = SRC_MANUAL_ENTRY, ci_source_id = ''a'', ci_confidence = 1000, ci_first_seen = 0,
     ci_last_seen = 0, ci_retired_at = None\<rparr>"

definition sample_cmdb :: cmdb where
  "sample_cmdb = \<lparr>asset_rows = [sample_asset], identifier_rows = [sample_identifier], fact_rows = [],
     attestation_rows = [], edge_rows = [], fresh_id = 9\<rparr>"

definition sample_chunk :: chunk_row where
  "sample_chunk = \<lparr>kc_id = 4, kc_version = 3, kc_document = 2, kc_source = 1, kc_chunk = \<lparr>ch_ordinal = 0,
     ch_content = ''on Sw1.'', ch_start = 0, ch_end = 7, ch_tokens = 2, ch_path = []\<rparr>, kc_content_hash = [], kc_label = None,
     kc_injection = False\<rparr>"

definition sample_knowledge :: knowledge where
  "sample_knowledge = empty_knowledge\<lparr>kn_chunks := [sample_chunk]\<rparr>"

definition no_mentions :: mentions where
  "no_mentions = \<lparr>mn_rows = [], mn_next = 1\<rparr>"

lemma sample_finds: "finditer TOKEN ''on Sw1.'' = [(0, 2), (3, 6)]"
  by code_simp

lemma sample_tokens: "tokens ''on Sw1.'' = [''on'', ''Sw1'']"
  by (simp add: tokens_def sample_finds MAX_TOKENS_PER_CHUNK_def matched_def)

lemma sample_normals:
  "mentionable ''on'' = False" "mentionable ''Sw1'' = True" "stems ''on'' = [''on'']" "stems ''Sw1'' = [''Sw1'']"
  "normalise_lower ''Sw1'' = ''sw1''" "normalise_upper ''Sw1'' = ''SW1''" "normalise_mac ''Sw1'' = ''sw1''"
  "normalise_hostname ''Sw1'' = ''sw1''"
  by code_simp+

lemma sample_candidates: "candidates [''hostname'', ''serial''] ''on Sw1.'' =
    [\<lparr>mc_namespace = ''hostname'', mc_value = ''sw1'', mc_surface = ''Sw1''\<rparr>,
     \<lparr>mc_namespace = ''serial'', mc_value = ''SW1'', mc_surface = ''Sw1''\<rparr>]"
  by (simp add: candidates_def sample_tokens sample_normals try_token_def try_namespace_def namespace_spec_of_def
      IDENTIFIER_NAMESPACES_def MIN_MENTION_TOKEN_LENGTH_def candidate_key_def)

definition sample_mention :: mention_row where
  "sample_mention = \<lparr>km_id = 1, km_chunk = 4, km_asset = Some 7, km_text = ''Sw1'', km_source = IDENTIFIER_MATCH,
     km_resolution = MR_RESOLVED, km_candidates = [7], km_namespace = Some ''hostname'',
     km_by = p_subject SYSTEM_PRINCIPAL, km_created = 5\<rparr>"

lemma sample_link: "link_version [''hostname'', ''serial''] 5 3 SYSTEM_PRINCIPAL sample_knowledge sample_cmdb no_mentions =
    Inr (\<lparr>mr_scanned = 1, mr_considered = 2, mr_created = 1, mr_ambiguous = 0\<rparr>, \<lparr>mn_rows = [sample_mention], mn_next = 2\<rparr>)"
  by (simp add: link_version_def version_chunks_def sample_knowledge_def sample_chunk_def scan_version_def scan_chunk_def
      sample_candidates match_candidates_def assets_with_def sample_cmdb_def sample_identifier_def ci_live_def
      record_match_def existing_keys_def no_mentions_def new_mention_def insert_mention_def mention_checks_def
      find_asset_def sample_asset_def sample_mention_def enforce_def empty_knowledge_def
      first_violation_def numeral_2_eq_2)

theorem mentions_are_exact_witness: "\<exists>new. [sample_mention] = [] @ new \<and> 1 = length new"
  using mentions_are_exact [OF sample_link] by (auto simp: no_mentions_def)

theorem rescan_adds_nothing_witness: "\<exists>rep. link_version [''serial'', ''hostname''] 6 3 ANONYMOUS_PRINCIPAL sample_knowledge
    sample_cmdb \<lparr>mn_rows = [sample_mention], mn_next = 2\<rparr> = Inr (rep, \<lparr>mn_rows = [sample_mention], mn_next = 2\<rparr>) \<and>
    mr_created rep = 0"
  using rescan_adds_nothing [OF sample_link, of "[''serial'', ''hostname'']" 6 ANONYMOUS_PRINCIPAL] by auto

theorem every_identifier_is_mentioned_witness:
  "\<exists>m \<in> set [sample_mention]. km_chunk m = 4 \<and> km_namespace m = Some ''hostname'' \<and>
     normalised_value ''hostname'' (km_text m) = ''sw1''"
proof -
  have spec: "namespace_spec_of ''hostname'' \<noteq> None" "normalised_value ''hostname'' ''Sw1'' = ''sw1''"
    by (simp_all add: namespace_spec_of_def normalised_value_def IDENTIFIER_NAMESPACES_def sample_normals)
  show ?thesis
    using every_identifier_is_mentioned [OF sample_link, of sample_chunk "''Sw1''" "''hostname''" sample_identifier] spec
    by (simp add: sample_knowledge_def sample_chunk_def sample_tokens sample_normals MIN_MENTION_TOKEN_LENGTH_def
        sample_cmdb_def sample_identifier_def ci_live_def)
qed

end
