(* ===== verification/Evidence_Witnesses.thy ===== *)
theory Evidence_Witnesses
  imports Evidence Knowledge_Scenario Mentions_Witnesses
begin

text \<open>
  A search of the knowledge base of \<open>Knowledge_Scenario\<close> by an operator whose index reaches nothing, so that the
  exact stage has to answer.
\<close>

definition blind_index :: search_env where
  "blind_index = \<lparr>se_reached = (\<lambda>x. False), se_distance = (\<lambda>x y. 0), se_lexical = (\<lambda>query s. Some 1), se_timeout = False,
     se_embed = (\<lambda>query prefix. Some (replicate 768 0))\<rparr>"

definition plain_config :: retrieval_config where
  "plain_config = \<lparr>gc_k = 10, gc_overfetch = 8, gc_cap = 2000, gc_fallback = True, gc_exact_max = 50000,
     gc_lexical_limit = 100, gc_rrf = 60\<rparr>"

definition no_filters :: retrieval_filters where
  "no_filters = \<lparr>fl_sources = [], fl_documents = [], fl_kinds = [], fl_trust = []\<rparr>"

definition hit_7 :: hit where
  "hit_7 = \<lparr>ht_vector = vector_7, ht_chunk = chunk_6, ht_document = document_4 5, ht_source = source_1\<rparr>"

lemma operator_reads: "po_allowed (policy_for operator) = [PUBLIC, INTERNAL]" "po_excluded (policy_for operator) = [QUARANTINED]"
  by (simp_all add: policy_for_def operator_def DEFAULT_ROLE_SENSITIVITY_def NEVER_RETRIEVED_TRUST_def)

lemma eligible_7: "eligible_hits space_2 (policy_for operator) no_filters with_ab = [hit_7]"
  by (simp add: eligible_hits_def with_ab_def base_def vector_lifecycle_def joined_def vector_7_def new_vector_def
      chunk_6_def new_chunk_def version_5_def new_version_def document_4_def new_document_def submits_def source_1_def
      List.map_filter_simps vector_sensitivity_def eligible_def operator_reads passes_def no_filters_def hit_7_def
      one_chunk_def empty_knowledge_def)

definition vector_0 :: vector where
  "vector_0 = replicate 768 0"

definition row_7 :: "retrieval_method \<Rightarrow> retrieved" where
  "row_7 mth = vector_chunk blind_index space_2 vector_0 mth 0 hit_7"

definition report_7 :: diagnostics where
  "report_7 = snd (finish blind_index space_2 plain_config vector_0 RS_EXACT_FALLBACK RM_VECTOR_EXACT 0 (Some 1) False (Some 1)
     None [hit_7])"

lemma search_7: "search_vector blind_index plain_config vector_0 operator space_2 no_filters None with_ab =
    Inr ([row_7 RM_VECTOR_EXACT], report_7)"
proof -
  have "ann_stage blind_index plain_config space_2 (policy_for operator) no_filters vector_0 with_ab = []"
    by (simp add: ann_stage_def ann_candidates_def blind_index_def List.map_filter_simps)
  moreover have "eligible_population plain_config space_2 (policy_for operator) no_filters with_ab = (1, False)"
    by (simp add: eligible_population_def eligible_7 plain_config_def)
  moreover have "exact_stage blind_index plain_config space_2 (policy_for operator) no_filters vector_0 with_ab = Some [hit_7]"
    by (simp add: exact_stage_def eligible_7 plain_config_def blind_index_def)
  ultimately show ?thesis
    by (simp add: search_vector_def config_for_def search_vector_with_def operator_reads row_7_def report_7_def)
      (simp add: plain_config_def finish_def enumerated_def)
qed

theorem short_answers_are_declared_witness: "length [row_7 RM_VECTOR_EXACT] \<le> 10 \<and> \<not> dg_degraded report_7"
  using short_answers_are_declared [OF ab_reachable search_7] by (simp add: report_7_def finish_def plain_config_def eligible_7)

theorem exact_answers_are_nearest_witness: "sorted (map (\<lambda>r. the (rt_distance r)) [row_7 RM_VECTOR_EXACT])"
  using exact_answers_are_nearest [OF search_7] by (simp add: report_7_def finish_def)

definition ask :: search_request where
  "ask = \<lparr>sq_query = ''a'', sq_mode = MODE_VECTOR, sq_k = 10, sq_space = None, sq_filters = no_filters\<rparr>"

lemma same_config: "with_k plain_config 10 = Inr plain_config"
  by (simp add: with_k_def post_init_def plain_config_def MAX_K_def DEFAULT_RRF_K_def)

lemma retrieve_7: "retrieve blind_index plain_config ''a'' operator space_2 MODE_VECTOR no_filters (Some 10) with_ab =
    Inr ([row_7 RM_VECTOR_EXACT], report_7)"
proof -
  have "embed_query blind_index ''a'' space_2 = Inr vector_0"
    by (simp add: embed_query_def space_2_def new_space_def space_def blind_index_def vector_0_def)
  moreover have "has_text ''a'' = Inr ()" by code_simp
  ultimately show ?thesis
    using search_7 by (simp add: retrieve_def search_dense_def search_vector_def config_for_def same_config)
qed

theorem nothing_uncleared_is_shown_witness:
  "\<exists>s \<in> set (kn_sources with_ab). ks_trust s \<noteq> QUARANTINED \<and> rt_sensitivity (row_7 RM_VECTOR_EXACT) = ks_sensitivity s"
  using nothing_uncleared_is_shown [OF retrieve_7, of "row_7 RM_VECTOR_EXACT"] by auto

theorem fusion_ranks_the_union_witness:
  "distinct (map rt_chunk (fuse 60 [row_7 RM_VECTOR] [row_7 RM_LEXICAL]))"
  using fusion_ranks_the_union [OF refl, of 60 "[row_7 RM_VECTOR]" "[row_7 RM_LEXICAL]"] by blast

definition sourced :: answer_statement where
  "sourced = \<lparr>as_kind = SK_SOURCED, as_text = ''b'', as_citations = [1], as_asset = None, as_fact = None, as_status = None\<rparr>"

theorem answers_cite_cleared_text_witness:
  "\<exists>k \<in> set (kn_chunks with_ab). rt_content (row_7 RM_VECTOR_EXACT) = ch_content (kc_chunk k)"
proof -
  have space: "default_space with_ab = Inr space_2" by (simp add: default_space_def with_ab_def base_def space_2_def)
  have "require_roles ViewerPrincipal operator = Inr operator"
    by (simp add: require_roles_def ViewerPrincipal_def has_any_role_def has_role_def operator_def)
  then have run: "evidence_route blind_index plain_config operator ask with_ab no_mentions =
      Inr ((from_result ([row_7 RM_VECTOR_EXACT], report_7), []), audit_search ''knowledge.evidence'' operator ([row_7 RM_VECTOR_EXACT], report_7))"
    by (simp add: evidence_route_def run_search_def ask_def ingest_space_def space retrieve_7 for_chunks_def no_mentions_def)
  obtain a where a: "build_answer (from_result ([row_7 RM_VECTOR_EXACT], report_7)) [sourced] None None = Inr a"
      "citation_of 0 (row_7 RM_VECTOR_EXACT) \<in> set (an_citations a)"
    by (simp add: build_answer_def from_result_def indexes_def enumerated_def citation_of_def sourced_def check_statement_def
        truthy_def CITATION_REQUIRED_KINDS_def Let_def)
  from answers_cite_cleared_text [OF run a] show ?thesis
    by (auto simp: from_result_def citation_of_def)
qed

theorem evidence_is_quoted_verbatim_witness:
  "\<exists>prompt u w. render_for_prompt (from_result ([row_7 RM_VECTOR_EXACT], report_7)) = Some prompt \<and> prompt = PROMPT_PREAMBLE @ w"
  using evidence_is_quoted_verbatim [of "([row_7 RM_VECTOR_EXACT], report_7)"] by blast

theorem answers_rest_on_evidence_witness:
  "\<exists>a. build_answer (from_result ([row_7 RM_VECTOR_EXACT], report_7)) [sourced] None None = Inr a"
  using answers_rest_on_evidence [of "([row_7 RM_VECTOR_EXACT], report_7)" "[sourced]" None None]
  by (simp add: sourced_def truthy_def)

end
