(* ===== verification/Upstream_Values.thy ===== *)
theory Upstream_Values
  imports Py_Strings
begin

text \<open>
  What \<open>json.loads\<close> makes of an upstream body, and the coercions of
  \<open>tools/adapters/proxmox/projection.py\<close> that read it.  A float is a binary float,
  \<open>Finite m e\<close> standing for m times 2 to the e; an object holds each key once.  How Python
  prints a float or a container, and how it reads a decimal fraction, are the two functions
  of the record \<open>python\<close>; nothing is assumed of them.
\<close>

section \<open>Values\<close>

datatype py_float = Finite int int | Infinite bool | NotANumber

datatype pyval =
  PNone
| PBool bool
| PInt int
| PFloat py_float
| PStr string
| PTime int \<comment> \<open>a datetime, in seconds since 1970; no JSON value is one\<close>
| PList "pyval list"
| PDict "(string \<times> pyval) list"

type_synonym pydict = "(string \<times> pyval) list"

record python =
  py_render :: "pyval \<Rightarrow> string"
  py_read_float :: "string \<Rightarrow> py_float option"

text \<open>\<open>d.get(k)\<close>: an absent key reads as \<open>None\<close>.\<close>

definition pget :: "pydict \<Rightarrow> string \<Rightarrow> pyval" where
  "pget d k = (case map_of d k of None \<Rightarrow> PNone | Some v \<Rightarrow> v)"

fun py_true :: "pyval \<Rightarrow> bool" where
  "py_true PNone = False"
| "py_true (PBool b) = b"
| "py_true (PInt i) = (i \<noteq> 0)"
| "py_true (PFloat f) = (case f of Finite m e \<Rightarrow> m \<noteq> 0 | _ \<Rightarrow> True)"
| "py_true (PStr s) = (s \<noteq> [])"
| "py_true (PTime t) = True"
| "py_true (PList vs) = (vs \<noteq> [])"
| "py_true (PDict kvs) = (kvs \<noteq> [])"

definition value_or :: "pyval \<Rightarrow> pyval \<Rightarrow> pyval" where
  "value_or v w = (if py_true v then v else w)"

text \<open>\<open>str(v)\<close>.\<close>

fun py_str :: "python \<Rightarrow> pyval \<Rightarrow> string" where
  "py_str py (PStr s) = s"
| "py_str py PNone = ''None''"
| "py_str py (PBool b) = (if b then ''True'' else ''False'')"
| "py_str py (PInt i) = show_int i"
| "py_str py v = py_render py v"

section \<open>Numbers from text\<close>

text \<open>
  \<open>int(s)\<close>: surrounding whitespace, a sign, digits with single underscores between them, and
  no more than 4300 digits.  \<open>None\<close> is \<open>ValueError\<close>.
\<close>

definition unsign :: "string \<Rightarrow> bool \<times> string" where
  "unsign s = (case s of
     c # cs \<Rightarrow> if c = CHR ''-'' then (True, cs) else if c = CHR ''+'' then (False, cs) else (False, s)
   | [] \<Rightarrow> (False, s))"

definition grouped :: "(char \<Rightarrow> bool) \<Rightarrow> string \<Rightarrow> bool" where
  "grouped digit s = list_all (\<lambda>w. w \<noteq> [] \<and> list_all digit w) (split_on CHR ''_'' s)"

definition int_of_text :: "string \<Rightarrow> int option" where
  "int_of_text s = (case unsign (strip s) of (negative, body) \<Rightarrow>
     (let digits = filter is_digit body in
      if grouped is_digit body \<and> length digits \<le> 4300
      then Some (if negative then - int (read_nat digits) else int (read_nat digits))
      else None))"

text \<open>\<open>str.isdigit\<close>: the superscripts one, two and three count as well.\<close>

definition py_isdigit :: "string \<Rightarrow> bool" where
  "py_isdigit s = (s \<noteq> [] \<and> list_all (\<lambda>c. is_digit c \<or> (of_char c :: nat) \<in> {178, 179, 185}) s)"

text \<open>\<open>int(s, 16)\<close> of a text without \<open>-\<close>: a sign and a prefix \<open>0x\<close> are accepted.\<close>

definition is_hex :: "char \<Rightarrow> bool" where
  "is_hex c = (let n = of_char c :: nat in is_digit c \<or> 65 \<le> n \<and> n \<le> 70 \<or> 97 \<le> n \<and> n \<le> 102)"

definition hex_value :: "char \<Rightarrow> nat" where
  "hex_value c = (let n = of_char c :: nat in
     if n \<le> 57 then n - 48 else if n \<le> 70 then n - 55 else n - 87)"

definition read_hex :: "string \<Rightarrow> nat" where
  "read_hex s = foldl (\<lambda>a c. 16 * a + hex_value c) 0 s"

definition strip_prefix :: "string \<Rightarrow> string" where
  "strip_prefix s =
    (if starts_with ''0x_'' (lower s) then drop 3 s
     else if starts_with ''0x'' (lower s) then drop 2 s else s)"

definition hex_of_text :: "string \<Rightarrow> nat option" where
  "hex_of_text s = (case unsign (strip s) of (negative, signless) \<Rightarrow>
     (let body = strip_prefix signless in
      if \<not> negative \<and> grouped is_hex body then Some (read_hex (filter is_hex body)) else None))"

section \<open>Floats\<close>

text \<open>\<open>int(f)\<close> truncates towards zero, and raises for an infinity and for a NaN.\<close>

fun truncate :: "py_float \<Rightarrow> int option" where
  "truncate (Finite m e) = Some
     (if 0 \<le> e then m * 2 ^ nat e
      else if m < 0 then - ((- m) div 2 ^ nat (- e)) else m div 2 ^ nat (- e))"
| "truncate (Infinite positive) = None"
| "truncate NotANumber = None"

fun bit_length :: "nat \<Rightarrow> nat" where
  "bit_length n = (if n = 0 then 0 else Suc (bit_length (n div 2)))"

declare bit_length.simps [simp del]

text \<open>\<open>float(i)\<close>: 53 bits, ties to even; \<open>None\<close> is the \<open>OverflowError\<close> from 2 to the 1024 on.\<close>

definition round_shift :: "nat \<Rightarrow> nat \<Rightarrow> nat" where
  "round_shift n k = (let q = n div 2 ^ k; r = n mod 2 ^ k in
     if 2 * r < 2 ^ k \<or> 2 * r = 2 ^ k \<and> even q then q else Suc q)"

definition float_of_int :: "int \<Rightarrow> py_float option" where
  "float_of_int i =
    (let n = nat \<bar>i\<bar>; k = bit_length n - 53; q = (if k = 0 then n else round_shift n k) in
     if 2 ^ 1024 \<le> q * 2 ^ k then None
     else Some (Finite (if i < 0 then - int q else int q) (int k)))"

section \<open>Coercion\<close>

text \<open>\<open>Inl ()\<close> is an exception of Python's own that the coercion does not catch.\<close>

fun as_str :: "python \<Rightarrow> pyval \<Rightarrow> string option" where
  "as_str py (PStr s) = (if strip s = [] then None else Some (strip s))"
| "as_str py (PInt i) = Some (show_int i)"
| "as_str py (PFloat f) = Some (py_render py (PFloat f))"
| "as_str py v = None"

fun as_int :: "pyval \<Rightarrow> unit + int option" where
  "as_int (PBool b) = Inr (Some (if b then 1 else 0))"
| "as_int (PInt i) = Inr (Some i)"
| "as_int (PFloat f) = (case truncate f of None \<Rightarrow> Inl () | Some i \<Rightarrow> Inr (Some i))"
| "as_int (PStr s) = Inr (int_of_text s)"
| "as_int v = Inr None"

fun as_float :: "python \<Rightarrow> pyval \<Rightarrow> unit + py_float option" where
  "as_float py (PBool b) = Inr (Some (Finite (if b then 1 else 0) 0))"
| "as_float py (PInt i) = (case float_of_int i of None \<Rightarrow> Inl () | Some f \<Rightarrow> Inr (Some f))"
| "as_float py (PFloat f) = Inr (Some f)"
| "as_float py (PStr s) = Inr (py_read_float py (strip s))"
| "as_float py v = Inr None"

fun as_bool :: "pyval \<Rightarrow> bool option" where
  "as_bool (PBool b) = Some b"
| "as_bool (PInt i) = Some (i \<noteq> 0)"
| "as_bool (PStr s) = (let text = lower (strip s) in
     if text \<in> {''1'', ''true'', ''yes'', ''on''} then Some True
     else if text \<in> {''0'', ''false'', ''no'', ''off''} then Some False else None)"
| "as_bool v = None"

section \<open>Configuration lines\<close>

text \<open>\<open>str.partition\<close> at a character: \<open>None\<close> when it does not occur.\<close>

fun partition_at :: "char \<Rightarrow> string \<Rightarrow> (string \<times> string) option" where
  "partition_at c [] = None"
| "partition_at c (d # ds) = (if d = c then Some ([], ds)
     else (case partition_at c ds of None \<Rightarrow> None | Some (a, b) \<Rightarrow> Some (d # a, b)))"

definition key_values :: "python \<Rightarrow> pyval \<Rightarrow> (string \<times> string) list" where
  "key_values py line = (case as_str py line of None \<Rightarrow> [] | Some text \<Rightarrow>
     rev (concat (map (\<lambda>fragment. case partition_at CHR ''='' fragment of
         None \<Rightarrow> []
       | Some (k, v) \<Rightarrow> if strip k = [] then [] else [(lower (strip k), strip v)])
       (split_on CHR '','' text))))"

text \<open>\<open>s.replace(p, '')\<close> for a text p that is not empty.\<close>

function erase :: "string \<Rightarrow> string \<Rightarrow> string" where
  "erase p s = (case s of [] \<Rightarrow> []
     | c # cs \<Rightarrow> if p \<noteq> [] \<and> starts_with p s then erase p (drop (length p) s) else c # erase p cs)"
  by pat_completeness auto
termination
  by (relation "measure (\<lambda>(p, s). length s)") auto

declare erase.simps [simp del]

definition strip_braces :: "string \<Rightarrow> string" where
  "strip_braces s = (let brace = (\<lambda>c. c = CHR ''{'' \<or> c = CHR ''}'') in
     rev (dropWhile brace (rev (dropWhile brace s))))"

text \<open>\<open>uuid.UUID(s)\<close>: 32 characters are left once the decoration is gone, and they read as base 16.\<close>

definition uuid_of_text :: "string \<Rightarrow> uuid option" where
  "uuid_of_text s =
    (let digits = filter (\<lambda>c. c \<noteq> CHR ''-'') (strip_braces (erase ''uuid:'' (erase ''urn:'' s))) in
     if length digits = 32 then hex_of_text digits else None)"

definition uuid_or_none :: "string option \<Rightarrow> string option" where
  "uuid_or_none v = (case v of None \<Rightarrow> None
     | Some s \<Rightarrow> if s = [] then None else map_option uuid_text (uuid_of_text s))"

text \<open>\<open>datetime.fromtimestamp\<close> ends with the year 9999.\<close>

definition epoch_or_none :: "string option \<Rightarrow> int option" where
  "epoch_or_none v = (case v of None \<Rightarrow> None | Some s \<Rightarrow>
     (case int_of_text s of None \<Rightarrow> None
      | Some seconds \<Rightarrow> if 0 < seconds \<and> seconds \<le> 253402300799 then Some seconds else None))"

section \<open>What the coercions promise\<close>

lemma partition_at_SomeD: "partition_at c s = Some (a, b) \<Longrightarrow> s = a @ c # b \<and> c \<notin> set a"
  by (induction s arbitrary: a b) (auto split: if_splits option.splits)

lemma partition_at_None: "partition_at c s = None \<longleftrightarrow> c \<notin> set s"
  by (induction s) (auto split: option.splits)

lemma int_of_show_digits: "list_all is_digit s \<Longrightarrow> s \<noteq> [] \<Longrightarrow> length s \<le> 4300 \<Longrightarrow>
    int_of_text s = Some (int (read_nat s))"
proof -
  assume digits: "list_all is_digit s" "s \<noteq> []" "length s \<le> 4300"
  then have member: "c \<in> set s \<Longrightarrow> is_digit c" for c by (simp add: list_all_iff)
  have space: "\<not> is_space c" if "is_digit c" for c
    using that by (auto simp: is_digit_def is_space_def Let_def)
  have strip: "strip s = s"
  proof -
    have "\<not> is_space (hd s)" "\<not> is_space (hd (rev s))"
      using digits(2) member space by (simp_all add: hd_rev)
    then have "dropWhile is_space s = s" "dropWhile is_space (rev s) = rev s"
      by (simp_all add: dropWhile_eq_self_iff)
    then show ?thesis by (simp add: strip_def)
  qed
  have unsigned: "unsign s = (False, s)"
  proof (cases s)
    case (Cons c cs)
    then have "is_digit c" using member by simp
    then have "c \<noteq> CHR ''-''" "c \<noteq> CHR ''+''" by (auto simp: is_digit_def)
    then show ?thesis by (simp add: unsign_def Cons)
  qed (simp add: unsign_def)
  have no_gap: "c \<noteq> CHR ''_''" if "is_digit c" for c using that by (auto simp: is_digit_def)
  have "split_on CHR ''_'' t = [t]" if "\<And>c. c \<in> set t \<Longrightarrow> is_digit c" for t
    using that no_gap by (induction t) auto
  then have "grouped is_digit s" using digits member by (simp add: grouped_def)
  moreover have "filter is_digit s = s" using member by (simp add: filter_id_conv)
  ultimately show ?thesis using digits strip unsigned by (simp add: int_of_text_def)
qed

text \<open>A flag that Proxmox did not send stays apart from one it sent as zero.\<close>

lemma absent_is_not_zero:
  "as_bool PNone = None" "as_int PNone = Inr None" "as_float py PNone = Inr None"
  "as_bool (PInt 0) = Some False" "as_int (PInt 0) = Inr (Some 0)"
  by simp_all

lemma as_int_crash: "as_int v = Inl () \<longleftrightarrow> (\<exists>positive. v = PFloat (Infinite positive)) \<or> v = PFloat NotANumber"
  by (cases v rule: as_int.cases) (auto split: option.splits elim: truncate.elims)

end
