(* ===== verification/Proxmox.thy ===== *)
theory Proxmox
  imports Upstream_Values Regex Text_Spans Errors
begin

text \<open>
  \<open>tools/adapters/proxmox/errors.py\<close> and \<open>endpoints.py\<close>: how the adapter fails, and the allow-list
  of paths it may ask for.  The lemmas at the end say what a built path looks like.
\<close>

section \<open>Failures\<close>

datatype proxmox_error =
  ProxmoxNotConfiguredError | ProxmoxIdentifierError | ProxmoxInstanceMismatchError
| ProxmoxObjectNotFoundError | ProxmoxAmbiguousObjectError | ProxmoxAuthenticationError
| ProxmoxAuthorizationError | ProxmoxTimeoutError | ProxmoxConnectionError
| ProxmoxHTTPStatusError | ProxmoxProtocolError

fun proxmox_category :: "proxmox_error \<Rightarrow> tool_error_category" where
  "proxmox_category ProxmoxNotConfiguredError = EC_ADAPTER_UNAVAILABLE"
| "proxmox_category ProxmoxIdentifierError = EC_INVALID_TARGET"
| "proxmox_category ProxmoxInstanceMismatchError = EC_INVALID_TARGET"
| "proxmox_category ProxmoxObjectNotFoundError = EC_INVALID_TARGET"
| "proxmox_category ProxmoxAmbiguousObjectError = EC_EXECUTION_FAILED"
| "proxmox_category ProxmoxAuthenticationError = EC_AUTHENTICATION"
| "proxmox_category ProxmoxAuthorizationError = EC_AUTHORIZATION"
| "proxmox_category ProxmoxTimeoutError = EC_TIMEOUT"
| "proxmox_category ProxmoxConnectionError = EC_TARGET_UNAVAILABLE"
| "proxmox_category ProxmoxHTTPStatusError = EC_EXECUTION_FAILED"
| "proxmox_category ProxmoxProtocolError = EC_EXECUTION_FAILED"

fun proxmox_status :: "proxmox_error \<Rightarrow> nat" where
  "proxmox_status ProxmoxNotConfiguredError = 503"
| "proxmox_status ProxmoxIdentifierError = 422"
| "proxmox_status ProxmoxInstanceMismatchError = 422"
| "proxmox_status ProxmoxObjectNotFoundError = 422"
| "proxmox_status ProxmoxTimeoutError = 504"
| "proxmox_status ProxmoxConnectionError = 503"
| "proxmox_status _ = 502"

text \<open>
  What a call of the adapter may raise: one of its own errors, the framework's
  \<open>AdapterUnavailableError\<close>, or an exception of Python's that is no \<open>ToolError\<close>, which the
  dispatcher records as an internal error.
\<close>

datatype adapter_failure = Proxmox proxmox_error | Unavailable | Crash

fun failure_category :: "adapter_failure \<Rightarrow> tool_error_category" where
  "failure_category (Proxmox e) = proxmox_category e"
| "failure_category Unavailable = error_category AdapterUnavailableError"
| "failure_category Crash = EC_INTERNAL_ERROR"

section \<open>The allow-list\<close>

definition API_ROOT :: string where "API_ROOT = ''/api2/json/''"

text \<open>\<open>re.match\<close> with \<open>$\<close>, which also matches before one final newline.\<close>

definition node_char :: "char \<Rightarrow> bool" where
  "node_char c = (is_alnum c \<or> c = CHR ''.'' \<or> c = CHR ''_'' \<or> c = CHR ''-'')"

definition NODE_PATTERN :: "string \<Rightarrow> bool" where
  "NODE_PATTERN s = (case drop_final_newline s of [] \<Rightarrow> False
     | c # cs \<Rightarrow> is_alnum c \<and> list_all node_char cs \<and> length cs \<le> 62)"

definition VMID_PATTERN :: "string \<Rightarrow> bool" where
  "VMID_PATTERN s = (case drop_final_newline s of [] \<Rightarrow> False
     | c # cs \<Rightarrow> is_digit c \<and> c \<noteq> CHR ''0'' \<and> list_all is_digit cs \<and> length cs \<le> 8)"

definition SEGMENT_PATTERNS :: "string \<rightharpoonup> (string \<Rightarrow> bool)" where
  "SEGMENT_PATTERNS = [''node'' \<mapsto> NODE_PATTERN, ''vmid'' \<mapsto> VMID_PATTERN]"

record endpoint_template =
  ep_template :: string
  ep_segments :: "string list"
  ep_query :: "(string \<times> string) list"

text \<open>\<open>urllib.parse.quote(s, safe='')\<close>: UTF-8, and every byte but the unreserved ones as \<open>%XX\<close>.\<close>

definition upper_hex :: "nat \<Rightarrow> char" where
  "upper_hex d = (if d < 10 then char_of (48 + d) else char_of (55 + d))"

definition percent :: "nat \<Rightarrow> string" where
  "percent n = [CHR ''%'', upper_hex (n div 16), upper_hex (n mod 16)]"

definition quote_char :: "char \<Rightarrow> string" where
  "quote_char c = (let n = of_char c :: nat in
     if node_char c \<or> c = CHR ''~'' then [c]
     else if n < 128 then percent n
     else percent (192 + n div 64) @ percent (128 + n mod 64))"

definition url_quote :: "string \<Rightarrow> string" where
  "url_quote s = concat (map quote_char s)"

text \<open>\<open>template.format(**rendered)\<close>: what is put in is not read again.\<close>

function format_template :: "(string \<rightharpoonup> string) \<Rightarrow> string \<Rightarrow> string" where
  "format_template rendered s = (case partition_at CHR ''{'' s of
     None \<Rightarrow> s
   | Some (before, rest) \<Rightarrow> (case partition_at CHR ''}'' rest of
       None \<Rightarrow> s
     | Some (name, after) \<Rightarrow>
         before @ (case rendered name of None \<Rightarrow> [] | Some v \<Rightarrow> v) @ format_template rendered after))"
  by pat_completeness auto
termination
  by (relation "measure (\<lambda>(f, s). length s)") (auto dest!: partition_at_SomeD)

declare format_template.simps [simp del]

text \<open>A value that is absent or empty is missing.\<close>

definition build :: "endpoint_template \<Rightarrow> (string \<rightharpoonup> string) \<Rightarrow>
    proxmox_error + (string \<times> (string \<times> string) list)" where
  "build ep given =
    (let bad = (\<lambda>name. case given name of None \<Rightarrow> True | Some v \<Rightarrow> v = []);
         refused = (\<lambda>name. case (SEGMENT_PATTERNS name, given name) of
           (Some pattern, Some v) \<Rightarrow> \<not> pattern v | _ \<Rightarrow> False) in
     if list_ex bad (ep_segments ep) then Inl ProxmoxProtocolError
     else if list_ex refused (ep_segments ep) then Inl ProxmoxProtocolError
     else Inr (format_template (\<lambda>name. if name \<in> set (ep_segments ep)
              then map_option url_quote (given name) else None) (ep_template ep), ep_query ep))"

definition TOOL_ENDPOINTS :: "(string \<times> endpoint_template) list" where
  "TOOL_ENDPOINTS =
    [(''proxmox.cluster.status'', \<lparr>ep_template = ''/api2/json/cluster/status'',
        ep_segments = [], ep_query = []\<rparr>),
     (''proxmox.node.list'', \<lparr>ep_template = ''/api2/json/nodes'', ep_segments = [], ep_query = []\<rparr>),
     (''proxmox.node.status'', \<lparr>ep_template = ''/api2/json/nodes/{node}/status'',
        ep_segments = [''node''], ep_query = []\<rparr>),
     (''proxmox.node.network'', \<lparr>ep_template = ''/api2/json/nodes/{node}/network'',
        ep_segments = [''node''], ep_query = []\<rparr>),
     (''proxmox.guest.list'', \<lparr>ep_template = ''/api2/json/cluster/resources'',
        ep_segments = [], ep_query = [(''type'', ''vm'')]\<rparr>),
     (''proxmox.vm.status'', \<lparr>ep_template = ''/api2/json/nodes/{node}/qemu/{vmid}/status/current'',
        ep_segments = [''node'', ''vmid''], ep_query = []\<rparr>),
     (''proxmox.vm.config'', \<lparr>ep_template = ''/api2/json/nodes/{node}/qemu/{vmid}/config'',
        ep_segments = [''node'', ''vmid''], ep_query = []\<rparr>),
     (''proxmox.container.status'',
        \<lparr>ep_template = ''/api2/json/nodes/{node}/lxc/{vmid}/status/current'',
        ep_segments = [''node'', ''vmid''], ep_query = []\<rparr>),
     (''proxmox.container.config'', \<lparr>ep_template = ''/api2/json/nodes/{node}/lxc/{vmid}/config'',
        ep_segments = [''node'', ''vmid''], ep_query = []\<rparr>),
     (''proxmox.storage.list'', \<lparr>ep_template = ''/api2/json/nodes/{node}/storage'',
        ep_segments = [''node''], ep_query = []\<rparr>)]"

definition GUEST_INVENTORY :: string where "GUEST_INVENTORY = ''proxmox.guest.list''"
definition NODE_INVENTORY :: string where "NODE_INVENTORY = ''proxmox.node.list''"

text \<open>The assertion made at import.\<close>

definition placeholders :: "string \<Rightarrow> string list" where
  "placeholders s = map (\<lambda>(i, j). slice s (i + 1) (j - 1))
     (finditer (Seq (lit ''{'') (Seq (Many is_word 1 None) (lit ''}''))) s)"

definition template_is_sane :: "endpoint_template \<Rightarrow> bool" where
  "template_is_sane ep \<longleftrightarrow> starts_with API_ROOT (ep_template ep) \<and> \<not> contains (ep_template ep) ''..'' \<and>
     set (placeholders (ep_template ep)) = set (ep_segments ep) \<and>
     set (placeholders (ep_template ep)) \<subseteq> {''node'', ''vmid''}"

lemma templates_are_sane: "list_all (\<lambda>(name, ep). template_is_sane ep) TOOL_ENDPOINTS"
  by code_simp

section \<open>What a path looks like\<close>

text \<open>
  The paths the integration can produce, written without templates: between the fixed parts
  stand a host name and a number that needs no escape.
\<close>

definition node_name :: "string \<Rightarrow> bool" where
  "node_name s \<longleftrightarrow> s \<noteq> [] \<and> is_alnum (hd s) \<and> list_all node_char s \<and> length s \<le> 63"

definition vmid_name :: "string \<Rightarrow> bool" where
  "vmid_name s \<longleftrightarrow> s \<noteq> [] \<and> hd s \<noteq> CHR ''0'' \<and> list_all is_digit s \<and> length s \<le> 9"

fun allowed_path :: "string \<Rightarrow> string \<Rightarrow> string \<Rightarrow> string option" where
  "allowed_path tool node vmid =
    (if tool = ''proxmox.cluster.status'' then Some ''/api2/json/cluster/status''
     else if tool = ''proxmox.node.list'' then Some ''/api2/json/nodes''
     else if tool = ''proxmox.node.status'' then Some (''/api2/json/nodes/'' @ node @ ''/status'')
     else if tool = ''proxmox.node.network'' then Some (''/api2/json/nodes/'' @ node @ ''/network'')
     else if tool = ''proxmox.guest.list'' then Some ''/api2/json/cluster/resources''
     else if tool = ''proxmox.vm.status''
       then Some (''/api2/json/nodes/'' @ node @ ''/qemu/'' @ vmid @ ''/status/current'')
     else if tool = ''proxmox.vm.config''
       then Some (''/api2/json/nodes/'' @ node @ ''/qemu/'' @ vmid @ ''/config'')
     else if tool = ''proxmox.container.status''
       then Some (''/api2/json/nodes/'' @ node @ ''/lxc/'' @ vmid @ ''/status/current'')
     else if tool = ''proxmox.container.config''
       then Some (''/api2/json/nodes/'' @ node @ ''/lxc/'' @ vmid @ ''/config'')
     else if tool = ''proxmox.storage.list'' then Some (''/api2/json/nodes/'' @ node @ ''/storage'')
     else None)"

declare allowed_path.simps [simp del]

lemma quoted_plain: "list_all node_char s \<Longrightarrow> url_quote s = s"
  by (induction s) (simp_all add: url_quote_def quote_char_def)

lemma digit_is_node_char: "is_digit c \<Longrightarrow> node_char c"
  by (simp add: node_char_def is_alnum_def)

lemma no_newline_char: "is_alnum c \<Longrightarrow> c \<noteq> CHR 0x0A" "node_char c \<Longrightarrow> c \<noteq> CHR 0x0A"
  by (auto simp: node_char_def is_alnum_def is_digit_def is_upper_letter_def is_lower_letter_def)

lemma NODE_PATTERN_stripped:
  "drop_final_newline s = s \<Longrightarrow> NODE_PATTERN s \<longleftrightarrow> node_name s"
  by (cases s) (auto simp: NODE_PATTERN_def node_name_def node_char_def)

lemma VMID_PATTERN_stripped:
  "drop_final_newline s = s \<Longrightarrow> VMID_PATTERN s \<longleftrightarrow> vmid_name s"
  by (cases s) (auto simp: VMID_PATTERN_def vmid_name_def)

lemma quoted_node: "node_name s \<Longrightarrow> url_quote s = s"
  by (simp add: node_name_def quoted_plain)

lemma quoted_vmid: "vmid_name s \<Longrightarrow> url_quote s = s"
  unfolding vmid_name_def by (rule quoted_plain) (auto simp: list_all_iff digit_is_node_char)

lemma format_plain [simp]: "CHR ''{'' \<notin> set s \<Longrightarrow> format_template f s = s"
  by (subst format_template.simps) (simp add: partition_at_None [THEN iffD2])

lemma format_hole [simp]:
  "partition_at CHR ''{'' s = Some (before, rest) \<Longrightarrow> partition_at CHR ''}'' rest = Some (name, after) \<Longrightarrow>
   format_template f s = before @ (case f name of None \<Rightarrow> [] | Some v \<Rightarrow> v) @ format_template f after"
  by (subst format_template.simps) simp

lemma format_templates:
  "format_template f ''/api2/json/nodes/{node}/status'' =
     ''/api2/json/nodes/'' @ (case f ''node'' of None \<Rightarrow> [] | Some v \<Rightarrow> v) @ ''/status''"
  "format_template f ''/api2/json/nodes/{node}/network'' =
     ''/api2/json/nodes/'' @ (case f ''node'' of None \<Rightarrow> [] | Some v \<Rightarrow> v) @ ''/network''"
  "format_template f ''/api2/json/nodes/{node}/storage'' =
     ''/api2/json/nodes/'' @ (case f ''node'' of None \<Rightarrow> [] | Some v \<Rightarrow> v) @ ''/storage''"
  "format_template f ''/api2/json/nodes/{node}/qemu/{vmid}/status/current'' =
     ''/api2/json/nodes/'' @ (case f ''node'' of None \<Rightarrow> [] | Some v \<Rightarrow> v) @ ''/qemu/'' @
     (case f ''vmid'' of None \<Rightarrow> [] | Some v \<Rightarrow> v) @ ''/status/current''"
  "format_template f ''/api2/json/nodes/{node}/qemu/{vmid}/config'' =
     ''/api2/json/nodes/'' @ (case f ''node'' of None \<Rightarrow> [] | Some v \<Rightarrow> v) @ ''/qemu/'' @
     (case f ''vmid'' of None \<Rightarrow> [] | Some v \<Rightarrow> v) @ ''/config''"
  "format_template f ''/api2/json/nodes/{node}/lxc/{vmid}/status/current'' =
     ''/api2/json/nodes/'' @ (case f ''node'' of None \<Rightarrow> [] | Some v \<Rightarrow> v) @ ''/lxc/'' @
     (case f ''vmid'' of None \<Rightarrow> [] | Some v \<Rightarrow> v) @ ''/status/current''"
  "format_template f ''/api2/json/nodes/{node}/lxc/{vmid}/config'' =
     ''/api2/json/nodes/'' @ (case f ''node'' of None \<Rightarrow> [] | Some v \<Rightarrow> v) @ ''/lxc/'' @
     (case f ''vmid'' of None \<Rightarrow> [] | Some v \<Rightarrow> v) @ ''/config''"
  by simp_all

lemma TOOL_ENDPOINTS_SomeD:
  "map_of TOOL_ENDPOINTS tool = Some ep \<Longrightarrow>
   tool \<in> {''proxmox.cluster.status'', ''proxmox.node.list'', ''proxmox.node.status'',
     ''proxmox.node.network'', ''proxmox.guest.list'', ''proxmox.vm.status'', ''proxmox.vm.config'',
     ''proxmox.container.status'', ''proxmox.container.config'', ''proxmox.storage.list''}"
  by (drule map_of_SomeD) (auto simp: TOOL_ENDPOINTS_def)

text \<open>
  A path that is built is on the list, and the segments in it are the ones that were given,
  as they were given.
\<close>

lemma build_allowed:
  assumes entry: "map_of TOOL_ENDPOINTS tool = Some ep" and built: "build ep given = Inr (path, query)"
    and stripped: "\<And>k v. given k = Some v \<Longrightarrow> drop_final_newline v = v"
  obtains node vmid where "allowed_path tool node vmid = Some path" "node_name node" "vmid_name vmid"
    "''node'' \<in> set (ep_segments ep) \<Longrightarrow> given ''node'' = Some node"
    "''vmid'' \<in> set (ep_segments ep) \<Longrightarrow> given ''vmid'' = Some vmid" "query = ep_query ep"
proof -
  define node where "node = (case given ''node'' of
      Some v \<Rightarrow> if ''node'' \<in> set (ep_segments ep) then v else ''a'' | None \<Rightarrow> ''a'')"
  define vmid where "vmid = (case given ''vmid'' of
      Some v \<Rightarrow> if ''vmid'' \<in> set (ep_segments ep) then v else ''1'' | None \<Rightarrow> ''1'')"
  from built have present: "given name \<noteq> None" if "name \<in> set (ep_segments ep)" for name
    using that by (force simp: build_def Let_def list_ex_iff split: if_splits option.splits)
  from built have ok: "pattern v"
    if "name \<in> set (ep_segments ep)" "SEGMENT_PATTERNS name = Some pattern" "given name = Some v"
    for name pattern v
    using that by (force simp: build_def Let_def list_ex_iff split: if_splits option.splits)
  have patterns: "SEGMENT_PATTERNS ''node'' = Some NODE_PATTERN" "SEGMENT_PATTERNS ''vmid'' = Some VMID_PATTERN"
    by (simp_all add: SEGMENT_PATTERNS_def)
  have plain: "node_name ''a''" "vmid_name ''1''" by code_simp+
  have names: "node_name node" "vmid_name vmid"
    using plain ok [OF _ patterns(1)] ok [OF _ patterns(2)] stripped
    by (auto simp: node_def vmid_def split: option.splits simp flip: NODE_PATTERN_stripped VMID_PATTERN_stripped)
  have given: "''node'' \<in> set (ep_segments ep) \<Longrightarrow> given ''node'' = Some node"
    "''vmid'' \<in> set (ep_segments ep) \<Longrightarrow> given ''vmid'' = Some vmid"
    using present [of "''node''"] present [of "''vmid''"] by (auto simp: node_def vmid_def)
  from built have path: "query = ep_query ep" "path = format_template (\<lambda>name. if name \<in> set (ep_segments ep)
      then map_option url_quote (given name) else None) (ep_template ep)"
    by (auto simp: build_def Let_def split: if_splits)
  from TOOL_ENDPOINTS_SomeD [OF entry] have "allowed_path tool node vmid = Some path"
    unfolding path(2) using entry names given
    by (elim insertE emptyE)
      (simp_all add: TOOL_ENDPOINTS_def format_templates allowed_path.simps quoted_node quoted_vmid
        flip: append_assoc, auto simp: format_templates quoted_node quoted_vmid)
  then show ?thesis using names given path(1) by (rule that)
qed

end
