(* ===== verification/Proxmox_Projection.thy ===== *)
theory Proxmox_Projection
  imports Proxmox
begin

text \<open>
  \<open>tools/adapters/proxmox/projection.py\<close>, one function per tool, and the output models of
  \<open>tools/catalog/proxmox_schemas.py\<close> as types.  The lemmas show that whatever the upstream sends, what
  a projection returns is a value of the model its tool declares.
\<close>

section \<open>The declared output models\<close>

text \<open>
  \<open>OOpt t\<close> is \<open>t | None = None\<close>, a field that may be left out; every other field is required.
  \<open>extra="forbid"\<close>: no field outside the model is accepted.
\<close>

datatype out_type =
  OStr | OInt | OFloat | OBool | OTime | OOpt out_type | OList out_type
| OModel "(string \<times> out_type) list"

definition optional :: "out_type \<Rightarrow> bool" where
  "optional t = (case t of OOpt u \<Rightarrow> True | _ \<Rightarrow> False)"

fun conforms :: "out_type \<Rightarrow> pyval \<Rightarrow> bool" where
  "conforms OStr v = (case v of PStr s \<Rightarrow> True | _ \<Rightarrow> False)"
| "conforms OInt v = (case v of PInt i \<Rightarrow> True | _ \<Rightarrow> False)"
| "conforms OFloat v = (case v of PFloat f \<Rightarrow> True | _ \<Rightarrow> False)"
| "conforms OBool v = (case v of PBool b \<Rightarrow> True | _ \<Rightarrow> False)"
| "conforms OTime v = (case v of PTime s \<Rightarrow> True | _ \<Rightarrow> False)"
| "conforms (OOpt t) v = (v = PNone \<or> conforms t v)"
| "conforms (OList t) v = (case v of PList vs \<Rightarrow> list_all (conforms t) vs | _ \<Rightarrow> False)"
| "conforms (OModel schema) v = (case v of
     PDict d \<Rightarrow> list_all (\<lambda>(k, w). k \<in> fst ` set schema) d \<and>
       list_all (\<lambda>(k, t). case map_of d k of None \<Rightarrow> optional t | Some w \<Rightarrow> conforms t w) schema
   | _ \<Rightarrow> False)"

definition proxmox_out :: "(string \<times> out_type) list \<Rightarrow> out_type" where
  "proxmox_out schema = OModel ([(''instance_id'', OStr), (''observed_at'', OTime)] @ schema)"

definition cluster_member_out :: out_type where
  "cluster_member_out = OModel [
    (''id'', OStr), (''type'', OStr), (''name'', OOpt OStr), (''node'', OOpt OStr),
    (''ip'', OOpt OStr), (''node_id'', OOpt OInt), (''online'', OOpt OBool),
    (''local'', OOpt OBool), (''quorate'', OOpt OBool), (''member_count'', OOpt OInt)]"

definition cluster_status_out :: out_type where
  "cluster_status_out = proxmox_out [
    (''standalone'', OBool), (''cluster_name'', OOpt OStr), (''quorate'', OOpt OBool),
    (''members'', OList cluster_member_out)]"

definition node_summary_out :: out_type where
  "node_summary_out = OModel [
    (''node'', OStr), (''status'', OOpt OStr), (''type'', OOpt OStr),
    (''uptime_seconds'', OOpt OInt), (''cpu_usage'', OOpt OFloat), (''cpu_count'', OOpt OInt),
    (''memory_used_bytes'', OOpt OInt), (''memory_total_bytes'', OOpt OInt),
    (''disk_used_bytes'', OOpt OInt), (''disk_total_bytes'', OOpt OInt),
    (''ssl_fingerprint'', OOpt OStr)]"

definition node_list_out :: out_type where
  "node_list_out = proxmox_out [
    (''nodes'', OList node_summary_out)]"

definition node_status_out :: out_type where
  "node_status_out = proxmox_out [
    (''node'', OStr), (''uptime_seconds'', OOpt OInt), (''cpu_usage'', OOpt OFloat),
    (''cpu_count'', OOpt OInt), (''cpu_sockets'', OOpt OInt), (''cpu_model'', OOpt OStr),
    (''load_average'', OOpt (OList OFloat)), (''memory_total_bytes'', OOpt OInt),
    (''memory_used_bytes'', OOpt OInt), (''memory_free_bytes'', OOpt OInt),
    (''swap_total_bytes'', OOpt OInt), (''swap_used_bytes'', OOpt OInt),
    (''rootfs_total_bytes'', OOpt OInt), (''rootfs_used_bytes'', OOpt OInt),
    (''rootfs_available_bytes'', OOpt OInt), (''pve_version'', OOpt OStr),
    (''kernel_version'', OOpt OStr)]"

definition network_interface_out :: out_type where
  "network_interface_out = OModel [
    (''iface'', OStr), (''type'', OOpt OStr), (''method'', OOpt OStr), (''active'', OOpt OBool),
    (''autostart'', OOpt OBool), (''address'', OOpt OStr), (''netmask'', OOpt OStr),
    (''cidr'', OOpt OStr), (''gateway'', OOpt OStr), (''bridge_ports'', OOpt OStr)]"

definition node_network_out :: out_type where
  "node_network_out = proxmox_out [
    (''node'', OStr), (''interfaces'', OList network_interface_out)]"

definition guest_summary_out :: out_type where
  "guest_summary_out = OModel [
    (''vmid'', OInt), (''guest_type'', OStr), (''node'', OStr), (''name'', OOpt OStr),
    (''status'', OOpt OStr), (''uptime_seconds'', OOpt OInt), (''template'', OOpt OBool),
    (''cpu_usage'', OOpt OFloat), (''cpu_count'', OOpt OInt), (''memory_used_bytes'', OOpt OInt),
    (''memory_total_bytes'', OOpt OInt), (''disk_used_bytes'', OOpt OInt),
    (''disk_total_bytes'', OOpt OInt), (''pool'', OOpt OStr), (''tags'', OOpt OStr)]"

definition guest_list_out :: out_type where
  "guest_list_out = proxmox_out [
    (''guests'', OList guest_summary_out)]"

definition vm_status_out :: out_type where
  "vm_status_out = proxmox_out [
    (''node'', OStr), (''vmid'', OInt), (''name'', OOpt OStr), (''status'', OOpt OStr),
    (''qmp_status'', OOpt OStr), (''uptime_seconds'', OOpt OInt), (''cpu_usage'', OOpt OFloat),
    (''cpu_count'', OOpt OInt), (''memory_used_bytes'', OOpt OInt),
    (''memory_total_bytes'', OOpt OInt), (''disk_total_bytes'', OOpt OInt),
    (''running_machine'', OOpt OStr), (''running_qemu'', OOpt OStr),
    (''agent_enabled'', OOpt OBool), (''template'', OOpt OBool), (''tags'', OOpt OStr)]"

definition vm_config_out :: out_type where
  "vm_config_out = proxmox_out [
    (''node'', OStr), (''vmid'', OInt), (''name'', OOpt OStr), (''config_digest'', OOpt OStr),
    (''smbios_uuid'', OOpt OStr), (''vmgenid'', OOpt OStr),
    (''creation_qemu_version'', OOpt OStr), (''created_at'', OOpt OTime),
    (''machine'', OOpt OStr), (''bios'', OOpt OStr), (''os_type'', OOpt OStr),
    (''cpu_type'', OOpt OStr), (''cores'', OOpt OInt), (''sockets'', OOpt OInt),
    (''memory_mb'', OOpt OInt), (''boot_order'', OOpt OStr), (''agent'', OOpt OStr),
    (''protection'', OOpt OBool), (''template'', OOpt OBool), (''tags'', OOpt OStr)]"

definition container_status_out :: out_type where
  "container_status_out = proxmox_out [
    (''node'', OStr), (''vmid'', OInt), (''name'', OOpt OStr), (''status'', OOpt OStr),
    (''uptime_seconds'', OOpt OInt), (''cpu_usage'', OOpt OFloat), (''cpu_count'', OOpt OInt),
    (''memory_used_bytes'', OOpt OInt), (''memory_total_bytes'', OOpt OInt),
    (''swap_used_bytes'', OOpt OInt), (''swap_total_bytes'', OOpt OInt),
    (''disk_used_bytes'', OOpt OInt), (''disk_total_bytes'', OOpt OInt),
    (''template'', OOpt OBool), (''tags'', OOpt OStr)]"

definition container_config_out :: out_type where
  "container_config_out = proxmox_out [
    (''node'', OStr), (''vmid'', OInt), (''hostname'', OOpt OStr),
    (''config_digest'', OOpt OStr), (''os_type'', OOpt OStr), (''architecture'', OOpt OStr),
    (''cores'', OOpt OInt), (''memory_mb'', OOpt OInt), (''swap_mb'', OOpt OInt),
    (''unprivileged'', OOpt OBool), (''protection'', OOpt OBool),
    (''start_on_boot'', OOpt OBool), (''tags'', OOpt OStr)]"

definition storage_summary_out :: out_type where
  "storage_summary_out = OModel [
    (''node'', OStr), (''storage'', OStr), (''storage_type'', OOpt OStr),
    (''content'', OOpt OStr), (''active'', OOpt OBool), (''enabled'', OOpt OBool),
    (''shared'', OOpt OBool), (''total_bytes'', OOpt OInt), (''used_bytes'', OOpt OInt),
    (''available_bytes'', OOpt OInt), (''used_fraction'', OOpt OFloat)]"

definition storage_list_out :: out_type where
  "storage_list_out = proxmox_out [
    (''nodes_queried'', OList OStr), (''storages'', OList storage_summary_out)]"

section \<open>Reading a response\<close>

text \<open>A coercion that raises, raises out of the projection.\<close>

definition str_out :: "python \<Rightarrow> pyval \<Rightarrow> adapter_failure + pyval" where
  "str_out py v = Inr (case as_str py v of None \<Rightarrow> PNone | Some s \<Rightarrow> PStr s)"

definition int_out :: "pyval \<Rightarrow> adapter_failure + pyval" where
  "int_out v = (case as_int v of Inl u \<Rightarrow> Inl Crash
     | Inr n \<Rightarrow> Inr (case n of None \<Rightarrow> PNone | Some i \<Rightarrow> PInt i))"

definition float_out :: "python \<Rightarrow> pyval \<Rightarrow> adapter_failure + pyval" where
  "float_out py v = (case as_float py v of Inl u \<Rightarrow> Inl Crash
     | Inr n \<Rightarrow> Inr (case n of None \<Rightarrow> PNone | Some f \<Rightarrow> PFloat f))"

definition bool_out :: "pyval \<Rightarrow> adapter_failure + pyval" where
  "bool_out v = Inr (case as_bool v of None \<Rightarrow> PNone | Some b \<Rightarrow> PBool b)"

definition known :: "string \<Rightarrow> adapter_failure + pyval" where
  "known s = Inr (PStr s)"

definition maybe :: "string option \<Rightarrow> adapter_failure + pyval" where
  "maybe v = Inr (case v of None \<Rightarrow> PNone | Some s \<Rightarrow> PStr s)"

text \<open>The members of a dictionary display are computed in order.\<close>

fun record_of :: "(string \<times> (adapter_failure + pyval)) list \<Rightarrow> adapter_failure + pydict" where
  "record_of [] = Inr []"
| "record_of ((k, m) # rest) = andThen m (\<lambda>v. andThen (record_of rest) (\<lambda>d. Inr ((k, v) # d)))"

fun each :: "('a \<Rightarrow> adapter_failure + pyval) \<Rightarrow> 'a list \<Rightarrow> adapter_failure + pyval list" where
  "each f [] = Inr []"
| "each f (x # xs) = andThen (f x) (\<lambda>v. andThen (each f xs) (\<lambda>vs. Inr (v # vs)))"

definition dict :: "adapter_failure + pydict \<Rightarrow> adapter_failure + pyval" where
  "dict m = andThen m (\<lambda>d. Inr (PDict d))"

definition listing :: "adapter_failure + pyval list \<Rightarrow> adapter_failure + pyval" where
  "listing m = andThen m (\<lambda>vs. Inr (PList vs))"

fun a_record :: "pyval \<Rightarrow> adapter_failure + pydict" where
  "a_record (PDict d) = Inr d"
| "a_record v = Inl (Proxmox ProxmoxProtocolError)"

definition nested :: "pydict \<Rightarrow> string \<Rightarrow> pydict" where
  "nested record k = (case pget record k of PDict d \<Rightarrow> d | _ \<Rightarrow> [])"

fun all_records :: "pyval list \<Rightarrow> adapter_failure + pydict list" where
  "all_records [] = Inr []"
| "all_records (v # vs) = andThen (a_record v) (\<lambda>d. andThen (all_records vs) (\<lambda>ds. Inr (d # ds)))"

fun entries :: "pyval \<Rightarrow> adapter_failure + pydict list" where
  "entries (PList vs) = all_records vs"
| "entries v = Inl (Proxmox ProxmoxProtocolError)"

text \<open>A field the response must carry.\<close>

definition needed :: "'a option \<Rightarrow> ('a \<Rightarrow> adapter_failure + 'b) \<Rightarrow> adapter_failure + 'b" where
  "needed v f = (case v of None \<Rightarrow> Inl (Proxmox ProxmoxProtocolError) | Some x \<Rightarrow> f x)"

section \<open>The cluster and its nodes\<close>

definition member_type :: "python \<Rightarrow> pydict \<Rightarrow> string" where
  "member_type py e = (case as_str py (pget e ''type'') of None \<Rightarrow> ''unknown'' | Some s \<Rightarrow> s)"

definition cluster_member :: "python \<Rightarrow> pydict \<Rightarrow> adapter_failure + pyval" where
  "cluster_member py e = dict (record_of [

       (''id'', known (case as_str py (pget e ''id'') of None \<Rightarrow> member_type py e @ ''/unknown'' | Some s \<Rightarrow> s)),
       (''type'', known (member_type py e)), (''name'', str_out py (pget e ''name'')),
       (''node'', if member_type py e = ''node'' then str_out py (pget e ''name'') else Inr PNone),
       (''ip'', str_out py (pget e ''ip'')), (''node_id'', int_out (pget e ''nodeid'')),
       (''online'', bool_out (pget e ''online'')), (''local'', bool_out (pget e ''local'')),
       (''quorate'', bool_out (pget e ''quorate'')),
       (''member_count'', int_out (pget e ''nodes''))])"

text \<open>The cluster's own entry, when there is one, gives the name and the quorum; the last one counts.\<close>

definition cluster_status :: "python \<Rightarrow> int \<Rightarrow> string \<Rightarrow> pyval \<Rightarrow> adapter_failure + pyval" where
  "cluster_status py now instance data = andThen (entries data) (\<lambda>es.
     andThen (each (cluster_member py) es) (\<lambda>members.
     let cluster = find (\<lambda>e. member_type py e = ''cluster'') (rev es) in
     dict (record_of [
       (''instance_id'', known instance), (''observed_at'', Inr (PTime now)),
       (''standalone'', Inr (PBool (cluster = None))),
       (''cluster_name'', case cluster of None \<Rightarrow> Inr PNone | Some e \<Rightarrow> str_out py (pget e ''name'')),
       (''quorate'', case cluster of None \<Rightarrow> Inr PNone | Some e \<Rightarrow> bool_out (pget e ''quorate'')),
       (''members'', Inr (PList members))])))"

definition node_summary :: "python \<Rightarrow> pydict \<Rightarrow> adapter_failure + pyval" where
  "node_summary py e = needed (as_str py (pget e ''node'')) (\<lambda>name. dict (record_of [
       (''node'', known name), (''status'', str_out py (pget e ''status'')),
       (''type'', str_out py (pget e ''type'')),
       (''uptime_seconds'', int_out (pget e ''uptime'')),
       (''cpu_usage'', float_out py (pget e ''cpu'')),
       (''cpu_count'', int_out (pget e ''maxcpu'')),
       (''memory_used_bytes'', int_out (pget e ''mem'')),
       (''memory_total_bytes'', int_out (pget e ''maxmem'')),
       (''disk_used_bytes'', int_out (pget e ''disk'')),
       (''disk_total_bytes'', int_out (pget e ''maxdisk'')),
       (''ssl_fingerprint'', str_out py (value_or (pget e ''ssl_fingerprint'') (pget e ''fingerprint'')))]))"

definition node_list :: "python \<Rightarrow> int \<Rightarrow> string \<Rightarrow> pyval \<Rightarrow> adapter_failure + pyval" where
  "node_list py now instance data = andThen (entries data) (\<lambda>es.
     dict (record_of [
       (''instance_id'', known instance), (''observed_at'', Inr (PTime now)),
       (''nodes'', listing (each (node_summary py) es))]))"

definition load_average :: "python \<Rightarrow> pyval \<Rightarrow> adapter_failure + pyval" where
  "load_average py v = (case v of
     PList items \<Rightarrow> andThen (each (float_out py) items) (\<lambda>parsed.
       let load = filter (\<lambda>item. item \<noteq> PNone) parsed in
       Inr (if load = [] then PNone else PList load))
   | _ \<Rightarrow> Inr PNone)"

definition node_status :: "python \<Rightarrow> int \<Rightarrow> string \<Rightarrow> string \<Rightarrow> pyval \<Rightarrow> adapter_failure + pyval" where
  "node_status py now instance node data = andThen (a_record data) (\<lambda>r.
     let cpuinfo = nested r ''cpuinfo''; memory = nested r ''memory''; swap = nested r ''swap'';
         rootfs = nested r ''rootfs'' in
     andThen (load_average py (pget r ''loadavg'')) (\<lambda>load. dict (record_of [
       (''instance_id'', known instance), (''observed_at'', Inr (PTime now)),
       (''node'', known node), (''uptime_seconds'', int_out (pget r ''uptime'')),
       (''cpu_usage'', float_out py (pget r ''cpu'')),
       (''cpu_count'', int_out (pget cpuinfo ''cpus'')),
       (''cpu_sockets'', int_out (pget cpuinfo ''sockets'')),
       (''cpu_model'', str_out py (pget cpuinfo ''model'')), (''load_average'', Inr load),
       (''memory_total_bytes'', int_out (pget memory ''total'')),
       (''memory_used_bytes'', int_out (pget memory ''used'')),
       (''memory_free_bytes'', int_out (pget memory ''free'')),
       (''swap_total_bytes'', int_out (pget swap ''total'')),
       (''swap_used_bytes'', int_out (pget swap ''used'')),
       (''rootfs_total_bytes'', int_out (pget rootfs ''total'')),
       (''rootfs_used_bytes'', int_out (pget rootfs ''used'')),
       (''rootfs_available_bytes'', int_out (pget rootfs ''avail'')),
       (''pve_version'', str_out py (pget r ''pveversion'')),
       (''kernel_version'', str_out py (value_or (pget r ''current-kernel'') (pget r ''kversion'')))])))"

definition network_interface :: "python \<Rightarrow> pydict \<Rightarrow> adapter_failure + pyval" where
  "network_interface py e = needed (as_str py (pget e ''iface'')) (\<lambda>iface. dict (record_of [
       (''iface'', known iface), (''type'', str_out py (pget e ''type'')),
       (''method'', str_out py (pget e ''method'')), (''active'', bool_out (pget e ''active'')),
       (''autostart'', bool_out (pget e ''autostart'')),
       (''address'', str_out py (pget e ''address'')),
       (''netmask'', str_out py (pget e ''netmask'')), (''cidr'', str_out py (pget e ''cidr'')),
       (''gateway'', str_out py (pget e ''gateway'')),
       (''bridge_ports'', str_out py (pget e ''bridge_ports''))]))"

definition node_network :: "python \<Rightarrow> int \<Rightarrow> string \<Rightarrow> string \<Rightarrow> pyval \<Rightarrow> adapter_failure + pyval" where
  "node_network py now instance node data = andThen (entries data) (\<lambda>es.
     dict (record_of [
       (''instance_id'', known instance), (''observed_at'', Inr (PTime now)),
       (''node'', known node), (''interfaces'', listing (each (network_interface py) es))]))"

section \<open>Guests\<close>

definition guest_summary :: "python \<Rightarrow> pydict \<Rightarrow> adapter_failure + pyval" where
  "guest_summary py e = (case as_int (pget e ''vmid'') of Inl u \<Rightarrow> Inl Crash | Inr vmid \<Rightarrow>
     needed vmid (\<lambda>vmid. needed (as_str py (pget e ''type'')) (\<lambda>guest_type.
     needed (as_str py (pget e ''node'')) (\<lambda>node. dict (record_of [
       (''vmid'', Inr (PInt vmid)), (''guest_type'', known guest_type), (''node'', known node),
       (''name'', str_out py (pget e ''name'')), (''status'', str_out py (pget e ''status'')),
       (''uptime_seconds'', int_out (pget e ''uptime'')),
       (''template'', bool_out (pget e ''template'')),
       (''cpu_usage'', float_out py (pget e ''cpu'')),
       (''cpu_count'', int_out (pget e ''maxcpu'')),
       (''memory_used_bytes'', int_out (pget e ''mem'')),
       (''memory_total_bytes'', int_out (pget e ''maxmem'')),
       (''disk_used_bytes'', int_out (pget e ''disk'')),
       (''disk_total_bytes'', int_out (pget e ''maxdisk'')),
       (''pool'', str_out py (pget e ''pool'')), (''tags'', str_out py (pget e ''tags''))])))))"

definition guest_list :: "python \<Rightarrow> int \<Rightarrow> string \<Rightarrow> pyval \<Rightarrow> adapter_failure + pyval" where
  "guest_list py now instance data = andThen (entries data) (\<lambda>es.
     dict (record_of [
       (''instance_id'', known instance), (''observed_at'', Inr (PTime now)),
       (''guests'', listing (each (guest_summary py) es))]))"

definition vm_status ::
  "python \<Rightarrow> int \<Rightarrow> string \<Rightarrow> string \<Rightarrow> int \<Rightarrow> pyval \<Rightarrow> adapter_failure + pyval" where
  "vm_status py now instance node vmid data = andThen (a_record data) (\<lambda>r. dict (record_of [
       (''instance_id'', known instance), (''observed_at'', Inr (PTime now)),
       (''node'', known node), (''vmid'', Inr (PInt vmid)),
       (''name'', str_out py (pget r ''name'')), (''status'', str_out py (pget r ''status'')),
       (''qmp_status'', str_out py (pget r ''qmpstatus'')),
       (''uptime_seconds'', int_out (pget r ''uptime'')),
       (''cpu_usage'', float_out py (pget r ''cpu'')),
       (''cpu_count'', int_out (pget r ''cpus'')),
       (''memory_used_bytes'', int_out (pget r ''mem'')),
       (''memory_total_bytes'', int_out (pget r ''maxmem'')),
       (''disk_total_bytes'', int_out (pget r ''maxdisk'')),
       (''running_machine'', str_out py (pget r ''running-machine'')),
       (''running_qemu'', str_out py (pget r ''running-qemu'')),
       (''agent_enabled'', bool_out (pget r ''agent'')),
       (''template'', bool_out (pget r ''template'')), (''tags'', str_out py (pget r ''tags''))]))"

definition vm_config ::
  "python \<Rightarrow> int \<Rightarrow> string \<Rightarrow> string \<Rightarrow> int \<Rightarrow> pyval \<Rightarrow> adapter_failure + pyval" where
  "vm_config py now instance node vmid data = andThen (a_record data) (\<lambda>r.
     let smbios = map_of (key_values py (pget r ''smbios1''));
         meta = map_of (key_values py (pget r ''meta'')) in dict (record_of [
       (''instance_id'', known instance), (''observed_at'', Inr (PTime now)),
       (''node'', known node), (''vmid'', Inr (PInt vmid)),
       (''name'', str_out py (pget r ''name'')),
       (''config_digest'', str_out py (pget r ''digest'')),
       (''smbios_uuid'', maybe (uuid_or_none (smbios ''uuid''))),
       (''vmgenid'', str_out py (pget r ''vmgenid'')),
       (''creation_qemu_version'', maybe (if meta ''creation-qemu'' = Some [] then None else meta ''creation-qemu'')),
       (''created_at'', Inr (case epoch_or_none (meta ''ctime'') of None \<Rightarrow> PNone | Some s \<Rightarrow> PTime s)),
       (''machine'', str_out py (pget r ''machine'')), (''bios'', str_out py (pget r ''bios'')),
       (''os_type'', str_out py (pget r ''ostype'')),
       (''cpu_type'', str_out py (pget r ''cpu'')), (''cores'', int_out (pget r ''cores'')),
       (''sockets'', int_out (pget r ''sockets'')), (''memory_mb'', int_out (pget r ''memory'')),
       (''boot_order'', str_out py (pget r ''boot'')),
       (''agent'', str_out py (pget r ''agent'')),
       (''protection'', bool_out (pget r ''protection'')),
       (''template'', bool_out (pget r ''template'')), (''tags'', str_out py (pget r ''tags''))]))"

definition container_status ::
  "python \<Rightarrow> int \<Rightarrow> string \<Rightarrow> string \<Rightarrow> int \<Rightarrow> pyval \<Rightarrow> adapter_failure + pyval" where
  "container_status py now instance node vmid data = andThen (a_record data) (\<lambda>r. dict (record_of [
       (''instance_id'', known instance), (''observed_at'', Inr (PTime now)),
       (''node'', known node), (''vmid'', Inr (PInt vmid)),
       (''name'', str_out py (pget r ''name'')), (''status'', str_out py (pget r ''status'')),
       (''uptime_seconds'', int_out (pget r ''uptime'')),
       (''cpu_usage'', float_out py (pget r ''cpu'')),
       (''cpu_count'', int_out (pget r ''cpus'')),
       (''memory_used_bytes'', int_out (pget r ''mem'')),
       (''memory_total_bytes'', int_out (pget r ''maxmem'')),
       (''swap_used_bytes'', int_out (pget r ''swap'')),
       (''swap_total_bytes'', int_out (pget r ''maxswap'')),
       (''disk_used_bytes'', int_out (pget r ''disk'')),
       (''disk_total_bytes'', int_out (pget r ''maxdisk'')),
       (''template'', bool_out (pget r ''template'')), (''tags'', str_out py (pget r ''tags''))]))"

definition container_config ::
  "python \<Rightarrow> int \<Rightarrow> string \<Rightarrow> string \<Rightarrow> int \<Rightarrow> pyval \<Rightarrow> adapter_failure + pyval" where
  "container_config py now instance node vmid data = andThen (a_record data) (\<lambda>r. dict (record_of [
       (''instance_id'', known instance), (''observed_at'', Inr (PTime now)),
       (''node'', known node), (''vmid'', Inr (PInt vmid)),
       (''hostname'', str_out py (pget r ''hostname'')),
       (''config_digest'', str_out py (pget r ''digest'')),
       (''os_type'', str_out py (pget r ''ostype'')),
       (''architecture'', str_out py (pget r ''arch'')), (''cores'', int_out (pget r ''cores'')),
       (''memory_mb'', int_out (pget r ''memory'')), (''swap_mb'', int_out (pget r ''swap'')),
       (''unprivileged'', bool_out (pget r ''unprivileged'')),
       (''protection'', bool_out (pget r ''protection'')),
       (''start_on_boot'', bool_out (pget r ''onboot'')),
       (''tags'', str_out py (pget r ''tags''))]))"

section \<open>Storage\<close>

definition storage_entry :: "python \<Rightarrow> string \<Rightarrow> pydict \<Rightarrow> adapter_failure + pyval" where
  "storage_entry py node e = needed (as_str py (pget e ''storage'')) (\<lambda>storage. dict (record_of [
       (''node'', known node), (''storage'', known storage),
       (''storage_type'', str_out py (pget e ''type'')),
       (''content'', str_out py (pget e ''content'')),
       (''active'', bool_out (pget e ''active'')), (''enabled'', bool_out (pget e ''enabled'')),
       (''shared'', bool_out (pget e ''shared'')), (''total_bytes'', int_out (pget e ''total'')),
       (''used_bytes'', int_out (pget e ''used'')),
       (''available_bytes'', int_out (pget e ''avail'')),
       (''used_fraction'', float_out py (pget e ''used_fraction''))]))"

definition storage_entries :: "python \<Rightarrow> string \<Rightarrow> pyval \<Rightarrow> adapter_failure + pyval list" where
  "storage_entries py node data = andThen (entries data) (each (storage_entry py node))"

definition storage_list :: "int \<Rightarrow> string \<Rightarrow> string list \<Rightarrow> pyval list \<Rightarrow> adapter_failure + pyval" where
  "storage_list now instance nodes rows = dict (record_of [
       (''instance_id'', known instance), (''observed_at'', Inr (PTime now)),
       (''nodes_queried'', Inr (PList (map PStr nodes))), (''storages'', Inr (PList rows))])"

section \<open>A projection is a value of its model\<close>

definition yields :: "out_type \<Rightarrow> adapter_failure + pyval \<Rightarrow> bool" where
  "yields t m \<longleftrightarrow> (\<forall>v. m = Inr v \<longrightarrow> conforms t v)"

named_theorems typed_intros

lemma yields_readers [typed_intros]:
  "yields (OOpt OStr) (str_out py v)" "yields (OOpt OInt) (int_out v)" "yields (OOpt OFloat) (float_out py v)"
  "yields (OOpt OBool) (bool_out v)" "yields OStr (known s)" "yields (OOpt OStr) (maybe u)"
  "yields OInt (Inr (PInt i))" "yields OTime (Inr (PTime t))" "yields OBool (Inr (PBool b))"
  "yields (OOpt t') (Inr PNone)" "yields (OList OStr) (Inr (PList (map PStr ss)))"
  "yields (OOpt OTime) (Inr (case w of None \<Rightarrow> PNone | Some s \<Rightarrow> PTime s))"
  by (auto simp: yields_def str_out_def int_out_def float_out_def bool_out_def known_def maybe_def list_all_iff
    split: option.splits sum.splits)

lemma yields_case [typed_intros]:
  "yields t a \<Longrightarrow> (\<And>x. yields t (b x)) \<Longrightarrow> yields t (case v of None \<Rightarrow> a | Some x \<Rightarrow> b x)"
  "yields t a \<Longrightarrow> yields t c \<Longrightarrow> yields t (if p then a else c)"
  "(\<And>n. yields t (f n)) \<Longrightarrow> yields t (case m of Inl u \<Rightarrow> Inl Crash | Inr n \<Rightarrow> f n)"
  by (auto simp: yields_def split: option.splits sum.splits)

lemma yields_needed [typed_intros]: "(\<And>x. yields t (f x)) \<Longrightarrow> yields t (needed v f)"
  by (simp add: needed_def yields_def split: option.splits)

lemma yields_andThen: "(\<And>x. m = Inr x \<Longrightarrow> yields t (f x)) \<Longrightarrow> yields t (andThen m f)"
  by (auto simp: yields_def andThen_eq_Inr)

lemma each_conforms: "each f xs = Inr vs \<Longrightarrow> (\<And>x. yields t (f x)) \<Longrightarrow> list_all (conforms t) vs"
  by (induction xs arbitrary: vs) (auto simp: andThen_eq_Inr yields_def)

lemma yields_listing [typed_intros]: "(\<And>x. yields t (f x)) \<Longrightarrow> yields (OList t) (listing (each f xs))"
  by (auto simp: yields_def listing_def andThen_eq_Inr dest!: each_conforms)

lemma record_of_conforms:
  "record_of ms = Inr d \<Longrightarrow> list_all2 (\<lambda>(k, m) (n, t). k = n \<and> yields t m) ms schema \<Longrightarrow>
   list_all2 (\<lambda>(k, v) (n, t). k = n \<and> conforms t v) d schema"
  by (induction ms arbitrary: d schema)
    (auto simp: andThen_eq_Inr yields_def list_all2_Cons1 split: prod.splits)

lemma conforms_OModel:
  "list_all2 (\<lambda>(k, v) (n, t). k = n \<and> conforms t v) d schema \<Longrightarrow> distinct (map fst schema) \<Longrightarrow>
   conforms (OModel schema) (PDict d)"
proof -
  assume all: "list_all2 (\<lambda>(k, v) (n, t). k = n \<and> conforms t v) d schema" "distinct (map fst schema)"
  then have keys: "map fst d = map fst schema"
    by (induction rule: list_all2_induct) auto
  have "\<exists>v. map_of d n = Some v \<and> conforms t v" if "(n, t) \<in> set schema" for n t
  proof -
    from that obtain i where i: "i < length schema" "schema ! i = (n, t)" by (metis in_set_conv_nth)
    with all(1) obtain v where v: "i < length d" "d ! i = (n, v)" "conforms t v"
      by (cases "d ! i") (auto simp: list_all2_conv_all_nth dest!: spec [of _ i])
    then have "(n, v) \<in> set d" by (metis nth_mem)
    then show ?thesis using v(3) all(2) by (intro exI [of _ v]) (simp add: keys)
  qed
  moreover have "k \<in> fst ` set schema" if "(k, w) \<in> set d" for k w
    using that keys by (metis fst_conv image_eqI list.set_map)
  ultimately show ?thesis by (fastforce simp: list_all_iff)
qed

lemma yields_dict [typed_intros]:
  "list_all2 (\<lambda>(k, m) (n, t). k = n \<and> yields t m) ms schema \<Longrightarrow> distinct (map fst schema) \<Longrightarrow>
   yields (OModel schema) (dict (record_of ms))"
  unfolding yields_def dict_def
  by (auto simp only: andThen_eq_Inr Inr_inject
      intro!: conforms_OModel [OF record_of_conforms [unfolded yields_def]])

lemma conforms_present:
  "list_all (conforms (OOpt t)) vs \<Longrightarrow> list_all (conforms t) (filter (\<lambda>v. v \<noteq> PNone) vs)"
  by (auto simp: list_all_iff)

lemma yields_load_average: "load_average py v = Inr load \<Longrightarrow> conforms (OOpt (OList OFloat)) load"
proof (cases v)
  case (PList items)
  assume "load_average py v = Inr load"
  then obtain parsed where parsed: "each (float_out py) items = Inr parsed"
    and load: "load = (if filter (\<lambda>v. v \<noteq> PNone) parsed = [] then PNone
      else PList (filter (\<lambda>v. v \<noteq> PNone) parsed))"
    by (auto simp: load_average_def PList andThen_eq_Inr Let_def)
  from each_conforms [OF parsed yields_readers(3), THEN conforms_present] show ?thesis
    unfolding load by (simp only: conforms.simps pyval.case split: if_split) simp
qed (auto simp: load_average_def)

lemma yields_cluster_member [typed_intros]: "yields cluster_member_out (cluster_member py e)"
  unfolding cluster_member_def cluster_member_out_def
  by (intro typed_intros; simp add: yields_readers yields_case)

lemma yields_node_summary [typed_intros]: "yields node_summary_out (node_summary py e)"
  unfolding node_summary_def node_summary_out_def
  by (intro typed_intros; simp add: yields_readers yields_case)

lemma yields_network_interface [typed_intros]: "yields network_interface_out (network_interface py e)"
  unfolding network_interface_def network_interface_out_def
  by (intro typed_intros; simp add: yields_readers yields_case)

lemma yields_guest_summary [typed_intros]: "yields guest_summary_out (guest_summary py e)"
  unfolding guest_summary_def guest_summary_out_def
  by (intro typed_intros; simp add: yields_readers yields_case)

lemma yields_storage_entry [typed_intros]: "yields storage_summary_out (storage_entry py node e)"
  unfolding storage_entry_def storage_summary_out_def
  by (intro typed_intros; simp add: yields_readers yields_case)

lemma yields_cluster_status: "yields cluster_status_out (cluster_status py now instance data)"
  unfolding cluster_status_def cluster_status_out_def proxmox_out_def Let_def
  by (rule yields_andThen)+ (intro typed_intros;
    simp add: yields_readers yields_case yields_def [of "OList cluster_member_out"] each_conforms [OF _ yields_cluster_member])

lemma yields_node_list: "yields node_list_out (node_list py now instance data)"
  unfolding node_list_def node_list_out_def proxmox_out_def Let_def
  by (rule yields_andThen)+ (intro typed_intros; simp add: yields_readers yields_case yields_listing yields_node_summary)

lemma yields_node_status: "yields node_status_out (node_status py now instance node data)"
  unfolding node_status_def node_status_out_def proxmox_out_def Let_def
  by (rule yields_andThen)+ (intro typed_intros;
    simp add: yields_readers yields_case yields_def [of "OOpt (OList OFloat)"] yields_load_average del: conforms.simps)

lemma yields_node_network: "yields node_network_out (node_network py now instance node data)"
  unfolding node_network_def node_network_out_def proxmox_out_def Let_def
  by (rule yields_andThen)+ (intro typed_intros; simp add: yields_readers yields_case yields_listing yields_network_interface)

lemma yields_guest_list: "yields guest_list_out (guest_list py now instance data)"
  unfolding guest_list_def guest_list_out_def proxmox_out_def Let_def
  by (rule yields_andThen)+ (intro typed_intros; simp add: yields_readers yields_case yields_listing yields_guest_summary)

lemma yields_vm_status: "yields vm_status_out (vm_status py now instance node vmid data)"
  unfolding vm_status_def vm_status_out_def proxmox_out_def Let_def
  by (rule yields_andThen)+ (intro typed_intros; simp add: yields_readers yields_case)

lemma yields_vm_config: "yields vm_config_out (vm_config py now instance node vmid data)"
  unfolding vm_config_def vm_config_out_def proxmox_out_def Let_def
  by (rule yields_andThen)+ (intro typed_intros; simp add: yields_readers yields_case)

lemma yields_container_status: "yields container_status_out (container_status py now instance node vmid data)"
  unfolding container_status_def container_status_out_def proxmox_out_def Let_def
  by (rule yields_andThen)+ (intro typed_intros; simp add: yields_readers yields_case)

lemma yields_container_config: "yields container_config_out (container_config py now instance node vmid data)"
  unfolding container_config_def container_config_out_def proxmox_out_def Let_def
  by (rule yields_andThen)+ (intro typed_intros; simp add: yields_readers yields_case)

end
