(* ===== verification/Proxmox_Adapter.thy ===== *)
theory Proxmox_Adapter
  imports Proxmox_Projection Dispatcher Authentication
begin

text \<open>
  \<open>tools/adapters/proxmox/client.py\<close>, \<open>identity.py\<close> and \<open>adapter.py\<close>.  The outside is the record
  \<open>outside\<close>: what the clock reads, what the other host answers to the n-th request, what
  \<open>json.loads\<close> makes of a body.  A conversation records every request with its answer, so that
  what was asked stays visible when the call fails.
\<close>

section \<open>The conversation\<close>

text \<open>Only \<open>GET\<close> exists.  The token travels in the header; times are in milliseconds.\<close>

record get_request =
  rq_base :: string
  rq_path :: string
  rq_query :: "(string \<times> string) list"
  rq_authorization :: string
  rq_timeout :: int

text \<open>
  A failed connection carries its chain of causes, each with the module and the name of the
  exception's class.  A response is a status and the chunks of its body, possibly broken off.
\<close>

datatype transport_failure =
  Timed_Out | Too_Many_Redirects | Connect_Error "(string \<times> string) list" | Other_HTTP_Error

datatype http_reply = No_Response transport_failure | Response nat "string list" "transport_failure option"

text \<open>\<open>json.loads\<close> raises \<open>ValueError\<close>, or \<open>RecursionError\<close> on a body nested too deeply.\<close>

datatype decoded = Decoded pyval | Not_JSON | Too_Deep

record outside =
  monotonic :: "nat \<Rightarrow> int"
  replies :: "nat \<Rightarrow> get_request \<Rightarrow> http_reply"
  json_loads :: "string \<Rightarrow> decoded"
  utc_now :: int
  builtin :: python

record conversation =
  readings :: nat
  exchanges :: "(get_request \<times> http_reply) list"

type_synonym 'a talk = "conversation \<Rightarrow> (adapter_failure + 'a) \<times> conversation"

definition lift :: "adapter_failure + 'a \<Rightarrow> 'a talk" where
  "lift m c = (m, c)"

definition thenTalk :: "'a talk \<Rightarrow> ('a \<Rightarrow> 'b talk) \<Rightarrow> 'b talk" where
  "thenTalk m k c = (case m c of (Inl e, c') \<Rightarrow> (Inl e, c') | (Inr x, c') \<Rightarrow> k x c')"

definition read_clock :: "outside \<Rightarrow> int talk" where
  "read_clock w c = (Inr (monotonic w (readings c)), c\<lparr>readings := Suc (readings c)\<rparr>)"

definition exchange :: "outside \<Rightarrow> get_request \<Rightarrow> http_reply talk" where
  "exchange w rq c = (let reply = replies w (length (exchanges c)) rq in
     (Inr reply, c\<lparr>exchanges := exchanges c @ [(rq, reply)]\<rparr>))"

section \<open>The transport\<close>

definition MAX_RESPONSE_BYTES :: nat where "MAX_RESPONSE_BYTES = 8 * 1024 * 1024"

record proxmox_client =
  cl_instance :: string
  cl_timeout :: int
  cl_base :: string
  cl_authorization :: string

definition new_client :: "deployment \<Rightarrow> proxmox_error + proxmox_client" where
  "new_client s =
    (let base = rstrip_slash (strip (dp_base_url s)); token = strip (dp_token_id s) in
     if \<not> dp_proxmox_enabled s then Inl ProxmoxNotConfiguredError
     else if base = [] \<or> token = [] \<or> dp_token_secret s = [] then Inl ProxmoxNotConfiguredError
     else if \<not> starts_with ''https://'' (lower base) then Inl ProxmoxNotConfiguredError
     else Inr \<lparr>cl_instance = dp_instance_id s, cl_timeout = dp_timeout_ms s, cl_base = base,
       cl_authorization = ''PVEAPIToken='' @ token @ ''='' @ dp_token_secret s\<rparr>)"

definition is_tls_failure :: "(string \<times> string) list \<Rightarrow> bool" where
  "is_tls_failure causes = list_ex (\<lambda>(modul, name). modul = ''ssl'' \<or> starts_with ''SSL'' name) causes"

fun transport_error :: "transport_failure \<Rightarrow> proxmox_error" where
  "transport_error Timed_Out = ProxmoxTimeoutError"
| "transport_error Too_Many_Redirects = ProxmoxProtocolError"
| "transport_error (Connect_Error causes) =
     (if is_tls_failure causes then ProxmoxAuthenticationError else ProxmoxConnectionError)"
| "transport_error Other_HTTP_Error = ProxmoxConnectionError"

definition check_status :: "nat \<Rightarrow> proxmox_error + unit" where
  "check_status status =
    (if status = 200 then Inr ()
     else if status = 401 then Inl ProxmoxAuthenticationError
     else if status = 403 then Inl ProxmoxAuthorizationError
     else Inl ProxmoxHTTPStatusError)"

text \<open>The body is given up at the chunk that takes it over the limit.\<close>

fun read_chunks :: "nat \<Rightarrow> string list \<Rightarrow> transport_failure option \<Rightarrow> proxmox_error + string" where
  "read_chunks got [] broken = (case broken of None \<Rightarrow> Inr [] | Some f \<Rightarrow> Inl (transport_error f))"
| "read_chunks got (chunk # chunks) broken =
    (if MAX_RESPONSE_BYTES < got + length chunk then Inl ProxmoxProtocolError
     else andThen (read_chunks (got + length chunk) chunks broken) (\<lambda>rest. Inr (chunk @ rest)))"

definition body_of :: "http_reply \<Rightarrow> proxmox_error + string" where
  "body_of reply = (case reply of
     No_Response f \<Rightarrow> Inl (transport_error f)
   | Response status chunks broken \<Rightarrow>
       andThen (check_status status) (\<lambda>u. read_chunks 0 chunks broken))"

definition raising :: "proxmox_error + 'a \<Rightarrow> adapter_failure + 'a" where
  "raising m = (case m of Inl e \<Rightarrow> Inl (Proxmox e) | Inr x \<Rightarrow> Inr x)"

definition envelope :: "outside \<Rightarrow> string \<Rightarrow> adapter_failure + pyval" where
  "envelope w body = (case json_loads w body of
     Not_JSON \<Rightarrow> Inl (Proxmox ProxmoxProtocolError)
   | Too_Deep \<Rightarrow> Inl Crash
   | Decoded (PDict d) \<Rightarrow> (case map_of d ''data'' of
         None \<Rightarrow> Inl (Proxmox ProxmoxProtocolError) | Some v \<Rightarrow> Inr v)
   | Decoded _ \<Rightarrow> Inl (Proxmox ProxmoxProtocolError))"

definition data_of :: "outside \<Rightarrow> http_reply \<Rightarrow> adapter_failure + pyval" where
  "data_of w reply = andThen (raising (body_of reply)) (envelope w)"

definition get_data :: "outside \<Rightarrow> proxmox_client \<Rightarrow> string \<Rightarrow> int \<Rightarrow> (string \<rightharpoonup> string) \<Rightarrow> pyval talk" where
  "get_data w cl key deadline segments = (case map_of TOOL_ENDPOINTS key of
     None \<Rightarrow> lift (Inl (Proxmox ProxmoxProtocolError))
   | Some ep \<Rightarrow> thenTalk (lift (raising (build ep segments))) (\<lambda>(path, query).
       thenTalk (read_clock w) (\<lambda>now.
       if deadline - now \<le> 0 then lift (Inl (Proxmox ProxmoxTimeoutError))
       else thenTalk (exchange w \<lparr>rq_base = cl_base cl, rq_path = path, rq_query = query,
              rq_authorization = cl_authorization cl, rq_timeout = min (cl_timeout cl) (deadline - now)\<rparr>)
            (\<lambda>reply. lift (data_of w reply)))))"

section \<open>From a target to an address\<close>

definition NS_INSTANCE :: string where "NS_INSTANCE = ''proxmox:instance''"
definition NS_NODE :: string where "NS_NODE = ''proxmox:node''"
definition NS_GUEST :: string where "NS_GUEST = ''proxmox:guest''"
definition GUEST_TYPE_QEMU :: string where "GUEST_TYPE_QEMU = ''qemu''"
definition GUEST_TYPE_LXC :: string where "GUEST_TYPE_LXC = ''lxc''"

record guest_location =
  gl_vmid :: int
  gl_type :: string
  gl_node :: string
  gl_record :: pydict

definition registered_identifier :: "resolved_target \<Rightarrow> string \<Rightarrow> adapter_failure + string" where
  "registered_identifier target namespace =
    (let value = strip (case rt_identifiers target namespace of None \<Rightarrow> [] | Some v \<Rightarrow> v) in
     if value = [] then Inl (Proxmox ProxmoxIdentifierError) else Inr value)"

definition same_instance :: "string \<Rightarrow> string \<Rightarrow> bool" where
  "same_instance i j \<longleftrightarrow> lower (strip i) = lower (strip j)"

definition scoped :: "resolved_target \<Rightarrow> string \<Rightarrow> string \<Rightarrow> adapter_failure + string" where
  "scoped target namespace instance = andThen (registered_identifier target namespace) (\<lambda>value.
     case partition_at CHR ''/'' value of
       None \<Rightarrow> Inl (Proxmox ProxmoxIdentifierError)
     | Some (i, obj) \<Rightarrow>
         if strip i = [] \<or> obj = [] \<or> CHR ''/'' \<in> set obj then Inl (Proxmox ProxmoxIdentifierError)
         else if \<not> same_instance i instance then Inl (Proxmox ProxmoxInstanceMismatchError)
         else Inr obj)"

definition require_instance :: "resolved_target \<Rightarrow> string \<Rightarrow> adapter_failure + string" where
  "require_instance target instance = andThen (registered_identifier target NS_INSTANCE) (\<lambda>value.
     if same_instance value instance then Inr instance
     else Inl (Proxmox ProxmoxInstanceMismatchError))"

text \<open>\<open>str.isdigit\<close> accepts characters that \<open>int\<close> does not, and nothing catches the \<open>ValueError\<close>.\<close>

definition parse_vmid :: "resolved_target \<Rightarrow> string \<Rightarrow> adapter_failure + int" where
  "parse_vmid target instance = andThen (scoped target NS_GUEST instance) (\<lambda>raw.
     if \<not> py_isdigit raw \<or> starts_with ''0'' raw then Inl (Proxmox ProxmoxIdentifierError)
     else (case int_of_text raw of None \<Rightarrow> Inl Crash | Some n \<Rightarrow> Inr n))"

definition records :: "pyval \<Rightarrow> adapter_failure + pydict list" where
  "records data = (case data of PList vs \<Rightarrow> all_records vs | _ \<Rightarrow> Inl (Proxmox ProxmoxProtocolError))"

text \<open>\<open>str(record.get(k) or "").strip()\<close>\<close>

definition word :: "python \<Rightarrow> pydict \<Rightarrow> string \<Rightarrow> string" where
  "word py r k = strip (py_str py (value_or (pget r k) (PStr [])))"

fun online_names :: "python \<Rightarrow> pydict list \<Rightarrow> adapter_failure + string list" where
  "online_names py [] = Inr []"
| "online_names py (r # rs) = (let name = word py r ''node'' in
     if name = [] then Inl (Proxmox ProxmoxProtocolError)
     else andThen (online_names py rs) (\<lambda>names.
       Inr (if lower (word py r ''status'') = ''online'' then name # names else names)))"

text \<open>The client's one operation is an argument of what uses it.\<close>

type_synonym fetcher = "string \<Rightarrow> int \<Rightarrow> (string \<rightharpoonup> string) \<Rightarrow> pyval talk"

definition online_nodes :: "python \<Rightarrow> fetcher \<Rightarrow> int \<Rightarrow> string list talk" where
  "online_nodes py fetch deadline = thenTalk (fetch NODE_INVENTORY deadline Map.empty) (\<lambda>data.
     lift (andThen (records data) (online_names py)))"

definition node_matches :: "python \<Rightarrow> string \<Rightarrow> pydict list \<Rightarrow> string list" where
  "node_matches py wanted rs = filter (\<lambda>name. lower name = wanted) (map (\<lambda>r. word py r ''node'') rs)"

definition the_only :: "'a list \<Rightarrow> adapter_failure + 'a" where
  "the_only xs = (case xs of [] \<Rightarrow> Inl (Proxmox ProxmoxObjectNotFoundError)
     | [x] \<Rightarrow> Inr x | _ \<Rightarrow> Inl (Proxmox ProxmoxAmbiguousObjectError))"

definition resolve_node ::
  "python \<Rightarrow> fetcher \<Rightarrow> resolved_target \<Rightarrow> string \<Rightarrow> int \<Rightarrow> string talk" where
  "resolve_node py fetch target instance deadline =
     thenTalk (lift (scoped target NS_NODE instance)) (\<lambda>obj.
     thenTalk (fetch NODE_INVENTORY deadline Map.empty) (\<lambda>data.
     lift (andThen (records data) (\<lambda>rs. the_only (node_matches py (lower (strip obj)) rs)))))"

text \<open>\<open>int(str(v))\<close> for what is not an integer; a \<open>ValueError\<close> skips the record.\<close>

definition record_vmid :: "python \<Rightarrow> pydict \<Rightarrow> int option" where
  "record_vmid py r = (case pget r ''vmid'' of PInt n \<Rightarrow> Some n | v \<Rightarrow> int_of_text (py_str py v))"

definition guest_matches :: "python \<Rightarrow> string \<Rightarrow> int \<Rightarrow> pydict list \<Rightarrow> pydict list" where
  "guest_matches py guest_type vmid rs = filter (\<lambda>r. lower (word py r ''type'') = guest_type \<and>
     record_vmid py r = Some vmid) rs"

definition resolve_guest ::
  "python \<Rightarrow> fetcher \<Rightarrow> resolved_target \<Rightarrow> string \<Rightarrow> string \<Rightarrow> int \<Rightarrow> guest_location talk" where
  "resolve_guest py fetch target instance guest_type deadline =
     thenTalk (lift (parse_vmid target instance)) (\<lambda>vmid.
     thenTalk (fetch GUEST_INVENTORY deadline Map.empty) (\<lambda>data.
     lift (andThen (records data) (\<lambda>rs.
       andThen (the_only (guest_matches py guest_type vmid rs)) (\<lambda>r.
       let node = word py r ''node'' in
       if node = [] then Inl (Proxmox ProxmoxProtocolError)
       else Inr \<lparr>gl_vmid = vmid, gl_type = guest_type, gl_node = node, gl_record = r\<rparr>)))))"

section \<open>The adapter\<close>

definition SUPPORTED_TOOLS :: "string list" where
  "SUPPORTED_TOOLS = [''proxmox.cluster.status'', ''proxmox.node.list'', ''proxmox.node.status'',
     ''proxmox.node.network'', ''proxmox.guest.list'', ''proxmox.vm.status'', ''proxmox.vm.config'',
     ''proxmox.container.status'', ''proxmox.container.config'', ''proxmox.storage.list'']"

text \<open>The per-guest reads.\<close>

definition guest_type_of :: "string \<Rightarrow> string" where
  "guest_type_of tool = (if starts_with ''proxmox.vm.'' tool then GUEST_TYPE_QEMU else GUEST_TYPE_LXC)"

definition project_guest ::
  "outside \<Rightarrow> string \<Rightarrow> string \<Rightarrow> string \<Rightarrow> int \<Rightarrow> pyval \<Rightarrow> adapter_failure + pyval" where
  "project_guest w tool instance node vmid data =
    (if tool = ''proxmox.vm.status'' then vm_status (builtin w) (utc_now w) instance node vmid data
     else if tool = ''proxmox.vm.config'' then vm_config (builtin w) (utc_now w) instance node vmid data
     else if tool = ''proxmox.container.status''
       then container_status (builtin w) (utc_now w) instance node vmid data
     else if tool = ''proxmox.container.config''
       then container_config (builtin w) (utc_now w) instance node vmid data
     else Inl (Proxmox ProxmoxProtocolError))"

definition read_guest ::
  "outside \<Rightarrow> fetcher \<Rightarrow> string \<Rightarrow> resolved_target \<Rightarrow> string \<Rightarrow> int \<Rightarrow> pyval talk" where
  "read_guest w fetch tool target instance deadline =
     thenTalk (resolve_guest (builtin w) fetch target instance (guest_type_of tool) deadline) (\<lambda>loc.
     thenTalk (fetch tool deadline [''node'' \<mapsto> gl_node loc, ''vmid'' \<mapsto> show_int (gl_vmid loc)]) (\<lambda>data.
     lift (project_guest w tool instance (gl_node loc) (gl_vmid loc) data)))"

fun storage_rows :: "python \<Rightarrow> fetcher \<Rightarrow> int \<Rightarrow> string list \<Rightarrow> pyval list talk" where
  "storage_rows py fetch deadline [] = lift (Inr [])"
| "storage_rows py fetch deadline (node # nodes) =
     thenTalk (fetch ''proxmox.storage.list'' deadline [''node'' \<mapsto> node]) (\<lambda>data.
     thenTalk (lift (storage_entries py node data)) (\<lambda>rows.
     thenTalk (storage_rows py fetch deadline nodes) (\<lambda>more. lift (Inr (rows @ more)))))"

definition read_storage ::
  "outside \<Rightarrow> fetcher \<Rightarrow> resolved_target \<Rightarrow> string \<Rightarrow> int \<Rightarrow> pyval talk" where
  "read_storage w fetch target instance deadline =
     thenTalk (lift (require_instance target instance)) (\<lambda>inst.
     thenTalk (online_nodes (builtin w) fetch deadline) (\<lambda>nodes.
     thenTalk (storage_rows (builtin w) fetch deadline nodes) (\<lambda>rows.
     lift (storage_list (utc_now w) inst nodes rows))))"

definition read_instance ::
  "fetcher \<Rightarrow> string \<Rightarrow> resolved_target \<Rightarrow> string \<Rightarrow> int \<Rightarrow> (pyval \<Rightarrow> adapter_failure + pyval) \<Rightarrow> pyval talk"
where
  "read_instance fetch tool target instance deadline project =
     thenTalk (lift (require_instance target instance)) (\<lambda>u.
     thenTalk (fetch tool deadline Map.empty) (\<lambda>data. lift (project data)))"

definition read_node ::
  "outside \<Rightarrow> fetcher \<Rightarrow> string \<Rightarrow> resolved_target \<Rightarrow> string \<Rightarrow> int \<Rightarrow> pyval talk" where
  "read_node w fetch tool target instance deadline =
     thenTalk (resolve_node (builtin w) fetch target instance deadline) (\<lambda>node.
     thenTalk (fetch tool deadline [''node'' \<mapsto> node]) (\<lambda>data.
     lift (if tool = ''proxmox.node.status''
           then node_status (builtin w) (utc_now w) instance node data
           else node_network (builtin w) (utc_now w) instance node data)))"

definition observe_target ::
  "outside \<Rightarrow> fetcher \<Rightarrow> string \<Rightarrow> resolved_target \<Rightarrow> string \<Rightarrow> int \<Rightarrow> pyval talk" where
  "observe_target w fetch tool target instance deadline =
    (if tool = ''proxmox.cluster.status'' then
       read_instance fetch tool target instance deadline (cluster_status (builtin w) (utc_now w) instance)
     else if tool = ''proxmox.node.list'' then
       read_instance fetch tool target instance deadline (node_list (builtin w) (utc_now w) instance)
     else if tool = ''proxmox.guest.list'' then
       read_instance fetch tool target instance deadline (guest_list (builtin w) (utc_now w) instance)
     else if tool = ''proxmox.storage.list'' then read_storage w fetch target instance deadline
     else if tool \<in> {''proxmox.node.status'', ''proxmox.node.network''} then
       read_node w fetch tool target instance deadline
     else read_guest w fetch tool target instance deadline)"

text \<open>The deadline is taken before the client is built.\<close>

definition execute_read :: "outside \<Rightarrow> deployment \<Rightarrow> adapter_request \<Rightarrow> pyval talk" where
  "execute_read w s rq =
    (if ar_tool_name rq \<notin> set SUPPORTED_TOOLS then lift (Inl Unavailable)
     else thenTalk (read_clock w) (\<lambda>now.
       thenTalk (lift (raising (new_client s))) (\<lambda>cl.
       observe_target w (get_data w cl) (ar_tool_name rq) (ar_target rq) (cl_instance cl)
         (now + ar_timeout_milli rq))))"

definition validate_read :: "adapter_request \<Rightarrow> pyval talk" where
  "validate_read rq = lift (Inl Unavailable)"

end
