(* ===== verification/Proxmox_Facts.thy ===== *)
theory Proxmox_Facts
  imports Proxmox_Adapter
begin

text \<open>
  What the Proxmox adapter promises: what it may ask and of whom, that a report rests on
  answers, and that a guest is read where the inventory says it is.  The lemmas about the
  adapter are proved for any reader that keeps its promises; the transport is one.
\<close>

section \<open>Conversations that keep a promise\<close>

text \<open>
  \<open>keeps A R m Q\<close>: whatever \<open>m\<close> asks satisfies \<open>A\<close>, and when it returns, every exchange it
  made satisfies \<open>R\<close> and the value satisfies \<open>Q\<close>.
\<close>

definition keeps ::
  "(get_request \<times> http_reply \<Rightarrow> bool) \<Rightarrow> (get_request \<times> http_reply \<Rightarrow> bool) \<Rightarrow> 'a talk \<Rightarrow>
   ('a \<Rightarrow> bool) \<Rightarrow> bool" where
  "keeps A R m Q \<longleftrightarrow> (\<forall>c. \<exists>new. exchanges (snd (m c)) = exchanges c @ new \<and> (\<forall>x \<in> set new. A x) \<and>
     (\<forall>v. fst (m c) = Inr v \<longrightarrow> (\<forall>x \<in> set new. R x) \<and> Q v))"

named_theorems keeps_intros

lemma keeps_lift [keeps_intros]: "(\<And>v. m = Inr v \<Longrightarrow> Q v) \<Longrightarrow> keeps A R (lift m) Q"
  by (auto simp: keeps_def lift_def)

lemma keeps_clock [keeps_intros]: "(\<And>t. Q t) \<Longrightarrow> keeps A R (read_clock w) Q"
  by (auto simp: keeps_def read_clock_def)

lemma keeps_then:
  assumes first: "keeps A R m P" and second: "\<And>v. P v \<Longrightarrow> keeps A R (k v) Q"
  shows "keeps A R (thenTalk m k) Q"
  unfolding keeps_def
proof
  fix c
  from first obtain new where new: "exchanges (snd (m c)) = exchanges c @ new" "\<forall>x \<in> set new. A x"
    "\<forall>v. fst (m c) = Inr v \<longrightarrow> (\<forall>x \<in> set new. R x) \<and> P v"
    unfolding keeps_def by blast
  show "\<exists>new. exchanges (snd (thenTalk m k c)) = exchanges c @ new \<and> (\<forall>x \<in> set new. A x) \<and>
      (\<forall>v. fst (thenTalk m k c) = Inr v \<longrightarrow> (\<forall>x \<in> set new. R x) \<and> Q v)"
  proof (cases "fst (m c)")
    case (Inl e)
    then show ?thesis using new by (intro exI [of _ new], cases "m c") (simp add: thenTalk_def)
  next
    case (Inr v)
    with new(3) have P: "P v" and R: "\<forall>x \<in> set new. R x" by auto
    from second [OF P] obtain more where
      more: "exchanges (snd (k v (snd (m c)))) = exchanges (snd (m c)) @ more" "\<forall>x \<in> set more. A x"
        "\<forall>u. fst (k v (snd (m c))) = Inr u \<longrightarrow> (\<forall>x \<in> set more. R x) \<and> Q u"
      unfolding keeps_def by blast
    have "thenTalk m k c = k v (snd (m c))"
      using Inr by (cases "m c") (simp add: thenTalk_def)
    then show ?thesis using new more R by (intro exI [of _ "new @ more"]) auto
  qed
qed

lemma keeps_mono: "keeps A R m P \<Longrightarrow> (\<And>v. P v \<Longrightarrow> Q v) \<Longrightarrow> keeps A R m Q"
  unfolding keeps_def by meson

text \<open>A talk only adds to the record; one that \<open>asks\<close> does not return without an exchange.\<close>

definition appends :: "'a talk \<Rightarrow> bool" where
  "appends m \<longleftrightarrow> (\<forall>c. \<exists>new. exchanges (snd (m c)) = exchanges c @ new)"

definition asks :: "'a talk \<Rightarrow> bool" where
  "asks m \<longleftrightarrow> appends m \<and> (\<forall>c v. fst (m c) = Inr v \<longrightarrow> exchanges (snd (m c)) \<noteq> exchanges c)"

named_theorems asks_intros

lemma thenTalk_cases:
  obtains (stopped) e where "fst (m c) = Inl e" "thenTalk m k c = (Inl e, snd (m c))"
  | (went) v where "fst (m c) = Inr v" "thenTalk m k c = k v (snd (m c))"
  by (cases "m c"; cases "fst (m c)") (auto simp: thenTalk_def)

lemma appends_lift [asks_intros]: "appends (lift m)"
  by (simp add: appends_def lift_def)

lemma asks_appends: "asks m \<Longrightarrow> appends m"
  by (simp add: asks_def)

lemma appends_then [asks_intros]: "appends m \<Longrightarrow> (\<And>v. appends (k v)) \<Longrightarrow> appends (thenTalk m k)"
  unfolding appends_def
  by (intro allI, rule_tac m = m and c = c and k = k in thenTalk_cases) (simp, metis append_assoc)

lemma asks_first: "asks m \<Longrightarrow> (\<And>v. appends (k v)) \<Longrightarrow> asks (thenTalk m k)"
proof (unfold asks_def, intro conjI allI impI)
  assume m: "appends m \<and> (\<forall>c v. fst (m c) = Inr v \<longrightarrow> exchanges (snd (m c)) \<noteq> exchanges c)"
    and k: "\<And>v. appends (k v)"
  then show "appends (thenTalk m k)" by (intro appends_then) auto
  fix c u
  assume "fst (thenTalk m k c) = Inr u"
  then obtain v where v: "fst (m c) = Inr v" "thenTalk m k c = k v (snd (m c))"
    by (cases rule: thenTalk_cases [of m c k]) auto
  obtain new more where "exchanges (snd (m c)) = exchanges c @ new"
    "exchanges (snd (k v (snd (m c)))) = exchanges (snd (m c)) @ more"
    using m k [of v] unfolding appends_def by meson
  moreover have "exchanges (snd (m c)) \<noteq> exchanges c" using m v(1) by blast
  ultimately show "exchanges (snd (thenTalk m k c)) \<noteq> exchanges c" by (simp add: v(2))
qed

lemma asks_second: "appends m \<Longrightarrow> (\<And>v. asks (k v)) \<Longrightarrow> asks (thenTalk m k)"
proof (unfold asks_def, intro conjI allI impI)
  assume m: "appends m"
    and k: "\<And>v. appends (k v) \<and> (\<forall>c u. fst (k v c) = Inr u \<longrightarrow> exchanges (snd (k v c)) \<noteq> exchanges c)"
  then show "appends (thenTalk m k)" by (intro appends_then) auto
  fix c u
  assume ran: "fst (thenTalk m k c) = Inr u"
  then obtain v where v: "fst (m c) = Inr v" "thenTalk m k c = k v (snd (m c))"
    by (cases rule: thenTalk_cases [of m c k]) auto
  obtain new more where "exchanges (snd (m c)) = exchanges c @ new"
    "exchanges (snd (k v (snd (m c)))) = exchanges (snd (m c)) @ more"
    using m k [of v] unfolding appends_def by meson
  moreover have "exchanges (snd (k v (snd (m c)))) \<noteq> exchanges (snd (m c))" using k ran v(2) by metis
  ultimately show "exchanges (snd (thenTalk m k c)) \<noteq> exchanges c" by (simp add: v(2))
qed

section \<open>What names may be put in a path\<close>

lemma strip_no_newline: "drop_final_newline (strip s) = strip s"
proof -
  have "\<not> is_space (last (strip s))" if "strip s \<noteq> []"
  proof -
    have "rev (strip s) = dropWhile is_space (rev (dropWhile is_space s))" by (simp add: strip_def)
    then have "\<not> is_space (hd (rev (strip s)))" using that
      by (metis hd_dropWhile rev_is_Nil_conv)
    then show ?thesis by (simp add: hd_rev)
  qed
  moreover have "is_space (CHR 0x0A)" by code_simp
  ultimately show ?thesis by (auto simp: drop_final_newline_def)
qed

lemma word_no_newline: "drop_final_newline (word py r k) = word py r k"
  by (simp add: word_def strip_no_newline)

lemma show_int_no_newline: "drop_final_newline (show_int i) = show_int i"
proof -
  have "last (show_int i) \<in> set (show_int i)" by (rule last_in_set) (simp add: show_int_def)
  from show_int_chars [OF this] have "last (show_int i) \<noteq> CHR 0x0A" by (auto simp: is_digit_def)
  then show ?thesis by (simp add: drop_final_newline_def)
qed

lemma the_only_Inr: "the_only xs = Inr x \<longleftrightarrow> xs = [x]"
  by (auto simp: the_only_def split: list.splits)

lemma online_names_words: "online_names py rs = Inr names \<Longrightarrow> name \<in> set names \<Longrightarrow>
    \<exists>r \<in> set rs. name = word py r ''node'' \<and> lower (word py r ''status'') = ''online''"
  by (induction rs arbitrary: names) (auto simp: andThen_eq_Inr Let_def split: if_splits)

section \<open>Any reader that keeps its promises\<close>

definition declared_out :: "string \<Rightarrow> out_type" where
  "declared_out tool =
    (if tool = ''proxmox.cluster.status'' then cluster_status_out
     else if tool = ''proxmox.node.list'' then node_list_out
     else if tool = ''proxmox.node.status'' then node_status_out
     else if tool = ''proxmox.node.network'' then node_network_out
     else if tool = ''proxmox.guest.list'' then guest_list_out
     else if tool = ''proxmox.vm.status'' then vm_status_out
     else if tool = ''proxmox.vm.config'' then vm_config_out
     else if tool = ''proxmox.container.status'' then container_status_out
     else if tool = ''proxmox.container.config'' then container_config_out
     else storage_list_out)"

lemma project_guest_conforms:
  "project_guest w tool instance node vmid data = Inr v \<Longrightarrow> conforms (declared_out tool) v"
  using yields_vm_status yields_vm_config yields_container_status yields_container_config
  by (auto simp: project_guest_def declared_out_def yields_def split: if_splits)

lemma project_node_conforms:
  assumes "tool \<in> {''proxmox.node.status'', ''proxmox.node.network''}"
    and "(if tool = ''proxmox.node.status'' then node_status py now instance node data
      else node_network py now instance node data) = Inr v"
  shows "conforms (declared_out tool) v"
proof -
  note typed = yields_node_status [unfolded yields_def, rule_format] yields_node_network [unfolded yields_def, rule_format]
  from assms(1) consider (status) "tool = ''proxmox.node.status''" | (network) "tool = ''proxmox.node.network''"
    by blast
  then show ?thesis
  proof cases
    case status
    with assms(2) show ?thesis by (simp add: declared_out_def typed)
  next
    case network
    with assms(2) show ?thesis by (simp add: declared_out_def typed)
  qed
qed

lemma storage_entries_conform:
  "storage_entries py node data = Inr rows \<Longrightarrow> list_all (conforms storage_summary_out) rows"
  by (auto simp: storage_entries_def andThen_eq_Inr intro: each_conforms yields_storage_entry)

lemma storage_list_conforms:
  assumes "list_all (conforms storage_summary_out) rows"
    and "storage_list now instance nodes rows = Inr v"
  shows "conforms storage_list_out v"
proof -
  have "yields storage_list_out (storage_list now instance nodes rows)"
    unfolding storage_list_def storage_list_out_def proxmox_out_def
    by (intro typed_intros; simp add: yields_readers yields_def [of "OList storage_summary_out"] assms(1))
  with assms(2) show ?thesis by (simp add: yields_def)
qed

locale reader =
  fixes fetch :: fetcher
    and A :: "get_request \<times> http_reply \<Rightarrow> bool" and R :: "get_request \<times> http_reply \<Rightarrow> bool"
    and keys :: "string set"
  assumes fetch_keeps: "key \<in> keys \<Longrightarrow> (\<And>k v. segs k = Some v \<Longrightarrow> drop_final_newline v = v) \<Longrightarrow>
      keeps A R (fetch key deadline segs) (\<lambda>v. True)"
    and fetch_asks: "asks (fetch key deadline segs)"
    and inventories: "NODE_INVENTORY \<in> keys" "GUEST_INVENTORY \<in> keys"
begin

lemma plain_fetch: "key \<in> keys \<Longrightarrow> keeps A R (fetch key deadline Map.empty) (\<lambda>v. True)"
  by (rule fetch_keeps) simp_all

lemma resolve_node_keeps:
  "keeps A R (resolve_node py fetch target instance deadline) (\<lambda>node. drop_final_newline node = node)"
  unfolding resolve_node_def
proof (rule keeps_then [OF keeps_lift], rule TrueI, rule keeps_then [OF plain_fetch [OF inventories(1)]])
  fix obj data
  show "keeps A R (lift (andThen (records data) (\<lambda>rs. the_only (node_matches py (lower (strip obj)) rs))))
      (\<lambda>node. drop_final_newline node = node)"
  proof (rule keeps_lift)
    fix node
    assume "andThen (records data) (\<lambda>rs. the_only (node_matches py (lower (strip obj)) rs)) = Inr node"
    then obtain rs where "node_matches py (lower (strip obj)) rs = [node]"
      by (auto simp: andThen_eq_Inr the_only_Inr)
    then have "node \<in> set (node_matches py (lower (strip obj)) rs)" by simp
    then show "drop_final_newline node = node" by (auto simp: node_matches_def word_no_newline)
  qed
qed

lemma resolve_guest_keeps:
  "keeps A R (resolve_guest py fetch target instance guest_type deadline)
     (\<lambda>loc. drop_final_newline (gl_node loc) = gl_node loc)"
  unfolding resolve_guest_def
  by (rule keeps_then [OF keeps_lift], rule TrueI, rule keeps_then [OF plain_fetch [OF inventories(2)]])
    (auto intro!: keeps_lift simp: andThen_eq_Inr Let_def word_no_newline split: if_splits)

lemma online_nodes_keeps:
  "keeps A R (online_nodes py fetch deadline) (\<lambda>names. \<forall>name \<in> set names. drop_final_newline name = name)"
  unfolding online_nodes_def
  by (rule keeps_then [OF plain_fetch [OF inventories(1)]])
    (auto intro!: keeps_lift simp: andThen_eq_Inr word_no_newline dest!: online_names_words)

lemma read_instance_keeps:
  assumes "tool \<in> keys" and "\<And>data. yields t (project data)"
  shows "keeps A R (read_instance fetch tool target instance deadline project) (conforms t)"
  unfolding read_instance_def
  by (rule keeps_then [OF keeps_lift], rule TrueI, rule keeps_then [OF plain_fetch [OF assms(1)]],
      rule keeps_lift) (use assms(2) in \<open>simp add: yields_def\<close>)

lemma read_node_keeps:
  assumes "tool \<in> keys" and tool: "tool \<in> {''proxmox.node.status'', ''proxmox.node.network''}"
  shows "keeps A R (read_node w fetch tool target instance deadline) (conforms (declared_out tool))"
  unfolding read_node_def
proof (rule keeps_then [OF resolve_node_keeps], rule keeps_then)
  fix node :: string
  assume "drop_final_newline node = node"
  then show "keeps A R (fetch tool deadline [''node'' \<mapsto> node]) (\<lambda>v. True)"
    by (intro fetch_keeps assms(1)) (simp split: if_splits)
  show "keeps A R (lift (if tool = ''proxmox.node.status''
      then node_status (builtin w) (utc_now w) instance node data
      else node_network (builtin w) (utc_now w) instance node data)) (conforms (declared_out tool))" for data
    by (rule keeps_lift, rule project_node_conforms [OF tool])
qed

lemma read_guest_keeps:
  assumes "tool \<in> keys"
  shows "keeps A R (read_guest w fetch tool target instance deadline) (conforms (declared_out tool))"
  unfolding read_guest_def
proof (rule keeps_then [OF resolve_guest_keeps], rule keeps_then)
  fix loc
  assume "drop_final_newline (gl_node loc) = gl_node loc"
  then show "keeps A R (fetch tool deadline [''node'' \<mapsto> gl_node loc, ''vmid'' \<mapsto> show_int (gl_vmid loc)])
      (\<lambda>v. True)"
    by (intro fetch_keeps assms(1)) (auto simp: show_int_no_newline split: if_splits)
  show "keeps A R (lift (project_guest w tool instance (gl_node loc) (gl_vmid loc) data))
      (conforms (declared_out tool))" for data
    by (rule keeps_lift) (rule project_guest_conforms)
qed

lemma storage_rows_keeps:
  assumes "''proxmox.storage.list'' \<in> keys"
  shows "\<forall>node \<in> set nodes. drop_final_newline node = node \<Longrightarrow>
    keeps A R (storage_rows py fetch deadline nodes) (list_all (conforms storage_summary_out))"
proof (induction nodes)
  case Nil
  then show ?case by (auto intro: keeps_lift)
next
  case (Cons node nodes)
  have "keeps A R (fetch ''proxmox.storage.list'' deadline [''node'' \<mapsto> node]) (\<lambda>v. True)"
    using Cons.prems by (intro fetch_keeps assms) (simp split: if_splits)
  moreover have "keeps A R (storage_rows py fetch deadline nodes) (list_all (conforms storage_summary_out))"
    using Cons by simp
  ultimately show ?case
    unfolding storage_rows.simps
    by (auto intro!: keeps_then [where P = "\<lambda>v. True"] keeps_lift
      keeps_then [where P = "list_all (conforms storage_summary_out)"] dest: storage_entries_conform)
qed

lemma read_storage_keeps:
  assumes "''proxmox.storage.list'' \<in> keys"
  shows "keeps A R (read_storage w fetch target instance deadline) (conforms storage_list_out)"
  unfolding read_storage_def
  by (rule keeps_then [OF keeps_lift], rule TrueI, rule keeps_then [OF online_nodes_keeps],
      rule keeps_then [OF storage_rows_keeps [OF assms]])
    (auto intro!: keeps_lift storage_list_conforms)

lemma observe_target_keeps:
  assumes "tool \<in> keys" "tool \<in> set SUPPORTED_TOOLS"
  shows "keeps A R (observe_target w fetch tool target instance deadline) (conforms (declared_out tool))"
proof -
  note instance_reads = read_instance_keeps [OF assms(1) yields_cluster_status]
    read_instance_keeps [OF assms(1) yields_node_list] read_instance_keeps [OF assms(1) yields_guest_list]
  consider "tool = ''proxmox.cluster.status''" | "tool = ''proxmox.node.list''"
    | "tool = ''proxmox.guest.list''" | "tool = ''proxmox.storage.list''"
    | "tool \<in> {''proxmox.node.status'', ''proxmox.node.network''}"
    | "tool \<notin> {''proxmox.cluster.status'', ''proxmox.node.list'', ''proxmox.guest.list'',
        ''proxmox.storage.list'', ''proxmox.node.status'', ''proxmox.node.network''}"
    unfolding insert_iff empty_iff by satx
  then show ?thesis
  proof cases
    case 1
    with instance_reads(1) show ?thesis by (simp add: observe_target_def declared_out_def)
  next
    case 2
    with instance_reads(2) show ?thesis by (simp add: observe_target_def declared_out_def)
  next
    case 3
    with instance_reads(3) show ?thesis by (simp add: observe_target_def declared_out_def)
  next
    case 4
    with read_storage_keeps assms(1) show ?thesis by (simp add: observe_target_def declared_out_def)
  next
    case 5
    then have "observe_target w fetch tool target instance deadline = read_node w fetch tool target instance deadline"
      by (auto simp: observe_target_def)
    with read_node_keeps [OF assms(1) 5] show ?thesis by simp
  next
    case 6
    then have "observe_target w fetch tool target instance deadline = read_guest w fetch tool target instance deadline"
      by (simp add: observe_target_def)
    with read_guest_keeps [OF assms(1)] show ?thesis by simp
  qed
qed

lemma storage_rows_appends: "appends (storage_rows py fetch deadline nodes)"
  by (induction nodes) (auto intro!: appends_lift appends_then asks_appends [OF fetch_asks])

lemma observe_target_asks: "asks (observe_target w fetch tool target instance deadline)"
proof -
  have node: "asks (resolve_node py fetch target instance deadline)" for py
    unfolding resolve_node_def by (intro asks_second asks_intros asks_first fetch_asks)
  have guest: "asks (resolve_guest py fetch target instance guest_type deadline)" for py guest_type
    unfolding resolve_guest_def by (intro asks_second asks_intros asks_first fetch_asks)
  have online: "asks (online_nodes py fetch deadline)" for py
    unfolding online_nodes_def by (intro asks_intros asks_first fetch_asks)
  show ?thesis
    unfolding observe_target_def read_instance_def read_node_def read_guest_def read_storage_def
    by (simp split: if_split)
      (intro impI conjI asks_second [OF appends_lift] asks_first [OF node] asks_first [OF guest]
        asks_first [OF online] asks_first [OF fetch_asks] appends_then asks_appends [OF fetch_asks]
        appends_lift storage_rows_appends)
qed

end

section \<open>The transport is such a reader\<close>

definition asked_of :: "proxmox_client \<Rightarrow> string set \<Rightarrow> get_request \<times> http_reply \<Rightarrow> bool" where
  "asked_of cl keys x \<longleftrightarrow> rq_base (fst x) = cl_base cl \<and> rq_authorization (fst x) = cl_authorization cl \<and>
     rq_timeout (fst x) \<le> cl_timeout cl \<and>
     (\<exists>key \<in> keys. \<exists>node vmid. node_name node \<and> vmid_name vmid \<and>
        allowed_path key node vmid = Some (rq_path (fst x)))"

text \<open>A complete answer: status 200, a whole body within the limit, an object with a member \<open>data\<close>.\<close>

definition answered :: "outside \<Rightarrow> get_request \<times> http_reply \<Rightarrow> bool" where
  "answered w x \<longleftrightarrow> (\<exists>chunks d. snd x = Response 200 chunks None \<and>
     length (concat chunks) \<le> MAX_RESPONSE_BYTES \<and>
     json_loads w (concat chunks) = Decoded (PDict d) \<and> map_of d ''data'' \<noteq> None)"

lemma read_chunks_Inr:
  "read_chunks got chunks broken = Inr body \<Longrightarrow> got \<le> MAX_RESPONSE_BYTES \<Longrightarrow>
   broken = None \<and> body = concat chunks \<and> got + length body \<le> MAX_RESPONSE_BYTES"
proof (induction got chunks broken arbitrary: body rule: read_chunks.induct)
  case (1 got broken)
  then show ?case by (auto split: option.splits)
next
  case (2 got chunk chunks broken)
  then show ?case by (fastforce simp: andThen_eq_Inr split: if_splits)
qed

lemma raising_Inr: "raising m = Inr x \<longleftrightarrow> m = Inr x"
  by (cases m) (simp_all add: raising_def)

lemma body_of_Inr:
  assumes "body_of reply = Inr body"
  obtains chunks where "reply = Response 200 chunks None" "body = concat chunks"
    "length (concat chunks) \<le> MAX_RESPONSE_BYTES"
proof (cases reply)
  case (Response status chunks broken)
  with assms have "status = 200" "read_chunks 0 chunks broken = Inr body"
    by (auto simp: body_of_def andThen_eq_Inr check_status_def split: if_splits)
  with read_chunks_Inr [of 0 chunks broken body] have "reply = Response 200 chunks None"
    "body = concat chunks" "length (concat chunks) \<le> MAX_RESPONSE_BYTES"
    using Response by (simp_all only: le0 add_0)
  then show ?thesis by (rule that)
qed (use assms in \<open>simp add: body_of_def\<close>)

lemma envelope_Inr:
  "envelope w body = Inr v \<Longrightarrow> \<exists>d. json_loads w body = Decoded (PDict d) \<and> map_of d ''data'' = Some v"
  by (simp add: envelope_def split: decoded.splits pyval.splits option.splits)

lemma data_of_answered:
  assumes "data_of w a = Inr v"
  shows "answered w (q, a)"
proof -
  from assms obtain body where "body_of a = Inr body" "envelope w body = Inr v"
    by (auto simp: data_of_def andThen_eq_Inr raising_Inr)
  moreover from this(1) obtain chunks where "a = Response 200 chunks None" "body = concat chunks"
    "length (concat chunks) \<le> MAX_RESPONSE_BYTES" by (rule body_of_Inr)
  moreover from envelope_Inr [OF calculation(2)] obtain d
    where "json_loads w body = Decoded (PDict d)" "map_of d ''data'' = Some v" by blast
  ultimately show ?thesis unfolding answered_def by simp
qed

lemma get_data_cases:
  obtains (refused) e where "fst (get_data w cl key deadline segs c) = Inl e"
      "exchanges (snd (get_data w cl key deadline segs c)) = exchanges c"
  | (sent) ep path query q a where "map_of TOOL_ENDPOINTS key = Some ep"
      "build ep segs = Inr (path, query)" "rq_path q = path" "rq_base q = cl_base cl"
      "rq_authorization q = cl_authorization cl" "rq_timeout q \<le> cl_timeout cl"
      "exchanges (snd (get_data w cl key deadline segs c)) = exchanges c @ [(q, a)]"
      "fst (get_data w cl key deadline segs c) = data_of w a"
proof (cases "map_of TOOL_ENDPOINTS key")
  case None
  then show ?thesis by (intro refused) (simp_all add: get_data_def lift_def)
next
  case (Some ep)
  show ?thesis
  proof (cases "build ep segs")
    case (Inl e)
    then show ?thesis using Some
      by (intro refused) (simp_all add: get_data_def lift_def raising_def thenTalk_def)
  next
    case (Inr built)
    obtain path query where built: "built = (path, query)" by force
    show ?thesis
    proof (cases "deadline - monotonic w (readings c) \<le> 0")
      case True
      then show ?thesis using Some Inr built
        by (intro refused) (simp_all add: get_data_def lift_def raising_def thenTalk_def read_clock_def)
    next
      case False
      then show ?thesis using Some Inr built
        by (intro sent [of ep path query]) (simp_all add: get_data_def lift_def raising_def thenTalk_def
            read_clock_def exchange_def Let_def)
    qed
  qed
qed

lemma get_data_keeps:
  assumes key: "key \<in> keys" and segs: "\<And>k v. segs k = Some v \<Longrightarrow> drop_final_newline v = v"
  shows "keeps (asked_of cl keys) (answered w) (get_data w cl key deadline segs) (\<lambda>v. True)"
  unfolding keeps_def
proof
  fix c
  show "\<exists>new. exchanges (snd (get_data w cl key deadline segs c)) = exchanges c @ new \<and>
    (\<forall>x \<in> set new. asked_of cl keys x) \<and> (\<forall>v. fst (get_data w cl key deadline segs c) = Inr v \<longrightarrow>
      (\<forall>x \<in> set new. answered w x) \<and> True)"
  proof (cases rule: get_data_cases [of w cl key deadline segs c])
    case refused
    then show ?thesis by simp
  next
    case (sent ep path query q a)
    from sent(1,2) segs obtain node vmid
      where "allowed_path key node vmid = Some path" "node_name node" "vmid_name vmid"
      by (rule build_allowed)
    then have "\<exists>key \<in> keys. \<exists>node vmid. node_name node \<and> vmid_name vmid \<and>
        allowed_path key node vmid = Some (rq_path q)" using key sent(3) by blast
    with sent(4-6) have "asked_of cl keys (q, a)" by (simp add: asked_of_def)
    moreover have "answered w (q, a)" if "data_of w a = Inr v" for v using that by (rule data_of_answered)
    ultimately show ?thesis unfolding sent(7,8) by (intro exI [of _ "[(q, a)]"]) simp
  qed
qed

lemma get_data_asks: "asks (get_data w cl key deadline segs)"
  unfolding asks_def appends_def
proof (intro conjI allI impI)
  fix c
  show "\<exists>new. exchanges (snd (get_data w cl key deadline segs c)) = exchanges c @ new"
    by (cases rule: get_data_cases [of w cl key deadline segs c]) auto
  fix v
  assume "fst (get_data w cl key deadline segs c) = Inr v"
  then show "exchanges (snd (get_data w cl key deadline segs c)) \<noteq> exchanges c"
    by (cases rule: get_data_cases [of w cl key deadline segs c]) auto
qed

interpretation transport: reader "get_data w cl" "asked_of cl (insert NODE_INVENTORY (insert GUEST_INVENTORY keys))"
  "answered w" "insert NODE_INVENTORY (insert GUEST_INVENTORY keys)" for w cl keys
proof
  show "keeps (asked_of cl (insert NODE_INVENTORY (insert GUEST_INVENTORY keys))) (answered w)
      (get_data w cl key deadline segs) (\<lambda>v. True)"
    if "key \<in> insert NODE_INVENTORY (insert GUEST_INVENTORY keys)"
      "\<And>k v. segs k = Some v \<Longrightarrow> drop_final_newline v = v" for key deadline segs
    using that by (rule get_data_keeps)
  show "asks (get_data w cl key deadline segs)" for key deadline segs by (rule get_data_asks)
qed (rule insertI1, rule insertI2, rule insertI1)

end
