(* ===== verification/Proxmox_Reads.thy ===== *)
theory Proxmox_Reads
  imports Proxmox_Facts
begin

text \<open>
  The properties of the Proxmox adapter as a whole, from the tool's name and the target to the report.
\<close>

section \<open>Whom a read is about\<close>

text \<open>The identifier a tool reads, and the instance it names: all of it, or what stands before the slash.\<close>

definition namespace_of :: "string \<Rightarrow> string" where
  "namespace_of tool =
    (if tool \<in> {''proxmox.cluster.status'', ''proxmox.node.list'', ''proxmox.guest.list'',
        ''proxmox.storage.list''} then NS_INSTANCE
     else if tool \<in> {''proxmox.node.status'', ''proxmox.node.network''} then NS_NODE else NS_GUEST)"

definition names_instance :: "string \<Rightarrow> resolved_target \<Rightarrow> string \<Rightarrow> bool" where
  "names_instance namespace target instance \<longleftrightarrow> (\<exists>v. rt_identifiers target namespace = Some v \<and>
     same_instance (if namespace = NS_INSTANCE then v else takeWhile (\<lambda>c. c \<noteq> CHR ''/'') (strip v)) instance)"

lemma registered_identifier_Inr: "registered_identifier target namespace = Inr value \<Longrightarrow>
    \<exists>v. rt_identifiers target namespace = Some v \<and> value = strip v"
  by (auto simp: registered_identifier_def Let_def strip_def split: if_splits option.splits)

lemma strip_idem [simp]: "strip (strip s) = strip s"
proof -
  define t where "t = dropWhile is_space s"
  have front: "dropWhile is_space (strip s) = strip s"
  proof (cases "strip s")
    case (Cons c cs)
    have "t = rev (dropWhile is_space (rev t)) @ rev (takeWhile is_space (rev t))"
      by (metis rev_append rev_rev_ident takeWhile_dropWhile_id)
    then obtain u where "t = strip s @ u" by (metis strip_def t_def)
    then have "hd t = c" "t \<noteq> []" using Cons by auto
    then have "\<not> is_space c" unfolding t_def by (metis hd_dropWhile)
    then show ?thesis by (simp add: Cons)
  qed simp
  have "dropWhile is_space (rev (strip s)) = rev (strip s)"
    unfolding strip_def by simp
  with front show ?thesis unfolding strip_def [of "strip s"] by simp
qed

lemma partition_at_takeWhile: "partition_at c s = Some (a, b) \<Longrightarrow> a = takeWhile (\<lambda>d. d \<noteq> c) s"
  by (induction s arbitrary: a b) (auto split: if_splits option.splits)

lemma same_instance_strip [simp]: "same_instance (strip i) j \<longleftrightarrow> same_instance i j"
  by (simp add: same_instance_def)

lemma require_instance_names:
  "require_instance target instance = Inr i \<Longrightarrow> i = instance \<and> names_instance NS_INSTANCE target instance"
  by (auto simp: require_instance_def andThen_eq_Inr names_instance_def split: if_splits
      dest!: registered_identifier_Inr)

lemma scoped_names:
  assumes run: "scoped target namespace instance = Inr obj" and scope: "namespace \<noteq> NS_INSTANCE"
  shows "names_instance namespace target instance"
proof -
  from run obtain t where stored: "registered_identifier target namespace = Inr t"
    and rest: "(case partition_at CHR ''/'' t of None \<Rightarrow> Inl (Proxmox ProxmoxIdentifierError)
     | Some (i, obj) \<Rightarrow>
         if strip i = [] \<or> obj = [] \<or> CHR ''/'' \<in> set obj then Inl (Proxmox ProxmoxIdentifierError)
         else if \<not> same_instance i instance then Inl (Proxmox ProxmoxInstanceMismatchError)
         else Inr obj) = Inr obj"
    unfolding scoped_def andThen_eq_Inr by blast
  from rest obtain i b where "partition_at CHR ''/'' t = Some (i, b)" "same_instance i instance"
    by (simp split: option.splits prod.splits if_splits)
  with registered_identifier_Inr [OF stored] scope show ?thesis
    by (auto simp: names_instance_def dest: partition_at_takeWhile)
qed

lemma parse_vmid_names:
  "parse_vmid target instance = Inr vmid \<Longrightarrow> names_instance NS_GUEST target instance"
  by (auto simp: parse_vmid_def andThen_eq_Inr NS_GUEST_def NS_INSTANCE_def intro!: scoped_names)

text \<open>A check that fails ends the call before anything is asked.\<close>

lemma checked_first: "(\<And>v. m = Inr v \<Longrightarrow> P) \<Longrightarrow> exchanges (snd (thenTalk (lift m) k c)) \<noteq> exchanges c \<Longrightarrow> P"
  by (cases m) (auto simp: thenTalk_def lift_def)

lemma checked_inner:
  "(\<And>v. m = Inr v \<Longrightarrow> P) \<Longrightarrow>
   exchanges (snd (thenTalk (thenTalk (lift m) f) k c)) \<noteq> exchanges c \<Longrightarrow> P"
  by (cases m) (auto simp: thenTalk_def lift_def)

lemma observe_target_names:
  assumes "exchanges (snd (observe_target w fetch tool target instance deadline c)) \<noteq> exchanges c"
  shows "names_instance (namespace_of tool) target instance"
proof (cases "tool \<in> {''proxmox.cluster.status'', ''proxmox.node.list'', ''proxmox.guest.list'',
    ''proxmox.storage.list''}")
  case True
  then have ns: "namespace_of tool = NS_INSTANCE" by (simp add: namespace_of_def)
  have "names_instance NS_INSTANCE target instance"
    if "exchanges (snd (thenTalk (lift (require_instance target instance)) k c)) \<noteq> exchanges c"
    for k :: "string \<Rightarrow> pyval talk"
    using checked_first [OF _ that] require_instance_names by blast
  with True assms show ?thesis
    unfolding ns observe_target_def read_instance_def read_storage_def by (auto split: if_splits)
next
  case other: False
  show ?thesis
  proof (cases "tool \<in> {''proxmox.node.status'', ''proxmox.node.network''}")
    case True
    with assms other have ran: "exchanges (snd (read_node w fetch tool target instance deadline c)) \<noteq> exchanges c"
      by (auto simp: observe_target_def)
    have "scoped target NS_NODE instance = Inr obj \<Longrightarrow> names_instance NS_NODE target instance" for obj
      by (rule scoped_names) (simp_all add: NS_NODE_def NS_INSTANCE_def)
    from this ran have "names_instance NS_NODE target instance"
      unfolding read_node_def resolve_node_def by (rule checked_inner)
    then show ?thesis using True other by (simp add: namespace_of_def)
  next
    case False
    with assms other have ran: "exchanges (snd (read_guest w fetch tool target instance deadline c)) \<noteq> exchanges c"
      by (simp add: observe_target_def)
    from parse_vmid_names ran have "names_instance NS_GUEST target instance"
      unfolding read_guest_def resolve_guest_def by (rule checked_inner)
    then show ?thesis using False other by (simp add: namespace_of_def)
  qed
qed

section \<open>What a call amounts to\<close>

lemma new_client_Inr:
  "new_client s = Inr cl \<Longrightarrow> dp_proxmox_enabled s \<and> cl_instance cl = dp_instance_id s \<and>
   cl_timeout cl = dp_timeout_ms s \<and> cl_base cl = rstrip_slash (strip (dp_base_url s)) \<and>
   starts_with ''https://'' (lower (cl_base cl))"
  by (auto simp: new_client_def Let_def split: if_splits)

lemma execute_read_cases:
  obtains (refused) e c' where "execute_read w s rq c = (Inl e, c')" "exchanges c' = exchanges c"
  | (ran) cl deadline c0 where "new_client s = Inr cl" "ar_tool_name rq \<in> set SUPPORTED_TOOLS"
      "exchanges c0 = exchanges c"
      "execute_read w s rq c = observe_target w (get_data w cl) (ar_tool_name rq) (ar_target rq)
         (dp_instance_id s) deadline c0"
proof (cases "ar_tool_name rq \<in> set SUPPORTED_TOOLS")
  case False
  then show ?thesis by (intro refused) (auto simp: execute_read_def lift_def)
next
  case True
  show ?thesis
  proof (cases "new_client s")
    case (Inl e)
    with True show ?thesis
      by (intro refused [of "Proxmox e" "c\<lparr>readings := Suc (readings c)\<rparr>"])
        (simp_all add: execute_read_def lift_def thenTalk_def read_clock_def raising_def)
  next
    case (Inr cl)
    with True new_client_Inr [OF Inr] show ?thesis
      by (intro ran) (simp_all add: execute_read_def lift_def thenTalk_def read_clock_def raising_def)
  qed
qed

lemma thenTalk_Inr:
  "thenTalk m k c = (Inr v, c') \<longleftrightarrow> (\<exists>x c1. m c = (Inr x, c1) \<and> k x c1 = (Inr v, c'))"
  by (cases "m c"; cases "fst (m c)") (auto simp: thenTalk_def)

lemma lift_Inr: "lift m c = (Inr v, c') \<longleftrightarrow> m = Inr v \<and> c' = c"
  by (auto simp: lift_def)

lemma get_data_Inr:
  assumes "get_data w cl key deadline segs c = (Inr v, c')"
  obtains ep query q a where "map_of TOOL_ENDPOINTS key = Some ep" "build ep segs = Inr (rq_path q, query)"
    "exchanges c' = exchanges c @ [(q, a)]" "data_of w a = Inr v"
  using assms by (cases rule: get_data_cases [of w cl key deadline segs c]) auto

lemma record_of_known: "record_of ((k, Inr x) # ms) = Inr d \<longleftrightarrow> (\<exists>d'. record_of ms = Inr d' \<and> d = (k, x) # d')"
  by (auto simp: andThen_eq_Inr)

lemma guest_header:
  "dict (record_of ((''instance_id'', known i) # (''observed_at'', Inr t) # (''node'', known node) #
     (''vmid'', Inr n) # ms)) = Inr v \<Longrightarrow>
   \<exists>d. v = PDict ((''instance_id'', PStr i) # (''observed_at'', t) # (''node'', PStr node) # (''vmid'', n) # d)"
  unfolding known_def dict_def andThen_eq_Inr record_of_known by auto

lemma project_guest_header:
  "project_guest w tool instance node vmid data = Inr v \<Longrightarrow>
   \<exists>d. v = PDict ((''instance_id'', PStr instance) # (''observed_at'', PTime (utc_now w)) #
     (''node'', PStr node) # (''vmid'', PInt vmid) # d)"
  unfolding project_guest_def vm_status_def vm_config_def container_status_def container_config_def
    Let_def andThen_eq_Inr
  by (auto simp only: andThen_eq_Inr split: if_splits dest!: guest_header)

section \<open>The properties\<close>

text \<open>
  C6. Whatever the target and whatever the other host answers, the adapter asks only what is on the
  allow-list: the path of the tool's own endpoint or of one of the two inventories, with a plain host
  name and a number in it, under the https base address of the settings.  It asks nothing at all unless
  the integration is enabled and the target's own identifier names the configured instance.
\<close>

theorem reads_stay_on_the_allow_list:
  assumes "execute_read w s rq c = (outcome, c')"
  shows "\<exists>new. exchanges c' = exchanges c @ new \<and>
    (new \<noteq> [] \<longrightarrow> dp_proxmox_enabled s \<and>
       names_instance (namespace_of (ar_tool_name rq)) (ar_target rq) (dp_instance_id s)) \<and>
    (\<forall>(q, a) \<in> set new. starts_with ''https://'' (lower (rq_base q)) \<and>
       rq_base q = rstrip_slash (strip (dp_base_url s)) \<and> rq_timeout q \<le> dp_timeout_ms s \<and>
       (\<exists>key \<in> {ar_tool_name rq, NODE_INVENTORY, GUEST_INVENTORY}. \<exists>node vmid.
          node_name node \<and> vmid_name vmid \<and> allowed_path key node vmid = Some (rq_path q)))"
proof (cases rule: execute_read_cases [of w s rq c])
  case refused
  with assms show ?thesis by simp
next
  case (ran cl deadline c0)
  let ?keys = "insert NODE_INVENTORY (insert GUEST_INVENTORY {ar_tool_name rq})"
  note client = new_client_Inr [OF ran(1)]
  have "keeps (asked_of cl ?keys) (answered w) (observe_target w (get_data w cl) (ar_tool_name rq)
      (ar_target rq) (dp_instance_id s) deadline) (conforms (declared_out (ar_tool_name rq)))"
    by (rule transport.observe_target_keeps) (simp_all add: ran(2))
  then obtain new where new: "exchanges c' = exchanges c @ new" "\<forall>x \<in> set new. asked_of cl ?keys x"
    using assms ran(3,4) unfolding keeps_def by (metis snd_conv)
  have "names_instance (namespace_of (ar_tool_name rq)) (ar_target rq) (dp_instance_id s)" if "new \<noteq> []"
    by (rule observe_target_names [of w "get_data w cl" _ _ _ deadline c0])
      (use assms ran(3,4) new(1) that in simp)
  moreover have "starts_with ''https://'' (lower (rq_base q)) \<and>
       rq_base q = rstrip_slash (strip (dp_base_url s)) \<and> rq_timeout q \<le> dp_timeout_ms s \<and>
       (\<exists>key \<in> {ar_tool_name rq, NODE_INVENTORY, GUEST_INVENTORY}. \<exists>node vmid.
          node_name node \<and> vmid_name vmid \<and> allowed_path key node vmid = Some (rq_path q))"
    if "(q, a) \<in> set new" for q a
    using bspec [OF new(2) that] client unfolding asked_of_def by auto
  ultimately show ?thesis using new(1) client by (intro exI [of _ new]) auto
qed

text \<open>
  C8. A report rests on answers.  When a read returns, at least one request was made, and every one of
  them was answered in full: status 200, a whole body within the limit, an object with its \<open>data\<close>.  No
  failure of the transport and no unreadable body is ever reported as an empty inventory.
\<close>

theorem reports_rest_on_answers:
  assumes "execute_read w s rq c = (Inr v, c')"
  shows "\<exists>new. exchanges c' = exchanges c @ new \<and> new \<noteq> [] \<and> (\<forall>x \<in> set new. answered w x)"
proof (cases rule: execute_read_cases [of w s rq c])
  case refused
  with assms show ?thesis by simp
next
  case (ran cl deadline c0)
  let ?keys = "insert NODE_INVENTORY (insert GUEST_INVENTORY {ar_tool_name rq})"
  let ?talk = "observe_target w (get_data w cl) (ar_tool_name rq) (ar_target rq) (dp_instance_id s) deadline"
  have "keeps (asked_of cl ?keys) (answered w) ?talk (conforms (declared_out (ar_tool_name rq)))"
    by (rule transport.observe_target_keeps) (simp_all add: ran(2))
  then obtain new where new: "exchanges c' = exchanges c @ new" "\<forall>x \<in> set new. answered w x"
    using assms ran(3,4) unfolding keeps_def by (metis fst_conv snd_conv)
  have "asks ?talk" by (rule transport.observe_target_asks)
  then have "exchanges c' \<noteq> exchanges c"
    using assms ran(3,4) unfolding asks_def by (metis fst_conv snd_conv)
  with new show ?thesis by (intro exI [of _ new]) auto
qed

text \<open>
  C38. Whatever the other host sends, what a Proxmox tool reports is a value of the output model the
  tool declares: every required field with its type, the optional ones with theirs or \<open>None\<close>, and no
  other field.
\<close>

theorem reports_are_declared:
  assumes "execute_read w s rq c = (Inr v, c')"
  shows "conforms (declared_out (ar_tool_name rq)) v"
proof (cases rule: execute_read_cases [of w s rq c])
  case refused
  with assms show ?thesis by simp
next
  case (ran cl deadline c0)
  have "keeps (asked_of cl (insert NODE_INVENTORY (insert GUEST_INVENTORY {ar_tool_name rq}))) (answered w)
      (observe_target w (get_data w cl) (ar_tool_name rq) (ar_target rq) (dp_instance_id s) deadline)
      (conforms (declared_out (ar_tool_name rq)))"
    by (rule transport.observe_target_keeps) (simp_all add: ran(2))
  with assms ran(4) show ?thesis unfolding keeps_def by (metis fst_conv)
qed

lemma resolve_guest_Inr:
  assumes "resolve_guest py (get_data w cl) target instance guest_type deadline c = (Inr loc, c')"
  obtains q a inventory rs r where "parse_vmid target instance = Inr (gl_vmid loc)"
    "exchanges c' = exchanges c @ [(q, a)]" "rq_path q = ''/api2/json/cluster/resources''"
    "data_of w a = Inr inventory" "records inventory = Inr rs"
    "guest_matches py guest_type (gl_vmid loc) rs = [r]" "gl_node loc = word py r ''node''"
proof -
  from assms obtain vmid inventory c1 rs r where
    vmid: "parse_vmid target instance = Inr vmid"
    and asked: "get_data w cl GUEST_INVENTORY deadline Map.empty c = (Inr inventory, c1)"
    and found: "records inventory = Inr rs" "guest_matches py guest_type vmid rs = [r]"
    and loc: "loc = \<lparr>gl_vmid = vmid, gl_type = guest_type, gl_node = word py r ''node'', gl_record = r\<rparr>" "c' = c1"
    unfolding resolve_guest_def
    by (auto simp: thenTalk_Inr lift_Inr andThen_eq_Inr the_only_Inr Let_def split: if_splits)
  from get_data_Inr [OF asked] obtain ep query q a where sent: "map_of TOOL_ENDPOINTS GUEST_INVENTORY = Some ep"
    "build ep Map.empty = Inr (rq_path q, query)" "exchanges c1 = exchanges c @ [(q, a)]"
    "data_of w a = Inr inventory" by metis
  from sent(1,2) have "rq_path q = ''/api2/json/cluster/resources''"
    by (auto simp: TOOL_ENDPOINTS_def GUEST_INVENTORY_def build_def)
  with vmid found sent(3,4) loc that [of q a inventory rs r] show ?thesis by simp
qed

lemma guest_path:
  assumes tool: "tool \<in> {''proxmox.vm.status'', ''proxmox.vm.config'', ''proxmox.container.status'',
      ''proxmox.container.config''}"
    and entry: "map_of TOOL_ENDPOINTS tool = Some ep"
    and built: "build ep [''node'' \<mapsto> node, ''vmid'' \<mapsto> vmid] = Inr (path, query)"
    and stripped: "drop_final_newline node = node" "drop_final_newline vmid = vmid"
  shows "allowed_path tool node vmid = Some path"
proof -
  have segments: "set (ep_segments ep) = {''node'', ''vmid''}"
    using tool entry by (auto simp: TOOL_ENDPOINTS_def)
  from entry built obtain node' vmid' where "allowed_path tool node' vmid' = Some path"
    "''node'' \<in> set (ep_segments ep) \<Longrightarrow> [''node'' \<mapsto> node, ''vmid'' \<mapsto> vmid] ''node'' = Some node'"
    "''vmid'' \<in> set (ep_segments ep) \<Longrightarrow> [''node'' \<mapsto> node, ''vmid'' \<mapsto> vmid] ''vmid'' = Some vmid'"
    by (rule build_allowed) (auto simp: stripped split: if_splits)
  then show ?thesis by (simp add: segments)
qed

text \<open>
  C7. A guest is read where it runs.  A successful read of a virtual machine or a container made
  exactly two requests: the inventory, which listed exactly one guest with the number in the target's
  identifier and the technology of the tool, and then the path with that record's node and that number.
  The report carries this node and this number, whatever the second answer says.
\<close>

theorem guests_are_read_where_they_run:
  assumes tool: "ar_tool_name rq \<in> {''proxmox.vm.status'', ''proxmox.vm.config'',
      ''proxmox.container.status'', ''proxmox.container.config''}"
    and run: "execute_read w s rq c = (Inr v, c')"
  shows "\<exists>vmid inventory rs r q1 a1 q2 a2 d.
    parse_vmid (ar_target rq) (dp_instance_id s) = Inr vmid \<and>
    exchanges c' = exchanges c @ [(q1, a1), (q2, a2)] \<and>
    rq_path q1 = ''/api2/json/cluster/resources'' \<and>
    data_of w a1 = Inr inventory \<and> records inventory = Inr rs \<and>
    filter (\<lambda>r. lower (word (builtin w) r ''type'') =
          (if ar_tool_name rq \<in> {''proxmox.vm.status'', ''proxmox.vm.config''} then ''qemu'' else ''lxc'') \<and>
        record_vmid (builtin w) r = Some vmid) rs = [r] \<and>
    allowed_path (ar_tool_name rq) (word (builtin w) r ''node'') (show_int vmid) = Some (rq_path q2) \<and>
    v = PDict d \<and> pget d ''instance_id'' = PStr (dp_instance_id s) \<and>
    pget d ''node'' = PStr (word (builtin w) r ''node'') \<and> pget d ''vmid'' = PInt vmid"
proof (cases rule: execute_read_cases [of w s rq c])
  case refused
  with run show ?thesis by simp
next
  case (ran cl deadline c0)
  let ?tool = "ar_tool_name rq"
  have "read_guest w (get_data w cl) ?tool (ar_target rq) (dp_instance_id s) deadline c0 = (Inr v, c')"
    using run tool unfolding ran(4) observe_target_def by (elim insertE emptyE) simp_all
  then obtain loc c1 data where
    loc: "resolve_guest (builtin w) (get_data w cl) (ar_target rq) (dp_instance_id s)
        (guest_type_of ?tool) deadline c0 = (Inr loc, c1)"
    and asked: "get_data w cl ?tool deadline [''node'' \<mapsto> gl_node loc, ''vmid'' \<mapsto> show_int (gl_vmid loc)] c1
        = (Inr data, c')"
    and report: "project_guest w ?tool (dp_instance_id s) (gl_node loc) (gl_vmid loc) data = Inr v"
    unfolding read_guest_def by (auto simp: thenTalk_Inr lift_Inr)
  from resolve_guest_Inr [OF loc] obtain q1 a1 inventory rs r where
    first: "parse_vmid (ar_target rq) (dp_instance_id s) = Inr (gl_vmid loc)"
      "exchanges c1 = exchanges c0 @ [(q1, a1)]" "rq_path q1 = ''/api2/json/cluster/resources''"
      "data_of w a1 = Inr inventory" "records inventory = Inr rs"
      "guest_matches (builtin w) (guest_type_of ?tool) (gl_vmid loc) rs = [r]"
      "gl_node loc = word (builtin w) r ''node''" by metis
  from get_data_Inr [OF asked] obtain ep query q2 a2 where second: "map_of TOOL_ENDPOINTS ?tool = Some ep"
    "build ep [''node'' \<mapsto> gl_node loc, ''vmid'' \<mapsto> show_int (gl_vmid loc)] = Inr (rq_path q2, query)"
    "exchanges c' = exchanges c1 @ [(q2, a2)]" by metis
  have "guest_type_of ?tool =
      (if ?tool \<in> {''proxmox.vm.status'', ''proxmox.vm.config''} then ''qemu'' else ''lxc'')"
    using tool by (elim insertE emptyE) (simp_all add: guest_type_of_def GUEST_TYPE_QEMU_def GUEST_TYPE_LXC_def)
  note listed = first(6) [unfolded this guest_matches_def]
  have "allowed_path ?tool (gl_node loc) (show_int (gl_vmid loc)) = Some (rq_path q2)"
    by (rule guest_path [OF tool second(1,2)]) (simp_all add: first(7) word_no_newline show_int_no_newline)
  moreover from project_guest_header [OF report] obtain d where
    "v = PDict ((''instance_id'', PStr (dp_instance_id s)) # (''observed_at'', PTime (utc_now w)) #
       (''node'', PStr (gl_node loc)) # (''vmid'', PInt (gl_vmid loc)) # d)" by blast
  ultimately show ?thesis
    using first(1-5,7) listed second(3) ran(3)
    by - (rule exI [of _ "gl_vmid loc"], rule exI [of _ inventory], rule exI [of _ rs], rule exI [of _ r],
      rule exI [of _ q1], rule exI [of _ a1], rule exI [of _ q2], rule exI [of _ a2], simp add: pget_def cong: if_cong)
qed

section \<open>Where the code and its comments part\<close>

text \<open>A segment may contain two dots, which the comment on the patterns rules out.\<close>

lemma dotted_name_passes: "NODE_PATTERN ''a..b'' \<and> contains ''a..b'' ''..''"
  by code_simp

text \<open>An identifier that ends in a superscript digit passes the digit test and then raises.\<close>

lemma superscript_vmid_crashes:
  "parse_vmid \<lparr>rt_kind = TK_ASSET, rt_asset_id = None, rt_display_name = [], rt_asset_type = [],
     rt_identifiers = [NS_GUEST \<mapsto> ''lab/'' @ [CHR 0xB2]], rt_external_ref = []\<rparr> ''lab'' = Inl Crash"
  by code_simp

text \<open>A number beyond the floats raises out of a projection instead of reading as absent.\<close>

lemma infinite_count_crashes:
  "node_list py now instance (PList [PDict [(''node'', PStr ''pve''), (''maxcpu'', PFloat (Infinite True))]])
   = Inl Crash"
  by (simp add: node_list_def node_summary_def pget_def needed_def str_out_def int_out_def float_out_def
    strip_def is_space_def dict_def listing_def known_def)

text \<open>A text with the prefix of a hexadecimal literal is taken for a UUID.\<close>

lemma prefixed_uuid_passes: "uuid_of_text ''0x123456781234567812345678123456'' \<noteq> None"
proof -
  have "filter (\<lambda>c. c \<noteq> CHR ''-'') (strip_braces (erase ''uuid:'' (erase ''urn:'' ''0x123456781234567812345678123456'')))
      = ''0x123456781234567812345678123456''"
    by code_simp
  moreover have "unsign (strip ''0x123456781234567812345678123456'') = (False, ''0x123456781234567812345678123456'')"
    "strip_prefix ''0x123456781234567812345678123456'' = ''123456781234567812345678123456''"
    "grouped is_hex ''123456781234567812345678123456''"
    by code_simp+
  ultimately show ?thesis by (simp add: uuid_of_text_def hex_of_text_def Let_def)
qed

end
