(* ===== verification/Proxmox_Witnesses.thy ===== *)
theory Proxmox_Witnesses
  imports Proxmox_Reads
begin

text \<open>
  A lab with one node and one virtual machine: the properties of the Proxmox adapter at a concrete
  read, from the settings to the report.
\<close>

definition lab_settings :: deployment where
  "lab_settings = \<lparr>dp_environment = DEVELOPMENT, dp_debug = False, dp_auth_enabled = False,
     dp_api_keys = [], dp_fingerprint_salt = [], dp_allow_self_approval = False,
     dp_proxmox_enabled = True, dp_instance_id = ''lab'', dp_base_url = ''https://pve.lab:8006/'',
     dp_token_id = ''acop@pve!read'', dp_token_secret = ''s3cret'', dp_verify_tls = True,
     dp_timeout_ms = 15000\<rparr>"

definition lab_python :: python where
  "lab_python = \<lparr>py_render = (\<lambda>v. ''0.5''), py_read_float = (\<lambda>s. None)\<rparr>"

definition lab_outside :: outside where
  "lab_outside = \<lparr>monotonic = (\<lambda>n. int n),
     replies = (\<lambda>n rq. Response 200 [if n = 0 then ''inventory'' else ''status''] None),
     json_loads = (\<lambda>s. if s = ''inventory''
       then Decoded (PDict [(''data'', PList [PDict [(''vmid'', PInt 100), (''type'', PStr ''qemu''),
              (''node'', PStr ''PVE'')]])])
       else Decoded (PDict [(''data'', PDict [(''status'', PStr ''running''), (''cpus'', PStr ''2''),
              (''node'', PStr ''other'')])])),
     utc_now = 1760000000, builtin = lab_python\<rparr>"

definition lab_request :: adapter_request where
  "lab_request = \<lparr>ar_invocation_id = 1, ar_tool_name = ''proxmox.vm.status'', ar_tool_version = ''1.0'',
     ar_target = \<lparr>rt_kind = TK_ASSET, rt_asset_id = Some 1, rt_display_name = ''web'',
       rt_asset_type = ''VM'', rt_identifiers = [NS_GUEST \<mapsto> ''lab/100''], rt_external_ref = []\<rparr>,
     ar_payload = [], ar_timeout_milli = 35000, ar_attempt = 1\<rparr>"

definition lab_start :: conversation where
  "lab_start = \<lparr>readings = 0, exchanges = []\<rparr>"

definition lab_run :: "(adapter_failure + pyval) \<times> conversation" where
  "lab_run = execute_read lab_outside lab_settings lab_request lab_start"

lemma lab_client: "new_client lab_settings = Inr \<lparr>cl_instance = ''lab'', cl_timeout = 15000,
    cl_base = ''https://pve.lab:8006'', cl_authorization = ''PVEAPIToken=acop@pve!read=s3cret''\<rparr>"
  by code_simp

lemma lab_target: "parse_vmid (ar_target lab_request) ''lab'' = Inr 100"
  by code_simp

definition lab_cl :: proxmox_client where
  "lab_cl = \<lparr>cl_instance = ''lab'', cl_timeout = 15000, cl_base = ''https://pve.lab:8006'',
     cl_authorization = ''PVEAPIToken=acop@pve!read=s3cret''\<rparr>"

definition lab_ask :: "string \<Rightarrow> (string \<times> string) list \<Rightarrow> get_request" where
  "lab_ask path query = \<lparr>rq_base = ''https://pve.lab:8006'', rq_path = path, rq_query = query,
     rq_authorization = ''PVEAPIToken=acop@pve!read=s3cret'', rq_timeout = 15000\<rparr>"

definition lab_guest :: pydict where
  "lab_guest = [(''vmid'', PInt 100), (''type'', PStr ''qemu''), (''node'', PStr ''PVE'')]"

definition lab_status :: pydict where
  "lab_status = [(''status'', PStr ''running''), (''cpus'', PStr ''2''), (''node'', PStr ''other'')]"

lemma lab_bodies: "body_of (Response 200 [''inventory''] None) = Inr ''inventory''"
  "body_of (Response 200 [''status''] None) = Inr ''status''"
  by (simp_all add: body_of_def check_status_def MAX_RESPONSE_BYTES_def)

lemma lab_data: "data_of lab_outside (Response 200 [''inventory''] None) = Inr (PList [PDict lab_guest])"
  "data_of lab_outside (Response 200 [''status''] None) = Inr (PDict lab_status)"
  unfolding data_of_def lab_bodies raising_def
  by (simp_all add: envelope_def lab_outside_def lab_guest_def lab_status_def)

lemma lab_endpoints:
  "map_of TOOL_ENDPOINTS GUEST_INVENTORY = Some \<lparr>ep_template = ''/api2/json/cluster/resources'',
     ep_segments = [], ep_query = [(''type'', ''vm'')]\<rparr>"
  "map_of TOOL_ENDPOINTS ''proxmox.vm.status'' =
     Some \<lparr>ep_template = ''/api2/json/nodes/{node}/qemu/{vmid}/status/current'',
       ep_segments = [''node'', ''vmid''], ep_query = []\<rparr>"
  by code_simp+

lemma lab_built:
  "build \<lparr>ep_template = ''/api2/json/cluster/resources'', ep_segments = [], ep_query = [(''type'', ''vm'')]\<rparr>
     Map.empty = Inr (''/api2/json/cluster/resources'', [(''type'', ''vm'')])"
  "build \<lparr>ep_template = ''/api2/json/nodes/{node}/qemu/{vmid}/status/current'',
       ep_segments = [''node'', ''vmid''], ep_query = []\<rparr> [''node'' \<mapsto> ''PVE'', ''vmid'' \<mapsto> show_int 100]
     = Inr (''/api2/json/nodes/PVE/qemu/100/status/current'', [])"
  by code_simp+

lemma lab_inventory:
  "get_data lab_outside lab_cl GUEST_INVENTORY 35000 Map.empty \<lparr>readings = 1, exchanges = []\<rparr> =
     (Inr (PList [PDict lab_guest]), \<lparr>readings = 2, exchanges =
        [(lab_ask ''/api2/json/cluster/resources'' [(''type'', ''vm'')], Response 200 [''inventory''] None)]\<rparr>)"
  unfolding get_data_def lab_endpoints option.case lab_built
  by (simp add: raising_def lift_def thenTalk_def read_clock_def exchange_def lab_outside_def lab_cl_def
      lab_ask_def Let_def lab_data [unfolded lab_outside_def])

lemma lab_reading:
  "get_data lab_outside lab_cl ''proxmox.vm.status'' 35000 [''node'' \<mapsto> ''PVE'', ''vmid'' \<mapsto> show_int 100]
     \<lparr>readings = 2, exchanges = [x]\<rparr> =
     (Inr (PDict lab_status), \<lparr>readings = 3, exchanges = [x,
        (lab_ask ''/api2/json/nodes/PVE/qemu/100/status/current'' [], Response 200 [''status''] None)]\<rparr>)"
  unfolding get_data_def lab_endpoints option.case lab_built
  by (simp add: raising_def lift_def thenTalk_def read_clock_def exchange_def lab_outside_def lab_cl_def
      lab_ask_def Let_def lab_data [unfolded lab_outside_def])

lemma lab_located:
  "andThen (records (PList [PDict lab_guest])) (\<lambda>rs. andThen (the_only (guest_matches lab_python ''qemu'' 100 rs)) (\<lambda>r.
     let node = word lab_python r ''node'' in
     if node = [] then Inl (Proxmox ProxmoxProtocolError)
     else Inr \<lparr>gl_vmid = 100, gl_type = ''qemu'', gl_node = node, gl_record = r\<rparr>)) =
   Inr \<lparr>gl_vmid = 100, gl_type = ''qemu'', gl_node = ''PVE'', gl_record = lab_guest\<rparr>"
  by code_simp

lemma lab_report: "\<exists>v. project_guest lab_outside ''proxmox.vm.status'' ''lab'' ''PVE'' 100 (PDict lab_status) = Inr v"
  by (simp add: project_guest_def vm_status_def dict_def str_out_def int_out_def float_out_def bool_out_def
      known_def pget_def lab_status_def int_of_text_def strip_def is_space_def unsign_def grouped_def
      is_digit_def read_nat_def Let_def)

lemma lab_runs:
  obtains v where "execute_read lab_outside lab_settings lab_request lab_start = (Inr v, \<lparr>readings = 3, exchanges =
     [(lab_ask ''/api2/json/cluster/resources'' [(''type'', ''vm'')], Response 200 [''inventory''] None),
      (lab_ask ''/api2/json/nodes/PVE/qemu/100/status/current'' [], Response 200 [''status''] None)]\<rparr>)"
proof -
  from lab_report obtain v where
    v: "project_guest lab_outside ''proxmox.vm.status'' ''lab'' ''PVE'' 100 (PDict lab_status) = Inr v" ..
  have tool: "ar_tool_name lab_request = ''proxmox.vm.status''" "ar_timeout_milli lab_request = 35000"
    "''proxmox.vm.status'' \<in> set SUPPORTED_TOOLS" "guest_type_of ''proxmox.vm.status'' = ''qemu''"
    by (simp_all add: lab_request_def SUPPORTED_TOOLS_def guest_type_of_def GUEST_TYPE_QEMU_def)
  have py: "builtin lab_outside = lab_python" "monotonic lab_outside 0 = 0" "cl_instance lab_cl = ''lab''"
    by (simp_all add: lab_outside_def lab_cl_def)
  have "resolve_guest lab_python (get_data lab_outside lab_cl) (ar_target lab_request) ''lab'' ''qemu'' 35000
      \<lparr>readings = 1, exchanges = []\<rparr> =
     (Inr \<lparr>gl_vmid = 100, gl_type = ''qemu'', gl_node = ''PVE'', gl_record = lab_guest\<rparr>, \<lparr>readings = 2, exchanges =
        [(lab_ask ''/api2/json/cluster/resources'' [(''type'', ''vm'')], Response 200 [''inventory''] None)]\<rparr>)"
    unfolding resolve_guest_def lab_target
    by (simp only: thenTalk_def lift_def prod.case sum.case lab_inventory lab_located)
  then have "read_guest lab_outside (get_data lab_outside lab_cl) ''proxmox.vm.status'' (ar_target lab_request)
      ''lab'' 35000 \<lparr>readings = 1, exchanges = []\<rparr> = (Inr v, \<lparr>readings = 3, exchanges =
     [(lab_ask ''/api2/json/cluster/resources'' [(''type'', ''vm'')], Response 200 [''inventory''] None),
      (lab_ask ''/api2/json/nodes/PVE/qemu/100/status/current'' [], Response 200 [''status''] None)]\<rparr>)"
    unfolding read_guest_def tool py(1)
    by (simp only: thenTalk_def lift_def prod.case sum.case guest_location.simps lab_reading v)
  then have "execute_read lab_outside lab_settings lab_request lab_start = (Inr v, \<lparr>readings = 3, exchanges =
     [(lab_ask ''/api2/json/cluster/resources'' [(''type'', ''vm'')], Response 200 [''inventory''] None),
      (lab_ask ''/api2/json/nodes/PVE/qemu/100/status/current'' [], Response 200 [''status''] None)]\<rparr>)"
    by (simp add: execute_read_def tool lab_client raising_def lift_def thenTalk_def [of "read_clock lab_outside"]
        thenTalk_def [of "lift m" for m] read_clock_def lab_start_def py observe_target_def flip: lab_cl_def)
  then show ?thesis by (rule that)
qed

section \<open>The properties at this read\<close>

theorem reads_stay_on_the_allow_list_witness:
  "\<exists>new. exchanges (snd (execute_read lab_outside lab_settings lab_request lab_start)) = new \<and>
     length new = 2 \<and> names_instance NS_GUEST (ar_target lab_request) ''lab'' \<and>
     (\<forall>(q, a) \<in> set new. starts_with ''https://'' (lower (rq_base q)))"
proof -
  from lab_runs obtain v c' where run: "execute_read lab_outside lab_settings lab_request lab_start = (Inr v, c')"
    and two: "length (exchanges c') = 2" by (metis conversation.select_convs(2) length_Cons list.size(3)
      One_nat_def Suc_1)
  have start: "exchanges lab_start = []" and tool: "namespace_of (ar_tool_name lab_request) = NS_GUEST"
    "dp_instance_id lab_settings = ''lab''"
    by (simp_all add: lab_start_def lab_request_def namespace_of_def lab_settings_def)
  from reads_stay_on_the_allow_list [OF run] two show ?thesis
    unfolding run snd_conv start tool by (intro exI [of _ "exchanges c'"]) auto
qed

theorem reports_rest_on_answers_witness:
  "\<exists>v c'. execute_read lab_outside lab_settings lab_request lab_start = (Inr v, c') \<and>
     exchanges c' \<noteq> [] \<and> (\<forall>x \<in> set (exchanges c'). answered lab_outside x)"
proof -
  from lab_runs obtain v c' where run: "execute_read lab_outside lab_settings lab_request lab_start = (Inr v, c')"
    by metis
  have start: "exchanges lab_start = []" by (simp add: lab_start_def)
  from reports_rest_on_answers [OF run] run show ?thesis unfolding start by auto
qed

theorem reports_are_declared_witness:
  "\<exists>v c'. execute_read lab_outside lab_settings lab_request lab_start = (Inr v, c') \<and> conforms vm_status_out v"
proof -
  from lab_runs obtain v c' where run: "execute_read lab_outside lab_settings lab_request lab_start = (Inr v, c')"
    by metis
  have "declared_out (ar_tool_name lab_request) = vm_status_out" by (simp add: declared_out_def lab_request_def)
  with reports_are_declared [OF run] run show ?thesis by auto
qed

theorem guests_are_read_where_they_run_witness:
  "\<exists>d c'. execute_read lab_outside lab_settings lab_request lab_start = (Inr (PDict d), c') \<and>
     length (exchanges c') = 2 \<and> pget d ''vmid'' = PInt 100"
proof -
  from lab_runs obtain v c' where run: "execute_read lab_outside lab_settings lab_request lab_start = (Inr v, c')"
    by metis
  have tool: "ar_tool_name lab_request \<in> {''proxmox.vm.status'', ''proxmox.vm.config'',
      ''proxmox.container.status'', ''proxmox.container.config''}" by (simp add: lab_request_def)
  have start: "exchanges lab_start = []" "dp_instance_id lab_settings = ''lab''"
    by (simp_all add: lab_start_def lab_settings_def)
  from guests_are_read_where_they_run [OF tool run] run show ?thesis
    unfolding start lab_target by auto
qed

end
