(* ===== verification/Worker.thy ===== *)
theory Worker
  imports Lifecycle
begin

text \<open>
  \<open>services/tools/worker.py\<close>: the loop that polls for ready invocations, reaps and sweeps.  The
  execution of one invocation is an argument, a function of its number within the poll; the lemmas
  about the program instantiate it with the dispatcher's \<open>execute_once\<close>.
\<close>

section \<open>The loop\<close>

text \<open>What one execution leaves: the calls it made, what it returned or raised, and the store.\<close>

type_synonym executor = "nat \<Rightarrow> uuid \<Rightarrow> store \<Rightarrow> adapter_call list \<times> (acop_error + invocation_state) \<times> store"

definition ready_ids :: "nat \<Rightarrow> store \<Rightarrow> uuid list" where
  "ready_ids limit st = map inv_id (take limit (sort_key (\<lambda>r. s_requested_at (inv_snap r))
     (filter (\<lambda>r. inv_state r = READY) (invocations st))))"

fun run_ready :: "executor \<Rightarrow> nat \<Rightarrow> uuid list \<Rightarrow> store \<Rightarrow> (acop_error + nat) \<times> store" where
  "run_ready attempt n [] st = (Inr n, st)"
| "run_ready attempt n (i # is) st = (case attempt n i st of
     (calls, Inl e, st') \<Rightarrow> (Inl e, st')
   | (calls, Inr s, st') \<Rightarrow> run_ready attempt (Suc n) is st')"

definition dispatch_ready :: "executor \<Rightarrow> store \<Rightarrow> (acop_error + nat) \<times> store" where
  "dispatch_ready attempt st = run_ready attempt 0 (ready_ids 10 st) st"

text \<open>Intervals in milliseconds.\<close>

definition reap_every :: "int \<Rightarrow> int \<Rightarrow> nat" where
  "reap_every poll_ms reap_ms = nat (max 1 (reap_ms div max poll_ms 10))"

text \<open>
  One pass of the loop; an exception of any of its parts ends the pass, is logged and swallowed: what is
  logged is the second component.  \<open>now\<close> is the instant of the reaper and \<open>swept_at\<close> the instant of
  the sweeper.
\<close>

definition pass :: "executor \<Rightarrow> nat \<Rightarrow> int \<Rightarrow> int \<Rightarrow> nat \<Rightarrow> store \<Rightarrow> store \<times> acop_error list" where
  "pass attempt every now swept_at tick st = (case dispatch_ready attempt st of
     (Inl e, st1) \<Rightarrow> (st1, [e])
   | (Inr n, st1) \<Rightarrow>
       if tick mod every = 0 then
         (case reap_expired_leases now 50 st1 of
            (Inl e, st2) \<Rightarrow> (st2, [e])
          | (Inr k, st2) \<Rightarrow> (case expire_stale swept_at 100 st2 of
              (Inl e, st3) \<Rightarrow> (st3, [e]) | (Inr m, st3) \<Rightarrow> (st3, [])))
       else (st1, []))"

text \<open>The loop as often as it goes round before it is asked to stop, and all it logs.\<close>

record turn =
  tn_execute :: executor
  tn_reaped_at :: int
  tn_swept_at :: int

fun passes :: "nat \<Rightarrow> nat \<Rightarrow> turn list \<Rightarrow> store \<Rightarrow> store \<times> acop_error list" where
  "passes every tick [] st = (st, [])"
| "passes every tick (t # ts) st =
     (case pass (tn_execute t) every (tn_reaped_at t) (tn_swept_at t) (Suc tick) st of (st1, es) \<Rightarrow>
      case passes every (Suc tick) ts st1 of (st2, fs) \<Rightarrow> (st2, es @ fs))"

lemma passes_Cons:
  "fst (passes every tick (t # ts) st) = fst (passes every (Suc tick) ts
     (fst (pass (tn_execute t) every (tn_reaped_at t) (tn_swept_at t) (Suc tick) st)))"
  "snd (passes every tick (t # ts) st) =
     snd (pass (tn_execute t) every (tn_reaped_at t) (tn_swept_at t) (Suc tick) st) @
     snd (passes every (Suc tick) ts (fst (pass (tn_execute t) every (tn_reaped_at t) (tn_swept_at t) (Suc tick) st)))"
  by (simp_all split: prod.split)

text \<open>\<open>start\<close>: nothing runs where the dispatcher is disabled.\<close>

definition run_worker :: "bool \<Rightarrow> int \<Rightarrow> int \<Rightarrow> turn list \<Rightarrow> store \<Rightarrow> store \<times> acop_error list" where
  "run_worker enabled poll_ms reap_ms turns st =
    (if enabled then passes (reap_every poll_ms reap_ms) 0 turns st else (st, []))"

section \<open>The loop adds no step of its own\<close>

text \<open>\<open>gets_to w st\<close>: from the world \<open>w\<close>, steps of the program reach a world with the store \<open>st\<close>.\<close>

definition gets_to :: "world \<Rightarrow> store \<Rightarrow> bool" where
  "gets_to w st \<longleftrightarrow> (\<exists>w'. acts\<^sup>*\<^sup>* w w' \<and> db w' = st)"

text \<open>An executor whose every execution is a path.\<close>

definition by_steps :: "executor \<Rightarrow> bool" where
  "by_steps attempt \<longleftrightarrow> (\<forall>n i w. gets_to w (snd (snd (attempt n i (db w)))))"

lemma gets_to_trans:
  assumes "gets_to w st" and "\<And>w' :: world. db w' = st \<Longrightarrow> gets_to w' st'"
  shows "gets_to w st'"
proof -
  from assms(1) obtain w1 where w1: "acts\<^sup>*\<^sup>* w w1" "db w1 = st" unfolding gets_to_def by blast
  from assms(2) [OF w1(2)] obtain w2 where "acts\<^sup>*\<^sup>* w1 w2" "db w2 = st'" unfolding gets_to_def by blast
  moreover from w1(1) this(1) have "acts\<^sup>*\<^sup>* w w2" by (rule rtranclp_trans)
  ultimately show ?thesis unfolding gets_to_def by blast
qed

lemma gets_to_refl: "gets_to w (db w)"
  unfolding gets_to_def by blast

lemma gets_to_step: "acts w w' \<Longrightarrow> gets_to w (db w')"
  unfolding gets_to_def by blast

lemma run_ready_gets_to: "by_steps attempt \<Longrightarrow> gets_to w (snd (run_ready attempt n is (db w)))"
proof (induction "is" arbitrary: n w)
  case (Cons i "is")
  obtain calls res st where out: "attempt n i (db w) = (calls, res, st)" by (metis prod_cases3)
  with Cons.prems have first: "gets_to w st" unfolding by_steps_def by (metis snd_conv)
  show ?case
  proof (cases res)
    case (Inl e)
    with first out show ?thesis by simp
  next
    case (Inr s)
    from first have "gets_to w (snd (run_ready attempt (Suc n) is st))"
      using Cons by (rule_tac gets_to_trans) auto
    with Inr out show ?thesis by simp
  qed
qed (simp add: gets_to_refl)

lemma reaped_gets_to: "gets_to w (snd (reap_expired_leases now limit (db w)))"
  using gets_to_step [OF acts.reaped, of w now limit] by (simp add: with_db_def)

lemma swept_gets_to: "gets_to w (snd (expire_stale now limit (db w)))"
  using gets_to_step [OF acts.swept, of w now limit] by (simp add: with_db_def)

lemma pass_gets_to:
  assumes "by_steps attempt"
  shows "gets_to w (fst (pass attempt every now swept_at tick (db w)))"
proof -
  obtain res st1 where one: "dispatch_ready attempt (db w) = (res, st1)" by force
  have first: "gets_to w st1"
    using run_ready_gets_to [OF assms, of w 0 "ready_ids 10 (db w)"] one by (simp add: dispatch_ready_def)
  obtain res2 st2 where two: "reap_expired_leases now 50 st1 = (res2, st2)" by force
  have second: "gets_to w st2"
    using first by (rule gets_to_trans) (use reaped_gets_to two in \<open>metis snd_conv\<close>)
  have "gets_to w (snd (expire_stale swept_at 100 st2))"
    using second by (rule gets_to_trans) (use swept_gets_to in blast)
  with first second show ?thesis
    by (auto simp: pass_def one two split: sum.splits prod.splits)
qed

lemma passes_gets_to:
  "list_all (\<lambda>t. by_steps (tn_execute t)) ts \<Longrightarrow> gets_to w (fst (passes every tick ts (db w)))"
proof (induction ts arbitrary: tick w)
  case (Cons t ts)
  let ?pass = "pass (tn_execute t) every (tn_reaped_at t) (tn_swept_at t) (Suc tick) (db w)"
  have "gets_to w (fst ?pass)"
    using Cons.prems by (intro pass_gets_to) simp
  then show ?case
  proof (rule gets_to_trans)
    fix w' :: world
    assume "db w' = fst ?pass"
    then show "gets_to w' (fst (passes every tick (t # ts) (db w)))"
      using Cons.IH [of w' "Suc tick"] Cons.prems by (simp add: passes_Cons del: passes.simps)
  qed
qed (simp add: gets_to_refl)

lemma execute_once_gets_to:
  "gets_to w (snd (snd (execute_once sha256 registry resolve_adapter cfg now gate_at done_at lease
     validation_lease i (db w))))"
proof (cases "session (claim cfg now lease i (db w)) (db w)")
  case (Pair res st1)
  have claimed: "acts w (claim_step cfg now lease i w)" by (rule acts.claimed)
  show ?thesis
  proof (cases "\<exists>u. res = Inr (Inr u)")
    case True
    then obtain u where res: "res = Inr (Inr u)" by blast
    let ?w1 = "claim_step cfg now lease i w"
    have w1: "?w1 = w\<lparr>db := st1, workers := workers w @ [(i, lease)]\<rparr>"
      by (simp add: claim_step_def Pair res)
    let ?w2 = "run_step sha256 registry resolve_adapter cfg gate_at done_at validation_lease (i, lease) ?w1"
    have "acts ?w1 ?w2" by (rule acts.ran) (simp add: w1)
    with claimed have "acts\<^sup>*\<^sup>* w ?w2" by (meson rtranclp.rtrancl_into_rtrancl r_into_rtranclp)
    then have "gets_to w (db ?w2)" unfolding gets_to_def by blast
    moreover have "db ?w2 = snd (snd (execute_once sha256 registry resolve_adapter cfg now gate_at done_at
        lease validation_lease i (db w)))"
      by (simp add: run_step_def w1 execute_once_def Pair res split: prod.split)
    ultimately show ?thesis by simp
  next
    case False
    then have "db (claim_step cfg now lease i w) = st1"
      by (auto simp: claim_step_def Pair split: sum.split)
    moreover have "snd (snd (execute_once sha256 registry resolve_adapter cfg now gate_at done_at lease
        validation_lease i (db w))) = st1"
      using False by (auto simp: execute_once_def Pair split: sum.split)
    ultimately show ?thesis using gets_to_step [OF claimed] by simp
  qed
qed

text \<open>The dispatcher as an executor, with the instants and leases of each of its executions.\<close>

definition dispatcher ::
  "(string \<Rightarrow> string) \<Rightarrow> tool_definition list \<Rightarrow> (string \<Rightarrow> adapter option) \<Rightarrow> settings \<Rightarrow>
   (nat \<Rightarrow> int \<times> int \<times> int \<times> uuid \<times> uuid) \<Rightarrow> executor" where
  "dispatcher sha256 registry resolve_adapter cfg draws n i st =
    (case draws n of (now, gate_at, done_at, lease, validation_lease) \<Rightarrow>
       execute_once sha256 registry resolve_adapter cfg now gate_at done_at lease validation_lease i st)"

text \<open>
  The worker adds no step of its own: whatever it does in any number of passes, with any registry,
  adapters, clocks and leases, and whatever its executions raise, the store it leaves is one that a
  sequence of the program's own steps reaches.
\<close>

lemma the_worker_only_schedules:
  assumes "list_all (\<lambda>t. \<exists>draws. tn_execute t = dispatcher sha256 registry resolve_adapter cfg draws) turns"
  shows "gets_to w (fst (run_worker enabled poll_ms reap_ms turns (db w)))"
proof -
  have "by_steps (dispatcher sha256 registry resolve_adapter cfg draws)" for draws
    by (simp add: by_steps_def dispatcher_def execute_once_gets_to split: prod.split)
  then have "list_all (\<lambda>t. by_steps (tn_execute t)) turns"
    using assms by (auto simp: list_all_iff)
  then show ?thesis
    by (simp add: run_worker_def passes_gets_to gets_to_refl)
qed

section \<open>What one failure stops\<close>

text \<open>
  An exception of the first execution ends the pass: the other ready invocations are not
  attempted, and on the reaper's tick nothing is reaped or swept.
\<close>

lemma a_failure_ends_the_pass:
  assumes "ready_ids 10 st = i # is" and "attempt 0 i st = (calls, Inl e, st')"
  shows "pass attempt every now swept_at tick st = (st', [e])"
  by (simp add: pass_def dispatch_ready_def assms)

text \<open>Without an exception every ready invocation of the poll is attempted, the oldest first.\<close>

lemma all_are_attempted:
  assumes "\<And>n i st. \<exists>calls s st'. attempt n i st = (calls, Inr s, st')"
  shows "fst (run_ready attempt n is st) = Inr (n + length is)"
proof (induction "is" arbitrary: n st)
  case (Cons i "is")
  obtain calls s st' where "attempt n i st = (calls, Inr s, st')" using assms by blast
  with Cons show ?case by simp
qed simp

end
