(* ===== verification/Worker_Progress.thy ===== *)
theory Worker_Progress
  imports Worker
begin

text \<open>
  What the polling loop of \<open>services/tools/worker.py\<close> achieves when it is left to itself: the queue of
  ready invocations shrinks by ten with every pass, the oldest first, and leases that have run out are
  closed, fifty with every pass on which the reaper runs.
\<close>

section \<open>What the work on one invocation leaves alone\<close>

text \<open>
  \<open>calm T i\<close>: every invocation but \<open>i\<close> keeps every column, and \<open>i\<close> itself becomes neither ready nor
  the holder of a lease that ended before \<open>T\<close>.
\<close>

definition calm :: "int \<Rightarrow> uuid \<Rightarrow> store \<Rightarrow> store \<Rightarrow> bool" where
  "calm T i st st' \<longleftrightarrow> (\<forall>j. j \<noteq> i \<longrightarrow> get_invocation j st' = get_invocation j st) \<and>
     (\<forall>r'. get_invocation i st' = Some r' \<longrightarrow> (\<exists>r. get_invocation i st = Some r \<and>
        (inv_state r' = READY \<longrightarrow> inv_state r = READY) \<and> (lapsed T r' \<longrightarrow> lapsed T r)))"

lemma calm_refl [simp]: "calm T i st st"
  by (simp add: calm_def)

lemma calm_trans: "calm T i st st1 \<Longrightarrow> calm T i st1 st2 \<Longrightarrow> calm T i st st2"
  unfolding calm_def by metis

lemma calm_same_rows [simp]:
  "calm T i st (add_event e st1) \<longleftrightarrow> calm T i st st1" "calm T i st (audit_record a st1) \<longleftrightarrow> calm T i st st1"
  by (simp_all add: calm_def)

lemma calm_upd_cols:
  assumes "\<And>r. get_invocation i st = Some r \<Longrightarrow>
      (state (f (inv_cols r)) = READY \<longrightarrow> inv_state r = READY) \<and>
      (lapsed T (r\<lparr>inv_cols := f (inv_cols r)\<rparr>) \<longrightarrow> lapsed T r)"
  shows "calm T i st (upd_cols i f st)"
  using assms by (auto simp: calm_def get_upd_cols)

text \<open>A run that ends in a row of the invocation it is about, and is calm.\<close>

definition calmly :: "int \<Rightarrow> uuid \<Rightarrow> store \<Rightarrow> invocation run \<Rightarrow> bool" where
  "calmly T i st m \<longleftrightarrow> (\<forall>r st'. m = Inr (r, st') \<longrightarrow> inv_id r = i \<and> calm T i st st')"

lemma calmly_raise [simp]: "calmly T i st (Inl e)"
  by (simp add: calmly_def)

lemma calmly_return [simp]: "calmly T i st (Inr (r, st)) \<longleftrightarrow> inv_id r = i"
  by (simp add: calmly_def)

lemma calmly_bind:
  "calmly T i st m \<Longrightarrow> (\<And>r t. inv_id r = i \<Longrightarrow> calmly T i t (k (r, t))) \<Longrightarrow> calmly T i st (andThen m k)"
  unfolding calmly_def andThen_eq_Inr by (metis calm_trans prod.collapse)

lemma calmly_pure: "(\<And>a. m = Inr a \<Longrightarrow> calmly T i st (k a)) \<Longrightarrow> calmly T i st (andThen m k)"
  by (cases m) simp_all

named_theorems calmly_intros "runs that are calm"

lemma transition_calmly [calmly_intros]:
  assumes "keeps_state columns" and "inv_id held = i" and "to \<noteq> READY"
    and "leased to \<Longrightarrow> \<forall>c. \<exists>t. lease_expires_at (columns c) = Some t \<and> T \<le> t"
  shows "calmly T i st (transition now held to reason actor detail expected columns st)"
  unfolding calmly_def
proof (intro allI impI)
  fix r st' assume "transition now held to reason actor detail expected columns st = Inr (r, st')"
  then have cas: "transition_cas now held to reason actor detail expected columns st = Inr ((True, r), st')"
    by (auto simp: transition_def andThen_eq_Inr split: if_splits)
  show "inv_id r = i \<and> calm T i st st'"
    using cas keeps_stateD [OF assms(1)]
  proof (cases rule: transition_cas_cases)
    case (won row e)
    have "calm T i st (upd_cols i (\<lambda>c. columns (c\<lparr>state := to\<rparr>)) st)"
    proof (rule calm_upd_cols)
      fix q
      have "\<not> lapsed T (q\<lparr>inv_cols := columns ((inv_cols q)\<lparr>state := to\<rparr>)\<rparr>)"
      proof (cases "leased to")
        case True
        with assms(4) obtain t where "lease_expires_at (columns ((inv_cols q)\<lparr>state := to\<rparr>)) = Some t" "T \<le> t"
          by blast
        then show ?thesis by (simp add: lapsed_def)
      next
        case False
        then show ?thesis using keeps_stateD [OF assms(1)] lapsed_leased by fastforce
      qed
      then show "(state (columns ((inv_cols q)\<lparr>state := to\<rparr>)) = READY \<longrightarrow> inv_state q = READY) \<and>
          (lapsed T (q\<lparr>inv_cols := columns ((inv_cols q)\<lparr>state := to\<rparr>)\<rparr>) \<longrightarrow> lapsed T q)"
        using assms(3) keeps_stateD [OF assms(1)] by simp
    qed
    moreover have "inv_id row = i" using get_invocationD [OF won(2)] assms(2) by simp
    ultimately show ?thesis using won assms(2) by simp
  qed simp
qed

lemma release_lease_calmly [calmly_intros]:
  assumes "keeps_state columns" and "inv_id held = i" and "to \<noteq> READY" and "\<not> leased to"
  shows "calmly T i st (release_lease now held to reason detail expected columns st)"
  unfolding release_lease_def
  by (rule transition_calmly) (use assms in \<open>simp_all\<close>)

lemma close_with_calmly [calmly_intros]:
  "inv_id r = i \<Longrightarrow> to \<noteq> READY \<Longrightarrow> \<not> leased to \<Longrightarrow> calmly T i st (close_with to category reason done_at r st)"
  unfolding close_with_def by (rule release_lease_calmly) (simp_all add: keeps_state_def)

lemma record_adapter_result_calmly [calmly_intros]:
  "inv_id r = i \<Longrightarrow> calmly T i st (record_adapter_result sha256 done_at d r outcome payload hint st)"
  unfolding record_adapter_result_def
  by (auto intro!: calmly_pure calmly_intros simp: keeps_state_def split: option.splits prod.splits)

lemma record_validation_calmly [calmly_intros]:
  "inv_id r = i \<Longrightarrow> calmly T i st (record_validation done_at outcome detail r st)"
  unfolding record_validation_def
  by (auto intro!: release_lease_calmly simp: keeps_state_def)

lemma execute_calmly:
  "inv_id r = i \<Longrightarrow> calmly T i st (snd (execute sha256 resolve_adapter done_at d r st))"
  unfolding execute_def
  by (auto intro!: calmly_intros split: option.splits sum.splits prod.splits attempt_result.splits)

lemma after_execution_calmly:
  assumes "inv_id r = i" and "T \<le> done_at" and "0 \<le> set_lease_milli cfg"
  shows "calmly T i st (snd (after_execution resolve_adapter cfg done_at lease d r st))"
  unfolding after_execution_def
  using assms by (auto intro!: calmly_bind calmly_intros
      simp: keeps_state_def split: option.splits sum.splits prod.splits)

lemma dispatch_calm:
  assumes "snd (dispatch sha256 resolve_adapter cfg done_at lease d r st) = Inr (s, st')"
    and "T \<le> done_at" and "0 \<le> set_lease_milli cfg"
  shows "calm T (inv_id r) st st'"
proof -
  from assms(1) obtain r1 st1 r2 st2 where
    one: "snd (execute sha256 resolve_adapter done_at d r st) = Inr (r1, st1)" and
    two: "snd (if inv_state r1 = EXECUTED then after_execution resolve_adapter cfg done_at lease d r1 st1
      else quietly (Inr (r1, st1))) = Inr (r2, st2)" and
    three: "\<exists>a. st' = audit_record a st2"
    unfolding dispatch_def audit_outcome_def snd_thenWork andThen_eq_Inr by (fastforce simp: andThen_eq_Inr)
  from execute_calmly [of r "inv_id r" T st] one have first: "inv_id r1 = inv_id r" "calm T (inv_id r) st st1"
    by (auto simp: calmly_def)
  have "calm T (inv_id r) st1 st2"
    using two after_execution_calmly [OF first(1) assms(2,3), of st1] by (auto simp: calmly_def split: if_splits)
  with first(2) three show ?thesis by (auto intro: calm_trans)
qed

lemma open_gate_calm:
  assumes "open_gate now lease held gate st = Inr ((owned, r), st')"
  shows "inv_id r = inv_id held \<and> calm T (inv_id held) st st'"
  using assms
proof (cases rule: open_gate_cases)
  case (owned row e)
  have "calm T (inv_id held) st (upd_cols (inv_id held) (gate_columns now gate (ev_id e)) st)"
    by (rule calm_upd_cols) (simp add: lapsed_def gate_columns_def)
  then have "calm T (inv_id held) st (upd_cols (inv_id held) (gate_columns now gate (ev_id e)) (add_event e st))"
    by (auto simp: calm_def get_upd_cols)
  then show ?thesis using owned get_invocationD [OF owned(2)] by simp
next
  case (lost e)
  then show ?thesis using get_invocationD [OF lost(2)] by simp
qed

lemma run_claimed_calm:
  assumes "run_claimed sha256 registry resolve_adapter cfg now done_at lease validation_lease i st = (calls, res, st')"
    and "T \<le> done_at" and "0 \<le> set_lease_milli cfg"
  shows "calm T i st st'"
proof (cases "get_invocation i st")
  case None
  with assms(1) show ?thesis by (simp add: run_claimed_def)
next
  case (Some held)
  define gate where "gate = final_gate sha256 registry now held st"
  let ?run = "snd (run_claimed_on sha256 registry resolve_adapter cfg now done_at lease validation_lease held st)"
  have i: "inv_id held = i" using get_invocationD [OF Some] by simp
  have "calm T i st st2" if run: "?run = Inr (s, st2)" for s st2
  proof -
    from run obtain owned r st1 where opened: "open_gate now lease held gate st = Inr ((owned, r), st1)"
      and rest: "snd (if \<not> owned then quietly (abandon_lost_lease lease r st1)
        else case gate of
          Inl reason \<Rightarrow> quietly (
            andThen (release_lease now r EXPIRED (reason_value reason) [(''gate'', JStr ''final'')]
              anything (\<lambda>c. c\<lparr>finished_at := Some now, err_category := Some EC_POLICY_DENIED,
                err_detail := Some (ERROR_PHRASES EC_POLICY_DENIED)\<rparr>) st1) (\<lambda>(r1, st2).
            Inr (EXPIRED, audit_outcome r1 AUDIT_DENIED st2)))
        | Inr d \<Rightarrow> dispatch sha256 resolve_adapter cfg done_at validation_lease d r st1) = Inr (s, st2)"
      unfolding run_claimed_on_def Let_def gate_def [symmetric] snd_thenWork andThen_eq_Inr by auto
    from open_gate_calm [OF opened, of T] i have first: "inv_id r = i" "calm T i st st1" by simp_all
    have refused: "calm T i st1 t" if "release_lease now r EXPIRED reason detail anything (\<lambda>c. c\<lparr>finished_at := Some now,
        err_category := Some EC_POLICY_DENIED, err_detail := Some (ERROR_PHRASES EC_POLICY_DENIED)\<rparr>) st1 = Inr (r1, t)"
      for reason detail r1 t
      using release_lease_calmly [of "\<lambda>c. c\<lparr>finished_at := Some now, err_category := Some EC_POLICY_DENIED,
          err_detail := Some (ERROR_PHRASES EC_POLICY_DENIED)\<rparr>" r i EXPIRED T st1 now reason detail anything] that first(1)
      by (auto simp: calmly_def keeps_state_def)
    have "calm T i st1 st2"
      using rest dispatch_calm [OF _ assms(2,3), of sha256 resolve_adapter validation_lease _ r st1 s st2] first(1)
      by (auto simp: abandon_lost_lease_def audit_outcome_def andThen_eq_Inr dest!: refused
          split: if_splits sum.splits simp del: reason_value.simps ERROR_PHRASES.simps)
    with first(2) show ?thesis by (rule calm_trans)
  qed
  moreover have "session ?run st = (res, st')"
    using assms(1) Some by (auto simp: run_claimed_def split: prod.splits)
  ultimately show ?thesis by (auto simp: session_def split: sum.splits)
qed

text \<open>An execution that does not raise leaves its invocation no longer ready.\<close>

lemma execute_once_calm:
  assumes "execute_once sha256 registry resolve_adapter cfg now gate_at done_at lease validation_lease i st =
      (calls, res, st')"
    and "T \<le> now" "T \<le> done_at" "0 \<le> set_lease_milli cfg"
  shows "calm T i st st' \<and> (res = Inr s \<longrightarrow> (\<forall>r. get_invocation i st' = Some r \<longrightarrow> inv_state r \<noteq> READY))"
proof (cases "session (claim cfg now lease i st) st")
  case (Pair out st1)
  have first: "calm T i st st1 \<and> (\<forall>x. out = Inr x \<longrightarrow> (\<forall>r. get_invocation i st1 = Some r \<longrightarrow> inv_state r \<noteq> READY))"
  proof (cases "claim cfg now lease i st")
    case (Inl e)
    with Pair show ?thesis by (auto simp: session_def)
  next
    case (Inr won)
    with Pair have run: "claim cfg now lease i st = Inr (fst won, st1)" "out = Inr (fst won)"
      by (cases won; simp add: session_def)+
    then obtain held where held: "get_invocation i st = Some held" and
      on: "claim_on cfg now lease held st = Inr (fst won, st1)"
      by (auto simp: claim_def split: option.splits)
    have i: "inv_id held = i" using get_invocationD [OF held] by simp
    show ?thesis
    proof (cases "inv_state held = READY")
      case False
      with on held run show ?thesis by (simp add: claim_on_def)
    next
      case True
      with on i obtain w where c: "claim_for_execution now i lease (now + set_lease_milli cfg)
          (now + timeout_of held) st = Inr (w, st1)"
        by (auto simp: claim_on_def andThen_eq_Inr split: if_splits option.splits)
      from c show ?thesis
      proof (cases rule: claim_cases)
        case (won r e)
        have "calm T i st (upd_cols i (claim_columns now lease (now + set_lease_milli cfg) (now + timeout_of held)) st)"
          by (rule calm_upd_cols) (use assms in \<open>simp add: lapsed_def claim_columns_def\<close>)
        with won show ?thesis by (auto simp: get_upd_cols claim_columns_def)
      qed (use held True in auto)
    qed
  qed
  show ?thesis
  proof (cases "\<exists>u. out = Inr (Inr u)")
    case True
    then have "run_claimed sha256 registry resolve_adapter cfg gate_at done_at lease validation_lease i st1 =
        (calls, res, st')" using assms(1) Pair by (auto simp: execute_once_def)
    from run_claimed_calm [OF this assms(3,4)] have "calm T i st1 st'" .
    moreover have "\<forall>r. get_invocation i st' = Some r \<longrightarrow> inv_state r \<noteq> READY"
      using calculation first True by (auto simp: calm_def)
    ultimately show ?thesis using first by (blast intro: calm_trans)
  next
    case False
    with assms(1) Pair have "st' = st1" "\<And>s. res = Inr s \<Longrightarrow> \<exists>x. out = Inr x"
      by (auto simp: execute_once_def split: sum.splits)
    with first show ?thesis by blast
  qed
qed

section \<open>What is left to do\<close>

text \<open>The ready invocations, and those whose lease ended before \<open>T\<close>.\<close>

definition ready :: "store \<Rightarrow> uuid set" where
  "ready st = {i. \<exists>r. get_invocation i st = Some r \<and> inv_state r = READY}"

definition late :: "int \<Rightarrow> store \<Rightarrow> uuid set" where
  "late T st = {i. \<exists>r. get_invocation i st = Some r \<and> lapsed T r}"

lemma card_rows:
  assumes "store_ok st"
  shows "card {i. \<exists>r. get_invocation i st = Some r \<and> P r} = length (filter P (invocations st))"
    and "finite {i. \<exists>r. get_invocation i st = Some r \<and> P r}"
proof -
  have rows: "{i. \<exists>r. get_invocation i st = Some r \<and> P r} = inv_id ` set (filter P (invocations st))"
    using get_invocation_row [OF assms] by (fastforce dest: get_invocationD)
  have "distinct (map inv_id (filter P (invocations st)))"
    using store_okD(1) [OF assms] by (simp add: distinct_map_filter)
  from distinct_card [OF this] show "card {i. \<exists>r. get_invocation i st = Some r \<and> P r} = length (filter P (invocations st))"
    by (simp add: rows)
  show "finite {i. \<exists>r. get_invocation i st = Some r \<and> P r}" by (simp add: rows)
qed

lemmas card_ready = card_rows [of _ "\<lambda>r. inv_state r = READY", folded ready_def]
lemmas card_late = card_rows [of _ "lapsed T" for T, folded late_def]

text \<open>
  \<open>in_order st st'\<close>: an invocation that was ready in \<open>st\<close> and has been run by \<open>st'\<close>, rather than swept,
  was not requested after one that is ready in \<open>st'\<close>.  \<open>dwindles T st st'\<close>: nothing more is left to do in
  \<open>st'\<close> than in \<open>st\<close>, and what is done is done in order.
\<close>

definition in_order :: "store \<Rightarrow> store \<Rightarrow> bool" where
  "in_order st st' \<longleftrightarrow> (\<forall>i q q' j r. get_invocation i st = Some q \<longrightarrow> inv_state q = READY \<longrightarrow>
     get_invocation i st' = Some q' \<longrightarrow> inv_state q' \<notin> {READY, EXPIRED} \<longrightarrow>
     get_invocation j st' = Some r \<longrightarrow> inv_state r = READY \<longrightarrow>
     s_requested_at (inv_snap q) \<le> s_requested_at (inv_snap r))"

definition dwindles :: "int \<Rightarrow> store \<Rightarrow> store \<Rightarrow> bool" where
  "dwindles T st st' \<longleftrightarrow> store_ok st' \<and> evolves st st' \<and> ready st' \<subseteq> ready st \<and> late T st' \<subseteq> late T st \<and>
     in_order st st'"

lemma evolvesD:
  "evolves st st' \<Longrightarrow> get_invocation i st = Some r \<Longrightarrow> \<exists>r'. get_invocation i st' = Some r' \<and> row_evolves r r'"
  unfolding evolves_def by blast

lemma in_order_trans:
  assumes "in_order st st1" "in_order st1 st2" "evolves st st1" "evolves st1 st2" "ready st2 \<subseteq> ready st1"
  shows "in_order st st2"
  unfolding in_order_def
proof (intro allI impI)
  fix i q q2 j r2
  assume q: "get_invocation i st = Some q" "inv_state q = READY"
    and q2: "get_invocation i st2 = Some q2" "inv_state q2 \<notin> {READY, EXPIRED}"
    and r2: "get_invocation j st2 = Some r2" "inv_state r2 = READY"
  from evolvesD [OF assms(3) q(1)] obtain q1 where q1: "get_invocation i st1 = Some q1" "row_evolves q q1" by blast
  from evolvesD [OF assms(4) q1(1)] q2(1) have q12: "row_evolves q1 q2" by simp
  from r2 assms(5) obtain r1 where r1: "get_invocation j st1 = Some r1" "inv_state r1 = READY"
    by (auto simp: ready_def)
  from evolvesD [OF assms(4) r1(1)] r2(1) have r12: "inv_snap r2 = inv_snap r1" by (simp add: row_evolves_def)
  have "inv_state q1 \<noteq> EXPIRED"
    using q12 q2(2) terminal_path [of EXPIRED "inv_state q2"]
    by (auto simp: row_evolves_def is_terminal_state_def TERMINAL_STATES_def)
  then show "s_requested_at (inv_snap q) \<le> s_requested_at (inv_snap r2)"
    using assms(1) [unfolded in_order_def, rule_format, OF q q1(1) _ r1] r12 q1(2)
      assms(2) [unfolded in_order_def, rule_format, OF q1(1) _ q2 r2]
    by (cases "inv_state q1 = READY") (auto simp: row_evolves_def)
qed

lemma in_order_refl: "in_order st st"
  by (simp add: in_order_def)

lemma dwindles_refl: "store_ok st \<Longrightarrow> dwindles T st st"
  by (simp add: dwindles_def in_order_refl)

lemma dwindles_trans: "dwindles T st st1 \<Longrightarrow> dwindles T st1 st2 \<Longrightarrow> dwindles T st st2"
  unfolding dwindles_def using in_order_trans evolves_trans by (meson subset_trans)

lemma calm_leaves: "calm T i st st' \<Longrightarrow> ready st' \<subseteq> ready st \<and> late T st' \<subseteq> late T st"
proof -
  assume calm: "calm T i st st'"
  have "\<exists>r. get_invocation j st = Some r \<and> (inv_state r' = READY \<longrightarrow> inv_state r = READY) \<and> (lapsed T r' \<longrightarrow> lapsed T r)"
    if "get_invocation j st' = Some r'" for j r'
    using calm that by (cases "j = i") (auto simp: calm_def)
  then show ?thesis by (fastforce simp: ready_def late_def)
qed

section \<open>The poll\<close>

text \<open>An executor that does to its invocation what the dispatcher does.\<close>

definition steady :: "int \<Rightarrow> executor \<Rightarrow> bool" where
  "steady T attempt \<longleftrightarrow> (\<forall>n i st calls res st'. attempt n i st = (calls, res, st') \<longrightarrow> store_ok st \<longrightarrow>
     store_ok st' \<and> evolves st st' \<and> calm T i st st' \<and> ((\<exists>s. res = Inr s) \<longrightarrow> i \<notin> ready st'))"

lemma steadyD:
  assumes "steady T attempt" "attempt n i st = (calls, res, st')" "store_ok st"
  shows "store_ok st'" "evolves st st'" "calm T i st st'" "res = Inr s \<Longrightarrow> i \<notin> ready st'"
  using assms unfolding steady_def by blast+

lemma dispatcher_steady:
  assumes "\<And>n now gate_at done_at lease validation_lease.
      draws n = (now, gate_at, done_at, lease, validation_lease) \<Longrightarrow> T \<le> now \<and> T \<le> done_at"
    and "0 \<le> set_lease_milli cfg"
  shows "steady T (dispatcher sha256 registry resolve_adapter cfg draws)"
  unfolding steady_def
proof (intro allI impI)
  fix n i st calls res st'
  assume run: "dispatcher sha256 registry resolve_adapter cfg draws n i st = (calls, res, st')" and ok: "store_ok st"
  obtain now gate_at done_at lease validation_lease where
    draw: "draws n = (now, gate_at, done_at, lease, validation_lease)" by (metis prod_cases5)
  with run have once: "execute_once sha256 registry resolve_adapter cfg now gate_at done_at lease validation_lease i st =
      (calls, res, st')" by (simp add: dispatcher_def)
  from assms(1) [OF draw] assms(2) execute_once_calm [OF once, of T] execute_once_ok [OF ok once]
  show "store_ok st' \<and> evolves st st' \<and> calm T i st st' \<and> ((\<exists>s. res = Inr s) \<longrightarrow> i \<notin> ready st')"
    by (auto simp: ready_def)
qed

text \<open>
  A poll over a list of invocations attempts one after the other, all of them unless an attempt raises;
  those before the one that raised are no longer ready, and those after it keep every column.
\<close>

lemma run_ready_prefix:
  assumes "steady T attempt" "store_ok st" "run_ready attempt n is st = (res, st')"
  shows "store_ok st' \<and> evolves st st' \<and> ready st' \<subseteq> ready st \<and> late T st' \<subseteq> late T st \<and>
    (\<exists>a. (\<forall>k. res = Inr k \<longrightarrow> length is \<le> a) \<and> set (take a is) \<inter> ready st' = {} \<and>
       (\<forall>j. j \<notin> set (take (Suc a) is) \<longrightarrow> get_invocation j st' = get_invocation j st))"
  using assms(2,3)
proof (induction "is" arbitrary: n st)
  case (Cons i "is")
  obtain calls out st1 where out: "attempt n i st = (calls, out, st1)" by (metis prod_cases3)
  note first = steadyD [OF assms(1) out Cons.prems(1)]
  have frame: "get_invocation j st1 = get_invocation j st" if "j \<noteq> i" for j
    using first(3) that by (simp add: calm_def)
  show ?case
  proof (cases out)
    case (Inl e)
    with Cons.prems(2) out have "res = Inl e" "st' = st1" by simp_all
    then show ?thesis using first(1,2) calm_leaves [OF first(3)] frame
      by (intro conjI exI [of _ 0]) auto
  next
    case (Inr s)
    with Cons.prems(2) out have rest: "run_ready attempt (Suc n) is st1 = (res, st')" by simp
    from Cons.IH [OF first(1) rest] obtain a where
      ih: "store_ok st'" "evolves st1 st'" "ready st' \<subseteq> ready st1" "late T st' \<subseteq> late T st1" and
      parts: "\<forall>k. res = Inr k \<longrightarrow> length is \<le> a" "set (take a is) \<inter> ready st' = {}"
        "\<forall>j. j \<notin> set (take (Suc a) is) \<longrightarrow> get_invocation j st' = get_invocation j st1"
      by blast
    have "i \<notin> ready st'" using first(4) [OF Inr] ih(3) by blast
    with parts have "(\<forall>k. res = Inr k \<longrightarrow> length (i # is) \<le> Suc a) \<and> set (take (Suc a) (i # is)) \<inter> ready st' = {} \<and>
        (\<forall>j. j \<notin> set (take (Suc (Suc a)) (i # is)) \<longrightarrow> get_invocation j st' = get_invocation j st)"
      using frame by auto
    moreover have "ready st' \<subseteq> ready st" "late T st' \<subseteq> late T st"
      using ih(3,4) calm_leaves [OF first(3)] by blast+
    ultimately show ?thesis using ih(1) evolves_trans [OF first(2) ih(2)] by blast
  qed
qed auto

text \<open>What is polled: the ready invocations requested first, ten at most.\<close>

lemma ready_ids_facts:
  assumes "store_ok st"
  shows "distinct (ready_ids limit st)" "length (ready_ids limit st) = min limit (card (ready st))"
    and "set (ready_ids limit st) \<subseteq> ready st"
    and "\<And>a b q r. a < b \<Longrightarrow> b < length (ready_ids limit st) \<Longrightarrow>
      get_invocation (ready_ids limit st ! a) st = Some q \<Longrightarrow> get_invocation (ready_ids limit st ! b) st = Some r \<Longrightarrow>
      s_requested_at (inv_snap q) \<le> s_requested_at (inv_snap r)"
    and "\<And>i j q r. i \<in> set (ready_ids limit st) \<Longrightarrow> j \<in> ready st \<Longrightarrow> j \<notin> set (ready_ids limit st) \<Longrightarrow>
      get_invocation i st = Some q \<Longrightarrow> get_invocation j st = Some r \<Longrightarrow>
      s_requested_at (inv_snap q) \<le> s_requested_at (inv_snap r)"
proof -
  define key :: "invocation \<Rightarrow> int" where "key = (\<lambda>r. s_requested_at (inv_snap r))"
  define rows where "rows = sort_key key (filter (\<lambda>r. inv_state r = READY) (invocations st))"
  have ids: "ready_ids limit st = map inv_id (take limit rows)"
    by (simp add: ready_ids_def rows_def key_def)
  have row: "get_invocation (inv_id r) st = Some r \<and> inv_state r = READY" if "r \<in> set rows" for r
    using that get_invocation_row [OF assms] by (simp add: rows_def)
  have all: "ready st = inv_id ` set rows"
    using get_invocation_row [OF assms] by (fastforce simp: ready_def rows_def dest: get_invocationD)
  have dist: "distinct (map inv_id rows)"
    using distinct_map_filter [OF store_okD(1) [OF assms], of "\<lambda>r. inv_state r = READY"]
    by (simp add: distinct_map rows_def)
  show "distinct (ready_ids limit st)" using dist by (simp add: ids take_map [symmetric])
  show "length (ready_ids limit st) = min limit (card (ready st))"
    using distinct_card [OF dist] by (simp add: ids all)
  show "set (ready_ids limit st) \<subseteq> ready st" by (auto simp: ids all dest: in_set_takeD)
  have sorted: "sorted (map key rows)" by (simp add: rows_def)
  show "s_requested_at (inv_snap q) \<le> s_requested_at (inv_snap r)"
    if "a < b" "b < length (ready_ids limit st)" "get_invocation (ready_ids limit st ! a) st = Some q"
      "get_invocation (ready_ids limit st ! b) st = Some r" for a b q r
  proof -
    have lens: "a < length rows" "b < length rows" "a < limit" "b < limit" using that(1,2) by (auto simp: ids)
    then have "q = rows ! a" "r = rows ! b" using that(3,4) row by (auto simp: ids)
    moreover have "map key rows ! a \<le> map key rows ! b" using sorted lens that(1) by (simp add: sorted_iff_nth_mono)
    ultimately show ?thesis using lens by (simp add: key_def)
  qed
  show "s_requested_at (inv_snap q) \<le> s_requested_at (inv_snap r)"
    if "i \<in> set (ready_ids limit st)" "j \<in> ready st" "j \<notin> set (ready_ids limit st)"
      "get_invocation i st = Some q" "get_invocation j st = Some r" for i j q r
  proof -
    have "q \<in> set (take limit rows)" using that(1,4) row [OF in_set_takeD [of _ limit]] by (auto simp: ids)
    moreover have "r \<in> set rows" using that(2,5) row by (auto simp: all)
    then have "r \<in> set (take limit rows) \<or> r \<in> set (drop limit rows)"
      by (metis Un_iff append_take_drop_id set_append)
    then have "r \<in> set (drop limit rows)" using that(3,5) get_invocationD [OF that(5)] by (auto simp: ids)
    moreover have "sorted (map key (take limit rows @ drop limit rows))" using sorted by simp
    then have "\<forall>a \<in> set (take limit rows). \<forall>b \<in> set (drop limit rows). key a \<le> key b"
      unfolding map_append sorted_append by auto
    ultimately show ?thesis by (simp add: key_def)
  qed
qed

text \<open>
  \<open>raised attempt st e\<close>: at some store that came of \<open>st\<close> the execution of a ready invocation raises \<open>e\<close>.
\<close>

definition raised :: "executor \<Rightarrow> store \<Rightarrow> acop_error \<Rightarrow> bool" where
  "raised attempt st e \<longleftrightarrow> (\<exists>n i s calls s'. store_ok s \<and> evolves st s \<and> i \<in> ready s \<and>
     attempt n i s = (calls, Inl e, s'))"

lemma raised_later: "evolves st s \<Longrightarrow> raised attempt s e \<Longrightarrow> raised attempt st e"
  unfolding raised_def using evolves_trans by meson

lemma run_ready_raised:
  assumes "steady T attempt" "store_ok st" "distinct is" "set is \<subseteq> ready st"
    and "run_ready attempt n is st = (Inl e, st')"
  shows "raised attempt st e"
  using assms(2-)
proof (induction "is" arbitrary: n st)
  case (Cons i "is")
  obtain calls out st1 where out: "attempt n i st = (calls, out, st1)" by (metis prod_cases3)
  note first = steadyD [OF assms(1) out Cons.prems(1)]
  show ?case
  proof (cases out)
    case (Inl x)
    with Cons.prems out have "attempt n i st = (calls, Inl e, st1)" "i \<in> ready st" by auto
    then show ?thesis using Cons.prems(1) unfolding raised_def by (meson evolves_refl)
  next
    case (Inr s)
    have "set is \<subseteq> ready st1" using Cons.prems(2,3) first(3) by (force simp: calm_def ready_def)
    moreover have "run_ready attempt (Suc n) is st1 = (Inl e, st')" using Cons.prems(4) out Inr by simp
    ultimately have "raised attempt st1 e" using Cons.IH [OF first(1)] Cons.prems(2) by simp
    with first(2) show ?thesis by (rule raised_later)
  qed
qed simp

lemma poll_progress:
  assumes "steady T attempt" "store_ok st" "dispatch_ready attempt st = (res, st')"
  shows "dwindles T st st' \<and> (\<forall>k. res = Inr k \<longrightarrow> card (ready st') \<le> card (ready st) - 10) \<and>
    (\<forall>e. res = Inl e \<longrightarrow> raised attempt st e)"
proof -
  let ?ids = "ready_ids 10 st"
  note facts = ready_ids_facts [where limit = 10, OF assms(2)]
  from run_ready_prefix [OF assms(1,2) assms(3) [unfolded dispatch_ready_def]] obtain a where
    keep: "store_ok st'" "evolves st st'" "ready st' \<subseteq> ready st" "late T st' \<subseteq> late T st" and
    all: "\<forall>k. res = Inr k \<longrightarrow> length ?ids \<le> a" and past: "set (take a ?ids) \<inter> ready st' = {}" and
    frame: "\<forall>j. j \<notin> set (take (Suc a) ?ids) \<longrightarrow> get_invocation j st' = get_invocation j st"
    by blast
  have "in_order st st'"
    unfolding in_order_def
  proof (intro allI impI)
    fix i q q' j r
    assume q: "get_invocation i st = Some q" "inv_state q = READY"
      and q': "get_invocation i st' = Some q'" "inv_state q' \<notin> {READY, EXPIRED}"
      and r: "get_invocation j st' = Some r" "inv_state r = READY"
    have j: "j \<in> ready st'" using r by (simp add: ready_def)
    with keep(3) obtain r0 where r0: "get_invocation j st = Some r0" "inv_state r0 = READY" by (auto simp: ready_def)
    from evolvesD [OF keep(2) r0(1)] r(1) have snap: "inv_snap r = inv_snap r0" by (simp add: row_evolves_def)
    from frame q q' have "i \<in> set (take (Suc a) ?ids)" by force
    then obtain x where x: "x \<le> a" "x < length ?ids" "?ids ! x = i"
      by (metis in_set_conv_nth length_take less_Suc_eq_le min_less_iff_conj nth_take)
    show "s_requested_at (inv_snap q) \<le> s_requested_at (inv_snap r)"
    proof (cases "j \<in> set ?ids")
      case False
      from facts(5) [OF _ _ False q(1) r0(1)] x(2,3) j keep(3) snap show ?thesis by auto
    next
      case True
      then obtain y where y: "y < length ?ids" "?ids ! y = j" by (auto simp: in_set_conv_nth)
      have "a \<le> y" using past j y by (force simp: in_set_conv_nth)
      moreover have "x \<noteq> y" using x(3) y(2) q' r by auto
      ultimately have "x < y" using x(1) by simp
      from facts(4) [OF this y(1)] x(3) y(2) q(1) r0(1) snap show ?thesis by simp
    qed
  qed
  moreover have "card (ready st') \<le> card (ready st) - 10" if "res = Inr k" for k
  proof -
    have "ready st' \<subseteq> ready st - set ?ids" using all past that keep(3) by auto
    then have "card (ready st') \<le> card (ready st - set ?ids)"
      using card_ready(2) [OF assms(2)] by (simp add: card_mono)
    also have "\<dots> = card (ready st) - length ?ids"
      using facts(1,3) by (simp add: card_Diff_subset distinct_card)
    finally show ?thesis using facts(2) by simp
  qed
  moreover have "raised attempt st e" if "res = Inl e" for e
    using run_ready_raised [OF assms(1,2) facts(1,3)] assms(3) that by (simp add: dispatch_ready_def)
  ultimately show ?thesis using keep by (simp add: dwindles_def)
qed

section \<open>The reaper and the sweeper\<close>

lemma in_order_unrun:
  assumes "\<And>i q q'. get_invocation i st = Some q \<Longrightarrow> inv_state q = READY \<Longrightarrow> get_invocation i st' = Some q' \<Longrightarrow>
      inv_state q' \<in> {READY, EXPIRED}"
  shows "in_order st st'"
  unfolding in_order_def using assms by blast

lemma reap_progress:
  assumes "store_ok st" "T \<le> now" "reap_expired_leases now limit st = (res, st')"
  shows "dwindles T st st' \<and> card (late T st') \<le> card (late T st) - limit \<and> (\<exists>k. res = Inr k)"
proof -
  let ?rows = "expired_leases now limit st"
  let ?closed = "inv_id ` set ?rows"
  note facts = expired_leases_facts [where now = now and limit = limit, OF assms(1)]
  from reap_sweep_run [OF assms(1), of now limit] assms(3) have res: "res = Inr (length ?rows)"
    and closed: "\<forall>r \<in> set ?rows. \<exists>r'. get_invocation (inv_id r) st' = Some r' \<and> reaped r r'"
    and frame: "\<forall>j. j \<notin> ?closed \<longrightarrow> get_invocation j st' = get_invocation j st"
    by simp_all
  have keep: "store_ok st' \<and> evolves st st'"
    using session_upholds [OF reap_rows_upholds assms(1)] assms(3) unfolding reap_expired_leases_def by blast
  have shut: "\<not> lapsed T r' \<and> inv_state r' \<noteq> READY" if "j \<in> ?closed" "get_invocation j st' = Some r'" for j r'
    using that closed by (fastforce simp: reaped_def lapsed_def split: if_splits)
  have still: "get_invocation j st = Some r' \<and> j \<notin> ?closed"
    if "get_invocation j st' = Some r'" "lapsed T r' \<or> inv_state r' = READY" for j r'
    using that shut frame by metis
  have left: "ready st' \<subseteq> ready st" "late T st' \<subseteq> late T st - ?closed"
    using still by (auto simp: ready_def late_def)
  have "in_order st st'"
  proof (rule in_order_unrun)
    fix i q q' assume "get_invocation i st = Some q" "inv_state q = READY" "get_invocation i st' = Some q'"
    moreover from this have "i \<notin> ?closed" using facts(3) by (force simp: lapsed_def)
    ultimately show "inv_state q' \<in> {READY, EXPIRED}" using frame by simp
  qed
  moreover have "card (late T st') \<le> card (late T st) - limit"
  proof (cases "late T st \<subseteq> ?closed")
    case True
    with left(2) have "late T st' = {}" by blast
    then show ?thesis by simp
  next
    case False
    then obtain q where q: "q \<in> set (invocations st)" "lapsed T q" "inv_id q \<notin> ?closed"
      by (auto simp: late_def dest!: get_invocationD)
    from q(2) assms(2) have lapsed: "lapsed now q" by (auto simp: lapsed_def split: option.splits)
    have "?closed \<subseteq> late T st"
    proof
      fix j assume "j \<in> ?closed"
      then obtain r where r: "r \<in> set ?rows" "inv_id r = j" by blast
      from facts(4) [OF r(1) q(1) lapsed] q(3) have "lease_end r \<le> lease_end q" by blast
      then have "lapsed T r"
        using q(2) facts(3) [OF r(1)] by (auto simp: lapsed_def lease_end_def split: option.splits)
      then show "j \<in> late T st" using facts(3) [OF r(1)] r(2) by (auto simp: late_def)
    qed
    moreover have "limit \<le> length ?rows"
    proof (rule ccontr)
      assume "\<not> limit \<le> length ?rows"
      then have "length ?rows = length (filter (lapsed now) (invocations st))" "length ?rows < limit"
        using facts(2) by auto
      then have "set ?rows = set (filter (lapsed now) (invocations st))" by (simp add: expired_leases_def)
      with q lapsed show False by auto
    qed
    ultimately have "card (late T st - ?closed) \<le> card (late T st) - limit"
      using distinct_card [OF facts(1)] by (simp add: card_Diff_subset)
    moreover have "card (late T st') \<le> card (late T st - ?closed)"
      using left(2) card_late(2) [OF assms(1)] by (simp add: card_mono)
    ultimately show ?thesis by simp
  qed
  ultimately show ?thesis using keep left res by (auto simp: dwindles_def)
qed

lemma expire_one_calm:
  assumes "expire_one now r st = Inr (hit, st')"
  shows "calm T (inv_id r) st st'" and "get_invocation i st = Some q \<Longrightarrow> get_invocation i st' = Some q' \<Longrightarrow>
    inv_state q' \<in> {inv_state q, EXPIRED}"
proof -
  have both: "calm T (inv_id r) st st' \<and> (\<forall>i q q'. get_invocation i st = Some q \<longrightarrow> get_invocation i st' = Some q' \<longrightarrow>
    inv_state q' \<in> {inv_state q, EXPIRED})"
  proof (cases "now < window_end r")
    case True
    with assms show ?thesis by (auto simp: expire_one_def)
  next
    case False
    let ?columns = "\<lambda>c. c\<lparr>finished_at := Some now, err_category := Some EC_APPROVAL_EXPIRED,
                     err_detail := Some (ERROR_PHRASES EC_APPROVAL_EXPIRED)\<rparr>"
    from assms False obtain fresh st1 where
      run: "transition_cas now r EXPIRED (reason_value PR_APPROVAL_EXPIRED) None [] anything ?columns st
        = Inr ((hit, fresh), st1)" and same: "invocations st' = invocations st1"
      by (auto simp: expire_one_def andThen_eq_Inr simp del: ERROR_PHRASES.simps reason_value.simps
          split: if_splits)
    then have rows: "get_invocation j st' = get_invocation j st1" for j by (simp add: get_invocation_def)
    have "state (?columns c) = state c" for c by simp
    with run show ?thesis
    proof (cases rule: transition_cas_cases)
      case (won row e)
      have "calm T (inv_id r) st (upd_cols (inv_id r) (\<lambda>c. ?columns (c\<lparr>state := EXPIRED\<rparr>)) st)"
        by (rule calm_upd_cols) (simp add: lapsed_def)
      with won rows show ?thesis by (auto simp: calm_def get_upd_cols split: if_splits)
    next
      case (lost e)
      then show ?thesis using rows by (auto simp: calm_def)
    qed
  qed
  then show "calm T (inv_id r) st st'" by blast
  show "get_invocation i st = Some q \<Longrightarrow> get_invocation i st' = Some q' \<Longrightarrow> inv_state q' \<in> {inv_state q, EXPIRED}"
    using both by blast
qed

lemma sweep_progress:
  assumes "store_ok st" "expire_stale now limit st = (res, st')"
  shows "dwindles T st st'"
proof -
  have fold: "dwindles T st st'" if "store_ok st" "foldRes (counting (expire_one now)) (n, st) rows = Inr (m, st')"
    for n m st st' rows
    using that
  proof (induction rows arbitrary: n st)
    case Nil
    then show ?case by (simp add: dwindles_refl)
  next
    case (Cons r rows)
    from Cons.prems(2) obtain hit st1 where one: "expire_one now r st = Inr (hit, st1)"
      and rest: "foldRes (counting (expire_one now)) (if hit then Suc n else n, st1) rows = Inr (m, st')"
      unfolding counting_Cons andThen_eq_Inr by auto
    have ok: "store_ok st1 \<and> evolves st st1"
      using expire_one_upholds Cons.prems(1) one by (blast dest: upholdsD)
    have "in_order st st1" by (rule in_order_unrun) (metis expire_one_calm(2) [OF one])
    with ok calm_leaves [OF expire_one_calm(1) [OF one]] have "dwindles T st st1" by (simp add: dwindles_def)
    also note Cons.IH [OF conjunct1 [OF ok] rest]
    finally (dwindles_trans) show ?case .
  qed
  show ?thesis
  proof (cases "expire_rows now (sweep_candidates limit st) st")
    case (Inl e)
    with assms show ?thesis by (auto simp: expire_stale_def session_def dwindles_refl)
  next
    case (Inr x)
    with assms(2) have "foldRes (counting (expire_one now)) (0, st) (sweep_candidates limit st) = Inr (fst x, st')"
      by (cases x) (auto simp: expire_stale_def session_def expire_rows_def)
    from fold [OF assms(1) this] show ?thesis .
  qed
qed

text \<open>The sweeper does not raise: to expire a row that was read in this transaction violates nothing.\<close>

lemma checks_expired:
  assumes "\<forall>c \<in> set (invocation_checks st r). snd c" and "inv_state r \<in> {AWAITING_APPROVAL, READY}"
  shows "\<forall>c \<in> set (invocation_checks st (r\<lparr>inv_cols := (inv_cols r)\<lparr>state := EXPIRED,
    finished_at := Some now, err_category := category, err_detail := detail\<rparr>\<rparr>)). snd c"
proof -
  let ?r = "r\<lparr>inv_cols := (inv_cols r)\<lparr>state := EXPIRED, finished_at := Some now, err_category := category,
    err_detail := detail\<rparr>\<rparr>"
  have "uq_tool_invocation_idem st ?r"
    using idem_of_checks [OF assms(1)] assms(2)
    by (cases "s_idempotency_key (inv_snap r)") (auto simp: uq_tool_invocation_idem_def)
  moreover have "invocation_fks st ?r = invocation_fks st r" by (simp add: invocation_fks_def)
  moreover have "\<forall>c \<in> set (progress_checks (inv_snap r) (inv_cols r)). snd c"
    using assms(1) unfolding invocation_checks_def set_append ball_Un by blast
  then have "\<forall>c \<in> set (progress_checks (inv_snap r) (inv_cols ?r)). snd c"
    using assms(2) by (auto simp: progress_checks_def)
  ultimately show ?thesis
    using assms(1) unfolding invocation_checks_def set_append ball_Un by simp
qed

lemma expire_one_runs:
  assumes "store_ok st" and r: "get_invocation (inv_id r) st = Some r" "inv_state r \<in> {AWAITING_APPROVAL, READY}"
  shows "\<exists>hit st'. expire_one now r st = Inr (hit, st')"
proof (cases "now < window_end r")
  case False
  let ?columns = "\<lambda>c. c\<lparr>finished_at := Some now, err_category := Some EC_APPROVAL_EXPIRED,
                   err_detail := Some (ERROR_PHRASES EC_APPROVAL_EXPIRED)\<rparr>"
  have "r \<in> set (invocations st)" using get_invocationD [OF r(1)] by simp
  from store_okD(4) [OF assms(1) this] checks_expired [OF _ r(2), of st]
  have checks: "\<forall>c \<in> set (invocation_checks st (r\<lparr>inv_cols := ?columns ((inv_cols r)\<lparr>state := EXPIRED\<rparr>)\<rparr>)). snd c"
    by simp
  have legal: "is_legal_transition (inv_state r) EXPIRED" using r(2) by (auto simp: legal_simps)
  from transition_runs [OF r(1) refl _ legal, of anything ?columns now "reason_value PR_APPROVAL_EXPIRED" None "[]"] checks
  obtain fresh st1 where "transition now r EXPIRED (reason_value PR_APPROVAL_EXPIRED) None [] anything ?columns st = Inr (fresh, st1)"
    by (auto simp: anything_def simp del: ERROR_PHRASES.simps reason_value.simps)
  then obtain won fresh st1 where
    "transition_cas now r EXPIRED (reason_value PR_APPROVAL_EXPIRED) None [] anything ?columns st = Inr ((won, fresh), st1)"
    unfolding transition_def andThen_eq_Inr by (metis prod.collapse)
  with False show ?thesis by (auto simp: expire_one_def simp del: ERROR_PHRASES.simps reason_value.simps)
qed (auto simp: expire_one_def)

lemma expire_rows_run:
  assumes "store_ok st" and "distinct (map inv_id rows)"
    and "\<And>r. r \<in> set rows \<Longrightarrow> get_invocation (inv_id r) st = Some r \<and> inv_state r \<in> {AWAITING_APPROVAL, READY}"
  shows "\<exists>m st'. foldRes (counting (expire_one now)) (n, st) rows = Inr (m, st')"
  using assms
proof (induction rows arbitrary: n st)
  case (Cons r rows)
  from Cons.prems(3) [of r] have "get_invocation (inv_id r) st = Some r" "inv_state r \<in> {AWAITING_APPROVAL, READY}"
    by simp_all
  from expire_one_runs [OF Cons.prems(1) this] obtain hit st1 where
    one: "expire_one now r st = Inr (hit, st1)" by blast
  have ok: "store_ok st1" using expire_one_upholds Cons.prems(1) one by (blast dest: upholdsD)
  have "get_invocation (inv_id q) st1 = Some q \<and> inv_state q \<in> {AWAITING_APPROVAL, READY}" if "q \<in> set rows" for q
  proof -
    from that have "inv_id q \<in> inv_id ` set rows" by (rule imageI)
    with Cons.prems(2) have "inv_id q \<noteq> inv_id r" by auto
    then show ?thesis using expire_one_calm(1) [OF one] Cons.prems(3) [of q] that by (simp add: calm_def)
  qed
  from Cons.IH [OF ok _ this] Cons.prems(2) one show ?case unfolding counting_Cons by simp
qed simp

lemma sweep_runs:
  assumes "store_ok st"
  shows "\<exists>m. fst (expire_stale now limit st) = Inr m"
proof -
  let ?rows = "sweep_candidates limit st"
  define P where "P = (\<lambda>r. inv_state r \<in> {AWAITING_APPROVAL, READY} \<and> s_approval_required (inv_snap r))"
  have "distinct (map inv_id (filter P (invocations st)))"
    using distinct_map_filter [OF store_okD(1) [OF assms]] .
  then have "distinct (map inv_id ?rows)"
    unfolding sweep_candidates_def P_def [symmetric] by (simp add: take_map [symmetric] distinct_map)
  moreover have "get_invocation (inv_id r) st = Some r \<and> inv_state r \<in> {AWAITING_APPROVAL, READY}"
    if "r \<in> set ?rows" for r
    using in_set_takeD [OF that [unfolded sweep_candidates_def]] get_invocation_row [OF assms] by simp
  ultimately obtain m st' where "foldRes (counting (expire_one now)) (0, st) ?rows = Inr (m, st')"
    using expire_rows_run [OF assms] by blast
  then show ?thesis by (simp add: expire_stale_def expire_rows_def session_def)
qed

section \<open>The loop\<close>

lemma shrinks_add:
  assumes "(b :: nat) \<le> a - k * (m - l)" "c \<le> b - k * (m' - l')"
  shows "c \<le> a - k * ((m + m') - (l + l'))"
proof -
  have "k * ((m + m') - (l + l')) \<le> k * ((m - l) + (m' - l'))" by (intro mult_le_mono2) simp
  also have "\<dots> = k * (m - l) + k * (m' - l')" by (simp add: distrib_left)
  finally show ?thesis using assms by linarith
qed

lemma pass_progress:
  assumes "steady T attempt" "T \<le> now" "store_ok st" "pass attempt every now swept_at tick st = (st', logged)"
  shows "dwindles T st st' \<and> length logged \<le> 1 \<and>
    card (ready st') \<le> card (ready st) - 10 * (1 - length logged) \<and>
    card (late T st') \<le> card (late T st) - 50 * ((if tick mod every = 0 then 1 else 0) - length logged) \<and>
    (\<forall>e \<in> set logged. raised attempt st e)"
proof -
  have shrink: "card (ready s') \<le> card (ready s)" "card (late T s') \<le> card (late T s)" "store_ok s'"
    if "dwindles T s s'" "store_ok s" for s s'
    using that card_ready(2) card_late(2) by (auto simp: dwindles_def intro: card_mono)
  obtain res1 st1 where one: "dispatch_ready attempt st = (res1, st1)" by force
  note poll = poll_progress [OF assms(1,3) one]
  note small = shrink [OF conjunct1 [OF poll] assms(3)]
  show ?thesis
  proof (cases res1)
    case (Inl e)
    with assms(4) one have "st' = st1" "logged = [e]" by (simp_all add: pass_def)
    with poll small Inl show ?thesis by simp
  next
    case (Inr k)
    with poll have polled: "dwindles T st st1" "card (ready st1) \<le> card (ready st) - 10" by simp_all
    show ?thesis
    proof (cases "tick mod every = 0")
      case False
      with Inr assms(4) one have "st' = st1" "logged = []" by (simp_all add: pass_def)
      with False polled small show ?thesis by simp
    next
      case True
      obtain res2 st2 where two: "reap_expired_leases now 50 st1 = (res2, st2)" by force
      note reap = reap_progress [OF small(3) assms(2) two]
      note small2 = shrink [OF conjunct1 [OF reap] small(3)]
      obtain res3 st3 where three: "expire_stale swept_at 100 st2 = (res3, st3)" by force
      note sweep = sweep_progress [OF small2(3) three, of T]
      note small3 = shrink [OF sweep small2(3)]
      from reap obtain k2 where "res2 = Inr k2" by blast
      moreover from sweep_runs [OF small2(3), of swept_at 100] three obtain k3 where "res3 = Inr k3" by auto
      ultimately have final: "st' = st3" "logged = []"
        using assms(4) Inr True one two three by (simp_all add: pass_def)
      have "dwindles T st st3"
        using dwindles_trans [OF dwindles_trans [OF polled(1) conjunct1 [OF reap]] sweep] .
      moreover have "card (ready st3) \<le> card (ready st) - 10 * (1 - length logged)"
        using polled(2) small2(1) small3(1) by simp
      moreover have "card (late T st3) \<le> card (late T st) - 50 * (1 - length logged)"
      proof -
        have "card (late T st2) \<le> card (late T st1) - 50" using reap by blast
        with small(2) small3(2) show ?thesis by (cases "length logged") simp_all
      qed
      ultimately show ?thesis using final True by simp
    qed
  qed
qed

lemma loop_progress:
  assumes "\<And>t. t \<in> set ts \<Longrightarrow> steady T (tn_execute t) \<and> T \<le> tn_reaped_at t" and "0 < every"
    and "store_ok st" "passes every tick ts st = (st', logged)"
  shows "dwindles T st st' \<and> length logged \<le> length ts \<and>
    card (ready st') \<le> card (ready st) - 10 * (length ts - length logged) \<and>
    card (late T st') \<le> card (late T st) - 50 * ((tick + length ts) div every - tick div every - length logged) \<and>
    (\<forall>e \<in> set logged. \<exists>t \<in> set ts. raised (tn_execute t) st e)"
  using assms(1,3,4)
proof (induction ts arbitrary: tick st logged)
  case Nil
  then show ?case by (simp add: dwindles_refl)
next
  case (Cons t ts)
  obtain st1 es where one: "pass (tn_execute t) every (tn_reaped_at t) (tn_swept_at t) (Suc tick) st = (st1, es)" by force
  obtain fs where rest: "passes every (Suc tick) ts st1 = (st', fs)" and logged: "logged = es @ fs"
    using Cons.prems(3) one by (auto split: prod.splits)
  have "steady T (tn_execute t)" "T \<le> tn_reaped_at t" using Cons.prems(1) by simp_all
  note first = pass_progress [OF this Cons.prems(2) one]
  then have "store_ok st1" by (simp add: dwindles_def)
  note ih = Cons.IH [OF _ this rest, OF Cons.prems(1)]
  have tick: "Suc tick div every = tick div every + (if Suc tick mod every = 0 then 1 else 0)"
    by (simp add: div_Suc)
  have le: "Suc tick div every \<le> (Suc tick + length ts) div every" by (simp add: div_le_mono)
  have "dwindles T st st'" using first ih by (auto intro: dwindles_trans)
  moreover have "length logged \<le> length (t # ts)" using first ih by (simp add: logged)
  moreover have "card (ready st') \<le> card (ready st) - 10 * (length (t # ts) - length logged)"
    using shrinks_add [of "card (ready st1)" "card (ready st)" 10 1 "length es" "card (ready st')" "length ts" "length fs"]
      first ih by (simp add: logged)
  moreover have "card (late T st') \<le> card (late T st) - 50 * ((tick + length (t # ts)) div every - tick div every - length logged)"
  proof -
    have "(tick + length (t # ts)) div every - tick div every =
        (if Suc tick mod every = 0 then 1 else 0) + ((Suc tick + length ts) div every - Suc tick div every)"
      using tick le by simp
    then show ?thesis
      using shrinks_add [of "card (late T st1)" "card (late T st)" 50 "if Suc tick mod every = 0 then 1 else 0" "length es"
          "card (late T st')" "(Suc tick + length ts) div every - Suc tick div every" "length fs"]
        first ih by (simp add: logged)
  qed
  moreover have "evolves st st1" using first by (simp add: dwindles_def)
  then have "\<forall>e \<in> set logged. \<exists>u \<in> set (t # ts). raised (tn_execute u) st e"
    using first ih raised_later [OF \<open>evolves st st1\<close>] unfolding logged set_append by (metis Un_iff list.set_intros)
  ultimately show ?case by blast
qed

text \<open>
  C18. The worker makes progress.  Left alone with the store, and whatever its executions do, a pass that
  logs no exception takes ten invocations off the ready queue, or all of them where there are fewer,
  and those requested first are run first: no invocation is run while one requested before it stays
  ready.  When the reaper's turn comes, once in every so many passes as the two intervals give, with
  the poll at least a hundredth of a second, fifty of the leases that ended before \<open>T\<close>, an instant
  before all the clocks it reads, are closed, or all of them.  Nothing becomes ready or late again, so
  after enough passes without exception nothing is ready and no such lease is open.  An exception
  spoils at most the pass it ends, and it is always one that the execution of a ready invocation
  raised: neither the reaper nor the sweeper raises any.
\<close>

theorem the_worker_makes_progress:
  assumes "store_ok st" and "0 \<le> set_lease_milli cfg"
    and "\<forall>t \<in> set turns. T \<le> tn_reaped_at t \<and> (\<exists>draws. tn_execute t = dispatcher sha256 registry resolve_adapter cfg draws \<and>
      (\<forall>n. case draws n of (now, gate_at, done_at, leases) \<Rightarrow> T \<le> now \<and> T \<le> done_at))"
    and "run_worker True poll_ms reap_ms turns st = (st', logged)"
  shows "length (filter (\<lambda>r. inv_state r = READY) (invocations st')) \<le>
       length (filter (\<lambda>r. inv_state r = READY) (invocations st)) - 10 * (length turns - length logged) \<and>
     length (filter (lapsed T) (invocations st')) \<le> length (filter (lapsed T) (invocations st)) -
       50 * (length turns div nat (max 1 (reap_ms div max poll_ms 10)) - length logged) \<and>
     (\<forall>i q q' j r. get_invocation i st = Some q \<and> inv_state q = READY \<and>
       get_invocation i st' = Some q' \<and> inv_state q' \<notin> {READY, EXPIRED} \<and>
       get_invocation j st' = Some r \<and> inv_state r = READY \<longrightarrow>
       s_requested_at (inv_snap q) \<le> s_requested_at (inv_snap r)) \<and>
     (\<forall>e \<in> set logged. \<exists>t \<in> set turns. \<exists>n i s r calls s'. store_ok s \<and> evolves st s \<and>
       get_invocation i s = Some r \<and> inv_state r = READY \<and> tn_execute t n i s = (calls, Inl e, s'))"
proof -
  let ?every = "nat (max 1 (reap_ms div max poll_ms 10))"
  have every: "reap_every poll_ms reap_ms = ?every" "0 < ?every"
    by (simp_all add: reap_every_def)
  have steady: "steady T (tn_execute t) \<and> T \<le> tn_reaped_at t" if t: "t \<in> set turns" for t
  proof -
    from assms(3) t obtain draws where draws: "tn_execute t = dispatcher sha256 registry resolve_adapter cfg draws"
      "\<forall>n. case draws n of (now, gate_at, done_at, leases) \<Rightarrow> T \<le> now \<and> T \<le> done_at" and T: "T \<le> tn_reaped_at t" by blast
    have "steady T (dispatcher sha256 registry resolve_adapter cfg draws)"
    proof (rule dispatcher_steady [OF _ assms(2)])
      fix n now gate_at done_at lease validation_lease
      assume "draws n = (now, gate_at, done_at, lease, validation_lease)"
      with draws(2) [rule_format, of n] show "T \<le> now \<and> T \<le> done_at" by simp
    qed
    with draws(1) T show ?thesis by simp
  qed
  have "passes ?every 0 turns st = (st', logged)"
    using assms(4) every(1) by (simp add: run_worker_def)
  note run = loop_progress [OF steady every(2) assms(1) this]
  then have ok: "store_ok st'" by (simp add: dwindles_def)
  have order: "in_order st st'" using run by (simp add: dwindles_def)
  have "\<forall>e \<in> set logged. \<exists>t \<in> set turns. \<exists>n i s r calls s'. store_ok s \<and> evolves st s \<and>
       get_invocation i s = Some r \<and> inv_state r = READY \<and> tn_execute t n i s = (calls, Inl e, s')"
    using run unfolding raised_def ready_def by blast
  then show ?thesis
    using run order unfolding in_order_def card_ready(1) [OF assms(1)] card_ready(1) [OF ok]
      card_late(1) [OF assms(1)] card_late(1) [OF ok] by (simp, blast)
qed

end
