(* ===== verification/Worker_Witnesses.thy ===== *)
theory Worker_Witnesses
  imports Worker_Progress Scenario
begin

text \<open>
  The worker at two stores of the scenario: the one in which one invocation is ready, and the one in
  which it is executing, with the clock past the end of its lease.
\<close>

definition one_turn :: "turn list" where
  "one_turn = [\<lparr>tn_execute = dispatcher sha0 tools adapters cfg (\<lambda>n. (3000, 4000, 4500, 900, 901)),
     tn_reaped_at = 5000, tn_swept_at = 5000\<rparr>]"

definition late_turn :: "turn list" where
  "late_turn = [\<lparr>tn_execute = dispatcher sha0 tools adapters cfg (\<lambda>n. (70000, 70000, 70000, 902, 903)),
     tn_reaped_at = 70000, tn_swept_at = 70000\<rparr>]"

lemma rows_of_the_scenario:
  "store_ok st3" "invocations st3 = [at (approved READY)]" "store_ok st4" "invocations st4 = [at working]"
  using decided_st3 claimed_st4 by (auto simp: holds_def)

text \<open>Where nothing is ready or awaits approval, nothing is swept.\<close>

lemma nothing_to_sweep:
  assumes "\<And>r. r \<in> set (invocations st) \<Longrightarrow> inv_state r \<notin> {AWAITING_APPROVAL, READY}"
  shows "expire_stale now limit st = (Inr 0, st)"
  by (rule sweeper_starves)
    (use assms in \<open>auto simp: sweep_candidates_def list_all_iff dest!: in_set_takeD\<close>)

lemma one_turn_runs: "run_worker True 1000 1000 one_turn st3 = (st5, [])"
proof -
  from ran_st5 obtain calls cols where
    ran: "run_claimed sha0 tools adapters cfg 4000 4500 900 901 101 st4 = (calls, Inr SUCCEEDED, st5)"
    and st5: "holds cols [yes (next_id st2)] st5" "state cols = SUCCEEDED" by blast
  have "execute_once sha0 tools adapters cfg 3000 4000 4500 900 901 101 st3 = (calls, Inr SUCCEEDED, st5)"
    using claimed_st4 ran by (simp add: execute_once_def session_def)
  then have polled: "dispatch_ready (dispatcher sha0 tools adapters cfg (\<lambda>n. (3000, 4000, 4500, 900, 901))) st3 = (Inr 1, st5)"
    by (simp add: dispatch_ready_def ready_ids_def rows_of_the_scenario dispatcher_def)
  have rows: "invocations st5 = [at cols]" using st5(1) by (simp add: holds_def)
  have "reap_expired_leases 5000 50 st5 = (Inr 0, st5)"
    using st5(2) by (simp add: reap_expired_leases_def reap_rows_def expired_leases_def rows lapsed_def session_def)
  moreover have "expire_stale 5000 100 st5 = (Inr 0, st5)"
    by (rule nothing_to_sweep) (use rows st5(2) in auto)
  ultimately show ?thesis
    using polled by (simp add: run_worker_def one_turn_def reap_every_def pass_def)
qed

lemma late_turn_runs: "\<exists>st'. run_worker True 1000 1000 late_turn st4 = (st', [])"
proof -
  let ?rows = "expired_leases 70000 50 st4"
  have one: "?rows = [at working]"
    by (simp add: expired_leases_def rows_of_the_scenario lapsed_def)
  from reap_sweep_run [OF rows_of_the_scenario(3), of 70000 50] obtain st' where
    reap: "reap_expired_leases 70000 50 st4 = (Inr 1, st')" and
    closed: "\<exists>r'. get_invocation 101 st' = Some r' \<and> reaped (at working) r'" and
    frame: "\<forall>j. j \<noteq> 101 \<longrightarrow> get_invocation j st' = get_invocation j st4"
    by (auto simp: one)
  have ok: "store_ok st'"
    using reap_progress [OF rows_of_the_scenario(3) order_refl reap] by (simp add: dwindles_def)
  have "expire_stale 70000 100 st' = (Inr 0, st')"
  proof (rule nothing_to_sweep)
    fix r assume "r \<in> set (invocations st')"
    from get_invocation_row [OF ok this] have r: "get_invocation (inv_id r) st' = Some r" .
    show "inv_state r \<notin> {AWAITING_APPROVAL, READY}"
    proof (cases "inv_id r = 101")
      case True
      with closed r show ?thesis by (auto simp: reaped_def)
    next
      case False
      with frame r have "r \<in> set (invocations st4)" by (auto dest!: get_invocationD)
      with False show ?thesis by (simp add: rows_of_the_scenario)
    qed
  qed
  moreover have "dispatch_ready (dispatcher sha0 tools adapters cfg (\<lambda>n. (70000, 70000, 70000, 902, 903))) st4 = (Inr 0, st4)"
    by (simp add: dispatch_ready_def ready_ids_def rows_of_the_scenario)
  ultimately have "run_worker True 1000 1000 late_turn st4 = (st', [])"
    using reap by (simp add: run_worker_def late_turn_def reap_every_def pass_def)
  then show ?thesis ..
qed

theorem the_worker_makes_progress_witness:
  "(\<exists>st'. run_worker True 1000 1000 one_turn st3 = (st', []) \<and>
     length (filter (\<lambda>r. inv_state r = READY) (invocations st3)) = 1 \<and>
     length (filter (\<lambda>r. inv_state r = READY) (invocations st')) = 0) \<and>
   (\<exists>st'. run_worker True 1000 1000 late_turn st4 = (st', []) \<and>
     length (filter (lapsed 70000) (invocations st4)) = 1 \<and>
     length (filter (lapsed 70000) (invocations st')) = 0)"
proof
  have "\<forall>t \<in> set one_turn. 3000 \<le> tn_reaped_at t \<and> (\<exists>draws. tn_execute t = dispatcher sha0 tools adapters cfg draws \<and>
      (\<forall>n. case draws n of (now, gate_at, done_at, leases) \<Rightarrow> 3000 \<le> now \<and> 3000 \<le> done_at))"
    by (auto simp: one_turn_def intro!: exI [of _ "\<lambda>n. (3000, 4000, 4500, 900, 901)"])
  from the_worker_makes_progress [OF rows_of_the_scenario(1) _ this one_turn_runs]
  show "\<exists>st'. run_worker True 1000 1000 one_turn st3 = (st', []) \<and>
     length (filter (\<lambda>r. inv_state r = READY) (invocations st3)) = 1 \<and>
     length (filter (\<lambda>r. inv_state r = READY) (invocations st')) = 0"
    using one_turn_runs by (simp add: cfg_def one_turn_def rows_of_the_scenario)
next
  obtain st' where run: "run_worker True 1000 1000 late_turn st4 = (st', [])" using late_turn_runs ..
  have "\<forall>t \<in> set late_turn. 70000 \<le> tn_reaped_at t \<and> (\<exists>draws. tn_execute t = dispatcher sha0 tools adapters cfg draws \<and>
      (\<forall>n. case draws n of (now, gate_at, done_at, leases) \<Rightarrow> 70000 \<le> now \<and> 70000 \<le> done_at))"
    by (auto simp: late_turn_def intro!: exI [of _ "\<lambda>n. (70000, 70000, 70000, 902, 903)"])
  from the_worker_makes_progress [OF rows_of_the_scenario(3) _ this run]
  show "\<exists>st'. run_worker True 1000 1000 late_turn st4 = (st', []) \<and>
     length (filter (lapsed 70000) (invocations st4)) = 1 \<and>
     length (filter (lapsed 70000) (invocations st')) = 0"
    using run by (simp add: cfg_def late_turn_def rows_of_the_scenario lapsed_def)
qed

end
