(* ===== verification/Spec2Isabelle.thy ===== *)
theory Spec2Isabelle
  imports Witnesses Cmdb_Witnesses Knowledge_Witnesses Mention_Routes Evidence_Witnesses Proxmox_Witnesses
    Worker_Witnesses
begin

text \<open>
  ACOP, \<open>src/src/acop/\<close>: a service through which people and agents run operations on infrastructure, keep
  what is known of that infrastructure, and search the documents written about it.  Three subsystems share the
  principals, the audit trail and the errors.

  The \<^emph>\<open>tool framework\<close>.  A request names a tool; the policy engine decides; the request becomes a row, an
  invocation, that moves through a table of states; change-class tools wait for approvers; a worker claims a ready
  row with a lease, passes a last gate, calls the tool's adapter, checks and stores the output, validates, and
  closes the row; a reaper closes rows whose worker died; a sweeper expires approvals nobody used.

  The \<^emph>\<open>configuration database\<close> (CMDB).  Assets with identifiers, facts and relationships; every fact says who
  stated it and how far it may be trusted; a changed value closes the old row and opens a new one.

  The \<^emph>\<open>knowledge base\<close>.  A submitted document is screened for secrets and for instructions aimed at a model, cut
  into chunks that cite their place in the text, embedded and stored as a new version; only chunks of current versions
  of active documents are served.

  \<^bold>\<open>Theories, bottom up.\<close>

  \<^item> \<open>Prelude\<close>: results \<open>error + 'a\<close> with \<open>andThen\<close>, folds that may fail, row lookups and
    updates, and the locales of guarded operations and evolving states shared by the components.
  \<^item> \<open>Py_Strings\<close>: the string methods of Python the code uses (\<open>strip\<close>, \<open>lower\<close>, \<open>startswith\<close>).
    \<open>Regex\<close>: the constructs of \<open>re\<close> the detectors use, with a backtracking matcher and \<open>finditer\<close>.
    \<open>Text_Spans\<close>: slices, lines and their positions.  \<open>Json\<close>: JSON values and the canonical encoding of
    \<open>tools/envelope.py\<close>, with the proof that equal encodings come from equal values.
  \<^item> \<open>Redaction\<close> (\<open>core/redaction.py\<close>), \<open>Identity\<close> (\<open>auth/principal.py\<close>), \<open>Tool_Vocabulary\<close> and
    \<open>Roles\<close> (\<open>models/tool_vocabulary.py\<close>), \<open>Errors\<close> (\<open>tools/errors.py\<close>, \<open>core/exceptions.py\<close>),
    \<open>Authentication\<close> (\<open>auth/\<close>, \<open>api/deps.py\<close>, the validators of \<open>config/settings.py\<close>).

  \<^bold>\<open>Tool framework.\<close>

  \<^item> \<open>Contract\<close> (\<open>tools/contract.py\<close>): the declaration of a tool and the checks at import.
    \<open>Policy\<close> (\<open>tools/policy.py\<close>): the gates of a request.  \<open>Envelope\<close> (\<open>tools/envelope.py\<close>): what
    an approver signs.
  \<^item> \<open>Store\<close> (\<open>models/tool.py\<close>, \<open>models/audit.py\<close>): the tables as a record of lists of rows; every
    CHECK constraint, foreign key and unique index is a guard of the write, its violation the
    error \<open>IntegrityError\<close>; \<open>session\<close> keeps the new store or rolls back.
  \<^item> \<open>State\<close> (\<open>services/tools/state.py\<close>): compare-and-set moves, claim, gate record, release.
    \<open>Invariants\<close>: the invariant \<open>store_ok\<close> of the tables, the order \<open>evolves\<close> between stores, and
    that each move keeps the one and respects the other.
  \<^item> \<open>Invocation\<close>, \<open>Creation\<close> (\<open>services/tools/invocation.py\<close>), \<open>Approval\<close>
    (\<open>services/tools/approval.py\<close>), \<open>Sanitize\<close>, \<open>Dispatcher\<close>, \<open>Claims\<close>, \<open>Reaper\<close>, \<open>Reconciliation\<close> (the
    files of the same name; \<open>Claims\<close> is about the lease), \<open>Registry\<close> (\<open>tools/registry.py\<close>, \<open>api/routes/tools.py\<close>),
    \<open>Catalog\<close> (\<open>tools/catalog/\<close>), \<open>Routes\<close> (\<open>api/routes/tool_invocations.py\<close>).
  \<^item> \<open>Upstream_Values\<close>, \<open>Proxmox_Projection\<close> (\<open>tools/adapters/proxmox/projection.py\<close>,
    \<open>tools/catalog/proxmox_schemas.py\<close>): coercions, the ten projections and the output models; \<open>Proxmox\<close>
    (\<open>endpoints.py\<close>, \<open>errors.py\<close>): the allow-list of paths; \<open>Proxmox_Adapter\<close> (\<open>client.py\<close>, \<open>identity.py\<close>,
    \<open>adapter.py\<close>): transport, routing and the adapter as a conversation with a host that may answer anything.
    \<open>Proxmox_Facts\<close> proves the adapter for any reader that keeps the contract of the locale \<open>reader\<close> and
    interprets it on the transport; \<open>Proxmox_Reads\<close>: what may be asked, that a report rests on answers, is of
    the declared model, and is about the guest that was named; \<open>Proxmox_Witnesses\<close>.  The dispatcher's
    adapter stays a parameter, so this one is not composed with it: its reports hold binary floats, the
    rows of the framework thousandths.
  \<^item> \<open>Lifecycle\<close>: the whole framework as a step relation on worlds (tables, workers that hold a
    claim, adapter runs so far); an arbitrary interleaving of requests, decisions, claims, runs,
    sweeps, cancellations and restarts.  The properties about all reachable worlds are there.
  \<^item> \<open>Worker\<close> (\<open>services/tools/worker.py\<close>): the polling loop; every pass of it is a sequence of steps of
    \<open>Lifecycle\<close>.  \<open>Worker_Progress\<close>: it gets its work done, ten ready invocations with every pass that
    logs no exception, the oldest first, and fifty dead leases with every turn of the reaper; every exception
    logged was raised by an execution.  \<open>Worker_Witnesses\<close>.
  \<^item> \<open>Scenario\<close> and \<open>Witnesses\<close>: one concrete run and the properties applied to it.

  \<^bold>\<open>Configuration database.\<close>

  \<^item> \<open>Provenance\<close> (\<open>models/provenance.py\<close>, \<open>services/provenance.py\<close>) and \<open>Cmdb_Vocabulary\<close>
    (\<open>models/vocabulary.py\<close>): what a source may state, normalisers, namespaces, edge types.  \<open>Value_Screen\<close>
    (\<open>services/value_screen.py\<close>).  \<open>Cmdb\<close> (\<open>models/asset.py\<close>, \<open>fact.py\<close>, \<open>relationship.py\<close>): the tables and
    their constraints.
  \<^item> \<open>Facts\<close>, \<open>Fact_History\<close>, \<open>Fact_Trust\<close> (\<open>services/fact.py\<close>): assertion refines the assignment of a
    value, history is kept, the effective value is earned by a rank; whether two values are
    the same is stated on the rows (\<open>says\<close>), apart from the test the code makes.  \<open>Edges\<close> (\<open>services/relationship.py\<close>),
    \<open>Identity_Resolver\<close> (\<open>services/identity_resolver.py\<close>), \<open>Assets\<close> (\<open>services/asset.py\<close>).
  \<^item> \<open>Cmdb_Routes\<close> (\<open>api/routes/cmdb_*.py\<close>, \<open>api/transaction.py\<close>): the handlers with their role, transaction and
    audit record.  \<open>Cmdb_Life\<close>: every sequence of calls keeps the tables well formed and their history; \<open>Cmdb_Links\<close>:
    also every row check and every foreign key the models declare, with \<open>constraints_hold\<close> writing them out.  \<open>Cmdb_Scenario\<close> and
    \<open>Cmdb_Witnesses\<close>: a concrete run and the properties applied to it.

  \<^bold>\<open>Knowledge base.\<close>

  \<^item> \<open>Chunking\<close> (\<open>services/knowledge/chunking.py\<close>); \<open>Chunking_Facts\<close>: chunks end, cite the text, fit and cover it,
    and the text they are cut from is in a canonical form defined line by line (\<open>canonical_lines\<close>).
    \<open>Screening\<close> (\<open>services/knowledge/screening.py\<close>): no match of a detector goes unreported.
  \<^item> \<open>Knowledge_Store\<close> (\<open>models/knowledge.py\<close>, \<open>models/embedding.py\<close>): tables and constraints.  \<open>Ingest\<close>
    (\<open>services/knowledge/ingest.py\<close>); \<open>Ingest_Facts\<close>: each way a submission can end and what it leaves;
    \<open>Ingest_History\<close>: submissions that follow each other.
  \<^item> \<open>Knowledge_Catalog\<close> (\<open>services/knowledge/catalog.py\<close>, \<open>spaces.py\<close>).  \<open>Knowledge_Life\<close>
    (\<open>api/routes/knowledge_*.py\<close>): the handlers and the states they reach; \<open>Knowledge_Invariants\<close>: what all of them
    keep; \<open>Knowledge_Scenario\<close> and \<open>Knowledge_Witnesses\<close>: a concrete run and the properties applied to it.
  \<^item> \<open>Mentions\<close>, \<open>Mention_Routes\<close> (\<open>services/knowledge/mentions.py\<close> and its routes): exact identifiers of the CMDB in
    the text of chunks; \<open>Mentions_Witnesses\<close>.
  \<^item> \<open>Retrieval\<close> (\<open>services/knowledge/retrieval.py\<close>), \<open>Retrieval_Facts\<close>: what a search may show, when it may call
    itself complete, how legs are fused.  \<open>Evidence\<close> (\<open>services/knowledge/evidence.py\<close>, the search routes): the
    prompt and the check of an answer, composed with retrieval; \<open>Evidence_Witnesses\<close>.

  \<^bold>\<open>Conventions.\<close>  Times are \<open>int\<close> in milliseconds and arguments of the operations, as are fresh
  lease identifiers; identifiers of rows are numbers drawn from a counter of the store.  Each \<open>async\<close> method runs
  one or more transactions, each on the current store; interleaving happens between them.  SHA-256 and HMAC
  are parameters; a property about digests names collision explicitly.  The adapter is a parameter, a function from
  the request and the attempt to a reply, with nothing assumed of it; so are the embedder and what Pydantic derives
  from a model class (its JSON schema, its field names, its verdict on an input), of the Proxmox adapter what the
  HTTP library delivers, the clock, \<open>json.loads\<close> and how Python prints and reads a float, and of a search the walk of
  the vector index, the distance of vectors, the rank of a text and whether a statement is cancelled.  Floats of the
  framework are rationals in thousandths.  The retry loop needs no fuel: it
  recurses on the attempts left.  The hard split of a chunk is \<open>partial_function (option)\<close>, and when it ends is
  itself a property.

  \<^bold>\<open>Not modelled.\<close>  The end of the worker (\<open>stop\<close> cancels a task of the event loop), the Ollama client, response schemas, start-up wiring,
  middleware, health, logging, migrations and the scripts that drive a deployment.  Reads and writes of PostgreSQL
  below the level of committed transactions are not modelled either: a write skew between two approvers is not a
  step of \<open>Lifecycle\<close>.
\<close>

end
